(* ===== verification/Prelude.thy ===== *)
theory Prelude
  imports Main "HOL-Library.Word"
begin

text \<open>
  What the component theories share: the C integer types as words, the writes
  through a pointer into a buffer as list operations, the C \<open>for\<close> loop with
  early return as \<open>for_each\<close>, and the lemmas about them. The collections
  \<open>word_nat\<close> (reading word arithmetic as arithmetic of naturals) and
  \<open>buffer\<close> (lengths and cells of updated buffers) are filled here and in the
  components.
\<close>

unbundle bit_operations_syntax

named_theorems word_nat \<open>word arithmetic read as arithmetic of naturals\<close>
named_theorems buffer \<open>lengths and cells of buffers after writes\<close>

section \<open>Machine integers\<close>

type_synonym u8 = "8 word"
type_synonym u16 = "16 word"
type_synonym u32 = "32 word"
type_synonym u64 = "64 word"

abbreviation (input) UINT32_MAX :: u32 where "UINT32_MAX \<equiv> 4294967295"
abbreviation (input) UINT64_MAX :: u64 where "UINT64_MAX \<equiv> 18446744073709551615"

lemma unat_u8_less: "unat (x :: u8) < 256"
  using unsigned_less [of x] by simp

lemma unat_u16_less: "unat (x :: u16) < 65536"
  using unsigned_less [of x] by simp

lemma unat_u32_less: "unat (x :: u32) < 4294967296"
  using unsigned_less [of x] by simp

lemma unat_u64_less: "unat (x :: u64) < 18446744073709551616"
  using unsigned_less [of x] by simp

lemma unat_add_exact [word_nat]:
  "unat (a :: 'a::len word) + unat b < 2 ^ LENGTH('a) \<Longrightarrow> unat (a + b) = unat a + unat b"
  by (simp add: unat_word_ariths)

lemma unat_mult_exact [word_nat]:
  "unat (a :: 'a::len word) * unat b < 2 ^ LENGTH('a) \<Longrightarrow> unat (a * b) = unat a * unat b"
  by (simp add: unat_word_ariths)

lemma unat_sub_exact [word_nat]:
  "(b :: 'a::len word) \<le> a \<Longrightarrow> unat (a - b) = unat a - unat b"
  by (rule unat_sub)

lemma unat_sub_of_nat [word_nat]:
  "k \<le> unat (x :: 'a::len word) \<Longrightarrow> unat (x - word_of_nat k) = unat x - k"
proof -
  assume k: "k \<le> unat x"
  then have "unat (word_of_nat k :: 'a word) = k"
    using le_less_trans [OF k unsigned_less] by (simp add: unat_of_nat)
  with k show ?thesis by (simp add: unat_sub_exact word_le_nat_alt)
qed

lemma unat_suc_below [word_nat]:
  "(x :: 'a::len word) < y \<Longrightarrow> unat (x + 1) = Suc (unat x)"
  by unat_arith

lemma u32_to_u64_unat [simp, word_nat]: "unat (ucast (x :: u32) :: u64) = unat x"
proof -
  have "unat x < 18446744073709551616" using unat_u32_less [of x] by linarith
  then show ?thesis by (simp add: unsigned_ucast_eq take_bit_nat_eq_self)
qed

lemma u32_to_u64_less [simp]: "(ucast (x :: u32) :: u64) < ucast (y :: u32) \<longleftrightarrow> x < y"
  by (simp add: word_less_nat_alt)

lemma u32_to_u64_le [simp]: "(ucast (x :: u32) :: u64) \<le> ucast (y :: u32) \<longleftrightarrow> x \<le> y"
  by (simp add: word_le_nat_alt)

section \<open>Buffers\<close>

text \<open>
  A buffer is a list of bytes. \<open>splice bs k sub\<close> is the buffer after a callee that
  was handed the pointer \<open>&bs[k]\<close> has left \<open>sub\<close> in the cells it may write;
  \<open>sub_buffer bs k n\<close> is the \<open>n\<close>-byte window the callee sees.
\<close>

definition sub_buffer :: "'a list \<Rightarrow> nat \<Rightarrow> nat \<Rightarrow> 'a list" where
  "sub_buffer bs k n = take n (drop k bs)"

definition splice :: "'a list \<Rightarrow> nat \<Rightarrow> 'a list \<Rightarrow> 'a list" where
  "splice bs k sub = take k bs @ sub @ drop (k + length sub) bs"

lemma length_sub_buffer [simp, buffer]:
  "k + n \<le> length bs \<Longrightarrow> length (sub_buffer bs k n) = n"
  by (simp add: sub_buffer_def)

lemma nth_sub_buffer [simp, buffer]:
  "k + n \<le> length bs \<Longrightarrow> i < n \<Longrightarrow> sub_buffer bs k n ! i = bs ! (k + i)"
  by (simp add: sub_buffer_def)

lemma length_splice [simp, buffer]:
  "k + length sub \<le> length bs \<Longrightarrow> length (splice bs k sub) = length bs"
  by (simp add: splice_def)

lemma nth_splice [buffer]:
  assumes "k + length sub \<le> length bs" and "i < length bs"
  shows "splice bs k sub ! i =
    (if k \<le> i \<and> i < k + length sub then sub ! (i - k) else bs ! i)"
  using assms by (auto simp: splice_def nth_append)

text \<open>A loop that stores \<open>f j\<close> into cell \<open>k + j\<close> for the indices \<open>j\<close> of a range.\<close>

fun write_cells :: "nat \<Rightarrow> (nat \<Rightarrow> 'a) \<Rightarrow> nat \<Rightarrow> 'a list \<Rightarrow> 'a list" where
  "write_cells k f 0 bs = bs"
| "write_cells k f (Suc n) bs = (write_cells k f n bs)[k + n := f n]"

lemma length_write_cells [simp, buffer]: "length (write_cells k f n bs) = length bs"
  by (induction n) simp_all

lemma nth_write_cells [buffer]:
  "k + n \<le> length bs \<Longrightarrow> i < length bs \<Longrightarrow>
    write_cells k f n bs ! i = (if k \<le> i \<and> i < k + n then f (i - k) else bs ! i)"
  by (induction n) (auto simp: nth_list_update)

lemma nth_write_cells_other [buffer]:
  "i < k \<or> k + n \<le> i \<Longrightarrow> write_cells k f n bs ! i = bs ! i"
  by (induction n) auto

text \<open>A sum over a list when one element is replaced.\<close>

lemma sum_map_update:
  "i < length xs \<Longrightarrow> sum_list (map f (xs[i := x])) + f (xs ! i) = sum_list (map f xs) + (f x :: 'b::comm_monoid_add)"
proof (induction xs arbitrary: i)
  case (Cons a xs)
  then show ?case by (cases i) (auto simp: ac_simps)
qed simp

section \<open>Loops with early return\<close>

text \<open>
  \<open>for_each xs body s\<close> runs the body of a C \<open>for\<close> loop over the values \<open>xs\<close> of
  its counter; \<open>Inl e\<close> is the \<open>return\<close> of an error from inside the loop.
\<close>

fun for_each :: "'i list \<Rightarrow> ('i \<Rightarrow> 's \<Rightarrow> 'e + 's) \<Rightarrow> 's \<Rightarrow> 'e + 's" where
  "for_each [] body s = Inr s"
| "for_each (x # xs) body s =
     (case body x s of Inl e \<Rightarrow> Inl e | Inr s' \<Rightarrow> for_each xs body s')"

text \<open>The counter values of \<open>for (x = lo; x < hi; ++x)\<close> at the width of the counter.\<close>

definition word_range :: "nat \<Rightarrow> nat \<Rightarrow> 'a::len word list" where
  "word_range lo hi = map word_of_nat [lo ..< hi]"

lemma unat_in_word_range:
  "hi \<le> 2 ^ LENGTH('a) \<Longrightarrow> (x :: 'a::len word) \<in> set (word_range lo hi) \<longleftrightarrow> lo \<le> unat x \<and> unat x < hi"
  by (force simp: word_range_def unat_of_nat intro!: image_eqI [where x = "unat x"])

lemma word_range_Cons:
  "lo < hi \<Longrightarrow> word_range lo hi = word_of_nat lo # word_range (Suc lo) hi"
  by (simp add: word_range_def upt_conv_Cons)

lemma word_range_Nil [simp]: "hi \<le> lo \<Longrightarrow> word_range lo hi = []"
  by (simp add: word_range_def)

lemma for_each_append:
  "for_each (xs @ ys) body s =
     (case for_each xs body s of Inl e \<Rightarrow> Inl e | Inr s' \<Rightarrow> for_each ys body s')"
  by (induction xs arbitrary: s) (auto split: sum.splits)

text \<open>An invariant over the counter values already done and the loop's state.\<close>

lemma for_each_invariant:
  assumes "for_each xs body s = Inr t" and "I [] s"
    and step: "\<And>ys y zs u v. xs = ys @ y # zs \<Longrightarrow> I ys u \<Longrightarrow> body y u = Inr v \<Longrightarrow> I (ys @ [y]) v"
  shows "I xs t"
proof -
  have "for_each zs body u = Inr t \<Longrightarrow> xs = ys @ zs \<Longrightarrow> I ys u \<Longrightarrow> I xs t" for ys zs u
  proof (induction zs arbitrary: ys u)
    case Nil
    then show ?case by simp
  next
    case (Cons z zs)
    from Cons.prems(1) obtain v where v: "body z u = Inr v" and rest: "for_each zs body v = Inr t"
      by (auto split: sum.splits)
    have "I (ys @ [z]) v"
      using Cons.prems(2,3) v by (auto intro: step)
    moreover have "xs = (ys @ [z]) @ zs" using Cons.prems(2) by simp
    ultimately show ?case using Cons.IH rest by blast
  qed
  from this [OF assms(1), of "[]"] show ?thesis using assms(2) by simp
qed

text \<open>A loop whose body never changes the state only checks each value.\<close>

lemma for_each_check:
  assumes "\<And>x u v. x \<in> set xs \<Longrightarrow> body x u = Inr v \<Longrightarrow> v = u"
  shows "for_each xs body s = Inr t \<longleftrightarrow> t = s \<and> (\<forall>x \<in> set xs. body x s = Inr s)"
  using assms
proof (induction xs)
  case Nil
  then show ?case by auto
next
  case (Cons x xs)
  then show ?case by (cases "body x s") auto
qed

lemma for_each_skip:
  "(\<And>x. x \<in> set xs \<Longrightarrow> body x s = Inr s) \<Longrightarrow> for_each xs body s = Inr s"
  by (induction xs) auto

text \<open>Every value of a loop that ends normally was given to the body.\<close>

lemma for_each_ran:
  assumes "for_each xs body s = Inr t" and "x \<in> set xs"
  shows "\<exists>u v. body x u = Inr v"
  using assms by (induction xs arbitrary: s) (auto split: sum.splits)

end
