(* ===== verification/Codec.thy ===== *)
theory Codec
  imports Prelude
begin

text \<open>
  libs/boringfs/codec.c and the on-disk structures of
  libs/boringfs/include/boring/boringfs.h: the little-endian loads and stores,
  and the encoders and decoders of the superblock, the extents, the object
  records and the directory records. A pointer and its length are one list
  (\<open>None\<close> for NULL); an encoder returns its status with the buffer it leaves
  behind, a decoder the structure it fills in, or \<open>None\<close> where it returns false.
  The locale \<open>record_codec\<close> states what an encoder and its decoder owe each
  other, and each record format interprets it.
\<close>

section \<open>On-disk structures\<close>

abbreviation (input) BORINGFS_BLOCK_SIZE :: nat where "BORINGFS_BLOCK_SIZE \<equiv> 4096"
abbreviation (input) BORINGFS_MAX_EXTENTS :: nat where "BORINGFS_MAX_EXTENTS \<equiv> 8"
abbreviation (input) BORINGFS_MAX_FILENAME :: nat where "BORINGFS_MAX_FILENAME \<equiv> 240"

record boringfs_extent =
  ext_start_block :: u32
  ext_block_count :: u32

record boringfs_superblock =
  sb_magic :: "u8 list"
  sb_format_major :: u16
  sb_format_minor :: u16
  sb_header_size :: u16
  sb_block_shift :: u8
  sb_flags :: u8
  sb_total_blocks :: u32
  sb_bitmap_start :: u32
  sb_bitmap_blocks :: u32
  sb_object_table_start :: u32
  sb_object_table_blocks :: u32
  sb_object_count :: u32
  sb_root_object_id :: u32
  sb_data_start :: u32
  sb_object_record_size :: u16
  sb_directory_record_size :: u16
  sb_feature_compat :: u32
  sb_feature_ro_compat :: u32
  sb_feature_incompat :: u32

record boringfs_object =
  obj_state :: u8
  obj_type :: u8
  obj_flags :: u16
  obj_object_id :: u32
  obj_parent_object_id :: u32
  obj_extent_count :: u16
  obj_size_bytes :: u64
  obj_extents :: "boringfs_extent list"

record boringfs_directory_record =
  dir_object_id :: u32
  dir_name_length :: u16
  dir_type_hint :: u8
  dir_flags :: u8
  dir_name :: "u8 list"

section \<open>Little-endian loads and stores\<close>

definition load_le16 :: "u8 list \<Rightarrow> nat \<Rightarrow> u16" where
  "load_le16 bs at = ucast (bs ! at) OR push_bit 8 (ucast (bs ! (at + 1)))"

definition load_le32 :: "u8 list \<Rightarrow> nat \<Rightarrow> u32" where
  "load_le32 bs at =
     ucast (bs ! at) OR push_bit 8 (ucast (bs ! (at + 1)))
     OR push_bit 16 (ucast (bs ! (at + 2))) OR push_bit 24 (ucast (bs ! (at + 3)))"

definition load_le64 :: "u8 list \<Rightarrow> nat \<Rightarrow> u64" where
  "load_le64 bs at =
     fold (\<lambda>index value. value OR push_bit (index * 8) (ucast (bs ! (at + index)))) [0..<8] 0"

definition store_le16 :: "u8 list \<Rightarrow> nat \<Rightarrow> u16 \<Rightarrow> u8 list" where
  "store_le16 bs at v = bs[at := ucast (v AND 0xff), at + 1 := ucast (drop_bit 8 v AND 0xff)]"

definition store_le32 :: "u8 list \<Rightarrow> nat \<Rightarrow> u32 \<Rightarrow> u8 list" where
  "store_le32 bs at v =
     bs[at := ucast (v AND 0xff), at + 1 := ucast (drop_bit 8 v AND 0xff),
        at + 2 := ucast (drop_bit 16 v AND 0xff), at + 3 := ucast (drop_bit 24 v AND 0xff)]"

definition store_le64 :: "u8 list \<Rightarrow> nat \<Rightarrow> u64 \<Rightarrow> u8 list" where
  "store_le64 bs at v = write_cells at (\<lambda>index. ucast (drop_bit (index * 8) v AND 0xff)) 8 bs"

definition zero_bytes :: "u8 list \<Rightarrow> nat \<Rightarrow> u8 list" where
  "zero_bytes bs n = write_cells 0 (\<lambda>_. 0) n bs"

section \<open>The superblock\<close>

definition boringfs_decode_superblock :: "u8 list option \<Rightarrow> boringfs_superblock option" where
  "boringfs_decode_superblock bytes = (case bytes of
     None \<Rightarrow> None
   | Some bs \<Rightarrow>
       if length bs < 128 then None
       else Some \<lparr>
         sb_magic = map (\<lambda>index. bs ! index) [0..<8],
         sb_format_major = load_le16 bs 8,
         sb_format_minor = load_le16 bs 10,
         sb_header_size = load_le16 bs 12,
         sb_block_shift = bs ! 14,
         sb_flags = bs ! 15,
         sb_total_blocks = load_le32 bs 16,
         sb_bitmap_start = load_le32 bs 20,
         sb_bitmap_blocks = load_le32 bs 24,
         sb_object_table_start = load_le32 bs 28,
         sb_object_table_blocks = load_le32 bs 32,
         sb_object_count = load_le32 bs 36,
         sb_root_object_id = load_le32 bs 40,
         sb_data_start = load_le32 bs 44,
         sb_object_record_size = load_le16 bs 48,
         sb_directory_record_size = load_le16 bs 50,
         sb_feature_compat = load_le32 bs 52,
         sb_feature_ro_compat = load_le32 bs 56,
         sb_feature_incompat = load_le32 bs 60\<rparr>)"

definition boringfs_encode_superblock ::
  "u8 list option \<Rightarrow> boringfs_superblock option \<Rightarrow> bool \<times> u8 list option" where
  "boringfs_encode_superblock bytes value = (case (bytes, value) of
     (Some bs0, Some v) \<Rightarrow>
       if length bs0 < BORINGFS_BLOCK_SIZE then (False, bytes)
       else
         let bs = zero_bytes bs0 BORINGFS_BLOCK_SIZE;
             bs = write_cells 0 (\<lambda>index. sb_magic v ! index) 8 bs;
             bs = store_le16 bs 8 (sb_format_major v);
             bs = store_le16 bs 10 (sb_format_minor v);
             bs = store_le16 bs 12 (sb_header_size v);
             bs = bs[14 := sb_block_shift v];
             bs = bs[15 := sb_flags v];
             bs = store_le32 bs 16 (sb_total_blocks v);
             bs = store_le32 bs 20 (sb_bitmap_start v);
             bs = store_le32 bs 24 (sb_bitmap_blocks v);
             bs = store_le32 bs 28 (sb_object_table_start v);
             bs = store_le32 bs 32 (sb_object_table_blocks v);
             bs = store_le32 bs 36 (sb_object_count v);
             bs = store_le32 bs 40 (sb_root_object_id v);
             bs = store_le32 bs 44 (sb_data_start v);
             bs = store_le16 bs 48 (sb_object_record_size v);
             bs = store_le16 bs 50 (sb_directory_record_size v);
             bs = store_le32 bs 52 (sb_feature_compat v);
             bs = store_le32 bs 56 (sb_feature_ro_compat v);
             bs = store_le32 bs 60 (sb_feature_incompat v)
         in (True, Some bs)
   | _ \<Rightarrow> (False, bytes))"

section \<open>Extents\<close>

definition boringfs_decode_extent :: "u8 list option \<Rightarrow> boringfs_extent option" where
  "boringfs_decode_extent bytes = (case bytes of
     None \<Rightarrow> None
   | Some bs \<Rightarrow>
       if length bs < 8 then None
       else Some \<lparr>ext_start_block = load_le32 bs 0, ext_block_count = load_le32 bs 4\<rparr>)"

definition boringfs_encode_extent ::
  "u8 list option \<Rightarrow> boringfs_extent option \<Rightarrow> bool \<times> u8 list option" where
  "boringfs_encode_extent bytes value = (case (bytes, value) of
     (Some bs, Some v) \<Rightarrow>
       if length bs < 8 then (False, bytes)
       else (True, Some (store_le32 (store_le32 bs 0 (ext_start_block v)) 4 (ext_block_count v)))
   | _ \<Rightarrow> (False, bytes))"

section \<open>Object records\<close>

definition free_object_value_is_zero :: "boringfs_object \<Rightarrow> bool" where
  "free_object_value_is_zero v \<longleftrightarrow>
     \<not> (obj_type v \<noteq> 0 \<or> obj_flags v \<noteq> 0 \<or> obj_object_id v \<noteq> 0 \<or>
        obj_parent_object_id v \<noteq> 0 \<or> obj_extent_count v \<noteq> 0 \<or> obj_size_bytes v \<noteq> 0) \<and>
     (\<forall>index \<in> set [0..<BORINGFS_MAX_EXTENTS].
        \<not> (ext_start_block (obj_extents v ! index) \<noteq> 0 \<or>
           ext_block_count (obj_extents v ! index) \<noteq> 0))"

text \<open>The loop over the eight extents; a failed inner decode makes the whole decode fail.\<close>

fun decode_extents :: "u8 list \<Rightarrow> nat list \<Rightarrow> boringfs_extent list option" where
  "decode_extents bs [] = Some []"
| "decode_extents bs (index # rest) =
     (case boringfs_decode_extent (Some (sub_buffer bs (24 + index * 8) 8)) of
        None \<Rightarrow> None
      | Some e \<Rightarrow> (case decode_extents bs rest of
          None \<Rightarrow> None
        | Some es \<Rightarrow> Some (e # es)))"

definition boringfs_decode_object :: "u8 list option \<Rightarrow> boringfs_object option" where
  "boringfs_decode_object bytes = (case bytes of
     None \<Rightarrow> None
   | Some bs \<Rightarrow>
       if length bs < 128 then None
       else (case decode_extents bs [0..<BORINGFS_MAX_EXTENTS] of
         None \<Rightarrow> None
       | Some es \<Rightarrow> Some \<lparr>
           obj_state = bs ! 0,
           obj_type = bs ! 1,
           obj_flags = load_le16 bs 2,
           obj_object_id = load_le32 bs 4,
           obj_parent_object_id = load_le32 bs 8,
           obj_extent_count = load_le16 bs 12,
           obj_size_bytes = load_le64 bs 16,
           obj_extents = es\<rparr>))"

fun encode_extents :: "boringfs_extent list \<Rightarrow> nat list \<Rightarrow> u8 list \<Rightarrow> bool \<times> u8 list" where
  "encode_extents es [] bs = (True, bs)"
| "encode_extents es (index # rest) bs =
     (case boringfs_encode_extent (Some (sub_buffer bs (24 + index * 8) 8)) (Some (es ! index)) of
        (True, Some sub) \<Rightarrow> encode_extents es rest (splice bs (24 + index * 8) sub)
      | _ \<Rightarrow> (False, bs))"

definition boringfs_encode_object ::
  "u8 list option \<Rightarrow> boringfs_object option \<Rightarrow> bool \<times> u8 list option" where
  "boringfs_encode_object bytes value = (case (bytes, value) of
     (Some bs0, Some v) \<Rightarrow>
       if length bs0 < 128 then (False, bytes)
       else
         let bs = zero_bytes bs0 128 in
         if obj_state v = 0 then (free_object_value_is_zero v, Some bs)
         else if obj_state v \<noteq> 1 \<or> obj_extent_count v > 8 then (False, Some bs)
         else
           let bs = bs[0 := obj_state v];
               bs = bs[1 := obj_type v];
               bs = store_le16 bs 2 (obj_flags v);
               bs = store_le32 bs 4 (obj_object_id v);
               bs = store_le32 bs 8 (obj_parent_object_id v);
               bs = store_le16 bs 12 (obj_extent_count v);
               bs = store_le64 bs 16 (obj_size_bytes v);
               (ok, bs) = encode_extents (obj_extents v) [0..<unat (obj_extent_count v)] bs
           in (ok, Some bs)
   | _ \<Rightarrow> (False, bytes))"

section \<open>Directory records\<close>

definition unused_directory_value_is_zero :: "boringfs_directory_record \<Rightarrow> bool" where
  "unused_directory_value_is_zero v \<longleftrightarrow>
     \<not> (dir_name_length v \<noteq> 0 \<or> dir_type_hint v \<noteq> 0 \<or> dir_flags v \<noteq> 0) \<and>
     (\<forall>index \<in> set [0..<BORINGFS_MAX_FILENAME]. \<not> dir_name v ! index \<noteq> 0)"

definition boringfs_decode_directory_record ::
  "u8 list option \<Rightarrow> boringfs_directory_record option" where
  "boringfs_decode_directory_record bytes = (case bytes of
     None \<Rightarrow> None
   | Some bs \<Rightarrow>
       if length bs < 256 then None
       else Some \<lparr>
         dir_object_id = load_le32 bs 0,
         dir_name_length = load_le16 bs 4,
         dir_type_hint = bs ! 6,
         dir_flags = bs ! 7,
         dir_name = map (\<lambda>index. bs ! (8 + index)) [0..<BORINGFS_MAX_FILENAME]\<rparr>)"

definition boringfs_encode_directory_record ::
  "u8 list option \<Rightarrow> boringfs_directory_record option \<Rightarrow> bool \<times> u8 list option" where
  "boringfs_encode_directory_record bytes value = (case (bytes, value) of
     (Some bs0, Some v) \<Rightarrow>
       if length bs0 < 256 then (False, bytes)
       else
         let bs = zero_bytes bs0 256 in
         if dir_object_id v = 0 then (unused_directory_value_is_zero v, Some bs)
         else if dir_name_length v = 0 \<or> dir_name_length v > 240 then (False, Some bs)
         else
           let bs = store_le32 bs 0 (dir_object_id v);
               bs = store_le16 bs 4 (dir_name_length v);
               bs = bs[6 := dir_type_hint v];
               bs = bs[7 := dir_flags v];
               bs = write_cells 8 (\<lambda>index. dir_name v ! index) (unat (dir_name_length v)) bs
           in (True, Some bs)
   | _ \<Rightarrow> (False, bytes))"

section \<open>Loads read what stores wrote\<close>

lemma length_store [simp, buffer]:
  "length (store_le16 bs at h) = length bs"
  "length (store_le32 bs at w) = length bs"
  "length (store_le64 bs at d) = length bs"
  "length (zero_bytes bs n) = length bs"
  by (simp_all add: store_le16_def store_le32_def store_le64_def zero_bytes_def)

lemma low_byte_mask: "(0xff :: 'a::len word) = mask 8"
  by (simp add: mask_eq_exp_minus_1)

lemma le16_bytes:
  "ucast (ucast (v AND 0xff) :: u8) OR push_bit 8 (ucast (ucast (drop_bit 8 v AND 0xff) :: u8)) = (v :: u16)"
  by (rule bit_word_eqI) (auto simp: bit_simps low_byte_mask simp del: mask_numeral)

lemma le32_bytes:
  "ucast (ucast (v AND 0xff) :: u8) OR push_bit 8 (ucast (ucast (drop_bit 8 v AND 0xff) :: u8))
   OR push_bit 16 (ucast (ucast (drop_bit 16 v AND 0xff) :: u8))
   OR push_bit 24 (ucast (ucast (drop_bit 24 v AND 0xff) :: u8)) = (v :: u32)"
proof (rule bit_word_eqI)
  fix n assume "n < LENGTH(32)"
  then have "n < 32" by simp
  then consider "n < 8" | "8 \<le> n \<and> n < 16" | "16 \<le> n \<and> n < 24" | "24 \<le> n \<and> n < 32"
    by linarith
  then show "bit (ucast (ucast (v AND 0xff) :: u8) OR push_bit 8 (ucast (ucast (drop_bit 8 v AND 0xff) :: u8))
   OR push_bit 16 (ucast (ucast (drop_bit 16 v AND 0xff) :: u8))
   OR push_bit 24 (ucast (ucast (drop_bit 24 v AND 0xff) :: u8)) :: u32) n = bit v n"
    by cases (auto simp: bit_simps low_byte_mask simp del: mask_numeral)
qed

lemma le64_step:
  assumes "k < 8"
  shows "(take_bit (k * 8) v OR push_bit (k * 8) (ucast (ucast (drop_bit (k * 8) v AND 0xff) :: u8))) =
    (take_bit (Suc k * 8) v :: u64)"
proof (rule bit_word_eqI)
  fix n assume "n < LENGTH(64)"
  then show "bit (take_bit (k * 8) v OR push_bit (k * 8) (ucast (ucast (drop_bit (k * 8) v AND 0xff) :: u8))) n =
    bit (take_bit (Suc k * 8) v) n"
    by (cases "n < k * 8") (auto simp: bit_simps low_byte_mask simp del: mask_numeral)
qed

lemma load_store_le16:
  "at + 2 \<le> length bs \<Longrightarrow> load_le16 (store_le16 bs at v) at = v"
  by (simp add: load_le16_def store_le16_def le16_bytes)

lemma load_store_le32:
  "at + 4 \<le> length bs \<Longrightarrow> load_le32 (store_le32 bs at v) at = v"
  by (simp add: load_le32_def store_le32_def le32_bytes)

lemma load_store_le64:
  assumes "at + 8 \<le> length bs"
  shows "load_le64 (store_le64 bs at v) at = v"
proof -
  have "fold (\<lambda>index value. value OR push_bit (index * 8) (ucast (store_le64 bs at v ! (at + index))))
      [0..<k] 0 = take_bit (k * 8) v" if "k \<le> 8" for k
    using that
  proof (induction k)
    case 0
    then show ?case by simp
  next
    case (Suc k)
    have "store_le64 bs at v ! (at + k) = ucast (drop_bit (k * 8) v AND 0xff)"
      using Suc.prems assms by (simp add: store_le64_def nth_write_cells)
    then show ?case using Suc le64_step [of k v] by simp
  qed
  from this [of 8] show ?thesis using take_bit_length_eq [of v] by (simp add: load_le64_def)
qed

text \<open>A store leaves every load from other cells as it was.\<close>

lemma nth_store_other [buffer]:
  "i < at \<or> at + 2 \<le> i \<Longrightarrow> store_le16 bs at h ! i = bs ! i"
  "i < at \<or> at + 4 \<le> i \<Longrightarrow> store_le32 bs at w ! i = bs ! i"
  "i < at \<or> at + 8 \<le> i \<Longrightarrow> store_le64 bs at d ! i = bs ! i"
  by (auto simp: store_le16_def store_le32_def store_le64_def nth_write_cells_other)

lemma load_le16_cong:
  "bs ! at = cs ! at \<Longrightarrow> bs ! (at + 1) = cs ! (at + 1) \<Longrightarrow> load_le16 bs at = load_le16 cs at"
  by (simp add: load_le16_def)

lemma load_le32_cong:
  "(\<And>i. at \<le> i \<Longrightarrow> i < at + 4 \<Longrightarrow> bs ! i = cs ! i) \<Longrightarrow> load_le32 bs at = load_le32 cs at"
  by (simp add: load_le32_def)

lemma load_le64_cong:
  "(\<And>i. at \<le> i \<Longrightarrow> i < at + 8 \<Longrightarrow> bs ! i = cs ! i) \<Longrightarrow> load_le64 bs at = load_le64 cs at"
  unfolding load_le64_def by (rule fold_cong) auto

lemma load_le16_other [buffer]:
  "at + 2 \<le> j \<or> j < at \<Longrightarrow> load_le16 (bs[j := x]) at = load_le16 bs at"
  "at + 2 \<le> j \<or> j + 2 \<le> at \<Longrightarrow> load_le16 (store_le16 bs j h) at = load_le16 bs at"
  "at + 2 \<le> j \<or> j + 4 \<le> at \<Longrightarrow> load_le16 (store_le32 bs j w) at = load_le16 bs at"
  by (rule load_le16_cong; auto simp: buffer)+

lemma load_le32_other [buffer]:
  "at + 4 \<le> j \<or> j < at \<Longrightarrow> load_le32 (bs[j := x]) at = load_le32 bs at"
  "at + 4 \<le> j \<or> j + 2 \<le> at \<Longrightarrow> load_le32 (store_le16 bs j h) at = load_le32 bs at"
  "at + 4 \<le> j \<or> j + 4 \<le> at \<Longrightarrow> load_le32 (store_le32 bs j w) at = load_le32 bs at"
  by (rule load_le32_cong; auto simp: buffer)+

lemma load_other_64 [buffer]:
  "at + 2 \<le> j \<Longrightarrow> j + 8 \<le> length bs \<Longrightarrow> load_le16 (store_le64 bs j d) at = load_le16 bs at"
  "at + 4 \<le> j \<Longrightarrow> j + 8 \<le> length bs \<Longrightarrow> load_le32 (store_le64 bs j d) at = load_le32 bs at"
  by (rule load_le16_cong load_le32_cong; auto simp: buffer)+

lemma load_other_cells [buffer]:
  "at + 2 \<le> k \<Longrightarrow> k + n \<le> length bs \<Longrightarrow> load_le16 (write_cells k f n bs) at = load_le16 bs at"
  "at + 4 \<le> k \<Longrightarrow> k + n \<le> length bs \<Longrightarrow> load_le32 (write_cells k f n bs) at = load_le32 bs at"
  by (rule load_le16_cong load_le32_cong; auto simp: buffer)+

section \<open>The contract between an encoder and its decoder\<close>

text \<open>
  \<open>enc bs v\<close> is what the encoder leaves in the buffer \<open>bs\<close> where it returns
  true. The provider promises that the decoder reads the value back
  (\<open>canon v\<close> of it, for formats that drop cells outside a counted prefix), that
  the buffer keeps its length and that nothing past the record is touched.
\<close>

locale record_codec =
  fixes enc :: "u8 list \<Rightarrow> 'v \<Rightarrow> u8 list option"
    and dec :: "u8 list \<Rightarrow> 'v option"
    and canon :: "'v \<Rightarrow> 'v"
    and wf :: "'v \<Rightarrow> bool"
  assumes dec_enc: "wf v \<Longrightarrow> enc bs v = Some cs \<Longrightarrow> dec cs = Some (canon v)"
    and enc_length: "enc bs v = Some cs \<Longrightarrow> length cs = length bs"
    and canon_idem: "wf v \<Longrightarrow> wf (canon v) \<and> canon (canon v) = canon v"
begin

lemma enc_injective:
  "wf v \<Longrightarrow> wf w \<Longrightarrow> enc bs v = Some cs \<Longrightarrow> enc bs' w = Some cs \<Longrightarrow> canon v = canon w"
  using dec_enc by (metis option.inject)

lemma re_encode_stable:
  "wf v \<Longrightarrow> enc bs v = Some cs \<Longrightarrow> dec cs = Some w \<Longrightarrow> enc cs w = Some ds \<Longrightarrow> dec ds = Some w"
  using dec_enc canon_idem by (metis option.inject)

end

definition succeeded :: "bool \<times> 'a option \<Rightarrow> 'a option" where
  "succeeded r = (if fst r then snd r else None)"

lemma map_nth_prefix: "n \<le> length bs \<Longrightarrow> map ((!) bs) [0..<n] = take n bs"
  by (rule nth_equalityI) auto

lemma take_store [buffer]:
  "n \<le> at \<Longrightarrow> take n (store_le16 bs at h) = take n bs"
  "n \<le> at \<Longrightarrow> take n (store_le32 bs at w) = take n bs"
  by (simp_all add: store_le16_def store_le32_def)

lemma take_write_cells [buffer]:
  "n \<le> length bs \<Longrightarrow> take n (write_cells 0 f n bs) = map f [0..<n]"
  by (rule nth_equalityI) (auto simp: nth_write_cells)

lemma superblock_decode_encode:
  assumes "length (sb_magic v) = 8" and "4096 \<le> length bs"
  shows "\<exists>cs. boringfs_encode_superblock (Some bs) (Some v) = (True, Some cs) \<and>
    length cs = length bs \<and> boringfs_decode_superblock (Some cs) = Some v"
  using assms
  by (simp add: boringfs_encode_superblock_def boringfs_decode_superblock_def Let_def
      load_store_le16 load_store_le32 buffer nth_list_update map_nth_prefix)

lemma extent_decode_encode:
  assumes "8 \<le> length bs"
  shows "\<exists>cs. boringfs_encode_extent (Some bs) (Some v) = (True, Some cs) \<and>
    length cs = length bs \<and> boringfs_decode_extent (Some cs) = Some v"
  using assms
  by (simp add: boringfs_encode_extent_def boringfs_decode_extent_def load_store_le32 buffer)

lemma directory_record_decode_encode:
  assumes "dir_object_id v \<noteq> 0" "0 < dir_name_length v" "dir_name_length v \<le> 240"
    and "length (dir_name v) = 240" "256 \<le> length bs"
  shows "\<exists>cs. boringfs_encode_directory_record (Some bs) (Some v) = (True, Some cs) \<and>
    length cs = length bs \<and>
    boringfs_decode_directory_record (Some cs) =
      Some (v\<lparr>dir_name := take (unat (dir_name_length v)) (dir_name v) @
                          replicate (240 - unat (dir_name_length v)) 0\<rparr>)"
proof -
  have n: "unat (dir_name_length v) \<le> 240"
    using assms(3) by (simp add: word_le_nat_alt)
  have "map (\<lambda>i. write_cells 8 ((!) (dir_name v)) (unat (dir_name_length v)) cs ! (8 + i)) [0..<240] =
      take (unat (dir_name_length v)) (dir_name v) @ replicate (240 - unat (dir_name_length v)) 0"
    if "256 \<le> length cs" and "\<And>i. i < 240 \<Longrightarrow> cs ! (8 + i) = 0" for cs
    using that n assms(4) by (intro nth_equalityI) (auto simp: nth_write_cells nth_append)
  then show ?thesis
    using assms n
    by (simp add: boringfs_encode_directory_record_def boringfs_decode_directory_record_def Let_def
        load_store_le16 load_store_le32 buffer nth_list_update zero_bytes_def not_less word_gt_0)
qed

text \<open>The object record: the extent array is written and read through sub-buffers.\<close>

definition extent_at :: "u8 list \<Rightarrow> nat \<Rightarrow> boringfs_extent" where
  "extent_at bs i =
     \<lparr>ext_start_block = load_le32 bs (24 + i * 8), ext_block_count = load_le32 bs (28 + i * 8)\<rparr>"

lemma decode_extent_sub_buffer:
  assumes "k + 8 \<le> length bs"
  shows "boringfs_decode_extent (Some (sub_buffer bs k 8)) =
    Some \<lparr>ext_start_block = load_le32 bs k, ext_block_count = load_le32 bs (k + 4)\<rparr>"
  using assms by (simp add: boringfs_decode_extent_def load_le32_def ac_simps)

lemma decode_extents_map:
  "\<forall>i \<in> set is. 32 + i * 8 \<le> length bs \<Longrightarrow> decode_extents bs is = Some (map (extent_at bs) is)"
  by (induction "is") (simp_all add: decode_extent_sub_buffer extent_at_def add.commute)

lemma splice_store_le32:
  assumes "k + 8 \<le> length bs"
  shows "splice bs k (store_le32 (store_le32 (sub_buffer bs k 8) 0 a) 4 b) =
    store_le32 (store_le32 bs k a) (k + 4) b"
proof (rule nth_equalityI)
  show "length (splice bs k (store_le32 (store_le32 (sub_buffer bs k 8) 0 a) 4 b)) =
      length (store_le32 (store_le32 bs k a) (k + 4) b)"
    using assms by simp
next
  fix i
  assume "i < length (splice bs k (store_le32 (store_le32 (sub_buffer bs k 8) 0 a) 4 b))"
  then have i: "i < length bs" using assms by simp
  have "i < k \<or> k + 8 \<le> i \<or> i = k \<or> i = k + 1 \<or> i = k + 2 \<or> i = k + 3 \<or> i = k + 4 \<or>
      i = k + 5 \<or> i = k + 6 \<or> i = k + 7" by linarith
  then show "splice bs k (store_le32 (store_le32 (sub_buffer bs k 8) 0 a) 4 b) ! i =
      store_le32 (store_le32 bs k a) (k + 4) b ! i"
    using assms i by (elim disjE) (simp_all add: nth_splice nth_store_other store_le32_def nth_list_update)
qed

lemma encode_extents_Cons:
  assumes "32 + i * 8 \<le> length bs"
  shows "encode_extents es (i # rest) bs =
    encode_extents es rest (store_le32 (store_le32 bs (24 + i * 8) (ext_start_block (es ! i)))
                                       (28 + i * 8) (ext_block_count (es ! i)))"
  using assms splice_store_le32 [of "24 + i * 8" bs]
  by (simp add: boringfs_encode_extent_def add.commute)

lemma encode_extents_append:
  "encode_extents es (xs @ ys) bs =
     (case encode_extents es xs bs of (True, cs) \<Rightarrow> encode_extents es ys cs | (False, cs) \<Rightarrow> (False, cs))"
  by (induction xs arbitrary: bs) (auto split: prod.splits bool.splits option.splits)

lemma encode_extents_correct:
  assumes "n \<le> 8" and "88 \<le> length bs"
  shows "\<exists>cs. encode_extents es [0..<n] bs = (True, cs) \<and> length cs = length bs \<and>
    (\<forall>i < 8. extent_at cs i = (if i < n then es ! i else extent_at bs i)) \<and>
    (\<forall>i. i < 24 \<or> 24 + n * 8 \<le> i \<longrightarrow> cs ! i = bs ! i)"
  using assms(1)
proof (induction n)
  case 0
  then show ?case by simp
next
  case (Suc n)
  then obtain cs where cs: "encode_extents es [0..<n] bs = (True, cs)" "length cs = length bs"
    and ext: "\<And>i. i < 8 \<Longrightarrow> extent_at cs i = (if i < n then es ! i else extent_at bs i)"
    and out: "\<And>i. i < 24 \<or> 24 + n * 8 \<le> i \<Longrightarrow> cs ! i = bs ! i"
    by auto
  let ?ds = "store_le32 (store_le32 cs (24 + n * 8) (ext_start_block (es ! n)))
                        (28 + n * 8) (ext_block_count (es ! n))"
  have "encode_extents es [0..<Suc n] bs = (True, ?ds)"
    using Suc.prems assms(2) cs by (simp add: encode_extents_append encode_extents_Cons del: encode_extents.simps(2))
  moreover have "extent_at ?ds i = (if i < Suc n then es ! i else extent_at bs i)" if "i < 8" for i
  proof (cases "i = n")
    case True
    then show ?thesis
      using Suc.prems assms(2) cs(2) by (simp add: extent_at_def load_store_le32 load_le32_other)
  next
    case False
    then have "i < n \<or> n < i" by linarith
    then have "extent_at ?ds i = extent_at cs i"
      by (auto simp: extent_at_def load_le32_other)
    then show ?thesis using False ext [OF that] by auto
  qed
  moreover have "?ds ! i = bs ! i" if "i < 24 \<or> 24 + Suc n * 8 \<le> i" for i
    using that by (auto simp: nth_store_other out)
  ultimately show ?case using cs(2) by simp
qed

lemma encode_extents_length:
  assumes "encode_extents es [0..<n] bs = (ok, cs)" and "n \<le> 8" and "88 \<le> length bs"
  shows "length cs = length bs"
  using encode_extents_correct [OF assms(2,3), of es] assms(1) by auto

lemma object_decode_encode:
  assumes "obj_state v = 1" "obj_extent_count v \<le> 8" "length (obj_extents v) = 8" "128 \<le> length bs"
  shows "\<exists>cs. boringfs_encode_object (Some bs) (Some v) = (True, Some cs) \<and>
    length cs = length bs \<and>
    boringfs_decode_object (Some cs) =
      Some (v\<lparr>obj_extents := take (unat (obj_extent_count v)) (obj_extents v) @
               replicate (8 - unat (obj_extent_count v)) \<lparr>ext_start_block = 0, ext_block_count = 0\<rparr>\<rparr>)"
proof -
  let ?n = "unat (obj_extent_count v)"
  let ?head = "store_le64 (store_le16 (store_le32 (store_le32 (store_le16 ((zero_bytes bs 128)
      [0 := obj_state v, 1 := obj_type v]) 2 (obj_flags v)) 4 (obj_object_id v)) 8
      (obj_parent_object_id v)) 12 (obj_extent_count v)) 16 (obj_size_bytes v)"
  have n: "?n \<le> 8" using assms(2) by (simp add: word_le_nat_alt)
  have ne: "bs \<noteq> []" "Suc 0 < length bs" using assms(4) by auto
  obtain cs where enc: "encode_extents (obj_extents v) [0..<?n] ?head = (True, cs)"
    and len: "length cs = length bs"
    and ext: "\<And>i. i < 8 \<Longrightarrow> extent_at cs i = (if i < ?n then obj_extents v ! i else extent_at ?head i)"
    and low: "\<And>i. i < 24 \<Longrightarrow> cs ! i = ?head ! i"
    using encode_extents_correct [OF n, of ?head "obj_extents v"] assms(4) by auto
  have zero: "extent_at ?head i = \<lparr>ext_start_block = 0, ext_block_count = 0\<rparr>" if "i < 8" for i
    using that assms(4)
    by (simp add: extent_at_def load_le32_def buffer zero_bytes_def nth_list_update)
  have exts: "map (extent_at cs) [0..<8] = take ?n (obj_extents v) @
      replicate (8 - ?n) \<lparr>ext_start_block = 0, ext_block_count = 0\<rparr>"
    using n assms(3) ext zero by (intro nth_equalityI) (auto simp: nth_append)
  have fields: "load_le16 cs 2 = obj_flags v" "load_le32 cs 4 = obj_object_id v"
    "load_le32 cs 8 = obj_parent_object_id v" "load_le16 cs 12 = obj_extent_count v"
    "load_le64 cs 16 = obj_size_bytes v" "cs ! 0 = obj_state v" "cs ! Suc 0 = obj_type v"
  proof -
    have "load_le16 cs a = load_le16 ?head a" if "a \<le> 22" for a
      using that low by (intro load_le16_cong) auto
    moreover have "load_le32 cs a = load_le32 ?head a" if "a \<le> 20" for a
      using that low by (intro load_le32_cong) auto
    moreover have "load_le64 cs 16 = load_le64 ?head 16"
      using low by (intro load_le64_cong) auto
    ultimately show "load_le16 cs 2 = obj_flags v" "load_le32 cs 4 = obj_object_id v"
      "load_le32 cs 8 = obj_parent_object_id v" "load_le16 cs 12 = obj_extent_count v"
      "load_le64 cs 16 = obj_size_bytes v" "cs ! 0 = obj_state v" "cs ! Suc 0 = obj_type v"
      using assms(4) ne
      by (simp_all add: low load_store_le16 load_store_le32 load_store_le64 buffer nth_list_update)
  qed
  have "boringfs_encode_object (Some bs) (Some v) = (True, Some cs)"
    using assms(1,2,4) enc by (simp add: boringfs_encode_object_def Let_def not_less)
  moreover have "boringfs_decode_object (Some cs) = Some (v\<lparr>obj_extents := map (extent_at cs) [0..<8]\<rparr>)"
    using len assms(4) fields
    by (simp add: boringfs_decode_object_def decode_extents_map)
  ultimately show ?thesis using len exts by simp
qed

section \<open>The record formats meet the contract\<close>

definition superblock_wf :: "boringfs_superblock \<Rightarrow> bool" where
  "superblock_wf v \<longleftrightarrow> length (sb_magic v) = 8"

definition object_wf :: "boringfs_object \<Rightarrow> bool" where
  "object_wf v \<longleftrightarrow> obj_state v = 1 \<and> obj_extent_count v \<le> 8 \<and> length (obj_extents v) = 8"

definition object_trim :: "boringfs_object \<Rightarrow> boringfs_object" where
  "object_trim v = v\<lparr>obj_extents := take (unat (obj_extent_count v)) (obj_extents v) @
     replicate (8 - unat (obj_extent_count v)) \<lparr>ext_start_block = 0, ext_block_count = 0\<rparr>\<rparr>"

definition directory_record_wf :: "boringfs_directory_record \<Rightarrow> bool" where
  "directory_record_wf v \<longleftrightarrow> dir_object_id v \<noteq> 0 \<and> 0 < dir_name_length v \<and>
     dir_name_length v \<le> 240 \<and> length (dir_name v) = 240"

definition directory_record_trim :: "boringfs_directory_record \<Rightarrow> boringfs_directory_record" where
  "directory_record_trim v = v\<lparr>dir_name := take (unat (dir_name_length v)) (dir_name v) @
     replicate (240 - unat (dir_name_length v)) 0\<rparr>"

lemma encode_superblock_fits:
  "succeeded (boringfs_encode_superblock (Some bs) (Some v)) = Some cs \<Longrightarrow> 4096 \<le> length bs"
  by (auto simp: succeeded_def boringfs_encode_superblock_def split: if_splits)

lemma encode_extent_fits:
  "succeeded (boringfs_encode_extent (Some bs) (Some v)) = Some cs \<Longrightarrow> 8 \<le> length bs"
  by (auto simp: succeeded_def boringfs_encode_extent_def split: if_splits)

lemma encode_object_fits:
  "succeeded (boringfs_encode_object (Some bs) (Some v)) = Some cs \<Longrightarrow> 128 \<le> length bs"
  by (auto simp: succeeded_def boringfs_encode_object_def split: if_splits)

lemma encode_directory_record_fits:
  "succeeded (boringfs_encode_directory_record (Some bs) (Some v)) = Some cs \<Longrightarrow> 256 \<le> length bs"
  by (auto simp: succeeded_def boringfs_encode_directory_record_def split: if_splits)

lemma object_trim_wf: "object_wf v \<Longrightarrow> object_wf (object_trim v) \<and> object_trim (object_trim v) = object_trim v"
  by (simp add: object_wf_def object_trim_def word_le_nat_alt)

lemma directory_record_trim_wf:
  "directory_record_wf v \<Longrightarrow> directory_record_wf (directory_record_trim v) \<and>
    directory_record_trim (directory_record_trim v) = directory_record_trim v"
  by (simp add: directory_record_wf_def directory_record_trim_def word_le_nat_alt)

interpretation superblock_codec: record_codec
  "\<lambda>bs v. succeeded (boringfs_encode_superblock (Some bs) (Some v))"
  "\<lambda>cs. boringfs_decode_superblock (Some cs)" "\<lambda>v. v" superblock_wf
proof unfold_locales
  fix v bs cs
  assume "succeeded (boringfs_encode_superblock (Some bs) (Some v)) = Some cs"
  moreover from this have "4096 \<le> length bs" by (rule encode_superblock_fits)
  ultimately show "superblock_wf v \<Longrightarrow> boringfs_decode_superblock (Some cs) = Some v" "length cs = length bs"
    by (auto simp: superblock_wf_def succeeded_def boringfs_encode_superblock_def Let_def
        dest: superblock_decode_encode)
qed simp

interpretation extent_codec: record_codec
  "\<lambda>bs v. succeeded (boringfs_encode_extent (Some bs) (Some v))"
  "\<lambda>cs. boringfs_decode_extent (Some cs)" "\<lambda>v. v" "\<lambda>_. True"
proof unfold_locales
  fix v bs cs
  assume enc: "succeeded (boringfs_encode_extent (Some bs) (Some v)) = Some cs"
  from extent_decode_encode [OF encode_extent_fits [OF enc], of v] enc
  show "boringfs_decode_extent (Some cs) = Some v" "length cs = length bs"
    by (auto simp: succeeded_def)
qed simp

interpretation object_codec: record_codec
  "\<lambda>bs v. succeeded (boringfs_encode_object (Some bs) (Some v))"
  "\<lambda>cs. boringfs_decode_object (Some cs)" object_trim object_wf
proof unfold_locales
  fix v bs cs
  assume enc: "succeeded (boringfs_encode_object (Some bs) (Some v)) = Some cs" and "object_wf v"
  from object_decode_encode [of v bs] encode_object_fits [OF enc] this
  show "boringfs_decode_object (Some cs) = Some (object_trim v)"
    by (auto simp: succeeded_def object_wf_def object_trim_def)
next
  fix bs cs v
  assume enc: "succeeded (boringfs_encode_object (Some bs) (Some v)) = Some cs"
  then have "128 \<le> length bs" by (rule encode_object_fits)
  then show "length cs = length bs"
    using enc
    by (auto simp: succeeded_def boringfs_encode_object_def Let_def not_less word_le_nat_alt
        split: if_splits prod.splits dest!: encode_extents_length)
qed (rule object_trim_wf)

interpretation directory_record_codec: record_codec
  "\<lambda>bs v. succeeded (boringfs_encode_directory_record (Some bs) (Some v))"
  "\<lambda>cs. boringfs_decode_directory_record (Some cs)" directory_record_trim directory_record_wf
proof unfold_locales
  fix v bs cs
  assume enc: "succeeded (boringfs_encode_directory_record (Some bs) (Some v)) = Some cs"
    and "directory_record_wf v"
  from directory_record_decode_encode [of v bs] encode_directory_record_fits [OF enc] this
  show "boringfs_decode_directory_record (Some cs) = Some (directory_record_trim v)"
    by (auto simp: succeeded_def directory_record_wf_def directory_record_trim_def)
next
  fix bs cs v
  assume "succeeded (boringfs_encode_directory_record (Some bs) (Some v)) = Some cs"
  then show "length cs = length bs"
    by (auto simp: succeeded_def boringfs_encode_directory_record_def Let_def split: if_splits)
qed (rule directory_record_trim_wf)

end
