(* ===== verification/Validate.thy ===== *)
theory Validate
  imports Codec
begin

text \<open>
  libs/boringfs/validate.c: the checker that the kernel and boringfsck run over a
  BoringFS volume before they trust it. A source is its size and its read
  callback; a check that fails returns \<open>Inl\<close> of the error report the C code
  writes to \<open>error_out\<close>, a check that succeeds \<open>Inr\<close> of the workspace array it
  updated. The loops over blocks, objects and records are \<open>for_each\<close> over the
  values of their counters. Bounds that keep the counters from wrapping are
  those of \<open>validate_superblock\<close> (at most 1048576 blocks and 16384 objects).
\<close>

section \<open>Results, sources and checked arithmetic\<close>

datatype boringfs_validation_result =
    VALIDATE_OK
  | VALIDATE_INVALID_ARGUMENT
  | VALIDATE_TRUNCATED_VOLUME
  | VALIDATE_BAD_MAGIC
  | VALIDATE_UNSUPPORTED_VERSION
  | VALIDATE_UNSUPPORTED_FEATURE
  | VALIDATE_BAD_SUPERBLOCK
  | VALIDATE_BAD_LAYOUT
  | VALIDATE_BAD_BITMAP
  | VALIDATE_BAD_OBJECT_RECORD
  | VALIDATE_BAD_EXTENT
  | VALIDATE_EXTENT_OVERLAP
  | VALIDATE_BAD_DIRECTORY_RECORD
  | VALIDATE_INVALID_UTF8
  | VALIDATE_DUPLICATE_NAME
  | VALIDATE_ORPHAN_OBJECT
  | VALIDATE_MULTIPLE_REFERENCE
  | VALIDATE_PARENT_MISMATCH
  | VALIDATE_DIRECTORY_CYCLE
  | VALIDATE_ALLOCATION_LEAK
  | VALIDATE_INSUFFICIENT_WORKSPACE

record boringfs_validation_error =
  ve_code :: boringfs_validation_result
  ve_object_id :: u32
  ve_block :: u32
  ve_directory_record_index :: u64

record boringfs_validation_workspace =
  ws_block_owner :: "u32 list option"
  ws_object_reference_count :: "u8 list option"

record boringfs_source =
  src_size :: u64
  src_read :: "(u64 \<Rightarrow> u64 \<Rightarrow> u8 list option) option"

abbreviation (input) LOCATION_NONE_U32 :: u32 where "LOCATION_NONE_U32 \<equiv> UINT32_MAX"
abbreviation (input) LOCATION_NONE_U64 :: u64 where "LOCATION_NONE_U64 \<equiv> UINT64_MAX"

type_synonym 'a vresult = "boringfs_validation_error + 'a"

definition checked_add_u32 :: "u32 \<Rightarrow> u32 \<Rightarrow> u32 option" where
  "checked_add_u32 left right = (if left > UINT32_MAX - right then None else Some (left + right))"

definition checked_add_u64 :: "u64 \<Rightarrow> u64 \<Rightarrow> u64 option" where
  "checked_add_u64 left right = (if left > UINT64_MAX - right then None else Some (left + right))"

definition checked_mul_u64 :: "u64 \<Rightarrow> u64 \<Rightarrow> u64 option" where
  "checked_mul_u64 left right =
     (if left \<noteq> 0 \<and> right > UINT64_MAX div left then None else Some (left * right))"

text \<open>\<open>size_t\<close> is 64 bits wide on x86_64, so the conversion never fails there.\<close>

definition checked_u64_to_size :: "u64 \<Rightarrow> u64 option" where
  "checked_u64_to_size value = (if value > UINT64_MAX then None else Some value)"

definition source_read_exact :: "boringfs_source \<Rightarrow> u64 \<Rightarrow> u64 \<Rightarrow> u8 list option" where
  "source_read_exact source offset len = (case src_read source of
     None \<Rightarrow> None
   | Some rd \<Rightarrow>
       if offset > src_size source \<or> len > src_size source - offset then None
       else if len = 0 then Some [] else rd offset len)"

definition memory_source_read :: "u8 list option \<Rightarrow> u64 \<Rightarrow> u64 \<Rightarrow> u8 list option" where
  "memory_source_read bytes offset len = (case bytes of
     None \<Rightarrow> None
   | Some bs \<Rightarrow> (case checked_u64_to_size offset of
       None \<Rightarrow> None
     | Some offset_size \<Rightarrow>
         if unat offset_size > length bs \<or> unat len > length bs - unat offset_size then None
         else Some (map (\<lambda>index. bs ! (unat offset_size + index)) [0..<unat len])))"

definition bytes_all_zero :: "u8 list \<Rightarrow> bool" where
  "bytes_all_zero bs \<longleftrightarrow> (\<forall>b \<in> set bs. b = 0)"

definition bytes_equal :: "u8 list \<Rightarrow> u8 list \<Rightarrow> nat \<Rightarrow> bool" where
  "bytes_equal left right n \<longleftrightarrow> (\<forall>index \<in> set [0..<n]. left ! index = right ! index)"

definition fail_result :: "boringfs_validation_result \<Rightarrow> u32 \<Rightarrow> u32 \<Rightarrow> u64 \<Rightarrow> 'a vresult" where
  "fail_result code object_id block directory_record_index =
     Inl \<lparr>ve_code = code, ve_object_id = object_id, ve_block = block,
          ve_directory_record_index = directory_record_index\<rparr>"

definition clear_error :: boringfs_validation_error where
  "clear_error = \<lparr>ve_code = VALIDATE_OK, ve_object_id = LOCATION_NONE_U32,
     ve_block = LOCATION_NONE_U32, ve_directory_record_index = LOCATION_NONE_U64\<rparr>"

definition magic_valid :: "u8 list \<Rightarrow> bool" where
  "magic_valid magic = bytes_equal magic [0x42, 0x4f, 0x52, 0x49, 0x4e, 0x47, 0x46, 0x53] 8"

section \<open>Reads of the bitmap, the object table and object data\<close>

definition bitmap_bit :: "boringfs_source \<Rightarrow> boringfs_superblock \<Rightarrow> u64 \<Rightarrow> bool option" where
  "bitmap_bit source superblock block =
     (case checked_mul_u64 (ucast (sb_bitmap_start superblock)) 4096 of
        None \<Rightarrow> None
      | Some bitmap_base \<Rightarrow> (case checked_add_u64 bitmap_base (block div 8) of
          None \<Rightarrow> None
        | Some absolute \<Rightarrow> (case source_read_exact source absolute 1 of
            None \<Rightarrow> None
          | Some byte \<Rightarrow> Some (byte ! 0 AND push_bit (unat (block mod 8)) 1 \<noteq> 0))))"

definition read_object_record ::
  "boringfs_source \<Rightarrow> boringfs_superblock \<Rightarrow> u32 \<Rightarrow> u8 list option" where
  "read_object_record source superblock object_id =
     (if object_id = 0 \<or> object_id > sb_object_count superblock then None
      else case checked_mul_u64 (ucast (sb_object_table_start superblock)) 4096 of
        None \<Rightarrow> None
      | Some table_base \<Rightarrow> (case checked_mul_u64 (ucast (object_id - 1)) 128 of
          None \<Rightarrow> None
        | Some slot_offset \<Rightarrow> (case checked_add_u64 table_base slot_offset of
            None \<Rightarrow> None
          | Some absolute \<Rightarrow> source_read_exact source absolute 128)))"

definition decode_object_id ::
  "boringfs_source \<Rightarrow> boringfs_superblock \<Rightarrow> u32 \<Rightarrow> boringfs_object option" where
  "decode_object_id source superblock object_id =
     (case read_object_record source superblock object_id of
        None \<Rightarrow> None
      | Some raw \<Rightarrow> boringfs_decode_object (Some raw))"

text \<open>
  \<open>read_in_extent\<close> is the inner \<open>while\<close> of \<open>logical_object_read\<close>: it copies chunks
  of one extent and returns the bytes still missing with those copied so far.
\<close>

function read_in_extent ::
  "boringfs_source \<Rightarrow> boringfs_extent \<Rightarrow> u64 \<Rightarrow> u64 \<Rightarrow> u64 \<Rightarrow> u8 list \<Rightarrow> (u64 \<times> u8 list) option" where
  "read_in_extent source extent extent_bytes offset remaining output =
     (if offset < extent_bytes \<and> remaining \<noteq> 0 then
        let available64 = extent_bytes - offset in
        case checked_mul_u64 (ucast (ext_start_block extent)) 4096 of
          None \<Rightarrow> None
        | Some physical_base \<Rightarrow> (case checked_add_u64 physical_base offset of
            None \<Rightarrow> None
          | Some physical \<Rightarrow> (case checked_u64_to_size available64 of
              None \<Rightarrow> None
            | Some available \<Rightarrow>
                let chunk = (if remaining < available then remaining else available) in
                case source_read_exact source physical chunk of
                  None \<Rightarrow> None
                | Some bytes \<Rightarrow>
                    read_in_extent source extent extent_bytes (offset + chunk)
                      (remaining - chunk) (output @ bytes)))
      else Some (remaining, output))"
  by pat_completeness auto

lemma u64_le_max [simp]: "(x :: u64) \<le> UINT64_MAX"
proof -
  have "unat x \<le> 18446744073709551615" using unat_u64_less [of x] by linarith
  then show ?thesis by (simp add: word_le_nat_alt)
qed

lemma checked_u64_to_size_total [simp]: "checked_u64_to_size value = Some value"
  by (simp add: checked_u64_to_size_def not_less)

lemma chunk_decreases:
  "offset < extent_bytes \<Longrightarrow> remaining \<noteq> 0 \<Longrightarrow> \<not> remaining < extent_bytes - offset \<Longrightarrow>
    unat (remaining - (extent_bytes - offset) :: u64) < unat remaining"
  by (simp add: not_less unat_sub_exact word_less_nat_alt word_le_nat_alt unat_sub_if')

termination read_in_extent
  by (relation "measure (\<lambda>(_, _, _, _, remaining, _). unat remaining)")
     (auto simp: unat_gt_0 intro: chunk_decreases)

declare read_in_extent.simps [simp del]

fun read_in_extents ::
  "boringfs_source \<Rightarrow> boringfs_extent list \<Rightarrow> u64 \<Rightarrow> u64 \<Rightarrow> u8 list \<Rightarrow> (u64 \<times> u8 list) option" where
  "read_in_extents source [] offset remaining output = Some (remaining, output)"
| "read_in_extents source (extent # rest) offset remaining output =
     (if remaining = 0 then Some (remaining, output)
      else case checked_mul_u64 (ucast (ext_block_count extent)) 4096 of
        None \<Rightarrow> None
      | Some extent_bytes \<Rightarrow>
          if offset \<ge> extent_bytes
          then read_in_extents source rest (offset - extent_bytes) remaining output
          else (case read_in_extent source extent extent_bytes offset remaining output of
              None \<Rightarrow> None
            | Some (remaining, output) \<Rightarrow> read_in_extents source rest 0 remaining output))"

definition logical_object_read ::
  "boringfs_source \<Rightarrow> boringfs_object \<Rightarrow> u64 \<Rightarrow> u64 \<Rightarrow> u8 list option" where
  "logical_object_read source object logical_offset len =
     (case read_in_extents source (take (unat (obj_extent_count object)) (obj_extents object))
             logical_offset len [] of
        None \<Rightarrow> None
      | Some (remaining, output) \<Rightarrow> if remaining = 0 then Some output else None)"

section \<open>File names\<close>

text \<open>The argument of \<open>utf8_from\<close> is what is left of the name at the loop's index.\<close>

fun utf8_from :: "u8 list \<Rightarrow> bool" where
  "utf8_from [] = True"
| "utf8_from (b1 # rest) =
     (if b1 \<le> 0x7f then utf8_from rest
      else if 0xc2 \<le> b1 \<and> b1 \<le> 0xdf then
        (case rest of
           b2 # rest' \<Rightarrow> if b2 < 0x80 \<or> b2 > 0xbf then False else utf8_from rest'
         | _ \<Rightarrow> False)
      else if 0xe0 \<le> b1 \<and> b1 \<le> 0xef then
        (case rest of
           b2 # b3 # rest' \<Rightarrow>
             if b3 < 0x80 \<or> b3 > 0xbf then False
             else if b1 = 0xe0 then
               (if b2 < 0xa0 \<or> b2 > 0xbf then False else utf8_from rest')
             else if b1 = 0xed then
               (if b2 < 0x80 \<or> b2 > 0x9f then False else utf8_from rest')
             else if b2 < 0x80 \<or> b2 > 0xbf then False
             else utf8_from rest'
         | _ \<Rightarrow> False)
      else if 0xf0 \<le> b1 \<and> b1 \<le> 0xf4 then
        (case rest of
           b2 # b3 # b4 # rest' \<Rightarrow>
             if b3 < 0x80 \<or> b3 > 0xbf \<or> b4 < 0x80 \<or> b4 > 0xbf then False
             else if b1 = 0xf0 then
               (if b2 < 0x90 \<or> b2 > 0xbf then False else utf8_from rest')
             else if b1 = 0xf4 then
               (if b2 < 0x80 \<or> b2 > 0x8f then False else utf8_from rest')
             else if b2 < 0x80 \<or> b2 > 0xbf then False
             else utf8_from rest'
         | _ \<Rightarrow> False)
      else False)"

definition boringfs_utf8_valid :: "u8 list option \<Rightarrow> nat \<Rightarrow> bool" where
  "boringfs_utf8_valid bytes len = (case bytes of
     None \<Rightarrow> len = 0
   | Some bs \<Rightarrow> utf8_from (take len bs))"

definition directory_name_valid :: "boringfs_directory_record \<Rightarrow> bool" where
  "directory_name_valid r \<longleftrightarrow>
     \<not> (dir_name_length r = 0 \<or> dir_name_length r > 240) \<and>
     \<not> ((dir_name_length r = 1 \<and> dir_name r ! 0 = 0x2e) \<or>
        (dir_name_length r = 2 \<and> dir_name r ! 0 = 0x2e \<and> dir_name r ! 1 = 0x2e)) \<and>
     (\<forall>index \<in> set [0..<unat (dir_name_length r)].
        \<not> (dir_name r ! index = 0 \<or> dir_name r ! index = 0x2f))"

section \<open>The superblock\<close>

text \<open>The loop that reads the rest of block 0 in chunks of at most 256 bytes.\<close>

function reserved_block_zero :: "boringfs_source \<Rightarrow> u64 \<Rightarrow> bool" where
  "reserved_block_zero source reserved_offset =
     (if reserved_offset < 4096 then
        let remaining = 4096 - reserved_offset;
            chunk = (if remaining < 256 then remaining else 256)
        in case source_read_exact source reserved_offset chunk of
             None \<Rightarrow> False
           | Some reserved_chunk \<Rightarrow>
               bytes_all_zero reserved_chunk \<and> reserved_block_zero source (reserved_offset + chunk)
      else True)"
  by pat_completeness auto

termination
  by (relation "measure (\<lambda>(_, reserved_offset). 4096 - unat reserved_offset)")
     (auto simp: word_less_nat_alt unat_word_ariths unat_sub_exact word_le_nat_alt unat_sub_if')

declare reserved_block_zero.simps [simp del]

definition superblock_fields_bad :: "boringfs_superblock \<Rightarrow> u8 list \<Rightarrow> bool" where
  "superblock_fields_bad sb superblock_bytes \<longleftrightarrow>
     sb_header_size sb \<noteq> 128 \<or> sb_block_shift sb \<noteq> 12 \<or> sb_flags sb \<noteq> 0 \<or>
     sb_total_blocks sb = 0 \<or> sb_total_blocks sb > 1048576 \<or>
     sb_object_count sb < 64 \<or> sb_object_count sb > 16384 \<or>
     sb_root_object_id sb \<noteq> 1 \<or> sb_object_record_size sb \<noteq> 128 \<or>
     sb_directory_record_size sb \<noteq> 256 \<or>
     \<not> bytes_all_zero (sub_buffer superblock_bytes 64 64)"

text \<open>The layout the object count and the block count determine, with the checks of its arithmetic.\<close>

definition superblock_layout ::
  "boringfs_superblock \<Rightarrow> (u32 \<times> u32 \<times> u32 \<times> u32 \<times> u64) option" where
  "superblock_layout sb =
     (if sb_total_blocks sb > UINT32_MAX - (32768 - 1) then None
      else
        let expected_bitmap_blocks = (sb_total_blocks sb + (32768 - 1)) div 32768 in
        case checked_add_u32 1 expected_bitmap_blocks of
          None \<Rightarrow> None
        | Some expected_object_table_start \<Rightarrow>
          (case checked_mul_u64 (ucast (sb_object_count sb)) 128 of
            None \<Rightarrow> None
          | Some object_bytes \<Rightarrow>
            (case checked_add_u64 object_bytes (4096 - 1) of
              None \<Rightarrow> None
            | Some rounded_object_bytes \<Rightarrow>
                if rounded_object_bytes div 4096 > ucast UINT32_MAX then None
                else
                  let expected_object_table_blocks = ucast (rounded_object_bytes div 4096) in
                  case checked_add_u32 expected_object_table_start expected_object_table_blocks of
                    None \<Rightarrow> None
                  | Some expected_data_start \<Rightarrow>
                    (if sb_bitmap_start sb \<noteq> 1 \<or>
                        sb_bitmap_blocks sb \<noteq> expected_bitmap_blocks \<or>
                        sb_object_table_start sb \<noteq> expected_object_table_start \<or>
                        sb_object_table_blocks sb \<noteq> expected_object_table_blocks \<or>
                        sb_data_start sb \<noteq> expected_data_start \<or>
                        sb_data_start sb > sb_total_blocks sb then None
                     else case checked_mul_u64 (ucast (sb_total_blocks sb)) 4096 of
                       None \<Rightarrow> None
                     | Some declared_bytes \<Rightarrow>
                         Some (expected_bitmap_blocks, expected_object_table_start,
                               expected_object_table_blocks, expected_data_start, declared_bytes)))))"

definition validate_superblock :: "boringfs_source \<Rightarrow> boringfs_superblock vresult" where
  "validate_superblock source =
     (let fail = (\<lambda>code block. fail_result code LOCATION_NONE_U32 block LOCATION_NONE_U64) in
      if src_size source < 4096 then fail VALIDATE_TRUNCATED_VOLUME 0
      else case source_read_exact source 0 128 of
        None \<Rightarrow> fail VALIDATE_BAD_SUPERBLOCK 0
      | Some superblock_bytes \<Rightarrow>
        (case boringfs_decode_superblock (Some superblock_bytes) of
          None \<Rightarrow> fail VALIDATE_BAD_SUPERBLOCK 0
        | Some sb \<Rightarrow>
            if \<not> magic_valid (sb_magic sb) then fail VALIDATE_BAD_MAGIC 0
            else if sb_format_major sb \<noteq> 0 \<or> sb_format_minor sb \<noteq> 1
              then fail VALIDATE_UNSUPPORTED_VERSION 0
            else if sb_feature_compat sb \<noteq> 0 \<or> sb_feature_ro_compat sb \<noteq> 0 \<or> sb_feature_incompat sb \<noteq> 0
              then fail VALIDATE_UNSUPPORTED_FEATURE 0
            else if superblock_fields_bad sb superblock_bytes then fail VALIDATE_BAD_SUPERBLOCK 0
            else if \<not> reserved_block_zero source 128 then fail VALIDATE_BAD_SUPERBLOCK 0
            else case superblock_layout sb of
              None \<Rightarrow> fail VALIDATE_BAD_LAYOUT 0
            | Some (_, _, _, _, declared_bytes) \<Rightarrow>
                if declared_bytes > src_size source
                then fail VALIDATE_TRUNCATED_VOLUME (sb_total_blocks sb)
                else (case checked_mul_u64 (ucast (sb_bitmap_blocks sb)) 32768 of
                    None \<Rightarrow> fail VALIDATE_BAD_LAYOUT 0
                  | Some bitmap_storage_bits \<Rightarrow>
                      if bitmap_storage_bits < ucast (sb_total_blocks sb)
                      then fail VALIDATE_BAD_LAYOUT 0
                      else Inr sb)))"

section \<open>The bitmap of the metadata blocks and of the tail\<close>

definition validate_bitmap_metadata_and_tail ::
  "boringfs_source \<Rightarrow> boringfs_superblock \<Rightarrow> u32 list \<Rightarrow> u32 list vresult" where
  "validate_bitmap_metadata_and_tail source sb block_owner =
     (case for_each (word_range 0 (unat (sb_data_start sb)))
        (\<lambda>block owner. case bitmap_bit source sb block of
            Some True \<Rightarrow> Inr (owner[unat block := UINT32_MAX])
          | _ \<Rightarrow> fail_result VALIDATE_BAD_BITMAP LOCATION_NONE_U32 (ucast block) LOCATION_NONE_U64)
        block_owner of
        Inl e \<Rightarrow> Inl e
      | Inr block_owner \<Rightarrow>
        (case checked_mul_u64 (ucast (sb_bitmap_blocks sb)) 32768 of
          None \<Rightarrow> fail_result VALIDATE_BAD_LAYOUT LOCATION_NONE_U32 0 LOCATION_NONE_U64
        | Some bitmap_storage_bits \<Rightarrow>
            for_each (word_range (unat (sb_total_blocks sb)) (unat bitmap_storage_bits))
              (\<lambda>block owner. case bitmap_bit source sb block of
                  Some True \<Rightarrow> Inr owner
                | _ \<Rightarrow> fail_result VALIDATE_BAD_BITMAP LOCATION_NONE_U32
                    (if block \<le> ucast UINT32_MAX then ucast block else LOCATION_NONE_U32)
                    LOCATION_NONE_U64)
              block_owner))"

section \<open>Object records and extents\<close>

text \<open>One block of an extent: it must have no owner yet and be marked allocated.\<close>

definition claim_block ::
  "boringfs_source \<Rightarrow> boringfs_superblock \<Rightarrow> u32 \<Rightarrow> u64 \<Rightarrow> u32 list \<Rightarrow> u32 list vresult" where
  "claim_block source sb object_id block owner =
     (if owner ! unat block \<noteq> 0
      then fail_result VALIDATE_EXTENT_OVERLAP object_id (ucast block) LOCATION_NONE_U64
      else case bitmap_bit source sb block of
        Some True \<Rightarrow> Inr (owner[unat block := object_id])
      | _ \<Rightarrow> fail_result VALIDATE_BAD_BITMAP object_id (ucast block) LOCATION_NONE_U64)"

text \<open>The end block of an extent and the capacity it brings the object to.\<close>

definition extent_bounds :: "boringfs_superblock \<Rightarrow> boringfs_extent \<Rightarrow> u64 \<Rightarrow> (u64 \<times> u64) option" where
  "extent_bounds sb extent capacity =
     (if ext_block_count extent = 0 \<or> ext_start_block extent < sb_data_start sb then None
      else case checked_add_u32 (ext_start_block extent) (ext_block_count extent) of
        None \<Rightarrow> None
      | Some end_block32 \<Rightarrow>
          if (ucast end_block32 :: u64) > ucast (sb_total_blocks sb) then None
          else case checked_mul_u64 (ucast (ext_block_count extent)) 4096 of
            None \<Rightarrow> None
          | Some extent_bytes \<Rightarrow> (case checked_add_u64 capacity extent_bytes of
              None \<Rightarrow> None
            | Some new_capacity \<Rightarrow> Some (ucast end_block32, new_capacity)))"

definition validate_extent ::
  "boringfs_source \<Rightarrow> boringfs_superblock \<Rightarrow> u32 \<Rightarrow> u8 list \<Rightarrow> boringfs_object \<Rightarrow> nat \<Rightarrow>
   u32 list \<times> u64 \<Rightarrow> (u32 list \<times> u64) vresult" where
  "validate_extent source sb object_id raw object extent_index state =
     (case state of (owner, capacity) \<Rightarrow>
       if extent_index \<ge> unat (obj_extent_count object) then
         (if \<not> bytes_all_zero (sub_buffer raw (24 + extent_index * 8) 8)
          then fail_result VALIDATE_BAD_OBJECT_RECORD object_id LOCATION_NONE_U32 LOCATION_NONE_U64
          else Inr (owner, capacity))
       else
         let extent = obj_extents object ! extent_index in
         case extent_bounds sb extent capacity of
           None \<Rightarrow> fail_result VALIDATE_BAD_EXTENT object_id (ext_start_block extent) LOCATION_NONE_U64
         | Some (end_block, new_capacity) \<Rightarrow>
             (case for_each (word_range (unat (ext_start_block extent)) (unat end_block))
                      (claim_block source sb object_id) owner of
                Inl e \<Rightarrow> Inl e
              | Inr owner \<Rightarrow> Inr (owner, new_capacity)))"

definition object_record_bad ::
  "boringfs_superblock \<Rightarrow> u32 \<Rightarrow> u8 list \<Rightarrow> boringfs_object \<Rightarrow> bool" where
  "object_record_bad sb object_id raw object \<longleftrightarrow>
     obj_state object \<noteq> 1 \<or> (obj_type object \<noteq> 1 \<and> obj_type object \<noteq> 2) \<or>
     obj_flags object \<noteq> 0 \<or> obj_object_id object \<noteq> object_id \<or>
     obj_parent_object_id object = 0 \<or> obj_parent_object_id object > sb_object_count sb \<or>
     obj_extent_count object > 8 \<or>
     \<not> bytes_all_zero (sub_buffer raw 14 2) \<or> \<not> bytes_all_zero (sub_buffer raw 88 40)"

definition validate_object ::
  "boringfs_source \<Rightarrow> boringfs_superblock \<Rightarrow> u32 \<Rightarrow> u32 list \<Rightarrow> u32 list vresult" where
  "validate_object source sb object_id block_owner =
     (let fail = (\<lambda>code. fail_result code object_id LOCATION_NONE_U32 LOCATION_NONE_U64) in
      case read_object_record source sb object_id of
        None \<Rightarrow> fail VALIDATE_TRUNCATED_VOLUME
      | Some raw \<Rightarrow>
          if bytes_all_zero raw then
            (if object_id = 1 then fail VALIDATE_BAD_OBJECT_RECORD else Inr block_owner)
          else case boringfs_decode_object (Some raw) of
            None \<Rightarrow> fail VALIDATE_BAD_OBJECT_RECORD
          | Some object \<Rightarrow>
              if object_record_bad sb object_id raw object then fail VALIDATE_BAD_OBJECT_RECORD
              else if object_id = 1 \<and> (obj_type object \<noteq> 2 \<or> obj_parent_object_id object \<noteq> 1)
                then fail VALIDATE_BAD_OBJECT_RECORD
              else if obj_type object = 2 \<and> obj_size_bytes object mod 256 \<noteq> 0
                then fail VALIDATE_BAD_DIRECTORY_RECORD
              else if obj_type object = 1 \<and> obj_size_bytes object > ucast UINT32_MAX
                then fail VALIDATE_BAD_OBJECT_RECORD
              else case for_each [0..<8] (validate_extent source sb object_id raw object)
                          (block_owner, 0) of
                Inl e \<Rightarrow> Inl e
              | Inr (owner, capacity) \<Rightarrow>
                  if obj_size_bytes object > capacity then fail VALIDATE_BAD_OBJECT_RECORD
                  else Inr owner)"

text \<open>The object identifiers \<open>first..object_count\<close> of the loops over the object table.\<close>

definition object_ids :: "boringfs_superblock \<Rightarrow> nat \<Rightarrow> u32 list" where
  "object_ids sb first = word_range first (Suc (unat (sb_object_count sb)))"

definition validate_objects_and_extents ::
  "boringfs_source \<Rightarrow> boringfs_superblock \<Rightarrow> u32 list \<Rightarrow> u32 list vresult" where
  "validate_objects_and_extents source sb block_owner =
     for_each (object_ids sb 1) (validate_object source sb) block_owner"

section \<open>Parents and cycles\<close>

text \<open>
  The walk from an object towards the root; the first argument is the number of
  iterations the C loop has left, and \<open>Inr False\<close> is leaving it without having
  reached the root.
\<close>

fun walk_to_root ::
  "nat \<Rightarrow> boringfs_source \<Rightarrow> boringfs_superblock \<Rightarrow> u32 \<Rightarrow> u32 \<Rightarrow> bool vresult" where
  "walk_to_root 0 source sb object_id cursor = Inr False"
| "walk_to_root (Suc left) source sb object_id cursor =
     (let fail = (\<lambda>code. fail_result code object_id LOCATION_NONE_U32 LOCATION_NONE_U64) in
      if cursor = 1 then Inr True
      else case decode_object_id source sb cursor of
        None \<Rightarrow> fail VALIDATE_BAD_OBJECT_RECORD
      | Some current \<Rightarrow>
          if obj_state current \<noteq> 1 \<or> obj_parent_object_id current = 0 \<or>
             obj_parent_object_id current > sb_object_count sb
          then fail VALIDATE_BAD_OBJECT_RECORD
          else if obj_parent_object_id current = cursor then fail VALIDATE_DIRECTORY_CYCLE
          else walk_to_root left source sb object_id (obj_parent_object_id current))"

definition validate_parent ::
  "boringfs_source \<Rightarrow> boringfs_superblock \<Rightarrow> u32 \<Rightarrow> unit \<Rightarrow> unit vresult" where
  "validate_parent source sb object_id u =
     (let fail = (\<lambda>code. fail_result code object_id LOCATION_NONE_U32 LOCATION_NONE_U64) in
      case decode_object_id source sb object_id of
        None \<Rightarrow> fail VALIDATE_BAD_OBJECT_RECORD
      | Some object \<Rightarrow>
          if obj_state object = 0 then Inr ()
          else case decode_object_id source sb (obj_parent_object_id object) of
            None \<Rightarrow> fail VALIDATE_BAD_OBJECT_RECORD
          | Some parent \<Rightarrow>
              if obj_state parent \<noteq> 1 \<or> obj_type parent \<noteq> 2 then fail VALIDATE_BAD_OBJECT_RECORD
              else case walk_to_root (Suc (unat (sb_object_count sb))) source sb object_id object_id of
                Inl e \<Rightarrow> Inl e
              | Inr reached_root \<Rightarrow>
                  if reached_root then Inr () else fail VALIDATE_DIRECTORY_CYCLE)"

definition validate_parents_and_cycles ::
  "boringfs_source \<Rightarrow> boringfs_superblock \<Rightarrow> unit vresult" where
  "validate_parents_and_cycles source sb =
     (let fail = fail_result VALIDATE_BAD_OBJECT_RECORD 1 LOCATION_NONE_U32 LOCATION_NONE_U64 in
      case decode_object_id source sb 1 of
        None \<Rightarrow> fail
      | Some root \<Rightarrow>
          if obj_state root \<noteq> 1 \<or> obj_type root \<noteq> 2 \<or> obj_parent_object_id root \<noteq> 1 then fail
          else for_each (object_ids sb 2) (validate_parent source sb) ())"

section \<open>Directories\<close>

definition read_directory_record ::
  "boringfs_source \<Rightarrow> boringfs_object \<Rightarrow> u64 \<Rightarrow> u8 list vresult" where
  "read_directory_record source directory record_index =
     (let fail = fail_result VALIDATE_BAD_DIRECTORY_RECORD (obj_object_id directory)
                   LOCATION_NONE_U32 record_index in
      case checked_mul_u64 record_index 256 of
        None \<Rightarrow> fail
      | Some logical_offset \<Rightarrow> (case logical_object_read source directory logical_offset 256 of
          None \<Rightarrow> fail
        | Some raw \<Rightarrow> Inr raw))"

definition directory_record_bad ::
  "boringfs_superblock \<Rightarrow> u8 list \<Rightarrow> boringfs_directory_record \<Rightarrow> bool" where
  "directory_record_bad sb raw r \<longleftrightarrow>
     dir_object_id r = 0 \<or> dir_object_id r > sb_object_count sb \<or> dir_flags r \<noteq> 0 \<or>
     (dir_type_hint r \<noteq> 1 \<and> dir_type_hint r \<noteq> 2) \<or>
     \<not> bytes_all_zero (sub_buffer raw 248 8) \<or> \<not> directory_name_valid r"

definition name_padding_zero :: "boringfs_directory_record \<Rightarrow> bool" where
  "name_padding_zero r \<longleftrightarrow>
     (\<forall>index \<in> set [unat (dir_name_length r)..<BORINGFS_MAX_FILENAME]. dir_name r ! index = 0)"

text \<open>The comparison of a record with one that comes before it in its directory.\<close>

definition check_previous ::
  "boringfs_source \<Rightarrow> u32 \<Rightarrow> boringfs_object \<Rightarrow> u64 \<Rightarrow> boringfs_directory_record \<Rightarrow>
   u64 \<Rightarrow> unit \<Rightarrow> unit vresult" where
  "check_previous source directory_id directory record_index r previous_index u =
     (case read_directory_record source directory previous_index of
        Inl e \<Rightarrow> Inl e
      | Inr previous_raw \<Rightarrow>
          if bytes_all_zero previous_raw then Inr ()
          else case boringfs_decode_directory_record (Some previous_raw) of
            None \<Rightarrow> fail_result VALIDATE_BAD_DIRECTORY_RECORD directory_id LOCATION_NONE_U32 previous_index
          | Some previous \<Rightarrow>
              if dir_name_length previous = dir_name_length r \<and>
                 bytes_equal (dir_name previous) (dir_name r) (unat (dir_name_length r))
              then fail_result VALIDATE_DUPLICATE_NAME directory_id LOCATION_NONE_U32 record_index
              else Inr ())"

definition validate_directory_record ::
  "boringfs_source \<Rightarrow> boringfs_superblock \<Rightarrow> u32 \<Rightarrow> boringfs_object \<Rightarrow> u64 \<Rightarrow>
   u8 list \<Rightarrow> u8 list vresult" where
  "validate_directory_record source sb directory_id directory record_index reference_count =
     (let bad = fail_result VALIDATE_BAD_DIRECTORY_RECORD directory_id LOCATION_NONE_U32 record_index in
      case read_directory_record source directory record_index of
        Inl e \<Rightarrow> Inl e
      | Inr raw \<Rightarrow>
          if bytes_all_zero raw then Inr reference_count
          else case boringfs_decode_directory_record (Some raw) of
            None \<Rightarrow> bad
          | Some r \<Rightarrow>
              if directory_record_bad sb raw r then bad
              else if \<not> name_padding_zero r then bad
              else if \<not> boringfs_utf8_valid (Some (dir_name r)) (unat (dir_name_length r))
                then fail_result VALIDATE_INVALID_UTF8 directory_id LOCATION_NONE_U32 record_index
              else case decode_object_id source sb (dir_object_id r) of
                None \<Rightarrow> bad
              | Some target \<Rightarrow>
                  if obj_state target \<noteq> 1 then bad
                  else if obj_type target \<noteq> dir_type_hint r then bad
                  else if dir_object_id r = 1
                    then fail_result VALIDATE_MULTIPLE_REFERENCE 1 LOCATION_NONE_U32 record_index
                  else if obj_parent_object_id target \<noteq> directory_id
                    then fail_result VALIDATE_PARENT_MISMATCH (dir_object_id r) LOCATION_NONE_U32 record_index
                  else case for_each (word_range 0 (unat record_index))
                              (check_previous source directory_id directory record_index r) () of
                    Inl e \<Rightarrow> Inl e
                  | Inr _ \<Rightarrow>
                      if reference_count ! unat (dir_object_id r - 1) \<noteq> 0
                      then fail_result VALIDATE_MULTIPLE_REFERENCE (dir_object_id r) LOCATION_NONE_U32 record_index
                      else Inr (reference_count[unat (dir_object_id r - 1) := 1]))"

definition record_indices :: "boringfs_object \<Rightarrow> u64 list" where
  "record_indices directory = word_range 0 (unat (obj_size_bytes directory div 256))"

definition validate_directory ::
  "boringfs_source \<Rightarrow> boringfs_superblock \<Rightarrow> u32 \<Rightarrow> u8 list \<Rightarrow> u8 list vresult" where
  "validate_directory source sb directory_id reference_count =
     (case decode_object_id source sb directory_id of
        None \<Rightarrow> fail_result VALIDATE_BAD_OBJECT_RECORD directory_id LOCATION_NONE_U32 LOCATION_NONE_U64
      | Some directory \<Rightarrow>
          if obj_state directory \<noteq> 1 \<or> obj_type directory \<noteq> 2 then Inr reference_count
          else for_each (record_indices directory)
                 (validate_directory_record source sb directory_id directory) reference_count)"

definition validate_directories ::
  "boringfs_source \<Rightarrow> boringfs_superblock \<Rightarrow> u8 list \<Rightarrow> u8 list vresult" where
  "validate_directories source sb reference_count =
     for_each (object_ids sb 1) (validate_directory source sb) reference_count"

section \<open>References and allocation\<close>

definition validate_reference ::
  "boringfs_source \<Rightarrow> boringfs_superblock \<Rightarrow> u8 list \<Rightarrow> u32 \<Rightarrow> unit \<Rightarrow> unit vresult" where
  "validate_reference source sb reference_count object_id u =
     (let fail = (\<lambda>code. fail_result code object_id LOCATION_NONE_U32 LOCATION_NONE_U64) in
      case decode_object_id source sb object_id of
        None \<Rightarrow> fail VALIDATE_BAD_OBJECT_RECORD
      | Some object \<Rightarrow>
          if obj_state object = 1 \<and> reference_count ! unat (object_id - 1) \<noteq> 1
          then fail VALIDATE_ORPHAN_OBJECT
          else if obj_state object = 0 \<and> reference_count ! unat (object_id - 1) \<noteq> 0
          then fail VALIDATE_BAD_DIRECTORY_RECORD
          else Inr ())"

definition validate_references ::
  "boringfs_source \<Rightarrow> boringfs_superblock \<Rightarrow> u8 list \<Rightarrow> unit vresult" where
  "validate_references source sb reference_count =
     (if reference_count ! 0 \<noteq> 0
      then fail_result VALIDATE_MULTIPLE_REFERENCE 1 LOCATION_NONE_U32 LOCATION_NONE_U64
      else for_each (object_ids sb 2) (validate_reference source sb reference_count) ())"

definition validate_allocation_ownership ::
  "boringfs_source \<Rightarrow> boringfs_superblock \<Rightarrow> u32 list \<Rightarrow> unit vresult" where
  "validate_allocation_ownership source sb block_owner =
     for_each (word_range (unat (sb_data_start sb)) (unat (sb_total_blocks sb)))
       (\<lambda>block u. case bitmap_bit source sb (ucast (block :: u32)) of
           None \<Rightarrow> fail_result VALIDATE_BAD_BITMAP LOCATION_NONE_U32 block LOCATION_NONE_U64
         | Some allocated \<Rightarrow>
             if allocated \<and> block_owner ! unat block = 0
             then fail_result VALIDATE_ALLOCATION_LEAK LOCATION_NONE_U32 block LOCATION_NONE_U64
             else Inr ())
       ()"

section \<open>The whole check\<close>

definition boringfs_validate_source ::
  "boringfs_source option \<Rightarrow> boringfs_validation_workspace option \<Rightarrow>
   boringfs_validation_workspace vresult" where
  "boringfs_validate_source source_ptr workspace_ptr =
     (let fail = (\<lambda>code. fail_result code LOCATION_NONE_U32 LOCATION_NONE_U32 LOCATION_NONE_U64) in
      case (source_ptr, workspace_ptr) of
        (Some source, Some workspace) \<Rightarrow>
          (case (src_read source, ws_block_owner workspace, ws_object_reference_count workspace) of
             (Some _, Some block_owner, Some reference_count) \<Rightarrow>
               (case validate_superblock source of
                  Inl e \<Rightarrow> Inl e
                | Inr sb \<Rightarrow>
                    if length block_owner < unat (sb_total_blocks sb) \<or>
                       length reference_count < unat (sb_object_count sb)
                    then fail VALIDATE_INSUFFICIENT_WORKSPACE
                    else
                      let block_owner = write_cells 0 (\<lambda>_. 0) (unat (sb_total_blocks sb)) block_owner;
                          reference_count = write_cells 0 (\<lambda>_. 0) (unat (sb_object_count sb)) reference_count
                      in case validate_bitmap_metadata_and_tail source sb block_owner of
                        Inl e \<Rightarrow> Inl e
                      | Inr block_owner \<Rightarrow>
                        (case validate_objects_and_extents source sb block_owner of
                          Inl e \<Rightarrow> Inl e
                        | Inr block_owner \<Rightarrow>
                          (case validate_parents_and_cycles source sb of
                            Inl e \<Rightarrow> Inl e
                          | Inr _ \<Rightarrow>
                            (case validate_directories source sb reference_count of
                              Inl e \<Rightarrow> Inl e
                            | Inr reference_count \<Rightarrow>
                              (case validate_references source sb reference_count of
                                Inl e \<Rightarrow> Inl e
                              | Inr _ \<Rightarrow>
                                (case validate_allocation_ownership source sb block_owner of
                                  Inl e \<Rightarrow> Inl e
                                | Inr _ \<Rightarrow>
                                    Inr (workspace\<lparr>ws_block_owner := Some block_owner,
                                           ws_object_reference_count := Some reference_count\<rparr>)))))))
           | _ \<Rightarrow> fail VALIDATE_INVALID_ARGUMENT)
      | _ \<Rightarrow> fail VALIDATE_INVALID_ARGUMENT)"

definition boringfs_validate_volume ::
  "u8 list option \<Rightarrow> boringfs_validation_workspace option \<Rightarrow> boringfs_validation_workspace vresult" where
  "boringfs_validate_volume volume workspace_ptr = (case volume of
     None \<Rightarrow> fail_result VALIDATE_INVALID_ARGUMENT LOCATION_NONE_U32 LOCATION_NONE_U32 LOCATION_NONE_U64
   | Some bytes \<Rightarrow>
       boringfs_validate_source
         (Some \<lparr>src_size = word_of_nat (length bytes), src_read = Some (memory_source_read volume)\<rparr>)
         workspace_ptr)"

text \<open>The result the C functions return: the code of the error report, which stays OK otherwise.\<close>

definition validation_code :: "'a vresult \<Rightarrow> boringfs_validation_result" where
  "validation_code r = (case r of Inl e \<Rightarrow> ve_code e | Inr _ \<Rightarrow> ve_code clear_error)"

fun boringfs_validation_result_name :: "boringfs_validation_result \<Rightarrow> string" where
  "boringfs_validation_result_name VALIDATE_OK = ''ok''"
| "boringfs_validation_result_name VALIDATE_INVALID_ARGUMENT = ''invalid-argument''"
| "boringfs_validation_result_name VALIDATE_TRUNCATED_VOLUME = ''truncated-volume''"
| "boringfs_validation_result_name VALIDATE_BAD_MAGIC = ''bad-magic''"
| "boringfs_validation_result_name VALIDATE_UNSUPPORTED_VERSION = ''unsupported-version''"
| "boringfs_validation_result_name VALIDATE_UNSUPPORTED_FEATURE = ''unsupported-feature''"
| "boringfs_validation_result_name VALIDATE_BAD_SUPERBLOCK = ''bad-superblock''"
| "boringfs_validation_result_name VALIDATE_BAD_LAYOUT = ''bad-layout''"
| "boringfs_validation_result_name VALIDATE_BAD_BITMAP = ''bad-bitmap''"
| "boringfs_validation_result_name VALIDATE_BAD_OBJECT_RECORD = ''bad-object-record''"
| "boringfs_validation_result_name VALIDATE_BAD_EXTENT = ''bad-extent''"
| "boringfs_validation_result_name VALIDATE_EXTENT_OVERLAP = ''extent-overlap''"
| "boringfs_validation_result_name VALIDATE_BAD_DIRECTORY_RECORD = ''bad-directory-record''"
| "boringfs_validation_result_name VALIDATE_INVALID_UTF8 = ''invalid-utf8''"
| "boringfs_validation_result_name VALIDATE_DUPLICATE_NAME = ''duplicate-name''"
| "boringfs_validation_result_name VALIDATE_ORPHAN_OBJECT = ''orphan-object''"
| "boringfs_validation_result_name VALIDATE_MULTIPLE_REFERENCE = ''multiple-reference''"
| "boringfs_validation_result_name VALIDATE_PARENT_MISMATCH = ''parent-mismatch''"
| "boringfs_validation_result_name VALIDATE_DIRECTORY_CYCLE = ''directory-cycle''"
| "boringfs_validation_result_name VALIDATE_ALLOCATION_LEAK = ''allocation-leak''"
| "boringfs_validation_result_name VALIDATE_INSUFFICIENT_WORKSPACE = ''insufficient-workspace''"

end
