(* ===== verification/ValidateSound.thy ===== *)
theory ValidateSound
  imports Validate
begin

text \<open>
  What a volume that passes \<open>boringfs_validate_source\<close> satisfies. The structure of
  the volume is read off by the decoders (\<open>decode_object_id\<close>, the directory
  records), and the invariants of the checker's loops are stated over it: which
  blocks have been claimed by which object (\<open>claims\<close>), which objects have been
  referenced (\<open>refers\<close>). The read callback owes the checker one thing, that it
  fills the buffer it is handed (\<open>volume_source\<close>).
\<close>

section \<open>Checked arithmetic\<close>

lemma checked_add_u32_eq [word_nat]:
  "checked_add_u32 a b = Some c \<longleftrightarrow> unat a + unat b < 4294967296 \<and> c = a + b"
  using unat_u32_less [of b]
  by (auto simp: checked_add_u32_def word_less_nat_alt unat_sub_if' not_less)

lemma checked_add_u64_eq [word_nat]:
  "checked_add_u64 a b = Some c \<longleftrightarrow> unat a + unat b < 18446744073709551616 \<and> c = a + b"
  using unat_u64_less [of b]
  by (auto simp: checked_add_u64_def word_less_nat_alt unat_sub_if' not_less)

lemma checked_mul_u64_eq [word_nat]:
  "checked_mul_u64 a b = Some c \<longleftrightarrow> unat a * unat b < 18446744073709551616 \<and> c = a * b"
proof (cases "a = 0")
  case True
  then show ?thesis by (auto simp: checked_mul_u64_def)
next
  case False
  then have pos: "0 < unat a" by (simp add: unat_gt_0)
  have "UINT64_MAX div a < b \<longleftrightarrow> 18446744073709551615 div unat a < unat b"
    by (simp add: word_less_nat_alt unat_div)
  also have "\<dots> \<longleftrightarrow> 18446744073709551615 < unat a * unat b"
    using div_less_iff_less_mult [OF pos, of "18446744073709551615" "unat b"] by (simp add: mult.commute)
  also have "\<dots> \<longleftrightarrow> \<not> unat a * unat b < 18446744073709551616" by linarith
  finally show ?thesis using False by (auto simp: checked_mul_u64_def)
qed

section \<open>Phases of an accepted validation\<close>

lemma validate_source_phases:
  assumes "boringfs_validate_source (Some source) (Some ws) = Inr ws'"
  obtains sb bo rc owner1 owner2 rc' where
    "ws_block_owner ws = Some bo" "ws_object_reference_count ws = Some rc"
    "validate_superblock source = Inr sb"
    "unat (sb_total_blocks sb) \<le> length bo" "unat (sb_object_count sb) \<le> length rc"
    "validate_bitmap_metadata_and_tail source sb
       (write_cells 0 (\<lambda>_. 0) (unat (sb_total_blocks sb)) bo) = Inr owner1"
    "validate_objects_and_extents source sb owner1 = Inr owner2"
    "validate_parents_and_cycles source sb = Inr ()"
    "validate_directories source sb
       (write_cells 0 (\<lambda>_. 0) (unat (sb_object_count sb)) rc) = Inr rc'"
    "validate_references source sb rc' = Inr ()"
    "validate_allocation_ownership source sb owner2 = Inr ()"
    "ws' = ws\<lparr>ws_block_owner := Some owner2, ws_object_reference_count := Some rc'\<rparr>"
  using assms
  by (auto simp: boringfs_validate_source_def Let_def fail_result_def not_less
      split: option.splits sum.splits if_splits)

section \<open>The layout a superblock is accepted with\<close>

lemma u64_of_small:
  "n < 18446744073709551616 \<Longrightarrow> unat (word_of_nat n :: u64) = n"
  by (simp add: unat_of_nat)

lemma ucast_u64_u32_unat [word_nat]:
  "unat (x :: u64) < 4294967296 \<Longrightarrow> unat (ucast x :: u32) = unat x"
  by (simp add: unsigned_ucast_eq take_bit_nat_eq_self)

definition layout_ok :: "boringfs_superblock \<Rightarrow> bool" where
  "layout_ok sb \<longleftrightarrow>
     0 < unat (sb_total_blocks sb) \<and> unat (sb_total_blocks sb) \<le> 1048576 \<and>
     64 \<le> unat (sb_object_count sb) \<and> unat (sb_object_count sb) \<le> 16384 \<and>
     unat (sb_bitmap_start sb) = 1 \<and>
     unat (sb_bitmap_blocks sb) = (unat (sb_total_blocks sb) + 32767) div 32768 \<and>
     unat (sb_object_table_start sb) = 1 + unat (sb_bitmap_blocks sb) \<and>
     unat (sb_object_table_blocks sb) = (unat (sb_object_count sb) * 128 + 4095) div 4096 \<and>
     unat (sb_data_start sb) = unat (sb_object_table_start sb) + unat (sb_object_table_blocks sb) \<and>
     unat (sb_data_start sb) \<le> unat (sb_total_blocks sb)"

lemma superblock_layout_ok:
  assumes "superblock_layout sb = Some (bb, os, ob, ds, db)"
    and "\<not> superblock_fields_bad sb raw"
  shows "layout_ok sb \<and> unat db = unat (sb_total_blocks sb) * 4096"
proof -
  let ?t = "sb_total_blocks sb" and ?c = "sb_object_count sb"
  have lim: "unat ?t \<le> 1048576" "0 < unat ?t" "64 \<le> unat ?c" "unat ?c \<le> 16384"
    using assms(2)
    by (simp_all add: superblock_fields_bad_def not_less word_le_nat_alt unat_gt_0)
  have bb: "unat ((?t + (32768 - 1)) div 32768) = (unat ?t + 32767) div 32768"
    using lim by (simp add: unat_div unat_add_exact)
  have bytes: "unat ((ucast ?c :: u64) * 128) = unat ?c * 128"
    using lim by (simp add: unat_mult_exact)
  have rounded: "unat ((ucast ?c :: u64) * 128 + (4096 - 1)) = unat ?c * 128 + 4095"
    using lim bytes by (simp add: unat_add_exact)
  have ob: "unat (ucast (((ucast ?c :: u64) * 128 + (4096 - 1)) div 4096) :: u32) =
      (unat ?c * 128 + 4095) div 4096"
    using lim rounded by (simp add: ucast_u64_u32_unat unat_div)
  have tb: "unat ((ucast ?t :: u64) * 4096) = unat ?t * 4096"
    using lim by (simp add: unat_mult_exact)
  from assms(1) have eqs: "sb_bitmap_start sb = 1"
    "sb_bitmap_blocks sb = (?t + (32768 - 1)) div 32768"
    "checked_add_u32 1 ((?t + (32768 - 1)) div 32768) = Some (sb_object_table_start sb)"
    "sb_object_table_blocks sb = ucast (((ucast ?c :: u64) * 128 + (4096 - 1)) div 4096)"
    "checked_add_u32 (sb_object_table_start sb) (sb_object_table_blocks sb) = Some (sb_data_start sb)"
    "sb_data_start sb \<le> ?t" "db = ucast ?t * 4096"
    by (auto simp: superblock_layout_def Let_def checked_mul_u64_eq checked_add_u64_eq not_less
        split: if_splits option.splits)
  then show ?thesis
    using lim bb ob tb
    by (auto simp: layout_ok_def checked_add_u32_eq unat_add_exact word_le_nat_alt)
qed

lemma validate_superblock_ok:
  assumes "validate_superblock source = Inr sb"
  shows "layout_ok sb" and "unat (sb_total_blocks sb) * 4096 \<le> unat (src_size source)"
    and "sb_magic sb = [0x42, 0x4f, 0x52, 0x49, 0x4e, 0x47, 0x46, 0x53]"
proof -
  from assms obtain raw bb os ob ds db where
    raw: "source_read_exact source 0 128 = Some raw" "boringfs_decode_superblock (Some raw) = Some sb"
    and lay: "superblock_layout sb = Some (bb, os, ob, ds, db)" "\<not> superblock_fields_bad sb raw"
    and size: "db \<le> src_size source" and magic: "magic_valid (sb_magic sb)"
    by (auto simp: validate_superblock_def Let_def fail_result_def not_less
        split: if_splits option.splits prod.splits)
  from superblock_layout_ok [OF lay] size
  show "layout_ok sb" "unat (sb_total_blocks sb) * 4096 \<le> unat (src_size source)"
    by (auto simp: word_le_nat_alt)
  from raw(2) have "length (sb_magic sb) = 8"
    by (auto simp: boringfs_decode_superblock_def split: if_splits)
  with magic show "sb_magic sb = [0x42, 0x4f, 0x52, 0x49, 0x4e, 0x47, 0x46, 0x53]"
    by (intro nth_equalityI) (auto simp: magic_valid_def bytes_equal_def)
qed

section \<open>Which object owns which block\<close>

definition extent_range :: "boringfs_extent \<Rightarrow> nat list" where
  "extent_range e = [unat (ext_start_block e) ..< unat (ext_start_block e) + unat (ext_block_count e)]"

definition blocks_of_object :: "boringfs_object \<Rightarrow> nat list" where
  "blocks_of_object object =
     concat (map (\<lambda>i. extent_range (obj_extents object ! i)) [0..<unat (obj_extent_count object)])"

text \<open>The blocks of the object in a slot of the object table, none for a free slot.\<close>

definition object_blocks :: "boringfs_source \<Rightarrow> boringfs_superblock \<Rightarrow> u32 \<Rightarrow> nat list" where
  "object_blocks source sb object_id = (case decode_object_id source sb object_id of
     None \<Rightarrow> []
   | Some object \<Rightarrow> if obj_state object = 1 then blocks_of_object object else [])"

definition claims_of :: "boringfs_source \<Rightarrow> boringfs_superblock \<Rightarrow> u32 list \<Rightarrow> (nat \<times> u32) list" where
  "claims_of source sb ids = concat (map (\<lambda>i. map (\<lambda>b. (b, i)) (object_blocks source sb i)) ids)"

definition claimed :: "boringfs_source \<Rightarrow> boringfs_superblock \<Rightarrow> (nat \<times> u32) list \<Rightarrow> u32 list \<Rightarrow> bool" where
  "claimed source sb L owner \<longleftrightarrow>
     unat (sb_total_blocks sb) \<le> length owner \<and> distinct (map fst L) \<and>
     (\<forall>(b, i) \<in> set L. unat (sb_data_start sb) \<le> b \<and> b < unat (sb_total_blocks sb) \<and> i \<noteq> 0 \<and>
        bitmap_bit source sb (word_of_nat b) = Some True) \<and>
     (\<forall>b. unat (sb_data_start sb) \<le> b \<longrightarrow> b < unat (sb_total_blocks sb) \<longrightarrow>
        owner ! b = (case map_of L b of Some i \<Rightarrow> i | None \<Rightarrow> 0))"

lemma claimed_unowned:
  assumes "claimed source sb L owner" "owner ! b = 0"
    and "unat (sb_data_start sb) \<le> b" "b < unat (sb_total_blocks sb)"
  shows "b \<notin> fst ` set L"
proof
  assume "b \<in> fst ` set L"
  then obtain i where i: "map_of L b = Some i" "(b, i) \<in> set L"
    by (metis domD dom_map_of_conv_image_fst map_of_SomeD)
  with assms show False by (fastforce simp: claimed_def)
qed

lemma claim_block_claimed:
  assumes "claimed source sb L owner" "claim_block source sb i block owner = Inr owner'"
    and "unat (sb_data_start sb) \<le> unat block" "unat block < unat (sb_total_blocks sb)" "i \<noteq> 0"
  shows "claimed source sb (L @ [(unat block, i)]) owner'"
proof -
  from assms(2) have free: "owner ! unat block = 0" and bit: "bitmap_bit source sb block = Some True"
    and o': "owner' = owner[unat block := i]"
    by (auto simp: claim_block_def fail_result_def split: if_splits option.splits bool.splits)
  have new: "unat block \<notin> fst ` set L"
    using claimed_unowned [OF assms(1) free assms(3,4)] .
  then have "map_of L (unat block) = None" by (simp add: map_of_eq_None_iff)
  then have look: "(case map_of (L @ [(unat block, i)]) b of Some i \<Rightarrow> i | None \<Rightarrow> 0) =
      (if b = unat block then i else case map_of L b of Some i \<Rightarrow> i | None \<Rightarrow> 0)" for b
    by (auto split: option.splits simp: map_add_def)
  show ?thesis
    using assms(1,3,4,5) new bit
    unfolding claimed_def look o' by (auto simp: nth_list_update)
qed

lemma map_unat_word_range:
  "hi \<le> 2 ^ LENGTH('a) \<Longrightarrow> map unat (word_range lo hi :: 'a::len word list) = [lo..<hi]"
  by (auto simp: word_range_def unat_of_nat intro!: map_idI)

lemma claim_blocks_claimed:
  assumes "claimed source sb L owner"
    and "for_each (word_range lo hi) (claim_block source sb i) owner = Inr owner'"
    and "unat (sb_data_start sb) \<le> lo" "hi \<le> unat (sb_total_blocks sb)" "i \<noteq> 0"
  shows "claimed source sb (L @ map (\<lambda>b. (b, i)) [lo..<hi]) owner'"
proof -
  have hi: "hi \<le> 2 ^ LENGTH(64)"
    using assms(4) unat_u32_less [of "sb_total_blocks sb"] by simp
  have "claimed source sb (L @ map (\<lambda>b. (unat (b :: u64), i)) (word_range lo hi)) owner'"
  proof (rule for_each_invariant [where I = "\<lambda>ys. claimed source sb (L @ map (\<lambda>b. (unat (b :: u64), i)) ys)",
        OF assms(2)])
    fix ys y zs u v
    assume split: "word_range lo hi = ys @ y # zs"
      and "claimed source sb (L @ map (\<lambda>b. (unat b, i)) ys) u" "claim_block source sb i y u = Inr v"
    moreover from split have "y \<in> set (word_range lo hi)" by simp
    then have "lo \<le> unat y \<and> unat y < hi" using unat_in_word_range [OF hi, of y lo] by simp
    ultimately show "claimed source sb (L @ map (\<lambda>b. (unat b, i)) (ys @ [y])) v"
      using claim_block_claimed [of source sb "L @ map (\<lambda>b. (unat b, i)) ys" u i y v] assms(3-5) by auto
  qed (use assms(1) in simp)
  then show ?thesis
    using map_unat_word_range [OF hi, of lo, symmetric] by (simp add: comp_def)
qed

lemma extent_bounds_ok:
  assumes "extent_bounds sb e cap = Some (end_block, cap')"
  shows "unat (sb_data_start sb) \<le> unat (ext_start_block e)"
    and "unat end_block = unat (ext_start_block e) + unat (ext_block_count e)"
    and "unat end_block \<le> unat (sb_total_blocks sb)"
    and "unat cap' = unat cap + 4096 * unat (ext_block_count e)"
    and "0 < unat (ext_block_count e)"
  using assms
  by (auto simp: extent_bounds_def checked_add_u32_eq checked_add_u64_eq checked_mul_u64_eq
      unat_add_exact unat_mult_exact word_le_nat_alt word_less_nat_alt not_less unat_gt_0
      split: if_splits option.splits)

lemma validate_extent_claimed:
  assumes "validate_extent source sb i raw object k (owner, cap) = Inr (owner', cap')"
    and "claimed source sb L owner" "k < unat (obj_extent_count object)" "i \<noteq> 0"
  shows "claimed source sb (L @ map (\<lambda>b. (b, i)) (extent_range (obj_extents object ! k))) owner'"
    and "unat cap' = unat cap + 4096 * length (extent_range (obj_extents object ! k))"
    and "ext_block_count (obj_extents object ! k) \<noteq> 0"
proof -
  let ?e = "obj_extents object ! k"
  from assms(1,3) obtain end_block where b: "extent_bounds sb ?e cap = Some (end_block, cap')"
    and run: "for_each (word_range (unat (ext_start_block ?e)) (unat end_block))
      (claim_block source sb i) owner = Inr owner'"
    by (auto simp: validate_extent_def Let_def fail_result_def
        split: option.splits sum.splits prod.splits if_splits)
  note bounds = extent_bounds_ok [OF b]
  show "unat cap' = unat cap + 4096 * length (extent_range ?e)"
    using bounds(4) by (simp add: extent_range_def)
  show "ext_block_count ?e \<noteq> 0" using bounds(5) by auto
  show "claimed source sb (L @ map (\<lambda>b. (b, i)) (extent_range ?e)) owner'"
    using claim_blocks_claimed [OF assms(2) run bounds(1,3) assms(4)] bounds(2)
    by (simp add: extent_range_def)
qed

lemma validate_extents_claimed:
  assumes "for_each [0..<8] (validate_extent source sb i raw object) (owner, 0) = Inr (owner', cap)"
    and "claimed source sb L owner" "unat (obj_extent_count object) \<le> 8" "i \<noteq> 0"
  shows "claimed source sb (L @ map (\<lambda>b. (b, i)) (blocks_of_object object)) owner' \<and>
    unat cap = 4096 * length (blocks_of_object object) \<and>
    (\<forall>k < unat (obj_extent_count object). ext_block_count (obj_extents object ! k) \<noteq> 0)"
proof -
  let ?n = "unat (obj_extent_count object)"
  let ?blocks = "\<lambda>ks. concat (map (\<lambda>k. extent_range (obj_extents object ! k)) ks)"
  let ?I = "\<lambda>ks (owner, cap). claimed source sb (L @ map (\<lambda>b. (b, i)) (?blocks ks)) owner \<and>
      unat (cap :: u64) = 4096 * length (?blocks ks) \<and>
      (\<forall>k \<in> set ks. ext_block_count (obj_extents object ! k) \<noteq> 0)"
  have "[0..<8] = [0..<?n] @ [?n..<8]"
    using assms(3) upt_add_eq_append [of 0 ?n "8 - ?n"] by simp
  then obtain s where first: "for_each [0..<?n] (validate_extent source sb i raw object) (owner, 0) = Inr s"
    and second: "for_each [?n..<8] (validate_extent source sb i raw object) s = Inr (owner', cap)"
    using assms(1) by (auto simp: for_each_append split: sum.splits)
  have "s = (owner', cap)"
    using second
    by (subst (asm) for_each_check)
       (auto simp: validate_extent_def fail_result_def split: if_splits)
  moreover have "?I [0..<?n] s"
  proof (rule for_each_invariant [where I = ?I, OF first])
    show "?I [] (owner, 0)" using assms(2) by simp
  next
    fix ys y zs u v
    assume split: "[0..<?n] = ys @ y # zs" and I: "?I ys u"
      and step: "validate_extent source sb i raw object y u = Inr v"
    from split have "y \<in> set [0..<?n]" by simp
    then have y: "y < ?n" by simp
    obtain ow ca ow' ca' where uv: "u = (ow, ca)" "v = (ow', ca')" by force
    from validate_extent_claimed [OF step [unfolded uv] _ y assms(4),
        of "L @ map (\<lambda>b. (b, i)) (?blocks ys)"] I
    show "?I (ys @ [y]) v" by (simp add: uv)
  qed
  ultimately show ?thesis by (simp add: blocks_of_object_def)
qed

text \<open>What the table scan establishes of one object record.\<close>

definition object_ok :: "boringfs_source \<Rightarrow> boringfs_superblock \<Rightarrow> u32 \<Rightarrow> bool" where
  "object_ok source sb object_id \<longleftrightarrow> (case decode_object_id source sb object_id of
     None \<Rightarrow> False
   | Some object \<Rightarrow>
       if obj_state object = 1 then
         (obj_type object = 1 \<or> obj_type object = 2) \<and> obj_object_id object = object_id \<and>
         0 < unat (obj_parent_object_id object) \<and>
         unat (obj_parent_object_id object) \<le> unat (sb_object_count sb) \<and>
         unat (obj_extent_count object) \<le> 8 \<and>
         (\<forall>k < unat (obj_extent_count object). ext_block_count (obj_extents object ! k) \<noteq> 0) \<and>
         unat (obj_size_bytes object) \<le> 4096 * length (blocks_of_object object) \<and>
         (obj_type object = 2 \<longrightarrow> unat (obj_size_bytes object) mod 256 = 0) \<and>
         (obj_type object = 1 \<longrightarrow> unat (obj_size_bytes object) \<le> 4294967295)
       else obj_state object = 0 \<and> object_id \<noteq> 1)"

lemma decode_object_zero:
  assumes "boringfs_decode_object (Some raw) = Some object" "bytes_all_zero raw"
  shows "obj_state object = 0"
proof -
  from assms(1) have "0 < length raw" "obj_state object = raw ! 0"
    by (auto simp: boringfs_decode_object_def split: if_splits option.splits)
  with assms(2) show ?thesis by (simp add: bytes_all_zero_def)
qed

lemma validate_object_claimed:
  assumes "validate_object source sb i owner = Inr owner'" "claimed source sb L owner" "i \<noteq> 0"
    and len: "\<And>raw. read_object_record source sb i = Some raw \<Longrightarrow> length raw = 128"
  shows "claimed source sb (L @ claims_of source sb [i]) owner' \<and> object_ok source sb i"
proof -
  from assms(1) obtain raw where raw: "read_object_record source sb i = Some raw"
    by (auto simp: validate_object_def Let_def fail_result_def split: option.splits)
  from len [OF raw] have "boringfs_decode_object (Some raw) \<noteq> None"
    by (simp add: boringfs_decode_object_def decode_extents_map)
  then obtain object where object: "boringfs_decode_object (Some raw) = Some object" by blast
  then have dec: "decode_object_id source sb i = Some object"
    by (simp add: decode_object_id_def raw)
  show ?thesis
  proof (cases "bytes_all_zero raw")
    case True
    with assms(1,2) raw dec decode_object_zero [OF object]
    show ?thesis
      by (auto simp: validate_object_def Let_def claims_of_def object_blocks_def object_ok_def
          fail_result_def split: if_splits)
  next
    case False
    with assms(1) raw object obtain cap where
      good: "\<not> object_record_bad sb i raw object"
      and dir: "obj_type object = 2 \<Longrightarrow> obj_size_bytes object mod 256 = 0"
      and reg: "obj_type object = 1 \<Longrightarrow> obj_size_bytes object \<le> ucast UINT32_MAX"
      and run: "for_each [0..<8] (validate_extent source sb i raw object) (owner, 0) = Inr (owner', cap)"
      and cap: "obj_size_bytes object \<le> cap"
      by (auto simp: validate_object_def Let_def fail_result_def not_less
          split: if_splits sum.splits)
    from good have st: "obj_state object = 1" and cnt: "unat (obj_extent_count object) \<le> 8"
      by (auto simp: object_record_bad_def not_less word_le_nat_alt)
    have modz: "unat (obj_size_bytes object) mod 256 = 0" if "obj_type object = 2"
      using dir [OF that] by (simp add: unat_mod flip: unat_eq_zero)
    from validate_extents_claimed [OF run assms(2) cnt assms(3)]
    have "claimed source sb (L @ map (\<lambda>b. (b, i)) (blocks_of_object object)) owner'"
      and capv: "unat cap = 4096 * length (blocks_of_object object)"
      and "\<forall>k < unat (obj_extent_count object). ext_block_count (obj_extents object ! k) \<noteq> 0" by auto
    then show ?thesis
      using st dec good modz reg cap
      by (auto simp: claims_of_def object_blocks_def object_ok_def object_record_bad_def
          word_le_nat_alt word_less_nat_alt not_less unat_gt_0)
  qed
qed

section \<open>Sources that fill the buffer they are handed\<close>

text \<open>
  The read callback is the client's. All the checker asks of it is that a read
  that reports success has filled the whole buffer.
\<close>

locale volume_source =
  fixes source :: boringfs_source
  assumes fills: "src_read source = Some rd \<Longrightarrow> rd offset len = Some bytes \<Longrightarrow> length bytes = unat len"
begin

lemma read_exact_length:
  "source_read_exact source offset len = Some bytes \<Longrightarrow> length bytes = unat len"
  using fills by (auto simp: source_read_exact_def split: option.splits if_splits)

lemma read_object_record_length:
  "read_object_record source sb i = Some raw \<Longrightarrow> length raw = 128"
  by (auto simp: read_object_record_def split: if_splits option.splits dest!: read_exact_length)

lemma objects_claimed:
  assumes run: "validate_objects_and_extents source sb owner = Inr owner'"
    and start: "claimed source sb [] owner" and "layout_ok sb"
  shows "claimed source sb (claims_of source sb (object_ids sb 1)) owner'"
    and "\<forall>i \<in> set (object_ids sb 1). object_ok source sb i"
proof -
  let ?I = "\<lambda>ys ow. claimed source sb (claims_of source sb ys) ow \<and> (\<forall>i \<in> set ys. object_ok source sb i)"
  have "Suc (unat (sb_object_count sb)) \<le> 2 ^ LENGTH(32)"
    using assms(3) by (simp add: layout_ok_def)
  then have nz: "i \<noteq> 0" if "i \<in> set (object_ids sb 1)" for i
    using that by (auto simp: object_ids_def unat_in_word_range)
  have "?I (object_ids sb 1) owner'"
  proof (rule for_each_invariant [where I = ?I, OF run [unfolded validate_objects_and_extents_def]])
    show "?I [] owner" using start by (simp add: claims_of_def)
  next
    fix ys y zs u v
    assume "object_ids sb 1 = ys @ y # zs" "?I ys u" "validate_object source sb y u = Inr v"
    with validate_object_claimed [of source sb y u v "claims_of source sb ys"]
      nz [of y] read_object_record_length
    show "?I (ys @ [y]) v" by (simp add: claims_of_def)
  qed
  then show "claimed source sb (claims_of source sb (object_ids sb 1)) owner'"
    and "\<forall>i \<in> set (object_ids sb 1). object_ok source sb i" by auto
qed

end

lemma metadata_unclaimed:
  assumes "validate_bitmap_metadata_and_tail source sb
      (write_cells 0 (\<lambda>_. 0) (unat (sb_total_blocks sb)) bo) = Inr owner"
    and "unat (sb_total_blocks sb) \<le> length bo" "layout_ok sb"
  shows "claimed source sb [] owner"
    and "\<forall>b < unat (sb_data_start sb). bitmap_bit source sb (word_of_nat b) = Some True"
proof -
  let ?ds = "unat (sb_data_start sb)"
  let ?body = "\<lambda>(block :: u64) owner. case bitmap_bit source sb block of
            Some True \<Rightarrow> Inr (owner[unat block := UINT32_MAX])
          | _ \<Rightarrow> fail_result VALIDATE_BAD_BITMAP LOCATION_NONE_U32 (ucast block) LOCATION_NONE_U64"
  let ?I = "\<lambda>(ys :: u64 list) (ow :: u32 list). length ow = length bo \<and>
      (\<forall>b. ?ds \<le> b \<longrightarrow> b < unat (sb_total_blocks sb) \<longrightarrow> ow ! b = 0) \<and>
      (\<forall>y \<in> set ys. bitmap_bit source sb y = Some True)"
  from assms(1) obtain mid where
    meta: "for_each (word_range 0 ?ds) ?body
      (write_cells 0 (\<lambda>_. 0) (unat (sb_total_blocks sb)) bo) = Inr mid"
    and "owner = mid"
    by (auto simp: validate_bitmap_metadata_and_tail_def fail_result_def
        split: sum.splits option.splits dest!: for_each_check [THEN iffD1, rotated]
        split: bool.splits)
  have ds: "?ds \<le> 2 ^ LENGTH(64)" using unat_u32_less [of "sb_data_start sb"] by simp
  have "?I (word_range 0 ?ds) mid"
  proof (rule for_each_invariant [where I = ?I, OF meta])
    show "?I [] (write_cells 0 (\<lambda>_. 0) (unat (sb_total_blocks sb)) bo)"
      using assms(2) by (simp add: nth_write_cells)
  next
    fix ys y zs u v
    assume split: "word_range 0 ?ds = ys @ y # zs" and "?I ys u" "?body y u = Inr v"
    moreover from split have "y \<in> set (word_range 0 ?ds)" by simp
    then have "unat y < ?ds" using unat_in_word_range [OF ds, of y 0] by simp
    ultimately show "?I (ys @ [y]) v"
      by (auto simp: fail_result_def split: option.splits bool.splits)
  qed
  then have len: "length owner = length bo"
    and free: "\<And>b. ?ds \<le> b \<Longrightarrow> b < unat (sb_total_blocks sb) \<Longrightarrow> owner ! b = 0"
    and bits: "\<And>y. y \<in> set (word_range 0 ?ds) \<Longrightarrow> bitmap_bit source sb y = Some True"
    using \<open>owner = mid\<close> by auto
  show "claimed source sb [] owner"
    using len free assms(2) by (simp add: claimed_def)
  show "\<forall>b < ?ds. bitmap_bit source sb (word_of_nat b) = Some True"
    using bits by (auto simp: word_range_def)
qed

section \<open>The allocation bitmap agrees with the extents\<close>

lemma ownership_checked:
  assumes "validate_allocation_ownership source sb owner = Inr ()"
    and "unat (sb_data_start sb) \<le> b" "b < unat (sb_total_blocks sb)"
  shows "\<exists>a. bitmap_bit source sb (word_of_nat b) = Some a \<and> (a \<longrightarrow> owner ! b \<noteq> 0)"
proof -
  have b: "b < 4294967296" using assms(3) unat_u32_less [of "sb_total_blocks sb"] by linarith
  then have w: "unat (word_of_nat b :: u32) = b" by (simp add: unat_of_nat)
  then have u: "(ucast (word_of_nat b :: u32) :: u64) = word_of_nat b"
    using b by (simp add: word_unat_eq_iff unat_of_nat)
  have "unat (sb_total_blocks sb) \<le> 2 ^ LENGTH(32)"
    using unat_u32_less [of "sb_total_blocks sb"] by simp
  then have "(word_of_nat b :: u32) \<in> set (word_range (unat (sb_data_start sb)) (unat (sb_total_blocks sb)))"
    using w assms(2,3) by (simp add: unat_in_word_range)
  from for_each_ran [OF assms(1) [unfolded validate_allocation_ownership_def] this] u w
  show ?thesis by (auto simp: fail_result_def split: option.splits if_splits)
qed

context volume_source
begin

lemma accepted_blocks:
  assumes "boringfs_validate_source (Some source) (Some ws) = Inr ws'"
    and sb: "validate_superblock source = Inr sb"
  shows "distinct (concat (map (object_blocks source sb) (object_ids sb 1)))"
    and "\<And>b. b \<in> set (concat (map (object_blocks source sb) (object_ids sb 1))) \<Longrightarrow>
      unat (sb_data_start sb) \<le> b \<and> b < unat (sb_total_blocks sb)"
    and "\<And>b. b < unat (sb_total_blocks sb) \<Longrightarrow> bitmap_bit source sb (word_of_nat b) =
      Some (b < unat (sb_data_start sb) \<or>
            b \<in> set (concat (map (object_blocks source sb) (object_ids sb 1))))"
    and "\<forall>i \<in> set (object_ids sb 1). object_ok source sb i"
proof -
  let ?ids = "object_ids sb 1"
  from assms(1) sb obtain bo owner1 owner2 where
    len: "unat (sb_total_blocks sb) \<le> length bo"
    and meta: "validate_bitmap_metadata_and_tail source sb
      (write_cells 0 (\<lambda>_. 0) (unat (sb_total_blocks sb)) bo) = Inr owner1"
    and objs: "validate_objects_and_extents source sb owner1 = Inr owner2"
    and alloc: "validate_allocation_ownership source sb owner2 = Inr ()"
    by (elim validate_source_phases) auto
  have lay: "layout_ok sb" using validate_superblock_ok [OF sb] by simp
  note start = metadata_unclaimed [OF meta len lay]
  note scan = objects_claimed [OF objs start(1) lay]
  have fsts: "map fst (claims_of source sb ?ids) = concat (map (object_blocks source sb) ?ids)"
    by (simp add: claims_of_def map_concat comp_def)
  show "distinct (concat (map (object_blocks source sb) ?ids))"
    using scan(1) unfolding claimed_def fsts by blast
  show inside: "unat (sb_data_start sb) \<le> b \<and> b < unat (sb_total_blocks sb)"
    if "b \<in> set (concat (map (object_blocks source sb) ?ids))" for b
    using that scan(1) unfolding claimed_def fsts [symmetric] by auto
  show "\<forall>i \<in> set ?ids. object_ok source sb i" by (rule scan(2))
  fix b assume b: "b < unat (sb_total_blocks sb)"
  show "bitmap_bit source sb (word_of_nat b) = Some (b < unat (sb_data_start sb) \<or>
      b \<in> set (concat (map (object_blocks source sb) ?ids)))"
  proof (cases "b < unat (sb_data_start sb)")
    case True
    then show ?thesis using start(2) by simp
  next
    case False
    then have ds: "unat (sb_data_start sb) \<le> b" by simp
    obtain a where a: "bitmap_bit source sb (word_of_nat b) = Some a" "a \<longrightarrow> owner2 ! b \<noteq> 0"
      using ownership_checked [OF alloc ds b] by blast
    show ?thesis
    proof (cases "b \<in> set (map fst (claims_of source sb ?ids))")
      case True
      then show ?thesis using scan(1) unfolding fsts [symmetric] claimed_def by auto
    next
      case out: False
      then have "map_of (claims_of source sb ?ids) b = None" by (simp add: map_of_eq_None_iff)
      then have "owner2 ! b = 0" using scan(1) ds b by (simp add: claimed_def)
      then show ?thesis using a False out unfolding fsts by auto
    qed
  qed
qed

end

section \<open>Every object is below the root directory\<close>

inductive below_root :: "boringfs_source \<Rightarrow> boringfs_superblock \<Rightarrow> u32 \<Rightarrow> bool"
  for source sb where
  root: "below_root source sb 1"
| child: "decode_object_id source sb i = Some object \<Longrightarrow> obj_state object = 1 \<Longrightarrow>
    decode_object_id source sb (obj_parent_object_id object) = Some parent \<Longrightarrow>
    obj_state parent = 1 \<Longrightarrow> obj_type parent = 2 \<Longrightarrow>
    below_root source sb (obj_parent_object_id object) \<Longrightarrow> below_root source sb i"

lemma decode_object_id_range:
  "decode_object_id source sb i = Some object \<Longrightarrow> i \<noteq> 0 \<and> i \<le> sb_object_count sb"
  by (auto simp: decode_object_id_def read_object_record_def not_less split: if_splits option.splits)

lemma walk_below_root:
  assumes "walk_to_root n source sb object_id cursor = Inr True"
    and parents: "\<And>i object. decode_object_id source sb i = Some object \<Longrightarrow> obj_state object = 1 \<Longrightarrow>
      i \<noteq> 1 \<Longrightarrow> \<exists>parent. decode_object_id source sb (obj_parent_object_id object) = Some parent \<and>
        obj_state parent = 1 \<and> obj_type parent = 2"
  shows "below_root source sb cursor"
  using assms(1)
proof (induction n arbitrary: cursor)
  case 0
  then show ?case by simp
next
  case (Suc n)
  show ?case
  proof (cases "cursor = 1")
    case True
    then show ?thesis by (simp add: below_root.root)
  next
    case False
    with Suc.prems obtain current where c: "decode_object_id source sb cursor = Some current"
      "obj_state current = 1" "walk_to_root n source sb object_id (obj_parent_object_id current) = Inr True"
      by (auto simp: Let_def fail_result_def split: option.splits if_splits)
    then show ?thesis
      using parents [OF c(1,2) False] Suc.IH [OF c(3)] by (blast intro: below_root.child)
  qed
qed

lemma validate_parents_below_root:
  assumes run: "validate_parents_and_cycles source sb = Inr ()" and "layout_ok sb"
    and object: "decode_object_id source sb i = Some object" "obj_state object = 1"
  shows "below_root source sb i"
proof (cases "i = 1")
  case True
  then show ?thesis by (simp add: below_root.root)
next
  case False
  have lim: "Suc (unat (sb_object_count sb)) \<le> 2 ^ LENGTH(32)"
    using assms(2) by (simp add: layout_ok_def)
  have loop: "for_each (object_ids sb 2) (validate_parent source sb) () = Inr ()"
    using run by (auto simp: validate_parents_and_cycles_def Let_def fail_result_def
        split: option.splits if_splits)
  have checked: "validate_parent source sb j () = Inr ()"
    if "decode_object_id source sb j = Some ob" "j \<noteq> 1" for j ob
  proof -
    have "2 \<le> unat j" using decode_object_id_range [OF that(1)] that(2)
      by (metis One_nat_def Suc_1 Suc_leI le_neq_implies_less less_one linorder_not_less
          unat_1 unat_eq_zero word_unat_eq_iff)
    then have "j \<in> set (object_ids sb 2)"
      using decode_object_id_range [OF that(1)] lim
      by (simp add: object_ids_def unat_in_word_range word_le_nat_alt)
    with for_each_ran [OF loop] show ?thesis by fastforce
  qed
  have "\<exists>parent. decode_object_id source sb (obj_parent_object_id ob) = Some parent \<and>
      obj_state parent = 1 \<and> obj_type parent = 2"
    if "decode_object_id source sb j = Some ob" "obj_state ob = 1" "j \<noteq> 1" for j ob
    using checked [OF that(1,3)] that
    by (auto simp: validate_parent_def Let_def fail_result_def split: option.splits if_splits)
  moreover have "walk_to_root (Suc (unat (sb_object_count sb))) source sb i i = Inr True"
    using checked [OF object(1) False] object
    by (auto simp: validate_parent_def Let_def fail_result_def simp del: walk_to_root.simps
        split: option.splits if_splits sum.splits)
  ultimately show ?thesis by (rule walk_below_root [rotated])
qed

section \<open>Directory records and references\<close>

text \<open>The records of a directory in use, and the slots of all directories in use.\<close>

definition live_directory :: "boringfs_source \<Rightarrow> boringfs_superblock \<Rightarrow> u32 \<Rightarrow> boringfs_object option" where
  "live_directory source sb d = (case decode_object_id source sb d of
     None \<Rightarrow> None
   | Some directory \<Rightarrow> if obj_state directory = 1 \<and> obj_type directory = 2 then Some directory else None)"

definition record_at :: "boringfs_source \<Rightarrow> boringfs_object \<Rightarrow> u64 \<Rightarrow> boringfs_directory_record option" where
  "record_at source directory k = (case read_directory_record source directory k of
     Inl _ \<Rightarrow> None
   | Inr raw \<Rightarrow> if bytes_all_zero raw then None else boringfs_decode_directory_record (Some raw))"

definition targets_in :: "boringfs_source \<Rightarrow> boringfs_object \<Rightarrow> u64 list \<Rightarrow> u32 list" where
  "targets_in source directory ks =
     concat (map (\<lambda>k. case record_at source directory k of None \<Rightarrow> [] | Some r \<Rightarrow> [dir_object_id r]) ks)"

definition directory_targets :: "boringfs_source \<Rightarrow> boringfs_superblock \<Rightarrow> u32 \<Rightarrow> u32 list" where
  "directory_targets source sb d = (case live_directory source sb d of
     None \<Rightarrow> []
   | Some directory \<Rightarrow> targets_in source directory (record_indices directory))"

definition entry_name :: "boringfs_directory_record \<Rightarrow> u8 list" where
  "entry_name r = take (unat (dir_name_length r)) (dir_name r)"

definition entry_ok :: "boringfs_source \<Rightarrow> boringfs_superblock \<Rightarrow> u32 \<Rightarrow> boringfs_directory_record \<Rightarrow> bool" where
  "entry_ok source sb d r \<longleftrightarrow>
     directory_name_valid r \<and> utf8_from (entry_name r) \<and> dir_object_id r \<noteq> 1 \<and>
     length (dir_name r) = 240 \<and>
     (case decode_object_id source sb (dir_object_id r) of
        None \<Rightarrow> False
      | Some target \<Rightarrow> obj_state target = 1 \<and> obj_type target = dir_type_hint r \<and>
          obj_parent_object_id target = d)"

definition referenced :: "boringfs_superblock \<Rightarrow> u32 list \<Rightarrow> u8 list \<Rightarrow> bool" where
  "referenced sb targets rc \<longleftrightarrow>
     unat (sb_object_count sb) \<le> length rc \<and> distinct targets \<and>
     (\<forall>i. i \<noteq> 0 \<longrightarrow> i \<le> sb_object_count sb \<longrightarrow> rc ! unat (i - 1) = (if i \<in> set targets then 1 else 0))"

lemma directory_record_name_length:
  "boringfs_decode_directory_record (Some raw) = Some r \<Longrightarrow> length (dir_name r) = 240"
  by (auto simp: boringfs_decode_directory_record_def split: if_splits)

lemma unat_pred:
  "(i :: 'a::len word) \<noteq> 0 \<Longrightarrow> unat (i - 1) = unat i - 1"
  by (simp add: unat_sub_exact word_le_nat_alt Suc_le_eq unat_gt_0)

lemma validate_directory_record_step:
  assumes "validate_directory_record source sb d directory k rc = Inr rc'"
  shows "record_at source directory k = None \<and> rc' = rc \<or>
    (\<exists>r. record_at source directory k = Some r \<and> entry_ok source sb d r \<and>
      dir_object_id r \<noteq> 0 \<and> dir_object_id r \<le> sb_object_count sb \<and>
      rc ! unat (dir_object_id r - 1) = 0 \<and> rc' = rc[unat (dir_object_id r - 1) := 1] \<and>
      for_each (word_range 0 (unat k)) (check_previous source d directory k r) () = Inr ())"
proof -
  from assms obtain raw where raw: "read_directory_record source directory k = Inr raw"
    by (auto simp: validate_directory_record_def Let_def split: sum.splits)
  show ?thesis
  proof (cases "bytes_all_zero raw")
    case True
    then show ?thesis
      using assms raw by (simp add: validate_directory_record_def record_at_def)
  next
    case False
    with assms raw obtain r target where r: "boringfs_decode_directory_record (Some raw) = Some r"
      and good: "\<not> directory_record_bad sb raw r"
      and utf: "boringfs_utf8_valid (Some (dir_name r)) (unat (dir_name_length r))"
      and target: "decode_object_id source sb (dir_object_id r) = Some target"
        "obj_state target = 1" "obj_type target = dir_type_hint r" "obj_parent_object_id target = d"
      and rest: "dir_object_id r \<noteq> 1" "rc ! unat (dir_object_id r - 1) = 0"
        "rc' = rc[unat (dir_object_id r - 1) := 1]"
        "for_each (word_range 0 (unat k)) (check_previous source d directory k r) () = Inr ()"
      by (auto simp: validate_directory_record_def Let_def fail_result_def
          split: option.splits if_splits sum.splits)
    have "record_at source directory k = Some r"
      using raw r False by (simp add: record_at_def)
    then show ?thesis
      using good utf target rest directory_record_name_length [OF r]
      by (auto simp: directory_record_bad_def entry_ok_def entry_name_def boringfs_utf8_valid_def not_less)
  qed
qed

lemma record_step_referenced:
  assumes "validate_directory_record source sb d directory k rc = Inr rc'"
    and "referenced sb targets rc"
  shows "referenced sb (targets @ targets_in source directory [k]) rc'"
  using validate_directory_record_step [OF assms(1)]
proof
  assume "record_at source directory k = None \<and> rc' = rc"
  then show ?thesis using assms(2) by (simp add: targets_in_def)
next
  assume "\<exists>r. record_at source directory k = Some r \<and> entry_ok source sb d r \<and>
      dir_object_id r \<noteq> 0 \<and> dir_object_id r \<le> sb_object_count sb \<and>
      rc ! unat (dir_object_id r - 1) = 0 \<and> rc' = rc[unat (dir_object_id r - 1) := 1] \<and>
      for_each (word_range 0 (unat k)) (check_previous source d directory k r) () = Inr ()"
  then obtain r where r: "record_at source directory k = Some r"
    "dir_object_id r \<noteq> 0" "dir_object_id r \<le> sb_object_count sb"
    "rc ! unat (dir_object_id r - 1) = 0" "rc' = rc[unat (dir_object_id r - 1) := 1]" by blast
  have new: "dir_object_id r \<notin> set targets"
    using r assms(2) by (auto simp: referenced_def)
  have inj: "unat (i - 1) = unat (dir_object_id r - 1) \<longleftrightarrow> i = dir_object_id r"
    if "i \<noteq> 0" for i
    using that r(2) by (metis diff_add_cancel word_unat_eq_iff)
  have "unat (dir_object_id r - 1) < unat (dir_object_id r)"
    using r(2) by (simp add: unat_pred unat_gt_0)
  also have "\<dots> \<le> length rc"
    using r(3) assms(2) by (simp add: referenced_def word_le_nat_alt)
  finally have "unat (dir_object_id r - 1) < length rc" .
  moreover have "rc' ! unat (i - 1) = (if i \<in> set (targets @ [dir_object_id r]) then 1 else 0)"
    if "i \<noteq> 0" "i \<le> sb_object_count sb" for i
    using that assms(2) inj [OF that(1)] new calculation
    unfolding r(5) referenced_def by (cases "i = dir_object_id r") simp_all
  ultimately show ?thesis
    using r(1) new assms(2) unfolding referenced_def targets_in_def by (simp add: r(5))
qed

lemma validate_directory_referenced:
  assumes "validate_directory source sb d rc = Inr rc'" and "referenced sb targets rc"
  shows "referenced sb (targets @ directory_targets source sb d) rc'"
proof (cases "live_directory source sb d")
  case None
  then show ?thesis
    using assms
    by (auto simp: validate_directory_def live_directory_def directory_targets_def fail_result_def
        split: option.splits if_splits)
next
  case (Some directory)
  with assms(1) have run: "for_each (record_indices directory)
      (validate_directory_record source sb d directory) rc = Inr rc'"
    by (auto simp: validate_directory_def live_directory_def split: option.splits if_splits)
  have "referenced sb (targets @ targets_in source directory (record_indices directory)) rc'"
  proof (rule for_each_invariant [where I = "\<lambda>ks. referenced sb (targets @ targets_in source directory ks)",
        OF run])
    show "referenced sb (targets @ targets_in source directory []) rc"
      using assms(2) by (simp add: targets_in_def)
  next
    fix ys y zs u v
    assume "referenced sb (targets @ targets_in source directory ys) u"
      "validate_directory_record source sb d directory y u = Inr v"
    from record_step_referenced [OF this(2,1)]
    show "referenced sb (targets @ targets_in source directory (ys @ [y])) v"
      by (simp add: targets_in_def)
  qed
  then show ?thesis by (simp add: directory_targets_def Some)
qed

lemma validate_directories_referenced:
  assumes run: "validate_directories source sb (write_cells 0 (\<lambda>_. 0) (unat (sb_object_count sb)) rc) = Inr rc'"
    and "unat (sb_object_count sb) \<le> length rc"
  shows "referenced sb (concat (map (directory_targets source sb) (object_ids sb 1))) rc'"
proof (rule for_each_invariant [where I = "\<lambda>ys. referenced sb (concat (map (directory_targets source sb) ys))",
      OF run [unfolded validate_directories_def]])
  have "unat (i - 1) < unat (sb_object_count sb) \<and> unat (i - 1) < length rc"
    if "i \<noteq> 0" "i \<le> sb_object_count sb" for i
  proof -
    have "unat (i - 1) < unat i" using that by (simp add: unat_pred unat_gt_0)
    also have "\<dots> \<le> unat (sb_object_count sb)" using that by (simp add: word_le_nat_alt)
    finally show ?thesis using assms(2) by simp
  qed
  then show "referenced sb (concat (map (directory_targets source sb) []))
      (write_cells 0 (\<lambda>_. 0) (unat (sb_object_count sb)) rc)"
    using assms(2) by (auto simp: referenced_def nth_write_cells)
next
  fix ys y zs u v
  assume "referenced sb (concat (map (directory_targets source sb) ys)) u"
    "validate_directory source sb y u = Inr v"
  from validate_directory_referenced [OF this(2,1)]
  show "referenced sb (concat (map (directory_targets source sb) (ys @ [y]))) v" by simp
qed

lemma checked_record:
  assumes run: "validate_directories source sb rc = Inr rc'"
    and live: "live_directory source sb d = Some directory" and d: "d \<in> set (object_ids sb 1)"
    and k: "k \<in> set (record_indices directory)"
  shows "\<exists>u v. validate_directory_record source sb d directory k u = Inr v"
proof -
  obtain u v where "validate_directory source sb d u = Inr v"
    using for_each_ran [OF run [unfolded validate_directories_def] d] by blast
  with live have "for_each (record_indices directory) (validate_directory_record source sb d directory) u = Inr v"
    by (auto simp: validate_directory_def live_directory_def split: option.splits if_splits)
  from for_each_ran [OF this k] show ?thesis .
qed

lemma names_differ:
  assumes "for_each (word_range 0 (unat k)) (check_previous source d directory k r) () = Inr ()"
    and "record_at source directory j = Some r'" "j < k"
    and len: "length (dir_name r) = 240" "length (dir_name r') = 240"
    "unat (dir_name_length r) \<le> 240" "unat (dir_name_length r') \<le> 240"
  shows "entry_name r' \<noteq> entry_name r"
proof
  assume eq: "entry_name r' = entry_name r"
  have "unat k \<le> 2 ^ LENGTH(64)" using unat_u64_less [of k] by simp
  then have "j \<in> set (word_range 0 (unat k))"
    using assms(3) by (simp add: unat_in_word_range word_less_nat_alt)
  with for_each_ran [OF assms(1)] have "check_previous source d directory k r j () = Inr ()" by fastforce
  moreover obtain raw where "read_directory_record source directory j = Inr raw" "\<not> bytes_all_zero raw"
    "boringfs_decode_directory_record (Some raw) = Some r'"
    using assms(2) by (auto simp: record_at_def split: sum.splits if_splits)
  ultimately have ne: "\<not> (dir_name_length r' = dir_name_length r \<and>
      bytes_equal (dir_name r') (dir_name r) (unat (dir_name_length r)))"
    by (auto simp: check_previous_def fail_result_def split: if_splits)
  have "length (entry_name r') = length (entry_name r)" using eq by simp
  then have l: "unat (dir_name_length r') = unat (dir_name_length r)"
    using len by (simp add: entry_name_def)
  have "dir_name r' ! i = dir_name r ! i" if "i < unat (dir_name_length r)" for i
    using arg_cong [OF eq, of "\<lambda>ns. ns ! i"] that l by (simp add: entry_name_def)
  then show False using ne l by (simp add: bytes_equal_def word_unat_eq_iff)
qed

lemma entry_ok_name_length: "entry_ok source sb d r \<Longrightarrow> unat (dir_name_length r) \<le> 240"
  by (simp add: entry_ok_def directory_name_valid_def not_less word_le_nat_alt)

lemma accepted_record:
  assumes run: "validate_directories source sb rc = Inr rc'"
    and live: "live_directory source sb d = Some directory" and d: "d \<in> set (object_ids sb 1)"
    and k: "k \<in> set (record_indices directory)" "record_at source directory k = Some r"
  shows "entry_ok source sb d r \<and>
    for_each (word_range 0 (unat k)) (check_previous source d directory k r) () = Inr ()"
  using checked_record [OF run live d k(1)] k(2) validate_directory_record_step by fastforce

lemmas accepted_entry = accepted_record [THEN conjunct1]

lemma accepted_names:
  assumes run: "validate_directories source sb rc = Inr rc'"
    and live: "live_directory source sb d = Some directory" and d: "d \<in> set (object_ids sb 1)"
    and k: "k \<in> set (record_indices directory)" "record_at source directory k = Some r"
    and j: "j \<in> set (record_indices directory)" "record_at source directory j = Some r'"
    and eq: "entry_name r' = entry_name r"
  shows "j = k"
proof (rule ccontr)
  note step_k = accepted_record [OF run live d k] and step_j = accepted_record [OF run live d j]
  have len: "length (dir_name r) = 240" "length (dir_name r') = 240"
    "unat (dir_name_length r) \<le> 240" "unat (dir_name_length r') \<le> 240"
    using step_k step_j entry_ok_name_length by (auto simp: entry_ok_def)
  assume "j \<noteq> k"
  then consider "j < k" | "k < j" by (meson linorder_neqE)
  then show False
  proof cases
    case 1
    from names_differ [OF conjunct2 [OF step_k] j(2) 1 len] eq show False by simp
  next
    case 2
    from names_differ [OF conjunct2 [OF step_j] k(2) 2 len(2,1,4,3)] eq show False by simp
  qed
qed

lemma accepted_references:
  assumes "boringfs_validate_source (Some source) (Some ws) = Inr ws'"
    and sb: "validate_superblock source = Inr sb"
  shows "distinct (concat (map (directory_targets source sb) (object_ids sb 1)))"
    and "set (concat (map (directory_targets source sb) (object_ids sb 1))) =
      {i. i \<noteq> 1 \<and> (\<exists>object. decode_object_id source sb i = Some object \<and> obj_state object = 1)}"
proof -
  let ?targets = "concat (map (directory_targets source sb) (object_ids sb 1))"
  from assms(1) sb obtain rc rc' where
    len: "unat (sb_object_count sb) \<le> length rc"
    and dirs: "validate_directories source sb (write_cells 0 (\<lambda>_. 0) (unat (sb_object_count sb)) rc) = Inr rc'"
    and refs: "validate_references source sb rc' = Inr ()"
    by (elim validate_source_phases) auto
  have lay: "layout_ok sb" using validate_superblock_ok [OF sb] by simp
  then have lim: "Suc (unat (sb_object_count sb)) \<le> 2 ^ LENGTH(32)" by (simp add: layout_ok_def)
  note final = validate_directories_referenced [OF dirs len]
  then show "distinct ?targets" by (simp add: referenced_def)
  have entry: "\<exists>q. entry_ok source sb d q \<and> dir_object_id q = i"
    if "i \<in> set (directory_targets source sb d)" "d \<in> set (object_ids sb 1)" for i d
  proof -
    from that(1) obtain directory k q where "live_directory source sb d = Some directory"
      "k \<in> set (record_indices directory)" "record_at source directory k = Some q" "dir_object_id q = i"
      by (auto simp: directory_targets_def targets_in_def split: option.splits) metis
    then show ?thesis using accepted_entry [OF dirs _ that(2)] by blast
  qed
  show "set ?targets = {i. i \<noteq> 1 \<and>
      (\<exists>object. decode_object_id source sb i = Some object \<and> obj_state object = 1)}"
  proof (intro set_eqI iffI)
    fix i assume "i \<in> set ?targets"
    with entry show "i \<in> {i. i \<noteq> 1 \<and>
        (\<exists>object. decode_object_id source sb i = Some object \<and> obj_state object = 1)}"
      by (fastforce simp: entry_ok_def split: option.splits)
  next
    fix i assume "i \<in> {i. i \<noteq> 1 \<and>
        (\<exists>object. decode_object_id source sb i = Some object \<and> obj_state object = 1)}"
    then obtain object where i: "i \<noteq> 1" and ob: "decode_object_id source sb i = Some object" "obj_state object = 1"
      by blast
    note range = decode_object_id_range [OF ob(1)]
    have "2 \<le> unat i"
      using range i by (metis One_nat_def Suc_1 Suc_leI le_neq_implies_less less_one linorder_not_less
          unat_1 unat_eq_zero word_unat_eq_iff)
    then have "i \<in> set (object_ids sb 2)"
      using range lim by (simp add: object_ids_def unat_in_word_range word_le_nat_alt)
    moreover have "for_each (object_ids sb 2) (validate_reference source sb rc') () = Inr ()"
      using refs by (auto simp: validate_references_def fail_result_def split: if_splits)
    ultimately have "validate_reference source sb rc' i () = Inr ()"
      using for_each_ran by fastforce
    then have "rc' ! unat (i - 1) = 1"
      using ob by (auto simp: validate_reference_def Let_def fail_result_def split: if_splits)
    with final range show "i \<in> set ?targets" by (auto simp: referenced_def split: if_splits)
  qed
qed

end
