(* ===== verification/ValidateReads.thy ===== *)
theory ValidateReads
  imports ValidateSound
begin

text \<open>
  What the name check and the object reader of libs/boringfs/validate.c compute:
  \<open>boringfs_utf8_valid\<close> accepts exactly the concatenations of encoded Unicode
  scalar values (\<open>utf8_encode\<close>, RFC 3629), and \<open>logical_object_read\<close> reads the
  window of the object's bytes laid end to end over its extents
  (\<open>object_addresses\<close>), and nothing when the window leaves them.
\<close>

section \<open>UTF-8\<close>

lemma base64_digits:
  "(c :: nat) = c div 4096 * 4096 + c div 64 mod 64 * 64 + c mod 64"
  "c = c div 262144 * 262144 + c div 4096 mod 64 * 4096 + c div 64 mod 64 * 64 + c mod 64"
proof -
  have 1: "c = c div 64 * 64 + c mod 64" by simp
  have 2: "c div 64 = c div 4096 * 64 + c div 64 mod 64"
    using div_mult_mod_eq [of "c div 64" 64] by (simp flip: div_mult2_eq)
  have 3: "c div 4096 = c div 262144 * 64 + c div 4096 mod 64"
    using div_mult_mod_eq [of "c div 4096" 64] by (simp flip: div_mult2_eq)
  show "c = c div 4096 * 4096 + c div 64 mod 64 * 64 + c mod 64" using 1 2 by linarith
  show "c = c div 262144 * 262144 + c div 4096 mod 64 * 4096 + c div 64 mod 64 * 64 + c mod 64"
    using 1 2 3 by linarith
qed

lemma digits_base64:
  assumes "(y :: nat) < 64" "z < 64"
  shows "(x * 4096 + y * 64 + z) div 4096 = x" "(x * 4096 + y * 64 + z) div 64 mod 64 = y"
    "(x * 4096 + y * 64 + z) mod 64 = z"
proof -
  have l: "y * 64 + z < 4096" using assms by linarith
  have "(x * 4096 + y * 64 + z) div 4096 = (y * 64 + z + x * 4096) div 4096"
    by (simp add: ac_simps)
  also have "\<dots> = x" using l by (subst div_mult_self1) simp_all
  finally show "(x * 4096 + y * 64 + z) div 4096 = x" .
  have "(x * 4096 + y * 64 + z) div 64 = (z + (x * 64 + y) * 64) div 64" by simp
  also have "\<dots> = x * 64 + y" using assms(2) by (subst div_mult_self1) simp_all
  finally show "(x * 4096 + y * 64 + z) div 64 mod 64 = y" using assms(1) by simp
  have "x * 4096 + y * 64 + z = z + 64 * (x * 64 + y)" by simp
  then show "(x * 4096 + y * 64 + z) mod 64 = z" using assms(2) by (simp only: mod_mult_self2 mod_less)
qed

definition unicode_scalar :: "nat \<Rightarrow> bool" where
  "unicode_scalar c \<longleftrightarrow> c < 0xd800 \<or> (0xe000 \<le> c \<and> c < 0x110000)"

definition utf8_encode :: "nat \<Rightarrow> u8 list" where
  "utf8_encode c = map word_of_nat
     (if c < 0x80 then [c]
      else if c < 0x800 then [0xc0 + c div 64, 0x80 + c mod 64]
      else if c < 0x10000 then [0xe0 + c div 4096, 0x80 + c div 64 mod 64, 0x80 + c mod 64]
      else [0xf0 + c div 262144, 0x80 + c div 4096 mod 64, 0x80 + c div 64 mod 64, 0x80 + c mod 64])"

lemma u8_of_nat_le [simp]: "n < 256 \<Longrightarrow> ((word_of_nat n :: u8) \<le> numeral w) = (n \<le> unat (numeral w :: u8))"
  by (simp add: word_le_nat_alt unat_of_nat)

lemma u8_of_nat_le' [simp]: "n < 256 \<Longrightarrow> (numeral w \<le> (word_of_nat n :: u8)) = (unat (numeral w :: u8) \<le> n)"
  by (simp add: word_le_nat_alt unat_of_nat)

lemma u8_of_nat_less [simp]: "n < 256 \<Longrightarrow> ((word_of_nat n :: u8) < numeral w) = (n < unat (numeral w :: u8))"
  by (simp add: word_less_nat_alt unat_of_nat)

lemma u8_of_nat_less' [simp]: "n < 256 \<Longrightarrow> (numeral w < (word_of_nat n :: u8)) = (unat (numeral w :: u8) < n)"
  by (simp add: word_less_nat_alt unat_of_nat)

lemma u8_of_nat_eq [simp]: "n < 256 \<Longrightarrow> ((word_of_nat n :: u8) = numeral w) = (n = unat (numeral w :: u8))"
  by (simp add: word_unat_eq_iff unat_of_nat)

lemma utf8_from_encode:
  assumes "unicode_scalar c"
  shows "utf8_from (utf8_encode c @ bs) = utf8_from bs"
proof -
  have "c < 0x110000" using assms by (auto simp: unicode_scalar_def)
  then consider "c < 0x80" | "0x80 \<le> c \<and> c < 0x800" | "0x800 \<le> c \<and> c < 0x10000"
    | "0x10000 \<le> c \<and> c < 0x110000" by linarith
  then show ?thesis
  proof cases
    case 1
    then show ?thesis by (simp add: utf8_encode_def del: of_nat_add)
  next
    case 2
    then have "c div 64 < 32" "2 \<le> c div 64" "\<not> 63 < c mod 64" by linarith+
    with 2 show ?thesis by (simp add: utf8_encode_def del: of_nat_add)
  next
    case 3
    define h m l where "h = c div 4096" and "m = c div 64 mod 64" and "l = c mod 64"
    have "c = h * 4096 + m * 64 + l" "m < 64" "l < 64"
      unfolding h_def m_def l_def using base64_digits(1) by simp_all
    moreover have "h < 16" using 3 unfolding h_def by linarith
    moreover have "\<not> (0xd800 \<le> c \<and> c < 0xe000)" using assms by (auto simp: unicode_scalar_def)
    ultimately have "h = 0 \<Longrightarrow> 32 \<le> m" "h = 13 \<Longrightarrow> m < 32" using 3 by linarith+
    with 3 \<open>h < 16\<close> \<open>m < 64\<close> \<open>l < 64\<close> show ?thesis
      by (auto simp: utf8_encode_def h_def [symmetric] m_def [symmetric] l_def [symmetric] simp del: of_nat_add)
  next
    case 4
    define q h m l where "q = c div 262144" and "h = c div 4096 mod 64" and "m = c div 64 mod 64"
      and "l = c mod 64"
    have "c = q * 262144 + h * 4096 + m * 64 + l" "h < 64" "m < 64" "l < 64"
      unfolding q_def h_def m_def l_def using base64_digits(2) by simp_all
    moreover have "q < 5" using 4 unfolding q_def by linarith
    ultimately have "q = 0 \<Longrightarrow> 16 \<le> h" "q = 4 \<Longrightarrow> h < 16" using 4 by linarith+
    with 4 \<open>q < 5\<close> \<open>h < 64\<close> \<open>m < 64\<close> \<open>l < 64\<close> show ?thesis
      by (auto simp: utf8_encode_def q_def [symmetric] h_def [symmetric] m_def [symmetric] l_def [symmetric]
          simp del: of_nat_add)
  qed
qed

lemma utf8_from_concat: "\<forall>c \<in> set cs. unicode_scalar c \<Longrightarrow> utf8_from (concat (map utf8_encode cs))"
  by (induction cs) (simp_all add: utf8_from_encode)

text \<open>The bytes the checker consumes in one turn of its loop are one encoded scalar value.\<close>

lemma u8_word_of_nat_eq: "(word_of_nat n :: u8) = b \<longleftrightarrow> n mod 256 = unat b"
  by (simp add: word_unat_eq_iff unat_of_nat)

lemma u8_weaken:
  "0xa0 \<le> x \<Longrightarrow> 0x80 \<le> (x :: u8)" "0x90 \<le> x \<Longrightarrow> 0x80 \<le> (x :: u8)"
  "x \<le> 0x9f \<Longrightarrow> x \<le> (0xbf :: u8)" "x \<le> 0x8f \<Longrightarrow> x \<le> (0xbf :: u8)"
  by (simp_all add: word_le_nat_alt)

lemma utf8_two:
  assumes "0xc2 \<le> b1" "b1 \<le> 0xdf" "0x80 \<le> b2" "b2 \<le> (0xbf :: u8)"
  shows "\<exists>c. unicode_scalar c \<and> utf8_encode c = [b1, b2]"
proof -
  define x y where "x = unat b1 - 192" and "y = unat b2 - 128"
  have r: "2 \<le> x" "x < 32" "y < 64" "unat b1 = 192 + x" "unat b2 = 128 + y"
    using assms by (simp_all add: x_def y_def word_le_nat_alt)
  then have "utf8_encode (x * 64 + y) = [b1, b2]"
    by (simp add: utf8_encode_def u8_word_of_nat_eq del: of_nat_add)
  moreover have "unicode_scalar (x * 64 + y)" using r by (simp add: unicode_scalar_def)
  ultimately show ?thesis by blast
qed

lemma utf8_three:
  assumes "0xe0 \<le> b1" "b1 \<le> 0xef" "0x80 \<le> b2" "b2 \<le> (0xbf :: u8)" "0x80 \<le> b3" "b3 \<le> (0xbf :: u8)"
    and "b1 = 0xe0 \<Longrightarrow> 0xa0 \<le> b2" "b1 = 0xed \<Longrightarrow> b2 \<le> 0x9f"
  shows "\<exists>c. unicode_scalar c \<and> utf8_encode c = [b1, b2, b3]"
proof -
  define x y z where "x = unat b1 - 224" and "y = unat b2 - 128" and "z = unat b3 - 128"
  have r: "x < 16" "y < 64" "z < 64" "unat b1 = 224 + x" "unat b2 = 128 + y" "unat b3 = 128 + z"
    using assms(1-6) by (simp_all add: x_def y_def z_def word_le_nat_alt)
  with assms(7,8) have low: "x = 0 \<Longrightarrow> 32 \<le> y" "x = 13 \<Longrightarrow> y < 32"
    by (simp_all add: word_le_nat_alt word_unat_eq_iff)
  with r have c: "2048 \<le> x * 4096 + y * 64 + z" "x * 4096 + y * 64 + z < 65536" by (cases x; simp)+
  have "(x * 4096 + y * 64 + z) div 4096 = x" "(x * 4096 + y * 64 + z) div 64 mod 64 = y"
    "(x * 4096 + y * 64 + z) mod 64 = z" using r digits_base64 by simp_all
  with c r have "utf8_encode (x * 4096 + y * 64 + z) = [b1, b2, b3]"
    by (simp add: utf8_encode_def u8_word_of_nat_eq del: of_nat_add)
  moreover have "unicode_scalar (x * 4096 + y * 64 + z)"
  proof -
    consider "x < 13" | "x = 13" | "13 < x" by linarith
    then show ?thesis using r low by cases (simp_all add: unicode_scalar_def)
  qed
  ultimately show ?thesis by blast
qed

lemma utf8_four:
  assumes "0xf0 \<le> b1" "b1 \<le> 0xf4" "0x80 \<le> b2" "b2 \<le> (0xbf :: u8)" "0x80 \<le> b3" "b3 \<le> (0xbf :: u8)"
    and "0x80 \<le> b4" "b4 \<le> (0xbf :: u8)" "b1 = 0xf0 \<Longrightarrow> 0x90 \<le> b2" "b1 = 0xf4 \<Longrightarrow> b2 \<le> 0x8f"
  shows "\<exists>c. unicode_scalar c \<and> utf8_encode c = [b1, b2, b3, b4]"
proof -
  define w x y z where "w = unat b1 - 240" and "x = unat b2 - 128" and "y = unat b3 - 128"
    and "z = unat b4 - 128"
  let ?c = "w * 262144 + x * 4096 + y * 64 + z"
  have r: "w < 5" "x < 64" "y < 64" "z < 64" "unat b1 = 240 + w" "unat b2 = 128 + x"
    "unat b3 = 128 + y" "unat b4 = 128 + z"
    using assms(1-8) by (simp_all add: w_def x_def y_def z_def word_le_nat_alt)
  with assms(9,10) have low: "w = 0 \<Longrightarrow> 16 \<le> x" "w = 4 \<Longrightarrow> x < 16"
    by (simp_all add: word_le_nat_alt word_unat_eq_iff)
  have c: "65536 \<le> ?c" "?c < 1114112"
  proof -
    consider "w = 0" | "1 \<le> w \<and> w < 4" | "w = 4" using r(1) by linarith
    then show "65536 \<le> ?c" "?c < 1114112" using r low by (cases; simp)+
  qed
  have "?c div 262144 = w" "?c div 4096 mod 64 = x" "?c div 64 mod 64 = y" "?c mod 64 = z"
    using digits_base64 [of x y "w * 64"] digits_base64 [of y z "w * 64 + x"] r
    by (simp_all add: ac_simps flip: div_mult2_eq)
  with c r have "utf8_encode ?c = [b1, b2, b3, b4]"
    by (simp add: utf8_encode_def u8_word_of_nat_eq del: of_nat_add)
  moreover have "unicode_scalar ?c" using c by (simp add: unicode_scalar_def)
  ultimately show ?thesis by blast
qed

lemma utf8_one: "b \<le> (0x7f :: u8) \<Longrightarrow> unicode_scalar (unat b) \<and> utf8_encode (unat b) = [b]"
  by (simp add: unicode_scalar_def utf8_encode_def word_le_nat_alt)

lemma utf8_from_decodes:
  "utf8_from bs \<Longrightarrow> \<exists>cs. (\<forall>c \<in> set cs. unicode_scalar c) \<and> bs = concat (map utf8_encode cs)"
proof (induction bs rule: length_induct)
  case (1 bs)
  have more: ?case if "unicode_scalar c" "bs = utf8_encode c @ rest" "utf8_from rest" "length rest < length bs"
    for c rest
  proof -
    from 1 that(3,4) obtain cs where "\<forall>c \<in> set cs. unicode_scalar c" "rest = concat (map utf8_encode cs)"
      by blast
    with that(1,2) show ?thesis by (intro exI [of _ "c # cs"]) simp
  qed
  show ?case
  proof (cases bs)
    case Nil
    then show ?thesis by (intro exI [of _ "[]"]) simp
  next
    case (Cons b1 bs1)
    consider "b1 \<le> 0x7f" | "\<not> b1 \<le> 0x7f" "0xc2 \<le> b1 \<and> b1 \<le> 0xdf"
      | "\<not> b1 \<le> 0x7f" "\<not> (0xc2 \<le> b1 \<and> b1 \<le> 0xdf)" "0xe0 \<le> b1 \<and> b1 \<le> 0xef"
      | "\<not> b1 \<le> 0x7f" "\<not> (0xc2 \<le> b1 \<and> b1 \<le> 0xdf)" "\<not> (0xe0 \<le> b1 \<and> b1 \<le> 0xef)" "0xf0 \<le> b1 \<and> b1 \<le> 0xf4"
      using 1(2) Cons by (auto split: if_splits)
    then show ?thesis
    proof cases
      case 1
      with \<open>utf8_from bs\<close> Cons utf8_one [OF 1] show ?thesis by (intro more [of "unat b1" bs1]) auto
    next
      case 2
      with \<open>utf8_from bs\<close> Cons obtain b2 rest where "bs1 = b2 # rest" "0x80 \<le> b2" "b2 \<le> 0xbf" "utf8_from rest"
        by (auto simp: not_less split: list.splits if_splits)
      with 2 utf8_two [of b1 b2] obtain c where "unicode_scalar c" "utf8_encode c = [b1, b2]" by blast
      with \<open>bs1 = _\<close> \<open>utf8_from rest\<close> Cons show ?thesis by (intro more [of c rest]) simp_all
    next
      case 3
      with \<open>utf8_from bs\<close> Cons obtain b2 b3 rest where "bs1 = b2 # b3 # rest" "utf8_from rest"
        "0x80 \<le> b2" "b2 \<le> 0xbf" "0x80 \<le> b3" "b3 \<le> 0xbf"
        "b1 = 0xe0 \<Longrightarrow> 0xa0 \<le> b2" "b1 = 0xed \<Longrightarrow> b2 \<le> 0x9f"
        by (auto simp: not_less split: list.splits if_splits dest: u8_weaken)
      with 3 utf8_three [of b1 b2 b3] obtain c where "unicode_scalar c" "utf8_encode c = [b1, b2, b3]" by blast
      with \<open>bs1 = _\<close> \<open>utf8_from rest\<close> Cons show ?thesis by (intro more [of c rest]) simp_all
    next
      case 4
      with \<open>utf8_from bs\<close> Cons obtain b2 b3 b4 rest where "bs1 = b2 # b3 # b4 # rest" "utf8_from rest"
        "0x80 \<le> b2" "b2 \<le> 0xbf" "0x80 \<le> b3" "b3 \<le> 0xbf" "0x80 \<le> b4" "b4 \<le> 0xbf"
        "b1 = 0xf0 \<Longrightarrow> 0x90 \<le> b2" "b1 = 0xf4 \<Longrightarrow> b2 \<le> 0x8f"
        by (auto simp: not_less split: list.splits if_splits dest: u8_weaken)
      with 4 utf8_four [of b1 b2 b3 b4] obtain c where "unicode_scalar c" "utf8_encode c = [b1, b2, b3, b4]" by blast
      with \<open>bs1 = _\<close> \<open>utf8_from rest\<close> Cons show ?thesis by (intro more [of c rest]) simp_all
    qed
  qed
qed

section \<open>Reading an object's bytes\<close>

definition memory_source :: "u8 list \<Rightarrow> boringfs_source" where
  "memory_source bytes =
     \<lparr>src_size = word_of_nat (length bytes), src_read = Some (memory_source_read (Some bytes))\<rparr>"

definition extent_addresses :: "boringfs_extent \<Rightarrow> nat list" where
  "extent_addresses e =
     [4096 * unat (ext_start_block e) ..< 4096 * (unat (ext_start_block e) + unat (ext_block_count e))]"

definition object_addresses :: "boringfs_object \<Rightarrow> nat list" where
  "object_addresses object =
     concat (map extent_addresses (take (unat (obj_extent_count object)) (obj_extents object)))"

lemma memory_read_exact:
  assumes "length bytes < 18446744073709551616" "unat offset + unat len \<le> length bytes"
  shows "source_read_exact (memory_source bytes) offset len =
    Some (map ((!) bytes) [unat offset ..< unat offset + unat len])"
proof -
  have size: "unat (word_of_nat (length bytes) :: u64) = length bytes"
    using assms(1) by (simp add: unat_of_nat)
  have ok: "\<not> offset > word_of_nat (length bytes)" "\<not> len > word_of_nat (length bytes) - offset"
    using assms(2) by (auto simp: word_less_nat_alt unat_sub_if' size)
  moreover have "map (\<lambda>i. bytes ! (unat offset + i)) [0..<unat len] =
      map ((!) bytes) [unat offset ..< unat offset + unat len]"
    by (rule nth_equalityI) auto
  ultimately show ?thesis
    using assms(2)
    by (auto simp: source_read_exact_def memory_source_def memory_source_read_def)
qed

lemma read_in_extent_memory:
  assumes "length bytes < 18446744073709551616"
    and "4096 * (unat (ext_start_block e) + unat (ext_block_count e)) \<le> length bytes"
    and "unat extent_bytes = 4096 * unat (ext_block_count e)" "offset < extent_bytes" "remaining \<noteq> 0"
  shows "read_in_extent (memory_source bytes) e extent_bytes offset remaining output =
    Some (if remaining < extent_bytes - offset then 0 else remaining - (extent_bytes - offset),
      output @ map ((!) bytes) (take (unat remaining) (drop (unat offset) (extent_addresses e))))"
proof -
  let ?avail = "extent_bytes - offset" and ?base = "ucast (ext_start_block e) * (4096 :: u64)"
  define chunk where "chunk = (if remaining < ?avail then remaining else ?avail)"
  have lim: "4096 * unat (ext_start_block e) + 4096 * unat (ext_block_count e) < 18446744073709551616"
    using assms(1,2) by simp
  have base: "unat ?base = 4096 * unat (ext_start_block e)"
    using lim by (simp add: unat_mult_exact)
  have off: "unat offset < 4096 * unat (ext_block_count e)"
    using assms(3,4) by (simp add: word_less_nat_alt)
  have avail: "unat ?avail = 4096 * unat (ext_block_count e) - unat offset"
    using assms(3,4) by (simp add: unat_sub_exact order_less_imp_le)
  have phys: "unat (?base + offset) = 4096 * unat (ext_start_block e) + unat offset"
    using lim off base by (simp add: unat_add_exact)
  have chunk: "unat chunk = min (unat remaining) (4096 * unat (ext_block_count e) - unat offset)"
    using avail by (auto simp: chunk_def word_less_nat_alt)
  have read: "source_read_exact (memory_source bytes) (?base + offset) chunk =
      Some (map ((!) bytes) (take (unat remaining) (drop (unat offset) (extent_addresses e))))"
  proof -
    have "unat (?base + offset) + unat chunk \<le> length bytes"
      using assms(2) off phys chunk by simp
    moreover have "[unat (?base + offset) ..< unat (?base + offset) + unat chunk] =
        take (unat remaining) (drop (unat offset) (extent_addresses e))"
      unfolding phys chunk extent_addresses_def using off
      by (intro nth_equalityI) (auto simp: distrib_left)
    ultimately show ?thesis using memory_read_exact [OF assms(1)] by simp
  qed
  have stop: "\<not> (offset + chunk < extent_bytes \<and> remaining - chunk \<noteq> 0)"
    by (auto simp: chunk_def)
  have muls: "checked_mul_u64 (ucast (ext_start_block e)) 4096 = Some ?base"
    "checked_add_u64 ?base offset = Some (?base + offset)"
    using lim off base by (simp_all add: checked_mul_u64_eq checked_add_u64_eq)
  let ?out = "output @ map ((!) bytes) (take (unat remaining) (drop (unat offset) (extent_addresses e)))"
  have "read_in_extent (memory_source bytes) e extent_bytes offset remaining output =
      read_in_extent (memory_source bytes) e extent_bytes (offset + chunk) (remaining - chunk) ?out"
    by (subst read_in_extent.simps) (simp add: assms(4,5) muls read Let_def chunk_def [symmetric])
  also have "\<dots> = Some (remaining - chunk, ?out)"
    by (simp only: read_in_extent.simps [of _ _ _ "offset + chunk"] if_not_P [OF stop])
  finally show ?thesis by (simp add: chunk_def)
qed

lemma length_extent_addresses [simp]: "length (extent_addresses e) = 4096 * unat (ext_block_count e)"
  by (simp add: extent_addresses_def)

lemma read_in_extents_memory:
  assumes "length bytes < 18446744073709551616"
    and "\<forall>e \<in> set es. 4096 * (unat (ext_start_block e) + unat (ext_block_count e)) \<le> length bytes"
  shows "read_in_extents (memory_source bytes) es offset remaining out =
    Some (remaining - word_of_nat (length (take (unat remaining) (drop (unat offset) (concat (map extent_addresses es))))),
      out @ map ((!) bytes) (take (unat remaining) (drop (unat offset) (concat (map extent_addresses es)))))"
  using assms(2)
proof (induction es arbitrary: offset remaining out)
  case Nil
  then show ?case by simp
next
  case (Cons e es)
  let ?eb = "ucast (ext_block_count e) * (4096 :: u64)"
  have small: "4096 * (unat (ext_start_block e) + unat (ext_block_count e)) \<le> length bytes"
    using Cons.prems by simp
  then have lim: "unat (ext_block_count e) * 4096 < 18446744073709551616"
    using assms(1) by simp
  have eb: "unat ?eb = 4096 * unat (ext_block_count e)"
    using lim by (simp add: unat_mult_exact)
  have mul: "checked_mul_u64 (ucast (ext_block_count e)) 4096 = Some ?eb"
    using lim by (simp add: checked_mul_u64_eq)
  show ?case
  proof (cases "remaining = 0")
    case True
    then show ?thesis by simp
  next
    case False
    show ?thesis
    proof (cases "offset \<ge> ?eb")
      case True
      then have "unat (offset - ?eb) = unat offset - 4096 * unat (ext_block_count e)"
        "4096 * unat (ext_block_count e) \<le> unat offset"
        by (simp_all add: unat_sub_exact eb word_le_nat_alt)
      then show ?thesis
        using False True mul Cons.prems by (simp add: Cons.IH)
    next
      case lt: False
      then have off: "offset < ?eb" by simp
      then have offn: "unat offset < 4096 * unat (ext_block_count e)"
        by (simp add: word_less_nat_alt eb)
      have avail: "unat (?eb - offset) = 4096 * unat (ext_block_count e) - unat offset"
        using off by (simp add: unat_sub_exact eb order_less_imp_le)
      define rest where "rest = (if remaining < ?eb - offset then 0 else remaining - (?eb - offset))"
      have rest: "unat rest = unat remaining - (4096 * unat (ext_block_count e) - unat offset)"
        using avail by (auto simp: rest_def word_less_nat_alt unat_sub_if')
      have mem: "read_in_extent (memory_source bytes) e ?eb offset remaining out =
          Some (rest, out @ map ((!) bytes) (take (unat remaining) (drop (unat offset) (extent_addresses e))))"
        unfolding rest_def by (rule read_in_extent_memory [OF assms(1) small eb off False])
      have sum: "rest = remaining - word_of_nat (min (4096 * unat (ext_block_count e) - unat offset) (unat remaining))"
        using rest by (simp add: word_unat_eq_iff unat_sub_of_nat)
      show ?thesis
        using False lt mul mem Cons.prems offn
        by (auto simp: Cons.IH rest intro: sum)
    qed
  qed
qed

lemma logical_read_memory:
  assumes "length bytes < 18446744073709551616"
    and "\<forall>e \<in> set (take (unat (obj_extent_count object)) (obj_extents object)).
      4096 * (unat (ext_start_block e) + unat (ext_block_count e)) \<le> length bytes"
  shows "logical_object_read (memory_source bytes) object offset len =
    (if unat len \<le> length (object_addresses object) - unat offset
     then Some (map ((!) bytes) (take (unat len) (drop (unat offset) (object_addresses object))))
     else None)"
proof -
  let ?a = "object_addresses object"
  let ?n = "min (length ?a - unat offset) (unat len)"
  have "len - word_of_nat ?n = 0 \<longleftrightarrow> unat len \<le> length ?a - unat offset"
    unfolding word_unat_eq_iff [of "len - word_of_nat ?n"] by (simp add: unat_sub_of_nat)
  then show ?thesis
    unfolding logical_object_read_def read_in_extents_memory [OF assms] object_addresses_def [symmetric]
    by simp
qed

lemma reserved_zero_memory:
  assumes "length bytes < 18446744073709551616" "4096 \<le> length bytes"
    and "\<forall>k. unat offset \<le> k \<and> k < 4096 \<longrightarrow> bytes ! k = 0"
  shows "reserved_block_zero (memory_source bytes) offset"
  using assms(3)
proof (induction "memory_source bytes" offset rule: reserved_block_zero.induct)
  case (1 offset)
  show ?case
  proof (cases "offset < 4096")
    case False
    then show ?thesis by (simp add: reserved_block_zero.simps)
  next
    case True
    define chunk where "chunk = (if 4096 - offset < 256 then 4096 - offset else (256 :: u64))"
    have off: "unat offset < 4096" using True by (simp add: word_less_nat_alt)
    have chunk: "unat chunk = min (4096 - unat offset) 256"
      using True by (auto simp: chunk_def word_less_nat_alt unat_sub_if')
    have next_off: "unat (offset + chunk) = unat offset + unat chunk"
      using off chunk by (simp add: unat_add_exact)
    have read: "source_read_exact (memory_source bytes) offset chunk =
        Some (map ((!) bytes) [unat offset ..< unat offset + unat chunk])"
      using assms off chunk by (intro memory_read_exact) auto
    have "reserved_block_zero (memory_source bytes) (offset + chunk)"
      using 1(2) next_off by (intro 1(1) [OF True refl chunk_def read]) auto
    moreover have "bytes_all_zero (map ((!) bytes) [unat offset ..< unat offset + unat chunk])"
      using 1(2) chunk by (auto simp: bytes_all_zero_def)
    ultimately show ?thesis
      using True read
      by (subst reserved_block_zero.simps) (simp add: Let_def chunk_def [symmetric])
  qed
qed

section \<open>Volumes in memory\<close>

interpretation memory: volume_source "memory_source bytes" for bytes
  by unfold_locales
    (auto simp: memory_source_def memory_source_read_def split: option.splits if_splits)

lemma validate_volume_memory:
  "boringfs_validate_volume (Some bytes) ws = boringfs_validate_source (Some (memory_source bytes)) ws"
  by (simp add: boringfs_validate_volume_def memory_source_def)

lemma accepted_superblock:
  assumes "boringfs_validate_volume (Some bytes) (Some ws) = Inr ws'"
  obtains sb where "validate_superblock (memory_source bytes) = Inr sb"
  using assms unfolding validate_volume_memory by (elim validate_source_phases)

lemma decode_object_extents:
  "decode_object_id source sb i = Some object \<Longrightarrow> length (obj_extents object) = 8"
  by (auto simp: decode_object_id_def boringfs_decode_object_def decode_extents_map
      split: option.splits if_splits)

lemma block_of_address:
  "4096 * s \<le> a \<Longrightarrow> a < 4096 * s + 4096 * c \<Longrightarrow> s \<le> a div 4096 \<and> a div 4096 < s + (c :: nat)"
  by (auto; linarith)

lemma object_addresses_blocks:
  assumes "length (obj_extents object) = 8" "unat (obj_extent_count object) \<le> 8"
  shows "length (object_addresses object) = 4096 * length (blocks_of_object object)"
    and "a \<in> set (object_addresses object) \<Longrightarrow> a div 4096 \<in> set (blocks_of_object object)"
proof -
  have "take (unat (obj_extent_count object)) (obj_extents object) =
      map ((!) (obj_extents object)) [0..<unat (obj_extent_count object)]"
    using assms by (intro nth_equalityI) auto
  then have addr: "object_addresses object = concat (map (\<lambda>i. extent_addresses (obj_extents object ! i))
      [0..<unat (obj_extent_count object)])"
    by (simp add: object_addresses_def comp_def)
  have "length (concat (map (\<lambda>i. extent_addresses (f i)) ks)) =
      4096 * length (concat (map (\<lambda>i. extent_range (f i)) ks))" for f :: "nat \<Rightarrow> boringfs_extent" and ks
    by (induction ks) (simp_all add: extent_range_def)
  then show "length (object_addresses object) = 4096 * length (blocks_of_object object)"
    unfolding addr blocks_of_object_def .
  show "a div 4096 \<in> set (blocks_of_object object)" if "a \<in> set (object_addresses object)"
    using that block_of_address unfolding addr blocks_of_object_def
    by (fastforce simp: extent_addresses_def extent_range_def)
qed

text \<open>The objects of an accepted volume lie in its data area and hold their declared size.\<close>

lemma accepted_object:
  assumes "boringfs_validate_volume (Some bytes) (Some ws) = Inr ws'"
    and sb: "validate_superblock (memory_source bytes) = Inr sb"
    and object: "decode_object_id (memory_source bytes) sb i = Some object" "obj_state object = 1"
  shows "unat (obj_extent_count object) \<le> 8"
    and "\<forall>k < unat (obj_extent_count object). ext_block_count (obj_extents object ! k) \<noteq> 0"
    and "unat (obj_size_bytes object) \<le> length (object_addresses object)"
    and "a \<in> set (object_addresses object) \<Longrightarrow>
      4096 * unat (sb_data_start sb) \<le> a \<and> a < 4096 * unat (sb_total_blocks sb)"
proof -
  note acc = memory.accepted_blocks [OF assms(1) [unfolded validate_volume_memory] sb]
  have lay: "layout_ok sb" using validate_superblock_ok [OF sb] by simp
  have "i \<in> set (object_ids sb 1)"
    using decode_object_id_range [OF object(1)] lay
    by (simp add: object_ids_def unat_in_word_range word_le_nat_alt layout_ok_def Suc_le_eq unat_gt_0)
  then have ok: "object_ok (memory_source bytes) sb i"
    and sub: "set (blocks_of_object object) \<subseteq> set (concat (map (object_blocks (memory_source bytes) sb) (object_ids sb 1)))"
    using acc(4) object by (auto simp: object_blocks_def)
  then show cnt: "unat (obj_extent_count object) \<le> 8"
    using object by (simp add: object_ok_def)
  show "\<forall>k < unat (obj_extent_count object). ext_block_count (obj_extents object ! k) \<noteq> 0"
    using ok object by (simp add: object_ok_def)
  note blocks = object_addresses_blocks [OF decode_object_extents [OF object(1)] cnt]
  show "unat (obj_size_bytes object) \<le> length (object_addresses object)"
    using ok object blocks(1) by (simp add: object_ok_def)
  show "4096 * unat (sb_data_start sb) \<le> a \<and> a < 4096 * unat (sb_total_blocks sb)"
    if "a \<in> set (object_addresses object)"
  proof -
    have "unat (sb_data_start sb) \<le> a div 4096 \<and> a div 4096 < unat (sb_total_blocks sb)"
      using acc(2) sub blocks(2) [OF that] by blast
    then show ?thesis by (simp add: less_eq_div_iff_mult_less_eq div_less_iff_less_mult mult.commute)
  qed
qed

lemma accepted_extents_in_volume:
  assumes "length bytes < 18446744073709551616"
    and "boringfs_validate_volume (Some bytes) (Some ws) = Inr ws'"
    and sb: "validate_superblock (memory_source bytes) = Inr sb"
    and object: "decode_object_id (memory_source bytes) sb i = Some object" "obj_state object = 1"
  shows "\<forall>e \<in> set (take (unat (obj_extent_count object)) (obj_extents object)).
      4096 * (unat (ext_start_block e) + unat (ext_block_count e)) \<le> length bytes"
proof
  fix e assume e: "e \<in> set (take (unat (obj_extent_count object)) (obj_extents object))"
  have size: "4096 * unat (sb_total_blocks sb) \<le> length bytes"
    using validate_superblock_ok(2) [OF sb] assms(1) by (simp add: memory_source_def unat_of_nat mult.commute)
  note object_facts = accepted_object [OF assms(2) sb object]
  have "ext_block_count e \<noteq> 0"
    using e object_facts(1,2) decode_object_extents [OF object(1)] by (auto simp: in_set_conv_nth)
  then have "4096 * (unat (ext_start_block e) + unat (ext_block_count e)) - 1 \<in> set (object_addresses object)"
    using e by (auto simp: object_addresses_def extent_addresses_def simp flip: unat_gt_0 intro!: bexI [of _ e])
  from object_facts(4) [OF this] size
  show "4096 * (unat (ext_start_block e) + unat (ext_block_count e)) \<le> length bytes" by linarith
qed

end
