(* ===== verification/SampleVolume.thy ===== *)
theory SampleVolume
  imports ValidateReads
begin

text \<open>
  A volume of six blocks with a root directory that holds one file, given byte
  by byte, and the run of \<open>boringfs_validate_volume\<close> over it. It is the concrete
  volume at which the properties of accepted volumes are instantiated.
\<close>

definition sample_superblock :: "u8 list" where
  "sample_superblock =
     [0x42, 0x4f, 0x52, 0x49, 0x4e, 0x47, 0x46, 0x53, 0, 0, 1, 0, 128, 0, 12, 0,
      6, 0, 0, 0, 1, 0, 0, 0, 1, 0, 0, 0, 2, 0, 0, 0,
      2, 0, 0, 0, 64, 0, 0, 0, 1, 0, 0, 0, 4, 0, 0, 0,
      128, 0, 0, 1, 0, 0, 0, 0, 0, 0, 0, 0, 0, 0, 0, 0]"

definition sample_root :: "u8 list" where
  "sample_root =
     [1, 2, 0, 0, 1, 0, 0, 0, 1, 0, 0, 0, 1, 0, 0, 0,
      0, 1, 0, 0, 0, 0, 0, 0, 4, 0, 0, 0, 1, 0, 0, 0] @ replicate 96 0"

definition sample_file :: "u8 list" where
  "sample_file =
     [1, 1, 0, 0, 2, 0, 0, 0, 1, 0, 0, 0, 1, 0, 0, 0,
      5, 0, 0, 0, 0, 0, 0, 0, 5, 0, 0, 0, 1, 0, 0, 0] @ replicate 96 0"

definition sample_record :: "u8 list" where
  "sample_record = [2, 0, 0, 0, 1, 0, 1, 0, 0x61] @ replicate 247 0"

definition sample_byte :: "nat \<Rightarrow> u8" where
  "sample_byte k =
     (if k < 64 then sample_superblock ! k
      else if k < 4096 then 0
      else if k < 8192 then 0xff
      else if k < 8320 then sample_root ! (k - 8192)
      else if k < 8448 then sample_file ! (k - 8320)
      else if k < 16384 then 0
      else if k < 16640 then sample_record ! (k - 16384)
      else 0)"

definition sample_volume :: "u8 list" where
  "sample_volume = map sample_byte [0..<24576]"

definition sample_workspace :: boringfs_validation_workspace where
  "sample_workspace = \<lparr>ws_block_owner = Some (replicate 6 0),
     ws_object_reference_count = Some (replicate 64 0)\<rparr>"

definition sample_sb :: boringfs_superblock where
  "sample_sb = \<lparr>sb_magic = [0x42, 0x4f, 0x52, 0x49, 0x4e, 0x47, 0x46, 0x53],
     sb_format_major = 0, sb_format_minor = 1, sb_header_size = 128, sb_block_shift = 12,
     sb_flags = 0, sb_total_blocks = 6, sb_bitmap_start = 1, sb_bitmap_blocks = 1,
     sb_object_table_start = 2, sb_object_table_blocks = 2, sb_object_count = 64,
     sb_root_object_id = 1, sb_data_start = 4, sb_object_record_size = 128,
     sb_directory_record_size = 256, sb_feature_compat = 0, sb_feature_ro_compat = 0,
     sb_feature_incompat = 0\<rparr>"

abbreviation (input) sample_source :: boringfs_source where
  "sample_source \<equiv> memory_source sample_volume"

lemma length_sample:
  "length sample_superblock = 64" "length sample_root = 128" "length sample_file = 128"
  "length sample_record = 256"
  by (simp_all add: sample_superblock_def sample_root_def sample_file_def sample_record_def)

lemma sample_read:
  assumes "unat offset + unat len \<le> 24576"
  shows "source_read_exact sample_source offset len =
    Some (map sample_byte [unat offset ..< unat offset + unat len])"
proof -
  have "source_read_exact sample_source offset len =
      Some (map ((!) sample_volume) [unat offset ..< unat offset + unat len])"
    using assms by (intro memory_read_exact) (simp_all add: sample_volume_def)
  also have "map ((!) sample_volume) [unat offset ..< unat offset + unat len] =
      map sample_byte [unat offset ..< unat offset + unat len]"
    using assms by (intro map_cong) (auto simp: sample_volume_def)
  finally show ?thesis .
qed

lemma map_byte_shift:
  "map sample_byte [k ..< k + n] = map (\<lambda>i. sample_byte (k + i)) [0..<n]"
  by (rule nth_equalityI) auto

lemma sample_superblock_read:
  "source_read_exact sample_source 0 128 = Some (sample_superblock @ replicate 64 0)"
proof -
  have "map sample_byte [0..<128] = sample_superblock @ replicate 64 0"
    by (rule nth_equalityI) (auto simp: sample_byte_def nth_append length_sample)
  then show ?thesis using sample_read [of 0 128] by simp
qed

lemma sample_decode: "boringfs_decode_superblock (Some (sample_superblock @ replicate 64 0)) = Some sample_sb"
  by (simp add: boringfs_decode_superblock_def sample_superblock_def sample_sb_def load_le16_def load_le32_def
      upt_rec nth_append)

lemma sample_validate_superblock: "validate_superblock sample_source = Inr sample_sb"
proof -
  have "reserved_block_zero sample_source 128"
    by (rule reserved_zero_memory) (auto simp: sample_volume_def sample_byte_def)
  moreover have "superblock_layout sample_sb = Some (1, 2, 2, 4, 24576)"
    by (simp add: superblock_layout_def sample_sb_def checked_add_u32_def checked_mul_u64_def checked_add_u64_def)
  moreover have "\<not> superblock_fields_bad sample_sb (sample_superblock @ replicate 64 0)"
    by (simp add: superblock_fields_bad_def sample_sb_def sample_superblock_def sub_buffer_def bytes_all_zero_def)
  moreover have "magic_valid (sb_magic sample_sb)"
    by (simp add: magic_valid_def bytes_equal_def sample_sb_def)
  moreover have "src_size sample_source = 24576"
    by (simp add: memory_source_def sample_volume_def)
  ultimately show ?thesis
    by (simp add: validate_superblock_def sample_superblock_read sample_decode)
       (simp add: sample_sb_def checked_mul_u64_def)
qed

lemma full_byte_bit: "n < 8 \<Longrightarrow> (0xff :: u8) AND push_bit n 1 \<noteq> 0"
proof -
  assume "n < 8"
  then have "bit ((0xff :: u8) AND push_bit n 1) n"
    by (simp add: low_byte_mask bit_simps del: mask_numeral)
  then show ?thesis by auto
qed

lemma sample_region:
  assumes "\<And>i. i < n \<Longrightarrow> sample_byte (k + i) = bs ! i" "length bs = n" "unat offset = k" "unat len = n"
    and "k + n \<le> 24576"
  shows "source_read_exact sample_source offset len = Some bs"
proof -
  have "map sample_byte [k ..< k + n] = bs"
    unfolding map_byte_shift using assms(1,2) by (intro nth_equalityI) simp_all
  then show ?thesis using sample_read [of offset len] assms(3-5) by simp
qed

lemma sample_bitmap:
  assumes "unat block < 32768"
  shows "bitmap_bit sample_source sample_sb block = Some True"
proof -
  have d: "unat (block div 8) < 4096" using assms by (simp add: unat_div)
  then have a: "unat (4096 + block div 8) = 4096 + unat (block div 8)"
    by (simp add: unat_add_exact)
  have "unat (block mod 8) < 8" by (simp add: unat_mod)
  moreover have "source_read_exact sample_source (4096 + block div 8) 1 = Some [0xff]"
    using d by (intro sample_region [OF _ _ a, of 1]) (simp_all add: sample_byte_def)
  moreover have "checked_add_u64 4096 (block div 8) = Some (4096 + block div 8)"
    using d by (simp add: checked_add_u64_eq)
  ultimately show ?thesis
    using full_byte_bit [of "unat (block mod 8)"]
    by (simp add: bitmap_bit_def sample_sb_def checked_mul_u64_def)
qed

lemma sample_record_reads:
  "read_object_record sample_source sample_sb 1 = Some sample_root"
  "read_object_record sample_source sample_sb 2 = Some sample_file"
proof -
  have "source_read_exact sample_source 8192 128 = Some sample_root"
    by (rule sample_region [where k = 8192 and n = 128]) (simp_all add: sample_byte_def length_sample)
  moreover have "source_read_exact sample_source 8320 128 = Some sample_file"
    by (rule sample_region [where k = 8320 and n = 128]) (simp_all add: sample_byte_def length_sample)
  ultimately show "read_object_record sample_source sample_sb 1 = Some sample_root"
    "read_object_record sample_source sample_sb 2 = Some sample_file"
    by (simp_all add: read_object_record_def sample_sb_def checked_mul_u64_def checked_add_u64_def)
qed

lemma sample_free_records:
  assumes "2 < unat i" "unat i \<le> 64"
  shows "read_object_record sample_source sample_sb i = Some (replicate 128 0)"
proof -
  have u: "unat (i - 1) = unat i - 1" using assms(1) by (simp add: unat_sub_exact word_le_nat_alt)
  have m: "unat ((ucast (i - 1) :: u64) * 128) = (unat i - 1) * 128"
    using assms u by (simp add: unat_mult_exact)
  then have a: "unat (8192 + (ucast (i - 1) :: u64) * 128) = 8192 + (unat i - 1) * 128"
    using assms by (simp add: unat_add_exact)
  have "source_read_exact sample_source (8192 + (ucast (i - 1) :: u64) * 128) 128 = Some (replicate 128 0)"
  proof (rule sample_region [OF _ _ a])
    fix j :: nat assume j: "j < 128"
    obtain m where "unat i = m + 3" "m \<le> 61"
      using assms by (intro that [of "unat i - 3"]) auto
    with j show "sample_byte (8192 + (unat i - 1) * 128 + j) = replicate 128 0 ! j"
      using assms by (simp add: sample_byte_def)
  qed (use assms in auto)
  moreover have "i \<noteq> 0" "\<not> i > 64" using assms by (auto simp: word_less_nat_alt)
  moreover have "checked_mul_u64 (ucast (i - 1)) 128 = Some (ucast (i - 1) * 128)"
    "checked_add_u64 8192 (ucast (i - 1) * 128) = Some (8192 + ucast (i - 1) * 128)"
    using assms u m by (simp_all add: checked_mul_u64_eq checked_add_u64_eq)
  ultimately show ?thesis
    by (simp add: read_object_record_def sample_sb_def checked_mul_u64_def [of 2])
qed

definition sample_extents :: "u32 \<Rightarrow> boringfs_extent list" where
  "sample_extents b = \<lparr>ext_start_block = b, ext_block_count = 1\<rparr> #
     replicate 7 \<lparr>ext_start_block = 0, ext_block_count = 0\<rparr>"

definition sample_root_object :: boringfs_object where
  "sample_root_object = \<lparr>obj_state = 1, obj_type = 2, obj_flags = 0, obj_object_id = 1,
     obj_parent_object_id = 1, obj_extent_count = 1, obj_size_bytes = 256,
     obj_extents = sample_extents 4\<rparr>"

definition sample_file_object :: boringfs_object where
  "sample_file_object = \<lparr>obj_state = 1, obj_type = 1, obj_flags = 0, obj_object_id = 2,
     obj_parent_object_id = 1, obj_extent_count = 1, obj_size_bytes = 5,
     obj_extents = sample_extents 5\<rparr>"

definition free_object :: boringfs_object where
  "free_object = \<lparr>obj_state = 0, obj_type = 0, obj_flags = 0, obj_object_id = 0,
     obj_parent_object_id = 0, obj_extent_count = 0, obj_size_bytes = 0,
     obj_extents = replicate 8 \<lparr>ext_start_block = 0, ext_block_count = 0\<rparr>\<rparr>"

lemma sample_objects:
  "boringfs_decode_object (Some sample_root) = Some sample_root_object"
  "boringfs_decode_object (Some sample_file) = Some sample_file_object"
  "boringfs_decode_object (Some (replicate 128 0)) = Some free_object"
  by code_simp+

lemma sample_decode_ids:
  "decode_object_id sample_source sample_sb 1 = Some sample_root_object"
  "decode_object_id sample_source sample_sb 2 = Some sample_file_object"
  "2 < unat i \<Longrightarrow> unat i \<le> 64 \<Longrightarrow> decode_object_id sample_source sample_sb i = Some free_object"
  by (simp_all add: decode_object_id_def sample_record_reads sample_free_records sample_objects)

section \<open>The run of the checker\<close>

lemma sample_ids:
  "object_ids sample_sb 1 = 1 # 2 # word_range 3 65"
  "object_ids sample_sb 2 = 2 # word_range 3 65"
proof -
  have "word_range 1 65 = (1 :: u32) # word_range 2 65"
    using word_range_Cons [of 1 65, where 'a = 32] by (simp add: numeral_2_eq_2)
  moreover have "word_range 2 65 = (2 :: u32) # word_range 3 65"
    using word_range_Cons [of 2 65, where 'a = 32] by simp
  ultimately show "object_ids sample_sb 1 = 1 # 2 # word_range 3 65"
    "object_ids sample_sb 2 = 2 # word_range 3 65"
    by (simp_all add: object_ids_def sample_sb_def)
qed

text \<open>The owner array in the course of the run.\<close>

definition sample_owner :: "u32 \<Rightarrow> u32 \<Rightarrow> u32 list" where
  "sample_owner root file = [UINT32_MAX, UINT32_MAX, UINT32_MAX, UINT32_MAX, root, file]"

lemma sample_owner_cells:
  "sample_owner a b ! 4 = a" "sample_owner a b ! 5 = b"
  "(sample_owner a b)[4 := c] = sample_owner c b" "(sample_owner a b)[5 := c] = sample_owner a c"
  by (simp_all add: sample_owner_def eval_nat_numeral)

lemma sample_fields [simp]:
  "sb_object_count sample_sb = 64" "sb_total_blocks sample_sb = 6" "sb_data_start sample_sb = 4"
  "sb_bitmap_blocks sample_sb = 1"
  "obj_state sample_root_object = 1" "obj_type sample_root_object = 2" "obj_parent_object_id sample_root_object = 1"
  "obj_extent_count sample_root_object = 1" "obj_size_bytes sample_root_object = 256"
  "obj_extents sample_root_object = sample_extents 4"
  "obj_state sample_file_object = 1" "obj_type sample_file_object = 1" "obj_parent_object_id sample_file_object = 1"
  "obj_extent_count sample_file_object = 1" "obj_size_bytes sample_file_object = 5"
  "obj_extents sample_file_object = sample_extents 5" "obj_state free_object = 0"
  by (simp_all add: sample_sb_def sample_root_object_def sample_file_object_def free_object_def)

lemma sample_free_id: "i \<in> set (word_range 3 65) \<Longrightarrow> 2 < unat (i :: u32) \<and> unat i \<le> 64"
  by (simp add: unat_in_word_range)

lemma sample_metadata:
  "validate_bitmap_metadata_and_tail sample_source sample_sb (replicate 6 0) = Inr (sample_owner 0 0)"
proof -
  have tail: "for_each (word_range 6 32768) (\<lambda>block owner. case bitmap_bit sample_source sample_sb block of
          Some True \<Rightarrow> Inr owner
        | _ \<Rightarrow> fail_result VALIDATE_BAD_BITMAP LOCATION_NONE_U32
            (if block \<le> ucast UINT32_MAX then ucast block else LOCATION_NONE_U32) LOCATION_NONE_U64) s = Inr s" for s :: "u32 list"
    by (rule for_each_skip) (simp add: unat_in_word_range sample_bitmap)
  have four: "word_range 0 4 = [0, 1, 2, 3 :: u64]"
    by (simp add: word_range_def upt_rec)
  have mul: "checked_mul_u64 1 32768 = Some 32768"
    by (simp add: checked_mul_u64_def)
  have marked: "(replicate 6 0)[0 := UINT32_MAX, 1 := UINT32_MAX, 2 := UINT32_MAX, 3 := UINT32_MAX] =
      sample_owner 0 0"
    by (simp add: sample_owner_def eval_nat_numeral)
  have head: "for_each [0, 1, 2, 3 :: u64] (\<lambda>block owner. case bitmap_bit sample_source sample_sb block of
          Some True \<Rightarrow> Inr (owner[unat block := UINT32_MAX])
        | _ \<Rightarrow> fail_result VALIDATE_BAD_BITMAP LOCATION_NONE_U32 (ucast block) LOCATION_NONE_U64) (replicate 6 0) =
      Inr ((replicate 6 0)[0 := UINT32_MAX, 1 := UINT32_MAX, 2 := UINT32_MAX, 3 := UINT32_MAX])"
    by (simp add: sample_bitmap)
  have n: "unat (4 :: u32) = 4" "unat (6 :: u32) = 6" "unat (32768 :: u64) = 32768" by simp_all
  show ?thesis
    unfolding validate_bitmap_metadata_and_tail_def sample_fields n four head marked sum.case
      ucast_1 mul option.case tail ..
qed

text \<open>An object of one block whose record keeps its other extent slots zero.\<close>

lemma sample_extents_run:
  assumes obj: "obj_extent_count object = 1" "obj_extents object = sample_extents b"
    and zero: "\<forall>k \<in> {1, 2, 3, 4, 5, 6, 7}. bytes_all_zero (sub_buffer raw (24 + k * 8) 8)"
    and bounds: "extent_bounds sample_sb \<lparr>ext_start_block = b, ext_block_count = 1\<rparr> 0 = Some (e, 4096)"
    and range: "word_range (unat b) (unat e) = [c :: u64]" "unat c < 32768" "owner ! unat c = 0"
  shows "for_each [0..<8] (validate_extent sample_source sample_sb i raw object) (owner, 0) =
    Inr (owner[unat c := i], 4096)"
proof -
  have "validate_extent sample_source sample_sb i raw object 0 (owner, 0) = Inr (owner[unat c := i], 4096)"
    using obj bounds range
    by (simp add: validate_extent_def sample_extents_def claim_block_def sample_bitmap)
  moreover have "for_each [1..<8] (validate_extent sample_source sample_sb i raw object) s = Inr s" for s
  proof (rule for_each_skip)
    fix k assume "k \<in> set [1..<8::nat]"
    then have "k \<in> {1, 2, 3, 4, 5, 6, 7}" by auto
    with zero obj show "validate_extent sample_source sample_sb i raw object k s = Inr s"
      by (auto simp: validate_extent_def split: prod.splits)
  qed
  moreover have "[0..<8] = 0 # [1..<8::nat]" by (simp add: upt_rec)
  ultimately show ?thesis by simp
qed

lemma sample_validate_root:
  "validate_object sample_source sample_sb 1 (sample_owner 0 0) = Inr (sample_owner 1 0)"
proof -
  have zero: "\<forall>k \<in> {1, 2, 3, 4, 5, 6, 7}. bytes_all_zero (sub_buffer sample_root (24 + k * 8) 8)"
    by code_simp
  have bounds: "extent_bounds sample_sb \<lparr>ext_start_block = 4, ext_block_count = 1\<rparr> 0 = Some (5, 4096)"
    by code_simp
  have "\<not> bytes_all_zero sample_root" "\<not> object_record_bad sample_sb 1 sample_root sample_root_object"
    by code_simp+
  moreover have "for_each [0..<8] (validate_extent sample_source sample_sb 1 sample_root sample_root_object)
      (sample_owner 0 0, 0) = Inr (sample_owner 1 0, 4096)"
    by (subst sample_extents_run [OF _ _ zero bounds, where c = 4])
      (simp_all add: word_range_def sample_owner_cells upt_rec [of 4 5])
  ultimately show ?thesis
    by (simp add: validate_object_def sample_record_reads sample_objects)
qed

lemma sample_validate_file:
  "validate_object sample_source sample_sb 2 (sample_owner 1 0) = Inr (sample_owner 1 2)"
proof -
  have zero: "\<forall>k \<in> {1, 2, 3, 4, 5, 6, 7}. bytes_all_zero (sub_buffer sample_file (24 + k * 8) 8)"
    by code_simp
  have bounds: "extent_bounds sample_sb \<lparr>ext_start_block = 5, ext_block_count = 1\<rparr> 0 = Some (6, 4096)"
    by code_simp
  have "\<not> bytes_all_zero sample_file" "\<not> object_record_bad sample_sb 2 sample_file sample_file_object"
    by code_simp+
  moreover have "for_each [0..<8] (validate_extent sample_source sample_sb 2 sample_file sample_file_object)
      (sample_owner 1 0, 0) = Inr (sample_owner 1 2, 4096)"
    by (subst sample_extents_run [OF _ _ zero bounds, where c = 5])
      (simp_all add: word_range_def sample_owner_cells upt_rec [of 5 6])
  ultimately show ?thesis
    by (simp add: validate_object_def sample_record_reads sample_objects)
qed

lemma sample_validate_objects:
  "validate_objects_and_extents sample_source sample_sb (sample_owner 0 0) = Inr (sample_owner 1 2)"
proof -
  have "for_each (word_range 3 65) (validate_object sample_source sample_sb) s = Inr s" for s
    by (rule for_each_skip)
      (auto simp: validate_object_def sample_free_records bytes_all_zero_def dest!: sample_free_id)
  then show ?thesis
    unfolding validate_objects_and_extents_def sample_ids
    by (simp add: sample_validate_root sample_validate_file)
qed

lemma sample_parents: "validate_parents_and_cycles sample_source sample_sb = Inr ()"
proof -
  have "validate_parent sample_source sample_sb i u = Inr u" if "i \<in> set (word_range 3 65)" for i u
    using sample_free_id [OF that] by (simp add: validate_parent_def sample_decode_ids)
  then have "for_each (word_range 3 65) (validate_parent sample_source sample_sb) () = Inr ()"
    by (rule for_each_skip)
  moreover have walk: "walk_to_root (Suc (Suc n)) sample_source sample_sb 2 2 = Inr True" for n
    by (simp add: sample_decode_ids)
  have fuel: "Suc (unat (sb_object_count sample_sb)) = Suc (Suc 63)" by simp
  have "walk_to_root (Suc (unat (sb_object_count sample_sb))) sample_source sample_sb 2 2 = Inr True"
    unfolding fuel by (rule walk)
  then have "validate_parent sample_source sample_sb 2 () = Inr ()"
    by (simp add: validate_parent_def sample_decode_ids del: walk_to_root.simps)
  ultimately show ?thesis
    unfolding validate_parents_and_cycles_def sample_ids by (simp add: sample_decode_ids)
qed

section \<open>Directories and the verdict\<close>

lemma sample_record_read:
  "read_directory_record sample_source sample_root_object 0 = Inr sample_record"
proof -
  have addr: "length (object_addresses sample_root_object) = 4096"
    by (simp add: object_addresses_def sample_extents_def)
  have "map ((!) sample_volume) (take 256 (object_addresses sample_root_object)) = sample_record"
  proof (rule nth_equalityI)
    fix i assume "i < length (map ((!) sample_volume) (take 256 (object_addresses sample_root_object)))"
    then have i: "i < 256" by simp
    then have "take 256 (object_addresses sample_root_object) ! i = 16384 + i"
      by (simp add: object_addresses_def sample_extents_def extent_addresses_def del: upt_rec_numeral)
    then show "map ((!) sample_volume) (take 256 (object_addresses sample_root_object)) ! i = sample_record ! i"
      using i addr by (simp add: sample_volume_def sample_byte_def)
  qed (simp add: addr length_sample)
  moreover have "logical_object_read sample_source sample_root_object 0 256 =
      Some (map ((!) sample_volume) (take 256 (object_addresses sample_root_object)))"
    using addr by (subst logical_read_memory) (simp_all add: sample_volume_def sample_extents_def)
  ultimately show ?thesis by (simp add: read_directory_record_def checked_mul_u64_def)
qed

definition sample_entry :: boringfs_directory_record where
  "sample_entry = \<lparr>dir_object_id = 2, dir_name_length = 1, dir_type_hint = 1, dir_flags = 0,
     dir_name = 0x61 # replicate 239 0\<rparr>"

lemma sample_entry_facts:
  "boringfs_decode_directory_record (Some sample_record) = Some sample_entry"
  "\<not> bytes_all_zero sample_record" "\<not> directory_record_bad sample_sb sample_record sample_entry"
  "name_padding_zero sample_entry" "boringfs_utf8_valid (Some (dir_name sample_entry)) 1"
  by code_simp+

lemma sample_references:
  "validate_directory sample_source sample_sb 1 (replicate 64 0) = Inr ((replicate 64 0)[1 := 1])"
proof -
  have one: "record_indices sample_root_object = [0]"
    by (simp add: record_indices_def word_range_def upt_rec)
  have fields: "dir_object_id sample_entry = 2" "dir_type_hint sample_entry = 1" "dir_name_length sample_entry = 1"
    by (simp_all add: sample_entry_def)
  have "(replicate 64 (0 :: u8)) ! 1 = 0" by (rule nth_replicate) simp
  then have "validate_directory_record sample_source sample_sb 1 sample_root_object 0 (replicate 64 0) =
      Inr ((replicate 64 0)[1 := 1])"
    using sample_entry_facts
    by (simp add: validate_directory_record_def sample_record_read sample_decode_ids fields del: replicate.simps)
  then show ?thesis by (simp add: validate_directory_def sample_decode_ids one)
qed

text \<open>The workspace the run leaves: one reference to the file, every block owned.\<close>

definition sample_result :: boringfs_validation_workspace where
  "sample_result = \<lparr>ws_block_owner = Some [UINT32_MAX, UINT32_MAX, UINT32_MAX, UINT32_MAX, 1, 2],
     ws_object_reference_count = Some ((replicate 64 0)[1 := 1])\<rparr>"

lemma zero_prefix: "length bs = n \<Longrightarrow> write_cells 0 (\<lambda>_. c) n bs = replicate n c"
  by (rule nth_equalityI) (simp_all add: nth_write_cells)

lemma sample_directories:
  "validate_directories sample_source sample_sb (replicate 64 0) = Inr ((replicate 64 0)[1 := 1])"
proof -
  have "for_each (word_range 3 65) (validate_directory sample_source sample_sb) s = Inr s" for s
    by (rule for_each_skip) (auto simp: validate_directory_def sample_decode_ids dest!: sample_free_id)
  then show ?thesis
    unfolding validate_directories_def sample_ids
    by (simp add: sample_references validate_directory_def [of _ _ 2] sample_decode_ids)
qed

lemma sample_no_orphans: "validate_references sample_source sample_sb ((replicate 64 0)[1 := 1]) = Inr ()"
proof -
  have "validate_reference sample_source sample_sb ((replicate 64 0)[1 := 1]) i () = Inr ()"
    if "i \<in> set (word_range 3 65)" for i
  proof -
    have "unat (i - 1) = unat i - 1" using sample_free_id [OF that]
      by (simp add: unat_sub_exact word_le_nat_alt)
    then have "(replicate 64 (0 :: u8))[1 := 1] ! unat (i - 1) = 0"
      using sample_free_id [OF that] nth_replicate [of "unat i - 1" 64 "0 :: u8"]
      by (auto simp: nth_list_update)
    then show ?thesis
      using sample_free_id [OF that] by (simp add: validate_reference_def sample_decode_ids)
  qed
  then have "for_each (word_range 3 65) (validate_reference sample_source sample_sb ((replicate 64 0)[1 := 1])) () = Inr ()"
    by (intro for_each_skip) simp
  moreover have "(replicate 64 (0 :: u8))[1 := 1] ! 1 = 1" "(replicate 64 (0 :: u8))[1 := 1] ! 0 = 0"
    by simp_all
  ultimately show ?thesis
    unfolding validate_references_def sample_ids
    by (simp add: validate_reference_def [of _ _ _ 2] sample_decode_ids)
qed

lemma sample_allocation:
  "validate_allocation_ownership sample_source sample_sb (sample_owner 1 2) = Inr ()"
proof -
  have "word_range 4 6 = [4, 5 :: u32]" by (simp add: word_range_def upt_rec)
  then show ?thesis
    by (simp add: validate_allocation_ownership_def sample_bitmap sample_owner_cells)
qed

lemma sample_accepted:
  "boringfs_validate_volume (Some sample_volume) (Some sample_workspace) = Inr sample_result"
proof -
  have cleared: "write_cells 0 (\<lambda>_. 0) 6 (replicate 6 0) = (replicate 6 0 :: u32 list)"
    "write_cells 0 (\<lambda>_. 0) 64 (replicate 64 0) = (replicate 64 0 :: u8 list)"
    by (simp_all only: zero_prefix length_replicate)
  have n: "unat (6 :: u32) = 6" "unat (64 :: u32) = 64" by simp_all
  have "boringfs_validate_source (Some sample_source) (Some sample_workspace) = Inr sample_result"
    unfolding boringfs_validate_source_def Let_def prod.case option.case sample_workspace_def
      boringfs_validation_workspace.simps sample_validate_superblock sum.case sample_fields n cleared
      sample_metadata sample_validate_objects sample_parents sample_directories sample_no_orphans
      sample_allocation
    by (simp add: memory_source_def sample_result_def sample_owner_def)
  then show ?thesis by (simp add: boringfs_validate_volume_def memory_source_def)
qed

end
