(* ===== verification/Volume.thy ===== *)
theory Volume
  imports SampleVolume
begin

text \<open>
  The properties of libs/boringfs: what \<open>boringfs_validate_volume\<close> establishes of a
  volume it accepts (allocation, tree, references, names, readability), the
  name check, and the round trips of the record formats. Each property with a
  hypothesis is instantiated at the volume of \<open>SampleVolume\<close>.
\<close>

text \<open>
  C1: In a volume that the checker accepts, no data block belongs to two
  extents (of the same or of different objects), and the allocation bitmap is
  exactly right: the bit of a block below \<open>total_blocks\<close> is readable, and set if
  and only if the block is metadata or lies in an extent of an allocated object.
\<close>

theorem volume_blocks_owned_once:
  assumes "boringfs_validate_volume (Some bytes) (Some ws) = Inr ws'"
  shows "\<exists>sb. validate_superblock (memory_source bytes) = Inr sb \<and>
    distinct (concat (map (object_blocks (memory_source bytes) sb) (object_ids sb 1))) \<and>
    (\<forall>b < unat (sb_total_blocks sb). bitmap_bit (memory_source bytes) sb (word_of_nat b) =
       Some (b < unat (sb_data_start sb) \<or>
             (\<exists>i \<in> set (object_ids sb 1). b \<in> set (object_blocks (memory_source bytes) sb i))))"
proof -
  obtain sb where sb: "validate_superblock (memory_source bytes) = Inr sb"
    using accepted_superblock [OF assms] .
  note acc = memory.accepted_blocks [OF assms [unfolded validate_volume_memory] sb]
  have "set (concat (map (object_blocks (memory_source bytes) sb) (object_ids sb 1))) =
      {b. \<exists>i \<in> set (object_ids sb 1). b \<in> set (object_blocks (memory_source bytes) sb i)}"
    by auto
  with acc(1,3) sb show ?thesis by auto
qed

lemma volume_blocks_owned_once_witness:
  "\<exists>sb. validate_superblock (memory_source sample_volume) = Inr sb \<and>
    distinct (concat (map (object_blocks (memory_source sample_volume) sb) (object_ids sb 1)))"
  using volume_blocks_owned_once [OF sample_accepted] by blast

text \<open>
  C2: In an accepted volume every allocated object hangs below the root
  directory: following parents from it goes through allocated directories
  only and ends at object 1, so the tree has no cycle and no detached part.
\<close>

theorem volume_is_a_tree:
  assumes "boringfs_validate_volume (Some bytes) (Some ws) = Inr ws'"
  shows "\<exists>sb. validate_superblock (memory_source bytes) = Inr sb \<and>
    (\<forall>i object. decode_object_id (memory_source bytes) sb i = Some object \<longrightarrow> obj_state object = 1 \<longrightarrow>
       below_root (memory_source bytes) sb i)"
proof -
  obtain sb where sb: "validate_superblock (memory_source bytes) = Inr sb"
    using accepted_superblock [OF assms] .
  then have "validate_parents_and_cycles (memory_source bytes) sb = Inr ()"
    using assms unfolding validate_volume_memory by (elim validate_source_phases) auto
  with sb validate_parents_below_root validate_superblock_ok(1) show ?thesis by blast
qed

lemma volume_is_a_tree_witness: "below_root (memory_source sample_volume) sample_sb 2"
  using volume_is_a_tree [OF sample_accepted] sample_validate_superblock sample_decode_ids(2) by force

text \<open>
  C3: In an accepted volume the directory records in use refer to the allocated
  objects other than the root one to one: the list of all their targets has no
  repetition, and holds an identifier if and only if it is that of an allocated
  object that is not the root. So there are no dangling records, no orphans and no hard links.
\<close>

theorem volume_references_exact:
  assumes "boringfs_validate_volume (Some bytes) (Some ws) = Inr ws'"
  shows "\<exists>sb. validate_superblock (memory_source bytes) = Inr sb \<and>
    distinct (concat (map (directory_targets (memory_source bytes) sb) (object_ids sb 1))) \<and>
    set (concat (map (directory_targets (memory_source bytes) sb) (object_ids sb 1))) =
      {i. i \<noteq> 1 \<and> (\<exists>object. decode_object_id (memory_source bytes) sb i = Some object \<and> obj_state object = 1)}"
proof -
  obtain sb where sb: "validate_superblock (memory_source bytes) = Inr sb"
    using accepted_superblock [OF assms] .
  with accepted_references [OF assms [unfolded validate_volume_memory] sb] show ?thesis by blast
qed

lemma volume_references_exact_witness:
  "2 \<in> set (concat (map (directory_targets (memory_source sample_volume) sample_sb) (object_ids sample_sb 1)))"
proof -
  obtain sb where "validate_superblock (memory_source sample_volume) = Inr sb"
    and targets: "set (concat (map (directory_targets (memory_source sample_volume) sb) (object_ids sb 1))) =
      {i. i \<noteq> 1 \<and> (\<exists>object. decode_object_id (memory_source sample_volume) sb i = Some object \<and>
        obj_state object = 1)}"
    using volume_references_exact [OF sample_accepted] by blast
  then have "sb = sample_sb" using sample_validate_superblock by simp
  then show ?thesis
    unfolding targets [unfolded \<open>sb = sample_sb\<close>] using sample_decode_ids(2) by simp
qed

text \<open>
  C4: In an accepted volume every record in use of a live directory carries a
  valid name (not empty, at most 240 bytes of UTF-8, no NUL, no slash, not
  \<open>.\<close> or \<open>..\<close>) and points to an allocated object of the type it states whose
  parent is that directory; two records of one directory with the same name are the same record.
\<close>

theorem volume_directory_names:
  assumes "boringfs_validate_volume (Some bytes) (Some ws) = Inr ws'"
    and "validate_superblock (memory_source bytes) = Inr sb"
    and "live_directory (memory_source bytes) sb d = Some directory"
    and "k \<in> set (record_indices directory)" "record_at (memory_source bytes) directory k = Some r"
  shows "entry_ok (memory_source bytes) sb d r \<and>
    (\<forall>j \<in> set (record_indices directory). \<forall>q. record_at (memory_source bytes) directory j = Some q \<longrightarrow>
       entry_name q = entry_name r \<longrightarrow> j = k)"
proof -
  obtain rc rc' where run: "validate_directories (memory_source bytes) sb rc = Inr rc'"
    using assms(1,2) unfolding validate_volume_memory by (elim validate_source_phases) auto
  obtain object where "decode_object_id (memory_source bytes) sb d = Some object"
    using assms(3) by (auto simp: live_directory_def split: option.splits)
  from decode_object_id_range [OF this] validate_superblock_ok(1) [OF assms(2)]
  have d: "d \<in> set (object_ids sb 1)"
    by (simp add: object_ids_def unat_in_word_range word_le_nat_alt layout_ok_def Suc_le_eq unat_gt_0)
  show ?thesis
    using accepted_entry [OF run assms(3) d assms(4,5)] accepted_names [OF run assms(3) d assms(4,5)] by blast
qed

lemma volume_directory_names_witness: "entry_ok (memory_source sample_volume) sample_sb 1 sample_entry"
proof (rule conjunct1 [OF volume_directory_names [OF sample_accepted sample_validate_superblock]])
  show "live_directory (memory_source sample_volume) sample_sb 1 = Some sample_root_object"
    by (simp add: live_directory_def sample_decode_ids)
  show "0 \<in> set (record_indices sample_root_object)"
    by (simp add: record_indices_def word_range_def upt_rec)
  show "record_at (memory_source sample_volume) sample_root_object 0 = Some sample_entry"
    by (simp add: record_at_def sample_record_read sample_entry_facts)
qed

text \<open>
  C5: In an accepted volume the declared bytes of an allocated object can all be
  read: a window inside \<open>size_bytes\<close> is read successfully, gives the bytes at
  the object's addresses, and those addresses lie in the data area of the volume.
\<close>

theorem volume_objects_readable:
  assumes "length bytes < 18446744073709551616"
    and "boringfs_validate_volume (Some bytes) (Some ws) = Inr ws'"
    and "validate_superblock (memory_source bytes) = Inr sb"
    and "decode_object_id (memory_source bytes) sb i = Some object" "obj_state object = 1"
    and "unat offset + unat len \<le> unat (obj_size_bytes object)"
  shows "logical_object_read (memory_source bytes) object offset len =
      Some (map ((!) bytes) (take (unat len) (drop (unat offset) (object_addresses object)))) \<and>
    (\<forall>a \<in> set (object_addresses object).
       4096 * unat (sb_data_start sb) \<le> a \<and> a < 4096 * unat (sb_total_blocks sb))"
  using logical_read_memory [OF assms(1) accepted_extents_in_volume [OF assms(1-5)]]
    accepted_object(3,4) [OF assms(2-5)] assms(6) by simp

lemma volume_objects_readable_witness:
  "logical_object_read (memory_source sample_volume) sample_file_object 0 5 =
    Some (map ((!) sample_volume) (take 5 (object_addresses sample_file_object)))"
  using volume_objects_readable [OF _ sample_accepted sample_validate_superblock sample_decode_ids(2), of 0 5]
  by (simp add: sample_volume_def)

text \<open>
  C6: The name check accepts a byte string if and only if it is the
  concatenation of the UTF-8 encodings of a sequence of Unicode scalar values
  (so overlong forms, surrogates and values above U+10FFFF are all rejected).
\<close>

theorem utf8_valid_iff_encoded:
  "boringfs_utf8_valid (Some bs) (length bs) \<longleftrightarrow>
    (\<exists>cs. list_all unicode_scalar cs \<and> bs = concat (map utf8_encode cs))"
  using utf8_from_concat utf8_from_decodes [of bs]
  by (auto simp: boringfs_utf8_valid_def list_all_iff)

text \<open>
  C7: The records of the volume survive writing and reading. Encoding a superblock, an
  allocated object record or a directory record in use into a buffer that is large enough
  succeeds, keeps the buffer's length, and decoding gives the record back: an object with
  the extent slots past its extent count cleared, a directory record with its name padded
  by zeros.
\<close>

theorem records_round_trip:
  assumes "superblock_wf sb" "4096 \<le> length bs" and "object_wf v" "128 \<le> length cs"
    and "directory_record_wf d" "256 \<le> length ds"
  shows "\<exists>bs' cs' ds'. boringfs_encode_superblock (Some bs) (Some sb) = (True, Some bs') \<and>
    boringfs_encode_object (Some cs) (Some v) = (True, Some cs') \<and>
    boringfs_encode_directory_record (Some ds) (Some d) = (True, Some ds') \<and>
    length bs' = length bs \<and> length cs' = length cs \<and> length ds' = length ds \<and>
    boringfs_decode_superblock (Some bs') = Some sb \<and>
    boringfs_decode_object (Some cs') = Some (object_trim v) \<and>
    boringfs_decode_directory_record (Some ds') = Some (directory_record_trim d)"
proof -
  have "superblock_wf sb \<Longrightarrow> length (sb_magic sb) = 8" by (simp add: superblock_wf_def)
  then show ?thesis
    using superblock_decode_encode [of sb bs] object_decode_encode [of v cs] directory_record_decode_encode [of d ds] assms
    by (auto simp: object_wf_def object_trim_def directory_record_wf_def directory_record_trim_def)
qed

lemma records_round_trip_witness:
  "\<exists>cs. boringfs_encode_object (Some (replicate 128 7)) (Some sample_file_object) = (True, Some cs) \<and>
    boringfs_decode_object (Some cs) = Some sample_file_object"
proof -
  have sb: "superblock_wf sample_sb" by (simp add: superblock_wf_def sample_sb_def)
  have d: "directory_record_wf sample_entry" by code_simp
  have v: "object_wf sample_file_object" by (simp add: object_wf_def sample_extents_def)
  have "object_trim sample_file_object = sample_file_object" by code_simp
  then show ?thesis
    using records_round_trip [OF sb _ v _ d, of "replicate 4096 7" "replicate 128 7" "replicate 256 7"]
    by (auto simp del: replicate.simps)
qed

end
