(* ===== verification/Pmm.thy ===== *)
theory Pmm
  imports Prelude
begin

text \<open>
  kernel/core/pmm.c, the physical frame allocator: the regions of usable memory
  taken from the boot memory map, the bitmap with one bit per frame (set when
  the frame is handed out), and allocation in an address range, release and
  statistics. \<open>pmm_regions\<close> holds the first \<open>pmm_region_count\<close> entries of the C
  array; the bitmap is a function of the word index. The diagnostic port writes
  of the failure paths (\<open>PMM_M61_FAILURE_POST\<close>, empty in the normal build) are not modelled.
  The contract of the allocator is the locale \<open>frame_allocator\<close>.
\<close>

section \<open>State\<close>

abbreviation (input) PMM_MAX_FRAMES :: u64 where "PMM_MAX_FRAMES \<equiv> 8388608"
abbreviation (input) PMM_BITMAP_WORDS :: u64 where "PMM_BITMAP_WORDS \<equiv> 131072"

record pmm_region =
  reg_base :: u64
  reg_frame_count :: u64
  reg_bitmap_base :: u64

record pmm_state =
  pmm_regions :: "pmm_region list"
  pmm_bitmap :: "nat \<Rightarrow> u64"
  pmm_total_frames :: u64
  pmm_free_frames :: u64
  pmm_initialized :: bool
  pmm_memory_map_capped :: bool

record memmap_entry =
  me_base :: u64
  me_length :: u64
  me_type :: u64

record pmm_stats =
  stat_usable_bytes :: u64
  stat_usable_frames :: u64
  stat_free_frames :: u64
  stat_region_count :: u64
  stat_memory_map_capped :: bool

definition pmm_region_count :: "pmm_state \<Rightarrow> nat" where
  "pmm_region_count s = length (pmm_regions s)"

definition pmm_reset_state :: pmm_state where
  "pmm_reset_state = \<lparr>pmm_regions = [], pmm_bitmap = (\<lambda>_. 0), pmm_total_frames = 0,
     pmm_free_frames = 0, pmm_initialized = False, pmm_memory_map_capped = False\<rparr>"

section \<open>Helpers\<close>

definition pmm_entry_end :: "memmap_entry option \<Rightarrow> u64 option" where
  "pmm_entry_end entry = (case entry of
     None \<Rightarrow> None
   | Some e \<Rightarrow>
       if me_length e = 0 then None
       else if me_base e > UINT64_MAX - me_length e then None
       else Some (me_base e + me_length e))"

definition pmm_ranges_overlap :: "u64 \<Rightarrow> u64 \<Rightarrow> u64 \<Rightarrow> u64 \<Rightarrow> bool" where
  "pmm_ranges_overlap first_base first_end second_base second_end \<longleftrightarrow>
     first_base < second_end \<and> second_base < first_end"

text \<open>Entry types: 0 is usable, 5 is bootloader reclaimable.\<close>

definition pmm_overlap_requires_rejection :: "u64 \<Rightarrow> u64 \<Rightarrow> bool" where
  "pmm_overlap_requires_rejection first_type second_type \<longleftrightarrow>
     first_type = 0 \<or> second_type = 0 \<or> first_type = 5 \<or> second_type = 5"

definition pmm_align_up :: "u64 \<Rightarrow> u64 option" where
  "pmm_align_up value = (let mask = 4096 - 1 in
     if value > UINT64_MAX - mask then None else Some ((value + mask) AND NOT mask))"

definition pmm_align_down :: "u64 \<Rightarrow> u64" where
  "pmm_align_down value = value AND NOT (4096 - 1)"

definition pmm_bitmap_index_valid :: "u64 \<Rightarrow> pmm_state \<Rightarrow> bool" where
  "pmm_bitmap_index_valid frame_index s \<longleftrightarrow>
     frame_index < pmm_total_frames s \<and> frame_index < PMM_MAX_FRAMES \<and>
     frame_index div 64 < PMM_BITMAP_WORDS"

definition pmm_bit_is_set :: "u64 \<Rightarrow> pmm_state \<Rightarrow> bool" where
  "pmm_bit_is_set frame_index s =
     (if \<not> pmm_bitmap_index_valid frame_index s then False
      else pmm_bitmap s (unat (frame_index div 64)) AND push_bit (unat (frame_index mod 64)) 1 \<noteq> 0)"

definition pmm_set_bit :: "u64 \<Rightarrow> pmm_state \<Rightarrow> bool \<times> pmm_state" where
  "pmm_set_bit frame_index s =
     (if \<not> pmm_bitmap_index_valid frame_index s then (False, s)
      else let word_index = unat (frame_index div 64);
               mask = push_bit (unat (frame_index mod 64)) 1
           in (True, s\<lparr>pmm_bitmap := (pmm_bitmap s)(word_index := pmm_bitmap s word_index OR mask)\<rparr>))"

definition pmm_clear_bit :: "u64 \<Rightarrow> pmm_state \<Rightarrow> bool \<times> pmm_state" where
  "pmm_clear_bit frame_index s =
     (if \<not> pmm_bitmap_index_valid frame_index s then (False, s)
      else let word_index = unat (frame_index div 64);
               mask = push_bit (unat (frame_index mod 64)) 1
           in (True, s\<lparr>pmm_bitmap := (pmm_bitmap s)(word_index := pmm_bitmap s word_index AND NOT mask)\<rparr>))"

definition pmm_region_end :: "pmm_region \<Rightarrow> u64 option" where
  "pmm_region_end region =
     (if reg_frame_count region > UINT64_MAX div 4096 then None
      else let region_bytes = reg_frame_count region * 4096 in
        if reg_base region > UINT64_MAX - region_bytes then None
        else Some (reg_base region + region_bytes))"

text \<open>The region loop of \<open>pmm_find_frame\<close> and of the allocation, over the regions left to visit.\<close>

fun find_in_regions :: "pmm_region list \<Rightarrow> u64 \<Rightarrow> pmm_state \<Rightarrow> u64 option" where
  "find_in_regions [] physical_address s = None"
| "find_in_regions (region # rest) physical_address s = (case pmm_region_end region of
     None \<Rightarrow> None
   | Some region_end \<Rightarrow>
       if physical_address \<ge> reg_base region \<and> physical_address < region_end then
         let offset = physical_address - reg_base region; local_frame = offset div 4096 in
         if reg_bitmap_base region > UINT64_MAX - local_frame then None
         else let candidate = reg_bitmap_base region + local_frame in
           if \<not> pmm_bitmap_index_valid candidate s then None else Some candidate
       else find_in_regions rest physical_address s)"

definition pmm_find_frame :: "u64 \<Rightarrow> pmm_state \<Rightarrow> u64 option" where
  "pmm_find_frame physical_address s =
     (if physical_address mod 4096 \<noteq> 0 then None
      else find_in_regions (pmm_regions s) physical_address s)"

section \<open>Initialisation from the memory map\<close>

fun check_others :: "memmap_entry \<Rightarrow> u64 \<Rightarrow> memmap_entry option list \<Rightarrow> bool" where
  "check_others entry first_end [] = True"
| "check_others entry first_end (other # rest) = (case (pmm_entry_end other, other) of
     (Some second_end, Some o') \<Rightarrow>
       if pmm_ranges_overlap (me_base entry) first_end (me_base o') second_end \<and>
          pmm_overlap_requires_rejection (me_type entry) (me_type o')
       then False
       else check_others entry first_end rest
   | _ \<Rightarrow> False)"

fun check_entries :: "memmap_entry option list \<Rightarrow> bool" where
  "check_entries [] = True"
| "check_entries (entry # rest) = (case (pmm_entry_end entry, entry) of
     (Some first_end, Some e) \<Rightarrow> check_others e first_end rest \<and> check_entries rest
   | _ \<Rightarrow> False)"

text \<open>The body of the second loop; \<open>Inl ()\<close> is the return after a reset.\<close>

definition add_entry :: "memmap_entry option \<Rightarrow> pmm_state \<Rightarrow> unit + pmm_state" where
  "add_entry entry s = (case entry of None \<Rightarrow> Inl () | Some e \<Rightarrow>
     if me_type e \<noteq> 0 then Inr s
     else case pmm_entry_end entry of
       None \<Rightarrow> Inl ()
     | Some raw_end \<Rightarrow> (case pmm_align_up (me_base e) of
         None \<Rightarrow> Inl ()
       | Some aligned_base \<Rightarrow>
           let aligned_end = pmm_align_down raw_end in
           if aligned_end \<le> aligned_base then Inr s
           else
             let frame_count = (aligned_end - aligned_base) div 4096 in
             if frame_count = 0 then Inr s
             else if pmm_total_frames s > PMM_MAX_FRAMES then Inl ()
             else
               let remaining_frames = PMM_MAX_FRAMES - pmm_total_frames s in
               if remaining_frames = 0 \<or> pmm_region_count s \<ge> 64
               then Inr (s\<lparr>pmm_memory_map_capped := True\<rparr>)
               else
                 let (frame_count, s) =
                   (if frame_count > remaining_frames
                    then (remaining_frames, s\<lparr>pmm_memory_map_capped := True\<rparr>)
                    else (frame_count, s)) in
                 if pmm_total_frames s > UINT64_MAX - frame_count \<or>
                    pmm_total_frames s + frame_count > PMM_MAX_FRAMES then Inl ()
                 else Inr (s\<lparr>
                   pmm_regions := pmm_regions s @
                     [\<lparr>reg_base = aligned_base, reg_frame_count = frame_count,
                       reg_bitmap_base = pmm_total_frames s\<rparr>],
                   pmm_total_frames := pmm_total_frames s + frame_count\<rparr>)))"

definition pmm_init :: "memmap_entry option list option option \<Rightarrow> bool \<times> pmm_state" where
  "pmm_init memory_map = (case memory_map of
     None \<Rightarrow> (False, pmm_reset_state)
   | Some None \<Rightarrow> (False, pmm_reset_state)
   | Some (Some entries) \<Rightarrow>
       if length entries = 0 then (False, pmm_reset_state)
       else if length entries > 4096 then (False, pmm_reset_state)
       else if \<not> check_entries entries then (False, pmm_reset_state)
       else case for_each entries add_entry pmm_reset_state of
         Inl _ \<Rightarrow> (False, pmm_reset_state)
       | Inr s \<Rightarrow>
           if pmm_total_frames s = 0 then (False, pmm_reset_state)
           else (True, s\<lparr>pmm_free_frames := pmm_total_frames s, pmm_initialized := True\<rparr>))"

section \<open>Allocation and release\<close>

text \<open>Where the loop over the frames of one region ends: a frame, the region's end, or a return of false.\<close>

datatype scan_result = Frame_found u64 pmm_state | Region_done | Scan_failed

fun scan_frames :: "u64 list \<Rightarrow> pmm_region \<Rightarrow> u64 \<Rightarrow> pmm_state \<Rightarrow> scan_result" where
  "scan_frames [] region maximum s = Region_done"
| "scan_frames (local_frame # rest) region maximum s =
     (let frame_index = reg_bitmap_base region + local_frame;
          frame_address = reg_base region + local_frame * 4096
      in if frame_address \<ge> maximum then Region_done
         else if \<not> pmm_bitmap_index_valid frame_index s then Scan_failed
         else if \<not> pmm_bit_is_set frame_index s then
           (case pmm_set_bit frame_index s of
              (False, s) \<Rightarrow> Scan_failed
            | (True, s) \<Rightarrow> Frame_found frame_address (s\<lparr>pmm_free_frames := pmm_free_frames s - 1\<rparr>))
         else scan_frames rest region maximum s)"

fun alloc_in_regions :: "pmm_region list \<Rightarrow> u64 \<Rightarrow> u64 \<Rightarrow> pmm_state \<Rightarrow> u64 option \<times> pmm_state" where
  "alloc_in_regions [] aligned_minimum maximum s = (None, s)"
| "alloc_in_regions (region # rest) aligned_minimum maximum s = (case pmm_region_end region of
     None \<Rightarrow> (None, s)
   | Some region_end \<Rightarrow>
       let search_base = (if reg_base region < aligned_minimum then aligned_minimum else reg_base region) in
       if search_base \<ge> region_end \<or> search_base \<ge> maximum
       then alloc_in_regions rest aligned_minimum maximum s
       else
         let local_frame = (search_base - reg_base region) div 4096 in
         case scan_frames (word_range (unat local_frame) (unat (reg_frame_count region))) region maximum s of
           Frame_found address s' \<Rightarrow> (Some address, s')
         | Scan_failed \<Rightarrow> (None, s)
         | Region_done \<Rightarrow> alloc_in_regions rest aligned_minimum maximum s)"

definition pmm_alloc_frame_in_range :: "u64 \<Rightarrow> u64 \<Rightarrow> pmm_state \<Rightarrow> u64 option \<times> pmm_state" where
  "pmm_alloc_frame_in_range minimum maximum s =
     (if \<not> pmm_initialized s \<or> pmm_free_frames s = 0 \<or> minimum \<ge> maximum then (None, s)
      else case pmm_align_up minimum of
        None \<Rightarrow> (None, s)
      | Some aligned_minimum \<Rightarrow>
          if aligned_minimum \<ge> maximum then (None, s)
          else alloc_in_regions (pmm_regions s) aligned_minimum maximum s)"

definition pmm_alloc_frame :: "pmm_state \<Rightarrow> u64 option \<times> pmm_state" where
  "pmm_alloc_frame s = pmm_alloc_frame_in_range 0 UINT64_MAX s"

definition pmm_free_frame :: "u64 \<Rightarrow> pmm_state \<Rightarrow> bool \<times> pmm_state" where
  "pmm_free_frame physical_address s =
     (if \<not> pmm_initialized s then (False, s)
      else case pmm_find_frame physical_address s of
        None \<Rightarrow> (False, s)
      | Some frame_index \<Rightarrow>
          if \<not> pmm_bit_is_set frame_index s then (False, s)
          else case pmm_clear_bit frame_index s of
            (False, s) \<Rightarrow> (False, s)
          | (True, s) \<Rightarrow> (True, s\<lparr>pmm_free_frames := pmm_free_frames s + 1\<rparr>))"

definition pmm_frame_is_usable :: "u64 \<Rightarrow> pmm_state \<Rightarrow> bool" where
  "pmm_frame_is_usable physical_address s =
     (if \<not> pmm_initialized s then False else pmm_find_frame physical_address s \<noteq> None)"

definition pmm_get_stats :: "pmm_state \<Rightarrow> pmm_stats option" where
  "pmm_get_stats s =
     (if \<not> pmm_initialized s \<or> pmm_total_frames s > UINT64_MAX div 4096 then None
      else Some \<lparr>stat_usable_bytes = pmm_total_frames s * 4096, stat_usable_frames = pmm_total_frames s,
        stat_free_frames = pmm_free_frames s, stat_region_count = word_of_nat (pmm_region_count s),
        stat_memory_map_capped = pmm_memory_map_capped s\<rparr>)"

section \<open>Alignment\<close>

lemma and_not_page_mask: "unat ((x :: u64) AND NOT 4095) = unat x div 4096 * 4096"
proof -
  have "x AND NOT (mask 12) = push_bit 12 (drop_bit 12 x)"
    by (rule bit_word_eqI) (auto simp: bit_simps simp del: mask_numeral)
  then have "x AND NOT 4095 = push_bit 12 (drop_bit 12 x)" by (simp add: mask_eq_exp_minus_1)
  also have "unat \<dots> = unat x div 4096 * 4096"
  proof -
    have "unat (drop_bit 12 x) = unat x div 4096"
      by (simp add: unat_drop_bit_eq drop_bit_eq_div unat_div)
    moreover have "unat x div 4096 * 4096 < 18446744073709551616"
      using unat_u64_less [of x] by (meson div_times_less_eq_dividend le_less_trans)
    ultimately show ?thesis by (simp add: push_bit_eq_mult unat_mult_exact)
  qed
  finally show ?thesis .
qed

lemma pmm_align_down_unat: "unat (pmm_align_down v) = unat v div 4096 * 4096"
  using and_not_page_mask [of v] by (simp add: pmm_align_down_def)

lemma pmm_align_up_unat:
  "pmm_align_up v = Some a \<Longrightarrow> unat a = (unat v + 4095) div 4096 * 4096"
  "pmm_align_up v = None \<longleftrightarrow> 18446744073709551615 < unat v + 4095"
  using and_not_page_mask [of "v + 4095"] unat_u64_less [of v]
  by (auto simp: pmm_align_up_def word_less_nat_alt unat_add_exact not_less split: if_splits)

lemma align_up_le_iff: "(v + 4095) div 4096 * 4096 \<le> 4096 * q \<longleftrightarrow> v \<le> 4096 * (q :: nat)"
proof -
  have "(v + 4095) div 4096 \<le> q \<longleftrightarrow> (v + 4095) div 4096 < Suc q" by linarith
  also have "\<dots> \<longleftrightarrow> v + 4095 < Suc q * 4096" by (rule div_less_iff_less_mult) simp
  finally show ?thesis by auto
qed

lemma align_down_ge_iff: "4096 * q + 4096 \<le> v div 4096 * 4096 \<longleftrightarrow> 4096 * q + 4096 \<le> (v :: nat)"
  using less_eq_div_iff_mult_less_eq [of 4096 "Suc q" v] by auto

section \<open>The frames a state manages\<close>

definition region_addresses :: "pmm_region \<Rightarrow> nat list" where
  "region_addresses r = map (\<lambda>j. unat (reg_base r) + 4096 * j) [0..<unat (reg_frame_count r)]"

text \<open>Bit \<open>i\<close> of the bitmap stands for the frame at \<open>frame_addresses s ! i\<close>.\<close>

definition frame_addresses :: "pmm_state \<Rightarrow> nat list" where
  "frame_addresses s = concat (map region_addresses (pmm_regions s))"

definition frame_used :: "pmm_state \<Rightarrow> nat \<Rightarrow> bool" where
  "frame_used s i = bit (pmm_bitmap s (i div 64)) (i mod 64)"

definition free_indices :: "pmm_state \<Rightarrow> nat set" where
  "free_indices s = {i. i < length (frame_addresses s) \<and> \<not> frame_used s i}"

definition free_addresses :: "pmm_state \<Rightarrow> nat set" where
  "free_addresses s = (!) (frame_addresses s) ` free_indices s"

definition region_ok :: "nat \<Rightarrow> pmm_region \<Rightarrow> bool" where
  "region_ok k r \<longleftrightarrow> unat (reg_bitmap_base r) = k \<and> 4096 dvd unat (reg_base r) \<and>
     unat (reg_base r) + 4096 * unat (reg_frame_count r) < 18446744073709551616"

fun regions_from :: "nat \<Rightarrow> pmm_region list \<Rightarrow> bool" where
  "regions_from k [] = True"
| "regions_from k (r # rs) = (region_ok k r \<and> regions_from (k + unat (reg_frame_count r)) rs)"

definition pmm_wf :: "pmm_state \<Rightarrow> bool" where
  "pmm_wf s \<longleftrightarrow> pmm_initialized s \<and> regions_from 0 (pmm_regions s) \<and>
     distinct (frame_addresses s) \<and>
     unat (pmm_total_frames s) = length (frame_addresses s) \<and> length (frame_addresses s) \<le> 8388608 \<and>
     unat (pmm_free_frames s) = card (free_indices s)"

lemma length_region_addresses [simp]: "length (region_addresses r) = unat (reg_frame_count r)"
  by (simp add: region_addresses_def)

lemma regions_from_append:
  "regions_from k (rs @ [r]) \<longleftrightarrow>
    regions_from k rs \<and> region_ok (k + length (concat (map region_addresses rs))) r"
  by (induction rs arbitrary: k) (auto simp: add.assoc)

lemma index_valid: "pmm_wf s \<Longrightarrow> pmm_bitmap_index_valid i s \<longleftrightarrow> unat i < length (frame_addresses s)"
  by (auto simp: pmm_wf_def pmm_bitmap_index_valid_def word_less_nat_alt unat_div)

lemma bit_is_set_used:
  "pmm_wf s \<Longrightarrow> unat i < length (frame_addresses s) \<Longrightarrow> pmm_bit_is_set i s = frame_used s (unat i)"
  by (simp add: pmm_bit_is_set_def index_valid frame_used_def unat_div unat_mod bit_iff_and_push_bit_not_eq_0)

lemma same_bit_position: "(j :: nat) div 64 = i div 64 \<and> j mod 64 = i mod 64 \<longleftrightarrow> j = i"
  by (metis div_mult_mod_eq)

lemma set_bit_used:
  assumes "pmm_wf s" "unat i < length (frame_addresses s)"
  shows "\<exists>s'. pmm_set_bit i s = (True, s') \<and> pmm_regions s' = pmm_regions s \<and>
    pmm_total_frames s' = pmm_total_frames s \<and> pmm_free_frames s' = pmm_free_frames s \<and>
    pmm_initialized s' = pmm_initialized s \<and> pmm_memory_map_capped s' = pmm_memory_map_capped s \<and>
    (\<forall>j. frame_used s' j = (j = unat i \<or> frame_used s j))"
  using assms same_bit_position [of _ "unat i"]
  by (auto simp: pmm_set_bit_def index_valid frame_used_def Let_def unat_div unat_mod bit_simps)

lemma clear_bit_used:
  assumes "pmm_wf s" "unat i < length (frame_addresses s)"
  shows "\<exists>s'. pmm_clear_bit i s = (True, s') \<and> pmm_regions s' = pmm_regions s \<and>
    pmm_total_frames s' = pmm_total_frames s \<and> pmm_free_frames s' = pmm_free_frames s \<and>
    pmm_initialized s' = pmm_initialized s \<and> pmm_memory_map_capped s' = pmm_memory_map_capped s \<and>
    (\<forall>j. frame_used s' j = (j \<noteq> unat i \<and> frame_used s j))"
  using assms same_bit_position [of _ "unat i"]
  by (auto simp: pmm_clear_bit_def index_valid frame_used_def Let_def unat_div unat_mod bit_simps)

lemma region_end_ok:
  "region_ok k r \<Longrightarrow> pmm_region_end r = Some (reg_base r + reg_frame_count r * 4096) \<and>
    unat (reg_base r + reg_frame_count r * 4096) = unat (reg_base r) + 4096 * unat (reg_frame_count r)"
  by (auto simp: region_ok_def pmm_region_end_def Let_def word_less_nat_alt unat_mult_exact unat_add_exact
      unat_sub_if' unat_div)

lemma finite_free_indices [simp]: "finite (free_indices s)"
  by (simp add: free_indices_def)

lemma free_addressI:
  "i < length (frame_addresses s) \<Longrightarrow> \<not> frame_used s i \<Longrightarrow> frame_addresses s ! i = x \<Longrightarrow> x \<in> free_addresses s"
  unfolding free_addresses_def free_indices_def by (intro image_eqI [of _ _ i]) auto

text \<open>The index of a frame address.\<close>

lemma find_in_regions_correct:
  assumes "regions_from k rs" "k + length (concat (map region_addresses rs)) \<le> length (frame_addresses s)"
    and "pmm_wf s" "distinct (concat (map region_addresses rs))" "4096 dvd unat a"
  shows "find_in_regions rs a s = Some i \<longleftrightarrow> k \<le> unat i \<and>
    unat i - k < length (concat (map region_addresses rs)) \<and>
    concat (map region_addresses rs) ! (unat i - k) = unat a"
  using assms(1,2,4)
proof (induction rs arbitrary: k)
  case Nil
  then show ?case by simp
next
  case (Cons r rs)
  let ?rest = "concat (map region_addresses rs)" and ?n = "unat (reg_frame_count r)"
  have ok: "region_ok k r" using Cons.prems(1) by simp
  note e = region_end_ok [OF ok]
  have lim: "length (frame_addresses s) \<le> 8388608" using assms(3) by (simp add: pmm_wf_def)
  have base: "4096 dvd unat (reg_base r)" using ok by (simp add: region_ok_def)
  have idx: "concat (map region_addresses (r # rs)) ! j =
      (if j < ?n then unat (reg_base r) + 4096 * j else ?rest ! (j - ?n))" for j
    by (simp add: nth_append region_addresses_def)
  show ?case
  proof (cases "reg_base r \<le> a \<and> a < reg_base r + reg_frame_count r * 4096")
    case True
    then have lo: "unat (reg_base r) \<le> unat a" and hi: "unat a < unat (reg_base r) + 4096 * ?n"
      using e by (simp_all add: word_le_nat_alt word_less_nat_alt)
    define q where "q = (unat a - unat (reg_base r)) div 4096"
    have qa: "unat a = unat (reg_base r) + 4096 * q" and qn: "q < ?n"
      using lo hi base assms(5) by (auto simp: q_def)
    have q: "unat ((a - reg_base r) div 4096) = q"
      using True by (simp add: q_def unat_div unat_sub_exact)
    have b: "unat (reg_bitmap_base r) = k" using ok by (simp add: region_ok_def)
    have kq: "k + q < length (frame_addresses s)" using Cons.prems(2) qn by simp
    then have cand: "unat (reg_bitmap_base r + (a - reg_base r) div 4096) = k + q"
      using lim b q by (subst unat_add_exact) auto
    have noover: "\<not> reg_bitmap_base r > UINT64_MAX - (a - reg_base r) div 4096"
      using kq lim b q by (simp add: word_less_nat_alt unat_sub_if')
    have "find_in_regions (r # rs) a s = Some (reg_bitmap_base r + (a - reg_base r) div 4096)"
      using True e kq cand noover assms(3) by (simp add: Let_def index_valid)
    then have "find_in_regions (r # rs) a s = Some i \<longleftrightarrow> unat i = k + q"
      using cand by (auto simp: word_unat_eq_iff)
    moreover define L where "L = concat (map region_addresses (r # rs))"
    have "L ! q = unat a" "q < length L" using qn qa idx by (simp_all add: L_def)
    then have "j = q \<longleftrightarrow> j < length L \<and> L ! j = unat a" for j
      using nth_eq_iff_index_eq [of L j q] Cons.prems(3) by (auto simp: L_def)
    ultimately show ?thesis unfolding L_def [symmetric] by (metis add_diff_cancel_left' le_add1 le_add_diff_inverse)
  next
    case False
    then have out: "unat a < unat (reg_base r) \<or> unat (reg_base r) + 4096 * ?n \<le> unat a"
      using e by (auto simp: word_le_nat_alt word_less_nat_alt)
    have "find_in_regions (r # rs) a s = Some i \<longleftrightarrow> find_in_regions rs a s = Some i"
      using False e by auto
    also have "\<dots> \<longleftrightarrow> k + ?n \<le> unat i \<and> unat i - (k + ?n) < length ?rest \<and> ?rest ! (unat i - (k + ?n)) = unat a"
      using Cons.prems by (intro Cons.IH) (simp_all add: add.assoc)
    also have "\<dots> \<longleftrightarrow> k \<le> unat i \<and> unat i - k < length (concat (map region_addresses (r # rs))) \<and>
        concat (map region_addresses (r # rs)) ! (unat i - k) = unat a"
      using out unfolding idx by (auto split: if_splits)
    finally show ?thesis .
  qed
qed

section \<open>Allocation takes a free frame in range, if there is one\<close>

definition took :: "pmm_state \<Rightarrow> nat \<Rightarrow> pmm_state \<Rightarrow> bool" where
  "took s i s' \<longleftrightarrow> pmm_regions s' = pmm_regions s \<and> pmm_total_frames s' = pmm_total_frames s \<and>
     pmm_initialized s' = pmm_initialized s \<and> pmm_memory_map_capped s' = pmm_memory_map_capped s \<and>
     pmm_free_frames s' = pmm_free_frames s - 1 \<and> (\<forall>j. frame_used s' j = (j = i \<or> frame_used s j))"

lemma scan_frames_correct:
  assumes "pmm_wf s" "region_ok k r" "k + unat (reg_frame_count r) \<le> length (frame_addresses s)"
  shows "case scan_frames (word_range lo (unat (reg_frame_count r))) r maximum s of
      Frame_found a s' \<Rightarrow> \<exists>j. lo \<le> j \<and> j < unat (reg_frame_count r) \<and>
        unat a = unat (reg_base r) + 4096 * j \<and> unat a < unat maximum \<and> \<not> frame_used s (k + j) \<and> took s (k + j) s'
    | Region_done \<Rightarrow> \<forall>j. lo \<le> j \<longrightarrow> j < unat (reg_frame_count r) \<longrightarrow>
        unat (reg_base r) + 4096 * j < unat maximum \<longrightarrow> frame_used s (k + j)
    | Scan_failed \<Rightarrow> False"
proof (induction "unat (reg_frame_count r) - lo" arbitrary: lo)
  case 0
  then show ?case by simp
next
  case (Suc d)
  let ?n = "unat (reg_frame_count r)"
  let ?w = "word_of_nat lo :: u64"
  have lt: "lo < ?n" using Suc.hyps(2) by simp
  have lim: "length (frame_addresses s) \<le> 8388608" using assms(1) by (simp add: pmm_wf_def)
  have w: "unat ?w = lo" using lt unat_u64_less [of "reg_frame_count r"] by (simp add: unat_of_nat)
  have k: "unat (reg_bitmap_base r) = k" and top: "unat (reg_base r) + 4096 * ?n < 18446744073709551616"
    using assms(2) by (simp_all add: region_ok_def)
  have idx: "unat (reg_bitmap_base r + ?w) = k + lo"
    using assms(3) lt lim k w by (subst unat_add_exact) auto
  have mul: "unat (?w * 4096) = lo * 4096" using top lt w by (subst unat_mult_exact) auto
  have addr: "unat (reg_base r + ?w * 4096) = unat (reg_base r) + 4096 * lo"
    using top lt mul by (subst unat_add_exact) auto
  have valid: "pmm_bitmap_index_valid (reg_bitmap_base r + ?w) s"
    using assms(1,3) lt idx by (simp add: index_valid)
  have used: "pmm_bit_is_set (reg_bitmap_base r + ?w) s = frame_used s (k + lo)"
    using assms(1,3) lt idx by (simp add: bit_is_set_used)
  have step: "scan_frames (word_range lo ?n) r maximum s =
      (if unat (reg_base r) + 4096 * lo \<ge> unat maximum then Region_done
       else if \<not> frame_used s (k + lo) then
         (case pmm_set_bit (reg_bitmap_base r + ?w) s of
            (False, s) \<Rightarrow> Scan_failed
          | (True, s) \<Rightarrow> Frame_found (reg_base r + ?w * 4096) (s\<lparr>pmm_free_frames := pmm_free_frames s - 1\<rparr>))
       else scan_frames (word_range (Suc lo) ?n) r maximum s)"
    using lt valid used addr by (simp add: word_range_Cons Let_def word_le_nat_alt)
  show ?case
  proof (cases "unat (reg_base r) + 4096 * lo < unat maximum")
    case False
    then show ?thesis unfolding step by auto
  next
    case below: True
    show ?thesis
    proof (cases "frame_used s (k + lo)")
      case False
      obtain s' where s': "pmm_set_bit (reg_bitmap_base r + ?w) s = (True, s')"
        "took s (k + lo) (s'\<lparr>pmm_free_frames := pmm_free_frames s' - 1\<rparr>)"
        using set_bit_used [OF assms(1), of "reg_bitmap_base r + ?w"] assms(3) lt idx
        by (auto simp: took_def frame_used_def)
      have "scan_frames (word_range lo ?n) r maximum s =
          Frame_found (reg_base r + ?w * 4096) (s'\<lparr>pmm_free_frames := pmm_free_frames s' - 1\<rparr>)"
        using step below False s'(1) by simp
      then show ?thesis using below False s'(2) lt addr by (auto intro!: exI [of _ lo])
    next
      case True
      have "scan_frames (word_range lo ?n) r maximum s = scan_frames (word_range (Suc lo) ?n) r maximum s"
        using step below True by simp
      moreover have "d = ?n - Suc lo" using Suc.hyps(2) by simp
      note IH = Suc.hyps(1) [OF this]
      moreover have "frame_used s (k + j)"
        if "\<forall>j. Suc lo \<le> j \<longrightarrow> j < ?n \<longrightarrow> unat (reg_base r) + 4096 * j < unat maximum \<longrightarrow> frame_used s (k + j)"
          "lo \<le> j" "j < ?n" "unat (reg_base r) + 4096 * j < unat maximum" for j
        using that True by (cases "j = lo") auto
      ultimately show ?thesis
        by (cases "scan_frames (word_range (Suc lo) ?n) r maximum s") (force dest: Suc_leD)+
    qed
  qed
qed

lemma alloc_in_regions_correct:
  assumes "regions_from k rs" "k + length (concat (map region_addresses rs)) \<le> length (frame_addresses s)"
    and "pmm_wf s" "4096 dvd unat low"
  shows "case alloc_in_regions rs low maximum s of
      (Some a, s') \<Rightarrow> \<exists>i. i < length (concat (map region_addresses rs)) \<and>
        concat (map region_addresses rs) ! i = unat a \<and> unat low \<le> unat a \<and> unat a < unat maximum \<and>
        \<not> frame_used s (k + i) \<and> took s (k + i) s'
    | (None, s') \<Rightarrow> s' = s \<and> (\<forall>i < length (concat (map region_addresses rs)).
        unat low \<le> concat (map region_addresses rs) ! i \<longrightarrow>
        concat (map region_addresses rs) ! i < unat maximum \<longrightarrow> frame_used s (k + i))"
  using assms(1,2)
proof (induction rs arbitrary: k)
  case Nil
  then show ?case by simp
next
  case (Cons r rs)
  let ?rest = "concat (map region_addresses rs)" and ?n = "unat (reg_frame_count r)"
  have ok: "region_ok k r" using Cons.prems(1) by simp
  note e = region_end_ok [OF ok]
  have base: "4096 dvd unat (reg_base r)" using ok by (simp add: region_ok_def)
  have idx: "concat (map region_addresses (r # rs)) ! j =
      (if j < ?n then unat (reg_base r) + 4096 * j else ?rest ! (j - ?n))" for j
    by (simp add: nth_append region_addresses_def)
  have IH: "case alloc_in_regions rs low maximum s of
      (Some a, s') \<Rightarrow> \<exists>i. i < length ?rest \<and> ?rest ! i = unat a \<and> unat low \<le> unat a \<and> unat a < unat maximum \<and>
        \<not> frame_used s (k + ?n + i) \<and> took s (k + ?n + i) s'
    | (None, s') \<Rightarrow> s' = s \<and> (\<forall>i < length ?rest. unat low \<le> ?rest ! i \<longrightarrow> ?rest ! i < unat maximum \<longrightarrow>
        frame_used s (k + ?n + i))"
    using Cons.prems by (intro Cons.IH) (simp_all add: add.assoc)
  have later: ?case
    if eq: "alloc_in_regions (r # rs) low maximum s = alloc_in_regions rs low maximum s"
      and here: "\<forall>j < ?n. unat low \<le> unat (reg_base r) + 4096 * j \<longrightarrow>
        unat (reg_base r) + 4096 * j < unat maximum \<longrightarrow> frame_used s (k + j)"
  proof (cases "alloc_in_regions rs low maximum s")
    case (Pair ao s')
    show ?thesis
    proof (cases ao)
      case None
      with IH Pair have none: "s' = s" "\<forall>i < length ?rest. unat low \<le> ?rest ! i \<longrightarrow> ?rest ! i < unat maximum \<longrightarrow>
          frame_used s (k + ?n + i)" by auto
      have "frame_used s (k + i)" if "i < ?n + length ?rest" "unat low \<le> concat (map region_addresses (r # rs)) ! i"
        "concat (map region_addresses (r # rs)) ! i < unat maximum" for i
        using that here none(2) [rule_format, of "i - ?n"] unfolding idx by (cases "i < ?n") auto
      then show ?thesis using eq Pair None none(1) by (simp del: concat.simps list.map alloc_in_regions.simps) simp
    next
      case (Some a)
      with IH Pair obtain i where "i < length ?rest" "?rest ! i = unat a" "unat low \<le> unat a"
        "unat a < unat maximum" "\<not> frame_used s (k + ?n + i)" "took s (k + ?n + i) s'" by auto
      then show ?thesis
        using eq Pair Some idx [of "?n + i"]
        by (auto simp: add.assoc simp del: alloc_in_regions.simps intro!: exI [of _ "?n + i"])
    qed
  qed
  define sb where "sb = (if reg_base r < low then low else reg_base r)"
  show ?case
  proof (cases "sb \<ge> reg_base r + reg_frame_count r * 4096 \<or> sb \<ge> maximum")
    case True
    have "alloc_in_regions (r # rs) low maximum s = alloc_in_regions rs low maximum s"
      using True e by (simp add: sb_def Let_def)
    moreover have "\<not> (unat low \<le> unat (reg_base r) + 4096 * j \<and> unat (reg_base r) + 4096 * j < unat maximum)"
      if "j < ?n" for j
      using True that e by (auto simp: sb_def word_le_nat_alt word_less_nat_alt split: if_splits)
    ultimately show ?thesis by (intro later) blast+
  next
    case False
    define lf where "lf = (unat sb - unat (reg_base r)) div 4096"
    have ge: "reg_base r \<le> sb" by (simp add: sb_def order_less_imp_le)
    have lf: "unat ((sb - reg_base r) div 4096) = lf"
      using ge by (simp add: lf_def unat_div unat_sub_exact)
    have sbv: "unat sb = unat (reg_base r) + 4096 * lf"
      using ge base assms(4) by (auto simp: lf_def sb_def word_le_nat_alt)
    have low_iff: "unat low \<le> unat (reg_base r) + 4096 * j \<longleftrightarrow> lf \<le> j" for j
      using sbv by (auto simp: sb_def word_less_nat_alt split: if_splits)
    note scan = scan_frames_correct [OF assms(3) ok, of lf maximum]
    have top: "k + ?n \<le> length (frame_addresses s)" using Cons.prems(2) by simp
    have run: "alloc_in_regions (r # rs) low maximum s =
        (case scan_frames (word_range lf ?n) r maximum s of
           Frame_found address s' \<Rightarrow> (Some address, s')
         | Scan_failed \<Rightarrow> (None, s)
         | Region_done \<Rightarrow> alloc_in_regions rs low maximum s)"
      using False e lf by (simp add: sb_def Let_def)
    show ?thesis
    proof (cases "scan_frames (word_range lf ?n) r maximum s")
      case (Frame_found a s')
      with scan [OF top] obtain j where j: "lf \<le> j" "j < ?n" "unat a = unat (reg_base r) + 4096 * j"
        "unat a < unat maximum" "\<not> frame_used s (k + j)" "took s (k + j) s'" by auto
      then show ?thesis
        using run Frame_found low_iff [of j] idx [of j]
        by (auto simp del: alloc_in_regions.simps intro!: exI [of _ j])
    next
      case Region_done
      with scan [OF top] run low_iff show ?thesis by (intro later) auto
    next
      case Scan_failed
      with scan [OF top] show ?thesis by simp
    qed
  qed
qed

section \<open>The contract of a frame allocator\<close>

text \<open>
  \<open>managed\<close> are the frames the allocator was given, \<open>avail\<close> those it has not
  handed out. A client that keeps taking frames gets pairwise different managed
  frames as long as there are any, and can give each of them back once.
\<close>

fun take_frames :: "('s \<Rightarrow> u64 option \<times> 's) \<Rightarrow> nat \<Rightarrow> 's \<Rightarrow> u64 list \<times> 's" where
  "take_frames get 0 s = ([], s)"
| "take_frames get (Suc n) s = (case get s of
     (None, s') \<Rightarrow> ([], s')
   | (Some a, s') \<Rightarrow> (case take_frames get n s' of (as, t) \<Rightarrow> (a # as, t)))"

locale frame_allocator =
  fixes inv :: "'s \<Rightarrow> bool" and managed avail :: "'s \<Rightarrow> nat set"
    and get :: "'s \<Rightarrow> u64 option \<times> 's" and put :: "u64 \<Rightarrow> 's \<Rightarrow> bool \<times> 's"
  assumes avail_managed: "inv s \<Longrightarrow> avail s \<subseteq> managed s \<and> finite (managed s)"
    and get_some: "inv s \<Longrightarrow> get s = (Some a, s') \<Longrightarrow>
      inv s' \<and> unat a \<in> avail s \<and> managed s' = managed s \<and> avail s' = avail s - {unat a}"
    and get_none: "inv s \<Longrightarrow> get s = (None, s') \<Longrightarrow> s' = s \<and> avail s = {}"
    and put_frame: "inv s \<Longrightarrow> put a s = (ok, s') \<Longrightarrow>
      inv s' \<and> managed s' = managed s \<and> ok = (unat a \<in> managed s - avail s) \<and>
      avail s' = (if ok then insert (unat a) (avail s) else avail s)"
begin

lemma get_put:
  "inv s \<Longrightarrow> get s = (Some a, s') \<Longrightarrow> \<exists>s''. put a s' = (True, s'') \<and> inv s'' \<and> avail s'' = avail s"
  using get_some [of s a s'] put_frame [of s' a "fst (put a s')" "snd (put a s')"] avail_managed [of s]
  by (cases "put a s'") (auto simp: insert_absorb)

lemma put_twice_fails:
  "inv s \<Longrightarrow> put a s = (True, s') \<Longrightarrow> \<exists>s''. put a s' = (False, s'')"
  using put_frame [of s a True s'] put_frame [of s' a "fst (put a s')" "snd (put a s')"]
  by (cases "put a s'") auto

lemma take_frames_correct:
  "inv s \<Longrightarrow> take_frames get n s = (as, s') \<Longrightarrow>
    inv s' \<and> distinct as \<and> unat ` set as \<subseteq> avail s \<and> managed s' = managed s \<and>
    avail s' = avail s - unat ` set as \<and> length as = min n (card (avail s))"
proof (induction n arbitrary: s as)
  case 0
  then show ?case by simp
next
  case (Suc n)
  show ?case
  proof (cases "get s")
    case (Pair ao t)
    show ?thesis
    proof (cases ao)
      case None
      with Suc.prems Pair get_none [of s t] show ?thesis by simp
    next
      case (Some a)
      note g = get_some [OF Suc.prems(1) Pair [unfolded Some]]
      obtain bs where bs: "take_frames get n t = (bs, s')" "as = a # bs"
        using Suc.prems(2) Pair Some by (auto split: prod.splits)
      have fin: "finite (avail s)" using avail_managed [OF Suc.prems(1)] finite_subset by blast
      note IH = Suc.IH [OF conjunct1 [OF g] bs(1)]
      have "unat a \<in> avail s" "avail t = avail s - {unat a}" using g by auto
      then have "card (avail s) = Suc (card (avail t))"
        using card.remove [OF fin] by simp
      moreover have "distinct as" using IH g bs(2) by auto
      moreover have "unat ` set as \<subseteq> avail s" using IH g bs(2) by auto
      moreover have "avail s' = avail s - unat ` set as" using IH g bs(2) by auto
      ultimately show ?thesis using IH g bs(2) by simp
    qed
  qed
qed

end

section \<open>The operations meet the contract\<close>

lemma took_wf:
  assumes "pmm_wf s" "took s i s'" "i < length (frame_addresses s)" "\<not> frame_used s i"
  shows "pmm_wf s'" "frame_addresses s' = frame_addresses s" "free_indices s' = free_indices s - {i}"
    "free_addresses s' = free_addresses s - {frame_addresses s ! i}"
proof -
  show fa: "frame_addresses s' = frame_addresses s"
    using assms(2) by (simp add: took_def frame_addresses_def)
  show fi: "free_indices s' = free_indices s - {i}"
    using assms(2) fa by (auto simp: took_def free_indices_def)
  have i: "i \<in> free_indices s" using assms(3,4) by (simp add: free_indices_def)
  then have c: "card (free_indices s) = Suc (card (free_indices s'))"
    unfolding fi by (intro card.remove) simp_all
  then have "pmm_free_frames s \<ge> 1"
    using assms(1) by (simp add: pmm_wf_def word_le_nat_alt)
  then have "unat (pmm_free_frames s') = card (free_indices s')"
    using assms(1,2) c by (simp add: pmm_wf_def took_def unat_sub_exact)
  then show "pmm_wf s'" using assms(1,2) fa by (simp add: pmm_wf_def took_def)
  have "inj_on ((!) (frame_addresses s)) (free_indices s)"
    using assms(1) by (intro inj_on_nth) (auto simp: pmm_wf_def free_indices_def)
  then show "free_addresses s' = free_addresses s - {frame_addresses s ! i}"
    using i inj_on_image_set_diff [of "(!) (frame_addresses s)" "free_indices s" "free_indices s" "{i}"]
    by (simp add: free_addresses_def fa fi)
qed

lemma pmm_alloc_in_range_correct:
  assumes "pmm_wf s" "pmm_alloc_frame_in_range low maximum s = (ao, s')"
  shows "case ao of
      Some a \<Rightarrow> pmm_wf s' \<and> unat a \<in> free_addresses s \<and> unat low \<le> unat a \<and> unat a < unat maximum \<and>
        frame_addresses s' = frame_addresses s \<and> free_addresses s' = free_addresses s - {unat a}
    | None \<Rightarrow> s' = s \<and> (\<forall>a \<in> free_addresses s. \<not> (unat low \<le> a \<and> a < unat maximum))"
proof -
  have aligned: "4096 dvd a" if "a \<in> free_addresses s" for a
  proof -
    have "a \<in> set (frame_addresses s)" using that by (auto simp: free_addresses_def free_indices_def)
    moreover have "regions_from k rs \<Longrightarrow> x \<in> set (concat (map region_addresses rs)) \<Longrightarrow> 4096 dvd x" for k rs x
      by (induction rs arbitrary: k) (auto simp: region_ok_def region_addresses_def)
    ultimately show ?thesis using assms(1) by (auto simp: pmm_wf_def frame_addresses_def)
  qed
  have none: "s' = s \<and> (\<forall>a \<in> free_addresses s. \<not> (unat low \<le> a \<and> a < unat maximum)) \<and> ao = None"
    if "pmm_free_frames s = 0 \<or> low \<ge> maximum \<or> pmm_align_up low = None \<or>
      (\<exists>m. pmm_align_up low = Some m \<and> m \<ge> maximum)"
  proof -
    have "pmm_alloc_frame_in_range low maximum s = (None, s)"
      using that by (auto simp: pmm_alloc_frame_in_range_def split: option.splits)
    moreover have "\<not> (unat low \<le> a \<and> a < unat maximum)" if av: "a \<in> free_addresses s" for a
    proof
      assume r: "unat low \<le> a \<and> a < unat maximum"
      obtain q where q: "a = 4096 * q" using aligned [OF av] by auto
      have "free_indices s \<noteq> {}" using av by (auto simp: free_addresses_def)
      then have "0 < unat (pmm_free_frames s)"
        using assms(1) by (simp add: pmm_wf_def card_gt_0_iff)
      with \<open>pmm_free_frames s = 0 \<or> _\<close> r consider "pmm_align_up low = None"
        | m where "pmm_align_up low = Some m" "m \<ge> maximum"
        by (auto simp: word_le_nat_alt)
      then show False
      proof cases
        case 1
        then have "18446744073709547520 < unat low"
          using pmm_align_up_unat(2) [of low] by linarith
        then have "4503599627370495 < q" using r q by linarith
        then have "18446744073709551616 \<le> a" using q by linarith
        then show False using r unat_u64_less [of maximum] by linarith
      next
        case 2
        then have "unat m \<le> a" using r q pmm_align_up_unat(1) [of low m] align_up_le_iff by simp
        then show False using r 2(2) by (simp add: word_le_nat_alt)
      qed
    qed
    ultimately show ?thesis using assms(2) by auto
  qed
  show ?thesis
  proof (cases "pmm_free_frames s = 0 \<or> low \<ge> maximum \<or> pmm_align_up low = None \<or>
      (\<exists>m. pmm_align_up low = Some m \<and> m \<ge> maximum)")
    case True
    then show ?thesis using none by auto
  next
    case False
    then obtain m where m: "pmm_align_up low = Some m" by auto
    have run: "pmm_alloc_frame_in_range low maximum s = alloc_in_regions (pmm_regions s) m maximum s"
      using False m assms(1) by (auto simp: pmm_alloc_frame_in_range_def pmm_wf_def)
    have md: "4096 dvd unat m" using pmm_align_up_unat(1) [OF m] by simp
    have low_iff: "unat m \<le> a \<longleftrightarrow> unat low \<le> a" if "4096 dvd a" for a
      using that pmm_align_up_unat(1) [OF m] align_up_le_iff by (elim dvdE) simp
    have found: "case alloc_in_regions (pmm_regions s) m maximum s of
        (Some a, s') \<Rightarrow> \<exists>i. i < length (frame_addresses s) \<and> frame_addresses s ! i = unat a \<and>
          unat m \<le> unat a \<and> unat a < unat maximum \<and> \<not> frame_used s i \<and> took s i s'
      | (None, s') \<Rightarrow> s' = s \<and> (\<forall>i < length (frame_addresses s).
          unat m \<le> frame_addresses s ! i \<longrightarrow> frame_addresses s ! i < unat maximum \<longrightarrow> frame_used s i)"
      using alloc_in_regions_correct [of 0 "pmm_regions s" s m maximum, folded frame_addresses_def,
          unfolded add_0] assms(1) md
      by (simp add: pmm_wf_def)
    then show ?thesis
    proof (cases ao)
      case None
      with found run assms(2) show ?thesis
        using low_iff [OF aligned] by (fastforce simp: free_addresses_def free_indices_def)
    next
      case (Some a)
      with found run assms(2) obtain i where
        i: "i < length (frame_addresses s)" "frame_addresses s ! i = unat a" "unat m \<le> unat a"
        "unat a < unat maximum" "\<not> frame_used s i" "took s i s'" by auto
      have "unat a \<in> free_addresses s"
        using i by (intro free_addressI [of i])
      with i took_wf [OF assms(1) i(6,1,5)] low_iff [OF aligned] show ?thesis by (auto simp: Some)
    qed
  qed
qed

lemma pmm_alloc_frame_correct:
  assumes "pmm_wf s" "pmm_alloc_frame s = (ao, s')"
  shows "case ao of
      Some a \<Rightarrow> pmm_wf s' \<and> unat a \<in> free_addresses s \<and>
        frame_addresses s' = frame_addresses s \<and> free_addresses s' = free_addresses s - {unat a}
    | None \<Rightarrow> s' = s \<and> free_addresses s = {}"
proof -
  have below: "a < unat UINT64_MAX" if "a \<in> free_addresses s" for a
  proof -
    have "a \<in> set (frame_addresses s)" using that by (auto simp: free_addresses_def free_indices_def)
    moreover have "regions_from k rs \<Longrightarrow> x \<in> set (concat (map region_addresses rs)) \<Longrightarrow> x < 18446744073709551615" for k rs x
      by (induction rs arbitrary: k) (auto simp: region_ok_def region_addresses_def)
    ultimately show ?thesis using assms(1) by (auto simp: pmm_wf_def frame_addresses_def)
  qed
  from pmm_alloc_in_range_correct [OF assms(1) assms(2) [unfolded pmm_alloc_frame_def]] below
  show ?thesis by (auto split: option.splits)
qed

lemma find_frame_correct:
  assumes "pmm_wf s"
  shows "pmm_find_frame a s = Some i \<longleftrightarrow>
    unat i < length (frame_addresses s) \<and> frame_addresses s ! unat i = unat a"
proof -
  have dv: "a mod 4096 = 0 \<longleftrightarrow> 4096 dvd unat a"
    by (simp add: word_unat_eq_iff unat_mod dvd_eq_mod_eq_0)
  have "4096 dvd x" if "x \<in> set (concat (map region_addresses rs))" "regions_from k rs" for x k rs
    using that by (induction rs arbitrary: k) (auto simp: region_ok_def region_addresses_def)
  then have "4096 dvd unat a" if "unat i < length (frame_addresses s)" "frame_addresses s ! unat i = unat a"
    using that assms nth_mem [of "unat i" "frame_addresses s"] by (auto simp: pmm_wf_def frame_addresses_def)
  moreover have "find_in_regions (pmm_regions s) a s = Some i \<longleftrightarrow>
      unat i < length (frame_addresses s) \<and> frame_addresses s ! unat i = unat a" if "4096 dvd unat a"
    using find_in_regions_correct [of 0 "pmm_regions s" s a i, folded frame_addresses_def] assms that
    by (simp add: pmm_wf_def)
  ultimately show ?thesis using dv by (auto simp: pmm_find_frame_def)
qed

lemma pmm_free_frame_correct:
  assumes wf: "pmm_wf s" and run: "pmm_free_frame a s = (ok, s')"
  shows "pmm_wf s' \<and> frame_addresses s' = frame_addresses s \<and>
    ok = (unat a \<in> set (frame_addresses s) - free_addresses s) \<and>
    free_addresses s' = (if ok then insert (unat a) (free_addresses s) else free_addresses s)"
proof -
  have init: "pmm_initialized s" using wf by (simp add: pmm_wf_def)
  have inj: "inj_on ((!) (frame_addresses s)) {i. i < length (frame_addresses s)}"
    using wf by (intro inj_on_nth) (auto simp: pmm_wf_def)
  show ?thesis
  proof (cases "\<exists>i. pmm_find_frame a s = Some i \<and> pmm_bit_is_set i s")
    case True
    then obtain i where i: "pmm_find_frame a s = Some i" "pmm_bit_is_set i s" by blast
    then have ix: "unat i < length (frame_addresses s)" "frame_addresses s ! unat i = unat a"
      by (simp_all add: find_frame_correct [OF wf])
    then have used: "frame_used s (unat i)" using i(2) bit_is_set_used [OF wf] by simp
    obtain t where t: "pmm_clear_bit i s = (True, t)" "pmm_regions t = pmm_regions s"
      "pmm_total_frames t = pmm_total_frames s" "pmm_free_frames t = pmm_free_frames s"
      "pmm_initialized t = pmm_initialized s" "\<forall>j. frame_used t j = (j \<noteq> unat i \<and> frame_used s j)"
      using clear_bit_used [OF wf ix(1)] by blast
    have s': "ok" "s' = t\<lparr>pmm_free_frames := pmm_free_frames t + 1\<rparr>"
      using run init i t(1) by (simp_all add: pmm_free_frame_def)
    have fa: "frame_addresses s' = frame_addresses s" using t(2) s'(2) by (simp add: frame_addresses_def)
    have fi: "free_indices s' = insert (unat i) (free_indices s)"
      using t(6) s'(2) ix(1) unfolding free_indices_def fa by (auto simp: frame_used_def)
    have nin: "unat i \<notin> free_indices s" using used by (simp add: free_indices_def)
    have "card (insert (unat i) (free_indices s)) \<le> length (frame_addresses s)"
      using card_mono [of "{..<length (frame_addresses s)}" "insert (unat i) (free_indices s)"] ix(1)
      by (auto simp: free_indices_def)
    then have "unat (pmm_free_frames s') = card (free_indices s')"
      using wf nin t(4) unfolding fi by (simp add: s'(2) pmm_wf_def unat_add_exact)
    then have "pmm_wf s'" using wf t s'(2) fa by (simp add: pmm_wf_def)
    moreover have "free_addresses s' = insert (unat a) (free_addresses s)"
      by (simp add: free_addresses_def fa fi ix(2))
    moreover have "unat a \<in> set (frame_addresses s)" using ix by (metis nth_mem)
    moreover have "unat a \<notin> free_addresses s"
    proof
      assume "unat a \<in> free_addresses s"
      then obtain j where "j \<in> free_indices s" "frame_addresses s ! j = frame_addresses s ! unat i"
        using ix(2) by (auto simp: free_addresses_def)
      with inj ix(1) have "j = unat i" by (auto simp: inj_on_def free_indices_def)
      with \<open>j \<in> free_indices s\<close> nin show False by simp
    qed
    ultimately show ?thesis using s'(1) fa by simp
  next
    case False
    have fail: "\<not> ok" "s' = s"
      using run init False by (auto simp: pmm_free_frame_def split: option.splits if_splits)
    have "unat a \<in> free_addresses s" if mem: "unat a \<in> set (frame_addresses s)"
    proof -
      obtain j where j: "j < length (frame_addresses s)" "frame_addresses s ! j = unat a"
        using mem by (auto simp: in_set_conv_nth)
      then have "unat (word_of_nat j :: u64) = j" using wf by (simp add: pmm_wf_def unat_of_nat)
      then have "pmm_find_frame a s = Some (word_of_nat j)"
        using j find_frame_correct [OF wf, of a "word_of_nat j"] by simp
      with False have "\<not> frame_used s j"
        using bit_is_set_used [OF wf, of "word_of_nat j"] j \<open>unat _ = j\<close> by auto
      with j show ?thesis by (intro free_addressI [of j])
    qed
    with fail wf show ?thesis by auto
  qed
qed

interpretation pmm: frame_allocator pmm_wf "\<lambda>s. set (frame_addresses s)" free_addresses
  pmm_alloc_frame pmm_free_frame
proof unfold_locales
  fix s :: pmm_state
  show "free_addresses s \<subseteq> set (frame_addresses s) \<and> finite (set (frame_addresses s))"
    by (auto simp: free_addresses_def free_indices_def)
next
  fix s a s' assume "pmm_wf s" "pmm_alloc_frame s = (Some a, s')"
  from pmm_alloc_frame_correct [OF this]
  show "pmm_wf s' \<and> unat a \<in> free_addresses s \<and> set (frame_addresses s') = set (frame_addresses s) \<and>
      free_addresses s' = free_addresses s - {unat a}" by simp
next
  fix s s' assume "pmm_wf s" "pmm_alloc_frame s = (None, s')"
  from pmm_alloc_frame_correct [OF this] show "s' = s \<and> free_addresses s = {}" by simp
next
  fix s a ok s' assume "pmm_wf s" "pmm_free_frame a s = (ok, s')"
  from pmm_free_frame_correct [OF this]
  show "pmm_wf s' \<and> set (frame_addresses s') = set (frame_addresses s) \<and>
      ok = (unat a \<in> set (frame_addresses s) - free_addresses s) \<and>
      free_addresses s' = (if ok then insert (unat a) (free_addresses s) else free_addresses s)" by simp
qed

section \<open>Initialisation\<close>

text \<open>A page frame inside a usable entry of the memory map.\<close>

definition usable_frame :: "memmap_entry option list \<Rightarrow> nat \<Rightarrow> bool" where
  "usable_frame entries x \<longleftrightarrow> 4096 dvd x \<and> (\<exists>e. Some e \<in> set entries \<and> me_type e = 0 \<and>
     unat (me_base e) \<le> x \<and> x + 4096 \<le> unat (me_base e) + unat (me_length e))"

lemma entry_end_unat:
  "pmm_entry_end (Some e) = Some t \<Longrightarrow>
    unat t = unat (me_base e) + unat (me_length e) \<and> 0 < unat (me_length e)"
  using unat_u64_less [of "me_length e"]
  by (auto simp: pmm_entry_end_def word_less_nat_alt unat_sub_if' unat_add_exact unat_gt_0 split: if_splits)

lemma check_others_disjoint:
  assumes "check_others e t es" "pmm_entry_end (Some e) = Some t" "me_type e = 0" "Some f \<in> set es"
  shows "unat (me_base e) + unat (me_length e) \<le> unat (me_base f) \<or>
    unat (me_base f) + unat (me_length f) \<le> unat (me_base e)"
  using assms
proof (induction es)
  case Nil
  then show ?case by simp
next
  case (Cons o1 es)
  then obtain o2 t2 where o2: "o1 = Some o2" "pmm_entry_end (Some o2) = Some t2"
    and rest: "check_others e t es" "\<not> pmm_ranges_overlap (me_base e) t (me_base o2) t2"
    by (auto simp: pmm_overlap_requires_rejection_def split: option.splits if_splits)
  show ?case
  proof (cases "o2 = f")
    case True
    then show ?thesis
      using rest(2) entry_end_unat [OF o2(2)] entry_end_unat [OF Cons.prems(2)]
      by (auto simp: pmm_ranges_overlap_def word_less_nat_alt)
  next
    case False
    then show ?thesis using Cons rest o2 by auto
  qed
qed

lemma check_entries_disjoint:
  assumes "check_entries (xs @ Some f # zs)" "Some e \<in> set xs" "me_type e = 0"
  shows "unat (me_base e) + unat (me_length e) \<le> unat (me_base f) \<or>
    unat (me_base f) + unat (me_length f) \<le> unat (me_base e)"
  using assms(1,2)
proof (induction xs)
  case Nil
  then show ?case by simp
next
  case (Cons x xs)
  then obtain x' t where x: "x = Some x'" "pmm_entry_end (Some x') = Some t"
    "check_others x' t (xs @ Some f # zs)" "check_entries (xs @ Some f # zs)"
    by (auto split: option.splits)
  show ?case
  proof (cases "x' = e")
    case True
    then show ?thesis using check_others_disjoint [of e t "xs @ Some f # zs" f] x assms(3) by simp
  next
    case False
    then show ?thesis using Cons x by auto
  qed
qed

definition init_state :: "memmap_entry option list \<Rightarrow> pmm_state \<Rightarrow> bool" where
  "init_state ys s \<longleftrightarrow> \<not> pmm_initialized s \<and> pmm_bitmap s = (\<lambda>_. 0) \<and>
     regions_from 0 (pmm_regions s) \<and> distinct (frame_addresses s) \<and>
     unat (pmm_total_frames s) = length (frame_addresses s) \<and> length (frame_addresses s) \<le> 8388608 \<and>
     length (pmm_regions s) \<le> 64 \<and>
     (\<forall>x \<in> set (frame_addresses s). usable_frame ys x) \<and>
     (\<not> pmm_memory_map_capped s \<longrightarrow> (\<forall>x. usable_frame ys x \<longrightarrow> x \<in> set (frame_addresses s)))"

lemma usable_frame_snoc:
  "usable_frame (ys @ [Some e]) x \<longleftrightarrow> usable_frame ys x \<or>
    (4096 dvd x \<and> me_type e = 0 \<and> unat (me_base e) \<le> x \<and> x + 4096 \<le> unat (me_base e) + unat (me_length e))"
  by (auto simp: usable_frame_def)

lemma add_entry_state:
  assumes "add_entry y s = Inr t" "init_state ys s" "check_entries (ys @ y # zs)"
  shows "init_state (ys @ [y]) t"
proof -
  from assms(1) obtain e where y: "y = Some e" by (auto simp: add_entry_def split: option.splits)
  let ?lo = "unat (me_base e)" and ?hi = "unat (me_base e) + unat (me_length e)"
  have skip: "init_state (ys @ [y]) s"
    if "me_type e \<noteq> 0 \<or> (\<forall>x. 4096 dvd x \<longrightarrow> ?lo \<le> x \<longrightarrow> \<not> x + 4096 \<le> ?hi)"
    using that assms(2) unfolding init_state_def y by (auto simp: usable_frame_snoc)
  show ?thesis
  proof (cases "me_type e = 0")
    case False
    then show ?thesis using assms(1) skip by (auto simp: add_entry_def y)
  next
    case usable: True
    with assms(1) obtain raw_end ab where re: "pmm_entry_end (Some e) = Some raw_end"
      and ab: "pmm_align_up (me_base e) = Some ab"
      by (auto simp: add_entry_def y split: option.splits)
    define ae where "ae = pmm_align_down raw_end"
    have abv: "unat ab = (?lo + 4095) div 4096 * 4096" using pmm_align_up_unat(1) [OF ab] .
    have aev: "unat ae = ?hi div 4096 * 4096"
      using entry_end_unat [OF re] by (simp add: ae_def pmm_align_down_unat)
    have inside: "(?lo \<le> 4096 * q \<and> 4096 * q + 4096 \<le> ?hi) \<longleftrightarrow> (unat ab \<le> 4096 * q \<and> 4096 * q + 4096 \<le> unat ae)" for q
      using align_up_le_iff [of ?lo q] align_down_ge_iff [of q ?hi] unfolding abv aev by blast
    show ?thesis
    proof (cases "ae \<le> ab")
      case True
      then have "t = s" using assms(1) usable re ab by (simp add: add_entry_def y ae_def [symmetric])
      moreover have "\<not> x + 4096 \<le> ?hi" if x: "4096 dvd x" "?lo \<le> x" for x
      proof -
        obtain q where q: "x = 4096 * q" using x(1) by auto
        have "\<not> (unat ab \<le> 4096 * q \<and> 4096 * q + 4096 \<le> unat ae)"
          using True by (auto simp: word_le_nat_alt)
        then show ?thesis using inside [of q] x(2) q by blast
      qed
      ultimately show ?thesis using skip by blast
    next
      case False
      define n where "n = (unat ae - unat ab) div 4096"
      define fc where "fc = (ae - ab) div 4096"
      have fc: "unat fc = n" using False by (simp add: fc_def n_def unat_div unat_sub_exact)
      have aen: "unat ae = unat ab + 4096 * n" "0 < n"
        using False abv aev by (auto simp: n_def word_le_nat_alt elim!: dvdE)
      have fit: "unat ab + 4096 * n < 18446744073709551616"
        using aen unat_u64_less [of ae] by simp
      have tot: "unat (pmm_total_frames s) = length (frame_addresses s)" "length (frame_addresses s) \<le> 8388608"
        using assms(2) by (simp_all add: init_state_def)
      show ?thesis
      proof (cases "PMM_MAX_FRAMES - pmm_total_frames s = 0 \<or> pmm_region_count s \<ge> 64")
        case True
        have "fc \<noteq> 0" using fc aen(2) by auto
        then have "t = s\<lparr>pmm_memory_map_capped := True\<rparr>"
          using assms(1) usable re ab False True tot
          by (auto simp: add_entry_def y ae_def [symmetric] fc_def [symmetric] Let_def word_less_nat_alt
              split: if_splits)
        then show ?thesis
          using assms(2) unfolding init_state_def y
          by (auto simp: frame_addresses_def usable_frame_snoc)
      next
        case room: False
        define rem where "rem = unat (PMM_MAX_FRAMES - pmm_total_frames s)"
        have rem: "rem = 8388608 - length (frame_addresses s)"
          using tot by (simp add: rem_def unat_sub_exact word_le_nat_alt)
        define m where "m = min n rem"
        have "fc \<noteq> 0" using fc aen(2) by auto
        then obtain w where w: "unat w = m" and t: "pmm_regions t = pmm_regions s @
              [\<lparr>reg_base = ab, reg_frame_count = w, reg_bitmap_base = pmm_total_frames s\<rparr>]"
            "pmm_total_frames t = pmm_total_frames s + w" "pmm_initialized t = pmm_initialized s"
            "pmm_bitmap t = pmm_bitmap s"
            "\<not> pmm_memory_map_capped t \<Longrightarrow> \<not> pmm_memory_map_capped s \<and> m = n"
          using assms(1) usable re ab False room tot fc
          by (auto simp: add_entry_def y ae_def [symmetric] fc_def [symmetric] Let_def m_def rem_def
              word_less_nat_alt min_def split: if_splits)
        have fa: "frame_addresses t = frame_addresses s @ map (\<lambda>j. unat ab + 4096 * j) [0..<m]"
          using w by (simp add: frame_addresses_def t(1) region_addresses_def)
        have ins: "usable_frame (ys @ [y]) x" "\<not> usable_frame ys x"
          if "x \<in> set (map (\<lambda>j. unat ab + 4096 * j) [0..<m])" for x
        proof -
          from that obtain j where j: "x = unat ab + 4096 * j" "j < m" by auto
          obtain q where q: "unat ab = 4096 * q" using abv by auto
          have "unat ab \<le> 4096 * (q + j)" "4096 * (q + j) + 4096 \<le> unat ae"
            using j(2) aen(1) q by (simp_all add: m_def)
          then have x: "?lo \<le> x \<and> x + 4096 \<le> ?hi" using inside [of "q + j"] j(1) q by simp
          have "4096 dvd x" using j(1) q by simp
          with x usable show "usable_frame (ys @ [y]) x" by (simp add: y usable_frame_snoc)
          show "\<not> usable_frame ys x"
          proof
            assume "usable_frame ys x"
            then obtain f where f: "Some f \<in> set ys" "me_type f = 0" "unat (me_base f) \<le> x"
              "x + 4096 \<le> unat (me_base f) + unat (me_length f)" by (auto simp: usable_frame_def)
            from check_entries_disjoint [OF assms(3) [unfolded y] f(1,2)] x f(3,4) show False by linarith
          qed
        qed
        have "distinct (frame_addresses t)"
        proof -
          have "set (frame_addresses s) \<inter> set (map (\<lambda>j. unat ab + 4096 * j) [0..<m]) = {}"
            using ins(2) assms(2) unfolding init_state_def by blast
          then show ?thesis
            using assms(2) by (auto simp: fa init_state_def distinct_map inj_on_def)
        qed
        moreover have "regions_from 0 (pmm_regions t)"
          using assms(2) abv aen fit w tot
          by (auto simp: t(1) regions_from_append init_state_def region_ok_def m_def frame_addresses_def)
        moreover have "unat (pmm_total_frames t) = length (frame_addresses t)"
          using tot w rem by (simp add: t(2) fa unat_add_exact m_def)
        moreover have "length (frame_addresses t) \<le> 8388608"
          using tot rem by (simp add: fa m_def)
        moreover have "length (pmm_regions t) \<le> 64"
          using room by (simp add: t(1) pmm_region_count_def)
        moreover have "usable_frame (ys @ [y]) x" if "x \<in> set (frame_addresses t)" for x
          using that ins(1) assms(2) by (auto simp: fa y usable_frame_snoc init_state_def)
        moreover have "x \<in> set (frame_addresses t)" if "\<not> pmm_memory_map_capped t" "usable_frame (ys @ [y]) x" for x
        proof (cases "usable_frame ys x")
          case True
          then show ?thesis using assms(2) t(5) [OF that(1)] by (simp add: fa init_state_def)
        next
          case out: False
          with that(2) obtain q where q: "x = 4096 * q" "?lo \<le> x" "x + 4096 \<le> ?hi"
            by (auto simp: y usable_frame_snoc)
          then have b: "unat ab \<le> 4096 * q" "4096 * q + 4096 \<le> unat ae" using inside [of q] by auto
          obtain p where p: "unat ab = 4096 * p" using abv by auto
          have "x = unat ab + 4096 * (q - p)" "q - p < m"
            using b p q(1) aen(1) t(5) [OF that(1)] by auto
          then show ?thesis by (auto simp: fa)
        qed
        ultimately show ?thesis
          using assms(2) t by (simp add: init_state_def)
      qed
    qed
  qed
qed

lemma pmm_init_correct:
  assumes "pmm_init (Some (Some entries)) = (True, s)"
  shows "pmm_wf s \<and> free_addresses s = set (frame_addresses s) \<and>
    (\<forall>x \<in> set (frame_addresses s). usable_frame entries x) \<and>
    (\<not> pmm_memory_map_capped s \<longrightarrow> (\<forall>x. usable_frame entries x \<longrightarrow> x \<in> set (frame_addresses s)))"
proof -
  from assms obtain t where checked: "check_entries entries"
    and run: "for_each entries add_entry pmm_reset_state = Inr t"
    and s: "s = t\<lparr>pmm_free_frames := pmm_total_frames t, pmm_initialized := True\<rparr>"
    by (auto simp: pmm_init_def split: if_splits sum.splits)
  have "init_state entries t"
  proof (rule for_each_invariant [where I = init_state, OF run])
    show "init_state [] pmm_reset_state"
      by (simp add: init_state_def pmm_reset_state_def frame_addresses_def usable_frame_def)
    show "init_state (ys @ [y]) v"
      if "entries = ys @ y # zs" "init_state ys u" "add_entry y u = Inr v" for ys y zs u v
      using add_entry_state [OF that(3,2)] that(1) checked by simp
  qed
  moreover have "frame_addresses s = frame_addresses t" by (simp add: s frame_addresses_def)
  moreover have "free_indices s = {..<length (frame_addresses s)}"
    using calculation by (auto simp: free_indices_def frame_used_def init_state_def s)
  moreover have "(!) (frame_addresses s) ` {..<length (frame_addresses s)} = set (frame_addresses s)"
    by (auto simp: set_conv_nth)
  ultimately show ?thesis
    by (auto simp: pmm_wf_def init_state_def free_addresses_def s)
qed

section \<open>Properties\<close>

lemma pmm_usable_iff: "pmm_wf s \<Longrightarrow> pmm_frame_is_usable a s \<longleftrightarrow> unat a \<in> set (frame_addresses s)"
proof -
  assume wf: "pmm_wf s"
  have "\<exists>i. pmm_find_frame a s = Some i" if "j < length (frame_addresses s)" "frame_addresses s ! j = unat a" for j
  proof -
    have "unat (word_of_nat j :: u64) = j" using that wf by (simp add: pmm_wf_def unat_of_nat)
    then have "pmm_find_frame a s = Some (word_of_nat j)"
      using that by (simp add: find_frame_correct [OF wf])
    then show ?thesis by blast
  qed
  then show ?thesis
    using wf find_frame_correct [OF wf, of a]
    by (auto simp: pmm_frame_is_usable_def pmm_wf_def in_set_conv_nth)
qed

text \<open>Two frames at 4096 and 8192, followed by a reserved entry.\<close>

definition sample_map :: "memmap_entry option list" where
  "sample_map = [Some \<lparr>me_base = 4000, me_length = 9000, me_type = 0\<rparr>,
                 Some \<lparr>me_base = 13000, me_length = 4096, me_type = 1\<rparr>]"

definition sample_pmm :: pmm_state where
  "sample_pmm = snd (pmm_init (Some (Some sample_map)))"

lemma sample_pmm_init: "pmm_init (Some (Some sample_map)) = (True, sample_pmm)"
proof -
  have "fst (pmm_init (Some (Some sample_map)))" by code_simp
  then show ?thesis by (simp add: sample_pmm_def prod_eq_iff)
qed

lemma sample_pmm_wf: "pmm_wf sample_pmm"
  using pmm_init_correct [OF sample_pmm_init] by simp

lemma sample_pmm_frames: "frame_addresses sample_pmm = [4096, 8192]"
  by code_simp

text \<open>
  C8: After a successful initialisation from a memory map every frame that the
  allocator regards as usable is page aligned and lies entirely inside a usable
  entry of the map; unless the map was capped (64 regions, 8388608 frames) it
  manages every such frame; and all its frames are free.
\<close>

theorem pmm_init_manages_usable_memory:
  assumes "pmm_init (Some (Some entries)) = (True, s)"
  shows "pmm_wf s \<and> free_addresses s = set (frame_addresses s) \<and>
    (\<forall>a. pmm_frame_is_usable a s \<longrightarrow> usable_frame entries (unat a)) \<and>
    (\<forall>a. \<not> pmm_memory_map_capped s \<longrightarrow> usable_frame entries (unat a) \<longrightarrow> pmm_frame_is_usable a s)"
  using pmm_init_correct [OF assms] pmm_usable_iff by blast

lemma pmm_init_manages_usable_memory_witness:
  "pmm_wf sample_pmm \<and> free_addresses sample_pmm = {4096, 8192}"
  using pmm_init_manages_usable_memory [OF sample_pmm_init] sample_pmm_frames by simp

text \<open>
  C9: An allocation in a range returns a free frame inside the range, marks
  exactly that frame as used and decrements the count of free frames; it fails
  only when no free frame lies in the range, and then changes nothing.
\<close>

theorem pmm_alloc_in_range_sound_and_complete:
  assumes "pmm_wf s" "pmm_alloc_frame_in_range low maximum s = (ao, s')"
  shows "pmm_wf s' \<and> frame_addresses s' = frame_addresses s \<and>
    (case ao of
       Some a \<Rightarrow> unat a \<in> free_addresses s \<and> low \<le> a \<and> a < maximum \<and>
         free_addresses s' = free_addresses s - {unat a}
     | None \<Rightarrow> s' = s \<and> (\<forall>a. low \<le> a \<longrightarrow> a < maximum \<longrightarrow> unat a \<notin> free_addresses s))"
  using pmm_alloc_in_range_correct [OF assms] assms(1)
  by (auto split: option.splits simp: word_le_nat_alt word_less_nat_alt)

lemma pmm_alloc_in_range_witness:
  "fst (pmm_alloc_frame_in_range 5000 9000 sample_pmm) = Some 8192 \<and>
    free_addresses (snd (pmm_alloc_frame_in_range 5000 9000 sample_pmm)) = free_addresses sample_pmm - {8192}"
proof -
  have "fst (pmm_alloc_frame_in_range 5000 9000 sample_pmm) = Some 8192" by code_simp
  then have "pmm_alloc_frame_in_range 5000 9000 sample_pmm =
      (Some 8192, snd (pmm_alloc_frame_in_range 5000 9000 sample_pmm))" by (simp add: prod_eq_iff)
  from pmm_alloc_in_range_sound_and_complete [OF sample_pmm_wf this] show ?thesis
    using \<open>fst _ = _\<close> by simp
qed

text \<open>
  Releasing a frame succeeds if and only if it is a managed frame that is
  handed out; it then becomes free again, and every other call changes nothing.
  So a double release and a release of foreign or unaligned addresses are refused.
\<close>

theorem pmm_free_frame_exact:
  assumes "pmm_wf s"
  shows "case pmm_free_frame a s of (ok, s') \<Rightarrow>
    pmm_wf s' \<and> frame_addresses s' = frame_addresses s \<and>
    (ok \<longleftrightarrow> pmm_frame_is_usable a s \<and> unat a \<notin> free_addresses s) \<and>
    free_addresses s' = (if ok then insert (unat a) (free_addresses s) else free_addresses s)"
  using pmm_free_frame_correct [OF assms, of a] pmm_usable_iff [OF assms, of a]
  by (auto split: prod.splits)

lemma pmm_free_frame_witness: "\<not> fst (pmm_free_frame 4096 sample_pmm)"
proof -
  have "unat (4096 :: u64) \<in> free_addresses sample_pmm"
    using pmm_init_correct [OF sample_pmm_init] sample_pmm_frames by simp
  then show ?thesis
    using pmm_free_frame_exact [OF sample_pmm_wf, of 4096] by (auto split: prod.splits)
qed

text \<open>
  Any number of single-frame allocations in a row returns pairwise different
  free frames, as many as asked for or as are free, and leaves the others free;
  a frame just taken can be given back, which restores the set of free frames.
\<close>

theorem pmm_repeated_allocation:
  assumes "pmm_wf s"
  shows "(\<forall>n as s'. take_frames pmm_alloc_frame n s = (as, s') \<longrightarrow>
      pmm_wf s' \<and> distinct as \<and> unat ` set as \<subseteq> free_addresses s \<and>
      free_addresses s' = free_addresses s - unat ` set as \<and> length as = min n (card (free_addresses s))) \<and>
    (\<forall>a s'. pmm_alloc_frame s = (Some a, s') \<longrightarrow>
      (\<exists>s''. pmm_free_frame a s' = (True, s'') \<and> pmm_wf s'' \<and> free_addresses s'' = free_addresses s))"
  using pmm.take_frames_correct [OF assms] pmm.get_put [OF assms] by blast

lemma pmm_repeated_allocation_witness:
  "length (fst (take_frames pmm_alloc_frame 3 sample_pmm)) = 2"
proof -
  have "free_addresses sample_pmm = {4096, 8192}"
    using pmm_init_correct [OF sample_pmm_init] sample_pmm_frames by simp
  then show ?thesis
    using pmm_repeated_allocation [OF sample_pmm_wf] by (cases "take_frames pmm_alloc_frame 3 sample_pmm") force
qed

text \<open>The statistics report the managed frames and the number of frames that are free.\<close>

theorem pmm_stats_exact:
  assumes "pmm_wf s"
  shows "\<exists>stats. pmm_get_stats s = Some stats \<and>
    unat (stat_usable_frames stats) = length (frame_addresses s) \<and>
    unat (stat_usable_bytes stats) = 4096 * length (frame_addresses s) \<and>
    unat (stat_free_frames stats) = card (free_addresses s)"
proof -
  have "inj_on ((!) (frame_addresses s)) (free_indices s)"
    using assms by (intro inj_on_nth) (auto simp: pmm_wf_def free_indices_def)
  then have "card (free_addresses s) = card (free_indices s)"
    by (simp add: free_addresses_def card_image)
  with assms show ?thesis
    by (auto simp: pmm_get_stats_def pmm_wf_def word_less_nat_alt unat_mult_exact)
qed

lemma pmm_stats_witness: "pmm_get_stats sample_pmm \<noteq> None"
  using pmm_stats_exact [OF sample_pmm_wf] by auto

end
