(* ===== verification/Heap.thy ===== *)
theory Heap
  imports Prelude
begin

text \<open>
  kernel/core/heap.c, the kernel heap: a list of blocks laid end to end over the
  mapped pages of a 16 MiB region, each with a header that holds its size, its
  neighbours, its state and a guard word. The headers are a store from
  addresses to \<open>heap_block\<close> (0 is NULL); headers at different addresses are
  different cells, which is what the tiling invariant \<open>heap_wf\<close> guarantees of the
  real bytes. Mapping pages and taking frames are the operations of the page
  mapper and the frame allocator, here the record \<open>pager\<close> of functions over
  their state. Loops over \<open>next\<close> pointers that the code does not bound are
  \<open>partial_function (option)\<close>: \<open>None\<close> is not returning.
\<close>

section \<open>State\<close>

abbreviation (input) HEAP_PAGE_SIZE :: u64 where "HEAP_PAGE_SIZE \<equiv> 4096"
abbreviation (input) HEAP_REGION_SIZE :: u64 where "HEAP_REGION_SIZE \<equiv> 0x1000000"
abbreviation (input) HEAP_MAX_PAGES :: u64 where "HEAP_MAX_PAGES \<equiv> 4096"
abbreviation (input) HEAP_VIRTUAL_BASE :: u64 where "HEAP_VIRTUAL_BASE \<equiv> 0xffffff0000200000"
abbreviation (input) HEAP_VIRTUAL_LIMIT :: u64 where "HEAP_VIRTUAL_LIMIT \<equiv> 0xffffff0001200000"
abbreviation (input) HEAP_BLOCK_MAGIC :: u64 where "HEAP_BLOCK_MAGIC \<equiv> 0x424f52494e474850"
abbreviation (input) HEAP_STATE_FREE :: u64 where "HEAP_STATE_FREE \<equiv> 0x46524545424c4f43"
abbreviation (input) HEAP_STATE_USED :: u64 where "HEAP_STATE_USED \<equiv> 0x55534544424c4f43"
abbreviation (input) HEAP_GUARD_SEED :: u64 where "HEAP_GUARD_SEED \<equiv> 0x9e3779b97f4a7c15"
abbreviation (input) BLOCK_HEADER :: u64 where "BLOCK_HEADER \<equiv> 48"

record heap_block =
  hb_magic :: u64
  hb_size :: u64
  hb_prev :: u64
  hb_next :: u64
  hb_state :: u64
  hb_guard :: u64

record 'm heap_state =
  heap_first :: u64
  heap_mapped_pages :: u64
  heap_initialized :: bool
  heap_corrupted :: bool
  heap_blocks :: "u64 \<Rightarrow> heap_block"
  heap_machine :: 'm

text \<open>
  What the heap calls: \<open>vmm_translate\<close>, \<open>vmm_map_page\<close> (with the writable flag),
  \<open>vmm_unmap_page\<close>, \<open>pmm_alloc_frame\<close> and \<open>pmm_free_frame\<close> over the machine state \<open>'m\<close>.
\<close>

record 'm pager =
  pg_translate :: "u64 \<Rightarrow> 'm \<Rightarrow> u64 option"
  pg_map :: "u64 \<Rightarrow> u64 \<Rightarrow> 'm \<Rightarrow> bool \<times> 'm"
  pg_unmap :: "u64 \<Rightarrow> 'm \<Rightarrow> bool \<times> 'm"
  pg_alloc_frame :: "'m \<Rightarrow> u64 option \<times> 'm"
  pg_free_frame :: "u64 \<Rightarrow> 'm \<Rightarrow> bool \<times> 'm"

definition heap_reset_state :: "'m heap_state \<Rightarrow> 'm heap_state" where
  "heap_reset_state s = s\<lparr>heap_first := 0, heap_mapped_pages := 0, heap_initialized := False,
     heap_corrupted := False\<rparr>"

section \<open>Headers\<close>

definition heap_mapped_end :: "'m heap_state \<Rightarrow> u64 option" where
  "heap_mapped_end s =
     (if heap_mapped_pages s > HEAP_MAX_PAGES then None
      else let mapped_bytes = heap_mapped_pages s * HEAP_PAGE_SIZE in
        if HEAP_VIRTUAL_BASE > UINT64_MAX - mapped_bytes then None
        else let e = HEAP_VIRTUAL_BASE + mapped_bytes in
          if e \<le> HEAP_VIRTUAL_LIMIT then Some e else None)"

definition heap_guard_for :: "u64 \<Rightarrow> heap_block \<Rightarrow> u64" where
  "heap_guard_for address b =
     HEAP_GUARD_SEED XOR address XOR hb_size b XOR hb_prev b XOR hb_next b XOR hb_state b"

definition heap_refresh_block :: "u64 \<Rightarrow> 'm heap_state \<Rightarrow> 'm heap_state" where
  "heap_refresh_block a s = s\<lparr>heap_blocks := (heap_blocks s)(a :=
     (heap_blocks s a)\<lparr>hb_magic := HEAP_BLOCK_MAGIC, hb_guard := heap_guard_for a (heap_blocks s a)\<rparr>)\<rparr>"

definition set_block :: "u64 \<Rightarrow> (heap_block \<Rightarrow> heap_block) \<Rightarrow> 'm heap_state \<Rightarrow> 'm heap_state" where
  "set_block a f s = s\<lparr>heap_blocks := (heap_blocks s)(a := f (heap_blocks s a))\<rparr>"

definition heap_block_valid :: "u64 \<Rightarrow> 'm heap_state \<Rightarrow> bool" where
  "heap_block_valid block s = (if block = 0 then False else case heap_mapped_end s of
     None \<Rightarrow> False
   | Some mapped_end \<Rightarrow>
       let b = heap_blocks s block in
       if block < HEAP_VIRTUAL_BASE \<or> block > mapped_end - BLOCK_HEADER \<or> block AND (16 - 1) \<noteq> 0 then False
       else if hb_magic b \<noteq> HEAP_BLOCK_MAGIC \<or>
          (hb_state b \<noteq> HEAP_STATE_FREE \<and> hb_state b \<noteq> HEAP_STATE_USED) \<or>
          hb_size b < 16 \<or> hb_size b mod 16 \<noteq> 0 \<or> hb_guard b \<noteq> heap_guard_for block b then False
       else if block > UINT64_MAX - BLOCK_HEADER then False
       else let payload_address = block + BLOCK_HEADER in hb_size b \<le> mapped_end - payload_address)"

text \<open>The loop of \<open>heap_validate\<close>; each turn moves to a higher address.\<close>

function validate_from :: "'m heap_state \<Rightarrow> u64 \<Rightarrow> u64 \<Rightarrow> u64 \<Rightarrow> bool" where
  "validate_from s mapped_end current previous =
     (if current = 0 then True
      else if \<not> heap_block_valid current s \<or> hb_prev (heap_blocks s current) \<noteq> previous then False
      else if previous \<noteq> 0 \<and> (hb_next (heap_blocks s previous) \<noteq> current \<or>
         (hb_state (heap_blocks s previous) = HEAP_STATE_FREE \<and>
          hb_state (heap_blocks s current) = HEAP_STATE_FREE)) then False
      else
        let payload_address = current + BLOCK_HEADER;
            block_end = payload_address + hb_size (heap_blocks s current);
            next_block = hb_next (heap_blocks s current)
        in if next_block \<noteq> 0 then
             (if next_block \<noteq> block_end then False else validate_from s mapped_end next_block current)
           else if block_end \<noteq> mapped_end then False
           else validate_from s mapped_end next_block current)"
  by pat_completeness auto

lemma heap_mapped_end_unat:
  "heap_mapped_end s = Some e \<longleftrightarrow> unat (heap_mapped_pages s) \<le> 4096 \<and>
    unat e = 18446742974200020992 + 4096 * unat (heap_mapped_pages s)"
proof (cases "unat (heap_mapped_pages s) \<le> 4096")
  case True
  then have m: "unat (heap_mapped_pages s * 4096) = 4096 * unat (heap_mapped_pages s)"
    by (simp add: unat_mult_exact)
  then have b: "unat (HEAP_VIRTUAL_BASE + heap_mapped_pages s * 4096) =
      18446742974200020992 + 4096 * unat (heap_mapped_pages s)"
    using True by (simp add: unat_add_exact)
  have "heap_mapped_end s = Some (HEAP_VIRTUAL_BASE + heap_mapped_pages s * 4096)"
    using True m b by (simp add: heap_mapped_end_def Let_def word_less_nat_alt word_le_nat_alt unat_sub_if')
  then show ?thesis using True b by (auto simp: word_unat_eq_iff)
next
  case False
  then show ?thesis by (simp add: heap_mapped_end_def word_less_nat_alt)
qed

lemma heap_block_end:
  assumes "heap_block_valid block s" "heap_mapped_end s = Some e"
  shows "unat (block + 48 + hb_size (heap_blocks s block)) =
      unat block + 48 + unat (hb_size (heap_blocks s block))"
    and "unat block + 48 + unat (hb_size (heap_blocks s block)) \<le> unat e"
    and "18446742974200020992 \<le> unat block"
proof -
  have v: "HEAP_VIRTUAL_BASE \<le> block" "block \<le> e - 48" "block \<le> UINT64_MAX - 48"
    "hb_size (heap_blocks s block) \<le> e - (block + 48)"
    using assms by (auto simp: heap_block_valid_def Let_def not_less split: if_splits)
  have e: "18446742974200020992 \<le> unat e" using assms(2) by (simp add: heap_mapped_end_unat)
  have p: "unat (block + 48) = unat block + 48"
    using v(3) by (simp add: word_le_nat_alt unat_add_exact)
  have "unat (e - 48) = unat e - 48" using e by (simp add: unat_sub_exact word_le_nat_alt)
  then have le: "unat (block + 48) \<le> unat e" using v(2) p e by (simp add: word_le_nat_alt)
  then have "unat (e - (block + 48)) = unat e - unat (block + 48)"
    by (simp add: unat_sub_exact word_le_nat_alt)
  with v(4) le p show "unat block + 48 + unat (hb_size (heap_blocks s block)) \<le> unat e"
    by (simp add: word_le_nat_alt)
  then show "unat (block + 48 + hb_size (heap_blocks s block)) =
      unat block + 48 + unat (hb_size (heap_blocks s block))"
    using p unat_u64_less [of e] by (subst unat_add_exact) simp_all
  show "18446742974200020992 \<le> unat block" using v(1) by (simp add: word_le_nat_alt)
qed

lemma heap_block_valid_mapped: "heap_block_valid block s \<Longrightarrow> \<exists>e. heap_mapped_end s = Some e"
  by (auto simp: heap_block_valid_def split: if_splits option.splits)

termination validate_from
proof (relation "measure (\<lambda>(s, mapped_end, current, previous).
    if current = 0 then 0 else 18446744073709551616 - unat current)")
  show "wf (measure (\<lambda>(s :: 'm heap_state, mapped_end :: u64, current :: u64, previous :: u64).
      if current = 0 then 0 else 18446744073709551616 - unat current))" by simp
next
  fix s :: "'m heap_state" and mapped_end current previous payload block_end next_block :: u64
  assume *: "current \<noteq> 0" "\<not> (\<not> heap_block_valid current s \<or> hb_prev (heap_blocks s current) \<noteq> previous)"
    "payload = current + 48" "block_end = payload + hb_size (heap_blocks s current)"
    "next_block = hb_next (heap_blocks s current)" "next_block \<noteq> 0" "\<not> next_block \<noteq> block_end"
  then obtain e where "heap_mapped_end s = Some e" using heap_block_valid_mapped by blast
  with * heap_block_end(1) [of current s e] have "unat current < unat next_block" by simp
  with * unat_u64_less [of next_block]
  show "((s, mapped_end, next_block, current), s, mapped_end, current, previous) \<in> measure
      (\<lambda>(s, mapped_end, current, previous). if current = 0 then 0 else 18446744073709551616 - unat current)"
    by simp
next
  fix s :: "'m heap_state" and mapped_end current previous payload block_end next_block :: u64
  assume "current \<noteq> 0" "\<not> next_block \<noteq> 0"
  then show "((s, mapped_end, next_block, current), s, mapped_end, current, previous) \<in> measure
      (\<lambda>(s, mapped_end, current, previous). if current = 0 then 0 else 18446744073709551616 - unat current)"
    using unat_u64_less [of current] by simp
qed

declare validate_from.simps [simp del]

definition heap_validate :: "'m heap_state \<Rightarrow> bool" where
  "heap_validate s =
     (if \<not> heap_initialized s \<or> heap_corrupted s \<or> heap_first s = 0 \<or> heap_first s \<noteq> HEAP_VIRTUAL_BASE
      then False
      else case heap_mapped_end s of
        None \<Rightarrow> False
      | Some mapped_end \<Rightarrow> validate_from s mapped_end (heap_first s) 0)"

definition zero_block :: heap_block where
  "zero_block = \<lparr>hb_magic = 0, hb_size = 0, hb_prev = 0, hb_next = 0, hb_state = 0, hb_guard = 0\<rparr>"

definition heap_zero_page :: "u64 \<Rightarrow> 'm heap_state \<Rightarrow> 'm heap_state" where
  "heap_zero_page a s = s\<lparr>heap_blocks := (\<lambda>x. if unat a \<le> unat x \<and> unat x < unat a + 4096
     then zero_block else heap_blocks s x)\<rparr>"

section \<open>Growth\<close>

fun heap_rollback_initial_pages :: "'m pager \<Rightarrow> nat \<Rightarrow> u64 list \<Rightarrow> 'm \<Rightarrow> 'm" where
  "heap_rollback_initial_pages ops 0 frames mach = mach"
| "heap_rollback_initial_pages ops (Suc mapped_count) frames mach =
     (let virtual_address = HEAP_VIRTUAL_BASE + word_of_nat mapped_count * HEAP_PAGE_SIZE;
          mach = snd (pg_unmap ops virtual_address mach);
          mach = snd (pg_free_frame ops (frames ! mapped_count) mach)
      in heap_rollback_initial_pages ops mapped_count frames mach)"

partial_function (option) last_block_from :: "'m heap_state \<Rightarrow> u64 \<Rightarrow> u64 option" where
  "last_block_from s current =
     (if current \<noteq> 0 \<and> hb_next (heap_blocks s current) \<noteq> 0
      then last_block_from s (hb_next (heap_blocks s current)) else Some current)"

definition heap_last_block :: "'m heap_state \<Rightarrow> u64 option" where
  "heap_last_block s = last_block_from s (heap_first s)"

text \<open>The end of \<open>heap_grow_one_page\<close>, once the page is mapped: extend the tail or append a block.\<close>

definition heap_extend :: "u64 \<Rightarrow> u64 \<Rightarrow> 'm heap_state \<Rightarrow> bool \<times> 'm heap_state" where
  "heap_extend tail old_end s =
     (let s = heap_zero_page old_end s;
          s = s\<lparr>heap_mapped_pages := heap_mapped_pages s + 1\<rparr>;
          s = (if hb_state (heap_blocks s tail) = HEAP_STATE_FREE then
                 heap_refresh_block tail (set_block tail (\<lambda>b. b\<lparr>hb_size := hb_size b + HEAP_PAGE_SIZE\<rparr>) s)
               else
                 let s = set_block old_end (\<lambda>b. b\<lparr>hb_size := HEAP_PAGE_SIZE - BLOCK_HEADER,
                           hb_prev := tail, hb_next := 0, hb_state := HEAP_STATE_FREE\<rparr>) s;
                     s = heap_refresh_block old_end s;
                     s = set_block tail (\<lambda>b. b\<lparr>hb_next := old_end\<rparr>) s
                 in heap_refresh_block tail s)
      in if \<not> heap_validate s then (False, s\<lparr>heap_corrupted := True\<rparr>) else (True, s))"

definition heap_grow_one_page :: "'m pager \<Rightarrow> 'm heap_state \<Rightarrow> (bool \<times> 'm heap_state) option" where
  "heap_grow_one_page ops s =
     (if \<not> heap_validate s \<or> heap_mapped_pages s \<ge> HEAP_MAX_PAGES then Some (False, s)
      else case heap_mapped_end s of
        None \<Rightarrow> Some (False, s)
      | Some old_end \<Rightarrow>
          if old_end > HEAP_VIRTUAL_LIMIT - HEAP_PAGE_SIZE then Some (False, s)
          else case heap_last_block s of
            None \<Rightarrow> None
          | Some tail \<Rightarrow>
              if tail = 0 \<or> (hb_state (heap_blocks s tail) = HEAP_STATE_FREE \<and>
                 hb_size (heap_blocks s tail) > UINT64_MAX - HEAP_PAGE_SIZE) then Some (False, s)
              else if pg_translate ops old_end (heap_machine s) \<noteq> None then Some (False, s)
              else case pg_alloc_frame ops (heap_machine s) of
                (None, mach) \<Rightarrow> Some (False, s\<lparr>heap_machine := mach\<rparr>)
              | (Some physical_address, mach) \<Rightarrow> (case pg_map ops old_end physical_address mach of
                  (False, mach) \<Rightarrow>
                    Some (False, s\<lparr>heap_machine := snd (pg_free_frame ops physical_address mach)\<rparr>)
                | (True, mach) \<Rightarrow> Some (heap_extend tail old_end (s\<lparr>heap_machine := mach\<rparr>))))"

section \<open>Allocation\<close>

definition heap_align_request :: "u64 \<Rightarrow> u64 option" where
  "heap_align_request request =
     (if request = 0 \<or> request > UINT64_MAX - (16 - 1) then None
      else let aligned_size = (request + (16 - 1)) AND NOT (16 - 1)
           in if aligned_size \<ge> 16 then Some aligned_size else None)"

partial_function (option) find_fit_from :: "'m heap_state \<Rightarrow> u64 \<Rightarrow> u64 \<Rightarrow> u64 option" where
  "find_fit_from s aligned_size current =
     (if current = 0 then Some 0
      else if hb_state (heap_blocks s current) = HEAP_STATE_FREE \<and>
              hb_size (heap_blocks s current) \<ge> aligned_size then Some current
      else find_fit_from s aligned_size (hb_next (heap_blocks s current)))"

definition heap_find_fit :: "u64 \<Rightarrow> 'm heap_state \<Rightarrow> u64 option" where
  "heap_find_fit aligned_size s = find_fit_from s aligned_size (heap_first s)"

definition heap_split :: "u64 \<Rightarrow> u64 \<Rightarrow> 'm heap_state \<Rightarrow> 'm heap_state" where
  "heap_split block aligned_size s =
     (let old_next = hb_next (heap_blocks s block);
          new_block = block + BLOCK_HEADER + aligned_size;
          new_size = hb_size (heap_blocks s block) - aligned_size - BLOCK_HEADER;
          s = set_block new_block (\<lambda>b. b\<lparr>hb_size := new_size, hb_prev := block, hb_next := old_next,
                hb_state := HEAP_STATE_FREE\<rparr>) s;
          s = heap_refresh_block new_block s;
          s = (if old_next \<noteq> 0 then
                 heap_refresh_block old_next (set_block old_next (\<lambda>b. b\<lparr>hb_prev := new_block\<rparr>) s)
               else s);
          s = set_block block (\<lambda>b. b\<lparr>hb_size := aligned_size, hb_next := new_block,
                hb_state := HEAP_STATE_USED\<rparr>) s
      in heap_refresh_block block s)"

definition heap_allocate_from_block :: "u64 \<Rightarrow> u64 \<Rightarrow> 'm heap_state \<Rightarrow> u64 \<times> 'm heap_state" where
  "heap_allocate_from_block block aligned_size s =
     (if \<not> heap_block_valid block s \<or> hb_state (heap_blocks s block) \<noteq> HEAP_STATE_FREE \<or>
         hb_size (heap_blocks s block) < aligned_size then (0, s)
      else
        let payload_address = block + BLOCK_HEADER;
            split_threshold = (if aligned_size \<le> UINT64_MAX - BLOCK_HEADER - 16
              then aligned_size + BLOCK_HEADER + 16 else UINT64_MAX);
            s = (if hb_size (heap_blocks s block) \<ge> split_threshold then heap_split block aligned_size s
                 else heap_refresh_block block (set_block block (\<lambda>b. b\<lparr>hb_state := HEAP_STATE_USED\<rparr>) s))
        in if \<not> heap_validate s then (0, s\<lparr>heap_corrupted := True\<rparr>) else (payload_address, s))"

definition heap_merge_with_next :: "u64 \<Rightarrow> 'm heap_state \<Rightarrow> bool \<times> 'm heap_state" where
  "heap_merge_with_next left s =
     (if \<not> heap_block_valid left s \<or> hb_state (heap_blocks s left) \<noteq> HEAP_STATE_FREE \<or>
         hb_next (heap_blocks s left) = 0 then (False, s)
      else
        let right = hb_next (heap_blocks s left) in
        if \<not> heap_block_valid right s \<or> hb_state (heap_blocks s right) \<noteq> HEAP_STATE_FREE \<or>
           hb_prev (heap_blocks s right) \<noteq> left \<or>
           hb_size (heap_blocks s left) > UINT64_MAX - BLOCK_HEADER \<or>
           hb_size (heap_blocks s left) + BLOCK_HEADER > UINT64_MAX - hb_size (heap_blocks s right)
        then (False, s)
        else
          let combined_size = hb_size (heap_blocks s left) + BLOCK_HEADER + hb_size (heap_blocks s right);
              successor = hb_next (heap_blocks s right);
              s = set_block left (\<lambda>b. b\<lparr>hb_size := combined_size, hb_next := successor\<rparr>) s;
              s = (if successor \<noteq> 0 then
                     heap_refresh_block successor (set_block successor (\<lambda>b. b\<lparr>hb_prev := left\<rparr>) s)
                   else s);
              s = heap_refresh_block left s
          in (True, set_block right (\<lambda>_. zero_block) s))"

text \<open>The loop of \<open>heap_init\<close> that maps the initial pages; \<open>Inl\<close> is its failing return.\<close>

definition map_initial_page ::
  "'m pager \<Rightarrow> nat \<Rightarrow> u64 list \<times> 'm heap_state \<Rightarrow> 'm heap_state + u64 list \<times> 'm heap_state" where
  "map_initial_page ops index st = (case st of (frames, s) \<Rightarrow>
     let virtual_address = HEAP_VIRTUAL_BASE + word_of_nat index * HEAP_PAGE_SIZE;
         rollback = (\<lambda>mach. s\<lparr>heap_machine := heap_rollback_initial_pages ops (length frames) frames mach\<rparr>) in
     if pg_translate ops virtual_address (heap_machine s) \<noteq> None then Inl (rollback (heap_machine s))
     else case pg_alloc_frame ops (heap_machine s) of
       (None, mach) \<Rightarrow> Inl (rollback mach)
     | (Some physical_address, mach) \<Rightarrow> (case pg_map ops virtual_address physical_address mach of
         (False, mach) \<Rightarrow> Inl (rollback (snd (pg_free_frame ops physical_address mach)))
       | (True, mach) \<Rightarrow>
           Inr (frames @ [physical_address], heap_zero_page virtual_address (s\<lparr>heap_machine := mach\<rparr>))))"

definition heap_init :: "'m pager \<Rightarrow> 'm heap_state \<Rightarrow> bool \<times> 'm heap_state" where
  "heap_init ops s =
     (let s = heap_reset_state s in
      if HEAP_VIRTUAL_BASE AND (HEAP_PAGE_SIZE - 1) \<noteq> 0 \<or> HEAP_VIRTUAL_LIMIT AND (HEAP_PAGE_SIZE - 1) \<noteq> 0 \<or>
         HEAP_VIRTUAL_LIMIT \<le> HEAP_VIRTUAL_BASE \<or> 2 > HEAP_MAX_PAGES \<or> HEAP_PAGE_SIZE \<le> BLOCK_HEADER
      then (False, s)
      else case for_each [0..<2] (map_initial_page ops) ([], s) of
        Inl s \<Rightarrow> (False, s)
      | Inr (frames, s) \<Rightarrow>
          let s = s\<lparr>heap_mapped_pages := word_of_nat (length frames), heap_first := HEAP_VIRTUAL_BASE\<rparr>;
              s = set_block HEAP_VIRTUAL_BASE (\<lambda>b. b\<lparr>
                    hb_size := heap_mapped_pages s * HEAP_PAGE_SIZE - BLOCK_HEADER,
                    hb_prev := 0, hb_next := 0, hb_state := HEAP_STATE_FREE\<rparr>) s;
              s = heap_refresh_block HEAP_VIRTUAL_BASE s;
              s = s\<lparr>heap_initialized := True\<rparr>
          in if \<not> heap_validate s then (False, s\<lparr>heap_corrupted := True\<rparr>) else (True, s))"

text \<open>The loop of \<open>kmalloc\<close> that grows the heap until a block fits; block 0 is giving up.\<close>

partial_function (option) grow_until_fit ::
  "'m pager \<Rightarrow> u64 \<Rightarrow> 'm heap_state \<Rightarrow> (u64 \<times> 'm heap_state) option" where
  "grow_until_fit ops aligned_size s = (case heap_find_fit aligned_size s of
     None \<Rightarrow> None
   | Some block \<Rightarrow>
       if block \<noteq> 0 then Some (block, s)
       else case heap_grow_one_page ops s of
         None \<Rightarrow> None
       | Some (grown, s') \<Rightarrow> if grown then grow_until_fit ops aligned_size s' else Some (0, s'))"

definition kmalloc :: "'m pager \<Rightarrow> u64 \<Rightarrow> 'm heap_state \<Rightarrow> (u64 \<times> 'm heap_state) option" where
  "kmalloc ops request s =
     (if \<not> heap_initialized s \<or> heap_corrupted s then Some (0, s)
      else case heap_align_request request of
        None \<Rightarrow> Some (0, s)
      | Some aligned_size \<Rightarrow>
          if aligned_size > HEAP_REGION_SIZE - BLOCK_HEADER then Some (0, s)
          else if \<not> heap_validate s then Some (0, s\<lparr>heap_corrupted := True\<rparr>)
          else case grow_until_fit ops aligned_size s of
            None \<Rightarrow> None
          | Some (block, s) \<Rightarrow>
              if block = 0 then Some (0, s) else Some (heap_allocate_from_block block aligned_size s))"

section \<open>Release\<close>

text \<open>What \<open>kfree\<close> does with the block it found.\<close>

definition free_block :: "u64 \<Rightarrow> 'm heap_state \<Rightarrow> bool \<times> 'm heap_state" where
  "free_block current s =
     (if hb_state (heap_blocks s current) \<noteq> HEAP_STATE_USED then (False, s)
      else
        let s = heap_refresh_block current (set_block current (\<lambda>b. b\<lparr>hb_state := HEAP_STATE_FREE\<rparr>) s);
            next_block = hb_next (heap_blocks s current);
            (ok, s) = (if next_block \<noteq> 0 \<and> hb_state (heap_blocks s next_block) = HEAP_STATE_FREE
                       then heap_merge_with_next current s else (True, s))
        in if \<not> ok then (False, s\<lparr>heap_corrupted := True\<rparr>)
           else
             let previous = hb_prev (heap_blocks s current);
                 (ok, s) = (if previous \<noteq> 0 \<and> hb_state (heap_blocks s previous) = HEAP_STATE_FREE
                            then heap_merge_with_next previous s else (True, s))
             in if \<not> ok then (False, s\<lparr>heap_corrupted := True\<rparr>)
                else if \<not> heap_validate s then (False, s\<lparr>heap_corrupted := True\<rparr>)
                else (True, s))"

partial_function (option) find_payload_from :: "'m heap_state \<Rightarrow> u64 \<Rightarrow> u64 \<Rightarrow> u64 option" where
  "find_payload_from s pointer_address current =
     (if current = 0 then Some 0
      else if current + BLOCK_HEADER = pointer_address then Some current
      else find_payload_from s pointer_address (hb_next (heap_blocks s current)))"

definition kfree :: "u64 \<Rightarrow> 'm heap_state \<Rightarrow> (bool \<times> 'm heap_state) option" where
  "kfree ptr s =
     (if \<not> heap_initialized s \<or> heap_corrupted s \<or> ptr = 0 then Some (False, s)
      else case heap_mapped_end s of
        None \<Rightarrow> Some (False, s)
      | Some mapped_end \<Rightarrow>
          if ptr < HEAP_VIRTUAL_BASE + BLOCK_HEADER \<or> ptr \<ge> mapped_end \<or> ptr AND (16 - 1) \<noteq> 0
          then Some (False, s)
          else if \<not> heap_validate s then Some (False, s\<lparr>heap_corrupted := True\<rparr>)
          else case find_payload_from s ptr (heap_first s) of
            None \<Rightarrow> None
          | Some current \<Rightarrow> if current = 0 then Some (False, s) else Some (free_block current s))"

section \<open>Statistics\<close>

record heap_stats =
  hs_virtual_base :: u64
  hs_virtual_limit :: u64
  hs_mapped_pages :: u64
  hs_mapped_bytes :: u64
  hs_used_bytes :: u64
  hs_free_bytes :: u64
  hs_allocation_count :: u64

partial_function (option) sum_from ::
  "'m heap_state \<Rightarrow> u64 \<Rightarrow> u64 \<Rightarrow> u64 \<Rightarrow> u64 \<Rightarrow> (u64 \<times> u64 \<times> u64) option" where
  "sum_from s current used_bytes free_bytes allocation_count =
     (if current = 0 then Some (used_bytes, free_bytes, allocation_count)
      else if hb_state (heap_blocks s current) = HEAP_STATE_USED then
        sum_from s (hb_next (heap_blocks s current)) (used_bytes + hb_size (heap_blocks s current))
          free_bytes (allocation_count + 1)
      else
        sum_from s (hb_next (heap_blocks s current)) used_bytes
          (free_bytes + hb_size (heap_blocks s current)) allocation_count)"

text \<open>The outer \<open>None\<close> is not returning, the inner one the return of false.\<close>

definition heap_get_stats :: "'m heap_state \<Rightarrow> (heap_stats option \<times> 'm heap_state) option" where
  "heap_get_stats s =
     (if \<not> heap_initialized s \<or> heap_corrupted s then Some (None, s)
      else if \<not> heap_validate s then Some (None, s\<lparr>heap_corrupted := True\<rparr>)
      else case sum_from s (heap_first s) 0 0 0 of
        None \<Rightarrow> None
      | Some (used_bytes, free_bytes, allocation_count) \<Rightarrow>
          Some (Some \<lparr>hs_virtual_base = HEAP_VIRTUAL_BASE, hs_virtual_limit = HEAP_VIRTUAL_LIMIT,
            hs_mapped_pages = heap_mapped_pages s,
            hs_mapped_bytes = heap_mapped_pages s * HEAP_PAGE_SIZE, hs_used_bytes = used_bytes,
            hs_free_bytes = free_bytes, hs_allocation_count = allocation_count\<rparr>, s))"

end
