(* ===== verification/HeapRefine.thy ===== *)
theory HeapRefine
  imports Heap
begin

text \<open>
  The abstract heap is a list of blocks \<open>(address, size, used)\<close> that tile the
  mapped region (\<open>tiled\<close>), with the headers linked in that order (\<open>seg\<close>) and no
  two free neighbours. \<open>heap_validate\<close> accepts exactly the states that have such a
  list; \<open>kmalloc\<close> and \<open>kfree\<close> always return and act on it as insertion into and
  removal from the set of used blocks. The contract is the locale \<open>block_allocator\<close>.
\<close>

section \<open>Block lists\<close>

type_synonym block_list = "(u64 \<times> nat \<times> bool) list"

definition mk_block :: "u64 \<Rightarrow> u64 \<Rightarrow> u64 \<Rightarrow> u64 \<Rightarrow> u64 \<Rightarrow> heap_block" where
  "mk_block a sz p q st = \<lparr>hb_magic = HEAP_BLOCK_MAGIC, hb_size = sz, hb_prev = p, hb_next = q,
     hb_state = st, hb_guard = HEAP_GUARD_SEED XOR a XOR sz XOR p XOR q XOR st\<rparr>"

definition state_word :: "bool \<Rightarrow> u64" where
  "state_word u = (if u then HEAP_STATE_USED else HEAP_STATE_FREE)"

lemma state_word_simps [simp]:
  "state_word u = HEAP_STATE_FREE \<longleftrightarrow> \<not> u" "state_word u = HEAP_STATE_USED \<longleftrightarrow> u"
  "state_word True = HEAP_STATE_USED" "state_word False = HEAP_STATE_FREE"
  by (simp_all add: state_word_def)

definition first_addr :: "u64 \<Rightarrow> block_list \<Rightarrow> u64" where
  "first_addr q bs = (case bs of [] \<Rightarrow> q | b # _ \<Rightarrow> fst b)"

definition last_addr :: "u64 \<Rightarrow> block_list \<Rightarrow> u64" where
  "last_addr p bs = (if bs = [] then p else fst (last bs))"

fun seg :: "(u64 \<Rightarrow> heap_block) \<Rightarrow> u64 \<Rightarrow> u64 \<Rightarrow> block_list \<Rightarrow> bool" where
  "seg B p q [] = True"
| "seg B p q ((a, n, u) # bs) =
     (B a = mk_block a (word_of_nat n) p (first_addr q bs) (state_word u) \<and> seg B a q bs)"

fun tiled :: "nat \<Rightarrow> block_list \<Rightarrow> nat \<Rightarrow> bool" where
  "tiled lo [] hi = (lo = hi)"
| "tiled lo ((a, n, u) # bs) hi = (unat a = lo \<and> 16 \<le> n \<and> 16 dvd n \<and> tiled (lo + 48 + n) bs hi)"

abbreviation no_free_pair :: "block_list \<Rightarrow> bool" where
  "no_free_pair \<equiv> successively (\<lambda>x y. snd (snd x) \<or> snd (snd y))"

abbreviation (input) BASE :: nat where "BASE \<equiv> 18446742974200020992"

text \<open>The layout without the condition on free neighbours, which \<open>kfree\<close> breaks for a moment.\<close>

definition heap_layout :: "'m heap_state \<Rightarrow> block_list \<Rightarrow> bool" where
  "heap_layout s bs \<longleftrightarrow> heap_initialized s \<and> \<not> heap_corrupted s \<and> heap_first s = HEAP_VIRTUAL_BASE \<and>
     unat (heap_mapped_pages s) \<le> 4096 \<and> bs \<noteq> [] \<and>
     tiled BASE bs (BASE + 4096 * unat (heap_mapped_pages s)) \<and> seg (heap_blocks s) 0 0 bs"

definition heap_wf :: "'m heap_state \<Rightarrow> block_list \<Rightarrow> bool" where
  "heap_wf s bs \<longleftrightarrow> heap_layout s bs \<and> no_free_pair bs"

lemma mk_block_fields [simp]:
  "hb_magic (mk_block a sz p q st) = HEAP_BLOCK_MAGIC" "hb_size (mk_block a sz p q st) = sz"
  "hb_prev (mk_block a sz p q st) = p" "hb_next (mk_block a sz p q st) = q"
  "hb_state (mk_block a sz p q st) = st"
  "hb_guard (mk_block a sz p q st) = heap_guard_for a (mk_block a sz p q st)"
  by (simp_all add: mk_block_def heap_guard_for_def)

lemma refresh_blocks [simp]:
  "heap_blocks (heap_refresh_block a s) = (heap_blocks s)(a := mk_block a (hb_size (heap_blocks s a))
     (hb_prev (heap_blocks s a)) (hb_next (heap_blocks s a)) (hb_state (heap_blocks s a)))"
  by (cases "heap_blocks s a") (simp add: heap_refresh_block_def mk_block_def heap_guard_for_def)

lemma set_block_blocks [simp]: "heap_blocks (set_block a f s) = (heap_blocks s)(a := f (heap_blocks s a))"
  by (simp add: set_block_def)

lemma set_block_other [simp]:
  "heap_first (set_block a f s) = heap_first s" "heap_mapped_pages (set_block a f s) = heap_mapped_pages s"
  "heap_initialized (set_block a f s) = heap_initialized s" "heap_corrupted (set_block a f s) = heap_corrupted s"
  "heap_machine (set_block a f s) = heap_machine s"
  by (simp_all add: set_block_def)

lemma refresh_other [simp]:
  "heap_first (heap_refresh_block a s) = heap_first s"
  "heap_mapped_pages (heap_refresh_block a s) = heap_mapped_pages s"
  "heap_initialized (heap_refresh_block a s) = heap_initialized s"
  "heap_corrupted (heap_refresh_block a s) = heap_corrupted s"
  "heap_machine (heap_refresh_block a s) = heap_machine s"
  by (simp_all add: heap_refresh_block_def)

lemma first_addr_simps [simp]: "first_addr q [] = q" "first_addr q ((a, n, u) # bs) = a"
  by (simp_all add: first_addr_def)

lemma first_addr_append: "first_addr q (xs @ ys) = first_addr (first_addr q ys) xs"
  by (cases xs) (simp_all add: first_addr_def)

lemma last_addr_simps [simp]: "last_addr p [] = p" "last_addr p ((a, n, u) # bs) = last_addr a bs"
  "last_addr p (xs @ [(a, n, u)]) = a"
  by (auto simp: last_addr_def)

lemma seg_append: "seg B p q (xs @ ys) \<longleftrightarrow> seg B p (first_addr q ys) xs \<and> seg B (last_addr p xs) q ys"
  by (induction xs arbitrary: p) (auto simp: first_addr_append)

lemma seg_cong: "(\<And>x. x \<in> fst ` set bs \<Longrightarrow> B x = C x) \<Longrightarrow> seg B p q bs = seg C p q bs"
  by (induction bs arbitrary: p) auto

lemma seg_upd [simp]: "a \<notin> fst ` set bs \<Longrightarrow> seg (B(a := b)) p q bs = seg B p q bs"
  by (rule seg_cong) auto

lemma tiled_append: "tiled lo (xs @ ys) hi \<longleftrightarrow> (\<exists>mid. tiled lo xs mid \<and> tiled mid ys hi)"
  by (induction xs arbitrary: lo) auto

lemma tiled_le: "tiled lo bs hi \<Longrightarrow> lo \<le> hi"
  by (induction bs arbitrary: lo) fastforce+

lemma tiled_bounds: "tiled lo bs hi \<Longrightarrow> (a, n, u) \<in> set bs \<Longrightarrow>
    lo \<le> unat a \<and> unat a + 48 + n \<le> hi \<and> 16 \<le> n \<and> 16 dvd n"
proof (induction bs arbitrary: lo)
  case Nil
  then show ?case by simp
next
  case (Cons b bs)
  then show ?case using tiled_le by (cases b) fastforce
qed

lemma tiled_aligned: "tiled lo bs hi \<Longrightarrow> 16 dvd lo \<Longrightarrow> (a, n, u) \<in> set bs \<Longrightarrow> 16 dvd unat a"
  by (induction bs arbitrary: lo) (auto intro: dvd_add)

lemma tiled_distinct: "tiled lo bs hi \<Longrightarrow> distinct (map fst bs)"
proof (induction bs arbitrary: lo)
  case Nil
  then show ?case by simp
next
  case (Cons b bs)
  obtain a n u where b: "b = (a, n, u)" by (cases b)
  have "a \<notin> fst ` set bs"
  proof
    assume "a \<in> fst ` set bs"
    then obtain m v where "(a, m, v) \<in> set bs" by auto
    with tiled_bounds [of "lo + 48 + n" bs hi] Cons.prems b show False by fastforce
  qed
  with Cons.IH [of "lo + 48 + n"] Cons.prems b show ?case by simp
qed

lemma and_fifteen: "(a :: u64) AND 15 = 0 \<longleftrightarrow> 16 dvd unat a"
proof -
  have "a AND 15 = take_bit 4 a" by (simp add: take_bit_eq_mask mask_eq_exp_minus_1)
  also have "\<dots> = a mod 16" by (simp add: take_bit_eq_mod)
  finally have "unat (a AND 15) = unat a mod 16" by (simp add: unat_mod)
  then show ?thesis by (metis dvd_eq_mod_eq_0 unat_eq_zero)
qed

lemma block_valid:
  assumes "heap_blocks s a = mk_block a (word_of_nat n) p q (state_word u)" "heap_mapped_end s = Some e"
    and "BASE \<le> unat a" "unat a + 48 + n \<le> unat e" "16 \<le> n" "16 dvd n" "16 dvd unat a"
  shows "heap_block_valid a s"
proof -
  have n: "unat (word_of_nat n :: u64) = n"
    using assms(4) unat_u64_less [of e] by (simp add: unat_of_nat)
  have p: "unat (a + 48) = unat a + 48"
    using assms(4) unat_u64_less [of e] by (simp add: unat_add_exact)
  have "unat (e - 48) = unat e - 48" "unat (e - (a + 48)) = unat e - unat (a + 48)"
    using assms(4) p by (simp_all add: unat_sub_exact word_le_nat_alt)
  moreover have "unat a \<le> unat e - 48" "n \<le> unat e - (unat a + 48)" using assms(4) by linarith+
  moreover have "a \<noteq> 0" using assms(3) by auto
  moreover have "word_of_nat n mod 16 = (0 :: u64)"
    using assms(6) n by (simp add: word_unat_eq_iff unat_mod)
  ultimately show ?thesis
    using assms(2-5,7) n p unat_u64_less [of e]
    by (simp add: heap_block_valid_def Let_def assms(1) word_less_nat_alt word_le_nat_alt not_less
        and_fifteen unat_sub_if')
qed

lemma layout_mapped_end:
  "heap_layout s bs \<Longrightarrow> \<exists>e. heap_mapped_end s = Some e \<and> unat e = BASE + 4096 * unat (heap_mapped_pages s)"
proof -
  assume "heap_layout s bs"
  then have "unat (heap_mapped_pages s) \<le> 4096" by (simp add: heap_layout_def)
  then have "unat (word_of_nat (BASE + 4096 * unat (heap_mapped_pages s)) :: u64) =
      BASE + 4096 * unat (heap_mapped_pages s)"
    by (simp add: unat_of_nat del: of_nat_add of_nat_mult)
  with \<open>unat (heap_mapped_pages s) \<le> 4096\<close> show ?thesis
    by (intro exI [of _ "word_of_nat (BASE + 4096 * unat (heap_mapped_pages s))"])
      (simp add: heap_mapped_end_unat del: of_nat_add of_nat_mult)
qed

lemma seg_member:
  "seg B p q bs \<Longrightarrow> (a, n, u) \<in> set bs \<Longrightarrow> \<exists>p' q'. B a = mk_block a (word_of_nat n) p' q' (state_word u)"
proof (induction bs arbitrary: p)
  case Nil
  then show ?case by simp
next
  case (Cons b bs)
  then show ?case by (cases b) auto
qed

lemma layout_block:
  assumes "heap_layout s bs" "(a, n, u) \<in> set bs"
  shows "heap_block_valid a s" "BASE \<le> unat a" "unat a + 48 + n \<le> BASE + 4096 * unat (heap_mapped_pages s)"
    and "16 \<le> n" "16 dvd n" "16 dvd unat a" "a \<noteq> 0" "n < 16777216"
proof -
  obtain e where e: "heap_mapped_end s = Some e" "unat e = BASE + 4096 * unat (heap_mapped_pages s)"
    using layout_mapped_end [OF assms(1)] by blast
  have t: "tiled BASE bs (BASE + 4096 * unat (heap_mapped_pages s))" and sg: "seg (heap_blocks s) 0 0 bs"
    and pages: "unat (heap_mapped_pages s) \<le> 4096"
    using assms(1) by (simp_all add: heap_layout_def)
  show b: "BASE \<le> unat a" "unat a + 48 + n \<le> BASE + 4096 * unat (heap_mapped_pages s)" "16 \<le> n" "16 dvd n"
    using tiled_bounds [OF t assms(2)] by auto
  show al: "16 dvd unat a" using tiled_aligned [OF t _ assms(2)] by simp
  show "a \<noteq> 0" using b(1) by auto
  show "n < 16777216" using b pages by linarith
  obtain p q where "heap_blocks s a = mk_block a (word_of_nat n) p q (state_word u)"
    using seg_member [OF sg assms(2)] by blast
  from block_valid [OF this e(1)] b al e(2) show "heap_block_valid a s" by simp
qed

section \<open>\<open>heap_validate\<close> decides the invariant\<close>

lemma validate_from_complete:
  assumes "heap_layout s bs" "heap_mapped_end s = Some e" "unat e = BASE + 4096 * unat (heap_mapped_pages s)"
    and "bs = xs @ ys" "seg (heap_blocks s) p 0 ys" "tiled lo ys (unat e)" "no_free_pair ys"
    and "p = 0 \<or> (hb_next (heap_blocks s p) = first_addr 0 ys \<and>
      (case ys of [] \<Rightarrow> True | y # _ \<Rightarrow> hb_state (heap_blocks s p) = HEAP_STATE_FREE \<longrightarrow> snd (snd y)))"
  shows "validate_from s e (first_addr 0 ys) p"
  using assms(4-8)
proof (induction ys arbitrary: xs p lo)
  case Nil
  then show ?case by (simp add: validate_from.simps)
next
  case (Cons y ys)
  obtain a n u where y: "y = (a, n, u)" by (cases y)
  note blk = layout_block [OF assms(1), of a n u]
  have mem: "(a, n, u) \<in> set bs" using Cons.prems(1) y by simp
  have cell: "heap_blocks s a = mk_block a (word_of_nat n) p (first_addr 0 ys) (state_word u)"
    and rest: "seg (heap_blocks s) a 0 ys" and tl: "tiled (lo + 48 + n) ys (unat e)" and lo: "unat a = lo"
    using Cons.prems y by auto
  have n: "unat (word_of_nat n :: u64) = n" using blk(8) [OF mem] by (simp add: unat_of_nat)
  have be: "unat (a + 48 + word_of_nat n) = lo + 48 + n"
    using heap_block_end(1) [OF blk(1) [OF mem] assms(2)] cell n lo by simp
  have IH: "validate_from s e (first_addr 0 ys) a"
    using Cons.prems(4) y cell
    by (intro Cons.IH [of "xs @ [y]" a, OF _ rest tl]) (auto simp: Cons.prems(1) successively_Cons split: list.splits)
  have link: "p \<noteq> 0 \<Longrightarrow> hb_next (heap_blocks s p) = a \<and> (hb_state (heap_blocks s p) = HEAP_STATE_FREE \<longrightarrow> u)"
    using Cons.prems(5) y by auto
  show ?case
  proof (cases ys)
    case Nil
    then have "a + 48 + word_of_nat n = e" using tl be by (simp add: word_unat_eq_iff)
    then show ?thesis
      using blk(1,7) [OF mem] cell link IH y Nil
      by (subst validate_from.simps) (auto simp: Let_def)
  next
    case (Cons z zs)
    obtain b m v where z: "z = (b, m, v)" by (cases z)
    have "b = a + 48 + word_of_nat n" using tl Cons z be by (simp add: word_unat_eq_iff)
    moreover have "b \<noteq> 0" using layout_block(7) [OF assms(1), of b m v] Cons.prems(1) Cons z by simp
    ultimately show ?thesis
      using blk(1,7) [OF mem] cell link IH y Cons z
      by (subst validate_from.simps) (auto simp: Let_def)
  qed
qed

lemma validate_from_sound:
  assumes "validate_from s e cur p" "cur \<noteq> 0" "heap_mapped_end s = Some e"
  shows "\<exists>ys. ys \<noteq> [] \<and> first_addr 0 ys = cur \<and> tiled (unat cur) ys (unat e) \<and> seg (heap_blocks s) p 0 ys \<and>
    no_free_pair ys \<and> (p \<noteq> 0 \<longrightarrow> hb_state (heap_blocks s p) = HEAP_STATE_FREE \<longrightarrow> snd (snd (hd ys)))"
  using assms
proof (induction s e cur p rule: validate_from.induct)
  case (1 s e cur p)
  let ?b = "heap_blocks s cur"
  from 1(3,4) have valid: "heap_block_valid cur s" and prev: "hb_prev ?b = p"
    and link: "p \<noteq> 0 \<Longrightarrow> hb_state (heap_blocks s p) = HEAP_STATE_FREE \<Longrightarrow> hb_state ?b \<noteq> HEAP_STATE_FREE"
    by (auto simp: validate_from.simps [of s e cur] split: if_splits)
  note be = heap_block_end [OF valid 1(5)]
  define u where "u \<longleftrightarrow> hb_state ?b = HEAP_STATE_USED"
  have fields: "hb_magic ?b = HEAP_BLOCK_MAGIC" "hb_state ?b = state_word u" "16 \<le> hb_size ?b" "hb_size ?b mod 16 = 0"
    "hb_guard ?b = heap_guard_for cur ?b"
    using valid by (auto simp: heap_block_valid_def Let_def u_def state_word_def not_less split: if_splits option.splits)
  have cell: "?b = mk_block cur (word_of_nat (unat (hb_size ?b))) p (hb_next ?b) (state_word u)"
    using fields prev by (cases ?b) (simp add: mk_block_def heap_guard_for_def)
  have sz: "16 \<le> unat (hb_size ?b)" "16 dvd unat (hb_size ?b)"
    using fields(3,4) by (simp_all add: word_le_nat_alt word_unat_eq_iff unat_mod dvd_eq_mod_eq_0)
  show ?case
  proof (cases "hb_next ?b = 0")
    case True
    then have "cur + 48 + hb_size ?b = e"
      using 1(3,4) by (subst (asm) validate_from.simps) (simp add: Let_def split: if_splits)
    then have "unat cur + 48 + unat (hb_size ?b) = unat e" using be(1) by simp
    then show ?thesis
      using cell sz True link fields(2)
      by (intro exI [of _ "[(cur, unat (hb_size ?b), u)]"]) auto
  next
    case False
    have next_eq: "hb_next ?b = cur + 48 + hb_size ?b" and rec: "validate_from s e (hb_next ?b) cur"
      using 1(3,4) False by (subst (asm) validate_from.simps; simp add: Let_def split: if_splits)+
    have "\<exists>ys. ys \<noteq> [] \<and> first_addr 0 ys = hb_next ?b \<and> tiled (unat (hb_next ?b)) ys (unat e) \<and>
        seg (heap_blocks s) cur 0 ys \<and> no_free_pair ys \<and>
        (cur \<noteq> 0 \<longrightarrow> hb_state ?b = HEAP_STATE_FREE \<longrightarrow> snd (snd (hd ys)))"
      using 1(1) [OF 1(4) _ _ refl refl refl False _ rec False 1(5)] valid prev link next_eq 1(3,4)
      by (auto simp: validate_from.simps [of s e cur] split: if_splits)
    then obtain ys where ys: "ys \<noteq> []" "first_addr 0 ys = hb_next ?b" "tiled (unat (hb_next ?b)) ys (unat e)"
      "seg (heap_blocks s) cur 0 ys" "no_free_pair ys" "hb_state ?b = HEAP_STATE_FREE \<Longrightarrow> snd (snd (hd ys))"
      using 1(4) by blast
    have "no_free_pair ((cur, unat (hb_size ?b), u) # ys)"
      using ys(1,5,6) fields(2) by (cases ys) auto
    moreover have "tiled (unat cur) ((cur, unat (hb_size ?b), u) # ys) (unat e)"
      using ys(3) next_eq be(1) sz by simp
    ultimately show ?thesis
      using ys(2,4) cell link fields(2)
      by (intro exI [of _ "(cur, unat (hb_size ?b), u) # ys"]) auto
  qed
qed

lemma heap_validate_wf: "heap_wf s bs \<Longrightarrow> heap_validate s"
proof -
  assume wf: "heap_wf s bs"
  then have lay: "heap_layout s bs" and nf: "no_free_pair bs" by (simp_all add: heap_wf_def)
  obtain e where e: "heap_mapped_end s = Some e" "unat e = BASE + 4096 * unat (heap_mapped_pages s)"
    using layout_mapped_end [OF lay] by blast
  have "tiled BASE bs (unat e)" "seg (heap_blocks s) 0 0 bs" using lay e(2) by (simp_all add: heap_layout_def)
  then have "validate_from s e (first_addr 0 bs) 0" using nf
    by (intro validate_from_complete [OF lay e, of "[]" bs]) auto
  moreover have "first_addr 0 bs = heap_first s"
    using lay by (cases bs) (auto simp: heap_layout_def word_unat_eq_iff)
  ultimately show ?thesis using lay e by (simp add: heap_validate_def heap_layout_def)
qed

lemma heap_validate_iff: "heap_validate s \<longleftrightarrow> (\<exists>bs. heap_wf s bs)"
proof
  assume v: "heap_validate s"
  then obtain e where e: "heap_mapped_end s = Some e" and run: "validate_from s e HEAP_VIRTUAL_BASE 0"
    and st: "heap_initialized s" "\<not> heap_corrupted s" "heap_first s = HEAP_VIRTUAL_BASE"
    by (auto simp: heap_validate_def split: if_splits option.splits)
  from e have ev: "unat (heap_mapped_pages s) \<le> 4096" "unat e = BASE + 4096 * unat (heap_mapped_pages s)"
    by (simp_all add: heap_mapped_end_unat)
  from validate_from_sound [OF run _ e] obtain ys where "ys \<noteq> []" "tiled BASE ys (unat e)"
    "seg (heap_blocks s) 0 0 ys" "no_free_pair ys" by auto
  then show "\<exists>bs. heap_wf s bs" using st ev by (auto simp: heap_wf_def heap_layout_def)
qed (auto intro: heap_validate_wf)

section \<open>Walks over the list\<close>

lemma last_block_from_seg:
  "seg (heap_blocks s) p 0 ys \<Longrightarrow> 0 \<notin> fst ` set ys \<Longrightarrow> ys \<noteq> [] \<Longrightarrow>
    last_block_from s (first_addr 0 ys) = Some (fst (last ys))"
proof (induction ys arbitrary: p)
  case Nil
  then show ?case by simp
next
  case (Cons y ys)
  obtain a n u where y: "y = (a, n, u)" by (cases y)
  show ?case
  proof (cases ys)
    case Nil
    then show ?thesis using Cons.prems y by (subst last_block_from.simps) simp
  next
    case (Cons z zs)
    then have "first_addr 0 ys \<noteq> 0" using Cons.prems by (cases z) auto
    then show ?thesis
      using Cons.IH [of a] Cons.prems y Cons by (subst last_block_from.simps) simp
  qed
qed

lemma find_fit_from_seg:
  "seg (heap_blocks s) p 0 ys \<Longrightarrow> 0 \<notin> fst ` set ys \<Longrightarrow> \<forall>(a, n, u) \<in> set ys. n < 16777216 \<Longrightarrow>
    find_fit_from s k (first_addr 0 ys) =
      Some (case List.find (\<lambda>b. \<not> snd (snd b) \<and> unat k \<le> fst (snd b)) ys of Some b \<Rightarrow> fst b | None \<Rightarrow> 0)"
proof (induction ys arbitrary: p)
  case Nil
  then show ?case by (simp add: find_fit_from.simps)
next
  case (Cons y ys)
  obtain a n u where y: "y = (a, n, u)" by (cases y)
  have "unat (word_of_nat n :: u64) = n" using Cons.prems(3) y by (simp add: unat_of_nat)
  then show ?case
    using Cons.IH [of a] Cons.prems y by (subst find_fit_from.simps) (auto simp: word_le_nat_alt)
qed

lemma find_payload_from_seg:
  "seg (heap_blocks s) p 0 ys \<Longrightarrow> 0 \<notin> fst ` set ys \<Longrightarrow>
    find_payload_from s ptr (first_addr 0 ys) =
      Some (case List.find (\<lambda>b. fst b + 48 = ptr) ys of Some b \<Rightarrow> fst b | None \<Rightarrow> 0)"
proof (induction ys arbitrary: p)
  case Nil
  then show ?case by (simp add: find_payload_from.simps)
next
  case (Cons y ys)
  obtain a n u where y: "y = (a, n, u)" by (cases y)
  then show ?case
    using Cons.IH [of a] Cons.prems by (subst find_payload_from.simps) auto
qed

section \<open>Operations on the list\<close>

lemma layout_nonzero: "heap_layout s bs \<Longrightarrow> 0 \<notin> fst ` set bs"
  using layout_block(7) by fastforce

lemma layout_distinct: "heap_layout s bs \<Longrightarrow> distinct (map fst bs)"
  by (auto simp: heap_layout_def intro: tiled_distinct)

lemma layout_cell:
  assumes "heap_layout s (xs @ (a, n, u) # ys)"
  shows "heap_blocks s a = mk_block a (word_of_nat n) (last_addr 0 xs) (first_addr 0 ys) (state_word u)"
    and "seg (heap_blocks s) 0 a xs" "seg (heap_blocks s) a 0 ys"
    and "a \<notin> fst ` set xs" "a \<notin> fst ` set ys" "fst ` set xs \<inter> fst ` set ys = {}"
  using assms layout_distinct [OF assms] by (auto simp: heap_layout_def seg_append)

text \<open>Giving the first block of a segment another predecessor.\<close>

lemma seg_new_prev:
  assumes "seg B p 0 ((b, m, v) # ys)" "b \<notin> fst ` set ys"
  shows "seg (B(b := mk_block b (word_of_nat m) q (first_addr 0 ys) (state_word v))) q 0 ((b, m, v) # ys)"
  using assms by simp

definition relink :: "(u64 \<Rightarrow> heap_block) \<Rightarrow> u64 \<Rightarrow> u64 \<Rightarrow> u64 \<Rightarrow> heap_block" where
  "relink B q p = (if q = 0 then B else B(q := mk_block q (hb_size (B q)) p (hb_next (B q)) (hb_state (B q))))"

lemma seg_relink:
  assumes "seg B p 0 ys" "distinct (map fst ys)" "0 \<notin> fst ` set ys"
  shows "seg (relink B (first_addr 0 ys) p') p' 0 ys"
  using assms by (cases ys) (auto simp: relink_def)

lemma relink_other: "x \<noteq> q \<Longrightarrow> relink B q p x = B x"
  by (simp add: relink_def)

lemma seg_relink_other: "q \<notin> fst ` set xs \<Longrightarrow> seg (relink B q p) p' q' xs = seg B p' q' xs"
  by (rule seg_cong) (auto simp: relink_def)

lemma first_addr_mem: "first_addr 0 ys = 0 \<or> first_addr 0 ys \<in> fst ` set ys"
  by (cases ys) auto

lemma last_addr_mem: "last_addr 0 xs = 0 \<or> last_addr 0 xs \<in> fst ` set xs"
  by (simp add: last_addr_def)

lemma first_addr_notin: "0 \<notin> A \<Longrightarrow> A \<inter> fst ` set ys = {} \<Longrightarrow> first_addr 0 ys \<notin> A"
  using first_addr_mem [of ys] by auto

lemma fst_mem: "x \<in> fst ` A \<Longrightarrow> \<exists>m v. (x, m, v) \<in> A"
  by (metis imageE prod.collapse)

definition same_frame :: "'m heap_state \<Rightarrow> 'm heap_state \<Rightarrow> bool" where
  "same_frame s s' \<longleftrightarrow> heap_first s' = heap_first s \<and> heap_mapped_pages s' = heap_mapped_pages s \<and>
     heap_initialized s' = heap_initialized s \<and> heap_corrupted s' = heap_corrupted s \<and>
     heap_machine s' = heap_machine s"

lemma use_block_layout:
  assumes "heap_layout s (xs @ (a, n, u) # ys)"
    and "s' = heap_refresh_block a (set_block a (\<lambda>b. b\<lparr>hb_state := state_word v\<rparr>) s)"
  shows "heap_layout s' (xs @ (a, n, v) # ys)" "same_frame s s'"
proof -
  note cell = layout_cell [OF assms(1)]
  have "heap_blocks s' = (heap_blocks s)(a := mk_block a (word_of_nat n) (last_addr 0 xs) (first_addr 0 ys) (state_word v))"
    using cell(1) by (simp add: assms(2))
  then show "heap_layout s' (xs @ (a, n, v) # ys)"
    using assms(1) cell by (simp add: heap_layout_def assms(2) seg_append tiled_append)
  show "same_frame s s'" by (simp add: same_frame_def assms(2))
qed

lemma split_layout:
  assumes lay: "heap_layout s (xs @ (a, n, u) # ys)" and k: "unat k + 64 \<le> n" "16 \<le> unat k" "16 dvd unat k"
    and s': "s' = heap_split a k s"
  shows "heap_layout s' (xs @ (a, unat k, True) # (a + 48 + k, n - unat k - 48, False) # ys)" "same_frame s s'"
proof -
  note cell = layout_cell [OF lay]
  have mem: "(a, n, u) \<in> set (xs @ (a, n, u) # ys)" by simp
  note blk = layout_block [OF lay mem]
  let ?new = "a + 48 + k" and ?m = "n - unat k - 48"
  have pages: "unat (heap_mapped_pages s) \<le> 4096" using lay by (simp add: heap_layout_def)
  have new: "unat ?new = unat a + 48 + unat k"
    using blk(3) k(1) pages by (simp add: unat_add_exact)
  have n: "unat (word_of_nat n :: u64) = n" using blk(8) by (simp add: unat_of_nat)
  have sub: "word_of_nat n - k - 48 = (word_of_nat ?m :: u64)"
  proof -
    have "unat (word_of_nat n - k :: u64) = n - unat k"
      using n k(1) by (simp add: unat_sub_exact word_le_nat_alt)
    then have "unat (word_of_nat n - k - 48 :: u64) = ?m"
      using k(1) by (simp add: unat_sub_exact word_le_nat_alt)
    then show ?thesis using blk(8) by (simp add: word_unat_eq_iff unat_of_nat)
  qed
  obtain mid hi where hi: "hi = BASE + 4096 * unat (heap_mapped_pages s)" "tiled BASE xs mid" "unat a = mid"
    "16 \<le> n" "16 dvd n" "tiled (mid + 48 + n) ys hi"
    using lay by (auto simp: heap_layout_def tiled_append)
  have dvdm: "16 dvd ?m" using hi(5) k(3) by (simp add: dvd_diff_nat)
  have tl: "tiled BASE (xs @ (a, unat k, True) # (?new, ?m, False) # ys) hi"
    using hi k new dvdm by (auto simp: tiled_append ac_simps)
  from tiled_distinct [OF this] have d: "?new \<notin> fst ` set xs" "?new \<notin> fst ` set ys" "a \<noteq> ?new" by auto
  have q: "first_addr 0 ys = 0 \<or> first_addr 0 ys \<in> fst ` set ys" by (rule first_addr_mem)
  have nz: "0 \<notin> fst ` set ys" "?new \<noteq> 0" "a \<noteq> 0"
    using layout_nonzero [OF lay] new blk(2) by (auto simp flip: unat_gt_0)
  have qn: "first_addr 0 ys \<noteq> ?new" "first_addr 0 ys \<noteq> a" using q d(2) nz cell(5) by metis+
  let ?B = "(heap_blocks s)(?new := mk_block ?new (word_of_nat ?m) a (first_addr 0 ys) HEAP_STATE_FREE)"
  have B': "heap_blocks s' = (relink ?B (first_addr 0 ys) ?new)
      (a := mk_block a k (last_addr 0 xs) ?new HEAP_STATE_USED)"
    using cell(1) d(3) qn sub
    by (auto simp: s' heap_split_def Let_def relink_def fun_upd_twist)
  have "seg (heap_blocks s') ?new 0 ys"
  proof -
    have "seg ?B a 0 ys" using cell(3) d(2) by simp
    then have "seg (relink ?B (first_addr 0 ys) ?new) ?new 0 ys"
      using layout_distinct [OF lay] nz(1) by (intro seg_relink) auto
    then show ?thesis using cell(5) by (simp add: B')
  qed
  moreover have "seg (heap_blocks s') 0 a xs"
  proof -
    have "0 \<notin> fst ` set xs" using layout_nonzero [OF lay] by (simp add: image_Un)
    then have "first_addr 0 ys \<notin> fst ` set xs" using cell(6) by (rule first_addr_notin)
    then show ?thesis using cell(2,4) d(1) by (simp add: B' seg_relink_other)
  qed
  moreover have "heap_blocks s' ?new = mk_block ?new (word_of_nat ?m) a (first_addr 0 ys) HEAP_STATE_FREE"
    "heap_blocks s' a = mk_block a k (last_addr 0 xs) ?new HEAP_STATE_USED"
    using d(3) qn by (auto simp: B' relink_other)
  moreover have frame: "same_frame s s'" by (simp add: same_frame_def s' heap_split_def Let_def)
  ultimately show "heap_layout s' (xs @ (a, unat k, True) # (a + 48 + k, n - unat k - 48, False) # ys)"
    using lay tl hi(1) by (simp add: heap_layout_def seg_append same_frame_def)
  show "same_frame s s'" by (rule frame)
qed

lemma merge_layout:
  assumes lay: "heap_layout s (xs @ (a, n, False) # (b, m, False) # ys)"
    and run: "heap_merge_with_next a s = (ok, s')"
  shows "ok" "heap_layout s' (xs @ (a, n + 48 + m, False) # ys)" "same_frame s s'"
proof -
  note ca = layout_cell [OF lay]
  have lay2: "heap_layout s ((xs @ [(a, n, False)]) @ (b, m, False) # ys)" using lay by simp
  note cb = layout_cell [OF lay2]
  note ba = layout_block [OF lay, of a n False] and bb = layout_block [OF lay, of b m False]
  have n: "unat (word_of_nat n :: u64) = n" "unat (word_of_nat m :: u64) = m"
    using ba(8) bb(8) by (simp_all add: unat_of_nat)
  have nm: "unat (word_of_nat n + 48 :: u64) = n + 48"
    using ba(8) n by (simp add: unat_add_exact)
  have comb: "word_of_nat n + 48 + word_of_nat m = (word_of_nat (n + 48 + m) :: u64)" by simp
  have nz: "0 \<notin> fst ` set ys" "b \<noteq> 0" "a \<noteq> 0" using layout_nonzero [OF lay] by auto
  have d: "a \<noteq> b" "a \<notin> fst ` set ys" "b \<notin> fst ` set xs" "b \<notin> fst ` set ys" "a \<notin> fst ` set xs"
    using layout_distinct [OF lay] by auto
  have q: "first_addr 0 ys = 0 \<or> first_addr 0 ys \<in> fst ` set ys" by (rule first_addr_mem)
  have qn: "first_addr 0 ys \<noteq> a" "first_addr 0 ys \<noteq> b" using q d nz by auto
  have cella: "heap_blocks s a = mk_block a (word_of_nat n) (last_addr 0 xs) b HEAP_STATE_FREE"
    and cellb: "heap_blocks s b = mk_block b (word_of_nat m) a (first_addr 0 ys) HEAP_STATE_FREE"
    using ca(1) cb(1) by simp_all
  have guards: "heap_block_valid a s" "heap_block_valid b s" "\<not> (word_of_nat n :: u64) > UINT64_MAX - 48"
    "\<not> (word_of_nat n + 48 :: u64) > UINT64_MAX - word_of_nat m"
    using ba(1,8) bb(1,8) n nm by (auto simp: word_less_nat_alt unat_sub_if')
  define s1 where "s1 = set_block a (\<lambda>b. b\<lparr>hb_size := word_of_nat (n + 48 + m), hb_next := first_addr 0 ys\<rparr>) s"
  define s2 where "s2 = (if first_addr 0 ys \<noteq> 0 then
      heap_refresh_block (first_addr 0 ys) (set_block (first_addr 0 ys) (\<lambda>b. b\<lparr>hb_prev := a\<rparr>) s1) else s1)"
  have "heap_merge_with_next a s = (True, set_block b (\<lambda>_. zero_block) (heap_refresh_block a s2))"
    using guards by (simp add: heap_merge_with_next_def Let_def cella cellb nz(2) s1_def s2_def)
  then have res: "ok" "s' = set_block b (\<lambda>_. zero_block) (heap_refresh_block a s2)" using run by simp_all
  have frame: "same_frame s s2" by (simp add: s2_def s1_def same_frame_def)
  have "heap_blocks s2 a = (heap_blocks s a)\<lparr>hb_size := word_of_nat (n + 48 + m), hb_next := first_addr 0 ys\<rparr>"
    "\<And>x. x \<noteq> a \<Longrightarrow> heap_blocks s2 x = relink (heap_blocks s) (first_addr 0 ys) a x"
    using qn by (auto simp: s2_def s1_def relink_def)
  then have run': "ok" "heap_blocks s' = ((relink (heap_blocks s) (first_addr 0 ys) a)
      (a := mk_block a (word_of_nat (n + 48 + m)) (last_addr 0 xs) (first_addr 0 ys) HEAP_STATE_FREE))(b := zero_block)"
    "same_frame s s'"
    using res d(1) frame by (auto simp: cella same_frame_def)
  then show "ok" "same_frame s s'" by simp_all
  have "seg (heap_blocks s) b 0 ys" using cb(3) .
  then have "seg (relink (heap_blocks s) (first_addr 0 ys) a) a 0 ys"
    using layout_distinct [OF lay] nz(1) by (intro seg_relink) auto
  then have "seg (heap_blocks s') a 0 ys" using d by (simp add: run'(2))
  moreover have "seg (heap_blocks s') 0 a xs"
  proof -
    have "0 \<notin> fst ` set xs" using layout_nonzero [OF lay] by (simp add: image_Un)
    then have "first_addr 0 ys \<notin> fst ` set xs" using ca(6) by (intro first_addr_notin) auto
    then show ?thesis using ca(2) d by (simp add: run'(2) seg_relink_other)
  qed
  moreover have "heap_blocks s' a = mk_block a (word_of_nat (n + 48 + m)) (last_addr 0 xs) (first_addr 0 ys) HEAP_STATE_FREE"
    using d(1) by (simp add: run'(2))
  moreover have "tiled BASE (xs @ (a, n + 48 + m, False) # ys) (BASE + 4096 * unat (heap_mapped_pages s))"
    using lay by (auto simp: heap_layout_def tiled_append add.assoc intro: dvd_add)
  ultimately show "heap_layout s' (xs @ (a, n + 48 + m, False) # ys)"
    using lay run'(3) by (simp add: heap_layout_def same_frame_def seg_append)
qed

lemma extend_layout:
  assumes wf: "heap_wf s (xs @ [(a, n, u)])" and pages: "unat (heap_mapped_pages s) < 4096"
    and e: "unat old_end = BASE + 4096 * unat (heap_mapped_pages s)"
    and run: "heap_extend a old_end s = (ok, s')"
  shows "ok" "heap_wf s' (if u then xs @ [(a, n, u), (old_end, 4048, False)] else xs @ [(a, n + 4096, False)])"
    and "unat (heap_mapped_pages s') = Suc (unat (heap_mapped_pages s))"
proof -
  let ?bs = "if u then xs @ [(a, n, u), (old_end, 4048, False)] else xs @ [(a, n + 4096, False)]"
  have lay: "heap_layout s (xs @ [(a, n, u)])" and nf: "no_free_pair (xs @ [(a, n, u)])"
    using wf by (simp_all add: heap_wf_def)
  note cell = layout_cell [OF lay] and blk = layout_block [OF lay, of a n u]
  have z: "seg (heap_blocks (heap_zero_page old_end s)) p q bs = seg (heap_blocks s) p q bs"
    if "fst ` set bs \<subseteq> fst ` set (xs @ [(a, n, u)])" for p q bs
  proof (rule seg_cong)
    fix x assume "x \<in> fst ` set bs"
    with that have "x \<in> fst ` set (xs @ [(a, n, u)])" by (rule subsetD)
    then obtain m v where "(x, m, v) \<in> set (xs @ [(a, n, u)])" using fst_mem by metis
    from layout_block(3,4) [OF lay this] have "unat x < unat old_end" unfolding e by linarith
    then show "heap_blocks (heap_zero_page old_end s) x = heap_blocks s x" by (simp add: heap_zero_page_def)
  qed
  have za: "heap_blocks (heap_zero_page old_end s) a = heap_blocks s a"
    using blk(3,4) e by (simp add: heap_zero_page_def)
  define s0 where "s0 = (heap_zero_page old_end s)\<lparr>heap_mapped_pages := heap_mapped_pages s + 1\<rparr>"
  have s0: "heap_blocks s0 = heap_blocks (heap_zero_page old_end s)" "heap_first s0 = heap_first s"
    "heap_initialized s0 = heap_initialized s" "heap_corrupted s0 = heap_corrupted s"
    "unat (heap_mapped_pages s0) = Suc (unat (heap_mapped_pages s))"
    using pages by (simp_all add: s0_def heap_zero_page_def unat_add_exact)
  define s1 where "s1 = (if u then
      heap_refresh_block a (set_block a (\<lambda>b. b\<lparr>hb_next := old_end\<rparr>) (heap_refresh_block old_end
        (set_block old_end (\<lambda>b. b\<lparr>hb_size := 4096 - 48, hb_prev := a, hb_next := 0,
          hb_state := HEAP_STATE_FREE\<rparr>) s0)))
    else heap_refresh_block a (set_block a (\<lambda>b. b\<lparr>hb_size := hb_size b + 4096\<rparr>) s0))"
  have ext: "heap_extend a old_end s = (if \<not> heap_validate s1 then (False, s1\<lparr>heap_corrupted := True\<rparr>) else (True, s1))"
    using cell(1) za by (simp add: heap_extend_def Let_def s1_def s0_def heap_zero_page_def)
  have below: "unat x < unat old_end" if mem: "x \<in> fst ` set (xs @ [(a, n, u)])" for x
  proof -
    obtain m v where "(x, m, v) \<in> set (xs @ [(a, n, u)])" using fst_mem [OF mem] by blast
    from layout_block(3,4) [OF lay this] show ?thesis unfolding e by linarith
  qed
  have oe: "old_end \<noteq> a" "old_end \<notin> fst ` set xs" "old_end \<noteq> 0"
    using below [of a] below [of old_end] e by auto
  have sx: "seg (heap_blocks s0) 0 a xs" using cell(2) z [of xs] by (auto simp: s0)
  have "heap_layout s1 ?bs"
  proof (cases u)
    case True
    have "tiled BASE (xs @ [(a, n, u), (old_end, 4048, False)]) (BASE + 4096 * Suc (unat (heap_mapped_pages s)))"
      using lay e by (auto simp: heap_layout_def tiled_append)
    moreover have "heap_blocks s1 = (heap_blocks s0)(old_end := mk_block old_end 4048 a 0 HEAP_STATE_FREE,
        a := mk_block a (word_of_nat n) (last_addr 0 xs) old_end HEAP_STATE_USED)"
      using True oe(1) cell(1) za s0(1) by (auto simp: s1_def)
    ultimately show ?thesis
      using True lay s0 pages sx oe cell(4) by (simp add: heap_layout_def s1_def seg_append)
  next
    case False
    have "tiled BASE (xs @ [(a, n + 4096, False)]) (BASE + 4096 * Suc (unat (heap_mapped_pages s)))"
      using lay by (auto simp: heap_layout_def tiled_append intro: dvd_add)
    moreover have "heap_blocks s1 = (heap_blocks s0)(a := mk_block a (word_of_nat (n + 4096)) (last_addr 0 xs) 0 HEAP_STATE_FREE)"
      using False cell(1) za s0(1) by (auto simp: s1_def)
    ultimately show ?thesis
      using False lay s0 pages sx cell(4) by (simp add: heap_layout_def s1_def seg_append)
  qed
  moreover have "no_free_pair ?bs" using nf by (auto simp: successively_append_iff)
  ultimately have wf1: "heap_wf s1 ?bs" by (simp add: heap_wf_def)
  then have "heap_extend a old_end s = (True, s1)" using ext heap_validate_wf by auto
  with run have r: "ok" "s' = s1" by simp_all
  show "ok" "heap_wf s' ?bs" using r wf1 by simp_all
  show "unat (heap_mapped_pages s') = Suc (unat (heap_mapped_pages s))"
    using s0(5) by (simp add: r(2) s1_def)
qed

section \<open>Growth, allocation and release as operations on the used blocks\<close>

text \<open>A used block as the client sees it: its payload address and its size.\<close>

definition used_blocks :: "block_list \<Rightarrow> (nat \<times> nat) set" where
  "used_blocks bs = {(unat a + 48, n) | a n. (a, n, True) \<in> set bs}"

lemma used_blocks_simps [simp]:
  "used_blocks [] = {}" "used_blocks (xs @ ys) = used_blocks xs \<union> used_blocks ys"
  "used_blocks ((a, n, u) # bs) = (if u then insert (unat a + 48, n) (used_blocks bs) else used_blocks bs)"
  by (auto simp: used_blocks_def)

lemma used_blocks_mem: "(unat b + 48, q) \<in> used_blocks bs \<longleftrightarrow> (b, q, True) \<in> set bs"
  by (auto simp: used_blocks_def simp flip: word_unat_eq_iff)

lemma same_frame_wf_machine:
  "heap_wf (s\<lparr>heap_machine := mach\<rparr>) bs \<longleftrightarrow> heap_wf s bs"
  by (simp add: heap_wf_def heap_layout_def)

lemma grow_correct:
  assumes wf: "heap_wf s bs"
  shows "\<exists>grown s' bs'. heap_grow_one_page ops s = Some (grown, s') \<and> heap_wf s' bs' \<and>
    used_blocks bs' = used_blocks bs \<and>
    (grown \<longrightarrow> unat (heap_mapped_pages s') = Suc (unat (heap_mapped_pages s)))"
proof -
  have lay: "heap_layout s bs" using wf by (simp add: heap_wf_def)
  then obtain xs a n u where bs: "bs = xs @ [(a, n, u)]"
    by (metis heap_layout_def append_butlast_last_id prod_cases3)
  have "first_addr 0 bs = heap_first s"
    using lay by (cases bs) (auto simp: heap_layout_def word_unat_eq_iff)
  moreover have "last_block_from s (first_addr 0 bs) = Some (fst (last bs))"
    using lay layout_nonzero [OF lay] by (intro last_block_from_seg) (auto simp: heap_layout_def)
  ultimately have tail: "heap_last_block s = Some a" by (simp add: heap_last_block_def bs)
  obtain e where e: "heap_mapped_end s = Some e" "unat e = BASE + 4096 * unat (heap_mapped_pages s)"
    using layout_mapped_end [OF lay] by blast
  consider (stop) mach where "heap_grow_one_page ops s = Some (False, s\<lparr>heap_machine := mach\<rparr>)"
    | (go) mach where "heap_grow_one_page ops s = Some (heap_extend a e (s\<lparr>heap_machine := mach\<rparr>))"
      "unat (heap_mapped_pages s) < 4096"
  proof (cases "heap_mapped_pages s \<ge> HEAP_MAX_PAGES \<or> e > HEAP_VIRTUAL_LIMIT - HEAP_PAGE_SIZE \<or>
      a = 0 \<or> (hb_state (heap_blocks s a) = HEAP_STATE_FREE \<and> hb_size (heap_blocks s a) > UINT64_MAX - HEAP_PAGE_SIZE) \<or>
      pg_translate ops e (heap_machine s) \<noteq> None")
    case True
    then have "heap_grow_one_page ops s = Some (False, s)"
      using e(1) tail by (auto simp: heap_grow_one_page_def)
    then have "heap_grow_one_page ops s = Some (False, s\<lparr>heap_machine := heap_machine s\<rparr>)" by simp
    then show ?thesis by (rule stop)
  next
    case False
    then have run: "heap_grow_one_page ops s = (case pg_alloc_frame ops (heap_machine s) of
          (None, mach) \<Rightarrow> Some (False, s\<lparr>heap_machine := mach\<rparr>)
        | (Some physical_address, mach) \<Rightarrow> (case pg_map ops e physical_address mach of
            (False, mach) \<Rightarrow> Some (False, s\<lparr>heap_machine := snd (pg_free_frame ops physical_address mach)\<rparr>)
          | (True, mach) \<Rightarrow> Some (heap_extend a e (s\<lparr>heap_machine := mach\<rparr>))))"
      using e(1) tail heap_validate_wf [OF wf] unfolding heap_grow_one_page_def by (simp del: not_less) blast
    obtain ao mach where m: "pg_alloc_frame ops (heap_machine s) = (ao, mach)" by force
    show ?thesis
    proof (cases ao)
      case None
      then show ?thesis using run m stop by simp
    next
      case (Some pa)
      obtain b mach2 where m2: "pg_map ops e pa mach = (b, mach2)" by force
      have "unat (heap_mapped_pages s) < 4096" using False by (simp add: word_le_nat_alt)
      then show ?thesis using run m m2 Some stop go by (cases b) auto
    qed
  qed
  then show ?thesis
  proof cases
    case stop
    moreover have "heap_wf (s\<lparr>heap_machine := mach\<rparr>) bs" using wf by (simp add: same_frame_wf_machine)
    ultimately show ?thesis by blast
  next
    case go
    obtain ok s' where x: "heap_extend a e (s\<lparr>heap_machine := mach\<rparr>) = (ok, s')" by force
    have "heap_wf (s\<lparr>heap_machine := mach\<rparr>) (xs @ [(a, n, u)])" using wf bs by (simp add: same_frame_wf_machine)
    from extend_layout [OF this _ _ x] go(2) e(2)
    have "ok" "heap_wf s' (if u then xs @ [(a, n, u), (e, 4048, False)] else xs @ [(a, n + 4096, False)])"
      "unat (heap_mapped_pages s') = Suc (unat (heap_mapped_pages s))" by simp_all
    moreover have "used_blocks (if u then xs @ [(a, n, u), (e, 4048, False)] else xs @ [(a, n + 4096, False)]) =
        used_blocks bs" by (simp add: bs)
    ultimately show ?thesis using go(1) x by auto
  qed
qed

lemma layout_first: "heap_layout s bs \<Longrightarrow> heap_first s = first_addr 0 bs"
  by (cases bs) (auto simp: heap_layout_def word_unat_eq_iff)

lemma find_split: "List.find P bs = Some x \<Longrightarrow> \<exists>xs ys. bs = xs @ x # ys \<and> P x"
  by (metis find_Some_iff nth_mem split_list)

lemma find_fit_correct:
  assumes wf: "heap_wf s bs"
  shows "heap_find_fit k s = Some 0 \<and> (\<forall>(a, n, u) \<in> set bs. \<not> u \<longrightarrow> n < unat k) \<or>
    (\<exists>xs b n ys. heap_find_fit k s = Some b \<and> b \<noteq> 0 \<and> bs = xs @ (b, n, False) # ys \<and> unat k \<le> n)"
proof -
  have lay: "heap_layout s bs" using wf by (simp add: heap_wf_def)
  have "\<forall>(a, n, u) \<in> set bs. n < 16777216" using layout_block(8) [OF lay] by auto
  then have f: "heap_find_fit k s =
      Some (case List.find (\<lambda>b. \<not> snd (snd b) \<and> unat k \<le> fst (snd b)) bs of Some b \<Rightarrow> fst b | None \<Rightarrow> 0)"
    unfolding heap_find_fit_def layout_first [OF lay]
    using lay layout_nonzero [OF lay] by (intro find_fit_from_seg) (auto simp: heap_layout_def)
  show ?thesis
  proof (cases "List.find (\<lambda>b. \<not> snd (snd b) \<and> unat k \<le> fst (snd b)) bs")
    case None
    then have "heap_find_fit k s = Some 0" using f by simp
    moreover have "\<forall>(a, n, u) \<in> set bs. \<not> u \<longrightarrow> n < unat k"
      using None by (fastforce simp: find_None_iff)
    ultimately show ?thesis by blast
  next
    case (Some x)
    obtain b n u where x: "x = (b, n, u)" by (cases x)
    from find_split [OF Some] x obtain xs ys where "bs = xs @ (b, n, False) # ys" "unat k \<le> n" by auto
    moreover have "b \<noteq> 0" using layout_block(7) [OF lay, of b n False] calculation by simp
    ultimately show ?thesis using f Some x by auto
  qed
qed

lemma grow_until_fit_correct:
  assumes "heap_wf s bs"
  shows "\<exists>b s' bs'. grow_until_fit ops k s = Some (b, s') \<and> heap_wf s' bs' \<and> used_blocks bs' = used_blocks bs \<and>
    (b \<noteq> 0 \<longrightarrow> (\<exists>xs n ys. bs' = xs @ (b, n, False) # ys \<and> unat k \<le> n)) \<and>
    (b = 0 \<longrightarrow> (\<forall>(a, n, u) \<in> set bs. \<not> u \<longrightarrow> n < unat k))"
  using assms
proof (induction "4096 - unat (heap_mapped_pages s)" arbitrary: s bs rule: less_induct)
  case less
  from find_fit_correct [OF less.prems, of k] show ?case
  proof
    assume none: "heap_find_fit k s = Some 0 \<and> (\<forall>(a, n, u) \<in> set bs. \<not> u \<longrightarrow> n < unat k)"
    obtain grown t ct where g: "heap_grow_one_page ops s = Some (grown, t)" "heap_wf t ct"
      "used_blocks ct = used_blocks bs" "grown \<Longrightarrow> unat (heap_mapped_pages t) = Suc (unat (heap_mapped_pages s))"
      using grow_correct [OF less.prems, of ops] by blast
    show ?case
    proof (cases grown)
      case False
      then have "grow_until_fit ops k s = Some (0, t)"
        using none g(1) by (subst grow_until_fit.simps) simp
      with none g(2,3) show ?thesis by blast
    next
      case True
      have "unat (heap_mapped_pages t) \<le> 4096" using g(2) by (simp add: heap_wf_def heap_layout_def)
      then obtain b s' bs' where r: "grow_until_fit ops k t = Some (b, s')" "heap_wf s' bs'"
        "used_blocks bs' = used_blocks ct"
        "b \<noteq> 0 \<longrightarrow> (\<exists>xs n ys. bs' = xs @ (b, n, False) # ys \<and> unat k \<le> n)"
        using less.hyps [of t ct] g(2) g(4) [OF True] by fastforce
      moreover have "grow_until_fit ops k s = grow_until_fit ops k t"
        using none g(1) True by (subst grow_until_fit.simps) simp
      ultimately show ?thesis using none g(3) by auto
    qed
  next
    assume "\<exists>xs b n ys. heap_find_fit k s = Some b \<and> b \<noteq> 0 \<and> bs = xs @ (b, n, False) # ys \<and> unat k \<le> n"
    then obtain xs b n ys where f: "heap_find_fit k s = Some b" "b \<noteq> 0" "bs = xs @ (b, n, False) # ys" "unat k \<le> n"
      by blast
    then have "grow_until_fit ops k s = Some (b, s)" by (subst grow_until_fit.simps) simp
    with f less.prems show ?case by blast
  qed
qed

lemma align_value:
  assumes "\<not> (sz :: u64) > UINT64_MAX - 15"
  shows "unat ((sz + 15) AND NOT 15) = (unat sz + 15) div 16 * 16"
proof -
  have s15: "unat (sz + 15) = unat sz + 15"
    using assms by (simp add: word_less_nat_alt unat_add_exact)
  have "(sz + 15) AND NOT (mask 4) = push_bit 4 (drop_bit 4 (sz + 15))"
    by (rule bit_word_eqI) (auto simp: bit_simps simp del: mask_numeral)
  then have "(sz + 15) AND NOT 15 = push_bit 4 (drop_bit 4 (sz + 15))" by (simp add: mask_eq_exp_minus_1)
  moreover have "unat (drop_bit 4 (sz + 15)) = (unat sz + 15) div 16"
    by (simp add: drop_bit_eq_div unat_div s15)
  moreover have "(unat sz + 15) div 16 * 16 < 18446744073709551616"
    using s15 unat_u64_less [of "sz + 15"] by (metis div_times_less_eq_dividend le_less_trans)
  ultimately show ?thesis by (simp add: push_bit_eq_mult unat_mult_exact)
qed

lemma align_request_unat:
  assumes "heap_align_request sz = Some k"
  shows "unat sz \<le> unat k" "16 \<le> unat k" "16 dvd unat k" "unat k < unat sz + 16" "0 < unat sz"
    "unat k = 16 * ((unat sz + 15) div 16)"
proof -
  have c: "sz \<noteq> 0" "\<not> sz > UINT64_MAX - 15" "k = (sz + 15) AND NOT 15"
    using assms by (auto simp: heap_align_request_def Let_def split: if_splits)
  have k: "unat k = (unat sz + 15) div 16 * 16" using align_value [OF c(2)] c(3) by simp
  then show "unat k = 16 * ((unat sz + 15) div 16)" by simp
  show pos: "0 < unat sz" using c(1) by (simp add: unat_gt_0)
  show "16 dvd unat k" by (simp add: k)
  have d: "(unat sz + 15) div 16 * 16 + (unat sz + 15) mod 16 = unat sz + 15" "(unat sz + 15) mod 16 < 16"
    by simp_all
  moreover have "1 \<le> (unat sz + 15) div 16" using pos by (simp add: less_eq_div_iff_mult_less_eq)
  ultimately show "unat sz \<le> unat k" "16 \<le> unat k" "unat k < unat sz + 16"
    unfolding k using pos by linarith+
qed

lemma align_request_none:
  assumes "heap_align_request sz = None" "0 < unat sz"
  shows "16777216 < 16 * ((unat sz + 15) div 16)"
proof (rule ccontr)
  assume n: "\<not> 16777216 < 16 * ((unat sz + 15) div 16)"
  then have c: "\<not> sz > UINT64_MAX - 15" "sz \<noteq> 0" using assms(2) by (auto simp: word_less_nat_alt)
  have "16 \<le> unat ((sz + 15) AND NOT 15)" using align_value [OF c(1)] assms(2) by auto
  then show False using c assms(1) by (simp add: heap_align_request_def Let_def word_le_nat_alt)
qed

lemma free_block_bound:
  assumes "heap_wf s bs" "(a, n, u) \<in> set bs"
  shows "n + 48 \<le> 16777216"
proof -
  obtain xs ys where "bs = xs @ (a, n, u) # ys" using assms(2) by (meson split_list)
  then have "heap_layout s (xs @ (a, n, u) # ys)" using assms(1) by (simp add: heap_wf_def)
  from layout_block(2,3) [OF this, of a n u] this show ?thesis by (simp add: heap_layout_def)
qed

lemma allocate_from_block_correct:
  assumes wf: "heap_wf s (xs @ (b, n, False) # ys)" and k: "unat k \<le> n" "16 \<le> unat k" "16 dvd unat k"
  shows "\<exists>s' m bs'. heap_allocate_from_block b k s = (b + 48, s') \<and> heap_wf s' bs' \<and> unat k \<le> m \<and>
    m < unat k + 64 \<and> used_blocks bs' = insert (unat b + 48, m) (used_blocks (xs @ ys))"
proof -
  have lay: "heap_layout s (xs @ (b, n, False) # ys)" and nf: "no_free_pair (xs @ (b, n, False) # ys)"
    using wf by (simp_all add: heap_wf_def)
  note blk = layout_block [OF lay, of b n False] and cell = layout_cell(1) [OF lay]
  have nw: "unat (word_of_nat n :: u64) = n" using blk(8) by (simp add: unat_of_nat)
  have kl: "unat k < 16777216" using blk(8) k(1) by simp
  then have thr: "k \<le> UINT64_MAX - 48 - 16" "unat (k + 48 + 16) = unat k + 64"
    by (simp_all add: word_le_nat_alt unat_add_exact)
  have guard: "heap_block_valid b s" "hb_state (heap_blocks s b) = HEAP_STATE_FREE"
    "\<not> hb_size (heap_blocks s b) < k" using blk(1) cell k(1) nw by (simp_all add: word_less_nat_alt)
  have size: "hb_size (heap_blocks s b) \<ge> k + 48 + 16 \<longleftrightarrow> unat k + 64 \<le> n"
    using cell nw thr(2) by (simp add: word_le_nat_alt)
  show ?thesis
  proof (cases "unat k + 64 \<le> n")
    case True
    let ?bs = "xs @ (b, unat k, True) # (b + 48 + k, n - unat k - 48, False) # ys"
    have "heap_layout (heap_split b k s) ?bs" using split_layout [OF lay True k(2,3)] by simp
    moreover have "no_free_pair ?bs"
      using nf by (cases ys) (auto simp: successively_append_iff successively_Cons)
    ultimately have wf': "heap_wf (heap_split b k s) ?bs" by (simp add: heap_wf_def)
    then have "heap_allocate_from_block b k s = (b + 48, heap_split b k s)"
      using guard size True thr(1) heap_validate_wf [OF wf'] by (simp add: heap_allocate_from_block_def Let_def)
    with wf' show ?thesis by (intro exI conjI) auto
  next
    case False
    let ?s = "heap_refresh_block b (set_block b (\<lambda>b. b\<lparr>hb_state := HEAP_STATE_USED\<rparr>) s)"
    let ?bs = "xs @ (b, n, True) # ys"
    have "heap_layout ?s ?bs" using use_block_layout(1) [OF lay, of ?s True] by simp
    moreover have "no_free_pair ?bs"
      using nf by (cases ys) (auto simp: successively_append_iff successively_Cons)
    ultimately have wf': "heap_wf ?s ?bs" by (simp add: heap_wf_def)
    then have "heap_allocate_from_block b k s = (b + 48, ?s)"
      using guard size False thr(1) heap_validate_wf [OF wf'] by (simp add: heap_allocate_from_block_def Let_def)
    with wf' k(1) False show ?thesis by (intro exI conjI) auto
  qed
qed

lemma kmalloc_correct:
  assumes wf: "heap_wf s bs"
  shows "\<exists>p s' bs'. kmalloc ops sz s = Some (p, s') \<and> heap_wf s' bs' \<and>
    (if p = 0 then used_blocks bs' = used_blocks bs
     else \<exists>m. unat sz \<le> m \<and> m < unat sz + 80 \<and> 0 < unat sz \<and> 16 dvd unat p \<and>
       (\<forall>n. (unat p, n) \<notin> used_blocks bs) \<and> used_blocks bs' = insert (unat p, m) (used_blocks bs)) \<and>
    (p = 0 \<longrightarrow> 0 < unat sz \<longrightarrow>
      (\<forall>(a, n, u) \<in> set bs. \<not> u \<longrightarrow> n < 16 * ((unat sz + 15) div 16)))"
proof -
  have bound: "\<forall>(a, n, u) \<in> set bs. \<not> u \<longrightarrow> n < k" if "16777168 < k" for k
    using free_block_bound [OF wf] that by fastforce
  have st: "heap_initialized s" "\<not> heap_corrupted s" and valid: "heap_validate s"
    using wf heap_validate_wf by (simp_all add: heap_wf_def heap_layout_def)
  show ?thesis
  proof (cases "heap_align_request sz")
    case None
    then have "kmalloc ops sz s = Some (0, s)" using st by (simp add: kmalloc_def)
    moreover have "0 < unat sz \<longrightarrow> (\<forall>(a, n, u) \<in> set bs. \<not> u \<longrightarrow> n < 16 * ((unat sz + 15) div 16))"
      using align_request_none [OF None] by (intro impI bound) simp
    ultimately show ?thesis using wf by (intro exI [of _ 0] exI [of _ s] exI [of _ bs]) simp
  next
    case (Some k)
    note al = align_request_unat [OF Some]
    show ?thesis
    proof (cases "k > HEAP_REGION_SIZE - BLOCK_HEADER")
      case True
      then have "kmalloc ops sz s = Some (0, s)" using st Some by (simp add: kmalloc_def)
      moreover have "\<forall>(a, n, u) \<in> set bs. \<not> u \<longrightarrow> n < 16 * ((unat sz + 15) div 16)"
        using True al(6) by (intro bound) (simp add: word_less_nat_alt)
      ultimately show ?thesis using wf by (intro exI [of _ 0] exI [of _ s] exI [of _ bs]) simp
    next
      case False
      obtain b t ct where g: "grow_until_fit ops k s = Some (b, t)" "heap_wf t ct" "used_blocks ct = used_blocks bs"
        "b \<noteq> 0 \<longrightarrow> (\<exists>xs n ys. ct = xs @ (b, n, False) # ys \<and> unat k \<le> n)"
        "b = 0 \<longrightarrow> (\<forall>(a, n, u) \<in> set bs. \<not> u \<longrightarrow> n < unat k)"
        using grow_until_fit_correct [OF wf, of ops k] by blast
      have run: "kmalloc ops sz s = (if b = 0 then Some (0, t) else Some (heap_allocate_from_block b k t))"
        using st valid Some False g(1) by (simp add: kmalloc_def)
      show ?thesis
      proof (cases "b = 0")
        case True
        then have "\<forall>(a, n, u) \<in> set bs. \<not> u \<longrightarrow> n < 16 * ((unat sz + 15) div 16)"
          using g(5) unfolding al(6) by simp
        then show ?thesis using run True g(2,3) by (intro exI [of _ 0] exI [of _ t] exI [of _ ct]) simp
      next
        case nz: False
        with g(4) obtain xs n ys where ct: "ct = xs @ (b, n, False) # ys" "unat k \<le> n" by blast
        have lay: "heap_layout t (xs @ (b, n, False) # ys)" using g(2) ct by (simp add: heap_wf_def)
        note blk = layout_block [OF lay, of b n False]
        obtain s' m bs' where a: "heap_allocate_from_block b k t = (b + 48, s')" "heap_wf s' bs'" "unat k \<le> m"
          "m < unat k + 64" "used_blocks bs' = insert (unat b + 48, m) (used_blocks (xs @ ys))"
          using allocate_from_block_correct [OF g(2) [unfolded ct(1)] ct(2) al(2,3)] by blast
        have pages: "unat (heap_mapped_pages t) \<le> 4096" using lay by (simp add: heap_layout_def)
        have p: "unat (b + 48) = unat b + 48" using blk(3) pages by (simp add: unat_add_exact)
        have "(unat b + 48, q) \<notin> used_blocks bs" for q
        proof
          assume "(unat b + 48, q) \<in> used_blocks bs"
          then have "(b, q, True) \<in> set ct" unfolding g(3) [symmetric] used_blocks_mem .
          then show False using layout_cell(4,5) [OF lay] ct(1) by (auto simp: image_iff)
        qed
        moreover have "used_blocks (xs @ ys) = used_blocks bs" using g(3) ct(1) by simp
        moreover have "b + 48 \<noteq> 0" using p by (auto simp flip: unat_gt_0)
        moreover have "16 dvd unat b + 48" using blk(6) by (simp add: dvd_add)
        ultimately show ?thesis
          using run nz a al p by (intro exI [of _ "b + 48"] exI [of _ s'] exI [of _ bs']) (auto intro!: exI [of _ m])
      qed
    qed
  qed
qed

text \<open>Merging with the free neighbours, first the next one, then the previous one.\<close>

definition absorb_next :: "block_list \<Rightarrow> u64 \<Rightarrow> nat \<Rightarrow> block_list \<Rightarrow> block_list" where
  "absorb_next xs a n ys = (case ys of
     (b, m, False) # zs \<Rightarrow> xs @ (a, n + 48 + m, False) # zs
   | _ \<Rightarrow> xs @ (a, n, False) # ys)"

lemma next_free_iff:
  assumes "heap_layout s (xs @ (a, n, u) # ys)"
  shows "(first_addr 0 ys \<noteq> 0 \<and> hb_state (heap_blocks s (first_addr 0 ys)) = HEAP_STATE_FREE) \<longleftrightarrow>
    (\<exists>b m zs. ys = (b, m, False) # zs)"
proof (cases ys)
  case (Cons y zs)
  obtain b m v where y: "y = (b, m, v)" by (cases y)
  have lay: "heap_layout s ((xs @ [(a, n, u)]) @ (b, m, v) # zs)" using assms Cons y by simp
  have "b \<noteq> 0" using layout_block(7) [OF lay, of b m v] by simp
  then show ?thesis using layout_cell(1) [OF lay] Cons y by simp
qed simp

lemma merge_next_if_free:
  assumes lay: "heap_layout s (xs @ (a, n, False) # ys)"
    and run: "(if first_addr 0 ys \<noteq> 0 \<and> hb_state (heap_blocks s (first_addr 0 ys)) = HEAP_STATE_FREE
      then heap_merge_with_next a s else (True, s)) = (ok, t)"
  shows "ok \<and> (\<exists>n' ys'. heap_layout t (xs @ (a, n', False) # ys') \<and> used_blocks ys' = used_blocks ys \<and>
    (no_free_pair ys \<longrightarrow> no_free_pair ((a, n', False) # ys')))"
proof (cases "\<exists>b m zs. ys = (b, m, False) # zs")
  case True
  then obtain b m zs where ys: "ys = (b, m, False) # zs" by blast
  then have "heap_merge_with_next a s = (ok, t)" using run next_free_iff [OF lay] by auto
  from merge_layout [OF lay [unfolded ys] this] have "ok" "heap_layout t (xs @ (a, n + 48 + m, False) # zs)" by simp_all
  moreover have "no_free_pair ys \<Longrightarrow> no_free_pair ((a, n + 48 + m, False) # zs)"
    by (auto simp: ys successively_Cons)
  ultimately show ?thesis by (intro conjI exI [of _ "n + 48 + m"] exI [of _ zs]) (auto simp: ys)
next
  case False
  then have "ok" "t = s" using run next_free_iff [OF lay] by auto
  moreover have "no_free_pair ys \<Longrightarrow> no_free_pair ((a, n, False) # ys)"
    using False by (cases ys) auto
  ultimately show ?thesis using lay by (intro conjI exI [of _ n] exI [of _ ys]) auto
qed

lemma previous_free_iff:
  assumes "heap_layout s (xs @ (a, n, u) # ys)"
  shows "(last_addr 0 xs \<noteq> 0 \<and> hb_state (heap_blocks s (last_addr 0 xs)) = HEAP_STATE_FREE) \<longleftrightarrow>
    (\<exists>ws c l. xs = ws @ [(c, l, False)])"
proof (cases xs rule: rev_cases)
  case (snoc ws w)
  obtain c l v where w: "w = (c, l, v)" by (cases w)
  have lay: "heap_layout s (ws @ (c, l, v) # (a, n, u) # ys)" using assms snoc w by simp
  have "c \<noteq> 0" using layout_block(7) [OF lay, of c l v] by simp
  then show ?thesis using layout_cell(1) [OF lay] snoc w by simp
qed simp

lemma free_block_correct:
  assumes wf: "heap_wf s (xs @ (a, n, True) # ys)"
  shows "\<exists>s' bs'. free_block a s = (True, s') \<and> heap_wf s' bs' \<and> used_blocks bs' = used_blocks (xs @ ys)"
proof -
  have lay: "heap_layout s (xs @ (a, n, True) # ys)" and nf: "no_free_pair xs" "no_free_pair ys"
    using wf by (auto simp: heap_wf_def successively_append_iff successively_Cons)
  define s1 where "s1 = heap_refresh_block a (set_block a (\<lambda>b. b\<lparr>hb_state := HEAP_STATE_FREE\<rparr>) s)"
  have lay1: "heap_layout s1 (xs @ (a, n, False) # ys)"
    using use_block_layout(1) [OF lay, of s1 False] by (simp add: s1_def)
  have next1: "hb_next (heap_blocks s1 a) = first_addr 0 ys" using layout_cell(1) [OF lay1] by simp
  obtain ok t where m1: "(if first_addr 0 ys \<noteq> 0 \<and> hb_state (heap_blocks s1 (first_addr 0 ys)) = HEAP_STATE_FREE
      then heap_merge_with_next a s1 else (True, s1)) = (ok, t)" by force
  from merge_next_if_free [OF lay1 m1] nf(2) obtain n' ys' where ok: "ok"
    and lay2: "heap_layout t (xs @ (a, n', False) # ys')" and u2: "used_blocks ys' = used_blocks ys"
    and nf2: "no_free_pair ((a, n', False) # ys')" by blast
  have prev: "hb_prev (heap_blocks t a) = last_addr 0 xs" using layout_cell(1) [OF lay2] by simp
  have state: "hb_state (heap_blocks s a) = HEAP_STATE_USED" using layout_cell(1) [OF lay] by simp
  have fin: "free_block a s = (let (ok, u) = (if last_addr 0 xs \<noteq> 0 \<and>
          hb_state (heap_blocks t (last_addr 0 xs)) = HEAP_STATE_FREE
        then heap_merge_with_next (last_addr 0 xs) t else (True, t))
      in if \<not> ok then (False, u\<lparr>heap_corrupted := True\<rparr>)
         else if \<not> heap_validate u then (False, u\<lparr>heap_corrupted := True\<rparr>) else (True, u))"
    using m1 ok by (simp add: free_block_def state Let_def s1_def [symmetric] next1 prev)
  show ?thesis
  proof (cases "\<exists>ws c l. xs = ws @ [(c, l, False)]")
    case True
    then obtain ws c l where xs: "xs = ws @ [(c, l, False)]" by blast
    obtain ok2 u where m2: "heap_merge_with_next c t = (ok2, u)" by force
    have "heap_layout t (ws @ (c, l, False) # (a, n', False) # ys')" using lay2 xs by simp
    from merge_layout [OF this m2] have m: "ok2" "heap_layout u (ws @ (c, l + 48 + n', False) # ys')" by simp_all
    have "no_free_pair (ws @ (c, l + 48 + n', False) # ys')"
      using nf(1) nf2 by (auto simp: xs successively_append_iff successively_Cons)
    with m have wfu: "heap_wf u (ws @ (c, l + 48 + n', False) # ys')" by (simp add: heap_wf_def)
    have "free_block a s = (True, u)"
      using fin previous_free_iff [OF lay2] True m2 m(1) heap_validate_wf [OF wfu] by (auto simp: xs)
    with wfu u2 show ?thesis by (intro exI conjI) (auto simp: xs)
  next
    case False
    have "no_free_pair (xs @ (a, n', False) # ys')"
      using nf(1) nf2 False by (cases xs rule: rev_cases) (auto simp: successively_append_iff)
    with lay2 have wft: "heap_wf t (xs @ (a, n', False) # ys')" by (simp add: heap_wf_def)
    have "free_block a s = (True, t)"
      using fin previous_free_iff [OF lay2] False heap_validate_wf [OF wft] by auto
    with wft u2 show ?thesis by (intro exI conjI) auto
  qed
qed

lemma kfree_correct:
  assumes wf: "heap_wf s bs"
  shows "\<exists>ok s' bs'. kfree p s = Some (ok, s') \<and> heap_wf s' bs' \<and>
    (ok \<longleftrightarrow> (\<exists>n. (unat p, n) \<in> used_blocks bs)) \<and>
    used_blocks bs' = {(q, n) \<in> used_blocks bs. q \<noteq> unat p}"
proof -
  have lay: "heap_layout s bs" using wf by (simp add: heap_wf_def)
  have st: "heap_initialized s" "\<not> heap_corrupted s" and valid: "heap_validate s"
    using wf heap_validate_wf by (simp_all add: heap_wf_def heap_layout_def)
  obtain e where e: "heap_mapped_end s = Some e" "unat e = BASE + 4096 * unat (heap_mapped_pages s)"
    using layout_mapped_end [OF lay] by blast
  have pages: "unat (heap_mapped_pages s) \<le> 4096" using lay by (simp add: heap_layout_def)
  have payload: "unat (a + 48) = unat a + 48" if "(a, n, u) \<in> set bs" for a n u
    using layout_block(3) [OF lay that] pages by (simp add: unat_add_exact)
  have in_range: "p \<noteq> 0 \<and> \<not> p < HEAP_VIRTUAL_BASE + 48 \<and> \<not> p \<ge> e \<and> p AND 15 = 0"
    if mem: "(a, n, u) \<in> set bs" "unat p = unat a + 48" for a n u
    using layout_block(2,3,4,6) [OF lay mem(1)] mem(2) e(2)
    by (auto simp: word_less_nat_alt word_le_nat_alt and_fifteen simp flip: unat_gt_0 intro: dvd_add)
  have unused: ?thesis if res: "kfree p s = Some (False, s)" and none: "\<And>n. (unat p, n) \<notin> used_blocks bs"
    using that wf by (intro exI [of _ False] exI [of _ s] exI [of _ bs]) auto
  have usedD: "\<exists>a. (a, n, True) \<in> set bs \<and> unat p = unat a + 48" if "(unat p, n) \<in> used_blocks bs" for n
    using that by (auto simp: used_blocks_def)
  show ?thesis
  proof (cases "p = 0 \<or> p < HEAP_VIRTUAL_BASE + 48 \<or> p \<ge> e \<or> p AND 15 \<noteq> 0")
    case True
    then have "kfree p s = Some (False, s)" using st e(1) by (auto simp: kfree_def)
    moreover have "(unat p, n) \<notin> used_blocks bs" for n using usedD in_range True by blast
    ultimately show ?thesis by (rule unused)
  next
    case False
    have "find_payload_from s p (heap_first s) =
        Some (case List.find (\<lambda>b. fst b + 48 = p) bs of Some b \<Rightarrow> fst b | None \<Rightarrow> 0)"
      unfolding layout_first [OF lay]
      using lay layout_nonzero [OF lay] by (intro find_payload_from_seg) (auto simp: heap_layout_def)
    then have run: "kfree p s = (let c = (case List.find (\<lambda>b. fst b + 48 = p) bs of Some b \<Rightarrow> fst b | None \<Rightarrow> 0)
        in if c = 0 then Some (False, s) else Some (free_block c s))"
      using False st e(1) valid by (simp add: kfree_def Let_def)
    show ?thesis
    proof (cases "List.find (\<lambda>b. fst b + 48 = p) bs")
      case None
      then have "kfree p s = Some (False, s)" using run by simp
      moreover have "(unat p, n) \<notin> used_blocks bs" for n
      proof
        assume "(unat p, n) \<in> used_blocks bs"
        then obtain a where a: "(a, n, True) \<in> set bs" "unat p = unat a + 48" using usedD by blast
        then have "a + 48 = p" using payload [OF a(1)] by (simp add: word_unat_eq_iff)
        with a(1) None show False by (fastforce simp: find_None_iff)
      qed
      ultimately show ?thesis by (rule unused)
    next
      case (Some x)
      obtain a n u where x: "x = (a, n, u)" by (cases x)
      from find_split [OF Some] x obtain xs ys where bs: "bs = xs @ (a, n, u) # ys" and ap: "a + 48 = p" by auto
      have a0: "a \<noteq> 0" using layout_block(7) [OF lay, of a n u] bs by simp
      have pa: "unat p = unat a + 48" using payload [of a n u] bs ap by simp
      have others: "q \<noteq> unat p" if "(q, m) \<in> used_blocks (xs @ ys)" for q m
        using that layout_cell(4,5) [OF lay [unfolded bs]] pa
        by (auto simp: used_blocks_def image_iff simp flip: word_unat_eq_iff)
      have freerun: "kfree p s = Some (free_block a s)" using run Some x a0 by simp
      show ?thesis
      proof (cases u)
        case True
        obtain s' bs' where f: "free_block a s = (True, s')" "heap_wf s' bs'" "used_blocks bs' = used_blocks (xs @ ys)"
          using free_block_correct [of s xs a n ys] wf bs True by auto
        have "used_blocks bs = insert (unat p, n) (used_blocks (xs @ ys))" using bs True pa by simp
        then have "used_blocks (xs @ ys) = {(q, m) \<in> used_blocks bs. q \<noteq> unat p}" "(unat p, n) \<in> used_blocks bs"
          using others by auto
        with f freerun show ?thesis by (intro exI [of _ True] exI [of _ s'] exI [of _ bs']) auto
      next
        case False
        have "free_block a s = (False, s)"
          using layout_cell(1) [OF lay [unfolded bs]] False by (simp add: free_block_def)
        moreover have "(unat p, m) \<notin> used_blocks bs" for m
          using others bs False by auto
        ultimately show ?thesis using freerun by (intro unused) simp
      qed
    qed
  qed
qed

end
