(* ===== verification/HeapProps.thy ===== *)
theory HeapProps
  imports HeapRefine
begin

text \<open>
  The contract of a heap as its clients see it (\<open>block_allocator\<close>), the heap as
  a provider of it, initialisation, and the properties of kernel/core/heap.c.
\<close>

section \<open>The contract of a heap\<close>

text \<open>
  \<open>rep s U\<close> says that in state \<open>s\<close> the blocks in the hands of clients are \<open>U\<close>,
  pairs of address and size. Both operations return; 0 is the NULL pointer.
\<close>

datatype request = Allocate u64 | Release u64

fun serve :: "(u64 \<Rightarrow> 's \<Rightarrow> (u64 \<times> 's) option) \<Rightarrow> (u64 \<Rightarrow> 's \<Rightarrow> (bool \<times> 's) option) \<Rightarrow>
    request list \<Rightarrow> 's \<Rightarrow> 's option" where
  "serve get put [] s = Some s"
| "serve get put (Allocate k # rest) s = (case get k s of
     None \<Rightarrow> None | Some (p, s') \<Rightarrow> serve get put rest s')"
| "serve get put (Release p # rest) s = (case put p s of
     None \<Rightarrow> None | Some (ok, s') \<Rightarrow> serve get put rest s')"

definition blocks_disjoint :: "(nat \<times> nat) set \<Rightarrow> bool" where
  "blocks_disjoint U \<longleftrightarrow> (\<forall>(q, n) \<in> U. \<forall>(r, m) \<in> U. (q, n) = (r, m) \<or> q + n \<le> r \<or> r + m \<le> q)"

locale block_allocator =
  fixes rep :: "'s \<Rightarrow> (nat \<times> nat) set \<Rightarrow> bool"
    and get :: "u64 \<Rightarrow> 's \<Rightarrow> (u64 \<times> 's) option" and put :: "u64 \<Rightarrow> 's \<Rightarrow> (bool \<times> 's) option"
  assumes get_block: "rep s U \<Longrightarrow> \<exists>p s' U'. get k s = Some (p, s') \<and> rep s' U' \<and>
      (if p = 0 then U' = U
       else \<exists>m. unat k \<le> m \<and> (\<forall>n. (unat p, n) \<notin> U) \<and> U' = insert (unat p, m) U)"
    and put_block: "rep s U \<Longrightarrow> \<exists>ok s'. put p s = Some (ok, s') \<and>
      rep s' {(q, n) \<in> U. q \<noteq> unat p} \<and> (ok \<longleftrightarrow> (\<exists>n. (unat p, n) \<in> U))"
    and disjoint: "rep s U \<Longrightarrow> blocks_disjoint U"
begin

lemma get_then_put:
  assumes "rep s U" "get k s = Some (p, s')" "p \<noteq> 0"
  shows "\<exists>s''. put p s' = Some (True, s'') \<and> rep s'' U"
proof -
  obtain m where u: "rep s' (insert (unat p, m) U)" "\<forall>n. (unat p, n) \<notin> U"
    using get_block [OF assms(1), of k] assms(2,3) by auto
  then have "{(q, n) \<in> insert (unat p, m) U. q \<noteq> unat p} = U" by auto
  with put_block [OF u(1), of p] show ?thesis by auto
qed

lemma put_twice: "rep s U \<Longrightarrow> put p s = Some (True, s') \<Longrightarrow> \<exists>s''. put p s' = Some (False, s'')"
proof -
  assume "rep s U" "put p s = Some (True, s')"
  with put_block [of s U p] have "rep s' {(q, n) \<in> U. q \<noteq> unat p}" by auto
  from put_block [OF this, of p] show ?thesis by auto
qed

lemma serve_returns: "rep s U \<Longrightarrow> \<exists>s' U'. serve get put rs s = Some s' \<and> rep s' U' \<and> blocks_disjoint U'"
proof (induction rs arbitrary: s U)
  case Nil
  then show ?case using disjoint by auto
next
  case (Cons r rs)
  show ?case
  proof (cases r)
    case (Allocate k)
    with Cons get_block [OF Cons.prems, of k] show ?thesis by fastforce
  next
    case (Release p)
    with Cons put_block [OF Cons.prems, of p] show ?thesis by fastforce
  qed
qed

end

section \<open>The heap is a provider\<close>

definition heap_rep :: "'m heap_state \<Rightarrow> (nat \<times> nat) set \<Rightarrow> bool" where
  "heap_rep s U \<longleftrightarrow> (\<exists>bs. heap_wf s bs \<and> U = used_blocks bs)"

lemma tiled_disjoint:
  assumes "tiled lo bs hi" "(a, n, u) \<in> set bs" "(b, m, v) \<in> set bs"
  shows "(a, n, u) = (b, m, v) \<or> unat a + 48 + n \<le> unat b \<or> unat b + 48 + m \<le> unat a"
  using assms
proof (induction bs arbitrary: lo)
  case Nil
  then show ?case by simp
next
  case (Cons x bs)
  obtain c l w where x: "x = (c, l, w)" by (cases x)
  have tl: "tiled (lo + 48 + l) bs hi" "unat c = lo" using Cons.prems(1) x by simp_all
  show ?case
  proof (cases "(a, n, u) \<in> set bs \<and> (b, m, v) \<in> set bs")
    case True
    then show ?thesis using Cons.IH [OF tl(1)] by blast
  next
    case False
    then show ?thesis
      using Cons.prems(2,3) x tl tiled_bounds [OF tl(1), of a n u] tiled_bounds [OF tl(1), of b m v] by auto
  qed
qed

lemma used_blocks_disjoint:
  assumes "heap_wf s bs"
  shows "blocks_disjoint (used_blocks bs)"
proof -
  have t: "tiled BASE bs (BASE + 4096 * unat (heap_mapped_pages s))"
    using assms by (simp add: heap_wf_def heap_layout_def)
  have "(q, n) = (r, m) \<or> q + n \<le> r \<or> r + m \<le> q"
    if q: "(q, n) \<in> used_blocks bs" and r: "(r, m) \<in> used_blocks bs" for q n r m
  proof -
    obtain a b where ab: "(a, n, True) \<in> set bs" "q = unat a + 48" "(b, m, True) \<in> set bs" "r = unat b + 48"
      using q r by (auto simp: used_blocks_def)
    then show ?thesis using tiled_disjoint [OF t ab(1) ab(3)] by auto
  qed
  then show ?thesis unfolding blocks_disjoint_def by blast
qed

interpretation heap: block_allocator heap_rep "kmalloc ops" kfree for ops :: "'m pager"
proof unfold_locales
  fix s :: "'m heap_state" and U k assume "heap_rep s U"
  then obtain bs where bs: "heap_wf s bs" "U = used_blocks bs" by (auto simp: heap_rep_def)
  obtain p s' bs' where r: "kmalloc ops k s = Some (p, s')" "heap_wf s' bs'"
    "if p = 0 then used_blocks bs' = used_blocks bs
     else \<exists>m. unat k \<le> m \<and> m < unat k + 80 \<and> 0 < unat k \<and> 16 dvd unat p \<and>
       (\<forall>n. (unat p, n) \<notin> used_blocks bs) \<and> used_blocks bs' = insert (unat p, m) (used_blocks bs)"
    using kmalloc_correct [OF bs(1), of ops k] by blast
  have "heap_rep s' (used_blocks bs')" using r(2) by (auto simp: heap_rep_def)
  with r(1,3) bs(2) show "\<exists>p s' U'. kmalloc ops k s = Some (p, s') \<and> heap_rep s' U' \<and>
      (if p = 0 then U' = U
       else \<exists>m. unat k \<le> m \<and> (\<forall>n. (unat p, n) \<notin> U) \<and> U' = insert (unat p, m) U)"
    by (intro exI [of _ p] exI [of _ s'] exI [of _ "used_blocks bs'"]) (auto split: if_splits)
next
  fix s :: "'m heap_state" and U p assume "heap_rep s U"
  then obtain bs where bs: "heap_wf s bs" "U = used_blocks bs" by (auto simp: heap_rep_def)
  obtain ok s' bs' where r: "kfree p s = Some (ok, s')" "heap_wf s' bs'"
    "ok \<longleftrightarrow> (\<exists>n. (unat p, n) \<in> used_blocks bs)" "used_blocks bs' = {(q, n) \<in> used_blocks bs. q \<noteq> unat p}"
    using kfree_correct [OF bs(1), of p] by blast
  have "heap_rep s' (used_blocks bs')" using r(2) by (auto simp: heap_rep_def)
  then have "heap_rep s' {(q, n) \<in> U. q \<noteq> unat p}" unfolding r(4) bs(2) .
  with r(1,3) bs(2) show "\<exists>ok s'. kfree p s = Some (ok, s') \<and> heap_rep s' {(q, n) \<in> U. q \<noteq> unat p} \<and>
      (ok \<longleftrightarrow> (\<exists>n. (unat p, n) \<in> U))"
    by (intro exI [of _ ok] exI [of _ s'] conjI) simp_all
next
  fix s :: "'m heap_state" and U assume "heap_rep s U"
  then show "blocks_disjoint U" using used_blocks_disjoint by (auto simp: heap_rep_def)
qed

section \<open>Initialisation and statistics\<close>

lemma map_initial_page_ok:
  assumes "map_initial_page ops i (frames, s) = Inr (frames', t)"
  shows "length frames' = Suc (length frames) \<and> heap_first t = heap_first s \<and>
    heap_initialized t = heap_initialized s \<and> heap_corrupted t = heap_corrupted s"
  using assms
  by (auto simp: map_initial_page_def Let_def heap_zero_page_def split: if_splits option.splits prod.splits bool.splits)

lemma heap_init_pages:
  assumes "for_each [0..<2] (map_initial_page ops) ([], heap_reset_state s) = r"
  shows "case r of
    Inl t \<Rightarrow> heap_init ops s = (False, t) \<and> \<not> heap_initialized t
  | Inr _ \<Rightarrow> fst (heap_init ops s) \<and> heap_wf (snd (heap_init ops s)) [(HEAP_VIRTUAL_BASE, 8144, False)]"
proof -
  have two: "[0..<2] = [0, 1::nat]" by (simp add: upt_rec)
  have guards: "\<not> (HEAP_VIRTUAL_BASE AND (HEAP_PAGE_SIZE - 1) \<noteq> 0 \<or> HEAP_VIRTUAL_LIMIT AND (HEAP_PAGE_SIZE - 1) \<noteq> 0 \<or>
      HEAP_VIRTUAL_LIMIT \<le> HEAP_VIRTUAL_BASE \<or> 2 > HEAP_MAX_PAGES \<or> HEAP_PAGE_SIZE \<le> BLOCK_HEADER)" by simp
  show ?thesis
  proof (cases r)
    case (Inl t)
    have "\<not> heap_initialized t"
      using assms Inl unfolding two
      by (auto simp: map_initial_page_def Let_def heap_zero_page_def heap_reset_state_def
          split: if_splits option.splits prod.splits bool.splits sum.splits)
    then show ?thesis using assms Inl guards by (simp add: heap_init_def Let_def)
  next
    case (Inr ft)
    obtain frames t where ft: "ft = (frames, t)" by force
    obtain f1 t1 where "map_initial_page ops 0 ([], heap_reset_state s) = Inr (f1, t1)"
      "map_initial_page ops 1 (f1, t1) = Inr (frames, t)"
      using assms Inr ft unfolding two by (auto split: sum.splits)
    from map_initial_page_ok [OF this(1)] map_initial_page_ok [OF this(2)]
    have len: "length frames = 2" and t: "\<not> heap_corrupted t" by (simp_all add: heap_reset_state_def)
    define s0 where "s0 = t\<lparr>heap_mapped_pages := word_of_nat (length frames), heap_first := HEAP_VIRTUAL_BASE\<rparr>"
    define s1 where "s1 = (heap_refresh_block HEAP_VIRTUAL_BASE (set_block HEAP_VIRTUAL_BASE (\<lambda>b. b\<lparr>
        hb_size := heap_mapped_pages s0 * HEAP_PAGE_SIZE - BLOCK_HEADER, hb_prev := 0, hb_next := 0,
        hb_state := HEAP_STATE_FREE\<rparr>) s0))\<lparr>heap_initialized := True\<rparr>"
    have run: "heap_init ops s = (if \<not> heap_validate s1 then (False, s1\<lparr>heap_corrupted := True\<rparr>) else (True, s1))"
      using guards assms Inr ft by (simp add: heap_init_def Let_def s0_def s1_def)
    have wf: "heap_wf s1 [(HEAP_VIRTUAL_BASE, 8144, False)]"
      using t len by (simp add: heap_wf_def heap_layout_def s1_def s0_def)
    then show ?thesis using run heap_validate_wf [OF wf] Inr by simp
  qed
qed

lemma heap_init_correct:
  assumes "heap_init ops s = (ok, s')"
  shows "ok \<longleftrightarrow> heap_wf s' [(HEAP_VIRTUAL_BASE, 8144, False)]"
    and "\<not> ok \<Longrightarrow> \<not> heap_initialized s'"
  using heap_init_pages [OF refl, of ops s] assms
  by (auto simp: heap_wf_def heap_layout_def split: sum.splits)

lemma sum_from_seg:
  "seg (heap_blocks s) p 0 ys \<Longrightarrow> 0 \<notin> fst ` set ys \<Longrightarrow>
    sum_from s (first_addr 0 ys) used free_sum count = Some
      (used + word_of_nat (sum_list (map (\<lambda>b. if snd (snd b) then fst (snd b) else 0) ys)),
       free_sum + word_of_nat (sum_list (map (\<lambda>b. if snd (snd b) then 0 else fst (snd b)) ys)),
       count + word_of_nat (length (filter (\<lambda>b. snd (snd b)) ys)))"
proof (induction ys arbitrary: p used free_sum count)
  case Nil
  then show ?case by (simp add: sum_from.simps)
next
  case (Cons y ys)
  obtain a n u where y: "y = (a, n, u)" by (cases y)
  then show ?case
    using Cons.IH [of a] Cons.prems by (subst sum_from.simps) (auto simp: algebra_simps)
qed

lemma tiled_total: "tiled lo bs hi \<Longrightarrow> lo + (\<Sum>b\<leftarrow>bs. 48 + fst (snd b)) = hi"
  by (induction lo bs hi rule: tiled.induct) (auto simp: algebra_simps)

definition used_bytes :: "block_list \<Rightarrow> nat" where
  "used_bytes bs = (\<Sum>b\<leftarrow>bs. if snd (snd b) then fst (snd b) else 0)"

definition free_bytes :: "block_list \<Rightarrow> nat" where
  "free_bytes bs = (\<Sum>b\<leftarrow>bs. if snd (snd b) then 0 else fst (snd b))"

lemma bytes_split: "(\<Sum>b\<leftarrow>bs. 48 + fst (snd b)) = 48 * length bs + used_bytes bs + free_bytes bs"
  by (induction bs) (auto simp: used_bytes_def free_bytes_def)

lemma used_count:
  assumes "distinct (map fst bs)"
  shows "length (filter (\<lambda>b. snd (snd b)) bs) = card (used_blocks bs)"
proof -
  have "used_blocks bs = (\<lambda>(a, n, u). (unat a + 48, n)) ` set (filter (\<lambda>b. snd (snd b)) bs)"
    by (force simp: used_blocks_def)
  moreover have "inj_on (\<lambda>(a, n, u). (unat a + 48, n)) (set (filter (\<lambda>b. snd (snd b)) bs))"
    by (auto simp: inj_on_def word_unat_eq_iff)
  ultimately have "card (used_blocks bs) = card (set (filter (\<lambda>b. snd (snd b)) bs))"
    by (simp add: card_image)
  also have "\<dots> = length (filter (\<lambda>b. snd (snd b)) bs)"
    using assms by (intro distinct_card) (auto simp: distinct_map)
  finally show ?thesis ..
qed

section \<open>A heap to evaluate on\<close>

text \<open>A machine in which mapping always succeeds and every frame number is the same.\<close>

definition sample_pager :: "unit pager" where
  "sample_pager = \<lparr>pg_translate = \<lambda>_ _. None, pg_map = \<lambda>_ _ mach. (True, mach),
     pg_unmap = \<lambda>_ mach. (True, mach), pg_alloc_frame = \<lambda>mach. (Some 4096, mach),
     pg_free_frame = \<lambda>_ mach. (True, mach)\<rparr>"

definition blank_heap :: "unit heap_state" where
  "blank_heap = \<lparr>heap_first = 0, heap_mapped_pages = 0, heap_initialized = False, heap_corrupted = False,
     heap_blocks = \<lambda>_. zero_block, heap_machine = ()\<rparr>"

definition sample_heap :: "unit heap_state" where
  "sample_heap = snd (heap_init sample_pager blank_heap)"

lemma sample_heap_ready: "heap_init sample_pager blank_heap = (True, sample_heap)"
proof -
  have "[0..<2] = [0, 1::nat]" by (simp add: upt_rec)
  then have "fst (heap_init sample_pager blank_heap)"
    using heap_init_pages [OF refl, of sample_pager blank_heap]
    by (auto simp: map_initial_page_def sample_pager_def heap_reset_state_def blank_heap_def heap_zero_page_def)
  then show ?thesis by (simp add: sample_heap_def prod_eq_iff)
qed

lemma sample_heap_wf: "heap_wf sample_heap [(HEAP_VIRTUAL_BASE, 8144, False)]"
  using heap_init_correct(1) [OF sample_heap_ready] by simp

section \<open>Properties\<close>

text \<open>
  C10: The consistency check of the heap passes if and only if the heap is
  initialised, not marked as corrupted, and the linked headers from the first
  block describe a gap-free tiling of the mapped pages by 16-byte multiples with
  intact magic, guard, state and back links and no two free neighbours.
\<close>

theorem heap_validate_exact:
  "heap_validate s \<longleftrightarrow> heap_initialized s \<and> \<not> heap_corrupted s \<and> heap_first s = HEAP_VIRTUAL_BASE \<and>
    unat (heap_mapped_pages s) \<le> 4096 \<and>
    (\<exists>bs. bs \<noteq> [] \<and> tiled BASE bs (BASE + 4096 * unat (heap_mapped_pages s)) \<and>
      seg (heap_blocks s) 0 0 bs \<and> no_free_pair bs)"
  unfolding heap_validate_iff heap_wf_def heap_layout_def by blast

text \<open>
  C11: On a consistent heap \<open>kmalloc\<close> always returns and leaves a consistent heap.
  A non-NULL result is 16-byte aligned, and is the only change to the blocks in
  use: a new block of at least the requested size that overlaps none of the
  others. The result is NULL only for a request of 0 bytes, or when every free block
  is smaller than the request rounded up to a multiple of 16 (an exactly fitting
  free block is therefore always used); then no block in use changes.
\<close>

theorem kmalloc_fresh_block:
  assumes "heap_wf s bs"
  shows "\<exists>p s' bs'. kmalloc ops req s = Some (p, s') \<and> heap_wf s' bs' \<and>
    blocks_disjoint (used_blocks bs') \<and>
    (p \<noteq> 0 \<longrightarrow> 16 dvd unat p \<and> (\<forall>n. (unat p, n) \<notin> used_blocks bs) \<and>
      (\<exists>m. 0 < unat req \<and> unat req \<le> m \<and> m < unat req + 80 \<and>
        used_blocks bs' = insert (unat p, m) (used_blocks bs))) \<and>
    (p = 0 \<longrightarrow> used_blocks bs' = used_blocks bs \<and>
      (0 < unat req \<longrightarrow>
        (\<forall>(a, n, u) \<in> set bs. \<not> u \<longrightarrow> n < 16 * ((unat req + 15) div 16))))"
proof -
  obtain p s' bs' where
    r: "kmalloc ops req s = Some (p, s')" "heap_wf s' bs'"
    "if p = 0 then used_blocks bs' = used_blocks bs
     else \<exists>m. unat req \<le> m \<and> m < unat req + 80 \<and> 0 < unat req \<and> 16 dvd unat p \<and>
       (\<forall>n. (unat p, n) \<notin> used_blocks bs) \<and> used_blocks bs' = insert (unat p, m) (used_blocks bs)"
    "p = 0 \<longrightarrow> 0 < unat req \<longrightarrow>
       (\<forall>(a, n, u) \<in> set bs. \<not> u \<longrightarrow> n < 16 * ((unat req + 15) div 16))"
    using kmalloc_correct [OF assms, of ops req] by (elim exE conjE) (rule that)
  have new: "p \<noteq> 0 \<longrightarrow> 16 dvd unat p \<and> (\<forall>n. (unat p, n) \<notin> used_blocks bs) \<and>
      (\<exists>m. 0 < unat req \<and> unat req \<le> m \<and> m < unat req + 80 \<and>
        used_blocks bs' = insert (unat p, m) (used_blocks bs))"
  proof
    assume "p \<noteq> 0"
    from r(3) [unfolded if_not_P [OF this]] show "16 dvd unat p \<and> (\<forall>n. (unat p, n) \<notin> used_blocks bs) \<and>
      (\<exists>m. 0 < unat req \<and> unat req \<le> m \<and> m < unat req + 80 \<and>
        used_blocks bs' = insert (unat p, m) (used_blocks bs))" by blast
  qed
  have old: "p = 0 \<longrightarrow> used_blocks bs' = used_blocks bs \<and> (0 < unat req \<longrightarrow>
        (\<forall>(a, n, u) \<in> set bs. \<not> u \<longrightarrow> n < 16 * ((unat req + 15) div 16)))" using r(3,4) by simp
  show ?thesis
    by (intro exI [of _ p] exI [of _ s'] exI [of _ bs'] conjI r(1,2) used_blocks_disjoint [OF r(2)] new old)
qed

text \<open>The free block of 8144 bytes is handed out for a request that it fits exactly.\<close>

lemma kmalloc_fresh_block_witness:
  "\<exists>p s' bs'. kmalloc sample_pager 8135 sample_heap = Some (p, s') \<and> p \<noteq> 0 \<and> heap_wf s' bs' \<and>
    (\<exists>m. used_blocks bs' = {(unat p, m)} \<and> 8135 \<le> m)"
proof -
  obtain p s' bs' where r: "kmalloc sample_pager 8135 sample_heap = Some (p, s')" "heap_wf s' bs'"
    "p \<noteq> 0 \<longrightarrow> (\<exists>m. 8135 \<le> m \<and> used_blocks bs' = {(unat p, m)})" "p = 0 \<longrightarrow> (8144::nat) < 8144"
    using kmalloc_fresh_block [OF sample_heap_wf, of sample_pager 8135] by (auto simp: used_blocks_def)
  then show ?thesis by auto
qed

text \<open>
  C12: On a consistent heap \<open>kfree\<close> always returns and leaves a consistent heap. It
  succeeds if and only if the pointer is the payload of a block in use, and then
  exactly that block is no longer in use; otherwise no block in use changes.
\<close>

theorem kfree_exact:
  assumes "heap_wf s bs"
  shows "\<exists>ok s' bs'. kfree p s = Some (ok, s') \<and> heap_wf s' bs' \<and>
    (ok \<longleftrightarrow> (\<exists>n. (unat p, n) \<in> used_blocks bs)) \<and>
    used_blocks bs' = {(q, n) \<in> used_blocks bs. q \<noteq> unat p}"
  using kfree_correct [OF assms] .

lemma kfree_exact_witness: "\<exists>s'. kfree 0xffffff0000200030 sample_heap = Some (False, s')"
  using kfree_exact [OF sample_heap_wf, of "0xffffff0000200030"] by (auto simp: used_blocks_def)

text \<open>
  Initialisation returns true exactly when it leaves the two-page heap with one
  free block of 8144 bytes; after a failure the heap is not initialised, and then
  allocation and release refuse every call.
\<close>

theorem heap_init_exact:
  assumes "heap_init ops s = (ok, s')"
  shows "(ok \<longleftrightarrow> heap_wf s' [(HEAP_VIRTUAL_BASE, 8144, False)]) \<and>
    (\<not> ok \<longrightarrow> (\<forall>k. kmalloc ops k s' = Some (0, s')) \<and> (\<forall>p. kfree p s' = Some (False, s')))"
  using heap_init_correct [OF assms] by (auto simp: kmalloc_def kfree_def)

lemma heap_init_exact_witness: "heap_wf sample_heap [(HEAP_VIRTUAL_BASE, 8144, False)]"
  using heap_init_exact [OF sample_heap_ready] by simp

text \<open>
  C13: Any sequence of allocation and release requests on a consistent heap, valid or
  not, is served to the end, and the blocks in use afterwards do not overlap; a
  pointer just obtained can be released, which restores the blocks in use, and a
  second release of a pointer is refused.
\<close>

theorem heap_serves_clients:
  assumes "heap_rep s U"
  shows "(\<exists>s' U'. serve (kmalloc ops) kfree requests s = Some s' \<and> heap_rep s' U' \<and> blocks_disjoint U') \<and>
    (\<forall>k p s'. kmalloc ops k s = Some (p, s') \<longrightarrow> p \<noteq> 0 \<longrightarrow>
      (\<exists>s''. kfree p s' = Some (True, s'') \<and> heap_rep s'' U)) \<and>
    (\<forall>p s'. kfree p s = Some (True, s') \<longrightarrow> (\<exists>s''. kfree p s' = Some (False, s'')))"
  using heap.serve_returns [OF assms] heap.get_then_put [OF assms] heap.put_twice [OF assms] by blast

lemma heap_serves_clients_witness:
  "\<exists>s'. serve (kmalloc sample_pager) kfree [Allocate 24, Release 7, Allocate 5000, Allocate 99999] sample_heap = Some s'"
proof -
  have "heap_rep sample_heap {}" using sample_heap_wf by (auto simp: heap_rep_def used_blocks_def)
  from heap_serves_clients [OF this] show ?thesis by blast
qed

text \<open>
  The statistics of a consistent heap are always produced and exact: the bytes
  and the number of the blocks in use, the bytes of the free blocks, and together
  with one 48-byte header per block they add up to the mapped bytes.
\<close>

theorem heap_stats_exact:
  assumes "heap_wf s bs"
  shows "\<exists>stats. heap_get_stats s = Some (Some stats, s) \<and>
    unat (hs_used_bytes stats) = used_bytes bs \<and> unat (hs_free_bytes stats) = free_bytes bs \<and>
    unat (hs_allocation_count stats) = card (used_blocks bs) \<and>
    unat (hs_mapped_bytes stats) = 48 * length bs + used_bytes bs + free_bytes bs"
proof -
  have lay: "heap_layout s bs" using assms by (simp add: heap_wf_def)
  have st: "heap_initialized s" "\<not> heap_corrupted s" and pages: "unat (heap_mapped_pages s) \<le> 4096"
    and t: "tiled BASE bs (BASE + 4096 * unat (heap_mapped_pages s))" and sg: "seg (heap_blocks s) 0 0 bs"
    using lay by (simp_all add: heap_layout_def)
  have total: "48 * length bs + used_bytes bs + free_bytes bs = 4096 * unat (heap_mapped_pages s)"
    using tiled_total [OF t] bytes_split [of bs] by simp
  have count: "length (filter (\<lambda>b. snd (snd b)) bs) = card (used_blocks bs)" "card (used_blocks bs) \<le> length bs"
    using used_count [OF layout_distinct [OF lay]] length_filter_le [of "\<lambda>b. snd (snd b)" bs] by simp_all
  have "sum_from s (heap_first s) 0 0 0 = Some (word_of_nat (used_bytes bs), word_of_nat (free_bytes bs),
      word_of_nat (card (used_blocks bs)))"
    using sum_from_seg [OF sg layout_nonzero [OF lay], of 0 0 0] layout_first [OF lay]
    by (simp add: used_bytes_def free_bytes_def count)
  moreover have "unat (word_of_nat k :: u64) = k" if "k \<le> 16777216" for k
    using that by (simp add: unat_of_nat take_bit_nat_eq_self)
  moreover have "unat (heap_mapped_pages s * 4096) = 4096 * unat (heap_mapped_pages s)"
    using pages by (simp add: unat_mult_exact)
  ultimately show ?thesis
    using st heap_validate_wf [OF assms] total count(2) pages by (simp add: heap_get_stats_def)
qed

lemma heap_stats_exact_witness:
  "\<exists>stats. heap_get_stats sample_heap = Some (Some stats, sample_heap) \<and> unat (hs_free_bytes stats) = 8144"
  using heap_stats_exact [OF sample_heap_wf] by (auto simp: free_bytes_def)

end
