(* ===== verification/Ring.thy ===== *)
theory Ring
  imports Prelude
begin

text \<open>
  Ring buffers: the contract of a bounded first-in first-out queue
  (\<open>ring_queue\<close>), the two loops the code runs on its rings, and the view of an
  array with a read position and a fill count as a list (\<open>ring_items\<close>). The
  providers are the rings of kernel/core/pty.c and kernel/core/input.c.
\<close>

section \<open>The contract\<close>

text \<open>\<open>while (n < length && more) { events[n] = step; ++n; }\<close>\<close>

fun pop_while :: "('s \<Rightarrow> bool) \<Rightarrow> ('s \<Rightarrow> 'a \<times> 's) \<Rightarrow> nat \<Rightarrow> 's \<Rightarrow> 'a list \<times> 's" where
  "pop_while more step 0 s = ([], s)"
| "pop_while more step (Suc n) s =
     (if \<not> more s then ([], s)
      else let (x, s) = step s; (xs, s) = pop_while more step n s in (x # xs, s))"

text \<open>\<open>while (n < length && room) { step(bytes[n]); ++n; }\<close>, with the final \<open>n\<close>.\<close>

fun push_while :: "('s \<Rightarrow> bool) \<Rightarrow> ('a \<Rightarrow> 's \<Rightarrow> 's) \<Rightarrow> 'a list \<Rightarrow> 's \<Rightarrow> nat \<times> 's" where
  "push_while room step [] s = (0, s)"
| "push_while room step (x # xs) s =
     (if \<not> room s then (0, s)
      else let (n, s) = push_while room step xs (step x s) in (Suc n, s))"

locale ring_queue =
  fixes capacity :: nat and ring_ok :: "'s \<Rightarrow> bool" and items :: "'s \<Rightarrow> 'a list"
    and more :: "'s \<Rightarrow> bool" and room :: "'s \<Rightarrow> bool"
    and pop :: "'s \<Rightarrow> 'a \<times> 's" and push :: "'a \<Rightarrow> 's \<Rightarrow> 's"
  assumes within: "ring_ok s \<Longrightarrow> length (items s) \<le> capacity"
    and more_iff: "ring_ok s \<Longrightarrow> more s \<longleftrightarrow> items s \<noteq> []"
    and room_iff: "ring_ok s \<Longrightarrow> room s \<longleftrightarrow> length (items s) < capacity"
    and pop_first: "ring_ok s \<Longrightarrow> items s = x # xs \<Longrightarrow>
      fst (pop s) = x \<and> ring_ok (snd (pop s)) \<and> items (snd (pop s)) = xs"
    and push_last: "ring_ok s \<Longrightarrow> length (items s) < capacity \<Longrightarrow>
      ring_ok (push x s) \<and> items (push x s) = items s @ [x]"
begin

lemma pop_while_items:
  assumes "ring_ok s" "pop_while more pop n s = (xs, t)"
  shows "xs = take n (items s) \<and> ring_ok t \<and> items t = drop n (items s)"
  using assms
proof (induction n arbitrary: s xs)
  case 0
  then show ?case by simp
next
  case (Suc n)
  show ?case
  proof (cases "items s")
    case Nil
    then show ?thesis using Suc.prems more_iff [OF Suc.prems(1)] by simp
  next
    case (Cons y ys)
    obtain s1 where s1: "pop s = (y, s1)" "ring_ok s1" "items s1 = ys"
      using pop_first [OF Suc.prems(1) Cons] by (cases "pop s") auto
    obtain zs where "pop_while more pop n s1 = (zs, t)" "xs = y # zs"
      using Suc.prems(2) more_iff [OF Suc.prems(1)] Cons s1(1) by (auto split: prod.splits)
    with Suc.IH [OF s1(2)] s1(3) Cons show ?thesis by simp
  qed
qed

lemma push_while_items:
  assumes "ring_ok s" "push_while room push xs s = (n, t)"
  shows "n = min (length xs) (capacity - length (items s)) \<and> ring_ok t \<and> items t = items s @ take n xs"
  using assms
proof (induction xs arbitrary: s n)
  case Nil
  then show ?case by simp
next
  case (Cons x xs)
  show ?case
  proof (cases "length (items s) < capacity")
    case False
    then show ?thesis using Cons.prems room_iff [OF Cons.prems(1)] by simp
  next
    case True
    note p = push_last [OF Cons.prems(1) True, of x]
    obtain k where k: "push_while room push xs (push x s) = (k, t)" "n = Suc k"
      using Cons.prems(2) room_iff [OF Cons.prems(1)] True by (auto split: prod.splits)
    from True have d: "capacity - length (items s) = Suc (capacity - Suc (length (items s)))" by simp
    from Cons.IH [OF conjunct1 [OF p] k(1)] p k(2) show ?thesis by (simp add: d)
  qed
qed

end

section \<open>An array read as a queue\<close>

definition ring_items :: "'a list \<Rightarrow> nat \<Rightarrow> nat \<Rightarrow> 'a list" where
  "ring_items cells head count = map (\<lambda>i. cells ! ((head + i) mod length cells)) [0..<count]"

lemma length_ring_items [simp]: "length (ring_items cells head count) = count"
  by (simp add: ring_items_def)

lemma ring_items_zero [simp]: "ring_items cells head 0 = []"
  by (simp add: ring_items_def)

lemma ring_slot_inj:
  assumes "head < n" "i < n" "j < n" "(head + i) mod n = (head + j) mod (n :: nat)"
  shows "i = j"
proof -
  have wrap: "(head + k) mod n = (if head + k < n then head + k else head + k - n)" if "k < n" for k
    using assms(1) that by (simp add: le_mod_geq)
  show ?thesis using assms(4) wrap [OF assms(2)] wrap [OF assms(3)] assms(1-3) by (auto split: if_splits)
qed

lemma ring_items_push:
  assumes "head < length cells" "count < length cells"
  shows "ring_items (cells[(head + count) mod length cells := x]) head (Suc count) =
    ring_items cells head count @ [x]"
proof -
  have "(head + count) mod length cells \<noteq> (head + i) mod length cells" if "i < count" for i
    using ring_slot_inj [OF assms(1), of i count] that assms(2) by fastforce
  moreover have "(head + count) mod length cells < length cells" using assms(1) by (intro mod_less_divisor) auto
  ultimately show ?thesis by (simp add: ring_items_def nth_list_update)
qed

lemma ring_items_pop:
  assumes "head < length cells"
  shows "ring_items cells head (Suc count) =
    cells ! head # ring_items cells (Suc head mod length cells) count"
proof -
  have "[0..<Suc count] = 0 # map Suc [0..<count]" by (metis upt_conv_Cons zero_less_Suc map_Suc_upt)
  then show ?thesis using assms by (simp add: ring_items_def comp_def mod_simps)
qed

text \<open>Advancing an index of a ring of \<open>n\<close> cells held in a machine word.\<close>

lemma ring_advance:
  assumes "unat (i :: 'a::len word) < unat n"
  shows "unat ((i + 1) mod n) = Suc (unat i) mod unat n"
proof -
  have "unat i + unat (1 :: 'a word) \<le> unat n" using assms by (cases "LENGTH('a) = 1") auto
  then have "unat (i + 1) = unat i + unat (1 :: 'a word)" by (intro unat_add_exact le_less_trans [OF _ unsigned_less [of n]])
  then show ?thesis by (simp add: unat_mod_distrib)
qed

end
