(* ===== verification/Pty.thy ===== *)
theory Pty
  imports Ring
begin

text \<open>
  kernel/core/pty.c: eight pseudo-terminal pairs, each two byte rings between a
  master and a slave endpoint, with reference counts, a generation number that
  handles must match, and one waiting reader per endpoint. Waking a process is
  \<open>task_wake_pid\<close> of the scheduler; the calls are recorded in \<open>pty_wakes\<close>. A
  transfer takes the bytes to write as a list (\<open>None\<close> is a NULL buffer with a
  length that is not 0) or the length of the buffer to fill, and returns what was
  transferred.
\<close>

section \<open>State\<close>

abbreviation (input) KERNEL_PTY_MAX :: nat where "KERNEL_PTY_MAX \<equiv> 8"
abbreviation (input) PTY_RING_CAPACITY :: u64 where "PTY_RING_CAPACITY \<equiv> 4096"
abbreviation (input) ENDPOINT_MASTER :: u16 where "ENDPOINT_MASTER \<equiv> 0"
abbreviation (input) ENDPOINT_SLAVE :: u16 where "ENDPOINT_SLAVE \<equiv> 1"

record pty_ring =
  ring_bytes :: "u8 list"
  ring_read :: u64
  ring_write :: u64
  ring_count :: u64

record pty_pair =
  master_to_slave :: pty_ring
  slave_to_master :: pty_ring
  pair_generation :: u32
  pair_refs :: "u32 list"
  pair_waiters :: "u64 list"
  pair_used :: bool

record pty_state =
  pty_pairs :: "pty_pair list"
  pty_initialized :: bool
  pty_wakes :: "u64 list"

record pty_handle =
  handle_slot :: u16
  handle_endpoint :: u16
  handle_generation :: u32

datatype pty_result = PTY_OK | PTY_INVALID | PTY_NO_SPACE | PTY_WOULD_BLOCK | PTY_HUP

record pty_poll_state =
  poll_readable :: bool
  poll_hup :: bool

record pty_stats =
  active_pairs :: u32
  read_waiters :: u32
  references :: u64
  queued_bytes :: u64

section \<open>Pairs\<close>

definition ring_clear :: "pty_ring \<Rightarrow> pty_ring" where
  "ring_clear ring = ring\<lparr>ring_bytes := write_cells 0 (\<lambda>_. 0) 4096 (ring_bytes ring),
     ring_read := 0, ring_write := 0, ring_count := 0\<rparr>"

definition pair_reset :: "pty_pair \<Rightarrow> bool \<Rightarrow> pty_pair" where
  "pair_reset pair preserve_generation =
     pair\<lparr>master_to_slave := ring_clear (master_to_slave pair),
       slave_to_master := ring_clear (slave_to_master pair),
       pair_refs := (pair_refs pair)[0 := 0, 1 := 0],
       pair_waiters := (pair_waiters pair)[0 := 0, 1 := 0],
       pair_used := False,
       pair_generation := (if preserve_generation then pair_generation pair else 0)\<rparr>"

definition pair_from_handle :: "pty_handle \<Rightarrow> pty_state \<Rightarrow> pty_pair option" where
  "pair_from_handle handle s =
     (if unat (handle_slot handle) \<ge> KERNEL_PTY_MAX \<or> handle_endpoint handle > ENDPOINT_SLAVE \<or>
         handle_generation handle = 0 then None
      else let pair = pty_pairs s ! unat (handle_slot handle) in
        if \<not> pair_used pair \<or> pair_generation pair \<noteq> handle_generation handle \<or>
           pair_refs pair ! unat (handle_endpoint handle) = 0 then None
        else Some pair)"

definition incoming_ring :: "pty_pair \<Rightarrow> u16 \<Rightarrow> pty_ring" where
  "incoming_ring pair endpoint =
     (if endpoint = ENDPOINT_MASTER then slave_to_master pair else master_to_slave pair)"

definition outgoing_ring :: "pty_pair \<Rightarrow> u16 \<Rightarrow> pty_ring" where
  "outgoing_ring pair endpoint =
     (if endpoint = ENDPOINT_MASTER then master_to_slave pair else slave_to_master pair)"

text \<open>The stores through the pointers that \<open>incoming_ring\<close> and \<open>outgoing_ring\<close> return.\<close>

definition set_incoming :: "u16 \<Rightarrow> pty_ring \<Rightarrow> pty_pair \<Rightarrow> pty_pair" where
  "set_incoming endpoint ring pair =
     (if endpoint = ENDPOINT_MASTER then pair\<lparr>slave_to_master := ring\<rparr> else pair\<lparr>master_to_slave := ring\<rparr>)"

definition set_outgoing :: "u16 \<Rightarrow> pty_ring \<Rightarrow> pty_pair \<Rightarrow> pty_pair" where
  "set_outgoing endpoint ring pair =
     (if endpoint = ENDPOINT_MASTER then pair\<lparr>master_to_slave := ring\<rparr> else pair\<lparr>slave_to_master := ring\<rparr>)"

definition peer_endpoint :: "u16 \<Rightarrow> u16" where
  "peer_endpoint endpoint = (if endpoint = ENDPOINT_MASTER then ENDPOINT_SLAVE else ENDPOINT_MASTER)"

definition put_pair :: "u16 \<Rightarrow> pty_pair \<Rightarrow> pty_state \<Rightarrow> pty_state" where
  "put_pair slot pair s = s\<lparr>pty_pairs := (pty_pairs s)[unat slot := pair]\<rparr>"

text \<open>The pair after the wake-up and the process that is woken, if any.\<close>

definition wake_endpoint :: "pty_pair \<Rightarrow> u16 \<Rightarrow> pty_pair \<times> u64 list" where
  "wake_endpoint pair endpoint =
     (let pid = pair_waiters pair ! unat endpoint in
      if pid \<noteq> 0 then (pair\<lparr>pair_waiters := (pair_waiters pair)[unat endpoint := 0]\<rparr>, [pid])
      else (pair, []))"

definition log_wakes :: "u64 list \<Rightarrow> pty_state \<Rightarrow> pty_state" where
  "log_wakes pids s = s\<lparr>pty_wakes := pty_wakes s @ pids\<rparr>"

definition pty_init :: "pty_state \<Rightarrow> bool \<times> pty_state" where
  "pty_init s =
     (if pty_initialized s then (False, s)
      else (True, s\<lparr>pty_pairs := map (\<lambda>pair. pair_reset pair False) (pty_pairs s), pty_initialized := True\<rparr>))"

definition add_pair_stats :: "pty_stats \<Rightarrow> pty_pair \<Rightarrow> pty_stats" where
  "add_pair_stats stats pair =
     stats\<lparr>active_pairs := active_pairs stats + (if pair_used pair then 1 else 0),
       references := references stats + (ucast (pair_refs pair ! 0) + ucast (pair_refs pair ! 1)),
       read_waiters := read_waiters stats + (if pair_waiters pair ! 0 \<noteq> 0 then 1 else 0)
         + (if pair_waiters pair ! 1 \<noteq> 0 then 1 else 0),
       queued_bytes := queued_bytes stats
         + (ring_count (master_to_slave pair) + ring_count (slave_to_master pair))\<rparr>"

definition pty_get_stats :: "pty_state \<Rightarrow> pty_stats option" where
  "pty_get_stats s =
     (if \<not> pty_initialized s then None
      else Some (foldl add_pair_stats
        \<lparr>active_pairs = 0, read_waiters = 0, references = 0, queued_bytes = 0\<rparr> (pty_pairs s)))"

section \<open>Life of a pair\<close>

fun find_unused :: "nat \<Rightarrow> pty_pair list \<Rightarrow> (nat \<times> pty_pair) option" where
  "find_unused index [] = None"
| "find_unused index (pair # pairs) =
     (if \<not> pair_used pair then Some (index, pair) else find_unused (Suc index) pairs)"

definition pty_create_pair :: "pty_state \<Rightarrow> pty_result \<times> (pty_handle \<times> pty_handle) option \<times> pty_state" where
  "pty_create_pair s =
     (if \<not> pty_initialized s then (PTY_INVALID, None, s)
      else case find_unused 0 (pty_pairs s) of
        None \<Rightarrow> (PTY_NO_SPACE, None, s)
      | Some (index, pair) \<Rightarrow>
          let pair = pair_reset pair True;
              pair = pair\<lparr>pair_generation := pair_generation pair + 1\<rparr>;
              pair = (if pair_generation pair = 0
                      then pair\<lparr>pair_generation := pair_generation pair + 1\<rparr> else pair);
              pair = pair\<lparr>pair_refs := (pair_refs pair)[0 := 1, 1 := 1], pair_used := True\<rparr>;
              slot = word_of_nat index
          in (PTY_OK,
              Some (\<lparr>handle_slot = slot, handle_endpoint = ENDPOINT_MASTER, handle_generation = pair_generation pair\<rparr>,
                    \<lparr>handle_slot = slot, handle_endpoint = ENDPOINT_SLAVE, handle_generation = pair_generation pair\<rparr>),
              put_pair slot pair s))"

definition pty_retain :: "pty_handle \<Rightarrow> pty_state \<Rightarrow> pty_result \<times> pty_state" where
  "pty_retain handle s = (case pair_from_handle handle s of
     None \<Rightarrow> (PTY_INVALID, s)
   | Some pair \<Rightarrow>
       let e = unat (handle_endpoint handle) in
       if pair_refs pair ! e = UINT32_MAX then (PTY_INVALID, s)
       else (PTY_OK, put_pair (handle_slot handle)
         (pair\<lparr>pair_refs := (pair_refs pair)[e := pair_refs pair ! e + 1]\<rparr>) s))"

definition pty_close :: "pty_handle \<Rightarrow> pty_state \<Rightarrow> pty_result \<times> pty_state" where
  "pty_close handle s = (case pair_from_handle handle s of
     None \<Rightarrow> (PTY_INVALID, s)
   | Some pair \<Rightarrow>
       let e = unat (handle_endpoint handle);
           pair = pair\<lparr>pair_refs := (pair_refs pair)[e := pair_refs pair ! e - 1]\<rparr>;
           (pair, woken) =
             (if pair_refs pair ! e = 0 then
                wake_endpoint (pair\<lparr>pair_waiters := (pair_waiters pair)[e := 0]\<rparr>)
                  (peer_endpoint (handle_endpoint handle))
              else (pair, []));
           pair = (if pair_refs pair ! 0 = 0 \<and> pair_refs pair ! 1 = 0 then pair_reset pair True else pair)
       in (PTY_OK, log_wakes woken (put_pair (handle_slot handle) pair s)))"

section \<open>Transfers\<close>

definition ring_more :: "pty_ring \<Rightarrow> bool" where
  "ring_more ring \<longleftrightarrow> ring_count ring \<noteq> 0"

definition ring_room :: "pty_ring \<Rightarrow> bool" where
  "ring_room ring \<longleftrightarrow> ring_count ring < PTY_RING_CAPACITY"

definition ring_pop :: "pty_ring \<Rightarrow> u8 \<times> pty_ring" where
  "ring_pop ring = (ring_bytes ring ! unat (ring_read ring),
     ring\<lparr>ring_read := (ring_read ring + 1) mod PTY_RING_CAPACITY, ring_count := ring_count ring - 1\<rparr>)"

definition ring_push :: "u8 \<Rightarrow> pty_ring \<Rightarrow> pty_ring" where
  "ring_push byte ring =
     ring\<lparr>ring_bytes := (ring_bytes ring)[unat (ring_write ring) := byte],
       ring_write := (ring_write ring + 1) mod PTY_RING_CAPACITY, ring_count := ring_count ring + 1\<rparr>"

text \<open>Reading into a buffer of \<open>length\<close> bytes (\<open>buffer_null\<close>: the pointer is NULL) gives the bytes stored there.\<close>

definition pty_read :: "pty_handle \<Rightarrow> bool \<Rightarrow> u64 \<Rightarrow> pty_state \<Rightarrow> pty_result \<times> u8 list \<times> pty_state" where
  "pty_read handle buffer_null len s = (case pair_from_handle handle s of
     None \<Rightarrow> (PTY_INVALID, [], s)
   | Some pair \<Rightarrow>
       if buffer_null \<and> len \<noteq> 0 then (PTY_INVALID, [], s)
       else if len = 0 then (PTY_OK, [], s)
       else
         let peer = peer_endpoint (handle_endpoint handle);
             (bytes, ring) = pop_while ring_more ring_pop (unat len) (incoming_ring pair (handle_endpoint handle));
             s' = put_pair (handle_slot handle) (set_incoming (handle_endpoint handle) ring pair) s
         in if bytes \<noteq> [] then (PTY_OK, bytes, s')
            else (if pair_refs pair ! unat peer = 0 then PTY_HUP else PTY_WOULD_BLOCK, [], s'))"

definition pty_write :: "pty_handle \<Rightarrow> u8 list option \<Rightarrow> pty_state \<Rightarrow> pty_result \<times> nat \<times> pty_state" where
  "pty_write handle buffer s = (case pair_from_handle handle s of
     None \<Rightarrow> (PTY_INVALID, 0, s)
   | Some pair \<Rightarrow> (case buffer of
       None \<Rightarrow> (PTY_INVALID, 0, s)
     | Some bytes \<Rightarrow>
         let peer = peer_endpoint (handle_endpoint handle) in
         if pair_refs pair ! unat peer = 0 then (PTY_HUP, 0, s)
         else
           let (transferred, ring) = push_while ring_room ring_push bytes (outgoing_ring pair (handle_endpoint handle));
               pair = set_outgoing (handle_endpoint handle) ring pair
           in if transferred \<noteq> 0 then
                let (pair, woken) = wake_endpoint pair peer
                in (PTY_OK, transferred, log_wakes woken (put_pair (handle_slot handle) pair s))
              else (PTY_WOULD_BLOCK, 0, put_pair (handle_slot handle) pair s)))"

definition pty_poll :: "pty_handle \<Rightarrow> pty_state \<Rightarrow> pty_result \<times> pty_poll_state option" where
  "pty_poll handle s = (case pair_from_handle handle s of
     None \<Rightarrow> (PTY_INVALID, None)
   | Some pair \<Rightarrow> (PTY_OK, Some
       \<lparr>poll_readable = (ring_count (incoming_ring pair (handle_endpoint handle)) \<noteq> 0),
         poll_hup = (pair_refs pair ! unat (peer_endpoint (handle_endpoint handle)) = 0)\<rparr>))"

definition pty_arm_read_waiter :: "pty_handle \<Rightarrow> u64 \<Rightarrow> pty_state \<Rightarrow> pty_result \<times> pty_state" where
  "pty_arm_read_waiter handle pid s = (case pair_from_handle handle s of
     None \<Rightarrow> (PTY_INVALID, s)
   | Some pair \<Rightarrow>
       if pid = 0 then (PTY_INVALID, s)
       else (PTY_OK, put_pair (handle_slot handle)
         (pair\<lparr>pair_waiters := (pair_waiters pair)[unat (handle_endpoint handle) := pid]\<rparr>) s))"

definition pty_cancel_read_waiter :: "pty_handle \<Rightarrow> u64 \<Rightarrow> pty_state \<Rightarrow> pty_state" where
  "pty_cancel_read_waiter handle pid s = (case pair_from_handle handle s of
     None \<Rightarrow> s
   | Some pair \<Rightarrow>
       if pair_waiters pair ! unat (handle_endpoint handle) = pid then
         put_pair (handle_slot handle)
           (pair\<lparr>pair_waiters := (pair_waiters pair)[unat (handle_endpoint handle) := 0]\<rparr>) s
       else s)"

end
