(* ===== verification/PtyProps.thy ===== *)
theory PtyProps
  imports Pty
begin

text \<open>
  What the pseudo-terminals of kernel/core/pty.c guarantee: the rings are first-in
  first-out queues (an instance of \<open>ring_queue\<close>), the invariant of all reachable
  states, which handles are live after each operation, and that the bytes accepted
  from one endpoint are delivered to the other in order without loss.
\<close>

section \<open>The rings\<close>

definition ring_wf :: "pty_ring \<Rightarrow> bool" where
  "ring_wf r \<longleftrightarrow> length (ring_bytes r) = 4096 \<and> unat (ring_read r) < 4096 \<and> unat (ring_count r) \<le> 4096 \<and>
     unat (ring_write r) = (unat (ring_read r) + unat (ring_count r)) mod 4096"

definition ring_contents :: "pty_ring \<Rightarrow> u8 list" where
  "ring_contents r = ring_items (ring_bytes r) (unat (ring_read r)) (unat (ring_count r))"

lemma length_ring_contents [simp]: "length (ring_contents r) = unat (ring_count r)"
  by (simp add: ring_contents_def)

lemma ring_contents_empty [simp]: "ring_contents r = [] \<longleftrightarrow> ring_count r = 0"
  by (metis length_0_conv length_ring_contents unat_eq_zero)

lemma ring_clear_wf: "length (ring_bytes r) = 4096 \<Longrightarrow> ring_wf (ring_clear r) \<and> ring_contents (ring_clear r) = []"
  by (simp add: ring_wf_def ring_clear_def)

lemma ring_pop_contents:
  assumes "ring_wf r" "ring_contents r = x # xs"
  shows "fst (ring_pop r) = x \<and> ring_wf (snd (ring_pop r)) \<and> ring_contents (snd (ring_pop r)) = xs"
proof -
  define n where "n = unat (ring_count r) - 1"
  have c: "unat (ring_count r) = Suc n"
    using assms(2) length_ring_contents [of r] by (simp add: n_def)
  have r: "length (ring_bytes r) = 4096" "unat (ring_read r) < 4096"
    using assms(1) by (simp_all add: ring_wf_def)
  have i: "unat ((ring_read r + 1) mod 4096) = Suc (unat (ring_read r)) mod 4096"
    using ring_advance [of "ring_read r" 4096] r(2) by simp
  have "ring_count r \<noteq> 0" using c by auto
  then have d: "unat (ring_count r - 1) = n" using c by (simp add: unat_minus_one)
  have "ring_contents r = ring_bytes r ! unat (ring_read r) #
      ring_items (ring_bytes r) (Suc (unat (ring_read r)) mod 4096) n"
    using ring_items_pop [of "unat (ring_read r)" "ring_bytes r" n] r by (simp add: ring_contents_def c)
  moreover have "(Suc (unat (ring_read r)) mod 4096 + n) mod 4096 = (unat (ring_read r) + Suc n) mod 4096"
    by (simp add: mod_simps)
  ultimately show ?thesis
    using assms i d c by (simp add: ring_pop_def ring_wf_def ring_contents_def)
qed

lemma ring_push_contents:
  assumes "ring_wf r" "length (ring_contents r) < 4096"
  shows "ring_wf (ring_push x r) \<and> ring_contents (ring_push x r) = ring_contents r @ [x]"
proof -
  have r: "length (ring_bytes r) = 4096" "unat (ring_read r) < 4096" "unat (ring_count r) < 4096"
    "unat (ring_write r) = (unat (ring_read r) + unat (ring_count r)) mod 4096"
    using assms by (simp_all add: ring_wf_def)
  have w: "unat ((ring_write r + 1) mod 4096) = Suc (unat (ring_write r)) mod 4096"
    using ring_advance [of "ring_write r" 4096] r(4) by simp
  have c: "unat (ring_count r + 1) = Suc (unat (ring_count r))"
    using r(3) by (simp add: unat_add_exact)
  show ?thesis
    using ring_items_push [of "unat (ring_read r)" "ring_bytes r" "unat (ring_count r)" x] r w c
    by (simp add: ring_push_def ring_wf_def ring_contents_def mod_simps)
qed

interpretation pty_ring: ring_queue 4096 ring_wf ring_contents ring_more ring_room ring_pop ring_push
proof unfold_locales
  fix r assume wf: "ring_wf r"
  show "length (ring_contents r) \<le> 4096" using wf by (simp add: ring_wf_def)
  show "ring_more r \<longleftrightarrow> ring_contents r \<noteq> []" by (simp add: ring_more_def)
  show "ring_room r \<longleftrightarrow> length (ring_contents r) < 4096" by (simp add: ring_room_def word_less_nat_alt)
qed (rule ring_pop_contents ring_push_contents; assumption)+

section \<open>The invariant\<close>

definition pair_wf :: "pty_pair \<Rightarrow> bool" where
  "pair_wf p \<longleftrightarrow> ring_wf (master_to_slave p) \<and> ring_wf (slave_to_master p) \<and>
     length (pair_refs p) = 2 \<and> length (pair_waiters p) = 2 \<and>
     (\<forall>e \<in> {0, 1}. pair_waiters p ! e \<noteq> 0 \<longrightarrow> pair_refs p ! e \<noteq> 0) \<and>
     (if pair_used p then pair_generation p \<noteq> 0 \<and> (pair_refs p ! 0 \<noteq> 0 \<or> pair_refs p ! 1 \<noteq> 0)
      else pair_refs p ! 0 = 0 \<and> pair_refs p ! 1 = 0 \<and>
        ring_contents (master_to_slave p) = [] \<and> ring_contents (slave_to_master p) = [])"

definition pty_wf :: "pty_state \<Rightarrow> bool" where
  "pty_wf s \<longleftrightarrow> pty_initialized s \<and> length (pty_pairs s) = 8 \<and> (\<forall>p \<in> set (pty_pairs s). pair_wf p)"

lemma u16_bit_cases: "\<not> (x :: u16) > 1 \<Longrightarrow> x = 0 \<or> x = 1"
  by (auto simp: word_less_nat_alt word_unat_eq_iff)

lemma pair_from_handleD:
  assumes "pair_from_handle h s = Some p" "pty_wf s"
  shows "unat (handle_slot h) < 8" "p = pty_pairs s ! unat (handle_slot h)" "pair_wf p" "pair_used p"
    "pair_generation p = handle_generation h" "handle_generation h \<noteq> 0"
    "pair_refs p ! unat (handle_endpoint h) \<noteq> 0" "handle_endpoint h = 0 \<or> handle_endpoint h = 1"
  using assms u16_bit_cases [of "handle_endpoint h"]
  by (auto simp: pair_from_handle_def Let_def pty_wf_def split: if_splits)

lemma put_pair_wf: "pty_wf s \<Longrightarrow> pair_wf p \<Longrightarrow> pty_wf (put_pair slot p s)"
  unfolding pty_wf_def put_pair_def using set_update_subset_insert [of "pty_pairs s" "unat slot" p] by auto

lemma log_wakes_wf [simp]: "pty_wf (log_wakes pids s) \<longleftrightarrow> pty_wf s"
  by (simp add: pty_wf_def log_wakes_def)

lemma pair_reset_wf:
  assumes "length (ring_bytes (master_to_slave p)) = 4096" "length (ring_bytes (slave_to_master p)) = 4096"
    "length (pair_refs p) = 2" "length (pair_waiters p) = 2"
  shows "pair_wf (pair_reset p keep)"
  using assms ring_clear_wf [of "master_to_slave p"] ring_clear_wf [of "slave_to_master p"]
  by (simp add: pair_wf_def pair_reset_def nth_list_update)

lemma pair_wf_rings: "pair_wf p \<Longrightarrow> length (ring_bytes (master_to_slave p)) = 4096 \<and>
    length (ring_bytes (slave_to_master p)) = 4096 \<and> length (pair_refs p) = 2 \<and> length (pair_waiters p) = 2"
  by (simp add: pair_wf_def ring_wf_def)

lemma wake_endpoint_wf:
  assumes "pair_wf p" "e = 0 \<or> e = 1"
  shows "pair_wf (fst (wake_endpoint p e))"
  using assms by (auto simp: wake_endpoint_def Let_def pair_wf_def nth_list_update)

lemma incoming_wf: "pair_wf p \<Longrightarrow> ring_wf (incoming_ring p e)"
  by (simp add: pair_wf_def incoming_ring_def)

lemma outgoing_wf: "pair_wf p \<Longrightarrow> ring_wf (outgoing_ring p e)"
  by (simp add: pair_wf_def outgoing_ring_def)

lemma set_incoming_wf: "pair_wf p \<Longrightarrow> pair_used p \<Longrightarrow> ring_wf r \<Longrightarrow> pair_wf (set_incoming e r p)"
  by (simp add: pair_wf_def set_incoming_def)

lemma set_outgoing_wf: "pair_wf p \<Longrightarrow> pair_used p \<Longrightarrow> ring_wf r \<Longrightarrow> pair_wf (set_outgoing e r p)"
  by (simp add: pair_wf_def set_outgoing_def)

lemma peer_cases: "peer_endpoint e = 0 \<or> peer_endpoint e = 1"
  by (simp add: peer_endpoint_def)

section \<open>Abstract view\<close>

text \<open>
  \<open>stream s slot e\<close>: the bytes on their way to endpoint \<open>e\<close> of a pair.
  \<open>handle_count s h\<close>: how many references to handle \<open>h\<close> are held, 0 for a handle
  that is not live.
\<close>

definition stream :: "pty_state \<Rightarrow> u16 \<Rightarrow> u16 \<Rightarrow> u8 list" where
  "stream s slot e = ring_contents (incoming_ring (pty_pairs s ! unat slot) e)"

definition handle_count :: "pty_state \<Rightarrow> pty_handle \<Rightarrow> nat" where
  "handle_count s h = (case pair_from_handle h s of
     None \<Rightarrow> 0 | Some p \<Rightarrow> unat (pair_refs p ! unat (handle_endpoint h)))"

definition peer_open :: "pty_state \<Rightarrow> pty_handle \<Rightarrow> bool" where
  "peer_open s h \<longleftrightarrow>
     pair_refs (pty_pairs s ! unat (handle_slot h)) ! unat (peer_endpoint (handle_endpoint h)) \<noteq> 0"

lemma handle_count_pos: "0 < handle_count s h \<longleftrightarrow> (\<exists>p. pair_from_handle h s = Some p)"
  by (auto simp: handle_count_def pair_from_handle_def Let_def unat_gt_0 split: if_splits)

lemma handle_count_eq:
  "handle_count s h =
     (let p = pty_pairs s ! unat (handle_slot h) in
      if unat (handle_slot h) < 8 \<and> handle_endpoint h \<le> 1 \<and> handle_generation h \<noteq> 0 \<and> pair_used p \<and>
         pair_generation p = handle_generation h
      then unat (pair_refs p ! unat (handle_endpoint h)) else 0)"
  by (auto simp: handle_count_def pair_from_handle_def Let_def not_le)

lemma put_pair_other: "slot' \<noteq> slot \<Longrightarrow> pty_pairs (put_pair slot q s) ! unat slot' = pty_pairs s ! unat slot'"
  by (simp add: put_pair_def word_unat_eq_iff)

lemma put_pair_same:
  "pty_wf s \<Longrightarrow> unat slot < 8 \<Longrightarrow> pty_pairs (put_pair slot q s) ! unat slot = q"
  by (simp add: put_pair_def pty_wf_def)

lemma put_pair_id: "p = pty_pairs s ! unat slot \<Longrightarrow> put_pair slot p s = s"
  by (simp add: put_pair_def)

lemma log_wakes_pairs [simp]: "pty_pairs (log_wakes pids s) = pty_pairs s"
  by (simp add: log_wakes_def)

lemma log_wakes_counts [simp]: "handle_count (log_wakes pids s) = handle_count s"
  by (simp add: fun_eq_iff handle_count_eq)

lemma log_wakes_stream [simp]: "stream (log_wakes pids s) = stream s"
  by (simp add: fun_eq_iff stream_def)

text \<open>A pair stored back with the same references leaves every handle's count.\<close>

lemma put_pair_counts:
  assumes "pty_wf s" "unat slot < 8" "p = pty_pairs s ! unat slot"
    "pair_used q = pair_used p" "pair_generation q = pair_generation p" "pair_refs q = pair_refs p"
  shows "handle_count (put_pair slot q s) = handle_count s"
proof
  fix g
  show "handle_count (put_pair slot q s) g = handle_count s g"
    using assms put_pair_same [OF assms(1,2), of q] put_pair_other [of "handle_slot g" slot q s]
    by (cases "handle_slot g = slot") (simp_all add: handle_count_eq Let_def)
qed

lemma set_ring_fields [simp]:
  "pair_used (set_incoming e r p) = pair_used p" "pair_generation (set_incoming e r p) = pair_generation p"
  "pair_refs (set_incoming e r p) = pair_refs p" "pair_waiters (set_incoming e r p) = pair_waiters p"
  "pair_used (set_outgoing e r p) = pair_used p" "pair_generation (set_outgoing e r p) = pair_generation p"
  "pair_refs (set_outgoing e r p) = pair_refs p" "pair_waiters (set_outgoing e r p) = pair_waiters p"
  by (simp_all add: set_incoming_def set_outgoing_def)

lemma incoming_set:
  "incoming_ring (set_incoming e r p) e' = (if (e' = 0) = (e = 0) then r else incoming_ring p e')"
  "incoming_ring (set_outgoing e r p) e' = (if (e' = 0) = (e = 0) then incoming_ring p e' else r)"
  by (auto simp: incoming_ring_def set_incoming_def set_outgoing_def)

lemma outgoing_is_incoming: "outgoing_ring p e = incoming_ring p (peer_endpoint e)"
  by (simp add: incoming_ring_def outgoing_ring_def peer_endpoint_def)

lemma incoming_waiters [simp]:
  "incoming_ring (p\<lparr>pair_waiters := w\<rparr>) e = incoming_ring p e"
  "incoming_ring (p\<lparr>pair_refs := c\<rparr>) e = incoming_ring p e"
  by (simp_all add: incoming_ring_def)

section \<open>Each operation on the abstract view\<close>

lemma pty_read_correct:
  assumes wf: "pty_wf s" and h: "pair_from_handle h s = Some p" and ok: "\<not> (null \<and> len \<noteq> 0)"
  shows "\<exists>r bytes. pty_read h null len s =
      (if len = 0 \<or> bytes \<noteq> [] then PTY_OK else if peer_open s h then PTY_WOULD_BLOCK else PTY_HUP,
       bytes, put_pair (handle_slot h) (set_incoming (handle_endpoint h) r p) s) \<and>
    ring_wf r \<and> bytes = take (unat len) (stream s (handle_slot h) (handle_endpoint h)) \<and>
    ring_contents r = drop (unat len) (stream s (handle_slot h) (handle_endpoint h))"
proof -
  note d = pair_from_handleD [OF h wf]
  define ring where "ring = incoming_ring p (handle_endpoint h)"
  have ring: "ring_wf ring" "ring_contents ring = stream s (handle_slot h) (handle_endpoint h)"
    using incoming_wf [OF d(3)] d(2) by (simp_all add: ring_def stream_def)
  obtain bytes r where run: "pop_while ring_more ring_pop (unat len) ring = (bytes, r)" by force
  note popped = pty_ring.pop_while_items [OF ring(1) run]
  show ?thesis
  proof (cases "len = 0")
    case True
    have "set_incoming (handle_endpoint h) ring p = p"
      by (simp add: set_incoming_def ring_def incoming_ring_def)
    then have "put_pair (handle_slot h) (set_incoming (handle_endpoint h) ring p) s = s"
      using d(2) by (simp add: put_pair_id)
    then show ?thesis using True h ring by (intro exI [of _ ring] exI [of _ "[]"]) (simp add: pty_read_def)
  next
    case False
    then show ?thesis
      using h ok run popped d(2) ring
      by (intro exI [of _ r] exI [of _ bytes]) (simp add: pty_read_def ring_def peer_open_def)
  qed
qed

lemma pty_write_correct:
  assumes wf: "pty_wf s" and h: "pair_from_handle h s = Some p" and open_peer: "peer_open s h"
  shows "\<exists>r n w. pty_write h (Some bytes) s =
      (if n = 0 then PTY_WOULD_BLOCK else PTY_OK, n,
       log_wakes (if n = 0 \<or> w = 0 then [] else [w])
         (put_pair (handle_slot h)
           ((set_outgoing (handle_endpoint h) r p)\<lparr>pair_waiters := (if n = 0 then pair_waiters p
              else (pair_waiters p)[unat (peer_endpoint (handle_endpoint h)) := 0])\<rparr>) s)) \<and>
    w = pair_waiters p ! unat (peer_endpoint (handle_endpoint h)) \<and> ring_wf r \<and>
    n = min (length bytes) (4096 - length (stream s (handle_slot h) (peer_endpoint (handle_endpoint h)))) \<and>
    ring_contents r = stream s (handle_slot h) (peer_endpoint (handle_endpoint h)) @ take n bytes"
proof -
  note d = pair_from_handleD [OF h wf]
  define ring where "ring = outgoing_ring p (handle_endpoint h)"
  have ring: "ring_wf ring" "ring_contents ring = stream s (handle_slot h) (peer_endpoint (handle_endpoint h))"
    using outgoing_wf [OF d(3)] d(2) by (simp_all add: ring_def stream_def outgoing_is_incoming)
  obtain n r where run: "push_while ring_room ring_push bytes ring = (n, r)" by force
  note pushed = pty_ring.push_while_items [OF ring(1) run]
  have none: "log_wakes [] t = t" for t by (simp add: log_wakes_def)
  have same: "q\<lparr>pair_waiters := pair_waiters p\<rparr> = q" if "pair_waiters q = pair_waiters p" for q :: pty_pair
    using that by simp
  have clear: "pair_waiters p = (pair_waiters p)[e := 0]" if "pair_waiters p ! e = 0" for e
    using that list_update_id [of "pair_waiters p" e] by simp
  define w where "w = pair_waiters p ! unat (peer_endpoint (handle_endpoint h))"
  define q where "q = set_outgoing (handle_endpoint h) r p"
  have q: "pair_waiters q = pair_waiters p" by (simp add: q_def)
  have peer: "pair_refs p ! unat (peer_endpoint (handle_endpoint h)) \<noteq> 0"
    using open_peer d(2) by (simp add: peer_open_def)
  have wake: "wake_endpoint q (peer_endpoint (handle_endpoint h)) =
      (q\<lparr>pair_waiters := (pair_waiters p)[unat (peer_endpoint (handle_endpoint h)) := 0]\<rparr>,
       if w = 0 then [] else [w])"
    using clear [of "unat (peer_endpoint (handle_endpoint h))"] q same [OF q]
    by (auto simp: wake_endpoint_def w_def)
  have R: "pty_write h (Some bytes) s =
      (if n = 0 then PTY_WOULD_BLOCK else PTY_OK, n,
       log_wakes (if n = 0 \<or> w = 0 then [] else [w])
         (put_pair (handle_slot h) (q\<lparr>pair_waiters := (if n = 0 then pair_waiters p
              else (pair_waiters p)[unat (peer_endpoint (handle_endpoint h)) := 0])\<rparr>) s))"
    using h peer run wake same [OF q]
    by (simp add: pty_write_def Let_def ring_def [symmetric] q_def [symmetric] none)
  show ?thesis
    by (intro exI [of _ r] exI [of _ n] exI [of _ w] conjI R [unfolded q_def] w_def)
      (use pushed [unfolded ring(2)] in blast)+
qed

text \<open>Reads and writes that are refused change nothing.\<close>

lemma pty_read_refused:
  "pair_from_handle h s = None \<or> (null \<and> len \<noteq> 0) \<Longrightarrow> pty_read h null len s = (PTY_INVALID, [], s)"
  by (auto simp: pty_read_def split: option.splits)

lemma pty_write_refused:
  "pair_from_handle h s = None \<or> buffer = None \<Longrightarrow> pty_write h buffer s = (PTY_INVALID, 0, s)"
  "pty_wf s \<Longrightarrow> pair_from_handle h s = Some p \<Longrightarrow> \<not> peer_open s h \<Longrightarrow> pty_write h (Some bytes) s = (PTY_HUP, 0, s)"
  using pair_from_handleD(2) [of h s p]
  by (auto simp: pty_write_def peer_open_def Let_def split: option.splits)

text \<open>What a read and a write leave as they were, and the stream they change.\<close>

lemma put_pair_stream:
  assumes "pty_wf s" "unat slot < 8" "e \<le> 1"
    "incoming_ring q e = r" "\<And>e'. e' \<le> 1 \<Longrightarrow> e' \<noteq> e \<Longrightarrow> incoming_ring q e' = incoming_ring (pty_pairs s ! unat slot) e'"
  shows "stream (put_pair slot q s) slot e = ring_contents r"
    and "e' \<le> 1 \<Longrightarrow> (slot', e') \<noteq> (slot, e) \<Longrightarrow> stream (put_pair slot q s) slot' e' = stream s slot' e'"
  using assms put_pair_same [OF assms(1,2), of q] put_pair_other [of slot' slot q s]
  by (cases "slot' = slot"; auto simp: stream_def)+

lemma endpoint_eq_iff: "(e :: u16) \<le> 1 \<Longrightarrow> e' \<le> 1 \<Longrightarrow> (e = 0) = (e' = 0) \<longleftrightarrow> e = e'"
  using u16_bit_cases [of e] u16_bit_cases [of e'] by (auto simp: not_less)

lemma peer_le [simp]: "peer_endpoint e \<le> 1"
  by (simp add: peer_endpoint_def)

lemma not_peer_iff: "e' \<le> 1 \<Longrightarrow> e \<le> 1 \<Longrightarrow> (e' = 0) = (e = 0) \<longleftrightarrow> e' \<noteq> peer_endpoint e"
proof -
  assume "e' \<le> 1" "e \<le> 1"
  then have "e' = 0 \<or> e' = 1" "e = 0 \<or> e = 1"
    using u16_bit_cases [of e] u16_bit_cases [of e'] by (simp_all add: not_less)
  then show ?thesis by (elim disjE) (simp_all add: peer_endpoint_def)
qed

lemma handle_endpoint_le: "pair_from_handle h s = Some p \<Longrightarrow> handle_endpoint h \<le> 1"
  by (auto simp: pair_from_handle_def Let_def not_less split: if_splits)

lemma pty_read_effect:
  assumes wf: "pty_wf s" and run: "pty_read h null len s = (res, bytes, s')"
  shows "pty_wf s' \<and> handle_count s' = handle_count s \<and> pty_wakes s' = pty_wakes s \<and>
    stream s (handle_slot h) (handle_endpoint h) = bytes @ stream s' (handle_slot h) (handle_endpoint h) \<and>
    (\<forall>slot e. e \<le> 1 \<longrightarrow> (slot, e) \<noteq> (handle_slot h, handle_endpoint h) \<longrightarrow> stream s' slot e = stream s slot e)"
proof (cases "pair_from_handle h s = None \<or> (null \<and> len \<noteq> 0)")
  case True
  then show ?thesis using run wf pty_read_refused by auto
next
  case False
  then obtain p where h: "pair_from_handle h s = Some p" and ok: "\<not> (null \<and> len \<noteq> 0)" by auto
  note d = pair_from_handleD [OF h wf]
  obtain r where r: "s' = put_pair (handle_slot h) (set_incoming (handle_endpoint h) r p) s" "ring_wf r"
    "bytes = take (unat len) (stream s (handle_slot h) (handle_endpoint h))"
    "ring_contents r = drop (unat len) (stream s (handle_slot h) (handle_endpoint h))"
    using pty_read_correct [OF wf h ok] run by auto
  note le = handle_endpoint_le [OF h]
  have rings: "incoming_ring (set_incoming (handle_endpoint h) r p) (handle_endpoint h) = r"
    "\<And>e'. e' \<le> 1 \<Longrightarrow> e' \<noteq> handle_endpoint h \<Longrightarrow> incoming_ring (set_incoming (handle_endpoint h) r p) e' =
       incoming_ring (pty_pairs s ! unat (handle_slot h)) e'"
    using endpoint_eq_iff [OF _ le] d(2) by (auto simp: incoming_set)
  note st = put_pair_stream [OF wf d(1) le rings, folded r(1)]
  have "pty_wf s'" unfolding r(1) by (intro put_pair_wf wf set_incoming_wf d(3,4) r(2))
  moreover have "handle_count s' = handle_count s"
    unfolding r(1) by (rule put_pair_counts [OF wf d(1,2)]) simp_all
  moreover have "pty_wakes s' = pty_wakes s" by (simp add: r(1) put_pair_def)
  ultimately show ?thesis using st r(3,4) by simp
qed

lemma pty_write_effect:
  assumes wf: "pty_wf s" and run: "pty_write h buffer s = (res, n, s')"
  shows "pty_wf s' \<and> handle_count s' = handle_count s \<and> (buffer = None \<longrightarrow> n = 0) \<and>
    stream s' (handle_slot h) (peer_endpoint (handle_endpoint h)) =
      stream s (handle_slot h) (peer_endpoint (handle_endpoint h)) @ take n (case buffer of None \<Rightarrow> [] | Some b \<Rightarrow> b) \<and>
    (\<forall>slot e. e \<le> 1 \<longrightarrow> (slot, e) \<noteq> (handle_slot h, peer_endpoint (handle_endpoint h)) \<longrightarrow>
      stream s' slot e = stream s slot e)"
proof (cases "pair_from_handle h s = None \<or> buffer = None \<or> \<not> peer_open s h")
  case True
  then have "n = 0 \<and> s' = s"
    using run pty_write_refused(1) [of h s buffer] pty_write_refused(2) [OF wf, of h]
    by (cases "pair_from_handle h s = None \<or> buffer = None") auto
  then show ?thesis using wf by simp
next
  case False
  then obtain p bytes where h: "pair_from_handle h s = Some p" and b: "buffer = Some bytes" and peer: "peer_open s h"
    by auto
  note d = pair_from_handleD [OF h wf]
  let ?e = "peer_endpoint (handle_endpoint h)"
  obtain r m w where r: "pty_write h (Some bytes) s =
      (if m = 0 then PTY_WOULD_BLOCK else PTY_OK, m,
       log_wakes (if m = 0 \<or> w = 0 then [] else [w])
         (put_pair (handle_slot h) ((set_outgoing (handle_endpoint h) r p)\<lparr>pair_waiters := (if m = 0 then pair_waiters p
              else (pair_waiters p)[unat ?e := 0])\<rparr>) s))" "ring_wf r"
    "ring_contents r = stream s (handle_slot h) ?e @ take m bytes"
    using pty_write_correct [OF wf h peer, of bytes] by (elim exE conjE) (rule that)
  define q where "q = (set_outgoing (handle_endpoint h) r p)\<lparr>pair_waiters := (if m = 0 then pair_waiters p
              else (pair_waiters p)[unat ?e := 0])\<rparr>"
  have s': "n = m" "s' = log_wakes (if m = 0 \<or> w = 0 then [] else [w]) (put_pair (handle_slot h) q s)"
    using run [unfolded b r(1), folded q_def] by (auto simp only: prod.inject)
  have rings: "incoming_ring q ?e = r"
    "\<And>e'. e' \<le> 1 \<Longrightarrow> e' \<noteq> ?e \<Longrightarrow> incoming_ring q e' = incoming_ring (pty_pairs s ! unat (handle_slot h)) e'"
    using d(2) by (auto simp: q_def incoming_set not_peer_iff [OF _ handle_endpoint_le [OF h]])
  note st = put_pair_stream [OF wf d(1) peer_le rings]
  have "pair_wf (set_outgoing (handle_endpoint h) r p)" by (intro set_outgoing_wf d(3,4) r(2))
  then have "pair_wf q" using peer_cases [of "handle_endpoint h"] by (auto simp: q_def pair_wf_def nth_list_update)
  then have "pty_wf s'" unfolding s'(2) by (simp add: put_pair_wf wf)
  moreover have "handle_count s' = handle_count s"
    unfolding s'(2) log_wakes_counts by (rule put_pair_counts [OF wf d(1,2)]) (simp_all add: q_def)
  ultimately show ?thesis using st s' b r(3) by simp
qed

lemma refs_unat: "length (pair_refs p) = 2 \<Longrightarrow> e = 0 \<or> e = 1 \<Longrightarrow> unat (e :: u16) < length (pair_refs p)"
  by auto

text \<open>Storing back a pair in which only the references of one endpoint changed.\<close>

lemma put_pair_refs_counts:
  assumes wf: "pty_wf s" and h: "pair_from_handle h s = Some p"
    and q: "pair_used q" "pair_generation q = pair_generation p"
      "pair_refs q = (pair_refs p)[unat (handle_endpoint h) := c]"
  shows "handle_count (put_pair (handle_slot h) q s) = (handle_count s)(h := unat c)"
proof
  fix g
  note d = pair_from_handleD [OF h wf]
  have len: "unat (handle_endpoint h) < length (pair_refs p)"
    using pair_wf_rings [OF d(3)] d(8) by (intro refs_unat) simp_all
  have same: "g = h \<longleftrightarrow> handle_slot g = handle_slot h \<and> handle_endpoint g = handle_endpoint h \<and>
      handle_generation g = handle_generation h"
    by (metis pty_handle.equality old.unit.exhaust)
  have idx: "unat (handle_endpoint g) = unat (handle_endpoint h) \<longleftrightarrow> handle_endpoint g = handle_endpoint h"
    "unat (handle_endpoint h) = unat (handle_endpoint g) \<longleftrightarrow> handle_endpoint g = handle_endpoint h"
    by (auto simp: word_unat_eq_iff)
  show "handle_count (put_pair (handle_slot h) q s) g = ((handle_count s)(h := unat c)) g"
    using put_pair_same [OF wf d(1), of q] put_pair_other [of "handle_slot g" "handle_slot h" q s]
      d(1-7) q len handle_endpoint_le [OF h]
    by (cases "handle_slot g = handle_slot h")
      (auto simp: handle_count_eq Let_def same nth_list_update idx)
qed

lemma pty_retain_counts:
  assumes wf: "pty_wf s"
  shows "case pty_retain h s of (res, s') \<Rightarrow> pty_wf s' \<and> stream s' = stream s \<and>
    (res = PTY_OK \<longleftrightarrow> 0 < handle_count s h \<and> handle_count s h < 4294967295) \<and>
    handle_count s' = (if res = PTY_OK then (handle_count s)(h := Suc (handle_count s h)) else handle_count s)"
proof (cases "pair_from_handle h s")
  case None
  then have "handle_count s h = 0" by (simp add: handle_count_def)
  with None wf show ?thesis by (simp add: pty_retain_def)
next
  case (Some p)
  note d = pair_from_handleD [OF Some wf]
  let ?e = "unat (handle_endpoint h)"
  have count: "handle_count s h = unat (pair_refs p ! ?e)" using Some by (simp add: handle_count_def)
  have top: "pair_refs p ! ?e = UINT32_MAX \<longleftrightarrow> \<not> handle_count s h < 4294967295"
    using unat_u32_less [of "pair_refs p ! ?e"] by (auto simp: count word_unat_eq_iff)
  have pos: "0 < handle_count s h" using d(7) by (simp add: count unat_gt_0)
  show ?thesis
  proof (cases "pair_refs p ! ?e = UINT32_MAX")
    case True
    then show ?thesis using Some wf top by (simp add: pty_retain_def Let_def)
  next
    case False
    define q where "q = p\<lparr>pair_refs := (pair_refs p)[?e := pair_refs p ! ?e + 1]\<rparr>"
    have c: "unat (pair_refs p ! ?e + 1) = Suc (handle_count s h)"
      using False top by (simp add: count unat_add_exact)
    then have "pair_refs p ! ?e + 1 \<noteq> 0" by auto
    then have "pair_wf q"
      using d(3,8) d(4) by (auto simp: q_def pair_wf_def nth_list_update)
    moreover have "stream (put_pair (handle_slot h) q s) = stream s"
    proof (intro ext)
      fix slot e show "stream (put_pair (handle_slot h) q s) slot e = stream s slot e"
        using put_pair_same [OF wf d(1), of q] put_pair_other [of slot "handle_slot h" q s] d(2)
        by (cases "slot = handle_slot h") (simp_all add: stream_def q_def)
    qed
    moreover have "handle_count (put_pair (handle_slot h) q s) = (handle_count s)(h := Suc (handle_count s h))"
      using put_pair_refs_counts [OF wf Some, of q "pair_refs p ! ?e + 1"] c d(4) by (simp add: q_def)
    ultimately show ?thesis
      using Some False top pos wf put_pair_wf [OF wf] by (simp add: pty_retain_def Let_def q_def [symmetric])
  qed
qed

lemma length_two: "length xs = 2 \<longleftrightarrow> (\<exists>a b. xs = [a, b])"
  by (auto simp: length_Suc_conv numeral_2_eq_2)

text \<open>The pair just before the last step of a close, and the process it wakes.\<close>

definition dropped :: "pty_handle \<Rightarrow> pty_pair \<Rightarrow> pty_pair \<times> u64 list" where
  "dropped h p = (let e = unat (handle_endpoint h);
       q = p\<lparr>pair_refs := (pair_refs p)[e := pair_refs p ! e - 1]\<rparr>
     in if pair_refs q ! e = 0
        then wake_endpoint (q\<lparr>pair_waiters := (pair_waiters q)[e := 0]\<rparr>) (peer_endpoint (handle_endpoint h))
        else (q, []))"

lemma dropped_pair:
  assumes "pair_wf p" "pair_used p" "handle_endpoint h = 0 \<or> handle_endpoint h = 1" "dropped h p = (q, ws)"
    "pair_refs p ! unat (handle_endpoint h) \<noteq> 0"
  shows "pair_used q \<and> pair_generation q = pair_generation p \<and>
    pair_refs q = (pair_refs p)[unat (handle_endpoint h) := pair_refs p ! unat (handle_endpoint h) - 1] \<and>
    incoming_ring q = incoming_ring p \<and> length (pair_waiters q) = 2 \<and>
    (pair_refs q ! 0 \<noteq> 0 \<or> pair_refs q ! 1 \<noteq> 0 \<longrightarrow> pair_wf q) \<and>
    (pair_refs q ! unat (handle_endpoint h) = 0 \<longrightarrow>
      ws = filter (\<lambda>w. w \<noteq> 0) [pair_waiters p ! unat (peer_endpoint (handle_endpoint h))]) \<and>
    (pair_refs q ! unat (handle_endpoint h) \<noteq> 0 \<longrightarrow> ws = [])"
proof -
  obtain a b x y where ab: "pair_refs p = [a, b]" "pair_waiters p = [x, y]"
    using assms(1) by (auto simp: pair_wf_def length_two)
  have ring: "incoming_ring q = incoming_ring p"
    using assms(4) by (auto simp: dropped_def Let_def wake_endpoint_def fun_eq_iff incoming_ring_def split: if_splits)
  show ?thesis using assms(3)
  proof
    assume e: "handle_endpoint h = 0"
    then show ?thesis
      using assms(1,2,4,5) ab ring
      by (auto simp: dropped_def Let_def wake_endpoint_def peer_endpoint_def pair_wf_def split: if_splits)
  next
    assume e: "handle_endpoint h = 1"
    then show ?thesis
      using assms(1,2,4,5) ab ring
      by (auto simp: dropped_def Let_def wake_endpoint_def peer_endpoint_def pair_wf_def split: if_splits)
  qed
qed

lemma pty_close_dropped:
  assumes "pair_from_handle h s = Some p" "dropped h p = (q, ws)"
  shows "pty_close h s = (PTY_OK, log_wakes ws (put_pair (handle_slot h)
    (if pair_refs q ! 0 = 0 \<and> pair_refs q ! 1 = 0 then pair_reset q True else q) s))"
  using assms by (simp add: pty_close_def dropped_def Let_def split: if_splits)

lemma pty_close_effect:
  assumes wf: "pty_wf s"
  shows "case pty_close h s of (res, s') \<Rightarrow> pty_wf s' \<and>
    (res = PTY_OK \<longleftrightarrow> 0 < handle_count s h) \<and> (res \<noteq> PTY_OK \<longrightarrow> s' = s) \<and>
    handle_count s' = (handle_count s)(h := handle_count s h - 1) \<and>
    (\<forall>slot e. slot \<noteq> handle_slot h \<longrightarrow> stream s' slot e = stream s slot e)"
proof (cases "pair_from_handle h s")
  case None
  then have "handle_count s h = 0" by (simp add: handle_count_def)
  with None wf show ?thesis by (simp add: pty_close_def fun_upd_idem)
next
  case (Some p)
  note d = pair_from_handleD [OF Some wf]
  obtain q ws where q: "dropped h p = (q, ws)" by force
  note f = dropped_pair [OF d(3,4,8) q d(7)]
  define r where "r = (if pair_refs q ! 0 = 0 \<and> pair_refs q ! 1 = 0 then pair_reset q True else q)"
  note run = pty_close_dropped [OF Some q, folded r_def]
  have count: "handle_count s h = unat (pair_refs p ! unat (handle_endpoint h))"
    using Some by (simp add: handle_count_def)
  have one: "handle_count (put_pair (handle_slot h) q s) = (handle_count s)(h := handle_count s h - 1)"
    using put_pair_refs_counts [OF wf Some, of q "pair_refs p ! unat (handle_endpoint h) - 1"] f d(4,7)
    by (simp add: count unat_minus_one)
  have "incoming_ring q 0 = incoming_ring p 0" "incoming_ring q 1 = incoming_ring p 1" using f by simp_all
  then have "slave_to_master q = slave_to_master p" "master_to_slave q = master_to_slave p"
    by (simp_all add: incoming_ring_def)
  then have lens: "length (ring_bytes (master_to_slave q)) = 4096" "length (ring_bytes (slave_to_master q)) = 4096"
    "length (pair_refs q) = 2" "length (pair_waiters q) = 2"
    using f pair_wf_rings [OF d(3)] by simp_all
  have rwf: "pair_wf r" using f pair_reset_wf [OF lens] by (simp add: r_def)
  have "handle_count (put_pair (handle_slot h) r s) = handle_count (put_pair (handle_slot h) q s)"
  proof
    fix g :: pty_handle
    have zero: "pair_refs q ! unat (handle_endpoint g) = 0"
      if "pair_refs q ! 0 = 0 \<and> pair_refs q ! 1 = 0" "handle_endpoint g \<le> 1"
      using that u16_bit_cases [of "handle_endpoint g"] by (auto simp: not_less)
    show "handle_count (put_pair (handle_slot h) r s) g = handle_count (put_pair (handle_slot h) q s) g"
      using put_pair_same [OF wf d(1)] put_pair_other [of "handle_slot g" "handle_slot h"] zero
      by (cases "handle_slot g = handle_slot h") (simp_all add: handle_count_eq r_def pair_reset_def)
  qed
  with one have counts: "handle_count (put_pair (handle_slot h) r s) = (handle_count s)(h := handle_count s h - 1)"
    by simp
  have "stream (put_pair (handle_slot h) r s) slot e = stream s slot e" if "slot \<noteq> handle_slot h" for slot e
    using put_pair_other [OF that] by (simp add: stream_def)
  moreover have "0 < handle_count s h" using Some by (simp add: handle_count_pos)
  ultimately show ?thesis using run counts put_pair_wf [OF wf rwf] by simp
qed

lemma find_unused_spec:
  "case find_unused i ps of
     None \<Rightarrow> \<forall>p \<in> set ps. pair_used p
   | Some (j, p) \<Rightarrow> i \<le> j \<and> j < i + length ps \<and> p = ps ! (j - i) \<and> \<not> pair_used p"
proof (induction ps arbitrary: i)
  case Nil
  then show ?case by simp
next
  case (Cons q ps)
  show ?case using Cons.IH [of "Suc i"] by (auto split: option.splits simp: nth_Cons')
qed

lemma pty_create_effect:
  assumes wf: "pty_wf s"
  shows "case pty_create_pair s of (res, handles, s') \<Rightarrow> pty_wf s' \<and>
    (case handles of
       None \<Rightarrow> res = PTY_NO_SPACE \<and> s' = s \<and> (\<forall>p \<in> set (pty_pairs s). pair_used p)
     | Some (m, sl) \<Rightarrow> res = PTY_OK \<and> handle_slot m = handle_slot sl \<and> handle_generation m = handle_generation sl \<and>
         handle_endpoint m = 0 \<and> handle_endpoint sl = 1 \<and>
         (\<forall>g. handle_slot g = handle_slot m \<longrightarrow> handle_count s g = 0) \<and>
         handle_count s' = (handle_count s)(m := 1, sl := 1) \<and> stream s' = stream s \<and>
         unat (handle_slot m) < 8 \<and>
         handle_generation m \<noteq> pair_generation (pty_pairs s ! unat (handle_slot m)))"
proof (cases "find_unused 0 (pty_pairs s)")
  case None
  then show ?thesis using wf find_unused_spec [where i = 0 and ps = "pty_pairs s"] by (simp add: pty_create_pair_def pty_wf_def)
next
  case (Some jp)
  obtain j p where jp: "jp = (j, p)" by (cases jp)
  have j: "j < 8" "p = pty_pairs s ! j" "\<not> pair_used p"
    using find_unused_spec [where i = 0 and ps = "pty_pairs s"] wf Some jp by (auto simp: pty_wf_def)
  have slot: "unat (word_of_nat j :: u16) = j" using j(1) by (simp add: unat_of_nat take_bit_nat_eq_self)
  have pwf: "pair_wf p" using j wf by (auto simp: pty_wf_def)
  obtain a b x y where ab: "pair_refs p = [a, b]" "pair_waiters p = [x, y]"
    using pwf by (auto simp: pair_wf_def length_two)
  define g where "g = (if pair_generation p + 1 = 0 then 1 else pair_generation p + 1)"
  have g: "g \<noteq> 0" "g \<noteq> pair_generation p" by (auto simp: g_def)
  define q where "q = (pair_reset p True)\<lparr>pair_generation := g, pair_refs := [1, 1], pair_used := True\<rparr>"
  define m where "m = \<lparr>handle_slot = word_of_nat j :: u16, handle_endpoint = 0, handle_generation = g\<rparr>"
  define sl where "sl = \<lparr>handle_slot = word_of_nat j :: u16, handle_endpoint = 1, handle_generation = g\<rparr>"
  have run: "pty_create_pair s = (PTY_OK, Some (m, sl), put_pair (word_of_nat j) q s)"
    using Some jp wf ab by (auto simp: pty_create_pair_def pty_wf_def Let_def m_def sl_def q_def g_def pair_reset_def)
  have rings: "ring_wf (ring_clear (master_to_slave p))" "ring_contents (ring_clear (master_to_slave p)) = []"
    "ring_wf (ring_clear (slave_to_master p))" "ring_contents (ring_clear (slave_to_master p)) = []"
    using ring_clear_wf pair_wf_rings [OF pwf] by auto
  have qwf: "pair_wf q" using rings g(1) ab by (simp add: q_def pair_wf_def pair_reset_def)
  have unused: "handle_count s h = 0" if "unat (handle_slot h) = j" for h
    using that j by (simp add: handle_count_eq)
  note same = put_pair_same [OF wf, of "word_of_nat j" q, unfolded slot, OF j(1)]
  have counts: "handle_count (put_pair (word_of_nat j) q s) = (handle_count s)(m := 1, sl := 1)"
  proof
    fix h
    show "handle_count (put_pair (word_of_nat j) q s) h = ((handle_count s)(m := 1, sl := 1)) h"
    proof (cases "handle_slot h = word_of_nat j")
      case False
      then show ?thesis using put_pair_other [OF False, of q s] by (auto simp: handle_count_eq Let_def m_def sl_def)
    next
      case True
      then have u: "unat (handle_slot h) = j" by (simp add: slot)
      have hm: "h = m \<longleftrightarrow> handle_endpoint h = 0 \<and> handle_generation h = g"
        "h = sl \<longleftrightarrow> handle_endpoint h = 1 \<and> handle_generation h = g"
        using True by (auto simp: m_def sl_def)
      show ?thesis
        using unused [OF u] u same j(1) g(1) u16_bit_cases [of "handle_endpoint h"]
        by (auto simp: handle_count_eq hm q_def not_less slot)
    qed
  qed
  have empty: "stream s (word_of_nat j) e = []" for e
    using pwf j by (simp add: stream_def slot pair_wf_def incoming_ring_def)
  have streams: "stream (put_pair (word_of_nat j) q s) = stream s"
  proof (intro ext)
    fix slot e
    show "stream (put_pair (word_of_nat j) q s) slot e = stream s slot e"
    proof (cases "slot = word_of_nat j")
      case False
      then show ?thesis using put_pair_other [OF False, of q s] by (simp add: stream_def)
    next
      case True
      have "stream (put_pair (word_of_nat j) q s) (word_of_nat j) e = []"
        unfolding stream_def slot same using rings by (simp add: incoming_ring_def q_def pair_reset_def)
      then show ?thesis using empty True by simp
    qed
  qed
  show ?thesis
    using run counts streams put_pair_wf [OF wf qwf] unused slot g j by (simp add: m_def sl_def)
qed

lemma waiter_update_effect:
  fixes pid :: u64
  assumes wf: "pty_wf s" and h: "pair_from_handle h s = Some p"
  defines "q \<equiv> p\<lparr>pair_waiters := (pair_waiters p)[unat (handle_endpoint h) := pid]\<rparr>"
  shows "pty_wf (put_pair (handle_slot h) q s) \<and> handle_count (put_pair (handle_slot h) q s) = handle_count s \<and>
    stream (put_pair (handle_slot h) q s) = stream s"
proof -
  note d = pair_from_handleD [OF h wf]
  have "pair_wf q" using d(3,4,7,8) by (auto simp: q_def pair_wf_def nth_list_update)
  moreover have "handle_count (put_pair (handle_slot h) q s) = handle_count s"
    by (rule put_pair_counts [OF wf d(1,2)]) (simp_all add: q_def)
  moreover have "stream (put_pair (handle_slot h) q s) slot e = stream s slot e" for slot e
    using put_pair_same [OF wf d(1), of q] put_pair_other [of slot "handle_slot h" q s] d(2)
    by (cases "slot = handle_slot h") (simp_all add: stream_def q_def)
  ultimately show ?thesis using put_pair_wf [OF wf] by (simp add: fun_eq_iff)
qed

lemma pty_arm_effect:
  "pty_wf s \<Longrightarrow> pty_arm_read_waiter h pid s = (res, s') \<Longrightarrow>
    pty_wf s' \<and> handle_count s' = handle_count s \<and> stream s' = stream s"
  using waiter_update_effect [of s h _ pid]
  by (auto simp: pty_arm_read_waiter_def split: option.splits if_splits)

lemma pty_cancel_effect:
  "pty_wf s \<Longrightarrow> pty_wf (pty_cancel_read_waiter h pid s) \<and>
    handle_count (pty_cancel_read_waiter h pid s) = handle_count s \<and> stream (pty_cancel_read_waiter h pid s) = stream s"
  using waiter_update_effect [of s h _ 0]
  by (auto simp: pty_cancel_read_waiter_def split: option.splits)

section \<open>Reachable states\<close>

text \<open>The static variables at boot are zero.\<close>

definition zero_ring :: pty_ring where
  "zero_ring = \<lparr>ring_bytes = replicate 4096 0, ring_read = 0, ring_write = 0, ring_count = 0\<rparr>"

definition zero_pair :: pty_pair where
  "zero_pair = \<lparr>master_to_slave = zero_ring, slave_to_master = zero_ring, pair_generation = 0,
     pair_refs = [0, 0], pair_waiters = [0, 0], pair_used = False\<rparr>"

definition pty_boot :: pty_state where
  "pty_boot = \<lparr>pty_pairs = replicate 8 zero_pair, pty_initialized = False, pty_wakes = []\<rparr>"

datatype pty_call = Create | Retain pty_handle | Close pty_handle | Read pty_handle bool u64
  | Write pty_handle "u8 list option" | Arm pty_handle u64 | Cancel pty_handle u64

fun pty_serve :: "pty_call \<Rightarrow> pty_state \<Rightarrow> pty_state" where
  "pty_serve Create s = snd (snd (pty_create_pair s))"
| "pty_serve (Retain h) s = snd (pty_retain h s)"
| "pty_serve (Close h) s = snd (pty_close h s)"
| "pty_serve (Read h null len) s = snd (snd (pty_read h null len s))"
| "pty_serve (Write h buffer) s = snd (snd (pty_write h buffer s))"
| "pty_serve (Arm h pid) s = snd (pty_arm_read_waiter h pid s)"
| "pty_serve (Cancel h pid) s = pty_cancel_read_waiter h pid s"

inductive pty_reachable :: "pty_state \<Rightarrow> bool" where
  start: "pty_init pty_boot = (True, s) \<Longrightarrow> pty_reachable s"
| call: "pty_reachable s \<Longrightarrow> pty_reachable (pty_serve c s)"

lemma pty_init_wf: "pty_init pty_boot = (True, s) \<Longrightarrow> pty_wf s"
proof -
  have "pair_wf (pair_reset zero_pair False)" by (rule pair_reset_wf) (simp_all add: zero_pair_def zero_ring_def)
  then show "pty_init pty_boot = (True, s) \<Longrightarrow> pty_wf s" by (auto simp: pty_init_def pty_boot_def pty_wf_def)
qed

lemma pty_serve_wf: "pty_wf s \<Longrightarrow> pty_wf (pty_serve c s)"
proof (cases c)
  case Create
  assume "pty_wf s" with pty_create_effect [of s] Create show ?thesis by (auto split: prod.splits)
next
  case (Retain h)
  assume "pty_wf s" with pty_retain_counts [of s h] Retain show ?thesis by (auto split: prod.splits)
next
  case (Close h)
  assume "pty_wf s" with pty_close_effect [of s h] Close show ?thesis by (auto split: prod.splits)
next
  case (Read h null len)
  assume "pty_wf s" with pty_read_effect [of s h null len] Read show ?thesis
    by (cases "pty_read h null len s") auto
next
  case (Write h buffer)
  assume "pty_wf s" with pty_write_effect [of s h buffer] Write show ?thesis
    by (cases "pty_write h buffer s") auto
next
  case (Arm h pid)
  assume "pty_wf s" with pty_arm_effect [of s h pid] Arm show ?thesis
    by (cases "pty_arm_read_waiter h pid s") auto
next
  case (Cancel h pid)
  assume "pty_wf s" with pty_cancel_effect [of s h pid] Cancel show ?thesis by auto
qed

lemma pty_reachable_wf: "pty_reachable s \<Longrightarrow> pty_wf s"
  by (induction rule: pty_reachable.induct) (simp_all add: pty_init_wf pty_serve_wf)

section \<open>Traffic of one direction\<close>

text \<open>
  The bytes accepted for and delivered to endpoint \<open>e\<close> of a pair during a
  sequence of calls, and the state after it.
\<close>

fun traffic :: "u16 \<Rightarrow> u16 \<Rightarrow> pty_call list \<Rightarrow> pty_state \<Rightarrow> u8 list \<times> u8 list \<times> pty_state" where
  "traffic slot e [] s = ([], [], s)"
| "traffic slot e (Read h null len # cs) s =
     (let (res, bytes, s) = pty_read h null len s; (sent, received, s) = traffic slot e cs s
      in (sent, if (handle_slot h, handle_endpoint h) = (slot, e) then bytes @ received else received, s))"
| "traffic slot e (Write h buffer # cs) s =
     (let (res, n, s) = pty_write h buffer s; (sent, received, s) = traffic slot e cs s
      in (if (handle_slot h, peer_endpoint (handle_endpoint h)) = (slot, e)
          then take n (case buffer of None \<Rightarrow> [] | Some b \<Rightarrow> b) @ sent else sent, received, s))"
| "traffic slot e (c # cs) s = traffic slot e cs (pty_serve c s)"

lemma traffic_conserved:
  assumes "pty_wf s" "e \<le> 1" "\<And>h. Close h \<in> set cs \<Longrightarrow> handle_slot h \<noteq> slot"
    "traffic slot e cs s = (sent, received, s')"
  shows "stream s slot e @ sent = received @ stream s' slot e"
  using assms
proof (induction slot e cs s arbitrary: sent received s' rule: traffic.induct [case_names empty reads writes creates retains closes arms cancels])
  case (empty slot e s)
  then show ?case by simp
next
  case (reads slot e h null len cs s)
  obtain res bytes t where r: "pty_read h null len s = (res, bytes, t)" by (cases "pty_read h null len s") auto
  obtain a b where tr: "traffic slot e cs t = (a, b, s')" using reads(5) r by (auto split: prod.splits)
  note f = pty_read_effect [OF reads(2) r]
  have "stream t slot e @ a = b @ stream s' slot e"
    using reads(1) [OF r [symmetric] refl refl _ reads(3) _ tr] f reads(4) by auto
  then show ?case using f reads(3,5) r tr by (auto split: if_splits)
next
  case (writes slot e h buffer cs s)
  obtain res n t where r: "pty_write h buffer s = (res, n, t)" by (cases "pty_write h buffer s") auto
  obtain a b where tr: "traffic slot e cs t = (a, b, s')" using writes(5) r by (auto split: prod.splits)
  note f = pty_write_effect [OF writes(2) r]
  have "stream t slot e @ a = b @ stream s' slot e"
    using writes(1) [OF r [symmetric] refl refl _ writes(3) _ tr] f writes(4) by auto
  then show ?case using f writes(3,5) r tr by (auto split: if_splits)
next
  case (creates slot e cs s)
  have "stream (pty_serve Create s) = stream s"
    using pty_create_effect [OF creates(2)] by (auto split: prod.splits option.splits)
  with creates(1) [OF pty_serve_wf [OF creates(2)] creates(3)] creates(4,5) show ?case by simp
next
  case (retains slot e h cs s)
  have "stream (pty_serve (Retain h) s) = stream s"
    using pty_retain_counts [OF retains(2), of h] by (auto split: prod.splits)
  with retains(1) [OF pty_serve_wf [OF retains(2)] retains(3)] retains(4,5) show ?case by simp
next
  case (closes slot e h cs s)
  have "handle_slot h \<noteq> slot" using closes(4) by simp
  then have "stream (pty_serve (Close h) s) slot e = stream s slot e"
    using pty_close_effect [OF closes(2), of h] by (auto split: prod.splits)
  with closes(1) [OF pty_serve_wf [OF closes(2)] closes(3)] closes(4,5) show ?case by simp
next
  case (arms slot e h pid cs s)
  have "stream (pty_serve (Arm h pid) s) = stream s"
    using pty_arm_effect [OF arms(2), of h pid] by (cases "pty_arm_read_waiter h pid s") simp
  with arms(1) [OF pty_serve_wf [OF arms(2)] arms(3)] arms(4,5) show ?case by simp
next
  case (cancels slot e h pid cs s)
  have "stream (pty_serve (Cancel h pid) s) = stream s" using pty_cancel_effect [OF cancels(2), of h pid] by simp
  with cancels(1) [OF pty_serve_wf [OF cancels(2)] cancels(3)] cancels(4,5) show ?case by simp
qed

section \<open>A pair to evaluate on\<close>

definition fresh_pty :: pty_state where
  "fresh_pty = snd (pty_init pty_boot)"

lemma fresh_pty_reachable: "pty_reachable fresh_pty"
  by (rule pty_reachable.start) (simp add: fresh_pty_def pty_init_def pty_boot_def)

lemma sample_pair:
  obtains m sl s where "pty_create_pair fresh_pty = (PTY_OK, Some (m, sl), s)" "pty_reachable s"
    "handle_count s m = 1" "handle_count s sl = 1" "sl = m\<lparr>handle_endpoint := 1\<rparr>" "handle_endpoint m = 0"
    "\<And>slot e. stream s slot e = stream fresh_pty slot e"
proof -
  obtain res hs s where r: "pty_create_pair fresh_pty = (res, hs, s)" by (cases "pty_create_pair fresh_pty")
  note e = pty_create_effect [OF pty_reachable_wf [OF fresh_pty_reachable], unfolded r, simplified]
  have "hs \<noteq> None"
  proof
    assume "hs = None"
    with e have "\<forall>p \<in> set (pty_pairs fresh_pty). pair_used p" by simp
    then show False by (simp add: fresh_pty_def pty_init_def pty_boot_def pair_reset_def)
  qed
  then obtain m sl where h: "hs = Some (m, sl)" by auto
  have "sl = m\<lparr>handle_endpoint := 1\<rparr>" using e h by (simp add: pty_handle.equality)
  moreover have "m \<noteq> sl" using e h by auto
  moreover have "pty_reachable s" using pty_reachable.call [OF fresh_pty_reachable, of Create] r by simp
  ultimately show thesis using that [of m sl s] e h r by simp
qed

section \<open>Transfers, counts and wake-ups in one place\<close>

lemma pty_write_exact:
  assumes wf: "pty_wf s" and live: "0 < handle_count s h" and r: "pty_write h (Some bytes) s = (res, n, s')"
  shows "if peer_open s h then
         n = min (length bytes) (4096 - length (stream s (handle_slot h) (peer_endpoint (handle_endpoint h)))) \<and>
         res = (if n = 0 then PTY_WOULD_BLOCK else PTY_OK) \<and>
         stream s' (handle_slot h) (peer_endpoint (handle_endpoint h)) =
           stream s (handle_slot h) (peer_endpoint (handle_endpoint h)) @ take n bytes
       else res = PTY_HUP \<and> n = 0 \<and> s' = s"
proof -
  obtain p where h: "pair_from_handle h s = Some p" using live by (auto simp: handle_count_pos)
  show ?thesis
  proof (cases "peer_open s h")
    case False
    then show ?thesis using pty_write_refused(2) [OF wf h False, of bytes] r by simp
  next
    case True
    obtain r1 m w where c: "pty_write h (Some bytes) s =
      (if m = 0 then PTY_WOULD_BLOCK else PTY_OK, m,
       log_wakes (if m = 0 \<or> w = 0 then [] else [w])
         (put_pair (handle_slot h) ((set_outgoing (handle_endpoint h) r1 p)\<lparr>pair_waiters := (if m = 0 then pair_waiters p
              else (pair_waiters p)[unat (peer_endpoint (handle_endpoint h)) := 0])\<rparr>) s))"
      "m = min (length bytes) (4096 - length (stream s (handle_slot h) (peer_endpoint (handle_endpoint h))))"
      using pty_write_correct [OF wf h True, of bytes] by (elim exE conjE) (rule that)
    have n: "n = m" "res = (if m = 0 then PTY_WOULD_BLOCK else PTY_OK)"
      using c(1) [unfolded r] by simp_all
    have "stream s' (handle_slot h) (peer_endpoint (handle_endpoint h)) =
        stream s (handle_slot h) (peer_endpoint (handle_endpoint h)) @ take n bytes"
      using pty_write_effect [OF wf r] by simp
    with True n c(2) show ?thesis by (simp only: if_True simp_thms)
  qed
qed

lemma pty_read_exact:
  assumes wf: "pty_wf s" and live: "0 < handle_count s h" and r: "pty_read h False len s = (res, bytes, s')"
  shows "bytes = take (unat len) (stream s (handle_slot h) (handle_endpoint h)) \<and>
    stream s' (handle_slot h) (handle_endpoint h) = drop (unat len) (stream s (handle_slot h) (handle_endpoint h)) \<and>
    res = (if len = 0 \<or> bytes \<noteq> [] then PTY_OK else if peer_open s h then PTY_WOULD_BLOCK else PTY_HUP)"
proof -
  obtain p where h: "pair_from_handle h s = Some p" using live by (auto simp: handle_count_pos)
  have b: "bytes = take (unat len) (stream s (handle_slot h) (handle_endpoint h))"
    "res = (if len = 0 \<or> bytes \<noteq> [] then PTY_OK else if peer_open s h then PTY_WOULD_BLOCK else PTY_HUP)"
    using pty_read_correct [OF wf h, of False len] r by auto
  have "stream s (handle_slot h) (handle_endpoint h) = bytes @ stream s' (handle_slot h) (handle_endpoint h)"
    using pty_read_effect [OF wf r] by simp
  moreover have "stream s (handle_slot h) (handle_endpoint h) =
      bytes @ drop (unat len) (stream s (handle_slot h) (handle_endpoint h))"
    unfolding b(1) by simp
  ultimately show ?thesis using b by (metis same_append_eq)
qed

lemma pty_dead_refused:
  "handle_count s h = 0 \<Longrightarrow>
    pty_read h null len s = (PTY_INVALID, [], s) \<and> pty_write h buffer s = (PTY_INVALID, 0, s)"
  using handle_count_pos [of s h] pty_read_refused [of h s] pty_write_refused(1) [of h s] by (cases "pair_from_handle h s") auto

lemma pty_create_counts:
  assumes wf: "pty_wf s" and r: "pty_create_pair s = (res, handles, s')"
  shows "case handles of
        None \<Rightarrow> res = PTY_NO_SPACE \<and> s' = s \<and> (\<forall>slot. unat slot < 8 \<longrightarrow> (\<exists>h. handle_slot h = slot \<and> 0 < handle_count s h))
      | Some (m, sl) \<Rightarrow> res = PTY_OK \<and> handle_count s m = 0 \<and> handle_count s sl = 0 \<and> m \<noteq> sl \<and>
          handle_count s' = (handle_count s)(m := 1, sl := 1)"
proof (cases handles)
  case None
  have "\<exists>h. handle_slot h = slot \<and> 0 < handle_count s h" if slot: "unat slot < 8" for slot
  proof -
    let ?p = "pty_pairs s ! unat slot"
    have mem: "?p \<in> set (pty_pairs s)" using wf slot by (simp add: pty_wf_def)
    then have "pair_used ?p" "pair_wf ?p" using pty_create_effect [OF wf] r None wf by (auto simp: pty_wf_def)
    then have g: "pair_generation ?p \<noteq> 0" and "pair_refs ?p ! unat (0 :: u16) \<noteq> 0 \<or> pair_refs ?p ! unat (1 :: u16) \<noteq> 0"
      by (simp_all add: pair_wf_def)
    then obtain e :: u16 where e: "e = 0 \<or> e = 1" "pair_refs ?p ! unat e \<noteq> 0" by blast
    then show ?thesis using slot \<open>pair_used ?p\<close>
      by (intro exI [of _ "\<lparr>handle_slot = slot, handle_endpoint = e, handle_generation = pair_generation ?p\<rparr>"])
        (use e g in \<open>auto simp: handle_count_eq unat_gt_0\<close>)
  qed
  then show ?thesis using pty_create_effect [OF wf] r None by simp
next
  case (Some a)
  then show ?thesis using pty_create_effect [OF wf] r by (auto split: prod.splits)
qed

lemma pty_serve_counts:
  assumes wf: "pty_wf s"
  shows "handle_count (pty_serve (Read h null len) s) = handle_count s"
    and "handle_count (pty_serve (Write h buffer) s) = handle_count s"
    and "handle_count (pty_serve (Arm h pid) s) = handle_count s"
    and "handle_count (pty_serve (Cancel h pid) s) = handle_count s"
  using pty_read_effect [OF wf, of h null len] pty_write_effect [OF wf, of h buffer]
    pty_arm_effect [OF wf, of h pid] pty_cancel_effect [OF wf, of h pid]
  by (cases "pty_read h null len s"; cases "pty_write h buffer s"; cases "pty_arm_read_waiter h pid s"; auto)+

text \<open>The process registered as the reader of the endpoint of \<open>h\<close>, 0 for none.\<close>

definition reader :: "pty_state \<Rightarrow> pty_handle \<Rightarrow> u64" where
  "reader s h = pair_waiters (pty_pairs s ! unat (handle_slot h)) ! unat (handle_endpoint h)"

definition other_end :: "pty_handle \<Rightarrow> pty_handle" where
  "other_end h = h\<lparr>handle_endpoint := peer_endpoint (handle_endpoint h)\<rparr>"

text \<open>
  The endpoint whose reader a call has to wake: that of a stream into which a write
  puts at least one byte, or the other end of an endpoint that loses its last reference.
\<close>

fun wake_target :: "pty_call \<Rightarrow> pty_state \<Rightarrow> pty_handle option" where
  "wake_target (Write h (Some bytes)) s =
     (if 0 < handle_count s h \<and> peer_open s h \<and> bytes \<noteq> [] \<and>
         length (stream s (handle_slot h) (peer_endpoint (handle_endpoint h))) < 4096
      then Some (other_end h) else None)"
| "wake_target (Close h) s = (if handle_count s h = 1 \<and> peer_open s h then Some (other_end h) else None)"
| "wake_target _ s = None"

text \<open>
  The calls that end the registration of the reader of \<open>h\<close> without waking it: another
  process arms itself in its place, it is cancelled, or its own endpoint is closed.
\<close>

fun withdraws :: "pty_call \<Rightarrow> pty_handle \<Rightarrow> pty_state \<Rightarrow> bool" where
  "withdraws (Arm g pid) h s \<longleftrightarrow> g = h \<and> pid \<noteq> 0 \<and> pid \<noteq> reader s h"
| "withdraws (Cancel g pid) h s \<longleftrightarrow> g = h \<and> pid = reader s h"
| "withdraws (Close g) h s \<longleftrightarrow> g = h \<and> handle_count s h = 1"
| "withdraws _ h s \<longleftrightarrow> False"

fun undisturbed :: "pty_handle \<Rightarrow> pty_call list \<Rightarrow> pty_state \<Rightarrow> bool" where
  "undisturbed h [] s \<longleftrightarrow> True"
| "undisturbed h (c # cs) s \<longleftrightarrow>
     wake_target c s \<noteq> Some h \<and> \<not> withdraws c h s \<and> undisturbed h cs (pty_serve c s)"

text \<open>The reader of \<open>h\<close> after a call.\<close>

definition next_reader :: "pty_call \<Rightarrow> pty_handle \<Rightarrow> pty_state \<Rightarrow> u64" where
  "next_reader c h s =
     (if wake_target c s = Some h then 0
      else if withdraws c h s then (case c of Arm g pid \<Rightarrow> pid | _ \<Rightarrow> 0)
      else reader s h)"

lemma other_end_fields [simp]:
  "handle_slot (other_end h) = handle_slot h" "handle_endpoint (other_end h) = peer_endpoint (handle_endpoint h)"
  by (simp_all add: other_end_def)

lemma reader_log_wakes [simp]: "reader (log_wakes ws s) h = reader s h"
  by (simp add: reader_def)

lemma pty_wakes_put [simp]:
  "pty_wakes (put_pair slot q s) = pty_wakes s" "pty_wakes (log_wakes ws s) = pty_wakes s @ ws"
  by (simp_all add: put_pair_def log_wakes_def)

lemma reader_put_pair:
  assumes "pty_wf s" "unat slot < 8"
  shows "reader (put_pair slot q s) h =
    (if handle_slot h = slot then pair_waiters q ! unat (handle_endpoint h) else reader s h)"
  using put_pair_same [OF assms] put_pair_other [of "handle_slot h" slot q s] by (simp add: reader_def)

lemma live_pair:
  assumes "pty_wf s" "0 < handle_count s h"
  obtains p where "pair_from_handle h s = Some p" "p = pty_pairs s ! unat (handle_slot h)"
    "reader s h = pair_waiters p ! unat (handle_endpoint h)" "length (pair_waiters p) = 2"
    "unat (handle_slot h) < 8" "handle_endpoint h = 0 \<or> handle_endpoint h = 1"
    "handle_generation h = pair_generation p" "handle_count s h = unat (pair_refs p ! unat (handle_endpoint h))"
proof -
  obtain p where p: "pair_from_handle h s = Some p" using assms(2) by (auto simp: handle_count_pos)
  note d = pair_from_handleD [OF p assms(1)]
  have "reader s h = pair_waiters p ! unat (handle_endpoint h)" using d(2) by (simp add: reader_def)
  moreover have "handle_count s h = unat (pair_refs p ! unat (handle_endpoint h))"
    using p by (simp add: handle_count_def)
  ultimately show thesis using that [OF p d(2)] pair_wf_rings [OF d(3)] d(1,5,8) by auto
qed

text \<open>Live handles of one pair differ in their endpoint only.\<close>

lemma live_same_slot:
  assumes "pty_wf s" "0 < handle_count s g" "0 < handle_count s h" "handle_slot g = handle_slot h"
  shows "g = h \<longleftrightarrow> unat (handle_endpoint g) = unat (handle_endpoint h)"
    and "other_end g = h \<longleftrightarrow> unat (peer_endpoint (handle_endpoint g)) = unat (handle_endpoint h)"
proof -
  have "handle_generation g = handle_generation h"
    using live_pair [OF assms(1,2)] live_pair [OF assms(1,3)] assms(4) by metis
  then show "g = h \<longleftrightarrow> unat (handle_endpoint g) = unat (handle_endpoint h)"
    "other_end g = h \<longleftrightarrow> unat (peer_endpoint (handle_endpoint g)) = unat (handle_endpoint h)"
    using assms(4) by (auto simp: other_end_def word_unat_eq_iff intro!: pty_handle.equality)
qed

lemma write_reader:
  assumes wf: "pty_wf s" and live: "0 < handle_count s h"
  shows "reader (pty_serve (Write g buffer) s) h = next_reader (Write g buffer) h s"
    and "pty_wakes (pty_serve (Write g buffer) s) = pty_wakes s @ (case wake_target (Write g buffer) s of
      None \<Rightarrow> [] | Some k \<Rightarrow> filter (\<lambda>w. w \<noteq> 0) [reader s k])"
proof -
  have "reader (pty_serve (Write g buffer) s) h = next_reader (Write g buffer) h s \<and>
    pty_wakes (pty_serve (Write g buffer) s) = pty_wakes s @ (case wake_target (Write g buffer) s of
      None \<Rightarrow> [] | Some k \<Rightarrow> filter (\<lambda>w. w \<noteq> 0) [reader s k])"
  proof (cases "handle_count s g = 0 \<or> buffer = None \<or> \<not> peer_open s g")
    case True
    then have "wake_target (Write g buffer) s = None" by (cases buffer) auto
    moreover have "pty_serve (Write g buffer) s = s"
      using True pty_write_refused(1) [of g s buffer] pty_write_refused(2) [OF wf, of g] handle_count_pos [of s g]
      by (cases "pair_from_handle g s"; cases buffer) auto
    ultimately show ?thesis by (simp add: next_reader_def)
  next
    case False
    then obtain bytes where b: "buffer = Some bytes" and g: "0 < handle_count s g" and op: "peer_open s g" by auto
    obtain p where p: "pair_from_handle g s = Some p" "p = pty_pairs s ! unat (handle_slot g)"
      "length (pair_waiters p) = 2" "unat (handle_slot g) < 8" using live_pair [OF wf g] by metis
    let ?e = "peer_endpoint (handle_endpoint g)"
    obtain r n w where c: "pty_write g (Some bytes) s =
        (if n = 0 then PTY_WOULD_BLOCK else PTY_OK, n,
         log_wakes (if n = 0 \<or> w = 0 then [] else [w])
           (put_pair (handle_slot g) ((set_outgoing (handle_endpoint g) r p)\<lparr>pair_waiters := (if n = 0 then pair_waiters p
                else (pair_waiters p)[unat ?e := 0])\<rparr>) s))"
      "w = pair_waiters p ! unat ?e" "n = min (length bytes) (4096 - length (stream s (handle_slot g) ?e))"
      using pty_write_correct [OF wf p(1) op, of bytes] by (elim exE conjE) (rule that)
    have n: "n \<noteq> 0 \<longleftrightarrow> bytes \<noteq> [] \<and> length (stream s (handle_slot g) ?e) < 4096" using c(3) by auto
    have target: "wake_target (Write g buffer) s = (if n = 0 then None else Some (other_end g))"
      using n g op b by auto
    have w: "w = reader s (other_end g)" using c(2) p(2) by (simp add: reader_def)
    have read: "reader (pty_serve (Write g buffer) s) h = (if handle_slot h = handle_slot g
        then (if n = 0 then pair_waiters p else (pair_waiters p)[unat ?e := 0]) ! unat (handle_endpoint h)
        else reader s h)"
      by (simp add: b c(1) reader_put_pair [OF wf p(4)])
    have old: "pair_waiters p ! unat (handle_endpoint h) = reader s h" if "handle_slot h = handle_slot g"
      using that p(2) by (simp add: reader_def)
    have "reader (pty_serve (Write g buffer) s) h = next_reader (Write g buffer) h s"
    proof (cases "handle_slot h = handle_slot g")
      case True
      have "other_end g = h \<longleftrightarrow> unat ?e = unat (handle_endpoint h)"
        using live_same_slot(2) [OF wf g live] True by simp
      moreover have "unat ?e < length (pair_waiters p)" using p(3) by (simp add: peer_endpoint_def)
      ultimately show ?thesis
        using read True old [OF True] unfolding next_reader_def target by (auto simp: b nth_list_update)
    next
      case no: False
      then have "other_end g \<noteq> h" by auto
      with read no show ?thesis by (simp add: next_reader_def target)
    qed
    moreover have "pty_wakes (pty_serve (Write g buffer) s) = pty_wakes s @ (if n = 0 \<or> w = 0 then [] else [w])"
      by (simp add: b c(1))
    ultimately show ?thesis by (simp add: target w)
  qed
  then show "reader (pty_serve (Write g buffer) s) h = next_reader (Write g buffer) h s"
    and "pty_wakes (pty_serve (Write g buffer) s) = pty_wakes s @ (case wake_target (Write g buffer) s of
      None \<Rightarrow> [] | Some k \<Rightarrow> filter (\<lambda>w. w \<noteq> 0) [reader s k])" by blast+
qed

lemma dropped_waiters:
  assumes "pair_wf p" "handle_endpoint g = 0 \<or> handle_endpoint g = 1" "dropped g p = (q, ws)"
  shows "pair_waiters q = (if pair_refs p ! unat (handle_endpoint g) = 1 then [0, 0] else pair_waiters p)"
    and "ws = (if pair_refs p ! unat (handle_endpoint g) = 1
       then filter (\<lambda>w. w \<noteq> 0) [pair_waiters p ! unat (peer_endpoint (handle_endpoint g))] else [])"
proof -
  obtain a b x y where ab: "pair_refs p = [a, b]" "pair_waiters p = [x, y]"
    using assms(1) by (auto simp: pair_wf_def length_two)
  have one: "c - 1 = 0 \<longleftrightarrow> c = 1" for c :: u32 by (metis diff_eq_eq add_0)
  have "pair_waiters q = (if pair_refs p ! unat (handle_endpoint g) = 1 then [0, 0] else pair_waiters p) \<and>
    ws = (if pair_refs p ! unat (handle_endpoint g) = 1
       then filter (\<lambda>w. w \<noteq> 0) [pair_waiters p ! unat (peer_endpoint (handle_endpoint g))] else [])"
    using assms(2,3) ab
    by (auto simp: dropped_def Let_def wake_endpoint_def peer_endpoint_def one split: if_splits)
  then show "pair_waiters q = (if pair_refs p ! unat (handle_endpoint g) = 1 then [0, 0] else pair_waiters p)"
    "ws = (if pair_refs p ! unat (handle_endpoint g) = 1
       then filter (\<lambda>w. w \<noteq> 0) [pair_waiters p ! unat (peer_endpoint (handle_endpoint g))] else [])" by blast+
qed

lemma close_reader:
  assumes wf: "pty_wf s" and live: "0 < handle_count s h"
  shows "reader (pty_serve (Close g) s) h = next_reader (Close g) h s"
    and "pty_wakes (pty_serve (Close g) s) = pty_wakes s @ (case wake_target (Close g) s of
      None \<Rightarrow> [] | Some k \<Rightarrow> filter (\<lambda>w. w \<noteq> 0) [reader s k])"
proof -
  have "reader (pty_serve (Close g) s) h = next_reader (Close g) h s \<and>
    pty_wakes (pty_serve (Close g) s) = pty_wakes s @ (case wake_target (Close g) s of
      None \<Rightarrow> [] | Some k \<Rightarrow> filter (\<lambda>w. w \<noteq> 0) [reader s k])"
  proof (cases "handle_count s g = 0")
    case True
    then have "pair_from_handle g s = None" using handle_count_pos [of s g] by (cases "pair_from_handle g s") auto
    with True live show ?thesis by (auto simp: pty_close_def next_reader_def)
  next
    case False
    then have g: "0 < handle_count s g" by simp
    obtain p where p: "pair_from_handle g s = Some p" "p = pty_pairs s ! unat (handle_slot g)"
      "length (pair_waiters p) = 2" "unat (handle_slot g) < 8" "handle_endpoint g = 0 \<or> handle_endpoint g = 1"
      "handle_count s g = unat (pair_refs p ! unat (handle_endpoint g))" using live_pair [OF wf g] by metis
    have pwf: "pair_wf p" using pair_from_handleD(3) [OF p(1) wf] .
    obtain q ws where q: "dropped g p = (q, ws)" by force
    have one: "pair_refs p ! unat (handle_endpoint g) = 1 \<longleftrightarrow> handle_count s g = 1"
      unfolding p(6) by (simp add: word_unat_eq_iff)
    note dw = dropped_waiters [OF pwf p(5) q, unfolded one]
    define r where "r = (if pair_refs q ! 0 = 0 \<and> pair_refs q ! 1 = 0 then pair_reset q True else q)"
    have run: "pty_serve (Close g) s = log_wakes ws (put_pair (handle_slot g) r s)"
      using pty_close_dropped [OF p(1) q] by (simp add: r_def)
    let ?e = "peer_endpoint (handle_endpoint g)"
    have silent: "pair_waiters p ! unat ?e = 0" if "\<not> peer_open s g"
      using that pwf p(2) by (auto simp: peer_open_def pair_wf_def peer_endpoint_def split: if_splits)
    have "pty_wakes (pty_serve (Close g) s) = pty_wakes s @ (case wake_target (Close g) s of
        None \<Rightarrow> [] | Some k \<Rightarrow> filter (\<lambda>w. w \<noteq> 0) [reader s k])"
      unfolding run using silent p(2) by (simp add: dw(2) reader_def)
    moreover have "reader (pty_serve (Close g) s) h = next_reader (Close g) h s"
    proof (cases "handle_slot h = handle_slot g")
      case no: False
      then have "other_end g \<noteq> h" "g \<noteq> h" by auto
      with no show ?thesis unfolding run by (simp add: next_reader_def reader_put_pair [OF wf p(4)])
    next
      case slot: True
      note eqs = live_same_slot [OF wf g live slot [symmetric]]
      obtain a b x y where ab: "pair_refs p = [a, b]" "pair_waiters p = [x, y]"
        using pwf by (auto simp: pair_wf_def length_two)
      have hr: "reader s h = [x, y] ! unat (handle_endpoint h)" "handle_endpoint h = 0 \<or> handle_endpoint h = 1"
        using live_pair [OF wf live] p(2) slot ab(2) by (metis+)
      have f: "pair_refs q = (pair_refs p)[unat (handle_endpoint g) := pair_refs p ! unat (handle_endpoint g) - 1]"
        "length (pair_waiters q) = 2"
        using dropped_pair [OF pwf _ p(5) q] pair_from_handleD(4,7) [OF p(1) wf] by simp_all
      have hl: "pair_refs p ! unat (handle_endpoint h) \<noteq> 0"
        using live_pair [OF wf live] p(2) slot live by (metis unat_0 less_irrefl)
      have wl: "length (pair_waiters p) = 2" by (rule p(3))
      show ?thesis
      proof (cases "handle_count s g = 1")
        case last: True
        have "pair_waiters r = [0, 0]" using dw(1) last by (simp add: r_def pair_reset_def)
        then have zero: "reader (pty_serve (Close g) s) h = 0"
          unfolding run using slot hr(2) by (auto simp: reader_put_pair [OF wf p(4)])
        have "wake_target (Close g) s = Some h" if "g \<noteq> h"
        proof -
          have "unat ?e = unat (handle_endpoint h)"
            using that eqs(1) p(5) hr(2) by (auto simp: peer_endpoint_def)
          then have "other_end g = h" "peer_open s g" using eqs(2) hl p(2) by (simp_all add: peer_open_def)
          with last show ?thesis by simp
        qed
        then have "next_reader (Close g) h s = 0" using last unfolding next_reader_def by (cases "g = h") auto
        with zero show ?thesis by simp
      next
        case more: False
        have "pair_refs q ! unat (handle_endpoint g) \<noteq> 0"
          using more one f(1) p(5) ab(1) by auto
        then have "r = q" using p(5) by (auto simp: r_def)
        then have "reader (pty_serve (Close g) s) h = reader s h"
          unfolding run using slot dw(1) more hr(1) ab(2) by (simp add: reader_put_pair [OF wf p(4)])
        moreover have "wake_target (Close g) s = None" "\<not> withdraws (Close g) h s" using more by auto
        ultimately show ?thesis unfolding next_reader_def by (simp only: if_False simp_thms option.distinct)
      qed
    qed
    ultimately show ?thesis by simp
  qed
  then show "reader (pty_serve (Close g) s) h = next_reader (Close g) h s"
    and "pty_wakes (pty_serve (Close g) s) = pty_wakes s @ (case wake_target (Close g) s of
      None \<Rightarrow> [] | Some k \<Rightarrow> filter (\<lambda>w. w \<noteq> 0) [reader s k])" by blast+
qed

lemma arm_exact:
  assumes wf: "pty_wf s" and live: "0 < handle_count s h" and pid: "pid \<noteq> 0"
  shows "\<exists>s'. pty_arm_read_waiter h pid s = (PTY_OK, s') \<and> reader s' h = pid \<and> pty_wakes s' = pty_wakes s"
proof -
  obtain p where p: "pair_from_handle h s = Some p" "length (pair_waiters p) = 2" "unat (handle_slot h) < 8"
    "handle_endpoint h = 0 \<or> handle_endpoint h = 1" using live_pair [OF wf live] by metis
  then have "unat (handle_endpoint h) < length (pair_waiters p)" by auto
  then show ?thesis using p(1) pid by (simp add: pty_arm_read_waiter_def reader_put_pair [OF wf p(3)])
qed

lemma waiter_reader:
  assumes wf: "pty_wf s" and live: "0 < handle_count s h"
  shows "reader (pty_serve (Arm g pid) s) h = next_reader (Arm g pid) h s"
    and "reader (pty_serve (Cancel g pid) s) h = next_reader (Cancel g pid) h s"
    and "reader (pty_serve (Read g null len) s) h = next_reader (Read g null len) h s"
    and "reader (pty_serve (Retain g) s) h = next_reader (Retain g) h s"
proof -
  have "reader (pty_serve (Arm g pid) s) h = next_reader (Arm g pid) h s \<and>
    reader (pty_serve (Cancel g pid) s) h = next_reader (Cancel g pid) h s \<and>
    reader (pty_serve (Read g null len) s) h = next_reader (Read g null len) h s \<and>
    reader (pty_serve (Retain g) s) h = next_reader (Retain g) h s"
  proof (cases "handle_count s g = 0")
    case True
    then have "pair_from_handle g s = None" using handle_count_pos [of s g] by (cases "pair_from_handle g s") auto
    with True live show ?thesis
      by (auto simp: pty_arm_read_waiter_def pty_cancel_read_waiter_def pty_read_def pty_retain_def next_reader_def)
  next
    case False
    then have g: "0 < handle_count s g" by simp
    obtain p where p: "pair_from_handle g s = Some p" "p = pty_pairs s ! unat (handle_slot g)"
      "reader s g = pair_waiters p ! unat (handle_endpoint g)"
      "length (pair_waiters p) = 2" "unat (handle_slot g) < 8" "handle_endpoint g = 0 \<or> handle_endpoint g = 1"
      using live_pair [OF wf g] by metis
    note put = reader_put_pair [OF wf p(5), of _ h]
    have len: "unat (handle_endpoint g) < length (pair_waiters p)" using p(4,6) by auto
    have old: "reader s h = pair_waiters p ! unat (handle_endpoint h)" if "handle_slot h = handle_slot g"
      using that p(2) by (simp add: reader_def)
    have same: "g = h \<longleftrightarrow> handle_slot h = handle_slot g \<and> unat (handle_endpoint h) = unat (handle_endpoint g)"
      using live_same_slot(1) [OF wf g live] by auto
    have "reader (pty_serve (Arm g pid) s) h = next_reader (Arm g pid) h s"
      using p(1,3) len old by (auto simp: pty_arm_read_waiter_def put next_reader_def same nth_list_update)
    moreover have "reader (pty_serve (Cancel g pid) s) h = next_reader (Cancel g pid) h s"
      using p(1,3) len old by (auto simp: pty_cancel_read_waiter_def put next_reader_def same nth_list_update)
    moreover have "reader (pty_serve (Read g null len) s) h = next_reader (Read g null len) h s"
    proof (cases "null \<and> len \<noteq> 0")
      case False
      show ?thesis using pty_read_correct [OF wf p(1) False] old by (auto simp: put next_reader_def)
    qed (use p(1) in \<open>simp add: pty_read_def next_reader_def\<close>)
    moreover have "reader (pty_serve (Retain g) s) h = next_reader (Retain g) h s"
      using p(1) old by (simp add: pty_retain_def Let_def put next_reader_def)
    ultimately show ?thesis by blast
  qed
  then show "reader (pty_serve (Arm g pid) s) h = next_reader (Arm g pid) h s"
    "reader (pty_serve (Cancel g pid) s) h = next_reader (Cancel g pid) h s"
    "reader (pty_serve (Read g null len) s) h = next_reader (Read g null len) h s"
    "reader (pty_serve (Retain g) s) h = next_reader (Retain g) h s" by blast+
qed

lemma create_keeps:
  assumes wf: "pty_wf s"
  shows "pty_wakes (pty_serve Create s) = pty_wakes s"
    and "0 < handle_count s h \<Longrightarrow> reader (pty_serve Create s) h = reader s h"
proof -
  have "pty_wakes (pty_serve Create s) = pty_wakes s \<and>
    (0 < handle_count s h \<longrightarrow> reader (pty_serve Create s) h = reader s h)"
  proof (cases "find_unused 0 (pty_pairs s)")
    case None
    then show ?thesis by (simp add: pty_create_pair_def)
  next
    case (Some jp)
    obtain j p where jp: "jp = (j, p)" by (cases jp)
    have j: "j < 8" "p = pty_pairs s ! j" "\<not> pair_used p"
      using find_unused_spec [where i = 0 and ps = "pty_pairs s"] wf Some jp by (auto simp: pty_wf_def)
    have slot: "unat (word_of_nat j :: u16) = j" using j(1) by (simp add: unat_of_nat take_bit_nat_eq_self)
    obtain q where q: "pty_serve Create s = put_pair (word_of_nat j) q s"
      using Some jp wf by (auto simp: pty_create_pair_def pty_wf_def Let_def)
    have "handle_slot h \<noteq> word_of_nat j" if "0 < handle_count s h"
      using that j slot by (auto simp: handle_count_eq Let_def split: if_splits)
    then show ?thesis unfolding q by (simp add: reader_put_pair [OF wf, of "word_of_nat j", unfolded slot, OF j(1)])
  qed
  then show "pty_wakes (pty_serve Create s) = pty_wakes s"
    "0 < handle_count s h \<Longrightarrow> reader (pty_serve Create s) h = reader s h" by blast+
qed

text \<open>What any call does to the registered readers and whom it wakes.\<close>

lemma serve_reader:
  assumes wf: "pty_wf s" and live: "0 < handle_count s h"
  shows "reader (pty_serve c s) h = next_reader c h s"
proof (cases c)
  case Create
  then show ?thesis using create_keeps(2) [OF wf live] by (simp add: next_reader_def)
qed (use write_reader(1) [OF wf live] close_reader(1) [OF wf live] waiter_reader [OF wf live] in simp_all)

lemma serve_wakes:
  assumes wf: "pty_wf s"
  shows "pty_wakes (pty_serve c s) = pty_wakes s @ (case wake_target c s of
    None \<Rightarrow> [] | Some k \<Rightarrow> filter (\<lambda>w. w \<noteq> 0) [reader s k])"
proof (cases c)
  case Create
  then show ?thesis using create_keeps(1) [OF wf] by simp
next
  case (Retain g)
  then show ?thesis by (auto simp: pty_retain_def Let_def split: option.splits)
next
  case (Close g)
  show ?thesis
  proof (cases "handle_count s g = 0")
    case True
    then have "pair_from_handle g s = None" using handle_count_pos [of s g] by (cases "pair_from_handle g s") auto
    with True Close show ?thesis by (simp add: pty_close_def)
  qed (use close_reader(2) [OF wf, of g g] Close in simp)
next
  case (Read g null len)
  then show ?thesis using pty_read_effect [OF wf, of g null len] by (cases "pty_read g null len s") simp
next
  case (Write g buffer)
  show ?thesis
  proof (cases "handle_count s g = 0")
    case True
    then have "pty_serve (Write g buffer) s = s"
      using pty_write_refused(1) [of g s buffer] handle_count_pos [of s g] by (cases "pair_from_handle g s") auto
    moreover have "wake_target (Write g buffer) s = None" using True by (cases buffer) auto
    ultimately show ?thesis using Write by simp
  qed (use write_reader(2) [OF wf, of g g] Write in simp)
next
  case (Arm g pid)
  then show ?thesis by (auto simp: pty_arm_read_waiter_def split: option.splits)
next
  case (Cancel g pid)
  then show ?thesis by (auto simp: pty_cancel_read_waiter_def split: option.splits)
qed

lemma undisturbed_live:
  assumes wf: "pty_wf s" and live: "0 < handle_count s h" and no: "\<not> withdraws c h s" "reader s h \<noteq> 0"
  shows "0 < handle_count (pty_serve c s) h"
proof (cases c)
  case Create
  obtain res hs t where r: "pty_create_pair s = (res, hs, t)" by (cases "pty_create_pair s")
  have "0 < handle_count t h"
  proof (cases hs)
    case None
    then show ?thesis using pty_create_effect [OF wf] r live by simp
  next
    case (Some ab)
    then obtain a b where "handle_count t = (handle_count s)(a := 1, b := 1)"
      using pty_create_effect [OF wf, unfolded r] by (cases ab) auto
    with live show ?thesis by simp
  qed
  then show ?thesis using r Create by simp
next
  case (Retain g)
  then show ?thesis using pty_retain_counts [OF wf, of g] live by (auto split: prod.splits)
next
  case (Close g)
  then show ?thesis using pty_close_effect [OF wf, of g] live no by (auto split: prod.splits)
qed (use pty_serve_counts [OF wf] live in simp_all)

lemma undisturbed_run:
  assumes "pty_reachable s" "0 < handle_count s h" "reader s h = pid" "pid \<noteq> 0" "undisturbed h calls s"
  shows "pty_reachable (fold pty_serve calls s) \<and> reader (fold pty_serve calls s) h = pid \<and>
    0 < handle_count (fold pty_serve calls s) h"
  using assms
proof (induction calls arbitrary: s)
  case (Cons c cs)
  note wf = pty_reachable_wf [OF Cons.prems(1)]
  have "reader (pty_serve c s) h = pid"
    using serve_reader [OF wf Cons.prems(2), of c] Cons.prems(3,5) by (simp add: next_reader_def)
  moreover have "0 < handle_count (pty_serve c s) h"
    using undisturbed_live [OF wf Cons.prems(2), of c] Cons.prems(3-5) by simp
  ultimately show ?case
    using Cons.IH [OF pty_reachable.call [OF Cons.prems(1), of c]] Cons.prems(4,5) by simp
qed simp

section \<open>Properties\<close>

text \<open>
  C14: In every reachable state and for every sequence of calls that closes no handle
  of a pair, the bytes delivered to an endpoint followed by those still on their way
  are the bytes on their way before followed by those accepted from the other
  endpoint: no byte is lost, duplicated or reordered, whatever the other calls do.
\<close>

theorem pty_stream_conserved:
  assumes "pty_reachable s" "e \<le> 1" "\<forall>h. Close h \<in> set calls \<longrightarrow> handle_slot h \<noteq> slot"
    "traffic slot e calls s = (sent, received, s')"
  shows "pty_reachable s \<and> received @ stream s' slot e = stream s slot e @ sent"
  using traffic_conserved [OF pty_reachable_wf [OF assms(1)] assms(2) _ assms(4)] assms(1,3) by auto

lemma pty_stream_conserved_witness:
  "\<exists>s h. pty_reachable s \<and> 0 < handle_count s h \<and>
    (case traffic (handle_slot h) 1 [Write h (Some [7, 8, 9]), Read h False 5] s of
      (sent, received, s') \<Rightarrow> received @ stream s' (handle_slot h) 1 = stream s (handle_slot h) 1 @ sent)"
proof -
  obtain m sl s where "pty_reachable s" "handle_count s m = 1" using sample_pair by metis
  then show ?thesis
    using pty_stream_conserved [of s 1 "[Write m (Some [7, 8, 9]), Read m False 5]" "handle_slot m"]
    by (intro exI [of _ s] exI [of _ m]) (auto split: prod.splits)
qed

text \<open>
  C15: A write through a live handle accepts the longest prefix that fits into 4096
  bytes and appends it to the peer's stream, or reports HUP when the peer is closed;
  a read takes the oldest bytes of its own stream and tells an empty stream (would
  block) from a finished one (HUP). Dead handles are refused without any effect.
\<close>

theorem pty_transfers_exact:
  assumes "pty_reachable s"
  shows "(\<forall>h bytes res n s'. 0 < handle_count s h \<longrightarrow> pty_write h (Some bytes) s = (res, n, s') \<longrightarrow>
      (if peer_open s h then
         n = min (length bytes) (4096 - length (stream s (handle_slot h) (peer_endpoint (handle_endpoint h)))) \<and>
         res = (if n = 0 then PTY_WOULD_BLOCK else PTY_OK) \<and>
         stream s' (handle_slot h) (peer_endpoint (handle_endpoint h)) =
           stream s (handle_slot h) (peer_endpoint (handle_endpoint h)) @ take n bytes
       else res = PTY_HUP \<and> n = 0 \<and> s' = s)) \<and>
    (\<forall>h len res bytes s'. 0 < handle_count s h \<longrightarrow> pty_read h False len s = (res, bytes, s') \<longrightarrow>
      bytes = take (unat len) (stream s (handle_slot h) (handle_endpoint h)) \<and>
      stream s' (handle_slot h) (handle_endpoint h) = drop (unat len) (stream s (handle_slot h) (handle_endpoint h)) \<and>
      res = (if len = 0 \<or> bytes \<noteq> [] then PTY_OK else if peer_open s h then PTY_WOULD_BLOCK else PTY_HUP)) \<and>
    (\<forall>h null len buffer. handle_count s h = 0 \<longrightarrow>
      pty_read h null len s = (PTY_INVALID, [], s) \<and> pty_write h buffer s = (PTY_INVALID, 0, s))"
  using pty_write_exact [OF pty_reachable_wf [OF assms]] pty_read_exact [OF pty_reachable_wf [OF assms]]
    pty_dead_refused by blast

lemma pty_transfers_exact_witness:
  "\<exists>s h s'. pty_reachable s \<and> pty_write h (Some []) s = (PTY_WOULD_BLOCK, 0, s')"
proof -
  obtain m sl s where s: "pty_reachable s" "handle_count s m = 1" "handle_count s sl = 1"
    "sl = m\<lparr>handle_endpoint := 1\<rparr>" "handle_endpoint m = 0" using sample_pair by metis
  have "peer_open s m"
    using s(3,4,5) by (auto simp: peer_open_def peer_endpoint_def handle_count_eq Let_def split: if_splits)
  moreover obtain res n s' where r: "pty_write m (Some []) s = (res, n, s')" by (cases "pty_write m (Some []) s")
  ultimately have "n = 0 \<and> res = PTY_WOULD_BLOCK"
    using conjunct1 [OF pty_transfers_exact [OF s(1)], rule_format, OF _ r] s(2) by simp
  with s(1) r show ?thesis by blast
qed

text \<open>
  The handles behave as reference counts: creating a pair gives two new handles
  with one reference each and fails only when all eight pairs are in use, retaining
  and closing count up and down and succeed exactly for live handles (below the
  32-bit limit), and nothing else changes any handle's count.
\<close>

theorem pty_handles_counted:
  assumes "pty_reachable s"
  shows "(\<forall>res handles s'. pty_create_pair s = (res, handles, s') \<longrightarrow> (case handles of
        None \<Rightarrow> res = PTY_NO_SPACE \<and> s' = s \<and> (\<forall>slot. unat slot < 8 \<longrightarrow> (\<exists>h. handle_slot h = slot \<and> 0 < handle_count s h))
      | Some (m, sl) \<Rightarrow> res = PTY_OK \<and> handle_count s m = 0 \<and> handle_count s sl = 0 \<and> m \<noteq> sl \<and>
          handle_count s' = (handle_count s)(m := 1, sl := 1))) \<and>
    (\<forall>h res s'. pty_retain h s = (res, s') \<longrightarrow>
      (res = PTY_OK \<longleftrightarrow> 0 < handle_count s h \<and> handle_count s h < 4294967295) \<and>
      handle_count s' = (if res = PTY_OK then (handle_count s)(h := handle_count s h + 1) else handle_count s)) \<and>
    (\<forall>h res s'. pty_close h s = (res, s') \<longrightarrow> (res = PTY_OK \<longleftrightarrow> 0 < handle_count s h) \<and>
      handle_count s' = (handle_count s)(h := handle_count s h - 1)) \<and>
    (\<forall>h null len buffer pid. handle_count (pty_serve (Read h null len) s) = handle_count s \<and>
      handle_count (pty_serve (Write h buffer) s) = handle_count s \<and>
      handle_count (pty_serve (Arm h pid) s) = handle_count s \<and> handle_count (pty_serve (Cancel h pid) s) = handle_count s)"
proof -
  note wf = pty_reachable_wf [OF assms]
  show ?thesis
    using pty_create_counts [OF wf] pty_retain_counts [OF wf] pty_close_effect [OF wf] pty_serve_counts [OF wf]
    by (intro conjI) (fastforce split: prod.splits)+
qed

lemma pty_handles_counted_witness:
  "\<exists>s h s'. pty_reachable s \<and> pty_retain h s = (PTY_OK, s') \<and> handle_count s' h = 2"
proof -
  obtain m sl s where s: "pty_reachable s" "handle_count s m = 1" using sample_pair by metis
  obtain res s' where r: "pty_retain m s = (res, s')" by (cases "pty_retain m s")
  then have "res = PTY_OK \<and> handle_count s' m = 2"
    using pty_handles_counted [OF s(1)] s(2) by auto
  with s(1) r show ?thesis by blast
qed

text \<open>
  C16: A process that arms itself as the reader of a live endpoint is registered, in place
  of whoever was registered before and without waking that process. It stays
  registered over any calls among which none puts a byte into its stream or closes the
  last reference to the other end, none arms another process at the same endpoint,
  none cancels it and none closes the last reference to its own end; and the first
  call after them that puts a byte into its stream or closes the last reference to the
  other end wakes exactly this process and ends the registration. Every call whatever
  wakes the process registered at the endpoint it concerns and nobody else.
\<close>

theorem pty_reader_woken:
  assumes "pty_reachable s" "0 < handle_count s h" "pid \<noteq> 0"
  shows "(\<exists>s'. pty_arm_read_waiter h pid s = (PTY_OK, s') \<and> reader s' h = pid \<and> pty_wakes s' = pty_wakes s) \<and>
    (\<forall>calls t. reader s h = pid \<longrightarrow> undisturbed h calls s \<longrightarrow> t = fold pty_serve calls s \<longrightarrow>
      reader t h = pid \<and> 0 < handle_count t h \<and>
      (\<forall>c. wake_target c t = Some h \<longrightarrow>
        pty_wakes (pty_serve c t) = pty_wakes t @ [pid] \<and> reader (pty_serve c t) h = 0)) \<and>
    (\<forall>c. pty_wakes (pty_serve c s) = pty_wakes s @ (case wake_target c s of
       None \<Rightarrow> [] | Some k \<Rightarrow> if reader s k = 0 then [] else [reader s k]))"
proof (intro conjI allI impI arm_exact [OF pty_reachable_wf [OF assms(1)] assms(2,3)])
  fix calls t
  assume run: "reader s h = pid" "undisturbed h calls s" "t = fold pty_serve calls s"
  have t: "pty_reachable t" "reader t h = pid" "0 < handle_count t h"
    using undisturbed_run [OF assms(1,2) run(1) assms(3) run(2)] unfolding run(3) by simp_all
  then show "reader t h = pid" "0 < handle_count t h" by simp_all
  fix c assume c: "wake_target c t = Some h"
  show "pty_wakes (pty_serve c t) = pty_wakes t @ [pid]"
    using serve_wakes [OF pty_reachable_wf [OF t(1)], of c] c t(2) assms(3) by simp
  show "reader (pty_serve c t) h = 0"
    using serve_reader [OF pty_reachable_wf [OF t(1)] t(3), of c] c by (simp add: next_reader_def)
next
  fix c
  show "pty_wakes (pty_serve c s) = pty_wakes s @ (case wake_target c s of
       None \<Rightarrow> [] | Some k \<Rightarrow> if reader s k = 0 then [] else [reader s k])"
    unfolding serve_wakes [OF pty_reachable_wf [OF assms(1)]] by (simp split: option.split)
qed

text \<open>The slave end of a new pair waits for process 77, is retained, and the master end writes.\<close>

lemma pty_reader_woken_witness:
  "\<exists>s m h. pty_reachable s \<and>
    (let t = fold pty_serve [Arm h 77, Retain h] s
     in reader t h = 77 \<and> pty_wakes (pty_serve (Write m (Some [1])) t) = pty_wakes t @ [77] \<and>
       reader (pty_serve (Write m (Some [1])) t) h = 0)"
proof -
  obtain m h s where s: "pty_reachable s" "handle_count s m = 1" "handle_count s h = 1"
    "h = m\<lparr>handle_endpoint := 1\<rparr>" "handle_endpoint m = 0" "\<And>slot e. stream s slot e = stream fresh_pty slot e"
    using sample_pair by metis
  have "handle_endpoint h = 1" using s(4) by simp
  with s(5) have "m \<noteq> h" by auto
  with s(4,5) have mh: "h = other_end m" "m \<noteq> h" by (simp_all add: other_end_def peer_endpoint_def)
  obtain s1 where arm: "pty_arm_read_waiter h 77 s = (PTY_OK, s1)" "reader s1 h = 77"
    using pty_reader_woken [OF s(1), of h 77] s(3) by auto
  have s1: "pty_reachable s1" "handle_count s1 = handle_count s" "stream s1 = stream s"
    using pty_reachable.call [OF s(1), of "Arm h 77"] arm(1) pty_arm_effect [OF pty_reachable_wf [OF s(1)] arm(1)]
    by simp_all
  define t where "t = pty_serve (Retain h) s1"
  have t: "handle_count t m = 1" "0 < handle_count t h" "stream t = stream s" "pty_reachable t"
    using pty_retain_counts [OF pty_reachable_wf [OF s1(1)], of h] s(2,3) s1(2,3) mh(2)
      pty_reachable.call [OF s1(1), of "Retain h"]
    by (auto simp: t_def split: prod.splits if_splits)
  have "peer_open t m"
    using live_pair [OF pty_reachable_wf [OF t(4)] t(2)] t(2) unfolding mh(1)
    by (metis other_end_fields peer_open_def unat_0 less_irrefl)
  moreover have "stream t (handle_slot m) (peer_endpoint (handle_endpoint m)) = []"
  proof -
    have "unat (handle_slot m) < 8" using live_pair [OF pty_reachable_wf [OF s(1)]] s(2) by (metis zero_less_one)
    then show ?thesis unfolding t(3) s(6)
      by (simp add: stream_def fresh_pty_def pty_init_def pty_boot_def pair_reset_def ring_clear_def incoming_ring_def)
  qed
  ultimately have "wake_target (Write m (Some [1])) t = Some h" using t(1) mh(1) by simp
  moreover have "\<forall>calls t. reader s1 h = 77 \<longrightarrow> undisturbed h calls s1 \<longrightarrow> t = fold pty_serve calls s1 \<longrightarrow>
      reader t h = 77 \<and> 0 < handle_count t h \<and>
      (\<forall>c. wake_target c t = Some h \<longrightarrow>
        pty_wakes (pty_serve c t) = pty_wakes t @ [77] \<and> reader (pty_serve c t) h = 0)"
    using pty_reader_woken [OF s1(1), of h 77] s1(2) s(3) by simp
  from this [rule_format, of "[Retain h]" t] have "reader t h = 77 \<and> (\<forall>c. wake_target c t = Some h \<longrightarrow>
        pty_wakes (pty_serve c t) = pty_wakes t @ [77] \<and> reader (pty_serve c t) h = 0)"
    using arm(2) by (simp add: t_def)
  ultimately have "reader t h = 77 \<and> pty_wakes (pty_serve (Write m (Some [1])) t) = pty_wakes t @ [77] \<and>
       reader (pty_serve (Write m (Some [1])) t) h = 0" by blast
  moreover have "fold pty_serve [Arm h 77, Retain h] s = t" using arm(1) by (simp add: t_def)
  ultimately show ?thesis using s(1) by (intro exI [of _ s] exI [of _ m] exI [of _ h]) (simp only: Let_def simp_thms)
qed

end
