(* ===== verification/Input.thy ===== *)
theory Input
  imports Ring
begin

text \<open>
  kernel/core/input.c: the queue of keyboard and mouse events with the state of the
  keys, owned by at most one process, filled by the drivers and read by the owner.
  Every entry point masks interrupts and restores the flag it found, here the field
  \<open>cpu_interrupts\<close>. Signed event values are the words of their two's complement.
  The breadcrumb port writes of one build flag are left out.
\<close>

section \<open>State\<close>

abbreviation (input) INPUT_QUEUE_CAPACITY :: u64 where "INPUT_QUEUE_CAPACITY \<equiv> 128"
abbreviation (input) INPUT_READ_MAX :: u64 where "INPUT_READ_MAX \<equiv> 16"
abbreviation (input) KEY_MAX :: u32 where "KEY_MAX \<equiv> 82"

record input_event =
  event_type :: u32
  event_code :: u32
  event_value1 :: "32 word"
  event_value2 :: "32 word"
  event_modifiers :: u32
  event_flags :: u32

record input_state =
  input_queue :: "input_event list"
  input_held :: "bool list"
  owner_pid :: u64
  dropped_events :: u64
  input_head :: u64
  input_count :: u64
  input_modifiers :: u32
  input_owned :: bool
  owner_waiting :: bool
  input_initialized :: bool
  cpu_interrupts :: bool

datatype input_result = INPUT_OK | INPUT_INVALID | INPUT_BUSY | INPUT_ACCESS | INPUT_NOT_INITIALIZED

record input_stats =
  istat_owner_pid :: u64
  istat_dropped_events :: u64
  istat_queued_events :: u64
  istat_modifiers :: u32
  istat_owned :: bool
  istat_waiting :: bool
  istat_initialized :: bool

text \<open>Run a body with interrupts disabled, between \<open>x86_64_interrupts_disable\<close> and the restore.\<close>

definition input_restore_interrupts :: "bool \<Rightarrow> input_state \<Rightarrow> input_state" where
  "input_restore_interrupts enabled s = (if enabled then s\<lparr>cpu_interrupts := True\<rparr> else s)"

definition interrupts_masked :: "(input_state \<Rightarrow> 'r \<times> input_state) \<Rightarrow> input_state \<Rightarrow> 'r \<times> input_state" where
  "interrupts_masked body s =
     (let interrupts_were_enabled = cpu_interrupts s;
          (r, s) = body (s\<lparr>cpu_interrupts := False\<rparr>)
      in (r, input_restore_interrupts interrupts_were_enabled s))"

section \<open>Internals\<close>

definition input_clear_queue :: "input_state \<Rightarrow> input_state" where
  "input_clear_queue s = s\<lparr>input_head := 0, input_count := 0\<rparr>"

definition input_clear_keys :: "input_state \<Rightarrow> input_state" where
  "input_clear_keys s =
     s\<lparr>input_held := write_cells 0 (\<lambda>_. False) 83 (input_held s), input_modifiers := 0\<rparr>"

definition input_modifier_mask :: "bool list \<Rightarrow> u32" where
  "input_modifier_mask held =
     (let modifiers = 0;
          modifiers = (if held ! 75 \<or> held ! 76 then modifiers OR 1 else modifiers);
          modifiers = (if held ! 77 \<or> held ! 78 then modifiers OR 2 else modifiers);
          modifiers = (if held ! 79 \<or> held ! 80 then modifiers OR 4 else modifiers);
          modifiers = (if held ! 81 \<or> held ! 82 then modifiers OR 8 else modifiers)
      in modifiers)"

definition input_push :: "input_event \<Rightarrow> input_state \<Rightarrow> bool \<times> input_state" where
  "input_push event s =
     (if \<not> input_initialized s \<or> \<not> input_owned s then (False, s)
      else if input_count s = INPUT_QUEUE_CAPACITY then
        (False, if dropped_events s \<noteq> UINT64_MAX then s\<lparr>dropped_events := dropped_events s + 1\<rparr> else s)
      else
        let tail = (input_head s + input_count s) mod INPUT_QUEUE_CAPACITY in
        (True, s\<lparr>input_queue := (input_queue s)[unat tail := event],
          input_count := input_count s + 1, owner_waiting := False\<rparr>))"

text \<open>What releasing the ownership resets, in \<open>boring_input_release\<close> and at process teardown.\<close>

definition input_drop_owner :: "input_state \<Rightarrow> input_state" where
  "input_drop_owner s = input_clear_keys (input_clear_queue
     (s\<lparr>input_owned := False, owner_pid := 0, owner_waiting := False\<rparr>))"

section \<open>Entry points\<close>

definition zero_event :: input_event where
  "zero_event = \<lparr>event_type = 0, event_code = 0, event_value1 = 0, event_value2 = 0,
     event_modifiers = 0, event_flags = 0\<rparr>"

definition boring_input_init :: "input_state \<Rightarrow> bool \<times> input_state" where
  "boring_input_init = interrupts_masked (\<lambda>s.
     if input_initialized s then (False, s)
     else
       let s = s\<lparr>owner_pid := 0, dropped_events := 0, input_owned := False, owner_waiting := False,
             input_initialized := True\<rparr>;
           s = input_clear_keys (input_clear_queue s)
       in (True, s\<lparr>input_queue := write_cells 0 (\<lambda>_. zero_event) 128 (input_queue s)\<rparr>))"

definition boring_input_claim :: "u64 \<Rightarrow> input_state \<Rightarrow> input_result \<times> input_state" where
  "boring_input_claim pid = interrupts_masked (\<lambda>s.
     if \<not> input_initialized s then (INPUT_NOT_INITIALIZED, s)
     else if pid = 0 \<or> pid = UINT64_MAX then (INPUT_INVALID, s)
     else if input_owned s \<and> owner_pid s \<noteq> pid then (INPUT_BUSY, s)
     else if \<not> input_owned s then
       (INPUT_OK, input_clear_keys (input_clear_queue
         (s\<lparr>input_owned := True, owner_pid := pid, owner_waiting := False\<rparr>)))
     else (INPUT_OK, s))"

definition boring_input_release :: "u64 \<Rightarrow> input_state \<Rightarrow> input_result \<times> input_state" where
  "boring_input_release pid = interrupts_masked (\<lambda>s.
     if \<not> input_initialized s then (INPUT_NOT_INITIALIZED, s)
     else if \<not> input_owned s \<or> owner_pid s \<noteq> pid then (INPUT_ACCESS, s)
     else (INPUT_OK, input_drop_owner s))"

text \<open>The result is the return value with \<open>*released_out\<close>, which is written only on success.\<close>

definition boring_input_process_teardown :: "u64 \<Rightarrow> input_state \<Rightarrow> (bool \<times> bool option) \<times> input_state" where
  "boring_input_process_teardown pid = interrupts_masked (\<lambda>s.
     if \<not> input_initialized s \<or> pid = 0 \<or> pid = UINT64_MAX then ((False, None), s)
     else if input_owned s \<and> owner_pid s = pid then ((True, Some True), input_drop_owner s)
     else ((True, Some False), s))"

definition input_more :: "input_state \<Rightarrow> bool" where
  "input_more s \<longleftrightarrow> input_count s \<noteq> 0"

definition input_take :: "input_state \<Rightarrow> input_event \<times> input_state" where
  "input_take s = (input_queue s ! unat (input_head s),
     s\<lparr>input_head := (input_head s + 1) mod INPUT_QUEUE_CAPACITY, input_count := input_count s - 1\<rparr>)"

text \<open>
  \<open>capacity\<close> is the length of the caller's array (\<open>events_null\<close>: the pointer is
  NULL); on success the events stored there are returned, their number is \<open>*count_out\<close>.
\<close>

definition boring_input_read ::
  "u64 \<Rightarrow> bool \<Rightarrow> u64 \<Rightarrow> input_state \<Rightarrow> (input_result \<times> input_event list) \<times> input_state" where
  "boring_input_read pid events_null capacity = interrupts_masked (\<lambda>s.
     if \<not> input_initialized s then ((INPUT_NOT_INITIALIZED, []), s)
     else if events_null \<or> capacity = 0 \<or> capacity > INPUT_READ_MAX then ((INPUT_INVALID, []), s)
     else if \<not> input_owned s \<or> owner_pid s \<noteq> pid then ((INPUT_ACCESS, []), s)
     else let (events, s) = pop_while input_more input_take (unat capacity) s in ((INPUT_OK, events), s))"

definition boring_input_wait_prepare :: "u64 \<Rightarrow> input_state \<Rightarrow> bool \<times> input_state" where
  "boring_input_wait_prepare pid = interrupts_masked (\<lambda>s.
     if input_initialized s \<and> input_owned s \<and> owner_pid s = pid \<and> input_count s = 0
     then (True, s\<lparr>owner_waiting := True\<rparr>) else (False, s))"

definition boring_input_wait_cancel :: "u64 \<Rightarrow> input_state \<Rightarrow> unit \<times> input_state" where
  "boring_input_wait_cancel pid = interrupts_masked (\<lambda>s.
     if input_initialized s \<and> input_owned s \<and> owner_pid s = pid
     then ((), s\<lparr>owner_waiting := False\<rparr>) else ((), s))"

definition boring_input_submit_key :: "u32 \<Rightarrow> bool \<Rightarrow> input_state \<Rightarrow> bool \<times> input_state" where
  "boring_input_submit_key code down = interrupts_masked (\<lambda>s.
     if \<not> input_initialized s \<or> \<not> input_owned s \<or> code = 0 \<or> code > KEY_MAX then (False, s)
     else
       let repeat = down \<and> input_held s ! unat code;
           s = s\<lparr>input_held := (input_held s)[unat code := down]\<rparr>;
           s = s\<lparr>input_modifiers := input_modifier_mask (input_held s)\<rparr>
       in input_push \<lparr>event_type = 1, event_code = code, event_value1 = (if down then 1 else 0),
            event_value2 = 0, event_modifiers = input_modifiers s,
            event_flags = (if repeat then 1 else 0)\<rparr> s)"

definition boring_input_submit_mouse_move :: "32 word \<Rightarrow> 32 word \<Rightarrow> input_state \<Rightarrow> bool \<times> input_state" where
  "boring_input_submit_mouse_move dx dy s =
     (if dx = 0 \<and> dy = 0 then (True, s)
      else interrupts_masked (\<lambda>s. input_push \<lparr>event_type = 2, event_code = 0, event_value1 = dx,
        event_value2 = dy, event_modifiers = input_modifiers s, event_flags = 0\<rparr> s) s)"

definition boring_input_submit_mouse_button :: "u32 \<Rightarrow> bool \<Rightarrow> input_state \<Rightarrow> bool \<times> input_state" where
  "boring_input_submit_mouse_button button down s =
     (if button < 1 \<or> button > 3 then (False, s)
      else interrupts_masked (\<lambda>s. input_push \<lparr>event_type = 3, event_code = button,
        event_value1 = (if down then 1 else 0), event_value2 = 0,
        event_modifiers = input_modifiers s, event_flags = 0\<rparr> s) s)"

definition boring_input_get_stats :: "input_state \<Rightarrow> input_stats option \<times> input_state" where
  "boring_input_get_stats = interrupts_masked (\<lambda>s.
     if \<not> input_initialized s then (None, s)
     else (Some \<lparr>istat_owner_pid = owner_pid s, istat_dropped_events = dropped_events s,
       istat_queued_events = input_count s, istat_modifiers = input_modifiers s,
       istat_owned = input_owned s, istat_waiting = owner_waiting s,
       istat_initialized = input_initialized s\<rparr>, s))"

section \<open>The queue\<close>

definition input_contents :: "input_state \<Rightarrow> input_event list" where
  "input_contents s = ring_items (input_queue s) (unat (input_head s)) (unat (input_count s))"

definition queue_wf :: "input_state \<Rightarrow> bool" where
  "queue_wf s \<longleftrightarrow> length (input_queue s) = 128 \<and> unat (input_head s) < 128 \<and> unat (input_count s) \<le> 128 \<and>
     input_initialized s \<and> input_owned s"

lemma length_input_contents [simp]: "length (input_contents s) = unat (input_count s)"
  by (simp add: input_contents_def)

lemma input_contents_empty [simp]: "input_contents s = [] \<longleftrightarrow> input_count s = 0"
  by (metis length_0_conv length_input_contents unat_eq_zero)

lemma input_take_first:
  assumes "queue_wf s" "input_contents s = x # xs"
  shows "fst (input_take s) = x \<and> queue_wf (snd (input_take s)) \<and> input_contents (snd (input_take s)) = xs"
proof -
  define n where "n = unat (input_count s) - 1"
  have c: "unat (input_count s) = Suc n"
    using assms(2) length_input_contents [of s] by (simp add: n_def)
  then have "input_count s \<noteq> 0" by auto
  then have d: "unat (input_count s - 1) = n" using c by (simp add: unat_minus_one)
  have r: "length (input_queue s) = 128" "unat (input_head s) < 128" using assms(1) by (simp_all add: queue_wf_def)
  have i: "unat ((input_head s + 1) mod 128) = Suc (unat (input_head s)) mod 128"
    using ring_advance [of "input_head s" 128] r(2) by simp
  have "input_contents s = input_queue s ! unat (input_head s) #
      ring_items (input_queue s) (Suc (unat (input_head s)) mod 128) n"
    using ring_items_pop [of "unat (input_head s)" "input_queue s" n] r by (simp add: input_contents_def c)
  then show ?thesis using assms i d c by (simp add: input_take_def queue_wf_def input_contents_def)
qed

lemma input_push_last:
  assumes "queue_wf s" "length (input_contents s) < 128"
  shows "fst (input_push x s) \<and> queue_wf (snd (input_push x s)) \<and>
    input_contents (snd (input_push x s)) = input_contents s @ [x]"
proof -
  have r: "length (input_queue s) = 128" "unat (input_head s) < 128" "unat (input_count s) < 128"
    "input_initialized s" "input_owned s" using assms by (simp_all add: queue_wf_def)
  have c: "unat (input_count s + 1) = Suc (unat (input_count s))" using r(3) by (simp add: unat_add_exact)
  have "unat (input_head s + input_count s) = unat (input_head s) + unat (input_count s)"
    using r by (simp add: unat_add_exact)
  then have t: "unat ((input_head s + input_count s) mod 128) = (unat (input_head s) + unat (input_count s)) mod 128"
    by (simp add: unat_mod_distrib)
  have "input_count s \<noteq> 128" using r(3) by auto
  then show ?thesis
    using ring_items_push [of "unat (input_head s)" "input_queue s" "unat (input_count s)" x] r c t
    by (simp add: input_push_def Let_def queue_wf_def input_contents_def)
qed

interpretation input_ring: ring_queue 128 queue_wf input_contents input_more "\<lambda>s. input_count s \<noteq> 128"
  input_take "\<lambda>x s. snd (input_push x s)"
proof unfold_locales
  fix s assume wf: "queue_wf s"
  show "length (input_contents s) \<le> 128" using wf by (simp add: queue_wf_def)
  show "input_more s \<longleftrightarrow> input_contents s \<noteq> []" by (simp add: input_more_def)
  show "input_count s \<noteq> 128 \<longleftrightarrow> length (input_contents s) < 128"
    using wf by (auto simp: queue_wf_def word_unat_eq_iff)
qed (use input_take_first input_push_last in blast)+

end
