(* ===== verification/InputProps.thy ===== *)
theory InputProps
  imports Input
begin

text \<open>
  What kernel/core/input.c guarantees: the invariant of all reachable states (modifier
  bits, idle state without owner), exclusive ownership, and the queue as a bounded
  first-in first-out list, through the contract \<open>ring_queue\<close>.
\<close>

section \<open>Invariant\<close>

definition input_wf :: "input_state \<Rightarrow> bool" where
  "input_wf s \<longleftrightarrow> input_initialized s \<and> length (input_queue s) = 128 \<and> length (input_held s) = 83 \<and>
     unat (input_head s) < 128 \<and> unat (input_count s) \<le> 128 \<and>
     input_modifiers s = input_modifier_mask (input_held s) \<and>
     (input_owned s \<longrightarrow> owner_pid s \<noteq> 0 \<and> owner_pid s \<noteq> UINT64_MAX) \<and>
     (\<not> input_owned s \<longrightarrow> input_count s = 0 \<and> \<not> owner_waiting s \<and> True \<notin> set (input_held s))"

definition input_owner :: "input_state \<Rightarrow> u64 option" where
  "input_owner s = (if input_owned s then Some (owner_pid s) else None)"

lemma input_wf_flag [simp]: "input_wf (s\<lparr>cpu_interrupts := b\<rparr>) = input_wf s"
  by (simp add: input_wf_def)

lemma input_contents_updates [simp]:
  "input_contents (s\<lparr>cpu_interrupts := b\<rparr>) = input_contents s"
  "input_contents (s\<lparr>owner_waiting := w\<rparr>) = input_contents s"
  "input_contents (s\<lparr>dropped_events := n\<rparr>) = input_contents s"
  "input_contents (s\<lparr>input_held := h\<rparr>) = input_contents s"
  "input_contents (s\<lparr>input_modifiers := m\<rparr>) = input_contents s"
  "input_contents (s\<lparr>input_owned := o'\<rparr>) = input_contents s"
  "input_contents (s\<lparr>owner_pid := p\<rparr>) = input_contents s"
  by (simp_all add: input_contents_def)

lemma input_owner_updates [simp]:
  "input_owner (s\<lparr>cpu_interrupts := b\<rparr>) = input_owner s"
  "input_owner (s\<lparr>owner_waiting := w\<rparr>) = input_owner s"
  "input_owner (s\<lparr>dropped_events := n\<rparr>) = input_owner s"
  "input_owner (s\<lparr>input_held := h\<rparr>) = input_owner s"
  "input_owner (s\<lparr>input_modifiers := m\<rparr>) = input_owner s"
  by (simp_all add: input_owner_def)

text \<open>A masked body: the result and state of the body, with the interrupt flag put back.\<close>

lemma interrupts_masked_run:
  assumes "body (s\<lparr>cpu_interrupts := False\<rparr>) = (r, t)" "\<not> cpu_interrupts t"
  shows "interrupts_masked body s = (r, t\<lparr>cpu_interrupts := cpu_interrupts s\<rparr>)"
  using assms by (simp add: interrupts_masked_def input_restore_interrupts_def)

lemma no_keys: "length held = 83 \<Longrightarrow> write_cells 0 (\<lambda>_. False) 83 held = replicate 83 False"
  by (intro nth_equalityI) (simp_all add: nth_write_cells)

lemma no_keys_mask [simp]: "input_modifier_mask (replicate 83 False) = 0"
  by (simp add: input_modifier_mask_def nth_replicate)

definition idle_from :: "input_state \<Rightarrow> input_state \<Rightarrow> bool" where
  "idle_from s t \<longleftrightarrow> input_contents t = [] \<and> input_held t = replicate 83 False \<and> \<not> owner_waiting t \<and>
     dropped_events t = dropped_events s \<and> cpu_interrupts t = cpu_interrupts s"

lemma input_claim_effect:
  assumes wf: "input_wf s" and r: "boring_input_claim pid s = (res, t)"
  shows "input_wf t \<and> cpu_interrupts t = cpu_interrupts s \<and>
    (res = INPUT_OK \<longleftrightarrow> pid \<noteq> 0 \<and> pid \<noteq> UINT64_MAX \<and> input_owner s \<in> {None, Some pid}) \<and>
    (if res \<noteq> INPUT_OK \<or> input_owner s = Some pid then t = s else input_owner t = Some pid \<and> idle_from s t)"
proof -
  have "input_held s = input_held s" "length (input_held s) = 83" using wf by (simp_all add: input_wf_def)
  then show ?thesis
    using wf r
    by (auto simp: boring_input_claim_def interrupts_masked_def input_restore_interrupts_def Let_def input_owner_def
        idle_from_def input_clear_keys_def input_clear_queue_def no_keys input_wf_def input_contents_def
        split: if_splits)
qed

lemma input_drop_owner_idle:
  assumes "input_wf s"
  shows "input_wf (input_drop_owner s) \<and> input_owner (input_drop_owner s) = None \<and> idle_from s (input_drop_owner s)"
proof -
  have "length (input_held s) = 83" using assms by (simp add: input_wf_def)
  then show ?thesis
    using assms by (auto simp: input_drop_owner_def input_owner_def idle_from_def input_clear_keys_def
        input_clear_queue_def no_keys input_wf_def input_contents_def)
qed

lemma input_release_effect:
  assumes wf: "input_wf s" and r: "boring_input_release pid s = (res, t)"
  shows "input_wf t \<and> cpu_interrupts t = cpu_interrupts s \<and> (res = INPUT_OK \<longleftrightarrow> input_owner s = Some pid) \<and>
    (if res = INPUT_OK then input_owner t = None \<and> idle_from s t else t = s)"
  using wf r input_drop_owner_idle [of "s\<lparr>cpu_interrupts := False\<rparr>"]
  by (auto simp: boring_input_release_def interrupts_masked_def input_restore_interrupts_def Let_def input_owner_def
      idle_from_def input_wf_def split: if_splits)

lemma input_teardown_effect:
  assumes wf: "input_wf s" and r: "boring_input_process_teardown pid s = (res, t)"
  shows "input_wf t \<and> cpu_interrupts t = cpu_interrupts s \<and>
    (if input_owner s = Some pid then res = (True, Some True) \<and> input_owner t = None \<and> idle_from s t else t = s)"
proof (cases "input_owner s = Some pid")
  case True
  then have o: "input_owned s" "owner_pid s = pid" "pid \<noteq> 0" "pid \<noteq> UINT64_MAX" "input_initialized s"
    using wf by (auto simp: input_owner_def input_wf_def split: if_splits)
  let ?d = "input_drop_owner (s\<lparr>cpu_interrupts := False\<rparr>)"
  have d: "input_wf ?d" "input_owner ?d = None" "idle_from (s\<lparr>cpu_interrupts := False\<rparr>) ?d"
    using input_drop_owner_idle [of "s\<lparr>cpu_interrupts := False\<rparr>"] wf by simp_all
  have "boring_input_process_teardown pid s = ((True, Some True), ?d\<lparr>cpu_interrupts := cpu_interrupts s\<rparr>)"
    unfolding boring_input_process_teardown_def
    by (rule interrupts_masked_run) (use o d(3) in \<open>simp_all add: idle_from_def\<close>)
  then show ?thesis using True r d by (simp add: idle_from_def)
next
  case False
  then have "\<exists>x. boring_input_process_teardown pid s = (x, s)"
    by (cases "cpu_interrupts s")
      (auto simp: boring_input_process_teardown_def interrupts_masked_def input_restore_interrupts_def input_owner_def)
  then show ?thesis using False wf r by auto
qed

lemma pop_while_frame:
  assumes "pop_while input_more input_take n s = (xs, t)"
  shows "t = s\<lparr>input_head := input_head t, input_count := input_count t\<rparr>"
  using assms
proof (induction n arbitrary: s xs)
  case 0
  then show ?case by simp
next
  case (Suc n)
  show ?case
  proof (cases "input_more s")
    case False
    then show ?thesis using Suc.prems by simp
  next
    case True
    obtain ys where "pop_while input_more input_take n (snd (input_take s)) = (ys, t)"
      using Suc.prems True by (auto split: prod.splits)
    from Suc.IH [OF this] show ?thesis by (simp add: input_take_def)
  qed
qed

lemma input_read_effect:
  assumes wf: "input_wf s" and r: "boring_input_read pid null k s = ((res, events), t)"
  shows "input_wf t \<and> cpu_interrupts t = cpu_interrupts s \<and>
    (res = INPUT_OK \<longleftrightarrow> \<not> null \<and> 0 < k \<and> k \<le> 16 \<and> input_owner s = Some pid) \<and>
    (if res = INPUT_OK then events = take (unat k) (input_contents s) \<and> input_owner t = input_owner s \<and>
       input_contents t = drop (unat k) (input_contents s) \<and> input_held t = input_held s
     else events = [] \<and> t = s)"
proof (cases "\<not> null \<and> 0 < k \<and> k \<le> 16 \<and> input_owner s = Some pid")
  case False
  have init: "input_initialized s" using wf by (simp add: input_wf_def)
  have "\<exists>e. e \<noteq> INPUT_OK \<and> boring_input_read pid null k s = ((e, []), s)"
  proof (cases "null \<or> k = 0 \<or> k > 16")
    case True
    then show ?thesis using init
      by (auto simp: boring_input_read_def interrupts_masked_def input_restore_interrupts_def)
  next
    case ok: False
    with False have "\<not> input_owned s \<or> owner_pid s \<noteq> pid"
      by (auto simp: input_owner_def word_gt_0 not_less)
    then show ?thesis using init ok
      by (auto simp: boring_input_read_def interrupts_masked_def input_restore_interrupts_def)
  qed
  then show ?thesis using False wf r by auto
next
  case True
  let ?s = "s\<lparr>cpu_interrupts := False\<rparr>"
  have q: "queue_wf ?s" using wf True by (auto simp: queue_wf_def input_wf_def input_owner_def split: if_splits)
  obtain xs u where p: "pop_while input_more input_take (unat k) ?s = (xs, u)" by force
  note items = input_ring.pop_while_items [OF q p]
  note frame = pop_while_frame [OF p]
  have "interrupts_masked (\<lambda>s.
     if \<not> input_initialized s then ((INPUT_NOT_INITIALIZED, []), s)
     else if null \<or> k = 0 \<or> k > INPUT_READ_MAX then ((INPUT_INVALID, []), s)
     else if \<not> input_owned s \<or> owner_pid s \<noteq> pid then ((INPUT_ACCESS, []), s)
     else let (events, s) = pop_while input_more input_take (unat k) s in ((INPUT_OK, events), s)) s =
     ((INPUT_OK, xs), u\<lparr>cpu_interrupts := cpu_interrupts s\<rparr>)"
  proof (rule interrupts_masked_run)
    show "\<not> cpu_interrupts u" by (subst frame) simp
  qed (use True wf p in \<open>auto simp: input_owner_def input_wf_def word_gt_0 not_less split: if_splits\<close>)
  then have t: "res = INPUT_OK" "events = xs" "t = u\<lparr>cpu_interrupts := cpu_interrupts s\<rparr>"
    using r by (simp_all add: boring_input_read_def)
  have u: "input_owner u = input_owner s" "input_held u = input_held s"
    by (subst frame, simp add: input_owner_def)+
  have "input_wf u"
    using items wf True by (subst frame) (simp add: input_wf_def queue_wf_def input_owner_def split: if_splits)
  then show ?thesis using True t items u by simp
qed

lemma input_push_effect:
  assumes wf: "input_wf s" and r: "input_push ev s = (ok, t)"
  shows "input_wf t \<and> cpu_interrupts t = cpu_interrupts s \<and> input_owner t = input_owner s \<and>
    input_held t = input_held s \<and> (ok \<longleftrightarrow> input_owner s \<noteq> None \<and> length (input_contents s) < 128) \<and>
    input_contents t = (if ok then input_contents s @ [ev] else input_contents s) \<and>
    unat (dropped_events t) = (if input_owner s \<noteq> None \<and> \<not> ok
      then min (Suc (unat (dropped_events s))) 18446744073709551615 else unat (dropped_events s)) \<and>
    (ok \<longrightarrow> \<not> owner_waiting t) \<and> (\<not> ok \<longrightarrow> owner_waiting t = owner_waiting s)"
proof (cases "input_owned s \<and> input_count s \<noteq> 128")
  case True
  have q: "queue_wf s" "length (input_contents s) < 128"
    using wf True by (auto simp: queue_wf_def input_wf_def word_unat_eq_iff)
  note p = input_push_last [OF q, of ev]
  have "t = s\<lparr>input_queue := input_queue t, input_count := input_count t, owner_waiting := False\<rparr>"
    "dropped_events t = dropped_events s"
    using r True wf by (auto simp: input_push_def Let_def input_wf_def)
  moreover have "ok" "queue_wf t" "input_contents t = input_contents s @ [ev]" using p r by simp_all
  ultimately show ?thesis using wf True q(2)
    by (cases s; cases t) (auto simp: input_wf_def queue_wf_def input_owner_def)
next
  case False
  have full: "unat (dropped_events s + 1) = Suc (unat (dropped_events s))"
    if "dropped_events s \<noteq> UINT64_MAX"
    using that unat_u64_less [of "dropped_events s"] by (intro trans [OF unat_add_exact]) (auto simp: word_unat_eq_iff)
  have le: "unat (dropped_events s) \<le> 18446744073709551615" using unat_u64_less [of "dropped_events s"] by simp
  show ?thesis
  proof (cases "input_owned s")
    case False
    then show ?thesis using r wf by (auto simp: input_push_def input_owner_def input_wf_def)
  next
    case True
    then have c: "input_count s = 128" using False by simp
    then have "unat (input_count s) = 128" by simp
    moreover have "unat (dropped_events s) \<noteq> 18446744073709551615" if "dropped_events s \<noteq> UINT64_MAX"
      using that by (auto simp: word_unat_eq_iff)
    ultimately show ?thesis using r wf True c full le
      by (cases "dropped_events s = UINT64_MAX")
        (auto simp: input_push_def input_owner_def input_wf_def min_def)
  qed
qed

section \<open>Submitting events\<close>

lemma masked_push:
  assumes wf: "input_wf s" and t: "input_push ev (s\<lparr>cpu_interrupts := False\<rparr>) = (ok, t)"
  shows "interrupts_masked (input_push ev) s = (ok, t\<lparr>cpu_interrupts := cpu_interrupts s\<rparr>)"
  using input_push_effect [of "s\<lparr>cpu_interrupts := False\<rparr>", OF _ t] wf t
  by (intro interrupts_masked_run) simp_all

text \<open>What a submission that reaches the queue with event \<open>ev\<close> does, from a state with keys \<open>held\<close>.\<close>

definition queued :: "input_event \<Rightarrow> bool list \<Rightarrow> input_state \<Rightarrow> bool \<Rightarrow> input_state \<Rightarrow> bool" where
  "queued ev held s ok t \<longleftrightarrow> input_owner t = input_owner s \<and> input_held t = held \<and>
     (ok \<longleftrightarrow> length (input_contents s) < 128) \<and>
     input_contents t = (if ok then input_contents s @ [ev] else input_contents s) \<and>
     unat (dropped_events t) = (if ok then unat (dropped_events s)
       else min (Suc (unat (dropped_events s))) 18446744073709551615) \<and>
     (ok \<longrightarrow> \<not> owner_waiting t)"

definition key_event :: "u32 \<Rightarrow> bool \<Rightarrow> bool list \<Rightarrow> input_event" where
  "key_event code down held = \<lparr>event_type = 1, event_code = code, event_value1 = (if down then 1 else 0),
     event_value2 = 0, event_modifiers = input_modifier_mask (held[unat code := down]),
     event_flags = (if down \<and> held ! unat code then 1 else 0)\<rparr>"

lemma submit_key_effect:
  assumes wf: "input_wf s" and r: "boring_input_submit_key code down s = (ok, t)"
  shows "input_wf t \<and> cpu_interrupts t = cpu_interrupts s \<and>
    (if input_owner s = None \<or> code = 0 \<or> code > KEY_MAX then \<not> ok \<and> t = s
     else queued (key_event code down (input_held s)) ((input_held s)[unat code := down]) s ok t)"
proof (cases "input_owner s = None \<or> code = 0 \<or> code > KEY_MAX")
  case True
  then have "boring_input_submit_key code down s = (False, s)"
    by (cases "cpu_interrupts s")
      (auto simp: boring_input_submit_key_def interrupts_masked_def input_restore_interrupts_def input_owner_def
        split: if_splits)
  then show ?thesis using True wf r by simp
next
  case False
  let ?s = "s\<lparr>cpu_interrupts := False, input_held := (input_held s)[unat code := down],
    input_modifiers := input_modifier_mask ((input_held s)[unat code := down])\<rparr>"
  have wf': "input_wf ?s" using wf False by (auto simp: input_wf_def input_owner_def split: if_splits)
  obtain k u where p: "input_push (key_event code down (input_held s)) ?s = (k, u)" by force
  note e = input_push_effect [OF wf' p]
  have "boring_input_submit_key code down s = (k, u\<lparr>cpu_interrupts := cpu_interrupts s\<rparr>)"
    unfolding boring_input_submit_key_def
  proof (rule interrupts_masked_run)
    show "\<not> cpu_interrupts u" using e by simp
  qed (use False wf p in \<open>auto simp: key_event_def input_owner_def input_wf_def Let_def split: if_splits\<close>)
  then have "ok = k" "t = u\<lparr>cpu_interrupts := cpu_interrupts s\<rparr>" using r by simp_all
  then show ?thesis using False e by (auto simp: queued_def)
qed

lemma mouse_effect:
  assumes wf: "input_wf s" and r: "interrupts_masked (input_push ev) s = (ok, t)"
  shows "input_wf t \<and> cpu_interrupts t = cpu_interrupts s \<and>
    (if input_owner s = None then \<not> ok \<and> input_contents t = input_contents s \<and> input_owner t = None
     else queued ev (input_held s) s ok t)"
proof -
  obtain k u where p: "input_push ev (s\<lparr>cpu_interrupts := False\<rparr>) = (k, u)" by force
  note e = input_push_effect [OF _ p]
  show ?thesis using masked_push [OF wf p] r e wf by (auto simp: queued_def)
qed

definition move_event :: "32 word \<Rightarrow> 32 word \<Rightarrow> input_state \<Rightarrow> input_event" where
  "move_event dx dy s = \<lparr>event_type = 2, event_code = 0, event_value1 = dx, event_value2 = dy,
     event_modifiers = input_modifiers s, event_flags = 0\<rparr>"

definition button_event :: "u32 \<Rightarrow> bool \<Rightarrow> input_state \<Rightarrow> input_event" where
  "button_event button down s = \<lparr>event_type = 3, event_code = button, event_value1 = (if down then 1 else 0),
     event_value2 = 0, event_modifiers = input_modifiers s, event_flags = 0\<rparr>"

lemma submit_mouse_masked:
  "boring_input_submit_mouse_move dx dy s =
     (if dx = 0 \<and> dy = 0 then (True, s) else interrupts_masked (input_push (move_event dx dy s)) s)"
  "boring_input_submit_mouse_button button down s =
     (if button < 1 \<or> button > 3 then (False, s) else interrupts_masked (input_push (button_event button down s)) s)"
  by (simp_all add: boring_input_submit_mouse_move_def boring_input_submit_mouse_button_def
      interrupts_masked_def move_event_def button_event_def)

lemma submit_move_effect:
  assumes wf: "input_wf s" and r: "boring_input_submit_mouse_move dx dy s = (ok, t)"
  shows "input_wf t \<and> cpu_interrupts t = cpu_interrupts s \<and>
    (if dx = 0 \<and> dy = 0 then t = s
     else if input_owner s = None then \<not> ok \<and> input_contents t = input_contents s \<and> input_owner t = None
     else queued (move_event dx dy s) (input_held s) s ok t)"
  using mouse_effect [OF wf, of "move_event dx dy s" ok t] r wf
  by (cases "dx = 0 \<and> dy = 0") (auto simp: submit_mouse_masked)

lemma submit_button_effect:
  assumes wf: "input_wf s" and r: "boring_input_submit_mouse_button button down s = (ok, t)"
  shows "input_wf t \<and> cpu_interrupts t = cpu_interrupts s \<and>
    (if button < 1 \<or> button > 3 then \<not> ok \<and> t = s
     else if input_owner s = None then \<not> ok \<and> input_contents t = input_contents s \<and> input_owner t = None
     else queued (button_event button down s) (input_held s) s ok t)"
  using mouse_effect [OF wf, of "button_event button down s" ok t] r wf
  by (cases "button < 1 \<or> button > 3") (auto simp: submit_mouse_masked)

section \<open>Reachable states\<close>

definition input_boot :: "bool \<Rightarrow> input_state" where
  "input_boot flag = \<lparr>input_queue = replicate 128 zero_event, input_held = replicate 83 False, owner_pid = 0,
     dropped_events = 0, input_head = 0, input_count = 0, input_modifiers = 0, input_owned = False,
     owner_waiting = False, input_initialized = False, cpu_interrupts = flag\<rparr>"

datatype input_call = Claim u64 | Release u64 | Teardown u64 | ReadEvents u64 bool u64 | Prepare u64 | CancelWait u64
  | Key u32 bool | Move "32 word" "32 word" | Button u32 bool | Interrupts bool

text \<open>\<open>Interrupts\<close> is any other code that sets the interrupt flag between the calls.\<close>

fun input_serve :: "input_call \<Rightarrow> input_state \<Rightarrow> input_state" where
  "input_serve (Claim pid) s = snd (boring_input_claim pid s)"
| "input_serve (Release pid) s = snd (boring_input_release pid s)"
| "input_serve (Teardown pid) s = snd (boring_input_process_teardown pid s)"
| "input_serve (ReadEvents pid null k) s = snd (boring_input_read pid null k s)"
| "input_serve (Prepare pid) s = snd (boring_input_wait_prepare pid s)"
| "input_serve (CancelWait pid) s = snd (boring_input_wait_cancel pid s)"
| "input_serve (Key code down) s = snd (boring_input_submit_key code down s)"
| "input_serve (Move dx dy) s = snd (boring_input_submit_mouse_move dx dy s)"
| "input_serve (Button button down) s = snd (boring_input_submit_mouse_button button down s)"
| "input_serve (Interrupts flag) s = s\<lparr>cpu_interrupts := flag\<rparr>"

inductive input_reachable :: "input_state \<Rightarrow> bool" where
  start: "boring_input_init (input_boot flag) = (True, s) \<Longrightarrow> input_reachable s"
| call: "input_reachable s \<Longrightarrow> input_reachable (input_serve c s)"

lemma input_init_wf: "boring_input_init (input_boot flag) = (True, s) \<Longrightarrow> input_wf s \<and> input_owner s = None"
  by (auto simp: boring_input_init_def interrupts_masked_def input_restore_interrupts_def input_boot_def Let_def
      input_clear_keys_def input_clear_queue_def no_keys input_wf_def input_owner_def split: if_splits)

lemma wait_effect:
  assumes wf: "input_wf s"
  shows "input_wf (snd (boring_input_wait_prepare pid s))" "input_wf (snd (boring_input_wait_cancel pid s))"
    "fst (boring_input_wait_prepare pid s) \<longleftrightarrow> input_owner s = Some pid \<and> input_contents s = []"
    "snd (boring_input_wait_prepare pid s) =
      (if fst (boring_input_wait_prepare pid s) then s\<lparr>owner_waiting := True\<rparr> else s)"
  using wf
  by (auto simp: boring_input_wait_prepare_def boring_input_wait_cancel_def interrupts_masked_def
      input_restore_interrupts_def Let_def input_wf_def input_owner_def)

lemma input_serve_wf: assumes wf: "input_wf s" shows "input_wf (input_serve c s)"
proof (cases c)
  case (Claim pid)
  then show ?thesis using input_claim_effect [OF wf, of pid] by (cases "boring_input_claim pid s") simp
next
  case (Release pid)
  then show ?thesis using input_release_effect [OF wf, of pid] by (cases "boring_input_release pid s") simp
next
  case (Teardown pid)
  then show ?thesis using input_teardown_effect [OF wf, of pid] by (cases "boring_input_process_teardown pid s") simp
next
  case (ReadEvents pid null k)
  obtain res events t where "boring_input_read pid null k s = ((res, events), t)" by (metis prod.exhaust)
  then show ?thesis using input_read_effect [OF wf] ReadEvents by fastforce
next
  case (Key code down)
  then show ?thesis using submit_key_effect [OF wf, of code down] by (cases "boring_input_submit_key code down s") simp
next
  case (Move dx dy)
  then show ?thesis using submit_move_effect [OF wf, of dx dy] by (cases "boring_input_submit_mouse_move dx dy s") simp
next
  case (Button button down)
  then show ?thesis using submit_button_effect [OF wf, of button down] by (cases "boring_input_submit_mouse_button button down s") simp
next
  case (Prepare pid)
  then show ?thesis using wait_effect(1) [OF wf] by simp
next
  case (CancelWait pid)
  then show ?thesis using wait_effect(2) [OF wf] by simp
next
  case (Interrupts flag)
  then show ?thesis using wf by simp
qed

lemma input_reachable_wf: "input_reachable s \<Longrightarrow> input_wf s"
  by (induction rule: input_reachable.induct) (simp_all add: input_init_wf input_serve_wf)

lemma modifier_bits:
  "bit (input_modifier_mask held) 0 \<longleftrightarrow> held ! 75 \<or> held ! 76" "bit (input_modifier_mask held) 1 \<longleftrightarrow> held ! 77 \<or> held ! 78"
  "bit (input_modifier_mask held) 2 \<longleftrightarrow> held ! 79 \<or> held ! 80" "bit (input_modifier_mask held) 3 \<longleftrightarrow> held ! 81 \<or> held ! 82"
  "input_modifier_mask held < 16"
  by (simp_all add: input_modifier_mask_def Let_def)

section \<open>The owner of the input\<close>

lemma claim_owner:
  assumes wf: "input_wf s" and r: "boring_input_claim pid s = (res, t)"
  shows "cpu_interrupts t = cpu_interrupts s"
    and "res = INPUT_OK \<longleftrightarrow> pid \<noteq> 0 \<and> pid \<noteq> UINT64_MAX \<and> input_owner s \<in> {None, Some pid}"
    and "res = INPUT_OK \<Longrightarrow> input_owner t = Some pid"
    and "res = INPUT_OK \<Longrightarrow> input_owner s = None \<Longrightarrow> input_contents t = []"
    and "res = INPUT_OK \<Longrightarrow> input_owner s = None \<Longrightarrow> True \<notin> set (input_held t)"
  using input_claim_effect [OF wf r] by (auto simp: idle_from_def split: if_splits)

lemma release_owner:
  assumes wf: "input_wf s" and r: "boring_input_release pid s = (res, t)"
  shows "cpu_interrupts t = cpu_interrupts s"
    and "res = INPUT_OK \<longleftrightarrow> input_owner s = Some pid"
    and "res = INPUT_OK \<Longrightarrow> input_owner t = None"
    and "res = INPUT_OK \<Longrightarrow> input_contents t = []"
  using input_release_effect [OF wf r] by (auto simp: idle_from_def split: if_splits)

lemma teardown_owner:
  assumes wf: "input_wf s" and r: "boring_input_process_teardown pid s = (res, t)"
  shows "cpu_interrupts t = cpu_interrupts s"
    and "input_owner t = (if input_owner s = Some pid then None else input_owner s)"
  using input_teardown_effect [OF wf r] by (auto split: if_splits)

lemma read_owner:
  assumes wf: "input_wf s" and r: "boring_input_read pid null k s = ((res, events), t)"
  shows "cpu_interrupts t = cpu_interrupts s" and "events \<noteq> [] \<Longrightarrow> input_owner s = Some pid"
  using input_read_effect [OF wf r] by (auto split: if_splits)

section \<open>Properties\<close>

definition fresh_input :: input_state where
  "fresh_input = snd (boring_input_init (input_boot True))"

lemma fresh_input_reachable: "input_reachable fresh_input"
proof -
  have "fst (boring_input_init (input_boot True))"
    by (simp add: boring_input_init_def interrupts_masked_def input_boot_def Let_def split: prod.splits)
  then show ?thesis by (intro input_reachable.start [of True]) (simp add: fresh_input_def prod_eq_iff)
qed

lemma fresh_input_owner: "input_owner fresh_input = None"
  using input_init_wf [of True fresh_input]
  by (simp add: fresh_input_def boring_input_init_def interrupts_masked_def input_boot_def Let_def
      input_owner_def input_restore_interrupts_def input_clear_keys_def input_clear_queue_def)

lemma claimed_input: "\<exists>s. boring_input_claim 5 fresh_input = (INPUT_OK, s) \<and> input_reachable s \<and> input_owner s = Some 5 \<and>
    input_contents s = []"
proof -
  obtain res s where r: "boring_input_claim 5 fresh_input = (res, s)" by (cases "boring_input_claim 5 fresh_input")
  have "res = INPUT_OK \<and> input_owner s = Some 5 \<and> input_contents s = []"
    using input_claim_effect [OF input_reachable_wf [OF fresh_input_reachable] r] fresh_input_owner
    by (auto simp: idle_from_def)
  moreover have "input_reachable s" using input_reachable.call [OF fresh_input_reachable, of "Claim 5"] r by simp
  ultimately show ?thesis using r by blast
qed

text \<open>
  C17: In every reachable state the input has at most one owner, and only its owner can
  read: a claim succeeds exactly for a valid process while the input is free or its
  own, a release exactly for the owner; a new owner starts with an empty queue and no
  key held, so that nothing typed for one process is ever delivered to another, and
  every call leaves the interrupt flag as it found it.
\<close>

theorem input_ownership:
  assumes "input_reachable s"
  shows "(\<forall>pid res t. boring_input_claim pid s = (res, t) \<longrightarrow> cpu_interrupts t = cpu_interrupts s \<and>
      (res = INPUT_OK \<longleftrightarrow> pid \<noteq> 0 \<and> pid \<noteq> UINT64_MAX \<and> input_owner s \<in> {None, Some pid}) \<and>
      (res = INPUT_OK \<longrightarrow> input_owner t = Some pid) \<and>
      (res = INPUT_OK \<longrightarrow> input_owner s = None \<longrightarrow> input_contents t = [] \<and> True \<notin> set (input_held t))) \<and>
    (\<forall>pid res t. boring_input_release pid s = (res, t) \<longrightarrow> cpu_interrupts t = cpu_interrupts s \<and>
      (res = INPUT_OK \<longleftrightarrow> input_owner s = Some pid) \<and> (res = INPUT_OK \<longrightarrow> input_owner t = None \<and> input_contents t = [])) \<and>
    (\<forall>pid res t. boring_input_process_teardown pid s = (res, t) \<longrightarrow> cpu_interrupts t = cpu_interrupts s \<and>
      input_owner t = (if input_owner s = Some pid then None else input_owner s)) \<and>
    (\<forall>pid null k res events t. boring_input_read pid null k s = ((res, events), t) \<longrightarrow>
      cpu_interrupts t = cpu_interrupts s \<and> (events \<noteq> [] \<longrightarrow> input_owner s = Some pid)) \<and>
    (input_owner s = None \<longrightarrow> input_contents s = [])"
proof -
  note wf = input_reachable_wf [OF assms]
  have idle: "input_contents s = []" if "input_owner s = None"
    using wf that by (simp add: input_owner_def input_wf_def split: if_splits)
  show ?thesis
    by (intro conjI allI impI;
        (rule claim_owner [OF wf] release_owner [OF wf] teardown_owner [OF wf] read_owner [OF wf] idle; assumption))
qed

lemma input_ownership_witness:
  "\<exists>s t. input_reachable s \<and> boring_input_claim 5 s = (INPUT_OK, t) \<and> input_owner t = Some 5"
  using claimed_input fresh_input_reachable input_ownership [OF fresh_input_reachable] by blast

text \<open>
  C18: For the owner the input is a bounded first-in first-out queue of 128 events: an
  accepted submission appends its event, with the modifiers of that moment and the
  repeat flag exactly for keys already held; with 128 events queued it is dropped and
  counted; a read of up to 16 events removes the oldest ones in order.
\<close>

theorem input_queue_fifo:
  assumes "input_reachable s" "input_owner s = Some pid"
  shows "(\<forall>code down ok t. 0 < code \<longrightarrow> code \<le> KEY_MAX \<longrightarrow> boring_input_submit_key code down s = (ok, t) \<longrightarrow>
      queued (key_event code down (input_held s)) ((input_held s)[unat code := down]) s ok t) \<and>
    (\<forall>dx dy ok t. (dx, dy) \<noteq> (0, 0) \<longrightarrow> boring_input_submit_mouse_move dx dy s = (ok, t) \<longrightarrow>
      queued (move_event dx dy s) (input_held s) s ok t) \<and>
    (\<forall>button down ok t. 1 \<le> button \<longrightarrow> button \<le> 3 \<longrightarrow> boring_input_submit_mouse_button button down s = (ok, t) \<longrightarrow>
      queued (button_event button down s) (input_held s) s ok t) \<and>
    (\<forall>k res events t. 0 < k \<longrightarrow> k \<le> 16 \<longrightarrow> boring_input_read pid False k s = ((res, events), t) \<longrightarrow>
      res = INPUT_OK \<and> events = take (unat k) (input_contents s) \<and> input_contents t = drop (unat k) (input_contents s)) \<and>
    (\<forall>ready t. boring_input_wait_prepare pid s = (ready, t) \<longrightarrow> (ready \<longleftrightarrow> input_contents s = []))"
proof -
  note wf = input_reachable_wf [OF assms(1)]
  show ?thesis
  proof (intro conjI)
    show "\<forall>code down ok t. 0 < code \<longrightarrow> code \<le> KEY_MAX \<longrightarrow> boring_input_submit_key code down s = (ok, t) \<longrightarrow>
        queued (key_event code down (input_held s)) ((input_held s)[unat code := down]) s ok t"
      using submit_key_effect [OF wf] assms(2) by (metis not_less option.distinct(1) word_gt_0)
    show "\<forall>dx dy ok t. (dx, dy) \<noteq> (0, 0) \<longrightarrow> boring_input_submit_mouse_move dx dy s = (ok, t) \<longrightarrow>
        queued (move_event dx dy s) (input_held s) s ok t"
      using submit_move_effect [OF wf] assms(2) by (metis option.distinct(1))
    show "\<forall>button down ok t. 1 \<le> button \<longrightarrow> button \<le> 3 \<longrightarrow> boring_input_submit_mouse_button button down s = (ok, t) \<longrightarrow>
        queued (button_event button down s) (input_held s) s ok t"
      using submit_button_effect [OF wf] assms(2) by (metis not_less option.distinct(1))
    show "\<forall>k res events t. 0 < k \<longrightarrow> k \<le> 16 \<longrightarrow> boring_input_read pid False k s = ((res, events), t) \<longrightarrow>
        res = INPUT_OK \<and> events = take (unat k) (input_contents s) \<and> input_contents t = drop (unat k) (input_contents s)"
      using input_read_effect [OF wf] assms(2) by (metis (full_types))
    show "\<forall>ready t. boring_input_wait_prepare pid s = (ready, t) \<longrightarrow> (ready \<longleftrightarrow> input_contents s = [])"
      using wait_effect(3) [OF wf, of pid] assms(2) by auto
  qed
qed

lemma input_queue_fifo_witness:
  "\<exists>s t. input_reachable s \<and> boring_input_submit_key 17 True s = (True, t) \<and> length (input_contents t) = 1"
proof -
  obtain s where s: "input_reachable s" "input_owner s = Some 5" "input_contents s = []" using claimed_input by blast
  obtain ok t where r: "boring_input_submit_key 17 True s = (ok, t)" by (cases "boring_input_submit_key 17 True s")
  have "queued (key_event 17 True (input_held s)) ((input_held s)[unat (17 :: u32) := True]) s ok t"
    by (rule conjunct1 [OF input_queue_fifo [OF s(1,2)], rule_format, OF _ _ r]) simp_all
  then have "ok" "input_contents t = [key_event 17 True (input_held s)]"
    using s(3) unfolding queued_def by (simp_all del: length_input_contents)
  then show ?thesis using s(1) r by (metis length_Cons list.size(3) One_nat_def)
qed

text \<open>
  In every reachable state the modifier bits are exactly the held modifier keys
  (either of the two keys of each kind), no other bit is set, and without an owner no
  key is held; so no modifier can stay stuck after its keys are released.
\<close>

theorem input_modifiers_match:
  assumes "input_reachable s"
  shows "(bit (input_modifiers s) 0 \<longleftrightarrow> input_held s ! 75 \<or> input_held s ! 76) \<and>
    (bit (input_modifiers s) 1 \<longleftrightarrow> input_held s ! 77 \<or> input_held s ! 78) \<and>
    (bit (input_modifiers s) 2 \<longleftrightarrow> input_held s ! 79 \<or> input_held s ! 80) \<and>
    (bit (input_modifiers s) 3 \<longleftrightarrow> input_held s ! 81 \<or> input_held s ! 82) \<and>
    input_modifiers s < 16 \<and> (input_owner s = None \<longrightarrow> True \<notin> set (input_held s))"
proof -
  have "input_modifiers s = input_modifier_mask (input_held s)"
    using input_reachable_wf [OF assms] by (simp add: input_wf_def)
  then show ?thesis
    using modifier_bits [of "input_held s"] input_reachable_wf [OF assms] by (simp add: input_wf_def input_owner_def)
qed

lemma input_modifiers_match_witness: "input_modifiers fresh_input < 16 \<and> True \<notin> set (input_held fresh_input)"
  using input_modifiers_match [OF fresh_input_reachable] fresh_input_owner by simp

end
