(* ===== verification/Ipc.thy ===== *)
theory Ipc
  imports Ring
begin

text \<open>
  kernel/core/ipc.c: services that processes register by name, connections between a
  client and a server with a message queue in each direction, and per-process tables
  of handles to them. A process is the address of its structure (0 is NULL); the
  registry of process states, a doubly linked list of allocated nodes, is the list of
  the nodes in its order, and a pointer into it is a position. What the code calls
  elsewhere (liveness and identity of processes, wake-ups, the kernel heap, shared
  buffers) is the record \<open>ipc_env\<close> of functions over the state \<open>'m\<close> of the rest of
  the kernel. A name or payload is a list (\<open>None\<close>: a NULL pointer with a length that
  is not 0).
\<close>

section \<open>State\<close>

abbreviation (input) INDEX_INVALID :: u16 where "INDEX_INVALID \<equiv> 65535"
abbreviation (input) SIDE_CLIENT :: u8 where "SIDE_CLIENT \<equiv> 0"
abbreviation (input) SIDE_SERVER :: u8 where "SIDE_SERVER \<equiv> 1"
abbreviation (input) HANDLE_NONE :: u8 where "HANDLE_NONE \<equiv> 0"
abbreviation (input) HANDLE_LISTENER :: u8 where "HANDLE_LISTENER \<equiv> 1"
abbreviation (input) HANDLE_ENDPOINT :: u8 where "HANDLE_ENDPOINT \<equiv> 2"
abbreviation (input) HANDLE_GENERATION_MAX :: u32 where "HANDLE_GENERATION_MAX \<equiv> 134217727"

record retained_ref =
  ref_object_index :: u32
  ref_active :: bool

record install_ticket =
  ticket_object_index :: u32
  ticket_generation :: u32
  ticket_slot :: u16
  ticket_active :: bool

datatype user_memory_result = UMEM_OK | UMEM_INVALID | UMEM_NO_SPACE | UMEM_NO_MEMORY | UMEM_INTERNAL
  | UMEM_NOT_INITIALIZED

text \<open>The functions of other parts of the kernel that the code calls.\<close>

record 'm ipc_env =
  env_alive :: "u64 \<Rightarrow> 'm \<Rightarrow> bool"
  env_pid :: "u64 \<Rightarrow> 'm \<Rightarrow> u64"
  env_wake :: "u64 \<Rightarrow> 'm \<Rightarrow> 'm"
  env_kmalloc :: "u64 \<Rightarrow> 'm \<Rightarrow> u64 \<times> 'm"
  env_kfree :: "u64 \<Rightarrow> 'm \<Rightarrow> bool \<times> 'm"
  env_ref_active :: "retained_ref \<Rightarrow> 'm \<Rightarrow> bool"
  env_retain :: "u64 \<Rightarrow> u32 \<Rightarrow> 'm \<Rightarrow> (user_memory_result \<times> retained_ref) \<times> 'm"
  env_release :: "retained_ref \<Rightarrow> 'm \<Rightarrow> 'm"
  env_prepare_install :: "u64 \<Rightarrow> retained_ref \<Rightarrow> 'm \<Rightarrow> (user_memory_result \<times> install_ticket \<times> u32) \<times> 'm"
  env_commit_install :: "u64 \<Rightarrow> retained_ref \<Rightarrow> install_ticket \<Rightarrow> 'm \<Rightarrow> user_memory_result \<times> 'm"

record ipc_handle_entry =
  entry_generation :: u32
  entry_object :: u16
  entry_type :: u8
  entry_side :: u8
  entry_active :: bool

record ipc_process_state =
  state_address :: u64
  state_owner :: u64
  state_owner_pid :: u64
  state_handles :: "ipc_handle_entry list"

record ipc_message =
  message_length :: u64
  message_payload :: "u8 list"
  message_attachment :: retained_ref
  message_active :: bool

record ipc_queue =
  queue_messages :: "ipc_message list"
  queue_head :: u8
  queue_count :: u8

record ipc_connection =
  client_owner :: u64
  server_owner :: u64
  client_pid :: u64
  server_pid :: u64
  to_client :: ipc_queue
  to_server :: ipc_queue
  client_open :: bool
  server_open :: bool
  server_accepted :: bool
  connection_active :: bool

record ipc_service =
  service_owner :: u64
  service_owner_pid :: u64
  service_name :: "u8 list"
  service_pending :: "u16 list"
  pending_head :: u8
  pending_count :: u8
  service_active :: bool

record 'm ipc_state =
  process_states :: "ipc_process_state list"
  connections :: "ipc_connection list"
  services :: "ipc_service list"
  ipc_initialized :: bool
  ipc_machine :: 'm

datatype ipc_result = IPC_OK | IPC_INVALID | IPC_NOT_FOUND | IPC_EXISTS | IPC_NO_SPACE | IPC_PEER_CLOSED
  | IPC_WOULD_BLOCK | IPC_INTERNAL

record ipc_receive_result =
  received_length :: u64
  received_buffer :: u32

record ipc_stats =
  live_services :: u32
  live_connections :: u32
  queued_messages :: u32
  retained_attachments :: u32

text \<open>Stores through the pointers into the tables.\<close>

definition put_connection :: "nat \<Rightarrow> ipc_connection \<Rightarrow> 'm ipc_state \<Rightarrow> 'm ipc_state" where
  "put_connection i c s = s\<lparr>connections := (connections s)[i := c]\<rparr>"

definition put_service :: "nat \<Rightarrow> ipc_service \<Rightarrow> 'm ipc_state \<Rightarrow> 'm ipc_state" where
  "put_service i v s = s\<lparr>services := (services s)[i := v]\<rparr>"

definition put_entry :: "nat \<Rightarrow> nat \<Rightarrow> ipc_handle_entry \<Rightarrow> 'm ipc_state \<Rightarrow> 'm ipc_state" where
  "put_entry i slot e s = s\<lparr>process_states := (process_states s)[i :=
     (process_states s ! i)\<lparr>state_handles := (state_handles (process_states s ! i))[slot := e]\<rparr>]\<rparr>"

section \<open>Handles and clearing\<close>

definition next_generation :: "u32 \<Rightarrow> u32" where
  "next_generation generation =
     (if generation = 0 \<or> generation \<ge> HANDLE_GENERATION_MAX then 1 else generation + 1)"

definition encode_handle :: "nat \<Rightarrow> u32 \<Rightarrow> u32" where
  "encode_handle slot generation = push_bit 5 generation OR word_of_nat slot"

definition decode_handle :: "u32 \<Rightarrow> (nat \<times> u32) option" where
  "decode_handle handle =
     (let generation = drop_bit 5 handle; slot = unat (handle AND 31) in
      if handle = 0 \<or> generation = 0 \<or> slot \<ge> 32 then None else Some (slot, generation))"

definition cleared_ref :: retained_ref where
  "cleared_ref = \<lparr>ref_object_index = UINT32_MAX, ref_active = False\<rparr>"

definition clear_message :: "ipc_message \<Rightarrow> ipc_message" where
  "clear_message m = m\<lparr>message_length := 0, message_payload := write_cells 0 (\<lambda>_. 0) 256 (message_payload m),
     message_attachment := cleared_ref, message_active := False\<rparr>"

definition clear_queue :: "ipc_queue \<Rightarrow> ipc_queue" where
  "clear_queue q = q\<lparr>queue_messages := map clear_message (queue_messages q), queue_head := 0, queue_count := 0\<rparr>"

definition clear_connection :: "ipc_connection \<Rightarrow> ipc_connection" where
  "clear_connection c = c\<lparr>client_owner := 0, server_owner := 0, client_pid := 0, server_pid := 0,
     to_client := clear_queue (to_client c), to_server := clear_queue (to_server c),
     client_open := False, server_open := False, server_accepted := False, connection_active := False\<rparr>"

definition clear_service :: "ipc_service \<Rightarrow> ipc_service" where
  "clear_service v = v\<lparr>service_owner := 0, service_owner_pid := 0,
     service_name := write_cells 0 (\<lambda>_. 0) 32 (service_name v),
     service_pending := write_cells 0 (\<lambda>_. INDEX_INVALID) 16 (service_pending v),
     pending_head := 0, pending_count := 0, service_active := False\<rparr>"

section \<open>Process states\<close>

definition process_identity_valid :: "'m ipc_env \<Rightarrow> u64 \<Rightarrow> 'm ipc_state \<Rightarrow> bool" where
  "process_identity_valid env process s \<longleftrightarrow>
     process \<noteq> 0 \<and> env_alive env process (ipc_machine s) \<and> env_pid env process (ipc_machine s) \<noteq> 0"

definition process_state_initialize :: "u64 \<Rightarrow> ipc_process_state" where
  "process_state_initialize address = \<lparr>state_address = address, state_owner = 0, state_owner_pid = 0,
     state_handles = replicate 32 \<lparr>entry_generation = 1, entry_object = INDEX_INVALID,
       entry_type = HANDLE_NONE, entry_side = 0, entry_active = False\<rparr>\<rparr>"

definition process_state_append :: "ipc_process_state \<Rightarrow> 'm ipc_state \<Rightarrow> 'm ipc_state" where
  "process_state_append st s = s\<lparr>process_states := process_states s @ [st]\<rparr>"

definition process_state_remove :: "nat \<Rightarrow> 'm ipc_state \<Rightarrow> 'm ipc_state" where
  "process_state_remove i s = s\<lparr>process_states := take i (process_states s) @ drop (Suc i) (process_states s)\<rparr>"

fun find_state :: "u64 \<Rightarrow> nat \<Rightarrow> ipc_process_state list \<Rightarrow> nat option" where
  "find_state process i [] = None"
| "find_state process i (st # states) =
     (if state_owner st = process then Some i else find_state process (Suc i) states)"

definition state_for_process ::
  "'m ipc_env \<Rightarrow> u64 \<Rightarrow> bool \<Rightarrow> 'm ipc_state \<Rightarrow> nat option \<times> 'm ipc_state" where
  "state_for_process env process create s =
     (if \<not> process_identity_valid env process s then (None, s)
      else case find_state process 0 (process_states s) of
        Some i \<Rightarrow>
          let st = process_states s ! i; pid = env_pid env process (ipc_machine s) in
          if state_owner_pid st \<noteq> pid then
            if list_ex entry_active (state_handles st) then (None, s)
            else (Some i, s\<lparr>process_states := (process_states s)[i := st\<lparr>state_owner_pid := pid\<rparr>]\<rparr>)
          else (Some i, s)
      | None \<Rightarrow>
          if \<not> create then (None, s)
          else
            let (address, mach) = env_kmalloc env 416 (ipc_machine s); s = s\<lparr>ipc_machine := mach\<rparr> in
            if address = 0 then (None, s)
            else
              let st = (process_state_initialize address)\<lparr>state_owner := process,
                    state_owner_pid := env_pid env process (ipc_machine s)\<rparr>
              in (Some (length (process_states s)), process_state_append st s))"

fun find_free_entry :: "nat \<Rightarrow> ipc_handle_entry list \<Rightarrow> nat option" where
  "find_free_entry slot [] = None"
| "find_free_entry slot (e # entries) =
     (if \<not> entry_active e then Some slot else find_free_entry (Suc slot) entries)"

definition find_free_handle :: "nat \<Rightarrow> 'm ipc_state \<Rightarrow> nat option" where
  "find_free_handle i s = find_free_entry 0 (state_handles (process_states s ! i))"

definition install_handle ::
  "nat \<Rightarrow> u8 \<Rightarrow> u16 \<Rightarrow> u8 \<Rightarrow> 'm ipc_state \<Rightarrow> u32 option \<times> 'm ipc_state" where
  "install_handle i type object_index side s =
     (if type \<noteq> HANDLE_LISTENER \<and> type \<noteq> HANDLE_ENDPOINT then (None, s)
      else case find_free_handle i s of
        None \<Rightarrow> (None, s)
      | Some slot \<Rightarrow>
          let entry = state_handles (process_states s ! i) ! slot;
              entry = (if entry_generation entry = 0 then entry\<lparr>entry_generation := 1\<rparr> else entry);
              entry = entry\<lparr>entry_type := type, entry_object := object_index, entry_side := side,
                entry_active := True\<rparr>
          in (Some (encode_handle slot (entry_generation entry)), put_entry i slot entry s))"

text \<open>The entry a handle denotes is given by its state, its slot and its value.\<close>

definition lookup_handle :: "'m ipc_env \<Rightarrow> u64 \<Rightarrow> u32 \<Rightarrow> u8 \<Rightarrow> 'm ipc_state \<Rightarrow>
    (nat \<times> nat \<times> ipc_handle_entry) option \<times> 'm ipc_state" where
  "lookup_handle env process handle expected_type s = (case decode_handle handle of
     None \<Rightarrow> (None, s)
   | Some (slot, generation) \<Rightarrow> (case state_for_process env process False s of
       (None, s) \<Rightarrow> (None, s)
     | (Some i, s) \<Rightarrow>
         let entry = state_handles (process_states s ! i) ! slot in
         if \<not> entry_active entry \<or> entry_generation entry \<noteq> generation \<or> entry_type entry \<noteq> expected_type
         then (None, s) else (Some (i, slot, entry), s)))"

definition invalidate_handle_entry :: "nat \<Rightarrow> nat \<Rightarrow> 'm ipc_state \<Rightarrow> 'm ipc_state" where
  "invalidate_handle_entry i slot s =
     (let entry = state_handles (process_states s ! i) ! slot in
      put_entry i slot \<lparr>entry_generation = next_generation (entry_generation entry), entry_object = INDEX_INVALID,
        entry_type = HANDLE_NONE, entry_side = 0, entry_active = False\<rparr> s)"

section \<open>Services and connections\<close>

definition same_name :: "ipc_service \<Rightarrow> u8 list \<Rightarrow> bool" where
  "same_name service name \<longleftrightarrow> service_active service \<and>
     list_all (\<lambda>i. service_name service ! i = name ! i) [0..<length name] \<and>
     service_name service ! length name = 0"

text \<open>The first index from \<open>i\<close> on at which a table satisfies \<open>P\<close>.\<close>

fun find_index_from :: "('a \<Rightarrow> bool) \<Rightarrow> nat \<Rightarrow> 'a list \<Rightarrow> nat option" where
  "find_index_from P i [] = None"
| "find_index_from P i (x # xs) = (if P x then Some i else find_index_from P (Suc i) xs)"

definition find_service :: "u8 list \<Rightarrow> 'm ipc_state \<Rightarrow> nat option" where
  "find_service name s = find_index_from (\<lambda>v. same_name v name) 0 (services s)"

definition find_free_service :: "'m ipc_state \<Rightarrow> nat option" where
  "find_free_service s = find_index_from (\<lambda>v. \<not> service_active v) 0 (services s)"

definition find_free_connection :: "'m ipc_state \<Rightarrow> nat option" where
  "find_free_connection s = find_index_from (\<lambda>c. \<not> connection_active c) 0 (connections s)"

definition service_owner_alive :: "'m ipc_env \<Rightarrow> ipc_service \<Rightarrow> 'm ipc_state \<Rightarrow> bool" where
  "service_owner_alive env service s \<longleftrightarrow> service_active service \<and> service_owner service \<noteq> 0 \<and>
     env_alive env (service_owner service) (ipc_machine s) \<and>
     env_pid env (service_owner service) (ipc_machine s) = service_owner_pid service"

definition connection_side_open :: "ipc_connection \<Rightarrow> u8 \<Rightarrow> bool" where
  "connection_side_open c side = (if side = SIDE_CLIENT then client_open c else server_open c)"

definition connection_peer_open :: "ipc_connection \<Rightarrow> u8 \<Rightarrow> bool" where
  "connection_peer_open c side = (if side = SIDE_CLIENT then server_open c else client_open c)"

definition connection_peer_owner :: "ipc_connection \<Rightarrow> u8 \<Rightarrow> u64" where
  "connection_peer_owner c side = (if side = SIDE_CLIENT then server_owner c else client_owner c)"

definition incoming_queue :: "ipc_connection \<Rightarrow> u8 \<Rightarrow> ipc_queue" where
  "incoming_queue c side = (if side = SIDE_CLIENT then to_client c else to_server c)"

definition peer_incoming_queue :: "ipc_connection \<Rightarrow> u8 \<Rightarrow> ipc_queue" where
  "peer_incoming_queue c side = (if side = SIDE_CLIENT then to_server c else to_client c)"

text \<open>The stores through the pointers these two return.\<close>

definition set_incoming_queue :: "u8 \<Rightarrow> ipc_queue \<Rightarrow> ipc_connection \<Rightarrow> ipc_connection" where
  "set_incoming_queue side q c = (if side = SIDE_CLIENT then c\<lparr>to_client := q\<rparr> else c\<lparr>to_server := q\<rparr>)"

definition set_peer_incoming_queue :: "u8 \<Rightarrow> ipc_queue \<Rightarrow> ipc_connection \<Rightarrow> ipc_connection" where
  "set_peer_incoming_queue side q c = (if side = SIDE_CLIENT then c\<lparr>to_server := q\<rparr> else c\<lparr>to_client := q\<rparr>)"

definition release_message :: "'m ipc_env \<Rightarrow> ipc_message \<Rightarrow> 'm \<Rightarrow> ipc_message \<times> 'm" where
  "release_message env m mach =
     (clear_message m,
      if message_active m \<and> env_ref_active env (message_attachment m) mach
      then env_release env (message_attachment m) mach else mach)"

text \<open>The loop of \<open>release_queue\<close>, which runs \<open>count\<close> times.\<close>

fun release_messages :: "'m ipc_env \<Rightarrow> nat \<Rightarrow> ipc_queue \<Rightarrow> 'm \<Rightarrow> ipc_queue \<times> 'm" where
  "release_messages env 0 q mach = (q, mach)"
| "release_messages env (Suc n) q mach =
     (let (m, mach) = release_message env (queue_messages q ! unat (queue_head q)) mach
      in release_messages env n
        (q\<lparr>queue_messages := (queue_messages q)[unat (queue_head q) := m],
           queue_head := (queue_head q + 1) mod 16, queue_count := queue_count q - 1\<rparr>) mach)"

definition release_queue :: "'m ipc_env \<Rightarrow> ipc_queue \<Rightarrow> 'm \<Rightarrow> ipc_queue \<times> 'm" where
  "release_queue env q mach =
     (let (q, mach) = release_messages env (unat (queue_count q)) q mach in (q\<lparr>queue_head := 0\<rparr>, mach))"

definition connection_maybe_destroy :: "ipc_connection \<Rightarrow> ipc_connection" where
  "connection_maybe_destroy c =
     (if \<not> connection_active c \<or> client_open c \<or> server_open c \<or>
         queue_count (to_client c) \<noteq> 0 \<or> queue_count (to_server c) \<noteq> 0
      then c else clear_connection c)"

definition close_connection_side :: "'m ipc_env \<Rightarrow> nat \<Rightarrow> u8 \<Rightarrow> 'm ipc_state \<Rightarrow> 'm ipc_state" where
  "close_connection_side env i side s =
     (let c = connections s ! i in
      if \<not> connection_active c \<or> \<not> connection_side_open c side then s
      else
        let (q, mach) = release_queue env (incoming_queue c side) (ipc_machine s);
            c = set_incoming_queue side q c;
            c = (if side = SIDE_CLIENT then c\<lparr>client_open := False\<rparr> else c\<lparr>server_open := False\<rparr>);
            peer = connection_peer_owner c side;
            mach = (if peer \<noteq> 0 then env_wake env peer mach else mach)
        in put_connection i (connection_maybe_destroy c) (s\<lparr>ipc_machine := mach\<rparr>))"

definition pending_push :: "u16 \<Rightarrow> ipc_service \<Rightarrow> ipc_service option" where
  "pending_push connection_index v =
     (if pending_count v \<ge> 16 then None
      else let tail = (unat (pending_head v) + unat (pending_count v)) mod 16
        in Some (v\<lparr>service_pending := (service_pending v)[tail := connection_index],
             pending_count := pending_count v + 1\<rparr>))"

definition pending_peek :: "ipc_service \<Rightarrow> u16 option" where
  "pending_peek v = (if pending_count v = 0 then None else Some (service_pending v ! unat (pending_head v)))"

definition pending_pop :: "ipc_service \<Rightarrow> (u16 \<times> ipc_service) option" where
  "pending_pop v = (case pending_peek v of
     None \<Rightarrow> None
   | Some connection_index \<Rightarrow> Some (connection_index,
       v\<lparr>service_pending := (service_pending v)[unat (pending_head v) := INDEX_INVALID],
         pending_head := (pending_head v + 1) mod 16, pending_count := pending_count v - 1\<rparr>))"

text \<open>The loop of \<open>unregister_service\<close>, which runs \<open>pending_count\<close> times.\<close>

fun close_pending :: "'m ipc_env \<Rightarrow> nat \<Rightarrow> nat \<Rightarrow> 'm ipc_state \<Rightarrow> 'm ipc_state" where
  "close_pending env 0 i s = s"
| "close_pending env (Suc n) i s = (case pending_pop (services s ! i) of
     None \<Rightarrow> s
   | Some (connection_index, v) \<Rightarrow>
       let s = put_service i v s;
           s = (if unat connection_index < 64 then
                  let c = connections s ! unat connection_index in
                  if connection_active c \<and> \<not> server_accepted c
                  then close_connection_side env (unat connection_index) SIDE_SERVER s else s
                else s)
       in close_pending env n i s)"

definition unregister_service :: "'m ipc_env \<Rightarrow> nat \<Rightarrow> 'm ipc_state \<Rightarrow> 'm ipc_state" where
  "unregister_service env i s =
     (if \<not> service_active (services s ! i) then s
      else let s = close_pending env (unat (pending_count (services s ! i))) i s
        in put_service i (clear_service (services s ! i)) s)"

section \<open>Entry points\<close>

definition boring_ipc_system_init :: "'m ipc_state \<Rightarrow> bool \<times> 'm ipc_state" where
  "boring_ipc_system_init s =
     (if ipc_initialized s then (True, s)
      else (True, s\<lparr>process_states := [], connections := map clear_connection (connections s),
        services := map clear_service (services s), ipc_initialized := True\<rparr>))"

definition boring_ipc_service_name_valid :: "u8 list option \<Rightarrow> bool" where
  "boring_ipc_service_name_valid name = (case name of
     None \<Rightarrow> False
   | Some chars \<Rightarrow>
       if length chars = 0 \<or> length chars > 31 then False
       else list_all (\<lambda>character.
         let alpha = character \<ge> 97 \<and> character \<le> 122;
             digit = character \<ge> 48 \<and> character \<le> 57;
             punctuation = character = 46 \<or> character = 95 \<or> character = 45
         in \<not> ((\<not> alpha \<and> \<not> digit \<and> \<not> punctuation) \<or> character = 0)) chars)"

definition boring_ipc_service_register ::
  "'m ipc_env \<Rightarrow> u64 \<Rightarrow> u8 list option \<Rightarrow> 'm ipc_state \<Rightarrow> (ipc_result \<times> u32 option) \<times> 'm ipc_state" where
  "boring_ipc_service_register env process name s =
     (if \<not> ipc_initialized s \<or> \<not> process_identity_valid env process s \<or> \<not> boring_ipc_service_name_valid name
      then ((IPC_INVALID, None), s)
      else let chars = the name in
        if find_service chars s \<noteq> None then ((IPC_EXISTS, None), s)
        else case state_for_process env process True s of
          (None, s) \<Rightarrow> ((IPC_NO_SPACE, None), s)
        | (Some st, s) \<Rightarrow> (case find_free_service s of
            None \<Rightarrow> ((IPC_NO_SPACE, None), s)
          | Some i \<Rightarrow>
              if find_free_handle st s = None then ((IPC_NO_SPACE, None), s)
              else
                let v = clear_service (services s ! i);
                    v = v\<lparr>service_owner := process, service_owner_pid := env_pid env process (ipc_machine s)\<rparr>;
                    v = v\<lparr>service_name := (write_cells 0 (\<lambda>k. chars ! k) (length chars)
                          (service_name v))[length chars := 0], service_active := True\<rparr>;
                    s = put_service i v s
                in case install_handle st HANDLE_LISTENER (word_of_nat i) 0 s of
                  (None, s) \<Rightarrow> ((IPC_NO_SPACE, None), put_service i (clear_service v) s)
                | (Some handle, s) \<Rightarrow> ((IPC_OK, Some handle), s)))"

definition boring_ipc_service_connect ::
  "'m ipc_env \<Rightarrow> u64 \<Rightarrow> u8 list option \<Rightarrow> 'm ipc_state \<Rightarrow> (ipc_result \<times> u32 option) \<times> 'm ipc_state" where
  "boring_ipc_service_connect env process name s =
     (if \<not> ipc_initialized s \<or> \<not> process_identity_valid env process s \<or> \<not> boring_ipc_service_name_valid name
      then ((IPC_INVALID, None), s)
      else case find_service (the name) s of
        None \<Rightarrow> ((IPC_NOT_FOUND, None), s)
      | Some v_index \<Rightarrow>
          if \<not> service_owner_alive env (services s ! v_index) s then ((IPC_NOT_FOUND, None), s)
          else if pending_count (services s ! v_index) \<ge> 16 then ((IPC_NO_SPACE, None), s)
          else case state_for_process env process True s of
            (None, s) \<Rightarrow> ((IPC_NO_SPACE, None), s)
          | (Some st, s) \<Rightarrow> (case find_free_connection s of
              None \<Rightarrow> ((IPC_NO_SPACE, None), s)
            | Some i \<Rightarrow>
                if find_free_handle st s = None then ((IPC_NO_SPACE, None), s)
                else
                  let v = services s ! v_index;
                      c = (clear_connection (connections s ! i))\<lparr>client_owner := process,
                        server_owner := service_owner v, client_pid := env_pid env process (ipc_machine s),
                        server_pid := service_owner_pid v, client_open := True, server_open := True,
                        connection_active := True\<rparr>;
                      s = put_connection i c s
                  in case install_handle st HANDLE_ENDPOINT (word_of_nat i) SIDE_CLIENT s of
                    (None, s) \<Rightarrow> ((IPC_NO_SPACE, None), put_connection i (clear_connection c) s)
                  | (Some handle, s) \<Rightarrow> (case pending_push (word_of_nat i) v of
                      None \<Rightarrow>
                        (case lookup_handle env process handle HANDLE_ENDPOINT s of
                           (None, s) \<Rightarrow> ((IPC_NO_SPACE, None), put_connection i (clear_connection c) s)
                         | (Some (st, slot, entry), s) \<Rightarrow>
                             ((IPC_NO_SPACE, None),
                              put_connection i (clear_connection c) (invalidate_handle_entry st slot s)))
                    | Some v \<Rightarrow>
                        let s = put_service v_index v s
                        in ((IPC_OK, Some handle),
                            s\<lparr>ipc_machine := env_wake env (service_owner v) (ipc_machine s)\<rparr>))))"

text \<open>The failure branch of \<open>boring_ipc_service_accept\<close> that takes the new handle back.\<close>

definition accept_rollback ::
  "'m ipc_env \<Rightarrow> u64 \<Rightarrow> u32 \<Rightarrow> 'm ipc_state \<Rightarrow> (ipc_result \<times> u32 option) \<times> 'm ipc_state" where
  "accept_rollback env process handle s = (case lookup_handle env process handle HANDLE_ENDPOINT s of
     (None, s) \<Rightarrow> ((IPC_INTERNAL, None), s)
   | (Some (st, slot, entry), s) \<Rightarrow> ((IPC_INTERNAL, None), invalidate_handle_entry st slot s))"

definition boring_ipc_service_accept ::
  "'m ipc_env \<Rightarrow> u64 \<Rightarrow> u32 \<Rightarrow> 'm ipc_state \<Rightarrow> (ipc_result \<times> u32 option) \<times> 'm ipc_state" where
  "boring_ipc_service_accept env process listener_handle s =
     (if \<not> ipc_initialized s \<or> \<not> process_identity_valid env process s then ((IPC_INVALID, None), s)
      else case lookup_handle env process listener_handle HANDLE_LISTENER s of
        (None, s) \<Rightarrow> ((IPC_INVALID, None), s)
      | (Some (_, _, listener), s) \<Rightarrow>
          if unat (entry_object listener) \<ge> 16 then ((IPC_INVALID, None), s)
          else let v_index = unat (entry_object listener); v = services s ! v_index in
            if \<not> service_owner_alive env v s \<or> service_owner v \<noteq> process \<or>
               service_owner_pid v \<noteq> env_pid env process (ipc_machine s) then ((IPC_INVALID, None), s)
            else case pending_peek v of
              None \<Rightarrow> ((IPC_WOULD_BLOCK, None), s)
            | Some connection_index \<Rightarrow>
                if unat connection_index \<ge> 64 then ((IPC_INTERNAL, None), s)
                else let i = unat connection_index; c = connections s ! i in
                  if \<not> connection_active c \<or> server_accepted c \<or> server_owner c \<noteq> process \<or>
                     server_pid c \<noteq> env_pid env process (ipc_machine s) then ((IPC_INTERNAL, None), s)
                  else case state_for_process env process True s of
                    (None, s) \<Rightarrow> ((IPC_NO_SPACE, None), s)
                  | (Some st, s) \<Rightarrow>
                      if find_free_handle st s = None then ((IPC_NO_SPACE, None), s)
                      else case install_handle st HANDLE_ENDPOINT connection_index SIDE_SERVER s of
                        (None, s) \<Rightarrow> ((IPC_NO_SPACE, None), s)
                      | (Some handle, s) \<Rightarrow> (case pending_pop v of
                          None \<Rightarrow> accept_rollback env process handle s
                        | Some (popped, v) \<Rightarrow>
                            let s = put_service v_index v s in
                            if popped \<noteq> connection_index then accept_rollback env process handle s
                            else ((IPC_OK, Some handle), put_connection i (c\<lparr>server_accepted := True\<rparr>) s)))"

text \<open>
  Of a message that is sent, \<open>payload\<close> holds the bytes; an attached buffer is a
  handle of the sender, 0 for none.
\<close>

definition boring_ipc_send :: "'m ipc_env \<Rightarrow> u64 \<Rightarrow> u32 \<Rightarrow> u8 list option \<Rightarrow> u32 \<Rightarrow> 'm ipc_state \<Rightarrow>
    ipc_result \<times> 'm ipc_state" where
  "boring_ipc_send env process endpoint_handle payload buffer_handle s =
     (if \<not> ipc_initialized s \<or> \<not> process_identity_valid env process s \<or> payload = None \<or>
         length (the payload) > 256 then (IPC_INVALID, s)
      else case lookup_handle env process endpoint_handle HANDLE_ENDPOINT s of
        (None, s) \<Rightarrow> (IPC_INVALID, s)
      | (Some (_, _, endpoint), s) \<Rightarrow>
          if unat (entry_object endpoint) \<ge> 64 \<or> entry_side endpoint > SIDE_SERVER then (IPC_INVALID, s)
          else let i = unat (entry_object endpoint); side = entry_side endpoint; c = connections s ! i in
            if \<not> connection_active c \<or> \<not> connection_side_open c side then (IPC_INVALID, s)
            else if \<not> connection_peer_open c side then (IPC_PEER_CLOSED, s)
            else let q = peer_incoming_queue c side in
              if queue_count q \<ge> 16 then (IPC_NO_SPACE, s)
              else
                let ((memory_result, retained), mach) =
                      (if buffer_handle \<noteq> 0 then env_retain env process buffer_handle (ipc_machine s)
                       else ((UMEM_OK, cleared_ref), ipc_machine s));
                    s = s\<lparr>ipc_machine := mach\<rparr>
                in if memory_result \<noteq> UMEM_OK then
                     (if memory_result = UMEM_NO_SPACE then IPC_NO_SPACE else IPC_INVALID, s)
                   else
                     let tail = (unat (queue_head q) + unat (queue_count q)) mod 16;
                         m = queue_messages q ! tail
                     in if message_active m then
                          (IPC_INTERNAL,
                           if env_ref_active env retained (ipc_machine s)
                           then s\<lparr>ipc_machine := env_release env retained (ipc_machine s)\<rparr> else s)
                        else
                          let m = clear_message m;
                              m = m\<lparr>message_length := word_of_nat (length (the payload)),
                                message_payload := write_cells 0 (\<lambda>k. the payload ! k) (length (the payload))
                                  (message_payload m),
                                message_attachment := retained, message_active := True\<rparr>;
                              q = q\<lparr>queue_messages := (queue_messages q)[tail := m],
                                queue_count := queue_count q + 1\<rparr>;
                              s = put_connection i (set_peer_incoming_queue side q c) s;
                              peer = connection_peer_owner c side
                          in (IPC_OK, if peer \<noteq> 0
                                      then s\<lparr>ipc_machine := env_wake env peer (ipc_machine s)\<rparr> else s))"

text \<open>
  \<open>capacity\<close> is the length of the caller's buffer (\<open>payload_null\<close>: it is NULL). The
  outputs are the result, the bytes stored in the buffer and \<open>*result_out\<close> if written.
\<close>

definition boring_ipc_receive :: "'m ipc_env \<Rightarrow> u64 \<Rightarrow> u32 \<Rightarrow> bool \<Rightarrow> u64 \<Rightarrow> 'm ipc_state \<Rightarrow>
    (ipc_result \<times> u8 list \<times> ipc_receive_result option) \<times> 'm ipc_state" where
  "boring_ipc_receive env process endpoint_handle payload_null capacity s =
     (if \<not> ipc_initialized s \<or> \<not> process_identity_valid env process s \<or> (capacity \<noteq> 0 \<and> payload_null)
      then ((IPC_INVALID, [], None), s)
      else case lookup_handle env process endpoint_handle HANDLE_ENDPOINT s of
        (None, s) \<Rightarrow> ((IPC_INVALID, [], None), s)
      | (Some (_, _, endpoint), s) \<Rightarrow>
          if unat (entry_object endpoint) \<ge> 64 \<or> entry_side endpoint > SIDE_SERVER
          then ((IPC_INVALID, [], None), s)
          else let i = unat (entry_object endpoint); side = entry_side endpoint; c = connections s ! i in
            if \<not> connection_active c \<or> \<not> connection_side_open c side then ((IPC_INVALID, [], None), s)
            else let q = incoming_queue c side in
              if queue_count q = 0 then
                ((if connection_peer_open c side then IPC_WOULD_BLOCK else IPC_PEER_CLOSED, [], None), s)
              else let m = queue_messages q ! unat (queue_head q) in
                if \<not> message_active m then ((IPC_INTERNAL, [], None), s)
                else if capacity < message_length m then
                  ((IPC_NO_SPACE, [], Some \<lparr>received_length = message_length m, received_buffer = 0\<rparr>), s)
                else
                  let has_attachment = env_ref_active env (message_attachment m) (ipc_machine s);
                      ((memory_result, ticket, handle), mach) =
                        (if has_attachment
                         then env_prepare_install env process (message_attachment m) (ipc_machine s)
                         else ((UMEM_OK, \<lparr>ticket_object_index = UINT32_MAX, ticket_generation = 0,
                           ticket_slot = 65535, ticket_active = False\<rparr>, 0), ipc_machine s));
                      s = s\<lparr>ipc_machine := mach\<rparr>
                  in if memory_result \<noteq> UMEM_OK then
                       ((if memory_result = UMEM_NO_SPACE then IPC_NO_SPACE else IPC_INTERNAL, [], None), s)
                     else
                       let bytes = take (unat (message_length m)) (message_payload m);
                           result = \<lparr>received_length = message_length m, received_buffer = handle\<rparr>;
                           (commit_result, mach) =
                             (if has_attachment
                              then env_commit_install env process (message_attachment m) ticket (ipc_machine s)
                              else (UMEM_OK, ipc_machine s));
                           s = s\<lparr>ipc_machine := mach\<rparr>
                       in if commit_result \<noteq> UMEM_OK then ((IPC_INTERNAL, bytes, Some result), s)
                          else
                            let q = q\<lparr>queue_messages := (queue_messages q)[unat (queue_head q) := clear_message m],
                                  queue_head := (queue_head q + 1) mod 16, queue_count := queue_count q - 1\<rparr>
                            in ((IPC_OK, bytes, Some result),
                                put_connection i (connection_maybe_destroy (set_incoming_queue side q c)) s))"

text \<open>The outputs are the result and, on success, the events (read 1, hang-up 2) and the peer's id.\<close>

definition boring_ipc_poll :: "'m ipc_env \<Rightarrow> u64 \<Rightarrow> u32 \<Rightarrow> 'm ipc_state \<Rightarrow>
    (ipc_result \<times> u32 \<times> u64) \<times> 'm ipc_state" where
  "boring_ipc_poll env process handle s =
     (if \<not> ipc_initialized s \<or> \<not> process_identity_valid env process s then ((IPC_INVALID, 0, 0), s)
      else case lookup_handle env process handle HANDLE_LISTENER s of
        (Some (_, _, entry), s) \<Rightarrow>
          if unat (entry_object entry) \<ge> 16 then ((IPC_INVALID, 0, 0), s)
          else let v = services s ! unat (entry_object entry) in
            if \<not> service_owner_alive env v s \<or> service_owner v \<noteq> process \<or>
               service_owner_pid v \<noteq> env_pid env process (ipc_machine s) then ((IPC_INVALID, 0, 0), s)
            else ((IPC_OK, if pending_peek v \<noteq> None then 1 else 0, 0), s)
      | (None, s) \<Rightarrow> (case lookup_handle env process handle HANDLE_ENDPOINT s of
          (None, s) \<Rightarrow> ((IPC_INVALID, 0, 0), s)
        | (Some (_, _, entry), s) \<Rightarrow>
            if unat (entry_object entry) \<ge> 64 \<or> entry_side entry > SIDE_SERVER then ((IPC_INVALID, 0, 0), s)
            else let side = entry_side entry; c = connections s ! unat (entry_object entry) in
              if \<not> connection_active c \<or> \<not> connection_side_open c side then ((IPC_INVALID, 0, 0), s)
              else
                let events = (if queue_count (incoming_queue c side) \<noteq> 0 then 1 else 0)
                in if \<not> connection_peer_open c side then ((IPC_OK, events OR 2, 0), s)
                   else ((IPC_OK, events, if side = SIDE_CLIENT then server_pid c else client_pid c), s)))"

definition boring_ipc_close :: "'m ipc_env \<Rightarrow> u64 \<Rightarrow> u32 \<Rightarrow> 'm ipc_state \<Rightarrow> ipc_result \<times> 'm ipc_state" where
  "boring_ipc_close env process handle s =
     (if \<not> ipc_initialized s \<or> \<not> process_identity_valid env process s then (IPC_INVALID, s)
      else case decode_handle handle of
        None \<Rightarrow> (IPC_INVALID, s)
      | Some (slot, generation) \<Rightarrow> (case state_for_process env process False s of
          (None, s) \<Rightarrow> (IPC_INVALID, s)
        | (Some st, s) \<Rightarrow>
            let entry = state_handles (process_states s ! st) ! slot in
            if \<not> entry_active entry \<or> entry_generation entry \<noteq> generation then (IPC_INVALID, s)
            else if entry_type entry = HANDLE_LISTENER then
              if unat (entry_object entry) \<ge> 16 then (IPC_INTERNAL, s)
              else (IPC_OK, invalidate_handle_entry st slot (unregister_service env (unat (entry_object entry)) s))
            else if entry_type entry = HANDLE_ENDPOINT then
              if unat (entry_object entry) \<ge> 64 \<or> entry_side entry > SIDE_SERVER then (IPC_INTERNAL, s)
              else (IPC_OK, invalidate_handle_entry st slot
                (close_connection_side env (unat (entry_object entry)) (entry_side entry) s))
            else (IPC_INVALID, s)))"

text \<open>The body of the loop of \<open>boring_ipc_process_cleanup\<close>.\<close>

definition cleanup_entry :: "'m ipc_env \<Rightarrow> nat \<Rightarrow> nat \<Rightarrow> 'm ipc_state \<Rightarrow> 'm ipc_state" where
  "cleanup_entry env st slot s =
     (let entry = state_handles (process_states s ! st) ! slot in
      if \<not> entry_active entry then s
      else
        let s = (if entry_type entry = HANDLE_LISTENER then
                   if unat (entry_object entry) < 16 then unregister_service env (unat (entry_object entry)) s else s
                 else if entry_type entry = HANDLE_ENDPOINT \<and> unat (entry_object entry) < 64 \<and>
                         entry_side entry \<le> SIDE_SERVER
                 then close_connection_side env (unat (entry_object entry)) (entry_side entry) s
                 else s)
        in invalidate_handle_entry st slot s)"

definition boring_ipc_process_cleanup :: "'m ipc_env \<Rightarrow> u64 \<Rightarrow> 'm ipc_state \<Rightarrow> 'm ipc_state" where
  "boring_ipc_process_cleanup env process s =
     (if \<not> ipc_initialized s \<or> process = 0 then s
      else case state_for_process env process False s of
        (None, s) \<Rightarrow> s
      | (Some st, s) \<Rightarrow>
          let s = fold (cleanup_entry env st) [0..<32] s;
              address = state_address (process_states s ! st);
              s = process_state_remove st s
          in s\<lparr>ipc_machine := snd (env_kfree env address (ipc_machine s))\<rparr>)"

definition count_attachments :: "'m ipc_env \<Rightarrow> 'm \<Rightarrow> ipc_queue \<Rightarrow> nat" where
  "count_attachments env mach q =
     length (filter (\<lambda>m. message_active m \<and> env_ref_active env (message_attachment m) mach) (queue_messages q))"

definition add_connection_stats :: "'m ipc_env \<Rightarrow> 'm \<Rightarrow> ipc_stats \<Rightarrow> ipc_connection \<Rightarrow> ipc_stats" where
  "add_connection_stats env mach stats c =
     (if \<not> connection_active c then stats
      else stats\<lparr>live_connections := live_connections stats + 1,
        queued_messages := queued_messages stats + ucast (queue_count (to_client c)) + ucast (queue_count (to_server c)),
        retained_attachments := retained_attachments stats +
          word_of_nat (count_attachments env mach (to_client c) + count_attachments env mach (to_server c))\<rparr>)"

definition boring_ipc_get_stats :: "'m ipc_env \<Rightarrow> 'm ipc_state \<Rightarrow> ipc_stats option" where
  "boring_ipc_get_stats env s =
     (if \<not> ipc_initialized s then None
      else Some (foldl (add_connection_stats env (ipc_machine s))
        \<lparr>live_services = foldl (\<lambda>n v. if service_active v then n + 1 else n) 0 (services s),
         live_connections = 0, queued_messages = 0, retained_attachments = 0\<rparr> (connections s)))"

text \<open>
  \<open>boring_ipc_host_reset\<close> of the host tests: frees every process state when no object
  is left; it stops at a state with a live handle or when \<open>kfree\<close> fails.
\<close>

fun host_reset_states :: "'m ipc_env \<Rightarrow> ipc_process_state list \<Rightarrow> 'm ipc_state \<Rightarrow> bool \<times> 'm ipc_state" where
  "host_reset_states env [] s = (True, s)"
| "host_reset_states env (st # states) s =
     (if list_ex entry_active (state_handles st) then (False, s)
      else
        let s = process_state_remove 0 s;
            (ok, mach) = env_kfree env (state_address st) (ipc_machine s);
            s = s\<lparr>ipc_machine := mach\<rparr>
        in if \<not> ok then (False, s) else host_reset_states env states s)"

definition boring_ipc_host_reset :: "'m ipc_env \<Rightarrow> 'm ipc_state \<Rightarrow> bool \<times> 'm ipc_state" where
  "boring_ipc_host_reset env s = (case boring_ipc_get_stats env s of
     None \<Rightarrow> (False, s)
   | Some stats \<Rightarrow>
       if live_services stats \<noteq> 0 \<or> live_connections stats \<noteq> 0 \<or> queued_messages stats \<noteq> 0 \<or>
          retained_attachments stats \<noteq> 0 then (False, s)
       else host_reset_states env (process_states s) s)"

end
