(* ===== verification/IpcInv.thy ===== *)
theory IpcInv
  imports Ipc
begin

text \<open>
  The invariant of the inter-process communication of kernel/core/ipc.c. The message
  queues are first-in first-out queues. The handle
  tables are read as one partial map from process and slot to what the handle refers
  to; \<open>refs_ok\<close> relates that map to the services and connections: no handle dangles,
  no two handles refer to the same side, and nothing is live that no handle and no
  pending queue refers to.
\<close>

section \<open>Queues\<close>

definition message_blank :: "ipc_message \<Rightarrow> bool" where
  "message_blank m \<longleftrightarrow> length (message_payload m) = 256 \<and> unat (message_length m) \<le> 256"

definition queue_items :: "ipc_queue \<Rightarrow> ipc_message list" where
  "queue_items q = ring_items (queue_messages q) (unat (queue_head q)) (unat (queue_count q))"

definition message_queue_wf :: "ipc_queue \<Rightarrow> bool" where
  "message_queue_wf q \<longleftrightarrow> length (queue_messages q) = 16 \<and> unat (queue_head q) < 16 \<and> unat (queue_count q) \<le> 16 \<and>
     (\<forall>m \<in> set (queue_messages q). message_blank m) \<and>
     (\<forall>j<16. message_active (queue_messages q ! ((unat (queue_head q) + j) mod 16)) \<longleftrightarrow> j < unat (queue_count q))"

lemma length_queue_items [simp]: "length (queue_items q) = unat (queue_count q)"
  by (simp add: queue_items_def)

lemma queue_items_empty [simp]: "queue_items q = [] \<longleftrightarrow> queue_count q = 0"
  by (metis length_0_conv length_queue_items unat_eq_zero)

definition queue_put :: "ipc_message \<Rightarrow> ipc_queue \<Rightarrow> ipc_queue" where
  "queue_put m q = q\<lparr>queue_messages := (queue_messages q)[(unat (queue_head q) + unat (queue_count q)) mod 16 := m],
     queue_count := queue_count q + 1\<rparr>"

definition queue_get :: "ipc_queue \<Rightarrow> ipc_message \<times> ipc_queue" where
  "queue_get q = (queue_messages q ! unat (queue_head q),
     q\<lparr>queue_messages := (queue_messages q)[unat (queue_head q) := clear_message (queue_messages q ! unat (queue_head q))],
       queue_head := (queue_head q + 1) mod 16, queue_count := queue_count q - 1\<rparr>)"

lemma clear_message_fields [simp]:
  "message_active (clear_message m) = False" "message_length (clear_message m) = 0"
  "length (message_payload (clear_message m)) = length (message_payload m)"
  by (simp_all add: clear_message_def)

lemma clear_message_blank: "message_blank m \<Longrightarrow> message_blank (clear_message m)"
  by (simp add: message_blank_def)

lemma blank_update: "\<forall>m \<in> set ms. message_blank m \<Longrightarrow> message_blank x \<Longrightarrow> \<forall>m \<in> set (ms[i := x]). message_blank m"
  using set_update_subset_insert [of ms i x] by auto

lemma queue_put_items:
  assumes wf: "message_queue_wf q" and room: "length (queue_items q) < 16" and m: "message_blank m" "message_active m"
  shows "message_queue_wf (queue_put m q) \<and> queue_items (queue_put m q) = queue_items q @ [m]"
proof -
  let ?h = "unat (queue_head q)" and ?n = "unat (queue_count q)"
  have r: "length (queue_messages q) = 16" "?h < 16" "?n < 16" using wf room by (simp_all add: message_queue_wf_def)
  have c: "unat (queue_count q + 1) = Suc ?n" using r(3) by (simp add: unat_add_exact)
  have items: "queue_items (queue_put m q) = queue_items q @ [m]"
    using ring_items_push [of ?h "queue_messages q" ?n m] r c by (simp add: queue_put_def queue_items_def)
  have "message_active (queue_messages (queue_put m q) ! ((?h + j) mod 16)) \<longleftrightarrow> j < Suc ?n" if j: "j < 16" for j
  proof (cases "j = ?n")
    case True
    then show ?thesis using r m(2) by (simp add: queue_put_def)
  next
    case False
    then have "(?h + ?n) mod 16 \<noteq> (?h + j) mod 16" using ring_slot_inj [OF r(2) j r(3)] by metis
    then show ?thesis using wf j False by (simp add: queue_put_def message_queue_wf_def less_Suc_eq)
  qed
  then show ?thesis using wf items r c blank_update [of "queue_messages q" m] m(1)
    by (simp add: message_queue_wf_def queue_put_def)
qed

lemma queue_get_items:
  assumes wf: "message_queue_wf q" and first: "queue_items q = x # xs"
  shows "fst (queue_get q) = x \<and> message_queue_wf (snd (queue_get q)) \<and> queue_items (snd (queue_get q)) = xs"
proof -
  let ?h = "unat (queue_head q)"
  define n where "n = unat (queue_count q) - 1"
  have c: "unat (queue_count q) = Suc n"
    using first length_queue_items [of q] by (simp add: n_def)
  then have "queue_count q \<noteq> 0" by auto
  then have d: "unat (queue_count q - 1) = n" using c by (simp add: unat_minus_one)
  have r: "length (queue_messages q) = 16" "?h < 16" "n < 16" using wf c by (simp_all add: message_queue_wf_def)
  have i: "unat ((queue_head q + 1) mod 16) = Suc ?h mod 16"
    using ring_advance [of "queue_head q" 16] r(2) by simp
  have split: "queue_items q = queue_messages q ! ?h # ring_items (queue_messages q) (Suc ?h mod 16) n"
    using ring_items_pop [of ?h "queue_messages q" n] r by (simp add: queue_items_def c)
  have away: "?h \<noteq> (Suc ?h mod 16 + j) mod 16" if "j < 15" for j
    using ring_slot_inj [OF r(2), of 0 "Suc j"] that r(2) by (auto simp: mod_simps)
  have same: "ring_items ((queue_messages q)[?h := m]) (Suc ?h mod 16) n = ring_items (queue_messages q) (Suc ?h mod 16) n" for m
    using away r c wf unfolding ring_items_def by (intro map_cong refl) (auto simp: message_queue_wf_def)
  have "message_active (queue_messages (snd (queue_get q)) ! ((Suc ?h mod 16 + j) mod 16)) \<longleftrightarrow> j < n" if j: "j < 16" for j
  proof (cases "j = 15")
    case True
    then have "(Suc ?h mod 16 + j) mod 16 = ?h" using r(2) by (simp add: mod_simps)
    then show ?thesis using True r c wf by (simp add: queue_get_def message_queue_wf_def)
  next
    case False
    then have "Suc j < 16" using j by simp
    then have "message_active (queue_messages q ! ((?h + Suc j) mod 16)) \<longleftrightarrow> Suc j < Suc n"
      using wf c unfolding message_queue_wf_def by metis
    then show ?thesis using away [of j] False j by (simp add: queue_get_def mod_simps)
  qed
  moreover have "message_blank (clear_message (queue_messages q ! ?h))"
    using wf r by (intro clear_message_blank) (simp add: message_queue_wf_def)
  ultimately have "message_queue_wf (snd (queue_get q))"
    using wf r i d blank_update [of "queue_messages q" "clear_message (queue_messages q ! ?h)"]
    by (simp add: message_queue_wf_def queue_get_def)
  then show ?thesis using split first same i d by (simp add: queue_get_def queue_items_def)
qed

lemma release_messages_done:
  "message_queue_wf q \<Longrightarrow> release_messages env (unat (queue_count q)) q mach = (q', mach') \<Longrightarrow> message_queue_wf q' \<and> queue_count q' = 0"
proof (induction "unat (queue_count q)" arbitrary: q mach)
  case 0
  then show ?case by (simp add: unat_eq_zero)
next
  case (Suc n)
  then obtain x xs where first: "queue_items q = x # xs" by (metis length_queue_items length_Suc_conv)
  note g = queue_get_items [OF Suc.prems(1) first]
  have n: "n = unat (queue_count (snd (queue_get q)))"
    using Suc.hyps(2) g first length_queue_items [of q] length_queue_items [of "snd (queue_get q)"] by simp
  have step: "release_messages env (unat (queue_count q)) q mach =
      release_messages env n (snd (queue_get q)) (snd (release_message env (queue_messages q ! unat (queue_head q)) mach))"
    by (subst Suc.hyps(2) [symmetric]) (simp add: release_message_def queue_get_def)
  show ?case using Suc.hyps(1) [OF n] g Suc.prems(2) unfolding step n by blast
qed

lemma release_queue_done:
  assumes "message_queue_wf q" "release_queue env q mach = (q', mach')"
  shows "message_queue_wf q' \<and> queue_count q' = 0"
proof -
  obtain r m where r: "release_messages env (unat (queue_count q)) q mach = (r, m)" by force
  then have q': "q' = r\<lparr>queue_head := 0\<rparr>" using assms(2) by (simp add: release_queue_def)
  note d = release_messages_done [OF assms(1) r]
  have "\<not> message_active (queue_messages r ! j)" if "j < 16" for j
  proof -
    have h: "unat (queue_head r) < 16" and n: "\<forall>j<16. \<not> message_active (queue_messages r ! ((unat (queue_head r) + j) mod 16))"
      using d by (simp_all add: message_queue_wf_def)
    have "(unat (queue_head r) + (16 + j - unat (queue_head r)) mod 16) mod 16 = j"
      using h that by (simp add: mod_simps)
    then show ?thesis using n by (metis mod_less_divisor zero_less_numeral)
  qed
  with d show ?thesis by (simp add: q' message_queue_wf_def)
qed

lemma clear_queue_wf: "message_queue_wf q \<Longrightarrow> message_queue_wf (clear_queue q) \<and> queue_count (clear_queue q) = 0"
  using clear_message_blank by (auto simp: message_queue_wf_def clear_queue_def)

section \<open>Connections\<close>

definition conn_wf :: "ipc_connection \<Rightarrow> bool" where
  "conn_wf c \<longleftrightarrow> message_queue_wf (to_client c) \<and> message_queue_wf (to_server c) \<and>
     (\<not> client_open c \<longrightarrow> queue_count (to_client c) = 0) \<and> (\<not> server_open c \<longrightarrow> queue_count (to_server c) = 0) \<and>
     (connection_active c \<longleftrightarrow> client_open c \<or> server_open c)"

text \<open>A side of a connection that is closed, as a whole.\<close>

definition close_side :: "ipc_connection \<Rightarrow> u8 \<Rightarrow> ipc_queue \<Rightarrow> ipc_connection" where
  "close_side c side q = connection_maybe_destroy
     (let c = set_incoming_queue side q c
      in if side = SIDE_CLIENT then c\<lparr>client_open := False\<rparr> else c\<lparr>server_open := False\<rparr>)"

lemma clear_connection_wf: "conn_wf c \<Longrightarrow> conn_wf (clear_connection c) \<and> \<not> connection_active (clear_connection c)"
  using clear_queue_wf by (simp add: conn_wf_def clear_connection_def)

lemma clear_connection_fields [simp]:
  "client_open (clear_connection c) = False" "server_open (clear_connection c) = False"
  "connection_active (clear_connection c) = False" "server_accepted (clear_connection c) = False"
  by (simp_all add: clear_connection_def)

lemma close_side_spec:
  assumes wf: "conn_wf c" and side: "side = 0 \<or> side = 1" and q: "message_queue_wf q" "queue_count q = 0"
  defines "c' \<equiv> close_side c side q"
  shows "conn_wf c'"
    and "client_open c' \<longleftrightarrow> client_open c \<and> side \<noteq> 0" and "server_open c' \<longleftrightarrow> server_open c \<and> side \<noteq> 1"
    and "connection_active c' \<Longrightarrow> client_owner c' = client_owner c \<and> server_owner c' = server_owner c \<and>
      client_pid c' = client_pid c \<and> server_pid c' = server_pid c \<and> server_accepted c' = server_accepted c"
proof -
  define d where "d = (let c = set_incoming_queue side q c
      in if side = SIDE_CLIENT then c\<lparr>client_open := False\<rparr> else c\<lparr>server_open := False\<rparr>)"
  have c': "c' = connection_maybe_destroy d" by (simp add: c'_def close_side_def d_def)
  have d: "message_queue_wf (to_client d)" "message_queue_wf (to_server d)" "client_open d \<longleftrightarrow> client_open c \<and> side \<noteq> 0"
    "server_open d \<longleftrightarrow> server_open c \<and> side \<noteq> 1" "\<not> client_open d \<longrightarrow> queue_count (to_client d) = 0"
    "\<not> server_open d \<longrightarrow> queue_count (to_server d) = 0" "connection_active d = connection_active c"
    "client_owner d = client_owner c \<and> server_owner d = server_owner c \<and>
      client_pid d = client_pid c \<and> server_pid d = server_pid c \<and> server_accepted d = server_accepted c"
    using wf side q by (auto simp: d_def Let_def set_incoming_queue_def conn_wf_def)
  have all: "conn_wf c' \<and> (client_open c' \<longleftrightarrow> client_open d) \<and> (server_open c' \<longleftrightarrow> server_open d) \<and>
      (connection_active c' \<longrightarrow> c' = d)"
  proof (cases "connection_active d \<and> \<not> client_open d \<and> \<not> server_open d")
    case True
    then have "c' = clear_connection d" using d(5,6) by (simp add: c' connection_maybe_destroy_def)
    then show ?thesis using True clear_queue_wf d(1,2) by (simp add: conn_wf_def clear_connection_def)
  next
    case False
    then have "c' = d" using d(5,6) by (auto simp: c' connection_maybe_destroy_def)
    then show ?thesis using False d wf by (auto simp: conn_wf_def)
  qed
  then show "conn_wf c'" "client_open c' \<longleftrightarrow> client_open c \<and> side \<noteq> 0" "server_open c' \<longleftrightarrow> server_open c \<and> side \<noteq> 1"
    "connection_active c' \<Longrightarrow> client_owner c' = client_owner c \<and> server_owner c' = server_owner c \<and>
      client_pid c' = client_pid c \<and> server_pid c' = server_pid c \<and> server_accepted c' = server_accepted c"
    using d(3,4,8) by auto
qed

text \<open>What \<open>close_connection_side\<close> leaves of the state.\<close>

lemma close_connection_side_spec:
  assumes wf: "conn_wf (connections s ! i)" and side: "side = 0 \<or> side = 1"
    and live: "connection_active (connections s ! i)" "connection_side_open (connections s ! i) side"
  shows "\<exists>q mach. close_connection_side env i side s =
      put_connection i (close_side (connections s ! i) side q) (s\<lparr>ipc_machine := mach\<rparr>) \<and>
    message_queue_wf q \<and> queue_count q = 0"
proof -
  let ?c = "connections s ! i"
  obtain q mach where r: "release_queue env (incoming_queue ?c side) (ipc_machine s) = (q, mach)" by force
  have "message_queue_wf (incoming_queue ?c side)" using wf by (simp add: conn_wf_def incoming_queue_def)
  note q = release_queue_done [OF this r]
  have "close_connection_side env i side s = put_connection i (close_side ?c side q)
      (s\<lparr>ipc_machine := (if connection_peer_owner (if side = SIDE_CLIENT then (set_incoming_queue side q ?c)\<lparr>client_open := False\<rparr>
         else (set_incoming_queue side q ?c)\<lparr>server_open := False\<rparr>) side \<noteq> 0
       then env_wake env (connection_peer_owner (if side = SIDE_CLIENT then (set_incoming_queue side q ?c)\<lparr>client_open := False\<rparr>
         else (set_incoming_queue side q ?c)\<lparr>server_open := False\<rparr>) side) mach else mach)\<rparr>)"
    using live r by (simp add: close_connection_side_def close_side_def Let_def)
  then show ?thesis using q by blast
qed

section \<open>Handle tables\<close>

definition states_map :: "'m ipc_state \<Rightarrow> u64 \<Rightarrow> ipc_process_state option" where
  "states_map s p = map_option (\<lambda>i. process_states s ! i) (find_state p 0 (process_states s))"

text \<open>What the handle in slot \<open>k\<close> of process \<open>p\<close> refers to: type, object and side.\<close>

definition refers :: "'m ipc_state \<Rightarrow> u64 \<times> nat \<Rightarrow> (u8 \<times> nat \<times> u8) option" where
  "refers s = (\<lambda>(p, k). case states_map s p of
     None \<Rightarrow> None
   | Some st \<Rightarrow> if k < 32 \<and> entry_active (state_handles st ! k)
       then Some (entry_type (state_handles st ! k), unat (entry_object (state_handles st ! k)),
         entry_side (state_handles st ! k)) else None)"

definition table_wf :: "ipc_process_state \<Rightarrow> bool" where
  "table_wf st \<longleftrightarrow> state_owner st \<noteq> 0 \<and> length (state_handles st) = 32 \<and>
     (\<forall>e \<in> set (state_handles st). 0 < entry_generation e \<and> entry_generation e \<le> HANDLE_GENERATION_MAX)"

definition tables_wf :: "'m ipc_state \<Rightarrow> bool" where
  "tables_wf s \<longleftrightarrow> distinct (map state_owner (process_states s)) \<and> (\<forall>st \<in> set (process_states s). table_wf st)"

lemma find_state_spec:
  "case find_state p i sts of
     None \<Rightarrow> p \<notin> state_owner ` set sts
   | Some j \<Rightarrow> i \<le> j \<and> j < i + length sts \<and> state_owner (sts ! (j - i)) = p"
proof (induction sts arbitrary: i)
  case Nil
  then show ?case by simp
next
  case (Cons st sts)
  show ?case using Cons.IH [of "Suc i"] by (auto split: option.splits simp: nth_Cons')
qed

lemma find_state_Some: "find_state p 0 sts = Some i \<Longrightarrow> i < length sts \<and> state_owner (sts ! i) = p"
  using find_state_spec [where p = p and i = 0 and sts = sts] by auto

lemma find_state_iff:
  assumes "distinct (map state_owner sts)"
  shows "find_state p 0 sts = Some i \<longleftrightarrow> i < length sts \<and> state_owner (sts ! i) = p"
proof
  assume i: "i < length sts \<and> state_owner (sts ! i) = p"
  then have "find_state p 0 sts \<noteq> None"
    using find_state_spec [where p = p and i = 0 and sts = sts] by (auto split: option.splits)
  then obtain j where "find_state p 0 sts = Some j" by auto
  with find_state_Some [OF this] i assms show "find_state p 0 sts = Some i"
    by (metis length_map nth_eq_iff_index_eq nth_map)
qed (rule find_state_Some)

lemma states_map_at:
  "tables_wf s \<Longrightarrow> i < length (process_states s) \<Longrightarrow> states_map s (state_owner (process_states s ! i)) = Some (process_states s ! i)"
  using find_state_iff [of "process_states s" "state_owner (process_states s ! i)" i]
  by (simp add: tables_wf_def states_map_def)

lemma find_state_owners: "map state_owner sts = map state_owner ts \<Longrightarrow> find_state p i sts = find_state p i ts"
proof (induction sts arbitrary: ts i)
  case Nil
  then show ?case by simp
next
  case (Cons st sts)
  then obtain t ts' where "ts = t # ts'" by (cases ts) auto
  with Cons show ?case by auto
qed

text \<open>Replacing one table by another of the same owner.\<close>

lemma states_map_update:
  assumes wf: "tables_wf s" and i: "i < length (process_states s)" and st: "state_owner st = state_owner (process_states s ! i)"
  shows "states_map (s\<lparr>process_states := (process_states s)[i := st]\<rparr>) = (states_map s)(state_owner st := Some st)"
    and "table_wf st \<Longrightarrow> tables_wf (s\<lparr>process_states := (process_states s)[i := st]\<rparr>)"
proof -
  have owners: "map state_owner ((process_states s)[i := st]) = map state_owner (process_states s)"
    using st i by (simp add: map_update list_update_same_conv)
  have d: "distinct (map state_owner ((process_states s)[i := st]))"
    using wf by (simp only: owners tables_wf_def)
  show "states_map (s\<lparr>process_states := (process_states s)[i := st]\<rparr>) = (states_map s)(state_owner st := Some st)"
  proof
    fix p
    have same: "find_state p 0 ((process_states s)[i := st]) = find_state p 0 (process_states s)"
      by (rule find_state_owners [OF owners])
    show "states_map (s\<lparr>process_states := (process_states s)[i := st]\<rparr>) p = ((states_map s)(state_owner st := Some st)) p"
    proof (cases "p = state_owner st")
      case True
      then have "find_state p 0 (process_states s) = Some i"
        using find_state_iff [of "process_states s" p i] wf st i by (simp add: tables_wf_def)
      then show ?thesis using True i by (simp add: states_map_def same [unfolded True])
    next
      case False
      then have "find_state p 0 (process_states s) \<noteq> Some i" using find_state_Some st by metis
      then show ?thesis using False by (cases "find_state p 0 (process_states s)") (auto simp: states_map_def same)
    qed
  qed
  show "tables_wf (s\<lparr>process_states := (process_states s)[i := st]\<rparr>)" if "table_wf st"
    using d wf that set_update_subset_insert [of "process_states s" i st] by (auto simp: tables_wf_def)
qed

definition same_objects :: "'m ipc_state \<Rightarrow> 'm ipc_state \<Rightarrow> bool" where
  "same_objects s t \<longleftrightarrow> connections t = connections s \<and> services t = services s \<and> ipc_initialized t = ipc_initialized s"

lemma same_objects_refl [simp]: "same_objects s s"
  by (simp add: same_objects_def)

lemma tables_wf_other [simp]:
  "tables_wf (s\<lparr>ipc_machine := m\<rparr>) = tables_wf s" "tables_wf (put_connection i c s) = tables_wf s"
  "tables_wf (put_service j v s) = tables_wf s"
  by (simp_all add: tables_wf_def put_connection_def put_service_def)

lemma refers_other [simp]:
  "refers (s\<lparr>ipc_machine := m\<rparr>) = refers s" "refers (put_connection i c s) = refers s"
  "refers (put_service j v s) = refers s"
  by (simp_all add: refers_def states_map_def put_connection_def put_service_def fun_eq_iff)

lemma state_handles_length: "tables_wf s \<Longrightarrow> i < length (process_states s) \<Longrightarrow> length (state_handles (process_states s ! i)) = 32"
  using nth_mem [of i "process_states s"] by (auto simp: tables_wf_def table_wf_def)

lemma refers_at:
  assumes "tables_wf s" "i < length (process_states s)" "state_owner (process_states s ! i) = p"
  shows "refers s (p, k) = (let e = state_handles (process_states s ! i) ! k in
    if k < 32 \<and> entry_active e then Some (entry_type e, unat (entry_object e), entry_side e) else None)"
  using states_map_at [OF assms(1,2)] assms(3) by (simp add: refers_def Let_def)

text \<open>A store to one handle entry.\<close>

lemma put_entry_refers:
  assumes wf: "tables_wf s" and i: "i < length (process_states s)" and k: "k < 32"
    and p: "state_owner (process_states s ! i) = p"
    and g: "0 < entry_generation e" "entry_generation e \<le> HANDLE_GENERATION_MAX"
  shows "tables_wf (put_entry i k e s)"
    and "refers (put_entry i k e s) = (refers s)((p, k) :=
      (if entry_active e then Some (entry_type e, unat (entry_object e), entry_side e) else None))"
    and "process_states (put_entry i k e s) ! i = (process_states s ! i)\<lparr>state_handles :=
      (state_handles (process_states s ! i))[k := e]\<rparr>"
    and "length (process_states (put_entry i k e s)) = length (process_states s)"
proof -
  let ?st = "(process_states s ! i)\<lparr>state_handles := (state_handles (process_states s ! i))[k := e]\<rparr>"
  have old: "table_wf (process_states s ! i)" using wf i by (simp add: tables_wf_def)
  have len: "length (state_handles (process_states s ! i)) = 32" by (rule state_handles_length [OF wf i])
  have new: "table_wf ?st"
    using old g set_update_subset_insert [of "state_handles (process_states s ! i)" k e]
    by (auto simp: table_wf_def)
  note u = states_map_update [OF wf i, of ?st, simplified p, simplified, folded put_entry_def]
  show "tables_wf (put_entry i k e s)" using u(2) [OF p new] by (simp add: put_entry_def)
  have m: "states_map (put_entry i k e s) = (states_map s)(p := Some ?st)" using u(1) p by (simp add: put_entry_def)
  have s: "states_map s p = Some (process_states s ! i)" using states_map_at [OF wf i] p by simp
  show "refers (put_entry i k e s) = (refers s)((p, k) :=
      (if entry_active e then Some (entry_type e, unat (entry_object e), entry_side e) else None))"
  proof
    fix x :: "u64 \<times> nat"
    obtain q j where x: "x = (q, j)" by (cases x)
    show "refers (put_entry i k e s) x = ((refers s)((p, k) :=
      (if entry_active e then Some (entry_type e, unat (entry_object e), entry_side e) else None))) x"
      using m s len k by (cases "q = p") (auto simp: x refers_def nth_list_update)
  qed
  show "process_states (put_entry i k e s) ! i = ?st" "length (process_states (put_entry i k e s)) = length (process_states s)"
    using i by (simp_all add: put_entry_def)
qed

lemma put_entry_objects [simp]: "same_objects s (put_entry i k e s)" "ipc_machine (put_entry i k e s) = ipc_machine s"
  by (simp_all add: put_entry_def same_objects_def)

text \<open>Finding or creating the table of a process changes no handle.\<close>

lemma fresh_table_wf: "process \<noteq> 0 \<Longrightarrow> table_wf ((process_state_initialize a)\<lparr>state_owner := process, state_owner_pid := pid\<rparr>)"
  by (simp add: table_wf_def process_state_initialize_def)

lemma state_for_process_spec:
  assumes wf: "tables_wf s" and r: "state_for_process env process create s = (io, t)"
  shows "tables_wf t \<and> same_objects s t \<and> refers t = refers s \<and> (\<not> create \<longrightarrow> ipc_machine t = ipc_machine s) \<and>
    (\<forall>i. io = Some i \<longrightarrow> i < length (process_states t) \<and> state_owner (process_states t ! i) = process)"
proof (cases "process_identity_valid env process s")
  case False
  then show ?thesis using wf r by (auto simp: state_for_process_def)
next
  case valid: True
  show ?thesis
  proof (cases "find_state process 0 (process_states s)")
    case (Some i)
    note i = find_state_Some [OF Some]
    let ?st = "(process_states s ! i)\<lparr>state_owner_pid := env_pid env process (ipc_machine s)\<rparr>"
    have "table_wf (process_states s ! i)" using wf i by (simp add: tables_wf_def)
    then have "table_wf ?st" by (simp add: table_wf_def)
    then have wf': "tables_wf (s\<lparr>process_states := (process_states s)[i := ?st]\<rparr>)"
      using states_map_update(2) [OF wf, of i ?st] i by simp
    have "states_map (s\<lparr>process_states := (process_states s)[i := ?st]\<rparr>) = (states_map s)(process := Some ?st)"
      using states_map_update(1) [OF wf, of i ?st] i by simp
    moreover have "states_map s process = Some (process_states s ! i)" using states_map_at [OF wf] i by auto
    ultimately have "refers (s\<lparr>process_states := (process_states s)[i := ?st]\<rparr>) = refers s"
      by (auto simp: refers_def fun_eq_iff)
    then show ?thesis using valid Some i wf wf' r
      by (auto simp: state_for_process_def Let_def same_objects_def split: if_splits)
  next
    case None
    have fresh: "process \<notin> state_owner ` set (process_states s)"
      using find_state_spec [where p = process and i = 0 and sts = "process_states s"] None by simp
    show ?thesis
    proof (cases create)
      case False
      then show ?thesis using valid None wf r by (simp add: state_for_process_def)
    next
      case True
      obtain a m where a: "env_kmalloc env 416 (ipc_machine s) = (a, m)" by force
      show ?thesis
      proof (cases "a = 0")
        case True
        then show ?thesis using valid None wf r a \<open>create\<close> by (auto simp: state_for_process_def same_objects_def)
      next
        case False
        let ?st = "(process_state_initialize a)\<lparr>state_owner := process, state_owner_pid := env_pid env process m\<rparr>"
        have t: "io = Some (length (process_states s))" "t = s\<lparr>ipc_machine := m, process_states := process_states s @ [?st]\<rparr>"
          using valid None r a False \<open>create\<close> by (auto simp: state_for_process_def process_state_append_def Let_def)
        have wf': "tables_wf t"
          using wf fresh fresh_table_wf valid
          by (auto simp: t(2) tables_wf_def process_identity_valid_def)
        have old: "states_map t q = states_map s q" if "q \<noteq> process" for q
        proof -
          have "find_state q i (sts @ [?st]) = find_state q i sts" for i sts
            using that by (induction sts arbitrary: i) auto
          then show ?thesis by (cases "find_state q 0 (process_states s)")
              (auto simp: states_map_def t(2) nth_append dest: find_state_Some)
        qed
        have "states_map s process = None" using None by (simp add: states_map_def)
        moreover have "states_map t process = Some ?st"
          using states_map_at [OF wf', of "length (process_states s)"] by (simp add: t(2))
        ultimately have "refers t (q, k) = refers s (q, k)" for q k
          using old [of q] by (cases "q = process") (simp_all add: refers_def process_state_initialize_def)
        then have "refers t = refers s" by (simp add: fun_eq_iff)
        then show ?thesis using wf' t \<open>create\<close> by (simp add: same_objects_def)
      qed
    qed
  qed
qed

lemma word_fits_bits:
  assumes "unat (w :: 'a::len word) < 2 ^ k" "bit w n"
  shows "n < k"
proof -
  have "take_bit k w = w"
    using assms(1) by (simp add: word_unat_eq_iff unsigned_take_bit_eq take_bit_nat_eq_self)
  then show ?thesis using assms(2) by (metis bit_take_bit_iff)
qed

lemma small_slot_bits: "slot < 32 \<Longrightarrow> bit (word_of_nat slot :: u32) n \<Longrightarrow> n < 5"
  by (rule word_fits_bits [where w = "word_of_nat slot :: u32"]) (simp_all add: unat_of_nat take_bit_nat_eq_self)

lemma decode_encode_handle:
  assumes "slot < 32" "0 < g" "g \<le> HANDLE_GENERATION_MAX"
  shows "decode_handle (encode_handle slot g) = Some (slot, g)"
proof -
  have "unat g < 2 ^ 27" using assms(3) by (simp add: word_le_nat_alt)
  then have gb: "n < 27" if "bit g n" for n using word_fits_bits that by blast
  have sb: "\<not> bit (word_of_nat slot :: u32) (5 + n)" for n
    using small_slot_bits [OF assms(1), of "5 + n"] by auto
  have "drop_bit 5 (encode_handle slot g) = g"
  proof (rule bit_word_eqI)
    fix n assume "n < LENGTH(32)"
    then show "bit (drop_bit 5 (encode_handle slot g)) n \<longleftrightarrow> bit g n"
      using gb [of n] sb [of n]
      by (cases "n < 27") (auto simp: encode_handle_def bit_drop_bit_eq bit_or_iff bit_push_bit_iff)
  qed
  moreover have "encode_handle slot g AND 31 = word_of_nat slot"
  proof (rule bit_word_eqI)
    fix n assume "n < LENGTH(32)"
    moreover have m: "(31 :: u32) = mask 5" by (simp add: mask_eq_exp_minus_1)
    ultimately show "bit (encode_handle slot g AND 31) n \<longleftrightarrow> bit (word_of_nat slot :: u32) n"
      using small_slot_bits [OF assms(1), of n] unfolding m
      by (auto simp: encode_handle_def bit_and_iff bit_or_iff bit_push_bit_iff bit_mask_iff simp del: of_nat_numeral)
  qed
  moreover have "unat (word_of_nat slot :: u32) = slot" using assms(1) by (simp add: unat_of_nat take_bit_nat_eq_self)
  moreover have "encode_handle slot g \<noteq> 0" using calculation(1) assms(2) by auto
  ultimately show ?thesis using assms by (simp add: decode_handle_def Let_def)
qed

lemma decode_handle_slot: "decode_handle h = Some (slot, g) \<Longrightarrow> slot < 32 \<and> g \<noteq> 0"
  by (auto simp: decode_handle_def Let_def split: if_splits)

lemma find_free_entry_spec:
  "case find_free_entry i es of
     None \<Rightarrow> \<forall>e \<in> set es. entry_active e
   | Some j \<Rightarrow> i \<le> j \<and> j < i + length es \<and> \<not> entry_active (es ! (j - i))"
proof (induction es arbitrary: i)
  case Nil
  then show ?case by simp
next
  case (Cons e es)
  show ?case using Cons.IH [of "Suc i"] by (auto split: option.splits simp: nth_Cons')
qed

text \<open>The generation of a handle slot, which a handle must match.\<close>

definition slot_generation :: "'m ipc_state \<Rightarrow> u64 \<times> nat \<Rightarrow> u32" where
  "slot_generation s = (\<lambda>(p, k). case states_map s p of None \<Rightarrow> 1 | Some st \<Rightarrow> entry_generation (state_handles st ! k))"

lemma install_handle_spec:
  assumes wf: "tables_wf s" and i: "i < length (process_states s)" and p: "state_owner (process_states s ! i) = p"
    and t: "type = HANDLE_LISTENER \<or> type = HANDLE_ENDPOINT" and free: "find_free_handle i s \<noteq> None"
  shows "\<exists>k h u. install_handle i type ob side s = (Some h, u) \<and> k < 32 \<and> refers s (p, k) = None \<and>
    tables_wf u \<and> same_objects s u \<and> ipc_machine u = ipc_machine s \<and>
    refers u = (refers s)((p, k) := Some (type, unat ob, side)) \<and> (\<exists>g. decode_handle h = Some (k, g))"
proof -
  obtain k where k: "find_free_handle i s = Some k" using free by auto
  have len: "length (state_handles (process_states s ! i)) = 32" by (rule state_handles_length [OF wf i])
  define e where "e = state_handles (process_states s ! i) ! k"
  have k32: "k < 32" and off: "\<not> entry_active e"
    using find_free_entry_spec [where i = 0 and es = "state_handles (process_states s ! i)"] k len
    by (simp_all add: find_free_handle_def e_def)
  have "table_wf (process_states s ! i)" using wf i by (simp add: tables_wf_def)
  then have g: "0 < entry_generation e" "entry_generation e \<le> HANDLE_GENERATION_MAX"
    using len k32 by (auto simp: table_wf_def e_def)
  let ?e = "e\<lparr>entry_type := type, entry_object := ob, entry_side := side, entry_active := True\<rparr>"
  have run: "install_handle i type ob side s = (Some (encode_handle k (entry_generation e)), put_entry i k ?e s)"
    using t k g(1) by (auto simp: install_handle_def e_def [symmetric] Let_def)
  have g': "0 < entry_generation ?e" "entry_generation ?e \<le> HANDLE_GENERATION_MAX" using g by simp_all
  note put = put_entry_refers [OF wf i k32 p g']
  have "refers s (p, k) = None" using refers_at [OF wf i p] off by (simp add: e_def)
  then show ?thesis
    using run put(1,2) k32 decode_encode_handle [OF k32 g]
    by (intro exI [of _ k] exI [of _ "encode_handle k (entry_generation e)"] exI [of _ "put_entry i k ?e s"]) simp
qed

lemma lookup_handle_spec:
  assumes wf: "tables_wf s" and r: "lookup_handle env process h type s = (res, t)"
  shows "tables_wf t \<and> same_objects s t \<and> refers t = refers s \<and> ipc_machine t = ipc_machine s \<and>
    (\<forall>i k e. res = Some (i, k, e) \<longrightarrow> i < length (process_states t) \<and> state_owner (process_states t ! i) = process \<and>
      k < 32 \<and> e = state_handles (process_states t ! i) ! k \<and>
      refers s (process, k) = Some (type, unat (entry_object e), entry_side e))"
proof (cases "decode_handle h")
  case None
  then show ?thesis using wf r by (auto simp: lookup_handle_def)
next
  case (Some kg)
  obtain k g where kg: "kg = (k, g)" by (cases kg)
  obtain io u where u: "state_for_process env process False s = (io, u)" by force
  note sp = state_for_process_spec [OF wf u]
  show ?thesis
  proof (cases io)
    case None
    then show ?thesis using Some kg u r sp by (auto simp: lookup_handle_def)
  next
    case (Some i)
    have i: "i < length (process_states u)" "state_owner (process_states u ! i) = process" using sp Some by auto
    have "refers u (process, k) = (let e = state_handles (process_states u ! i) ! k in
        if k < 32 \<and> entry_active e then Some (entry_type e, unat (entry_object e), entry_side e) else None)"
      using refers_at [OF _ i] sp by blast
    then show ?thesis using \<open>decode_handle h = Some kg\<close> kg u r sp Some i decode_handle_slot [of h k g]
      by (auto simp: lookup_handle_def Let_def split: if_splits)
  qed
qed

lemma next_generation_range: "0 < next_generation g \<and> next_generation g \<le> HANDLE_GENERATION_MAX"
proof (cases "g \<ge> HANDLE_GENERATION_MAX")
  case True
  then show ?thesis by (simp add: next_generation_def)
next
  case False
  then have "unat (g + 1) = Suc (unat g)" by (intro unat_suc_below [of g HANDLE_GENERATION_MAX]) simp
  then show ?thesis using False by (auto simp: next_generation_def word_le_nat_alt word_less_nat_alt)
qed

lemma invalidate_spec:
  assumes wf: "tables_wf s" and i: "i < length (process_states s)" and k: "k < 32"
    and p: "state_owner (process_states s ! i) = p"
  shows "tables_wf (invalidate_handle_entry i k s) \<and> same_objects s (invalidate_handle_entry i k s) \<and>
    ipc_machine (invalidate_handle_entry i k s) = ipc_machine s \<and>
    refers (invalidate_handle_entry i k s) = (refers s)((p, k) := None) \<and>
    length (process_states (invalidate_handle_entry i k s)) = length (process_states s) \<and>
    state_owner (process_states (invalidate_handle_entry i k s) ! i) = p"
proof -
  let ?e = "\<lparr>entry_generation = next_generation (entry_generation (state_handles (process_states s ! i) ! k)),
    entry_object = INDEX_INVALID, entry_type = HANDLE_NONE, entry_side = 0, entry_active = False\<rparr>"
  have g: "0 < entry_generation ?e" "entry_generation ?e \<le> HANDLE_GENERATION_MAX" using next_generation_range by simp_all
  note put = put_entry_refers [OF wf i k p g]
  show ?thesis using put p by (simp add: invalidate_handle_entry_def Let_def)
qed

section \<open>References\<close>

definition pend :: "ipc_service \<Rightarrow> nat list" where
  "pend v = map unat (ring_items (service_pending v) (unat (pending_head v)) (unat (pending_count v)))"

definition service_wf :: "ipc_service \<Rightarrow> bool" where
  "service_wf v \<longleftrightarrow> length (service_pending v) = 16 \<and> length (service_name v) = 32 \<and> unat (pending_head v) < 16 \<and>
     unat (pending_count v) \<le> 16 \<and> (\<not> service_active v \<longrightarrow> pending_count v = 0)"

type_synonym handle_map = "u64 \<times> nat \<Rightarrow> (u8 \<times> nat \<times> u8) option"

text \<open>What a live handle of process \<open>p\<close> may refer to.\<close>

definition target_ok :: "ipc_connection list \<Rightarrow> ipc_service list \<Rightarrow> u64 \<Rightarrow> u8 \<times> nat \<times> u8 \<Rightarrow> bool" where
  "target_ok C V p = (\<lambda>(t, i, d).
     t = HANDLE_LISTENER \<and> d = 0 \<and> i < 16 \<and> service_active (V ! i) \<and> service_owner (V ! i) = p \<or>
     t = HANDLE_ENDPOINT \<and> i < 64 \<and>
       (d = SIDE_CLIENT \<and> client_open (C ! i) \<and> client_owner (C ! i) = p \<or>
        d = SIDE_SERVER \<and> server_open (C ! i) \<and> server_accepted (C ! i) \<and> server_owner (C ! i) = p))"

definition pending_ok :: "ipc_connection list \<Rightarrow> ipc_service \<Rightarrow> bool" where
  "pending_ok C v \<longleftrightarrow> distinct (pend v) \<and>
     (\<forall>i \<in> set (pend v). i < 64 \<and> server_open (C ! i) \<and> \<not> server_accepted (C ! i) \<and>
        server_owner (C ! i) = service_owner v \<and> server_pid (C ! i) = service_owner_pid v)"

definition refs_ok :: "handle_map \<Rightarrow> ipc_connection list \<Rightarrow> ipc_service list \<Rightarrow> bool" where
  "refs_ok H C V \<longleftrightarrow> length C = 64 \<and> length V = 16 \<and> (\<forall>c \<in> set C. conn_wf c) \<and> (\<forall>v \<in> set V. service_wf v) \<and>
     (\<forall>a x. H a = Some x \<longrightarrow> target_ok C V (fst a) x) \<and>
     (\<forall>a b x. H a = Some x \<longrightarrow> H b = Some x \<longrightarrow> a = b) \<and>
     (\<forall>i<16. service_active (V ! i) \<longrightarrow> (\<exists>k. H (service_owner (V ! i), k) = Some (HANDLE_LISTENER, i, 0))) \<and>
     (\<forall>i<64. client_open (C ! i) \<longrightarrow> (\<exists>k. H (client_owner (C ! i), k) = Some (HANDLE_ENDPOINT, i, SIDE_CLIENT))) \<and>
     (\<forall>i<64. server_open (C ! i) \<longrightarrow> server_accepted (C ! i) \<longrightarrow>
       (\<exists>k. H (server_owner (C ! i), k) = Some (HANDLE_ENDPOINT, i, SIDE_SERVER))) \<and>
     (\<forall>i<64. server_open (C ! i) \<longrightarrow> \<not> server_accepted (C ! i) \<longrightarrow> (\<exists>j<16. i \<in> set (pend (V ! j)))) \<and>
     (\<forall>j<16. pending_ok C (V ! j)) \<and>
     (\<forall>j<16. \<forall>k<16. j \<noteq> k \<longrightarrow> set (pend (V ! j)) \<inter> set (pend (V ! k)) = {})"

lemma refs_okI:
  assumes "length C = 64" "length V = 16" "\<And>c. c \<in> set C \<Longrightarrow> conn_wf c" "\<And>v. v \<in> set V \<Longrightarrow> service_wf v"
    "\<And>a x. H a = Some x \<Longrightarrow> target_ok C V (fst a) x"
    "\<And>a b x. H a = Some x \<Longrightarrow> H b = Some x \<Longrightarrow> a = b"
    "\<And>i. i < 16 \<Longrightarrow> service_active (V ! i) \<Longrightarrow> \<exists>k. H (service_owner (V ! i), k) = Some (HANDLE_LISTENER, i, 0)"
    "\<And>i. i < 64 \<Longrightarrow> client_open (C ! i) \<Longrightarrow> \<exists>k. H (client_owner (C ! i), k) = Some (HANDLE_ENDPOINT, i, SIDE_CLIENT)"
    "\<And>i. i < 64 \<Longrightarrow> server_open (C ! i) \<Longrightarrow> server_accepted (C ! i) \<Longrightarrow>
       \<exists>k. H (server_owner (C ! i), k) = Some (HANDLE_ENDPOINT, i, SIDE_SERVER)"
    "\<And>i. i < 64 \<Longrightarrow> server_open (C ! i) \<Longrightarrow> \<not> server_accepted (C ! i) \<Longrightarrow> \<exists>j<16. i \<in> set (pend (V ! j))"
    "\<And>j. j < 16 \<Longrightarrow> pending_ok C (V ! j)"
    "\<And>j k. j < 16 \<Longrightarrow> k < 16 \<Longrightarrow> j \<noteq> k \<Longrightarrow> set (pend (V ! j)) \<inter> set (pend (V ! k)) = {}"
  shows "refs_ok H C V"
  using assms unfolding refs_ok_def by blast

lemma refs_okD:
  assumes "refs_ok H C V"
  shows "length C = 64" "length V = 16" "i < 64 \<Longrightarrow> conn_wf (C ! i)" "j < 16 \<Longrightarrow> service_wf (V ! j)"
    "H a = Some x \<Longrightarrow> target_ok C V (fst a) x"
    "H a = Some x \<Longrightarrow> H b = Some x \<Longrightarrow> a = b"
    "j < 16 \<Longrightarrow> service_active (V ! j) \<Longrightarrow> \<exists>k. H (service_owner (V ! j), k) = Some (HANDLE_LISTENER, j, 0)"
    "i < 64 \<Longrightarrow> client_open (C ! i) \<Longrightarrow> \<exists>k. H (client_owner (C ! i), k) = Some (HANDLE_ENDPOINT, i, SIDE_CLIENT)"
    "i < 64 \<Longrightarrow> server_open (C ! i) \<Longrightarrow> server_accepted (C ! i) \<Longrightarrow>
       \<exists>k. H (server_owner (C ! i), k) = Some (HANDLE_ENDPOINT, i, SIDE_SERVER)"
    "i < 64 \<Longrightarrow> server_open (C ! i) \<Longrightarrow> \<not> server_accepted (C ! i) \<Longrightarrow> \<exists>j<16. i \<in> set (pend (V ! j))"
    "j < 16 \<Longrightarrow> pending_ok C (V ! j)"
    "j < 16 \<Longrightarrow> j' < 16 \<Longrightarrow> j \<noteq> j' \<Longrightarrow> set (pend (V ! j)) \<inter> set (pend (V ! j')) = {}"
  using assms unfolding refs_ok_def by (blast, blast, simp, simp, blast+)

lemma update_member: "x \<in> set (xs[i := y]) \<Longrightarrow> x = y \<or> x \<in> set xs"
  using set_update_subset_insert [of xs i y] by auto

lemma refs_ok_members: "refs_ok H C V \<Longrightarrow> c \<in> set C \<Longrightarrow> conn_wf c" "refs_ok H C V \<Longrightarrow> v \<in> set V \<Longrightarrow> service_wf v"
  by (auto simp: refs_ok_def)

lemma pend_idle: "service_wf v \<Longrightarrow> \<not> service_active v \<Longrightarrow> pend v = []"
  by (simp add: service_wf_def pend_def)

lemma target_ok_keep:
  assumes "target_ok C V p x" "\<And>n e. x = (HANDLE_LISTENER, n, e) \<Longrightarrow> n < 16 \<Longrightarrow>
      service_active (V' ! n) = service_active (V ! n) \<and> service_owner (V' ! n) = service_owner (V ! n)"
    "\<And>n e. x = (HANDLE_ENDPOINT, n, e) \<Longrightarrow> n < 64 \<Longrightarrow> C' ! n = C ! n"
  shows "target_ok C' V' p x"
proof -
  obtain t n e where x: "x = (t, n, e)" by (cases x) auto
  consider "t = HANDLE_LISTENER" "n < 16" | "t = HANDLE_ENDPOINT" "n < 64" | "t \<noteq> HANDLE_LISTENER" "t \<noteq> HANDLE_ENDPOINT"
    using assms(1) by (auto simp: target_ok_def x)
  then show ?thesis
    using assms(1) assms(2) [of n e] assms(3) [of n e] by cases (auto simp: target_ok_def x)
qed

lemma upd_keeps:
  "H a = None \<Longrightarrow> \<exists>k. H (q, k) = Some x \<Longrightarrow> \<exists>k. (H(a := y)) (q, k) = Some x" for H :: handle_map
  by (metis fun_upd_other option.distinct(1))

text \<open>A new service with its listener.\<close>

lemma refs_register:
  assumes ok: "refs_ok H C V" and i: "i < 16" "\<not> service_active (V ! i)" and v: "service_wf v" "service_active v"
    "service_owner v = p" "pend v = []" and free: "H (p, k) = None"
  shows "refs_ok (H((p, k) := Some (HANDLE_LISTENER, i, 0))) C (V[i := v])"
proof -
  note d = refs_okD [OF ok]
  have idle: "pend (V ! i) = []" using pend_idle [OF d(4)] i by simp
  have unreferred: "H a \<noteq> Some (HANDLE_LISTENER, i, x)" for a x
    using d(5) [of a "(HANDLE_LISTENER, i, x)"] i by (auto simp: target_ok_def)
  have pends: "set (pend (V[i := v] ! j)) = set (pend (V ! j))" for j
    using idle v(4) d(2) i by (cases "j = i") simp_all
  show ?thesis
  proof (rule refs_okI)
    show "target_ok C (V[i := v]) (fst a) x" if "(H((p, k) := Some (HANDLE_LISTENER, i, 0))) a = Some x" for a x
      using that d(5) [of a x] v i d(2) unreferred
      by (auto simp: target_ok_def nth_list_update split: if_splits)
    show "a = b" if "(H((p, k) := Some (HANDLE_LISTENER, i, 0))) a = Some x"
      "(H((p, k) := Some (HANDLE_LISTENER, i, 0))) b = Some x" for a b x
      using that d(6) [of a x b] unreferred [of a 0] unreferred [of b 0] by (auto split: if_splits)
    show "\<exists>ka. (H((p, k) := Some (HANDLE_LISTENER, i, 0))) (service_owner (V[i := v] ! j), ka) = Some (HANDLE_LISTENER, j, 0)"
      if j: "j < 16" and act: "service_active (V[i := v] ! j)" for j
    proof (cases "j = i")
      case True
      then show ?thesis using v i d(2) by (intro exI [of _ k]) simp
    next
      case False
      then have "\<exists>ka. H (service_owner (V ! j), ka) = Some (HANDLE_LISTENER, j, 0)" using d(7) [OF j] act by simp
      then show ?thesis using False upd_keeps [where H = H and a = "(p, k)", OF free] by simp
    qed
    show "\<exists>j<16. n \<in> set (pend (V[i := v] ! j))" if "n < 64" "server_open (C ! n)" "\<not> server_accepted (C ! n)" for n
      using d(10) [OF that] by (simp add: pends)
    show "pending_ok C (V[i := v] ! j)" if "j < 16" for j
      using d(11) [OF that] v i d(2) by (cases "j = i") (simp_all add: pending_ok_def)
    show "\<exists>ka. (H((p, k) := Some (HANDLE_LISTENER, i, 0))) (client_owner (C ! n), ka) = Some (HANDLE_ENDPOINT, n, SIDE_CLIENT)"
      if "n < 64" "client_open (C ! n)" for n using upd_keeps [where H = H and a = "(p, k)", OF free d(8) [OF that]] .
    show "\<exists>ka. (H((p, k) := Some (HANDLE_LISTENER, i, 0))) (server_owner (C ! n), ka) = Some (HANDLE_ENDPOINT, n, SIDE_SERVER)"
      if "n < 64" "server_open (C ! n)" "server_accepted (C ! n)" for n using upd_keeps [where H = H and a = "(p, k)", OF free d(9) [OF that]] .
  qed (use d v refs_ok_members [OF ok] in \<open>auto simp: pends dest!: update_member\<close>)
qed

text \<open>A new connection with the client's endpoint, waiting at service \<open>j\<close>.\<close>

lemma refs_connect:
  assumes ok: "refs_ok H C V" and i: "i < 64" "\<not> connection_active (C ! i)" and j: "j < 16"
    and v: "service_wf v" "service_active v = service_active (V ! j)" "service_owner v = service_owner (V ! j)"
      "service_owner_pid v = service_owner_pid (V ! j)" "pend v = pend (V ! j) @ [i]"
    and c: "conn_wf c" "client_open c" "server_open c" "\<not> server_accepted c" "client_owner c = p"
      "server_owner c = service_owner v" "server_pid c = service_owner_pid v"
    and free: "H (p, k) = None"
  shows "refs_ok (H((p, k) := Some (HANDLE_ENDPOINT, i, SIDE_CLIENT))) (C[i := c]) (V[j := v])"
proof -
  note d = refs_okD [OF ok]
  have closed: "\<not> client_open (C ! i)" "\<not> server_open (C ! i)" using d(3) [OF i(1)] i(2) by (simp_all add: conn_wf_def)
  have unreferred: "H a \<noteq> Some (HANDLE_ENDPOINT, i, x)" for a x
    using d(5) [of a "(HANDLE_ENDPOINT, i, x)"] closed by (auto simp: target_ok_def)
  have nopend: "i \<notin> set (pend (V ! n))" if "n < 16" for n
    using d(11) [OF that] closed by (auto simp: pending_ok_def)
  have V: "V[j := v] ! n = (if n = j then v else V ! n)" if "n < 16" for n using that d(2) by (simp add: nth_list_update)
  have C: "C[i := c] ! n = (if n = i then c else C ! n)" if "n < 64" for n using that d(1) by (simp add: nth_list_update)
  note kept = upd_keeps [where H = H and a = "(p, k)", OF free]
  show ?thesis
  proof (rule refs_okI)
    show "target_ok (C[i := c]) (V[j := v]) (fst a) x" if h: "(H((p, k) := Some (HANDLE_ENDPOINT, i, SIDE_CLIENT))) a = Some x" for a x
    proof (cases "a = (p, k)")
      case True
      then show ?thesis using h c i(1) by (auto simp: target_ok_def C)
    next
      case False
      then have old: "H a = Some x" using h by simp
      have "n \<noteq> i" if "x = (HANDLE_ENDPOINT, n, e)" for n e using unreferred [of a e] old that by auto
      then show ?thesis using v C V by (intro target_ok_keep [OF d(5) [OF old]]) auto
    qed
    show "a = b" if "(H((p, k) := Some (HANDLE_ENDPOINT, i, SIDE_CLIENT))) a = Some x"
      "(H((p, k) := Some (HANDLE_ENDPOINT, i, SIDE_CLIENT))) b = Some x" for a b x
      using that d(6) [of a x b] unreferred [of a SIDE_CLIENT] unreferred [of b SIDE_CLIENT] by (auto split: if_splits)
    show "\<exists>ka. (H((p, k) := Some (HANDLE_ENDPOINT, i, SIDE_CLIENT))) (service_owner (V[j := v] ! n), ka) = Some (HANDLE_LISTENER, n, 0)"
      if "n < 16" "service_active (V[j := v] ! n)" for n
    proof -
      have "service_active (V ! n)" "service_owner (V[j := v] ! n) = service_owner (V ! n)"
        using that v V [of n] by (auto split: if_splits)
      then show ?thesis using kept [OF d(7) [OF that(1)]] by simp
    qed
    show "\<exists>ka. (H((p, k) := Some (HANDLE_ENDPOINT, i, SIDE_CLIENT))) (client_owner (C[i := c] ! n), ka) =
        Some (HANDLE_ENDPOINT, n, SIDE_CLIENT)" if "n < 64" "client_open (C[i := c] ! n)" for n
    proof (cases "n = i")
      case True
      then show ?thesis using c i(1) C by (intro exI [of _ k]) simp
    next
      case False
      then show ?thesis using kept [OF d(8) [of n]] that C [of n] by simp
    qed
    show "\<exists>ka. (H((p, k) := Some (HANDLE_ENDPOINT, i, SIDE_CLIENT))) (server_owner (C[i := c] ! n), ka) =
        Some (HANDLE_ENDPOINT, n, SIDE_SERVER)" if "n < 64" "server_open (C[i := c] ! n)" "server_accepted (C[i := c] ! n)" for n
      using that c(4) kept [OF d(9) [of n]] C [of n] by (cases "n = i") simp_all
    show "\<exists>m<16. n \<in> set (pend (V[j := v] ! m))" if n: "n < 64" "server_open (C[i := c] ! n)" "\<not> server_accepted (C[i := c] ! n)" for n
    proof (cases "n = i")
      case True
      then show ?thesis using j V [OF j] v(5) by (intro exI [of _ j]) simp
    next
      case False
      then obtain m where "m < 16" "n \<in> set (pend (V ! m))" using d(10) [of n] n C [of n] by auto
      then show ?thesis using V [of m] v(5) by (intro exI [of _ m]) auto
    qed
    show "pending_ok (C[i := c]) (V[j := v] ! n)" if n: "n < 16" for n
    proof -
      have "m < 64 \<and> server_open (C[i := c] ! m) \<and> \<not> server_accepted (C[i := c] ! m) \<and>
          server_owner (C[i := c] ! m) = service_owner (V ! n) \<and> server_pid (C[i := c] ! m) = service_owner_pid (V ! n)"
        if m: "m \<in> set (pend (V ! n))" for m
        using d(11) [OF n] nopend [OF n] m C [of m] by (auto simp: pending_ok_def)
      then show ?thesis
        using d(11) [OF n] V [OF n] v c i nopend [OF n] C [OF i(1)] by (auto simp: pending_ok_def)
    qed
    show "set (pend (V[j := v] ! m)) \<inter> set (pend (V[j := v] ! n)) = {}" if "m < 16" "n < 16" "m \<noteq> n" for m n
      using that d(12) [OF that] V v(5) nopend by auto
  qed (use d v(1) c(1) refs_ok_members [OF ok] in \<open>auto dest!: update_member\<close>)
qed

end
