(* ===== verification/IpcSteps.thy ===== *)
theory IpcSteps
  imports IpcInv
begin

text \<open>
  The remaining steps on references of kernel/core/ipc.c (accepting, closing a side,
  dropping a pending connection, removing a service, moving messages) and the
  invariant of every entry point.
\<close>

section \<open>Steps on references\<close>

lemma target_ok_conn:
  assumes "target_ok C V p x"
    "\<And>n. x = (HANDLE_ENDPOINT, n, SIDE_CLIENT) \<Longrightarrow> n < 64 \<Longrightarrow> client_open (C ! n) \<Longrightarrow>
      client_open (C' ! n) \<and> client_owner (C' ! n) = client_owner (C ! n)"
    "\<And>n. x = (HANDLE_ENDPOINT, n, SIDE_SERVER) \<Longrightarrow> n < 64 \<Longrightarrow> server_open (C ! n) \<Longrightarrow> server_accepted (C ! n) \<Longrightarrow>
      server_open (C' ! n) \<and> server_accepted (C' ! n) \<and> server_owner (C' ! n) = server_owner (C ! n)"
  shows "target_ok C' V p x"
proof -
  obtain t n e where x: "x = (t, n, e)" by (cases x) auto
  consider "t = HANDLE_LISTENER" | "t = HANDLE_ENDPOINT" "e = 0" "n < 64" "client_open (C ! n)" "client_owner (C ! n) = p"
    | "t = HANDLE_ENDPOINT" "e = 1" "n < 64" "server_open (C ! n)" "server_accepted (C ! n)" "server_owner (C ! n) = p"
    using assms(1) unfolding target_ok_def x by auto
  then show ?thesis
  proof cases
    case 1
    then show ?thesis using assms(1) by (simp add: target_ok_def x)
  next
    case 2
    then show ?thesis using assms(2) [of n] by (simp add: target_ok_def x)
  next
    case 3
    then show ?thesis using assms(3) [of n] by (simp add: target_ok_def x)
  qed
qed

text \<open>The connection at the head of a service's queue gets its server endpoint.\<close>

lemma refs_accept:
  assumes ok: "refs_ok H C V" and j: "j < 16" "service_active (V ! j)" and first: "pend (V ! j) = i # xs"
    and v: "service_wf v" "service_active v" "service_owner v = service_owner (V ! j)"
      "service_owner_pid v = service_owner_pid (V ! j)" "pend v = xs"
    and c: "c = (C ! i)\<lparr>server_accepted := True\<rparr>" and free: "H (service_owner v, k) = None"
  shows "refs_ok (H((service_owner v, k) := Some (HANDLE_ENDPOINT, i, SIDE_SERVER))) (C[i := c]) (V[j := v])"
proof -
  note d = refs_okD [OF ok]
  let ?a = "(service_owner v, k)"
  have i: "i < 64" "server_open (C ! i)" "\<not> server_accepted (C ! i)" "server_owner (C ! i) = service_owner v"
    "i \<notin> set xs" "distinct xs"
    using d(11) [OF j(1)] first v(3) by (simp_all add: pending_ok_def)
  have unreferred: "H a \<noteq> Some (HANDLE_ENDPOINT, i, SIDE_SERVER)" for a
    using d(5) [of a "(HANDLE_ENDPOINT, i, SIDE_SERVER)"] i by (auto simp: target_ok_def)
  have nopend: "i \<notin> set (pend (V ! n))" if "n < 16" "n \<noteq> j" for n
    using d(12) [OF that(1) j(1) that(2)] first by auto
  have V: "V[j := v] ! n = (if n = j then v else V ! n)" if "n < 16" for n using that d(2) by (simp add: nth_list_update)
  have C: "C[i := c] ! n = (if n = i then c else C ! n)" if "n < 64" for n using that d(1) by (simp add: nth_list_update)
  have cf: "client_open c = client_open (C ! i)" "server_open c" "server_accepted c" "client_owner c = client_owner (C ! i)"
    "server_owner c = server_owner (C ! i)" "conn_wf c"
    using d(3) [OF i(1)] i by (simp_all add: c conn_wf_def)
  note kept = upd_keeps [where H = H and a = ?a, OF free]
  show ?thesis
  proof (rule refs_okI)
    show "target_ok (C[i := c]) (V[j := v]) (fst a) x" if h: "(H(?a := Some (HANDLE_ENDPOINT, i, SIDE_SERVER))) a = Some x" for a x
    proof (cases "a = ?a")
      case True
      then show ?thesis using h cf i by (auto simp: target_ok_def C)
    next
      case False
      then have t: "target_ok C V (fst a) x" and "x \<noteq> (HANDLE_ENDPOINT, i, SIDE_SERVER)"
        using h d(5) unreferred [of a] by auto
      have "target_ok (C[i := c]) V (fst a) x"
      proof (rule target_ok_conn [OF t])
        fix n
        show "client_open (C[i := c] ! n) \<and> client_owner (C[i := c] ! n) = client_owner (C ! n)"
          if "n < 64" "client_open (C ! n)" using that cf C [of n] by (cases "n = i") simp_all
        show "server_open (C[i := c] ! n) \<and> server_accepted (C[i := c] ! n) \<and> server_owner (C[i := c] ! n) = server_owner (C ! n)"
          if "n < 64" "server_open (C ! n)" "server_accepted (C ! n)" using that cf C [of n] by (cases "n = i") simp_all
      qed
      then show ?thesis using v j V by (elim target_ok_keep) auto
    qed
    show "a = b" if "(H(?a := Some (HANDLE_ENDPOINT, i, SIDE_SERVER))) a = Some x"
      "(H(?a := Some (HANDLE_ENDPOINT, i, SIDE_SERVER))) b = Some x" for a b x
      using that d(6) [of a x b] unreferred [of a] unreferred [of b] by (auto split: if_splits)
    show "\<exists>ka. (H(?a := Some (HANDLE_ENDPOINT, i, SIDE_SERVER))) (service_owner (V[j := v] ! n), ka) = Some (HANDLE_LISTENER, n, 0)"
      if "n < 16" "service_active (V[j := v] ! n)" for n
    proof -
      have "service_active (V ! n)" "service_owner (V[j := v] ! n) = service_owner (V ! n)"
        using that v j V [of n] by (auto split: if_splits)
      then show ?thesis using kept [OF d(7) [OF that(1)]] by simp
    qed
    show "\<exists>ka. (H(?a := Some (HANDLE_ENDPOINT, i, SIDE_SERVER))) (client_owner (C[i := c] ! n), ka) =
        Some (HANDLE_ENDPOINT, n, SIDE_CLIENT)" if "n < 64" "client_open (C[i := c] ! n)" for n
      using kept [OF d(8) [of n]] that C [of n] cf by (cases "n = i") simp_all
    show "\<exists>ka. (H(?a := Some (HANDLE_ENDPOINT, i, SIDE_SERVER))) (server_owner (C[i := c] ! n), ka) =
        Some (HANDLE_ENDPOINT, n, SIDE_SERVER)" if "n < 64" "server_open (C[i := c] ! n)" "server_accepted (C[i := c] ! n)" for n
    proof (cases "n = i")
      case True
      then show ?thesis using i cf C by (intro exI [of _ k]) simp
    next
      case False
      then show ?thesis using kept [OF d(9) [of n]] that C [of n] by simp
    qed
    show "\<exists>m<16. n \<in> set (pend (V[j := v] ! m))" if n: "n < 64" "server_open (C[i := c] ! n)" "\<not> server_accepted (C[i := c] ! n)" for n
    proof -
      have ni: "n \<noteq> i" using n cf C [of n] by auto
      then obtain m where m: "m < 16" "n \<in> set (pend (V ! m))" using d(10) [of n] n C [of n] by auto
      then show ?thesis using V [OF m(1)] v(5) first ni by (intro exI [of _ m]) auto
    qed
    show "pending_ok (C[i := c]) (V[j := v] ! n)" if n: "n < 16" for n
    proof (cases "n = j")
      case True
      have "\<forall>m \<in> set xs. m \<noteq> i \<and> m < 64" using i d(11) [OF j(1)] first by (auto simp: pending_ok_def)
      then show ?thesis using True d(11) [OF j(1)] V [OF n] v C first by (auto simp: pending_ok_def)
    next
      case False
      then have "\<forall>m \<in> set (pend (V ! n)). m \<noteq> i \<and> m < 64" using nopend [OF n False] d(11) [OF n] by (auto simp: pending_ok_def)
      then show ?thesis using False d(11) [OF n] V [OF n] C by (auto simp: pending_ok_def)
    qed
    show "set (pend (V[j := v] ! m)) \<inter> set (pend (V[j := v] ! n)) = {}" if "m < 16" "n < 16" "m \<noteq> n" for m n
      using that d(12) [OF that] V v(5) first by auto
  qed (use d v(1) cf refs_ok_members [OF ok] in \<open>auto dest!: update_member\<close>)
qed

text \<open>
  A side of a connection is closed: either by its handle, which goes away, or
  (\<open>accepted\<close> false) by taking the connection out of the queue where it waited.
\<close>

lemma refs_close_endpoint:
  assumes ok: "refs_ok H C V" and a: "H a = Some (HANDLE_ENDPOINT, i, e)" and q: "message_queue_wf q" "queue_count q = 0"
  shows "refs_ok (H(a := None)) (C[i := close_side (C ! i) e q]) V"
proof -
  note d = refs_okD [OF ok]
  have t: "target_ok C V (fst a) (HANDLE_ENDPOINT, i, e)" by (rule d(5) [OF a])
  have i: "i < 64" "e = 0 \<or> e = 1" using t by (auto simp: target_ok_def)
  define c where "c = close_side (C ! i) e q"
  note s = close_side_spec [OF d(3) [OF i(1)] i(2) q, folded c_def]
  have act: "client_open c \<or> server_open c \<Longrightarrow> connection_active c" using s(1) by (simp add: conn_wf_def)
  have C: "C[i := c] ! n = (if n = i then c else C ! n)" if "n < 64" for n using that d(1) by (simp add: nth_list_update)
  have acc: "server_accepted (C ! i)" if "e = 1" using t that by (auto simp: target_ok_def)
  have away: "b \<noteq> a" if "H b = Some x" "x \<noteq> (HANDLE_ENDPOINT, i, e)" for b x using that a by auto
  have kept: "\<exists>k. (H(a := None)) (p, k) = Some x" if "\<exists>k. H (p, k) = Some x" "x \<noteq> (HANDLE_ENDPOINT, i, e)" for p x
    using that away by (metis fun_upd_other)
  show ?thesis unfolding c_def [symmetric]
  proof (rule refs_okI)
    show "target_ok (C[i := c]) V (fst b) x" if h: "(H(a := None)) b = Some x" for b x
    proof -
      have b: "H b = Some x" "b \<noteq> a" using h by (auto split: if_splits)
      then have x: "x \<noteq> (HANDLE_ENDPOINT, i, e)" using d(6) a by blast
      show ?thesis
      proof (rule target_ok_conn [OF d(5) [OF b(1)]])
        fix n
        show "client_open (C[i := c] ! n) \<and> client_owner (C[i := c] ! n) = client_owner (C ! n)"
          if "x = (HANDLE_ENDPOINT, n, SIDE_CLIENT)" "n < 64" "client_open (C ! n)"
          using that x s act C [of n] by (cases "n = i") auto
        show "server_open (C[i := c] ! n) \<and> server_accepted (C[i := c] ! n) \<and> server_owner (C[i := c] ! n) = server_owner (C ! n)"
          if "x = (HANDLE_ENDPOINT, n, SIDE_SERVER)" "n < 64" "server_open (C ! n)" "server_accepted (C ! n)"
          using that x s act C [of n] by (cases "n = i") auto
      qed
    qed
    show "b = b'" if "(H(a := None)) b = Some x" "(H(a := None)) b' = Some x" for b b' x
      using that d(6) [of b x b'] by (auto split: if_splits)
    show "\<exists>k. (H(a := None)) (service_owner (V ! n), k) = Some (HANDLE_LISTENER, n, 0)"
      if "n < 16" "service_active (V ! n)" for n using kept [OF d(7) [OF that]] by simp
    show "\<exists>k. (H(a := None)) (client_owner (C[i := c] ! n), k) = Some (HANDLE_ENDPOINT, n, SIDE_CLIENT)"
      if "n < 64" "client_open (C[i := c] ! n)" for n
      using that C [of n] s act kept [OF d(8) [of n]] by (cases "n = i") auto
    show "\<exists>k. (H(a := None)) (server_owner (C[i := c] ! n), k) = Some (HANDLE_ENDPOINT, n, SIDE_SERVER)"
      if "n < 64" "server_open (C[i := c] ! n)" "server_accepted (C[i := c] ! n)" for n
      using that C [of n] s act kept [OF d(9) [of n]] by (cases "n = i") auto
    show "\<exists>j<16. n \<in> set (pend (V ! j))" if "n < 64" "server_open (C[i := c] ! n)" "\<not> server_accepted (C[i := c] ! n)" for n
      using that C [of n] s act d(10) [of n] by (cases "n = i") auto
    show "pending_ok (C[i := c]) (V ! j)" if j: "j < 16" for j
    proof -
      have "m < 64 \<and> server_open (C[i := c] ! m) \<and> \<not> server_accepted (C[i := c] ! m) \<and>
          server_owner (C[i := c] ! m) = service_owner (V ! j) \<and> server_pid (C[i := c] ! m) = service_owner_pid (V ! j)"
        if m: "m \<in> set (pend (V ! j))" for m
      proof -
        have p: "m < 64" "server_open (C ! m)" "\<not> server_accepted (C ! m)" "server_owner (C ! m) = service_owner (V ! j)"
          "server_pid (C ! m) = service_owner_pid (V ! j)" using d(11) [OF j] m by (simp_all add: pending_ok_def)
        then have "e \<noteq> 1" if "m = i" using acc that by auto
        then show ?thesis using p C [OF p(1)] s act i(2) by (cases "m = i") auto
      qed
      then show ?thesis using d(11) [OF j] by (simp add: pending_ok_def)
    qed
  qed (use d s(1) refs_ok_members [OF ok] in \<open>auto dest!: update_member\<close>)
qed

lemma refs_drop_pending:
  assumes ok: "refs_ok H C V" and j: "j < 16" and first: "pend (V ! j) = i # xs"
    and v: "service_wf v" "service_active v = service_active (V ! j)" "service_owner v = service_owner (V ! j)"
      "service_owner_pid v = service_owner_pid (V ! j)" "pend v = xs"
    and q: "message_queue_wf q" "queue_count q = 0"
  shows "refs_ok H (C[i := close_side (C ! i) SIDE_SERVER q]) (V[j := v])"
proof -
  note d = refs_okD [OF ok]
  have i: "i < 64" "server_open (C ! i)" "\<not> server_accepted (C ! i)" "i \<notin> set xs" "distinct xs"
    using d(11) [OF j] first by (simp_all add: pending_ok_def)
  define c where "c = close_side (C ! i) SIDE_SERVER q"
  have one: "(1 :: u8) = 0 \<or> (1 :: u8) = 1" by simp
  note s = close_side_spec [OF d(3) [OF i(1)] one q, folded c_def]
  have act: "client_open c \<or> server_open c \<Longrightarrow> connection_active c" using s(1) by (simp add: conn_wf_def)
  have nopend: "i \<notin> set (pend (V ! n))" if "n < 16" "n \<noteq> j" for n
    using d(12) [OF that(1) j that(2)] first by auto
  have V: "V[j := v] ! n = (if n = j then v else V ! n)" if "n < 16" for n using that d(2) by (simp add: nth_list_update)
  have C: "C[i := c] ! n = (if n = i then c else C ! n)" if "n < 64" for n using that d(1) by (simp add: nth_list_update)
  show ?thesis unfolding c_def [symmetric]
  proof (rule refs_okI)
    show "target_ok (C[i := c]) (V[j := v]) (fst a) x" if h: "H a = Some x" for a x
    proof -
      have "target_ok (C[i := c]) V (fst a) x"
      proof (rule target_ok_conn [OF d(5) [OF h]])
        fix n
        show "client_open (C[i := c] ! n) \<and> client_owner (C[i := c] ! n) = client_owner (C ! n)"
          if "n < 64" "client_open (C ! n)" using that s act C [of n] by (cases "n = i") auto
        show "server_open (C[i := c] ! n) \<and> server_accepted (C[i := c] ! n) \<and> server_owner (C[i := c] ! n) = server_owner (C ! n)"
          if "n < 64" "server_open (C ! n)" "server_accepted (C ! n)" using that i C [of n] by (cases "n = i") auto
      qed
      then show ?thesis using v V by (elim target_ok_keep) auto
    qed
    show "\<exists>k. H (service_owner (V[j := v] ! n), k) = Some (HANDLE_LISTENER, n, 0)"
      if "n < 16" "service_active (V[j := v] ! n)" for n
      using that v V [of n] d(7) [of n] by (cases "n = j") simp_all
    show "\<exists>k. H (client_owner (C[i := c] ! n), k) = Some (HANDLE_ENDPOINT, n, SIDE_CLIENT)"
      if "n < 64" "client_open (C[i := c] ! n)" for n
      using that C [of n] s act d(8) [of n] by (cases "n = i") auto
    show "\<exists>k. H (server_owner (C[i := c] ! n), k) = Some (HANDLE_ENDPOINT, n, SIDE_SERVER)"
      if "n < 64" "server_open (C[i := c] ! n)" "server_accepted (C[i := c] ! n)" for n
      using that C [of n] s act d(9) [of n] by (cases "n = i") auto
    show "\<exists>m<16. n \<in> set (pend (V[j := v] ! m))" if n: "n < 64" "server_open (C[i := c] ! n)" "\<not> server_accepted (C[i := c] ! n)" for n
    proof -
      have ni: "n \<noteq> i" using n s(3) C [of n] by auto
      then obtain m where m: "m < 16" "n \<in> set (pend (V ! m))" using d(10) [of n] n C [of n] by auto
      then show ?thesis using V [OF m(1)] v(5) first ni by (intro exI [of _ m]) auto
    qed
    show "pending_ok (C[i := c]) (V[j := v] ! n)" if n: "n < 16" for n
    proof (cases "n = j")
      case True
      have "\<forall>m \<in> set xs. m \<noteq> i \<and> m < 64" using i d(11) [OF j] first by (auto simp: pending_ok_def)
      then show ?thesis using True d(11) [OF j] V [OF n] v C first by (auto simp: pending_ok_def)
    next
      case False
      then have "\<forall>m \<in> set (pend (V ! n)). m \<noteq> i \<and> m < 64" using nopend [OF n False] d(11) [OF n] by (auto simp: pending_ok_def)
      then show ?thesis using False d(11) [OF n] V [OF n] C by (auto simp: pending_ok_def)
    qed
    show "set (pend (V[j := v] ! m)) \<inter> set (pend (V[j := v] ! n)) = {}" if "m < 16" "n < 16" "m \<noteq> n" for m n
      using that d(12) [OF that] V v(5) first by auto
  qed (use d v(1) s(1) refs_ok_members [OF ok] in \<open>auto dest!: update_member\<close>)
qed

text \<open>A service with no waiting connection goes away with its listener.\<close>

lemma refs_unregister:
  assumes ok: "refs_ok H C V" and a: "H a = Some (HANDLE_LISTENER, j, e)" and none: "pend (V ! j) = []"
    and v: "service_wf v" "\<not> service_active v"
  shows "refs_ok (H(a := None)) C (V[j := v])"
proof -
  note d = refs_okD [OF ok]
  have j: "j < 16" "e = 0" using d(5) [OF a] by (auto simp: target_ok_def)
  have V: "V[j := v] ! n = (if n = j then v else V ! n)" if "n < 16" for n using that d(2) by (simp add: nth_list_update)
  have pv: "pend v = []" by (rule pend_idle [OF v])
  have kept: "\<exists>k. (H(a := None)) (p, k) = Some x" if "\<exists>k. H (p, k) = Some x" "x \<noteq> (HANDLE_LISTENER, j, e)" for p x
    using that a by (metis fun_upd_other option.inject)
  show ?thesis
  proof (rule refs_okI)
    show "target_ok C (V[j := v]) (fst b) x" if h: "(H(a := None)) b = Some x" for b x
    proof -
      have b: "H b = Some x" "b \<noteq> a" using h by (auto split: if_splits)
      then have "x \<noteq> (HANDLE_LISTENER, j, e)" using d(6) a by blast
      then show ?thesis using d(5) [OF b(1)] V j by (cases x) (auto simp: target_ok_def)
    qed
    show "b = b'" if "(H(a := None)) b = Some x" "(H(a := None)) b' = Some x" for b b' x
      using that d(6) [of b x b'] by (auto split: if_splits)
    show "\<exists>k. (H(a := None)) (service_owner (V[j := v] ! n), k) = Some (HANDLE_LISTENER, n, 0)"
      if "n < 16" "service_active (V[j := v] ! n)" for n
      using that V [of n] v(2) kept [OF d(7) [of n]] by (cases "n = j") auto
    show "\<exists>k. (H(a := None)) (client_owner (C ! n), k) = Some (HANDLE_ENDPOINT, n, SIDE_CLIENT)"
      if "n < 64" "client_open (C ! n)" for n using kept [OF d(8) [OF that]] by simp
    show "\<exists>k. (H(a := None)) (server_owner (C ! n), k) = Some (HANDLE_ENDPOINT, n, SIDE_SERVER)"
      if "n < 64" "server_open (C ! n)" "server_accepted (C ! n)" for n using kept [OF d(9) [OF that]] by simp
    show "\<exists>m<16. n \<in> set (pend (V[j := v] ! m))" if n: "n < 64" "server_open (C ! n)" "\<not> server_accepted (C ! n)" for n
    proof -
      obtain m where m: "m < 16" "n \<in> set (pend (V ! m))" using d(10) [OF n] by auto
      then have "m \<noteq> j" using none by auto
      then show ?thesis using m V [OF m(1)] by (intro exI [of _ m]) simp
    qed
    show "pending_ok C (V[j := v] ! n)" if n: "n < 16" for n
      using d(11) [OF n] V [OF n] pv by (cases "n = j") (simp_all add: pending_ok_def)
    show "set (pend (V[j := v] ! m)) \<inter> set (pend (V[j := v] ! n)) = {}" if "m < 16" "n < 16" "m \<noteq> n" for m n
      using that d(12) [OF that] V pv by auto
  qed (use d v(1) refs_ok_members [OF ok] in \<open>auto dest!: update_member\<close>)
qed

text \<open>Moving messages changes only queues.\<close>

lemma refs_queues:
  assumes ok: "refs_ok H C V" and i: "i < 64" and c: "conn_wf c" "client_open c = client_open (C ! i)"
    "server_open c = server_open (C ! i)" "server_accepted c = server_accepted (C ! i)"
    "client_owner c = client_owner (C ! i)" "server_owner c = server_owner (C ! i)" "server_pid c = server_pid (C ! i)"
  shows "refs_ok H (C[i := c]) V"
proof -
  note d = refs_okD [OF ok]
  have C: "client_open (C[i := c] ! n) = client_open (C ! n)" "server_open (C[i := c] ! n) = server_open (C ! n)"
    "server_accepted (C[i := c] ! n) = server_accepted (C ! n)" "client_owner (C[i := c] ! n) = client_owner (C ! n)"
    "server_owner (C[i := c] ! n) = server_owner (C ! n)" "server_pid (C[i := c] ! n) = server_pid (C ! n)" for n
    using c i d(1) by (cases "n = i"; simp)+
  have "target_ok (C[i := c]) V p x = target_ok C V p x" for p x by (simp add: target_ok_def C)
  moreover have "pending_ok (C[i := c]) v = pending_ok C v" for v by (simp add: pending_ok_def C)
  ultimately show ?thesis
    using d refs_ok_members [OF ok] c(1) by (intro refs_okI) (auto simp: C dest!: update_member)
qed

section \<open>Pending connections\<close>

lemma pending_push_spec:
  assumes wf: "service_wf v" and act: "service_active v" and room: "pending_count v < 16"
  shows "\<exists>v'. pending_push i v = Some v' \<and> pend v' = pend v @ [unat i] \<and> service_wf v' \<and>
    service_active v' = service_active v \<and> service_owner v' = service_owner v \<and> service_owner_pid v' = service_owner_pid v"
proof -
  have r: "length (service_pending v) = 16" "unat (pending_head v) < 16" "unat (pending_count v) < 16"
    using wf room by (simp_all add: service_wf_def word_less_nat_alt)
  have c: "unat (pending_count v + 1) = Suc (unat (pending_count v))" using r(3) by (simp add: unat_add_exact)
  show ?thesis
    using ring_items_push [of "unat (pending_head v)" "service_pending v" "unat (pending_count v)" i] r c wf act room
    by (simp add: pending_push_def pend_def service_wf_def not_le Let_def)
qed

lemma pend_empty: "pend v = [] \<longleftrightarrow> pending_count v = 0"
  by (metis pend_def length_map length_ring_items length_0_conv unat_eq_zero)

lemma pending_pop_spec:
  assumes wf: "service_wf v" and first: "pend v = x # xs"
  shows "\<exists>c v'. pending_peek v = Some c \<and> pending_pop v = Some (c, v') \<and> unat c = x \<and> pend v' = xs \<and> service_wf v' \<and>
    service_active v' = service_active v \<and> service_owner v' = service_owner v \<and>
    service_owner_pid v' = service_owner_pid v \<and> unat (pending_count v) = Suc (unat (pending_count v'))"
proof -
  let ?h = "unat (pending_head v)"
  define n where "n = unat (pending_count v) - 1"
  have l: "length (pend v) = unat (pending_count v)" by (simp add: pend_def)
  then have c: "unat (pending_count v) = Suc n" using first by (simp add: n_def)
  then have c0: "pending_count v \<noteq> 0" by auto
  then have d: "unat (pending_count v - 1) = n" using c by (simp add: unat_minus_one)
  have r: "length (service_pending v) = 16" "?h < 16" "n < 16" using wf c by (simp_all add: service_wf_def)
  have i: "unat ((pending_head v + 1) mod 16) = Suc ?h mod 16" using ring_advance [of "pending_head v" 16] r(2) by simp
  have act: "service_active v" using wf c0 by (auto simp: service_wf_def)
  have split: "pend v = unat (service_pending v ! ?h) # map unat (ring_items (service_pending v) (Suc ?h mod 16) n)"
    using ring_items_pop [of ?h "service_pending v" n] r by (simp add: pend_def c)
  have away: "?h \<noteq> (Suc ?h mod 16 + j) mod 16" if "j < 15" for j
    using ring_slot_inj [OF r(2), of 0 "Suc j"] that r(2) by (auto simp: mod_simps)
  have same: "ring_items ((service_pending v)[?h := y]) (Suc ?h mod 16) n = ring_items (service_pending v) (Suc ?h mod 16) n" for y
    using away r c wf unfolding ring_items_def by (intro map_cong refl) (auto simp: service_wf_def)
  show ?thesis using c0 c d i r same split first wf act
    by (simp add: pending_pop_def pending_peek_def pend_def service_wf_def)
qed

section \<open>The invariant of the entry points\<close>

definition ipc_inv :: "'m ipc_state \<Rightarrow> bool" where
  "ipc_inv s \<longleftrightarrow> ipc_initialized s \<and> tables_wf s \<and> refs_ok (refers s) (connections s) (services s)"

lemma ipc_invD: "ipc_inv s \<Longrightarrow> ipc_initialized s" "ipc_inv s \<Longrightarrow> tables_wf s"
  "ipc_inv s \<Longrightarrow> refs_ok (refers s) (connections s) (services s)"
  by (simp_all add: ipc_inv_def)

lemma ipc_inv_same:
  "ipc_inv s \<Longrightarrow> tables_wf t \<Longrightarrow> same_objects s t \<Longrightarrow> refers t = refers s \<Longrightarrow> ipc_inv t"
  by (simp add: ipc_inv_def same_objects_def)

lemma ipc_inv_machine [simp]: "ipc_inv (s\<lparr>ipc_machine := m\<rparr>) = ipc_inv s"
  by (simp add: ipc_inv_def)

lemma clear_service_wf: "service_wf v \<Longrightarrow> service_wf (clear_service v) \<and> \<not> service_active (clear_service v)"
  by (simp add: service_wf_def clear_service_def)

lemma find_index_from_spec:
  "case find_index_from P i xs of
     None \<Rightarrow> \<forall>x \<in> set xs. \<not> P x
   | Some j \<Rightarrow> i \<le> j \<and> j < i + length xs \<and> P (xs ! (j - i))"
proof (induction xs arbitrary: i)
  case Nil
  then show ?case by simp
next
  case (Cons x xs)
  show ?case using Cons.IH [of "Suc i"] by (auto split: option.splits simp: nth_Cons')
qed

lemma find_index_Some: "find_index_from P 0 xs = Some j \<Longrightarrow> j < length xs \<and> P (xs ! j)"
  using find_index_from_spec [where P = P and i = 0 and xs = xs] by simp

lemma close_pending_spec:
  assumes "refs_ok H (connections s) (services s)" "j < 16" "n = unat (pending_count (services s ! j))"
  shows "let t = close_pending env n j s in
    refs_ok H (connections t) (services t) \<and> pend (services t ! j) = [] \<and> process_states t = process_states s \<and>
    ipc_initialized t = ipc_initialized s"
  using assms
proof (induction n arbitrary: s)
  case 0
  then have "pending_count (services s ! j) = 0" by (metis unat_eq_zero)
  then show ?case using 0 by (simp add: pend_empty)
next
  case (Suc n)
  note d = refs_okD [OF Suc.prems(1)]
  have swf: "service_wf (services s ! j)" using d(4) Suc.prems(2) by simp
  have "pend (services s ! j) \<noteq> []" using Suc.prems(3) by (auto simp: pend_empty)
  then obtain x xs where first: "pend (services s ! j) = x # xs" by (cases "pend (services s ! j)") auto
  obtain c v where v: "pending_pop (services s ! j) = Some (c, v)" "unat c = x" "pend v = xs" "service_wf v"
    "service_active v = service_active (services s ! j)" "service_owner v = service_owner (services s ! j)"
    "service_owner_pid v = service_owner_pid (services s ! j)" "n = unat (pending_count v)"
    using pending_pop_spec [OF swf first] Suc.prems(3) by auto
  have x: "x < 64" "server_open (connections s ! x)" "\<not> server_accepted (connections s ! x)"
    using d(11) [OF Suc.prems(2)] first by (simp_all add: pending_ok_def)
  have cw: "conn_wf (connections s ! x)" "connection_active (connections s ! x)"
    using d(3) [OF x(1)] x(2) by (simp_all add: conn_wf_def)
  let ?u = "put_service j v s"
  have cu: "connections ?u = connections s" by (simp add: put_service_def)
  have one: "(1 :: u8) = 0 \<or> (1 :: u8) = 1" by simp
  have live: "connection_active (connections ?u ! x)" "connection_side_open (connections ?u ! x) SIDE_SERVER"
    using cw x by (simp_all add: cu connection_side_open_def)
  obtain q mach where q: "close_connection_side env x SIDE_SERVER ?u =
      put_connection x (close_side (connections ?u ! x) SIDE_SERVER q) (?u\<lparr>ipc_machine := mach\<rparr>)"
    "message_queue_wf q" "queue_count q = 0"
    using close_connection_side_spec [of ?u x 1 env, OF _ one live] cw(1) cu by auto
  define t where "t = put_connection x (close_side (connections s ! x) SIDE_SERVER q) (?u\<lparr>ipc_machine := mach\<rparr>)"
  have step: "close_pending env (Suc n) j s = close_pending env n j t"
    using v(1,2) x cw q(1) by (simp add: Let_def t_def cu)
  have t: "connections t = (connections s)[x := close_side (connections s ! x) SIDE_SERVER q]"
    "services t = (services s)[j := v]" "process_states t = process_states s" "ipc_initialized t = ipc_initialized s"
    by (simp_all add: t_def put_connection_def put_service_def)
  have ok: "refs_ok H (connections t) (services t)"
    unfolding t by (rule refs_drop_pending [OF Suc.prems(1,2) first v(4,5,6,7,3) q(2,3)])
  have "n = unat (pending_count (services t ! j))" using t(2) v(8) d(2) Suc.prems(2) by simp
  from Suc.IH [OF ok Suc.prems(2) this] show ?case unfolding step Let_def t(3,4) .
qed

lemma unregister_service_spec:
  assumes inv: "ipc_inv s" and a: "refers s a = Some (HANDLE_LISTENER, j, e)"
  shows "let t = unregister_service env j s in
    refs_ok ((refers s)(a := None)) (connections t) (services t) \<and> process_states t = process_states s \<and>
    ipc_initialized t"
proof -
  note ok = ipc_invD(3) [OF inv]
  note d = refs_okD [OF ok]
  have j: "j < 16" "service_active (services s ! j)" using d(5) [OF a] by (auto simp: target_ok_def)
  define t where "t = close_pending env (unat (pending_count (services s ! j))) j s"
  have t: "refs_ok (refers s) (connections t) (services t)" "pend (services t ! j) = []"
    "process_states t = process_states s" "ipc_initialized t = ipc_initialized s"
    using close_pending_spec [OF ok j(1) refl] by (simp_all add: t_def Let_def)
  have swf: "service_wf (services t ! j)" using refs_okD(4) [OF t(1)] j(1) by simp
  have "refs_ok ((refers s)(a := None)) (connections t) ((services t)[j := clear_service (services t ! j)])"
    using clear_service_wf [OF swf] by (intro refs_unregister [OF t(1) a t(2)]) simp_all
  then show ?thesis using j t ipc_invD(1) [OF inv]
    by (simp add: unregister_service_def t_def [symmetric] put_service_def Let_def)
qed

lemma invalidate_inv:
  assumes "tables_wf s" "ipc_initialized s" "i < length (process_states s)" "k < 32"
    "state_owner (process_states s ! i) = p" "refs_ok ((refers s)((p, k) := None)) (connections s) (services s)"
  shows "ipc_inv (invalidate_handle_entry i k s)"
  using invalidate_spec [OF assms(1,3,4,5)] assms(2,6) by (simp add: ipc_inv_def same_objects_def)

lemma refers_cong: "process_states t = process_states s \<Longrightarrow> refers t = refers s \<and> tables_wf t = tables_wf s"
  by (simp add: refers_def states_map_def tables_wf_def fun_eq_iff)

text \<open>Closing the object of a live entry and taking the entry away, in \<open>close\<close> and \<open>cleanup\<close>.\<close>

lemma close_object_inv:
  assumes inv: "ipc_inv s" and i: "i < length (process_states s)" "state_owner (process_states s ! i) = p" and k: "k < 32"
    and e: "e = state_handles (process_states s ! i) ! k" "entry_active e"
  shows "entry_type e = HANDLE_LISTENER \<Longrightarrow> unat (entry_object e) < 16 \<and>
      ipc_inv (invalidate_handle_entry i k (unregister_service env (unat (entry_object e)) s))"
    and "entry_type e \<noteq> HANDLE_LISTENER \<Longrightarrow> entry_type e = HANDLE_ENDPOINT \<and> unat (entry_object e) < 64 \<and>
      entry_side e \<le> SIDE_SERVER \<and>
      ipc_inv (invalidate_handle_entry i k (close_connection_side env (unat (entry_object e)) (entry_side e) s))"
proof -
  note tw = ipc_invD(2) [OF inv] and ok = ipc_invD(3) [OF inv]
  have a: "refers s (p, k) = Some (entry_type e, unat (entry_object e), entry_side e)"
    using refers_at [OF tw i] k e by (simp add: Let_def)
  have tgt: "target_ok (connections s) (services s) p (entry_type e, unat (entry_object e), entry_side e)"
    using refs_okD(5) [OF ok a] by simp
  show "unat (entry_object e) < 16 \<and> ipc_inv (invalidate_handle_entry i k (unregister_service env (unat (entry_object e)) s))"
    if l: "entry_type e = HANDLE_LISTENER"
  proof -
    define t where "t = unregister_service env (unat (entry_object e)) s"
    have t: "refs_ok ((refers s)((p, k) := None)) (connections t) (services t)" "process_states t = process_states s"
      "ipc_initialized t"
      using unregister_service_spec [OF inv a [unfolded l], of env] by (simp_all add: t_def Let_def)
    have "ipc_inv (invalidate_handle_entry i k t)"
      using t tw i k refers_cong [OF t(2)] by (intro invalidate_inv [where p = p]) simp_all
    then show ?thesis using tgt l by (simp add: t_def target_ok_def)
  qed
  show "entry_type e = HANDLE_ENDPOINT \<and> unat (entry_object e) < 64 \<and> entry_side e \<le> SIDE_SERVER \<and>
      ipc_inv (invalidate_handle_entry i k (close_connection_side env (unat (entry_object e)) (entry_side e) s))"
    if l: "entry_type e \<noteq> HANDLE_LISTENER"
  proof -
    let ?c = "connections s ! unat (entry_object e)"
    have c: "entry_type e = HANDLE_ENDPOINT" "unat (entry_object e) < 64" "entry_side e = 0 \<or> entry_side e = 1"
      "connection_side_open ?c (entry_side e)"
      using tgt l by (auto simp: target_ok_def connection_side_open_def)
    have cw: "conn_wf ?c" by (rule refs_okD(3) [OF ok c(2)])
    then have act: "connection_active ?c" using c(3,4) by (auto simp: conn_wf_def connection_side_open_def split: if_splits)
    obtain q mach where q: "close_connection_side env (unat (entry_object e)) (entry_side e) s =
      put_connection (unat (entry_object e)) (close_side ?c (entry_side e) q) (s\<lparr>ipc_machine := mach\<rparr>)"
      "message_queue_wf q" "queue_count q = 0"
      using close_connection_side_spec [OF cw c(3) act c(4), of env] by auto
    define t where "t = put_connection (unat (entry_object e)) (close_side ?c (entry_side e) q) (s\<lparr>ipc_machine := mach\<rparr>)"
    have t: "process_states t = process_states s" "ipc_initialized t" "services t = services s"
      "connections t = (connections s)[unat (entry_object e) := close_side ?c (entry_side e) q]"
      using ipc_invD(1) [OF inv] by (simp_all add: t_def put_connection_def)
    have "refs_ok ((refers s)((p, k) := None)) (connections t) (services t)"
      unfolding t by (rule refs_close_endpoint [OF ok a [unfolded c(1)] q(2,3)])
    then have "ipc_inv (invalidate_handle_entry i k t)"
      using t tw i k refers_cong [OF t(1)] by (intro invalidate_inv [where p = p]) simp_all
    then show ?thesis using c q(1) by (auto simp: t_def)
  qed
qed

end
