(* ===== verification/IpcClose.thy ===== *)
theory IpcClose
  imports IpcSteps
begin

text \<open>
  Closing handles and the clean-up at process exit in kernel/core/ipc.c: both keep the
  invariant, and after the clean-up the process has no handle left.
\<close>

section \<open>Closing and process exit\<close>

lemma state_for_process_inv:
  assumes "ipc_inv s" "state_for_process env process create s = (io, t)"
  shows "ipc_inv t \<and> same_objects s t \<and> refers t = refers s \<and>
    (\<forall>i. io = Some i \<longrightarrow> i < length (process_states t) \<and> state_owner (process_states t ! i) = process)"
  using state_for_process_spec [OF ipc_invD(2) [OF assms(1)] assms(2)] ipc_inv_same [OF assms(1)] by blast

lemma lookup_handle_inv:
  assumes "ipc_inv s" "lookup_handle env process h type s = (res, t)"
  shows "ipc_inv t \<and> same_objects s t \<and> refers t = refers s \<and> ipc_machine t = ipc_machine s \<and>
    (\<forall>i k e. res = Some (i, k, e) \<longrightarrow> i < length (process_states t) \<and> state_owner (process_states t ! i) = process \<and>
      k < 32 \<and> e = state_handles (process_states t ! i) ! k \<and>
      refers s (process, k) = Some (type, unat (entry_object e), entry_side e) \<and>
      target_ok (connections s) (services s) process (type, unat (entry_object e), entry_side e))"
  using lookup_handle_spec [OF ipc_invD(2) [OF assms(1)] assms(2)] ipc_inv_same [OF assms(1)]
    refs_okD(5) [OF ipc_invD(3) [OF assms(1)], of "(process, _)"] by fastforce

lemma unregister_states [simp]: "ipc_inv s \<Longrightarrow> refers s a = Some (HANDLE_LISTENER, j, e) \<Longrightarrow>
    process_states (unregister_service env j s) = process_states s"
  using unregister_service_spec [of s a j e env] by (simp add: Let_def)

lemma close_connection_states [simp]: "process_states (close_connection_side env i side s) = process_states s"
  by (simp add: close_connection_side_def put_connection_def Let_def split: prod.splits)

lemma invalidated_refers:
  assumes "tables_wf u" "process_states w = process_states u" "i < length (process_states u)" "k < 32"
    "state_owner (process_states u ! i) = p"
  shows "refers (invalidate_handle_entry i k w) = (refers u)((p, k) := None)"
  using invalidate_spec [of w i k p] refers_cong [OF assms(2)] assms by simp

lemma close_inv:
  assumes inv: "ipc_inv s" and r: "boring_ipc_close env process h s = (res, t)"
  shows "ipc_inv t \<and> res \<in> {IPC_OK, IPC_INVALID} \<and>
    (res = IPC_OK \<longrightarrow> (\<exists>k g. decode_handle h = Some (k, g) \<and> refers t = (refers s)((process, k) := None)))"
proof (cases "\<not> process_identity_valid env process s \<or> decode_handle h = None")
  case True
  then show ?thesis using inv r ipc_invD(1) [OF inv] by (auto simp: boring_ipc_close_def split: if_splits)
next
  case False
  then obtain k g where kg: "decode_handle h = Some (k, g)" and valid: "process_identity_valid env process s" by auto
  have k: "k < 32" using decode_handle_slot [OF kg] by simp
  obtain io u where u: "state_for_process env process False s = (io, u)" by force
  note sp = state_for_process_inv [OF inv u]
  show ?thesis
  proof (cases io)
    case None
    then show ?thesis using valid kg u r sp ipc_invD(1) [OF inv] by (auto simp: boring_ipc_close_def)
  next
    case (Some i)
    define e where "e = state_handles (process_states u ! i) ! k"
    have i: "i < length (process_states u)" "state_owner (process_states u ! i) = process" using sp Some by auto
    show ?thesis
    proof (cases "entry_active e \<and> entry_generation e = g")
      case False
      then show ?thesis using valid kg u r sp Some ipc_invD(1) [OF inv] by (auto simp: boring_ipc_close_def e_def Let_def)
    next
      case True
      have c: "entry_type e = HANDLE_LISTENER \<Longrightarrow> unat (entry_object e) < 16 \<and>
          ipc_inv (invalidate_handle_entry i k (unregister_service env (unat (entry_object e)) u))"
        "entry_type e \<noteq> HANDLE_LISTENER \<Longrightarrow> entry_type e = HANDLE_ENDPOINT \<and> unat (entry_object e) < 64 \<and>
          entry_side e \<le> SIDE_SERVER \<and>
          ipc_inv (invalidate_handle_entry i k (close_connection_side env (unat (entry_object e)) (entry_side e) u))"
        using close_object_inv [OF _ i k e_def, of env] sp True by blast+
      have iu: "ipc_inv u" "refers u = refers s" using sp by simp_all
      have a: "refers u (process, k) = Some (entry_type e, unat (entry_object e), entry_side e)"
        using refers_at [OF ipc_invD(2) [OF iu(1)] i, of k] True k by (simp add: Let_def e_def)
      note inv_refers = invalidated_refers [OF ipc_invD(2) [OF iu(1)] _ i(1) k i(2)]
      have run: "boring_ipc_close env process h s =
          (if entry_type e = HANDLE_LISTENER then
             if unat (entry_object e) \<ge> 16 then (IPC_INTERNAL, u)
             else (IPC_OK, invalidate_handle_entry i k (unregister_service env (unat (entry_object e)) u))
           else if entry_type e = HANDLE_ENDPOINT then
             if unat (entry_object e) \<ge> 64 \<or> entry_side e > SIDE_SERVER then (IPC_INTERNAL, u)
             else (IPC_OK, invalidate_handle_entry i k
               (close_connection_side env (unat (entry_object e)) (entry_side e) u))
           else (IPC_INVALID, u))"
        using valid kg u Some True ipc_invD(1) [OF inv] by (simp add: boring_ipc_close_def e_def Let_def)
      show ?thesis
      proof (cases "entry_type e = HANDLE_LISTENER")
        case True
        then have "process_states (unregister_service env (unat (entry_object e)) u) = process_states u"
          using unregister_states [OF iu(1), of "(process, k)"] a by simp
        from inv_refers [OF this] show ?thesis using True c(1) run r kg iu(2) by auto
      next
        case False
        from inv_refers [OF close_connection_states] show ?thesis using False c(2) run r kg iu(2) by (auto simp: leD)
      qed
    qed
  qed
qed

text \<open>The loop of \<open>cleanup\<close> empties the table of the process and touches no other table.\<close>

lemma cleanup_entry_spec:
  fixes env :: "'m ipc_env" and s :: "'m ipc_state"
  assumes inv: "ipc_inv s" and i: "i < length (process_states s)" "state_owner (process_states s ! i) = p" and k: "k < 32"
  defines "t \<equiv> cleanup_entry env i k s"
  shows "ipc_inv t \<and> i < length (process_states t) \<and> state_owner (process_states t ! i) = p \<and>
    refers t = (refers s)((p, k) := None)"
proof -
  define e where "e = state_handles (process_states s ! i) ! k"
  note tw = ipc_invD(2) [OF inv]
  have a: "refers s (p, k) = (if entry_active e then Some (entry_type e, unat (entry_object e), entry_side e) else None)"
    using refers_at [OF tw i] k by (simp add: Let_def e_def)
  show ?thesis
  proof (cases "entry_active e")
    case False
    then have "t = s" by (simp add: t_def cleanup_entry_def e_def [symmetric])
    then show ?thesis using inv i a False by (simp add: fun_upd_idem)
  next
    case True
    note c = close_object_inv [OF inv i k e_def True, of env]
    define u where "u = (if entry_type e = HANDLE_LISTENER then unregister_service env (unat (entry_object e)) s
      else close_connection_side env (unat (entry_object e)) (entry_side e) s)"
    have t: "t = invalidate_handle_entry i k u"
      using True c by (auto simp: t_def cleanup_entry_def e_def [symmetric] u_def Let_def)
    have "ipc_inv t" using c by (simp add: t u_def)
    moreover have u: "process_states u = process_states s"
      using unregister_states [OF inv, of "(p, k)" "unat (entry_object e)" "entry_side e" env] a True
      by (cases "entry_type e = HANDLE_LISTENER") (simp_all add: u_def)
    moreover have "tables_wf u" "refers u = refers s" using refers_cong [OF u] tw by simp_all
    ultimately show ?thesis using invalidate_spec [of u i k p] i k by (simp add: t)
  qed
qed

lemma cleanup_loop:
  fixes env :: "'m ipc_env" and s :: "'m ipc_state"
  assumes "ipc_inv s" "i < length (process_states s)" "state_owner (process_states s ! i) = p" "n \<le> 32"
  defines "t \<equiv> fold (cleanup_entry env i) [0..<n] s"
  shows "ipc_inv t \<and> i < length (process_states t) \<and> state_owner (process_states t ! i) = p \<and>
    (\<forall>k<n. refers t (p, k) = None) \<and> (\<forall>q k. q \<noteq> p \<longrightarrow> refers t (q, k) = refers s (q, k))"
  using assms(4) unfolding t_def
proof (induction n)
  case 0
  then show ?case using assms(1-3) by simp
next
  case (Suc n)
  define u where "u = fold (cleanup_entry env i) [0..<n] s"
  have u: "ipc_inv u" "i < length (process_states u)" "state_owner (process_states u ! i) = p"
    "\<forall>k<n. refers u (p, k) = None" "\<forall>q k. q \<noteq> p \<longrightarrow> refers u (q, k) = refers s (q, k)"
    using Suc by (simp_all add: u_def)
  have step: "fold (cleanup_entry env i) [0..<Suc n] s = cleanup_entry env i n u" by (simp add: u_def)
  show ?case unfolding step
    using cleanup_entry_spec [OF u(1-3), of n env] u(4,5) Suc.prems by (auto simp: less_Suc_eq)
qed

lemma find_state_append:
  "find_state q n (xs @ ys) = (case find_state q n xs of None \<Rightarrow> find_state q (n + length xs) ys | Some j \<Rightarrow> Some j)"
  by (induction xs arbitrary: n) (auto split: option.split)

lemma find_state_shift: "find_state q (n + m) ys = map_option (\<lambda>j. j + m) (find_state q n ys)"
proof (induction ys arbitrary: n)
  case Nil
  then show ?case by simp
next
  case (Cons y ys)
  show ?case using Cons.IH [of "Suc n"] by simp
qed

lemma states_map_at_node:
  assumes "process_states s = xs @ st # ys" "state_owner st \<noteq> q"
  shows "states_map s q = states_map (s\<lparr>process_states := xs @ ys\<rparr>) q"
proof (cases "find_state q 0 xs")
  case (Some j)
  then have "j < length xs" using find_state_Some by blast
  then show ?thesis using Some assms by (simp add: states_map_def find_state_append nth_append)
next
  case None
  have a: "find_state q (length xs) ys = map_option (\<lambda>j. j + length xs) (find_state q 0 ys)"
    using find_state_shift [of q 0 "length xs" ys] by simp
  have b: "find_state q (Suc (length xs)) ys = map_option (\<lambda>j. j + Suc (length xs)) (find_state q 0 ys)"
    using find_state_shift [of q 0 "Suc (length xs)" ys] by simp
  show ?thesis
    using None assms by (cases "find_state q 0 ys") (simp_all add: states_map_def find_state_append nth_append a b)
qed

lemma process_state_remove_spec:
  assumes inv: "ipc_inv s" and i: "i < length (process_states s)" "state_owner (process_states s ! i) = p"
    and idle: "\<forall>k<32. refers s (p, k) = None"
  shows "ipc_inv (process_state_remove i s) \<and> refers (process_state_remove i s) = refers s"
proof -
  let ?t = "process_state_remove i s"
  define xs where "xs = take i (process_states s)"
  define ys where "ys = drop (Suc i) (process_states s)"
  define st where "st = process_states s ! i"
  have ps: "process_states s = xs @ st # ys"
    unfolding xs_def ys_def st_def using i(1) by (rule id_take_nth_drop)
  have t: "?t = s\<lparr>process_states := xs @ ys\<rparr>" by (simp add: process_state_remove_def xs_def ys_def)
  have owner: "state_owner st = p" using i(2) by (simp add: st_def)
  have wf: "tables_wf ?t" using ipc_invD(2) [OF inv] by (simp add: t tables_wf_def ps)
  have fresh: "p \<notin> state_owner ` set (xs @ ys)" using ipc_invD(2) [OF inv] owner by (auto simp: tables_wf_def ps)
  have none: "states_map ?t p = None"
  proof (cases "find_state p 0 (xs @ ys)")
    case (Some j)
    then have "state_owner ((xs @ ys) ! j) = p" "j < length (xs @ ys)" using find_state_Some by blast+
    then show ?thesis using fresh nth_mem by (metis image_eqI)
  qed (simp add: states_map_def t)
  have "refers ?t (q, k) = refers s (q, k)" for q k
  proof (cases "q = p")
    case True
    then have "refers s (q, k) = None" using idle by (cases "k < 32") (auto simp: refers_def split: option.splits)
    then show ?thesis using True none by (simp add: refers_def)
  next
    case False
    then show ?thesis using states_map_at_node [OF ps, of q] owner by (simp add: refers_def t)
  qed
  then have "refers ?t = refers s" by (simp add: fun_eq_iff)
  then show ?thesis using wf ipc_inv_same [OF inv wf] by (simp add: same_objects_def process_state_remove_def)
qed

lemma no_table_refers: "find_state p 0 (process_states s) = None \<Longrightarrow> refers s (p, k) = None"
  by (simp add: refers_def states_map_def)

text \<open>The table of a process, if it has one, is under its current identity.\<close>

definition identity_current :: "'m ipc_env \<Rightarrow> u64 \<Rightarrow> 'm ipc_state \<Rightarrow> bool" where
  "identity_current env p s \<longleftrightarrow> process_identity_valid env p s \<and>
     (\<forall>i. find_state p 0 (process_states s) = Some i \<longrightarrow>
        state_owner_pid (process_states s ! i) = env_pid env p (ipc_machine s))"

lemma cleanup_inv:
  fixes env :: "'m ipc_env" and p :: u64
  assumes inv: "ipc_inv s"
  defines "t \<equiv> boring_ipc_process_cleanup env p s"
  shows "ipc_inv t" and "q \<noteq> p \<Longrightarrow> refers t (q, k) = refers s (q, k)"
    and "identity_current env p s \<Longrightarrow> refers t (p, k) = None"
proof -
  have "ipc_inv t \<and> (q \<noteq> p \<longrightarrow> refers t (q, k) = refers s (q, k)) \<and>
      (identity_current env p s \<longrightarrow> refers t (p, k) = None)"
  proof (cases "p = 0")
    case True
    then show ?thesis using inv by (simp add: t_def boring_ipc_process_cleanup_def identity_current_def process_identity_valid_def)
  next
    case False
    obtain io u where u: "state_for_process env p False s = (io, u)" by force
    note sp = state_for_process_inv [OF inv u]
    show ?thesis
    proof (cases io)
      case None
      then have "t = u" using False u ipc_invD(1) [OF inv] by (simp add: t_def boring_ipc_process_cleanup_def)
      moreover have "find_state p 0 (process_states s) = None" if "identity_current env p s"
        using u None that by (auto simp: state_for_process_def identity_current_def Let_def split: option.splits if_splits)
      ultimately show ?thesis using sp no_table_refers [of p s k] by auto
    next
      case (Some i)
      define w where "w = fold (cleanup_entry env i) [0..<32] u"
      have w: "ipc_inv w" "i < length (process_states w)" "state_owner (process_states w ! i) = p"
        "\<forall>k<32. refers w (p, k) = None" "\<forall>q k. q \<noteq> p \<longrightarrow> refers w (q, k) = refers u (q, k)"
        using cleanup_loop [of u i p 32 env] sp Some by (simp_all add: w_def)
      note rm = process_state_remove_spec [OF w(1-4)]
      have "t = (process_state_remove i w)\<lparr>ipc_machine :=
          snd (env_kfree env (state_address (process_states w ! i)) (ipc_machine (process_state_remove i w)))\<rparr>"
        using False u Some ipc_invD(1) [OF inv] by (simp add: t_def boring_ipc_process_cleanup_def w_def Let_def)
      moreover have "refers w (p, k) = None"
        using w(4) by (cases "k < 32") (auto simp: refers_def split: option.splits)
      ultimately show ?thesis using rm w(5) sp by simp
    qed
  qed
  then show "ipc_inv t" "q \<noteq> p \<Longrightarrow> refers t (q, k) = refers s (q, k)"
    "identity_current env p s \<Longrightarrow> refers t (p, k) = None" by blast+
qed

text \<open>A second close of a handle finds no live entry.\<close>

lemma state_for_process_again:
  assumes "state_for_process env p False s = (io, u)"
  shows "state_for_process env p False u = (io, u)"
proof (cases "u = s")
  case False
  then obtain i where i: "find_state p 0 (process_states s) = Some i" "process_identity_valid env p s" "io = Some i"
    "u = s\<lparr>process_states := (process_states s)[i := (process_states s ! i)\<lparr>state_owner_pid := env_pid env p (ipc_machine s)\<rparr>]\<rparr>"
    using assms by (auto simp: state_for_process_def Let_def split: if_splits option.splits)
  note o = find_state_Some [OF i(1)]
  have "map state_owner (process_states u) = map state_owner (process_states s)"
    by (simp add: i(4) map_update list_update_same_conv o)
  then have "find_state p 0 (process_states u) = Some i" using find_state_owners i(1) by metis
  moreover have "process_identity_valid env p u" using i(2) by (simp add: i(4) process_identity_valid_def)
  ultimately show ?thesis using o i(3) by (simp add: state_for_process_def Let_def i(4))
qed (use assms in simp)

lemma close_dead:
  assumes inv: "ipc_inv t" and h: "decode_handle h = Some (k, g)" and dead: "refers t (p, k) = None"
  shows "fst (boring_ipc_close env p h t) = IPC_INVALID"
proof -
  obtain io u where u: "state_for_process env p False t = (io, u)" by force
  note sp = state_for_process_inv [OF inv u]
  show ?thesis
  proof (cases io)
    case None
    then show ?thesis using h u ipc_invD(1) [OF inv] by (simp add: boring_ipc_close_def)
  next
    case (Some i)
    then have i: "i < length (process_states u)" "state_owner (process_states u ! i) = p" using sp by auto
    have "k < 32" using decode_handle_slot [OF h] by simp
    then have "\<not> entry_active (state_handles (process_states u ! i) ! k)"
      using refers_at [OF ipc_invD(2) i, of k] sp dead by (auto simp: Let_def split: if_splits)
    then show ?thesis using h u Some ipc_invD(1) [OF inv] by (simp add: boring_ipc_close_def Let_def)
  qed
qed

lemma close_again:
  assumes "boring_ipc_close env p h s = (res, t)" "res = IPC_INVALID" "ipc_inv s"
  shows "fst (boring_ipc_close env p h t) = IPC_INVALID"
proof -
  obtain io u where u: "state_for_process env p False s = (io, u)" by force
  note again = state_for_process_again [OF u]
  have iu: "ipc_initialized s" "ipc_initialized u"
    using state_for_process_inv [OF assms(3) u] ipc_invD(1) assms(3) by auto
  consider "t = s" | "t = u" "fst (boring_ipc_close env p h u) = IPC_INVALID"
    using assms(1,2) u again iu
    by (auto simp: boring_ipc_close_def Let_def split: if_splits option.splits)
  then show ?thesis using assms(1,2) by cases auto
qed

end
