(* ===== verification/IpcCalls.thy ===== *)
theory IpcCalls
  imports IpcClose
begin

text \<open>
  The calls of kernel/core/ipc.c that make and use connections: each keeps the
  invariant, and none ends in an internal error that is not an error of the code it
  calls.
\<close>

section \<open>Registering and connecting\<close>

text \<open>The messages that wait at a side of a connection, oldest first.\<close>

definition channel :: "'m ipc_state \<Rightarrow> nat \<Rightarrow> u8 \<Rightarrow> ipc_message list" where
  "channel s i side = queue_items (incoming_queue (connections s ! i) side)"

definition same_channels :: "'m ipc_state \<Rightarrow> 'm ipc_state \<Rightarrow> bool" where
  "same_channels s t \<longleftrightarrow> (\<forall>i<64. \<forall>side. channel t i side = channel s i side)"

lemma same_channelsI [intro]: "connections t = connections s \<Longrightarrow> same_channels s t"
  by (simp add: same_channels_def channel_def)

lemma same_objects_channels: "same_objects s t \<Longrightarrow> same_channels s t"
  by (auto simp: same_objects_def)

lemma same_channels_update:
  assumes "connections t = (connections s)[i := c]" "length (connections s) = 64"
    "queue_items (to_client c) = queue_items (to_client (connections s ! i))"
    "queue_items (to_server c) = queue_items (to_server (connections s ! i))"
  shows "same_channels s t"
proof -
  have "queue_items (to_client (connections t ! n)) = queue_items (to_client (connections s ! n)) \<and>
      queue_items (to_server (connections t ! n)) = queue_items (to_server (connections s ! n))" if "n < 64" for n
    using assms that by (cases "n = i") simp_all
  then show ?thesis by (simp add: same_channels_def channel_def incoming_queue_def)
qed

lemma closed_queues_empty: "conn_wf c \<Longrightarrow> \<not> connection_active c \<Longrightarrow> queue_items (to_client c) = [] \<and> queue_items (to_server c) = []"
  by (simp add: conn_wf_def)

lemma find_free_handle_other [simp]:
  "find_free_handle i (put_service j v s) = find_free_handle i s"
  "find_free_handle i (put_connection j c s) = find_free_handle i s"
  by (simp_all add: find_free_handle_def put_service_def put_connection_def)

lemma process_states_other [simp]:
  "process_states (put_service j v s) = process_states s" "process_states (put_connection j c s) = process_states s"
  "services (put_connection j c s) = services s" "connections (put_service j v s) = connections s"
  "services (put_service j v s) = (services s)[j := v]" "connections (put_connection j c s) = (connections s)[j := c]"
  "ipc_initialized (put_service j v s) = ipc_initialized s" "ipc_initialized (put_connection j c s) = ipc_initialized s"
  "ipc_machine (put_service j v s) = ipc_machine s" "ipc_machine (put_connection j c s) = ipc_machine s"
  by (simp_all add: put_service_def put_connection_def)

text \<open>Installing a handle in a state whose objects were changed first.\<close>

lemma install_inv:
  assumes tw: "tables_wf s" and i: "i < length (process_states s)" "state_owner (process_states s ! i) = p"
    and t: "type = HANDLE_LISTENER \<or> type = HANDLE_ENDPOINT" and free: "find_free_handle i s \<noteq> None"
  shows "\<exists>k h g u. install_handle i type ob side s = (Some h, u) \<and> refers s (p, k) = None \<and> k < 32 \<and>
    decode_handle h = Some (k, g) \<and> tables_wf u \<and> ipc_machine u = ipc_machine s \<and> ipc_initialized u = ipc_initialized s \<and>
    connections u = connections s \<and> services u = services s \<and> refers u = (refers s)((p, k) := Some (type, unat ob, side))"
  using install_handle_spec [OF tw i t free, of ob side] by (auto simp: same_objects_def)

lemma name_length: "boring_ipc_service_name_valid name \<Longrightarrow> 0 < length (the name) \<and> length (the name) \<le> 31"
  by (auto simp: boring_ipc_service_name_valid_def split: option.splits if_splits)

lemma unat_index: "i < 64 \<Longrightarrow> unat (word_of_nat i :: u16) = i"
  by (simp add: unat_of_nat take_bit_nat_eq_self)

lemma register_inv:
  assumes inv: "ipc_inv s" and r: "boring_ipc_service_register env process name s = ((res, out), t)"
  shows "ipc_inv t \<and> res \<noteq> IPC_INTERNAL \<and> same_channels s t"
proof (cases "\<not> process_identity_valid env process s \<or> \<not> boring_ipc_service_name_valid name \<or> find_service (the name) s \<noteq> None")
  case True
  then have "t = s \<and> res \<noteq> IPC_INTERNAL" using r ipc_invD(1) [OF inv]
    by (auto simp: boring_ipc_service_register_def Let_def split: if_splits)
  then show ?thesis using inv by auto
next
  case False
  obtain io u where u: "state_for_process env process True s = (io, u)" by force
  note sp = state_for_process_inv [OF inv u]
  show ?thesis
  proof (cases "\<exists>st i. io = Some st \<and> find_free_service u = Some i \<and> find_free_handle st u \<noteq> None")
    case no: False
    then have "t = u \<and> res = IPC_NO_SPACE"
      using False r u ipc_invD(1) [OF inv]
      by (cases io; cases "find_free_service u") (auto simp: boring_ipc_service_register_def Let_def)
    then show ?thesis using sp same_objects_channels by auto
  next
    case True
    then obtain st i where st: "io = Some st" "find_free_service u = Some i" "find_free_handle st u \<noteq> None" by blast
    note d = refs_okD [OF ipc_invD(3) [of u]]
    have iu: "ipc_inv u" using sp by simp
    have i: "i < 16" "\<not> service_active (services u ! i)"
      using find_index_Some [of "\<lambda>v. \<not> service_active v" "services u" i] st(2) d(2) [OF iu] by (simp_all add: find_free_service_def)
    define v where "v = (clear_service (services u ! i))\<lparr>service_owner := process,
      service_owner_pid := env_pid env process (ipc_machine u),
      service_name := (write_cells 0 (\<lambda>k. the name ! k) (length (the name))
        (service_name (clear_service (services u ! i))))[length (the name) := 0], service_active := True\<rparr>"
    note cw = clear_service_wf [OF d(4) [OF iu i(1)]]
    have v: "service_wf v" "service_active v" "service_owner v = process" "pend v = []"
      using cw by (simp_all add: v_def service_wf_def pend_def clear_service_def)
    define w where "w = put_service i v u"
    have w: "tables_wf w" "refers w = refers u" using ipc_invD(2) [OF iu] by (simp_all add: w_def)
    have stp: "st < length (process_states w)" "state_owner (process_states w ! st) = process"
      using sp st(1) by (simp_all add: w_def)
    have freew: "find_free_handle st w \<noteq> None" using st(3) by (simp add: w_def)
    obtain k h g x where x: "install_handle st HANDLE_LISTENER (word_of_nat i) 0 w = (Some h, x)"
      "refers w (process, k) = None" "tables_wf x" "ipc_initialized x = ipc_initialized w"
      "connections x = connections w" "services x = services w"
      "refers x = (refers w)((process, k) := Some (HANDLE_LISTENER, unat (word_of_nat i :: u16), 0))"
      using install_inv [OF w(1) stp _ freew, of HANDLE_LISTENER "word_of_nat i" 0] by auto
    have run: "boring_ipc_service_register env process name s = ((IPC_OK, Some h), x)"
      using False u st x(1) ipc_invD(1) [OF inv]
      by (simp add: boring_ipc_service_register_def Let_def v_def [symmetric] w_def [symmetric])
    have "refs_ok (refers x) (connections x) (services x)"
      using refs_register [OF ipc_invD(3) [OF iu] i v, of k] x w i(1)
      by (simp add: w_def unat_index)
    moreover have "same_channels s x" using x(5) sp by (intro same_channelsI) (simp add: w_def same_objects_def)
    ultimately show ?thesis using run r x ipc_invD(1) [OF iu] by (simp add: ipc_inv_def w_def)
  qed
qed

lemma connect_inv:
  assumes inv: "ipc_inv s" and r: "boring_ipc_service_connect env process name s = ((res, out), t)"
  shows "ipc_inv t \<and> res \<noteq> IPC_INTERNAL \<and> same_channels s t"
proof (cases "\<not> process_identity_valid env process s \<or> \<not> boring_ipc_service_name_valid name \<or> find_service (the name) s = None \<or>
    \<not> service_owner_alive env (services s ! the (find_service (the name) s)) s \<or>
    pending_count (services s ! the (find_service (the name) s)) \<ge> 16")
  case True
  then have "t = s \<and> res \<noteq> IPC_INTERNAL" using r ipc_invD(1) [OF inv]
    by (auto simp: boring_ipc_service_connect_def split: if_splits option.splits)
  then show ?thesis using inv by auto
next
  case no: False
  then obtain j where j: "find_service (the name) s = Some j" by auto
  have pre: "process_identity_valid env process s" "boring_ipc_service_name_valid name"
    "service_owner_alive env (services s ! j) s" "pending_count (services s ! j) < 16"
    "\<not> 16 \<le> pending_count (services s ! j)"
    using no j by (simp_all add: not_le)
  obtain io u where u: "state_for_process env process True s = (io, u)" by force
  note sp = state_for_process_inv [OF inv u]
  have iu: "ipc_inv u" using sp by simp
  have same: "services u = services s" using sp by (simp add: same_objects_def)
  note ds = refs_okD [OF ipc_invD(3) [OF inv]] and d = refs_okD [OF ipc_invD(3) [OF iu]]
  have j16: "j < 16" using find_index_Some [of "\<lambda>v. same_name v (the name)" "services s" j] j ds(2) by (simp add: find_service_def)
  show ?thesis
  proof (cases "\<exists>st i. io = Some st \<and> find_free_connection u = Some i \<and> find_free_handle st u \<noteq> None")
    case False
    then have "t = u \<and> res = IPC_NO_SPACE"
      using pre j r u ipc_invD(1) [OF inv]
      by (cases io; cases "find_free_connection u") (auto simp: boring_ipc_service_connect_def Let_def)
    then show ?thesis using sp same_objects_channels by auto
  next
    case True
    then obtain st i where st: "io = Some st" "find_free_connection u = Some i" "find_free_handle st u \<noteq> None" by blast
    have i: "i < 64" "\<not> connection_active (connections u ! i)"
      using find_index_Some [of "\<lambda>c. \<not> connection_active c" "connections u" i] st(2) d(1) by (simp_all add: find_free_connection_def)
    define v where "v = services u ! j"
    have v: "service_wf v" "service_active v" "pending_count v < 16"
      using d(4) [OF j16] pre(3,4) by (simp_all add: v_def same service_owner_alive_def)
    obtain v' where v': "pending_push (word_of_nat i) v = Some v'" "pend v' = pend v @ [unat (word_of_nat i :: u16)]" "service_wf v'"
      "service_active v' = service_active v" "service_owner v' = service_owner v" "service_owner_pid v' = service_owner_pid v"
      using pending_push_spec [OF v, of "word_of_nat i"] by auto
    define c where "c = (clear_connection (connections u ! i))\<lparr>client_owner := process,
      server_owner := service_owner v, client_pid := env_pid env process (ipc_machine u),
      server_pid := service_owner_pid v, client_open := True, server_open := True, connection_active := True\<rparr>"
    have c: "conn_wf c" "client_open c" "server_open c" "\<not> server_accepted c" "client_owner c = process"
      "server_owner c = service_owner v'" "server_pid c = service_owner_pid v'"
      using clear_connection_wf [OF d(3) [OF i(1)]] v' by (simp_all add: c_def conn_wf_def)
    define w where "w = put_connection i c u"
    have w: "tables_wf w" "refers w = refers u" using ipc_invD(2) [OF iu] by (simp_all add: w_def)
    have stp: "st < length (process_states w)" "state_owner (process_states w ! st) = process"
      using sp st(1) by (simp_all add: w_def)
    have freew: "find_free_handle st w \<noteq> None" using st(3) by (simp add: w_def)
    obtain k h x where x: "install_handle st HANDLE_ENDPOINT (word_of_nat i) SIDE_CLIENT w = (Some h, x)"
      "refers w (process, k) = None" "tables_wf x" "ipc_initialized x = ipc_initialized w"
      "connections x = connections w" "services x = services w"
      "refers x = (refers w)((process, k) := Some (HANDLE_ENDPOINT, unat (word_of_nat i :: u16), SIDE_CLIENT))"
      using install_inv [OF w(1) stp _ freew, of HANDLE_ENDPOINT "word_of_nat i" SIDE_CLIENT] by auto
    define y where "y = (put_service j v' x)\<lparr>ipc_machine := env_wake env (service_owner v') (ipc_machine (put_service j v' x))\<rparr>"
    have run: "boring_ipc_service_connect env process name s = ((IPC_OK, Some h), y)"
      using pre j u st x(1) v'(1) ipc_invD(1) [OF inv]
      by (simp add: boring_ipc_service_connect_def Let_def v_def [symmetric] c_def [symmetric] w_def [symmetric] not_le y_def)
    have "refs_ok (refers y) (connections y) (services y)"
      using refs_connect [OF ipc_invD(3) [OF iu] i j16 v'(3), of c process k] c v' x w i(1)
      by (simp add: y_def w_def unat_index v_def)
    moreover have "same_channels s y"
    proof (rule same_channels_update)
      show "connections y = (connections s)[i := c]" using x(5) sp by (simp add: y_def w_def same_objects_def)
      have "connections u = connections s" using sp by (simp add: same_objects_def)
      then show "queue_items (to_client c) = queue_items (to_client (connections s ! i))"
        "queue_items (to_server c) = queue_items (to_server (connections s ! i))"
        using closed_queues_empty [OF d(3) [OF i(1)] i(2)] closed_queues_empty [OF clear_connection_wf [OF d(3) [OF i(1)], THEN conjunct1]]
        by (simp_all add: c_def del: queue_items_empty)
    qed (rule ds(1))
    ultimately show ?thesis using run r x ipc_invD(1) [OF iu] by (simp add: ipc_inv_def w_def y_def)
  qed
qed

lemma accept_inv:
  assumes inv: "ipc_inv s" and r: "boring_ipc_service_accept env process h0 s = ((res, out), t)"
  shows "ipc_inv t \<and> res \<noteq> IPC_INTERNAL \<and> same_channels s t"
proof (cases "process_identity_valid env process s")
  case False
  then have "t = s \<and> res \<noteq> IPC_INTERNAL" using r by (auto simp: boring_ipc_service_accept_def)
  then show ?thesis using inv by auto
next
  case valid: True
  obtain l u where u: "lookup_handle env process h0 HANDLE_LISTENER s = (l, u)" by force
  note lk = lookup_handle_inv [OF inv u]
  have iu: "ipc_inv u" using lk by simp
  note d = refs_okD [OF ipc_invD(3) [OF iu]]
  show ?thesis
  proof (cases l)
    case None
    then have "t = u \<and> res \<noteq> IPC_INTERNAL" using r u valid ipc_invD(1) [OF inv] by (auto simp: boring_ipc_service_accept_def)
    then show ?thesis using lk same_objects_channels by auto
  next
    case (Some x)
    obtain i0 k0 e where e: "x = (i0, k0, e)" by (cases x)
    define j where "j = unat (entry_object e)"
    define v where "v = services u ! j"
    have tgt: "target_ok (connections s) (services s) process (HANDLE_LISTENER, j, entry_side e)"
      using lk unfolding Some e j_def by blast
    have j: "j < 16" "service_active v" using tgt lk by (simp_all add: target_ok_def v_def same_objects_def)
    have vw: "service_wf v" using d(4) [OF j(1)] by (simp add: v_def)
    show ?thesis
    proof (cases "\<not> service_owner_alive env v u \<or> service_owner v \<noteq> process \<or>
        service_owner_pid v \<noteq> env_pid env process (ipc_machine u) \<or> pending_peek v = None")
      case True
      then have "t = u \<and> res \<noteq> IPC_INTERNAL" using r u valid ipc_invD(1) [OF inv] Some e j(1)
        by (auto simp: boring_ipc_service_accept_def Let_def j_def [symmetric] v_def [symmetric] split: if_splits option.splits)
      then show ?thesis using lk same_objects_channels by auto
    next
      case False
      then have own: "service_owner_alive env v u" "service_owner v = process"
        "service_owner_pid v = env_pid env process (ipc_machine u)" "pending_peek v \<noteq> None" by simp_all
      then have "pend v \<noteq> []" by (auto simp: pend_empty pending_peek_def)
      then obtain i xs where first: "pend v = i # xs" by (cases "pend v") auto
      obtain ci v' where v': "pending_peek v = Some ci" "pending_pop v = Some (ci, v')" "unat ci = i" "pend v' = xs"
        "service_wf v'" "service_active v'" "service_owner v' = service_owner v" "service_owner_pid v' = service_owner_pid v"
        using pending_pop_spec [OF vw first] j(2) by auto
      define c where "c = connections u ! i"
      have i: "i < 64" "server_open c" "\<not> server_accepted c" "server_owner c = process"
        "server_pid c = env_pid env process (ipc_machine u)"
        using d(11) [OF j(1)] first own by (simp_all add: v_def [symmetric] pending_ok_def c_def)
      have act: "connection_active c" using d(3) [OF i(1)] i(2) by (simp add: conn_wf_def c_def)
      obtain io w where w: "state_for_process env process True u = (io, w)" by force
      note sp = state_for_process_inv [OF iu w]
      have same: "connections w = connections u" "services w = services u" using sp by (simp_all add: same_objects_def)
      show ?thesis
      proof (cases "\<exists>st. io = Some st \<and> find_free_handle st w \<noteq> None")
        case False
        then have "t = w \<and> res = IPC_NO_SPACE"
          using r u valid ipc_invD(1) [OF inv] Some e j(1) own v' i act w same
          by (cases io) (auto simp: boring_ipc_service_accept_def Let_def j_def [symmetric] v_def [symmetric] c_def [symmetric])
        moreover have "same_objects s w" using sp lk by (simp add: same_objects_def)
        ultimately show ?thesis using sp same_objects_channels by auto
      next
        case True
        then obtain st where st: "io = Some st" "find_free_handle st w \<noteq> None" by blast
        have stp: "st < length (process_states w)" "state_owner (process_states w ! st) = process"
          using sp st(1) by simp_all
        have iw: "ipc_inv w" using sp by simp
        obtain k h x where x: "install_handle st HANDLE_ENDPOINT ci SIDE_SERVER w = (Some h, x)"
          "refers w (process, k) = None" "tables_wf x" "ipc_initialized x = ipc_initialized w"
          "connections x = connections w" "services x = services w"
          "refers x = (refers w)((process, k) := Some (HANDLE_ENDPOINT, unat ci, SIDE_SERVER))"
          using install_inv [OF ipc_invD(2) [OF iw] stp _ st(2), of HANDLE_ENDPOINT ci SIDE_SERVER] by auto
        define y where "y = put_connection i (c\<lparr>server_accepted := True\<rparr>) (put_service j v' x)"
        have run: "boring_ipc_service_accept env process h0 s = ((IPC_OK, Some h), y)"
          using u valid ipc_invD(1) [OF inv] Some e j(1) own v' i act w same st x
          by (simp add: boring_ipc_service_accept_def Let_def j_def [symmetric] v_def [symmetric] c_def [symmetric] y_def not_le)
        have jv: "service_active (services u ! j)" "pend (services u ! j) = i # xs" using j(2) first by (simp_all add: v_def)
        have v'u: "service_owner v' = service_owner (services u ! j)" "service_owner_pid v' = service_owner_pid (services u ! j)"
          using v'(7,8) by (simp_all add: v_def)
        have free: "refers u (service_owner v', k) = None" using x(2) sp own(2) v'(7) by simp
        have ra: "refs_ok ((refers u)((service_owner v', k) := Some (HANDLE_ENDPOINT, i, SIDE_SERVER)))
            ((connections u)[i := c\<lparr>server_accepted := True\<rparr>]) ((services u)[j := v'])"
          unfolding c_def by (rule refs_accept [OF ipc_invD(3) [OF iu] j(1) jv v'(5,6) v'u v'(4) refl free])
        have "refers y = (refers u)((service_owner v', k) := Some (HANDLE_ENDPOINT, i, SIDE_SERVER))"
          using x(7) sp own(2) v'(3,7) by (simp add: y_def)
        moreover have "connections y = (connections u)[i := c\<lparr>server_accepted := True\<rparr>]" "services y = (services u)[j := v']"
          using x(5,6) same by (simp_all add: y_def)
        ultimately have "refs_ok (refers y) (connections y) (services y)" using ra by simp
        moreover have "same_channels s y"
        proof (rule same_channels_update)
          have "connections u = connections s" using lk by (simp add: same_objects_def)
          then show "connections y = (connections s)[i := c\<lparr>server_accepted := True\<rparr>]" "length (connections s) = 64"
            "queue_items (to_client (c\<lparr>server_accepted := True\<rparr>)) = queue_items (to_client (connections s ! i))"
            "queue_items (to_server (c\<lparr>server_accepted := True\<rparr>)) = queue_items (to_server (connections s ! i))"
            using x(5) same d(1) by (simp_all add: y_def c_def)
        qed
        ultimately show ?thesis using run r x ipc_invD(1) [OF iw] by (simp add: ipc_inv_def y_def)
      qed
    qed
  qed
qed

end
