(* ===== verification/IpcTraffic.thy ===== *)
theory IpcTraffic
  imports IpcCalls
begin

text \<open>
  Sending and receiving in kernel/core/ipc.c: what waits at each side of a connection
  (\<open>channel\<close>) is a queue of messages that a send extends and a receive shortens.
\<close>

section \<open>What a handle denotes\<close>

definition endpoint_of :: "'m ipc_state \<Rightarrow> u64 \<Rightarrow> u32 \<Rightarrow> (nat \<times> u8) option" where
  "endpoint_of s p h = (case decode_handle h of None \<Rightarrow> None
   | Some (k, g) \<Rightarrow> if slot_generation s (p, k) \<noteq> g then None else
       (case refers s (p, k) of None \<Rightarrow> None
        | Some (t, i, side) \<Rightarrow> if t = HANDLE_ENDPOINT then Some (i, side) else None))"

definition message_data :: "ipc_message \<Rightarrow> u8 list" where
  "message_data m = take (unat (message_length m)) (message_payload m)"

text \<open>All a message carries: its bytes and the reference to the buffer attached to it.\<close>

definition message_content :: "ipc_message \<Rightarrow> u8 list \<times> retained_ref" where
  "message_content m = (message_data m, message_attachment m)"

lemma length_message_data:
  "message_blank m \<Longrightarrow> length (message_data m) = unat (message_length m)"
  by (simp add: message_blank_def message_data_def)

lemma state_for_process_generation:
  assumes wf: "tables_wf s" and r: "state_for_process env process False s = (io, t)"
  shows "slot_generation t = slot_generation s"
proof (cases "t = s")
  case False
  then obtain i pid where i: "find_state process 0 (process_states s) = Some i"
    "t = s\<lparr>process_states := (process_states s)[i := (process_states s ! i)\<lparr>state_owner_pid := pid\<rparr>]\<rparr>"
    using r by (auto simp: state_for_process_def Let_def split: if_splits option.splits)
  note o = find_state_Some [OF i(1)]
  have "states_map t = (states_map s)(process := Some ((process_states s ! i)\<lparr>state_owner_pid := pid\<rparr>))"
    using states_map_update(1) [OF wf, of i "(process_states s ! i)\<lparr>state_owner_pid := pid\<rparr>"] o by (simp add: i(2))
  moreover have "states_map s process = Some (process_states s ! i)" using states_map_at [OF wf] o by auto
  ultimately show ?thesis by (auto simp: slot_generation_def fun_eq_iff)
qed simp

lemma slot_generation_cong: "process_states t = process_states s \<Longrightarrow> slot_generation t = slot_generation s"
  by (simp add: slot_generation_def states_map_def fun_eq_iff)

lemma slot_generation_machine [simp]: "slot_generation (s\<lparr>ipc_machine := m\<rparr>) = slot_generation s"
  by (rule slot_generation_cong) simp

lemma lookup_endpoint:
  assumes inv: "ipc_inv s" and r: "lookup_handle env process h HANDLE_ENDPOINT s = (Some (i, k, e), t)"
  shows "endpoint_of s process h = Some (unat (entry_object e), entry_side e)"
proof -
  obtain g where d: "decode_handle h = Some (k, g)" and g: "entry_generation e = g"
    and e: "e = state_handles (process_states t ! i) ! k"
    and u: "state_for_process env process False s = (Some i, t)"
    using r by (auto simp: lookup_handle_def Let_def split: option.splits prod.splits if_splits)
  have lk: "refers s (process, k) = Some (HANDLE_ENDPOINT, unat (entry_object e), entry_side e)"
    "tables_wf t" "i < length (process_states t)" "state_owner (process_states t ! i) = process"
    using lookup_handle_spec [OF ipc_invD(2) [OF inv] r] by blast+
  have "slot_generation t (process, k) = g"
    using states_map_at [OF lk(2,3)] lk(4) g e by (simp add: slot_generation_def)
  then show ?thesis
    using d lk(1) state_for_process_generation [OF ipc_invD(2) [OF inv] u] by (simp add: endpoint_of_def)
qed

lemma endpoint_live:
  assumes inv: "ipc_inv s" and e: "endpoint_of s p h = Some (i, side)"
  shows "i < 64" "side = SIDE_CLIENT \<or> side = SIDE_SERVER" "connection_side_open (connections s ! i) side"
    "connection_active (connections s ! i)" "conn_wf (connections s ! i)"
proof -
  obtain k where "refers s (p, k) = Some (HANDLE_ENDPOINT, i, side)"
    using e by (auto simp: endpoint_of_def split: option.splits if_splits)
  then have t: "target_ok (connections s) (services s) p (HANDLE_ENDPOINT, i, side)"
    using refs_okD(5) [OF ipc_invD(3) [OF inv], of "(p, k)"] by simp
  then show i: "i < 64" "side = SIDE_CLIENT \<or> side = SIDE_SERVER" "connection_side_open (connections s ! i) side"
    by (auto simp: target_ok_def connection_side_open_def)
  show "conn_wf (connections s ! i)" by (rule refs_okD(3) [OF ipc_invD(3) [OF inv] i(1)])
  then show "connection_active (connections s ! i)"
    using i(2,3) by (auto simp: conn_wf_def connection_side_open_def split: if_splits)
qed

section \<open>Sending\<close>

text \<open>The message the code stores, and the connection with it queued at the other side.\<close>

definition sent_message :: "u8 list \<Rightarrow> retained_ref \<Rightarrow> ipc_message \<Rightarrow> ipc_message" where
  "sent_message bytes ref m = (clear_message m)\<lparr>message_length := word_of_nat (length bytes),
     message_payload := write_cells 0 (\<lambda>k. bytes ! k) (length bytes) (message_payload (clear_message m)),
     message_attachment := ref, message_active := True\<rparr>"

lemma sent_message_spec:
  assumes "message_blank m" "length bytes \<le> 256"
  shows "message_blank (sent_message bytes ref m)" "message_active (sent_message bytes ref m)"
    "message_data (sent_message bytes ref m) = bytes" "message_attachment (sent_message bytes ref m) = ref"
proof -
  have u: "unat (word_of_nat (length bytes) :: u64) = length bytes"
    using assms(2) by (simp add: unat_of_nat take_bit_nat_eq_self)
  show "message_blank (sent_message bytes ref m)" using assms u by (simp add: message_blank_def sent_message_def)
  have "take (length bytes) (write_cells 0 (\<lambda>k. bytes ! k) (length bytes) (message_payload (clear_message m))) = bytes"
    using assms by (intro nth_equalityI) (simp_all add: nth_write_cells message_blank_def)
  then show "message_data (sent_message bytes ref m) = bytes" by (simp add: message_data_def sent_message_def u)
qed (simp_all add: sent_message_def)

text \<open>The reference the code attaches for the handle given to a send, 0 for no buffer.\<close>

definition attached :: "'m ipc_env \<Rightarrow> u64 \<Rightarrow> u32 \<Rightarrow> 'm ipc_state \<Rightarrow> retained_ref" where
  "attached env p b s = (if b = 0 then cleared_ref else snd (fst (env_retain env p b (ipc_machine s))))"

lemma queue_put_at:
  "message_queue_wf q \<Longrightarrow> queue_count q < 16 \<Longrightarrow>
    message_blank (queue_messages q ! ((unat (queue_head q) + unat (queue_count q)) mod 16)) \<and>
    \<not> message_active (queue_messages q ! ((unat (queue_head q) + unat (queue_count q)) mod 16))"
  by (simp add: message_queue_wf_def word_less_nat_alt)

lemma peer_queue:
  "side = SIDE_CLIENT \<or> side = SIDE_SERVER \<Longrightarrow> peer_incoming_queue c side = incoming_queue c (1 - side)"
  by (auto simp: peer_incoming_queue_def incoming_queue_def)

lemma conn_wf_put:
  assumes c: "conn_wf c" and open_: "connection_peer_open c side" and q: "message_queue_wf q"
  shows "conn_wf (set_peer_incoming_queue side q c)"
  using assms by (auto simp: conn_wf_def set_peer_incoming_queue_def connection_peer_open_def split: if_splits)

lemma send_spec:
  assumes inv: "ipc_inv s" and r: "boring_ipc_send env p h payload b s = (res, t)"
  shows "ipc_inv t \<and> refers t = refers s \<and> slot_generation t = slot_generation s \<and> services t = services s \<and> res \<noteq> IPC_INTERNAL \<and>
    (res \<noteq> IPC_OK \<longrightarrow> connections t = connections s) \<and>
    (res = IPC_OK \<longrightarrow> (\<exists>i side q m. endpoint_of s p h = Some (i, side) \<and>
       connection_peer_open (connections s ! i) side \<and>
       connections t = (connections s)[i := set_peer_incoming_queue side q (connections s ! i)] \<and>
       queue_items q = queue_items (peer_incoming_queue (connections s ! i) side) @ [m] \<and>
       message_content m = (the payload, attached env p b s) \<and>
       (b \<noteq> 0 \<longrightarrow> fst (fst (env_retain env p b (ipc_machine s))) = UMEM_OK)))"
proof (cases "\<not> process_identity_valid env p s \<or> payload = None \<or> length (the payload) > 256")
  case True
  then show ?thesis using inv r by (auto simp: boring_ipc_send_def)
next
  case pre: False
  obtain l u where u: "lookup_handle env p h HANDLE_ENDPOINT s = (l, u)" by force
  note lk = lookup_handle_inv [OF inv u]
  have iu: "ipc_inv u" and su: "connections u = connections s" "services u = services s" "refers u = refers s"
    and mu: "ipc_machine u = ipc_machine s"
    using lk by (simp_all add: same_objects_def)
  have gu: "slot_generation u = slot_generation s"
    using u state_for_process_generation [OF ipc_invD(2) [OF inv], of env p]
    by (auto simp: lookup_handle_def Let_def split: option.splits prod.splits if_splits)
  show ?thesis
  proof (cases l)
    case None
    then show ?thesis using r u pre iu su gu ipc_invD(1) [OF inv] by (auto simp: boring_ipc_send_def)
  next
    case (Some x)
    obtain i0 k e where x: "x = (i0, k, e)" by (cases x)
    define i where "i = unat (entry_object e)"
    define side where "side = entry_side e"
    have ep: "endpoint_of s p h = Some (i, side)"
      using lookup_endpoint [OF inv] u Some x by (simp add: i_def side_def)
    note live = endpoint_live [OF inv ep]
    define c where "c = connections s ! i"
    define q where "q = peer_incoming_queue c side"
    have wf: "conn_wf c" "message_queue_wf q" using live(5) by (simp_all add: c_def q_def conn_wf_def peer_incoming_queue_def)
    obtain mr ref mach where att: "(if b \<noteq> 0 then env_retain env p b (ipc_machine u)
        else ((UMEM_OK, cleared_ref), ipc_machine u)) = ((mr, ref), mach)" by (metis prod.exhaust)
    have ref: "ref = attached env p b s" "b \<noteq> 0 \<longrightarrow> fst (fst (env_retain env p b (ipc_machine s))) = mr"
      using att by (auto simp: attached_def mu split: if_splits)
    define tail where "tail = (unat (queue_head q) + unat (queue_count q)) mod 16"
    define m where "m = sent_message (the payload) ref (queue_messages q ! tail)"
    define v where "v = put_connection i (set_peer_incoming_queue side (queue_put m q) c) (u\<lparr>ipc_machine := mach\<rparr>)"
    have run: "boring_ipc_send env p h payload b s =
        (if \<not> connection_peer_open c side then (IPC_PEER_CLOSED, u)
         else if queue_count q \<ge> 16 then (IPC_NO_SPACE, u)
         else if mr \<noteq> UMEM_OK then (if mr = UMEM_NO_SPACE then IPC_NO_SPACE else IPC_INVALID, u\<lparr>ipc_machine := mach\<rparr>)
         else (IPC_OK, if connection_peer_owner c side \<noteq> 0
           then v\<lparr>ipc_machine := env_wake env (connection_peer_owner c side) (ipc_machine v)\<rparr> else v))"
    proof (cases "queue_count q \<ge> 16")
      case True
      then show ?thesis using pre u Some x live ipc_invD(1) [OF inv]
        by (auto simp: boring_ipc_send_def Let_def i_def [symmetric] side_def [symmetric] su c_def [symmetric] q_def [symmetric])
    next
      case False
      then have "\<not> message_active (queue_messages q ! tail)" using queue_put_at [OF wf(2)] by (simp add: not_le tail_def)
      then show ?thesis using pre u Some x live ipc_invD(1) [OF inv] att False
        by (auto simp: boring_ipc_send_def Let_def i_def [symmetric] side_def [symmetric] su c_def [symmetric] q_def [symmetric]
            tail_def [symmetric] v_def m_def sent_message_def queue_put_def simp del: write_cells.simps)
    qed
    show ?thesis
    proof (cases "connection_peer_open c side \<and> queue_count q < 16 \<and> mr = UMEM_OK")
      case False
      then have "connections t = connections s \<and> ipc_inv t \<and> refers t = refers s \<and> services t = services s \<and>
          slot_generation t = slot_generation s \<and> res \<noteq> IPC_INTERNAL \<and> res \<noteq> IPC_OK"
        using run r iu su gu by (auto simp: not_le split: if_splits)
      then show ?thesis by blast
    next
      case True
      note at = queue_put_at [OF wf(2)]
      have m: "message_blank m" "message_active m" "message_content m = (the payload, attached env p b s)"
        unfolding message_content_def ref(1) [symmetric] using sent_message_spec [of "queue_messages q ! tail" "the payload" ref] at True pre by (simp_all add: m_def tail_def)
      have put: "message_queue_wf (queue_put m q)" "queue_items (queue_put m q) = queue_items q @ [m]"
        using queue_put_items [OF wf(2) _ m(1,2)] True by (simp_all add: word_less_nat_alt)
      have cw: "conn_wf (set_peer_incoming_queue side (queue_put m q) c)"
        using conn_wf_put [OF wf(1) _ put(1)] True by simp
      have "refs_ok (refers u) ((connections u)[i := set_peer_incoming_queue side (queue_put m q) c]) (services u)"
        using live(1) cw by (intro refs_queues [OF ipc_invD(3) [OF iu]])
          (simp_all add: c_def su set_peer_incoming_queue_def)
      then have iv: "ipc_inv v" using iu by (simp add: ipc_inv_def v_def)
      have t: "res = IPC_OK" "process_states t = process_states u" "connections t = connections v" "services t = services s"
        "ipc_inv t" "refers t = refers v"
        using run r True iv by (auto simp: not_le v_def su split: if_splits)
      show ?thesis
        using t(1,3-6) put m True ep su gu ref(2) slot_generation_cong [OF t(2)]
        by (auto simp: v_def c_def q_def)
    qed
  qed
qed

section \<open>Receiving\<close>

lemma conn_wf_get:
  assumes c: "conn_wf c" and q: "message_queue_wf q" and open_: "connection_side_open c side"
  shows "conn_wf (set_incoming_queue side q c)"
  using assms by (auto simp: conn_wf_def set_incoming_queue_def connection_side_open_def split: if_splits)

lemma stays_open: "connection_side_open c side \<Longrightarrow> connection_maybe_destroy (set_incoming_queue side q c) = set_incoming_queue side q c"
  by (auto simp: connection_maybe_destroy_def set_incoming_queue_def connection_side_open_def split: if_splits)

text \<open>How a receive that found its endpoint ends, given the oldest message.\<close>

definition no_ticket :: install_ticket where
  "no_ticket = \<lparr>ticket_object_index = UINT32_MAX, ticket_generation = 0, ticket_slot = 65535, ticket_active = False\<rparr>"

definition prepared :: "'m ipc_env \<Rightarrow> u64 \<Rightarrow> retained_ref \<Rightarrow> 'm \<Rightarrow> (user_memory_result \<times> install_ticket \<times> u32) \<times> 'm" where
  "prepared env p ref mach =
     (if env_ref_active env ref mach then env_prepare_install env p ref mach else ((UMEM_OK, no_ticket, 0), mach))"

definition committed :: "'m ipc_env \<Rightarrow> u64 \<Rightarrow> retained_ref \<Rightarrow> 'm \<Rightarrow> user_memory_result \<times> 'm" where
  "committed env p ref mach = (let ((r, ticket, h), mach') = prepared env p ref mach
     in if env_ref_active env ref mach then env_commit_install env p ref ticket mach' else (UMEM_OK, mach'))"

definition receive_outcome :: "'m ipc_env \<Rightarrow> u64 \<Rightarrow> u64 \<Rightarrow> ipc_message \<Rightarrow> 'm \<Rightarrow> ipc_result" where
  "receive_outcome env p capacity m mach =
     (let r = fst (fst (prepared env p (message_attachment m) mach)) in
      if capacity < message_length m then IPC_NO_SPACE
      else if r = UMEM_NO_SPACE then IPC_NO_SPACE
      else if r \<noteq> UMEM_OK \<or> fst (committed env p (message_attachment m) mach) \<noteq> UMEM_OK then IPC_INTERNAL
      else IPC_OK)"

text \<open>
  How a receiver gets the buffer attached to the message: the memory code prepares and
  commits its installation, and the handle returned is the one it prepared.
\<close>

definition receipt ::
  "'m ipc_env \<Rightarrow> u64 \<Rightarrow> retained_ref \<Rightarrow> 'm ipc_state \<Rightarrow> ipc_receive_result \<Rightarrow> 'm ipc_state \<Rightarrow> bool" where
  "receipt env p ref s out t \<longleftrightarrow>
     (if env_ref_active env ref (ipc_machine s)
      then (case env_prepare_install env p ref (ipc_machine s) of ((r, ticket, handle), mach) \<Rightarrow>
        r = UMEM_OK \<and> received_buffer out = handle \<and>
        env_commit_install env p ref ticket mach = (UMEM_OK, ipc_machine t))
      else received_buffer out = 0 \<and> ipc_machine t = ipc_machine s)"

lemma receive_spec:
  assumes inv: "ipc_inv s" and r: "boring_ipc_receive env p h null capacity s = ((res, bytes, result), t)"
  shows "ipc_inv t \<and> refers t = refers s \<and> slot_generation t = slot_generation s \<and> services t = services s \<and>
    (res \<noteq> IPC_OK \<longrightarrow> connections t = connections s) \<and>
    (case endpoint_of s p h of None \<Rightarrow> res = IPC_INVALID
     | Some (i, side) \<Rightarrow>
         res = IPC_INVALID \<or>
         (case channel s i side of
            [] \<Rightarrow> res = (if connection_peer_open (connections s ! i) side then IPC_WOULD_BLOCK else IPC_PEER_CLOSED)
          | m # ms \<Rightarrow> res = receive_outcome env p capacity m (ipc_machine s) \<and>
              (res = IPC_OK \<longrightarrow> bytes = message_data m \<and>
                 receipt env p (message_attachment m) s (the result) t \<and> result \<noteq> None \<and>
                 unat (received_length (the result)) = length bytes \<and>
                 (\<exists>q. connections t = (connections s)[i := set_incoming_queue side q (connections s ! i)] \<and>
                    queue_items q = ms))))"
proof (cases "\<not> process_identity_valid env p s \<or> (capacity \<noteq> 0 \<and> null)")
  case True
  then have "res = IPC_INVALID \<and> t = s" using r by (auto simp: boring_ipc_receive_def)
  then show ?thesis using inv by (auto split: option.splits)
next
  case pre: False
  obtain l u where u: "lookup_handle env p h HANDLE_ENDPOINT s = (l, u)" by force
  note lk = lookup_handle_inv [OF inv u]
  have iu: "ipc_inv u" and su: "connections u = connections s" "services u = services s" "refers u = refers s"
    "ipc_machine u = ipc_machine s"
    using lk by (simp_all add: same_objects_def)
  have gu: "slot_generation u = slot_generation s"
    using u state_for_process_generation [OF ipc_invD(2) [OF inv], of env p]
    by (auto simp: lookup_handle_def Let_def split: option.splits prod.splits if_splits)
  show ?thesis
  proof (cases l)
    case None
    then have "res = IPC_INVALID \<and> t = u" using r u pre ipc_invD(1) [OF inv] by (auto simp: boring_ipc_receive_def)
    then show ?thesis using iu su gu by (auto split: option.splits)
  next
    case (Some x)
    obtain i0 k e where x: "x = (i0, k, e)" by (cases x)
    define i where "i = unat (entry_object e)"
    define side where "side = entry_side e"
    have ep: "endpoint_of s p h = Some (i, side)"
      using lookup_endpoint [OF inv] u Some x by (simp add: i_def side_def)
    note live = endpoint_live [OF inv ep]
    have i64: "\<not> 64 \<le> i" and sd: "\<not> SIDE_SERVER < side" using live(1,2) by auto
    define c where "c = connections s ! i"
    define q where "q = incoming_queue c side"
    have open_: "connection_active c" "connection_side_open c side" using live(3,4) by (simp_all add: c_def)
    have wf: "conn_wf c" "message_queue_wf q" using live(5) by (simp_all add: c_def q_def conn_wf_def incoming_queue_def)
    have ch: "channel s i side = queue_items q" by (simp add: channel_def q_def c_def)
    show ?thesis
    proof (cases "queue_items q")
      case Nil
      then have n0: "queue_count q = 0" by simp
      have "boring_ipc_receive env p h null capacity s =
          ((if connection_peer_open c side then IPC_WOULD_BLOCK else IPC_PEER_CLOSED, [], None), u)"
        using pre u Some x open_ i64 sd ipc_invD(1) [OF inv] n0
        by (simp add: boring_ipc_receive_def Let_def i_def [symmetric] side_def [symmetric] su c_def [symmetric] q_def [symmetric])
      with r have "t = u \<and> res = (if connection_peer_open c side then IPC_WOULD_BLOCK else IPC_PEER_CLOSED)" by simp
      then show ?thesis using iu su gu ep ch Nil by (auto simp: c_def)
    next
      case (Cons m ms)
      note get = queue_get_items [OF wf(2) Cons]
      have m: "queue_messages q ! unat (queue_head q) = m" using get by (simp add: queue_get_def)
      have n0: "queue_count q \<noteq> 0" using Cons queue_items_empty [of q] by auto
      have "message_active (queue_messages q ! ((unat (queue_head q) + 0) mod 16)) \<longleftrightarrow> 0 < unat (queue_count q)"
        using wf(2) unfolding message_queue_wf_def by (metis zero_less_numeral)
      moreover have "unat (queue_head q) < 16" using wf(2) by (simp add: message_queue_wf_def)
      ultimately have act: "message_active m" using n0 m by (simp add: unat_gt_0)
      obtain mr ticket hb mach where att: "prepared env p (message_attachment m) (ipc_machine s) = ((mr, ticket, hb), mach)"
        by (metis prod.exhaust)
      obtain cr mach' where com: "committed env p (message_attachment m) (ipc_machine s) = (cr, mach')" by force
      have com': "(if env_ref_active env (message_attachment m) (ipc_machine s)
          then env_commit_install env p (message_attachment m) ticket mach else (UMEM_OK, mach)) = (cr, mach')"
        using com att by (simp add: committed_def)
      define v where "v = put_connection i (set_incoming_queue side (snd (queue_get q)) c) (u\<lparr>ipc_machine := mach'\<rparr>)"
      define out where "out = \<lparr>received_length = message_length m, received_buffer = hb\<rparr>"
      have run: "boring_ipc_receive env p h null capacity s =
          (if capacity < message_length m then ((IPC_NO_SPACE, [], Some (out\<lparr>received_buffer := 0\<rparr>)), u)
           else if mr \<noteq> UMEM_OK
           then ((if mr = UMEM_NO_SPACE then IPC_NO_SPACE else IPC_INTERNAL, [], None), u\<lparr>ipc_machine := mach\<rparr>)
           else if cr \<noteq> UMEM_OK then ((IPC_INTERNAL, message_data m, Some out), u\<lparr>ipc_machine := mach'\<rparr>)
           else ((IPC_OK, message_data m, Some out), v))"
        using pre u Some x open_ i64 sd ipc_invD(1) [OF inv] n0 act att com' stays_open [OF open_(2)]
        by (cases "env_ref_active env (message_attachment m) (ipc_machine s)"; cases "mr = UMEM_OK")
          (simp_all add: boring_ipc_receive_def i_def [symmetric] side_def [symmetric] su c_def [symmetric] q_def [symmetric]
            m Let_def prepared_def no_ticket_def v_def queue_get_def out_def message_data_def)
      have out: "res = receive_outcome env p capacity m (ipc_machine s)"
        using run r att com by (auto simp: receive_outcome_def split: if_splits)
      show ?thesis
      proof (cases "res = IPC_OK")
        case False
        then have "connections t = connections u \<and> services t = services u \<and> process_states t = process_states u \<and>
            ipc_inv t \<and> refers t = refers u"
          using run r iu by (auto split: if_splits)
        then show ?thesis using su gu ep ch Cons out False slot_generation_cong [of t u] by simp
      next
        case True
        then have t: "t = v" "bytes = message_data m" "result = Some out" "mr = UMEM_OK" "cr = UMEM_OK"
          using run r by (auto split: if_splits)
        have "ipc_machine t = mach'" by (simp add: t(1) v_def)
        then have rc: "receipt env p (message_attachment m) s (the result) t"
          using att com' t(3-5) by (simp add: receipt_def prepared_def out_def split: if_splits)
        have "queue_messages q ! unat (queue_head q) \<in> set (queue_messages q)"
          using wf(2) by (simp add: message_queue_wf_def)
        then have "message_blank m" using wf(2) unfolding m by (auto simp: message_queue_wf_def)
        from length_message_data [OF this] have len: "unat (received_length out) = length bytes"
          by (simp add: t(2) out_def)
        have cw: "conn_wf (set_incoming_queue side (snd (queue_get q)) c)"
          using conn_wf_get [OF wf(1) _ open_(2)] get by simp
        have "refs_ok (refers u) ((connections u)[i := set_incoming_queue side (snd (queue_get q)) c]) (services u)"
          using live(1) cw by (intro refs_queues [OF ipc_invD(3) [OF iu]])
            (simp_all add: c_def su set_incoming_queue_def)
        then have "ipc_inv v" using iu by (simp add: ipc_inv_def v_def)
        moreover have "connections v = (connections s)[i := set_incoming_queue side (snd (queue_get q)) (connections s ! i)]"
          "services v = services s" "refers v = refers s" "slot_generation v = slot_generation s"
          using su gu slot_generation_cong [of v u] by (simp_all add: v_def c_def)
        ultimately show ?thesis using t True out rc len ep ch Cons get by auto
      qed
    qed
  qed
qed

end
