(* ===== verification/IpcProps.thy ===== *)
theory IpcProps
  imports IpcTraffic
begin

text \<open>
  Runs of the inter-process communication of kernel/core/ipc.c: the calls as one type,
  the states they reach from boot, and the properties of the component.
\<close>

section \<open>Runs\<close>

text \<open>
  A call of the interface, or \<open>Elsewhere\<close>: the rest of the kernel runs and leaves its
  state as given.
\<close>

datatype 'm ipc_call = Register u64 "u8 list option" | Connect u64 "u8 list option" | Accept u64 u32
  | Send u64 u32 "u8 list option" u32 | Receive u64 u32 bool u64 | Poll u64 u32 | Close u64 u32 | Exit u64 | Elsewhere 'm

definition ipc_do :: "'m ipc_env \<Rightarrow> 'm ipc_call \<Rightarrow> 'm ipc_state \<Rightarrow> ipc_result \<times> 'm ipc_state" where
  "ipc_do env call s = (case call of
     Register p name \<Rightarrow> apfst fst (boring_ipc_service_register env p name s)
   | Connect p name \<Rightarrow> apfst fst (boring_ipc_service_connect env p name s)
   | Accept p h \<Rightarrow> apfst fst (boring_ipc_service_accept env p h s)
   | Send p h payload buffer \<Rightarrow> boring_ipc_send env p h payload buffer s
   | Receive p h null capacity \<Rightarrow> apfst fst (boring_ipc_receive env p h null capacity s)
   | Poll p h \<Rightarrow> apfst fst (boring_ipc_poll env p h s)
   | Close p h \<Rightarrow> boring_ipc_close env p h s
   | Exit p \<Rightarrow> (IPC_OK, boring_ipc_process_cleanup env p s)
   | Elsewhere m \<Rightarrow> (IPC_OK, s\<lparr>ipc_machine := m\<rparr>))"

text \<open>The static tables before the first call.\<close>

definition boot_queue :: ipc_queue where
  "boot_queue = \<lparr>queue_messages = replicate 16 \<lparr>message_length = 0, message_payload = replicate 256 0,
     message_attachment = \<lparr>ref_object_index = 0, ref_active = False\<rparr>, message_active = False\<rparr>,
     queue_head = 0, queue_count = 0\<rparr>"

definition ipc_boot :: "'m \<Rightarrow> 'm ipc_state" where
  "ipc_boot m = \<lparr>process_states = [],
     connections = replicate 64 \<lparr>client_owner = 0, server_owner = 0, client_pid = 0, server_pid = 0,
       to_client = boot_queue, to_server = boot_queue, client_open = False, server_open = False,
       server_accepted = False, connection_active = False\<rparr>,
     services = replicate 16 \<lparr>service_owner = 0, service_owner_pid = 0, service_name = replicate 32 0,
       service_pending = replicate 16 0, pending_head = 0, pending_count = 0, service_active = False\<rparr>,
     ipc_initialized = False, ipc_machine = m\<rparr>"

inductive ipc_reachable :: "'m ipc_env \<Rightarrow> 'm ipc_state \<Rightarrow> bool" for env where
  started: "ipc_reachable env (snd (boring_ipc_system_init (ipc_boot m)))"
| called: "ipc_reachable env s \<Longrightarrow> ipc_reachable env (snd (ipc_do env call s))"

lemma clear_queue_blank:
  "length (queue_messages q) = 16 \<Longrightarrow> \<forall>m \<in> set (queue_messages q). length (message_payload m) = 256 \<Longrightarrow>
    message_queue_wf (clear_queue q) \<and> queue_count (clear_queue q) = 0"
  by (auto simp: message_queue_wf_def clear_queue_def message_blank_def)

lemma init_inv: "ipc_inv (snd (boring_ipc_system_init (ipc_boot m)))"
proof -
  let ?s = "snd (boring_ipc_system_init (ipc_boot m))"
  have q: "message_queue_wf (clear_queue boot_queue)" "queue_count (clear_queue boot_queue) = 0"
    using clear_queue_blank [of boot_queue] by (simp_all add: boot_queue_def)
  have c: "conn_wf c" "\<not> client_open c" "\<not> server_open c" if "c \<in> set (connections ?s)" for c
    using that q by (auto simp: boring_ipc_system_init_def ipc_boot_def clear_connection_def conn_wf_def)
  have v: "service_wf v" "\<not> service_active v" "pend v = []" if "v \<in> set (services ?s)" for v
    using that by (auto simp: boring_ipc_system_init_def ipc_boot_def clear_service_def service_wf_def pend_def)
  have lens: "length (connections ?s) = 64" "length (services ?s) = 16"
    by (simp_all add: boring_ipc_system_init_def ipc_boot_def)
  have none: "process_states ?s = []" "ipc_initialized ?s" by (simp_all add: boring_ipc_system_init_def ipc_boot_def)
  have "refers ?s a = None" for a using none by (cases a) (simp add: refers_def states_map_def)
  then have "refs_ok (refers ?s) (connections ?s) (services ?s)"
    using c v lens nth_mem [of _ "connections ?s"] nth_mem [of _ "services ?s"]
    by (intro refs_okI) (auto simp: pending_ok_def)
  then show ?thesis using none by (simp add: ipc_inv_def tables_wf_def)
qed

lemma poll_spec:
  assumes inv: "ipc_inv s" and r: "boring_ipc_poll env p h s = ((res, ev), t)"
  shows "ipc_inv t \<and> res \<in> {IPC_OK, IPC_INVALID} \<and> connections t = connections s \<and> refers t = refers s"
proof -
  obtain l u where u: "lookup_handle env p h HANDLE_LISTENER s = (l, u)" by force
  note lu = lookup_handle_inv [OF inv u]
  obtain e w where w: "lookup_handle env p h HANDLE_ENDPOINT u = (e, w)" by force
  note lw = lookup_handle_inv [OF conjunct1 [OF lu] w]
  have "res \<in> {IPC_OK, IPC_INVALID} \<and> (t = s \<or> t = u \<or> t = w)"
    using r u w by (auto simp: boring_ipc_poll_def Let_def split: if_splits option.splits)
  then show ?thesis using inv lu lw by (auto simp: same_objects_def)
qed

text \<open>What one call keeps.\<close>

definition closing :: "'m ipc_call \<Rightarrow> bool" where
  "closing call = (case call of Close p h \<Rightarrow> True | Exit p \<Rightarrow> True | _ \<Rightarrow> False)"

lemma do_inv:
  assumes inv: "ipc_inv s" and r: "ipc_do env call s = (res, t)"
  shows "ipc_inv t"
proof (cases call)
  case (Receive p h n c)
  obtain b o' where x: "boring_ipc_receive env p h n c s = ((res, b, o'), t)"
    using r Receive by (cases "boring_ipc_receive env p h n c s") (auto simp: ipc_do_def)
  show ?thesis using receive_spec [OF inv x] by simp
qed (use r inv register_inv [OF inv] connect_inv [OF inv] accept_inv [OF inv] send_spec [OF inv] poll_spec [OF inv]
    close_inv [OF inv] cleanup_inv(1) [OF inv] in \<open>auto simp: ipc_do_def apfst_def map_prod_def split: prod.splits\<close>)

lemma do_not_internal:
  assumes inv: "ipc_inv s" and r: "ipc_do env call s = (res, t)" and "\<And>p h n c. call \<noteq> Receive p h n c"
  shows "res \<noteq> IPC_INTERNAL"
proof (cases call)
  case (Send p h payload b)
  then show ?thesis using r send_spec [OF inv, of env p h payload b res t] by (simp add: ipc_do_def)
next
  case (Poll p h)
  obtain ev where "boring_ipc_poll env p h s = ((res, ev), t)"
    using r Poll by (cases "boring_ipc_poll env p h s") (auto simp: ipc_do_def)
  from poll_spec [OF inv this] show ?thesis by auto
next
  case (Close p h)
  then show ?thesis using r close_inv [OF inv, of env p h res t] by (auto simp: ipc_do_def)
qed (use r assms(3) register_inv [OF inv] connect_inv [OF inv] accept_inv [OF inv]
    in \<open>auto simp: ipc_do_def apfst_def map_prod_def split: prod.splits\<close>)

lemma reachable_inv: "ipc_reachable env s \<Longrightarrow> ipc_inv s"
proof (induction rule: ipc_reachable.induct)
  case (started m)
  show ?case by (rule init_inv)
next
  case (called s call)
  then show ?case using do_inv [of s env call] by (cases "ipc_do env call s") auto
qed

section \<open>What goes through a connection\<close>

text \<open>
  What still waits at a side of a connection, and the message (its bytes and the
  reference to its buffer) a call puts on, or takes off, the channel to that side. A
  receive takes the oldest reference; what it does with it is stated by \<open>receipt\<close>.
\<close>

definition waiting :: "'m ipc_state \<Rightarrow> nat \<Rightarrow> u8 \<Rightarrow> (u8 list \<times> retained_ref) list" where
  "waiting s i side = map message_content (channel s i side)"

definition posted :: "'m ipc_env \<Rightarrow> nat \<Rightarrow> u8 \<Rightarrow> 'm ipc_call \<Rightarrow> 'm ipc_state \<Rightarrow> (u8 list \<times> retained_ref) list" where
  "posted env i side call s = (case call of
     Send p h payload buffer \<Rightarrow>
       if fst (ipc_do env call s) = IPC_OK \<and> endpoint_of s p h = Some (i, 1 - side)
       then [(the payload, attached env p buffer s)] else []
   | _ \<Rightarrow> [])"

definition delivered :: "'m ipc_env \<Rightarrow> nat \<Rightarrow> u8 \<Rightarrow> 'm ipc_call \<Rightarrow> 'm ipc_state \<Rightarrow> (u8 list \<times> retained_ref) list" where
  "delivered env i side call s = (case call of
     Receive p h null capacity \<Rightarrow>
       if fst (ipc_do env call s) = IPC_OK \<and> endpoint_of s p h = Some (i, side)
       then [(fst (snd (fst (boring_ipc_receive env p h null capacity s))), snd (hd (waiting s i side)))] else []
   | _ \<Rightarrow> [])"

text \<open>The same over a run, and the state at its end.\<close>

fun ipc_run :: "'m ipc_env \<Rightarrow> 'm ipc_call list \<Rightarrow> 'm ipc_state \<Rightarrow> 'm ipc_state" where
  "ipc_run env [] s = s"
| "ipc_run env (call # calls) s = ipc_run env calls (snd (ipc_do env call s))"

fun run_posted :: "'m ipc_env \<Rightarrow> nat \<Rightarrow> u8 \<Rightarrow> 'm ipc_call list \<Rightarrow> 'm ipc_state \<Rightarrow>
    (u8 list \<times> retained_ref) list" where
  "run_posted env i side [] s = []"
| "run_posted env i side (call # calls) s =
     posted env i side call s @ run_posted env i side calls (snd (ipc_do env call s))"

fun run_delivered :: "'m ipc_env \<Rightarrow> nat \<Rightarrow> u8 \<Rightarrow> 'm ipc_call list \<Rightarrow> 'm ipc_state \<Rightarrow>
    (u8 list \<times> retained_ref) list" where
  "run_delivered env i side [] s = []"
| "run_delivered env i side (call # calls) s =
     delivered env i side call s @ run_delivered env i side calls (snd (ipc_do env call s))"

lemma waiting_same: "same_channels s t \<Longrightarrow> i < 64 \<Longrightarrow> waiting t i side = waiting s i side"
  by (simp add: waiting_def same_channels_def)

lemma waiting_update:
  assumes "connections t = (connections s)[j := c]" "j < length (connections s)"
  shows "waiting t i side = (if i = j then map message_content (queue_items (incoming_queue c side)) else waiting s i side)"
  using assms by (simp add: waiting_def channel_def)

lemma do_send_channel:
  assumes inv: "ipc_inv s" and r: "boring_ipc_send env p h payload b s = (res, t)"
    and i: "i < 64" and side: "side = SIDE_CLIENT \<or> side = SIDE_SERVER"
  shows "waiting t i side = waiting s i side @
    (if res = IPC_OK \<and> endpoint_of s p h = Some (i, 1 - side) then [(the payload, attached env p b s)] else [])"
proof (cases "res = IPC_OK")
  case False
  then show ?thesis using send_spec [OF inv r] same_channelsI [of t s] waiting_same [of s t i side, OF _ i] by simp
next
  case True
  then obtain j d q m where e: "endpoint_of s p h = Some (j, d)"
    "connections t = (connections s)[j := set_peer_incoming_queue d q (connections s ! j)]"
    "queue_items q = queue_items (peer_incoming_queue (connections s ! j) d) @ [m]"
    "message_content m = (the payload, attached env p b s)"
    using send_spec [OF inv r] by auto
  note live = endpoint_live [OF inv e(1)]
  have len: "j < length (connections s)" using live(1) refs_okD(1) [OF ipc_invD(3) [OF inv]] by simp
  note up = waiting_update [OF e(2) len, of i side]
  show ?thesis
  proof (cases "i = j")
    case False
    then show ?thesis using up e(1) by auto
  next
    case True
    have d: "d = 0 \<or> d = 1" by (rule live(2))
    have "side = 1 - d \<or> side = d" using side d by auto
    then show ?thesis
    proof
      assume s: "side = 1 - d"
      then show ?thesis using up True e \<open>res = IPC_OK\<close> d
        by (auto simp: waiting_def channel_def incoming_queue_def peer_incoming_queue_def set_peer_incoming_queue_def)
    next
      assume s: "side = d"
      then have "incoming_queue (set_peer_incoming_queue d q (connections s ! j)) side = incoming_queue (connections s ! j) side"
        using d by (auto simp: incoming_queue_def set_peer_incoming_queue_def)
      then show ?thesis using up True e(1) s d by (auto simp: waiting_def channel_def)
    qed
  qed
qed

lemma do_receive_channel:
  assumes inv: "ipc_inv s" and r: "boring_ipc_receive env p h null capacity s = ((res, bytes, result), t)"
    and i: "i < 64" and side: "side = SIDE_CLIENT \<or> side = SIDE_SERVER"
  shows "(if res = IPC_OK \<and> endpoint_of s p h = Some (i, side)
      then [(bytes, snd (hd (waiting s i side)))] else []) @ waiting t i side = waiting s i side"
proof (cases "res = IPC_OK")
  case False
  then show ?thesis using receive_spec [OF inv r] same_channelsI [of t s] waiting_same [of s t i side, OF _ i] by simp
next
  case True
  have sp: "case endpoint_of s p h of None \<Rightarrow> res = IPC_INVALID
     | Some (i, side) \<Rightarrow> res = IPC_INVALID \<or> (case channel s i side of
            [] \<Rightarrow> res = (if connection_peer_open (connections s ! i) side then IPC_WOULD_BLOCK else IPC_PEER_CLOSED)
          | m # ms \<Rightarrow> res = receive_outcome env p capacity m (ipc_machine s) \<and>
              (res = IPC_OK \<longrightarrow> bytes = message_data m \<and>
                 receipt env p (message_attachment m) s (the result) t \<and> result \<noteq> None \<and>
                 unat (received_length (the result)) = length bytes \<and>
                 (\<exists>q. connections t = (connections s)[i := set_incoming_queue side q (connections s ! i)] \<and>
                    queue_items q = ms)))"
    using receive_spec [OF inv r] by blast
  then obtain j d where e: "endpoint_of s p h = Some (j, d)" using True by (auto split: option.splits)
  note live = endpoint_live [OF inv e]
  obtain m ms where ch: "channel s j d = m # ms"
    using sp e True by (cases "channel s j d") (auto split: if_splits)
  obtain q where q: "bytes = message_data m" "queue_items q = ms"
    "connections t = (connections s)[j := set_incoming_queue d q (connections s ! j)]"
    using sp e True ch by auto
  have len: "j < length (connections s)" using live(1) refs_okD(1) [OF ipc_invD(3) [OF inv]] by simp
  note up = waiting_update [OF q(3) len, of i side]
  show ?thesis
  proof (cases "i = j \<and> side = d")
    case False
    then have "waiting t i side = waiting s i side"
      using up live(2) side by (auto simp: waiting_def channel_def incoming_queue_def set_incoming_queue_def)
    then show ?thesis using e False by auto
  next
    case True
    then show ?thesis using up q e ch \<open>res = IPC_OK\<close> live(2)
      by (auto simp: waiting_def message_content_def channel_def incoming_queue_def set_incoming_queue_def)
  qed
qed

lemma do_channel:
  assumes inv: "ipc_inv s" and open_: "\<not> closing call" and i: "i < 64" and side: "side = SIDE_CLIENT \<or> side = SIDE_SERVER"
  shows "delivered env i side call s @ waiting (snd (ipc_do env call s)) i side =
    waiting s i side @ posted env i side call s"
proof (cases call)
  case (Send p h payload b)
  obtain res t where x: "boring_ipc_send env p h payload b s = (res, t)" by force
  show ?thesis using do_send_channel [OF inv x i side] by (simp add: Send ipc_do_def posted_def delivered_def x)
next
  case (Receive p h n c)
  obtain res b result t where x: "boring_ipc_receive env p h n c s = ((res, b, result), t)" by (metis prod.exhaust)
  show ?thesis using do_receive_channel [OF inv x i side] by (auto simp: Receive ipc_do_def posted_def delivered_def x)
next
  case (Register p name)
  obtain res b t where x: "boring_ipc_service_register env p name s = ((res, b), t)" by (metis prod.exhaust)
  show ?thesis using register_inv [OF inv x] waiting_same [of s t i side, OF _ i] by (simp add: Register ipc_do_def posted_def delivered_def x)
next
  case (Connect p name)
  obtain res b t where x: "boring_ipc_service_connect env p name s = ((res, b), t)" by (metis prod.exhaust)
  show ?thesis using connect_inv [OF inv x] waiting_same [of s t i side, OF _ i] by (simp add: Connect ipc_do_def posted_def delivered_def x)
next
  case (Accept p h)
  obtain res b t where x: "boring_ipc_service_accept env p h s = ((res, b), t)" by (metis prod.exhaust)
  show ?thesis using accept_inv [OF inv x] waiting_same [of s t i side, OF _ i] by (simp add: Accept ipc_do_def posted_def delivered_def x)
next
  case (Poll p h)
  obtain res b t where x: "boring_ipc_poll env p h s = ((res, b), t)" by (metis prod.exhaust)
  show ?thesis using poll_spec [OF inv x] same_channelsI [of t s] waiting_same [of s t i side, OF _ i]
    by (simp add: Poll ipc_do_def posted_def delivered_def x)
next
  case (Elsewhere m)
  show ?thesis using same_channelsI [of "s\<lparr>ipc_machine := m\<rparr>" s] waiting_same [of s "s\<lparr>ipc_machine := m\<rparr>" i side, OF _ i]
    by (simp add: Elsewhere ipc_do_def posted_def delivered_def)
qed (use open_ in \<open>simp_all add: closing_def\<close>)

lemma run_channel:
  assumes "ipc_reachable env s" and "\<forall>call \<in> set calls. \<not> closing call"
    and "i < 64" and "side = SIDE_CLIENT \<or> side = SIDE_SERVER"
  shows "run_delivered env i side calls s @ waiting (ipc_run env calls s) i side =
    waiting s i side @ run_posted env i side calls s"
  using assms(1,2)
proof (induction calls arbitrary: s)
  case Nil
  then show ?case by simp
next
  case (Cons call calls)
  have "run_delivered env i side calls (snd (ipc_do env call s)) @ waiting (ipc_run env calls (snd (ipc_do env call s))) i side =
      waiting (snd (ipc_do env call s)) i side @ run_posted env i side calls (snd (ipc_do env call s))"
    using Cons.IH [OF called [OF Cons.prems(1)]] Cons.prems(2) by simp
  moreover have "delivered env i side call s @ waiting (snd (ipc_do env call s)) i side = waiting s i side @ posted env i side call s"
    using do_channel [OF reachable_inv [OF Cons.prems(1)] _ assms(3,4)] Cons.prems(2) by simp
  ultimately show ?case by (metis append.assoc run_delivered.simps(2) run_posted.simps(2) ipc_run.simps(2))
qed

lemma receive_receipt:
  assumes inv: "ipc_inv s" and r: "boring_ipc_receive env p h null capacity s = ((IPC_OK, bytes, out), t)"
    and e: "endpoint_of s p h = Some (i, side)"
  shows "\<exists>ref rest result. waiting s i side = (bytes, ref) # rest \<and> out = Some result \<and>
    unat (received_length result) = length bytes \<and> receipt env p ref s result t"
proof -
  have sp: "case channel s i side of
      [] \<Rightarrow> IPC_OK = (if connection_peer_open (connections s ! i) side then IPC_WOULD_BLOCK else IPC_PEER_CLOSED)
    | m # ms \<Rightarrow> bytes = message_data m \<and> receipt env p (message_attachment m) s (the out) t \<and> out \<noteq> None \<and>
        unat (received_length (the out)) = length bytes"
    using receive_spec [OF inv r] e by (auto split: list.splits if_splits)
  then obtain m ms where ch: "channel s i side = m # ms" by (cases "channel s i side") (auto split: if_splits)
  with sp show ?thesis by (auto simp: waiting_def message_content_def)
qed

section \<open>Properties\<close>

text \<open>
  A kernel with two live processes, 1 and 2, whose heap always has a block and whose
  buffers are never shared; each process's identity is its address.
\<close>

definition sample_env :: "unit ipc_env" where
  "sample_env = \<lparr>env_alive = (\<lambda>p _. p = 1 \<or> p = 2), env_pid = (\<lambda>p _. p), env_wake = (\<lambda>_ m. m),
     env_kmalloc = (\<lambda>_ m. (4096, m)), env_kfree = (\<lambda>_ m. (True, m)), env_ref_active = (\<lambda>r _. ref_active r),
     env_retain = (\<lambda>_ _ m. ((UMEM_INVALID, cleared_ref), m)), env_release = (\<lambda>_ m. m),
     env_prepare_install = (\<lambda>_ _ m. ((UMEM_INTERNAL, no_ticket, 0), m)), env_commit_install = (\<lambda>_ _ _ m. (UMEM_INTERNAL, m))\<rparr>"

definition sample_start :: "unit ipc_state" where
  "sample_start = snd (boring_ipc_system_init (ipc_boot ()))"

lemma sample_reachable: "ipc_reachable sample_env sample_start"
  unfolding sample_start_def by (rule started)

text \<open>The same kernel with buffers that can be shared: the handle is the index of the object.\<close>

definition sharing_env :: "unit ipc_env" where
  "sharing_env = sample_env\<lparr>
     env_retain := (\<lambda>_ h m. ((UMEM_OK, \<lparr>ref_object_index = h, ref_active = True\<rparr>), m)),
     env_prepare_install := (\<lambda>_ r m. ((UMEM_OK, no_ticket, ref_object_index r), m)),
     env_commit_install := (\<lambda>_ _ _ m. (UMEM_OK, m))\<rparr>"

lemma sharing_reachable: "ipc_reachable sharing_env sample_start"
  unfolding sample_start_def by (rule started)

lemma run_reachable: "ipc_reachable env s \<Longrightarrow> ipc_reachable env (ipc_run env calls s)"
  by (induction calls arbitrary: s) (auto intro: called)

lemma find_index_replicate:
  "\<not> P x \<Longrightarrow> find_index_from P i (replicate n x) = None"
  "P x \<Longrightarrow> 0 < n \<Longrightarrow> find_index_from P i (replicate n x) = Some i"
  by (induction n arbitrary: i) auto

lemma find_free_entry_replicate: "\<not> entry_active e \<Longrightarrow> 0 < n \<Longrightarrow> find_free_entry i (replicate n e) = Some i"
  by (cases n) auto

lemma sample_registered:
  "fst (ipc_do sample_env (Register 1 (Some [97])) sample_start) = IPC_OK \<and>
   map state_owner_pid (process_states (snd (ipc_do sample_env (Register 1 (Some [97])) sample_start))) = [1] \<and>
   map state_owner (process_states (snd (ipc_do sample_env (Register 1 (Some [97])) sample_start))) = [1]"
  by (simp add: ipc_do_def sample_start_def boring_ipc_system_init_def ipc_boot_def boring_ipc_service_register_def
      process_identity_valid_def sample_env_def boring_ipc_service_name_valid_def find_service_def find_free_service_def
      find_index_replicate find_free_entry_replicate same_name_def clear_service_def state_for_process_def process_state_append_def
      process_state_initialize_def find_free_handle_def install_handle_def put_service_def put_entry_def Let_def)

text \<open>C19: In every state the kernel reaches by calls of the interface, the handle tables
  and the objects agree: a live handle refers to a live service or to an open side of a
  connection that its process owns, no two handles refer to the same thing, every live
  service, open client side and accepted server side has its handle, and every other
  open server side waits in the queue of exactly one live service of its owner.\<close>

theorem ipc_consistent:
  assumes "ipc_reachable env s"
  shows "tables_wf s \<and> refs_ok (refers s) (connections s) (services s)"
  using reachable_inv [OF assms] by (auto simp: ipc_inv_def)

theorem ipc_consistent_witness:
  "let s = ipc_run sample_env [Register 1 (Some [97]), Connect 2 (Some [97]), Accept 1 32, Send 2 32 (Some [5]) 0]
     sample_start
   in tables_wf s \<and> refs_ok (refers s) (connections s) (services s)"
  unfolding Let_def by (rule ipc_consistent [OF run_reachable [OF sample_reachable]])

text \<open>No call ends in an internal error of its own: only a receive can, and only when
  the oldest message carries a shared buffer and the memory code fails to map it.\<close>

theorem ipc_no_internal_error:
  assumes "ipc_reachable env s"
  shows "fst (ipc_do env call s) \<noteq> IPC_INTERNAL \<or>
    (\<exists>p h null capacity i side m ms. call = Receive p h null capacity \<and> endpoint_of s p h = Some (i, side) \<and>
      channel s i side = m # ms \<and> env_ref_active env (message_attachment m) (ipc_machine s) \<and>
      (fst (fst (prepared env p (message_attachment m) (ipc_machine s))) \<notin> {UMEM_OK, UMEM_NO_SPACE} \<or>
       fst (committed env p (message_attachment m) (ipc_machine s)) \<noteq> UMEM_OK))"
proof (cases "fst (ipc_do env call s) = IPC_INTERNAL")
  case True
  have inv: "ipc_inv s" by (rule reachable_inv [OF assms])
  obtain t where r: "ipc_do env call s = (IPC_INTERNAL, t)" using True by (cases "ipc_do env call s") simp
  show ?thesis
  proof (cases call)
    case (Receive p h null capacity)
    obtain b out where x: "boring_ipc_receive env p h null capacity s = ((IPC_INTERNAL, b, out), t)"
      using r Receive by (cases "boring_ipc_receive env p h null capacity s") (auto simp: ipc_do_def)
    have sp: "case endpoint_of s p h of None \<Rightarrow> False
       | Some (i, side) \<Rightarrow> (case channel s i side of [] \<Rightarrow> False
          | m # ms \<Rightarrow> IPC_INTERNAL = receive_outcome env p capacity m (ipc_machine s))"
      using receive_spec [OF inv x] by (auto split: option.splits list.splits if_splits)
    then obtain i side where e: "endpoint_of s p h = Some (i, side)" by (auto split: option.splits)
    then obtain m ms where "channel s i side = m # ms" "IPC_INTERNAL = receive_outcome env p capacity m (ipc_machine s)"
      using sp by (auto split: list.splits)
    then show ?thesis
      using e Receive
      by (intro disjI2 exI [of _ p] exI [of _ h] exI [of _ null] exI [of _ capacity] exI [of _ i] exI [of _ side] exI [of _ m] exI [of _ ms])
        (auto simp: receive_outcome_def prepared_def committed_def Let_def split: if_splits)
  qed (use do_not_internal [OF inv r] in simp_all)
qed simp

theorem ipc_no_internal_error_witness:
  "fst (ipc_do sample_env (Accept 1 32) (ipc_run sample_env [Register 1 (Some [97])] sample_start)) \<noteq> IPC_INTERNAL"
  using ipc_no_internal_error [OF run_reachable [OF sample_reachable], of "Accept 1 32" "[Register 1 (Some [97])]"] by simp

text \<open>C20: Over any run without a close or an exit, what was received at a side of a
  connection followed by what still waits there is what waited at the start followed by
  what was sent to that side: no message is lost, doubled, changed or reordered. A
  message is its bytes and the reference to the buffer attached to it. A send is
  accepted with a buffer only when the memory code retained it, and a receive returns
  the bytes and their number and installs the buffer of the oldest message in the
  receiver under the handle it returns (0 when no buffer is attached).\<close>

theorem ipc_channel_fifo:
  assumes "ipc_reachable env s" and "\<forall>call \<in> set calls. \<not> closing call"
    and "i < 64" and "side = SIDE_CLIENT \<or> side = SIDE_SERVER"
  shows "run_delivered env i side calls s @ waiting (ipc_run env calls s) i side =
      waiting s i side @ run_posted env i side calls s \<and>
    (\<forall>p h payload b t. boring_ipc_send env p h payload b s = (IPC_OK, t) \<longrightarrow> b \<noteq> 0 \<longrightarrow>
      fst (fst (env_retain env p b (ipc_machine s))) = UMEM_OK) \<and>
    (\<forall>p h null capacity bytes out t.
      boring_ipc_receive env p h null capacity s = ((IPC_OK, bytes, out), t) \<longrightarrow>
      endpoint_of s p h = Some (i, side) \<longrightarrow>
      (\<exists>ref rest result. waiting s i side = (bytes, ref) # rest \<and> out = Some result \<and>
        unat (received_length result) = length bytes \<and> receipt env p ref s result t))"
proof (intro conjI allI impI)
  show "run_delivered env i side calls s @ waiting (ipc_run env calls s) i side =
      waiting s i side @ run_posted env i side calls s"
    by (rule run_channel [OF assms])
next
  fix p h payload b t
  assume "boring_ipc_send env p h payload b s = (IPC_OK, t)" "b \<noteq> 0"
  then show "fst (fst (env_retain env p b (ipc_machine s))) = UMEM_OK"
    using send_spec [OF reachable_inv [OF assms(1)]] by blast
next
  fix p h null capacity bytes out t
  assume "boring_ipc_receive env p h null capacity s = ((IPC_OK, bytes, out), t)" "endpoint_of s p h = Some (i, side)"
  from receive_receipt [OF reachable_inv [OF assms(1)] this]
  show "\<exists>ref rest result. waiting s i side = (bytes, ref) # rest \<and> out = Some result \<and>
        unat (received_length result) = length bytes \<and> receipt env p ref s result t" .
qed

theorem ipc_channel_fifo_witness:
  "let s = ipc_run sharing_env [Register 1 (Some [97]), Connect 2 (Some [97]), Accept 1 32] sample_start;
     calls = [Send 2 32 (Some [5, 6]) 9, Send 2 32 (Some [7]) 0, Receive 1 33 False 16]
   in run_delivered sharing_env 0 SIDE_SERVER calls s @ waiting (ipc_run sharing_env calls s) 0 SIDE_SERVER =
     waiting s 0 SIDE_SERVER @ run_posted sharing_env 0 SIDE_SERVER calls s"
  unfolding Let_def
  by (rule conjunct1 [OF ipc_channel_fifo [OF run_reachable [OF sharing_reachable]]]) (simp_all add: closing_def)

text \<open>C21: When a process exits under the identity it used, no handle of it is left, no live
  service or connection names it any more, and the handles of every other process are
  untouched.\<close>

theorem ipc_exit_revokes:
  assumes "ipc_reachable env s" and "identity_current env p s"
  shows "let t = snd (ipc_do env (Exit p) s) in
    (\<forall>k. refers t (p, k) = None) \<and> (\<forall>q k. q \<noteq> p \<longrightarrow> refers t (q, k) = refers s (q, k)) \<and>
    (\<forall>i<16. service_active (services t ! i) \<longrightarrow> service_owner (services t ! i) \<noteq> p) \<and>
    (\<forall>i<64. (client_open (connections t ! i) \<longrightarrow> client_owner (connections t ! i) \<noteq> p) \<and>
       (server_open (connections t ! i) \<longrightarrow> server_owner (connections t ! i) \<noteq> p))"
proof -
  have inv: "ipc_inv s" by (rule reachable_inv [OF assms(1)])
  define t where "t = boring_ipc_process_cleanup env p s"
  note c = cleanup_inv [OF inv, where env = env and p = p, folded t_def]
  have none: "refers t (p, k) = None" for k by (rule c(3) [OF assms(2)])
  note d = refs_okD [OF ipc_invD(3) [OF c(1)]]
  have v: "service_owner (services t ! i) \<noteq> p" if "i < 16" "service_active (services t ! i)" for i
    using d(7) [OF that] none by auto
  have "server_owner (connections t ! i) \<noteq> p" if i: "i < 64" "server_open (connections t ! i)" for i
  proof (cases "server_accepted (connections t ! i)")
    case True
    then show ?thesis using d(9) [OF i] none by auto
  next
    case False
    then obtain j where j: "j < 16" "i \<in> set (pend (services t ! j))" using d(10) [OF i] by auto
    then have "service_active (services t ! j)"
      using pend_idle [OF d(4) [OF j(1)]] by (cases "service_active (services t ! j)") auto
    then show ?thesis using v [OF j(1)] d(11) [OF j(1)] j(2) by (simp add: pending_ok_def)
  qed
  moreover have "client_owner (connections t ! i) \<noteq> p" if i: "i < 64" "client_open (connections t ! i)" for i
    using d(8) [OF i] none by auto
  ultimately show ?thesis using none c(2) v by (simp add: ipc_do_def t_def [symmetric])
qed

theorem ipc_exit_revokes_witness:
  "let s = snd (ipc_do sample_env (Register 1 (Some [97])) sample_start); t = snd (ipc_do sample_env (Exit 1) s)
   in (\<forall>i<16. service_active (services t ! i) \<longrightarrow> service_owner (services t ! i) \<noteq> 1) \<and> (\<forall>k. refers t (1, k) = None)"
proof -
  let ?s = "snd (ipc_do sample_env (Register 1 (Some [97])) sample_start)"
  obtain st where "process_states ?s = [st]" "state_owner st = 1" "state_owner_pid st = 1"
    using sample_registered by (cases "process_states ?s") auto
  then have "identity_current sample_env 1 ?s"
    by (simp add: identity_current_def process_identity_valid_def sample_env_def)
  from ipc_exit_revokes [OF called [OF sample_reachable] this] show ?thesis by (simp add: Let_def)
qed

text \<open>A handle that was closed, or was not valid, cannot be closed: the second of two
  closes always fails.\<close>

theorem ipc_double_close:
  assumes "ipc_reachable env s"
  shows "fst (ipc_do env (Close p h) (snd (ipc_do env (Close p h) s))) = IPC_INVALID"
proof -
  have inv: "ipc_inv s" by (rule reachable_inv [OF assms])
  obtain res t where r: "boring_ipc_close env p h s = (res, t)" by force
  note c = close_inv [OF inv r]
  show ?thesis
  proof (cases "res = IPC_OK")
    case True
    then obtain k g where "decode_handle h = Some (k, g)" "refers t (p, k) = None" using c by auto
    then show ?thesis using close_dead [of t h k g p env] c r by (simp add: ipc_do_def)
  next
    case False
    then show ?thesis using close_again [OF r _ inv] c r by (auto simp: ipc_do_def)
  qed
qed

theorem ipc_double_close_witness:
  "fst (ipc_do sample_env (Close 1 32) (snd (ipc_do sample_env (Close 1 32)
     (ipc_run sample_env [Register 1 (Some [97])] sample_start)))) = IPC_INVALID"
  by (rule ipc_double_close [OF run_reachable [OF sample_reachable]])

end
