(* ===== verification/Vfs.thy ===== *)
theory Vfs
  imports Prelude
begin

text \<open>
  kernel/core/vfs.c: the mount table, counted references to nodes (\<open>vfs_path\<close>), path
  resolution, operations on directories and open file handles. A node is an element of
  the node array of some file system object (\<open>node_ref\<close>: the object's address and the
  index, \<open>None\<close> for NULL); a pointer into the mount table is a position. The tables of
  back-end operations are constants of the program: the parameter \<open>ops\<close> gives the table
  at an address, and a field that is \<open>None\<close> is a NULL function pointer. A
  NUL-terminated string is the list of its characters (\<open>None\<close>: a NULL pointer).
\<close>

section \<open>State\<close>

abbreviation (input) VFS_PATH_MAX :: nat where "VFS_PATH_MAX \<equiv> 1024"
abbreviation (input) VFS_NAME_MAX :: nat where "VFS_NAME_MAX \<equiv> 255"
abbreviation (input) VFS_IO_MAX :: u64 where "VFS_IO_MAX \<equiv> 4096"
abbreviation (input) VFS_ACCESS_READ :: u32 where "VFS_ACCESS_READ \<equiv> 1"
abbreviation (input) VFS_ACCESS_WRITE :: u32 where "VFS_ACCESS_WRITE \<equiv> 2"
abbreviation (input) VFS_ACCESS_MASK :: u32 where "VFS_ACCESS_MASK \<equiv> 3"
abbreviation (input) SLASH :: u8 where "SLASH \<equiv> 47"
abbreviation (input) DOT :: u8 where "DOT \<equiv> 46"

datatype vfs_result = VFS_OK | VFS_INVALID_ARGUMENT | VFS_NOT_INITIALIZED | VFS_ALREADY_INITIALIZED | VFS_NOT_FOUND
  | VFS_NOT_DIRECTORY | VFS_NOT_REGULAR | VFS_PATH_TOO_LONG | VFS_NAME_TOO_LONG | VFS_EMPTY_PATH | VFS_ALREADY_MOUNTED
  | VFS_MOUNT_CONFLICT | VFS_CROSS_FILESYSTEM | VFS_NOT_SUPPORTED | VFS_OVERFLOW | VFS_BUSY | VFS_CORRUPT | VFS_NO_CWD
  | VFS_ACCESS_DENIED | VFS_NO_SPACE | VFS_ALREADY_EXISTS | VFS_NOT_EMPTY

text \<open>\<open>NODE_NONE\<close> is the value 0 of the type, which no valid node has.\<close>

datatype vfs_node_type = NODE_NONE | NODE_DIRECTORY | NODE_REGULAR

type_synonym node_ref = "(u64 \<times> nat) option"

record vfs_node =
  node_id :: u64
  node_type :: vfs_node_type
  node_filesystem :: u64
  node_parent :: node_ref
  node_backend :: node_ref
  node_references :: u32
  node_valid :: bool

record vfs_filesystem =
  fs_id :: u64
  fs_operations :: u64
  fs_root :: node_ref
  fs_backend :: u64
  fs_valid :: bool

record vfs_mount =
  mount_id :: u64
  mount_filesystem :: u64
  mount_parent :: "nat option"
  mount_point :: node_ref
  mount_active :: bool

record vfs_path =
  path_mount :: "nat option"
  path_node :: node_ref

record vfs_handle =
  handle_path :: vfs_path
  handle_offset :: u64
  handle_access :: u32
  handle_open :: bool

record vfs_dirent =
  dirent_node_id :: u64
  dirent_type :: vfs_node_type
  dirent_name_length :: u64
  dirent_name :: "u8 list"

record vfs_stats =
  stats_mount_count :: u64
  stats_path_references :: u64
  stats_open_handles :: u64

record 'b vfs_world =
  filesystem_at :: "u64 \<Rightarrow> vfs_filesystem"
  node_at :: "u64 \<times> nat \<Rightarrow> vfs_node"
  vfs_mounts :: "vfs_mount list"
  vfs_initialized :: bool
  vfs_next_mount_id :: u64
  vfs_path_reference_count :: u64
  vfs_open_handle_count :: u64
  backend :: 'b

text \<open>
  What the functions of a back end return: a result, the node or the bytes they hand out
  (with the count they report) and the new state.
\<close>

record 'b vfs_operations =
  op_lookup :: "(u64 \<Rightarrow> node_ref \<Rightarrow> u8 list \<Rightarrow> 'b vfs_world \<Rightarrow> (vfs_result \<times> node_ref) \<times> 'b vfs_world) option"
  op_create :: "(u64 \<Rightarrow> node_ref \<Rightarrow> u8 list \<Rightarrow> 'b vfs_world \<Rightarrow> (vfs_result \<times> node_ref) \<times> 'b vfs_world) option"
  op_mkdir :: "(u64 \<Rightarrow> node_ref \<Rightarrow> u8 list \<Rightarrow> 'b vfs_world \<Rightarrow> (vfs_result \<times> node_ref) \<times> 'b vfs_world) option"
  op_unlink :: "(u64 \<Rightarrow> node_ref \<Rightarrow> u8 list \<Rightarrow> 'b vfs_world \<Rightarrow> vfs_result \<times> 'b vfs_world) option"
  op_rmdir :: "(u64 \<Rightarrow> node_ref \<Rightarrow> u8 list \<Rightarrow> 'b vfs_world \<Rightarrow> vfs_result \<times> 'b vfs_world) option"
  op_rename :: "(u64 \<Rightarrow> node_ref \<Rightarrow> u8 list \<Rightarrow> node_ref \<Rightarrow> u8 list \<Rightarrow> 'b vfs_world \<Rightarrow> vfs_result \<times> 'b vfs_world) option"
  op_read :: "(u64 \<Rightarrow> node_ref \<Rightarrow> u64 \<Rightarrow> u64 \<Rightarrow> 'b vfs_world \<Rightarrow> (vfs_result \<times> u8 list \<times> u64) \<times> 'b vfs_world) option"
  op_write :: "(u64 \<Rightarrow> node_ref \<Rightarrow> u64 \<Rightarrow> u8 list \<Rightarrow> 'b vfs_world \<Rightarrow> (vfs_result \<times> u64) \<times> 'b vfs_world) option"
  op_truncate :: "(u64 \<Rightarrow> node_ref \<Rightarrow> u64 \<Rightarrow> 'b vfs_world \<Rightarrow> vfs_result \<times> 'b vfs_world) option"
  op_readdir :: "(u64 \<Rightarrow> node_ref \<Rightarrow> u64 \<Rightarrow> vfs_dirent \<Rightarrow> 'b vfs_world \<Rightarrow> (vfs_result \<times> vfs_dirent) \<times> 'b vfs_world) option"

definition null_path :: vfs_path where
  "null_path = \<lparr>path_mount = None, path_node = None\<rparr>"

text \<open>A store through a node or file system pointer.\<close>

definition put_node :: "u64 \<times> nat \<Rightarrow> vfs_node \<Rightarrow> 'b vfs_world \<Rightarrow> 'b vfs_world" where
  "put_node n node s = s\<lparr>node_at := (node_at s)(n := node)\<rparr>"

definition put_filesystem :: "u64 \<Rightarrow> vfs_filesystem \<Rightarrow> 'b vfs_world \<Rightarrow> 'b vfs_world" where
  "put_filesystem f filesystem s = s\<lparr>filesystem_at := (filesystem_at s)(f := filesystem)\<rparr>"

section \<open>Validity\<close>

definition vfs_node_type_valid :: "vfs_node_type \<Rightarrow> bool" where
  "vfs_node_type_valid type \<longleftrightarrow> type = NODE_DIRECTORY \<or> type = NODE_REGULAR"

definition vfs_node_valid_for_filesystem :: "node_ref \<Rightarrow> u64 \<Rightarrow> 'b vfs_world \<Rightarrow> bool" where
  "vfs_node_valid_for_filesystem node filesystem s = (case node of
     None \<Rightarrow> False
   | Some n \<Rightarrow> node_valid (node_at s n) \<and> node_id (node_at s n) \<noteq> 0 \<and> vfs_node_type_valid (node_type (node_at s n)) \<and>
       node_filesystem (node_at s n) = filesystem)"

definition vfs_filesystem_valid :: "u64 \<Rightarrow> 'b vfs_world \<Rightarrow> bool" where
  "vfs_filesystem_valid filesystem s \<longleftrightarrow> filesystem \<noteq> 0 \<and>
     (let fs = filesystem_at s filesystem in
      fs_valid fs \<and> fs_id fs \<noteq> 0 \<and> fs_operations fs \<noteq> 0 \<and>
      vfs_node_valid_for_filesystem (fs_root fs) filesystem s \<and>
      node_type (node_at s (the (fs_root fs))) = NODE_DIRECTORY \<and>
      node_parent (node_at s (the (fs_root fs))) = fs_root fs)"

definition vfs_mount_clear :: vfs_mount where
  "vfs_mount_clear = \<lparr>mount_id = 0, mount_filesystem = 0, mount_parent = None, mount_point = None, mount_active = False\<rparr>"

definition vfs_mount_valid :: "nat option \<Rightarrow> 'b vfs_world \<Rightarrow> bool" where
  "vfs_mount_valid mount s \<longleftrightarrow> vfs_initialized s \<and> (case mount of
     None \<Rightarrow> False
   | Some i \<Rightarrow> i < 8 \<and> mount_active (vfs_mounts s ! i) \<and> mount_id (vfs_mounts s ! i) \<noteq> 0 \<and>
       vfs_filesystem_valid (mount_filesystem (vfs_mounts s ! i)) s)"

text \<open>The mount, the file system and the node of a path that is not NULL.\<close>

definition mount_of :: "vfs_path \<Rightarrow> 'b vfs_world \<Rightarrow> vfs_mount" where
  "mount_of path s = vfs_mounts s ! the (path_mount path)"

definition filesystem_of :: "vfs_path \<Rightarrow> 'b vfs_world \<Rightarrow> u64" where
  "filesystem_of path s = mount_filesystem (mount_of path s)"

definition node_of :: "vfs_path \<Rightarrow> 'b vfs_world \<Rightarrow> vfs_node" where
  "node_of path s = node_at s (the (path_node path))"

definition operations_of :: "(u64 \<Rightarrow> 'b vfs_operations) \<Rightarrow> vfs_path \<Rightarrow> 'b vfs_world \<Rightarrow> 'b vfs_operations" where
  "operations_of ops path s = ops (fs_operations (filesystem_at s (filesystem_of path s)))"

definition vfs_path_valid :: "vfs_path \<Rightarrow> 'b vfs_world \<Rightarrow> bool" where
  "vfs_path_valid path s \<longleftrightarrow> vfs_mount_valid (path_mount path) s \<and>
     vfs_node_valid_for_filesystem (path_node path) (filesystem_of path s) s"

section \<open>References\<close>

definition vfs_node_retain :: "node_ref \<Rightarrow> 'b vfs_world \<Rightarrow> vfs_result \<times> 'b vfs_world" where
  "vfs_node_retain node s = (case node of
     None \<Rightarrow> (VFS_CORRUPT, s)
   | Some n \<Rightarrow>
       if \<not> node_valid (node_at s n) then (VFS_CORRUPT, s)
       else if node_references (node_at s n) = UINT32_MAX then (VFS_OVERFLOW, s)
       else (VFS_OK, put_node n ((node_at s n)\<lparr>node_references := node_references (node_at s n) + 1\<rparr>) s))"

definition vfs_node_release :: "node_ref \<Rightarrow> 'b vfs_world \<Rightarrow> vfs_result \<times> 'b vfs_world" where
  "vfs_node_release node s = (case node of
     None \<Rightarrow> (VFS_CORRUPT, s)
   | Some n \<Rightarrow>
       if \<not> node_valid (node_at s n) \<or> node_references (node_at s n) = 0 then (VFS_CORRUPT, s)
       else (VFS_OK, put_node n ((node_at s n)\<lparr>node_references := node_references (node_at s n) - 1\<rparr>) s))"

text \<open>\<open>path_out\<close> holds a path before the call and is given back, possibly changed.\<close>

definition vfs_path_acquire ::
  "nat option \<Rightarrow> node_ref \<Rightarrow> vfs_path \<Rightarrow> 'b vfs_world \<Rightarrow> (vfs_result \<times> vfs_path) \<times> 'b vfs_world" where
  "vfs_path_acquire mount node path_out s =
     (if path_mount path_out \<noteq> None \<or> path_node path_out \<noteq> None \<or> \<not> vfs_mount_valid mount s \<or>
         \<not> vfs_node_valid_for_filesystem node (mount_filesystem (vfs_mounts s ! the mount)) s
      then ((VFS_INVALID_ARGUMENT, path_out), s)
      else if vfs_path_reference_count s = UINT64_MAX then ((VFS_OVERFLOW, path_out), s)
      else case vfs_node_retain node s of (result, s) \<Rightarrow>
        if result \<noteq> VFS_OK then ((result, path_out), s)
        else ((VFS_OK, \<lparr>path_mount = mount, path_node = node\<rparr>),
              s\<lparr>vfs_path_reference_count := vfs_path_reference_count s + 1\<rparr>))"

definition vfs_path_release :: "vfs_path \<Rightarrow> 'b vfs_world \<Rightarrow> (vfs_result \<times> vfs_path) \<times> 'b vfs_world" where
  "vfs_path_release path s =
     (if \<not> vfs_path_valid path s \<or> vfs_path_reference_count s = 0 then ((VFS_INVALID_ARGUMENT, path), s)
      else case vfs_node_release (path_node path) s of (result, s) \<Rightarrow>
        if result \<noteq> VFS_OK then ((result, path), s)
        else ((VFS_OK, null_path), s\<lparr>vfs_path_reference_count := vfs_path_reference_count s - 1\<rparr>))"

text \<open>A release whose result and path the code ignores.\<close>

definition drop_path :: "vfs_path \<Rightarrow> 'b vfs_world \<Rightarrow> 'b vfs_world" where
  "drop_path path s = snd (vfs_path_release path s)"

definition vfs_path_replace ::
  "vfs_path \<Rightarrow> nat option \<Rightarrow> node_ref \<Rightarrow> 'b vfs_world \<Rightarrow> (vfs_result \<times> vfs_path) \<times> 'b vfs_world" where
  "vfs_path_replace path mount node s =
     (if \<not> vfs_path_valid path s then ((VFS_INVALID_ARGUMENT, path), s)
      else case vfs_path_acquire mount node null_path s of ((result, replacement), s) \<Rightarrow>
        if result \<noteq> VFS_OK then ((result, path), s)
        else case vfs_path_release path s of ((result, path), s) \<Rightarrow>
          if result \<noteq> VFS_OK then ((result, path), drop_path replacement s)
          else ((VFS_OK, replacement), s))"

definition vfs_get_root :: "vfs_path \<Rightarrow> 'b vfs_world \<Rightarrow> (vfs_result \<times> vfs_path) \<times> 'b vfs_world" where
  "vfs_get_root path_out s =
     (if \<not> vfs_initialized s then ((VFS_NOT_INITIALIZED, path_out), s)
      else vfs_path_acquire (Some 0) (fs_root (filesystem_at s (mount_filesystem (vfs_mounts s ! 0)))) path_out s)"

definition vfs_path_clone :: "vfs_path \<Rightarrow> vfs_path \<Rightarrow> 'b vfs_world \<Rightarrow> (vfs_result \<times> vfs_path) \<times> 'b vfs_world" where
  "vfs_path_clone source destination s =
     (if \<not> vfs_path_valid source s then ((VFS_INVALID_ARGUMENT, destination), s)
      else vfs_path_acquire (path_mount source) (path_node source) destination s)"

definition vfs_path_equal :: "vfs_path \<Rightarrow> vfs_path \<Rightarrow> 'b vfs_world \<Rightarrow> bool" where
  "vfs_path_equal left right s \<longleftrightarrow> vfs_path_valid left s \<and> vfs_path_valid right s \<and>
     path_mount left = path_mount right \<and> path_node left = path_node right"

definition vfs_path_is_directory :: "vfs_path \<Rightarrow> 'b vfs_world \<Rightarrow> bool" where
  "vfs_path_is_directory path s \<longleftrightarrow> vfs_path_valid path s \<and> node_type (node_of path s) = NODE_DIRECTORY"

section \<open>Names\<close>

definition vfs_bounded_length :: "u8 list option \<Rightarrow> nat \<Rightarrow> nat option" where
  "vfs_bounded_length text maximum = (case text of
     None \<Rightarrow> None
   | Some chars \<Rightarrow> if length chars \<le> maximum then Some (length chars) else None)"

definition vfs_validate_name :: "u8 list option \<Rightarrow> vfs_result" where
  "vfs_validate_name name = (case name of
     None \<Rightarrow> VFS_INVALID_ARGUMENT
   | Some chars \<Rightarrow> (case vfs_bounded_length name VFS_NAME_MAX of
       None \<Rightarrow> VFS_NAME_TOO_LONG
     | Some len \<Rightarrow>
         if len = 0 then VFS_EMPTY_PATH
         else if len = 1 \<and> chars ! 0 = DOT \<or> len = 2 \<and> chars ! 0 = DOT \<and> chars ! 1 = DOT then VFS_INVALID_ARGUMENT
         else if list_ex (\<lambda>i. chars ! i = SLASH) [0..<len] then VFS_INVALID_ARGUMENT
         else VFS_OK))"

section \<open>Mounts\<close>

definition vfs_child_mount :: "nat option \<Rightarrow> node_ref \<Rightarrow> 'b vfs_world \<Rightarrow> nat option" where
  "vfs_child_mount parent mountpoint s =
     find (\<lambda>i. mount_active (vfs_mounts s ! i) \<and> mount_parent (vfs_mounts s ! i) = parent \<and>
       mount_point (vfs_mounts s ! i) = mountpoint) [1..<8]"

definition vfs_filesystem_is_mounted :: "u64 \<Rightarrow> 'b vfs_world \<Rightarrow> bool" where
  "vfs_filesystem_is_mounted filesystem s =
     list_ex (\<lambda>i. mount_active (vfs_mounts s ! i) \<and> mount_filesystem (vfs_mounts s ! i) = filesystem) [0..<8]"

definition vfs_follow_child_mount :: "vfs_path \<Rightarrow> 'b vfs_world \<Rightarrow> (vfs_result \<times> vfs_path) \<times> 'b vfs_world" where
  "vfs_follow_child_mount path s =
     (if \<not> vfs_path_valid path s then ((VFS_INVALID_ARGUMENT, path), s)
      else case vfs_child_mount (path_mount path) (path_node path) s of
        None \<Rightarrow> ((VFS_OK, path), s)
      | Some child \<Rightarrow>
          vfs_path_replace path (Some child) (fs_root (filesystem_at s (mount_filesystem (vfs_mounts s ! child)))) s)"

definition vfs_step_parent :: "vfs_path \<Rightarrow> 'b vfs_world \<Rightarrow> (vfs_result \<times> vfs_path) \<times> 'b vfs_world" where
  "vfs_step_parent path s =
     (if \<not> vfs_path_valid path s then ((VFS_INVALID_ARGUMENT, path), s)
      else if path_node path = fs_root (filesystem_at s (filesystem_of path s)) then
        if path_mount path = Some 0 then ((VFS_OK, path), s)
        else let m = mount_of path s in
          if mount_parent m = None \<or> mount_point m = None \<or> \<not> vfs_mount_valid (mount_parent m) s
          then ((VFS_CORRUPT, path), s)
          else let parent_node = node_parent (node_at s (the (mount_point m))) in
            if \<not> vfs_node_valid_for_filesystem parent_node (mount_filesystem (vfs_mounts s ! the (mount_parent m))) s \<or>
               node_type (node_at s (the parent_node)) \<noteq> NODE_DIRECTORY
            then ((VFS_CORRUPT, path), s)
            else vfs_path_replace path (mount_parent m) parent_node s
      else let parent_node = node_parent (node_of path s) in
        if \<not> vfs_node_valid_for_filesystem parent_node (filesystem_of path s) s \<or>
           node_type (node_at s (the parent_node)) \<noteq> NODE_DIRECTORY
        then ((VFS_CORRUPT, path), s)
        else vfs_path_replace path (path_mount path) parent_node s)"

definition vfs_validate_directory :: "vfs_path \<Rightarrow> 'b vfs_world \<Rightarrow> vfs_result" where
  "vfs_validate_directory path s =
     (if \<not> vfs_path_valid path s then VFS_INVALID_ARGUMENT
      else if node_type (node_of path s) \<noteq> NODE_DIRECTORY then VFS_NOT_DIRECTORY else VFS_OK)"

definition vfs_validate_regular :: "vfs_path \<Rightarrow> 'b vfs_world \<Rightarrow> vfs_result" where
  "vfs_validate_regular path s =
     (if \<not> vfs_path_valid path s then VFS_INVALID_ARGUMENT
      else if node_type (node_of path s) \<noteq> NODE_REGULAR then VFS_NOT_REGULAR else VFS_OK)"

definition vfs_validate_backend_child ::
  "u64 \<Rightarrow> node_ref \<Rightarrow> node_ref \<Rightarrow> vfs_node_type \<Rightarrow> bool \<Rightarrow> 'b vfs_world \<Rightarrow> vfs_result" where
  "vfs_validate_backend_child filesystem directory node expected_type require_type s =
     (if \<not> vfs_node_valid_for_filesystem node filesystem s \<or> node = directory \<or>
         node_parent (node_at s (the node)) \<noteq> directory then VFS_CORRUPT
      else if require_type \<and> node_type (node_at s (the node)) \<noteq> expected_type then VFS_CORRUPT
      else VFS_OK)"

definition vfs_handle_valid :: "vfs_handle \<Rightarrow> 'b vfs_world \<Rightarrow> bool" where
  "vfs_handle_valid handle s \<longleftrightarrow> handle_open handle \<and> handle_access handle AND NOT VFS_ACCESS_MASK = 0 \<and>
     handle_access handle AND VFS_ACCESS_MASK \<noteq> 0 \<and> vfs_path_valid (handle_path handle) s"

definition vfs_filesystem_prepare :: "u64 \<Rightarrow> u64 \<Rightarrow> u64 \<Rightarrow> u64 \<Rightarrow> 'b vfs_world \<Rightarrow> bool \<times> 'b vfs_world" where
  "vfs_filesystem_prepare filesystem ident operations backend_context s =
     (if filesystem = 0 \<or> ident = 0 \<or> operations = 0 then (False, s)
      else (True, put_filesystem filesystem \<lparr>fs_id = ident, fs_operations = operations, fs_root = None,
        fs_backend = backend_context, fs_valid = True\<rparr> s))"

definition vfs_node_prepare ::
  "node_ref \<Rightarrow> u64 \<Rightarrow> u64 \<Rightarrow> vfs_node_type \<Rightarrow> node_ref \<Rightarrow> node_ref \<Rightarrow> 'b vfs_world \<Rightarrow> bool \<times> 'b vfs_world" where
  "vfs_node_prepare node filesystem ident type parent backend_context s =
     (if node = None \<or> filesystem = 0 \<or> \<not> fs_valid (filesystem_at s filesystem) \<or> ident = 0 \<or> \<not> vfs_node_type_valid type
      then (False, s)
      else if (if parent \<noteq> None
               then \<not> vfs_node_valid_for_filesystem parent filesystem s \<or>
                 node_type (node_at s (the parent)) \<noteq> NODE_DIRECTORY \<or> parent = node
               else type \<noteq> NODE_DIRECTORY) then (False, s)
      else (True, put_node (the node) \<lparr>node_id = ident, node_type = type, node_filesystem = filesystem, node_parent = parent,
        node_backend = backend_context, node_references = 0, node_valid = True\<rparr> s))"

definition vfs_filesystem_set_root :: "u64 \<Rightarrow> node_ref \<Rightarrow> 'b vfs_world \<Rightarrow> bool \<times> 'b vfs_world" where
  "vfs_filesystem_set_root filesystem root s =
     (if filesystem = 0 \<or> \<not> fs_valid (filesystem_at s filesystem) \<or> fs_root (filesystem_at s filesystem) \<noteq> None \<or>
         \<not> vfs_node_valid_for_filesystem root filesystem s \<or>
         node_type (node_at s (the root)) \<noteq> NODE_DIRECTORY \<or> node_parent (node_at s (the root)) \<noteq> None then (False, s)
      else (True, put_filesystem filesystem ((filesystem_at s filesystem)\<lparr>fs_root := root\<rparr>)
        (put_node (the root) ((node_at s (the root))\<lparr>node_parent := root\<rparr>) s)))"

definition vfs_init :: "u64 \<Rightarrow> 'b vfs_world \<Rightarrow> vfs_result \<times> 'b vfs_world" where
  "vfs_init root_filesystem s =
     (if vfs_initialized s then (VFS_ALREADY_INITIALIZED, s)
      else if \<not> vfs_filesystem_valid root_filesystem s then (VFS_INVALID_ARGUMENT, s)
      else
        let s = s\<lparr>vfs_mounts := (replicate 8 vfs_mount_clear)[0 := \<lparr>mount_id = 1, mount_filesystem = root_filesystem,
                mount_parent = None, mount_point = None, mount_active = True\<rparr>],
              vfs_next_mount_id := 2, vfs_path_reference_count := 0, vfs_open_handle_count := 0,
              vfs_initialized := True\<rparr>
        in case vfs_node_retain (fs_root (filesystem_at s root_filesystem)) s of (result, s) \<Rightarrow>
          if result \<noteq> VFS_OK
          then (result, s\<lparr>vfs_mounts := (vfs_mounts s)[0 := vfs_mount_clear], vfs_initialized := False\<rparr>)
          else (VFS_OK, s))"

text \<open>The loop of \<open>vfs_shutdown\<close>, over the mounts from the last one on.\<close>

fun shutdown_mounts :: "nat \<Rightarrow> 'b vfs_world \<Rightarrow> vfs_result \<times> 'b vfs_world" where
  "shutdown_mounts 0 s = (VFS_OK, s)"
| "shutdown_mounts (Suc i) s =
     (let m = vfs_mounts s ! i in
      if \<not> mount_active m then shutdown_mounts i s
      else case vfs_node_release (fs_root (filesystem_at s (mount_filesystem m))) s of (r, s) \<Rightarrow>
        if r \<noteq> VFS_OK then (VFS_CORRUPT, s)
        else case (if mount_point m \<noteq> None then vfs_node_release (mount_point m) s else (VFS_OK, s)) of (r, s) \<Rightarrow>
          if r \<noteq> VFS_OK then (VFS_CORRUPT, s)
          else shutdown_mounts i (s\<lparr>vfs_mounts := (vfs_mounts s)[i := vfs_mount_clear]\<rparr>))"

definition vfs_shutdown :: "'b vfs_world \<Rightarrow> vfs_result \<times> 'b vfs_world" where
  "vfs_shutdown s =
     (if \<not> vfs_initialized s then (VFS_NOT_INITIALIZED, s)
      else if vfs_path_reference_count s \<noteq> 0 \<or> vfs_open_handle_count s \<noteq> 0 then (VFS_BUSY, s)
      else case shutdown_mounts 8 s of (result, s) \<Rightarrow>
        if result \<noteq> VFS_OK then (result, s)
        else (VFS_OK, s\<lparr>vfs_initialized := False, vfs_next_mount_id := 0\<rparr>))"

definition vfs_is_initialized :: "'b vfs_world \<Rightarrow> bool" where
  "vfs_is_initialized s = vfs_initialized s"

definition vfs_get_stats :: "'b vfs_world \<Rightarrow> vfs_stats option" where
  "vfs_get_stats s =
     (if \<not> vfs_initialized s then None
      else Some \<lparr>stats_mount_count = foldl (\<lambda>n i. if mount_active (vfs_mounts s ! i) then n + 1 else n) 0 [0..<8],
        stats_path_references = vfs_path_reference_count s, stats_open_handles = vfs_open_handle_count s\<rparr>)"

definition vfs_mount_filesystem :: "u64 \<Rightarrow> vfs_path \<Rightarrow> 'b vfs_world \<Rightarrow> vfs_result \<times> 'b vfs_world" where
  "vfs_mount_filesystem filesystem target s =
     (if \<not> vfs_initialized s then (VFS_NOT_INITIALIZED, s)
      else let result = vfs_validate_directory target s in
        if result \<noteq> VFS_OK \<or> \<not> vfs_filesystem_valid filesystem s
        then (if result \<noteq> VFS_OK then result else VFS_INVALID_ARGUMENT, s)
        else if path_node target = fs_root (filesystem_at s (filesystem_of target s)) \<or> filesystem = filesystem_of target s
        then (VFS_MOUNT_CONFLICT, s)
        else if vfs_filesystem_is_mounted filesystem s then (VFS_ALREADY_MOUNTED, s)
        else if vfs_child_mount (path_mount target) (path_node target) s \<noteq> None then (VFS_MOUNT_CONFLICT, s)
        else if vfs_next_mount_id s = UINT64_MAX then (VFS_OVERFLOW, s)
        else case find (\<lambda>i. \<not> mount_active (vfs_mounts s ! i)) [1..<8] of
          None \<Rightarrow> (VFS_NO_SPACE, s)
        | Some slot \<Rightarrow> (case vfs_node_retain (path_node target) s of (result, s) \<Rightarrow>
            if result \<noteq> VFS_OK then (result, s)
            else case vfs_node_retain (fs_root (filesystem_at s filesystem)) s of (result, s) \<Rightarrow>
              if result \<noteq> VFS_OK then (result, snd (vfs_node_release (path_node target) s))
              else (VFS_OK, s\<lparr>vfs_mounts := (vfs_mounts s)[slot := \<lparr>mount_id = vfs_next_mount_id s,
                  mount_filesystem = filesystem, mount_parent = path_mount target, mount_point = path_node target,
                  mount_active = True\<rparr>], vfs_next_mount_id := vfs_next_mount_id s + 1\<rparr>)))"

section \<open>Path resolution\<close>

text \<open>
  The body of the loop for a component that is neither \<open>.\<close> nor \<open>..\<close>: on failure the
  code has released the path it holds.
\<close>

definition resolve_component :: "(u64 \<Rightarrow> 'b vfs_operations) \<Rightarrow> u8 list \<Rightarrow> vfs_path \<Rightarrow> 'b vfs_world \<Rightarrow>
    (vfs_result \<times> vfs_path) \<times> 'b vfs_world" where
  "resolve_component ops component current s =
     (if node_type (node_of current s) \<noteq> NODE_DIRECTORY then ((VFS_NOT_DIRECTORY, current), drop_path current s)
      else case op_lookup (operations_of ops current s) of
        None \<Rightarrow> ((VFS_NOT_SUPPORTED, current), drop_path current s)
      | Some lookup \<Rightarrow> (case lookup (filesystem_of current s) (path_node current) component s of ((result, node), s) \<Rightarrow>
          if result \<noteq> VFS_OK then ((result, current), drop_path current s)
          else let result = vfs_validate_backend_child (filesystem_of current s) (path_node current) node NODE_REGULAR False s in
            if result \<noteq> VFS_OK then ((result, current), drop_path current s)
            else case vfs_path_acquire (path_mount current) node null_path s of ((result, next), s) \<Rightarrow>
              if result \<noteq> VFS_OK then ((result, current), drop_path current s)
              else case vfs_path_release current s of ((result, current), s) \<Rightarrow>
                if result \<noteq> VFS_OK then ((result, current), drop_path next s)
                else case vfs_follow_child_mount next s of ((result, current), s) \<Rightarrow>
                  if result \<noteq> VFS_OK then ((result, current), drop_path current s)
                  else ((VFS_OK, current), s)))"

text \<open>The body of the loop once the next component is cut out.\<close>

definition resolve_step :: "(u64 \<Rightarrow> 'b vfs_operations) \<Rightarrow> u8 list \<Rightarrow> vfs_path \<Rightarrow> 'b vfs_world \<Rightarrow>
    (vfs_result \<times> vfs_path) \<times> 'b vfs_world" where
  "resolve_step ops component current s =
     (if length component > VFS_NAME_MAX then ((VFS_NAME_TOO_LONG, current), drop_path current s)
      else if component = [DOT] then ((VFS_OK, current), s)
      else if component = [DOT, DOT] then
        (case vfs_step_parent current s of ((result, current), s) \<Rightarrow>
          if result \<noteq> VFS_OK then ((result, current), drop_path current s) else ((VFS_OK, current), s))
      else resolve_component ops component current s)"

text \<open>The loop, on the text from the index on.\<close>

function resolve_from :: "(u64 \<Rightarrow> 'b vfs_operations) \<Rightarrow> u8 list \<Rightarrow> vfs_path \<Rightarrow> 'b vfs_world \<Rightarrow>
    (vfs_result \<times> vfs_path) \<times> 'b vfs_world" where
  "resolve_from ops text current s =
     (let text = dropWhile (\<lambda>c. c = SLASH) text in
      if text = [] then ((VFS_OK, current), s)
      else case resolve_step ops (takeWhile (\<lambda>c. c \<noteq> SLASH) text) current s of ((result, current), s) \<Rightarrow>
        if result \<noteq> VFS_OK then ((result, current), s)
        else resolve_from ops (dropWhile (\<lambda>c. c \<noteq> SLASH) text) current s)"
  by pat_completeness auto

lemma resolve_rest_shorter:
  "dropWhile (\<lambda>c. c = a) xs \<noteq> [] \<Longrightarrow>
    length (dropWhile (\<lambda>c. c \<noteq> a) (dropWhile (\<lambda>c. c = a) xs)) < length xs"
proof -
  assume "dropWhile (\<lambda>c. c = a) xs \<noteq> []"
  then obtain c cs where d: "dropWhile (\<lambda>c. c = a) xs = c # cs" by (cases "dropWhile (\<lambda>c. c = a) xs") auto
  then have "c \<noteq> a" using hd_dropWhile [of "\<lambda>c. c = a" xs] by simp
  then have "length (dropWhile (\<lambda>c. c \<noteq> a) (c # cs)) \<le> length cs" by (simp add: length_dropWhile_le)
  moreover have "length (c # cs) \<le> length xs" using length_dropWhile_le [of "\<lambda>c. c = a" xs] by (simp add: d)
  ultimately show ?thesis by (simp add: d)
qed

termination resolve_from
  by (relation "measure (\<lambda>(ops, text, current, s). length text)") (auto intro: resolve_rest_shorter)

declare resolve_from.simps [simp del]

definition vfs_resolve :: "(u64 \<Rightarrow> 'b vfs_operations) \<Rightarrow> vfs_path option \<Rightarrow> u8 list option \<Rightarrow> vfs_path \<Rightarrow> 'b vfs_world \<Rightarrow>
    (vfs_result \<times> vfs_path) \<times> 'b vfs_world" where
  "vfs_resolve ops start path path_out s =
     (if \<not> vfs_initialized s \<or> path = None \<or> path_mount path_out \<noteq> None \<or> path_node path_out \<noteq> None
      then ((if vfs_initialized s then VFS_INVALID_ARGUMENT else VFS_NOT_INITIALIZED, path_out), s)
      else case vfs_bounded_length path VFS_PATH_MAX of
        None \<Rightarrow> ((VFS_PATH_TOO_LONG, path_out), s)
      | Some len \<Rightarrow>
          if len = 0 then ((VFS_EMPTY_PATH, path_out), s)
          else if the path ! 0 \<noteq> SLASH \<and> (case start of None \<Rightarrow> True | Some p \<Rightarrow> \<not> vfs_path_valid p s)
          then ((VFS_INVALID_ARGUMENT, path_out), s)
          else case (if the path ! 0 = SLASH then vfs_get_root null_path s
                     else vfs_path_clone (the start) null_path s) of ((result, current), s) \<Rightarrow>
            if result \<noteq> VFS_OK then ((result, path_out), s)
            else case resolve_from ops (the path) current s of ((result, current), s) \<Rightarrow>
              if result \<noteq> VFS_OK then ((result, path_out), s) else ((VFS_OK, current), s))"

text \<open>Of the process the code reads whether it is alive and its current directory, if it has one.\<close>

definition vfs_resolve_process :: "(u64 \<Rightarrow> 'b vfs_operations) \<Rightarrow> (bool \<times> vfs_path option) option \<Rightarrow> u8 list option \<Rightarrow>
    vfs_path \<Rightarrow> 'b vfs_world \<Rightarrow> (vfs_result \<times> vfs_path) \<times> 'b vfs_world" where
  "vfs_resolve_process ops process path path_out s = (case process of
     None \<Rightarrow> ((VFS_INVALID_ARGUMENT, path_out), s)
   | Some (alive, cwd) \<Rightarrow>
       if \<not> alive \<or> path = None then ((VFS_INVALID_ARGUMENT, path_out), s)
       else if the path \<noteq> [] \<and> the path ! 0 = SLASH then vfs_resolve ops None path path_out s
       else if cwd = None then ((VFS_NO_CWD, path_out), s)
       else vfs_resolve ops cwd path path_out s)"

section \<open>Directories\<close>

definition vfs_create_common :: "(u64 \<Rightarrow> 'b vfs_operations) \<Rightarrow> vfs_path \<Rightarrow> u8 list option \<Rightarrow> vfs_path \<Rightarrow> bool \<Rightarrow>
    'b vfs_world \<Rightarrow> (vfs_result \<times> vfs_path) \<times> 'b vfs_world" where
  "vfs_create_common ops directory name path_out directory_requested s =
     (let result = vfs_validate_directory directory s in
      if result \<noteq> VFS_OK then ((result, path_out), s)
      else if path_mount path_out \<noteq> None \<or> path_node path_out \<noteq> None then ((VFS_INVALID_ARGUMENT, path_out), s)
      else let result = vfs_validate_name name in
        if result \<noteq> VFS_OK then ((result, path_out), s)
        else case (if directory_requested then op_mkdir (operations_of ops directory s)
                   else op_create (operations_of ops directory s)) of
          None \<Rightarrow> ((VFS_NOT_SUPPORTED, path_out), s)
        | Some create \<Rightarrow> (case create (filesystem_of directory s) (path_node directory) (the name) s of ((result, node), s) \<Rightarrow>
            if result \<noteq> VFS_OK then ((result, path_out), s)
            else let result = vfs_validate_backend_child (filesystem_of directory s) (path_node directory) node
                   (if directory_requested then NODE_DIRECTORY else NODE_REGULAR) True s in
              if result \<noteq> VFS_OK then ((result, path_out), s)
              else vfs_path_acquire (path_mount directory) node path_out s))"

definition vfs_create_at :: "(u64 \<Rightarrow> 'b vfs_operations) \<Rightarrow> vfs_path \<Rightarrow> u8 list option \<Rightarrow> vfs_path \<Rightarrow>
    'b vfs_world \<Rightarrow> (vfs_result \<times> vfs_path) \<times> 'b vfs_world" where
  "vfs_create_at ops directory name path_out s = vfs_create_common ops directory name path_out False s"

definition vfs_mkdir_at :: "(u64 \<Rightarrow> 'b vfs_operations) \<Rightarrow> vfs_path \<Rightarrow> u8 list option \<Rightarrow> vfs_path \<Rightarrow>
    'b vfs_world \<Rightarrow> (vfs_result \<times> vfs_path) \<times> 'b vfs_world" where
  "vfs_mkdir_at ops directory name path_out s = vfs_create_common ops directory name path_out True s"

definition vfs_remove_common :: "(u64 \<Rightarrow> 'b vfs_operations) \<Rightarrow> vfs_path \<Rightarrow> u8 list option \<Rightarrow> bool \<Rightarrow>
    'b vfs_world \<Rightarrow> vfs_result \<times> 'b vfs_world" where
  "vfs_remove_common ops directory name directory_requested s =
     (let result = vfs_validate_directory directory s in
      if result \<noteq> VFS_OK then (result, s)
      else let result = vfs_validate_name name in
        if result \<noteq> VFS_OK then (result, s)
        else case (if directory_requested then op_rmdir (operations_of ops directory s)
                   else op_unlink (operations_of ops directory s)) of
          None \<Rightarrow> (VFS_NOT_SUPPORTED, s)
        | Some remove \<Rightarrow> remove (filesystem_of directory s) (path_node directory) (the name) s)"

definition vfs_unlink_at :: "(u64 \<Rightarrow> 'b vfs_operations) \<Rightarrow> vfs_path \<Rightarrow> u8 list option \<Rightarrow>
    'b vfs_world \<Rightarrow> vfs_result \<times> 'b vfs_world" where
  "vfs_unlink_at ops directory name s = vfs_remove_common ops directory name False s"

definition vfs_rmdir_at :: "(u64 \<Rightarrow> 'b vfs_operations) \<Rightarrow> vfs_path \<Rightarrow> u8 list option \<Rightarrow>
    'b vfs_world \<Rightarrow> vfs_result \<times> 'b vfs_world" where
  "vfs_rmdir_at ops directory name s = vfs_remove_common ops directory name True s"

definition vfs_rename_at :: "(u64 \<Rightarrow> 'b vfs_operations) \<Rightarrow> vfs_path \<Rightarrow> u8 list option \<Rightarrow> vfs_path \<Rightarrow> u8 list option \<Rightarrow>
    'b vfs_world \<Rightarrow> vfs_result \<times> 'b vfs_world" where
  "vfs_rename_at ops old_directory old_name new_directory new_name s =
     (let r1 = vfs_validate_directory old_directory s; r2 = vfs_validate_directory new_directory s;
          r3 = vfs_validate_name old_name; r4 = vfs_validate_name new_name in
      if r1 \<noteq> VFS_OK then (r1, s) else if r2 \<noteq> VFS_OK then (r2, s) else if r3 \<noteq> VFS_OK then (r3, s)
      else if r4 \<noteq> VFS_OK then (r4, s)
      else if path_mount old_directory \<noteq> path_mount new_directory \<or>
              filesystem_of old_directory s \<noteq> filesystem_of new_directory s then (VFS_CROSS_FILESYSTEM, s)
      else case op_rename (operations_of ops old_directory s) of
        None \<Rightarrow> (VFS_NOT_SUPPORTED, s)
      | Some rename \<Rightarrow> rename (filesystem_of old_directory s) (path_node old_directory) (the old_name)
          (path_node new_directory) (the new_name) s)"

definition vfs_truncate_path :: "(u64 \<Rightarrow> 'b vfs_operations) \<Rightarrow> vfs_path \<Rightarrow> u64 \<Rightarrow>
    'b vfs_world \<Rightarrow> vfs_result \<times> 'b vfs_world" where
  "vfs_truncate_path ops path new_size s =
     (let result = vfs_validate_regular path s in
      if result \<noteq> VFS_OK then (result, s)
      else case op_truncate (operations_of ops path s) of
        None \<Rightarrow> (VFS_NOT_SUPPORTED, s)
      | Some resize \<Rightarrow> resize (filesystem_of path s) (path_node path) new_size s)"

text \<open>\<open>entry\<close> is what \<open>*entry_out\<close> holds before the call.\<close>

definition vfs_readdir_path :: "(u64 \<Rightarrow> 'b vfs_operations) \<Rightarrow> vfs_path \<Rightarrow> u64 \<Rightarrow> vfs_dirent \<Rightarrow>
    'b vfs_world \<Rightarrow> (vfs_result \<times> vfs_dirent) \<times> 'b vfs_world" where
  "vfs_readdir_path ops directory index entry s =
     (let result = vfs_validate_directory directory s in
      if result \<noteq> VFS_OK then ((result, entry), s)
      else case op_readdir (operations_of ops directory s) of
        None \<Rightarrow> ((VFS_NOT_SUPPORTED, entry), s)
      | Some readdir \<Rightarrow>
          (case readdir (filesystem_of directory s) (path_node directory) index
              (entry\<lparr>dirent_node_id := 0, dirent_type := NODE_NONE, dirent_name_length := 0,
                dirent_name := (dirent_name entry)[0 := 0]\<rparr>) s of ((result, entry), s) \<Rightarrow>
            if result \<noteq> VFS_OK then ((result, entry), s)
            else let len = unat (dirent_name_length entry); name = dirent_name entry in
              if dirent_node_id entry = 0 \<or> \<not> vfs_node_type_valid (dirent_type entry) \<or> len = 0 \<or> len > VFS_NAME_MAX \<or>
                 name ! len \<noteq> 0 then ((VFS_CORRUPT, entry), s)
              else if len = 1 \<and> name ! 0 = DOT \<or> len = 2 \<and> name ! 0 = DOT \<and> name ! 1 = DOT then ((VFS_CORRUPT, entry), s)
              else if list_ex (\<lambda>i. name ! i = SLASH) [0..<len] then ((VFS_CORRUPT, entry), s)
              else ((VFS_OK, entry), s)))"

section \<open>Handles\<close>

definition vfs_handle_open :: "vfs_path \<Rightarrow> u32 \<Rightarrow> vfs_handle \<Rightarrow> 'b vfs_world \<Rightarrow> (vfs_result \<times> vfs_handle) \<times> 'b vfs_world" where
  "vfs_handle_open path access handle s =
     (let result = vfs_validate_regular path s in
      if result \<noteq> VFS_OK then ((result, handle), s)
      else if handle_open handle \<or> path_mount (handle_path handle) \<noteq> None \<or> path_node (handle_path handle) \<noteq> None \<or>
              access AND VFS_ACCESS_MASK = 0 \<or> access AND NOT VFS_ACCESS_MASK \<noteq> 0 then ((VFS_INVALID_ARGUMENT, handle), s)
      else if vfs_open_handle_count s = UINT64_MAX then ((VFS_OVERFLOW, handle), s)
      else case vfs_path_clone path (handle_path handle) s of ((result, p), s) \<Rightarrow>
        if result \<noteq> VFS_OK then ((result, handle\<lparr>handle_path := p\<rparr>), s)
        else ((VFS_OK, \<lparr>handle_path = p, handle_offset = 0, handle_access = access, handle_open = True\<rparr>),
              s\<lparr>vfs_open_handle_count := vfs_open_handle_count s + 1\<rparr>))"

text \<open>
  \<open>len\<close> is the length of the caller's buffer. The outputs are the result, the handle, the
  bytes stored in the buffer and \<open>*transferred_out\<close>.
\<close>

definition vfs_handle_read :: "(u64 \<Rightarrow> 'b vfs_operations) \<Rightarrow> vfs_handle \<Rightarrow> bool \<Rightarrow> u64 \<Rightarrow> 'b vfs_world \<Rightarrow>
    (vfs_result \<times> vfs_handle \<times> u8 list \<times> u64) \<times> 'b vfs_world" where
  "vfs_handle_read ops handle buffer_null len s =
     (if \<not> vfs_handle_valid handle s \<or> buffer_null then ((VFS_INVALID_ARGUMENT, handle, [], 0), s)
      else if handle_access handle AND VFS_ACCESS_READ = 0 then ((VFS_ACCESS_DENIED, handle, [], 0), s)
      else if len > VFS_IO_MAX then ((VFS_INVALID_ARGUMENT, handle, [], 0), s)
      else if len > UINT64_MAX - handle_offset handle then ((VFS_OVERFLOW, handle, [], 0), s)
      else case op_read (operations_of ops (handle_path handle) s) of
        None \<Rightarrow> ((VFS_NOT_SUPPORTED, handle, [], 0), s)
      | Some read \<Rightarrow>
          (case read (filesystem_of (handle_path handle) s) (path_node (handle_path handle)) (handle_offset handle) len s of
            ((result, bytes, transferred), s) \<Rightarrow>
            if result \<noteq> VFS_OK then ((result, handle, bytes, 0), s)
            else if transferred > len then ((VFS_CORRUPT, handle, bytes, 0), s)
            else ((VFS_OK, handle\<lparr>handle_offset := handle_offset handle + transferred\<rparr>, bytes, transferred), s)))"

definition vfs_handle_write :: "(u64 \<Rightarrow> 'b vfs_operations) \<Rightarrow> vfs_handle \<Rightarrow> u8 list option \<Rightarrow> 'b vfs_world \<Rightarrow>
    (vfs_result \<times> vfs_handle \<times> u64) \<times> 'b vfs_world" where
  "vfs_handle_write ops handle buffer s =
     (if \<not> vfs_handle_valid handle s \<or> buffer = None then ((VFS_INVALID_ARGUMENT, handle, 0), s)
      else let len = word_of_nat (length (the buffer)) :: u64 in
        if handle_access handle AND VFS_ACCESS_WRITE = 0 then ((VFS_ACCESS_DENIED, handle, 0), s)
        else if len > VFS_IO_MAX then ((VFS_INVALID_ARGUMENT, handle, 0), s)
        else if len > UINT64_MAX - handle_offset handle then ((VFS_OVERFLOW, handle, 0), s)
        else case op_write (operations_of ops (handle_path handle) s) of
          None \<Rightarrow> ((VFS_NOT_SUPPORTED, handle, 0), s)
        | Some write \<Rightarrow>
            (case write (filesystem_of (handle_path handle) s) (path_node (handle_path handle)) (handle_offset handle)
                (the buffer) s of ((result, transferred), s) \<Rightarrow>
              if result \<noteq> VFS_OK then ((result, handle, 0), s)
              else if transferred > len then ((VFS_CORRUPT, handle, 0), s)
              else ((VFS_OK, handle\<lparr>handle_offset := handle_offset handle + transferred\<rparr>, transferred), s)))"

definition vfs_handle_get_offset :: "vfs_handle \<Rightarrow> 'b vfs_world \<Rightarrow> vfs_result \<times> u64 option" where
  "vfs_handle_get_offset handle s =
     (if \<not> vfs_handle_valid handle s then (VFS_INVALID_ARGUMENT, None) else (VFS_OK, Some (handle_offset handle)))"

definition vfs_handle_close :: "vfs_handle \<Rightarrow> 'b vfs_world \<Rightarrow> (vfs_result \<times> vfs_handle) \<times> 'b vfs_world" where
  "vfs_handle_close handle s =
     (if \<not> vfs_handle_valid handle s \<or> vfs_open_handle_count s = 0 then ((VFS_INVALID_ARGUMENT, handle), s)
      else case vfs_path_release (handle_path handle) s of ((result, p), s) \<Rightarrow>
        if result \<noteq> VFS_OK then ((result, handle\<lparr>handle_path := p\<rparr>), s)
        else ((VFS_OK, \<lparr>handle_path = p, handle_offset = 0, handle_access = 0, handle_open = False\<rparr>),
              s\<lparr>vfs_open_handle_count := vfs_open_handle_count s - 1\<rparr>))"

end
