(* ===== verification/Ramfs.thy ===== *)
theory Ramfs
  imports Vfs
begin

text \<open>
  kernel/core/ramfs.c: file systems in memory, a back end of kernel/core/vfs.c. A file
  system is known by its address, which is also that of the \<open>struct vfs_filesystem\<close> it
  begins with; the \<open>struct vfs_node\<close> of its node \<open>i\<close> is \<open>node_at (R, i)\<close>, the rest of the
  node is a record of this theory, with the bytes of the block \<open>data\<close> points to. The
  kernel heap and the address of the table of operations are the record \<open>ramfs_env\<close>.
\<close>

section \<open>State\<close>

abbreviation (input) RAMFS_MAX_FILESYSTEMS :: nat where "RAMFS_MAX_FILESYSTEMS \<equiv> 8"
abbreviation (input) RAMFS_MAX_NODES :: nat where "RAMFS_MAX_NODES \<equiv> 32"
abbreviation (input) RAMFS_FILE_MAX :: u64 where "RAMFS_FILE_MAX \<equiv> 8192"
abbreviation (input) RAMFS_TOTAL_DATA_MAX :: u64 where "RAMFS_TOTAL_DATA_MAX \<equiv> 32768"

record ramfs_node =
  rn_owner :: u64
  rn_name :: "u8 list"
  rn_name_length :: u64
  rn_data :: u64
  rn_bytes :: "u8 list"
  rn_size :: u64
  rn_capacity :: u64
  rn_occupied :: bool

record ramfs =
  ramfs_nodes :: "ramfs_node list"
  ramfs_next_node_id :: u64
  ramfs_registered :: bool

record 'm ramfs_state =
  ramfs_instances :: "u64 list"
  ramfs_at :: "u64 \<Rightarrow> ramfs"
  ramfs_machine :: 'm

record 'm ramfs_env =
  ram_kmalloc :: "u64 \<Rightarrow> 'm \<Rightarrow> u64 \<times> 'm"
  ram_kfree :: "u64 \<Rightarrow> 'm \<Rightarrow> bool \<times> 'm"
  ram_operations :: u64

record ramfs_stats =
  live_nodes :: u64
  live_directories :: u64
  live_files :: u64
  live_file_bytes :: u64
  allocated_file_capacity :: u64

type_synonym 'm ram_world = "'m ramfs_state vfs_world"

definition ram_of :: "u64 \<Rightarrow> 'm ram_world \<Rightarrow> ramfs" where
  "ram_of R s = ramfs_at (backend s) R"

definition ram_node :: "u64 \<Rightarrow> nat \<Rightarrow> 'm ram_world \<Rightarrow> ramfs_node" where
  "ram_node R i s = ramfs_nodes (ram_of R s) ! i"

definition put_ram :: "u64 \<Rightarrow> ramfs \<Rightarrow> 'm ram_world \<Rightarrow> 'm ram_world" where
  "put_ram R ram s = s\<lparr>backend := (backend s)\<lparr>ramfs_at := (ramfs_at (backend s))(R := ram)\<rparr>\<rparr>"

definition put_ram_node :: "u64 \<Rightarrow> nat \<Rightarrow> ramfs_node \<Rightarrow> 'm ram_world \<Rightarrow> 'm ram_world" where
  "put_ram_node R i node s = put_ram R ((ram_of R s)\<lparr>ramfs_nodes := (ramfs_nodes (ram_of R s))[i := node]\<rparr>) s"

definition ram_alloc :: "'m ramfs_env \<Rightarrow> u64 \<Rightarrow> 'm ram_world \<Rightarrow> u64 \<times> 'm ram_world" where
  "ram_alloc env n s = (case ram_kmalloc env n (ramfs_machine (backend s)) of (address, m) \<Rightarrow>
     (address, s\<lparr>backend := (backend s)\<lparr>ramfs_machine := m\<rparr>\<rparr>))"

definition ram_free :: "'m ramfs_env \<Rightarrow> u64 \<Rightarrow> 'm ram_world \<Rightarrow> bool \<times> 'm ram_world" where
  "ram_free env address s = (case ram_kfree env address (ramfs_machine (backend s)) of (freed, m) \<Rightarrow>
     (freed, s\<lparr>backend := (backend s)\<lparr>ramfs_machine := m\<rparr>\<rparr>))"

section \<open>Nodes\<close>

text \<open>Zeroing or filling \<open>length\<close> bytes of a buffer from \<open>at\<close> on.\<close>

definition ramfs_zero_bytes :: "nat \<Rightarrow> nat \<Rightarrow> u8 list \<Rightarrow> u8 list" where
  "ramfs_zero_bytes from_index len destination = write_cells from_index (\<lambda>_. 0) len destination"

definition ramfs_copy_bytes :: "nat \<Rightarrow> u8 list \<Rightarrow> nat \<Rightarrow> u8 list \<Rightarrow> u8 list" where
  "ramfs_copy_bytes from_index source len destination = write_cells from_index (\<lambda>k. source ! k) len destination"

definition cleared_vfs_node :: vfs_node where
  "cleared_vfs_node = \<lparr>node_id = 0, node_type = NODE_NONE, node_filesystem = 0, node_parent = None, node_backend = None,
     node_references = 0, node_valid = False\<rparr>"

definition cleared_ram_node :: ramfs_node where
  "cleared_ram_node = \<lparr>rn_owner = 0, rn_name = replicate 256 0, rn_name_length = 0, rn_data = 0, rn_bytes = [],
     rn_size = 0, rn_capacity = 0, rn_occupied = False\<rparr>"

definition ramfs_node_clear :: "u64 \<Rightarrow> nat \<Rightarrow> 'm ram_world \<Rightarrow> 'm ram_world" where
  "ramfs_node_clear R i s = put_ram_node R i cleared_ram_node (put_node (R, i) cleared_vfs_node s)"

definition ramfs_instance_from_pointer :: "u64 \<Rightarrow> 'm ram_world \<Rightarrow> u64" where
  "ramfs_instance_from_pointer candidate s =
     (if candidate = 0 then 0
      else case find (\<lambda>i. ramfs_instances (backend s) ! i = candidate) [0..<8] of
        None \<Rightarrow> 0 | Some i \<Rightarrow> ramfs_instances (backend s) ! i)"

definition ramfs_instance_from_filesystem :: "'m ramfs_env \<Rightarrow> u64 \<Rightarrow> 'm ram_world \<Rightarrow> u64" where
  "ramfs_instance_from_filesystem env filesystem s =
     (if filesystem = 0 then 0
      else case find (\<lambda>i. ramfs_instances (backend s) ! i \<noteq> 0 \<and> ramfs_instances (backend s) ! i = filesystem) [0..<8] of
        None \<Rightarrow> 0
      | Some i \<Rightarrow> let candidate = ramfs_instances (backend s) ! i; fs = filesystem_at s candidate in
          if \<not> ramfs_registered (ram_of candidate s) \<or> \<not> fs_valid fs \<or> fs_operations fs \<noteq> ram_operations env \<or>
             fs_backend fs \<noteq> candidate then 0 else candidate)"

text \<open>The index of a node of the file system \<open>R\<close>, if it is a valid one.\<close>

definition ramfs_node_from_vfs :: "u64 \<Rightarrow> node_ref \<Rightarrow> 'm ram_world \<Rightarrow> nat option" where
  "ramfs_node_from_vfs R node s = (case node of
     None \<Rightarrow> None
   | Some (object, i) \<Rightarrow>
       if R = 0 \<or> object \<noteq> R \<or> i \<ge> 32 then None
       else let vfs = node_at s (R, i); candidate = ram_node R i s in
         if \<not> rn_occupied candidate \<or> rn_owner candidate \<noteq> R \<or> \<not> node_valid vfs \<or> node_id vfs = 0 \<or>
            node_filesystem vfs \<noteq> R \<or> node_backend vfs \<noteq> Some (R, i) \<or>
            node_type vfs \<noteq> NODE_DIRECTORY \<and> node_type vfs \<noteq> NODE_REGULAR then None
         else Some i)"

definition ramfs_directory_from_vfs :: "u64 \<Rightarrow> node_ref \<Rightarrow> 'm ram_world \<Rightarrow> nat option" where
  "ramfs_directory_from_vfs R node s = (case ramfs_node_from_vfs R node s of
     None \<Rightarrow> None
   | Some i \<Rightarrow> if node_type (node_at s (R, i)) \<noteq> NODE_DIRECTORY then None else Some i)"

definition ramfs_regular_from_vfs :: "u64 \<Rightarrow> node_ref \<Rightarrow> 'm ram_world \<Rightarrow> nat option" where
  "ramfs_regular_from_vfs R node s = (case ramfs_node_from_vfs R node s of
     None \<Rightarrow> None
   | Some i \<Rightarrow> if node_type (node_at s (R, i)) \<noteq> NODE_REGULAR then None else Some i)"

definition ramfs_validate_name :: "u8 list \<Rightarrow> vfs_result" where
  "ramfs_validate_name name =
     (if length name = 0 then VFS_INVALID_ARGUMENT
      else if length name > VFS_NAME_MAX then VFS_NAME_TOO_LONG
      else if length name = 1 \<and> name ! 0 = DOT \<or> length name = 2 \<and> name ! 0 = DOT \<and> name ! 1 = DOT then VFS_INVALID_ARGUMENT
      else if list_ex (\<lambda>i. name ! i = SLASH \<or> name ! i = 0) [0..<length name] then VFS_INVALID_ARGUMENT
      else VFS_OK)"

definition ramfs_names_equal :: "ramfs_node \<Rightarrow> u8 list \<Rightarrow> bool" where
  "ramfs_names_equal node name \<longleftrightarrow> rn_name_length node = word_of_nat (length name) \<and>
     list_all (\<lambda>i. rn_name node ! i = name ! i) [0..<length name]"

definition is_child :: "u64 \<Rightarrow> nat \<Rightarrow> nat \<Rightarrow> 'm ram_world \<Rightarrow> bool" where
  "is_child R directory i s \<longleftrightarrow> rn_occupied (ram_node R i s) \<and> node_valid (node_at s (R, i)) \<and>
     node_parent (node_at s (R, i)) = Some (R, directory)"

definition ramfs_find_child :: "u64 \<Rightarrow> nat \<Rightarrow> u8 list \<Rightarrow> 'm ram_world \<Rightarrow> nat option" where
  "ramfs_find_child R directory name s =
     find (\<lambda>i. is_child R directory i s \<and> ramfs_names_equal (ram_node R i s) name) [1..<32]"

definition ramfs_directory_has_children :: "u64 \<Rightarrow> nat \<Rightarrow> 'm ram_world \<Rightarrow> bool" where
  "ramfs_directory_has_children R directory s = list_ex (\<lambda>i. is_child R directory i s) [1..<32]"

definition ramfs_find_free_node :: "u64 \<Rightarrow> 'm ram_world \<Rightarrow> nat option" where
  "ramfs_find_free_node R s = find (\<lambda>i. \<not> rn_occupied (ram_node R i s)) [1..<32]"

section \<open>File data\<close>

text \<open>The loop of \<open>ramfs_current_capacity\<close> with the running total.\<close>

fun capacity_from :: "ramfs_node list \<Rightarrow> u64 \<Rightarrow> vfs_result + u64" where
  "capacity_from [] acc = Inr acc"
| "capacity_from (node # nodes) acc =
     (if \<not> rn_occupied node then capacity_from nodes acc
      else if rn_capacity node > RAMFS_FILE_MAX then Inl VFS_CORRUPT
      else if rn_capacity node > UINT64_MAX - acc then Inl VFS_OVERFLOW
      else capacity_from nodes (acc + rn_capacity node))"

definition ramfs_current_capacity :: "u64 \<Rightarrow> 'm ram_world \<Rightarrow> vfs_result + u64" where
  "ramfs_current_capacity R s = capacity_from (ramfs_nodes (ram_of R s)) 0"

text \<open>A replacement buffer: its address (0 for none), its bytes and its capacity.\<close>

definition ramfs_prepare_capacity :: "'m ramfs_env \<Rightarrow> u64 \<Rightarrow> nat \<Rightarrow> u64 \<Rightarrow> 'm ram_world \<Rightarrow>
    (vfs_result \<times> u64 \<times> u8 list \<times> u64) \<times> 'm ram_world" where
  "ramfs_prepare_capacity env R i required_size s =
     (let node = ram_node R i s; none = (0, [], rn_capacity node) in
      if required_size \<le> rn_capacity node then ((VFS_OK, none), s)
      else if required_size > RAMFS_FILE_MAX then ((VFS_NO_SPACE, none), s)
      else case ramfs_current_capacity R s of
        Inl result \<Rightarrow> ((result, none), s)
      | Inr total_capacity \<Rightarrow>
          if total_capacity < rn_capacity node then ((VFS_CORRUPT, none), s)
          else let without_old = total_capacity - rn_capacity node in
            if required_size > RAMFS_TOTAL_DATA_MAX - without_old then ((VFS_NO_SPACE, none), s)
            else case ram_alloc env required_size s of (replacement, s) \<Rightarrow>
              if replacement = 0 then ((VFS_NO_SPACE, none), s)
              else if rn_size node > rn_capacity node then ((VFS_CORRUPT, none), snd (ram_free env replacement s))
              else let zeroed = replicate (unat required_size) 0 in
                if rn_data node \<noteq> 0 \<and> rn_size node \<noteq> 0
                then ((VFS_OK, replacement, ramfs_copy_bytes 0 (rn_bytes node) (unat (rn_size node)) zeroed, required_size), s)
                else if (rn_data node \<noteq> 0) \<noteq> (rn_capacity node \<noteq> 0)
                then ((VFS_CORRUPT, none), snd (ram_free env replacement s))
                else ((VFS_OK, replacement, zeroed, required_size), s))"

text \<open>\<open>bytes\<close> is what the replacement holds.\<close>

definition ramfs_commit_replacement :: "'m ramfs_env \<Rightarrow> u64 \<Rightarrow> nat \<Rightarrow> u64 \<Rightarrow> u8 list \<Rightarrow> u64 \<Rightarrow> 'm ram_world \<Rightarrow>
    vfs_result \<times> 'm ram_world" where
  "ramfs_commit_replacement env R i replacement bytes replacement_capacity s =
     (let node = ram_node R i s in
      if replacement = 0 then (VFS_OK, s)
      else case (if rn_data node \<noteq> 0 then ram_free env (rn_data node) s else (True, s)) of (freed, s) \<Rightarrow>
        if \<not> freed then (VFS_CORRUPT, snd (ram_free env replacement s))
        else (VFS_OK, put_ram_node R i (node\<lparr>rn_data := replacement, rn_bytes := bytes,
          rn_capacity := replacement_capacity\<rparr>) s))"

section \<open>Directories\<close>

definition ramfs_create_node :: "u64 \<Rightarrow> nat \<Rightarrow> u8 list \<Rightarrow> vfs_node_type \<Rightarrow> 'm ram_world \<Rightarrow>
    (vfs_result \<times> node_ref) \<times> 'm ram_world" where
  "ramfs_create_node R directory name type s =
     (let result = ramfs_validate_name name in
      if result \<noteq> VFS_OK then ((result, None), s)
      else if ramfs_find_child R directory name s \<noteq> None then ((VFS_ALREADY_EXISTS, None), s)
      else case ramfs_find_free_node R s of
        None \<Rightarrow> ((VFS_NO_SPACE, None), s)
      | Some slot \<Rightarrow>
          if ramfs_next_node_id (ram_of R s) = UINT64_MAX then ((VFS_OVERFLOW, None), s)
          else
            let ident = ramfs_next_node_id (ram_of R s);
                s = ramfs_node_clear R slot s;
                node = (ram_node R slot s)\<lparr>rn_owner := R, rn_name_length := word_of_nat (length name),
                  rn_name := (write_cells 0 (\<lambda>k. name ! k) (length name) (rn_name (ram_node R slot s)))[length name := 0]\<rparr>;
                s = put_ram_node R slot node s
            in case vfs_node_prepare (Some (R, slot)) R ident type (Some (R, directory)) (Some (R, slot)) s of (prepared, s) \<Rightarrow>
              if \<not> prepared then ((VFS_CORRUPT, None), ramfs_node_clear R slot s)
              else
                let s = put_ram_node R slot ((ram_node R slot s)\<lparr>rn_occupied := True\<rparr>) s;
                    s = put_ram R ((ram_of R s)\<lparr>ramfs_next_node_id := ramfs_next_node_id (ram_of R s) + 1\<rparr>) s
                in ((VFS_OK, Some (R, slot)), s))"

text \<open>The result for a node that is no valid directory, or no valid regular file.\<close>

definition ramfs_wrong_type :: "u64 \<Rightarrow> node_ref \<Rightarrow> vfs_result \<Rightarrow> 'm ram_world \<Rightarrow> vfs_result" where
  "ramfs_wrong_type R node result s = (if ramfs_node_from_vfs R node s = None then VFS_CORRUPT else result)"

definition ramfs_lookup :: "'m ramfs_env \<Rightarrow> u64 \<Rightarrow> node_ref \<Rightarrow> u8 list \<Rightarrow> 'm ram_world \<Rightarrow>
    (vfs_result \<times> node_ref) \<times> 'm ram_world" where
  "ramfs_lookup env filesystem directory name s =
     (let R = ramfs_instance_from_filesystem env filesystem s in
      if R = 0 then ((VFS_INVALID_ARGUMENT, None), s)
      else case ramfs_directory_from_vfs R directory s of
        None \<Rightarrow> ((ramfs_wrong_type R directory VFS_NOT_DIRECTORY s, None), s)
      | Some parent \<Rightarrow>
          let result = ramfs_validate_name name in
          if result \<noteq> VFS_OK then ((result, None), s)
          else case ramfs_find_child R parent name s of
            None \<Rightarrow> ((VFS_NOT_FOUND, None), s)
          | Some child \<Rightarrow> ((VFS_OK, Some (R, child)), s))"

definition ramfs_create :: "'m ramfs_env \<Rightarrow> u64 \<Rightarrow> node_ref \<Rightarrow> u8 list \<Rightarrow> 'm ram_world \<Rightarrow>
    (vfs_result \<times> node_ref) \<times> 'm ram_world" where
  "ramfs_create env filesystem directory name s =
     (let R = ramfs_instance_from_filesystem env filesystem s in
      if R = 0 then ((VFS_INVALID_ARGUMENT, None), s)
      else case ramfs_directory_from_vfs R directory s of
        None \<Rightarrow> ((ramfs_wrong_type R directory VFS_NOT_DIRECTORY s, None), s)
      | Some parent \<Rightarrow> ramfs_create_node R parent name NODE_REGULAR s)"

definition ramfs_mkdir :: "'m ramfs_env \<Rightarrow> u64 \<Rightarrow> node_ref \<Rightarrow> u8 list \<Rightarrow> 'm ram_world \<Rightarrow>
    (vfs_result \<times> node_ref) \<times> 'm ram_world" where
  "ramfs_mkdir env filesystem directory name s =
     (let R = ramfs_instance_from_filesystem env filesystem s in
      if R = 0 then ((VFS_INVALID_ARGUMENT, None), s)
      else case ramfs_directory_from_vfs R directory s of
        None \<Rightarrow> ((ramfs_wrong_type R directory VFS_NOT_DIRECTORY s, None), s)
      | Some parent \<Rightarrow> ramfs_create_node R parent name NODE_DIRECTORY s)"

definition ramfs_remove_node :: "'m ramfs_env \<Rightarrow> u64 \<Rightarrow> nat \<Rightarrow> 'm ram_world \<Rightarrow> vfs_result \<times> 'm ram_world" where
  "ramfs_remove_node env R i s =
     (let node = ram_node R i s in
      if \<not> rn_occupied node \<or> \<not> node_valid (node_at s (R, i)) then (VFS_CORRUPT, s)
      else if node_references (node_at s (R, i)) \<noteq> 0 then (VFS_BUSY, s)
      else case (if rn_data node \<noteq> 0 then ram_free env (rn_data node) s else (True, s)) of (freed, s) \<Rightarrow>
        if \<not> freed then (VFS_CORRUPT, s) else (VFS_OK, ramfs_node_clear R i s))"

definition ramfs_unlink :: "'m ramfs_env \<Rightarrow> u64 \<Rightarrow> node_ref \<Rightarrow> u8 list \<Rightarrow> 'm ram_world \<Rightarrow> vfs_result \<times> 'm ram_world" where
  "ramfs_unlink env filesystem directory name s =
     (let R = ramfs_instance_from_filesystem env filesystem s in
      if R = 0 then (VFS_INVALID_ARGUMENT, s)
      else case ramfs_directory_from_vfs R directory s of
        None \<Rightarrow> (ramfs_wrong_type R directory VFS_NOT_DIRECTORY s, s)
      | Some parent \<Rightarrow>
          let result = ramfs_validate_name name in
          if result \<noteq> VFS_OK then (result, s)
          else case ramfs_find_child R parent name s of
            None \<Rightarrow> (VFS_NOT_FOUND, s)
          | Some child \<Rightarrow>
              if node_type (node_at s (R, child)) \<noteq> NODE_REGULAR then (VFS_NOT_REGULAR, s)
              else ramfs_remove_node env R child s)"

definition ramfs_rmdir :: "'m ramfs_env \<Rightarrow> u64 \<Rightarrow> node_ref \<Rightarrow> u8 list \<Rightarrow> 'm ram_world \<Rightarrow> vfs_result \<times> 'm ram_world" where
  "ramfs_rmdir env filesystem directory name s =
     (let R = ramfs_instance_from_filesystem env filesystem s in
      if R = 0 then (VFS_INVALID_ARGUMENT, s)
      else case ramfs_directory_from_vfs R directory s of
        None \<Rightarrow> (ramfs_wrong_type R directory VFS_NOT_DIRECTORY s, s)
      | Some parent \<Rightarrow>
          let result = ramfs_validate_name name in
          if result \<noteq> VFS_OK then (result, s)
          else case ramfs_find_child R parent name s of
            None \<Rightarrow> (VFS_NOT_FOUND, s)
          | Some child \<Rightarrow>
              if node_type (node_at s (R, child)) \<noteq> NODE_DIRECTORY then (VFS_NOT_DIRECTORY, s)
              else if ramfs_directory_has_children R child s then (VFS_NOT_EMPTY, s)
              else ramfs_remove_node env R child s)"

text \<open>The loop of \<open>ramfs_validate_rename_cycle\<close> with the steps that are left.\<close>

fun rename_cycle_from :: "u64 \<Rightarrow> nat \<Rightarrow> nat \<Rightarrow> nat \<Rightarrow> 'm ram_world \<Rightarrow> vfs_result" where
  "rename_cycle_from R source 0 cursor s = VFS_CORRUPT"
| "rename_cycle_from R source (Suc steps) cursor s =
     (if cursor = source then VFS_INVALID_ARGUMENT
      else if Some (R, cursor) = fs_root (filesystem_at s R) then VFS_OK
      else case ramfs_directory_from_vfs R (node_parent (node_at s (R, cursor))) s of
        None \<Rightarrow> VFS_CORRUPT
      | Some parent \<Rightarrow> rename_cycle_from R source steps parent s)"

definition ramfs_validate_rename_cycle :: "u64 \<Rightarrow> nat \<Rightarrow> nat \<Rightarrow> 'm ram_world \<Rightarrow> vfs_result" where
  "ramfs_validate_rename_cycle R source new_directory s =
     (if node_type (node_at s (R, source)) \<noteq> NODE_DIRECTORY then VFS_OK
      else rename_cycle_from R source RAMFS_MAX_NODES new_directory s)"

definition ramfs_rename :: "'m ramfs_env \<Rightarrow> u64 \<Rightarrow> node_ref \<Rightarrow> u8 list \<Rightarrow> node_ref \<Rightarrow> u8 list \<Rightarrow> 'm ram_world \<Rightarrow>
    vfs_result \<times> 'm ram_world" where
  "ramfs_rename env filesystem old_directory old_name new_directory new_name s =
     (let R = ramfs_instance_from_filesystem env filesystem s in
      if R = 0 then (VFS_INVALID_ARGUMENT, s)
      else case (ramfs_directory_from_vfs R old_directory s, ramfs_directory_from_vfs R new_directory s) of
        (Some old_parent, Some new_parent) \<Rightarrow>
          if ramfs_validate_name old_name \<noteq> VFS_OK then (ramfs_validate_name old_name, s)
          else if ramfs_validate_name new_name \<noteq> VFS_OK then (ramfs_validate_name new_name, s)
          else (case ramfs_find_child R old_parent old_name s of
            None \<Rightarrow> (VFS_NOT_FOUND, s)
          | Some source \<Rightarrow> (case ramfs_find_child R new_parent new_name s of
              Some collision \<Rightarrow>
                if collision = source \<and> old_parent = new_parent \<and> ramfs_names_equal (ram_node R source s) new_name
                then (VFS_OK, s) else (VFS_ALREADY_EXISTS, s)
            | None \<Rightarrow>
                let result = ramfs_validate_rename_cycle R source new_parent s in
                if result \<noteq> VFS_OK then (result, s)
                else
                  let node = ram_node R source s;
                      s = put_ram_node R source (node\<lparr>
                        rn_name := write_cells 0 (\<lambda>k. new_name ! k) (length new_name) (write_cells 0 (\<lambda>_. 0) 256 (rn_name node)),
                        rn_name_length := word_of_nat (length new_name)\<rparr>) s
                  in (VFS_OK, put_node (R, source) ((node_at s (R, source))\<lparr>node_parent := Some (R, new_parent)\<rparr>) s)))
      | _ \<Rightarrow> (VFS_NOT_DIRECTORY, s))"

section \<open>Files\<close>

definition ramfs_read :: "'m ramfs_env \<Rightarrow> u64 \<Rightarrow> node_ref \<Rightarrow> u64 \<Rightarrow> u64 \<Rightarrow> 'm ram_world \<Rightarrow>
    (vfs_result \<times> u8 list \<times> u64) \<times> 'm ram_world" where
  "ramfs_read env filesystem node offset len s =
     (let R = ramfs_instance_from_filesystem env filesystem s in
      if R = 0 then ((VFS_INVALID_ARGUMENT, [], 0), s)
      else case ramfs_regular_from_vfs R node s of
        None \<Rightarrow> ((ramfs_wrong_type R node VFS_NOT_REGULAR s, [], 0), s)
      | Some i \<Rightarrow> let regular = ram_node R i s in
          if len > VFS_IO_MAX then ((VFS_INVALID_ARGUMENT, [], 0), s)
          else if rn_size regular > rn_capacity regular then ((VFS_CORRUPT, [], 0), s)
          else if offset \<ge> rn_size regular \<or> len = 0 then ((VFS_OK, [], 0), s)
          else
            let available = rn_size regular - offset;
                transferred = (if available < len then available else len)
            in if rn_data regular = 0 then ((VFS_CORRUPT, [], 0), s)
               else ((VFS_OK, map (\<lambda>k. rn_bytes regular ! (unat offset + k)) [0..<unat transferred], transferred), s))"

definition ramfs_write :: "'m ramfs_env \<Rightarrow> u64 \<Rightarrow> node_ref \<Rightarrow> u64 \<Rightarrow> u8 list \<Rightarrow> 'm ram_world \<Rightarrow>
    (vfs_result \<times> u64) \<times> 'm ram_world" where
  "ramfs_write env filesystem node offset input s =
     (let R = ramfs_instance_from_filesystem env filesystem s; len = word_of_nat (length input) :: u64 in
      if R = 0 then ((VFS_INVALID_ARGUMENT, 0), s)
      else case ramfs_regular_from_vfs R node s of
        None \<Rightarrow> ((ramfs_wrong_type R node VFS_NOT_REGULAR s, 0), s)
      | Some i \<Rightarrow> let regular = ram_node R i s in
          if len > VFS_IO_MAX then ((VFS_INVALID_ARGUMENT, 0), s)
          else if len = 0 then ((VFS_OK, 0), s)
          else if len > UINT64_MAX - offset then ((VFS_OVERFLOW, 0), s)
          else let finish = offset + len in
            if finish > RAMFS_FILE_MAX then ((VFS_NO_SPACE, 0), s)
            else let new_size = (if finish > rn_size regular then finish else rn_size regular) in
              case ramfs_prepare_capacity env R i new_size s of ((result, replacement, fresh, capacity), s) \<Rightarrow>
                if result \<noteq> VFS_OK then ((result, 0), s)
                else if replacement = 0 \<and> rn_data regular = 0 then ((VFS_CORRUPT, 0), s)
                else
                  let target = (if replacement \<noteq> 0 then fresh else rn_bytes regular);
                      target = (if offset > rn_size regular
                        then ramfs_zero_bytes (unat (rn_size regular)) (unat (offset - rn_size regular)) target else target);
                      target = ramfs_copy_bytes (unat offset) input (unat len) target;
                      s = (if replacement \<noteq> 0 then s else put_ram_node R i (regular\<lparr>rn_bytes := target\<rparr>) s)
                  in case ramfs_commit_replacement env R i replacement target capacity s of (result, s) \<Rightarrow>
                    if result \<noteq> VFS_OK then ((result, 0), s)
                    else ((VFS_OK, len), put_ram_node R i ((ram_node R i s)\<lparr>rn_size := new_size\<rparr>) s))"

definition ramfs_truncate :: "'m ramfs_env \<Rightarrow> u64 \<Rightarrow> node_ref \<Rightarrow> u64 \<Rightarrow> 'm ram_world \<Rightarrow> vfs_result \<times> 'm ram_world" where
  "ramfs_truncate env filesystem node new_size s =
     (let R = ramfs_instance_from_filesystem env filesystem s in
      if R = 0 then (VFS_INVALID_ARGUMENT, s)
      else case ramfs_regular_from_vfs R node s of
        None \<Rightarrow> (ramfs_wrong_type R node VFS_NOT_REGULAR s, s)
      | Some i \<Rightarrow> let regular = ram_node R i s in
          if new_size > RAMFS_FILE_MAX then (VFS_NO_SPACE, s)
          else if new_size = 0 then
            (case (if rn_data regular \<noteq> 0 then ram_free env (rn_data regular) s else (True, s)) of (freed, s) \<Rightarrow>
              if \<not> freed then (VFS_CORRUPT, s)
              else (VFS_OK, put_ram_node R i (regular\<lparr>rn_data := 0, rn_bytes := [], rn_capacity := 0, rn_size := 0\<rparr>) s))
          else if new_size \<le> rn_size regular then (VFS_OK, put_ram_node R i (regular\<lparr>rn_size := new_size\<rparr>) s)
          else case ramfs_prepare_capacity env R i new_size s of ((result, replacement, fresh, capacity), s) \<Rightarrow>
            if result \<noteq> VFS_OK then (result, s)
            else if replacement = 0 \<and> rn_data regular = 0 then (VFS_CORRUPT, s)
            else
              let target = ramfs_zero_bytes (unat (rn_size regular)) (unat (new_size - rn_size regular))
                    (if replacement \<noteq> 0 then fresh else rn_bytes regular);
                  s = (if replacement \<noteq> 0 then s else put_ram_node R i (regular\<lparr>rn_bytes := target\<rparr>) s)
              in case ramfs_commit_replacement env R i replacement target capacity s of (result, s) \<Rightarrow>
                if result \<noteq> VFS_OK then (result, s)
                else (VFS_OK, put_ram_node R i ((ram_node R i s)\<lparr>rn_size := new_size\<rparr>) s))"

text \<open>\<open>entry\<close> is what \<open>*entry_out\<close> holds before the call.\<close>

definition ramfs_readdir :: "'m ramfs_env \<Rightarrow> u64 \<Rightarrow> node_ref \<Rightarrow> u64 \<Rightarrow> vfs_dirent \<Rightarrow> 'm ram_world \<Rightarrow>
    (vfs_result \<times> vfs_dirent) \<times> 'm ram_world" where
  "ramfs_readdir env filesystem directory index entry s =
     (let R = ramfs_instance_from_filesystem env filesystem s in
      if R = 0 then ((VFS_INVALID_ARGUMENT, entry), s)
      else case ramfs_directory_from_vfs R directory s of
        None \<Rightarrow> ((ramfs_wrong_type R directory VFS_NOT_DIRECTORY s, entry), s)
      | Some parent \<Rightarrow>
          let children = filter (\<lambda>slot. is_child R parent slot s) [1..<32] in
          if unat index \<ge> length children then ((VFS_NOT_FOUND, entry), s)
          else let slot = children ! unat index; child = ram_node R slot s; vfs = node_at s (R, slot) in
            ((VFS_OK, entry\<lparr>dirent_node_id := node_id vfs, dirent_type := node_type vfs,
               dirent_name_length := rn_name_length child,
               dirent_name := (write_cells 0 (\<lambda>k. rn_name child ! k) (unat (rn_name_length child)) (dirent_name entry))
                 [unat (rn_name_length child) := 0]\<rparr>), s))"

definition ramfs_operations :: "'m ramfs_env \<Rightarrow> 'm ramfs_state vfs_operations" where
  "ramfs_operations env = \<lparr>op_lookup = Some (ramfs_lookup env), op_create = Some (ramfs_create env),
     op_mkdir = Some (ramfs_mkdir env), op_unlink = Some (ramfs_unlink env), op_rmdir = Some (ramfs_rmdir env),
     op_rename = Some (ramfs_rename env), op_read = Some (ramfs_read env), op_write = Some (ramfs_write env),
     op_truncate = Some (ramfs_truncate env), op_readdir = Some (ramfs_readdir env)\<rparr>"

section \<open>File systems\<close>

text \<open>The first free place of the registry and whether the identifier is taken, in one loop.\<close>

fun registry_slot :: "u64 \<Rightarrow> nat list \<Rightarrow> nat \<Rightarrow> 'm ram_world \<Rightarrow> nat option" where
  "registry_slot ident [] slot s = Some slot"
| "registry_slot ident (i # rest) slot s =
     (let R = ramfs_instances (backend s) ! i in
      if R = 0 then registry_slot ident rest (if slot = 8 then i else slot) s
      else if fs_id (filesystem_at s R) = ident then None
      else registry_slot ident rest slot s)"

definition ramfs_create_filesystem :: "'m ramfs_env \<Rightarrow> u64 \<Rightarrow> 'm ram_world \<Rightarrow> (vfs_result \<times> u64) \<times> 'm ram_world" where
  "ramfs_create_filesystem env ident s =
     (if ident = 0 then ((VFS_INVALID_ARGUMENT, 0), s)
      else case registry_slot ident [0..<8] 8 s of
        None \<Rightarrow> ((VFS_ALREADY_EXISTS, 0), s)
      | Some slot \<Rightarrow>
          if slot = 8 then ((VFS_NO_SPACE, 0), s)
          else case ram_alloc env 11320 s of (R, s) \<Rightarrow>
            if R = 0 then ((VFS_NO_SPACE, 0), s)
            else
              let s = put_filesystem R \<lparr>fs_id = 0, fs_operations = 0, fs_root = None, fs_backend = 0, fs_valid = False\<rparr> s;
                  s = put_ram R \<lparr>ramfs_nodes = replicate 32 cleared_ram_node, ramfs_next_node_id = 0, ramfs_registered = False\<rparr> s;
                  s = foldl (\<lambda>s i. ramfs_node_clear R i s) s [0..<32]
              in case vfs_filesystem_prepare R ident (ram_operations env) R s of (prepared, s) \<Rightarrow>
                if \<not> prepared then ((VFS_CORRUPT, 0), snd (ram_free env R s))
                else
                  let s = put_ram_node R 0 ((ram_node R 0 s)\<lparr>rn_owner := R, rn_name := (rn_name (ram_node R 0 s))[0 := 0],
                        rn_name_length := 0\<rparr>) s
                  in case vfs_node_prepare (Some (R, 0)) R 1 NODE_DIRECTORY None (Some (R, 0)) s of (prepared, s) \<Rightarrow>
                    case (if prepared then vfs_filesystem_set_root R (Some (R, 0)) s else (False, s)) of (prepared, s) \<Rightarrow>
                      if \<not> prepared
                      then ((VFS_CORRUPT, 0), snd (ram_free env R (put_filesystem R ((filesystem_at s R)\<lparr>fs_valid := False\<rparr>) s)))
                      else
                        let s = put_ram_node R 0 ((ram_node R 0 s)\<lparr>rn_occupied := True\<rparr>) s;
                            s = put_ram R ((ram_of R s)\<lparr>ramfs_next_node_id := 2, ramfs_registered := True\<rparr>) s
                        in ((VFS_OK, R), s\<lparr>backend := (backend s)\<lparr>ramfs_instances := (ramfs_instances (backend s))[slot := R]\<rparr>\<rparr>))"

definition ramfs_get_vfs :: "u64 \<Rightarrow> 'm ram_world \<Rightarrow> u64" where
  "ramfs_get_vfs R s =
     (let known = ramfs_instance_from_pointer R s in
      if known = 0 \<or> \<not> ramfs_registered (ram_of known s) \<or> \<not> fs_valid (filesystem_at s known) then 0 else known)"

definition add_ramfs_stats :: "u64 \<Rightarrow> 'm ram_world \<Rightarrow> nat \<Rightarrow> ramfs_stats \<Rightarrow> vfs_result + ramfs_stats" where
  "add_ramfs_stats R s i stats =
     (let node = ram_node R i s; vfs = node_at s (R, i) in
      if \<not> rn_occupied node then Inr stats
      else if \<not> node_valid vfs \<or> rn_owner node \<noteq> R \<or> node_filesystem vfs \<noteq> R \<or> node_backend vfs \<noteq> Some (R, i)
      then Inl VFS_CORRUPT
      else let stats = stats\<lparr>live_nodes := live_nodes stats + 1\<rparr> in
        if node_type vfs = NODE_DIRECTORY then Inr (stats\<lparr>live_directories := live_directories stats + 1\<rparr>)
        else if node_type vfs = NODE_REGULAR then
          let stats = stats\<lparr>live_files := live_files stats + 1\<rparr> in
          if rn_size node > UINT64_MAX - live_file_bytes stats \<or>
             rn_capacity node > UINT64_MAX - allocated_file_capacity stats then Inl VFS_OVERFLOW
          else Inr (stats\<lparr>live_file_bytes := live_file_bytes stats + rn_size node,
            allocated_file_capacity := allocated_file_capacity stats + rn_capacity node\<rparr>)
        else Inl VFS_CORRUPT)"

definition ramfs_get_stats :: "u64 \<Rightarrow> 'm ram_world \<Rightarrow> vfs_result + ramfs_stats" where
  "ramfs_get_stats R s =
     (let known = ramfs_instance_from_pointer R s in
      if known = 0 then Inl VFS_INVALID_ARGUMENT
      else foldl (\<lambda>acc i. case acc of Inl r \<Rightarrow> Inl r | Inr stats \<Rightarrow> add_ramfs_stats known s i stats)
        (Inr \<lparr>live_nodes = 0, live_directories = 0, live_files = 0, live_file_bytes = 0, allocated_file_capacity = 0\<rparr>) [0..<32])"

fun destroy_nodes :: "'m ramfs_env \<Rightarrow> u64 \<Rightarrow> nat list \<Rightarrow> 'm ram_world \<Rightarrow> bool \<times> 'm ram_world" where
  "destroy_nodes env R [] s = (True, s)"
| "destroy_nodes env R (i # rest) s =
     (let node = ram_node R i s in
      case (if rn_occupied node \<and> rn_data node \<noteq> 0 then ram_free env (rn_data node) s else (True, s)) of (freed, s) \<Rightarrow>
        if \<not> freed then (False, s) else destroy_nodes env R rest (ramfs_node_clear R i s))"

definition ramfs_destroy_filesystem :: "'m ramfs_env \<Rightarrow> u64 \<Rightarrow> 'm ram_world \<Rightarrow> vfs_result \<times> 'm ram_world" where
  "ramfs_destroy_filesystem env R s =
     (let known = ramfs_instance_from_pointer R s in
      if known = 0 then (VFS_INVALID_ARGUMENT, s)
      else if list_ex (\<lambda>i. rn_occupied (ram_node known i s) \<and> node_references (node_at s (known, i)) \<noteq> 0) [0..<32]
      then (VFS_BUSY, s)
      else case destroy_nodes env known [0..<32] s of (freed, s) \<Rightarrow>
        if \<not> freed then (VFS_CORRUPT, s)
        else
          let s = put_filesystem known \<lparr>fs_id = 0, fs_operations = 0, fs_root = None, fs_backend = 0, fs_valid = False\<rparr> s;
              s = put_ram known ((ram_of known s)\<lparr>ramfs_next_node_id := 0, ramfs_registered := False\<rparr>) s
          in case find (\<lambda>i. ramfs_instances (backend s) ! i = known) [0..<8] of
            None \<Rightarrow> (VFS_CORRUPT, s)
          | Some slot \<Rightarrow>
              let s = s\<lparr>backend := (backend s)\<lparr>ramfs_instances := (ramfs_instances (backend s))[slot := 0]\<rparr>\<rparr>
              in case ram_free env known s of (freed, s) \<Rightarrow> (if freed then VFS_OK else VFS_CORRUPT, s))"

end
