(* ===== verification/RamfsFiles.thy ===== *)
theory RamfsFiles
  imports Ramfs
begin

text \<open>
  The contents of a file of kernel/core/ramfs.c as a list of bytes: what reading, writing
  and truncating do to it, whatever the buffer behind it holds past the end of the file.
\<close>

section \<open>Nodes of a state\<close>

definition with_machine :: "'m \<Rightarrow> 'm ram_world \<Rightarrow> 'm ram_world" where
  "with_machine m s = s\<lparr>backend := (backend s)\<lparr>ramfs_machine := m\<rparr>\<rparr>"

lemma with_machine_simps [simp]:
  "ram_of R (with_machine m s) = ram_of R s" "ram_node R i (with_machine m s) = ram_node R i s"
  "node_at (with_machine m s) = node_at s" "filesystem_at (with_machine m s) = filesystem_at s"
  "ramfs_instances (backend (with_machine m s)) = ramfs_instances (backend s)"
  "ramfs_at (backend (with_machine m s)) = ramfs_at (backend s)"
  "with_machine m (with_machine m' s) = with_machine m s" "with_machine (ramfs_machine (backend s)) s = s"
  "ramfs_machine (backend (with_machine m s)) = m"
  "put_ram_node R i node (with_machine m s) = with_machine m (put_ram_node R i node s)"
  by (simp_all add: with_machine_def ram_of_def ram_node_def put_ram_node_def put_ram_def)

lemma ram_alloc_run: "ram_alloc env n s = (fst (ram_kmalloc env n (ramfs_machine (backend s))),
    with_machine (snd (ram_kmalloc env n (ramfs_machine (backend s)))) s)"
  by (simp add: ram_alloc_def with_machine_def split: prod.split)

lemma ram_free_run: "ram_free env a s = (fst (ram_kfree env a (ramfs_machine (backend s))),
    with_machine (snd (ram_kfree env a (ramfs_machine (backend s)))) s)"
  by (simp add: ram_free_def with_machine_def split: prod.split)

lemma put_ram_node_simps [simp]:
  "ram_of R' (put_ram_node R i node s) =
    (if R' = R then (ram_of R s)\<lparr>ramfs_nodes := (ramfs_nodes (ram_of R s))[i := node]\<rparr> else ram_of R' s)"
  "node_at (put_ram_node R i node s) = node_at s" "filesystem_at (put_ram_node R i node s) = filesystem_at s"
  "ramfs_instances (backend (put_ram_node R i node s)) = ramfs_instances (backend s)"
  by (simp_all add: put_ram_node_def put_ram_def ram_of_def)

lemma ram_node_put: "i < length (ramfs_nodes (ram_of R s)) \<Longrightarrow>
    ram_node R' j (put_ram_node R i node s) = (if R' = R \<and> j = i then node else ram_node R' j s)"
  by (simp add: ram_node_def nth_list_update)

lemma put_ram_node_twice: "put_ram_node R i node (put_ram_node R i node' s) = put_ram_node R i node s"
  by (simp add: put_ram_node_def put_ram_def ram_of_def)

section \<open>Files\<close>

definition file_ok :: "ramfs_node \<Rightarrow> bool" where
  "file_ok node \<longleftrightarrow> (rn_data node = 0 \<longleftrightarrow> rn_capacity node = 0) \<and> length (rn_bytes node) = unat (rn_capacity node) \<and>
     rn_size node \<le> rn_capacity node \<and> rn_capacity node \<le> RAMFS_FILE_MAX"

definition file_bytes :: "ramfs_node \<Rightarrow> u8 list" where
  "file_bytes node = take (unat (rn_size node)) (rn_bytes node)"

definition used_capacity :: "ramfs_node list \<Rightarrow> nat" where
  "used_capacity nodes = (\<Sum>n\<leftarrow>nodes. if rn_occupied n then unat (rn_capacity n) else 0)"

text \<open>Writing past the end fills the gap with zeros; a longer length adds zeros.\<close>

definition write_at :: "nat \<Rightarrow> u8 list \<Rightarrow> u8 list \<Rightarrow> u8 list" where
  "write_at offset input xs = take offset (xs @ replicate (offset - length xs) 0) @ input @ drop (offset + length input) xs"

definition resized :: "nat \<Rightarrow> u8 list \<Rightarrow> u8 list" where
  "resized n xs = take n (xs @ replicate (n - length xs) 0)"

lemma length_write_at: "length (write_at offset input xs) = max (length xs) (offset + length input)"
  by (simp add: write_at_def)

lemma nth_write_at: "k < max (length xs) (offset + length input) \<Longrightarrow> write_at offset input xs ! k =
    (if offset \<le> k \<and> k < offset + length input then input ! (k - offset) else if k < length xs then xs ! k else 0)"
  by (auto simp: write_at_def nth_append min_def)

lemma length_resized [simp]: "length (resized n xs) = n"
  by (simp add: resized_def)

lemma nth_resized: "k < n \<Longrightarrow> resized n xs ! k = (if k < length xs then xs ! k else 0)"
  by (simp add: resized_def nth_append)

lemma file_okD:
  assumes "file_ok node"
  shows "unat (rn_size node) \<le> length (rn_bytes node)" "unat (rn_capacity node) \<le> 8192"
    "length (file_bytes node) = unat (rn_size node)" "k < unat (rn_size node) \<Longrightarrow> file_bytes node ! k = rn_bytes node ! k"
    "length (rn_bytes node) = unat (rn_capacity node)" "rn_data node = 0 \<longleftrightarrow> rn_capacity node = 0" "unat (rn_size node) \<le> unat (rn_capacity node)"
  using assms by (auto simp: file_ok_def file_bytes_def word_le_nat_alt)

lemma ramfs_zero_bytes_nth:
  "k + n \<le> length bs \<Longrightarrow> j < length bs \<Longrightarrow> ramfs_zero_bytes k n bs ! j = (if k \<le> j \<and> j < k + n then 0 else bs ! j)"
  by (simp add: ramfs_zero_bytes_def nth_write_cells)

lemma ramfs_copy_bytes_nth: "k + n \<le> length bs \<Longrightarrow> j < length bs \<Longrightarrow>
    ramfs_copy_bytes k source n bs ! j = (if k \<le> j \<and> j < k + n then source ! (j - k) else bs ! j)"
  by (simp add: ramfs_copy_bytes_def nth_write_cells)

lemma length_ramfs_bytes [simp]:
  "length (ramfs_zero_bytes k n bs) = length bs" "length (ramfs_copy_bytes k source n bs) = length bs"
  by (simp_all add: ramfs_zero_bytes_def ramfs_copy_bytes_def)

section \<open>Capacity\<close>

lemma capacity_from_run:
  "(\<And>n. n \<in> set nodes \<Longrightarrow> rn_occupied n \<Longrightarrow> rn_capacity n \<le> RAMFS_FILE_MAX) \<Longrightarrow>
   unat acc + used_capacity nodes < 18446744073709551616 \<Longrightarrow>
   \<exists>t. capacity_from nodes acc = Inr t \<and> unat t = unat acc + used_capacity nodes"
proof (induction nodes arbitrary: acc)
  case Nil
  then show ?case by (simp add: used_capacity_def)
next
  case (Cons n nodes)
  show ?case
  proof (cases "rn_occupied n")
    case False
    then show ?thesis using Cons by (simp add: used_capacity_def)
  next
    case True
    then have sum: "used_capacity (n # nodes) = unat (rn_capacity n) + used_capacity nodes" by (simp add: used_capacity_def)
    have a: "unat (acc + rn_capacity n) = unat acc + unat (rn_capacity n)"
      by (rule unat_add_exact) (use Cons.prems(2) sum in simp)
    have b: "unat (UINT64_MAX - acc) = 18446744073709551615 - unat acc"
      using unat_u64_less [of acc] by (simp add: unat_sub word_le_nat_alt)
    have "\<not> rn_capacity n > UINT64_MAX - acc" using b Cons.prems(2) sum by (simp add: word_less_nat_alt)
    moreover have "\<not> rn_capacity n > RAMFS_FILE_MAX" using Cons.prems(1) [of n] True by simp
    moreover have "\<exists>t. capacity_from nodes (acc + rn_capacity n) = Inr t \<and> unat t = unat (acc + rn_capacity n) + used_capacity nodes"
      using Cons.prems a sum by (intro Cons.IH) simp_all
    ultimately show ?thesis using True a sum by (simp add: add.assoc)
  qed
qed

lemma used_capacity_member:
  assumes "i < length nodes" "rn_occupied (nodes ! i)"
  shows "unat (rn_capacity (nodes ! i)) \<le> used_capacity nodes"
proof -
  let ?f = "\<lambda>n. if rn_occupied n then unat (rn_capacity n) else 0"
  have "?f (nodes ! i) \<in> set (map ?f nodes)" unfolding set_map by (rule imageI [OF nth_mem [OF assms(1)]])
  from member_le_sum_list [OF this] show ?thesis using assms(2) by (simp add: used_capacity_def)
qed

lemma used_capacity_update: "i < length nodes \<Longrightarrow> used_capacity (nodes[i := n]) + (if rn_occupied (nodes ! i) then unat (rn_capacity (nodes ! i)) else 0) =
    used_capacity nodes + (if rn_occupied n then unat (rn_capacity n) else 0)"
  unfolding used_capacity_def using sum_map_update [of i nodes "\<lambda>n. if rn_occupied n then unat (rn_capacity n) else 0" n] by simp

lemma used_capacity_drop:
  assumes "i < length nodes" "rn_occupied n \<Longrightarrow> rn_capacity n = 0"
  shows "used_capacity (nodes[i := n]) \<le> used_capacity nodes"
proof -
  have "used_capacity (nodes[i := n]) \<le> used_capacity (nodes[i := n]) + (if rn_occupied (nodes ! i) then unat (rn_capacity (nodes ! i)) else 0)"
    by simp
  also have "\<dots> = used_capacity nodes" using used_capacity_update [OF assms(1), of n] assms(2) by auto
  finally show ?thesis .
qed

definition capacities_ok :: "u64 \<Rightarrow> 'm ram_world \<Rightarrow> bool" where
  "capacities_ok R s \<longleftrightarrow> (\<forall>n \<in> set (ramfs_nodes (ram_of R s)). rn_occupied n \<longrightarrow> file_ok n) \<and>
     used_capacity (ramfs_nodes (ram_of R s)) \<le> unat RAMFS_TOTAL_DATA_MAX"

lemma current_capacity_run:
  assumes "capacities_ok R s"
  shows "\<exists>t. ramfs_current_capacity R s = Inr t \<and> unat t = used_capacity (ramfs_nodes (ram_of R s))"
proof -
  have "n \<in> set (ramfs_nodes (ram_of R s)) \<Longrightarrow> rn_occupied n \<Longrightarrow> rn_capacity n \<le> RAMFS_FILE_MAX" for n
    using assms by (auto simp: capacities_ok_def file_ok_def)
  then show ?thesis
    using capacity_from_run [of "ramfs_nodes (ram_of R s)" 0] assms by (simp add: ramfs_current_capacity_def capacities_ok_def)
qed

section \<open>Writing and truncating\<close>

text \<open>
  A replacement holds the file and zeros after it, and fits both limits; otherwise the
  buffer the file has is long enough.
\<close>

lemma prepare_spec:
  assumes caps: "capacities_ok R s" and i: "i < length (ramfs_nodes (ram_of R s))" "rn_occupied (ram_node R i s)"
    and r: "ramfs_prepare_capacity env R i required s = ((res, replacement, fresh, capacity), t)"
  shows "\<exists>m. t = with_machine m s \<and> (res = VFS_OK \<longrightarrow>
    (if replacement = 0 then required \<le> rn_capacity (ram_node R i s)
     else required > rn_capacity (ram_node R i s) \<and> required \<le> RAMFS_FILE_MAX \<and> capacity = required \<and>
       length fresh = unat required \<and>
       (\<forall>k < unat required. fresh ! k = (if k < unat (rn_size (ram_node R i s)) then file_bytes (ram_node R i s) ! k else 0)) \<and>
       used_capacity (ramfs_nodes (ram_of R s)) - unat (rn_capacity (ram_node R i s)) + unat required \<le> 32768))"
proof -
  let ?node = "ram_node R i s"
  have fok: "file_ok ?node" using caps i by (auto simp: capacities_ok_def ram_node_def)
  note f = file_okD [OF fok]
  have same: "\<exists>m. s = with_machine m s" by (rule exI [of _ "ramfs_machine (backend s)"]) simp
  obtain total where total: "ramfs_current_capacity R s = Inr total" "unat total = used_capacity (ramfs_nodes (ram_of R s))"
    using current_capacity_run [OF caps] by blast
  have member: "unat (rn_capacity ?node) \<le> unat total"
    using used_capacity_member i unfolding total(2) ram_node_def by blast
  then have nl: "\<not> total < rn_capacity ?node" by (simp add: word_less_nat_alt)
  show ?thesis
  proof (cases "required \<le> rn_capacity ?node \<or> required > RAMFS_FILE_MAX \<or>
      required > RAMFS_TOTAL_DATA_MAX - (total - rn_capacity ?node)")
    case True
    then have "t = s \<and> (res = VFS_OK \<longrightarrow> replacement = 0 \<and> required \<le> rn_capacity ?node)"
      using r total(1) nl by (auto simp: ramfs_prepare_capacity_def Let_def split: if_splits)
    then show ?thesis using same by auto
  next
    case False
    obtain address m where k: "ram_kmalloc env required (ramfs_machine (backend s)) = (address, m)" by force
    have alloc: "ram_alloc env required s = (address, with_machine m s)" by (simp add: ram_alloc_run k)
    have size: "\<not> rn_size ?node > rn_capacity ?node" using fok by (auto simp: file_ok_def)
    have data: "(rn_data ?node \<noteq> 0) = (rn_capacity ?node \<noteq> 0)" using f(6) by simp
    let ?zero = "replicate (unat required) (0 :: u8)"
    let ?fresh = "if rn_data ?node \<noteq> 0 \<and> rn_size ?node \<noteq> 0
      then ramfs_copy_bytes 0 (rn_bytes ?node) (unat (rn_size ?node)) ?zero else ?zero"
    have run: "ramfs_prepare_capacity env R i required s = (if address = 0 then ((VFS_NO_SPACE, 0, [], rn_capacity ?node), with_machine m s)
        else ((VFS_OK, address, ?fresh, required), with_machine m s))"
      using False total(1) nl alloc size data by (auto simp: ramfs_prepare_capacity_def Let_def)
    show ?thesis
    proof (cases "address = 0")
      case True
      then show ?thesis using run r by auto
    next
      case nz: False
      then have e: "res = VFS_OK" "replacement = address" "fresh = ?fresh" "capacity = required" "t = with_machine m s"
        using run r by auto
      have req: "rn_capacity ?node < required" "required \<le> RAMFS_FILE_MAX" using False by auto
      have less: "unat (rn_size ?node) \<le> unat required" using f(7) req by (simp add: word_less_nat_alt)
      have "rn_data ?node = 0 \<Longrightarrow> unat (rn_size ?node) = 0" using f(6,7) by simp
      then have "\<forall>k < unat required. fresh ! k = (if k < unat (rn_size ?node) then file_bytes ?node ! k else 0)"
        using f(4) less by (auto simp: e(3) ramfs_copy_bytes_nth unat_eq_zero)
      moreover have "unat (total - rn_capacity ?node) = unat total - unat (rn_capacity ?node)"
        using nl by (simp add: unat_sub linorder_not_less)
      then have "unat (RAMFS_TOTAL_DATA_MAX - (total - rn_capacity ?node)) = 32768 - (unat total - unat (rn_capacity ?node))"
        using caps total(2) by (subst unat_sub) (auto simp: word_le_nat_alt capacities_ok_def intro: le_trans [OF diff_le_self])
      then have "used_capacity (ramfs_nodes (ram_of R s)) - unat (rn_capacity ?node) + unat required \<le> 32768"
        using False total(2) caps by (auto simp: word_le_nat_alt capacities_ok_def linorder_not_less)
      ultimately show ?thesis using e req nz by (intro exI [of _ m]) simp
    qed
  qed
qed

lemma commit_spec:
  assumes "ramfs_commit_replacement env R i replacement bytes capacity s = (res, t)"
  shows "if replacement = 0 then res = VFS_OK \<and> t = s
    else \<exists>m. (res = VFS_OK \<and> t = put_ram_node R i ((ram_node R i s)\<lparr>rn_data := replacement, rn_bytes := bytes, rn_capacity := capacity\<rparr>)
        (with_machine m s)) \<or> (res \<noteq> VFS_OK \<and> t = with_machine m s)"
proof (cases "replacement = 0")
  case False
  obtain freed m where "(if rn_data (ram_node R i s) \<noteq> 0 then ram_free env (rn_data (ram_node R i s)) s else (True, s)) =
      (freed, with_machine m s)"
    by (cases "rn_data (ram_node R i s) = 0") (auto simp: ram_free_run intro: that [of True "ramfs_machine (backend s)"])
  then show ?thesis
    using assms False by (cases freed) (auto simp: ramfs_commit_replacement_def Let_def ram_free_run)
qed (use assms in \<open>simp add: ramfs_commit_replacement_def Let_def\<close>)

text \<open>The fields of a node that its contents do not touch.\<close>

definition same_entry :: "ramfs_node \<Rightarrow> ramfs_node \<Rightarrow> bool" where
  "same_entry a b \<longleftrightarrow> rn_owner b = rn_owner a \<and> rn_name b = rn_name a \<and> rn_name_length b = rn_name_length a \<and>
     rn_occupied b = rn_occupied a"

text \<open>The contents of node \<open>i\<close> become \<open>bytes\<close> and nothing else changes but the heap.\<close>

definition file_step :: "u64 \<Rightarrow> nat \<Rightarrow> u8 list \<Rightarrow> 'm ram_world \<Rightarrow> 'm ram_world \<Rightarrow> bool" where
  "file_step R i bytes s t \<longleftrightarrow> (\<exists>m new. t = put_ram_node R i new (with_machine m s) \<and> same_entry (ram_node R i s) new \<and>
     file_ok new \<and> file_bytes new = bytes \<and> used_capacity ((ramfs_nodes (ram_of R s))[i := new]) \<le> 32768)"

lemma put_same_node [simp]: "put_ram_node R i (ram_node R i s) s = s"
  by (simp add: put_ram_node_def put_ram_def ram_of_def ram_node_def)

lemma file_step_machine:
  assumes "capacities_ok R s" "i < length (ramfs_nodes (ram_of R s))" "rn_occupied (ram_node R i s)"
  shows "file_step R i (file_bytes (ram_node R i s)) s (with_machine m s)"
  unfolding file_step_def
  using assms by (intro exI [of _ m] exI [of _ "ram_node R i s"]) (auto simp: same_entry_def capacities_ok_def ram_node_def put_ram_node_def put_ram_def ram_of_def with_machine_def)

text \<open>A node in use whose fields are replaced within the limits.\<close>

lemma file_stepI:
  assumes caps: "capacities_ok R s" and i: "i < length (ramfs_nodes (ram_of R s))" "rn_occupied (ram_node R i s)"
    and t: "t = put_ram_node R i new (with_machine m s)" "same_entry (ram_node R i s) new" "file_ok new" "file_bytes new = bytes"
    and cap: "rn_capacity new \<noteq> rn_capacity (ram_node R i s) \<Longrightarrow>
      used_capacity (ramfs_nodes (ram_of R s)) - unat (rn_capacity (ram_node R i s)) + unat (rn_capacity new) \<le> 32768"
  shows "file_step R i bytes s t"
proof -
  have o: "rn_occupied new" using t(2) i(2) by (simp add: same_entry_def)
  have "used_capacity ((ramfs_nodes (ram_of R s))[i := new]) + unat (rn_capacity (ram_node R i s)) =
      used_capacity (ramfs_nodes (ram_of R s)) + unat (rn_capacity new)"
    using used_capacity_update [OF i(1), of new] i(2) o by (simp add: ram_node_def)
  moreover have "used_capacity (ramfs_nodes (ram_of R s)) \<le> 32768" using caps by (simp add: capacities_ok_def)
  ultimately have "used_capacity ((ramfs_nodes (ram_of R s))[i := new]) \<le> 32768"
    using cap by (cases "rn_capacity new = rn_capacity (ram_node R i s)") auto
  then show ?thesis unfolding file_step_def using t by blast
qed

text \<open>The end of both operations: the new bytes are in place, the buffer and the size follow.\<close>

lemma finish_spec:
  assumes caps: "capacities_ok R s" and i: "i < length (ramfs_nodes (ram_of R s))" "rn_occupied (ram_node R i s)"
    and p: "ramfs_prepare_capacity env R i required s = ((VFS_OK, replacement, fresh, capacity), u)"
    and target: "length target = length (if replacement \<noteq> 0 then fresh else rn_bytes (ram_node R i s))"
      "take (unat required) target = bytes" "replacement \<noteq> 0 \<or> rn_data (ram_node R i s) \<noteq> 0"
    and v: "v = (if replacement \<noteq> 0 then u else put_ram_node R i ((ram_node R i s)\<lparr>rn_bytes := target\<rparr>) u)"
    and c: "ramfs_commit_replacement env R i replacement target capacity v = (res, t)"
  shows "(res \<noteq> VFS_OK \<and> (\<exists>m. t = with_machine m s)) \<or>
    (res = VFS_OK \<and> file_step R i bytes s (put_ram_node R i ((ram_node R i t)\<lparr>rn_size := required\<rparr>) t))"
proof -
  let ?node = "ram_node R i s"
  have fok: "file_ok ?node" using caps i by (auto simp: capacities_ok_def ram_node_def)
  obtain m where u: "u = with_machine m s" using prepare_spec [OF caps i p] by blast
  note cs = commit_spec [OF c]
  note sizes = i(1) ram_node_put
  show ?thesis
  proof (cases "replacement = 0")
    case True
    then have req: "required \<le> rn_capacity ?node" using prepare_spec [OF caps i p] by simp
    have t: "res = VFS_OK" "t = with_machine m (put_ram_node R i (?node\<lparr>rn_bytes := target\<rparr>) s)"
      using cs True by (simp_all add: v u)
    define new where "new = ?node\<lparr>rn_bytes := target, rn_size := required\<rparr>"
    have e: "put_ram_node R i ((ram_node R i t)\<lparr>rn_size := required\<rparr>) t = put_ram_node R i new (with_machine m s)"
      by (simp add: t(2) sizes put_ram_node_twice new_def)
    have "file_ok new" using fok target(1) True req by (simp add: file_ok_def new_def)
    then have "file_step R i bytes s (put_ram_node R i ((ram_node R i t)\<lparr>rn_size := required\<rparr>) t)"
      by (intro file_stepI [OF caps i e]) (simp_all add: same_entry_def new_def file_bytes_def target(2))
    then show ?thesis using t(1) by simp
  next
    case nz: False
    note ps = prepare_spec [OF caps i p]
    have req: "required \<le> RAMFS_FILE_MAX" "capacity = required" "length fresh = unat required" "rn_capacity ?node < required"
      "used_capacity (ramfs_nodes (ram_of R s)) - unat (rn_capacity ?node) + unat required \<le> 32768"
      using ps nz by simp_all
    define new where "new = ?node\<lparr>rn_data := replacement, rn_bytes := target, rn_capacity := capacity, rn_size := required\<rparr>"
    obtain m' where t: "(res = VFS_OK \<and> t = put_ram_node R i (?node\<lparr>rn_data := replacement, rn_bytes := target, rn_capacity := capacity\<rparr>)
        (with_machine m' s)) \<or> (res \<noteq> VFS_OK \<and> t = with_machine m' s)"
      using cs nz by (auto simp: v u)
    show ?thesis
    proof (cases "res = VFS_OK")
      case False
      then show ?thesis using t by auto
    next
      case True
      then have e: "put_ram_node R i ((ram_node R i t)\<lparr>rn_size := required\<rparr>) t = put_ram_node R i new (with_machine m' s)"
        using t by (auto simp: sizes put_ram_node_twice new_def)
      have "required \<noteq> 0" using req(4) by (metis word_not_simps(1))
      then have "file_ok new" using req target(1) nz by (simp add: file_ok_def new_def)
      then have "file_step R i bytes s (put_ram_node R i ((ram_node R i t)\<lparr>rn_size := required\<rparr>) t)"
        by (intro file_stepI [OF caps i e]) (simp_all add: same_entry_def new_def file_bytes_def target(2) req)
      then show ?thesis using True by simp
    qed
  qed
qed

text \<open>Pointwise characterisations of the two results.\<close>

lemma write_at_eqI:
  assumes "length xs \<le> n" "n \<le> length target" "n = max (length xs) (offset + length input)"
    and "\<And>k. k < n \<Longrightarrow> target ! k = (if offset \<le> k \<and> k < offset + length input then input ! (k - offset) else if k < length xs then xs ! k else 0)"
  shows "take n target = write_at offset input xs"
  using assms by (intro nth_equalityI) (simp_all add: length_write_at nth_write_at)

lemma resized_eqI:
  assumes "n \<le> length target" "\<And>k. k < n \<Longrightarrow> target ! k = (if k < length xs then xs ! k else 0)"
  shows "take n target = resized n xs"
  using assms by (intro nth_equalityI) (simp_all add: nth_resized)

definition sent :: "u8 list \<Rightarrow> u8 list" where
  "sent input = take (unat (word_of_nat (length input) :: u64)) input"

lemma length_sent: "length (sent input) = unat (word_of_nat (length input) :: u64)"
proof -
  have "unat (word_of_nat (length input) :: u64) \<le> length input" by (simp add: unsigned_of_nat take_bit_nat_less_eq_self)
  then show ?thesis by (simp add: sent_def)
qed

lemma write_spec:
  assumes caps: "capacities_ok R s" and i: "i < length (ramfs_nodes (ram_of R s))" "rn_occupied (ram_node R i s)"
    and R: "ramfs_instance_from_filesystem env f s = R" "R \<noteq> 0" "ramfs_regular_from_vfs R node s = Some i"
    and r: "ramfs_write env f node offset input s = ((res, n), t)"
  shows "(res \<noteq> VFS_OK \<and> n = 0 \<and> (\<exists>m. t = with_machine m s)) \<or>
    (res = VFS_OK \<and> n = word_of_nat (length input) \<and> file_step R i (if n = 0 then file_bytes (ram_node R i s)
       else write_at (unat offset) (sent input) (file_bytes (ram_node R i s))) s t)"
proof -
  let ?node = "ram_node R i s" and ?len = "word_of_nat (length input) :: u64"
  have fok: "file_ok ?node" using caps i by (auto simp: capacities_ok_def ram_node_def)
  note fd = file_okD [OF fok]
  have same: "\<exists>m. s = with_machine m s" by (rule exI [of _ "ramfs_machine (backend s)"]) simp
  consider "?len > VFS_IO_MAX \<or> ?len > UINT64_MAX - offset \<or> offset + ?len > RAMFS_FILE_MAX" "?len \<noteq> 0" | "?len = 0"
    | "\<not> ?len > VFS_IO_MAX" "\<not> ?len > UINT64_MAX - offset" "\<not> offset + ?len > RAMFS_FILE_MAX" "?len \<noteq> 0" by blast
  then show ?thesis
  proof cases
    case 1
    then show ?thesis using r R same by (auto simp: ramfs_write_def Let_def split: if_splits)
  next
    case 2
    then have "res = VFS_OK" "n = 0" "t = s" using r R by (auto simp: ramfs_write_def Let_def)
    then show ?thesis using 2 file_step_machine [OF caps i, of "ramfs_machine (backend s)"] by simp
  next
    case 3
    define size where "size = (if offset + ?len > rn_size ?node then offset + ?len else rn_size ?node)"
    obtain rp replacement fresh capacity u where p: "ramfs_prepare_capacity env R i size s = ((rp, replacement, fresh, capacity), u)"
      by (metis prod.exhaust)
    note ps = prepare_spec [OF caps i p]
    define base where "base = (if replacement \<noteq> 0 then fresh else rn_bytes ?node)"
    define gap where "gap = (if offset > rn_size ?node
      then ramfs_zero_bytes (unat (rn_size ?node)) (unat (offset - rn_size ?node)) base else base)"
    define target where "target = ramfs_copy_bytes (unat offset) input (unat ?len) gap"
    define v where "v = (if replacement \<noteq> 0 then u else put_ram_node R i (?node\<lparr>rn_bytes := target\<rparr>) u)"
    obtain rc w where c: "ramfs_commit_replacement env R i replacement target capacity v = (rc, w)" by force
    have run: "ramfs_write env f node offset input s = (if rp \<noteq> VFS_OK then ((rp, 0), u)
        else if replacement = 0 \<and> rn_data ?node = 0 then ((VFS_CORRUPT, 0), u)
        else if rc \<noteq> VFS_OK then ((rc, 0), w)
        else ((VFS_OK, ?len), put_ram_node R i ((ram_node R i w)\<lparr>rn_size := size\<rparr>) w))"
      using 3 R p c unfolding v_def target_def gap_def base_def size_def
      by (cases "rp = VFS_OK"; cases "replacement = 0"; cases "offset > rn_size ?node"; cases "offset + ?len > rn_size ?node")
        (simp_all add: ramfs_write_def Let_def)
    show ?thesis
    proof (cases "rp \<noteq> VFS_OK \<or> replacement = 0 \<and> rn_data ?node = 0")
      case True
      then show ?thesis using run r ps by (auto split: if_splits)
    next
      case False
      then have p': "ramfs_prepare_capacity env R i size s = ((VFS_OK, replacement, fresh, capacity), u)"
        and data: "replacement \<noteq> 0 \<or> rn_data ?node \<noteq> 0" using p by auto
      have o: "unat (offset + ?len) = unat offset + unat ?len"
        using 3(2) unat_u64_less [of offset] by (intro unat_add_exact) (auto simp: word_less_nat_alt linorder_not_less unat_sub word_le_nat_alt)
      have size: "unat size = max (unat (rn_size ?node)) (unat offset + unat ?len)"
        using o by (auto simp: size_def word_less_nat_alt)
      have lb: "unat size \<le> length base"
      proof (cases "replacement = 0")
        case True
        then show ?thesis using ps p' p fd(5) by (simp add: base_def word_le_nat_alt)
      next
        case no: False
        then show ?thesis using ps p' p by (simp add: base_def)
      qed
      have bb: "base ! k = (if k < unat (rn_size ?node) then file_bytes ?node ! k else base ! k)" if "k < unat size" for k
        using ps p' p fd(4) that by (simp add: base_def)
      have gap: "gap ! k = (if k < unat (rn_size ?node) then file_bytes ?node ! k else 0)"
        if k: "k < unat size" "\<not> (unat offset \<le> k \<and> k < unat offset + unat ?len)" for k
      proof (cases "k < unat (rn_size ?node)")
        case True
        then show ?thesis using k bb [OF k(1)] lb size
          by (auto simp: gap_def ramfs_zero_bytes_nth word_less_nat_alt unat_sub word_le_nat_alt)
      next
        case no: False
        then have "k < unat offset" using k size by auto
        then have "offset > rn_size ?node" using no by (simp add: word_less_nat_alt)
        then show ?thesis using k lb no \<open>k < unat offset\<close> size
          by (simp add: gap_def ramfs_zero_bytes_nth word_less_nat_alt unat_sub word_le_nat_alt)
      qed
      have lt: "length target = length base" by (simp add: target_def gap_def)
      have bytes: "take (unat size) target = write_at (unat offset) (sent input) (file_bytes ?node)"
      proof (rule write_at_eqI)
        fix k
        assume k: "k < unat size"
        have "target ! k = (if unat offset \<le> k \<and> k < unat offset + unat ?len then input ! (k - unat offset) else gap ! k)"
          unfolding target_def by (rule ramfs_copy_bytes_nth) (use lb size k lt in \<open>auto simp: gap_def\<close>)
        then show "target ! k = (if unat offset \<le> k \<and> k < unat offset + length (sent input) then sent input ! (k - unat offset)
            else if k < length (file_bytes ?node) then file_bytes ?node ! k else 0)"
          using gap [OF k] fd(3) length_sent [of input] by (auto simp: sent_def)
      qed (use fd(3) size lb lt length_sent [of input] in simp_all)
      have "(rc \<noteq> VFS_OK \<and> (\<exists>m. w = with_machine m s)) \<or> (rc = VFS_OK \<and>
          file_step R i (write_at (unat offset) (sent input) (file_bytes ?node)) s (put_ram_node R i ((ram_node R i w)\<lparr>rn_size := size\<rparr>) w))"
        by (rule finish_spec [OF caps i p' _ bytes data v_def c]) (simp add: lt base_def)
      then show ?thesis using run r False 3(4) by (auto split: if_splits)
    qed
  qed
qed

lemma truncate_spec:
  assumes caps: "capacities_ok R s" and i: "i < length (ramfs_nodes (ram_of R s))" "rn_occupied (ram_node R i s)"
    and R: "ramfs_instance_from_filesystem env f s = R" "R \<noteq> 0" "ramfs_regular_from_vfs R node s = Some i"
    and r: "ramfs_truncate env f node want s = (res, t)"
  shows "(res \<noteq> VFS_OK \<and> (\<exists>m. t = with_machine m s)) \<or>
    (res = VFS_OK \<and> file_step R i (resized (unat want) (file_bytes (ram_node R i s))) s t)"
proof -
  let ?node = "ram_node R i s"
  have fok: "file_ok ?node" using caps i by (auto simp: capacities_ok_def ram_node_def)
  note fd = file_okD [OF fok]
  have same: "\<exists>m. s = with_machine m s" by (rule exI [of _ "ramfs_machine (backend s)"]) simp
  consider "want > RAMFS_FILE_MAX" | "want = 0" | "want \<le> rn_size ?node" "want \<noteq> 0" "want \<le> RAMFS_FILE_MAX"
    | "\<not> want > RAMFS_FILE_MAX" "want > rn_size ?node" "want \<noteq> 0" by fastforce
  then show ?thesis
  proof cases
    case 1
    then show ?thesis using r R same by (auto simp: ramfs_truncate_def Let_def)
  next
    case 2
    obtain freed m where freed: "(if rn_data ?node \<noteq> 0 then ram_free env (rn_data ?node) s else (True, s)) = (freed, with_machine m s)"
      by (cases "rn_data ?node = 0") (auto simp: ram_free_run intro: that [of True "ramfs_machine (backend s)"])
    define new where "new = ?node\<lparr>rn_data := 0, rn_bytes := [], rn_capacity := 0, rn_size := 0\<rparr>"
    have run: "ramfs_truncate env f node want s = (if freed then (VFS_OK, put_ram_node R i new (with_machine m s)) else (VFS_CORRUPT, with_machine m s))"
      using 2 R freed by (cases "rn_data ?node = 0") (simp_all add: ramfs_truncate_def Let_def new_def)
    have "used_capacity (ramfs_nodes (ram_of R s)) - unat (rn_capacity ?node) + unat (rn_capacity new) \<le> 32768"
      using caps by (auto simp: capacities_ok_def new_def intro: le_trans [OF diff_le_self])
    then have "file_step R i (resized (unat want) (file_bytes ?node)) s (put_ram_node R i new (with_machine m s))"
      by (intro file_stepI [OF caps i refl]) (simp_all add: same_entry_def new_def file_ok_def file_bytes_def resized_def 2)
    then show ?thesis using run r by (auto split: if_splits)
  next
    case 3
    define new where "new = ?node\<lparr>rn_size := want\<rparr>"
    have t: "res = VFS_OK" "t = put_ram_node R i new (with_machine (ramfs_machine (backend s)) s)"
      using r R 3 by (simp_all add: ramfs_truncate_def Let_def new_def linorder_not_less [symmetric])
    have le: "unat want \<le> unat (rn_size ?node)" using 3(1) by (simp add: word_le_nat_alt)
    have "take (unat want) (rn_bytes ?node) = resized (unat want) (file_bytes ?node)"
      by (rule resized_eqI) (use le fd(1,3,4) in simp_all)
    moreover have "file_ok new" using fok 3(1) by (auto simp: file_ok_def new_def)
    ultimately have "file_step R i (resized (unat want) (file_bytes ?node)) s t"
      by (intro file_stepI [OF caps i t(2)]) (simp_all add: same_entry_def new_def file_bytes_def)
    then show ?thesis using t(1) by simp
  next
    case 4
    obtain rp replacement fresh capacity u where p: "ramfs_prepare_capacity env R i want s = ((rp, replacement, fresh, capacity), u)"
      by (metis prod.exhaust)
    note ps = prepare_spec [OF caps i p]
    define base where "base = (if replacement \<noteq> 0 then fresh else rn_bytes ?node)"
    define target where "target = ramfs_zero_bytes (unat (rn_size ?node)) (unat (want - rn_size ?node)) base"
    define v where "v = (if replacement \<noteq> 0 then u else put_ram_node R i (?node\<lparr>rn_bytes := target\<rparr>) u)"
    obtain rc w where c: "ramfs_commit_replacement env R i replacement target capacity v = (rc, w)" by force
    have run: "ramfs_truncate env f node want s = (if rp \<noteq> VFS_OK then (rp, u)
        else if replacement = 0 \<and> rn_data ?node = 0 then (VFS_CORRUPT, u)
        else if rc \<noteq> VFS_OK then (rc, w)
        else (VFS_OK, put_ram_node R i ((ram_node R i w)\<lparr>rn_size := want\<rparr>) w))"
      using 4 R p c unfolding v_def target_def base_def
      by (cases "rp = VFS_OK"; cases "replacement = 0") (simp_all add: ramfs_truncate_def Let_def linorder_not_less [symmetric])
    show ?thesis
    proof (cases "rp \<noteq> VFS_OK \<or> replacement = 0 \<and> rn_data ?node = 0")
      case True
      then show ?thesis using run r ps by (auto split: if_splits)
    next
      case False
      then have p': "ramfs_prepare_capacity env R i want s = ((VFS_OK, replacement, fresh, capacity), u)"
        and data: "replacement \<noteq> 0 \<or> rn_data ?node \<noteq> 0" using p by auto
      have gt: "unat (rn_size ?node) < unat want" "unat (want - rn_size ?node) = unat want - unat (rn_size ?node)"
        using 4(2) by (simp_all add: word_less_nat_alt unat_sub word_le_nat_alt)
      have lb: "unat want \<le> length base"
      proof (cases "replacement = 0")
        case True
        then show ?thesis using ps p' p fd(5) by (simp add: base_def word_le_nat_alt)
      next
        case no: False
        then show ?thesis using ps p' p by (simp add: base_def)
      qed
      have bb: "base ! k = file_bytes ?node ! k" if "k < unat (rn_size ?node)" for k
        using ps p' p fd(4) that gt by (simp add: base_def)
      have lt: "length target = length base" by (simp add: target_def)
      have bytes: "take (unat want) target = resized (unat want) (file_bytes ?node)"
        by (rule resized_eqI) (use lb bb gt fd(3) in \<open>simp_all add: target_def ramfs_zero_bytes_nth\<close>)
      have "(rc \<noteq> VFS_OK \<and> (\<exists>m. w = with_machine m s)) \<or> (rc = VFS_OK \<and>
          file_step R i (resized (unat want) (file_bytes ?node)) s (put_ram_node R i ((ram_node R i w)\<lparr>rn_size := want\<rparr>) w))"
        by (rule finish_spec [OF caps i p' _ bytes data v_def c]) (simp add: lt base_def)
      then show ?thesis using run r False by (auto split: if_splits)
    qed
  qed
qed

lemma read_spec:
  assumes fok: "file_ok (ram_node R i s)"
    and R: "ramfs_instance_from_filesystem env f s = R" "R \<noteq> 0" "ramfs_regular_from_vfs R node s = Some i"
    and r: "ramfs_read env f node offset len s = ((res, bytes, n), t)"
  shows "t = s \<and> (if len > VFS_IO_MAX then res = VFS_INVALID_ARGUMENT
    else res = VFS_OK \<and> bytes = take (unat len) (drop (unat offset) (file_bytes (ram_node R i s))) \<and> n = word_of_nat (length bytes))"
proof -
  let ?node = "ram_node R i s"
  note fd = file_okD [OF fok]
  have size: "\<not> rn_size ?node > rn_capacity ?node" using fok by (auto simp: file_ok_def)
  consider "len > VFS_IO_MAX" | "\<not> len > VFS_IO_MAX" "offset \<ge> rn_size ?node \<or> len = 0"
    | "\<not> len > VFS_IO_MAX" "\<not> offset \<ge> rn_size ?node" "len \<noteq> 0" by blast
  then show ?thesis
  proof cases
    case 1
    then show ?thesis using r R by (auto simp: ramfs_read_def Let_def)
  next
    case 2
    then have "take (unat len) (drop (unat offset) (file_bytes ?node)) = []"
      using fd(3) by (auto simp: word_le_nat_alt)
    then show ?thesis using 2 r R size by (auto simp: ramfs_read_def Let_def)
  next
    case 3
    have lt: "unat offset < unat (rn_size ?node)" using 3(2) by (simp add: word_le_nat_alt)
    have "rn_data ?node \<noteq> 0" using fd(6,7) lt by auto
    define k where "k = (if rn_size ?node - offset < len then rn_size ?node - offset else len)"
    have av: "unat (rn_size ?node - offset) = unat (rn_size ?node) - unat offset" using 3(2) by (simp add: unat_sub)
    have uk: "unat k = min (unat (rn_size ?node) - unat offset) (unat len)" by (auto simp: k_def word_less_nat_alt av)
    have run: "ramfs_read env f node offset len s = ((VFS_OK, map (\<lambda>j. rn_bytes ?node ! (unat offset + j)) [0..<unat k], k), s)"
      using 3 R size \<open>rn_data ?node \<noteq> 0\<close> by (simp add: ramfs_read_def Let_def k_def)
    moreover have "map (\<lambda>j. rn_bytes ?node ! (unat offset + j)) [0..<unat k] = take (unat len) (drop (unat offset) (file_bytes ?node))"
      using fd(1,3) uk by (intro nth_equalityI) (auto simp: file_bytes_def min_def split: if_splits)
    ultimately show ?thesis using r 3 by (auto simp: fd(3) uk [symmetric])
  qed
qed

end
