(* ===== verification/VfsRefs.thy ===== *)
theory VfsRefs
  imports Vfs "HOL-Library.Multiset"
begin

text \<open>
  Reference counting in kernel/core/vfs.c: the count of every node is the number of paths
  held to it and of mounts that use it. What a back end may do to nodes is the locale
  \<open>vfs_backend\<close>; its lemmas say what each call of the layer does to the paths held.
\<close>

section \<open>The invariant\<close>

definition mount_uses :: "vfs_mount \<Rightarrow> 'b vfs_world \<Rightarrow> u64 \<times> nat \<Rightarrow> nat" where
  "mount_uses m s n = (if mount_active m then of_bool (fs_root (filesystem_at s (mount_filesystem m)) = Some n) +
     of_bool (mount_point m = Some n) else 0)"

definition mount_references :: "'b vfs_world \<Rightarrow> u64 \<times> nat \<Rightarrow> nat" where
  "mount_references s n = (\<Sum>m\<leftarrow>vfs_mounts s. mount_uses m s n)"

definition held :: "vfs_path multiset \<Rightarrow> u64 \<times> nat \<Rightarrow> nat" where
  "held P n = count (image_mset path_node P) (Some n)"

definition mounts_wf :: "'b vfs_world \<Rightarrow> bool" where
  "mounts_wf s \<longleftrightarrow> vfs_initialized s \<and> length (vfs_mounts s) = 8 \<and> mount_active (vfs_mounts s ! 0) \<and>
     vfs_next_mount_id s \<noteq> 0 \<and>
     (\<forall>i<8. mount_active (vfs_mounts s ! i) \<longrightarrow> vfs_mount_valid (Some i) s \<and>
        (\<forall>n. mount_point (vfs_mounts s ! i) = Some n \<longrightarrow> node_valid (node_at s n)))"

definition vfs_inv :: "vfs_path multiset \<Rightarrow> 'b vfs_world \<Rightarrow> bool" where
  "vfs_inv P s \<longleftrightarrow> mounts_wf s \<and> (\<forall>p. p \<in># P \<longrightarrow> vfs_path_valid p s) \<and>
     unat (vfs_path_reference_count s) = size P \<and>
     (\<forall>n. unat (node_references (node_at s n)) = held P n + mount_references s n)"

lemma vfs_invD:
  assumes "vfs_inv P s"
  shows "mounts_wf s" "p \<in># P \<Longrightarrow> vfs_path_valid p s" "unat (vfs_path_reference_count s) = size P"
    "unat (node_references (node_at s n)) = held P n + mount_references s n"
  using assms unfolding vfs_inv_def by blast+

lemma held_simps [simp]:
  "held {#} n = 0" "held (add_mset p P) n = of_bool (path_node p = Some n) + held P n"
  by (simp_all add: held_def)

lemma held_pos: "p \<in># P \<Longrightarrow> path_node p = Some n \<Longrightarrow> 0 < held P n"
  unfolding held_def by (metis count_greater_zero_iff image_eqI set_image_mset)

text \<open>Two worlds that differ only in reference counts and counters.\<close>

definition touched :: "'b vfs_world \<Rightarrow> 'b vfs_world \<Rightarrow> bool" where
  "touched s t \<longleftrightarrow> filesystem_at t = filesystem_at s \<and> backend t = backend s \<and>
     (\<forall>n. node_at t n = (node_at s n)\<lparr>node_references := node_references (node_at t n)\<rparr> \<and>
        (\<not> node_valid (node_at s n) \<longrightarrow> node_references (node_at t n) = node_references (node_at s n)))"

definition same_mounts :: "'b vfs_world \<Rightarrow> 'b vfs_world \<Rightarrow> bool" where
  "same_mounts s t \<longleftrightarrow> vfs_mounts t = vfs_mounts s \<and> vfs_initialized t = vfs_initialized s \<and>
     vfs_open_handle_count t = vfs_open_handle_count s \<and> vfs_next_mount_id t = vfs_next_mount_id s"

lemma touched_refl [simp]: "touched s s"
  by (simp add: touched_def)

lemma touched_node:
  assumes "touched s t"
  shows "node_valid (node_at t n) = node_valid (node_at s n)" "node_id (node_at t n) = node_id (node_at s n)"
    "node_type (node_at t n) = node_type (node_at s n)" "node_filesystem (node_at t n) = node_filesystem (node_at s n)"
    "node_parent (node_at t n) = node_parent (node_at s n)" "node_backend (node_at t n) = node_backend (node_at s n)"
proof -
  have e: "node_at t n = (node_at s n)\<lparr>node_references := node_references (node_at t n)\<rparr>"
    using assms unfolding touched_def by blast
  show "node_valid (node_at t n) = node_valid (node_at s n)" "node_id (node_at t n) = node_id (node_at s n)"
    "node_type (node_at t n) = node_type (node_at s n)" "node_filesystem (node_at t n) = node_filesystem (node_at s n)"
    "node_parent (node_at t n) = node_parent (node_at s n)" "node_backend (node_at t n) = node_backend (node_at s n)"
    by (subst e, simp)+
qed

lemma touched_trans:
  assumes "touched s t" "touched t u"
  shows "touched s u"
  unfolding touched_def
proof (intro conjI allI)
  fix n
  have e: "node_at u n = (node_at t n)\<lparr>node_references := node_references (node_at u n)\<rparr>"
    using assms(2) unfolding touched_def by blast
  have d: "node_at t n = (node_at s n)\<lparr>node_references := node_references (node_at t n)\<rparr>"
    using assms(1) unfolding touched_def by blast
  have f: "x = y\<lparr>node_references := a\<rparr> \<Longrightarrow> z = x\<lparr>node_references := b\<rparr> \<Longrightarrow> z = y\<lparr>node_references := b\<rparr>"
    for x y z :: vfs_node and a b by simp
  show "node_at u n = (node_at s n)\<lparr>node_references := node_references (node_at u n)\<rparr>" by (rule f [OF d e])
  show "\<not> node_valid (node_at s n) \<longrightarrow> node_references (node_at u n) = node_references (node_at s n)"
    using assms touched_node(1) [OF assms(1)] unfolding touched_def by metis
qed (use assms in \<open>simp_all add: touched_def\<close>)

lemma touched_valid:
  assumes "touched s t"
  shows "vfs_node_valid_for_filesystem node f t = vfs_node_valid_for_filesystem node f s"
    "vfs_filesystem_valid f t = vfs_filesystem_valid f s"
proof -
  have fs: "filesystem_at t = filesystem_at s" using assms by (simp add: touched_def)
  show v: "vfs_node_valid_for_filesystem node f t = vfs_node_valid_for_filesystem node f s" for node
    by (simp add: vfs_node_valid_for_filesystem_def touched_node [OF assms] split: option.split)
  show "vfs_filesystem_valid f t = vfs_filesystem_valid f s"
    by (simp add: vfs_filesystem_valid_def v fs touched_node [OF assms])
qed

lemma touched_path:
  assumes "touched s t" "same_mounts s t"
  shows "vfs_mount_valid m t = vfs_mount_valid m s" "vfs_path_valid p t = vfs_path_valid p s"
    "filesystem_of p t = filesystem_of p s" "node_type (node_of p t) = node_type (node_of p s)"
    "node_parent (node_of p t) = node_parent (node_of p s)" "mounts_wf t = mounts_wf s"
    "mount_references t = mount_references s" "operations_of ops p t = operations_of ops p s"
proof -
  have m: "vfs_mounts t = vfs_mounts s" "vfs_initialized t = vfs_initialized s" "vfs_next_mount_id t = vfs_next_mount_id s"
    using assms(2) by (simp_all add: same_mounts_def)
  have fs: "filesystem_at t = filesystem_at s" using assms(1) by (simp add: touched_def)
  show mv: "vfs_mount_valid m t = vfs_mount_valid m s" for m
    by (simp add: vfs_mount_valid_def m touched_valid [OF assms(1)] split: option.split)
  show fo: "filesystem_of p t = filesystem_of p s" by (simp add: filesystem_of_def mount_of_def m)
  show "vfs_path_valid p t = vfs_path_valid p s" by (simp add: vfs_path_valid_def mv fo touched_valid [OF assms(1)])
  show "node_type (node_of p t) = node_type (node_of p s)" "node_parent (node_of p t) = node_parent (node_of p s)"
    by (simp_all add: node_of_def touched_node [OF assms(1)])
  show "mounts_wf t = mounts_wf s" by (simp add: mounts_wf_def m mv touched_node [OF assms(1)])
  show "mount_references t = mount_references s" by (intro ext) (simp add: mount_references_def mount_uses_def m fs cong: if_cong)
  show "operations_of ops p t = operations_of ops p s" by (simp add: operations_of_def fo fs)
qed

lemma touched_put: "node_valid (node_at s n) \<Longrightarrow> touched s (put_node n ((node_at s n)\<lparr>node_references := r\<rparr>) s)"
  by (simp add: touched_def put_node_def)

lemma touched_counters [simp]:
  "touched s (t\<lparr>vfs_path_reference_count := c\<rparr>) = touched s t" "touched s (t\<lparr>vfs_open_handle_count := c\<rparr>) = touched s t"
  "same_mounts s (t\<lparr>vfs_path_reference_count := c\<rparr>) = same_mounts s t"
  by (simp_all add: touched_def same_mounts_def)

lemma same_mounts_trans: "same_mounts s t \<Longrightarrow> same_mounts t u \<Longrightarrow> same_mounts s u"
  by (simp add: same_mounts_def)

lemma same_mounts_put [simp]: "same_mounts s (put_node n x s)" "same_mounts s s"
  by (simp_all add: same_mounts_def put_node_def)

section \<open>Acquiring and releasing\<close>

lemma unat_suc_u64:
  assumes "(x :: u64) \<noteq> UINT64_MAX"
  shows "unat (x + 1) = Suc (unat x)"
proof -
  have "unat x \<noteq> 18446744073709551615" using assms by (simp add: word_unat_eq_iff)
  then show ?thesis using unat_u64_less [of x] by (simp add: unat_add_exact)
qed

lemma unat_suc_u32:
  assumes "(x :: u32) \<noteq> UINT32_MAX"
  shows "unat (x + 1) = Suc (unat x)"
proof -
  have "unat x \<noteq> 4294967295" using assms by (simp add: word_unat_eq_iff)
  then show ?thesis using unat_u32_less [of x] by (simp add: unat_add_exact)
qed

lemma valid_node: "vfs_node_valid_for_filesystem node f s \<Longrightarrow> \<exists>n. node = Some n \<and> node_valid (node_at s n)"
  by (auto simp: vfs_node_valid_for_filesystem_def split: option.splits)

lemma acquire_spec:
  assumes inv: "vfs_inv P s" and r: "vfs_path_acquire m node out s = ((res, p), t)"
  shows "touched s t \<and> same_mounts s t \<and>
    (if res = VFS_OK then vfs_inv (add_mset p P) t \<and> vfs_path_valid p t \<and> p = \<lparr>path_mount = m, path_node = node\<rparr>
     else t = s \<and> p = out)"
proof (cases "path_mount out \<noteq> None \<or> path_node out \<noteq> None \<or> \<not> vfs_mount_valid m s \<or>
    \<not> vfs_node_valid_for_filesystem node (mount_filesystem (vfs_mounts s ! the m)) s \<or> vfs_path_reference_count s = UINT64_MAX")
  case True
  then show ?thesis using r by (auto simp: vfs_path_acquire_def split: if_splits)
next
  case False
  then have v: "vfs_mount_valid m s" "vfs_node_valid_for_filesystem node (mount_filesystem (vfs_mounts s ! the m)) s"
    "vfs_path_reference_count s \<noteq> UINT64_MAX" by simp_all
  obtain n where n: "node = Some n" "node_valid (node_at s n)" using valid_node [OF v(2)] by blast
  show ?thesis
  proof (cases "node_references (node_at s n) = UINT32_MAX")
    case True
    then show ?thesis using r False n by (auto simp: vfs_path_acquire_def vfs_node_retain_def)
  next
    case notmax: False
    let ?u = "put_node n ((node_at s n)\<lparr>node_references := node_references (node_at s n) + 1\<rparr>) s"
    have t: "res = VFS_OK" "p = \<lparr>path_mount = m, path_node = node\<rparr>"
      "t = ?u\<lparr>vfs_path_reference_count := vfs_path_reference_count s + 1\<rparr>"
      using r False n notmax by (auto simp: vfs_path_acquire_def vfs_node_retain_def put_node_def)
    have tou: "touched s t" "same_mounts s t" using touched_put [OF n(2)] by (simp_all add: t(3))
    note tp = touched_path [OF tou]
    have pv: "vfs_path_valid p s" using v by (simp add: vfs_path_valid_def t(2) filesystem_of_def mount_of_def)
    have c64: "unat (vfs_path_reference_count s + 1) = Suc (unat (vfs_path_reference_count s))"
      using unat_suc_u64 [OF v(3)] .
    have c32: "unat (node_references (node_at s n) + 1) = Suc (unat (node_references (node_at s n)))"
      using unat_suc_u32 [OF notmax] .
    have refs: "unat (node_references (node_at t k)) = of_bool (node = Some k) + unat (node_references (node_at s k))" for k
      by (simp add: t(3) put_node_def n(1) c32)
    have "vfs_inv (add_mset p P) t"
      unfolding vfs_inv_def
    proof (intro conjI allI impI)
      show "mounts_wf t" using vfs_invD(1) [OF inv] tp by simp
      show "vfs_path_valid q t" if "q \<in># add_mset p P" for q using that vfs_invD(2) [OF inv] pv tp by auto
      show "unat (vfs_path_reference_count t) = size (add_mset p P)" using vfs_invD(3) [OF inv] c64 by (simp add: t(3))
      show "unat (node_references (node_at t k)) = held (add_mset p P) k + mount_references t k" for k
        using refs vfs_invD(4) [OF inv, of k] tp(7) by (simp add: t(2))
    qed
    then show ?thesis using tou tp pv t by simp
  qed
qed

lemma release_spec:
  assumes inv: "vfs_inv (add_mset p P) s" and r: "vfs_path_release p s = ((res, q), t)"
  shows "touched s t \<and> same_mounts s t \<and> res = VFS_OK \<and> q = null_path \<and> vfs_inv P t"
proof -
  have pv: "vfs_path_valid p s" using vfs_invD(2) [OF inv] by simp
  then have "vfs_node_valid_for_filesystem (path_node p) (filesystem_of p s) s" by (simp add: vfs_path_valid_def)
  then obtain n where n: "path_node p = Some n" "node_valid (node_at s n)" using valid_node by blast
  have c: "unat (vfs_path_reference_count s) = Suc (size P)" using vfs_invD(3) [OF inv] by simp
  then have c0: "vfs_path_reference_count s \<noteq> 0" by auto
  have k: "unat (node_references (node_at s n)) = Suc (held P n + mount_references s n)"
    using vfs_invD(4) [OF inv, of n] n(1) by simp
  then have k0: "node_references (node_at s n) \<noteq> 0" by auto
  let ?u = "put_node n ((node_at s n)\<lparr>node_references := node_references (node_at s n) - 1\<rparr>) s"
  have t: "res = VFS_OK" "q = null_path" "t = ?u\<lparr>vfs_path_reference_count := vfs_path_reference_count s - 1\<rparr>"
    using r pv n c0 k0 by (auto simp: vfs_path_release_def vfs_node_release_def put_node_def)
  have tou: "touched s t" "same_mounts s t" using touched_put [OF n(2)] by (simp_all add: t(3))
  note tp = touched_path [OF tou]
  have c1: "unat (vfs_path_reference_count s - 1) = size P" using c c0 by (simp add: unat_minus_one)
  have k1: "unat (node_references (node_at s n) - 1) = held P n + mount_references s n" using k k0 by (simp add: unat_minus_one)
  have refs: "unat (node_references (node_at t j)) = held P j + mount_references s j" for j
    using vfs_invD(4) [OF inv, of j] k1 n(1) by (cases "j = n") (auto simp: t(3) put_node_def)
  have "vfs_inv P t"
    unfolding vfs_inv_def using vfs_invD(1,2) [OF inv] c1 refs tp by (simp add: t(3))
  then show ?thesis using tou t by simp
qed

lemma drop_spec:
  assumes "vfs_inv (add_mset p P) s"
  shows "vfs_inv P (drop_path p s)" "touched s (drop_path p s)" "same_mounts s (drop_path p s)"
proof -
  obtain res q t where r: "vfs_path_release p s = ((res, q), t)" by (metis prod.exhaust)
  show "vfs_inv P (drop_path p s)" "touched s (drop_path p s)" "same_mounts s (drop_path p s)"
    using release_spec [OF assms r] r by (simp_all add: drop_path_def)
qed

lemma replace_spec:
  assumes inv: "vfs_inv (add_mset p P) s" and r: "vfs_path_replace p m node s = ((res, q), t)"
  shows "touched s t \<and> same_mounts s t \<and>
    (if res = VFS_OK then vfs_inv (add_mset q P) t \<and> q = \<lparr>path_mount = m, path_node = node\<rparr> else t = s \<and> q = p)"
proof -
  have pv: "vfs_path_valid p s" using vfs_invD(2) [OF inv] by simp
  obtain ra w u where a: "vfs_path_acquire m node null_path s = ((ra, w), u)" by (metis prod.exhaust)
  note as = acquire_spec [OF inv a]
  show ?thesis
  proof (cases "ra = VFS_OK")
    case False
    then show ?thesis using r a pv as by (auto simp: vfs_path_replace_def)
  next
    case True
    then have iu: "vfs_inv (add_mset p (add_mset w P)) u" by (subst add_mset_commute) (use as in metis)
    obtain rr z v where rel: "vfs_path_release p u = ((rr, z), v)" by (metis prod.exhaust)
    note rs = release_spec [OF iu rel]
    have "res = VFS_OK" "q = w" "t = v" using r a pv True rel rs by (auto simp: vfs_path_replace_def)
    then show ?thesis using as rs True touched_trans [of s u v] by (auto simp: same_mounts_def)
  qed
qed

section \<open>Back ends\<close>

text \<open>
  What an operation of a back end may do: it changes no count and no table of the layer,
  it leaves every node in use what it was, and no file system loses its root.
\<close>

definition backend_step :: "'b vfs_world \<Rightarrow> 'b vfs_world \<Rightarrow> bool" where
  "backend_step s t \<longleftrightarrow> same_mounts s t \<and> filesystem_at t = filesystem_at s \<and>
     vfs_path_reference_count t = vfs_path_reference_count s \<and>
     (\<forall>n. node_references (node_at t n) = node_references (node_at s n) \<and>
       (node_references (node_at s n) \<noteq> 0 \<longrightarrow> node_valid (node_at t n) = node_valid (node_at s n) \<and>
          node_id (node_at t n) = node_id (node_at s n) \<and> node_type (node_at t n) = node_type (node_at s n) \<and>
          node_filesystem (node_at t n) = node_filesystem (node_at s n))) \<and>
     (\<forall>f. vfs_filesystem_valid f s \<longrightarrow> vfs_filesystem_valid f t)"

lemma backend_step_refl [simp]: "backend_step s s"
  by (simp add: backend_step_def same_mounts_def)

lemma backend_step_valid:
  assumes "backend_step s t" "\<And>n. node = Some n \<Longrightarrow> node_references (node_at s n) \<noteq> 0"
  shows "vfs_node_valid_for_filesystem node f t = vfs_node_valid_for_filesystem node f s"
proof (cases node)
  case (Some n)
  then have "node_valid (node_at t n) = node_valid (node_at s n)" "node_id (node_at t n) = node_id (node_at s n)"
    "node_type (node_at t n) = node_type (node_at s n)" "node_filesystem (node_at t n) = node_filesystem (node_at s n)"
    using assms unfolding backend_step_def by blast+
  then show ?thesis using Some by (simp add: vfs_node_valid_for_filesystem_def)
qed (simp add: vfs_node_valid_for_filesystem_def)

lemma backend_step_mounts:
  assumes "backend_step s t"
  shows "vfs_mount_valid m s \<Longrightarrow> vfs_mount_valid m t" "filesystem_of p t = filesystem_of p s"
    "mount_references t = mount_references s"
proof -
  have m: "vfs_mounts t = vfs_mounts s" "vfs_initialized t = vfs_initialized s" "filesystem_at t = filesystem_at s"
    using assms by (simp_all add: backend_step_def same_mounts_def)
  have fv: "vfs_filesystem_valid f s \<Longrightarrow> vfs_filesystem_valid f t" for f using assms unfolding backend_step_def by blast
  show mv: "vfs_mount_valid m s \<Longrightarrow> vfs_mount_valid m t" for m
    using fv by (auto simp: vfs_mount_valid_def m split: option.splits)
  show "filesystem_of p t = filesystem_of p s" by (simp add: filesystem_of_def mount_of_def m)
  show "mount_references t = mount_references s" by (intro ext) (simp add: mount_references_def mount_uses_def m cong: if_cong)
qed

lemma mount_references_pos:
  assumes "i < length (vfs_mounts s)" "mount_active (vfs_mounts s ! i)" "mount_point (vfs_mounts s ! i) = Some n"
  shows "0 < mount_references s n"
proof -
  have "mount_uses (vfs_mounts s ! i) s n \<le> mount_references s n"
    unfolding mount_references_def using assms(1) by (intro member_le_sum_list) auto
  moreover have "0 < mount_uses (vfs_mounts s ! i) s n" using assms by (simp add: mount_uses_def)
  ultimately show ?thesis by simp
qed

lemma backend_step_inv:
  assumes inv: "vfs_inv P s" and step: "backend_step s t"
  shows "vfs_inv P t"
proof -
  note b = backend_step_mounts [OF step]
  have refs: "node_references (node_at t n) = node_references (node_at s n)" for n using step unfolding backend_step_def by blast
  have "vfs_path_valid p t" if p: "p \<in># P" for p
  proof -
    have v: "vfs_path_valid p s" by (rule vfs_invD(2) [OF inv p])
    have "node_references (node_at s n) \<noteq> 0" if "path_node p = Some n" for n
      using vfs_invD(4) [OF inv, of n] held_pos [OF p that] by auto
    then have "vfs_node_valid_for_filesystem (path_node p) (filesystem_of p t) t"
      using v backend_step_valid [OF step] b(2) by (simp add: vfs_path_valid_def)
    then show ?thesis using v b(1) by (simp add: vfs_path_valid_def)
  qed
  moreover have "vfs_path_reference_count t = vfs_path_reference_count s" using step by (simp add: backend_step_def)
  moreover have "mounts_wf t"
  proof -
    have m: "vfs_mounts t = vfs_mounts s" "vfs_initialized t = vfs_initialized s" "vfs_next_mount_id t = vfs_next_mount_id s"
      using step by (simp_all add: backend_step_def same_mounts_def)
    have w: "mounts_wf s" by (rule vfs_invD(1) [OF inv])
    have "node_valid (node_at t n)"
      if i: "i < 8" "mount_active (vfs_mounts s ! i)" "mount_point (vfs_mounts s ! i) = Some n" for i n
    proof -
      have "i < length (vfs_mounts s)" using w i(1) by (simp add: mounts_wf_def)
      then have "node_references (node_at s n) \<noteq> 0"
        using vfs_invD(4) [OF inv, of n] mount_references_pos [OF _ i(2,3)] by auto
      then have "node_valid (node_at t n) = node_valid (node_at s n)" using step unfolding backend_step_def by blast
      then show ?thesis using w i unfolding mounts_wf_def by blast
    qed
    then show ?thesis using w b(1) unfolding mounts_wf_def m by blast
  qed
  ultimately show ?thesis
    using vfs_invD(3,4) [OF inv] b(3) unfolding vfs_inv_def by (simp add: refs)
qed

text \<open>Every operation of every table keeps the contract; \<open>ok\<close> is the invariant of the back ends.\<close>

locale vfs_backend =
  fixes ops :: "u64 \<Rightarrow> 'b vfs_operations" and ok :: "'b vfs_world \<Rightarrow> bool"
  assumes stable: "ok s \<Longrightarrow> touched s t \<Longrightarrow> ok t"
    and lookup_step: "ok s \<Longrightarrow> op_lookup (ops a) = Some lookup \<Longrightarrow> lookup f d name s = (r, t) \<Longrightarrow> backend_step s t \<and> ok t"
    and create_step: "ok s \<Longrightarrow> op_create (ops a) = Some create \<Longrightarrow> create f d name s = (r, t) \<Longrightarrow> backend_step s t \<and> ok t"
    and mkdir_step: "ok s \<Longrightarrow> op_mkdir (ops a) = Some create \<Longrightarrow> create f d name s = (r, t) \<Longrightarrow> backend_step s t \<and> ok t"
    and unlink_step: "ok s \<Longrightarrow> op_unlink (ops a) = Some remove \<Longrightarrow> remove f d name s = (res, t) \<Longrightarrow> backend_step s t \<and> ok t"
    and rmdir_step: "ok s \<Longrightarrow> op_rmdir (ops a) = Some remove \<Longrightarrow> remove f d name s = (res, t) \<Longrightarrow> backend_step s t \<and> ok t"
    and rename_step: "ok s \<Longrightarrow> op_rename (ops a) = Some rename \<Longrightarrow> rename f d name d' name' s = (res, t) \<Longrightarrow>
      backend_step s t \<and> ok t"
    and read_step: "ok s \<Longrightarrow> op_read (ops a) = Some read \<Longrightarrow> read f n offset len s = (rd, t) \<Longrightarrow> backend_step s t \<and> ok t"
    and write_step: "ok s \<Longrightarrow> op_write (ops a) = Some put \<Longrightarrow> put f n offset bytes s = (wr, t) \<Longrightarrow> backend_step s t \<and> ok t"
    and truncate_step: "ok s \<Longrightarrow> op_truncate (ops a) = Some resize \<Longrightarrow> resize f n offset s = (res, t) \<Longrightarrow>
      backend_step s t \<and> ok t"
    and readdir_step: "ok s \<Longrightarrow> op_readdir (ops a) = Some readdir \<Longrightarrow> readdir f d offset entry s = (rr, t) \<Longrightarrow>
      backend_step s t \<and> ok t"
begin

lemma follow_spec:
  assumes inv: "vfs_inv (add_mset p P) s" "ok s" and r: "vfs_follow_child_mount p s = ((res, q), t)"
  shows "ok t" "same_mounts s t" and "if res = VFS_OK then vfs_inv (add_mset q P) t else vfs_inv (add_mset p P) t \<and> q = p"
proof -
  have "(t = s \<and> q = p \<and> res = VFS_OK) \<or> (\<exists>m node. vfs_path_replace p m node s = ((res, q), t))"
    using r vfs_invD(2) [OF inv(1), of p] by (auto simp: vfs_follow_child_mount_def split: option.splits)
  then have "ok t \<and> same_mounts s t \<and> (if res = VFS_OK then vfs_inv (add_mset q P) t else vfs_inv (add_mset p P) t \<and> q = p)"
    using replace_spec [OF inv(1)] stable [OF inv(2)] inv by fastforce
  then show "ok t" "same_mounts s t" "if res = VFS_OK then vfs_inv (add_mset q P) t else vfs_inv (add_mset p P) t \<and> q = p" by simp_all
qed

lemma step_parent_spec:
  assumes inv: "vfs_inv (add_mset p P) s" "ok s" and r: "vfs_step_parent p s = ((res, q), t)"
  shows "ok t" "same_mounts s t" and "if res = VFS_OK then vfs_inv (add_mset q P) t else vfs_inv (add_mset p P) t \<and> q = p"
proof -
  have "(t = s \<and> q = p) \<or> (\<exists>m node. vfs_path_replace p m node s = ((res, q), t))"
    using r by (auto simp: vfs_step_parent_def Let_def split: if_splits)
  then have "ok t \<and> same_mounts s t \<and> (if res = VFS_OK then vfs_inv (add_mset q P) t else vfs_inv (add_mset p P) t \<and> q = p)"
    using replace_spec [OF inv(1)] stable [OF inv(2)] inv by fastforce
  then show "ok t" "same_mounts s t" "if res = VFS_OK then vfs_inv (add_mset q P) t else vfs_inv (add_mset p P) t \<and> q = p" by simp_all
qed

lemma component_spec:
  assumes inv: "vfs_inv (add_mset p P) s" "ok s" and r: "resolve_component ops name p s = ((res, q), t)"
  shows "ok t \<and> same_mounts s t \<and> (if res = VFS_OK then vfs_inv (add_mset q P) t else vfs_inv P t)"
proof -
  have dropped: "ok (drop_path p u) \<and> same_mounts u (drop_path p u) \<and> vfs_inv P (drop_path p u)" if "vfs_inv (add_mset p P) u" "ok u" for u
    using drop_spec [OF that(1)] stable [OF that(2)] by blast
  show ?thesis
  proof (cases "node_type (node_of p s) \<noteq> NODE_DIRECTORY \<or> op_lookup (operations_of ops p s) = None")
    case True
    then have "t = drop_path p s" "res \<noteq> VFS_OK" using r by (auto simp: resolve_component_def split: if_splits)
    then show ?thesis using dropped [OF inv] by simp
  next
    case False
    then obtain lookup where l: "op_lookup (operations_of ops p s) = Some lookup" by blast
    obtain rl node u where u: "lookup (filesystem_of p s) (path_node p) name s = ((rl, node), u)" by (metis prod.exhaust)
    have bu: "backend_step s u" "ok u" using lookup_step [OF inv(2) l [unfolded operations_of_def] u] by simp_all
    have su: "same_mounts s u" using bu(1) by (simp add: backend_step_def)
    have iu: "vfs_inv (add_mset p P) u" by (rule backend_step_inv [OF inv(1) bu(1)])
    have fo: "filesystem_of p u = filesystem_of p s" by (rule backend_step_mounts(2) [OF bu(1)])
    show ?thesis
    proof (cases "rl \<noteq> VFS_OK \<or> vfs_validate_backend_child (filesystem_of p u) (path_node p) node NODE_REGULAR False u \<noteq> VFS_OK")
      case True
      then have "t = drop_path p u" "res \<noteq> VFS_OK"
        using r False l u by (auto simp: resolve_component_def Let_def fo split: if_splits)
      then show ?thesis using dropped [OF iu bu(2)] same_mounts_trans [OF su] by simp
    next
      case valid: False
      obtain ra w v where a: "vfs_path_acquire (path_mount p) node null_path u = ((ra, w), v)" by (metis prod.exhaust)
      note as = acquire_spec [OF iu a]
      have okv: "ok v" "same_mounts s v" using stable [OF bu(2)] as same_mounts_trans [OF su] by blast+
      show ?thesis
      proof (cases "ra = VFS_OK")
        case no: False
        then have "t = drop_path p v" "res \<noteq> VFS_OK"
          using r False l u valid a by (auto simp: resolve_component_def Let_def fo)
        then show ?thesis using dropped [of v] as no iu okv same_mounts_trans [OF okv(2)] by simp
      next
        case True
        have iv: "vfs_inv (add_mset p (add_mset w P)) v" by (subst add_mset_commute) (use as True in metis)
        obtain rr z x where rel: "vfs_path_release p v = ((rr, z), x)" by (metis prod.exhaust)
        note rs = release_spec [OF iv rel]
        have okx: "ok x" "same_mounts s x" using stable [OF okv(1)] rs same_mounts_trans [OF okv(2)] by blast+
        obtain rf y v' where f: "vfs_follow_child_mount w x = ((rf, y), v')" by (metis prod.exhaust)
        have ix: "vfs_inv (add_mset w P) x" using rs by simp
        note fs = follow_spec [OF ix okx(1) f]
        have "resolve_component ops name p s = (if rf = VFS_OK then ((VFS_OK, y), v') else ((rf, y), drop_path y v'))"
          using False l u valid a True rel rs f by (simp add: resolve_component_def fo)
        with r have run: "res = rf \<and> t = (if rf = VFS_OK then v' else drop_path y v') \<and> (rf = VFS_OK \<longrightarrow> q = y)"
          by (auto split: if_splits)
        have sv: "same_mounts s v'" by (rule same_mounts_trans [OF okx(2) fs(2)])
        show ?thesis
        proof (cases "rf = VFS_OK")
          case True
          then show ?thesis using run fs sv by simp
        next
          case False
          then have "vfs_inv (add_mset y P) v'" using fs(3) by simp
          note ds = drop_spec [OF this]
          show ?thesis using run False ds stable [OF fs(1) ds(2)] same_mounts_trans [OF sv] by simp
        qed
      qed
    qed
  qed
qed

lemma step_spec:
  assumes inv: "vfs_inv (add_mset p P) s" "ok s" and r: "resolve_step ops name p s = ((res, q), t)"
  shows "ok t \<and> same_mounts s t \<and> (if res = VFS_OK then vfs_inv (add_mset q P) t else vfs_inv P t)"
proof -
  have dropped: "ok (drop_path p u) \<and> same_mounts u (drop_path p u) \<and> vfs_inv P (drop_path p u)" if "vfs_inv (add_mset p P) u" "ok u" for u
    using drop_spec [OF that(1)] stable [OF that(2)] by blast
  obtain rp q' u where u: "vfs_step_parent p s = ((rp, q'), u)" by (metis prod.exhaust)
  note sp = step_parent_spec [OF inv u]
  consider "res = VFS_NAME_TOO_LONG" "t = drop_path p s" | "res = VFS_OK" "t = s" "q = p"
    | "res = rp" "res = VFS_OK" "q = q'" "t = u" | "res = rp" "res \<noteq> VFS_OK" "t = drop_path q' u"
    | "resolve_component ops name p s = ((res, q), t)"
  proof (cases "length name > VFS_NAME_MAX")
    case long: True
    assume "res = VFS_NAME_TOO_LONG \<Longrightarrow> t = drop_path p s \<Longrightarrow> thesis"
    then show thesis using r long by (auto simp: resolve_step_def)
  next
    case short: False
    assume a: "res = VFS_OK \<Longrightarrow> t = s \<Longrightarrow> q = p \<Longrightarrow> thesis" "res = rp \<Longrightarrow> res = VFS_OK \<Longrightarrow> q = q' \<Longrightarrow> t = u \<Longrightarrow> thesis"
      "res = rp \<Longrightarrow> res \<noteq> VFS_OK \<Longrightarrow> t = drop_path q' u \<Longrightarrow> thesis" "resolve_component ops name p s = ((res, q), t) \<Longrightarrow> thesis"
    consider "name = [DOT]" | "name = [DOT, DOT]" | "name \<noteq> [DOT]" "name \<noteq> [DOT, DOT]" by blast
    then show thesis
    proof cases
      case 1
      then show thesis using r a(1) by (simp add: resolve_step_def)
    next
      case 2
      then show thesis using r u a(2,3) by (cases "rp = VFS_OK") (auto simp: resolve_step_def)
    next
      case 3
      then show thesis using r short a(4) by (simp add: resolve_step_def)
    qed
  qed
  then show ?thesis
  proof cases
    case 1
    then show ?thesis using dropped [OF inv] by simp
  next
    case 2
    then show ?thesis using inv by simp
  next
    case 3
    then show ?thesis using sp by simp
  next
    case 4
    then show ?thesis using sp dropped [of u] same_mounts_trans [OF sp(2)] by simp
  next
    case 5
    then show ?thesis using component_spec [OF inv] by simp
  qed
qed

lemma resolve_from_spec:
  "vfs_inv (add_mset p P) s \<Longrightarrow> ok s \<Longrightarrow> resolve_from ops xs p s = ((res, q), t) \<Longrightarrow>
    ok t \<and> same_mounts s t \<and> (if res = VFS_OK then vfs_inv (add_mset q P) t else vfs_inv P t)"
proof (induction "length xs" arbitrary: xs p s rule: less_induct)
  case less
  let ?ys = "dropWhile (\<lambda>c. c = SLASH) xs"
  show ?case
  proof (cases "?ys = []")
    case True
    then show ?thesis using less.prems by (simp add: resolve_from.simps)
  next
    case False
    obtain r1 p1 s1 where s1: "resolve_step ops (takeWhile (\<lambda>c. c \<noteq> SLASH) ?ys) p s = ((r1, p1), s1)" by (metis prod.exhaust)
    note ss = step_spec [OF less.prems(1,2) s1]
    have run: "resolve_from ops xs p s =
        (if r1 \<noteq> VFS_OK then ((r1, p1), s1) else resolve_from ops (dropWhile (\<lambda>c. c \<noteq> SLASH) ?ys) p1 s1)"
      using False s1 by (subst resolve_from.simps) (simp add: Let_def del: dropWhile_eq_Nil_conv)
    show ?thesis
    proof (cases "r1 = VFS_OK")
      case no: False
      then show ?thesis using run ss less.prems(3) by auto
    next
      case True
      then show ?thesis
        using less.hyps [OF resolve_rest_shorter [OF False], of p1 s1] ss run less.prems(3) same_mounts_trans [of s s1 t] by simp
    qed
  qed
qed

lemma resolve_spec:
  assumes inv: "vfs_inv P s" "ok s" and r: "vfs_resolve ops start path out s = ((res, q), t)"
  shows "ok t \<and> same_mounts s t \<and> (if res = VFS_OK then vfs_inv (add_mset q P) t else vfs_inv P t \<and> q = out)"
proof -
  consider "res \<noteq> VFS_OK" "t = s" "q = out"
    | r1 p1 s1 r2 p2 s2 m node where "vfs_path_acquire m node null_path s = ((r1, p1), s1)"
      "resolve_from ops (the path) p1 s1 = ((r2, p2), s2)"
      "if r1 \<noteq> VFS_OK then res = r1 \<and> q = out \<and> t = s1
       else res = r2 \<and> t = s2 \<and> q = (if r2 = VFS_OK then p2 else out)"
  proof -
    assume a: "res \<noteq> VFS_OK \<Longrightarrow> t = s \<Longrightarrow> q = out \<Longrightarrow> thesis"
      and b: "\<And>m node r1 p1 s1 r2 p2 s2. vfs_path_acquire m node null_path s = ((r1, p1), s1) \<Longrightarrow>
        resolve_from ops (the path) p1 s1 = ((r2, p2), s2) \<Longrightarrow>
        (if r1 \<noteq> VFS_OK then res = r1 \<and> q = out \<and> t = s1
         else res = r2 \<and> t = s2 \<and> q = (if r2 = VFS_OK then p2 else out)) \<Longrightarrow> thesis"
    define acq where "acq = (if the path ! 0 = SLASH then vfs_get_root null_path s else vfs_path_clone (the start) null_path s)"
    obtain r1 p1 s1 where s1: "acq = ((r1, p1), s1)" by (metis prod.exhaust)
    obtain r2 p2 s2 where s2: "resolve_from ops (the path) p1 s1 = ((r2, p2), s2)" by (metis prod.exhaust)
    show thesis
    proof (cases "vfs_initialized s \<and> path \<noteq> None \<and> path_mount out = None \<and> path_node out = None \<and>
        (\<exists>len. vfs_bounded_length path VFS_PATH_MAX = Some len \<and> len \<noteq> 0) \<and>
        \<not> (the path ! 0 \<noteq> SLASH \<and> (case start of None \<Rightarrow> True | Some p \<Rightarrow> \<not> vfs_path_valid p s))")
      case False
      then have "res \<noteq> VFS_OK \<and> t = s \<and> q = out"
        using r by (auto simp: vfs_resolve_def split: if_splits option.splits)
      then show thesis using a by simp
    next
      case True
      then obtain m node where "acq = vfs_path_acquire m node null_path s"
        by (cases "the path ! 0 = SLASH") (auto simp: acq_def vfs_get_root_def vfs_path_clone_def split: option.splits)
      moreover have "if r1 \<noteq> VFS_OK then res = r1 \<and> q = out \<and> t = s1
          else res = r2 \<and> t = s2 \<and> q = (if r2 = VFS_OK then p2 else out)"
      proof -
        have "vfs_resolve ops start path out s = (if r1 \<noteq> VFS_OK then ((r1, out), s1)
            else if r2 \<noteq> VFS_OK then ((r2, out), s2) else ((VFS_OK, p2), s2))"
          using True s1 s2 by (cases "the path ! 0 = SLASH") (auto simp: vfs_resolve_def acq_def)
        then show ?thesis using r by (auto split: if_splits)
      qed
      ultimately show thesis using b s1 s2 by metis
    qed
  qed
  then show ?thesis
  proof cases
    case 1
    then show ?thesis using inv by simp
  next
    case 2
    note as = acquire_spec [OF inv(1) 2(1)]
    have ok1: "ok s1" using stable [OF inv(2)] as by blast
    show ?thesis
    proof (cases "r1 = VFS_OK")
      case False
      then show ?thesis using 2(3) as inv ok1 by auto
    next
      case True
      then show ?thesis using 2(3) as resolve_from_spec [of p1 P s1, OF _ ok1 2(2)] same_mounts_trans [of s s1 t] by auto
    qed
  qed
qed

end

end
