(* ===== verification/RamfsTree.thy ===== *)
theory RamfsTree
  imports RamfsFiles VfsRefs
begin

text \<open>
  What holds of a file system of kernel/core/ramfs.c between any two of its operations:
  nodes in use form a tree whose names are unique in each directory, files stay within the
  limits, nodes not in use have no references; and that each change the operations make
  keeps it.
\<close>

section \<open>The invariant\<close>

definition used :: "u64 \<Rightarrow> 'm ram_world \<Rightarrow> nat \<Rightarrow> bool" where
  "used R s i \<longleftrightarrow> i < 32 \<and> rn_occupied (ram_node R i s)"

definition par :: "u64 \<Rightarrow> 'm ram_world \<Rightarrow> nat \<Rightarrow> nat" where
  "par R s i = snd (the (node_parent (node_at s (R, i))))"

inductive rooted :: "(nat \<Rightarrow> nat) \<Rightarrow> nat \<Rightarrow> bool" for p where
  rooted_0: "rooted p 0"
| rooted_up: "rooted p (p i) \<Longrightarrow> rooted p i"

definition name_of :: "ramfs_node \<Rightarrow> u8 list" where
  "name_of node = take (unat (rn_name_length node)) (rn_name node)"

definition entry_name_ok :: "ramfs_node \<Rightarrow> bool" where
  "entry_name_ok node \<longleftrightarrow> unat (rn_name_length node) \<le> VFS_NAME_MAX \<and> ramfs_validate_name (name_of node) = VFS_OK"

definition node_ok :: "u64 \<Rightarrow> 'm ram_world \<Rightarrow> nat \<Rightarrow> bool" where
  "node_ok R s i \<longleftrightarrow>
     rn_owner (ram_node R i s) = R \<and> length (rn_name (ram_node R i s)) = 256 \<and> (i \<noteq> 0 \<longrightarrow> entry_name_ok (ram_node R i s)) \<and>
     file_ok (ram_node R i s) \<and> node_valid (node_at s (R, i)) \<and> node_id (node_at s (R, i)) \<noteq> 0 \<and>
     node_id (node_at s (R, i)) < ramfs_next_node_id (ram_of R s) \<and>
     node_filesystem (node_at s (R, i)) = R \<and> node_backend (node_at s (R, i)) = Some (R, i) \<and>
     vfs_node_type_valid (node_type (node_at s (R, i))) \<and>
     node_parent (node_at s (R, i)) = Some (R, par R s i) \<and> used R s (par R s i) \<and>
     node_type (node_at s (R, par R s i)) = NODE_DIRECTORY"

definition ramfs_ok :: "u64 \<Rightarrow> u64 \<Rightarrow> 'm ram_world \<Rightarrow> bool" where
  "ramfs_ok table R s \<longleftrightarrow>
     fs_valid (filesystem_at s R) \<and> fs_operations (filesystem_at s R) = table \<and> fs_root (filesystem_at s R) = Some (R, 0) \<and>
     fs_backend (filesystem_at s R) = R \<and>
     ramfs_registered (ram_of R s) \<and> length (ramfs_nodes (ram_of R s)) = 32 \<and>
     used R s 0 \<and> node_type (node_at s (R, 0)) = NODE_DIRECTORY \<and> node_parent (node_at s (R, 0)) = Some (R, 0) \<and>
     (\<forall>i. used R s i \<longrightarrow> node_ok R s i \<and> rooted (par R s) i) \<and>
     (\<forall>i<32. \<not> used R s i \<longrightarrow> \<not> node_valid (node_at s (R, i)) \<and> node_references (node_at s (R, i)) = 0) \<and>
     used_capacity (ramfs_nodes (ram_of R s)) \<le> 32768 \<and>
     (\<forall>i j. used R s i \<longrightarrow> used R s j \<longrightarrow> i \<noteq> 0 \<longrightarrow> j \<noteq> 0 \<longrightarrow> par R s i = par R s j \<longrightarrow>
        name_of (ram_node R i s) = name_of (ram_node R j s) \<longrightarrow> i = j) \<and>
     (\<forall>i j. used R s i \<longrightarrow> used R s j \<longrightarrow> node_id (node_at s (R, i)) = node_id (node_at s (R, j)) \<longrightarrow> i = j)"

definition instance_of :: "'m ram_world \<Rightarrow> u64 \<Rightarrow> bool" where
  "instance_of s R \<longleftrightarrow> R \<noteq> 0 \<and> R \<in> set (ramfs_instances (backend s))"

definition ram_ok :: "'m ramfs_env \<Rightarrow> 'm ram_world \<Rightarrow> bool" where
  "ram_ok env s \<longleftrightarrow> length (ramfs_instances (backend s)) = 8 \<and>
     (\<forall>i j. i < 8 \<longrightarrow> j < 8 \<longrightarrow> ramfs_instances (backend s) ! i \<noteq> 0 \<longrightarrow>
        ramfs_instances (backend s) ! i = ramfs_instances (backend s) ! j \<longrightarrow> i = j) \<and>
     (\<forall>R. instance_of s R \<longrightarrow> ramfs_ok (ram_operations env) R s)"

lemma ramfs_okD:
  assumes "ramfs_ok table R s"
  shows "fs_root (filesystem_at s R) = Some (R, 0)" "length (ramfs_nodes (ram_of R s)) = 32"
    "used R s 0" "node_type (node_at s (R, 0)) = NODE_DIRECTORY" "node_parent (node_at s (R, 0)) = Some (R, 0)"
    "used R s i \<Longrightarrow> node_ok R s i" "used R s i \<Longrightarrow> rooted (par R s) i"
    "i < 32 \<Longrightarrow> \<not> used R s i \<Longrightarrow> \<not> node_valid (node_at s (R, i))"
    "i < 32 \<Longrightarrow> \<not> used R s i \<Longrightarrow> node_references (node_at s (R, i)) = 0"
    "used R s i \<Longrightarrow> used R s j \<Longrightarrow> i \<noteq> 0 \<Longrightarrow> j \<noteq> 0 \<Longrightarrow> par R s i = par R s j \<Longrightarrow>
       name_of (ram_node R i s) = name_of (ram_node R j s) \<Longrightarrow> i = j"
    "used R s i \<Longrightarrow> used R s j \<Longrightarrow> node_id (node_at s (R, i)) = node_id (node_at s (R, j)) \<Longrightarrow> i = j"
    "used_capacity (ramfs_nodes (ram_of R s)) \<le> 32768" "fs_operations (filesystem_at s R) = table"
    "fs_backend (filesystem_at s R) = R" "fs_valid (filesystem_at s R)" "ramfs_registered (ram_of R s)"
  using assms unfolding ramfs_ok_def by blast+

lemma node_okD:
  assumes "node_ok R s i"
  shows "rn_owner (ram_node R i s) = R" "length (rn_name (ram_node R i s)) = 256" "i \<noteq> 0 \<Longrightarrow> entry_name_ok (ram_node R i s)"
    "file_ok (ram_node R i s)" "node_valid (node_at s (R, i))" "node_id (node_at s (R, i)) \<noteq> 0"
    "node_id (node_at s (R, i)) < ramfs_next_node_id (ram_of R s)"
    "node_filesystem (node_at s (R, i)) = R" "node_backend (node_at s (R, i)) = Some (R, i)"
    "vfs_node_type_valid (node_type (node_at s (R, i)))" "node_parent (node_at s (R, i)) = Some (R, par R s i)"
    "used R s (par R s i)" "node_type (node_at s (R, par R s i)) = NODE_DIRECTORY"
  using assms unfolding node_ok_def by blast+

lemma ramfs_ok_capacities:
  assumes "ramfs_ok table R s"
  shows "capacities_ok R s"
proof -
  have "file_ok n" if n: "n \<in> set (ramfs_nodes (ram_of R s))" "rn_occupied n" for n
  proof -
    obtain i where i: "i < 32" "ramfs_nodes (ram_of R s) ! i = n"
      using n(1) ramfs_okD(2) [OF assms] by (auto simp: in_set_conv_nth)
    then have "used R s i" using n(2) by (simp add: used_def ram_node_def)
    then show ?thesis using node_okD(4) [OF ramfs_okD(6) [OF assms]] i by (auto simp: ram_node_def)
  qed
  then show ?thesis using ramfs_okD(12) [OF assms] by (simp add: capacities_ok_def)
qed

text \<open>The invariant reads the fields of the nodes but the counts of those in use.\<close>

lemma ramfs_ok_cong:
  assumes ok: "ramfs_ok table R s" and ram: "ram_of R t = ram_of R s" and fs: "filesystem_at t R = filesystem_at s R"
    and fields: "\<And>i. node_valid (node_at t (R, i)) = node_valid (node_at s (R, i))"
      "\<And>i. node_id (node_at t (R, i)) = node_id (node_at s (R, i))"
      "\<And>i. node_type (node_at t (R, i)) = node_type (node_at s (R, i))"
      "\<And>i. node_filesystem (node_at t (R, i)) = node_filesystem (node_at s (R, i))"
      "\<And>i. node_parent (node_at t (R, i)) = node_parent (node_at s (R, i))"
      "\<And>i. node_backend (node_at t (R, i)) = node_backend (node_at s (R, i))"
      "\<And>i. \<not> node_valid (node_at s (R, i)) \<Longrightarrow> node_references (node_at t (R, i)) = node_references (node_at s (R, i))"
  shows "ramfs_ok table R t"
proof -
  have n: "ram_node R i t = ram_node R i s" for i by (simp add: ram_node_def ram)
  have u: "used R t i = used R s i" for i by (simp add: used_def n)
  have p: "par R t = par R s" by (intro ext) (simp add: par_def fields)
  have k: "node_ok R t i = node_ok R s i" for i by (simp add: node_ok_def n u p fields ram)
  have "\<forall>i<32. \<not> used R s i \<longrightarrow> \<not> node_valid (node_at s (R, i)) \<and> node_references (node_at t (R, i)) = 0"
    using ramfs_okD(8,9) [OF ok] fields(7) by simp
  then show ?thesis
    using ok unfolding ramfs_ok_def ram fs n u p k fields(1-6) by (elim conjE, intro conjI) assumption+
qed

lemma rooted_mono:
  assumes "rooted p x" "x \<in> S" "\<And>y. y \<in> S \<Longrightarrow> y \<noteq> 0 \<Longrightarrow> p y \<in> S \<and> p' y = p y"
  shows "rooted p' x"
  using assms
proof (induction rule: rooted.induct)
  case (rooted_up i)
  show ?case
  proof (cases "i = 0")
    case True
    then show ?thesis by (simp add: rooted.rooted_0)
  next
    case False
    then show ?thesis using rooted_up.IH rooted_up.prems by (metis rooted.rooted_up)
  qed
qed (rule rooted.rooted_0)

section \<open>Changes of one node\<close>

text \<open>
  One node other than the root changes: it is put in use, given up, moved or has its
  contents changed. What is left to show is about that node only.
\<close>

lemma ramfs_ok_update:
  assumes ok: "ramfs_ok table R s" and k: "k \<noteq> 0" "k < 32"
    and t: "filesystem_at t R = filesystem_at s R" "ramfs_nodes (ram_of R t) = (ramfs_nodes (ram_of R s))[k := n]"
      "ramfs_registered (ram_of R t)" "ramfs_next_node_id (ram_of R s) \<le> ramfs_next_node_id (ram_of R t)"
      "\<And>i. node_at t (R, i) = (if i = k then v else node_at s (R, i))"
    and capacity: "used_capacity ((ramfs_nodes (ram_of R s))[k := n]) \<le> 32768"
    and freed: "\<not> rn_occupied n \<Longrightarrow> \<not> node_valid v \<and> node_references v = 0"
    and children: "\<And>i. used R s i \<Longrightarrow> i \<noteq> k \<Longrightarrow> par R s i = k \<Longrightarrow> rn_occupied n \<and> node_type v = NODE_DIRECTORY"
    and taken: "rn_occupied n \<Longrightarrow> node_ok R t k"
    and root: "\<And>i. used R t i \<Longrightarrow> rooted (par R t) i"
    and names: "\<And>i. rn_occupied n \<Longrightarrow> used R s i \<Longrightarrow> i \<noteq> 0 \<Longrightarrow> i \<noteq> k \<Longrightarrow> par R s i = par R t k \<Longrightarrow>
      name_of (ram_node R i s) \<noteq> name_of n"
    and ids: "\<And>i. rn_occupied n \<Longrightarrow> used R s i \<Longrightarrow> i \<noteq> k \<Longrightarrow> node_id (node_at s (R, i)) \<noteq> node_id v"
  shows "ramfs_ok table R t"
proof -
  note o = ramfs_okD [OF ok]
  have n: "ram_node R i t = (if i = k then n else ram_node R i s)" for i
    using o(2) k(2) by (simp add: ram_node_def t(2) nth_list_update)
  have u: "used R t i \<longleftrightarrow> (if i = k then rn_occupied n else used R s i)" for i using k by (simp add: used_def n)
  have p: "i \<noteq> k \<Longrightarrow> par R t i = par R s i" for i by (simp add: par_def t(5))
  have nok: "node_ok R t i" if i: "used R t i" for i
  proof (cases "i = k")
    case True
    then show ?thesis using taken i u by simp
  next
    case False
    then have us: "used R s i" using i u by simp
    note d = node_okD [OF o(6) [OF us]]
    have "used R t (par R s i) \<and> node_type (node_at t (R, par R s i)) = NODE_DIRECTORY"
      using d(12,13) children [OF us False] by (cases "par R s i = k") (simp_all add: u t(5))
    then show ?thesis
      using False d t(4) by (auto simp: node_ok_def n p t(5) less_le_trans)
  qed
  show ?thesis
    unfolding ramfs_ok_def
  proof (intro conjI allI impI)
    show "fs_valid (filesystem_at t R)" "fs_operations (filesystem_at t R) = table" "fs_root (filesystem_at t R) = Some (R, 0)"
      "fs_backend (filesystem_at t R) = R" using o by (simp_all add: t(1))
    show "ramfs_registered (ram_of R t)" by (rule t(3))
    show "length (ramfs_nodes (ram_of R t)) = 32" "used_capacity (ramfs_nodes (ram_of R t)) \<le> 32768"
      using o(2) capacity by (simp_all add: t(2))
    show "used R t 0" "node_type (node_at t (R, 0)) = NODE_DIRECTORY" "node_parent (node_at t (R, 0)) = Some (R, 0)"
      using o(3-5) k by (simp_all add: u t(5))
    show "node_ok R t i" "rooted (par R t) i" if "used R t i" for i using nok root that by blast+
    show "\<not> node_valid (node_at t (R, i))" "node_references (node_at t (R, i)) = 0" if "i < 32" "\<not> used R t i" for i
      using that o(8,9) [of i] freed by (auto simp: u t(5) split: if_splits)
    show "i = j" if "used R t i" "used R t j" "node_id (node_at t (R, i)) = node_id (node_at t (R, j))" for i j
      using that o(11) [of i j] ids by (auto simp: u t(5) split: if_splits)
    show "i = j" if "used R t i" "used R t j" "i \<noteq> 0" "j \<noteq> 0" "par R t i = par R t j"
      "name_of (ram_node R i t) = name_of (ram_node R j t)" for i j
    proof (cases "i = k \<or> j = k")
      case True
      then show ?thesis using that names [of i] names [of j] by (auto simp: u n p split: if_splits)
    next
      case False
      then show ?thesis using that o(10) [of i j] by (simp add: u n p)
    qed
  qed
qed

end
