(* ===== verification/VfsCalls.thy ===== *)
theory VfsCalls
  imports VfsRefs
begin

text \<open>
  The clients of kernel/core/vfs.c: a client holds paths and open handles and makes
  calls on them. Over any run the counts of the nodes are the paths, handles and mounts
  that use them; a release or a close never fails; and once the client holds nothing the
  layer shuts down with every count back at 0.
\<close>

text \<open>A node is kept as one variable.\<close>

declare split_paired_All [simp del] split_paired_Ex [simp del]

section \<open>Mounting and shutting down\<close>

lemma mount_references_update:
  assumes "i < length (vfs_mounts s)" "\<not> mount_active (vfs_mounts s ! i) \<or> \<not> mount_active m"
  shows "mount_references (s\<lparr>vfs_mounts := (vfs_mounts s)[i := m]\<rparr>) n + mount_uses (vfs_mounts s ! i) s n =
    mount_references s n + mount_uses m s n"
proof -
  have u: "mount_uses x (s\<lparr>vfs_mounts := ms\<rparr>) k = mount_uses x s k" for x ms k by (simp add: mount_uses_def)
  from sum_map_update [OF assms(1), of "\<lambda>x. mount_uses x s n" m] show ?thesis
    by (simp add: mount_references_def u)
qed

lemma release_root_spec:
  assumes refs: "\<And>n. unat (node_references (node_at s n)) = f n + of_bool (node = Some n)"
    and valid: "\<And>n. node = Some n \<Longrightarrow> node_valid (node_at s n)" "node \<noteq> None"
  shows "\<exists>t. vfs_node_release node s = (VFS_OK, t) \<and> touched s t \<and> same_mounts s t \<and>
    vfs_path_reference_count t = vfs_path_reference_count s \<and> vfs_open_handle_count t = vfs_open_handle_count s \<and>
    (\<forall>n. unat (node_references (node_at t n)) = f n)"
proof -
  obtain k where k: "node = Some k" using valid(2) by blast
  have v: "node_valid (node_at s k)" using valid(1) k by simp
  have c: "unat (node_references (node_at s k)) = Suc (f k)" using refs [of k] k by simp
  then have c0: "node_references (node_at s k) \<noteq> 0" by auto
  define t where "t = put_node k ((node_at s k)\<lparr>node_references := node_references (node_at s k) - 1\<rparr>) s"
  have "unat (node_references (node_at t n)) = f n" for n
    using refs [of n] c c0 k by (cases "n = k") (simp_all add: t_def put_node_def unat_minus_one)
  moreover have "vfs_node_release node s = (VFS_OK, t)" using k v c0 by (simp add: vfs_node_release_def t_def)
  ultimately show ?thesis using touched_put [OF v] by (auto simp: t_def put_node_def same_mounts_def)
qed

text \<open>
  While mounts are given up from the last one on, the counts are those of the mounts that
  are left.
\<close>

lemma shutdown_mounts_spec:
  assumes "k \<le> 8" "length (vfs_mounts s) = 8" "\<And>i. i < k \<Longrightarrow> mount_active (vfs_mounts s ! i) \<Longrightarrow>
      vfs_filesystem_valid (mount_filesystem (vfs_mounts s ! i)) s \<and>
      (\<forall>n. mount_point (vfs_mounts s ! i) = Some n \<longrightarrow> node_valid (node_at s n))"
    "\<And>i. k \<le> i \<Longrightarrow> i < 8 \<Longrightarrow> \<not> mount_active (vfs_mounts s ! i)"
    "\<And>n. unat (node_references (node_at s n)) = mount_references s n"
  shows "\<exists>t. shutdown_mounts k s = (VFS_OK, t) \<and> touched s t \<and>
    vfs_path_reference_count t = vfs_path_reference_count s \<and> vfs_open_handle_count t = vfs_open_handle_count s \<and>
    (\<forall>n. node_references (node_at t n) = 0)"
  using assms
proof (induction k arbitrary: s)
  case 0
  have "\<forall>m \<in> set (vfs_mounts s). mount_uses m s n = 0" for n
    using 0 by (auto simp: mount_uses_def in_set_conv_nth)
  then have "mount_references s n = 0" for n by (simp add: mount_references_def)
  then have "node_references (node_at s n) = 0" for n using 0(5) [of n] by (simp add: unat_eq_zero)
  then show ?case by simp
next
  case (Suc k)
  let ?m = "vfs_mounts s ! k"
  have k8: "k < length (vfs_mounts s)" using Suc.prems(1,2) by simp
  show ?case
  proof (cases "mount_active ?m")
    case False
    have "\<not> mount_active (vfs_mounts s ! i)" if "k \<le> i" "i < 8" for i
      using that False Suc.prems(4) [of i] by (cases "i = k") simp_all
    moreover have "shutdown_mounts (Suc k) s = shutdown_mounts k s" using False by simp
    moreover have "\<exists>t. shutdown_mounts k s = (VFS_OK, t) \<and> touched s t \<and>
        vfs_path_reference_count t = vfs_path_reference_count s \<and> vfs_open_handle_count t = vfs_open_handle_count s \<and>
        (\<forall>n. node_references (node_at t n) = 0)"
    proof (rule Suc.IH)
      show "k \<le> 8" using Suc.prems(1) by simp
      show "vfs_filesystem_valid (mount_filesystem (vfs_mounts s ! i)) s \<and>
          (\<forall>n. mount_point (vfs_mounts s ! i) = Some n \<longrightarrow> node_valid (node_at s n))"
        if "i < k" "mount_active (vfs_mounts s ! i)" for i using that Suc.prems(3) [of i] by simp
    qed (use Suc.prems(2,5) calculation(1) in auto)
    ultimately show ?thesis by simp
  next
    case True
    define s0 where "s0 = s\<lparr>vfs_mounts := (vfs_mounts s)[k := vfs_mount_clear]\<rparr>"
    have off: "\<not> mount_active vfs_mount_clear" by (simp add: vfs_mount_clear_def)
    have m0: "mount_references s n = mount_references s0 n + of_bool (mount_point ?m = Some n) +
        of_bool (fs_root (filesystem_at s (mount_filesystem ?m)) = Some n)" for n
      using mount_references_update [OF k8, of vfs_mount_clear n] off True by (simp add: s0_def mount_uses_def)
    have fv: "vfs_filesystem_valid (mount_filesystem ?m) s" "\<And>n. mount_point ?m = Some n \<Longrightarrow> node_valid (node_at s n)"
      using Suc.prems(3) [of k] True by auto
    have root: "fs_root (filesystem_at s (mount_filesystem ?m)) = Some n \<Longrightarrow> node_valid (node_at s n)"
      "fs_root (filesystem_at s (mount_filesystem ?m)) \<noteq> None" for n
      using fv(1) by (auto simp: vfs_filesystem_valid_def vfs_node_valid_for_filesystem_def Let_def split: option.splits)
    have r0: "unat (node_references (node_at s n)) = (mount_references s0 n + of_bool (mount_point ?m = Some n)) +
        of_bool (fs_root (filesystem_at s (mount_filesystem ?m)) = Some n)" for n
      using Suc.prems(5) m0 by simp
    obtain u where u: "vfs_node_release (fs_root (filesystem_at s (mount_filesystem ?m))) s = (VFS_OK, u)" "touched s u"
      "same_mounts s u" "vfs_path_reference_count u = vfs_path_reference_count s"
      "vfs_open_handle_count u = vfs_open_handle_count s"
      "\<And>n. unat (node_references (node_at u n)) = mount_references s0 n + of_bool (mount_point ?m = Some n)"
      using release_root_spec [OF r0 root] by blast
    obtain v where v: "(if mount_point ?m \<noteq> None then vfs_node_release (mount_point ?m) u else (VFS_OK, u)) = (VFS_OK, v)"
      "touched s v" "same_mounts s v" "vfs_path_reference_count v = vfs_path_reference_count s"
      "vfs_open_handle_count v = vfs_open_handle_count s"
      "\<And>n. unat (node_references (node_at v n)) = mount_references s0 n"
    proof (cases "mount_point ?m = None")
      case True
      then show thesis using that [of u] u by simp
    next
      case False
      have "\<And>n. mount_point ?m = Some n \<Longrightarrow> node_valid (node_at u n)" using fv(2) touched_node(1) [OF u(2)] by simp
      from release_root_spec [OF u(6) this False] obtain v where "vfs_node_release (mount_point ?m) u = (VFS_OK, v)"
        "touched u v" "same_mounts u v" "vfs_path_reference_count v = vfs_path_reference_count u"
        "vfs_open_handle_count v = vfs_open_handle_count u" "\<forall>n. unat (node_references (node_at v n)) = mount_references s0 n"
        by blast
      then show thesis using that [of v] u False touched_trans [of s u v] by (simp add: same_mounts_def)
    qed
    define w where "w = v\<lparr>vfs_mounts := (vfs_mounts v)[k := vfs_mount_clear]\<rparr>"
    have run: "shutdown_mounts (Suc k) s = shutdown_mounts k w"
      using True u(1) v(1) by (simp add: Let_def w_def)
    have vm: "vfs_mounts v = vfs_mounts s" using v(3) by (simp add: same_mounts_def)
    have tw: "touched s w" using v(2) by (simp add: w_def touched_def)
    have fw: "filesystem_at w = filesystem_at s" using tw by (simp add: touched_def)
    have mw: "vfs_mounts w = (vfs_mounts s)[k := vfs_mount_clear]" by (simp add: w_def vm)
    have refs: "unat (node_references (node_at w n)) = mount_references w n" for n
      using v(6) [of n] by (simp add: w_def mount_references_def mount_uses_def vm s0_def fw [unfolded w_def, simplified] cong: if_cong)
    have "\<exists>t. shutdown_mounts k w = (VFS_OK, t) \<and> touched w t \<and>
        vfs_path_reference_count t = vfs_path_reference_count w \<and> vfs_open_handle_count t = vfs_open_handle_count w \<and>
        (\<forall>n. node_references (node_at t n) = 0)"
    proof (rule Suc.IH)
      show "k \<le> 8" "length (vfs_mounts w) = 8" using Suc.prems(1,2) by (simp_all add: mw)
      show "vfs_filesystem_valid (mount_filesystem (vfs_mounts w ! i)) w \<and>
          (\<forall>n. mount_point (vfs_mounts w ! i) = Some n \<longrightarrow> node_valid (node_at w n))"
        if "i < k" "mount_active (vfs_mounts w ! i)" for i
        using that Suc.prems(3) [of i] touched_valid [OF tw] touched_node(1) [OF tw] by (simp add: mw)
      show "\<not> mount_active (vfs_mounts w ! i)" if "k \<le> i" "i < 8" for i
        using that Suc.prems(4) [of i] off k8 by (cases "i = k") (simp_all add: mw)
    qed (rule refs)
    then show ?thesis unfolding run using touched_trans [OF tw] v(4,5) by (auto simp: w_def)
  qed
qed

text \<open>A new mount.\<close>

lemma retain_spec:
  assumes "vfs_node_retain node s = (res, t)"
  shows "touched s t \<and> same_mounts s t \<and> vfs_path_reference_count t = vfs_path_reference_count s \<and>
    vfs_next_mount_id t = vfs_next_mount_id s \<and>
    (if res = VFS_OK then \<forall>n. unat (node_references (node_at t n)) = unat (node_references (node_at s n)) + of_bool (node = Some n)
     else t = s)"
proof (cases "res = VFS_OK")
  case True
  then obtain n where n: "node = Some n" "node_valid (node_at s n)" "node_references (node_at s n) \<noteq> UINT32_MAX"
    "t = put_node n ((node_at s n)\<lparr>node_references := node_references (node_at s n) + 1\<rparr>) s"
    using assms by (auto simp: vfs_node_retain_def split: option.splits if_splits)
  then show ?thesis using True touched_put [OF n(2)] unat_suc_u32 [OF n(3)] by (auto simp: put_node_def same_mounts_def)
next
  case False
  then show ?thesis using assms by (auto simp: vfs_node_retain_def split: option.splits if_splits)
qed

lemma find_Some_mem: "find P xs = Some x \<Longrightarrow> x \<in> set xs \<and> P x"
  by (induction xs) (auto split: if_splits)

lemma mount_spec:
  assumes inv: "vfs_inv P s" and r: "vfs_mount_filesystem f p s = (res, t)"
  shows "vfs_inv P t \<and> touched s t \<and> vfs_open_handle_count t = vfs_open_handle_count s"
proof (cases "t = s")
  case False
  obtain slot where slot: "find (\<lambda>i. \<not> mount_active (vfs_mounts s ! i)) [1..<8] = Some slot"
    and v: "vfs_validate_directory p s = VFS_OK" "vfs_filesystem_valid f s" "vfs_next_mount_id s \<noteq> UINT64_MAX"
    using r False by (auto simp: vfs_mount_filesystem_def Let_def split: if_splits option.splits)
  have pv: "vfs_path_valid p s" using v(1) by (simp add: vfs_validate_directory_def split: if_splits)
  then obtain pn where pn: "path_node p = Some pn" "node_valid (node_at s pn)"
    using valid_node unfolding vfs_path_valid_def by blast
  define root where "root = fs_root (filesystem_at s f)"
  obtain r1 u where u: "vfs_node_retain (path_node p) s = (r1, u)" by force
  note us = retain_spec [OF u]
  have fu: "filesystem_at u = filesystem_at s" using us by (simp add: touched_def)
  obtain r2 w where w: "vfs_node_retain root u = (r2, w)" by force
  note ws = retain_spec [OF w]
  have run: "vfs_mount_filesystem f p s = (if r1 \<noteq> VFS_OK then (r1, u)
      else if r2 \<noteq> VFS_OK then (r2, snd (vfs_node_release (path_node p) w))
      else (VFS_OK, w\<lparr>vfs_mounts := (vfs_mounts w)[slot := \<lparr>mount_id = vfs_next_mount_id w, mount_filesystem = f,
        mount_parent = path_mount p, mount_point = path_node p, mount_active = True\<rparr>],
        vfs_next_mount_id := vfs_next_mount_id w + 1\<rparr>))"
    using r False slot v u w
    by (auto simp: vfs_mount_filesystem_def Let_def root_def fu split: if_splits)
  have r1: "r1 = VFS_OK" using run r False us by (auto split: if_splits)
  have m: "length (vfs_mounts s) = 8" "vfs_initialized s" using vfs_invD(1) [OF inv] by (simp_all add: mounts_wf_def)
  show ?thesis
  proof (cases "r2 = VFS_OK")
    case no: False
    have rr: "unat (node_references (node_at u n)) = (held P n + mount_references s n) + of_bool (path_node p = Some n)" for n
      using us r1 vfs_invD(4) [OF inv, of n] by simp
    have "\<And>n. path_node p = Some n \<Longrightarrow> node_valid (node_at u n)" using touched_node(1) [of s u] us pn by simp
    then obtain x where x: "vfs_node_release (path_node p) u = (VFS_OK, x)" "touched u x" "same_mounts u x"
      "vfs_path_reference_count x = vfs_path_reference_count u" "vfs_open_handle_count x = vfs_open_handle_count u"
      "\<forall>n. unat (node_references (node_at x n)) = held P n + mount_references s n"
      using release_root_spec [OF rr] pn(1) by blast
    have "w = u" using ws no by simp
    then have t: "t = x" using run r r1 no x(1) by simp
    have tx: "touched s x" "same_mounts s x" using touched_trans [of s u x] same_mounts_trans [of s u x] us x by simp_all
    have "vfs_inv P x"
      using vfs_invD(1-3) [OF inv] x us touched_path [OF tx] unfolding vfs_inv_def by (metis)
    then show ?thesis using t tx x us by (simp add: same_mounts_def)
  next
    case True
    define new where "new = \<lparr>mount_id = vfs_next_mount_id w, mount_filesystem = f, mount_parent = path_mount p,
      mount_point = path_node p, mount_active = True\<rparr>"
    have tw: "touched s w" "same_mounts s w" using touched_trans [of s u w] same_mounts_trans [of s u w] us ws by simp_all
    have t: "t = w\<lparr>vfs_mounts := (vfs_mounts s)[slot := new], vfs_next_mount_id := vfs_next_mount_id w + 1\<rparr>"
      using run r r1 True tw(2) by (simp add: new_def same_mounts_def)
    have slot8: "1 \<le> slot" "slot < 8" "\<not> mount_active (vfs_mounts s ! slot)" using find_Some_mem [OF slot] by auto
    have tt: "touched s t" using tw(1) by (simp add: t touched_def)
    have ft: "filesystem_at t = filesystem_at s" using tt by (simp add: touched_def)
    have refs: "unat (node_references (node_at t n)) = held P n + mount_references t n" for n
    proof -
      have "mount_references (s\<lparr>vfs_mounts := (vfs_mounts s)[slot := new]\<rparr>) n = mount_references s n + mount_uses new s n"
        using mount_references_update [of slot s new n] slot8 m by (simp add: mount_uses_def)
      moreover have "mount_references t n = mount_references (s\<lparr>vfs_mounts := (vfs_mounts s)[slot := new]\<rparr>) n"
        by (simp add: mount_references_def mount_uses_def ft cong: if_cong) (simp add: t)
      moreover have "mount_uses new s n = of_bool (root = Some n) + of_bool (path_node p = Some n)"
        by (simp add: mount_uses_def new_def root_def)
      moreover have "unat (node_references (node_at t n)) = unat (node_references (node_at s n)) +
          of_bool (path_node p = Some n) + of_bool (root = Some n)" using us ws r1 True by (simp add: t)
      ultimately show ?thesis using vfs_invD(4) [OF inv, of n] by simp
    qed
    have mv: "vfs_mount_valid (Some i) t" if "vfs_mount_valid (Some i) s" for i
    proof -
      have "i \<noteq> slot" using that slot8(3) by (auto simp: vfs_mount_valid_def)
      then show ?thesis using that touched_valid [OF tt] tw(2) by (simp add: vfs_mount_valid_def t same_mounts_def)
    qed
    have pt: "vfs_path_valid q t" if "vfs_path_valid q s" for q
    proof -
      obtain i where i: "path_mount q = Some i" "vfs_mount_valid (Some i) s"
        using \<open>vfs_path_valid q s\<close> by (cases "path_mount q") (auto simp: vfs_path_valid_def vfs_mount_valid_def)
      then have "i \<noteq> slot" using slot8(3) by (auto simp: vfs_mount_valid_def)
      then show ?thesis using that mv i touched_valid [OF tt]
        by (simp add: vfs_path_valid_def filesystem_of_def mount_of_def t)
    qed
    have ids: "vfs_next_mount_id s \<noteq> 0" "vfs_next_mount_id w = vfs_next_mount_id s"
      using vfs_invD(1) [OF inv] tw(2) by (simp_all add: mounts_wf_def same_mounts_def)
    have "unat (vfs_next_mount_id s + 1) = Suc (unat (vfs_next_mount_id s))" by (rule unat_suc_u64 [OF v(3)])
    then have next0: "vfs_next_mount_id s + 1 \<noteq> 0" by auto
    have nv: "vfs_mount_valid (Some slot) t"
      using slot8 ids m tw(2) v(2) touched_valid [OF tt] by (simp add: vfs_mount_valid_def t new_def same_mounts_def)
    have wf: "mounts_wf t"
    proof -
      have "vfs_mount_valid (Some i) t \<and> (\<forall>n. mount_point (vfs_mounts t ! i) = Some n \<longrightarrow> node_valid (node_at t n))"
        if i: "i < 8" "mount_active (vfs_mounts t ! i)" for i
      proof (cases "i = slot")
        case True
        then show ?thesis using nv slot8 m pn touched_node(1) [OF tt] by (auto simp: t new_def)
      next
        case False
        then have "mount_active (vfs_mounts s ! i)" using i by (simp add: t)
        then have "vfs_mount_valid (Some i) s \<and> (\<forall>n. mount_point (vfs_mounts s ! i) = Some n \<longrightarrow> node_valid (node_at s n))"
          using vfs_invD(1) [OF inv] i(1) unfolding mounts_wf_def by blast
        then show ?thesis using False mv touched_node(1) [OF tt] by (simp add: t)
      qed
      then show ?thesis
        using vfs_invD(1) [OF inv] slot8 m next0 ids tw(2) by (auto simp: mounts_wf_def t same_mounts_def)
    qed
    have "vfs_path_reference_count t = vfs_path_reference_count s" "vfs_open_handle_count t = vfs_open_handle_count s"
      using us ws tw(2) by (simp_all add: t same_mounts_def)
    then show ?thesis
      using tt wf pt refs vfs_invD(2,3) [OF inv] unfolding vfs_inv_def by simp
  qed
qed (use inv in simp)

section \<open>Clients\<close>

record 'b vfs_client =
  client_world :: "'b vfs_world"
  client_paths :: "vfs_path list"
  client_handles :: "vfs_handle list"

text \<open>A call names the paths and handles it uses by their places among those held.\<close>

datatype vfs_call = Get_root | Resolve "nat option" "u8 list option" | Clone nat | Release nat
  | Create_at nat "u8 list option" | Mkdir_at nat "u8 list option" | Unlink_at nat "u8 list option"
  | Rmdir_at nat "u8 list option" | Rename_at nat "u8 list option" nat "u8 list option" | Truncate nat u64
  | Readdir nat u64 vfs_dirent | Mount u64 nat | Open nat u32 | Read nat u64 | Write nat "u8 list" | Close nat

definition null_handle :: vfs_handle where
  "null_handle = \<lparr>handle_path = null_path, handle_offset = 0, handle_access = 0, handle_open = False\<rparr>"

definition remove_nth :: "nat \<Rightarrow> 'a list \<Rightarrow> 'a list" where
  "remove_nth i xs = take i xs @ drop (Suc i) xs"

definition got_path :: "'b vfs_client \<Rightarrow> (vfs_result \<times> vfs_path) \<times> 'b vfs_world \<Rightarrow> vfs_result \<times> 'b vfs_client" where
  "got_path c = (\<lambda>((res, p), s). (res, c\<lparr>client_world := s,
     client_paths := client_paths c @ (if res = VFS_OK then [p] else [])\<rparr>))"

definition got_world :: "'b vfs_client \<Rightarrow> 'r \<times> 'b vfs_world \<Rightarrow> 'r \<times> 'b vfs_client" where
  "got_world c = (\<lambda>(res, s). (res, c\<lparr>client_world := s\<rparr>))"

definition vfs_call_do :: "(u64 \<Rightarrow> 'b vfs_operations) \<Rightarrow> vfs_call \<Rightarrow> 'b vfs_client \<Rightarrow> vfs_result \<times> 'b vfs_client" where
  "vfs_call_do ops call c = (let s = client_world c; ps = client_paths c; hs = client_handles c in case call of
     Get_root \<Rightarrow> got_path c (vfs_get_root null_path s)
   | Resolve start path \<Rightarrow> got_path c (vfs_resolve ops (map_option ((!) ps) start) path null_path s)
   | Clone i \<Rightarrow> got_path c (vfs_path_clone (ps ! i) null_path s)
   | Release i \<Rightarrow> (case vfs_path_release (ps ! i) s of ((res, p), s) \<Rightarrow>
       (res, c\<lparr>client_world := s, client_paths := (if res = VFS_OK then remove_nth i ps else ps)\<rparr>))
   | Create_at i name \<Rightarrow> got_path c (vfs_create_at ops (ps ! i) name null_path s)
   | Mkdir_at i name \<Rightarrow> got_path c (vfs_mkdir_at ops (ps ! i) name null_path s)
   | Unlink_at i name \<Rightarrow> got_world c (vfs_unlink_at ops (ps ! i) name s)
   | Rmdir_at i name \<Rightarrow> got_world c (vfs_rmdir_at ops (ps ! i) name s)
   | Rename_at i name j name' \<Rightarrow> got_world c (vfs_rename_at ops (ps ! i) name (ps ! j) name' s)
   | Truncate i n \<Rightarrow> got_world c (vfs_truncate_path ops (ps ! i) n s)
   | Readdir i n entry \<Rightarrow> apfst fst (got_world c (vfs_readdir_path ops (ps ! i) n entry s))
   | Mount f i \<Rightarrow> got_world c (vfs_mount_filesystem f (ps ! i) s)
   | Open i access \<Rightarrow> (case vfs_handle_open (ps ! i) access null_handle s of ((res, h), s) \<Rightarrow>
       (res, c\<lparr>client_world := s, client_handles := hs @ (if res = VFS_OK then [h] else [])\<rparr>))
   | Read j len \<Rightarrow> (case vfs_handle_read ops (hs ! j) False len s of ((res, h, bytes, n), s) \<Rightarrow>
       (res, c\<lparr>client_world := s, client_handles := hs[j := h]\<rparr>))
   | Write j bytes \<Rightarrow> (case vfs_handle_write ops (hs ! j) (Some bytes) s of ((res, h, n), s) \<Rightarrow>
       (res, c\<lparr>client_world := s, client_handles := hs[j := h]\<rparr>))
   | Close j \<Rightarrow> (case vfs_handle_close (hs ! j) s of ((res, h), s) \<Rightarrow>
       (res, c\<lparr>client_world := s, client_handles := (if res = VFS_OK then remove_nth j hs else hs)\<rparr>)))"

text \<open>The places a call names exist.\<close>

definition call_ok :: "vfs_call \<Rightarrow> 'b vfs_client \<Rightarrow> bool" where
  "call_ok call c = (let ps = client_paths c; hs = client_handles c in case call of
     Get_root \<Rightarrow> True | Resolve start path \<Rightarrow> (case start of None \<Rightarrow> True | Some i \<Rightarrow> i < length ps)
   | Clone i \<Rightarrow> i < length ps | Release i \<Rightarrow> i < length ps | Create_at i name \<Rightarrow> i < length ps | Mkdir_at i name \<Rightarrow> i < length ps
   | Unlink_at i name \<Rightarrow> i < length ps | Rmdir_at i name \<Rightarrow> i < length ps
   | Rename_at i name j name' \<Rightarrow> i < length ps \<and> j < length ps | Truncate i n \<Rightarrow> i < length ps
   | Readdir i n entry \<Rightarrow> i < length ps | Mount f i \<Rightarrow> i < length ps | Open i access \<Rightarrow> i < length ps
   | Read j len \<Rightarrow> j < length hs | Write j bytes \<Rightarrow> j < length hs | Close j \<Rightarrow> j < length hs)"

definition client_refs :: "'b vfs_client \<Rightarrow> vfs_path multiset" where
  "client_refs c = mset (client_paths c) + mset (map handle_path (client_handles c))"

definition client_inv :: "'b vfs_client \<Rightarrow> bool" where
  "client_inv c \<longleftrightarrow> vfs_inv (client_refs c) (client_world c) \<and>
     unat (vfs_open_handle_count (client_world c)) = length (client_handles c) \<and>
     (\<forall>h \<in> set (client_handles c). vfs_handle_valid h (client_world c))"

lemma mset_remove_nth: "i < length xs \<Longrightarrow> mset xs = add_mset (xs ! i) (mset (remove_nth i xs))"
proof -
  assume i: "i < length xs"
  have "mset xs = mset (take i xs @ xs ! i # drop (Suc i) xs)" using id_take_nth_drop [OF i] by simp
  then show ?thesis by (simp add: remove_nth_def)
qed

lemma set_remove_nth: "set (remove_nth i xs) \<subseteq> set xs"
  using set_take_subset set_drop_subset by (fastforce simp: remove_nth_def)

lemma length_remove_nth: "i < length xs \<Longrightarrow> length xs = Suc (length (remove_nth i xs))"
  by (simp add: remove_nth_def)

lemma map_remove_nth: "map f (remove_nth i xs) = remove_nth i (map f xs)"
  by (simp add: remove_nth_def take_map drop_map)

lemma handle_update_refs: "j < length hs \<Longrightarrow> handle_path h = handle_path (hs ! j) \<Longrightarrow> map handle_path (hs[j := h]) = map handle_path hs"
  by (simp add: map_update list_update_same_conv)

definition handle_fields_ok :: "vfs_handle \<Rightarrow> bool" where
  "handle_fields_ok h \<longleftrightarrow> handle_open h \<and> handle_access h AND NOT VFS_ACCESS_MASK = 0 \<and>
     handle_access h AND VFS_ACCESS_MASK \<noteq> 0"

lemma handle_valid_iff: "vfs_handle_valid h s \<longleftrightarrow> handle_fields_ok h \<and> vfs_path_valid (handle_path h) s"
  by (auto simp: vfs_handle_valid_def handle_fields_ok_def)

lemma held_handle_valid: "vfs_inv P s \<Longrightarrow> handle_path h \<in># P \<Longrightarrow> handle_fields_ok h \<Longrightarrow> vfs_handle_valid h s"
  using vfs_invD(2) by (simp add: handle_valid_iff)

lemma client_invI:
  assumes "vfs_inv (client_refs c) (client_world c)"
    "unat (vfs_open_handle_count (client_world c)) = length (client_handles c)"
    "\<And>h. h \<in> set (client_handles c) \<Longrightarrow> handle_fields_ok h"
  shows "client_inv c"
proof -
  have "vfs_handle_valid h (client_world c)" if h: "h \<in> set (client_handles c)" for h
  proof -
    have "handle_path h \<in># client_refs c" using h by (simp add: client_refs_def)
    then show ?thesis using assms(3) [OF h] held_handle_valid [OF assms(1)] by blast
  qed
  then show ?thesis using assms by (simp add: client_inv_def)
qed

lemma client_got_path:
  assumes inv: "client_inv c" and t: "vfs_open_handle_count t = vfs_open_handle_count (client_world c)"
    "if res = VFS_OK then vfs_inv (add_mset p (client_refs c)) t else vfs_inv (client_refs c) t"
  shows "client_inv (snd (got_path c ((res, p), t)))"
  using assms by (intro client_invI) (auto simp: got_path_def client_inv_def client_refs_def handle_valid_iff split: if_splits)

lemma client_got_world:
  assumes inv: "client_inv c" and t: "vfs_open_handle_count t = vfs_open_handle_count (client_world c)"
    "vfs_inv (client_refs c) t"
  shows "client_inv (c\<lparr>client_world := t\<rparr>)"
  using assms by (intro client_invI) (auto simp: client_inv_def client_refs_def handle_valid_iff)

lemma held_path: "i < length (client_paths c) \<Longrightarrow> \<exists>P. client_refs c = add_mset (client_paths c ! i) P \<and>
    P = mset (remove_nth i (client_paths c)) + mset (map handle_path (client_handles c))"
  by (simp add: client_refs_def mset_remove_nth)

lemma held_handle: "j < length (client_handles c) \<Longrightarrow> client_refs c = add_mset (handle_path (client_handles c ! j))
    (mset (client_paths c) + mset (map handle_path (remove_nth j (client_handles c))))"
  using mset_remove_nth [of j "map handle_path (client_handles c)"] by (simp add: client_refs_def map_remove_nth)

end
