(* ===== verification/RamfsSteps.thy ===== *)
theory RamfsSteps
  imports RamfsTree VfsCalls
begin

text \<open>
  Every operation of kernel/core/ramfs.c changes one node of one file system, keeps that
  file system consistent and does to the layer above no more than a back end may; so the
  operations are an instance of the contract \<open>vfs_backend\<close> of VfsRefs.
\<close>

section \<open>Looking up\<close>

lemma names_equal_iff:
  assumes "length (rn_name node) = 256" "unat (rn_name_length node) \<le> 255" "length name \<le> 255"
  shows "ramfs_names_equal node name \<longleftrightarrow> name_of node = name"
proof -
  have "rn_name_length node = word_of_nat (length name) \<longleftrightarrow> unat (rn_name_length node) = length name"
    using assms(3) by (auto simp: unat_of_nat word_unat_eq_iff)
  moreover have "list_all (\<lambda>i. rn_name node ! i = name ! i) [0..<length name] \<longleftrightarrow> name_of node = name"
    if "unat (rn_name_length node) = length name"
  proof -
    have l: "length (name_of node) = length name" and c: "\<And>i. i < length name \<Longrightarrow> name_of node ! i = rn_name node ! i"
      using that assms by (simp_all add: name_of_def)
    have "name_of node = name \<longleftrightarrow> (\<forall>i < length name. name_of node ! i = name ! i)" using l by (simp add: list_eq_iff_nth_eq)
    then show ?thesis using c by (auto simp: list_all_iff)
  qed
  moreover have "name_of node = name \<Longrightarrow> unat (rn_name_length node) = length name"
    using assms by (auto simp: name_of_def)
  ultimately show ?thesis unfolding ramfs_names_equal_def by blast
qed

lemma validate_name_length: "ramfs_validate_name name = VFS_OK \<Longrightarrow> 0 < length name \<and> length name \<le> 255"
  by (auto simp: ramfs_validate_name_def split: if_splits)

lemma child_iff:
  assumes ok: "ramfs_ok table R s" and i: "i < 32"
  shows "is_child R d i s \<longleftrightarrow> used R s i \<and> par R s i = d"
proof (cases "used R s i")
  case True
  note n = node_okD [OF ramfs_okD(6) [OF ok True]]
  then show ?thesis using True by (simp add: is_child_def used_def)
next
  case False
  then show ?thesis using i by (simp add: is_child_def used_def)
qed

lemma find_child_Some:
  assumes ok: "ramfs_ok table R s" and name: "length name \<le> 255" and f: "ramfs_find_child R d name s = Some i"
  shows "used R s i" "i \<noteq> 0" "par R s i = d" "name_of (ram_node R i s) = name"
proof -
  have i: "1 \<le> i" "i < 32" "is_child R d i s" "ramfs_names_equal (ram_node R i s) name"
    using find_Some_mem [OF f [unfolded ramfs_find_child_def]] by auto
  then have u: "used R s i" "par R s i = d" using child_iff [OF ok] by blast+
  note n = node_okD [OF ramfs_okD(6) [OF ok u(1)]]
  show "used R s i" "i \<noteq> 0" "par R s i = d" "name_of (ram_node R i s) = name"
    using u i n(2,3) names_equal_iff [OF n(2) _ name] by (auto simp: entry_name_ok_def)
qed

lemma find_child_None:
  assumes ok: "ramfs_ok table R s" and name: "length name \<le> 255" and f: "ramfs_find_child R d name s = None"
    and i: "used R s i" "i \<noteq> 0" "par R s i = d"
  shows "name_of (ram_node R i s) \<noteq> name"
proof -
  have i32: "1 \<le> i" "i < 32" using i by (auto simp: used_def)
  have "is_child R d i s" using child_iff [OF ok i32(2)] i by blast
  then have "\<not> ramfs_names_equal (ram_node R i s) name"
    using f i32 by (auto simp: ramfs_find_child_def find_None_iff)
  then show ?thesis
    using names_equal_iff [OF _ _ name, of "ram_node R i s"] node_okD(2,3) [OF ramfs_okD(6) [OF ok i(1)]] i(2) by (auto simp: entry_name_ok_def)
qed

lemma find_child_eq:
  assumes ok: "ramfs_ok table R s" and name: "length name \<le> 255"
  shows "ramfs_find_child R d name s = Some i \<longleftrightarrow>
    used R s i \<and> i \<noteq> 0 \<and> par R s i = d \<and> name_of (ram_node R i s) = name"
proof
  assume i: "used R s i \<and> i \<noteq> 0 \<and> par R s i = d \<and> name_of (ram_node R i s) = name"
  obtain j where j: "ramfs_find_child R d name s = Some j" using find_child_None [OF ok name] i by (cases "ramfs_find_child R d name s") auto
  then show "ramfs_find_child R d name s = Some i"
    using find_child_Some [OF ok name j] ramfs_okD(10) [OF ok, of i j] i by simp
qed (use find_child_Some [OF ok name] in blast)

lemma free_node_Some:
  assumes "ramfs_find_free_node R s = Some i"
  shows "i \<noteq> 0" "i < 32" "\<not> used R s i"
  using find_Some_mem [OF assms [unfolded ramfs_find_free_node_def]] by (auto simp: used_def)

lemma node_from_vfs_Some: "ramfs_node_from_vfs R node s = Some i \<Longrightarrow> node = Some (R, i) \<and> used R s i \<and> R \<noteq> 0"
  by (auto simp: ramfs_node_from_vfs_def used_def Let_def split: option.splits if_splits)

lemma directory_from_vfs_Some:
  "ramfs_directory_from_vfs R node s = Some i \<Longrightarrow> node = Some (R, i) \<and> used R s i \<and> node_type (node_at s (R, i)) = NODE_DIRECTORY"
  using node_from_vfs_Some by (fastforce simp: ramfs_directory_from_vfs_def split: option.splits if_splits)

lemma regular_from_vfs_Some:
  "ramfs_regular_from_vfs R node s = Some i \<Longrightarrow> node = Some (R, i) \<and> used R s i \<and> node_type (node_at s (R, i)) = NODE_REGULAR"
  using node_from_vfs_Some by (fastforce simp: ramfs_regular_from_vfs_def split: option.splits if_splits)

text \<open>In a consistent file system the checks of a node pointer only find whether it is in use.\<close>

lemma node_from_vfs_used:
  assumes ok: "ramfs_ok table R s" and u: "used R s i" and R: "R \<noteq> 0"
  shows "ramfs_node_from_vfs R (Some (R, i)) s = Some i"
proof -
  note n = node_okD [OF ramfs_okD(6) [OF ok u]]
  have "i < 32" "rn_occupied (ram_node R i s)" using u by (simp_all add: used_def)
  then show ?thesis
    using n R by (auto simp: ramfs_node_from_vfs_def Let_def vfs_node_type_valid_def)
qed

lemma directory_from_vfs_used:
  assumes "ramfs_ok table R s" "used R s i" "R \<noteq> 0" "node_type (node_at s (R, i)) = NODE_DIRECTORY"
  shows "ramfs_directory_from_vfs R (Some (R, i)) s = Some i"
  using node_from_vfs_used [OF assms(1-3)] assms(4) by (simp add: ramfs_directory_from_vfs_def)

lemma instance_from_filesystem_nz:
  assumes "ramfs_instance_from_filesystem env f s = R" "R \<noteq> 0" "length (ramfs_instances (backend s)) = 8"
  shows "R = f" "instance_of s f"
proof -
  have f0: "f \<noteq> 0" using assms(1,2) by (auto simp: ramfs_instance_from_filesystem_def)
  obtain i where i: "find (\<lambda>i. ramfs_instances (backend s) ! i \<noteq> 0 \<and> ramfs_instances (backend s) ! i = f) [0..<8] = Some i"
    using assms(1,2) f0 by (auto simp: ramfs_instance_from_filesystem_def split: option.splits)
  have m: "i < 8" "ramfs_instances (backend s) ! i = f" using find_Some_mem [OF i] by auto
  then have "instance_of s f" using f0 assms(3) by (auto simp: instance_of_def in_set_conv_nth)
  moreover have "R = f" using assms(1,2) f0 i m by (auto simp: ramfs_instance_from_filesystem_def Let_def split: if_splits)
  ultimately show "R = f" "instance_of s f" by simp_all
qed

lemma instance_from_filesystem_ok:
  assumes ok: "ram_ok env s" and R: "instance_of s R"
  shows "ramfs_instance_from_filesystem env R s = R"
proof -
  have len: "length (ramfs_instances (backend s)) = 8" and r: "ramfs_ok (ram_operations env) R s" using ok R unfolding ram_ok_def by blast+
  obtain j where j: "j < 8" "ramfs_instances (backend s) ! j = R" using R len by (auto simp: instance_of_def in_set_conv_nth)
  have R0: "R \<noteq> 0" using R by (simp add: instance_of_def)
  obtain i where i: "find (\<lambda>i. ramfs_instances (backend s) ! i \<noteq> 0 \<and> ramfs_instances (backend s) ! i = R) [0..<8] = Some i"
  proof (cases "find (\<lambda>i. ramfs_instances (backend s) ! i \<noteq> 0 \<and> ramfs_instances (backend s) ! i = R) [0..<8]")
    case None
    then show thesis using j R0 by (auto simp: find_None_iff)
  qed
  have m: "ramfs_instances (backend s) ! i = R" using find_Some_mem [OF i] by auto
  show ?thesis
    using R0 i m ramfs_okD(13-16) [OF r] by (simp add: ramfs_instance_from_filesystem_def)
qed

section \<open>Steps of one node\<close>

lemma ram_okD: "ram_ok env s \<Longrightarrow> instance_of s R \<Longrightarrow> ramfs_ok (ram_operations env) R s"
  "ram_ok env s \<Longrightarrow> length (ramfs_instances (backend s)) = 8"
  unfolding ram_ok_def by blast+

lemma ram_ok_same:
  assumes "ram_ok env s" "ramfs_instances (backend t) = ramfs_instances (backend s)"
    "\<And>R. instance_of s R \<Longrightarrow> ramfs_ok (ram_operations env) R t"
  shows "ram_ok env t"
  using assms unfolding ram_ok_def instance_of_def by simp

lemma node_step:
  assumes ok: "ram_ok env s" and R: "instance_of s R" and k: "k \<noteq> 0" "k < 32"
    and t: "\<And>x. node_at t x = (if x = (R, k) then v else node_at s x)" "filesystem_at t = filesystem_at s" "same_mounts s t"
      "vfs_path_reference_count t = vfs_path_reference_count s" "ramfs_instances (backend t) = ramfs_instances (backend s)"
      "\<And>R'. R' \<noteq> R \<Longrightarrow> ram_of R' t = ram_of R' s"
    and okt: "ramfs_ok (ram_operations env) R t"
    and refs: "node_references v = node_references (node_at s (R, k))"
    and busy: "node_references v \<noteq> 0 \<Longrightarrow> node_valid v = node_valid (node_at s (R, k)) \<and> node_id v = node_id (node_at s (R, k)) \<and>
      node_type v = node_type (node_at s (R, k)) \<and> node_filesystem v = node_filesystem (node_at s (R, k))"
  shows "backend_step s t \<and> ram_ok env t"
proof
  note rok = ram_okD(1) [OF ok R]
  have root: "fs_root (filesystem_at s f) \<noteq> Some (R, k)" if v: "vfs_filesystem_valid f s" for f
  proof
    assume f: "fs_root (filesystem_at s f) = Some (R, k)"
    have n: "node_valid (node_at s (R, k))" "node_filesystem (node_at s (R, k)) = f"
      using v f by (auto simp: vfs_filesystem_valid_def Let_def vfs_node_valid_for_filesystem_def)
    then have "used R s k" using ramfs_okD(8) [OF rok k(2)] by blast
    then have "f = R" using node_okD(8) [OF ramfs_okD(6) [OF rok]] n(2) by simp
    then show False using f ramfs_okD(1) [OF rok] k by simp
  qed
  have "vfs_filesystem_valid f t" if v: "vfs_filesystem_valid f s" for f
  proof -
    obtain n where n: "fs_root (filesystem_at s f) = Some n"
      using v by (auto simp: vfs_filesystem_valid_def Let_def vfs_node_valid_for_filesystem_def split: option.splits)
    have "node_at t n = node_at s n" using root [OF v] n t(1) by auto
    then show ?thesis using v n by (simp add: vfs_filesystem_valid_def Let_def vfs_node_valid_for_filesystem_def vfs_node_type_valid_def t(2))
  qed
  then show "backend_step s t"
    unfolding backend_step_def using t(1-4) refs busy by auto
  show "ram_ok env t"
  proof (rule ram_ok_same [OF ok t(5)])
    fix R' assume i: "instance_of s R'"
    show "ramfs_ok (ram_operations env) R' t"
    proof (cases "R' = R")
      case False
      then show ?thesis by (intro ramfs_ok_cong [OF ram_okD(1) [OF ok i]]) (simp_all add: t)
    qed (simp add: okt)
  qed
qed

text \<open>Changes of the heap alone.\<close>

lemma machine_step:
  assumes "ram_ok env s"
  shows "backend_step s (with_machine m s) \<and> ram_ok env (with_machine m s)"
proof
  show "backend_step s (with_machine m s)"
    by (simp add: backend_step_def same_mounts_def with_machine_def vfs_filesystem_valid_def vfs_node_valid_for_filesystem_def vfs_node_type_valid_def Let_def split: option.split)
  have "ramfs_ok (ram_operations env) R (with_machine m s)" if "instance_of s R" for R
    by (rule ramfs_ok_cong [OF ram_okD(1) [OF assms that]]) simp_all
  then show "ram_ok env (with_machine m s)" by (intro ram_ok_same [OF assms]) simp_all
qed

text \<open>The root is in nobody's way: a node that is a file, or was not in use, is another one.\<close>

lemma file_step_ok:
  assumes ok: "ram_ok env s" and R: "instance_of s R" and i: "used R s i" "node_type (node_at s (R, i)) = NODE_REGULAR"
    and fs: "file_step R i bytes s t"
  shows "backend_step s t \<and> ram_ok env t"
proof -
  note rok = ram_okD(1) [OF ok R]
  note o = ramfs_okD [OF rok]
  obtain m new where t: "t = put_ram_node R i new (with_machine m s)" and new: "same_entry (ram_node R i s) new" "file_ok new"
    "used_capacity ((ramfs_nodes (ram_of R s))[i := new]) \<le> 32768" using fs unfolding file_step_def by blast
  have i0: "i \<noteq> 0" "i < 32" using i o(4) by (cases "i = 0"; simp add: used_def)+
  have node: "ram_node R j t = (if j = i then new else ram_node R j s)" for j
    using i0 o(2) by (simp add: t ram_node_def nth_list_update)
  have e: "rn_occupied new" "rn_owner new = rn_owner (ram_node R i s)" "rn_name new = rn_name (ram_node R i s)"
    "rn_name_length new = rn_name_length (ram_node R i s)"
    using new(1) i(1) by (simp_all add: same_entry_def used_def)
  have u: "used R t = used R s" using e(1) i(1) by (auto simp: used_def node fun_eq_iff)
  have p: "par R t = par R s" by (simp add: par_def t fun_eq_iff)
  note n = node_okD [OF o(6) [OF i(1)]]
  have okt: "ramfs_ok (ram_operations env) R t"
  proof (rule ramfs_ok_update [OF rok i0, where n = new and v = "node_at s (R, i)"])
    show "rn_occupied new \<and> node_type (node_at s (R, i)) = NODE_DIRECTORY" if j: "used R s j" "par R s j = i" for j
      using node_okD(13) [OF o(6) [OF j(1)]] j(2) i(2) by simp
    show "node_ok R t i" using n new(2) e by (simp add: node_ok_def node u p entry_name_ok_def name_of_def) (simp add: t)
    show "rooted (par R t) j" if "used R t j" for j using o(7) that by (simp add: u p)
    show "name_of (ram_node R j s) \<noteq> name_of new" if "used R s j" "j \<noteq> 0" "j \<noteq> i" "par R s j = par R t i" for j
      using o(10) [of j i] that i i0 e by (auto simp: p name_of_def)
    show "node_id (node_at s (R, j)) \<noteq> node_id (node_at s (R, i))" if "used R s j" "j \<noteq> i" for j
      using o(11) [of j i] that i by auto
  qed (use new(3) e(1) o(16) in \<open>simp_all add: t\<close>)
  show ?thesis
    by (rule node_step [OF ok R i0, where v = "node_at s (R, i)"])
      (use okt in \<open>simp_all add: t same_mounts_def put_ram_node_def put_ram_def with_machine_def ram_of_def\<close>)
qed

section \<open>Creating\<close>

definition fresh_ram_node :: "u64 \<Rightarrow> u8 list \<Rightarrow> ramfs_node" where
  "fresh_ram_node R name = cleared_ram_node\<lparr>rn_owner := R, rn_name_length := word_of_nat (length name),
     rn_name := (write_cells 0 (\<lambda>k. name ! k) (length name) (replicate 256 0))[length name := 0], rn_occupied := True\<rparr>"

definition fresh_vfs_node :: "u64 \<Rightarrow> nat \<Rightarrow> nat \<Rightarrow> vfs_node_type \<Rightarrow> u64 \<Rightarrow> vfs_node" where
  "fresh_vfs_node R k d type ident = \<lparr>node_id = ident, node_type = type, node_filesystem = R, node_parent = Some (R, d),
     node_backend = Some (R, k), node_references = 0, node_valid = True\<rparr>"

definition created :: "u64 \<Rightarrow> nat \<Rightarrow> nat \<Rightarrow> u8 list \<Rightarrow> vfs_node_type \<Rightarrow> 'm ram_world \<Rightarrow> 'm ram_world" where
  "created R k d name type s = put_ram R ((ram_of R s)\<lparr>ramfs_nodes := (ramfs_nodes (ram_of R s))[k := fresh_ram_node R name],
     ramfs_next_node_id := ramfs_next_node_id (ram_of R s) + 1\<rparr>)
     (put_node (R, k) (fresh_vfs_node R k d type (ramfs_next_node_id (ram_of R s))) s)"

lemma fresh_name:
  assumes "ramfs_validate_name name = VFS_OK"
  shows "name_of (fresh_ram_node R name) = name" "length (rn_name (fresh_ram_node R name)) = 256"
    "rn_name_length (fresh_ram_node R name) = word_of_nat (length name)" "entry_name_ok (fresh_ram_node R name)"
proof -
  have l: "length name \<le> 255" using validate_name_length [OF assms] by simp
  have ul: "unat (word_of_nat (length name) :: u64) = length name" using l by (simp add: unat_of_nat)
  show "name_of (fresh_ram_node R name) = name"
    using l by (intro nth_equalityI) (simp_all add: name_of_def fresh_ram_node_def ul nth_write_cells min_def)
  then show "entry_name_ok (fresh_ram_node R name)" using assms l by (simp add: entry_name_ok_def fresh_ram_node_def ul)
  show "length (rn_name (fresh_ram_node R name)) = 256"
    "rn_name_length (fresh_ram_node R name) = word_of_nat (length name)" by (simp_all add: fresh_ram_node_def)
qed

lemma create_spec:
  assumes rok: "ramfs_ok table R s" and R: "R \<noteq> 0" and d: "used R s d" "node_type (node_at s (R, d)) = NODE_DIRECTORY"
    and ty: "vfs_node_type_valid type" and r: "ramfs_create_node R d name type s = ((res, node), t)"
  shows "(res \<noteq> VFS_OK \<and> node = None \<and> t = s) \<or> (res = VFS_OK \<and> ramfs_validate_name name = VFS_OK \<and>
    ramfs_find_child R d name s = None \<and> ramfs_next_node_id (ram_of R s) \<noteq> UINT64_MAX \<and>
    (\<exists>k. node = Some (R, k) \<and> ramfs_find_free_node R s = Some k \<and> t = created R k d name type s))"
proof (cases "ramfs_validate_name name = VFS_OK \<and> ramfs_find_child R d name s = None \<and> ramfs_find_free_node R s \<noteq> None \<and>
    ramfs_next_node_id (ram_of R s) \<noteq> UINT64_MAX")
  case False
  then show ?thesis using r by (auto simp: ramfs_create_node_def Let_def split: if_splits option.splits)
next
  case True
  then obtain k where k: "ramfs_find_free_node R s = Some k" by blast
  note fk = free_node_Some [OF k]
  note o = ramfs_okD [OF rok]
  note n = node_okD [OF o(6) [OF d(1)]]
  have dk: "d \<noteq> k" using d(1) fk by auto
  have next0: "ramfs_next_node_id (ram_of R s) \<noteq> 0" using n(7) by (auto simp: word_not_simps)
  have "ramfs_create_node R d name type s = ((VFS_OK, Some (R, k)), created R k d name type s)"
    using True k R n d ty next0 o(2,15) fk dk
    by (simp add: ramfs_create_node_def Let_def ramfs_node_clear_def vfs_node_prepare_def vfs_node_valid_for_filesystem_def
        put_node_def put_ram_node_def put_ram_def ram_of_def ram_node_def created_def fresh_ram_node_def fresh_vfs_node_def
        cleared_ram_node_def)
  then show ?thesis using r True k by auto
qed

lemma created_ok:
  assumes ok: "ram_ok env s" and R: "instance_of s R" and d: "used R s d" "node_type (node_at s (R, d)) = NODE_DIRECTORY"
    and ty: "vfs_node_type_valid type" and name: "ramfs_validate_name name = VFS_OK" "ramfs_find_child R d name s = None"
    and next_id: "ramfs_next_node_id (ram_of R s) \<noteq> UINT64_MAX" and k: "ramfs_find_free_node R s = Some k"
  shows "backend_step s (created R k d name type s) \<and> ram_ok env (created R k d name type s)"
proof -
  let ?t = "created R k d name type s" and ?id = "ramfs_next_node_id (ram_of R s)"
  note rok = ram_okD(1) [OF ok R]
  note o = ramfs_okD [OF rok]
  note fk = free_node_Some [OF k]
  note fn = fresh_name [OF name(1)]
  have l: "length name \<le> 255" using validate_name_length [OF name(1)] by simp
  have dk: "d \<noteq> k" using d(1) fk by auto
  have na: "node_at ?t x = (if x = (R, k) then fresh_vfs_node R k d type ?id else node_at s x)" for x
    by (simp add: created_def put_ram_def put_node_def)
  have ra: "ram_of R ?t = (ram_of R s)\<lparr>ramfs_nodes := (ramfs_nodes (ram_of R s))[k := fresh_ram_node R name], ramfs_next_node_id := ?id + 1\<rparr>"
    "R' \<noteq> R \<Longrightarrow> ram_of R' ?t = ram_of R' s" for R'
    by (simp_all add: created_def put_ram_def put_node_def ram_of_def)
  have other: "filesystem_at ?t = filesystem_at s" "same_mounts s ?t" "vfs_path_reference_count ?t = vfs_path_reference_count s"
    "ramfs_instances (backend ?t) = ramfs_instances (backend s)"
    by (simp_all add: created_def put_ram_def put_node_def same_mounts_def)
  have node: "ram_node R j ?t = (if j = k then fresh_ram_node R name else ram_node R j s)" for j
    using fk o(2) by (simp add: ram_node_def ra nth_list_update)
  have occ: "rn_occupied (fresh_ram_node R name)" "rn_owner (fresh_ram_node R name) = R" "file_ok (fresh_ram_node R name)"
    "rn_capacity (fresh_ram_node R name) = 0" "rn_data (fresh_ram_node R name) = 0"
    by (simp_all add: fresh_ram_node_def file_ok_def cleared_ram_node_def)
  have u: "used R ?t j \<longleftrightarrow> used R s j \<or> j = k" for j using fk by (auto simp: used_def node occ)
  have p: "par R ?t j = (if j = k then d else par R s j)" for j by (simp add: par_def na fresh_vfs_node_def)
  have nid: "?id < ?id + 1" using unat_suc_u64 [OF next_id] by (simp add: word_less_nat_alt)
  have pk: "par R s j \<noteq> k" if "used R s j" for j using node_okD(12) [OF o(6) [OF that]] fk by auto
  have up: "rooted (par R ?t) j" if "used R s j" for j
  proof (rule rooted_mono [OF o(7) [OF that]])
    show "j \<in> {j. used R s j}" using that by simp
    show "par R s y \<in> {j. used R s j} \<and> par R ?t y = par R s y" if y: "y \<in> {j. used R s j}" "y \<noteq> 0" for y
      using node_okD(12) [OF o(6)] fk y by (auto simp: p)
  qed
  have okt: "ramfs_ok (ram_operations env) R ?t"
  proof (rule ramfs_ok_update [OF rok fk(1,2), where n = "fresh_ram_node R name" and v = "fresh_vfs_node R k d type ?id"])
    show "used_capacity ((ramfs_nodes (ram_of R s))[k := fresh_ram_node R name]) \<le> 32768"
      using used_capacity_drop [of k "ramfs_nodes (ram_of R s)" "fresh_ram_node R name"] fk(2) o(2,12) occ(4) by simp
    show "rn_occupied (fresh_ram_node R name) \<and> node_type (fresh_vfs_node R k d type ?id) = NODE_DIRECTORY"
      if "used R s j" "par R s j = k" for j using pk that by blast
    show "node_ok R ?t k"
      using fn occ ty d dk node_okD(7) [OF o(6) [OF o(3)]] nid
      by (auto simp: node_ok_def node u p na ra(1) fresh_vfs_node_def)
    show "rooted (par R ?t) j" if "used R ?t j" for j
      using up d(1) that by (cases "j = k") (auto simp: u p intro: rooted_up)
    show "name_of (ram_node R j s) \<noteq> name_of (fresh_ram_node R name)" if "used R s j" "j \<noteq> 0" "par R s j = par R ?t k" for j
      using find_child_None [OF rok l name(2) that(1,2)] that(3) fn(1) by (simp add: p)
    show "node_id (node_at s (R, j)) \<noteq> node_id (fresh_vfs_node R k d type ?id)" if "used R s j" for j
      using node_okD(7) [OF o(6) [OF that]] by (simp add: fresh_vfs_node_def)
    show "ramfs_next_node_id (ram_of R s) \<le> ramfs_next_node_id (ram_of R ?t)" using nid by (simp add: ra(1))
  qed (use o(16) occ other na ra in simp_all)
  show ?thesis
    by (rule node_step [OF ok R fk(1,2) na other ra(2) okt]) (simp_all add: fresh_vfs_node_def o(9) [OF fk(2,3)])
qed

section \<open>Removing\<close>

lemma remove_spec:
  assumes rok: "ramfs_ok table R s" and k: "used R s k" and r: "ramfs_remove_node env R k s = (res, t)"
  shows "\<exists>m. (res \<noteq> VFS_OK \<and> t = with_machine m s) \<or>
    (res = VFS_OK \<and> node_references (node_at s (R, k)) = 0 \<and> t = ramfs_node_clear R k (with_machine m s))"
proof -
  have v: "rn_occupied (ram_node R k s)" "node_valid (node_at s (R, k))"
    using k node_okD(5) [OF ramfs_okD(6) [OF rok k]] by (simp_all add: used_def)
  obtain freed m where f: "(if rn_data (ram_node R k s) \<noteq> 0 then ram_free env (rn_data (ram_node R k s)) s else (True, s)) = (freed, with_machine m s)"
    by (cases "rn_data (ram_node R k s) = 0") (auto simp: ram_free_run intro: that [of True "ramfs_machine (backend s)"])
  have same: "\<exists>m. s = with_machine m s" by (rule exI [of _ "ramfs_machine (backend s)"]) simp
  have "ramfs_remove_node env R k s = (if node_references (node_at s (R, k)) \<noteq> 0 then (VFS_BUSY, s)
      else if \<not> freed then (VFS_CORRUPT, with_machine m s) else (VFS_OK, ramfs_node_clear R k (with_machine m s)))"
    using v f by (simp add: ramfs_remove_node_def Let_def)
  then show ?thesis using r same by (auto split: if_splits)
qed

lemma removed_ok:
  assumes ok: "ram_ok env s" and R: "instance_of s R" and k: "used R s k" "k \<noteq> 0" and refs: "node_references (node_at s (R, k)) = 0"
    and children: "\<And>j. used R s j \<Longrightarrow> j \<noteq> 0 \<Longrightarrow> par R s j \<noteq> k"
  shows "backend_step s (ramfs_node_clear R k (with_machine m s)) \<and> ram_ok env (ramfs_node_clear R k (with_machine m s))"
proof -
  let ?t = "ramfs_node_clear R k (with_machine m s)"
  note rok = ram_okD(1) [OF ok R]
  note o = ramfs_okD [OF rok]
  have k32: "k < 32" using k by (simp add: used_def)
  have p0: "par R s 0 = 0" using o(5) by (simp add: par_def)
  have children: "used R s j \<Longrightarrow> par R s j \<noteq> k" for j using children p0 k(2) by (cases "j = 0") simp_all
  have na: "node_at ?t x = (if x = (R, k) then cleared_vfs_node else node_at s x)" for x
    by (simp add: ramfs_node_clear_def put_node_def with_machine_def)
  have ra: "ram_of R ?t = (ram_of R s)\<lparr>ramfs_nodes := (ramfs_nodes (ram_of R s))[k := cleared_ram_node]\<rparr>"
    "R' \<noteq> R \<Longrightarrow> ram_of R' ?t = ram_of R' s" for R'
    by (simp_all add: ramfs_node_clear_def put_node_def with_machine_def put_ram_node_def put_ram_def ram_of_def)
  have other: "filesystem_at ?t = filesystem_at s" "same_mounts s ?t" "vfs_path_reference_count ?t = vfs_path_reference_count s"
    "ramfs_instances (backend ?t) = ramfs_instances (backend s)"
    by (simp_all add: ramfs_node_clear_def put_node_def with_machine_def put_ram_node_def put_ram_def same_mounts_def)
  have node: "ram_node R j ?t = (if j = k then cleared_ram_node else ram_node R j s)" for j
    using k32 o(2) by (simp add: ram_node_def ra nth_list_update)
  have occ: "\<not> rn_occupied cleared_ram_node" by (simp add: cleared_ram_node_def)
  have u: "used R ?t j \<longleftrightarrow> used R s j \<and> j \<noteq> k" for j by (auto simp: used_def node occ)
  have p: "j \<noteq> k \<Longrightarrow> par R ?t j = par R s j" for j by (simp add: par_def na)
  have okt: "ramfs_ok (ram_operations env) R ?t"
  proof (rule ramfs_ok_update [OF rok k(2) k32, where n = cleared_ram_node and v = cleared_vfs_node])
    show "used_capacity ((ramfs_nodes (ram_of R s))[k := cleared_ram_node]) \<le> 32768"
      using used_capacity_drop [of k "ramfs_nodes (ram_of R s)" cleared_ram_node] k32 o(2,12) occ by simp
    show "rooted (par R ?t) j" if "used R ?t j" for j
    proof (rule rooted_mono [OF o(7)])
      show "used R s j" "j \<in> {j. used R s j \<and> j \<noteq> k}" using that by (simp_all add: u)
      show "par R s y \<in> {j. used R s j \<and> j \<noteq> k} \<and> par R ?t y = par R s y" if y: "y \<in> {j. used R s j \<and> j \<noteq> k}" for y
        using node_okD(12) [OF o(6)] children y by (simp add: p)
    qed
  qed (use o(16) occ other na ra children in \<open>simp_all add: cleared_vfs_node_def\<close>)
  show ?thesis
    by (rule node_step [OF ok R k(2) k32 na other ra(2) okt]) (simp_all add: cleared_vfs_node_def refs)
qed

section \<open>Moving\<close>

text \<open>\<open>y\<close> is \<open>x\<close> or a directory above it.\<close>

inductive above :: "(nat \<Rightarrow> nat) \<Rightarrow> nat \<Rightarrow> nat \<Rightarrow> bool" for p where
  above_self: "above p x x"
| above_up: "x \<noteq> 0 \<Longrightarrow> above p (p x) y \<Longrightarrow> above p x y"

lemma above_iff: "above p x y \<longleftrightarrow> x = y \<or> x \<noteq> 0 \<and> above p (p x) y"
  by (auto intro: above.intros elim: above.cases)

lemma rooted_iterate: "rooted p x \<Longrightarrow> \<exists>n. (p ^^ n) x = 0"
proof (induction rule: rooted.induct)
  case rooted_0
  show ?case by (rule exI [of _ 0]) simp
next
  case (rooted_up i)
  then obtain n where "(p ^^ n) (p i) = 0" by blast
  then show ?case by (intro exI [of _ "Suc n"]) (simp add: funpow_swap1)
qed

text \<open>No walk to the root of a finite tree passes a node twice.\<close>

lemma rooted_bounded:
  assumes "rooted p x" "x < N" "\<And>y. y \<in> S \<Longrightarrow> p y \<in> S" "x \<in> S" "\<And>y. y \<in> S \<Longrightarrow> y < N"
  shows "\<exists>n < N. (p ^^ n) x = 0"
proof -
  define n where "n = (LEAST n. (p ^^ n) x = 0)"
  have n: "(p ^^ n) x = 0" unfolding n_def by (rule LeastI_ex [OF rooted_iterate [OF assms(1)]])
  have least: "k < n \<Longrightarrow> (p ^^ k) x \<noteq> 0" for k unfolding n_def by (rule not_less_Least)
  have "inj_on (\<lambda>k. (p ^^ k) x) {..n}"
  proof (rule linorder_inj_onI)
    fix i j assume ij: "i < j" "i \<in> {..n}" "j \<in> {..n}"
    show "(p ^^ i) x \<noteq> (p ^^ j) x"
    proof
      assume e: "(p ^^ i) x = (p ^^ j) x"
      have "(p ^^ (n - j + i)) x = (p ^^ (n - j)) ((p ^^ i) x)" by (simp add: funpow_add)
      also have "\<dots> = (p ^^ (n - j + j)) x" unfolding e by (simp only: funpow_add comp_apply)
      finally have "(p ^^ (n - j + i)) x = 0" using n ij by simp
      moreover have "n - j + i < n" using ij by auto
      ultimately show False using least by blast
    qed
  qed auto
  moreover have "(p ^^ k) x \<in> S" for k using assms(3,4) by (induction k) simp_all
  then have "(\<lambda>k. (p ^^ k) x) ` {..n} \<subseteq> {..<N}" using assms(5) by auto
  ultimately have "card {..n} \<le> card {..<N}" by (rule card_inj_on_le) simp
  then show ?thesis using n by (intro exI [of _ n]) simp
qed

lemma rename_cycle_run:
  assumes rok: "ramfs_ok table R s" and R: "R \<noteq> 0"
  shows "used R s x \<Longrightarrow> node_type (node_at s (R, x)) = NODE_DIRECTORY \<Longrightarrow> (par R s ^^ n) x = 0 \<Longrightarrow> n < steps \<Longrightarrow>
    rename_cycle_from R source steps x s = (if above (par R s) x source then VFS_INVALID_ARGUMENT else VFS_OK)"
proof (induction steps arbitrary: x n)
  case (Suc steps)
  note o = ramfs_okD [OF rok]
  note d = node_okD [OF o(6) [OF Suc.prems(1)]]
  show ?case
  proof (cases "x = source \<or> x = 0")
    case True
    then show ?thesis using o(1) above_iff [of "par R s" x source] by auto
  next
    case False
    obtain k where k: "n = Suc k" using Suc.prems(3) False by (cases n) simp_all
    have dir: "ramfs_directory_from_vfs R (node_parent (node_at s (R, x))) s = Some (par R s x)"
      unfolding d(11) by (rule directory_from_vfs_used [OF rok d(12) R d(13)])
    have "rename_cycle_from R source steps (par R s x) s = (if above (par R s) (par R s x) source then VFS_INVALID_ARGUMENT else VFS_OK)"
      using Suc.prems(3,4) k by (intro Suc.IH [OF d(12,13), of k]) (simp_all add: funpow_swap1)
    then show ?thesis using False dir o(1) above_iff [of "par R s" x source] by simp
  qed
qed simp

text \<open>The bound of the check is never reached: moving is refused exactly below the node itself.\<close>

lemma validate_rename_cycle_run:
  assumes rok: "ramfs_ok table R s" and R: "R \<noteq> 0" and d: "used R s d" "node_type (node_at s (R, d)) = NODE_DIRECTORY"
  shows "ramfs_validate_rename_cycle R source d s =
    (if node_type (node_at s (R, source)) = NODE_DIRECTORY \<and> above (par R s) d source then VFS_INVALID_ARGUMENT else VFS_OK)"
proof -
  note o = ramfs_okD [OF rok]
  have "\<exists>n < 32. (par R s ^^ n) d = 0"
  proof (rule rooted_bounded [OF o(7) [OF d(1)], where S = "{j. used R s j}"])
    show "par R s y \<in> {j. used R s j}" if "y \<in> {j. used R s j}" for y using node_okD(12) [OF o(6)] that by simp
  qed (use d in \<open>auto simp: used_def\<close>)
  then show ?thesis using rename_cycle_run [OF rok R d] by (auto simp: ramfs_validate_rename_cycle_def)
qed

definition renamed :: "u64 \<Rightarrow> nat \<Rightarrow> nat \<Rightarrow> u8 list \<Rightarrow> 'm ram_world \<Rightarrow> 'm ram_world" where
  "renamed R k d name s = put_node (R, k) ((node_at s (R, k))\<lparr>node_parent := Some (R, d)\<rparr>)
     (put_ram_node R k ((ram_node R k s)\<lparr>rn_name := write_cells 0 (\<lambda>k. name ! k) (length name) (write_cells 0 (\<lambda>_. 0) 256 (rn_name (ram_node R k s))),
       rn_name_length := word_of_nat (length name)\<rparr>) s)"

lemma above_moved:
  assumes "rooted p x" "\<not> above p x k" "\<And>i. i \<noteq> k \<Longrightarrow> q i = p i"
  shows "rooted q x"
  using assms(1,2)
proof (induction rule: rooted.induct)
  case (rooted_up i)
  show ?case
  proof (cases "i = 0")
    case True
    then show ?thesis by (simp add: rooted.rooted_0)
  next
    case False
    then have "i \<noteq> k" "\<not> above p (p i) k" using rooted_up.prems by (auto intro: above.intros)
    then show ?thesis using rooted_up.IH assms(3) by (intro rooted.rooted_up [of q i]) simp
  qed
qed (rule rooted.rooted_0)

lemma moved_rooted:
  assumes "rooted p x" "rooted q (q k)" "\<And>i. i \<noteq> k \<Longrightarrow> q i = p i"
  shows "rooted q x"
  using assms(1)
proof (induction rule: rooted.induct)
  case (rooted_up i)
  then have "rooted q (q i)" using assms(2,3) by (cases "i = k") simp_all
  then show ?case by (rule rooted.rooted_up)
qed (rule rooted.rooted_0)

lemma file_not_above:
  assumes rok: "ramfs_ok table R s" and d: "above (par R s) x k" "used R s x" "node_type (node_at s (R, x)) = NODE_DIRECTORY"
  shows "node_type (node_at s (R, k)) = NODE_DIRECTORY"
  using d
proof (induction rule: above.induct)
  case (above_up x y)
  then show ?case using node_okD(12,13) [OF ramfs_okD(6) [OF rok above_up.prems(1)]] by simp
qed simp

lemma renamed_ok:
  assumes ok: "ram_ok env s" and R: "instance_of s R" and k: "used R s k" "k \<noteq> 0"
    and d: "used R s d" "node_type (node_at s (R, d)) = NODE_DIRECTORY"
    and name: "ramfs_validate_name name = VFS_OK" "ramfs_find_child R d name s = None"
    and cycle: "\<not> above (par R s) d k"
  shows "backend_step s (renamed R k d name s) \<and> ram_ok env (renamed R k d name s)"
proof -
  let ?t = "renamed R k d name s"
  note rok = ram_okD(1) [OF ok R]
  note o = ramfs_okD [OF rok]
  note nk = node_okD [OF o(6) [OF k(1)]]
  have k32: "k < 32" using k by (simp add: used_def)
  have l: "length name \<le> 255" using validate_name_length [OF name(1)] by simp
  have ul: "unat (word_of_nat (length name) :: u64) = length name" using l by (simp add: unat_of_nat)
  have dk: "d \<noteq> k" using cycle by (auto intro: above_self)
  define v where "v = (node_at s (R, k))\<lparr>node_parent := Some (R, d)\<rparr>"
  define n where "n = (ram_node R k s)\<lparr>rn_name := write_cells 0 (\<lambda>k. name ! k) (length name) (write_cells 0 (\<lambda>_. 0) 256 (rn_name (ram_node R k s))),
       rn_name_length := word_of_nat (length name)\<rparr>"
  have na: "node_at ?t x = (if x = (R, k) then v else node_at s x)" for x by (simp add: renamed_def put_node_def v_def)
  have ra: "ram_of R ?t = (ram_of R s)\<lparr>ramfs_nodes := (ramfs_nodes (ram_of R s))[k := n]\<rparr>"
    "R' \<noteq> R \<Longrightarrow> ram_of R' ?t = ram_of R' s" for R'
    by (simp_all add: renamed_def put_node_def put_ram_node_def put_ram_def ram_of_def n_def)
  have other: "filesystem_at ?t = filesystem_at s" "same_mounts s ?t" "vfs_path_reference_count ?t = vfs_path_reference_count s"
    "ramfs_instances (backend ?t) = ramfs_instances (backend s)"
    by (simp_all add: renamed_def put_node_def put_ram_node_def put_ram_def same_mounts_def)
  have node: "ram_node R j ?t = (if j = k then n else ram_node R j s)" for j
    using k32 o(2) by (simp add: ram_node_def ra nth_list_update)
  have occ: "rn_occupied n" "file_ok n" "rn_owner n = R" "rn_capacity n = rn_capacity (ram_node R k s)" "length (rn_name n) = 256"
    using k nk by (simp_all add: n_def used_def file_ok_def)
  have nn: "name_of n = name"
    using l nk(2) by (intro nth_equalityI) (simp_all add: name_of_def n_def ul nth_write_cells min_def)
  have en: "entry_name_ok n" using name(1) nn l by (simp add: entry_name_ok_def n_def ul)
  have u: "used R ?t = used R s" using k by (auto simp: used_def node occ fun_eq_iff)
  have p: "par R ?t = (par R s)(k := d)" by (auto simp: par_def na v_def fun_eq_iff)
  have okt: "ramfs_ok (ram_operations env) R ?t"
  proof (rule ramfs_ok_update [OF rok k(2) k32, where n = n and v = v])
    have "used_capacity ((ramfs_nodes (ram_of R s))[k := n]) = used_capacity (ramfs_nodes (ram_of R s))"
      using used_capacity_update [of k "ramfs_nodes (ram_of R s)" n] k32 o(2) occ(1,4) k(1)
      by (simp add: used_def ram_node_def)
    then show "used_capacity ((ramfs_nodes (ram_of R s))[k := n]) \<le> 32768" using o(12) by simp
    show "rn_occupied n \<and> node_type v = NODE_DIRECTORY" if "used R s j" "par R s j = k" for j
      using node_okD(13) [OF o(6) [OF that(1)]] that(2) occ(1) by (simp add: v_def)
    show "node_ok R ?t k" using nk occ en d dk by (simp add: node_ok_def node u p na ra(1) v_def)
    show "rooted (par R ?t) j" if "used R ?t j" for j
    proof (rule moved_rooted [OF o(7), where k = k])
      show "used R s j" using that by (simp add: u)
      show "rooted (par R ?t) (par R ?t k)"
        unfolding p fun_upd_same by (rule above_moved [OF o(7) [OF d(1)] cycle]) simp
    qed (simp add: p)
    show "name_of (ram_node R j s) \<noteq> name_of n" if "used R s j" "j \<noteq> 0" "par R s j = par R ?t k" for j
      using find_child_None [OF rok l name(2) that(1,2)] that(3) nn by (simp add: p)
    show "node_id (node_at s (R, j)) \<noteq> node_id v" if "used R s j" "j \<noteq> k" for j
      using o(11) [OF that(1) k(1)] that(2) by (auto simp: v_def)
  qed (use o(16) occ other na ra in simp_all)
  show ?thesis
    by (rule node_step [OF ok R k(2) k32 na other ra(2) okt]) (simp_all add: v_def)
qed

lemma rename_spec:
  assumes ok: "ram_ok env s" and R: "instance_of s R" and a: "used R s a" "node_type (node_at s (R, a)) = NODE_DIRECTORY"
    and d: "used R s d" "node_type (node_at s (R, d)) = NODE_DIRECTORY"
  shows "ramfs_rename env R (Some (R, a)) old_name (Some (R, d)) new_name s =
    (if ramfs_validate_name old_name \<noteq> VFS_OK then (ramfs_validate_name old_name, s)
     else if ramfs_validate_name new_name \<noteq> VFS_OK then (ramfs_validate_name new_name, s)
     else case ramfs_find_child R a old_name s of
       None \<Rightarrow> (VFS_NOT_FOUND, s)
     | Some k \<Rightarrow> (case ramfs_find_child R d new_name s of
         Some j \<Rightarrow> if j = k then (VFS_OK, s) else (VFS_ALREADY_EXISTS, s)
       | None \<Rightarrow> if above (par R s) d k then (VFS_INVALID_ARGUMENT, s) else (VFS_OK, renamed R k d new_name s)))"
proof -
  note rok = ram_okD(1) [OF ok R]
  have R0: "R \<noteq> 0" using R by (simp add: instance_of_def)
  note env = instance_from_filesystem_ok [OF ok R]
  have dirs: "ramfs_directory_from_vfs R (Some (R, a)) s = Some a" "ramfs_directory_from_vfs R (Some (R, d)) s = Some d"
    using directory_from_vfs_used [OF rok _ R0] a d by blast+
  show ?thesis
  proof (cases "ramfs_validate_name old_name = VFS_OK \<and> ramfs_validate_name new_name = VFS_OK \<and> ramfs_find_child R a old_name s \<noteq> None")
    case False
    then show ?thesis using env R0 dirs by (auto simp: ramfs_rename_def split: option.splits)
  next
    case True
    then obtain k where k: "ramfs_find_child R a old_name s = Some k" by blast
    have l: "length old_name \<le> 255" "length new_name \<le> 255" using validate_name_length True by blast+
    note fk = find_child_Some [OF rok l(1) k]
    show ?thesis
    proof (cases "ramfs_find_child R d new_name s")
      case None
      have ty: "above (par R s) d k \<Longrightarrow> node_type (node_at s (R, k)) = NODE_DIRECTORY"
        using file_not_above [OF rok _ d] by blast
      show ?thesis
      proof (cases "above (par R s) d k")
        case above: True
        then show ?thesis
          using env R0 dirs True k None ty validate_rename_cycle_run [OF rok R0 d, of k] by (simp add: ramfs_rename_def Let_def)
      next
        case False
        then show ?thesis
          using env R0 dirs True k None validate_rename_cycle_run [OF rok R0 d, of k]
          by (simp add: ramfs_rename_def Let_def renamed_def)
      qed
    next
      case (Some j)
      note fj = find_child_Some [OF rok l(2) Some]
      have "j = k \<Longrightarrow> a = d \<and> ramfs_names_equal (ram_node R k s) new_name"
        using fj fk names_equal_iff [OF _ _ l(2)] node_okD(2,3) [OF ramfs_okD(6) [OF rok fk(1)]] by (simp add: entry_name_ok_def)
      then show ?thesis using env R0 dirs True k Some by (auto simp: ramfs_rename_def)
    qed
  qed
qed

end
