(* ===== verification/VfsRuns.thy ===== *)
theory VfsRuns
  imports VfsCalls
begin

text \<open>
  Each call of a client of kernel/core/vfs.c keeps the counts exact, for any back end that
  satisfies \<open>vfs_backend\<close>.
\<close>

lemma acquire_open_count:
  "vfs_path_acquire m node out s = (r, t) \<Longrightarrow> vfs_open_handle_count t = vfs_open_handle_count s"
  by (auto simp: vfs_path_acquire_def vfs_node_retain_def put_node_def split: if_splits option.splits prod.splits)

lemma acquired_client:
  assumes inv: "client_inv c" and r: "vfs_path_acquire m node null_path (client_world c) = ((res, p), t)"
  shows "client_inv (snd (got_path c ((res, p), t))) \<and> touched (client_world c) t"
proof -
  have "vfs_inv (client_refs c) (client_world c)" using inv by (simp add: client_inv_def)
  note as = acquire_spec [OF this r]
  then have "if res = VFS_OK then vfs_inv (add_mset p (client_refs c)) t else vfs_inv (client_refs c) t"
    using inv by (auto simp: client_inv_def split: if_splits)
  then show ?thesis using client_got_path [OF inv acquire_open_count [OF r]] as by blast
qed

context vfs_backend
begin

lemma stepped_client:
  assumes inv: "client_inv c" and step: "backend_step (client_world c) t"
  shows "client_inv (c\<lparr>client_world := t\<rparr>)"
proof (rule client_got_world [OF inv])
  show "vfs_open_handle_count t = vfs_open_handle_count (client_world c)"
    using step by (simp add: backend_step_def same_mounts_def)
  show "vfs_inv (client_refs c) t"
    using inv by (intro backend_step_inv [OF _ step]) (simp add: client_inv_def)
qed

lemma create_client:
  assumes inv: "client_inv c" "ok (client_world c)"
    and r: "vfs_create_common ops d name null_path b (client_world c) = ((res, p), t)"
  shows "client_inv (snd (got_path c ((res, p), t))) \<and> ok t"
proof -
  let ?s = "client_world c"
  have kept: "client_inv (snd (got_path c ((r, null_path), u)))" if "backend_step ?s u" "r \<noteq> VFS_OK" for r u
    using stepped_client [OF inv(1) that(1)] that(2) by (simp add: got_path_def)
  show ?thesis
  proof (cases "vfs_validate_directory d ?s \<noteq> VFS_OK \<or> vfs_validate_name name \<noteq> VFS_OK \<or>
      (if b then op_mkdir (operations_of ops d ?s) else op_create (operations_of ops d ?s)) = None")
    case True
    then have "t = ?s \<and> p = null_path \<and> res \<noteq> VFS_OK"
      using r by (auto simp: vfs_create_common_def Let_def split: if_splits)
    then show ?thesis using kept [of ?s res] inv(2) by simp
  next
    case False
    then obtain create where c: "(if b then op_mkdir (operations_of ops d ?s) else op_create (operations_of ops d ?s)) = Some create"
      by blast
    obtain rc node u where u: "create (filesystem_of d ?s) (path_node d) (the name) ?s = ((rc, node), u)" by (metis prod.exhaust)
    have bu: "backend_step ?s u \<and> ok u"
    proof (cases b)
      case True
      then show ?thesis using mkdir_step [where create = create, OF inv(2) _ u] c by (simp add: operations_of_def)
    next
      case False
      then show ?thesis using create_step [where create = create, OF inv(2) _ u] c by (simp add: operations_of_def)
    qed
    define rv where "rv = vfs_validate_backend_child (filesystem_of d ?s) (path_node d) node
      (if b then NODE_DIRECTORY else NODE_REGULAR) True u"
    have fo: "filesystem_of d u = filesystem_of d ?s" using backend_step_mounts(2) bu by blast
    have run: "vfs_create_common ops d name null_path b ?s = (if rc \<noteq> VFS_OK then ((rc, null_path), u)
        else if rv \<noteq> VFS_OK then ((rv, null_path), u) else vfs_path_acquire (path_mount d) node null_path u)"
      using False c u by (simp add: vfs_create_common_def Let_def null_path_def rv_def fo)
    show ?thesis
    proof (cases "rc = VFS_OK \<and> rv = VFS_OK")
      case no: False
      then show ?thesis using run r kept [of u] bu by (auto split: if_splits)
    next
      case True
      then have a: "vfs_path_acquire (path_mount d) node null_path u = ((res, p), t)" using run r by simp
      let ?c = "c\<lparr>client_world := u\<rparr>"
      have "client_inv (snd (got_path ?c ((res, p), t))) \<and> touched u t"
        using acquired_client [of ?c] stepped_client [OF inv(1)] bu a by simp
      moreover have "snd (got_path ?c ((res, p), t)) = snd (got_path c ((res, p), t))" by (simp add: got_path_def)
      ultimately show ?thesis using stable bu by metis
    qed
  qed
qed

lemma open_client:
  assumes inv: "client_inv c" "ok (client_world c)"
    and r: "vfs_handle_open p access null_handle (client_world c) = ((res, h), t)"
  shows "client_inv (c\<lparr>client_world := t, client_handles := client_handles c @ (if res = VFS_OK then [h] else [])\<rparr>) \<and> ok t"
proof -
  let ?s = "client_world c"
  have vi: "vfs_inv (client_refs c) ?s" and n: "unat (vfs_open_handle_count ?s) = length (client_handles c)"
    using inv(1) by (simp_all add: client_inv_def)
  obtain r1 q u where u: "vfs_path_acquire (path_mount p) (path_node p) null_path ?s = ((r1, q), u)" by (metis prod.exhaust)
  note as = acquire_spec [OF vi u]
  have oc: "vfs_open_handle_count u = vfs_open_handle_count ?s" by (rule acquire_open_count [OF u])
  show ?thesis
  proof (cases "vfs_validate_regular p ?s \<noteq> VFS_OK \<or> access AND VFS_ACCESS_MASK = 0 \<or> access AND NOT VFS_ACCESS_MASK \<noteq> 0 \<or>
      vfs_open_handle_count ?s = UINT64_MAX \<or> r1 \<noteq> VFS_OK")
    case True
    then have "t = ?s \<and> res \<noteq> VFS_OK"
      using r u as by (auto simp: vfs_handle_open_def vfs_path_clone_def Let_def null_handle_def null_path_def split: if_splits)
    then show ?thesis using inv by simp
  next
    case False
    then have pv: "vfs_path_valid p ?s" by (simp add: vfs_validate_regular_def split: if_splits)
    have h: "res = VFS_OK" "h = \<lparr>handle_path = q, handle_offset = 0, handle_access = access, handle_open = True\<rparr>"
      "t = u\<lparr>vfs_open_handle_count := vfs_open_handle_count u + 1\<rparr>"
      using r u False pv by (auto simp: vfs_handle_open_def vfs_path_clone_def Let_def null_handle_def null_path_def)
    have i: "vfs_inv (add_mset q (client_refs c)) u" using as False by auto
    have t: "vfs_inv (add_mset q (client_refs c)) t"
    proof -
      have tt: "touched u t" by (simp add: h(3))
      have "mounts_wf t = mounts_wf u" "mount_references t = mount_references u" "\<And>x. vfs_path_valid x t = vfs_path_valid x u"
        by (simp_all add: h(3) mounts_wf_def vfs_mount_valid_def vfs_filesystem_valid_def vfs_node_valid_for_filesystem_def
            mount_references_def mount_uses_def vfs_path_valid_def filesystem_of_def mount_of_def fun_eq_iff
            split: option.split cong: if_cong)
      then show ?thesis using i unfolding vfs_inv_def by (simp add: h(3))
    qed
    have cn: "unat (vfs_open_handle_count t) = Suc (length (client_handles c))"
      using n oc unat_suc_u64 [of "vfs_open_handle_count ?s"] False by (simp add: h(3))
    have hf: "handle_fields_ok h" using False by (simp add: h(2) handle_fields_ok_def)
    have "client_inv (c\<lparr>client_world := t, client_handles := client_handles c @ [h]\<rparr>)"
    proof (rule client_invI)
      show "vfs_inv (client_refs (c\<lparr>client_world := t, client_handles := client_handles c @ [h]\<rparr>))
          (client_world (c\<lparr>client_world := t, client_handles := client_handles c @ [h]\<rparr>))"
        using t by (simp add: client_refs_def h(2))
    qed (use cn hf inv(1) in \<open>auto simp: client_inv_def handle_valid_iff\<close>)
    moreover have "ok u" using stable [OF inv(2)] as by blast
    ultimately show ?thesis using h stable [of u t] by simp
  qed
qed

lemma close_client:
  assumes inv: "client_inv c" "ok (client_world c)" and j: "j < length (client_handles c)"
    and r: "vfs_handle_close (client_handles c ! j) (client_world c) = ((res, h), t)"
  shows "res = VFS_OK \<and> client_inv (c\<lparr>client_world := t, client_handles := remove_nth j (client_handles c)\<rparr>) \<and> ok t"
proof -
  let ?s = "client_world c" and ?h = "client_handles c ! j" and ?d = "remove_nth j (client_handles c)"
  have n: "unat (vfs_open_handle_count ?s) = Suc (length ?d)"
    using inv(1) length_remove_nth [OF j] by (simp add: client_inv_def)
  then have n0: "vfs_open_handle_count ?s \<noteq> 0" by auto
  have hv: "vfs_handle_valid ?h ?s" using inv(1) j by (simp add: client_inv_def)
  have vi: "vfs_inv (add_mset (handle_path ?h) (mset (client_paths c) + mset (map handle_path ?d))) ?s"
    using inv(1) held_handle [OF j] by (simp add: client_inv_def)
  obtain r1 p1 u where u: "vfs_path_release (handle_path ?h) ?s = ((r1, p1), u)" by (metis prod.exhaust)
  note rs = release_spec [OF vi u]
  have t: "res = VFS_OK" "t = u\<lparr>vfs_open_handle_count := vfs_open_handle_count u - 1\<rparr>"
    using r hv n0 u rs by (auto simp: vfs_handle_close_def)
  have oc: "vfs_open_handle_count u = vfs_open_handle_count ?s" using rs by (simp add: same_mounts_def)
  have "vfs_inv (mset (client_paths c) + mset (map handle_path ?d)) t"
  proof -
    have "mounts_wf t = mounts_wf u" "mount_references t = mount_references u" "\<And>x. vfs_path_valid x t = vfs_path_valid x u"
      by (simp_all add: t(2) mounts_wf_def vfs_mount_valid_def vfs_filesystem_valid_def vfs_node_valid_for_filesystem_def
          mount_references_def mount_uses_def vfs_path_valid_def filesystem_of_def mount_of_def fun_eq_iff
          split: option.split cong: if_cong)
    then show ?thesis using rs unfolding vfs_inv_def by (simp add: t(2))
  qed
  moreover have "unat (vfs_open_handle_count t) = length ?d" using n n0 oc by (simp add: t(2) unat_minus_one)
  moreover have "handle_fields_ok x" if "x \<in> set ?d" for x
    using that set_remove_nth inv(1) by (fastforce simp: client_inv_def handle_valid_iff)
  ultimately have "client_inv (c\<lparr>client_world := t, client_handles := ?d\<rparr>)"
    by (intro client_invI) (simp_all add: client_refs_def)
  moreover have "touched u t" by (simp add: t(2))
  ultimately show ?thesis using t rs stable inv(2) by blast
qed

lemma release_client:
  assumes inv: "client_inv c" "ok (client_world c)" and i: "i < length (client_paths c)"
    and r: "vfs_path_release (client_paths c ! i) (client_world c) = ((res, p), t)"
  shows "res = VFS_OK \<and> client_inv (c\<lparr>client_world := t, client_paths := remove_nth i (client_paths c)\<rparr>) \<and> ok t"
proof -
  let ?d = "remove_nth i (client_paths c)"
  have vi: "vfs_inv (add_mset (client_paths c ! i) (mset ?d + mset (map handle_path (client_handles c)))) (client_world c)"
    using inv(1) held_path [OF i] by (auto simp: client_inv_def)
  note rs = release_spec [OF vi r]
  have "client_inv (c\<lparr>client_world := t, client_paths := ?d\<rparr>)"
  proof (rule client_invI)
    show "vfs_inv (client_refs (c\<lparr>client_world := t, client_paths := ?d\<rparr>)) (client_world (c\<lparr>client_world := t, client_paths := ?d\<rparr>))"
      using rs by (simp add: client_refs_def)
  qed (use inv(1) rs in \<open>auto simp: client_inv_def same_mounts_def handle_valid_iff\<close>)
  then show ?thesis using rs stable inv(2) by blast
qed

lemma transfer_client:
  assumes inv: "client_inv c" and j: "j < length (client_handles c)" and step: "backend_step (client_world c) t"
    and h: "handle_path h = handle_path (client_handles c ! j)" "handle_open h = handle_open (client_handles c ! j)"
      "handle_access h = handle_access (client_handles c ! j)"
  shows "client_inv (c\<lparr>client_world := t, client_handles := (client_handles c)[j := h]\<rparr>)"
proof (rule client_invI)
  let ?c = "c\<lparr>client_world := t, client_handles := (client_handles c)[j := h]\<rparr>"
  have "client_refs ?c = client_refs c"
    using handle_update_refs [OF j h(1)] by (simp add: client_refs_def mset_map [symmetric] del: mset_map)
  then show "vfs_inv (client_refs ?c) (client_world ?c)"
    using inv backend_step_inv [OF _ step] by (simp add: client_inv_def)
  show "unat (vfs_open_handle_count (client_world ?c)) = length (client_handles ?c)"
    using inv step by (simp add: client_inv_def backend_step_def same_mounts_def)
  show "handle_fields_ok x" if "x \<in> set (client_handles ?c)" for x
  proof -
    have "handle_fields_ok h"
      using inv j h by (auto simp: client_inv_def handle_valid_iff handle_fields_ok_def)
    moreover have "x = h \<or> x \<in> set (client_handles c)"
      using that set_update_subset_insert [of "client_handles c" j h] by auto
    ultimately show ?thesis using inv by (auto simp: client_inv_def handle_valid_iff)
  qed
qed

lemma read_client:
  assumes inv: "ok s" and r: "vfs_handle_read ops h null len s = ((res, h', bytes, n), t)"
  shows "backend_step s t \<and> ok t \<and> handle_path h' = handle_path h \<and> handle_open h' = handle_open h \<and> handle_access h' = handle_access h"
proof (cases "op_read (operations_of ops (handle_path h) s)")
  case None
  then show ?thesis using r inv by (auto simp: vfs_handle_read_def split: if_splits)
next
  case (Some read)
  obtain rr b m u where u: "read (filesystem_of (handle_path h) s) (path_node (handle_path h)) (handle_offset h) len s = ((rr, b, m), u)"
    by (metis prod.exhaust)
  have "backend_step s u \<and> ok u" using read_step [where read = read, OF inv _ u] Some by (simp add: operations_of_def)
  then show ?thesis using r inv Some u by (auto simp: vfs_handle_read_def split: if_splits)
qed

lemma write_client:
  assumes inv: "ok s" and r: "vfs_handle_write ops h bytes s = ((res, h', n), t)"
  shows "backend_step s t \<and> ok t \<and> handle_path h' = handle_path h \<and> handle_open h' = handle_open h \<and> handle_access h' = handle_access h"
proof (cases "op_write (operations_of ops (handle_path h) s)")
  case None
  then show ?thesis using r inv by (auto simp: vfs_handle_write_def Let_def split: if_splits)
next
  case (Some put)
  obtain rr m u where u: "put (filesystem_of (handle_path h) s) (path_node (handle_path h)) (handle_offset h) (the bytes) s = ((rr, m), u)"
    by (metis prod.exhaust)
  have "backend_step s u \<and> ok u" using write_step [where put = put, OF inv _ u] Some by (simp add: operations_of_def)
  then show ?thesis using r inv Some u by (auto simp: vfs_handle_write_def Let_def split: if_splits)
qed

lemma remove_step:
  assumes inv: "ok s" and r: "vfs_remove_common ops d name b s = (res, t)"
  shows "backend_step s t \<and> ok t"
proof (cases "if b then op_rmdir (operations_of ops d s) else op_unlink (operations_of ops d s)")
  case None
  then show ?thesis using r inv by (auto simp: vfs_remove_common_def Let_def split: if_splits)
next
  case (Some remove)
  obtain rr u where u: "remove (filesystem_of d s) (path_node d) (the name) s = (rr, u)" by force
  have "backend_step s u \<and> ok u"
  proof (cases b)
    case True
    then show ?thesis using rmdir_step [where remove = remove, OF inv _ u] Some by (simp add: operations_of_def)
  next
    case False
    then show ?thesis using unlink_step [where remove = remove, OF inv _ u] Some by (simp add: operations_of_def)
  qed
  then show ?thesis using r inv Some u by (auto simp: vfs_remove_common_def Let_def split: if_splits)
qed

lemma other_steps:
  assumes inv: "ok s"
  shows "vfs_rename_at ops d name d' name' s = (res, t) \<Longrightarrow> backend_step s t \<and> ok t"
    and "vfs_truncate_path ops d n s = (res, t) \<Longrightarrow> backend_step s t \<and> ok t"
    and "vfs_readdir_path ops d n entry s = (rr, t) \<Longrightarrow> backend_step s t \<and> ok t"
  using inv rename_step [OF inv] truncate_step [OF inv] readdir_step [OF inv]
  by (auto simp: vfs_rename_at_def vfs_truncate_path_def vfs_readdir_path_def operations_of_def Let_def
      split: if_splits option.splits prod.splits)

lemma call_spec:
  assumes inv: "client_inv c" "ok (client_world c)" and call: "call_ok call c" and r: "vfs_call_do ops call c = (res, d)"
  shows "client_inv d \<and> ok (client_world d) \<and> (\<forall>i. call = Release i \<or> call = Close i \<longrightarrow> res = VFS_OK)"
proof -
  let ?s = "client_world c"
  have stepped: "client_inv d \<and> ok (client_world d)" if "backend_step ?s t \<and> ok t" "d = c\<lparr>client_world := t\<rparr>" for t
    using stepped_client [OF inv(1), of t] that by simp
  have acquired: "client_inv d \<and> ok (client_world d)"
    if a: "vfs_path_acquire m node null_path ?s = ((r', p), t)" "d = snd (got_path c ((r', p), t))" for m node r' p t
    using acquired_client [OF inv(1) a(1)] stable [OF inv(2)] a(2) by (simp add: got_path_def)
  have pv: "vfs_path_valid (client_paths c ! i) ?s" if "i < length (client_paths c)" for i
  proof -
    have "client_paths c ! i \<in># client_refs c" using that by (simp add: client_refs_def)
    then show ?thesis using vfs_invD(2) [of "client_refs c" ?s] inv(1) by (simp add: client_inv_def)
  qed
  show ?thesis
  proof (cases call)
    case Get_root
    obtain r' p t where a: "vfs_get_root null_path ?s = ((r', p), t)" by (metis prod.exhaust)
    have "vfs_initialized ?s" using vfs_invD(1) [of "client_refs c" ?s] inv(1) by (simp add: client_inv_def mounts_wf_def)
    then have "vfs_path_acquire (Some 0) (fs_root (filesystem_at ?s (mount_filesystem (vfs_mounts ?s ! 0)))) null_path ?s = ((r', p), t)"
      using a by (simp add: vfs_get_root_def)
    moreover have "d = snd (got_path c ((r', p), t))" using r a Get_root by (simp add: vfs_call_do_def Let_def)
    ultimately show ?thesis using acquired Get_root by simp
  next
    case (Clone i)
    obtain r' p t where a: "vfs_path_clone (client_paths c ! i) null_path ?s = ((r', p), t)" by (metis prod.exhaust)
    have "vfs_path_acquire (path_mount (client_paths c ! i)) (path_node (client_paths c ! i)) null_path ?s = ((r', p), t)"
      using a pv [of i] call Clone by (simp add: vfs_path_clone_def call_ok_def Let_def)
    moreover have "d = snd (got_path c ((r', p), t))" using r a Clone by (simp add: vfs_call_do_def Let_def)
    ultimately show ?thesis using acquired Clone by simp
  next
    case (Resolve start path)
    obtain r' p t where a: "vfs_resolve ops (map_option ((!) (client_paths c)) start) path null_path ?s = ((r', p), t)"
      by (metis prod.exhaust)
    have vi: "vfs_inv (client_refs c) ?s" using inv(1) by (simp add: client_inv_def)
    note rs = resolve_spec [OF vi inv(2) a]
    have "if r' = VFS_OK then vfs_inv (add_mset p (client_refs c)) t else vfs_inv (client_refs c) t" using rs by auto
    moreover have "vfs_open_handle_count t = vfs_open_handle_count ?s" using rs by (simp add: same_mounts_def)
    ultimately have "client_inv (snd (got_path c ((r', p), t)))" using client_got_path [OF inv(1)] by blast
    moreover have "d = snd (got_path c ((r', p), t))" using r a Resolve by (simp add: vfs_call_do_def Let_def)
    ultimately show ?thesis using rs Resolve by (simp add: got_path_def)
  next
    case (Create_at i name)
    obtain r' p t where a: "vfs_create_common ops (client_paths c ! i) name null_path False ?s = ((r', p), t)" by (metis prod.exhaust)
    have "d = snd (got_path c ((r', p), t))" using r a Create_at by (simp add: vfs_call_do_def vfs_create_at_def Let_def)
    then show ?thesis using create_client [OF inv a] Create_at by (simp add: got_path_def)
  next
    case (Mkdir_at i name)
    obtain r' p t where a: "vfs_create_common ops (client_paths c ! i) name null_path True ?s = ((r', p), t)" by (metis prod.exhaust)
    have "d = snd (got_path c ((r', p), t))" using r a Mkdir_at by (simp add: vfs_call_do_def vfs_mkdir_at_def Let_def)
    then show ?thesis using create_client [OF inv a] Mkdir_at by (simp add: got_path_def)
  next
    case (Release i)
    then show ?thesis
      using release_client [OF inv, of i] call r
      by (cases "vfs_path_release (client_paths c ! i) ?s") (auto simp: vfs_call_do_def call_ok_def Let_def)
  next
    case (Close j)
    then show ?thesis
      using close_client [OF inv, of j] call r
      by (cases "vfs_handle_close (client_handles c ! j) ?s") (auto simp: vfs_call_do_def call_ok_def Let_def)
  next
    case (Open i access)
    then show ?thesis
      using open_client [OF inv, of "client_paths c ! i" access] r
      by (cases "vfs_handle_open (client_paths c ! i) access null_handle ?s") (auto simp: vfs_call_do_def Let_def)
  next
    case (Read j len)
    obtain r' h b n t where a: "vfs_handle_read ops (client_handles c ! j) False len ?s = ((r', h, b, n), t)" by (metis prod.exhaust)
    note rc = read_client [OF inv(2) a]
    have "d = c\<lparr>client_world := t, client_handles := (client_handles c)[j := h]\<rparr>" using r a Read by (simp add: vfs_call_do_def Let_def)
    then show ?thesis using transfer_client [OF inv(1), of j t h] rc call Read by (simp add: call_ok_def Let_def)
  next
    case (Write j bytes)
    obtain r' h n t where a: "vfs_handle_write ops (client_handles c ! j) (Some bytes) ?s = ((r', h, n), t)" by (metis prod.exhaust)
    note rc = write_client [OF inv(2) a]
    have "d = c\<lparr>client_world := t, client_handles := (client_handles c)[j := h]\<rparr>" using r a Write by (simp add: vfs_call_do_def Let_def)
    then show ?thesis using transfer_client [OF inv(1), of j t h] rc call Write by (simp add: call_ok_def Let_def)
  next
    case (Mount f i)
    obtain t where a: "vfs_mount_filesystem f (client_paths c ! i) ?s = (res, t)" "d = c\<lparr>client_world := t\<rparr>"
      using r Mount by (cases "vfs_mount_filesystem f (client_paths c ! i) ?s") (auto simp: vfs_call_do_def got_world_def Let_def)
    have "vfs_inv (client_refs c) ?s" using inv(1) by (simp add: client_inv_def)
    note ms = mount_spec [OF this a(1)]
    have "client_inv (c\<lparr>client_world := t\<rparr>)" using client_got_world [OF inv(1)] ms by blast
    then show ?thesis using a(2) stable [OF inv(2)] ms Mount by simp
  next
    case (Unlink_at i name)
    obtain t where "vfs_remove_common ops (client_paths c ! i) name False ?s = (res, t)" "d = c\<lparr>client_world := t\<rparr>"
      using r Unlink_at by (cases "vfs_remove_common ops (client_paths c ! i) name False ?s")
        (auto simp: vfs_call_do_def got_world_def vfs_unlink_at_def Let_def)
    then show ?thesis using remove_step [OF inv(2)] stepped Unlink_at by blast
  next
    case (Rmdir_at i name)
    obtain t where "vfs_remove_common ops (client_paths c ! i) name True ?s = (res, t)" "d = c\<lparr>client_world := t\<rparr>"
      using r Rmdir_at by (cases "vfs_remove_common ops (client_paths c ! i) name True ?s")
        (auto simp: vfs_call_do_def got_world_def vfs_rmdir_at_def Let_def)
    then show ?thesis using remove_step [OF inv(2)] stepped Rmdir_at by blast
  next
    case (Rename_at i name j name')
    obtain t where "vfs_rename_at ops (client_paths c ! i) name (client_paths c ! j) name' ?s = (res, t)" "d = c\<lparr>client_world := t\<rparr>"
      using r Rename_at by (cases "vfs_rename_at ops (client_paths c ! i) name (client_paths c ! j) name' ?s")
        (auto simp: vfs_call_do_def got_world_def Let_def)
    then show ?thesis using other_steps(1) [OF inv(2)] stepped Rename_at by blast
  next
    case (Truncate i n)
    obtain t where "vfs_truncate_path ops (client_paths c ! i) n ?s = (res, t)" "d = c\<lparr>client_world := t\<rparr>"
      using r Truncate by (cases "vfs_truncate_path ops (client_paths c ! i) n ?s") (auto simp: vfs_call_do_def got_world_def Let_def)
    then show ?thesis using other_steps(2) [OF inv(2)] stepped Truncate by blast
  next
    case (Readdir i n entry)
    obtain rr t where "vfs_readdir_path ops (client_paths c ! i) n entry ?s = (rr, t)" "d = c\<lparr>client_world := t\<rparr>"
      using r Readdir by (cases "vfs_readdir_path ops (client_paths c ! i) n entry ?s") (auto simp: vfs_call_do_def got_world_def Let_def)
    then show ?thesis using other_steps(3) [OF inv(2)] stepped Readdir by blast
  qed
qed

end

end
