(* ===== verification/RamfsBackend.thy ===== *)
theory RamfsBackend
  imports RamfsSteps VfsRuns
begin

text \<open>
  The operations of kernel/core/ramfs.c are a back end of kernel/core/vfs.c: the contract
  \<open>vfs_backend\<close> holds of them with the invariant \<open>ram_ok\<close>.
\<close>

lemma same_step: "ram_ok env s \<Longrightarrow> backend_step s s \<and> ram_ok env s"
  by simp

text \<open>The file system and the directory an operation works on, or it changes nothing.\<close>

lemma entered:
  assumes ok: "ram_ok env s" and R: "ramfs_instance_from_filesystem env f s = R" "R \<noteq> 0"
  shows "R = f" "instance_of s R" "ramfs_ok (ram_operations env) R s"
  using instance_from_filesystem_nz [OF R ram_okD(2) [OF ok]] ram_okD(1) [OF ok] by simp_all

lemma lookup_same: "snd (ramfs_lookup env f d name s) = s"
  by (simp add: ramfs_lookup_def Let_def split: option.split)

lemma read_same: "snd (ramfs_read env f n offset len s) = s"
  by (simp add: ramfs_read_def Let_def split: option.split)

lemma readdir_same: "snd (ramfs_readdir env f d k entry s) = s"
  by (simp add: ramfs_readdir_def Let_def split: option.split)

lemma create_node_step:
  assumes ok: "ram_ok env s" and R: "instance_of s R" and d: "ramfs_directory_from_vfs R d s = Some p"
    and ty: "vfs_node_type_valid type" and r: "ramfs_create_node R p name type s = ((res, node), t)"
  shows "backend_step s t \<and> ram_ok env t"
proof -
  note p = directory_from_vfs_Some [OF d]
  have R0: "R \<noteq> 0" using R by (simp add: instance_of_def)
  from create_spec [OF ram_okD(1) [OF ok R] R0 _ _ ty r] p
  consider "t = s" | k where "ramfs_validate_name name = VFS_OK" "ramfs_find_child R p name s = None"
    "ramfs_next_node_id (ram_of R s) \<noteq> UINT64_MAX" "ramfs_find_free_node R s = Some k" "t = created R k p name type s" by blast
  then show ?thesis
  proof cases
    case 1
    then show ?thesis using ok by simp
  next
    case 2
    then show ?thesis using created_ok [OF ok R _ _ ty 2(1-4)] p by simp
  qed
qed

lemma ram_create_step:
  assumes ok: "ram_ok env s" and r: "ramfs_create env f d name s = (r, t)"
  shows "backend_step s t \<and> ram_ok env t"
proof (cases "t = s")
  case False
  have R0: "ramfs_instance_from_filesystem env f s \<noteq> 0" using r False by (auto simp: ramfs_create_def Let_def split: if_splits)
  note e = entered [OF ok refl R0]
  obtain p where p: "ramfs_directory_from_vfs f d s = Some p"
    using r False R0 e(1) by (cases "ramfs_directory_from_vfs f d s") (auto simp: ramfs_create_def Let_def split: if_splits)
  have R: "instance_of s f" "f \<noteq> 0" using e R0 by simp_all
  have "ramfs_create_node f p name NODE_REGULAR s = (r, t)" using r e(1) R p by (auto simp: ramfs_create_def Let_def)
  then show ?thesis using create_node_step [OF ok R(1) p, of NODE_REGULAR name] by (cases r) (simp add: vfs_node_type_valid_def)
qed (use ok in simp)

lemma ram_mkdir_step:
  assumes ok: "ram_ok env s" and r: "ramfs_mkdir env f d name s = (r, t)"
  shows "backend_step s t \<and> ram_ok env t"
proof (cases "t = s")
  case False
  have R0: "ramfs_instance_from_filesystem env f s \<noteq> 0" using r False by (auto simp: ramfs_mkdir_def Let_def split: if_splits)
  note e = entered [OF ok refl R0]
  obtain p where p: "ramfs_directory_from_vfs f d s = Some p"
    using r False R0 e(1) by (cases "ramfs_directory_from_vfs f d s") (auto simp: ramfs_mkdir_def Let_def split: if_splits)
  have R: "instance_of s f" "f \<noteq> 0" using e R0 by simp_all
  have "ramfs_create_node f p name NODE_DIRECTORY s = (r, t)" using r e(1) R p by (auto simp: ramfs_mkdir_def Let_def)
  then show ?thesis using create_node_step [OF ok R(1) p, of NODE_DIRECTORY name] by (cases r) (simp add: vfs_node_type_valid_def)
qed (use ok in simp)

lemma remove_node_step:
  assumes ok: "ram_ok env s" and R: "instance_of s R" and k: "used R s k" "k \<noteq> 0"
    and children: "\<And>j. used R s j \<Longrightarrow> j \<noteq> 0 \<Longrightarrow> par R s j \<noteq> k" and r: "ramfs_remove_node env R k s = (res, t)"
  shows "backend_step s t \<and> ram_ok env t"
proof -
  from remove_spec [OF ram_okD(1) [OF ok R] k(1) r] consider m where "t = with_machine m s"
    | m where "node_references (node_at s (R, k)) = 0" "t = ramfs_node_clear R k (with_machine m s)" by blast
  then show ?thesis
  proof cases
    case 1
    then show ?thesis using machine_step [OF ok] by simp
  next
    case 2
    then show ?thesis using removed_ok [OF ok R k 2(1) children] by simp
  qed
qed

lemma file_no_children:
  assumes rok: "ramfs_ok table R s" and "node_type (node_at s (R, k)) = NODE_REGULAR" "used R s j"
  shows "par R s j \<noteq> k"
  using node_okD(13) [OF ramfs_okD(6) [OF rok assms(3)]] assms(2) by auto

lemma no_children_iff:
  assumes rok: "ramfs_ok table R s"
  shows "ramfs_directory_has_children R k s \<longleftrightarrow> (\<exists>j. used R s j \<and> j \<noteq> 0 \<and> par R s j = k)"
proof -
  have "ramfs_directory_has_children R k s \<longleftrightarrow> (\<exists>j. 1 \<le> j \<and> j < 32 \<and> is_child R k j s)"
    by (auto simp: ramfs_directory_has_children_def list_ex_iff)
  also have "\<dots> \<longleftrightarrow> (\<exists>j. 1 \<le> j \<and> j < 32 \<and> used R s j \<and> par R s j = k)" using child_iff [OF rok] by blast
  also have "\<dots> \<longleftrightarrow> (\<exists>j. used R s j \<and> j \<noteq> 0 \<and> par R s j = k)" by (auto simp: used_def Suc_le_eq)
  finally show ?thesis .
qed

lemma ram_unlink_step:
  assumes ok: "ram_ok env s" and r: "ramfs_unlink env f d name s = (res, t)"
  shows "backend_step s t \<and> ram_ok env t"
proof (cases "t = s")
  case False
  have R0: "ramfs_instance_from_filesystem env f s \<noteq> 0" using r False by (auto simp: ramfs_unlink_def Let_def split: if_splits)
  note e = entered [OF ok refl R0]
  obtain p k where p: "ramfs_directory_from_vfs f d s = Some p" "ramfs_validate_name name = VFS_OK"
      "ramfs_find_child f p name s = Some k" "node_type (node_at s (f, k)) = NODE_REGULAR" "ramfs_remove_node env f k s = (res, t)"
    using r False R0 e(1) by (auto simp: ramfs_unlink_def Let_def split: if_splits option.splits)
  have R: "instance_of s f" "ramfs_ok (ram_operations env) f s" using e by simp_all
  have l: "length name \<le> 255" using validate_name_length [OF p(2)] by simp
  note c = find_child_Some [OF R(2) l p(3)]
  show ?thesis by (rule remove_node_step [OF ok R(1) c(1,2) _ p(5)]) (rule file_no_children [OF R(2) p(4)])
qed (use ok in simp)

lemma ram_rmdir_step:
  assumes ok: "ram_ok env s" and r: "ramfs_rmdir env f d name s = (res, t)"
  shows "backend_step s t \<and> ram_ok env t"
proof (cases "t = s")
  case False
  have R0: "ramfs_instance_from_filesystem env f s \<noteq> 0" using r False by (auto simp: ramfs_rmdir_def Let_def split: if_splits)
  note e = entered [OF ok refl R0]
  obtain p k where p: "ramfs_directory_from_vfs f d s = Some p" "ramfs_validate_name name = VFS_OK"
      "ramfs_find_child f p name s = Some k" "\<not> ramfs_directory_has_children f k s" "ramfs_remove_node env f k s = (res, t)"
    using r False R0 e(1) by (auto simp: ramfs_rmdir_def Let_def split: if_splits option.splits)
  have R: "instance_of s f" "ramfs_ok (ram_operations env) f s" using e by simp_all
  have l: "length name \<le> 255" using validate_name_length [OF p(2)] by simp
  note c = find_child_Some [OF R(2) l p(3)]
  show ?thesis
    by (rule remove_node_step [OF ok R(1) c(1,2) _ p(5)]) (use p(4) no_children_iff [OF R(2)] in blast)
qed (use ok in simp)

lemma ram_rename_step:
  assumes ok: "ram_ok env s" and r: "ramfs_rename env f d old_name d' new_name s = (res, t)"
  shows "backend_step s t \<and> ram_ok env t"
proof (cases "t = s")
  case False
  have R0: "ramfs_instance_from_filesystem env f s \<noteq> 0" using r False by (auto simp: ramfs_rename_def Let_def split: if_splits)
  note e = entered [OF ok refl R0]
  obtain a b where ab: "ramfs_directory_from_vfs f d s = Some a" "ramfs_directory_from_vfs f d' s = Some b"
    using r False R0 e(1) by (auto simp: ramfs_rename_def Let_def split: if_splits option.splits)
  have R: "instance_of s f" "ramfs_ok (ram_operations env) f s" using e by simp_all
  note a = directory_from_vfs_Some [OF ab(1)] and b = directory_from_vfs_Some [OF ab(2)]
  have "ramfs_rename env f d old_name d' new_name s = ramfs_rename env f (Some (f, a)) old_name (Some (f, b)) new_name s"
    using a b by simp
  note run = this [unfolded rename_spec [OF ok R(1) a [THEN conjunct2, THEN conjunct1] a [THEN conjunct2, THEN conjunct2]
    b [THEN conjunct2, THEN conjunct1] b [THEN conjunct2, THEN conjunct2]]]
  obtain k where k: "ramfs_validate_name old_name = VFS_OK" "ramfs_validate_name new_name = VFS_OK"
      "ramfs_find_child f a old_name s = Some k" "ramfs_find_child f b new_name s = None" "\<not> above (par f s) b k"
      "t = renamed f k b new_name s"
    using run r False by (auto split: if_splits option.splits)
  have l: "length old_name \<le> 255" using validate_name_length [OF k(1)] by simp
  note c = find_child_Some [OF R(2) l k(3)]
  show ?thesis unfolding k(6) by (rule renamed_ok [OF ok R(1) c(1,2) _ _ k(2,4,5)]) (use b in simp_all)
qed (use ok in simp)

lemma ram_write_step:
  assumes ok: "ram_ok env s" and r: "ramfs_write env f n offset input s = (r, t)"
  shows "backend_step s t \<and> ram_ok env t"
proof (cases "t = s")
  case False
  have R0: "ramfs_instance_from_filesystem env f s \<noteq> 0" using r False by (auto simp: ramfs_write_def Let_def split: if_splits)
  note e = entered [OF ok refl R0]
  have R: "ramfs_instance_from_filesystem env f s = f" "f \<noteq> 0" "instance_of s f" "ramfs_ok (ram_operations env) f s" using e R0 by simp_all
  obtain i where i: "ramfs_regular_from_vfs f n s = Some i"
    using r False R by (cases "ramfs_regular_from_vfs f n s") (auto simp: ramfs_write_def Let_def)
  note u = regular_from_vfs_Some [OF i]
  obtain res k where rk: "ramfs_write env f n offset input s = ((res, k), t)" using r by (cases r) simp
  have len: "i < length (ramfs_nodes (ram_of f s))" "rn_occupied (ram_node f i s)" using u ramfs_okD(2) [OF R(4)] by (simp_all add: used_def)
  from write_spec [OF ramfs_ok_capacities [OF R(4)] len R(1,2) i rk]
  consider m where "t = with_machine m s" | bytes where "file_step f i bytes s t" by blast
  then show ?thesis
  proof cases
    case 1
    then show ?thesis using machine_step [OF ok] by simp
  next
    case 2
    then show ?thesis using file_step_ok [OF ok R(3) _ _ 2] u by simp
  qed
qed (use ok in simp)

lemma ram_truncate_step:
  assumes ok: "ram_ok env s" and r: "ramfs_truncate env f n want s = (res, t)"
  shows "backend_step s t \<and> ram_ok env t"
proof (cases "t = s")
  case False
  have R0: "ramfs_instance_from_filesystem env f s \<noteq> 0" using r False by (auto simp: ramfs_truncate_def Let_def split: if_splits)
  note e = entered [OF ok refl R0]
  have R: "ramfs_instance_from_filesystem env f s = f" "f \<noteq> 0" "instance_of s f" "ramfs_ok (ram_operations env) f s" using e R0 by simp_all
  obtain i where i: "ramfs_regular_from_vfs f n s = Some i"
    using r False R by (cases "ramfs_regular_from_vfs f n s") (auto simp: ramfs_truncate_def Let_def)
  note u = regular_from_vfs_Some [OF i]
  have len: "i < length (ramfs_nodes (ram_of f s))" "rn_occupied (ram_node f i s)" using u ramfs_okD(2) [OF R(4)] by (simp_all add: used_def)
  from truncate_spec [OF ramfs_ok_capacities [OF R(4)] len R(1,2) i r]
  consider m where "t = with_machine m s" | bytes where "file_step f i bytes s t" by blast
  then show ?thesis
  proof cases
    case 1
    then show ?thesis using machine_step [OF ok] by simp
  next
    case 2
    then show ?thesis using file_step_ok [OF ok R(3) _ _ 2] u by simp
  qed
qed (use ok in simp)

section \<open>The contract\<close>

definition no_operations :: "'b vfs_operations" where
  "no_operations = \<lparr>op_lookup = None, op_create = None, op_mkdir = None, op_unlink = None, op_rmdir = None, op_rename = None,
     op_read = None, op_write = None, op_truncate = None, op_readdir = None\<rparr>"

text \<open>The tables of operations of a kernel whose only back end is this one.\<close>

definition ram_tables :: "'m ramfs_env \<Rightarrow> u64 \<Rightarrow> 'm ramfs_state vfs_operations" where
  "ram_tables env a = (if a = ram_operations env then ramfs_operations env else no_operations)"

lemma touched_ram_ok:
  assumes ok: "ram_ok env s" and t: "touched s t"
  shows "ram_ok env t"
proof -
  have b: "backend t = backend s" "filesystem_at t = filesystem_at s" using t by (simp_all add: touched_def)
  have refs: "\<not> node_valid (node_at s n) \<Longrightarrow> node_references (node_at t n) = node_references (node_at s n)" for n
    using t unfolding touched_def by blast
  have "ramfs_ok (ram_operations env) R t" if "instance_of s R" for R
    by (rule ramfs_ok_cong [OF ram_okD(1) [OF ok that]]) (simp_all add: ram_of_def b touched_node [OF t] refs)
  then show ?thesis by (intro ram_ok_same [OF ok]) (simp_all add: b)
qed

interpretation ramfs: vfs_backend "ram_tables env" "ram_ok env" for env :: "'m ramfs_env"
proof unfold_locales
  fix s t :: "'m ram_world"
  assume ok: "ram_ok env s"
  show "ram_ok env t" if "touched s t" using touched_ram_ok [OF ok that] .
  show "backend_step s t \<and> ram_ok env t"
    if "op_lookup (ram_tables env a) = Some lookup" "lookup f d name s = (r, t)" for a lookup f d name r
    using that lookup_same [of env f d name s] ok
    by (auto simp: ram_tables_def ramfs_operations_def no_operations_def split: if_splits)
  show "backend_step s t \<and> ram_ok env t"
    if "op_create (ram_tables env a) = Some create" "create f d name s = (r, t)" for a create f d name r
    using that ram_create_step [OF ok] by (auto simp: ram_tables_def ramfs_operations_def no_operations_def split: if_splits)
  show "backend_step s t \<and> ram_ok env t"
    if "op_mkdir (ram_tables env a) = Some create" "create f d name s = (r, t)" for a create f d name r
    using that ram_mkdir_step [OF ok] by (auto simp: ram_tables_def ramfs_operations_def no_operations_def split: if_splits)
  show "backend_step s t \<and> ram_ok env t"
    if "op_unlink (ram_tables env a) = Some remove" "remove f d name s = (res, t)" for a remove f d name res
    using that ram_unlink_step [OF ok] by (auto simp: ram_tables_def ramfs_operations_def no_operations_def split: if_splits)
  show "backend_step s t \<and> ram_ok env t"
    if "op_rmdir (ram_tables env a) = Some remove" "remove f d name s = (res, t)" for a remove f d name res
    using that ram_rmdir_step [OF ok] by (auto simp: ram_tables_def ramfs_operations_def no_operations_def split: if_splits)
  show "backend_step s t \<and> ram_ok env t"
    if "op_rename (ram_tables env a) = Some rename" "rename f d name d' name' s = (res, t)" for a rename f d name d' name' res
    using that ram_rename_step [OF ok] by (auto simp: ram_tables_def ramfs_operations_def no_operations_def split: if_splits)
  show "backend_step s t \<and> ram_ok env t"
    if "op_read (ram_tables env a) = Some read" "read f n offset len s = (rd, t)" for a read f n offset len rd
    using that read_same [of env f n offset len s] ok
    by (auto simp: ram_tables_def ramfs_operations_def no_operations_def split: if_splits)
  show "backend_step s t \<and> ram_ok env t"
    if "op_write (ram_tables env a) = Some put" "put f n offset bytes s = (wr, t)" for a put f n offset bytes wr
    using that ram_write_step [OF ok] by (auto simp: ram_tables_def ramfs_operations_def no_operations_def split: if_splits)
  show "backend_step s t \<and> ram_ok env t"
    if "op_truncate (ram_tables env a) = Some resize" "resize f n offset s = (res, t)" for a resize f n offset res
    using that ram_truncate_step [OF ok] by (auto simp: ram_tables_def ramfs_operations_def no_operations_def split: if_splits)
  show "backend_step s t \<and> ram_ok env t"
    if "op_readdir (ram_tables env a) = Some readdir" "readdir f d offset entry s = (rr, t)" for a readdir f d offset entry rr
    using that readdir_same [of env f d offset entry s] ok
    by (auto simp: ram_tables_def ramfs_operations_def no_operations_def split: if_splits)
qed

end
