(* ===== verification/RamfsLife.thy ===== *)
theory RamfsLife
  imports RamfsBackend
begin

text \<open>
  Creating and destroying file systems of kernel/core/ramfs.c, starting and shutting down
  kernel/core/vfs.c on one of them, and runs of a client in between.
\<close>

section \<open>Creating a file system\<close>

lemma ram_ok_distinct:
  "ram_ok env s \<Longrightarrow> i < 8 \<Longrightarrow> j < 8 \<Longrightarrow> ramfs_instances (backend s) ! i \<noteq> 0 \<Longrightarrow>
    ramfs_instances (backend s) ! i = ramfs_instances (backend s) ! j \<Longrightarrow> i = j"
  unfolding ram_ok_def by (elim conjE) (drule spec [of _ i], drule spec [of _ j], simp)

lemma foldl_cleared:
  assumes "ramfs_nodes (ram_of R s) = replicate 32 cleared_ram_node" "n \<le> 32"
  shows "foldl (\<lambda>s i. ramfs_node_clear R i s) s [0..<n] =
    s\<lparr>node_at := (\<lambda>x. if fst x = R \<and> snd x < n then cleared_vfs_node else node_at s x)\<rparr>"
  using assms(2)
proof (induction n)
  case 0
  then show ?case by simp
next
  case (Suc n)
  let ?u = "s\<lparr>node_at := (\<lambda>x. if fst x = R \<and> snd x < n then cleared_vfs_node else node_at s x)\<rparr>"
  have u: "ram_of R ?u = ram_of R s" by (simp add: ram_of_def)
  have "put_ram_node R n cleared_ram_node v = v" if "ramfs_nodes (ram_of R v) = replicate 32 cleared_ram_node" for v :: "'a ram_world"
    using put_same_node [of R n v] Suc.prems that by (simp add: ram_node_def)
  then have "ramfs_node_clear R n ?u = put_node (R, n) cleared_vfs_node ?u"
    using assms(1) by (simp add: ramfs_node_clear_def put_node_def ram_of_def)
  also have "\<dots> = s\<lparr>node_at := (\<lambda>x. if fst x = R \<and> snd x < Suc n then cleared_vfs_node else node_at s x)\<rparr>"
    by (auto simp: put_node_def fun_eq_iff less_Suc_eq intro: prod_eqI)
  finally show ?case using Suc by simp
qed

lemma registry_slot_spec:
  assumes "\<And>i. i \<in> set rest \<Longrightarrow> i < 8" "slot = 8 \<or> slot < 8 \<and> ramfs_instances (backend s) ! slot = 0"
  shows "case registry_slot ident rest slot s of
      None \<Rightarrow> \<exists>i \<in> set rest. ramfs_instances (backend s) ! i \<noteq> 0 \<and> fs_id (filesystem_at s (ramfs_instances (backend s) ! i)) = ident
    | Some k \<Rightarrow> (\<forall>i \<in> set rest. ramfs_instances (backend s) ! i \<noteq> 0 \<longrightarrow> fs_id (filesystem_at s (ramfs_instances (backend s) ! i)) \<noteq> ident) \<and>
        (if k = 8 then slot = 8 \<and> (\<forall>i \<in> set rest. ramfs_instances (backend s) ! i \<noteq> 0)
         else k < 8 \<and> ramfs_instances (backend s) ! k = 0)"
  using assms
proof (induction rest arbitrary: slot)
  case (Cons i rest)
  let ?r = "ramfs_instances (backend s) ! i"
  show ?case
  proof (cases "?r = 0")
    case True
    define slot' where "slot' = (if slot = 8 then i else slot)"
    have "i < 8" using Cons.prems(1) by simp
    then have "slot' \<noteq> 8" "slot' = 8 \<or> slot' < 8 \<and> ramfs_instances (backend s) ! slot' = 0"
      using Cons.prems(2) True by (auto simp: slot'_def)
    with Cons.IH [of slot'] Cons.prems(1) True show ?thesis
      by (simp add: slot'_def [symmetric] split: option.splits) (auto split: if_splits)
  next
    case False
    then show ?thesis using Cons.IH [of slot] Cons.prems by (cases "fs_id (filesystem_at s ?r) = ident") (auto split: option.splits if_splits)
  qed
qed auto

text \<open>The state after a file system \<open>R\<close> was made at place \<open>slot\<close> of the registry.\<close>

definition new_root :: "u64 \<Rightarrow> vfs_node" where
  "new_root R = \<lparr>node_id = 1, node_type = NODE_DIRECTORY, node_filesystem = R, node_parent = Some (R, 0), node_backend = Some (R, 0),
     node_references = 0, node_valid = True\<rparr>"

definition made :: "'m ramfs_env \<Rightarrow> u64 \<Rightarrow> u64 \<Rightarrow> nat \<Rightarrow> 'm ram_world \<Rightarrow> 'm ram_world" where
  "made env ident R slot s = s\<lparr>
     filesystem_at := (filesystem_at s)(R := \<lparr>fs_id = ident, fs_operations = ram_operations env, fs_root = Some (R, 0), fs_backend = R, fs_valid = True\<rparr>),
     node_at := (\<lambda>x. if fst x = R \<and> snd x < 32 then (if snd x = 0 then new_root R else cleared_vfs_node) else node_at s x),
     backend := (backend s)\<lparr>ramfs_instances := (ramfs_instances (backend s))[slot := R],
       ramfs_at := (ramfs_at (backend s))(R := \<lparr>ramfs_nodes = (replicate 32 cleared_ram_node)[0 := cleared_ram_node\<lparr>rn_owner := R, rn_occupied := True\<rparr>],
         ramfs_next_node_id = 2, ramfs_registered = True\<rparr>)\<rparr>\<rparr>"

lemma create_filesystem_run:
  assumes "ram_operations env \<noteq> 0"
  shows "ramfs_create_filesystem env ident s = (if ident = 0 then ((VFS_INVALID_ARGUMENT, 0), s)
    else case registry_slot ident [0..<8] 8 s of None \<Rightarrow> ((VFS_ALREADY_EXISTS, 0), s)
    | Some slot \<Rightarrow> if slot = 8 then ((VFS_NO_SPACE, 0), s)
        else case ram_kmalloc env 11320 (ramfs_machine (backend s)) of (R, m) \<Rightarrow>
          if R = 0 then ((VFS_NO_SPACE, 0), with_machine m s) else ((VFS_OK, R), made env ident R slot (with_machine m s)))"
proof (cases "ident = 0 \<or> registry_slot ident [0..<8] 8 s = None \<or> registry_slot ident [0..<8] 8 s = Some 8")
  case True
  then show ?thesis by (auto simp: ramfs_create_filesystem_def)
next
  case False
  then obtain slot where slot: "registry_slot ident [0..<8] 8 s = Some slot" "slot \<noteq> 8" by auto
  obtain R m where k: "ram_kmalloc env 11320 (ramfs_machine (backend s)) = (R, m)" by force
  show ?thesis
  proof (cases "R = 0")
    case True
    then show ?thesis using False slot k by (simp add: ramfs_create_filesystem_def ram_alloc_run)
  next
    case R: False
    let ?s = "with_machine m s"
    define s1 where "s1 = put_ram R \<lparr>ramfs_nodes = replicate 32 cleared_ram_node, ramfs_next_node_id = 0, ramfs_registered = False\<rparr>
      (put_filesystem R \<lparr>fs_id = 0, fs_operations = 0, fs_root = None, fs_backend = 0, fs_valid = False\<rparr> ?s)"
    define s2 where "s2 = s1\<lparr>node_at := (\<lambda>x. if fst x = R \<and> snd x < 32 then cleared_vfs_node else node_at s1 x)\<rparr>"
    have cleared: "foldl (\<lambda>s i. ramfs_node_clear R i s) s1 [0..<32] = s2"
      unfolding s2_def by (rule foldl_cleared) (simp_all add: s1_def put_ram_def ram_of_def)
    define fs where "fs = \<lparr>fs_id = ident, fs_operations = ram_operations env, fs_root = None, fs_backend = R, fs_valid = True\<rparr>"
    define s3 where "s3 = put_filesystem R fs s2"
    have prepared: "vfs_filesystem_prepare R ident (ram_operations env) R s2 = (True, s3)"
      using False R assms by (simp add: vfs_filesystem_prepare_def s3_def fs_def)
    have n0: "ram_node R 0 s3 = cleared_ram_node"
      by (simp add: ram_node_def ram_of_def s3_def put_filesystem_def s2_def s1_def put_ram_def)
    have name0: "(rn_name cleared_ram_node)[0 := 0] = rn_name cleared_ram_node" by (simp add: cleared_ram_node_def list_update_same_conv)
    define owned where "owned = cleared_ram_node\<lparr>rn_owner := R\<rparr>"
    have owned: "cleared_ram_node\<lparr>rn_owner := R, rn_name := (rn_name cleared_ram_node)[0 := 0], rn_name_length := 0\<rparr> = owned"
      unfolding name0 by (simp add: owned_def cleared_ram_node_def)
    define s4 where "s4 = put_ram_node R 0 owned s3"
    define root where "root = (new_root R)\<lparr>node_parent := None\<rparr>"
    define s5 where "s5 = put_node (R, 0) root s4"
    have fs4: "filesystem_at s4 R = fs" by (simp add: s4_def s3_def put_filesystem_def)
    have node: "vfs_node_prepare (Some (R, 0)) R 1 NODE_DIRECTORY None (Some (R, 0)) s4 = (True, s5)"
      using R by (simp add: vfs_node_prepare_def fs4 fs_def vfs_node_type_valid_def s5_def root_def new_root_def)
    define s6 where "s6 = put_filesystem R (fs\<lparr>fs_root := Some (R, 0)\<rparr>) (put_node (R, 0) (new_root R) s5)"
    have fs5: "filesystem_at s5 R = fs" "node_at s5 (R, 0) = root" by (simp_all add: s5_def put_node_def fs4)
    have root: "vfs_filesystem_set_root R (Some (R, 0)) s5 = (True, s6)"
      using R by (simp add: vfs_filesystem_set_root_def fs5 fs_def vfs_node_valid_for_filesystem_def root_def new_root_def
          vfs_node_type_valid_def s6_def)
    define s7 where "s7 = put_ram_node R 0 ((ram_node R 0 s6)\<lparr>rn_occupied := True\<rparr>) s6"
    define s8 where "s8 = put_ram R ((ram_of R s7)\<lparr>ramfs_next_node_id := 2, ramfs_registered := True\<rparr>) s7"
    have "ramfs_create_filesystem env ident s =
        ((VFS_OK, R), s8\<lparr>backend := (backend s8)\<lparr>ramfs_instances := (ramfs_instances (backend s8))[slot := R]\<rparr>\<rparr>)"
      using False slot k R cleared prepared node root
      by (simp add: ramfs_create_filesystem_def ram_alloc_run s1_def [symmetric] n0 owned s4_def [symmetric] Let_def s7_def s8_def)
    also have "s8\<lparr>backend := (backend s8)\<lparr>ramfs_instances := (ramfs_instances (backend s8))[slot := R]\<rparr>\<rparr> = made env ident R slot ?s"
      by (auto simp: s8_def s7_def s6_def s5_def s4_def s3_def s2_def s1_def put_ram_def put_ram_node_def put_node_def put_filesystem_def
          ram_of_def ram_node_def made_def fs_def owned_def fun_eq_iff intro: prod_eqI)
    finally show ?thesis using False slot k R by simp
  qed
qed

lemma made_fields:
  "filesystem_at (made env ident R slot s) = (filesystem_at s)(R := \<lparr>fs_id = ident, fs_operations = ram_operations env, fs_root = Some (R, 0), fs_backend = R, fs_valid = True\<rparr>)"
  "node_at (made env ident R slot s) x = (if fst x = R \<and> snd x < 32 then (if snd x = 0 then new_root R else cleared_vfs_node) else node_at s x)"
  "ramfs_instances (backend (made env ident R slot s)) = (ramfs_instances (backend s))[slot := R]"
  "ram_of R' (made env ident R slot s) = (if R' = R then \<lparr>ramfs_nodes = (replicate 32 cleared_ram_node)[0 := cleared_ram_node\<lparr>rn_owner := R, rn_occupied := True\<rparr>],
     ramfs_next_node_id = 2, ramfs_registered = True\<rparr> else ram_of R' s)"
  by (simp_all add: made_def ram_of_def)

lemma made_ok:
  assumes ok: "ram_ok env s" and R: "R \<noteq> 0" "\<not> instance_of s R" and slot: "slot < 8" "ramfs_instances (backend s) ! slot = 0"
  shows "ram_ok env (made env ident R slot s)" "used R (made env ident R slot s) i \<longleftrightarrow> i = 0"
proof -
  let ?t = "made env ident R slot s"
  note f = made_fields
  have node: "ram_node R i ?t = (if i = 0 then cleared_ram_node\<lparr>rn_owner := R, rn_occupied := True\<rparr> else cleared_ram_node)" if "i < 32" for i
    using that by (simp add: ram_node_def f(4) nth_list_update)
  show u: "used R ?t i \<longleftrightarrow> i = 0" for i
    using node [of i] by (cases "i = 0") (auto simp: used_def cleared_ram_node_def)
  have p0: "par R ?t 0 = 0" by (simp add: par_def f(2) new_root_def)
  have cap: "used_capacity (ramfs_nodes (ram_of R ?t)) = 0"
    by (auto simp: f(4) used_capacity_def cleared_ram_node_def in_set_conv_nth nth_list_update)
  have "node_ok R ?t 0"
    using node [of 0] by (simp add: node_ok_def u p0 f(2,4) new_root_def cleared_ram_node_def file_ok_def vfs_node_type_valid_def)
  then have new: "ramfs_ok (ram_operations env) R ?t"
    using cap by (simp add: ramfs_ok_def u f(1,2,4) new_root_def cleared_vfs_node_def rooted_0)
  have len: "length (ramfs_instances (backend s)) = 8" by (rule ram_okD(2) [OF ok])
  have old: "ramfs_ok (ram_operations env) R' ?t" if "R' \<noteq> R" "instance_of s R'" for R'
    by (rule ramfs_ok_cong [OF ram_okD(1) [OF ok that(2)]]) (use that in \<open>simp_all add: f\<close>)
  have notin: "ramfs_instances (backend s) ! i \<noteq> R" if "i < 8" for i
    using R that len by (auto simp: instance_of_def in_set_conv_nth)
  show "ram_ok env ?t"
    unfolding ram_ok_def
  proof (intro conjI allI impI)
    show "length (ramfs_instances (backend ?t)) = 8" using len by (simp add: f(3))
    show "i = j" if "i < 8" "j < 8" "ramfs_instances (backend ?t) ! i \<noteq> 0"
      "ramfs_instances (backend ?t) ! i = ramfs_instances (backend ?t) ! j" for i j
      using that ram_ok_distinct [OF ok, of i j] notin [of i] notin [of j] len
      by (cases "i = slot"; cases "j = slot") (auto simp: f(3))
    fix R' assume "instance_of ?t R'"
    then have "R' = R \<or> instance_of s R'" using set_update_subset_insert by (fastforce simp: instance_of_def f(3))
    then show "ramfs_ok (ram_operations env) R' ?t" using new old by (cases "R' = R") auto
  qed
qed

section \<open>Destroying a file system\<close>

lemma destroy_nodes_others:
  assumes "destroy_nodes env R ks s = (freed, t)"
  shows "filesystem_at t = filesystem_at s \<and> ramfs_instances (backend t) = ramfs_instances (backend s) \<and>
    (\<forall>R'. R' \<noteq> R \<longrightarrow> ram_of R' t = ram_of R' s \<and> (\<forall>i. node_at t (R', i) = node_at s (R', i)))"
  using assms
proof (induction ks arbitrary: s)
  case (Cons k ks)
  obtain f m where f: "(if rn_occupied (ram_node R k s) \<and> rn_data (ram_node R k s) \<noteq> 0 then ram_free env (rn_data (ram_node R k s)) s else (True, s)) =
      (f, with_machine m s)"
    by (cases "rn_occupied (ram_node R k s) \<and> rn_data (ram_node R k s) \<noteq> 0")
      (auto simp: ram_free_run intro: that [of True "ramfs_machine (backend s)"])
  let ?u = "ramfs_node_clear R k (with_machine m s)"
  have u: "filesystem_at ?u = filesystem_at s \<and> ramfs_instances (backend ?u) = ramfs_instances (backend s) \<and>
      (\<forall>R'. R' \<noteq> R \<longrightarrow> ram_of R' ?u = ram_of R' s \<and> (\<forall>i. node_at ?u (R', i) = node_at s (R', i)))"
    by (simp add: ramfs_node_clear_def put_node_def put_ram_node_def put_ram_def ram_of_def with_machine_def)
  have "destroy_nodes env R (k # ks) s = (if \<not> f then (False, with_machine m s) else destroy_nodes env R ks ?u)"
    using f by (simp add: Let_def)
  then consider "t = with_machine m s" | "destroy_nodes env R ks ?u = (freed, t)" using Cons.prems by (auto split: if_splits)
  then show ?case
  proof cases
    case 1
    then show ?thesis by simp
  next
    case 2
    then show ?thesis using Cons.IH [OF 2] u by simp
  qed
qed simp

lemma destroy_filesystem_spec:
  assumes ok: "ram_ok env s" and r: "ramfs_destroy_filesystem env R s = (res, t)" and R: "instance_of s R"
  shows "if \<exists>i. used R s i \<and> node_references (node_at s (R, i)) \<noteq> 0 then res = VFS_BUSY \<and> t = s
    else (res = VFS_OK \<longrightarrow> ram_ok env t \<and> \<not> instance_of t R \<and> (\<forall>R'. R' \<noteq> R \<longrightarrow> (instance_of t R' \<longleftrightarrow> instance_of s R')))"
proof -
  have len: "length (ramfs_instances (backend s)) = 8" by (rule ram_okD(2) [OF ok])
  obtain i where i: "i < 8" "ramfs_instances (backend s) ! i = R" using R len by (auto simp: instance_of_def in_set_conv_nth)
  have R0: "R \<noteq> 0" using R by (simp add: instance_of_def)
  have one: "j = i" if "j < 8" "ramfs_instances (backend s) ! j = R" for j
    using ram_ok_distinct [OF ok, of j i] i R0 that by simp
  have found: "find (\<lambda>i. ramfs_instances (backend s) ! i = R) [0..<8] = Some i"
  proof (cases "find (\<lambda>i. ramfs_instances (backend s) ! i = R) [0..<8]")
    case None
    then show ?thesis using i by (auto simp: find_None_iff)
  next
    case (Some j)
    then show ?thesis using one [of j] find_Some_mem [OF Some] by simp
  qed
  have known: "ramfs_instance_from_pointer R s = R" using R0 found i by (simp add: ramfs_instance_from_pointer_def)
  have busy: "list_ex (\<lambda>i. rn_occupied (ram_node R i s) \<and> node_references (node_at s (R, i)) \<noteq> 0) [0..<32] \<longleftrightarrow>
      (\<exists>i. used R s i \<and> node_references (node_at s (R, i)) \<noteq> 0)" by (auto simp: list_ex_iff used_def)
  show ?thesis
  proof (cases "\<exists>i. used R s i \<and> node_references (node_at s (R, i)) \<noteq> 0")
    case True
    then show ?thesis using r known R0 busy by (simp add: ramfs_destroy_filesystem_def)
  next
    case False
    obtain freed u where u: "destroy_nodes env R [0..<32] s = (freed, u)" by force
    note o = destroy_nodes_others [OF u]
    define v where "v = put_ram R ((ram_of R u)\<lparr>ramfs_next_node_id := 0, ramfs_registered := False\<rparr>)
      (put_filesystem R \<lparr>fs_id = 0, fs_operations = 0, fs_root = None, fs_backend = 0, fs_valid = False\<rparr> u)"
    define w where "w = v\<lparr>backend := (backend v)\<lparr>ramfs_instances := (ramfs_instances (backend v))[i := 0]\<rparr>\<rparr>"
    have vi: "ramfs_instances (backend v) = ramfs_instances (backend s)" using o by (simp add: v_def put_ram_def put_filesystem_def)
    have ru: "ram_of R (put_filesystem R x u) = ram_of R u" for x by (simp add: ram_of_def put_filesystem_def)
    have run: "ramfs_destroy_filesystem env R s = (if \<not> freed then (VFS_CORRUPT, u)
        else (if fst (ram_free env R w) then VFS_OK else VFS_CORRUPT, snd (ram_free env R w)))"
      using known R0 busy False u found vi
      by (simp add: ramfs_destroy_filesystem_def Let_def v_def [symmetric] ru w_def split: prod.split)
    have t: "res = VFS_OK \<Longrightarrow> \<exists>m. t = with_machine m w" using run r by (auto simp: ram_free_run split: if_splits)
    have wi: "ramfs_instances (backend w) = (ramfs_instances (backend s))[i := 0]" by (simp add: w_def vi)
    have "0 \<noteq> R" using R0 by simp
    have gone: "instance_of w R' \<longleftrightarrow> R' \<noteq> R \<and> instance_of s R'" for R'
    proof -
      have "R' \<in> set ((ramfs_instances (backend s))[i := 0]) \<longleftrightarrow> (\<exists>j<8. (if j = i then 0 else ramfs_instances (backend s) ! j) = R')"
        using len i(1) by (auto simp: in_set_conv_nth nth_list_update)
      moreover have "R' \<in> set (ramfs_instances (backend s)) \<longleftrightarrow> (\<exists>j<8. ramfs_instances (backend s) ! j = R')"
        using len by (auto simp: in_set_conv_nth)
      ultimately show ?thesis using i one unfolding instance_of_def wi by metis
    qed
    have "ram_ok env w"
      unfolding ram_ok_def
    proof (intro conjI allI impI)
      show "length (ramfs_instances (backend w)) = 8" using len by (simp add: wi)
      show "a = b" if "a < 8" "b < 8" "ramfs_instances (backend w) ! a \<noteq> 0"
        "ramfs_instances (backend w) ! a = ramfs_instances (backend w) ! b" for a b
        using that ram_ok_distinct [OF ok, of a b] len by (cases "a = i"; cases "b = i") (auto simp: wi)
      fix R' assume "instance_of w R'"
      then have R': "R' \<noteq> R" "instance_of s R'" using gone by blast+
      show "ramfs_ok (ram_operations env) R' w"
        by (rule ramfs_ok_cong [OF ram_okD(1) [OF ok R'(2)]])
          (use o R'(1) in \<open>simp_all add: w_def v_def put_ram_def put_filesystem_def ram_of_def\<close>)
    qed
    then have "res = VFS_OK \<longrightarrow> ram_ok env t \<and> \<not> instance_of t R \<and> (\<forall>R'. R' \<noteq> R \<longrightarrow> (instance_of t R' \<longleftrightarrow> instance_of s R'))"
      using t gone machine_step by (fastforce simp: instance_of_def)
    then show ?thesis unfolding if_not_P [OF False] .
  qed
qed

section \<open>Starting and shutting down the layer\<close>

definition fresh_client :: "'b vfs_world \<Rightarrow> 'b vfs_client" where
  "fresh_client s = \<lparr>client_world = s, client_paths = [], client_handles = []\<rparr>"

lemma init_spec:
  assumes r: "vfs_init R s = (VFS_OK, t)" and refs: "\<And>n. node_references (node_at s n) = 0"
  shows "client_inv (fresh_client t)" "touched s t"
proof -
  have v: "\<not> vfs_initialized s" "vfs_filesystem_valid R s" using r by (auto simp: vfs_init_def split: if_splits)
  then obtain n where n: "fs_root (filesystem_at s R) = Some n" "node_valid (node_at s n)"
    using valid_node unfolding vfs_filesystem_valid_def Let_def by blast
  define m where "m = \<lparr>mount_id = 1, mount_filesystem = R, mount_parent = None, mount_point = None, mount_active = True\<rparr>"
  define u where "u = s\<lparr>vfs_mounts := (replicate 8 vfs_mount_clear)[0 := m], vfs_next_mount_id := 2, vfs_path_reference_count := 0,
    vfs_open_handle_count := 0, vfs_initialized := True\<rparr>"
  have retain: "vfs_node_retain (Some n) u = (VFS_OK, put_node n ((node_at s n)\<lparr>node_references := 1\<rparr>) u)"
    using n refs by (simp add: vfs_node_retain_def u_def put_node_def)
  have root: "fs_root (filesystem_at u R) = Some n" using n(1) by (simp add: u_def)
  have t: "t = put_node n ((node_at s n)\<lparr>node_references := 1\<rparr>) u"
    using r v root retain by (simp add: vfs_init_def Let_def u_def [symmetric] m_def [symmetric])
  show tou: "touched s t"
    using n(2) by (auto simp: t touched_def u_def put_node_def)
  have mounts: "vfs_mounts t ! i = (if i = 0 then m else vfs_mount_clear)" "length (vfs_mounts t) = 8" if "i < 8" for i
    using that by (simp_all add: t u_def put_node_def nth_list_update)
  have f: "vfs_initialized t" "vfs_next_mount_id t = 2" "vfs_path_reference_count t = 0" "vfs_open_handle_count t = 0"
    "filesystem_at t = filesystem_at s" by (simp_all add: t u_def put_node_def)
  have off: "\<not> mount_active vfs_mount_clear" by (simp add: vfs_mount_clear_def)
  have refs': "mount_references t k = of_bool (k = n)" for k
  proof -
    have "vfs_mounts t = m # replicate 7 vfs_mount_clear" by (simp add: t u_def put_node_def numeral_eq_Suc)
    then show ?thesis using n(1) off by (auto simp: mount_references_def mount_uses_def f(5) m_def sum_list_replicate)
  qed
  have "vfs_inv {#} t"
    unfolding vfs_inv_def mounts_wf_def
  proof (intro conjI allI impI)
    show "unat (node_references (node_at t k)) = held {#} k + mount_references t k" for k
    proof -
      have "unat (node_references (node_at t k)) = of_bool (k = n)" using refs by (simp add: t put_node_def u_def)
      then show ?thesis by (simp add: refs')
    qed
    show "vfs_mount_valid (Some i) t" if "i < 8" "mount_active (vfs_mounts t ! i)" for i
      using that mounts(1) [of i] off v(2) touched_valid(2) [OF tou] f by (auto simp: vfs_mount_valid_def m_def split: if_splits)
    show "node_valid (node_at t k)" if "i < 8" "mount_active (vfs_mounts t ! i)" "mount_point (vfs_mounts t ! i) = Some k" for i k
      using that mounts(1) [of i] off by (auto simp: m_def split: if_splits)
  qed (use mounts [of 0] f in \<open>simp_all add: m_def\<close>)
  then show "client_inv (fresh_client t)"
    using f by (intro client_invI) (simp_all add: fresh_client_def client_refs_def)
qed

lemma shutdown_spec:
  assumes inv: "client_inv c"
  shows "\<exists>t. vfs_shutdown (client_world c) = (if client_paths c = [] \<and> client_handles c = [] then VFS_OK else VFS_BUSY, t) \<and>
    (if client_paths c = [] \<and> client_handles c = [] then \<not> vfs_initialized t \<and> touched (client_world c) t \<and> (\<forall>n. node_references (node_at t n) = 0)
     else t = client_world c)"
proof -
  let ?s = "client_world c"
  have vi: "vfs_inv (client_refs c) ?s" and oc: "unat (vfs_open_handle_count ?s) = length (client_handles c)"
    using inv by (simp_all add: client_inv_def)
  have w: "mounts_wf ?s" by (rule vfs_invD(1) [OF vi])
  have pc: "unat (vfs_path_reference_count ?s) = length (client_paths c) + length (client_handles c)"
    using vfs_invD(3) [OF vi] by (simp add: client_refs_def)
  have zero: "vfs_path_reference_count ?s \<noteq> 0 \<or> vfs_open_handle_count ?s \<noteq> 0 \<longleftrightarrow> \<not> (client_paths c = [] \<and> client_handles c = [])"
    using pc oc by (auto simp: unat_eq_zero [symmetric])
  have init: "vfs_initialized ?s" using w by (simp add: mounts_wf_def)
  show ?thesis
  proof (cases "client_paths c = [] \<and> client_handles c = []")
    case False
    then show ?thesis using zero init by (auto simp: vfs_shutdown_def)
  next
    case True
    then have none: "client_refs c = {#}" by (simp add: client_refs_def)
    have "\<exists>t. shutdown_mounts 8 ?s = (VFS_OK, t) \<and> touched ?s t \<and>
        vfs_path_reference_count t = vfs_path_reference_count ?s \<and> vfs_open_handle_count t = vfs_open_handle_count ?s \<and>
        (\<forall>n. node_references (node_at t n) = 0)"
    proof (rule shutdown_mounts_spec)
      show "length (vfs_mounts ?s) = 8" using w by (simp add: mounts_wf_def)
      show "vfs_filesystem_valid (mount_filesystem (vfs_mounts ?s ! i)) ?s \<and>
          (\<forall>n. mount_point (vfs_mounts ?s ! i) = Some n \<longrightarrow> node_valid (node_at ?s n))"
        if "i < 8" "mount_active (vfs_mounts ?s ! i)" for i
        using w that unfolding mounts_wf_def vfs_mount_valid_def by auto
      show "unat (node_references (node_at ?s n)) = mount_references ?s n" for n using vfs_invD(4) [OF vi, of n] none by simp
    qed simp_all
    then obtain t where t: "shutdown_mounts 8 ?s = (VFS_OK, t)" "touched ?s t" "\<forall>n. node_references (node_at t n) = 0" by blast
    have "vfs_shutdown ?s = (VFS_OK, t\<lparr>vfs_initialized := False, vfs_next_mount_id := 0\<rparr>)"
      using zero True init t(1) by (simp add: vfs_shutdown_def)
    then show ?thesis using True t by (auto simp: touched_def)
  qed
qed

section \<open>Runs of a client\<close>

text \<open>A run stops being one when a call names a path or a handle the client does not hold.\<close>

fun vfs_run :: "(u64 \<Rightarrow> 'b vfs_operations) \<Rightarrow> vfs_call list \<Rightarrow> 'b vfs_client \<Rightarrow> 'b vfs_client option" where
  "vfs_run ops [] c = Some c"
| "vfs_run ops (call # calls) c = (if call_ok call c then vfs_run ops calls (snd (vfs_call_do ops call c)) else None)"

lemma run_spec:
  assumes "client_inv c" "ram_ok env (client_world c)" "vfs_run (ram_tables env) calls c = Some d"
  shows "client_inv d \<and> ram_ok env (client_world d)"
  using assms
proof (induction calls arbitrary: c)
  case (Cons call calls)
  obtain res e where e: "vfs_call_do (ram_tables env) call c = (res, e)" by force
  have ok: "call_ok call c" using Cons.prems(3) by (simp split: if_splits)
  from ramfs.call_spec [OF Cons.prems(1,2) ok e] show ?case using Cons.IH [of e] Cons.prems(3) ok e by simp
qed simp

lemma started_run:
  assumes "ram_ok env s" "\<And>n. node_references (node_at s n) = 0" "vfs_init R s = (VFS_OK, t)"
    "vfs_run (ram_tables env) calls (fresh_client t) = Some c"
  shows "client_inv c" "ram_ok env (client_world c)"
proof -
  note i = init_spec [OF assms(3,2)]
  have "ram_ok env (client_world (fresh_client t))" using touched_ram_ok [OF assms(1) i(2)] by (simp add: fresh_client_def)
  then show "client_inv c" "ram_ok env (client_world c)" using run_spec [OF i(1) _ assms(4)] by blast+
qed

end
