(* ===== verification/RamfsDirs.thy ===== *)
theory RamfsDirs
  imports RamfsBackend
begin

text \<open>
  The directories of a file system of kernel/core/ramfs.c as one finite map from a
  directory and a name to a node, and what each operation does to it.
\<close>

definition dir_map :: "u64 \<Rightarrow> 'm ram_world \<Rightarrow> nat \<times> u8 list \<Rightarrow> nat option" where
  "dir_map R s = (\<lambda>(d, name). if length name \<le> VFS_NAME_MAX then ramfs_find_child R d name s else None)"

lemma name_of_length:
  assumes "ramfs_ok table R s" "used R s i" "i \<noteq> 0"
  shows "length (name_of (ram_node R i s)) \<le> 255"
  using node_okD(3) [OF ramfs_okD(6) [OF assms(1,2)] assms(3)] by (auto simp: entry_name_ok_def name_of_def intro: min.coboundedI2)

lemma dir_map_Some:
  assumes ok: "ramfs_ok table R s"
  shows "dir_map R s (d, name) = Some i \<longleftrightarrow> used R s i \<and> i \<noteq> 0 \<and> par R s i = d \<and> name_of (ram_node R i s) = name"
  using find_child_eq [OF ok, of name d i] name_of_length [OF ok, of i] by (auto simp: dir_map_def)

lemma map_eqI: "(\<And>d name i. m (d, name) = Some i \<longleftrightarrow> m' (d, name) = Some i) \<Longrightarrow> m = m'"
  by (rule ext) (metis not_None_eq prod.exhaust)

lemma created_map:
  assumes rok: "ramfs_ok table R s" and t: "ramfs_ok table R (created R k d name type s)"
    and name: "ramfs_validate_name name = VFS_OK" and k: "ramfs_find_free_node R s = Some k"
  shows "dir_map R (created R k d name type s) = (dir_map R s)((d, name) \<mapsto> k)"
proof (rule map_eqI)
  fix e n i
  let ?t = "created R k d name type s"
  note fk = free_node_Some [OF k]
  note fn = fresh_name [OF name]
  have node: "ram_node R j ?t = (if j = k then fresh_ram_node R name else ram_node R j s)" for j
    using fk ramfs_okD(2) [OF rok] by (simp add: ram_node_def created_def put_ram_def put_node_def ram_of_def nth_list_update)
  have occ: "rn_occupied (fresh_ram_node R name)" by (simp add: fresh_ram_node_def)
  have u: "used R ?t j \<longleftrightarrow> used R s j \<or> j = k" for j using fk by (auto simp: used_def node occ)
  have p: "par R ?t j = (if j = k then d else par R s j)" for j
    by (simp add: par_def created_def put_ram_def put_node_def fresh_vfs_node_def)
  show "dir_map R ?t (e, n) = Some i \<longleftrightarrow> ((dir_map R s)((d, name) \<mapsto> k)) (e, n) = Some i"
  proof (cases "(e, n) = (d, name)")
    case True
    have kt: "dir_map R ?t (d, name) = Some k" using dir_map_Some [OF t] fk u p node fn(1) by simp
    then show ?thesis using True by auto
  next
    case False
    then show ?thesis using dir_map_Some [OF t, of e n i] dir_map_Some [OF rok, of e n i] fk u p node fn(1) by auto
  qed
qed

lemma removed_map:
  assumes rok: "ramfs_ok table R s" and t: "ramfs_ok table R (ramfs_node_clear R k (with_machine m s))" and k: "used R s k" "k \<noteq> 0"
  shows "dir_map R (ramfs_node_clear R k (with_machine m s)) = (dir_map R s)((par R s k, name_of (ram_node R k s)) := None)"
proof (rule map_eqI)
  fix e n i
  let ?t = "ramfs_node_clear R k (with_machine m s)" and ?x = "(par R s k, name_of (ram_node R k s))"
  have node: "ram_node R j ?t = (if j = k then cleared_ram_node else ram_node R j s)" for j
    using k ramfs_okD(2) [OF rok]
    by (simp add: used_def ram_node_def ramfs_node_clear_def put_node_def with_machine_def put_ram_node_def put_ram_def ram_of_def nth_list_update)
  have u: "used R ?t j \<longleftrightarrow> used R s j \<and> j \<noteq> k" for j by (auto simp: used_def node cleared_ram_node_def)
  have p: "j \<noteq> k \<Longrightarrow> par R ?t j = par R s j" for j
    by (simp add: par_def ramfs_node_clear_def put_node_def put_ram_node_def put_ram_def with_machine_def)
  have xk: "dir_map R s ?x = Some k" using dir_map_Some [OF rok] k by simp
  show "dir_map R ?t (e, n) = Some i \<longleftrightarrow> ((dir_map R s)(?x := None)) (e, n) = Some i"
  proof (cases "i = k")
    case True
    then show ?thesis using dir_map_Some [OF t, of e n i] dir_map_Some [OF rok, of e n i] u by auto
  next
    case False
    then have "(e, n) = ?x \<Longrightarrow> dir_map R s (e, n) \<noteq> Some i" using xk by auto
    then show ?thesis using False dir_map_Some [OF t, of e n i] dir_map_Some [OF rok, of e n i] u p node by auto
  qed
qed

lemma renamed_map:
  assumes rok: "ramfs_ok table R s" and t: "ramfs_ok table R (renamed R k d name s)" and k: "used R s k" "k \<noteq> 0"
    and name: "ramfs_validate_name name = VFS_OK"
  shows "dir_map R (renamed R k d name s) = ((dir_map R s)((par R s k, name_of (ram_node R k s)) := None))((d, name) \<mapsto> k)"
proof (rule map_eqI)
  fix e n i
  let ?t = "renamed R k d name s" and ?x = "(par R s k, name_of (ram_node R k s))"
  have l: "length name \<le> 255" using validate_name_length [OF name] by simp
  have ul: "unat (word_of_nat (length name) :: u64) = length name" using l by (simp add: unat_of_nat)
  have node: "j \<noteq> k \<Longrightarrow> ram_node R j ?t = ram_node R j s" for j
    by (simp add: ram_node_def renamed_def put_node_def put_ram_node_def put_ram_def ram_of_def)
  have nk: "name_of (ram_node R k ?t) = name"
  proof -
    have "ram_node R k ?t = (ram_node R k s)\<lparr>rn_name := write_cells 0 (\<lambda>k. name ! k) (length name) (write_cells 0 (\<lambda>_. 0) 256 (rn_name (ram_node R k s))),
       rn_name_length := word_of_nat (length name)\<rparr>"
      using k ramfs_okD(2) [OF rok]
      by (simp add: used_def ram_node_def renamed_def put_node_def put_ram_node_def put_ram_def ram_of_def)
    then show ?thesis using l node_okD(2) [OF ramfs_okD(6) [OF rok k(1)]]
      by (intro nth_equalityI) (simp_all add: name_of_def ul nth_write_cells min_def)
  qed
  have occ: "rn_occupied (ram_node R k ?t) = rn_occupied (ram_node R k s)"
    using k ramfs_okD(2) [OF rok]
    by (simp add: used_def ram_node_def renamed_def put_node_def put_ram_node_def put_ram_def ram_of_def)
  have u: "used R ?t j \<longleftrightarrow> used R s j" for j using node [of j] occ by (cases "j = k") (simp_all add: used_def)
  have p: "par R ?t j = (if j = k then d else par R s j)" for j
    by (simp add: par_def renamed_def put_node_def)
  have xk: "dir_map R s ?x = Some k" using dir_map_Some [OF rok] k by simp
  have yk: "dir_map R ?t (d, name) = Some k" using dir_map_Some [OF t] k u p nk by simp
  show "dir_map R ?t (e, n) = Some i \<longleftrightarrow> (((dir_map R s)(?x := None))((d, name) \<mapsto> k)) (e, n) = Some i"
  proof (cases "(e, n) = (d, name)")
    case True
    then show ?thesis using yk by auto
  next
    case ne: False
    show ?thesis
    proof (cases "i = k")
      case True
      then show ?thesis using ne dir_map_Some [OF t, of e n i] dir_map_Some [OF rok, of e n i] p nk by auto
    next
      case False
      then have "(e, n) = ?x \<Longrightarrow> dir_map R s (e, n) \<noteq> Some i" using xk by auto
      then show ?thesis using ne False dir_map_Some [OF t, of e n i] dir_map_Some [OF rok, of e n i] u p node by auto
    qed
  qed
qed

lemma machine_map [simp]: "dir_map R (with_machine m s) = dir_map R s"
  by (simp add: dir_map_def fun_eq_iff ramfs_find_child_def is_child_def)

end
