(* ===== verification/RamfsProps.thy ===== *)
theory RamfsProps
  imports RamfsLife RamfsDirs
begin

text \<open>
  The properties of kernel/core/vfs.c over a kernel whose file systems are those of
  kernel/core/ramfs.c, and of kernel/core/ramfs.c itself.
\<close>

section \<open>A small kernel\<close>

text \<open>A heap that never reuses memory, and a kernel where nothing is mounted yet.\<close>

definition ram_sample :: "u64 ramfs_env" where
  "ram_sample = \<lparr>ram_kmalloc = (\<lambda>n m. (m, m + 65536)), ram_kfree = (\<lambda>a m. (True, m)), ram_operations = 8\<rparr>"

definition ram_empty :: "u64 ram_world" where
  "ram_empty = \<lparr>filesystem_at = (\<lambda>_. \<lparr>fs_id = 0, fs_operations = 0, fs_root = None, fs_backend = 0, fs_valid = False\<rparr>),
     node_at = (\<lambda>_. cleared_vfs_node), vfs_mounts = replicate 8 vfs_mount_clear, vfs_initialized = False,
     vfs_next_mount_id = 0, vfs_path_reference_count = 0, vfs_open_handle_count = 0,
     backend = \<lparr>ramfs_instances = replicate 8 0,
       ramfs_at = (\<lambda>_. \<lparr>ramfs_nodes = [], ramfs_next_node_id = 0, ramfs_registered = False\<rparr>), ramfs_machine = 65536\<rparr>\<rparr>"

definition ram_made :: "u64 ram_world" where
  "ram_made = snd (ramfs_create_filesystem ram_sample 7 ram_empty)"

lemma ram_empty_ok: "ram_ok ram_sample ram_empty" "\<not> instance_of ram_empty R"
  by (auto simp: ram_ok_def ram_empty_def instance_of_def)

lemma ram_made_run: "ramfs_create_filesystem ram_sample 7 ram_empty = ((VFS_OK, 65536), made ram_sample 7 65536 0 (with_machine 131072 ram_empty))"
proof -
  have "registry_slot 7 [0..<8] 8 ram_empty = Some 0" by (simp add: ram_empty_def upt_rec)
  moreover have "ramfs_machine (backend ram_empty) = 65536" by (simp add: ram_empty_def)
  ultimately show ?thesis by (subst create_filesystem_run) (simp_all add: ram_sample_def)
qed

lemma ram_made_eq: "ram_made = made ram_sample 7 65536 0 (with_machine 131072 ram_empty)"
  by (simp add: ram_made_def ram_made_run)

lemma ram_made_ok: "ram_ok ram_sample ram_made" "used 65536 ram_made i \<longleftrightarrow> i = 0" "instance_of ram_made 65536"
  "node_references (node_at ram_made n) = 0" "vfs_init 65536 ram_made = (VFS_OK, snd (vfs_init 65536 ram_made))"
proof -
  let ?s = "with_machine 131072 ram_empty"
  have s: "ram_ok ram_sample ?s" "\<not> instance_of ?s 65536" using machine_step [OF ram_empty_ok(1)] ram_empty_ok(2) [of 65536] by (simp_all add: instance_of_def)
  have z: "ramfs_instances (backend ?s) ! 0 = 0" by (simp add: ram_empty_def)
  show "ram_ok ram_sample ram_made" "used 65536 ram_made i \<longleftrightarrow> i = 0"
    unfolding ram_made_eq by (rule made_ok [OF s(1) _ s(2) _ z]; simp)+
  show "instance_of ram_made 65536" by (simp add: ram_made_eq instance_of_def made_fields ram_empty_def set_update_memI)
  show "node_references (node_at ram_made n) = 0"
    by (simp add: ram_made_eq made_fields new_root_def cleared_vfs_node_def) (simp add: ram_empty_def cleared_vfs_node_def)
  have "vfs_filesystem_valid 65536 ram_made" "\<not> vfs_initialized ram_made"
    by (simp_all add: ram_made_eq vfs_filesystem_valid_def made_fields vfs_node_valid_for_filesystem_def new_root_def ram_sample_def
        vfs_node_type_valid_def) (simp add: made_def with_machine_def ram_empty_def)
  moreover have "fs_root (filesystem_at ram_made 65536) = Some (65536, 0)" "node_at ram_made (65536, 0) = new_root 65536"
    by (simp_all add: ram_made_eq made_fields)
  ultimately show "vfs_init 65536 ram_made = (VFS_OK, snd (vfs_init 65536 ram_made))"
    by (simp add: vfs_init_def Let_def vfs_node_retain_def new_root_def)
qed

section \<open>References\<close>

text \<open>C22: Over any run of a client from the start of the layer, the reference count of every
  node is exactly the number of paths and open handles the client holds to it and of mounts
  that use it; the two counters of the layer are exact; every path and handle held stays
  valid, so nothing a client uses is removed; and it can always be given back.\<close>

theorem vfs_references_exact:
  assumes "ram_ok env s" and "\<And>n. node_references (node_at s n) = 0" and "vfs_init R s = (VFS_OK, t)"
    and "vfs_run (ram_tables env) calls (fresh_client t) = Some c"
  shows "let w = client_world c; paths = client_paths c; handles = client_handles c in
    (\<forall>n. unat (node_references (node_at w n)) = length (filter (\<lambda>p. path_node p = Some n) paths) +
       length (filter (\<lambda>h. path_node (handle_path h) = Some n) handles) + mount_references w n) \<and>
    unat (vfs_path_reference_count w) = length paths + length handles \<and> unat (vfs_open_handle_count w) = length handles \<and>
    (\<forall>p \<in> set paths. vfs_path_valid p w \<and> fst (vfs_path_release p w) = (VFS_OK, null_path)) \<and>
    (\<forall>h \<in> set handles. vfs_handle_valid h w \<and> fst (vfs_handle_close h w) = (VFS_OK, null_handle))"
proof -
  let ?w = "client_world c" and ?P = "client_refs c"
  note run = started_run [OF assms]
  have inv: "vfs_inv ?P ?w" and oc: "unat (vfs_open_handle_count ?w) = length (client_handles c)"
    and hv: "\<And>h. h \<in> set (client_handles c) \<Longrightarrow> vfs_handle_valid h ?w" using run(1) by (simp_all add: client_inv_def)
  have held_eq: "held ?P n = length (filter (\<lambda>p. path_node p = Some n) (client_paths c)) +
      length (filter (\<lambda>h. path_node (handle_path h) = Some n) (client_handles c))" for n
    by (simp add: held_def client_refs_def mset_map [symmetric] count_mset count_list_eq_length_filter filter_map comp_def eq_commute del: mset_map)
  have release: "fst (vfs_path_release p ?w) = (VFS_OK, null_path)" if p: "p \<in># ?P" for p
  proof -
    obtain Q where q: "?P = add_mset p Q" using multi_member_split [OF p] by blast
    obtain res p' u where "vfs_path_release p ?w = ((res, p'), u)" by (metis prod.exhaust)
    then show ?thesis using release_spec [of p Q ?w] inv q by simp
  qed
  have close: "fst (vfs_handle_close h ?w) = (VFS_OK, null_handle)" if h: "h \<in> set (client_handles c)" for h
  proof -
    have "handle_path h \<in># ?P" using h by (simp add: client_refs_def)
    then have "fst (vfs_path_release (handle_path h) ?w) = (VFS_OK, null_path)" by (rule release)
    moreover have "vfs_open_handle_count ?w \<noteq> 0" using oc h by auto
    ultimately show ?thesis using hv [OF h] by (auto simp: vfs_handle_close_def null_handle_def split: prod.split)
  qed
  show ?thesis
    unfolding Let_def
    using vfs_invD [OF inv] held_eq oc hv release close by (auto simp: client_refs_def)
qed

theorem vfs_references_exact_witness:
  "\<exists>c. vfs_run (ram_tables ram_sample) [Get_root] (fresh_client (snd (vfs_init 65536 ram_made))) = Some c \<and>
    unat (vfs_path_reference_count (client_world c)) = length (client_paths c) + length (client_handles c)"
proof -
  have run: "vfs_run (ram_tables ram_sample) [Get_root] (fresh_client (snd (vfs_init 65536 ram_made))) =
      Some (snd (vfs_call_do (ram_tables ram_sample) Get_root (fresh_client (snd (vfs_init 65536 ram_made)))))"
    by (simp add: call_ok_def)
  show ?thesis using vfs_references_exact [OF ram_made_ok(1,4,5) run] run by (auto simp: Let_def)
qed

text \<open>C23: A layer that was started and used by a client shuts down exactly when the client
  has given everything back, then leaving every node without a reference; before that it is
  busy and nothing changes.\<close>

theorem vfs_shutdown_exact:
  assumes "ram_ok env s" and "\<And>n. node_references (node_at s n) = 0" and "vfs_init R s = (VFS_OK, t)"
    and "vfs_run (ram_tables env) calls (fresh_client t) = Some c"
  shows "\<exists>u. vfs_shutdown (client_world c) = (if client_paths c = [] \<and> client_handles c = [] then VFS_OK else VFS_BUSY, u) \<and>
    (if client_paths c = [] \<and> client_handles c = []
     then \<not> vfs_initialized u \<and> (\<forall>n. node_references (node_at u n) = 0) \<and> ram_ok env u
     else u = client_world c)"
proof -
  note run = started_run [OF assms]
  obtain u where u: "vfs_shutdown (client_world c) = (if client_paths c = [] \<and> client_handles c = [] then VFS_OK else VFS_BUSY, u)"
    "if client_paths c = [] \<and> client_handles c = [] then \<not> vfs_initialized u \<and> touched (client_world c) u \<and> (\<forall>n. node_references (node_at u n) = 0)
     else u = client_world c" using shutdown_spec [OF run(1)] by blast
  then show ?thesis using touched_ram_ok [OF run(2)] by (intro exI [of _ u]) auto
qed

theorem vfs_shutdown_exact_witness:
  "\<exists>u. vfs_shutdown (client_world (fresh_client (snd (vfs_init 65536 ram_made)))) = (VFS_OK, u)"
  using vfs_shutdown_exact [OF ram_made_ok(1,4,5), of "[]"] by (auto simp: fresh_client_def)

section \<open>File systems\<close>

text \<open>A file system is created exactly when its identifier is not 0 and not taken, the
  registry has a place and the heap has memory; it then holds its root directory alone,
  with no references, and can be mounted. It is destroyed only while nothing of it is
  referenced, and then the others are left. Both keep every file system consistent.\<close>

theorem ramfs_life_cycle:
  assumes ok: "ram_ok env s" and table: "ram_operations env \<noteq> 0"
    and fresh: "\<And>m. \<not> instance_of s (fst (ram_kmalloc env 11320 m))"
    and create: "ramfs_create_filesystem env ident s = ((res, R), t)"
    and destroy: "ramfs_destroy_filesystem env Q s = (res', t')"
  shows "(res = VFS_OK \<longleftrightarrow> ident \<noteq> 0 \<and> (\<forall>Q. instance_of s Q \<longrightarrow> fs_id (filesystem_at s Q) \<noteq> ident) \<and>
      0 \<in> set (ramfs_instances (backend s)) \<and> fst (ram_kmalloc env 11320 (ramfs_machine (backend s))) \<noteq> 0) \<and>
    (res = VFS_OK \<longrightarrow> ram_ok env t \<and> instance_of t R \<and> vfs_filesystem_valid R t \<and> (\<forall>i. used R t i \<longleftrightarrow> i = 0) \<and>
      (\<forall>i<32. node_references (node_at t (R, i)) = 0)) \<and>
    (res \<noteq> VFS_OK \<longrightarrow> (\<exists>m. t = with_machine m s)) \<and>
    (instance_of s Q \<longrightarrow> (if \<exists>i. used Q s i \<and> node_references (node_at s (Q, i)) \<noteq> 0 then res' = VFS_BUSY \<and> t' = s
      else (res' = VFS_OK \<longrightarrow> ram_ok env t' \<and> \<not> instance_of t' Q \<and> (\<forall>Q'. Q' \<noteq> Q \<longrightarrow> (instance_of t' Q' \<longleftrightarrow> instance_of s Q')))))"
proof (intro conjI)
  have len: "length (ramfs_instances (backend s)) = 8" by (rule ram_okD(2) [OF ok])
  obtain a m where k: "ram_kmalloc env 11320 (ramfs_machine (backend s)) = (a, m)" by force
  have same: "\<exists>m. s = with_machine m s" by (rule exI [of _ "ramfs_machine (backend s)"]) simp
  note slot = registry_slot_spec [of "[0..<8]" 8 s ident, simplified]
  have inst: "instance_of s Q \<longleftrightarrow> Q \<noteq> 0 \<and> (\<exists>i<8. ramfs_instances (backend s) ! i = Q)" for Q
    using len by (auto simp: instance_of_def in_set_conv_nth)
  have free: "0 \<in> set (ramfs_instances (backend s)) \<longleftrightarrow> (\<exists>i<8. ramfs_instances (backend s) ! i = 0)"
    using len by (auto simp: in_set_conv_nth)
  note run = create_filesystem_run [OF table, of ident s]
  consider "ident = 0" | "ident \<noteq> 0" "registry_slot ident [0..<8] 8 s = None" | "ident \<noteq> 0" "registry_slot ident [0..<8] 8 s = Some 8"
    | j where "ident \<noteq> 0" "registry_slot ident [0..<8] 8 s = Some j" "j \<noteq> 8" by (cases "registry_slot ident [0..<8] 8 s") auto
  then have all: "(res = VFS_OK \<longleftrightarrow> ident \<noteq> 0 \<and> (\<forall>Q. instance_of s Q \<longrightarrow> fs_id (filesystem_at s Q) \<noteq> ident) \<and>
      0 \<in> set (ramfs_instances (backend s)) \<and> a \<noteq> 0) \<and>
    (res = VFS_OK \<longrightarrow> ram_ok env t \<and> instance_of t R \<and> vfs_filesystem_valid R t \<and> (\<forall>i. used R t i \<longleftrightarrow> i = 0) \<and>
      (\<forall>i<32. node_references (node_at t (R, i)) = 0)) \<and>
    (res \<noteq> VFS_OK \<longrightarrow> (\<exists>m. t = with_machine m s))"
  proof cases
    case 1
    then have "res \<noteq> VFS_OK" "t = s" using create run by simp_all
    then show ?thesis using 1 same by simp
  next
    case 2
    then obtain i where i: "i < 8" "ramfs_instances (backend s) ! i \<noteq> 0" "fs_id (filesystem_at s (ramfs_instances (backend s) ! i)) = ident"
      using slot by auto
    then have "\<not> (\<forall>Q. instance_of s Q \<longrightarrow> fs_id (filesystem_at s Q) \<noteq> ident)" using inst by blast
    moreover have "res \<noteq> VFS_OK" "t = s" using create run 2 by auto
    ultimately show ?thesis using same by simp
  next
    case 3
    then have "0 \<notin> set (ramfs_instances (backend s))" using slot free by auto
    moreover have "res \<noteq> VFS_OK" "t = s" using create run 3 by auto
    ultimately show ?thesis using same by simp
  next
    case 4
    then have j: "j < 8" "ramfs_instances (backend s) ! j = 0"
      "\<And>i. i < 8 \<Longrightarrow> ramfs_instances (backend s) ! i \<noteq> 0 \<Longrightarrow> fs_id (filesystem_at s (ramfs_instances (backend s) ! i)) \<noteq> ident"
      using slot by auto
    have ids: "\<forall>Q. instance_of s Q \<longrightarrow> fs_id (filesystem_at s Q) \<noteq> ident"
    proof (intro allI impI)
      fix Q assume "instance_of s Q"
      then obtain i where "i < 8" "ramfs_instances (backend s) ! i = Q" "Q \<noteq> 0" using inst [of Q] by blast
      then show "fs_id (filesystem_at s Q) \<noteq> ident" using j(3) [of i] by simp
    qed
    have place: "0 \<in> set (ramfs_instances (backend s))" using j free by blast
    show ?thesis
    proof (cases "a = 0")
      case True
      then show ?thesis using create run 4 k by auto
    next
      case False
      then have e: "res = VFS_OK" "R = a" "t = made env ident a j (with_machine m s)" using create run 4 k by auto
      have m: "ram_ok env (with_machine m s)" "\<not> instance_of (with_machine m s) a" "ramfs_instances (backend (with_machine m s)) ! j = 0"
        using machine_step [OF ok, of m] fresh [of "ramfs_machine (backend s)"] k j by (simp_all add: instance_of_def)
      have "instance_of t R" using False j len by (simp add: e made_fields instance_of_def set_update_memI)
      moreover have "vfs_filesystem_valid R t"
        using False 4 table by (simp add: e made_fields vfs_filesystem_valid_def vfs_node_valid_for_filesystem_def new_root_def vfs_node_type_valid_def)
      moreover have "\<forall>i<32. node_references (node_at t (R, i)) = 0" by (simp add: e made_fields new_root_def cleared_vfs_node_def)
      ultimately show ?thesis
        using made_ok [OF m(1) False m(2) j(1) m(3)] e ids place 4(1) False by auto
    qed
  qed
  show "(res = VFS_OK \<longleftrightarrow> ident \<noteq> 0 \<and> (\<forall>Q. instance_of s Q \<longrightarrow> fs_id (filesystem_at s Q) \<noteq> ident) \<and>
      0 \<in> set (ramfs_instances (backend s)) \<and> fst (ram_kmalloc env 11320 (ramfs_machine (backend s))) \<noteq> 0)"
    using all [THEN conjunct1] unfolding k fst_conv .
  show "res = VFS_OK \<longrightarrow> ram_ok env t \<and> instance_of t R \<and> vfs_filesystem_valid R t \<and> (\<forall>i. used R t i \<longleftrightarrow> i = 0) \<and>
      (\<forall>i<32. node_references (node_at t (R, i)) = 0)"
    by (rule all [THEN conjunct2, THEN conjunct1])
  show "res \<noteq> VFS_OK \<longrightarrow> (\<exists>m. t = with_machine m s)" by (rule all [THEN conjunct2, THEN conjunct2])
  show "instance_of s Q \<longrightarrow> (if \<exists>i. used Q s i \<and> node_references (node_at s (Q, i)) \<noteq> 0 then res' = VFS_BUSY \<and> t' = s
      else (res' = VFS_OK \<longrightarrow> ram_ok env t' \<and> \<not> instance_of t' Q \<and> (\<forall>Q'. Q' \<noteq> Q \<longrightarrow> (instance_of t' Q' \<longleftrightarrow> instance_of s Q'))))"
    using destroy_filesystem_spec [OF ok destroy] by blast
qed

theorem ramfs_life_cycle_witness:
  "ram_ok ram_sample ram_made \<and> instance_of ram_made 65536 \<and> vfs_filesystem_valid 65536 ram_made"
proof -
  obtain res' t' where d: "ramfs_destroy_filesystem ram_sample 0 ram_empty = (res', t')" by force
  have c: "ramfs_create_filesystem ram_sample 7 ram_empty = ((VFS_OK, 65536), ram_made)" by (simp add: ram_made_run ram_made_eq)
  have "ram_operations ram_sample \<noteq> 0" by (simp add: ram_sample_def)
  from ramfs_life_cycle [OF ram_empty_ok(1) this ram_empty_ok(2) c d] show ?thesis by simp
qed

section \<open>Files\<close>

definition contents :: "u64 \<Rightarrow> 'm ram_world \<Rightarrow> nat \<Rightarrow> u8 list" where
  "contents R s = (\<lambda>i. file_bytes (ram_node R i s))"

lemma file_step_contents:
  assumes "file_step R i bytes s t" "i < length (ramfs_nodes (ram_of R s))"
  shows "contents R t = (contents R s)(i := bytes)" "node_at t = node_at s"
  using assms by (auto simp: file_step_def contents_def ram_node_put fun_eq_iff)

text \<open>C24: The files of a file system are lists of bytes: reading takes the bytes of the range
  that the file has, writing puts bytes in place and fills a gap after the end with zeros,
  truncating cuts the list or adds zeros; a call that fails changes no file, and no call
  changes another file or what an earlier file left in a buffer shows up in a later one.\<close>

theorem ramfs_files_refine_bytes:
  assumes ok: "ram_ok env s" and R: "instance_of s R" and node: "ramfs_regular_from_vfs R node s = Some i"
    and len: "length input < 2 ^ 64"
  shows "(case ramfs_read env R node offset asked s of ((res, bytes, k), t) \<Rightarrow> t = s \<and>
      (if asked > VFS_IO_MAX then res = VFS_INVALID_ARGUMENT
       else res = VFS_OK \<and> bytes = take (unat asked) (drop (unat offset) (contents R s i)) \<and> k = word_of_nat (length bytes))) \<and>
    (case ramfs_write env R node offset input s of ((res, k), t) \<Rightarrow> node_at t = node_at s \<and>
      (if res = VFS_OK then k = word_of_nat (length input) \<and>
         contents R t = (contents R s)(i := if input = [] then contents R s i else write_at (unat offset) input (contents R s i))
       else k = 0 \<and> contents R t = contents R s)) \<and>
    (case ramfs_truncate env R node want s of (res, t) \<Rightarrow> node_at t = node_at s \<and>
      contents R t = (if res = VFS_OK then (contents R s)(i := resized (unat want) (contents R s i)) else contents R s))"
proof (intro conjI)
  note rok = ram_okD(1) [OF ok R]
  have e: "ramfs_instance_from_filesystem env R s = R" "R \<noteq> 0" using instance_from_filesystem_ok [OF ok R] R by (simp_all add: instance_of_def)
  have u: "used R s i" using regular_from_vfs_Some [OF node] by blast
  have i: "i < length (ramfs_nodes (ram_of R s))" "rn_occupied (ram_node R i s)" using u ramfs_okD(2) [OF rok] by (simp_all add: used_def)
  note caps = ramfs_ok_capacities [OF rok]
  have fok: "file_ok (ram_node R i s)" by (rule node_okD(4) [OF ramfs_okD(6) [OF rok u]])
  have zero: "(word_of_nat (length input) :: u64) = 0 \<longleftrightarrow> input = []" and sent: "sent input = input"
    using len by (simp_all add: sent_def unat_of_nat word_unat_eq_iff)
  have f: "file_bytes (ram_node R i s) = contents R s i" by (simp add: contents_def)
  have cm: "contents R (with_machine m s) = contents R s" for m by (simp add: contents_def)
  obtain res bytes k t where r: "ramfs_read env R node offset asked s = ((res, bytes, k), t)" by (metis prod.exhaust)
  show "case ramfs_read env R node offset asked s of ((res, bytes, k), t) \<Rightarrow> t = s \<and>
      (if asked > VFS_IO_MAX then res = VFS_INVALID_ARGUMENT
       else res = VFS_OK \<and> bytes = take (unat asked) (drop (unat offset) (contents R s i)) \<and> k = word_of_nat (length bytes))"
    using read_spec [OF fok e node r] by (simp add: r contents_def)
  obtain res k t where w: "ramfs_write env R node offset input s = ((res, k), t)" by (metis prod.exhaust)
  show "case ramfs_write env R node offset input s of ((res, k), t) \<Rightarrow> node_at t = node_at s \<and>
      (if res = VFS_OK then k = word_of_nat (length input) \<and>
         contents R t = (contents R s)(i := if input = [] then contents R s i else write_at (unat offset) input (contents R s i))
       else k = 0 \<and> contents R t = contents R s)"
  proof -
    from write_spec [OF caps i e node w, unfolded f sent] consider m where "res \<noteq> VFS_OK" "k = 0" "t = with_machine m s"
      | "res = VFS_OK" "k = word_of_nat (length input)"
        "file_step R i (if k = 0 then contents R s i else write_at (unat offset) input (contents R s i)) s t" by blast
    then show ?thesis
    proof cases
      case 1
      then show ?thesis by (simp add: w cm)
    next
      case 2
      then show ?thesis using file_step_contents [OF 2(3) i(1)] by (simp add: w zero)
    qed
  qed
  obtain res t where c: "ramfs_truncate env R node want s = (res, t)" by force
  show "case ramfs_truncate env R node want s of (res, t) \<Rightarrow> node_at t = node_at s \<and>
      contents R t = (if res = VFS_OK then (contents R s)(i := resized (unat want) (contents R s i)) else contents R s)"
  proof -
    from truncate_spec [OF caps i e node c, unfolded f] consider m where "res \<noteq> VFS_OK" "t = with_machine m s"
      | "res = VFS_OK" "file_step R i (resized (unat want) (contents R s i)) s t" by blast
    then show ?thesis
    proof cases
      case 1
      then show ?thesis by (simp add: c cm)
    next
      case 2
      then show ?thesis using file_step_contents [OF 2(2) i(1)] by (simp add: c)
    qed
  qed
qed

text \<open>A file in the root directory of the sample.\<close>

definition ram_file :: "u64 ram_world" where
  "ram_file = created 65536 1 0 [97] NODE_REGULAR ram_made"

lemma ram_file_ok: "ram_ok ram_sample ram_file" "instance_of ram_file 65536"
  "ramfs_regular_from_vfs 65536 (Some (65536, 1)) ram_file = Some 1"
proof -
  note rok = ram_okD(1) [OF ram_made_ok(1,3)]
  have name: "ramfs_validate_name [97] = VFS_OK" by (simp add: ramfs_validate_name_def)
  have "ramfs_find_child 65536 0 [97] ram_made = None"
  proof (cases "ramfs_find_child 65536 0 [97] ram_made")
    case (Some j)
    have "length [97 :: u8] \<le> 255" by simp
    from find_child_Some(1,2) [OF rok this Some] show ?thesis using ram_made_ok(2) [of j] by simp
  qed
  moreover have "ramfs_find_free_node 65536 ram_made = Some 1"
  proof -
    have "\<not> rn_occupied (ram_node 65536 1 ram_made)" using ram_made_ok(2) [of 1] by (simp add: used_def)
    then show ?thesis by (simp add: ramfs_find_free_node_def upt_rec)
  qed
  moreover have "ramfs_next_node_id (ram_of 65536 ram_made) \<noteq> UINT64_MAX" by (simp add: ram_made_eq made_fields)
  moreover have "used 65536 ram_made 0" using ram_made_ok(2) by simp
  ultimately show ok: "ram_ok ram_sample ram_file"
    unfolding ram_file_def using created_ok [OF ram_made_ok(1,3) _ _ _ name] ramfs_okD(4) [OF rok]
    by (simp add: vfs_node_type_valid_def)
  show inst: "instance_of ram_file 65536" using ram_made_ok(3) by (simp add: ram_file_def created_def instance_of_def put_ram_def put_node_def)
  have node: "node_at ram_file (65536, 1) = fresh_vfs_node 65536 1 0 NODE_REGULAR (ramfs_next_node_id (ram_of 65536 ram_made))"
    by (simp add: ram_file_def created_def put_ram_def put_node_def)
  have "ram_node 65536 1 ram_file = fresh_ram_node 65536 [97]"
    using ramfs_okD(2) [OF rok] by (simp add: ram_file_def created_def put_ram_def put_node_def ram_node_def ram_of_def)
  then have "used 65536 ram_file 1" by (simp add: used_def fresh_ram_node_def)
  then have "ramfs_node_from_vfs 65536 (Some (65536, 1)) ram_file = Some 1"
    by (intro node_from_vfs_used [OF ram_okD(1) [OF ok inst]]) simp_all
  then show "ramfs_regular_from_vfs 65536 (Some (65536, 1)) ram_file = Some 1"
    by (simp add: ramfs_regular_from_vfs_def node [unfolded One_nat_def] fresh_vfs_node_def)
qed

theorem ramfs_files_refine_bytes_witness:
  "case ramfs_write ram_sample 65536 (Some (65536, 1)) 2 [5] ram_file of ((res, k), t) \<Rightarrow>
     if res = VFS_OK then contents 65536 t 1 = write_at 2 [5] (contents 65536 ram_file 1) else contents 65536 t = contents 65536 ram_file"
  using ramfs_files_refine_bytes [OF ram_file_ok, where input = "[5]" and offset = 2] by (auto split: prod.splits if_splits)

section \<open>Limits\<close>

definition files_of :: "u64 \<Rightarrow> 'm ram_world \<Rightarrow> nat \<Rightarrow> nat set" where
  "files_of R s k = {i. used R s i \<and> i < k \<and> node_type (node_at s (R, i)) = NODE_REGULAR}"

lemma files_of_Suc: "files_of R s (Suc k) =
    (if used R s k \<and> node_type (node_at s (R, k)) = NODE_REGULAR then insert k (files_of R s k) else files_of R s k)"
  by (auto simp: files_of_def less_Suc_eq)

lemma files_of_simps [simp]: "finite (files_of R s k)" "k \<notin> files_of R s k" "files_of R s 0 = {}"
  by (auto simp: files_of_def)

lemma used_capacity_sum: "used_capacity nodes = (\<Sum>i<length nodes. if rn_occupied (nodes ! i) then unat (rn_capacity (nodes ! i)) else 0)"
proof -
  have "used_capacity nodes = sum_list (map (\<lambda>i. if rn_occupied (nodes ! i) then unat (rn_capacity (nodes ! i)) else 0) [0..<length nodes])"
    unfolding used_capacity_def by (rule arg_cong [where f = sum_list], rule nth_equalityI) simp_all
  then show ?thesis by (simp add: interv_sum_list_conv_sum_set_nat atLeast0LessThan)
qed

lemma files_capacity:
  assumes "ramfs_ok table R s" "k \<le> 32"
  shows "(\<Sum>i\<in>files_of R s k. unat (rn_capacity (ram_node R i s))) \<le> 32768"
proof -
  have "(\<Sum>i\<in>files_of R s k. unat (rn_capacity (ram_node R i s))) =
      (\<Sum>i\<in>files_of R s k. if rn_occupied (ramfs_nodes (ram_of R s) ! i) then unat (rn_capacity (ramfs_nodes (ram_of R s) ! i)) else 0)"
    by (rule sum.cong) (auto simp: files_of_def used_def ram_node_def)
  also have "\<dots> \<le> used_capacity (ramfs_nodes (ram_of R s))"
    unfolding used_capacity_sum by (rule sum_mono2) (use ramfs_okD(2) [OF assms(1)] in \<open>auto simp: files_of_def used_def\<close>)
  finally show ?thesis using ramfs_okD(12) [OF assms(1)] by simp
qed

text \<open>The loop of \<open>ramfs_get_stats\<close> after the first \<open>k\<close> nodes.\<close>

lemma stats_prefix:
  assumes ok: "ramfs_ok table R s"
  shows "k \<le> 32 \<Longrightarrow> \<exists>st. foldl (\<lambda>acc i. case acc of Inl r \<Rightarrow> Inl r | Inr stats \<Rightarrow> add_ramfs_stats R s i stats)
      (Inr \<lparr>live_nodes = 0, live_directories = 0, live_files = 0, live_file_bytes = 0, allocated_file_capacity = 0\<rparr>) [0..<k] = Inr st \<and>
    unat (live_nodes st) = card {i. used R s i \<and> i < k} \<and> live_directories st + live_files st = live_nodes st \<and>
    unat (live_files st) = card (files_of R s k) \<and>
    unat (live_file_bytes st) = (\<Sum>i\<in>files_of R s k. length (contents R s i)) \<and>
    unat (allocated_file_capacity st) = (\<Sum>i\<in>files_of R s k. unat (rn_capacity (ram_node R i s)))"
proof (induction k)
  case 0
  show ?case by simp
next
  case (Suc k)
  then obtain st where st: "foldl (\<lambda>acc i. case acc of Inl r \<Rightarrow> Inl r | Inr stats \<Rightarrow> add_ramfs_stats R s i stats)
      (Inr \<lparr>live_nodes = 0, live_directories = 0, live_files = 0, live_file_bytes = 0, allocated_file_capacity = 0\<rparr>) [0..<k] = Inr st"
    "unat (live_nodes st) = card {i. used R s i \<and> i < k}" "live_directories st + live_files st = live_nodes st"
    "unat (live_files st) = card (files_of R s k)"
    "unat (live_file_bytes st) = (\<Sum>i\<in>files_of R s k. length (contents R s i))"
    "unat (allocated_file_capacity st) = (\<Sum>i\<in>files_of R s k. unat (rn_capacity (ram_node R i s)))" by auto
  show ?case
  proof (cases "used R s k")
    case False
    then have "add_ramfs_stats R s k st = Inr st" using Suc.prems by (simp add: add_ramfs_stats_def used_def Let_def)
    moreover have "{i. used R s i \<and> i < Suc k} = {i. used R s i \<and> i < k}" using False by (auto simp: less_Suc_eq)
    ultimately show ?thesis using st False by (simp add: files_of_Suc)
  next
    case True
    note n = node_okD [OF ramfs_okD(6) [OF ok True]]
    note f = file_okD [OF n(4)]
    have set: "{i. used R s i \<and> i < Suc k} = insert k {i. used R s i \<and> i < k}" using True by (auto simp: less_Suc_eq)
    have "card {i. used R s i \<and> i < k} \<le> 32" using card_mono [of "{..<32::nat}" "{i. used R s i \<and> i < k}"] by (auto simp: used_def)
    then have nodes: "unat (live_nodes st + 1) = card {i. used R s i \<and> i < Suc k}"
      using st(2) by (simp add: set unat_add_exact)
    show ?thesis
    proof (cases "node_type (node_at s (R, k)) = NODE_REGULAR")
      case False
      then have dir: "node_type (node_at s (R, k)) = NODE_DIRECTORY" using n(10) by (simp add: vfs_node_type_valid_def)
      have "add_ramfs_stats R s k st = Inr (st\<lparr>live_nodes := live_nodes st + 1, live_directories := live_directories st + 1\<rparr>)"
        using True n dir by (simp add: add_ramfs_stats_def used_def Let_def)
      then show ?thesis using st nodes False by (simp add: files_of_Suc algebra_simps)
    next
      case reg: True
      have cap: "(\<Sum>i\<in>files_of R s (Suc k). unat (rn_capacity (ram_node R i s))) \<le> 32768" using files_capacity [OF ok Suc.prems] .
      have "(\<Sum>i\<in>files_of R s k. length (contents R s i)) \<le> (\<Sum>i\<in>files_of R s k. unat (rn_capacity (ram_node R i s)))"
        by (rule sum_mono) (use file_okD(3,7) [OF node_okD(4) [OF ramfs_okD(6) [OF ok]]] in \<open>auto simp: contents_def files_of_def\<close>)
      then have small: "unat (live_file_bytes st) \<le> 32768" "unat (allocated_file_capacity st) \<le> 32768"
        "unat (rn_size (ram_node R k s)) \<le> 8192" "unat (rn_capacity (ram_node R k s)) \<le> 8192"
        using cap st(5,6) f(2,7) reg True by (simp_all add: files_of_Suc)
      have max: "unat (UINT64_MAX - x) = 18446744073709551615 - unat x" for x :: u64
        using unat_u64_less [of x] by (simp add: unat_sub word_le_nat_alt)
      have fit: "\<not> rn_size (ram_node R k s) > UINT64_MAX - live_file_bytes st" "\<not> rn_capacity (ram_node R k s) > UINT64_MAX - allocated_file_capacity st"
        using small by (simp_all add: word_less_nat_alt max)
      have "add_ramfs_stats R s k st = Inr (st\<lparr>live_nodes := live_nodes st + 1, live_files := live_files st + 1,
          live_file_bytes := live_file_bytes st + rn_size (ram_node R k s),
          allocated_file_capacity := allocated_file_capacity st + rn_capacity (ram_node R k s)\<rparr>)"
        using True n reg fit by (simp add: add_ramfs_stats_def used_def Let_def)
      moreover have "card (files_of R s k) \<le> 32"
        using card_mono [of "{..<32::nat}" "files_of R s k"] by (auto simp: used_def files_of_def)
      then have "unat (live_files st + 1) = Suc (card (files_of R s k))" using st(4) by (simp add: unat_add_exact)
      moreover have "unat (live_file_bytes st + rn_size (ram_node R k s)) = unat (live_file_bytes st) + unat (rn_size (ram_node R k s))"
        "unat (allocated_file_capacity st + rn_capacity (ram_node R k s)) = unat (allocated_file_capacity st) + unat (rn_capacity (ram_node R k s))"
        using small by (simp_all add: unat_add_exact)
      ultimately show ?thesis using st nodes True reg f(3) by (simp add: files_of_Suc contents_def algebra_simps)
    qed
  qed
qed

text \<open>The statistics of a file system never fail and count its nodes, its files and the
  bytes in them; at most 32 nodes are in use, no file has more than 8192 bytes and all
  files together occupy at most 32768 bytes of the heap.\<close>

theorem ramfs_limits:
  assumes ok: "ram_ok env s" and R: "instance_of s R"
  shows "\<exists>st. ramfs_get_stats R s = Inr st \<and> unat (live_nodes st) = card {i. used R s i} \<and> live_nodes st \<le> 32 \<and>
    live_directories st + live_files st = live_nodes st \<and> unat (live_files st) = card (files_of R s 32) \<and>
    unat (live_file_bytes st) = (\<Sum>i\<in>files_of R s 32. length (contents R s i)) \<and>
    live_file_bytes st \<le> allocated_file_capacity st \<and> allocated_file_capacity st \<le> RAMFS_TOTAL_DATA_MAX \<and>
    (\<forall>i\<in>files_of R s 32. length (contents R s i) \<le> 8192)"
proof -
  note rok = ram_okD(1) [OF ok R]
  have files: "length (contents R s i) \<le> unat (rn_capacity (ram_node R i s)) \<and> length (contents R s i) \<le> 8192"
    if "i \<in> files_of R s 32" for i
  proof -
    have "used R s i" using that by (simp add: files_of_def)
    note f = file_okD [OF node_okD(4) [OF ramfs_okD(6) [OF rok this]]]
    show ?thesis using f(2,3,7) by (simp add: contents_def)
  qed
  have known: "ramfs_instance_from_pointer R s = R"
  proof -
    obtain i where i: "i < 8" "ramfs_instances (backend s) ! i = R" "R \<noteq> 0"
      using R ram_okD(2) [OF ok] by (auto simp: instance_of_def in_set_conv_nth)
    obtain j where j: "find (\<lambda>i. ramfs_instances (backend s) ! i = R) [0..<8] = Some j"
      using i by (cases "find (\<lambda>i. ramfs_instances (backend s) ! i = R) [0..<8]") (auto simp: find_None_iff)
    show ?thesis using i(3) j find_Some_mem [OF j] by (simp add: ramfs_instance_from_pointer_def)
  qed
  have R0: "R \<noteq> 0" using R by (simp add: instance_of_def)
  have all: "{i. used R s i \<and> i < 32} = {i. used R s i}" by (auto simp: used_def)
  have card: "card {i. used R s i} \<le> 32" using card_mono [of "{..<32::nat}" "{i. used R s i}"] by (auto simp: used_def)
  obtain st where st: "ramfs_get_stats R s = Inr st" "unat (live_nodes st) = card {i. used R s i}" "live_directories st + live_files st = live_nodes st"
    "unat (live_files st) = card (files_of R s 32)"
    "unat (live_file_bytes st) = (\<Sum>i\<in>files_of R s 32. length (contents R s i))"
    "unat (allocated_file_capacity st) = (\<Sum>i\<in>files_of R s 32. unat (rn_capacity (ram_node R i s)))"
    using stats_prefix [OF rok order_refl] known R0 by (auto simp: ramfs_get_stats_def all)
  have "unat (live_file_bytes st) \<le> unat (allocated_file_capacity st)" unfolding st(5,6) by (rule sum_mono) (use files in blast)
  then show ?thesis using st card files files_capacity [OF rok, of 32] by (intro exI [of _ st]) (simp add: word_le_nat_alt)
qed

theorem ramfs_limits_witness:
  "\<exists>st. ramfs_get_stats 65536 ram_file = Inr st \<and> live_nodes st \<le> 32 \<and> allocated_file_capacity st \<le> 32768"
  using ramfs_limits [OF ram_file_ok(1,2)] by blast

section \<open>Directories\<close>

text \<open>C25: The check for cycles before a directory is moved always comes to an end within its
  32 steps, whatever the tree: with any larger bound it gives the same answer, which refuses
  the move exactly when the new directory is the node itself or lies below it, and it never
  reports a corrupt file system.\<close>

theorem rename_check_terminates:
  assumes ok: "ram_ok env s" and R: "instance_of s R" and d: "ramfs_directory_from_vfs R directory s = Some d" and steps: "32 \<le> steps"
  shows "rename_cycle_from R source steps d s = (if above (par R s) d source then VFS_INVALID_ARGUMENT else VFS_OK)"
proof -
  note rok = ram_okD(1) [OF ok R]
  note u = directory_from_vfs_Some [OF d]
  have "\<exists>n < 32. (par R s ^^ n) d = 0"
  proof (rule rooted_bounded [OF ramfs_okD(7) [OF rok], where S = "{j. used R s j}"])
    show "par R s y \<in> {j. used R s j}" if "y \<in> {j. used R s j}" for y using node_okD(12) [OF ramfs_okD(6) [OF rok]] that by simp
  qed (use u in \<open>auto simp: used_def\<close>)
  then show ?thesis using rename_cycle_run [OF rok] u R steps by (auto simp: instance_of_def)
qed

lemma ram_root: "ramfs_directory_from_vfs 65536 (Some (65536, 0)) ram_file = Some 0"
  by (rule directory_from_vfs_used [OF ram_okD(1) [OF ram_file_ok(1,2)]])
    (use ramfs_okD(3,4) [OF ram_okD(1) [OF ram_file_ok(1,2)]] in simp_all)

theorem rename_check_terminates_witness: "rename_cycle_from 65536 1 32 0 ram_file = VFS_OK"
proof -
  have "\<not> above (par 65536 ram_file) 0 1" by (auto elim: above.cases)
  then show ?thesis using rename_check_terminates [OF ram_file_ok(1,2) ram_root, of 32 1] by simp
qed

text \<open>C26: The directories of a file system are one map from a directory and a name to a node.
  Looking up reads it; creating a file or a directory binds a free name to a node that was
  not in use; removing takes a binding away, and only of a node without references that is a
  file, or a directory with no binding in it; renaming moves one binding, never onto another
  and never a directory below itself; a call that fails leaves the map as it was.\<close>

theorem ramfs_directories_refine_map:
  assumes ok: "ram_ok env s" and R: "instance_of s R"
    and a: "ramfs_directory_from_vfs R parent s = Some a" and b: "ramfs_directory_from_vfs R target s = Some b"
  shows "ramfs_lookup env R parent name s = (if ramfs_validate_name name \<noteq> VFS_OK then (ramfs_validate_name name, None)
      else case dir_map R s (a, name) of None \<Rightarrow> (VFS_NOT_FOUND, None) | Some k \<Rightarrow> (VFS_OK, Some (R, k)), s) \<and>
    (\<forall>create \<in> {ramfs_create, ramfs_mkdir}. case create env R parent name s of ((res, node), t) \<Rightarrow>
      if res = VFS_OK then dir_map R s (a, name) = None \<and> (\<exists>k. node = Some (R, k) \<and> \<not> used R s k \<and> dir_map R t = (dir_map R s)((a, name) \<mapsto> k))
      else dir_map R t = dir_map R s) \<and>
    (\<forall>remove \<in> {ramfs_unlink, ramfs_rmdir}. case remove env R parent name s of (res, t) \<Rightarrow>
      if res = VFS_OK then \<exists>k. dir_map R s (a, name) = Some k \<and> node_references (node_at s (R, k)) = 0 \<and>
        (\<forall>n. dir_map R s (k, n) = None) \<and> dir_map R t = (dir_map R s)((a, name) := None)
      else dir_map R t = dir_map R s) \<and>
    (case ramfs_rename env R parent name target new_name s of (res, t) \<Rightarrow>
      if res = VFS_OK then \<exists>k. dir_map R s (a, name) = Some k \<and> (if dir_map R s (b, new_name) = Some k then t = s
        else dir_map R s (b, new_name) = None \<and> \<not> above (par R s) b k \<and>
          dir_map R t = ((dir_map R s)((a, name) := None))((b, new_name) \<mapsto> k))
      else t = s)"
proof (intro conjI ballI)
  note rok = ram_okD(1) [OF ok R]
  have R0: "R \<noteq> 0" using R by (simp add: instance_of_def)
  note env = instance_from_filesystem_ok [OF ok R]
  note da = directory_from_vfs_Some [OF a] and db = directory_from_vfs_Some [OF b]
  have dm: "ramfs_validate_name n = VFS_OK \<Longrightarrow> dir_map R s (e, n) = ramfs_find_child R e n s" for e n
    using validate_name_length [of n] by (simp add: dir_map_def)
  have dmk: "ramfs_validate_name n = VFS_OK \<Longrightarrow> ramfs_find_child R e n s = Some k \<Longrightarrow>
      used R s k \<and> k \<noteq> 0 \<and> par R s k = e \<and> name_of (ram_node R k s) = n" for e n k
    using find_child_Some [OF rok, of n e k] validate_name_length [of n] by simp
  show "ramfs_lookup env R parent name s = (if ramfs_validate_name name \<noteq> VFS_OK then (ramfs_validate_name name, None)
      else case dir_map R s (a, name) of None \<Rightarrow> (VFS_NOT_FOUND, None) | Some k \<Rightarrow> (VFS_OK, Some (R, k)), s)"
    using a R0 env dm [of name a] by (simp add: ramfs_lookup_def Let_def split: option.split)
  show "case create env R parent name s of ((res, node), t) \<Rightarrow>
      if res = VFS_OK then dir_map R s (a, name) = None \<and> (\<exists>k. node = Some (R, k) \<and> \<not> used R s k \<and> dir_map R t = (dir_map R s)((a, name) \<mapsto> k))
      else dir_map R t = dir_map R s" if c: "create \<in> {ramfs_create, ramfs_mkdir}" for create
  proof -
    obtain type where ty: "create env R parent name s = ramfs_create_node R a name type s" "vfs_node_type_valid type"
      using c a R0 env by (auto simp: ramfs_create_def ramfs_mkdir_def Let_def vfs_node_type_valid_def)
    obtain res node t where r: "ramfs_create_node R a name type s = ((res, node), t)" by (metis prod.exhaust)
    from create_spec [OF rok R0 _ _ ty(2) r] da consider "res \<noteq> VFS_OK" "t = s"
      | k where "res = VFS_OK" "ramfs_validate_name name = VFS_OK" "ramfs_find_child R a name s = None"
        "ramfs_next_node_id (ram_of R s) \<noteq> UINT64_MAX" "node = Some (R, k)" "ramfs_find_free_node R s = Some k" "t = created R k a name type s" by blast
    then show ?thesis
    proof cases
      case 1
      then show ?thesis by (simp add: ty r)
    next
      case 2
      have "ram_ok env t" using created_ok [OF ok R _ _ ty(2) 2(2,3,4,6)] da 2(7) by simp
      moreover have "instance_of t R" using R by (simp add: 2(7) created_def instance_of_def put_ram_def put_node_def)
      ultimately have "ramfs_ok (ram_operations env) R (created R k a name type s)" using ram_okD(1) 2(7) by blast
      then show ?thesis using created_map [OF rok _ 2(2,6)] free_node_Some(3) [OF 2(6)] dm [OF 2(2)] 2 by (simp add: ty r)
    qed
  qed
  show "case remove env R parent name s of (res, t) \<Rightarrow>
      if res = VFS_OK then \<exists>k. dir_map R s (a, name) = Some k \<and> node_references (node_at s (R, k)) = 0 \<and>
        (\<forall>n. dir_map R s (k, n) = None) \<and> dir_map R t = (dir_map R s)((a, name) := None)
      else dir_map R t = dir_map R s" if c: "remove \<in> {ramfs_unlink, ramfs_rmdir}" for remove
  proof -
    obtain res t where r: "remove env R parent name s = (res, t)" by force
    show ?thesis
    proof (cases "t = s \<and> res \<noteq> VFS_OK")
      case False
      then obtain k where k: "ramfs_validate_name name = VFS_OK" "ramfs_find_child R a name s = Some k" "ramfs_remove_node env R k s = (res, t)"
        "node_type (node_at s (R, k)) = NODE_REGULAR \<or> \<not> ramfs_directory_has_children R k s"
        using c r a R0 env by (auto simp: ramfs_unlink_def ramfs_rmdir_def Let_def ramfs_wrong_type_def split: if_splits option.splits)
      note c = dmk [OF k(1,2)]
      have leaf: "used R s j \<Longrightarrow> j \<noteq> 0 \<Longrightarrow> par R s j \<noteq> k" for j
        using k(4) file_no_children [OF rok] no_children_iff [OF rok] by blast
      have empty: "dir_map R s (k, n) = None" for n
        using dir_map_Some [OF rok, of k n] leaf by (cases "dir_map R s (k, n)") auto
      from remove_spec [OF rok _ k(3)] c consider m where "res \<noteq> VFS_OK" "t = with_machine m s"
        | m where "res = VFS_OK" "node_references (node_at s (R, k)) = 0" "t = ramfs_node_clear R k (with_machine m s)" by blast
      then show ?thesis
      proof cases
        case 1
        then show ?thesis by (simp add: r)
      next
        case 2
        have "ram_ok env t" using removed_ok [OF ok R _ _ 2(2) leaf] c 2(3) by simp
        moreover have "instance_of t R"
          using R by (simp add: 2(3) ramfs_node_clear_def instance_of_def put_node_def)
        ultimately have "ramfs_ok (ram_operations env) R (ramfs_node_clear R k (with_machine m s))" using ram_okD(1) 2(3) by blast
        then have "dir_map R t = (dir_map R s)((a, name) := None)" using removed_map [OF rok] c 2(3) by simp
        then show ?thesis using empty dm [OF k(1)] k(2) 2 by (simp add: r)
      qed
    qed (simp add: r)
  qed
  obtain res t where r: "ramfs_rename env R parent name target new_name s = (res, t)" by force
  have run: "ramfs_rename env R parent name target new_name s = ramfs_rename env R (Some (R, a)) name (Some (R, b)) new_name s"
    using da db by simp
  note run = run [unfolded rename_spec [OF ok R conjunct1 [OF conjunct2 [OF da]] conjunct2 [OF conjunct2 [OF da]]
    conjunct1 [OF conjunct2 [OF db]] conjunct2 [OF conjunct2 [OF db]]]]
  show "case ramfs_rename env R parent name target new_name s of (res, t) \<Rightarrow>
      if res = VFS_OK then \<exists>k. dir_map R s (a, name) = Some k \<and> (if dir_map R s (b, new_name) = Some k then t = s
        else dir_map R s (b, new_name) = None \<and> \<not> above (par R s) b k \<and>
          dir_map R t = ((dir_map R s)((a, name) := None))((b, new_name) \<mapsto> k))
      else t = s"
  proof (cases "res = VFS_OK")
    case False
    then have "t = s" using run r by (auto split: if_splits option.splits)
    then show ?thesis using False by (simp add: r)
  next
    case True
    then obtain k where v: "ramfs_validate_name name = VFS_OK" "ramfs_validate_name new_name = VFS_OK" and k: "ramfs_find_child R a name s = Some k"
      and j: "ramfs_find_child R b new_name s = Some k \<and> t = s \<or>
        ramfs_find_child R b new_name s = None \<and> \<not> above (par R s) b k \<and> t = renamed R k b new_name s"
      using run r by (auto split: if_splits option.splits)
    note c = dmk [OF v(1) k]
    from j show ?thesis
    proof
      assume "ramfs_find_child R b new_name s = Some k \<and> t = s"
      then show ?thesis using True k dm v by (simp add: r)
    next
      assume n: "ramfs_find_child R b new_name s = None \<and> \<not> above (par R s) b k \<and> t = renamed R k b new_name s"
      have "ram_ok env t" using renamed_ok [OF ok R _ _ _ _ v(2)] c db n by simp
      moreover have "instance_of t R" using R n by (simp add: renamed_def instance_of_def put_node_def)
      ultimately have "ramfs_ok (ram_operations env) R (renamed R k b new_name s)" using ram_okD(1) n by blast
      then have "dir_map R t = ((dir_map R s)((a, name) := None))((b, new_name) \<mapsto> k)" using renamed_map [OF rok _ _ _ v(2)] c n by simp
      then show ?thesis using True k dm v n by (simp add: r)
    qed
  qed
qed

theorem ramfs_directories_refine_map_witness:
  "ramfs_lookup ram_sample 65536 (Some (65536, 0)) [97] ram_file = ((VFS_OK, Some (65536, 1)), ram_file)"
proof -
  have "ramfs_validate_name [97] = VFS_OK" by (simp add: ramfs_validate_name_def)
  moreover have "dir_map 65536 ram_file (0, [97]) = Some 1"
  proof -
    have "ram_node 65536 1 ram_file = fresh_ram_node 65536 [97]" "node_at ram_file (65536, 1) = fresh_vfs_node 65536 1 0 NODE_REGULAR (ramfs_next_node_id (ram_of 65536 ram_made))"
      using ramfs_okD(2) [OF ram_okD(1) [OF ram_made_ok(1,3)]]
      by (simp_all add: ram_file_def created_def put_ram_def put_node_def ram_node_def ram_of_def)
    then show ?thesis
      using fresh_name(1) [of "[97]" 65536] by (simp add: dir_map_Some [OF ram_okD(1) [OF ram_file_ok(1,2)]] used_def par_def fresh_vfs_node_def
          fresh_ram_node_def ramfs_validate_name_def)
  qed
  ultimately show ?thesis using ramfs_directories_refine_map [OF ram_file_ok(1,2) ram_root ram_root, where name = "[97]"] by simp
qed

end
