(* ===== verification/Fd.thy ===== *)
theory Fd
  imports Vfs Pty
begin

text \<open>
  kernel/core/fd.c: the table of file descriptors of a process. A slot is the console, an
  open file of kernel/core/vfs.c or an endpoint of kernel/core/pty.c. The functions take
  the table they are given a pointer to and the state of the two layers below, and return
  both; a NULL table has no counterpart.
\<close>

abbreviation (input) KERNEL_FD_MAX :: nat where "KERNEL_FD_MAX \<equiv> 16"
abbreviation (input) KERNEL_FD_STDIN :: nat where "KERNEL_FD_STDIN \<equiv> 0"
abbreviation (input) KERNEL_FD_STDOUT :: nat where "KERNEL_FD_STDOUT \<equiv> 1"
abbreviation (input) KERNEL_FD_STDERR :: nat where "KERNEL_FD_STDERR \<equiv> 2"
abbreviation (input) KERNEL_FD_FIRST_REGULAR :: nat where "KERNEL_FD_FIRST_REGULAR \<equiv> 3"

datatype kernel_fd_kind = FD_UNUSED | FD_CONSOLE_INPUT | FD_CONSOLE_OUTPUT | FD_REGULAR | FD_PTY

record kernel_fd_slot =
  slot_handle :: vfs_handle
  slot_pty :: pty_handle
  slot_kind :: kernel_fd_kind
  slot_access :: u32
  slot_used :: bool

record kernel_fd_table =
  fd_slots :: "kernel_fd_slot list"
  fd_initialized :: bool

record 'b fd_world =
  fd_vfs :: "'b vfs_world"
  fd_pty :: pty_state

definition kernel_fd_handle_clear :: vfs_handle where
  "kernel_fd_handle_clear = \<lparr>handle_path = null_path, handle_offset = 0, handle_access = 0, handle_open = False\<rparr>"

definition kernel_fd_slot_clear :: kernel_fd_slot where
  "kernel_fd_slot_clear = \<lparr>slot_handle = kernel_fd_handle_clear,
     slot_pty = \<lparr>handle_slot = 0, handle_endpoint = 0, handle_generation = 0\<rparr>,
     slot_kind = FD_UNUSED, slot_access = 0, slot_used = False\<rparr>"

definition kernel_fd_access_valid :: "u32 \<Rightarrow> bool" where
  "kernel_fd_access_valid access \<longleftrightarrow> access \<noteq> 0 \<and> access AND NOT VFS_ACCESS_MASK = 0"

definition put_slot :: "nat \<Rightarrow> kernel_fd_slot \<Rightarrow> kernel_fd_table \<Rightarrow> kernel_fd_table" where
  "put_slot i slot table = table\<lparr>fd_slots := (fd_slots table)[i := slot]\<rparr>"

section \<open>Tables\<close>

definition kernel_fd_table_init :: "kernel_fd_table \<Rightarrow> bool \<times> kernel_fd_table" where
  "kernel_fd_table_init table =
     (if fd_initialized table then (False, table)
      else
        let slots = map (\<lambda>_. kernel_fd_slot_clear) (fd_slots table);
            slots = slots[KERNEL_FD_STDIN := (slots ! KERNEL_FD_STDIN)\<lparr>slot_kind := FD_CONSOLE_INPUT, slot_access := VFS_ACCESS_READ, slot_used := True\<rparr>];
            slots = slots[KERNEL_FD_STDOUT := (slots ! KERNEL_FD_STDOUT)\<lparr>slot_kind := FD_CONSOLE_OUTPUT, slot_access := VFS_ACCESS_WRITE, slot_used := True\<rparr>];
            slots = slots[KERNEL_FD_STDERR := (slots ! KERNEL_FD_STDERR)\<lparr>slot_kind := FD_CONSOLE_OUTPUT, slot_access := VFS_ACCESS_WRITE, slot_used := True\<rparr>]
        in (True, table\<lparr>fd_slots := slots, fd_initialized := True\<rparr>))"

text \<open>The two calls that give up what a slot owns.\<close>

definition close_slot_handle :: "nat \<Rightarrow> kernel_fd_table \<Rightarrow> 'b fd_world \<Rightarrow> vfs_result \<times> kernel_fd_table \<times> 'b fd_world" where
  "close_slot_handle i table w = (let slot = fd_slots table ! i in
     case vfs_handle_close (slot_handle slot) (fd_vfs w) of ((result, handle), s) \<Rightarrow>
       (result, put_slot i (slot\<lparr>slot_handle := handle\<rparr>) table, w\<lparr>fd_vfs := s\<rparr>))"

definition close_slot_pty :: "nat \<Rightarrow> kernel_fd_table \<Rightarrow> 'b fd_world \<Rightarrow> pty_result \<times> 'b fd_world" where
  "close_slot_pty i table w =
     (case pty_close (slot_pty (fd_slots table ! i)) (fd_pty w) of (result, p) \<Rightarrow> (result, w\<lparr>fd_pty := p\<rparr>))"

fun destroy_slots :: "nat list \<Rightarrow> kernel_fd_table \<Rightarrow> 'b fd_world \<Rightarrow> bool \<times> kernel_fd_table \<times> 'b fd_world" where
  "destroy_slots [] table w = (True, table, w)"
| "destroy_slots (i # rest) table w =
     (let slot = fd_slots table ! i in
      if \<not> slot_used slot then destroy_slots rest table w
      else if slot_kind slot = FD_REGULAR then
        (if i < KERNEL_FD_FIRST_REGULAR \<or> \<not> handle_open (slot_handle slot) then (False, table, w)
         else case close_slot_handle i table w of (result, table, w) \<Rightarrow>
           if result \<noteq> VFS_OK then (False, table, w)
           else destroy_slots rest (put_slot i kernel_fd_slot_clear table) w)
      else if slot_kind slot = FD_PTY then
        (case close_slot_pty i table w of (result, w) \<Rightarrow>
           if result \<noteq> PTY_OK then (False, table, w)
           else destroy_slots rest (put_slot i kernel_fd_slot_clear table) w)
      else if i = KERNEL_FD_STDIN \<and> slot_kind slot = FD_CONSOLE_INPUT \<or>
              (i = KERNEL_FD_STDOUT \<or> i = KERNEL_FD_STDERR) \<and> slot_kind slot = FD_CONSOLE_OUTPUT
      then destroy_slots rest (put_slot i kernel_fd_slot_clear table) w
      else (False, table, w))"

definition kernel_fd_table_destroy :: "kernel_fd_table \<Rightarrow> 'b fd_world \<Rightarrow> bool \<times> kernel_fd_table \<times> 'b fd_world" where
  "kernel_fd_table_destroy table w =
     (if \<not> fd_initialized table then (True, table, w)
      else case destroy_slots [0..<KERNEL_FD_MAX] table w of (done_all, table, w) \<Rightarrow>
        if \<not> done_all then (False, table, w) else (True, table\<lparr>fd_initialized := False\<rparr>, w))"

definition kernel_fd_describe :: "kernel_fd_table \<Rightarrow> u32 \<Rightarrow> (kernel_fd_kind \<times> u32) option" where
  "kernel_fd_describe table fd =
     (if \<not> fd_initialized table \<or> unat fd \<ge> KERNEL_FD_MAX then None
      else let slot = fd_slots table ! unat fd in
        if \<not> slot_used slot \<or> slot_kind slot = FD_UNUSED \<or> \<not> kernel_fd_access_valid (slot_access slot) then None
        else Some (slot_kind slot, slot_access slot))"

section \<open>Files\<close>

definition kernel_fd_open_regular :: "kernel_fd_table \<Rightarrow> vfs_path \<Rightarrow> u32 \<Rightarrow> 'b fd_world \<Rightarrow>
    (vfs_result \<times> u32 option) \<times> kernel_fd_table \<times> 'b fd_world" where
  "kernel_fd_open_regular table path access w =
     (if \<not> fd_initialized table \<or> path_node path = None \<or> \<not> kernel_fd_access_valid access
      then ((VFS_INVALID_ARGUMENT, None), table, w)
      else if node_type (node_of path (fd_vfs w)) \<noteq> NODE_REGULAR then ((VFS_NOT_REGULAR, None), table, w)
      else case find (\<lambda>i. \<not> slot_used (fd_slots table ! i)) [KERNEL_FD_FIRST_REGULAR..<KERNEL_FD_MAX] of
        None \<Rightarrow> ((VFS_NO_SPACE, None), table, w)
      | Some i \<Rightarrow> (case vfs_handle_open path access kernel_fd_handle_clear (fd_vfs w) of ((result, handle), s) \<Rightarrow>
          if result \<noteq> VFS_OK then ((result, None), table, w\<lparr>fd_vfs := s\<rparr>)
          else ((VFS_OK, Some (word_of_nat i)),
            put_slot i ((fd_slots table ! i)\<lparr>slot_handle := handle, slot_kind := FD_REGULAR, slot_access := access, slot_used := True\<rparr>) table,
            w\<lparr>fd_vfs := s\<rparr>)))"

definition kernel_fd_regular_slot :: "kernel_fd_table \<Rightarrow> u32 \<Rightarrow> u32 \<Rightarrow> vfs_result + nat" where
  "kernel_fd_regular_slot table fd required_access =
     (if \<not> fd_initialized table \<or> unat fd < KERNEL_FD_FIRST_REGULAR \<or> unat fd \<ge> KERNEL_FD_MAX then Inl VFS_INVALID_ARGUMENT
      else let slot = fd_slots table ! unat fd in
        if \<not> slot_used slot \<or> slot_kind slot \<noteq> FD_REGULAR \<or> \<not> handle_open (slot_handle slot) then Inl VFS_INVALID_ARGUMENT
        else if slot_access slot AND required_access = 0 then Inl VFS_ACCESS_DENIED
        else Inr (unat fd))"

definition kernel_fd_read_regular :: "(u64 \<Rightarrow> 'b vfs_operations) \<Rightarrow> kernel_fd_table \<Rightarrow> u32 \<Rightarrow> bool \<Rightarrow> u64 \<Rightarrow> 'b fd_world \<Rightarrow>
    (vfs_result \<times> u8 list \<times> u64) \<times> kernel_fd_table \<times> 'b fd_world" where
  "kernel_fd_read_regular ops table fd buffer_null len w =
     (if buffer_null \<and> len \<noteq> 0 \<or> len > VFS_IO_MAX then ((VFS_INVALID_ARGUMENT, [], 0), table, w)
      else case kernel_fd_regular_slot table fd VFS_ACCESS_READ of
        Inl result \<Rightarrow> ((result, [], 0), table, w)
      | Inr i \<Rightarrow> let slot = fd_slots table ! i in
          (case vfs_handle_read ops (slot_handle slot) buffer_null len (fd_vfs w) of ((result, handle, bytes, transferred), s) \<Rightarrow>
            ((result, bytes, transferred), put_slot i (slot\<lparr>slot_handle := handle\<rparr>) table, w\<lparr>fd_vfs := s\<rparr>)))"

definition kernel_fd_write_regular :: "(u64 \<Rightarrow> 'b vfs_operations) \<Rightarrow> kernel_fd_table \<Rightarrow> u32 \<Rightarrow> bool \<Rightarrow> u8 list \<Rightarrow> 'b fd_world \<Rightarrow>
    (vfs_result \<times> u64) \<times> kernel_fd_table \<times> 'b fd_world" where
  "kernel_fd_write_regular ops table fd buffer_null bytes w =
     (if buffer_null \<and> bytes \<noteq> [] \<or> word_of_nat (length bytes) > VFS_IO_MAX then ((VFS_INVALID_ARGUMENT, 0), table, w)
      else case kernel_fd_regular_slot table fd VFS_ACCESS_WRITE of
        Inl result \<Rightarrow> ((result, 0), table, w)
      | Inr i \<Rightarrow> let slot = fd_slots table ! i in
          (case vfs_handle_write ops (slot_handle slot) (if buffer_null then None else Some bytes) (fd_vfs w) of
            ((result, handle, transferred), s) \<Rightarrow>
            ((result, transferred), put_slot i (slot\<lparr>slot_handle := handle\<rparr>) table, w\<lparr>fd_vfs := s\<rparr>)))"

definition kernel_fd_get_offset :: "kernel_fd_table \<Rightarrow> u32 \<Rightarrow> 'b fd_world \<Rightarrow> vfs_result \<times> u64 option" where
  "kernel_fd_get_offset table fd w =
     (if \<not> fd_initialized table \<or> unat fd < KERNEL_FD_FIRST_REGULAR \<or> unat fd \<ge> KERNEL_FD_MAX then (VFS_INVALID_ARGUMENT, None)
      else let slot = fd_slots table ! unat fd in
        if \<not> slot_used slot \<or> slot_kind slot \<noteq> FD_REGULAR \<or> \<not> handle_open (slot_handle slot) then (VFS_INVALID_ARGUMENT, None)
        else vfs_handle_get_offset (slot_handle slot) (fd_vfs w))"

section \<open>Pseudo-terminals\<close>

definition kernel_fd_free_slot :: "kernel_fd_table \<Rightarrow> nat \<Rightarrow> vfs_result + nat" where
  "kernel_fd_free_slot table first =
     (if \<not> fd_initialized table \<or> first \<ge> KERNEL_FD_MAX then Inl VFS_INVALID_ARGUMENT
      else case find (\<lambda>i. \<not> slot_used (fd_slots table ! i)) [first..<KERNEL_FD_MAX] of
        None \<Rightarrow> Inl VFS_NO_SPACE | Some i \<Rightarrow> Inr i)"

text \<open>What is in the slot is given up first; only then is the new handle retained.\<close>

definition kernel_fd_bind_pty :: "kernel_fd_table \<Rightarrow> u32 \<Rightarrow> pty_handle \<Rightarrow> u32 \<Rightarrow> 'b fd_world \<Rightarrow>
    vfs_result \<times> kernel_fd_table \<times> 'b fd_world" where
  "kernel_fd_bind_pty table fd handle access w =
     (if \<not> fd_initialized table \<or> unat fd \<ge> KERNEL_FD_MAX \<or> \<not> kernel_fd_access_valid access then (VFS_INVALID_ARGUMENT, table, w)
      else
        let i = unat fd; slot = fd_slots table ! i in
        case (if slot_used slot then
                if slot_kind slot = FD_REGULAR then
                  if \<not> handle_open (slot_handle slot) then (False, table, w)
                  else case close_slot_handle i table w of (result, table, w) \<Rightarrow> (result = VFS_OK, table, w)
                else if slot_kind slot = FD_PTY then
                  case close_slot_pty i table w of (result, w) \<Rightarrow> (result = PTY_OK, table, w)
                else (slot_kind slot = FD_CONSOLE_INPUT \<or> slot_kind slot = FD_CONSOLE_OUTPUT, table, w)
              else (True, table, w)) of (given_up, table, w) \<Rightarrow>
          if \<not> given_up then (VFS_CORRUPT, table, w)
          else
            let table = put_slot i kernel_fd_slot_clear table in
            case pty_retain handle (fd_pty w) of (result, p) \<Rightarrow>
              if result \<noteq> PTY_OK then (VFS_INVALID_ARGUMENT, table, w\<lparr>fd_pty := p\<rparr>)
              else (VFS_OK, put_slot i (kernel_fd_slot_clear\<lparr>slot_pty := handle, slot_kind := FD_PTY, slot_access := access,
                slot_used := True\<rparr>) table, w\<lparr>fd_pty := p\<rparr>))"

text \<open>The target table; the source is another one.\<close>

definition kernel_fd_clone_stdio :: "kernel_fd_table \<Rightarrow> u32 \<Rightarrow> kernel_fd_table \<Rightarrow> u32 \<Rightarrow> u32 \<Rightarrow> 'b fd_world \<Rightarrow>
    vfs_result \<times> kernel_fd_table \<times> 'b fd_world" where
  "kernel_fd_clone_stdio source_table source_fd target_table target_fd required_access w =
     (if \<not> fd_initialized source_table \<or> \<not> fd_initialized target_table \<or> unat source_fd \<ge> KERNEL_FD_MAX \<or>
         unat target_fd \<ge> KERNEL_FD_FIRST_REGULAR \<or> \<not> kernel_fd_access_valid required_access
      then (VFS_INVALID_ARGUMENT, target_table, w)
      else let source = fd_slots source_table ! unat source_fd in
        if \<not> slot_used source \<or> slot_access source AND required_access \<noteq> required_access then (VFS_ACCESS_DENIED, target_table, w)
        else if slot_kind source = FD_PTY then kernel_fd_bind_pty target_table target_fd (slot_pty source) required_access w
        else
          let expected_console = (if unat target_fd = KERNEL_FD_STDIN then FD_CONSOLE_INPUT else FD_CONSOLE_OUTPUT);
              target = fd_slots target_table ! unat target_fd
          in if slot_kind source \<noteq> expected_console \<or> \<not> slot_used target \<or> slot_kind target \<noteq> expected_console
             then (VFS_ACCESS_DENIED, target_table, w) else (VFS_OK, target_table, w))"

definition kernel_fd_install_pty :: "kernel_fd_table \<Rightarrow> pty_handle \<Rightarrow> u32 \<Rightarrow> 'b fd_world \<Rightarrow>
    (vfs_result \<times> u32 option) \<times> kernel_fd_table \<times> 'b fd_world" where
  "kernel_fd_install_pty table handle access w = (case kernel_fd_free_slot table KERNEL_FD_FIRST_REGULAR of
     Inl result \<Rightarrow> ((result, None), table, w)
   | Inr i \<Rightarrow> (case kernel_fd_bind_pty table (word_of_nat i) handle access w of (result, table, w) \<Rightarrow>
       ((result, if result = VFS_OK then Some (word_of_nat i) else None), table, w)))"

definition kernel_fd_pty_slot :: "kernel_fd_table \<Rightarrow> u32 \<Rightarrow> u32 \<Rightarrow> pty_handle option" where
  "kernel_fd_pty_slot table fd access =
     (if \<not> fd_initialized table \<or> unat fd \<ge> KERNEL_FD_MAX then None
      else let slot = fd_slots table ! unat fd in
        if \<not> slot_used slot \<or> slot_kind slot \<noteq> FD_PTY \<or> slot_access slot AND access = 0 then None else Some (slot_pty slot))"

definition kernel_fd_read_pty :: "kernel_fd_table \<Rightarrow> u32 \<Rightarrow> bool \<Rightarrow> u64 \<Rightarrow> 'b fd_world \<Rightarrow> (pty_result \<times> u8 list) \<times> 'b fd_world" where
  "kernel_fd_read_pty table fd buffer_null len w = (case kernel_fd_pty_slot table fd VFS_ACCESS_READ of
     None \<Rightarrow> ((PTY_INVALID, []), w)
   | Some handle \<Rightarrow> (case pty_read handle buffer_null len (fd_pty w) of (result, bytes, p) \<Rightarrow> ((result, bytes), w\<lparr>fd_pty := p\<rparr>)))"

definition kernel_fd_write_pty :: "kernel_fd_table \<Rightarrow> u32 \<Rightarrow> u8 list option \<Rightarrow> 'b fd_world \<Rightarrow> (pty_result \<times> nat) \<times> 'b fd_world" where
  "kernel_fd_write_pty table fd buffer w = (case kernel_fd_pty_slot table fd VFS_ACCESS_WRITE of
     None \<Rightarrow> ((PTY_INVALID, 0), w)
   | Some handle \<Rightarrow> (case pty_write handle buffer (fd_pty w) of (result, n, p) \<Rightarrow> ((result, n), w\<lparr>fd_pty := p\<rparr>)))"

definition kernel_fd_poll_pty :: "kernel_fd_table \<Rightarrow> u32 \<Rightarrow> 'b fd_world \<Rightarrow> pty_result \<times> pty_poll_state option" where
  "kernel_fd_poll_pty table fd w = (case kernel_fd_pty_slot table fd VFS_ACCESS_READ of
     None \<Rightarrow> (PTY_INVALID, None) | Some handle \<Rightarrow> pty_poll handle (fd_pty w))"

definition kernel_fd_arm_pty_waiter :: "kernel_fd_table \<Rightarrow> u32 \<Rightarrow> u64 \<Rightarrow> 'b fd_world \<Rightarrow> pty_result \<times> 'b fd_world" where
  "kernel_fd_arm_pty_waiter table fd pid w = (case kernel_fd_pty_slot table fd VFS_ACCESS_READ of
     None \<Rightarrow> (PTY_INVALID, w)
   | Some handle \<Rightarrow> (case pty_arm_read_waiter handle pid (fd_pty w) of (result, p) \<Rightarrow> (result, w\<lparr>fd_pty := p\<rparr>)))"

definition kernel_fd_cancel_pty_waiter :: "kernel_fd_table \<Rightarrow> u32 \<Rightarrow> u64 \<Rightarrow> 'b fd_world \<Rightarrow> 'b fd_world" where
  "kernel_fd_cancel_pty_waiter table fd pid w =
     (if \<not> fd_initialized table \<or> unat fd \<ge> KERNEL_FD_MAX then w
      else let slot = fd_slots table ! unat fd in
        if slot_used slot \<and> slot_kind slot = FD_PTY
        then w\<lparr>fd_pty := pty_cancel_read_waiter (slot_pty slot) pid (fd_pty w)\<rparr> else w)"

section \<open>Closing\<close>

definition kernel_fd_close :: "kernel_fd_table \<Rightarrow> u32 \<Rightarrow> 'b fd_world \<Rightarrow> vfs_result \<times> kernel_fd_table \<times> 'b fd_world" where
  "kernel_fd_close table fd w =
     (if \<not> fd_initialized table \<or> unat fd \<ge> KERNEL_FD_MAX then (VFS_INVALID_ARGUMENT, table, w)
      else let i = unat fd; slot = fd_slots table ! i in
        if \<not> slot_used slot then (VFS_INVALID_ARGUMENT, table, w)
        else if slot_kind slot = FD_REGULAR then
          (if i < KERNEL_FD_FIRST_REGULAR \<or> \<not> handle_open (slot_handle slot) then (VFS_INVALID_ARGUMENT, table, w)
           else case close_slot_handle i table w of (result, table, w) \<Rightarrow>
             if result \<noteq> VFS_OK then (result, table, w) else (VFS_OK, put_slot i kernel_fd_slot_clear table, w))
        else if slot_kind slot = FD_PTY then
          (case close_slot_pty i table w of (result, w) \<Rightarrow>
             if result \<noteq> PTY_OK then (VFS_INVALID_ARGUMENT, table, w) else (VFS_OK, put_slot i kernel_fd_slot_clear table, w))
        else (VFS_ACCESS_DENIED, table, w))"

end
