(* ===== verification/FdOwned.thy ===== *)
theory FdOwned
  imports Fd PtyProps RamfsBackend
begin

text \<open>
  What the descriptor tables of kernel/core/fd.c own: over any calls of any number of
  processes each slot is of a kind its place allows, and the references the layers below
  count are those of the slots.
\<close>

section \<open>What a table owns\<close>

definition slot_ok :: "nat \<Rightarrow> kernel_fd_slot \<Rightarrow> bool" where
  "slot_ok i slot \<longleftrightarrow> (if \<not> slot_used slot then slot_kind slot = FD_UNUSED
     else kernel_fd_access_valid (slot_access slot) \<and> (case slot_kind slot of
       FD_UNUSED \<Rightarrow> False
     | FD_CONSOLE_INPUT \<Rightarrow> i = 0 \<and> slot_access slot = VFS_ACCESS_READ
     | FD_CONSOLE_OUTPUT \<Rightarrow> (i = 1 \<or> i = 2) \<and> slot_access slot = VFS_ACCESS_WRITE
     | FD_REGULAR \<Rightarrow> 3 \<le> i \<and> handle_open (slot_handle slot) \<and> handle_access (slot_handle slot) = slot_access slot
     | FD_PTY \<Rightarrow> True))"

definition slots_ok :: "kernel_fd_table \<Rightarrow> bool" where
  "slots_ok table \<longleftrightarrow> length (fd_slots table) = 16 \<and> (\<forall>i<16. slot_ok i (fd_slots table ! i))"

definition table_ok :: "kernel_fd_table \<Rightarrow> bool" where
  "table_ok table \<longleftrightarrow> slots_ok table \<and> (\<not> fd_initialized table \<longrightarrow> (\<forall>slot \<in> set (fd_slots table). \<not> slot_used slot))"

definition slot_files :: "kernel_fd_slot \<Rightarrow> vfs_handle multiset" where
  "slot_files slot = (if slot_used slot \<and> slot_kind slot = FD_REGULAR then {#slot_handle slot#} else {#})"

definition slot_ends :: "kernel_fd_slot \<Rightarrow> pty_handle multiset" where
  "slot_ends slot = (if slot_used slot \<and> slot_kind slot = FD_PTY then {#slot_pty slot#} else {#})"

definition table_files :: "kernel_fd_table \<Rightarrow> vfs_handle multiset" where
  "table_files table = (\<Sum>slot\<leftarrow>fd_slots table. slot_files slot)"

definition table_ends :: "kernel_fd_table \<Rightarrow> pty_handle multiset" where
  "table_ends table = (\<Sum>slot\<leftarrow>fd_slots table. slot_ends slot)"

text \<open>The layers below count the paths \<open>P\<close> and handles \<open>F\<close>, and the endpoints \<open>E\<close>.\<close>

definition files_held :: "vfs_path list \<Rightarrow> vfs_handle multiset \<Rightarrow> 'b vfs_world \<Rightarrow> bool" where
  "files_held P F s \<longleftrightarrow> (\<exists>c. client_inv c \<and> client_world c = s \<and> client_paths c = P \<and> mset (client_handles c) = F)"

definition ends_held :: "pty_handle multiset \<Rightarrow> pty_state \<Rightarrow> bool" where
  "ends_held E p \<longleftrightarrow> pty_wf p \<and> (\<forall>h. handle_count p h = count E h)"

text \<open>A table beside others that own the paths \<open>P\<close>, files \<open>F\<close> and endpoints \<open>E\<close>.\<close>

definition owns :: "('b vfs_world \<Rightarrow> bool) \<Rightarrow> vfs_path list \<Rightarrow> vfs_handle multiset \<Rightarrow> pty_handle multiset \<Rightarrow>
    kernel_fd_table \<Rightarrow> 'b fd_world \<Rightarrow> bool" where
  "owns ok P F E table w \<longleftrightarrow> table_ok table \<and> ok (fd_vfs w) \<and> files_held P (table_files table + F) (fd_vfs w) \<and>
     ends_held (table_ends table + E) (fd_pty w)"

lemma clear_slot [simp]: "slot_files kernel_fd_slot_clear = {#}" "slot_ends kernel_fd_slot_clear = {#}"
  "slot_ok i kernel_fd_slot_clear" "\<not> slot_used kernel_fd_slot_clear"
  "slot_kind kernel_fd_slot_clear = FD_UNUSED"
  by (simp_all add: slot_files_def slot_ends_def slot_ok_def kernel_fd_slot_clear_def)

lemma put_slot_owned:
  assumes "slots_ok table" "i < 16"
  shows "table_files (put_slot i slot table) + slot_files (fd_slots table ! i) = table_files table + slot_files slot"
    "table_ends (put_slot i slot table) + slot_ends (fd_slots table ! i) = table_ends table + slot_ends slot"
    "slot_ok i slot \<Longrightarrow> slots_ok (put_slot i slot table)" "fd_initialized (put_slot i slot table) = fd_initialized table"
    "fd_slots (put_slot i slot table) ! j = (if j = i then slot else fd_slots table ! j)"
proof -
  have len: "i < length (fd_slots table)" using assms by (simp add: slots_ok_def)
  show "table_files (put_slot i slot table) + slot_files (fd_slots table ! i) = table_files table + slot_files slot"
    "table_ends (put_slot i slot table) + slot_ends (fd_slots table ! i) = table_ends table + slot_ends slot"
    using sum_map_update [OF len] by (simp_all add: table_files_def table_ends_def put_slot_def)
  show "slot_ok i slot \<Longrightarrow> slots_ok (put_slot i slot table)" using assms by (auto simp: slots_ok_def put_slot_def nth_list_update)
  show "fd_initialized (put_slot i slot table) = fd_initialized table" by (simp add: put_slot_def)
  show "fd_slots (put_slot i slot table) ! j = (if j = i then slot else fd_slots table ! j)" using len by (simp add: put_slot_def nth_list_update)
qed

lemma put_clear_owned:
  assumes "slots_ok table" "i < 16"
  shows "table_files (put_slot i kernel_fd_slot_clear table) + slot_files (fd_slots table ! i) = table_files table"
    "table_ends (put_slot i kernel_fd_slot_clear table) + slot_ends (fd_slots table ! i) = table_ends table"
    "slots_ok (put_slot i kernel_fd_slot_clear table)"
  using put_slot_owned [OF assms, of kernel_fd_slot_clear] by simp_all

lemma put_slot_twice [simp]: "put_slot i a (put_slot i b table) = put_slot i a table"
  by (simp add: put_slot_def)

section \<open>Opening and closing\<close>

context vfs_backend
begin

lemma held_open:
  assumes held: "files_held P F s" "ok s" and r: "vfs_handle_open p access kernel_fd_handle_clear s = ((res, h), t)"
  shows "ok t" "files_held P (if res = VFS_OK then add_mset h F else F) t"
    "res = VFS_OK \<Longrightarrow> handle_open h \<and> handle_access h = access"
proof -
  obtain c where c: "client_inv c" "client_world c = s" "client_paths c = P" "mset (client_handles c) = F"
    using held(1) by (auto simp: files_held_def)
  have r': "vfs_handle_open p access null_handle (client_world c) = ((res, h), t)"
    using r c(2) by (simp add: null_handle_def kernel_fd_handle_clear_def)
  note oc = open_client [OF c(1) _ r']
  then show "ok t" using held(2) c(2) by simp
  show "files_held P (if res = VFS_OK then add_mset h F else F) t"
    unfolding files_held_def
    using oc held(2) c by (intro exI [of _ "c\<lparr>client_world := t, client_handles := client_handles c @ (if res = VFS_OK then [h] else [])\<rparr>"]) auto
  show "res = VFS_OK \<Longrightarrow> handle_open h \<and> handle_access h = access"
    using r by (auto simp: vfs_handle_open_def Let_def split: if_splits prod.splits)
qed

lemma held_close:
  assumes held: "files_held P (add_mset h F) s" "ok s" and r: "vfs_handle_close h s = ((res, h'), t)"
  shows "ok t" "files_held P F t" "res = VFS_OK"
proof -
  obtain c where c: "client_inv c" "client_world c = s" "client_paths c = P" "mset (client_handles c) = add_mset h F"
    using held(1) by (auto simp: files_held_def)
  have "h \<in> set (client_handles c)" using c(4) by (metis set_mset_mset union_single_eq_member)
  then obtain j where j: "j < length (client_handles c)" "client_handles c ! j = h" by (auto simp: in_set_conv_nth)
  have r': "vfs_handle_close (client_handles c ! j) (client_world c) = ((res, h'), t)" using r c(2) j(2) by simp
  have m: "mset (remove_nth j (client_handles c)) = F" using mset_remove_nth [OF j(1)] c(4) j(2) by simp
  note cc = close_client [OF c(1) _ j(1) r']
  show "ok t" "res = VFS_OK" using cc held(2) c(2) by simp_all
  show "files_held P F t"
    unfolding files_held_def
    using cc held(2) c m by (intro exI [of _ "c\<lparr>client_world := t, client_handles := remove_nth j (client_handles c)\<rparr>"]) auto
qed

lemma held_transfer:
  assumes held: "files_held P (add_mset h F) s" and step: "backend_step s t"
    and h': "handle_path h' = handle_path h" "handle_open h' = handle_open h" "handle_access h' = handle_access h"
  shows "files_held P (add_mset h' F) t"
proof -
  obtain c where c: "client_inv c" "client_world c = s" "client_paths c = P" "mset (client_handles c) = add_mset h F"
    using held(1) by (auto simp: files_held_def)
  have "h \<in> set (client_handles c)" using c(4) by (metis set_mset_mset union_single_eq_member)
  then obtain j where j: "j < length (client_handles c)" "client_handles c ! j = h" by (auto simp: in_set_conv_nth)
  have "client_inv (c\<lparr>client_world := t, client_handles := (client_handles c)[j := h']\<rparr>)"
    using transfer_client [OF c(1) j(1)] step h' c(2) j(2) by simp
  moreover have "mset ((client_handles c)[j := h']) = add_mset h' F" using c(4) j by (simp add: mset_update)
  ultimately show ?thesis
    unfolding files_held_def using c by (intro exI [of _ "c\<lparr>client_world := t, client_handles := (client_handles c)[j := h']\<rparr>"]) auto
qed

end

lemma ends_close:
  assumes "ends_held (add_mset h E) p" "pty_close h p = (res, q)"
  shows "res = PTY_OK" "ends_held E q"
proof -
  have e: "pty_wf q \<and> (res = PTY_OK \<longleftrightarrow> 0 < handle_count p h) \<and> handle_count q = (handle_count p)(h := handle_count p h - 1)"
    using pty_close_effect [of p h] assms by (simp add: ends_held_def)
  then show "res = PTY_OK" "ends_held E q" using assms(1) by (auto simp: ends_held_def)
qed

lemma ends_retain:
  assumes "ends_held E p" "pty_retain h p = (res, q)"
  shows "ends_held (if res = PTY_OK then add_mset h E else E) q"
proof -
  have "pty_wf q \<and> handle_count q = (if res = PTY_OK then (handle_count p)(h := Suc (handle_count p h)) else handle_count p)"
    using pty_retain_counts [of p h] assms by (simp add: ends_held_def)
  then show ?thesis using assms(1) by (auto simp: ends_held_def)
qed

text \<open>Giving up what a slot holds.\<close>

lemma table_okI: "slots_ok table \<Longrightarrow> fd_initialized table \<Longrightarrow> table_ok table"
  by (simp add: table_ok_def)

context vfs_backend
begin

lemma drop_file:
  assumes o: "owns ok P F E table w" and t: "fd_initialized table" "i < 16"
    and slot: "slot_used (fd_slots table ! i)" "slot_kind (fd_slots table ! i) = FD_REGULAR"
    and r: "close_slot_handle i table w = (res, table', w')"
  shows "res = VFS_OK" "put_slot i kernel_fd_slot_clear table' = put_slot i kernel_fd_slot_clear table"
    "owns ok P F E (put_slot i kernel_fd_slot_clear table) w'"
proof -
  have so: "slots_ok table" using o by (simp add: owns_def table_ok_def)
  note put = put_clear_owned [OF so t(2)] put_slot_owned(4) [OF so t(2)]
  have files: "table_files table = add_mset (slot_handle (fd_slots table ! i)) (table_files (put_slot i kernel_fd_slot_clear table))"
    using put(1) slot by (simp add: slot_files_def)
  have ends: "table_ends (put_slot i kernel_fd_slot_clear table) = table_ends table" using put(2) slot by (simp add: slot_ends_def)
  obtain h s where c: "vfs_handle_close (slot_handle (fd_slots table ! i)) (fd_vfs w) = ((res, h), s)"
    and eq: "table' = put_slot i ((fd_slots table ! i)\<lparr>slot_handle := h\<rparr>) table" "w' = w\<lparr>fd_vfs := s\<rparr>"
    using r by (auto simp: close_slot_handle_def Let_def split: prod.splits)
  have held: "files_held P (add_mset (slot_handle (fd_slots table ! i)) (table_files (put_slot i kernel_fd_slot_clear table) + F)) (fd_vfs w)"
    "ok (fd_vfs w)" using o files by (simp_all add: owns_def)
  note hc = held_close [OF held c]
  show "res = VFS_OK" by (rule hc(3))
  show "put_slot i kernel_fd_slot_clear table' = put_slot i kernel_fd_slot_clear table" by (simp add: eq)
  show "owns ok P F E (put_slot i kernel_fd_slot_clear table) w'"
    using o hc put ends t(1) by (simp add: owns_def eq(2) table_okI)
qed

end

lemma drop_end:
  assumes o: "owns ok P F E table w" and t: "fd_initialized table" "i < 16"
    and slot: "slot_used (fd_slots table ! i)" "slot_kind (fd_slots table ! i) = FD_PTY"
    and r: "close_slot_pty i table w = (res, w')"
  shows "res = PTY_OK" "owns ok P F E (put_slot i kernel_fd_slot_clear table) w'"
proof -
  have so: "slots_ok table" using o by (simp add: owns_def table_ok_def)
  note put = put_clear_owned [OF so t(2)] put_slot_owned(4) [OF so t(2)]
  have ends: "table_ends table = add_mset (slot_pty (fd_slots table ! i)) (table_ends (put_slot i kernel_fd_slot_clear table))"
    using put(2) slot by (simp add: slot_ends_def)
  have files: "table_files (put_slot i kernel_fd_slot_clear table) = table_files table" using put(1) slot by (simp add: slot_files_def)
  obtain p where c: "pty_close (slot_pty (fd_slots table ! i)) (fd_pty w) = (res, p)" and eq: "w' = w\<lparr>fd_pty := p\<rparr>"
    using r by (auto simp: close_slot_pty_def split: prod.splits)
  have "ends_held (add_mset (slot_pty (fd_slots table ! i)) (table_ends (put_slot i kernel_fd_slot_clear table) + E)) (fd_pty w)"
    using o ends by (simp add: owns_def)
  note ec = ends_close [OF this c]
  show "res = PTY_OK" by (rule ec(1))
  show "owns ok P F E (put_slot i kernel_fd_slot_clear table) w'"
    using o ec put files t(1) by (simp add: owns_def eq table_okI)
qed

lemma drop_console:
  assumes o: "owns ok P F E table w" and t: "fd_initialized table" "i < 16"
    and slot: "\<not> slot_used (fd_slots table ! i) \<or> slot_kind (fd_slots table ! i) \<noteq> FD_REGULAR \<and> slot_kind (fd_slots table ! i) \<noteq> FD_PTY"
  shows "owns ok P F E (put_slot i kernel_fd_slot_clear table) w"
proof -
  have so: "slots_ok table" using o by (simp add: owns_def table_ok_def)
  note put = put_clear_owned [OF so t(2)] put_slot_owned(4) [OF so t(2)]
  have "slot_files (fd_slots table ! i) = {#}" "slot_ends (fd_slots table ! i) = {#}"
    using slot by (auto simp: slot_files_def slot_ends_def)
  then show ?thesis using o put t(1) by (simp add: owns_def table_okI)
qed

definition bound_slot :: "pty_handle \<Rightarrow> u32 \<Rightarrow> kernel_fd_slot" where
  "bound_slot handle access = kernel_fd_slot_clear\<lparr>slot_pty := handle, slot_kind := FD_PTY, slot_access := access, slot_used := True\<rparr>"

text \<open>The handle has a reference left, and room for one more, when the slot has given up its own.\<close>

definition bindable :: "kernel_fd_table \<Rightarrow> u32 \<Rightarrow> pty_handle \<Rightarrow> 'b fd_world \<Rightarrow> bool" where
  "bindable table fd handle w \<longleftrightarrow> (let slot = fd_slots table ! unat fd;
     n = handle_count (fd_pty w) handle - (if slot_used slot \<and> slot_kind slot = FD_PTY \<and> slot_pty slot = handle then 1 else 0)
     in 0 < n \<and> n < 4294967295)"

section \<open>Every operation keeps what is owned\<close>

context vfs_backend
begin

lemma close_owns:
  assumes o: "owns ok P F E table w" and r: "kernel_fd_close table fd w = (res, table', w')"
  shows "owns ok P F E table' w' \<and>
    (if fd_initialized table \<and> unat fd < 16 \<and> slot_kind (fd_slots table ! unat fd) \<in> {FD_REGULAR, FD_PTY}
     then res = VFS_OK \<and> table' = put_slot (unat fd) kernel_fd_slot_clear table else res \<noteq> VFS_OK \<and> table' = table \<and> w' = w)"
proof (cases "fd_initialized table \<and> unat fd < 16 \<and> slot_used (fd_slots table ! unat fd)")
  case False
  then have "fd_initialized table \<Longrightarrow> unat fd < 16 \<Longrightarrow> slot_kind (fd_slots table ! unat fd) = FD_UNUSED"
    using o by (auto simp: owns_def table_ok_def slots_ok_def slot_ok_def)
  moreover have "kernel_fd_close table fd w = (VFS_INVALID_ARGUMENT, table, w)" using False by (auto simp: kernel_fd_close_def Let_def)
  ultimately show ?thesis using r o by auto
next
  case True
  let ?slot = "fd_slots table ! unat fd"
  have sk: "slot_ok (unat fd) ?slot" using o True by (simp add: owns_def table_ok_def slots_ok_def)
  consider "slot_kind ?slot = FD_REGULAR" | "slot_kind ?slot = FD_PTY" | "slot_kind ?slot \<noteq> FD_REGULAR" "slot_kind ?slot \<noteq> FD_PTY" by blast
  then show ?thesis
  proof cases
    case 1
    obtain r1 t1 w1 where x: "close_slot_handle (unat fd) table w = (r1, t1, w1)" by (metis prod.exhaust)
    note d = drop_file [OF o _ _ _ 1 x]
    have "\<not> unat fd < 3" "handle_open (slot_handle ?slot)" using sk 1 True by (simp_all add: slot_ok_def)
    then show ?thesis using r True 1 x d by (simp add: kernel_fd_close_def Let_def)
  next
    case 2
    obtain r1 w1 where x: "close_slot_pty (unat fd) table w = (r1, w1)" by force
    note d = drop_end [OF o _ _ _ 2 x]
    show ?thesis using r True 2 x d by (simp add: kernel_fd_close_def Let_def)
  next
    case 3
    then show ?thesis using r True o by (simp add: kernel_fd_close_def Let_def)
  qed
qed

lemma destroy_slots_owns:
  assumes "owns ok P F E table w" and "fd_initialized table" and "\<forall>i \<in> set is. i < 16"
    and "destroy_slots is table w = (done, table', w')"
  shows "done \<and> owns ok P F E table' w' \<and> fd_initialized table' \<and>
    (\<forall>j<16. slot_used (fd_slots table' ! j) \<longrightarrow> slot_used (fd_slots table ! j) \<and> j \<notin> set is)"
  using assms
proof (induction "is" arbitrary: table w)
  case (Cons i "is")
  let ?slot = "fd_slots table ! i" and ?t = "put_slot i kernel_fd_slot_clear table"
  note o = Cons.prems(1) and t = Cons.prems(2)
  have i: "i < 16" and rest: "\<forall>i \<in> set is. i < 16" using Cons.prems(3) by simp_all
  have so: "slots_ok table" and sk: "slot_ok i ?slot" using o i by (simp_all add: owns_def table_ok_def slots_ok_def)
  have next_slot: ?case if d: "owns ok P F E ?t u" "destroy_slots is ?t u = (done, table', w')" for u
  proof -
    have "fd_initialized ?t" using t put_slot_owned(4) [OF so i] by simp
    from Cons.IH [OF d(1) this rest d(2)]
    have "done \<and> owns ok P F E table' w' \<and> fd_initialized table'"
      and j: "j < 16 \<Longrightarrow> slot_used (fd_slots table' ! j) \<Longrightarrow> slot_used (fd_slots ?t ! j) \<and> j \<notin> set is" for j by blast+
    moreover have "slot_used (fd_slots ?t ! j) \<longleftrightarrow> slot_used (fd_slots table ! j) \<and> j \<noteq> i" for j
      using put_slot_owned(5) [OF so i] by simp
    ultimately show ?thesis by (metis set_ConsD)
  qed
  consider "\<not> slot_used ?slot" | "slot_used ?slot" "slot_kind ?slot = FD_REGULAR" | "slot_used ?slot" "slot_kind ?slot = FD_PTY"
    | "slot_used ?slot" "slot_kind ?slot \<noteq> FD_REGULAR" "slot_kind ?slot \<noteq> FD_PTY" by blast
  then show ?case
  proof cases
    case 1
    then have "destroy_slots is table w = (done, table', w')" using Cons.prems(4) by simp
    from Cons.IH [OF o t rest this] show ?thesis using 1 by auto
  next
    case 2
    obtain r1 t1 w1 where x: "close_slot_handle i table w = (r1, t1, w1)" by (metis prod.exhaust)
    note d = drop_file [OF o t i 2 x]
    have "destroy_slots is ?t w1 = (done, table', w')"
      using Cons.prems(4) 2 x d sk by (simp add: slot_ok_def Let_def)
    then show ?thesis using next_slot d(3) by blast
  next
    case 3
    obtain r1 w1 where x: "close_slot_pty i table w = (r1, w1)" by force
    note d = drop_end [OF o t i 3 x]
    have "destroy_slots is ?t w1 = (done, table', w')" using Cons.prems(4) 3 x d by (simp add: Let_def)
    then show ?thesis using next_slot d(2) by blast
  next
    case 4
    have "destroy_slots is ?t w = (done, table', w')"
      using Cons.prems(4) 4 sk by (cases "slot_kind ?slot") (auto simp: slot_ok_def Let_def)
    then show ?thesis using next_slot drop_console [OF o t i] 4 by blast
  qed
qed simp

lemma destroy_owns:
  assumes o: "owns ok P F E table w" and r: "kernel_fd_table_destroy table w = (done, table', w')"
  shows "done" "owns ok P F E table' w'" "\<not> fd_initialized table'" "table_files table' = {#}" "table_ends table' = {#}"
proof -
  have "done \<and> owns ok P F E table' w' \<and> \<not> fd_initialized table' \<and> (\<forall>slot \<in> set (fd_slots table'). \<not> slot_used slot)"
  proof (cases "fd_initialized table")
    case False
    then show ?thesis using o r by (auto simp: kernel_fd_table_destroy_def owns_def table_ok_def)
  next
    case True
    obtain d t1 w1 where x: "destroy_slots [0..<16] table w = (d, t1, w1)" by (metis prod.exhaust)
    have b: "\<forall>i \<in> set [0..<16]. i < (16::nat)" by auto
    note ds = destroy_slots_owns [OF o True b x]
    then have so: "slots_ok t1" by (simp add: owns_def table_ok_def)
    have unused: "\<forall>slot \<in> set (fd_slots t1). \<not> slot_used slot" using ds so by (auto simp: slots_ok_def in_set_conv_nth)
    have "table' = t1\<lparr>fd_initialized := False\<rparr>" "w' = w1" "done"
      using r True ds unfolding kernel_fd_table_destroy_def x by simp_all
    moreover have "table_files (t1\<lparr>fd_initialized := False\<rparr>) = table_files t1" "table_ends (t1\<lparr>fd_initialized := False\<rparr>) = table_ends t1"
      by (simp_all add: table_files_def table_ends_def)
    ultimately show ?thesis using ds so unused by (simp add: owns_def table_ok_def slots_ok_def)
  qed
  moreover have "table_files u = {#}" "table_ends u = {#}" if "\<forall>slot \<in> set (fd_slots u). \<not> slot_used slot" for u
    using that by (induction "fd_slots u" arbitrary: u)
      (auto simp: table_files_def table_ends_def slot_files_def slot_ends_def intro!: sum_list_0 cong: map_cong)
  ultimately show "done" "owns ok P F E table' w'" "\<not> fd_initialized table'" "table_files table' = {#}" "table_ends table' = {#}" by simp_all
qed

lemma open_owns:
  assumes o: "owns ok P F E table w" and r: "kernel_fd_open_regular table path access w = ((res, fd), table', w')"
  shows "owns ok P F E table' w'"
proof (cases "fd_initialized table \<and> kernel_fd_access_valid access \<and> (\<exists>i. find (\<lambda>i. \<not> slot_used (fd_slots table ! i)) [3..<16] = Some i)")
  case False
  then show ?thesis using o r by (auto simp: kernel_fd_open_regular_def split: if_splits option.splits)
next
  case True
  then obtain i where f: "find (\<lambda>i. \<not> slot_used (fd_slots table ! i)) [3..<16] = Some i" by blast
  have i: "3 \<le> i" "i < 16" "\<not> slot_used (fd_slots table ! i)" using find_Some_mem [OF f] by auto
  obtain res1 h s where x: "vfs_handle_open path access kernel_fd_handle_clear (fd_vfs w) = ((res1, h), s)" by (metis prod.exhaust)
  have held: "files_held P (table_files table + F) (fd_vfs w)" "ok (fd_vfs w)" and so: "slots_ok table"
    using o by (simp_all add: owns_def table_ok_def)
  note ho = held_open [OF held x]
  let ?slot = "(fd_slots table ! i)\<lparr>slot_handle := h, slot_kind := FD_REGULAR, slot_access := access, slot_used := True\<rparr>"
  note put = put_slot_owned [OF so i(2), of ?slot]
  consider "table' = table" "w' = w" | "res1 \<noteq> VFS_OK" "table' = table" "w' = w\<lparr>fd_vfs := s\<rparr>"
    | "res1 = VFS_OK" "table' = put_slot i ?slot table" "w' = w\<lparr>fd_vfs := s\<rparr>"
    using r True f x by (auto simp: kernel_fd_open_regular_def split: if_splits)
  then show ?thesis
  proof cases
    case 1
    then show ?thesis using o by simp
  next
    case 2
    then show ?thesis using o ho by (simp add: owns_def)
  next
    case 3
    have "slot_ok i ?slot" using i(1) True ho(3) 3(1) by (simp add: slot_ok_def)
    moreover have "table_files (put_slot i ?slot table) = add_mset h (table_files table)" "table_ends (put_slot i ?slot table) = table_ends table"
      using put(1,2) i(3) by (simp_all add: slot_files_def slot_ends_def)
    ultimately show ?thesis using o ho(1,2) 3 put(3,4) True by (simp add: owns_def table_okI)
  qed
qed

lemma regular_slot:
  assumes o: "owns ok P F E table w" and s: "kernel_fd_regular_slot table fd access = Inr i"
  shows "fd_initialized table" "3 \<le> i" "i < 16" "i = unat fd" "slot_used (fd_slots table ! i)" "slot_kind (fd_slots table ! i) = FD_REGULAR"
    "slot_ok i (fd_slots table ! i)"
  using s o by (auto simp: kernel_fd_regular_slot_def Let_def owns_def table_ok_def slots_ok_def split: if_splits)

lemma transfer_owns:
  assumes o: "owns ok P F E table w" and s: "kernel_fd_regular_slot table fd access = Inr i"
    and step: "backend_step (fd_vfs w) t \<and> ok t \<and> handle_path h = handle_path (slot_handle (fd_slots table ! i)) \<and>
      handle_open h = handle_open (slot_handle (fd_slots table ! i)) \<and> handle_access h = handle_access (slot_handle (fd_slots table ! i))"
  shows "owns ok P F E (put_slot i ((fd_slots table ! i)\<lparr>slot_handle := h\<rparr>) table) (w\<lparr>fd_vfs := t\<rparr>)"
proof -
  let ?slot = "(fd_slots table ! i)\<lparr>slot_handle := h\<rparr>"
  note i = regular_slot [OF o s]
  have so: "slots_ok table" using o by (simp add: owns_def table_ok_def)
  note put = put_slot_owned [OF so i(3), of ?slot] and clear = put_clear_owned(1) [OF so i(3)]
  let ?F = "table_files (put_slot i kernel_fd_slot_clear table)"
  have "table_files table = add_mset (slot_handle (fd_slots table ! i)) ?F" using clear i by (simp add: slot_files_def)
  moreover from this have "table_files (put_slot i ?slot table) = add_mset h ?F" using put(1) i by (simp add: slot_files_def)
  moreover have "slot_ok i ?slot" using i step by (simp add: slot_ok_def)
  moreover have "table_ends (put_slot i ?slot table) = table_ends table" using put(2) i by (simp add: slot_ends_def)
  moreover have "files_held P (add_mset h (?F + F)) t"
    using held_transfer [of P "slot_handle (fd_slots table ! i)" "?F + F" "fd_vfs w" t h] o step calculation(1) by (simp add: owns_def)
  ultimately show ?thesis using o i step put(3,4) by (simp add: owns_def table_okI)
qed

lemma read_owns:
  assumes o: "owns ok P F E table w" and r: "kernel_fd_read_regular ops table fd null len w = (res, table', w')"
  shows "owns ok P F E table' w'"
proof (cases "kernel_fd_regular_slot table fd VFS_ACCESS_READ")
  case (Inl e)
  then show ?thesis using o r by (auto simp: kernel_fd_read_regular_def split: if_splits)
next
  case (Inr i)
  obtain rr h b n t where x: "vfs_handle_read ops (slot_handle (fd_slots table ! i)) null len (fd_vfs w) = ((rr, h, b, n), t)"
    by (metis prod.exhaust)
  have "ok (fd_vfs w)" using o by (simp add: owns_def)
  note step = read_client [OF this x]
  show ?thesis using transfer_owns [OF o Inr step] o r Inr x by (auto simp: kernel_fd_read_regular_def Let_def split: if_splits)
qed

lemma write_owns:
  assumes o: "owns ok P F E table w" and r: "kernel_fd_write_regular ops table fd null bytes w = (res, table', w')"
  shows "owns ok P F E table' w'"
proof (cases "kernel_fd_regular_slot table fd VFS_ACCESS_WRITE")
  case (Inl e)
  then show ?thesis using o r by (auto simp: kernel_fd_write_regular_def split: if_splits)
next
  case (Inr i)
  obtain rr h n t where x: "vfs_handle_write ops (slot_handle (fd_slots table ! i)) (if null then None else Some bytes) (fd_vfs w) = ((rr, h, n), t)"
    by (metis prod.exhaust)
  have "ok (fd_vfs w)" using o by (simp add: owns_def)
  note step = write_client [OF this x]
  show ?thesis using transfer_owns [OF o Inr step] o r Inr x by (auto simp: kernel_fd_write_regular_def Let_def split: if_splits)
qed

text \<open>Binding is giving up the slot, and then installing a retained handle in it.\<close>

lemma bind_owns:
  assumes o: "owns ok P F E table w" and r: "kernel_fd_bind_pty table fd handle access w = (res, table', w')"
  shows "owns ok P F E table' w' \<and> (if fd_initialized table \<and> unat fd < 16 \<and> kernel_fd_access_valid access
    then if bindable table fd handle w then res = VFS_OK \<and> table' = put_slot (unat fd) (bound_slot handle access) table
      else res = VFS_INVALID_ARGUMENT \<and> table' = put_slot (unat fd) kernel_fd_slot_clear table
    else res = VFS_INVALID_ARGUMENT \<and> table' = table \<and> w' = w)"
proof (cases "fd_initialized table \<and> unat fd < 16 \<and> kernel_fd_access_valid access")
  case False
  then have "kernel_fd_bind_pty table fd handle access w = (VFS_INVALID_ARGUMENT, table, w)" by (auto simp: kernel_fd_bind_pty_def)
  then show ?thesis using False o r by auto
next
  case True
  let ?i = "unat fd" and ?t = "put_slot (unat fd) kernel_fd_slot_clear table"
  let ?slot = "fd_slots table ! ?i"
  have so: "slots_ok table" and sk: "slot_ok ?i ?slot" using o True by (simp_all add: owns_def table_ok_def slots_ok_def)
  have i: "?i < 16" using True by simp
  have bound: ?thesis if u: "owns ok P F E ?t u"
    and e: "kernel_fd_bind_pty table fd handle access w = (case pty_retain handle (fd_pty u) of (result, p) \<Rightarrow>
              if result \<noteq> PTY_OK then (VFS_INVALID_ARGUMENT, ?t, u\<lparr>fd_pty := p\<rparr>)
              else (VFS_OK, put_slot ?i (bound_slot handle access) ?t, u\<lparr>fd_pty := p\<rparr>))" for u
  proof -
    obtain rp p where p: "pty_retain handle (fd_pty u) = (rp, p)" by force
    have "ends_held (table_ends ?t + E) (fd_pty u)" using u by (simp add: owns_def)
    note er = ends_retain [OF this p]
    have so': "slots_ok ?t" using u by (simp add: owns_def table_ok_def)
    let ?new = "bound_slot handle access"
    note put = put_slot_owned [OF so' i, of ?new]
    have c: "fd_slots ?t ! ?i = kernel_fd_slot_clear" using put_slot_owned(5) [OF so i] by simp
    have "handle_count (fd_pty w) handle = count (table_ends ?t + slot_ends ?slot + E) handle"
      "handle_count (fd_pty u) handle = count (table_ends ?t + E) handle"
      using o u put_clear_owned(2) [OF so i] by (simp_all add: owns_def ends_held_def)
    then have n: "handle_count (fd_pty u) handle =
        handle_count (fd_pty w) handle - (if slot_used ?slot \<and> slot_kind ?slot = FD_PTY \<and> slot_pty ?slot = handle then 1 else 0)"
      by (simp add: slot_ends_def)
    have "pty_wf (fd_pty u)" using u by (simp add: owns_def ends_held_def)
    then have b: "rp = PTY_OK \<longleftrightarrow> bindable table fd handle w"
      using pty_retain_counts [of "fd_pty u" handle] p by (simp add: bindable_def n Let_def)
    have "slot_ok ?i ?new" using True by (simp add: slot_ok_def bound_slot_def)
    moreover have "table_files (put_slot ?i ?new ?t) = table_files ?t" using put(1) c by (simp add: slot_files_def bound_slot_def)
    moreover have "table_ends (put_slot ?i ?new ?t) = add_mset handle (table_ends ?t)" using put(2) c by (simp add: slot_ends_def bound_slot_def)
    moreover have "fd_initialized ?t" using put_slot_owned(4) [OF so] True by simp
    ultimately show ?thesis using r e p er u put(3,4) b True by (cases "rp = PTY_OK") (auto simp: owns_def table_okI)
  qed
  consider "slot_kind ?slot = FD_REGULAR" "slot_used ?slot" | "slot_kind ?slot = FD_PTY" "slot_used ?slot"
    | "\<not> slot_used ?slot \<or> slot_kind ?slot \<noteq> FD_REGULAR \<and> slot_kind ?slot \<noteq> FD_PTY" by blast
  then show ?thesis
  proof cases
    case 1
    obtain r1 t1 w1 where x: "close_slot_handle ?i table w = (r1, t1, w1)" by (metis prod.exhaust)
    note d = drop_file [OF o _ _ 1(2,1) x]
    show ?thesis by (rule bound [of w1]) (use True 1 x d sk in \<open>simp_all add: kernel_fd_bind_pty_def bound_slot_def Let_def slot_ok_def del: put_slot_twice split: prod.split\<close>)
  next
    case 2
    obtain r1 w1 where x: "close_slot_pty ?i table w = (r1, w1)" by force
    note d = drop_end [OF o _ _ 2(2,1) x]
    show ?thesis by (rule bound [of w1]) (use True 2 x d in \<open>simp_all add: kernel_fd_bind_pty_def bound_slot_def Let_def del: put_slot_twice split: prod.split\<close>)
  next
    case 3
    have k: "slot_used ?slot \<Longrightarrow> slot_kind ?slot = FD_CONSOLE_INPUT \<or> slot_kind ?slot = FD_CONSOLE_OUTPUT"
      using 3 sk by (cases "slot_kind ?slot") (auto simp: slot_ok_def)
    show ?thesis by (rule bound [OF drop_console [OF o _ _ 3]]) (use True 3 k in \<open>auto simp: kernel_fd_bind_pty_def bound_slot_def Let_def simp del: put_slot_twice split: prod.split\<close>)
  qed
qed

lemma install_owns:
  assumes o: "owns ok P F E table w" and r: "kernel_fd_install_pty table handle access w = (res, table', w')"
  shows "owns ok P F E table' w'"
proof (cases "kernel_fd_free_slot table KERNEL_FD_FIRST_REGULAR")
  case (Inl e)
  then show ?thesis using o r by (auto simp: kernel_fd_install_pty_def)
next
  case (Inr i)
  obtain rb tb wb where b: "kernel_fd_bind_pty table (word_of_nat i) handle access w = (rb, tb, wb)" by (metis prod.exhaust)
  then show ?thesis using bind_owns [OF o b] r Inr by (auto simp: kernel_fd_install_pty_def)
qed

lemma clone_owns:
  assumes o: "owns ok P F E table w" and r: "kernel_fd_clone_stdio source source_fd table fd access w = (res, table', w')"
  shows "owns ok P F E table' w'"
proof (cases "kernel_fd_clone_stdio source source_fd table fd access w =
    kernel_fd_bind_pty table fd (slot_pty (fd_slots source ! unat source_fd)) access w")
  case True
  then have "kernel_fd_bind_pty table fd (slot_pty (fd_slots source ! unat source_fd)) access w = (res, table', w')" using r by simp
  from bind_owns [OF o this] show ?thesis by blast
next
  case False
  then have "(\<exists>e. kernel_fd_clone_stdio source source_fd table fd access w = (e, table, w))"
    by (auto simp: kernel_fd_clone_stdio_def Let_def)
  then show ?thesis using o r by auto
qed

end

lemma pty_traffic_owns:
  assumes o: "owns ok P F E table w"
  shows "kernel_fd_read_pty table fd null len w = (rr, w') \<Longrightarrow> owns ok P F E table w'"
    and "kernel_fd_write_pty table fd buffer w = (wr, w') \<Longrightarrow> owns ok P F E table w'"
    and "kernel_fd_arm_pty_waiter table fd pid w = (res, w') \<Longrightarrow> owns ok P F E table w'"
    and "owns ok P F E table (kernel_fd_cancel_pty_waiter table fd pid w)"
proof -
  have keep: "owns ok P F E table (w\<lparr>fd_pty := p\<rparr>)" if "pty_wf p \<and> handle_count p = handle_count (fd_pty w)" for p
    using o that by (simp add: owns_def ends_held_def)
  have wf: "pty_wf (fd_pty w)" using o by (simp add: owns_def ends_held_def)
  show "kernel_fd_read_pty table fd null len w = (rr, w') \<Longrightarrow> owns ok P F E table w'"
    using keep pty_read_effect [OF wf] o by (auto simp: kernel_fd_read_pty_def split: option.splits prod.splits)
  show "kernel_fd_write_pty table fd buffer w = (wr, w') \<Longrightarrow> owns ok P F E table w'"
    using keep pty_write_effect [OF wf] o by (auto simp: kernel_fd_write_pty_def split: option.splits prod.splits)
  show "kernel_fd_arm_pty_waiter table fd pid w = (res, w') \<Longrightarrow> owns ok P F E table w'"
    using keep pty_arm_effect [OF wf] o by (auto simp: kernel_fd_arm_pty_waiter_def split: option.splits prod.splits)
  show "owns ok P F E table (kernel_fd_cancel_pty_waiter table fd pid w)"
    using keep pty_cancel_effect [OF wf] o by (auto simp: kernel_fd_cancel_pty_waiter_def Let_def)
qed

lemma owned_init:
  assumes "table_ok table" "kernel_fd_table_init table = (res, table')"
  shows "table_ok table'" "table_files table' = table_files table" "table_ends table' = table_ends table"
    "res \<longleftrightarrow> \<not> fd_initialized table"
proof -
  have "table_ok table' \<and> table_files table' = table_files table \<and> table_ends table' = table_ends table"
  proof (cases "fd_initialized table")
    case True
    then show ?thesis using assms by (simp add: kernel_fd_table_init_def)
  next
    case False
    let ?in = "kernel_fd_slot_clear\<lparr>slot_kind := FD_CONSOLE_INPUT, slot_access := VFS_ACCESS_READ, slot_used := True\<rparr>"
    let ?out = "kernel_fd_slot_clear\<lparr>slot_kind := FD_CONSOLE_OUTPUT, slot_access := VFS_ACCESS_WRITE, slot_used := True\<rparr>"
    have len: "length (fd_slots table) = 16" and unused: "\<forall>slot \<in> set (fd_slots table). \<not> slot_used slot"
      using assms(1) False by (simp_all add: table_ok_def slots_ok_def)
    then obtain a b c rest where sl: "fd_slots table = a # b # c # rest" by (auto simp: length_Suc_conv numeral_eq_Suc)
    have t: "table' = table\<lparr>fd_slots := ?in # ?out # ?out # map (\<lambda>_. kernel_fd_slot_clear) rest, fd_initialized := True\<rparr>"
      using assms(2) False by (simp add: kernel_fd_table_init_def sl numeral_2_eq_2)
    have "slot_ok i (fd_slots table' ! i)" if "i < 16" for i
    proof -
      consider "i = 0" | "i = 1" | "i = 2" | "3 \<le> i" by linarith
      then show ?thesis using that len unfolding t sl
        by cases (simp_all add: slot_ok_def kernel_fd_access_valid_def nth_Cons split: nat.split)
    qed
    moreover have "(\<Sum>slot\<leftarrow>fd_slots table. slot_files slot) = {#}" "(\<Sum>slot\<leftarrow>fd_slots table. slot_ends slot) = {#}"
      using unused by (auto simp: slot_files_def slot_ends_def intro!: sum_list_0 cong: map_cong)
    ultimately show ?thesis using len by (simp add: t sl table_ok_def slots_ok_def table_files_def table_ends_def
        slot_files_def slot_ends_def comp_def)
  qed
  then show "table_ok table'" "table_files table' = table_files table" "table_ends table' = table_ends table" by simp_all
  show "res \<longleftrightarrow> \<not> fd_initialized table" using assms(2) by (auto simp: kernel_fd_table_init_def Let_def split: if_splits)
qed

section \<open>The tables of all processes\<close>

text \<open>
  The tables of the processes, the paths that others hold (working directories and the
  like) and the endpoints that are in no table, as between the creation of a pair and its
  installation.
\<close>

record 'b fd_system =
  system_tables :: "kernel_fd_table list"
  system_world :: "'b fd_world"
  system_paths :: "vfs_path list"
  system_ends :: "pty_handle list"

datatype fd_call = Init_table nat | Destroy_table nat | Open_file nat nat u32 | Read_file nat u32 bool u64
  | Write_file nat u32 bool "u8 list" | Close_fd nat u32 | Bind_end nat u32 pty_handle u32
  | Install_end nat pty_handle u32 | Clone_fd nat u32 nat u32 u32 | Read_end nat u32 bool u64
  | Write_end nat u32 "u8 list option" | Arm_end nat u32 u64 | Cancel_end nat u32 u64
  | New_pair | Drop_end nat | On_paths vfs_call

definition table_call :: "nat \<Rightarrow> 'b fd_system \<Rightarrow> 'r \<times> kernel_fd_table \<times> 'b fd_world \<Rightarrow> 'b fd_system" where
  "table_call t S = (\<lambda>(res, table, w). S\<lparr>system_tables := (system_tables S)[t := table], system_world := w\<rparr>)"

definition world_call :: "'b fd_system \<Rightarrow> 'r \<times> 'b fd_world \<Rightarrow> 'b fd_system" where
  "world_call S = (\<lambda>(res, w). S\<lparr>system_world := w\<rparr>)"

definition fd_call_do :: "(u64 \<Rightarrow> 'b vfs_operations) \<Rightarrow> fd_call \<Rightarrow> 'b fd_system \<Rightarrow> 'b fd_system" where
  "fd_call_do ops call S = (let w = system_world S; T = (!) (system_tables S) in case call of
     Init_table t \<Rightarrow> table_call t S (case kernel_fd_table_init (T t) of (res, table) \<Rightarrow> (res, table, w))
   | Destroy_table t \<Rightarrow> table_call t S (kernel_fd_table_destroy (T t) w)
   | Open_file t i access \<Rightarrow> table_call t S (kernel_fd_open_regular (T t) (system_paths S ! i) access w)
   | Read_file t fd null len \<Rightarrow> table_call t S (kernel_fd_read_regular ops (T t) fd null len w)
   | Write_file t fd null bytes \<Rightarrow> table_call t S (kernel_fd_write_regular ops (T t) fd null bytes w)
   | Close_fd t fd \<Rightarrow> table_call t S (kernel_fd_close (T t) fd w)
   | Bind_end t fd h access \<Rightarrow> table_call t S (kernel_fd_bind_pty (T t) fd h access w)
   | Install_end t h access \<Rightarrow> table_call t S (kernel_fd_install_pty (T t) h access w)
   | Clone_fd s source_fd t fd access \<Rightarrow> table_call t S (kernel_fd_clone_stdio (T s) source_fd (T t) fd access w)
   | Read_end t fd null len \<Rightarrow> world_call S (kernel_fd_read_pty (T t) fd null len w)
   | Write_end t fd buffer \<Rightarrow> world_call S (kernel_fd_write_pty (T t) fd buffer w)
   | Arm_end t fd pid \<Rightarrow> world_call S (kernel_fd_arm_pty_waiter (T t) fd pid w)
   | Cancel_end t fd pid \<Rightarrow> world_call S ((), kernel_fd_cancel_pty_waiter (T t) fd pid w)
   | New_pair \<Rightarrow> (case pty_create_pair (fd_pty w) of (res, handles, p) \<Rightarrow>
       S\<lparr>system_world := w\<lparr>fd_pty := p\<rparr>,
         system_ends := system_ends S @ (case handles of None \<Rightarrow> [] | Some (master, slave) \<Rightarrow> [master, slave])\<rparr>)
   | Drop_end j \<Rightarrow> (case pty_close (system_ends S ! j) (fd_pty w) of (res, p) \<Rightarrow>
       S\<lparr>system_world := w\<lparr>fd_pty := p\<rparr>, system_ends := (if res = PTY_OK then remove_nth j (system_ends S) else system_ends S)\<rparr>)
   | On_paths call \<Rightarrow> (case vfs_call_do ops call \<lparr>client_world = fd_vfs w, client_paths = system_paths S, client_handles = []\<rparr> of
       (res, c) \<Rightarrow> S\<lparr>system_world := w\<lparr>fd_vfs := client_world c\<rparr>, system_paths := client_paths c\<rparr>))"

text \<open>The tables and places a call names exist; source and target of a clone are two tables.\<close>

definition fd_call_ok :: "fd_call \<Rightarrow> 'b fd_system \<Rightarrow> bool" where
  "fd_call_ok call S = (let T = \<lambda>t. t < length (system_tables S) in case call of
     Init_table t \<Rightarrow> T t | Destroy_table t \<Rightarrow> T t | Open_file t i access \<Rightarrow> T t \<and> i < length (system_paths S)
   | Read_file t fd null len \<Rightarrow> T t | Write_file t fd null bytes \<Rightarrow> T t | Close_fd t fd \<Rightarrow> T t | Bind_end t fd h access \<Rightarrow> T t
   | Install_end t h access \<Rightarrow> T t | Clone_fd s source_fd t fd access \<Rightarrow> T s \<and> T t \<and> s \<noteq> t | Read_end t fd null len \<Rightarrow> T t
   | Write_end t fd buffer \<Rightarrow> T t | Arm_end t fd pid \<Rightarrow> T t | Cancel_end t fd pid \<Rightarrow> T t | New_pair \<Rightarrow> True
   | Drop_end j \<Rightarrow> j < length (system_ends S)
   | On_paths call \<Rightarrow> call_ok call \<lparr>client_world = fd_vfs (system_world S), client_paths = system_paths S, client_handles = []\<rparr> \<and>
       (\<forall>i access. call \<noteq> Open i access))"

fun fd_run :: "(u64 \<Rightarrow> 'b vfs_operations) \<Rightarrow> fd_call list \<Rightarrow> 'b fd_system \<Rightarrow> 'b fd_system option" where
  "fd_run ops [] S = Some S"
| "fd_run ops (call # calls) S = (if fd_call_ok call S then fd_run ops calls (fd_call_do ops call S) else None)"

definition system_ok :: "('b vfs_world \<Rightarrow> bool) \<Rightarrow> 'b fd_system \<Rightarrow> bool" where
  "system_ok ok S \<longleftrightarrow> (\<forall>table \<in> set (system_tables S). table_ok table) \<and> ok (fd_vfs (system_world S)) \<and>
     files_held (system_paths S) (\<Sum>table\<leftarrow>system_tables S. table_files table) (fd_vfs (system_world S)) \<and>
     ends_held ((\<Sum>table\<leftarrow>system_tables S. table_ends table) + mset (system_ends S)) (fd_pty (system_world S))"

lemma sum_remove_nth:
  assumes "i < length xs"
  shows "sum_list (map f xs) = f (xs ! i) + sum_list (map f (remove_nth i xs) :: 'a::comm_monoid_add list)"
    "sum_list (map f (xs[i := x])) = f x + sum_list (map f (remove_nth i xs) :: 'a::comm_monoid_add list)"
proof -
  have "xs = take i xs @ xs ! i # drop (Suc i) xs" by (rule id_take_nth_drop [OF assms])
  then have "map f xs = map f (take i xs) @ f (xs ! i) # map f (drop (Suc i) xs)" by (metis list.simps(9) map_append)
  then show "sum_list (map f xs) = f (xs ! i) + sum_list (map f (remove_nth i xs))"
    by (simp add: remove_nth_def add.left_commute)
  show "sum_list (map f (xs[i := x])) = f x + sum_list (map f (remove_nth i xs))"
    using assms by (simp add: upd_conv_take_nth_drop remove_nth_def add.left_commute)
qed

lemma system_table:
  assumes "system_ok ok S" "t < length (system_tables S)"
  shows "owns ok (system_paths S) (\<Sum>table\<leftarrow>remove_nth t (system_tables S). table_files table)
    ((\<Sum>table\<leftarrow>remove_nth t (system_tables S). table_ends table) + mset (system_ends S)) (system_tables S ! t) (system_world S)"
  using assms sum_remove_nth(1) [OF assms(2), of table_files] sum_remove_nth(1) [OF assms(2), of table_ends]
  by (simp add: system_ok_def owns_def add.assoc)

lemma system_table_call:
  assumes ok: "system_ok ok S" "t < length (system_tables S)"
    and o: "owns ok (system_paths S) (\<Sum>table\<leftarrow>remove_nth t (system_tables S). table_files table)
      ((\<Sum>table\<leftarrow>remove_nth t (system_tables S). table_ends table) + mset (system_ends S)) table w"
  shows "system_ok ok (table_call t S (res, table, w))"
proof -
  have "\<forall>u \<in> set ((system_tables S)[t := table]). table_ok u"
    using ok(1) o set_update_subset_insert [of "system_tables S" t table] by (auto simp: system_ok_def owns_def)
  then show ?thesis
    using o sum_remove_nth(2) [OF ok(2), of table_files table] sum_remove_nth(2) [OF ok(2), of table_ends table]
    by (simp add: system_ok_def owns_def table_call_def add.assoc)
qed

lemma system_world_call:
  assumes ok: "system_ok ok S" "t < length (system_tables S)"
    and o: "owns ok (system_paths S) (\<Sum>table\<leftarrow>remove_nth t (system_tables S). table_files table)
      ((\<Sum>table\<leftarrow>remove_nth t (system_tables S). table_ends table) + mset (system_ends S)) (system_tables S ! t) w"
  shows "system_ok ok (world_call S (res, w))"
  using system_table_call [OF ok o] by (simp add: table_call_def world_call_def)

text \<open>Calls on paths do not look at the handles.\<close>

lemma paths_call_handles:
  assumes "call_ok call \<lparr>client_world = s, client_paths = ps, client_handles = []\<rparr>" "\<forall>i access. call \<noteq> Open i access"
    and "vfs_call_do ops call \<lparr>client_world = s, client_paths = ps, client_handles = []\<rparr> = (res, c)"
  shows "vfs_call_do ops call \<lparr>client_world = s, client_paths = ps, client_handles = hs\<rparr> = (res, c\<lparr>client_handles := hs\<rparr>)"
    "call_ok call \<lparr>client_world = s, client_paths = ps, client_handles = hs\<rparr>" "client_handles c = []"
  using assms by (cases call; auto simp: vfs_call_do_def call_ok_def got_path_def got_world_def Let_def split: prod.splits option.splits)+

context vfs_backend
begin

lemma system_paths_call:
  assumes ok: "system_ok ok S" and call: "fd_call_ok (On_paths call) S"
  shows "system_ok ok (fd_call_do ops (On_paths call) S)"
proof -
  let ?F = "\<Sum>table\<leftarrow>system_tables S. table_files table"
  obtain c where c: "client_inv c" "client_world c = fd_vfs (system_world S)" "client_paths c = system_paths S" "mset (client_handles c) = ?F"
    using ok by (auto simp: system_ok_def files_held_def)
  then have ce: "c = \<lparr>client_world = fd_vfs (system_world S), client_paths = system_paths S, client_handles = client_handles c\<rparr>"
    by (cases c) simp
  obtain res d where d: "vfs_call_do ops call \<lparr>client_world = fd_vfs (system_world S), client_paths = system_paths S, client_handles = []\<rparr> = (res, d)"
    by force
  have k: "call_ok call \<lparr>client_world = fd_vfs (system_world S), client_paths = system_paths S, client_handles = []\<rparr>"
    "\<forall>i access. call \<noteq> Open i access" using call by (simp_all add: fd_call_ok_def)
  note h = paths_call_handles(1,2) [OF k d, of "client_handles c", folded ce]
  have "ok (client_world c)" using ok c(2) by (simp add: system_ok_def)
  note cs = call_spec [OF c(1) this h(2,1)]
  have "files_held (client_paths d) ?F (client_world d)"
    unfolding files_held_def using cs c(4) by (intro exI [of _ "d\<lparr>client_handles := client_handles c\<rparr>"]) simp
  then show ?thesis using ok cs d by (simp add: fd_call_do_def system_ok_def Let_def)
qed

lemma system_end_calls:
  assumes ok: "system_ok ok S"
  shows "system_ok ok (fd_call_do ops New_pair S)"
    and "j < length (system_ends S) \<Longrightarrow> system_ok ok (fd_call_do ops (Drop_end j) S)"
proof -
  let ?E = "\<Sum>table\<leftarrow>system_tables S. table_ends table" and ?p = "fd_pty (system_world S)"
  have e: "ends_held (?E + mset (system_ends S)) ?p" and wf: "pty_wf ?p" using ok by (simp_all add: system_ok_def ends_held_def)
  obtain res handles q where q: "pty_create_pair ?p = (res, handles, q)" by (metis prod.exhaust)
  have wq: "pty_wf q" using pty_serve_wf [OF wf, of pty_call.Create] q by simp
  note pc = pty_create_counts [OF wf q]
  have "ends_held (?E + mset (system_ends S @ (case handles of None \<Rightarrow> [] | Some (master, slave) \<Rightarrow> [master, slave]))) q"
  proof (cases handles)
    case None
    then show ?thesis using pc e by simp
  next
    case (Some ms)
    obtain m l where ms: "ms = (m, l)" by force
    have "handle_count ?p m = 0" "handle_count ?p l = 0" "m \<noteq> l" "handle_count q = (handle_count ?p)(m := 1, l := 1)"
      using pc Some ms by simp_all
    then show ?thesis using e wq Some ms by (auto simp: ends_held_def)
  qed
  then show "system_ok ok (fd_call_do ops New_pair S)" using ok q by (simp add: fd_call_do_def system_ok_def Let_def)
  show "system_ok ok (fd_call_do ops (Drop_end j) S)" if j: "j < length (system_ends S)"
  proof -
    obtain res q where q: "pty_close (system_ends S ! j) ?p = (res, q)" by force
    have "ends_held (add_mset (system_ends S ! j) (?E + mset (remove_nth j (system_ends S)))) ?p"
      using e mset_remove_nth [OF j] by simp
    note ec = ends_close [OF this q]
    then show ?thesis using ok q by (simp add: fd_call_do_def system_ok_def Let_def)
  qed
qed

lemma fd_call_spec:
  assumes ok: "system_ok ok S" and call: "fd_call_ok call S"
  shows "system_ok ok (fd_call_do ops call S)"
proof -
  let ?w = "system_world S" and ?T = "\<lambda>t. system_tables S ! t"
  have on: "system_ok ok (table_call t S r)"
    if t: "t < length (system_tables S)"
      and f: "\<And>P F E res table w. owns ok P F E (?T t) ?w \<Longrightarrow> r = (res, table, w) \<Longrightarrow> owns ok P F E table w"
    for t and r :: "'r \<times> kernel_fd_table \<times> 'b fd_world"
  proof -
    obtain res table w where r: "r = (res, table, w)" by (metis prod.exhaust)
    show ?thesis unfolding r by (rule system_table_call [OF ok t f [OF system_table [OF ok t] r]])
  qed
  have wo: "system_ok ok (world_call S r)"
    if t: "t < length (system_tables S)"
      and f: "\<And>P F E res w. owns ok P F E (?T t) ?w \<Longrightarrow> r = (res, w) \<Longrightarrow> owns ok P F E (?T t) w"
    for t and r :: "'r \<times> 'b fd_world"
  proof -
    obtain res w where r: "r = (res, w)" by force
    show ?thesis unfolding r by (rule system_world_call [OF ok t f [OF system_table [OF ok t] r]])
  qed
  show ?thesis
  proof (cases call)
    case (Init_table t)
    obtain res table where r: "kernel_fd_table_init (?T t) = (res, table)" by force
    have "owns ok P F E table ?w" if o: "owns ok P F E (?T t) ?w" for P F E
      using o owned_init [OF _ r] by (simp add: owns_def)
    then show ?thesis using on [of t "(res, table, ?w)"] r call Init_table by (simp add: fd_call_do_def fd_call_ok_def Let_def)
  next
    case (Destroy_table t)
    then show ?thesis using on [of t "kernel_fd_table_destroy (?T t) ?w"] destroy_owns(2) call by (simp add: fd_call_do_def fd_call_ok_def Let_def)
  next
    case (Open_file t i access)
    have "owns ok P F E table w" if "owns ok P F E (?T t) ?w" "kernel_fd_open_regular (?T t) (system_paths S ! i) access ?w = (res, table, w)"
      for P F E res table w using open_owns [OF that(1)] that(2) by (cases res) simp
    then show ?thesis using on [of t "kernel_fd_open_regular (?T t) (system_paths S ! i) access ?w"] call Open_file
      by (simp add: fd_call_do_def fd_call_ok_def Let_def)
  next
    case (Read_file t fd null len)
    then show ?thesis using on [of t "kernel_fd_read_regular ops (?T t) fd null len ?w"] read_owns call by (simp add: fd_call_do_def fd_call_ok_def Let_def)
  next
    case (Write_file t fd null bytes)
    then show ?thesis using on [of t "kernel_fd_write_regular ops (?T t) fd null bytes ?w"] write_owns call by (simp add: fd_call_do_def fd_call_ok_def Let_def)
  next
    case (Close_fd t fd)
    then show ?thesis using on [of t "kernel_fd_close (?T t) fd ?w"] close_owns call by (simp add: fd_call_do_def fd_call_ok_def Let_def)
  next
    case (Bind_end t fd h access)
    then show ?thesis using on [of t "kernel_fd_bind_pty (?T t) fd h access ?w"] bind_owns call by (simp add: fd_call_do_def fd_call_ok_def Let_def)
  next
    case (Install_end t h access)
    then show ?thesis using on [of t "kernel_fd_install_pty (?T t) h access ?w"] install_owns call by (simp add: fd_call_do_def fd_call_ok_def Let_def)
  next
    case (Clone_fd s source_fd t fd access)
    then show ?thesis using on [of t "kernel_fd_clone_stdio (?T s) source_fd (?T t) fd access ?w"] clone_owns call
      by (simp add: fd_call_do_def fd_call_ok_def Let_def)
  next
    case (Read_end t fd null len)
    then show ?thesis using wo [of t "kernel_fd_read_pty (?T t) fd null len ?w", OF _ pty_traffic_owns(1)] call by (simp add: fd_call_do_def fd_call_ok_def Let_def)
  next
    case (Write_end t fd buffer)
    then show ?thesis using wo [of t "kernel_fd_write_pty (?T t) fd buffer ?w", OF _ pty_traffic_owns(2)] call by (simp add: fd_call_do_def fd_call_ok_def Let_def)
  next
    case (Arm_end t fd pid)
    then show ?thesis using wo [of t "kernel_fd_arm_pty_waiter (?T t) fd pid ?w", OF _ pty_traffic_owns(3)] call by (simp add: fd_call_do_def fd_call_ok_def Let_def)
  next
    case (Cancel_end t fd pid)
    have "system_ok ok (world_call S ((), kernel_fd_cancel_pty_waiter (?T t) fd pid ?w))"
    proof (rule wo [of t])
      show "t < length (system_tables S)" using call Cancel_end by (simp add: fd_call_ok_def)
    qed (use pty_traffic_owns(4) in blast)
    then show ?thesis using Cancel_end by (simp add: fd_call_do_def)
  next
    case New_pair
    then show ?thesis using system_end_calls(1) [OF ok] by simp
  next
    case (Drop_end j)
    then show ?thesis using system_end_calls(2) [OF ok] call by (simp add: fd_call_ok_def)
  next
    case (On_paths c)
    then show ?thesis using system_paths_call [OF ok] call by simp
  qed
qed

lemma fd_run_spec: "fd_run ops calls S = Some S' \<Longrightarrow> system_ok ok S \<Longrightarrow> system_ok ok S'"
  by (induction calls arbitrary: S) (auto split: if_splits intro: fd_call_spec)

end

end
