(* ===== verification/FdProps.thy ===== *)
theory FdProps
  imports FdOwned RamfsProps
begin

text \<open>The properties of kernel/core/fd.c over the file systems of kernel/core/ramfs.c.\<close>

section \<open>Properties\<close>

text \<open>The memory of a process that was not started yet, and a system with nothing open.\<close>

definition fd_boot_table :: kernel_fd_table where
  "fd_boot_table = \<lparr>fd_slots = replicate 16 kernel_fd_slot_clear, fd_initialized = False\<rparr>"

definition fd_boot :: "nat \<Rightarrow> 'b vfs_world \<Rightarrow> pty_state \<Rightarrow> 'b fd_system" where
  "fd_boot n s p = \<lparr>system_tables = replicate n fd_boot_table, system_world = \<lparr>fd_vfs = s, fd_pty = p\<rparr>,
     system_paths = [], system_ends = []\<rparr>"

definition all_slots :: "'b fd_system \<Rightarrow> kernel_fd_slot list" where
  "all_slots S = concat (map fd_slots (system_tables S))"

lemma sum_slot_files: "sum_list (map slot_files slots) = mset (map slot_handle (filter (\<lambda>slot. slot_used slot \<and> slot_kind slot = FD_REGULAR) slots))"
  by (induction slots) (simp_all add: slot_files_def)

lemma sum_slot_ends: "sum_list (map slot_ends slots) = mset (map slot_pty (filter (\<lambda>slot. slot_used slot \<and> slot_kind slot = FD_PTY) slots))"
  by (induction slots) (simp_all add: slot_ends_def)

lemma sum_slots:
  "(\<Sum>table\<leftarrow>system_tables S. table_files table) = mset (map slot_handle (filter (\<lambda>slot. slot_used slot \<and> slot_kind slot = FD_REGULAR) (all_slots S)))"
  "(\<Sum>table\<leftarrow>system_tables S. table_ends table) = mset (map slot_pty (filter (\<lambda>slot. slot_used slot \<and> slot_kind slot = FD_PTY) (all_slots S)))"
proof -
  have "(\<Sum>table\<leftarrow>tables. table_files table) = sum_list (map slot_files (concat (map fd_slots tables)))"
    "(\<Sum>table\<leftarrow>tables. table_ends table) = sum_list (map slot_ends (concat (map fd_slots tables)))" for tables
    by (induction tables) (simp_all add: table_files_def table_ends_def)
  then show "(\<Sum>table\<leftarrow>system_tables S. table_files table) = mset (map slot_handle (filter (\<lambda>slot. slot_used slot \<and> slot_kind slot = FD_REGULAR) (all_slots S)))"
    "(\<Sum>table\<leftarrow>system_tables S. table_ends table) = mset (map slot_pty (filter (\<lambda>slot. slot_used slot \<and> slot_kind slot = FD_PTY) (all_slots S)))"
    by (simp_all add: all_slots_def sum_slot_files sum_slot_ends)
qed

lemma sum_replicate_empty: "sum_list (replicate n {#}) = {#}"
  by (induction n) simp_all

lemma fd_boot_run:
  assumes "ram_ok env s" "\<And>n. node_references (node_at s n) = 0" "vfs_init R s = (VFS_OK, t)" "pty_init pty_boot = (True, p)"
    and run: "fd_run (ram_tables env) calls (fd_boot n t p) = Some S"
  shows "system_ok (ram_ok env) S"
proof (rule ramfs.fd_run_spec [OF run])
  note i = init_spec [OF assms(3,2)]
  have ok: "ram_ok env t" using touched_ram_ok [OF assms(1) i(2)] .
  have z: "slot_files kernel_fd_slot_clear = {#}" "slot_ends kernel_fd_slot_clear = {#}" by simp_all
  have t: "table_ok fd_boot_table" "table_files fd_boot_table = {#}" "table_ends fd_boot_table = {#}"
    by (simp_all add: fd_boot_table_def table_ok_def slots_ok_def table_files_def table_ends_def sum_replicate_empty)
  have "files_held [] {#} t" unfolding files_held_def using i(1) by (intro exI [of _ "fresh_client t"]) (simp add: fresh_client_def)
  moreover have "ends_held {#} p"
  proof -
    have "pair_from_handle h p = None" for h using assms(4)
      by (auto simp: pty_init_def pty_boot_def pair_from_handle_def pair_reset_def nth_Cons split: nat.splits)
    then show ?thesis using pty_init_wf [OF assms(4)] by (simp add: ends_held_def handle_count_def)
  qed
  ultimately show "system_ok (ram_ok env) (fd_boot n t p)"
    using ok t by (simp add: system_ok_def fd_boot_def sum_replicate_empty)
qed

text \<open>One process that was started, alone and with a pseudo-terminal in its descriptor 3.\<close>

definition fd_started_table :: kernel_fd_table where
  "fd_started_table = snd (kernel_fd_table_init fd_boot_table)"

definition fd_started :: "u64 ramfs_state fd_system" where
  "fd_started = (fd_boot 1 (snd (vfs_init 65536 ram_made)) fresh_pty)\<lparr>system_tables := [fd_started_table]\<rparr>"

lemma fresh_pty_init: "pty_init pty_boot = (True, fresh_pty)"
  by (simp add: fresh_pty_def pty_init_def pty_boot_def)

lemma fd_started_run: "fd_run (ram_tables ram_sample) [Init_table 0] (fd_boot 1 (snd (vfs_init 65536 ram_made)) fresh_pty) = Some fd_started"
proof -
  obtain res where "kernel_fd_table_init fd_boot_table = (res, fd_started_table)" by (cases "kernel_fd_table_init fd_boot_table") (simp add: fd_started_table_def)
  then show ?thesis by (simp add: fd_call_ok_def fd_call_do_def fd_started_def fd_boot_def table_call_def Let_def)
qed

lemma fd_started_slots: "fd_initialized fd_started_table" "length (fd_slots fd_started_table) = 16"
  "fd_slots fd_started_table ! 3 = kernel_fd_slot_clear"
  "fd_slots fd_started_table ! 0 = kernel_fd_slot_clear\<lparr>slot_kind := FD_CONSOLE_INPUT, slot_access := 1, slot_used := True\<rparr>"
  by (simp_all add: fd_started_table_def kernel_fd_table_init_def fd_boot_table_def Let_def)

lemma fd_terminal_run:
  obtains S m table where "fd_run (ram_tables ram_sample) [Init_table 0, New_pair, Bind_end 0 3 m 3, Drop_end 0]
      (fd_boot 1 (snd (vfs_init 65536 ram_made)) fresh_pty) = Some S" "table \<in> set (system_tables S)"
    "fd_initialized table" "fd_slots table ! 3 = bound_slot m 3" "handle_count (fd_pty (system_world S)) m = 1"
proof -
  obtain m sl s where p: "pty_create_pair fresh_pty = (PTY_OK, Some (m, sl), s)" "pty_reachable s" "handle_count s m = 1"
    using sample_pair by metis
  note wf = pty_reachable_wf [OF p(2)]
  obtain r1 s1 where r: "pty_retain m s = (r1, s1)" by force
  then have s1: "r1 = PTY_OK" "pty_wf s1" "handle_count s1 m = 2" using pty_retain_counts [OF wf, of m] p(3) by auto
  obtain r2 s2 where c: "pty_close m s1 = (r2, s2)" by force
  then have s2: "r2 = PTY_OK" "handle_count s2 m = 1" using pty_close_effect [OF s1(2), of m] s1(3) by auto
  let ?t = "put_slot 3 (bound_slot m 3) fd_started_table"
  let ?w = "\<lparr>fd_vfs = snd (vfs_init 65536 ram_made), fd_pty = fresh_pty\<rparr>"
  have a: "kernel_fd_access_valid 3" by (simp add: kernel_fd_access_valid_def)
  have b: "kernel_fd_bind_pty fd_started_table 3 m 3 (?w\<lparr>fd_pty := s\<rparr>) = (VFS_OK, ?t, ?w\<lparr>fd_pty := s1\<rparr>)"
    using a r s1(1) fd_started_slots by (simp add: kernel_fd_bind_pty_def bound_slot_def Let_def)
  have i: "fd_call_do (ram_tables ram_sample) (Init_table 0) (fd_boot 1 (snd (vfs_init 65536 ram_made)) fresh_pty) = fd_started"
    using fd_started_run by (simp split: if_splits)
  let ?S = "fd_started\<lparr>system_tables := [?t], system_world := ?w\<lparr>fd_pty := s2\<rparr>, system_ends := [sl]\<rparr>"
  have "fd_run (ram_tables ram_sample) [Init_table 0, New_pair, Bind_end 0 3 m 3, Drop_end 0]
      (fd_boot 1 (snd (vfs_init 65536 ram_made)) fresh_pty) = Some ?S"
    unfolding fd_run.simps i
    using p b c s2(1) by (simp add: fd_call_ok_def fd_call_do_def table_call_def fd_started_def fd_boot_def remove_nth_def Let_def)
  moreover have "fd_slots ?t ! 3 = bound_slot m 3" "fd_initialized ?t" using fd_started_slots by (simp_all add: put_slot_def)
  ultimately show ?thesis using that [of m ?S ?t] s2(2) by simp
qed

text \<open>C27: A descriptor always has a kind its place allows: over any calls of any number of
  processes, reading from the console is descriptor 0 alone, writing to it 1 and 2, files are
  opened from 3 on and are then valid open handles, and the access of a descriptor is never
  empty; a descriptor that cannot be described is not in use.\<close>

theorem fd_slots_typed:
  assumes "ram_ok env s" and "\<And>n. node_references (node_at s n) = 0" and "vfs_init R s = (VFS_OK, t)"
    and "pty_init pty_boot = (True, p)" and "fd_run (ram_tables env) calls (fd_boot n t p) = Some S"
    and "table \<in> set (system_tables S)"
  shows "case kernel_fd_describe table fd of
      None \<Rightarrow> fd_initialized table \<longrightarrow> unat fd < 16 \<longrightarrow> \<not> slot_used (fd_slots table ! unat fd)
    | Some (kind, access) \<Rightarrow> kernel_fd_access_valid access \<and> (case kind of
        FD_UNUSED \<Rightarrow> False
      | FD_CONSOLE_INPUT \<Rightarrow> fd = 0 \<and> access = VFS_ACCESS_READ
      | FD_CONSOLE_OUTPUT \<Rightarrow> (fd = 1 \<or> fd = 2) \<and> access = VFS_ACCESS_WRITE
      | FD_REGULAR \<Rightarrow> fd \<ge> 3 \<and> vfs_handle_valid (slot_handle (fd_slots table ! unat fd)) (fd_vfs (system_world S)) \<and>
          handle_access (slot_handle (fd_slots table ! unat fd)) = access
      | FD_PTY \<Rightarrow> (\<exists>pair. pair_from_handle (slot_pty (fd_slots table ! unat fd)) (fd_pty (system_world S)) = Some pair))"
proof (cases "fd_initialized table \<and> unat fd < 16 \<and> slot_used (fd_slots table ! unat fd)")
  case False
  then have "kernel_fd_describe table fd = None" by (auto simp: kernel_fd_describe_def Let_def)
  then show ?thesis using False by simp
next
  case True
  let ?slot = "fd_slots table ! unat fd"
  note ok = fd_boot_run [OF assms(1-5)]
  have t: "table_ok table" using ok assms(6) by (simp add: system_ok_def)
  then have sk: "slot_ok (unat fd) ?slot" and len: "length (fd_slots table) = 16" using True by (simp_all add: table_ok_def slots_ok_def)
  have mem: "?slot \<in> set (all_slots S)" using assms(6) True len by (auto simp: all_slots_def intro!: bexI [of _ table])
  have fds: "unat fd = 0 \<longleftrightarrow> fd = 0" "unat fd = 1 \<longleftrightarrow> fd = 1" "unat fd = 2 \<longleftrightarrow> fd = 2" "3 \<le> unat fd \<longleftrightarrow> 3 \<le> fd"
    using word_unat_eq_iff [of fd 0] word_unat_eq_iff [of fd 1] word_unat_eq_iff [of fd 2] by (simp_all add: word_le_nat_alt)
  have "kernel_fd_describe table fd = Some (slot_kind ?slot, slot_access ?slot)"
    using True sk by (auto simp: kernel_fd_describe_def slot_ok_def Let_def)
  moreover have "vfs_handle_valid (slot_handle ?slot) (fd_vfs (system_world S))" if "slot_kind ?slot = FD_REGULAR"
  proof -
    obtain c where c: "client_inv c" "client_world c = fd_vfs (system_world S)"
      "mset (client_handles c) = mset (map slot_handle (filter (\<lambda>slot. slot_used slot \<and> slot_kind slot = FD_REGULAR) (all_slots S)))"
      using ok by (auto simp: system_ok_def files_held_def sum_slots)
    have "slot_handle ?slot \<in># mset (client_handles c)" unfolding c(3) using mem True that by force
    then show ?thesis using c(1,2) by (simp add: client_inv_def)
  qed
  moreover have "\<exists>pair. pair_from_handle (slot_pty ?slot) (fd_pty (system_world S)) = Some pair" if "slot_kind ?slot = FD_PTY"
  proof -
    have "slot_pty ?slot \<in># (\<Sum>table\<leftarrow>system_tables S. table_ends table)" unfolding sum_slots using mem True that by force
    then have "0 < handle_count (fd_pty (system_world S)) (slot_pty ?slot)" using ok by (simp add: system_ok_def ends_held_def)
    then show ?thesis by (simp add: handle_count_pos)
  qed
  ultimately show ?thesis using sk True fds by (simp add: slot_ok_def split: kernel_fd_kind.splits)
qed

theorem fd_slots_typed_witness: "kernel_fd_describe fd_started_table 0 = Some (FD_CONSOLE_INPUT, VFS_ACCESS_READ)"
proof -
  have "fd_started_table \<in> set (system_tables fd_started)" by (simp add: fd_started_def)
  from fd_slots_typed [OF ram_made_ok(1,4,5) fresh_pty_init fd_started_run this, of 0] show ?thesis
    using fd_started_slots by (simp add: kernel_fd_describe_def kernel_fd_access_valid_def Let_def)
qed

text \<open>C28: What is counted is what is held: over any calls of any number of processes, the
  references of each end of a pseudo-terminal are the descriptors bound to it and the handles
  not yet in a table, and the open files are the descriptors that are files; closing a
  descriptor always succeeds on a file or a pseudo-terminal and fails without effect on
  everything else; and destroying a table always succeeds and leaves nothing in it.\<close>

theorem fd_ownership_exact:
  assumes "ram_ok env s" and "\<And>n. node_references (node_at s n) = 0" and "vfs_init R s = (VFS_OK, t)"
    and "pty_init pty_boot = (True, p)" and "fd_run (ram_tables env) calls (fd_boot n t p) = Some S"
  shows "let w = system_world S; slots = filter slot_used (all_slots S) in
    (\<forall>h. handle_count (fd_pty w) h =
       length (filter (\<lambda>slot. slot_kind slot = FD_PTY \<and> slot_pty slot = h) slots) + count_list (system_ends S) h) \<and>
    unat (vfs_open_handle_count (fd_vfs w)) = length (filter (\<lambda>slot. slot_kind slot = FD_REGULAR) slots) \<and>
    (\<forall>table \<in> set (system_tables S).
      (\<forall>fd. case kernel_fd_close table fd w of (res, table', w') \<Rightarrow>
        if fd_initialized table \<and> unat fd < 16 \<and> slot_kind (fd_slots table ! unat fd) \<in> {FD_REGULAR, FD_PTY}
        then res = VFS_OK \<and> table' = put_slot (unat fd) kernel_fd_slot_clear table
        else res \<noteq> VFS_OK \<and> table' = table \<and> w' = w) \<and>
      (case kernel_fd_table_destroy table w of (done, table', w') \<Rightarrow>
        done \<and> \<not> fd_initialized table' \<and> (\<forall>slot \<in> set (fd_slots table'). \<not> slot_used slot)))"
proof -
  let ?w = "system_world S" and ?slots = "filter slot_used (all_slots S)"
  note ok = fd_boot_run [OF assms]
  have a: "handle_count (fd_pty ?w) h = length (filter (\<lambda>slot. slot_kind slot = FD_PTY \<and> slot_pty slot = h) ?slots) + count_list (system_ends S) h" for h
    using ok by (simp add: system_ok_def ends_held_def sum_slots mset_map [symmetric] count_mset count_list_eq_length_filter
        filter_map comp_def conj_commute conj_left_commute eq_commute del: mset_map mset_filter)
  have b: "unat (vfs_open_handle_count (fd_vfs ?w)) = length (filter (\<lambda>slot. slot_kind slot = FD_REGULAR) ?slots)"
  proof -
    obtain c where c: "client_inv c" "client_world c = fd_vfs ?w"
      "mset (client_handles c) = mset (map slot_handle (filter (\<lambda>slot. slot_used slot \<and> slot_kind slot = FD_REGULAR) (all_slots S)))"
      using ok by (auto simp: system_ok_def files_held_def sum_slots)
    have "length (client_handles c) = length (filter (\<lambda>slot. slot_used slot \<and> slot_kind slot = FD_REGULAR) (all_slots S))"
      using c(3) by (metis size_mset length_map)
    then show ?thesis using c(1,2) by (simp add: client_inv_def conj_commute)
  qed
  have c: "(\<forall>fd. case kernel_fd_close table fd ?w of (res, table', w') \<Rightarrow>
        if fd_initialized table \<and> unat fd < 16 \<and> slot_kind (fd_slots table ! unat fd) \<in> {FD_REGULAR, FD_PTY}
        then res = VFS_OK \<and> table' = put_slot (unat fd) kernel_fd_slot_clear table
        else res \<noteq> VFS_OK \<and> table' = table \<and> w' = ?w) \<and>
      (case kernel_fd_table_destroy table ?w of (done, table', w') \<Rightarrow>
        done \<and> \<not> fd_initialized table' \<and> (\<forall>slot \<in> set (fd_slots table'). \<not> slot_used slot))"
    if table: "table \<in> set (system_tables S)" for table
  proof -
    obtain i where "i < length (system_tables S)" "system_tables S ! i = table" using table by (auto simp: in_set_conv_nth)
    then obtain P F E where o: "owns (ram_ok env) P F E table ?w" using system_table [OF ok] by blast
    obtain d u w' where d: "kernel_fd_table_destroy table ?w = (d, u, w')" by (metis prod.exhaust)
    note dd = ramfs.destroy_owns [OF o d]
    have "\<forall>slot \<in> set (fd_slots u). \<not> slot_used slot" using dd(2,3) by (simp add: owns_def table_ok_def)
    moreover have "case kernel_fd_close table fd ?w of (res, table', w') \<Rightarrow>
        if fd_initialized table \<and> unat fd < 16 \<and> slot_kind (fd_slots table ! unat fd) \<in> {FD_REGULAR, FD_PTY}
        then res = VFS_OK \<and> table' = put_slot (unat fd) kernel_fd_slot_clear table
        else res \<noteq> VFS_OK \<and> table' = table \<and> w' = ?w" for fd
      using ramfs.close_owns [OF o] by (cases "kernel_fd_close table fd ?w") blast
    ultimately show ?thesis using d dd by simp
  qed
  show ?thesis
    unfolding Let_def by (intro conjI allI ballI; (rule a | rule b | erule c [THEN conjunct1, THEN spec] | erule c [THEN conjunct2]))
qed

theorem fd_ownership_exact_witness: "fst (kernel_fd_table_destroy fd_started_table (system_world fd_started))"
proof -
  have t: "fd_started_table \<in> set (system_tables fd_started)" by (simp add: fd_started_def)
  obtain d u w where d: "kernel_fd_table_destroy fd_started_table (system_world fd_started) = (d, u, w)" by (metis prod.exhaust)
  have "case kernel_fd_table_destroy fd_started_table (system_world fd_started) of (done, table', w') \<Rightarrow>
      done \<and> \<not> fd_initialized table' \<and> (\<forall>slot \<in> set (fd_slots table'). \<not> slot_used slot)"
    by (rule fd_ownership_exact [OF ram_made_ok(1,4,5) fresh_pty_init fd_started_run, unfolded Let_def,
        THEN conjunct2, THEN conjunct2, THEN bspec, OF t, THEN conjunct2])
  then show ?thesis by (simp add: d)
qed

text \<open>C29: Binding an end of a pseudo-terminal to a descriptor succeeds exactly when the end
  still has a reference once the descriptor has given up what it held. So a descriptor that
  holds the last reference to an end cannot be bound to that end again: the end is lost, and
  the descriptor is left closed.\<close>

theorem fd_bind_exact:
  assumes "ram_ok env s" and "\<And>n. node_references (node_at s n) = 0" and "vfs_init R s = (VFS_OK, t)"
    and "pty_init pty_boot = (True, p)" and "fd_run (ram_tables env) calls (fd_boot n t p) = Some S"
    and "table \<in> set (system_tables S)" and "kernel_fd_bind_pty table fd handle access (system_world S) = (res, table', w')"
  shows "(if fd_initialized table \<and> unat fd < 16 \<and> kernel_fd_access_valid access
    then let slot = fd_slots table ! unat fd; w = system_world S;
        n = handle_count (fd_pty w) handle - (if slot_used slot \<and> slot_kind slot = FD_PTY \<and> slot_pty slot = handle then 1 else 0)
      in if 0 < n \<and> n < 4294967295
         then res = VFS_OK \<and> kernel_fd_describe table' fd = Some (FD_PTY, access) \<and> slot_pty (fd_slots table' ! unat fd) = handle \<and>
           handle_count (fd_pty w') handle = Suc n
         else res = VFS_INVALID_ARGUMENT \<and> kernel_fd_describe table' fd = None \<and> handle_count (fd_pty w') handle = n
    else res = VFS_INVALID_ARGUMENT \<and> table' = table \<and> w' = system_world S)"
proof -
  let ?slot = "fd_slots table ! unat fd" and ?w = "system_world S"
  note ok = fd_boot_run [OF assms(1-5)]
  obtain i where "i < length (system_tables S)" "system_tables S ! i = table" using assms(6) by (auto simp: in_set_conv_nth)
  then obtain P F E where o: "owns (ram_ok env) P F E table ?w" using system_table [OF ok] by blast
  note b = ramfs.bind_owns [OF o assms(7)]
  show ?thesis
  proof (cases "fd_initialized table \<and> unat fd < 16 \<and> kernel_fd_access_valid access")
    case False
    show ?thesis using b unfolding if_not_P [OF False] by blast
  next
    case True
    have so: "slots_ok table" using o by (simp add: owns_def table_ok_def)
    have i: "unat fd < 16" using True by simp
    let ?n = "handle_count (fd_pty ?w) handle - (if slot_used ?slot \<and> slot_kind ?slot = FD_PTY \<and> slot_pty ?slot = handle then 1 else 0)"
    have n: "?n = count (table_ends (put_slot (unat fd) kernel_fd_slot_clear table) + E) handle"
    proof -
      have "handle_count (fd_pty ?w) handle = count (table_ends (put_slot (unat fd) kernel_fd_slot_clear table) + slot_ends ?slot + E) handle"
        using o put_clear_owned(2) [OF so i] by (simp add: owns_def ends_held_def)
      then show ?thesis by (simp add: slot_ends_def)
    qed
    have c: "handle_count (fd_pty w') handle = count (table_ends table' + E) handle" using b by (simp add: owns_def ends_held_def)
    show ?thesis
    proof (cases "bindable table fd handle ?w")
      case y: True
      have t: "table' = put_slot (unat fd) (bound_slot handle access) table" "res = VFS_OK" using b True y by simp_all
      note put = put_slot_owned [OF so i, of "bound_slot handle access"]
      have "table_ends table' = add_mset handle (table_ends (put_slot (unat fd) kernel_fd_slot_clear table))"
      proof -
        have "slot_ends (bound_slot handle access) = {#handle#}" by (simp add: slot_ends_def bound_slot_def)
        then have "table_ends table' + slot_ends ?slot = add_mset handle (table_ends (put_slot (unat fd) kernel_fd_slot_clear table)) + slot_ends ?slot"
          using put(2) put_clear_owned(2) [OF so i] by (simp add: t)
        then show ?thesis by (rule add_right_imp_eq)
      qed
      then have "handle_count (fd_pty w') handle = Suc ?n" using c n by simp
      then show ?thesis using y t True put(4,5) unfolding if_P [OF True] bindable_def
        by (simp add: Let_def kernel_fd_describe_def bound_slot_def)
    next
      case no: False
      have t: "table' = put_slot (unat fd) kernel_fd_slot_clear table" "res = VFS_INVALID_ARGUMENT" using b True no by simp_all
      then have "handle_count (fd_pty w') handle = ?n" using c n by simp
      then show ?thesis using no t True put_slot_owned(4,5) [OF so i] unfolding if_P [OF True] bindable_def
        by (simp add: Let_def kernel_fd_describe_def)
    qed
  qed
qed

theorem fd_bind_exact_witness:
  "\<exists>table fd h (w :: u64 ramfs_state fd_world) table' w'. kernel_fd_describe table fd = Some (FD_PTY, 3) \<and>
    slot_pty (fd_slots table ! unat fd) = h \<and> handle_count (fd_pty w) h = 1 \<and>
    kernel_fd_bind_pty table fd h 3 w = (VFS_INVALID_ARGUMENT, table', w') \<and> handle_count (fd_pty w') h = 0"
proof -
  obtain S m table where S: "fd_run (ram_tables ram_sample) [Init_table 0, New_pair, Bind_end 0 3 m 3, Drop_end 0]
      (fd_boot 1 (snd (vfs_init 65536 ram_made)) fresh_pty) = Some S" "table \<in> set (system_tables S)"
    "fd_initialized table" "fd_slots table ! 3 = bound_slot m 3" "handle_count (fd_pty (system_world S)) m = 1"
    using fd_terminal_run by blast
  obtain res table' w' where r: "kernel_fd_bind_pty table 3 m 3 (system_world S) = (res, table', w')" by (metis prod.exhaust)
  have "res = VFS_INVALID_ARGUMENT \<and> handle_count (fd_pty w') m = 0"
    using fd_bind_exact [OF ram_made_ok(1,4,5) fresh_pty_init S(1,2) r] S(3,4,5)
    by (simp add: bound_slot_def kernel_fd_access_valid_def Let_def)
  moreover have "kernel_fd_describe table 3 = Some (FD_PTY, 3)"
    using S(3,4) by (simp add: kernel_fd_describe_def bound_slot_def kernel_fd_access_valid_def Let_def)
  ultimately show ?thesis using r S(4,5)
    by (intro exI [of _ table] exI [of _ "3::u32"] exI [of _ m] exI [of _ "system_world S"] exI [of _ table'] exI [of _ w'])
      (simp add: bound_slot_def)
qed

end
