(* ===== verification/Block.thy ===== *)
theory Block
  imports Prelude
begin

text \<open>
  kernel/core/block_device.c and kernel/core/block_slice.c: the registry of block devices,
  the checks in front of every transfer and the slices, devices that are a range of another
  device. A device is known by its address; a slice begins with its device, so both have one
  address. The drivers are not part of these files: the parameter \<open>env\<close> gives the table of
  driver functions at an address, on a machine state \<open>'m\<close>, and the address of the table
  \<open>slice_ops\<close>. A buffer is the list of its bytes (\<open>None\<close>: a NULL pointer); a transfer that
  goes through slices is a chain of calls that need not end, and is \<open>None\<close> when it does not.
\<close>

section \<open>State\<close>

abbreviation (input) BLOCK_DEVICE_MAX_DEVICES :: nat where "BLOCK_DEVICE_MAX_DEVICES \<equiv> 8"

datatype block_device_result = BLOCK_OK | BLOCK_INVALID_ARGUMENT | BLOCK_NOT_FOUND | BLOCK_OUT_OF_RANGE
  | BLOCK_READ_ONLY | BLOCK_IO_ERROR | BLOCK_REGISTRY_FULL | BLOCK_ALREADY_REGISTERED

record block_device =
  bd_name :: "u8 list option"
  bd_logical_block_size :: u32
  bd_block_count :: u64
  bd_read_only :: bool
  bd_context :: u64
  bd_ops :: u64

record block_device_slice =
  slice_parent :: u64
  slice_parent_first_block :: u64

record 'm block_driver =
  driver_read :: "(u64 \<Rightarrow> u64 \<Rightarrow> u32 \<Rightarrow> u8 list \<Rightarrow> 'm \<Rightarrow> (block_device_result \<times> u8 list) \<times> 'm) option"
  driver_write :: "(u64 \<Rightarrow> u64 \<Rightarrow> u32 \<Rightarrow> u8 list \<Rightarrow> 'm \<Rightarrow> block_device_result \<times> 'm) option"
  driver_flush :: "(u64 \<Rightarrow> 'm \<Rightarrow> block_device_result \<times> 'm) option"

record 'm block_env =
  block_driver_at :: "u64 \<Rightarrow> 'm block_driver"
  slice_ops :: u64

record block_registry =
  block_devices :: "u64 list"
  block_devices_count :: nat
  device_at :: "u64 \<Rightarrow> block_device"
  slice_at :: "u64 \<Rightarrow> block_device_slice"

section \<open>Names and checks\<close>

fun name_chars_equal :: "u8 list \<Rightarrow> u8 list \<Rightarrow> bool" where
  "name_chars_equal (l # left) (r # right) = (if l \<noteq> r then False else name_chars_equal left right)"
| "name_chars_equal [] right = (right = [])"
| "name_chars_equal left [] = (left = [])"

definition block_device_name_equal :: "u8 list option \<Rightarrow> u8 list option \<Rightarrow> bool" where
  "block_device_name_equal left right = (case (left, right) of
     (Some l, Some r) \<Rightarrow> name_chars_equal l r | _ \<Rightarrow> False)"

definition block_device_is_registered :: "block_registry \<Rightarrow> u64 \<Rightarrow> bool" where
  "block_device_is_registered reg device \<longleftrightarrow> device \<noteq> 0 \<and>
     list_ex (\<lambda>index. block_devices reg ! index = device) [0..<block_devices_count reg]"

text \<open>Whether a function pointer of a table is NULL; the table of the slices has no \<open>flush\<close>.\<close>

definition ops_read_null :: "'m block_env \<Rightarrow> u64 \<Rightarrow> bool" where
  "ops_read_null env ops \<longleftrightarrow> ops \<noteq> slice_ops env \<and> driver_read (block_driver_at env ops) = None"

definition ops_write_null :: "'m block_env \<Rightarrow> u64 \<Rightarrow> bool" where
  "ops_write_null env ops \<longleftrightarrow> ops \<noteq> slice_ops env \<and> driver_write (block_driver_at env ops) = None"

definition ops_flush_null :: "'m block_env \<Rightarrow> u64 \<Rightarrow> bool" where
  "ops_flush_null env ops \<longleftrightarrow> ops = slice_ops env \<or> driver_flush (block_driver_at env ops) = None"

definition block_device_validate_descriptor :: "'m block_env \<Rightarrow> block_registry \<Rightarrow> u64 \<Rightarrow> block_device_result" where
  "block_device_validate_descriptor env reg device = (let d = device_at reg device in
     if device = 0 \<or> bd_name d = None \<or> bd_name d = Some [] \<or> bd_ops d = 0 \<or> ops_read_null env (bd_ops d) \<or>
        bd_logical_block_size d = 0 \<or> bd_block_count d = 0 then BLOCK_INVALID_ARGUMENT
     else if bd_block_count d > UINT64_MAX div ucast (bd_logical_block_size d) then BLOCK_INVALID_ARGUMENT
     else if \<not> bd_read_only d \<and> ops_write_null env (bd_ops d) then BLOCK_INVALID_ARGUMENT
     else BLOCK_OK)"

definition block_device_validate_request ::
  "'m block_env \<Rightarrow> block_registry \<Rightarrow> u64 \<Rightarrow> u64 \<Rightarrow> u32 \<Rightarrow> u8 list option \<Rightarrow> block_device_result" where
  "block_device_validate_request env reg device first_block block_count buffer =
     (if device = 0 \<or> buffer = None \<or> block_count = 0 then BLOCK_INVALID_ARGUMENT
      else if block_device_validate_descriptor env reg device \<noteq> BLOCK_OK then BLOCK_INVALID_ARGUMENT
      else if \<not> block_device_is_registered reg device then BLOCK_NOT_FOUND
      else let d = device_at reg device in
        if bd_block_count d = 0 \<or> first_block \<ge> bd_block_count d \<or> ucast block_count > bd_block_count d - first_block
        then BLOCK_OUT_OF_RANGE else BLOCK_OK)"

section \<open>The registry\<close>

definition block_device_init :: "block_registry \<Rightarrow> block_registry" where
  "block_device_init reg = reg\<lparr>block_devices := map (\<lambda>_. 0) (block_devices reg), block_devices_count := 0\<rparr>"

definition block_device_register :: "'m block_env \<Rightarrow> u64 \<Rightarrow> block_registry \<Rightarrow> block_device_result \<times> block_registry" where
  "block_device_register env device reg =
     (let validation = block_device_validate_descriptor env reg device in
      if validation \<noteq> BLOCK_OK then (validation, reg)
      else if list_ex (\<lambda>index. block_devices reg ! index = device \<or>
          block_device_name_equal (bd_name (device_at reg (block_devices reg ! index))) (bd_name (device_at reg device)))
        [0..<block_devices_count reg] then (BLOCK_ALREADY_REGISTERED, reg)
      else if block_devices_count reg \<ge> BLOCK_DEVICE_MAX_DEVICES then (BLOCK_REGISTRY_FULL, reg)
      else (BLOCK_OK, reg\<lparr>block_devices := (block_devices reg)[block_devices_count reg := device],
             block_devices_count := block_devices_count reg + 1\<rparr>))"

definition block_device_count :: "block_registry \<Rightarrow> nat" where
  "block_device_count reg = block_devices_count reg"

definition block_device_get :: "block_registry \<Rightarrow> nat \<Rightarrow> u64" where
  "block_device_get reg index = (if index \<ge> block_devices_count reg then 0 else block_devices reg ! index)"

definition block_device_find :: "block_registry \<Rightarrow> u8 list option \<Rightarrow> u64" where
  "block_device_find reg name =
     (if name = None \<or> name = Some [] then 0
      else case find (\<lambda>index. block_device_name_equal (bd_name (device_at reg (block_devices reg ! index))) name)
          [0..<block_devices_count reg] of
        None \<Rightarrow> 0 | Some index \<Rightarrow> block_devices reg ! index)"

section \<open>Slices\<close>

definition block_device_slice_translate :: "u64 \<Rightarrow> u64 \<Rightarrow> u64 \<Rightarrow> u32 \<Rightarrow> u64 option" where
  "block_device_slice_translate parent_first_block slice_block_count first_block block_count =
     (if slice_block_count = 0 \<or> block_count = 0 \<or> first_block \<ge> slice_block_count \<or>
         ucast block_count > slice_block_count - first_block \<or> parent_first_block > UINT64_MAX - first_block
      then None else Some (parent_first_block + first_block))"

text \<open>The part that \<open>slice_read\<close> and \<open>slice_write\<close> share: the first block in the parent.\<close>

definition slice_request :: "block_registry \<Rightarrow> u64 \<Rightarrow> u64 \<Rightarrow> u32 \<Rightarrow> u64 option" where
  "slice_request reg self first_block block_count =
     (if self = 0 \<or> slice_parent (slice_at reg self) = 0 then None
      else block_device_slice_translate (slice_parent_first_block (slice_at reg self)) (bd_block_count (device_at reg self))
        first_block block_count)"

definition block_device_slice_register ::
  "'m block_env \<Rightarrow> u64 \<Rightarrow> u8 list option \<Rightarrow> u64 \<Rightarrow> u64 \<Rightarrow> u64 \<Rightarrow> bool \<Rightarrow> block_registry \<Rightarrow> block_device_result \<times> block_registry" where
  "block_device_slice_register env self name parent parent_first_block block_count read_only reg =
     (let p = device_at reg parent in
      if self = 0 \<or> name = None \<or> name = Some [] \<or> parent = 0 \<or> bd_name p = None \<or>
         bd_logical_block_size p = 0 \<or> bd_block_count p = 0 then (BLOCK_INVALID_ARGUMENT, reg)
      else if block_device_find reg (bd_name p) \<noteq> parent \<or> parent_first_block \<ge> bd_block_count p \<or> block_count = 0 \<or>
         block_count > bd_block_count p - parent_first_block then (BLOCK_OUT_OF_RANGE, reg)
      else if bd_read_only p \<and> \<not> read_only then (BLOCK_READ_ONLY, reg)
      else block_device_register env self
        (reg\<lparr>slice_at := (slice_at reg)(self := \<lparr>slice_parent = parent, slice_parent_first_block = parent_first_block\<rparr>),
          device_at := (device_at reg)(self := \<lparr>bd_name = name, bd_logical_block_size = bd_logical_block_size p,
            bd_block_count = block_count, bd_read_only = read_only \<or> bd_read_only p, bd_context = self,
            bd_ops = slice_ops env\<rparr>)\<rparr>))"

section \<open>Transfers\<close>

partial_function (option) block_device_read ::
  "'m block_env \<Rightarrow> block_registry \<Rightarrow> u64 \<Rightarrow> u64 \<Rightarrow> u32 \<Rightarrow> u8 list option \<Rightarrow> 'm \<Rightarrow>
    ((block_device_result \<times> u8 list option) \<times> 'm) option" where
  "block_device_read env reg device first_block block_count buffer m =
     (let validation = block_device_validate_request env reg device first_block block_count buffer in
      if validation \<noteq> BLOCK_OK then Some ((validation, buffer), m)
      else let d = device_at reg device in
        if bd_ops d = 0 \<or> ops_read_null env (bd_ops d) then Some ((BLOCK_IO_ERROR, buffer), m)
        else if bd_ops d = slice_ops env then
          (case slice_request reg (bd_context d) first_block block_count of
             None \<Rightarrow> Some ((BLOCK_OUT_OF_RANGE, buffer), m)
           | Some parent_first \<Rightarrow>
               block_device_read env reg (slice_parent (slice_at reg (bd_context d))) parent_first block_count buffer m)
        else case the (driver_read (block_driver_at env (bd_ops d))) (bd_context d) first_block block_count (the buffer) m of
          ((result, bytes), m) \<Rightarrow> Some ((result, Some bytes), m))"

partial_function (option) block_device_write ::
  "'m block_env \<Rightarrow> block_registry \<Rightarrow> u64 \<Rightarrow> u64 \<Rightarrow> u32 \<Rightarrow> u8 list option \<Rightarrow> 'm \<Rightarrow> (block_device_result \<times> 'm) option" where
  "block_device_write env reg device first_block block_count buffer m =
     (let validation = block_device_validate_request env reg device first_block block_count buffer in
      if validation \<noteq> BLOCK_OK then Some (validation, m)
      else let d = device_at reg device in
        if bd_read_only d then Some (BLOCK_READ_ONLY, m)
        else if bd_ops d = 0 \<or> ops_write_null env (bd_ops d) then Some (BLOCK_IO_ERROR, m)
        else if bd_ops d = slice_ops env then
          (case slice_request reg (bd_context d) first_block block_count of
             None \<Rightarrow> Some (BLOCK_OUT_OF_RANGE, m)
           | Some parent_first \<Rightarrow>
               block_device_write env reg (slice_parent (slice_at reg (bd_context d))) parent_first block_count buffer m)
        else Some (the (driver_write (block_driver_at env (bd_ops d))) (bd_context d) first_block block_count (the buffer) m))"

definition block_device_flush :: "'m block_env \<Rightarrow> block_registry \<Rightarrow> u64 \<Rightarrow> 'm \<Rightarrow> block_device_result \<times> 'm" where
  "block_device_flush env reg device m =
     (if device = 0 then (BLOCK_INVALID_ARGUMENT, m)
      else let validation = block_device_validate_descriptor env reg device in
        if validation \<noteq> BLOCK_OK then (validation, m)
        else if \<not> block_device_is_registered reg device then (BLOCK_NOT_FOUND, m)
        else let d = device_at reg device in
          if bd_read_only d \<or> ops_flush_null env (bd_ops d) then (BLOCK_OK, m)
          else the (driver_flush (block_driver_at env (bd_ops d))) (bd_context d) m)"

fun flush_devices :: "'m block_env \<Rightarrow> block_registry \<Rightarrow> u64 list \<Rightarrow> 'm \<Rightarrow> block_device_result \<times> 'm" where
  "flush_devices env reg [] m = (BLOCK_OK, m)"
| "flush_devices env reg (device # rest) m = (case block_device_flush env reg device m of (result, m) \<Rightarrow>
     if result \<noteq> BLOCK_OK then (result, m) else flush_devices env reg rest m)"

definition block_device_flush_all :: "'m block_env \<Rightarrow> block_registry \<Rightarrow> 'm \<Rightarrow> block_device_result \<times> 'm" where
  "block_device_flush_all env reg m = flush_devices env reg (take (block_devices_count reg) (block_devices reg)) m"

end
