(* ===== verification/BfsDisk.thy ===== *)
theory BfsDisk
  imports Validate Vfs Block
begin

text \<open>
  kernel/fs/boringfs_vfs.c, the part below the operations of the file system: the cache of one
  block, reads and writes of any bytes through it, object records, the bitmap, the data of an
  object and the scans of a directory. These functions work on the mounted volume and the
  machine behind its device, a pair \<open>'m bfs_disk\<close>. The block layer and the heap are the
  parameter \<open>env\<close>: a read of blocks gives its success and what it leaves in the buffer, also
  when it fails. A function that returns false or gives something back is an option.
\<close>

section \<open>State\<close>

record boringfs_vfs =
  bfs_device :: u64
  bfs_read_only :: bool
  bfs_superblock :: boringfs_superblock
  bfs_source_size :: u64
  bfs_nodes :: u64
  bfs_prepared :: "bool list"
  bfs_node_count :: u32
  bfs_block_cache :: "u8 list"
  bfs_cached_block :: u32
  bfs_cache_valid :: bool

record 'm bfs_env =
  bfs_read_blocks :: "u64 \<Rightarrow> u64 \<Rightarrow> u32 \<Rightarrow> u8 list \<Rightarrow> 'm \<Rightarrow> (bool \<times> u8 list) \<times> 'm"
  bfs_write_blocks :: "u64 \<Rightarrow> u64 \<Rightarrow> u32 \<Rightarrow> u8 list \<Rightarrow> 'm \<Rightarrow> bool \<times> 'm"
  bfs_operations :: u64

type_synonym 'm bfs_disk = "boringfs_vfs \<times> 'm"

abbreviation (input) BORINGFS_NULL_OBJECT_ID :: u32 where "BORINGFS_NULL_OBJECT_ID \<equiv> 0"
abbreviation (input) BORINGFS_ROOT_OBJECT_ID :: u32 where "BORINGFS_ROOT_OBJECT_ID \<equiv> 1"
abbreviation (input) TYPE_REGULAR :: u8 where "TYPE_REGULAR \<equiv> 1"
abbreviation (input) TYPE_DIRECTORY :: u8 where "TYPE_DIRECTORY \<equiv> 2"

text \<open>Going on with what a function gave back, if it did not fail.\<close>

definition disk_bind :: "'a option \<times> 'd \<Rightarrow> ('a \<Rightarrow> 'd \<Rightarrow> 'b option \<times> 'd) \<Rightarrow> 'b option \<times> 'd" where
  "disk_bind r f = (case r of (None, d) \<Rightarrow> (None, d) | (Some x, d) \<Rightarrow> f x d)"

definition names_equal :: "u8 list \<Rightarrow> u16 \<Rightarrow> u8 list \<Rightarrow> bool" where
  "names_equal disk_name disk_length name \<longleftrightarrow>
     unat disk_length = length name \<and> list_all (\<lambda>i. disk_name ! i = name ! i) [0..<length name]"

definition map_fs_blocks_to_sectors :: "u32 \<Rightarrow> u32 \<Rightarrow> (u64 \<times> u64) option" where
  "map_fs_blocks_to_sectors first_fs_block fs_block_count =
     (case checked_mul_u64 (ucast first_fs_block) 8 of None \<Rightarrow> None
      | Some first_sector \<Rightarrow> (case checked_mul_u64 (ucast fs_block_count) 8 of None \<Rightarrow> None
        | Some sector_count \<Rightarrow> Some (first_sector, sector_count)))"

section \<open>The cache\<close>

definition load_cached_block :: "'m bfs_env \<Rightarrow> u32 \<Rightarrow> 'm bfs_disk \<Rightarrow> bool \<times> 'm bfs_disk" where
  "load_cached_block env fs_block = (\<lambda>(b, m).
     if fs_block \<ge> sb_total_blocks (bfs_superblock b) then (False, b, m)
     else case map_fs_blocks_to_sectors fs_block 1 of None \<Rightarrow> (False, b, m)
     | Some (first_sector, sector_count) \<Rightarrow>
         if sector_count > ucast UINT32_MAX then (False, b, m)
         else case bfs_read_blocks env (bfs_device b) first_sector (ucast sector_count) (bfs_block_cache b) m of ((ok, bytes), m) \<Rightarrow>
           if \<not> ok then (False, b\<lparr>bfs_block_cache := bytes\<rparr>, m)
           else (True, b\<lparr>bfs_block_cache := bytes, bfs_cached_block := fs_block, bfs_cache_valid := True\<rparr>, m))"

definition store_cached_block :: "'m bfs_env \<Rightarrow> u32 \<Rightarrow> 'm bfs_disk \<Rightarrow> bool \<times> 'm bfs_disk" where
  "store_cached_block env fs_block = (\<lambda>(b, m).
     if bfs_read_only b \<or> fs_block \<ge> sb_total_blocks (bfs_superblock b) then (False, b\<lparr>bfs_cache_valid := False\<rparr>, m)
     else case map_fs_blocks_to_sectors fs_block 1 of None \<Rightarrow> (False, b\<lparr>bfs_cache_valid := False\<rparr>, m)
     | Some (first_sector, sector_count) \<Rightarrow>
         if sector_count > ucast UINT32_MAX then (False, b\<lparr>bfs_cache_valid := False\<rparr>, m)
         else case bfs_write_blocks env (bfs_device b) first_sector (ucast sector_count) (bfs_block_cache b) m of (ok, m) \<Rightarrow>
           if \<not> ok then (False, b\<lparr>bfs_cache_valid := False\<rparr>, m)
           else (True, b\<lparr>bfs_cached_block := fs_block, bfs_cache_valid := True\<rparr>, m))"

text \<open>The load at the top of both transfer loops, unless the cache already has the block.\<close>

definition cache_block :: "'m bfs_env \<Rightarrow> u32 \<Rightarrow> 'm bfs_disk \<Rightarrow> bool \<times> 'm bfs_disk" where
  "cache_block env fs_block d =
     (if \<not> bfs_cache_valid (fst d) \<or> bfs_cached_block (fst d) \<noteq> fs_block then load_cached_block env fs_block d else (True, d))"

text \<open>What is read of one block before the end of the block or of the request.\<close>

definition block_chunk :: "u64 \<Rightarrow> u64 \<Rightarrow> u64" where
  "block_chunk current remaining = (let chunk = 4096 - current mod 4096 in if chunk > remaining then remaining else chunk)"

lemma block_chunk_bounds: "remaining \<noteq> 0 \<Longrightarrow> 0 < unat (block_chunk current remaining)"
  "unat (block_chunk current remaining) \<le> unat remaining"
  "unat (current mod 4096) + unat (block_chunk current remaining) \<le> 4096"
proof -
  have m: "unat (current mod 4096) < 4096" by (simp add: unat_mod)
  then have s: "unat (4096 - current mod 4096) = 4096 - unat (current mod 4096)"
    by (subst unat_sub) (simp_all add: word_le_nat_alt)
  show "remaining \<noteq> 0 \<Longrightarrow> 0 < unat (block_chunk current remaining)" using m s by (auto simp: block_chunk_def Let_def unat_gt_0)
  show "unat (block_chunk current remaining) \<le> unat remaining" by (auto simp: block_chunk_def Let_def word_less_nat_alt)
  show "unat (current mod 4096) + unat (block_chunk current remaining) \<le> 4096" using m s by (auto simp: block_chunk_def Let_def word_less_nat_alt)
qed

lemma block_chunk_decreases: "remaining \<noteq> 0 \<Longrightarrow> unat (remaining - block_chunk current remaining) < unat remaining"
  using block_chunk_bounds(1) [of remaining current] block_chunk_bounds(2) [of current remaining]
  by (subst unat_sub) (simp_all add: word_le_nat_alt)

function source_read_from :: "'m bfs_env \<Rightarrow> u64 \<Rightarrow> u64 \<Rightarrow> 'm bfs_disk \<Rightarrow> u8 list option \<times> 'm bfs_disk" where
  "source_read_from env current remaining d =
     (if remaining = 0 then (Some [], d)
      else let fs_block64 = current div 4096; in_block = current mod 4096; chunk = block_chunk current remaining in
        if fs_block64 > ucast UINT32_MAX \<or> fs_block64 \<ge> ucast (sb_total_blocks (bfs_superblock (fst d))) then (None, d)
        else case cache_block env (ucast fs_block64) d of (ok, d) \<Rightarrow>
          if \<not> ok then (None, d)
          else disk_bind (source_read_from env (current + chunk) (remaining - chunk) d)
            (\<lambda>rest d'. (Some (sub_buffer (bfs_block_cache (fst d)) (unat in_block) (unat chunk) @ rest), d')))"
  by pat_completeness auto
termination
proof (relation "measure (\<lambda>(_, _, remaining, _). unat remaining)")
  fix env :: "'m bfs_env" and current remaining :: u64 and d :: "'m bfs_disk" and chunk :: u64 and x y and b :: bool and d'
  assume r: "remaining \<noteq> 0" and c: "chunk = block_chunk current remaining"
  show "((env, current + chunk, remaining - chunk, d'), env, current, remaining, d) \<in> measure (\<lambda>(_, _, remaining, _). unat remaining)"
    using block_chunk_decreases [OF r] by (simp add: c)
qed simp_all

declare source_read_from.simps [simp del]

definition boringfs_source_read :: "'m bfs_env \<Rightarrow> u64 \<Rightarrow> u64 \<Rightarrow> 'm bfs_disk \<Rightarrow> u8 list option \<times> 'm bfs_disk" where
  "boringfs_source_read env offset len d =
     (if offset > bfs_source_size (fst d) \<or> len > bfs_source_size (fst d) - offset then (None, d)
      else source_read_from env offset len d)"

function source_write_from :: "'m bfs_env \<Rightarrow> u64 \<Rightarrow> u64 \<Rightarrow> u8 list \<Rightarrow> 'm bfs_disk \<Rightarrow> bool \<times> 'm bfs_disk" where
  "source_write_from env current remaining source d =
     (if remaining = 0 then (True, d)
      else let fs_block64 = current div 4096; in_block = current mod 4096; chunk = block_chunk current remaining in
        if fs_block64 > ucast UINT32_MAX \<or> fs_block64 \<ge> ucast (sb_total_blocks (bfs_superblock (fst d))) then (False, d)
        else case cache_block env (ucast fs_block64) d of (ok, b, m) \<Rightarrow>
          if \<not> ok then (False, b, m)
          else case store_cached_block env (ucast fs_block64)
              (b\<lparr>bfs_block_cache := splice (bfs_block_cache b) (unat in_block) (take (unat chunk) source)\<rparr>, m) of (ok, d) \<Rightarrow>
            if \<not> ok then (False, d)
            else source_write_from env (current + chunk) (remaining - chunk) (drop (unat chunk) source) d)"
  by pat_completeness auto
termination by (relation "measure (\<lambda>(_, _, remaining, _, _). unat remaining)") (auto intro: block_chunk_decreases)

declare source_write_from.simps [simp del]

definition boringfs_source_write :: "'m bfs_env \<Rightarrow> u64 \<Rightarrow> u8 list \<Rightarrow> 'm bfs_disk \<Rightarrow> bool \<times> 'm bfs_disk" where
  "boringfs_source_write env offset source d =
     (let len = word_of_nat (length source) in
      if bfs_read_only (fst d) \<or> offset > bfs_source_size (fst d) \<or> len > bfs_source_size (fst d) - offset then (False, d)
      else source_write_from env offset len source d)"

definition write_zeroed_block :: "'m bfs_env \<Rightarrow> u32 \<Rightarrow> u8 list \<Rightarrow> 'm bfs_disk \<Rightarrow> bool \<times> 'm bfs_disk" where
  "write_zeroed_block env fs_block prefix = (\<lambda>(b, m).
     if fs_block < sb_data_start (bfs_superblock b) \<or> fs_block \<ge> sb_total_blocks (bfs_superblock b) \<or> length prefix > BORINGFS_BLOCK_SIZE
     then (False, b, m)
     else store_cached_block env fs_block
       (b\<lparr>bfs_block_cache := splice (zero_bytes (bfs_block_cache b) BORINGFS_BLOCK_SIZE) 0 prefix\<rparr>, m))"

section \<open>Object records and the bitmap\<close>

definition object_record_offset :: "boringfs_vfs \<Rightarrow> u32 \<Rightarrow> u64 option" where
  "object_record_offset b object_id =
     (if object_id = BORINGFS_NULL_OBJECT_ID \<or> object_id > sb_object_count (bfs_superblock b) then None
      else case checked_mul_u64 (ucast (sb_object_table_start (bfs_superblock b))) 4096 of None \<Rightarrow> None
      | Some table_base \<Rightarrow> (case checked_mul_u64 (ucast (object_id - 1)) 128 of None \<Rightarrow> None
        | Some slot_offset \<Rightarrow> checked_add_u64 table_base slot_offset))"

text \<open>The object and its raw record; the computation of the offset is written out again in the code.\<close>

definition decode_object :: "'m bfs_env \<Rightarrow> u32 \<Rightarrow> 'm bfs_disk \<Rightarrow> (boringfs_object \<times> u8 list) option \<times> 'm bfs_disk" where
  "decode_object env object_id d =
     (if object_id = BORINGFS_NULL_OBJECT_ID \<or> object_id > sb_object_count (bfs_superblock (fst d)) then (None, d)
      else case checked_mul_u64 (ucast (sb_object_table_start (bfs_superblock (fst d)))) 4096 of None \<Rightarrow> (None, d)
      | Some table_base \<Rightarrow> (case checked_mul_u64 (ucast (object_id - 1)) 128 of None \<Rightarrow> (None, d)
        | Some slot_offset \<Rightarrow> (case checked_add_u64 table_base slot_offset of None \<Rightarrow> (None, d)
          | Some absolute \<Rightarrow> disk_bind (boringfs_source_read env absolute 128 d) (\<lambda>raw d.
              case boringfs_decode_object (Some raw) of None \<Rightarrow> (None, d) | Some object \<Rightarrow> (Some (object, raw), d)))))"

definition write_object_raw :: "'m bfs_env \<Rightarrow> u32 \<Rightarrow> u8 list \<Rightarrow> 'm bfs_disk \<Rightarrow> bool \<times> 'm bfs_disk" where
  "write_object_raw env object_id raw d = (case object_record_offset (fst d) object_id of None \<Rightarrow> (False, d)
     | Some offset \<Rightarrow> boringfs_source_write env offset raw d)"

text \<open>The record is encoded into an array of 128 bytes on the stack.\<close>

definition write_object :: "'m bfs_env \<Rightarrow> boringfs_object \<Rightarrow> 'm bfs_disk \<Rightarrow> bool \<times> 'm bfs_disk" where
  "write_object env object d = (case boringfs_encode_object (Some (replicate 128 0)) (Some object) of
     (ok, raw) \<Rightarrow> if \<not> ok then (False, d) else write_object_raw env (obj_object_id object) (the raw) d)"

definition clear_object :: "'m bfs_env \<Rightarrow> u32 \<Rightarrow> 'm bfs_disk \<Rightarrow> bool \<times> 'm bfs_disk" where
  "clear_object env object_id d = write_object_raw env object_id (replicate 128 0) d"

definition bitmap_location :: "boringfs_vfs \<Rightarrow> u32 \<Rightarrow> (u64 \<times> u8) option" where
  "bitmap_location b block =
     (if block \<ge> sb_total_blocks (bfs_superblock b) then None
      else case checked_mul_u64 (ucast (sb_bitmap_start (bfs_superblock b))) 4096 of None \<Rightarrow> None
      | Some bitmap_base \<Rightarrow> (case checked_add_u64 bitmap_base (ucast block div 8) of None \<Rightarrow> None
        | Some offset \<Rightarrow> Some (offset, push_bit (unat (block mod 8)) 1)))"

definition bitmap_get :: "'m bfs_env \<Rightarrow> u32 \<Rightarrow> 'm bfs_disk \<Rightarrow> bool option \<times> 'm bfs_disk" where
  "bitmap_get env block d = (case bitmap_location (fst d) block of None \<Rightarrow> (None, d)
     | Some (offset, bits) \<Rightarrow> disk_bind (boringfs_source_read env offset 1 d) (\<lambda>byte d. (Some (byte ! 0 AND bits \<noteq> 0), d)))"

definition bitmap_set :: "'m bfs_env \<Rightarrow> u32 \<Rightarrow> bool \<Rightarrow> 'm bfs_disk \<Rightarrow> bool \<times> 'm bfs_disk" where
  "bitmap_set env block allocated d = (case bitmap_location (fst d) block of None \<Rightarrow> (False, d)
     | Some (offset, bits) \<Rightarrow>
         if block < sb_data_start (bfs_superblock (fst d)) then (False, d)
         else case boringfs_source_read env offset 1 d of
           (None, d) \<Rightarrow> (False, d)
         | (Some byte, d) \<Rightarrow> boringfs_source_write env offset [if allocated then byte ! 0 OR bits else byte ! 0 AND NOT bits] d)"

text \<open>The first block of a list that is free; a block that cannot be read ends the search.\<close>

fun first_free_block :: "'m bfs_env \<Rightarrow> u32 list \<Rightarrow> 'm bfs_disk \<Rightarrow> u32 option \<times> 'm bfs_disk" where
  "first_free_block env [] d = (None, d)"
| "first_free_block env (block # rest) d = disk_bind (bitmap_get env block d)
     (\<lambda>allocated d. if \<not> allocated then (Some block, d) else first_free_block env rest d)"

definition find_free_block :: "'m bfs_env \<Rightarrow> u32 \<Rightarrow> 'm bfs_disk \<Rightarrow> u32 option \<times> 'm bfs_disk" where
  "find_free_block env preferred d =
     (let sb = bfs_superblock (fst d) in
      case (if preferred \<ge> sb_data_start sb \<and> preferred < sb_total_blocks sb then bitmap_get env preferred d else (None, d)) of
        (Some False, d) \<Rightarrow> (Some preferred, d)
      | (_, d) \<Rightarrow> first_free_block env (word_range (unat (sb_data_start sb)) (unat (sb_total_blocks sb))) d)"

fun first_free_object :: "'m bfs_env \<Rightarrow> u32 list \<Rightarrow> 'm bfs_disk \<Rightarrow> u32 option \<times> 'm bfs_disk" where
  "first_free_object env [] d = (None, d)"
| "first_free_object env (object_id # rest) d = disk_bind (decode_object env object_id d)
     (\<lambda>(object, raw) d. if bytes_all_zero raw then (Some object_id, d) else first_free_object env rest d)"

definition find_free_object :: "'m bfs_env \<Rightarrow> 'm bfs_disk \<Rightarrow> u32 option \<times> 'm bfs_disk" where
  "find_free_object env d = first_free_object env (word_range 2 (Suc (unat (sb_object_count (bfs_superblock (fst d)))))) d"

definition valid_new_name :: "u8 list \<Rightarrow> bool" where
  "valid_new_name name \<longleftrightarrow> name \<noteq> [] \<and> length name \<le> BORINGFS_MAX_FILENAME \<and> boringfs_utf8_valid (Some name) (length name) \<and>
     name \<noteq> [DOT] \<and> name \<noteq> [DOT, DOT] \<and> list_all (\<lambda>c. c \<noteq> 0 \<and> c \<noteq> SLASH) name"

definition object_type_to_vfs :: "u8 \<Rightarrow> vfs_node_type option" where
  "object_type_to_vfs type = (if type = TYPE_DIRECTORY then Some NODE_DIRECTORY
     else if type = TYPE_REGULAR then Some NODE_REGULAR else None)"

section \<open>The data of an object\<close>

text \<open>
  The inner loop of both transfers moves all that is wanted of one extent at once, so it runs
  once for each extent that is not skipped.
\<close>

fun object_read_extents :: "'m bfs_env \<Rightarrow> boringfs_extent list \<Rightarrow> u64 \<Rightarrow> u64 \<Rightarrow> 'm bfs_disk \<Rightarrow> u8 list option \<times> 'm bfs_disk" where
  "object_read_extents env [] offset remaining d = (if remaining = 0 then (Some [], d) else (None, d))"
| "object_read_extents env (extent # rest) offset remaining d =
     (if remaining = 0 then (Some [], d)
      else let sb = bfs_superblock (fst d) in
        if ext_block_count extent = 0 \<or> ext_start_block extent < sb_data_start sb then (None, d)
        else case checked_add_u64 (ucast (ext_start_block extent)) (ucast (ext_block_count extent)) of None \<Rightarrow> (None, d)
        | Some end_block \<Rightarrow>
            if end_block > ucast (sb_total_blocks sb) then (None, d)
            else case checked_mul_u64 (ucast (ext_block_count extent)) 4096 of None \<Rightarrow> (None, d)
            | Some extent_bytes \<Rightarrow>
                if offset \<ge> extent_bytes then object_read_extents env rest (offset - extent_bytes) remaining d
                else let available = extent_bytes - offset; chunk = (if available < remaining then available else remaining) in
                  case checked_mul_u64 (ucast (ext_start_block extent)) 4096 of None \<Rightarrow> (None, d)
                  | Some physical_base \<Rightarrow> (case checked_add_u64 physical_base offset of None \<Rightarrow> (None, d)
                    | Some physical \<Rightarrow> disk_bind (boringfs_source_read env physical chunk d) (\<lambda>bytes d.
                        disk_bind (object_read_extents env rest 0 (remaining - chunk) d) (\<lambda>more d. (Some (bytes @ more), d)))))"

definition object_read_exact :: "'m bfs_env \<Rightarrow> boringfs_object \<Rightarrow> u64 \<Rightarrow> u64 \<Rightarrow> 'm bfs_disk \<Rightarrow> u8 list option \<times> 'm bfs_disk" where
  "object_read_exact env object logical_offset len d =
     (if unat (obj_extent_count object) > BORINGFS_MAX_EXTENTS then (None, d)
      else object_read_extents env (take (unat (obj_extent_count object)) (obj_extents object)) logical_offset len d)"

fun extents_capacity :: "boringfs_extent list \<Rightarrow> u64 \<Rightarrow> u64 option" where
  "extents_capacity [] capacity = Some capacity"
| "extents_capacity (extent # rest) capacity =
     (if ext_block_count extent = 0 then None
      else case checked_mul_u64 (ucast (ext_block_count extent)) 4096 of None \<Rightarrow> None
      | Some extent_bytes \<Rightarrow> (case checked_add_u64 capacity extent_bytes of None \<Rightarrow> None
        | Some capacity \<Rightarrow> extents_capacity rest capacity))"

definition object_capacity :: "boringfs_object \<Rightarrow> u64 option" where
  "object_capacity object = (if unat (obj_extent_count object) > BORINGFS_MAX_EXTENTS then None
     else extents_capacity (take (unat (obj_extent_count object)) (obj_extents object)) 0)"

fun object_write_extents :: "'m bfs_env \<Rightarrow> boringfs_extent list \<Rightarrow> u64 \<Rightarrow> u8 list \<Rightarrow> 'm bfs_disk \<Rightarrow> bool \<times> 'm bfs_disk" where
  "object_write_extents env [] offset source d = (source = [], d)"
| "object_write_extents env (extent # rest) offset source d =
     (if source = [] then (True, d)
      else if ext_block_count extent = 0 then (False, d)
      else case checked_mul_u64 (ucast (ext_block_count extent)) 4096 of None \<Rightarrow> (False, d)
      | Some extent_bytes \<Rightarrow>
          if offset \<ge> extent_bytes then object_write_extents env rest (offset - extent_bytes) source d
          else let available = extent_bytes - offset; chunk = min (unat available) (length source) in
            case checked_mul_u64 (ucast (ext_start_block extent)) 4096 of None \<Rightarrow> (False, d)
            | Some physical_base \<Rightarrow> (case checked_add_u64 physical_base offset of None \<Rightarrow> (False, d)
              | Some physical \<Rightarrow> (case boringfs_source_write env physical (take chunk source) d of (ok, d) \<Rightarrow>
                  if \<not> ok then (False, d) else object_write_extents env rest 0 (drop chunk source) d)))"

definition object_write_exact :: "'m bfs_env \<Rightarrow> boringfs_object \<Rightarrow> u64 \<Rightarrow> u8 list \<Rightarrow> 'm bfs_disk \<Rightarrow> bool \<times> 'm bfs_disk" where
  "object_write_exact env object logical_offset source d =
     (if unat (obj_extent_count object) > BORINGFS_MAX_EXTENTS then (False, d)
      else object_write_extents env (take (unat (obj_extent_count object)) (obj_extents object)) logical_offset source d)"

text \<open>The blocks of an object in the order of its extents.\<close>

definition extent_block_list :: "boringfs_extent \<Rightarrow> u32 list" where
  "extent_block_list extent = map (\<lambda>k. ext_start_block extent + word_of_nat k) [0..<unat (ext_block_count extent)]"

definition object_block_list :: "boringfs_object \<Rightarrow> u32 list" where
  "object_block_list object = concat (map extent_block_list (take (unat (obj_extent_count object)) (obj_extents object)))"

text \<open>Marking blocks as used again, whatever comes of it.\<close>

fun retake_blocks :: "'m bfs_env \<Rightarrow> u32 list \<Rightarrow> 'm bfs_disk \<Rightarrow> 'm bfs_disk" where
  "retake_blocks env [] d = d"
| "retake_blocks env (block # rest) d = retake_blocks env rest (snd (bitmap_set env block True d))"

fun release_blocks :: "'m bfs_env \<Rightarrow> u32 list \<Rightarrow> u32 list \<Rightarrow> 'm bfs_disk \<Rightarrow> bool \<times> 'm bfs_disk" where
  "release_blocks env released [] d = (True, d)"
| "release_blocks env released (block # rest) d = (case bitmap_set env block False d of (ok, d) \<Rightarrow>
     if \<not> ok then (False, retake_blocks env released d) else release_blocks env (released @ [block]) rest d)"

definition release_object_blocks :: "'m bfs_env \<Rightarrow> boringfs_object \<Rightarrow> 'm bfs_disk \<Rightarrow> bool \<times> 'm bfs_disk" where
  "release_object_blocks env object d =
     (if unat (obj_extent_count object) > BORINGFS_MAX_EXTENTS then (False, d)
      else release_blocks env [] (object_block_list object) d)"

section \<open>Directories\<close>

definition bfs_validate_directory_record :: "'m bfs_env \<Rightarrow> u32 \<Rightarrow> u8 list \<Rightarrow> 'm bfs_disk \<Rightarrow>
    (boringfs_directory_record \<times> boringfs_object) option \<times> 'm bfs_disk" where
  "bfs_validate_directory_record env directory_id raw d =
     (case boringfs_decode_directory_record (Some raw) of None \<Rightarrow> (None, d)
      | Some rec \<Rightarrow>
          if dir_object_id rec = BORINGFS_NULL_OBJECT_ID \<or> dir_object_id rec > sb_object_count (bfs_superblock (fst d)) \<or>
             dir_name_length rec = 0 \<or> unat (dir_name_length rec) > BORINGFS_MAX_FILENAME \<or>
             dir_type_hint rec \<noteq> TYPE_REGULAR \<and> dir_type_hint rec \<noteq> TYPE_DIRECTORY \<or>
             dir_flags rec \<noteq> 0 \<or> \<not> bytes_all_zero (sub_buffer raw 248 8) \<or>
             \<not> boringfs_utf8_valid (Some (dir_name rec)) (unat (dir_name_length rec))
          then (None, d)
          else if dir_name_length rec = 1 \<and> dir_name rec ! 0 = DOT \<or>
             dir_name_length rec = 2 \<and> dir_name rec ! 0 = DOT \<and> dir_name rec ! 1 = DOT then (None, d)
          else if list_ex (\<lambda>i. dir_name rec ! i = 0 \<or> dir_name rec ! i = SLASH) [0..<unat (dir_name_length rec)] then (None, d)
          else if list_ex (\<lambda>i. dir_name rec ! i \<noteq> 0) [unat (dir_name_length rec)..<BORINGFS_MAX_FILENAME] then (None, d)
          else disk_bind (decode_object env (dir_object_id rec) d) (\<lambda>(target, object_raw) d.
            if obj_state target \<noteq> 1 \<or> obj_object_id target \<noteq> dir_object_id rec \<or> obj_parent_object_id target \<noteq> directory_id \<or>
               obj_type target \<noteq> dir_type_hint rec
            then (None, d) else (Some (rec, target), d)))"

text \<open>A slot that was read: its raw record, and what it says unless it is free.\<close>

type_synonym bfs_slot = "u8 list \<times> (boringfs_directory_record \<times> boringfs_object) option"

definition read_directory_slot :: "'m bfs_env \<Rightarrow> u32 \<Rightarrow> u64 \<Rightarrow> 'm bfs_disk \<Rightarrow> (vfs_result + bfs_slot) \<times> 'm bfs_disk" where
  "read_directory_slot env directory_id slot d =
     (case decode_object env directory_id d of
        (None, d) \<Rightarrow> (Inl VFS_CORRUPT, d)
      | (Some (directory, object_raw), d) \<Rightarrow>
          if obj_state directory \<noteq> 1 \<or> obj_type directory \<noteq> TYPE_DIRECTORY \<or> obj_size_bytes directory mod 256 \<noteq> 0 then (Inl VFS_CORRUPT, d)
          else if slot \<ge> obj_size_bytes directory div 256 then (Inl VFS_NOT_FOUND, d)
          else case checked_mul_u64 slot 256 of None \<Rightarrow> (Inl VFS_CORRUPT, d)
          | Some logical_offset \<Rightarrow> (case object_read_exact env directory logical_offset 256 d of
              (None, d) \<Rightarrow> (Inl VFS_CORRUPT, d)
            | (Some raw, d) \<Rightarrow>
                if bytes_all_zero raw then (Inr (raw, None), d)
                else case bfs_validate_directory_record env directory_id raw d of
                  (None, d) \<Rightarrow> (Inl VFS_CORRUPT, d)
                | (Some (rec, target), d) \<Rightarrow> (Inr (raw, Some (rec, target)), d)))"

text \<open>
  The loops over the slots of a directory, as recursion over the slots that are left. All of
  them end with the first result of a slot that is not \<open>VFS_OK\<close>.
\<close>

fun find_name_in :: "'m bfs_env \<Rightarrow> u32 \<Rightarrow> u8 list \<Rightarrow> u64 list \<Rightarrow> 'm bfs_disk \<Rightarrow>
    (vfs_result + u64 \<times> u8 list \<times> boringfs_directory_record \<times> boringfs_object) \<times> 'm bfs_disk" where
  "find_name_in env directory_id name [] d = (Inl VFS_NOT_FOUND, d)"
| "find_name_in env directory_id name (slot # rest) d = (case read_directory_slot env directory_id slot d of
     (Inl result, d) \<Rightarrow> (Inl result, d)
   | (Inr (raw, None), d) \<Rightarrow> find_name_in env directory_id name rest d
   | (Inr (raw, Some (rec, target)), d) \<Rightarrow>
       if names_equal (dir_name rec) (dir_name_length rec) name then (Inr (slot, raw, rec, target), d)
       else find_name_in env directory_id name rest d)"

definition directory_slots :: "boringfs_object \<Rightarrow> u64 list" where
  "directory_slots directory = word_range 0 (unat (obj_size_bytes directory div 256))"

definition find_directory_name :: "'m bfs_env \<Rightarrow> u32 \<Rightarrow> u8 list \<Rightarrow> 'm bfs_disk \<Rightarrow>
    (vfs_result + u64 \<times> u8 list \<times> boringfs_directory_record \<times> boringfs_object) \<times> 'm bfs_disk" where
  "find_directory_name env directory_id name d =
     (case decode_object env directory_id d of
        (None, d) \<Rightarrow> (Inl VFS_CORRUPT, d)
      | (Some (directory, raw), d) \<Rightarrow>
          if obj_state directory \<noteq> 1 \<or> obj_type directory \<noteq> TYPE_DIRECTORY \<or> obj_size_bytes directory mod 256 \<noteq> 0 then (Inl VFS_CORRUPT, d)
          else find_name_in env directory_id name (directory_slots directory) d)"

text \<open>The first free slot, and whether it is past the end of the directory.\<close>

fun find_hole_in :: "'m bfs_env \<Rightarrow> u32 \<Rightarrow> u64 \<Rightarrow> u64 list \<Rightarrow> 'm bfs_disk \<Rightarrow> (vfs_result + u64 \<times> bool) \<times> 'm bfs_disk" where
  "find_hole_in env directory_id record_count [] d = (Inr (record_count, True), d)"
| "find_hole_in env directory_id record_count (slot # rest) d = (case read_directory_slot env directory_id slot d of
     (Inl result, d) \<Rightarrow> (Inl result, d)
   | (Inr (raw, None), d) \<Rightarrow> (Inr (slot, False), d)
   | (Inr (raw, Some found), d) \<Rightarrow> find_hole_in env directory_id record_count rest d)"

definition find_directory_hole :: "'m bfs_env \<Rightarrow> u32 \<Rightarrow> boringfs_object \<Rightarrow> 'm bfs_disk \<Rightarrow> (vfs_result + u64 \<times> bool) \<times> 'm bfs_disk" where
  "find_directory_hole env directory_id directory d =
     (if obj_size_bytes directory mod 256 \<noteq> 0 then (Inl VFS_CORRUPT, d)
      else find_hole_in env directory_id (obj_size_bytes directory div 256) (directory_slots directory) d)"

fun all_slots_free :: "'m bfs_env \<Rightarrow> u32 \<Rightarrow> u64 list \<Rightarrow> 'm bfs_disk \<Rightarrow> (vfs_result + bool) \<times> 'm bfs_disk" where
  "all_slots_free env directory_id [] d = (Inr True, d)"
| "all_slots_free env directory_id (slot # rest) d = (case read_directory_slot env directory_id slot d of
     (Inl result, d) \<Rightarrow> (Inl result, d)
   | (Inr (raw, None), d) \<Rightarrow> all_slots_free env directory_id rest d
   | (Inr (raw, Some found), d) \<Rightarrow> (Inr False, d))"

definition directory_is_empty :: "'m bfs_env \<Rightarrow> u32 \<Rightarrow> boringfs_object \<Rightarrow> 'm bfs_disk \<Rightarrow> (vfs_result + bool) \<times> 'm bfs_disk" where
  "directory_is_empty env directory_id object d =
     (if obj_type object \<noteq> TYPE_DIRECTORY \<or> obj_size_bytes object mod 256 \<noteq> 0 then (Inl VFS_CORRUPT, d)
      else all_slots_free env directory_id (directory_slots object) d)"

text \<open>The directory with one more block, and the block; nothing is written yet.\<close>

definition extend_directory :: "'m bfs_env \<Rightarrow> boringfs_object \<Rightarrow> 'm bfs_disk \<Rightarrow>
    (vfs_result + boringfs_object \<times> u32) \<times> 'm bfs_disk" where
  "extend_directory env directory d =
     (let n = unat (obj_extent_count directory); last = obj_extents directory ! (n - 1) in
      if n > BORINGFS_MAX_EXTENTS then (Inl VFS_CORRUPT, d)
      else
        let preferred = (if n \<noteq> 0 \<and> ext_block_count last \<le> UINT32_MAX - ext_start_block last \<and>
              ext_start_block last + ext_block_count last < sb_total_blocks (bfs_superblock (fst d))
            then ext_start_block last + ext_block_count last else UINT32_MAX)
        in case find_free_block env preferred d of
          (None, d) \<Rightarrow> (Inl VFS_NO_SPACE, d)
        | (Some block, d) \<Rightarrow>
            if n \<noteq> 0 \<and> block = preferred then
              if ext_block_count last = UINT32_MAX then (Inl VFS_NO_SPACE, d)
              else (Inr (directory\<lparr>obj_extents := (obj_extents directory)[n - 1 := last\<lparr>ext_block_count := ext_block_count last + 1\<rparr>]\<rparr>, block), d)
            else if n = BORINGFS_MAX_EXTENTS then (Inl VFS_NO_SPACE, d)
            else (Inr (directory\<lparr>obj_extents := (obj_extents directory)[n := \<lparr>ext_start_block = block, ext_block_count = 1\<rparr>],
              obj_extent_count := obj_extent_count directory + 1\<rparr>, block), d))"

end
