(* ===== verification/BfsCache.thy ===== *)
theory BfsCache
  imports BfsDisk
begin

text \<open>
  The one-block cache of kernel/fs/boringfs_vfs.c is transparent: over a device that keeps the
  locale \<open>block_volume\<close>, reading and writing through it is reading and writing the bytes of
  the volume. The locale states what the cache relies on: a read that succeeds gives the
  block, a read changes nothing on the device, and a write changes no other block. It asks
  nothing of the buffer after a read that failed: a driver may have stored part of the data.
\<close>

locale block_volume =
  fixes env :: "'m bfs_env" and device :: u64 and content :: "'m \<Rightarrow> nat \<Rightarrow> u8 list"
  assumes content_length: "length (content m j) = 4096"
    and read_block: "bfs_read_blocks env device (ucast (k :: u32) * 8) 8 buf m = ((ok, bytes), m') \<Longrightarrow> length buf = 4096 \<Longrightarrow>
      content m' = content m \<and> length bytes = 4096 \<and> (ok \<longrightarrow> bytes = content m (unat k))"
    and write_block: "bfs_write_blocks env device (ucast k * 8) 8 buf m = (ok, m') \<Longrightarrow> length buf = 4096 \<Longrightarrow>
      (\<forall>j. j \<noteq> unat k \<longrightarrow> content m' j = content m j) \<and> (ok \<longrightarrow> content m' (unat k) = buf)"

text \<open>
  \<open>torn m\<close> is a history: some read so far has failed and left other bytes in the buffer than
  were there. The law only says that the history is kept; a device that leaves the buffer alone
  when it fails has \<open>torn\<close> false always, and any device has the history that \<open>watch\<close> below
  records of it.
\<close>

locale logged_volume = block_volume +
  fixes torn :: "'m \<Rightarrow> bool"
  assumes torn_read: "bfs_read_blocks env device (ucast (k :: u32) * 8) 8 buf m = ((ok, bytes), m') \<Longrightarrow> length buf = 4096 \<Longrightarrow>
      (torn m \<or> \<not> ok \<and> bytes \<noteq> buf) \<Longrightarrow> torn m'"
    and torn_write: "bfs_write_blocks env device (ucast k * 8) 8 buf m = (ok, m') \<Longrightarrow> length buf = 4096 \<Longrightarrow> torn m \<Longrightarrow> torn m'"

definition watch :: "'m bfs_env \<Rightarrow> ('m \<times> bool) bfs_env" where
  "watch env = \<lparr>
     bfs_read_blocks = (\<lambda>device first n buf (m, torn). case bfs_read_blocks env device first n buf m of
       ((ok, bytes), m) \<Rightarrow> ((ok, bytes), m, torn \<or> \<not> ok \<and> bytes \<noteq> buf)),
     bfs_write_blocks = (\<lambda>device first n buf (m, torn). case bfs_write_blocks env device first n buf m of (ok, m) \<Rightarrow> (ok, m, torn)),
     bfs_operations = bfs_operations env\<rparr>"

lemma watch_logged:
  assumes "block_volume env device content"
  shows "logged_volume (watch env) device (\<lambda>m. content (fst m)) snd"
  by unfold_locales (auto simp: watch_def block_volume.content_length [OF assms] split: prod.splits
      dest: block_volume.read_block [OF assms] block_volume.write_block [OF assms])

text \<open>
  A device whose first \<open>blocks\<close> blocks can be transferred while it is healthy; transfers that
  succeed keep it so.
\<close>

locale healthy_volume = block_volume +
  fixes blocks :: nat and healthy :: "'m \<Rightarrow> bool"
  assumes read_healthy: "healthy m \<Longrightarrow> unat k < blocks \<Longrightarrow> length buf = 4096 \<Longrightarrow>
      bfs_read_blocks env device (ucast (k :: u32) * 8) 8 buf m = ((ok, bytes), m') \<Longrightarrow> ok \<and> healthy m'"
    and write_healthy: "healthy m \<Longrightarrow> unat k < blocks \<Longrightarrow> length buf = 4096 \<Longrightarrow>
      bfs_write_blocks env device (ucast k * 8) 8 buf m = (ok, m') \<Longrightarrow> ok \<and> healthy m'"

section \<open>The bytes of a volume\<close>

definition volume_bytes :: "(nat \<Rightarrow> u8 list) \<Rightarrow> nat \<Rightarrow> u8 list" where
  "volume_bytes blocks n = concat (map blocks [0..<n])"

lemma length_volume_bytes [simp]: "(\<And>k. length (blocks k) = 4096) \<Longrightarrow> length (volume_bytes blocks n) = 4096 * n"
  by (induction n) (simp_all add: volume_bytes_def)

lemma nth_volume_bytes:
  assumes "\<And>k. length (blocks k) = 4096" and "a < 4096 * n"
  shows "volume_bytes blocks n ! a = blocks (a div 4096) ! (a mod 4096)"
  using assms(2)
proof (induction n)
  case (Suc n)
  have split: "volume_bytes blocks (Suc n) = volume_bytes blocks n @ blocks n" by (simp add: volume_bytes_def)
  have len: "length (volume_bytes blocks n) = 4096 * n" using assms(1) by simp
  show ?case
  proof (cases "a < 4096 * n")
    case True
    then show ?thesis using Suc.IH len by (simp add: split nth_append)
  next
    case False
    then have n: "a div 4096 = n" using Suc.prems by (intro div_nat_eqI) simp_all
    then have "a mod 4096 = a - 4096 * n" by (metis minus_mult_div_eq_mod)
    with n show ?thesis using False len by (simp add: split nth_append)
  qed
qed simp

text \<open>What the cache may change of a mounted volume.\<close>

definition same_volume :: "boringfs_vfs \<Rightarrow> boringfs_vfs \<Rightarrow> bool" where
  "same_volume b b' \<longleftrightarrow> b\<lparr>bfs_block_cache := [], bfs_cached_block := 0, bfs_cache_valid := False\<rparr> =
     b'\<lparr>bfs_block_cache := [], bfs_cached_block := 0, bfs_cache_valid := False\<rparr>"

lemma same_volume_refl [simp]: "same_volume b b"
  by (simp add: same_volume_def)

lemma same_volume_trans: "same_volume a b \<Longrightarrow> same_volume b c \<Longrightarrow> same_volume a c"
  by (simp add: same_volume_def)

lemma same_volume_fields:
  "same_volume b b' \<Longrightarrow> bfs_device b' = bfs_device b \<and> bfs_read_only b' = bfs_read_only b \<and> bfs_superblock b' = bfs_superblock b \<and>
     bfs_source_size b' = bfs_source_size b \<and> bfs_nodes b' = bfs_nodes b \<and> bfs_prepared b' = bfs_prepared b \<and> bfs_node_count b' = bfs_node_count b"
  by (cases b; cases b') (simp add: same_volume_def)

lemma map_block: "map_fs_blocks_to_sectors k 1 = Some (ucast k * 8, 8)"
proof -
  have "\<not> (8 :: u64) > UINT64_MAX div ucast k" if "(ucast k :: u64) \<noteq> 0"
  proof -
    have "k \<noteq> 0" using that by auto
    then have "8 * unat k \<le> 18446744073709551615" "0 < unat k" using unat_u32_less [of k] by (simp_all add: unat_gt_0)
    then have "8 \<le> 18446744073709551615 div unat k" by (simp add: less_eq_div_iff_mult_less_eq)
    then show ?thesis by (simp add: word_less_nat_alt unat_div)
  qed
  then show ?thesis by (auto simp: map_fs_blocks_to_sectors_def checked_mul_u64_def)
qed

section \<open>Coherence\<close>

definition coherent :: "u64 \<Rightarrow> ('m \<Rightarrow> nat \<Rightarrow> u8 list) \<Rightarrow> 'm bfs_disk \<Rightarrow> bool" where
  "coherent device content d \<longleftrightarrow> bfs_device (fst d) = device \<and> length (bfs_block_cache (fst d)) = 4096 \<and>
     (bfs_cache_valid (fst d) \<longrightarrow> bfs_block_cache (fst d) = content (snd d) (unat (bfs_cached_block (fst d))))"

text \<open>What holds of the mounted volume even after a read has failed.\<close>

definition attached :: "u64 \<Rightarrow> 'm bfs_disk \<Rightarrow> bool" where
  "attached device d \<longleftrightarrow> bfs_device (fst d) = device \<and> length (bfs_block_cache (fst d)) = 4096"

lemma coherent_attached: "coherent device content d \<Longrightarrow> attached device d"
  by (simp add: coherent_def attached_def)

text \<open>The cache is coherent unless a failed read has left other bytes in it.\<close>

definition tracked :: "u64 \<Rightarrow> ('m \<Rightarrow> nat \<Rightarrow> u8 list) \<Rightarrow> ('m \<Rightarrow> bool) \<Rightarrow> 'm bfs_disk \<Rightarrow> bool" where
  "tracked device content torn d \<longleftrightarrow> attached device d \<and> (torn (snd d) \<or> coherent device content d)"

lemma coherent_tracked: "coherent device content d \<Longrightarrow> tracked device content torn d"
  by (simp add: tracked_def coherent_attached)

context block_volume
begin

lemma cache_block_attached:
  assumes a: "attached device d" and r: "cache_block env k d = (ok, d')"
  shows "attached device d'" "same_volume (fst d) (fst d')" "content (snd d') = content (snd d)"
    "ok \<Longrightarrow> coherent device content d \<Longrightarrow> coherent device content d' \<and>
      bfs_cached_block (fst d') = k \<and> bfs_block_cache (fst d') = content (snd d) (unat k)"
proof -
  obtain b m where d: "d = (b, m)" by force
  have "attached device d' \<and> same_volume (fst d) (fst d') \<and> content (snd d') = content (snd d) \<and>
    (ok \<longrightarrow> coherent device content d \<longrightarrow> coherent device content d' \<and>
      bfs_cached_block (fst d') = k \<and> bfs_block_cache (fst d') = content (snd d) (unat k))"
  proof (cases "bfs_cache_valid b \<and> bfs_cached_block b = k")
    case True
    then show ?thesis using r a by (auto simp: d cache_block_def coherent_def)
  next
    case miss: False
    show ?thesis
    proof (cases "k \<ge> sb_total_blocks (bfs_superblock b)")
      case True
      then show ?thesis using r a miss by (auto simp: d cache_block_def load_cached_block_def)
    next
      case False
      obtain ok1 bytes m' where x: "bfs_read_blocks env device (ucast k * 8) 8 (bfs_block_cache b) m = ((ok1, bytes), m')" by (metis prod.exhaust)
      have dev: "bfs_device b = device" and len: "length (bfs_block_cache b) = 4096" using a by (simp_all add: d attached_def)
      note rb = read_block [OF x len]
      have "(ok, d') = (if ok1 then (True, b\<lparr>bfs_block_cache := bytes, bfs_cached_block := k, bfs_cache_valid := True\<rparr>, m')
          else (False, b\<lparr>bfs_block_cache := bytes\<rparr>, m'))"
        using r False miss x dev by (auto simp: d cache_block_def load_cached_block_def map_block)
      then show ?thesis using rb dev by (cases ok1) (auto simp: d coherent_def attached_def same_volume_def)
    qed
  qed
  then show "attached device d'" "same_volume (fst d) (fst d')" "content (snd d') = content (snd d)"
    "ok \<Longrightarrow> coherent device content d \<Longrightarrow> coherent device content d' \<and>
      bfs_cached_block (fst d') = k \<and> bfs_block_cache (fst d') = content (snd d) (unat k)" by simp_all
qed

lemma cache_block_coherent:
  assumes c: "coherent device content d" and r: "cache_block env k d = (ok, d')"
  shows "attached device d'" "same_volume (fst d) (fst d')" "content (snd d') = content (snd d)"
    "ok \<Longrightarrow> bfs_cached_block (fst d') = k \<and> bfs_block_cache (fst d') = content (snd d) (unat k)"
    "ok \<Longrightarrow> coherent device content d'"
  using cache_block_attached [OF coherent_attached [OF c] r] c by simp_all

lemma store_coherent:
  assumes c: "attached device d"
    and r: "store_cached_block env k d = (ok, d')"
  shows "coherent device content d'" "same_volume (fst d) (fst d')" "\<forall>j. j \<noteq> unat k \<longrightarrow> content (snd d') j = content (snd d) j"
    "ok \<Longrightarrow> content (snd d') (unat k) = bfs_block_cache (fst d)"
proof -
  obtain b m where d: "d = (b, m)" by force
  have dev: "bfs_device b = device" and len: "length (bfs_block_cache b) = 4096" using c by (auto simp: d attached_def)
  have "coherent device content d' \<and> same_volume (fst d) (fst d') \<and> (\<forall>j. j \<noteq> unat k \<longrightarrow> content (snd d') j = content (snd d) j) \<and>
    (ok \<longrightarrow> content (snd d') (unat k) = bfs_block_cache (fst d))"
  proof (cases "bfs_read_only b \<or> k \<ge> sb_total_blocks (bfs_superblock b)")
    case True
    then have "ok = False" "d' = (b\<lparr>bfs_cache_valid := False\<rparr>, m)" using r by (auto simp: d store_cached_block_def)
    then show ?thesis using dev len by (auto simp: d coherent_def same_volume_def)
  next
    case False
    obtain ok1 m' where x: "bfs_write_blocks env device (ucast k * 8) 8 (bfs_block_cache b) m = (ok1, m')" by force
    note wb = write_block [OF x len]
    have "(ok, d') = (if ok1 then (True, b\<lparr>bfs_cached_block := k, bfs_cache_valid := True\<rparr>, m') else (False, b\<lparr>bfs_cache_valid := False\<rparr>, m'))"
      using r False x dev by (auto simp: d store_cached_block_def map_block)
    then show ?thesis using wb dev len by (cases ok1) (auto simp: d coherent_def same_volume_def)
  qed
  then show "coherent device content d'" "same_volume (fst d) (fst d')" "\<forall>j. j \<noteq> unat k \<longrightarrow> content (snd d') j = content (snd d) j"
    "ok \<Longrightarrow> content (snd d') (unat k) = bfs_block_cache (fst d)" by simp_all
qed

end

section \<open>Windows of the volume\<close>

lemma sub_buffer_append: "a + c + r \<le> length xs \<Longrightarrow> sub_buffer xs a c @ sub_buffer xs (a + c) r = sub_buffer xs a (c + r)"
  by (simp add: sub_buffer_def take_add add.commute)

lemma splice_splice:
  "a + length s + length t \<le> length xs \<Longrightarrow> splice (splice xs a s) (a + length s) t = splice xs a (s @ t)"
  by (rule nth_equalityI) (auto simp: nth_splice nth_append)

lemma block_index:
  fixes a i :: nat
  assumes "a mod 4096 + i < 4096"
  shows "(a + i) div 4096 = a div 4096" "(a + i) mod 4096 = a mod 4096 + i"
proof -
  have e: "a + i = (a mod 4096 + i) + 4096 * (a div 4096)" by simp
  have z: "(a mod 4096 + i) div 4096 = 0" using assms by (rule div_less)
  have "(a mod 4096 + i + 4096 * (a div 4096)) div 4096 = a div 4096" unfolding div_mult_self2 [OF zero_neq_numeral [symmetric]] z by simp
  then show "(a + i) div 4096 = a div 4096" using e by (simp only:)
  have "(a mod 4096 + i + 4096 * (a div 4096)) mod 4096 = a mod 4096 + i" using assms by (simp only: mod_mult_self2 mod_less)
  then show "(a + i) mod 4096 = a mod 4096 + i" using e by (simp only:)
qed

lemma block_window:
  assumes len: "\<And>k. length (blocks k) = 4096" and a: "a mod 4096 + c \<le> 4096" "a + c \<le> 4096 * n"
  shows "sub_buffer (blocks (a div 4096)) (a mod 4096) c = sub_buffer (volume_bytes blocks n) a c"
proof (rule nth_equalityI)
  show "length (sub_buffer (blocks (a div 4096)) (a mod 4096) c) = length (sub_buffer (volume_bytes blocks n) a c)"
    using a len by (simp add: sub_buffer_def)
  fix i assume "i < length (sub_buffer (blocks (a div 4096)) (a mod 4096) c)"
  then have i: "i < c" by (simp add: sub_buffer_def)
  then have "a mod 4096 + i < 4096" using a by simp
  note d = block_index [OF this]
  show "sub_buffer (blocks (a div 4096)) (a mod 4096) c ! i = sub_buffer (volume_bytes blocks n) a c ! i"
    using i a len d by (simp add: nth_sub_buffer nth_volume_bytes)
qed

lemma block_splice:
  assumes len: "\<And>k. length (blocks k) = 4096" and a: "a mod 4096 + length bytes \<le> 4096" "a + length bytes \<le> 4096 * n"
    and new: "\<And>k. k \<noteq> a div 4096 \<Longrightarrow> blocks' k = blocks k" "blocks' (a div 4096) = splice (blocks (a div 4096)) (a mod 4096) bytes"
  shows "volume_bytes blocks' n = splice (volume_bytes blocks n) a bytes"
proof (rule nth_equalityI)
  have len': "length (blocks' k) = 4096" for k using new len a by (cases "k = a div 4096") auto
  show "length (volume_bytes blocks' n) = length (splice (volume_bytes blocks n) a bytes)" using a len len' by simp
  fix i assume "i < length (volume_bytes blocks' n)"
  then have i: "i < 4096 * n" using len' by simp
  have at: "i div 4096 = a div 4096 \<and> i mod 4096 = a mod 4096 + (i - a)" if "a \<le> i" "i < a + length bytes"
    using that block_index [of a "i - a"] a by simp
  have inside: "a \<le> i \<and> i < a + length bytes"
    if "i div 4096 = a div 4096" "a mod 4096 \<le> i mod 4096" "i mod 4096 < a mod 4096 + length bytes"
    using that mult_div_mod_eq [of 4096 i] mult_div_mod_eq [of 4096 a] by linarith
  have nth: "volume_bytes blocks' n ! i = blocks' (i div 4096) ! (i mod 4096)" "volume_bytes blocks n ! i = blocks (i div 4096) ! (i mod 4096)"
    using i len len' by (simp_all add: nth_volume_bytes)
  show "volume_bytes blocks' n ! i = splice (volume_bytes blocks n) a bytes ! i"
  proof (cases "a \<le> i \<and> i < a + length bytes")
    case True
    then obtain j where j: "i = a + j" "j < length bytes" by (metis le_add_diff_inverse nat_add_left_cancel_less)
    then show ?thesis using at i a len nth by (simp add: nth_splice new(2))
  next
    case False
    then have "\<not> (i div 4096 = a div 4096 \<and> a mod 4096 \<le> i mod 4096 \<and> i mod 4096 < a mod 4096 + length bytes)" using inside by blast
    then have "blocks' (i div 4096) ! (i mod 4096) = blocks (i div 4096) ! (i mod 4096)"
      using new len a by (cases "i div 4096 = a div 4096") (auto simp: nth_splice)
    moreover have "splice (volume_bytes blocks n) a bytes ! i = volume_bytes blocks n ! i"
      using False i a len by (auto simp: nth_splice)
    ultimately show ?thesis by (simp add: nth)
  qed
qed

section \<open>Transfers\<close>

definition volume_blocks :: "boringfs_vfs \<Rightarrow> nat" where
  "volume_blocks b = unat (sb_total_blocks (bfs_superblock b))"

lemma same_volume_blocks: "same_volume b b' \<Longrightarrow> volume_blocks b' = volume_blocks b"
  by (simp add: volume_blocks_def same_volume_fields)

lemma block_of_current:
  fixes current :: u64
  assumes "\<not> (current div 4096 > ucast UINT32_MAX \<or> current div 4096 \<ge> ucast (blocks :: u32))"
  shows "unat (ucast (current div 4096) :: u32) = unat current div 4096" "unat current div 4096 < unat blocks"
    "unat current < 4096 * unat blocks"
proof -
  have d: "unat (current div 4096) = unat current div 4096" by (simp add: unat_div)
  then have b: "unat current div 4096 < unat blocks" using assms by (simp add: word_le_nat_alt)
  then show "unat current div 4096 < unat blocks" .
  then show "unat current < 4096 * unat blocks" by (simp add: div_less_iff_less_mult mult.commute)
  show "unat (ucast (current div 4096) :: u32) = unat current div 4096"
    using b unat_u32_less [of blocks] d by (simp add: unsigned_ucast_eq take_bit_nat_eq_self)
qed

lemma current_in_volume:
  fixes current remaining :: u64
  assumes "unat current + unat remaining \<le> 4096 * volume_blocks b" "remaining \<noteq> 0"
  shows "\<not> (current div 4096 > ucast UINT32_MAX \<or> current div 4096 \<ge> ucast (sb_total_blocks (bfs_superblock b)))"
proof -
  have "unat current < 4096 * unat (sb_total_blocks (bfs_superblock b))"
    using assms unat_gt_0 [of remaining] by (simp add: volume_blocks_def)
  then have "unat (current div 4096) < unat (sb_total_blocks (bfs_superblock b))" by (simp add: unat_div less_mult_imp_div_less mult.commute)
  then show ?thesis using unat_u32_less [of "sb_total_blocks (bfs_superblock b)"] by (simp add: word_less_nat_alt word_le_nat_alt)
qed

lemma current_advances:
  fixes current remaining :: u64
  assumes r: "remaining \<noteq> 0" and c: "unat current < 4096 * unat (blocks :: u32)"
  defines "chunk \<equiv> block_chunk current remaining"
  shows "unat (current + chunk) = unat current + unat chunk" "unat (remaining - chunk) = unat remaining - unat chunk"
    "unat current mod 4096 + unat chunk \<le> 4096" "0 < unat chunk" "unat chunk \<le> unat remaining"
    "unat current div 4096 < unat blocks \<Longrightarrow> unat current + unat chunk \<le> 4096 * unat blocks"
proof -
  show m: "unat current mod 4096 + unat chunk \<le> 4096"
    using block_chunk_bounds(3) [of current remaining] by (simp add: chunk_def unat_mod)
  show p: "0 < unat chunk" using block_chunk_bounds(1) [OF r] by (simp add: chunk_def)
  show l: "unat chunk \<le> unat remaining" using block_chunk_bounds(2) by (simp add: chunk_def)
  from l show "unat (remaining - chunk) = unat remaining - unat chunk" by (subst unat_sub) (simp_all add: word_le_nat_alt)
  have "unat chunk \<le> 4096" using m by simp
  then have "unat current + unat chunk < 2 ^ 64" using c unat_u32_less [of blocks] by simp
  then show "unat (current + chunk) = unat current + unat chunk" by (simp add: unat_word_ariths)
  assume "unat current div 4096 < unat blocks"
  then have "4096 * (unat current div 4096) + 4096 \<le> 4096 * unat blocks" by simp
  then show "unat current + unat chunk \<le> 4096 * unat blocks" using m mult_div_mod_eq [of 4096 "unat current"] by linarith
qed

context block_volume
begin

lemma source_read_from_spec:
  "coherent device content d \<Longrightarrow> source_read_from env current remaining d = (r, d') \<Longrightarrow>
     attached device d' \<and> same_volume (fst d) (fst d') \<and> content (snd d') = content (snd d) \<and>
     (\<forall>bytes. r = Some bytes \<longrightarrow> coherent device content d' \<and>
       bytes = sub_buffer (volume_bytes (content (snd d)) (volume_blocks (fst d))) (unat current) (unat remaining) \<and>
       (remaining \<noteq> 0 \<longrightarrow> unat current + unat remaining \<le> 4096 * volume_blocks (fst d)))"
proof (induction "unat remaining" arbitrary: current remaining d r d' rule: less_induct)
  case less
  show ?case
  proof (cases "remaining = 0")
    case True
    then show ?thesis using less.prems by (subst (asm) source_read_from.simps) (auto simp: sub_buffer_def coherent_attached)
  next
    case rem: False
    show ?thesis
    proof (cases "current div 4096 > ucast UINT32_MAX \<or> current div 4096 \<ge> ucast (sb_total_blocks (bfs_superblock (fst d)))")
      case True
      then show ?thesis using less.prems rem by (subst (asm) source_read_from.simps) (simp add: Let_def coherent_attached)
    next
      case in_volume: False
      define chunk where "chunk = block_chunk current remaining"
      define k :: u32 where "k = ucast (current div 4096)"
      define n where "n = volume_blocks (fst d)"
      note k = block_of_current [OF in_volume, folded k_def]
      note step = current_advances [OF rem k(3), folded chunk_def]
      have inside: "unat current + unat chunk \<le> 4096 * n" using step(6) k(2) by (simp add: n_def volume_blocks_def)
      obtain ok d1 where c: "cache_block env k d = (ok, d1)" by (cases "cache_block env k d") (rule that)
      note cb = cache_block_coherent [OF less.prems(1) c]
      obtain rest d2 where t: "source_read_from env (current + chunk) (remaining - chunk) d1 = (rest, d2)" by (metis prod.exhaust)
      have run: "(r, d') = (if \<not> ok then (None, d1) else
          (case rest of None \<Rightarrow> None | Some bytes \<Rightarrow> Some (sub_buffer (bfs_block_cache (fst d1)) (unat current mod 4096) (unat chunk) @ bytes), d2))"
        using less.prems(2) rem in_volume c t
        by (subst (asm) source_read_from.simps)
          (simp add: Let_def chunk_def [symmetric] k_def [symmetric] disk_bind_def unat_mod split: option.splits prod.splits if_splits)
      show ?thesis
      proof (cases ok)
        case False
        then show ?thesis using run cb by simp
      next
        case True
        have "unat (remaining - chunk) < unat remaining" using step(2,4,5) by simp
        note IH = less.hyps [OF this cb(5) [OF True] t]
        have v: "volume_bytes (content (snd d1)) (volume_blocks (fst d1)) = volume_bytes (content (snd d)) n" "volume_blocks (fst d1) = n"
          using cb(2,3) by (simp_all add: n_def same_volume_blocks)
        have window: "sub_buffer (bfs_block_cache (fst d1)) (unat current mod 4096) (unat chunk) =
            sub_buffer (volume_bytes (content (snd d)) n) (unat current) (unat chunk)"
          using cb(4) [OF True] block_window [OF content_length step(3) inside] k(1) by simp
        show ?thesis
        proof (cases rest)
          case None
          then show ?thesis using run True IH cb by (auto intro: same_volume_trans)
        next
          case (Some bytes)
          have b: "bytes = sub_buffer (volume_bytes (content (snd d)) n) (unat current + unat chunk) (unat remaining - unat chunk)"
            and e: "remaining - chunk \<noteq> 0 \<longrightarrow> unat current + unat remaining \<le> 4096 * n"
            using IH Some v step(1,2,5) by auto
          have all: "unat current + unat remaining \<le> 4096 * n"
          proof (cases "remaining - chunk = 0")
            case True
            then have "unat remaining = unat chunk" by (metis eq_iff_diff_eq_0)
            then show ?thesis using inside by simp
          qed (use e in simp)
          then have "unat current + unat chunk + (unat remaining - unat chunk) \<le> length (volume_bytes (content (snd d)) n)"
            using step(5) content_length by simp
          from sub_buffer_append [OF this]
          have "sub_buffer (bfs_block_cache (fst d1)) (unat current mod 4096) (unat chunk) @ bytes =
              sub_buffer (volume_bytes (content (snd d)) n) (unat current) (unat remaining)"
            using window b step(5) by simp
          then show ?thesis using run True Some IH cb all by (auto simp: n_def intro: same_volume_trans)
        qed
      qed
    qed
  qed
qed

lemma source_write_from_spec:
  "coherent device content d \<Longrightarrow> unat remaining = length source \<Longrightarrow> source_write_from env current remaining source d = (ok, d') \<Longrightarrow>
     attached device d' \<and> same_volume (fst d) (fst d') \<and>
     (\<forall>j. 4096 * j + 4096 \<le> unat current \<or> unat current + length source \<le> 4096 * j \<longrightarrow> content (snd d') j = content (snd d) j) \<and>
     (ok \<longrightarrow> coherent device content d' \<and> volume_bytes (content (snd d')) (volume_blocks (fst d)) =
         splice (volume_bytes (content (snd d)) (volume_blocks (fst d))) (unat current) source \<and>
       (source \<noteq> [] \<longrightarrow> unat current + length source \<le> 4096 * volume_blocks (fst d)))"
proof (induction "unat remaining" arbitrary: current remaining source d ok d' rule: less_induct)
  case less
  show ?case
  proof (cases "remaining = 0")
    case True
    then show ?thesis using less.prems by (subst (asm) source_write_from.simps) (auto simp: splice_def coherent_attached)
  next
    case rem: False
    show ?thesis
    proof (cases "current div 4096 > ucast UINT32_MAX \<or> current div 4096 \<ge> ucast (sb_total_blocks (bfs_superblock (fst d)))")
      case True
      then show ?thesis using less.prems rem by (subst (asm) source_write_from.simps) (simp add: Let_def coherent_attached)
    next
      case in_volume: False
      define chunk where "chunk = block_chunk current remaining"
      define k :: u32 where "k = ucast (current div 4096)"
      define n where "n = volume_blocks (fst d)"
      define now where "now = take (unat chunk) source"
      note k = block_of_current [OF in_volume, folded k_def]
      note step = current_advances [OF rem k(3), folded chunk_def]
      have now: "length now = unat chunk" using step(5) less.prems(2) by (simp add: now_def)
      have inside: "unat current + length now \<le> 4096 * n" using step(6) k(2) by (simp add: n_def volume_blocks_def now)
      have fits: "unat current mod 4096 + length now \<le> 4096" using step(3) by (simp add: now)
      obtain ok1 b1 m1 where c: "cache_block env k d = (ok1, b1, m1)" by (metis prod.exhaust)
      note cb = cache_block_coherent [OF less.prems(1) c, unfolded fst_conv snd_conv]
      define b2 where "b2 = b1\<lparr>bfs_block_cache := splice (bfs_block_cache b1) (unat current mod 4096) now\<rparr>"
      obtain ok2 d2 where w: "store_cached_block env k (b2, m1) = (ok2, d2)" by (cases "store_cached_block env k (b2, m1)") (rule that)
      obtain ok3 d3 where t: "source_write_from env (current + chunk) (remaining - chunk) (drop (unat chunk) source) d2 = (ok3, d3)"
        by (metis prod.exhaust)
      have run: "(ok, d') = (if \<not> ok1 then (False, b1, m1) else if \<not> ok2 then (False, d2) else (ok3, d3))"
        using less.prems(3) rem in_volume c w t
        by (subst (asm) source_write_from.simps)
          (simp add: Let_def chunk_def [symmetric] k_def [symmetric] now_def [symmetric] b2_def [symmetric] unat_mod split: if_splits)
      have b2: "bfs_device b2 = device" "length (bfs_block_cache b2) = 4096" "same_volume (fst d) b2"
        using cb(1,2) fits by (auto simp: b2_def attached_def same_volume_def)
      have "attached device (b2, m1)" using b2 by (simp add: attached_def)
      note st = store_coherent [OF this w, unfolded fst_conv snd_conv]
      have here: "\<not> (4096 * unat k + 4096 \<le> unat current \<or> unat current + length source \<le> 4096 * unat k)"
        using k(1) mult_div_mod_eq [of 4096 "unat current"] mod_less_divisor [of 4096 "unat current"] step(4,5) less.prems(2) by linarith
      show ?thesis
      proof (cases "ok1 \<and> ok2")
        case False
        then show ?thesis using run cb st b2(3) here coherent_attached [OF st(1)] by (cases ok1) (auto intro: same_volume_trans)
      next
        case True
        have r: "unat (remaining - chunk) < unat remaining" "unat (remaining - chunk) = length (drop (unat chunk) source)"
          using step(2,4,5) less.prems(2) by simp_all
        note IH = less.hyps [OF r(1) st(1) r(2) t]
        have n2: "volume_blocks (fst d2) = n" using b2(3) st(2) by (simp add: n_def same_volume_blocks)
        have first: "content (snd d2) (unat k) = splice (content (snd d) (unat current div 4096)) (unat current mod 4096) now"
          using True st(4) cb(4) k(1) by (simp add: b2_def)
        have v: "volume_bytes (content (snd d2)) n = splice (volume_bytes (content (snd d)) n) (unat current) now"
          using block_splice [OF content_length fits inside, of "content (snd d2)"] st(3) cb(3) first k(1) by simp
        have others: "content (snd d3) j = content (snd d) j"
          if j: "4096 * j + 4096 \<le> unat current \<or> unat current + length source \<le> 4096 * j" for j
        proof -
          have "j \<noteq> unat k" using here j by auto
          moreover have "4096 * j + 4096 \<le> unat (current + chunk) \<or> unat (current + chunk) + length (drop (unat chunk) source) \<le> 4096 * j"
            using j step(1,5) less.prems(2) by auto
          ultimately show ?thesis using IH st(3) cb(3) by auto
        qed
        have "volume_bytes (content (snd d3)) n = splice (volume_bytes (content (snd d)) n) (unat current) source \<and>
            unat current + length source \<le> 4096 * n" if ok3
        proof -
          have "splice (volume_bytes (content (snd d2)) n) (unat current + length now) (drop (unat chunk) source) = volume_bytes (content (snd d3)) n"
            and e: "drop (unat chunk) source \<noteq> [] \<longrightarrow> unat current + length source \<le> 4096 * n"
            using IH that n2 step(1,5) less.prems(2) by (auto simp: now)
          moreover have all: "unat current + length source \<le> 4096 * n"
          proof (cases "drop (unat chunk) source = []")
            case True
            then show ?thesis using inside now step(5) less.prems(2) by simp
          qed (use e in simp)
          moreover have "now @ drop (unat chunk) source = source" by (simp add: now_def)
          ultimately show ?thesis
            using splice_splice [of "unat current" now "drop (unat chunk) source" "volume_bytes (content (snd d)) n"] v content_length
              now step(5) less.prems(2) by simp
        qed
        then show ?thesis using run True IH st(2) b2(3) others by (auto simp: n_def intro: same_volume_trans)
      qed
    qed
  qed
qed

end

section \<open>Transfers on a healthy device\<close>

context healthy_volume
begin

lemma cache_block_healthy:
  assumes "coherent device content d" "healthy (snd d)" "unat k < volume_blocks (fst d)" "volume_blocks (fst d) \<le> blocks"
    and r: "cache_block env k d = (ok, d')"
  shows "ok \<and> healthy (snd d')"
proof -
  obtain b m where d: "d = (b, m)" by force
  obtain ok1 bytes m' where x: "bfs_read_blocks env device (ucast k * 8) 8 (bfs_block_cache b) m = ((ok1, bytes), m')" by (metis prod.exhaust)
  have "ok1 \<and> healthy m'" using read_healthy [OF _ _ _ x] assms by (simp add: d coherent_def)
  moreover have "bfs_device b = device" "\<not> sb_total_blocks (bfs_superblock b) \<le> k"
    using assms by (simp_all add: d coherent_def volume_blocks_def word_le_nat_alt)
  ultimately show ?thesis using r x assms(2) by (auto simp: d cache_block_def load_cached_block_def map_block split: if_splits)
qed

lemma store_healthy:
  assumes "bfs_device (fst d) = device" "length (bfs_block_cache (fst d)) = 4096" "healthy (snd d)"
    and "\<not> bfs_read_only (fst d)" "unat k < volume_blocks (fst d)" "volume_blocks (fst d) \<le> blocks"
    and r: "store_cached_block env k d = (ok, d')"
  shows "ok \<and> healthy (snd d')"
proof -
  obtain b m where d: "d = (b, m)" by force
  obtain ok1 m' where x: "bfs_write_blocks env device (ucast k * 8) 8 (bfs_block_cache b) m = (ok1, m')" by force
  have "ok1 \<and> healthy m'" using write_healthy [OF _ _ _ x] assms by (simp add: d)
  moreover have "\<not> sb_total_blocks (bfs_superblock b) \<le> k" using assms by (simp add: d volume_blocks_def word_le_nat_alt)
  ultimately show ?thesis using r x assms(1,4) by (auto simp: d store_cached_block_def map_block)
qed

lemma source_read_from_healthy:
  "coherent device content d \<Longrightarrow> healthy (snd d) \<Longrightarrow> volume_blocks (fst d) \<le> blocks \<Longrightarrow>
     unat current + unat remaining \<le> 4096 * volume_blocks (fst d) \<Longrightarrow>
     \<exists>bytes d'. source_read_from env current remaining d = (Some bytes, d') \<and> healthy (snd d')"
proof (induction "unat remaining" arbitrary: current remaining d rule: less_induct)
  case less
  show ?case
  proof (cases "remaining = 0")
    case True
    then show ?thesis using less.prems by (subst source_read_from.simps) simp
  next
    case rem: False
    define chunk where "chunk = block_chunk current remaining"
    define k :: u32 where "k = ucast (current div 4096)"
    have in_volume: "\<not> (current div 4096 > ucast UINT32_MAX \<or> current div 4096 \<ge> ucast (sb_total_blocks (bfs_superblock (fst d))))"
      using less.prems(4) rem by (rule current_in_volume)
    note k = block_of_current [OF in_volume, folded k_def]
    note step = current_advances [OF rem k(3), folded chunk_def]
    obtain ok d1 where c: "cache_block env k d = (ok, d1)" by (cases "cache_block env k d") (rule that)
    note cb = cache_block_coherent [OF less.prems(1) c]
    have h: "ok \<and> healthy (snd d1)"
      using cache_block_healthy [OF less.prems(1,2) _ less.prems(3) c] k by (simp add: volume_blocks_def)
    have "unat (remaining - chunk) < unat remaining" using step(2,4,5) by simp
    from less.hyps [OF this cb(5), of "current + chunk"] obtain rest d2
      where t: "source_read_from env (current + chunk) (remaining - chunk) d1 = (Some rest, d2)" "healthy (snd d2)"
      using h less.prems(3,4) step(1,2,5) same_volume_blocks [OF cb(2)] by auto
    then show ?thesis using rem in_volume c h
      by (subst source_read_from.simps) (simp add: Let_def chunk_def [symmetric] k_def [symmetric] disk_bind_def)
  qed
qed

lemma source_write_from_healthy:
  "coherent device content d \<Longrightarrow> healthy (snd d) \<Longrightarrow> volume_blocks (fst d) \<le> blocks \<Longrightarrow> \<not> bfs_read_only (fst d) \<Longrightarrow>
     unat remaining = length source \<Longrightarrow> unat current + length source \<le> 4096 * volume_blocks (fst d) \<Longrightarrow>
     \<exists>d'. source_write_from env current remaining source d = (True, d') \<and> healthy (snd d')"
proof (induction "unat remaining" arbitrary: current remaining source d rule: less_induct)
  case less
  show ?case
  proof (cases "remaining = 0")
    case True
    then show ?thesis using less.prems by (subst source_write_from.simps) simp
  next
    case rem: False
    define chunk where "chunk = block_chunk current remaining"
    define k :: u32 where "k = ucast (current div 4096)"
    have in_volume: "\<not> (current div 4096 > ucast UINT32_MAX \<or> current div 4096 \<ge> ucast (sb_total_blocks (bfs_superblock (fst d))))"
      using less.prems(5,6) rem by (intro current_in_volume) simp_all
    note k = block_of_current [OF in_volume, folded k_def]
    note step = current_advances [OF rem k(3), folded chunk_def]
    obtain ok b1 m1 where c: "cache_block env k d = (ok, b1, m1)" by (metis prod.exhaust)
    note cb = cache_block_coherent [OF less.prems(1) c, unfolded fst_conv snd_conv]
    have h: "ok \<and> healthy m1"
      using cache_block_healthy [OF less.prems(1,2) _ less.prems(3) c] k by (simp add: volume_blocks_def)
    define b2 where "b2 = b1\<lparr>bfs_block_cache := splice (bfs_block_cache b1) (unat current mod 4096) (take (unat chunk) source)\<rparr>"
    obtain ok2 d2 where w: "store_cached_block env k (b2, m1) = (ok2, d2)" by (cases "store_cached_block env k (b2, m1)") (rule that)
    have b2: "bfs_device b2 = device" "length (bfs_block_cache b2) = 4096" "same_volume (fst d) b2"
      using cb(1,2) step(3,5) less.prems(5) by (auto simp: b2_def attached_def same_volume_def)
    have "attached device (b2, m1)" using b2 by (simp add: attached_def)
    note st = store_coherent [OF this w, unfolded fst_conv snd_conv]
    have fields: "volume_blocks b2 = volume_blocks (fst d)" "bfs_read_only b2 = bfs_read_only (fst d)"
      using b2(3) by (simp_all add: same_volume_blocks same_volume_fields)
    then have h2: "ok2 \<and> healthy (snd d2)"
      using store_healthy [OF _ _ _ _ _ _ w] b2 h less.prems(3,4) k(1,2) by (simp add: volume_blocks_def)
    have r: "unat (remaining - chunk) < unat remaining" "unat (remaining - chunk) = length (drop (unat chunk) source)"
      using step(2,4,5) less.prems(5) by simp_all
    have "volume_blocks (fst d2) = volume_blocks (fst d)" "bfs_read_only (fst d2) = bfs_read_only (fst d)"
      using fields st(2) by (simp_all add: same_volume_blocks same_volume_fields)
    with less.hyps [OF r(1) st(1) _ _ _ r(2), of "current + chunk"] obtain d3
      where t: "source_write_from env (current + chunk) (remaining - chunk) (drop (unat chunk) source) d2 = (True, d3)" "healthy (snd d3)"
      using h2 less.prems(3-6) step(1,2,5) by auto
    then show ?thesis using rem in_volume c h w h2
      by (subst source_write_from.simps) (simp add: Let_def chunk_def [symmetric] k_def [symmetric] b2_def [symmetric] unat_mod)
  qed
qed

end

end
