(* ===== verification/BfsObjects.thy ===== *)
theory BfsObjects
  imports BfsCache ValidateReads
begin

text \<open>
  What the functions of kernel/fs/boringfs_vfs.c below its operations do to the bytes of a
  mounted volume, on a device that works: object records, the bitmap and the data of an object
  are windows of the volume, and each function reads or replaces the window it is about.
\<close>

definition bfs_ready :: "u64 \<Rightarrow> ('m \<Rightarrow> nat \<Rightarrow> u8 list) \<Rightarrow> nat \<Rightarrow> ('m \<Rightarrow> bool) \<Rightarrow> 'm bfs_disk \<Rightarrow> bool" where
  "bfs_ready device content blocks healthy d \<longleftrightarrow>
     coherent device content d \<and> healthy (snd d) \<and> volume_blocks (fst d) \<le> blocks \<and>
     layout_ok (bfs_superblock (fst d)) \<and> 4096 * volume_blocks (fst d) \<le> unat (bfs_source_size (fst d))"

definition disk_bytes :: "('m \<Rightarrow> nat \<Rightarrow> u8 list) \<Rightarrow> 'm bfs_disk \<Rightarrow> u8 list" where
  "disk_bytes content d = volume_bytes (content (snd d)) (volume_blocks (fst d))"

text \<open>Where the record of an object and the bit of a block are.\<close>

definition record_offset :: "boringfs_superblock \<Rightarrow> u32 \<Rightarrow> nat" where
  "record_offset sb object_id = 4096 * unat (sb_object_table_start sb) + 128 * (unat object_id - 1)"

definition bit_offset :: "boringfs_superblock \<Rightarrow> u32 \<Rightarrow> nat" where
  "bit_offset sb block = 4096 * unat (sb_bitmap_start sb) + unat block div 8"

definition bit_mask :: "u32 \<Rightarrow> u8" where
  "bit_mask block = push_bit (unat (block mod 8)) 1"

definition block_used :: "boringfs_superblock \<Rightarrow> u8 list \<Rightarrow> u32 \<Rightarrow> bool" where
  "block_used sb bytes block \<longleftrightarrow> bytes ! bit_offset sb block AND bit_mask block \<noteq> 0"

definition raw_object :: "boringfs_superblock \<Rightarrow> u8 list \<Rightarrow> u32 \<Rightarrow> u8 list" where
  "raw_object sb bytes object_id = sub_buffer bytes (record_offset sb object_id) 128"

lemma layout_bounds:
  assumes l: "layout_ok sb"
  shows "1 \<le> i \<Longrightarrow> i \<le> sb_object_count sb \<Longrightarrow> record_offset sb i + 128 \<le> 4096 * unat (sb_data_start sb)"
    "4096 * unat (sb_object_table_start sb) \<le> record_offset sb i"
    "block < sb_total_blocks sb \<Longrightarrow> bit_offset sb block + 1 \<le> 4096 * unat (sb_object_table_start sb)"
    "4096 * unat (sb_data_start sb) \<le> 4096 * unat (sb_total_blocks sb)"
proof -
  have t: "unat (sb_data_start sb) = unat (sb_object_table_start sb) + (unat (sb_object_count sb) * 128 + 4095) div 4096"
    "unat (sb_object_table_start sb) = 1 + (unat (sb_total_blocks sb) + 32767) div 32768" "unat (sb_bitmap_start sb) = 1"
    using l by (simp_all add: layout_ok_def)
  show "record_offset sb i + 128 \<le> 4096 * unat (sb_data_start sb)" if "1 \<le> i" "i \<le> sb_object_count sb"
  proof -
    have "1 \<le> unat i" "unat i \<le> unat (sb_object_count sb)" using that by (simp_all add: word_le_nat_alt)
    then show ?thesis using t(1) unfolding record_offset_def by linarith
  qed
  show "4096 * unat (sb_object_table_start sb) \<le> record_offset sb i" by (simp add: record_offset_def)
  show "bit_offset sb block + 1 \<le> 4096 * unat (sb_object_table_start sb)" if "block < sb_total_blocks sb"
  proof -
    have "unat block < unat (sb_total_blocks sb)" using that by (simp add: word_less_nat_alt)
    then show ?thesis using t(2,3) unfolding bit_offset_def by linarith
  qed
  show "4096 * unat (sb_data_start sb) \<le> 4096 * unat (sb_total_blocks sb)" using l by (simp add: layout_ok_def)
qed

lemma record_location:
  assumes l: "layout_ok sb" and i: "1 \<le> i" "i \<le> sb_object_count sb"
  shows "\<exists>base slot off. checked_mul_u64 (ucast (sb_object_table_start sb)) 4096 = Some base \<and>
    checked_mul_u64 (ucast (i - 1)) 128 = Some slot \<and> checked_add_u64 base slot = Some off \<and> unat off = record_offset sb i"
proof -
  have i1: "unat (i - 1) = unat i - 1" using i(1) by (subst unat_sub) (simp_all add: word_le_nat_alt)
  have small: "unat (sb_object_table_start sb) \<le> 1048576" "unat i \<le> 16384"
    using l i(2) by (simp_all add: layout_ok_def word_le_nat_alt)
  have base: "unat ((ucast (sb_object_table_start sb) :: u64) * 4096) = 4096 * unat (sb_object_table_start sb)"
    using small by (simp add: unat_mult_exact)
  have slot: "unat ((ucast (i - 1) :: u64) * 128) = 128 * (unat i - 1)" using small i1 by (simp add: unat_mult_exact)
  have "unat ((ucast (sb_object_table_start sb) :: u64) * 4096 + ucast (i - 1) * 128) = record_offset sb i"
    using small base slot by (simp add: unat_add_exact record_offset_def)
  moreover have "unat i - 1 < 16384" using small by simp
  ultimately show ?thesis using small i1 base slot by (simp add: checked_mul_u64_eq checked_add_u64_eq)
qed

lemma bit_location:
  assumes l: "layout_ok (bfs_superblock b)" and k: "block < sb_total_blocks (bfs_superblock b)"
  obtains off where "bitmap_location b block = Some (off, bit_mask block)" "unat off = bit_offset (bfs_superblock b) block"
proof -
  let ?sb = "bfs_superblock b"
  have small: "unat (sb_bitmap_start ?sb) = 1" "unat (ucast block div 8 :: u64) = unat block div 8"
    using l by (simp_all add: layout_ok_def unat_div)
  have base: "unat ((ucast (sb_bitmap_start ?sb) :: u64) * 4096) = 4096" using small by (simp add: unat_mult_exact)
  have "unat ((ucast (sb_bitmap_start ?sb) :: u64) * 4096 + ucast block div 8) = bit_offset ?sb block"
    using small base unat_u32_less [of block] by (simp add: unat_add_exact bit_offset_def)
  moreover have "checked_mul_u64 (ucast (sb_bitmap_start ?sb)) 4096 = Some (ucast (sb_bitmap_start ?sb) * 4096)"
    "checked_add_u64 (ucast (sb_bitmap_start ?sb) * 4096) (ucast block div 8) = Some (ucast (sb_bitmap_start ?sb) * 4096 + ucast block div 8)"
    using small base unat_u32_less [of block] by (simp_all add: checked_mul_u64_eq checked_add_u64_eq)
  ultimately show thesis using that k by (simp add: bitmap_location_def bit_mask_def not_le [symmetric])
qed

section \<open>Extents\<close>

definition extent_in_volume :: "boringfs_superblock \<Rightarrow> boringfs_extent \<Rightarrow> bool" where
  "extent_in_volume sb e \<longleftrightarrow> ext_block_count e \<noteq> 0 \<and> sb_data_start sb \<le> ext_start_block e \<and>
     unat (ext_start_block e) + unat (ext_block_count e) \<le> unat (sb_total_blocks sb)"

definition extent_data :: "u8 list \<Rightarrow> boringfs_extent \<Rightarrow> u8 list" where
  "extent_data bytes e = sub_buffer bytes (4096 * unat (ext_start_block e)) (4096 * unat (ext_block_count e))"

text \<open>The bytes of an object, whatever its size.\<close>

definition object_data :: "u8 list \<Rightarrow> boringfs_object \<Rightarrow> u8 list" where
  "object_data bytes object = concat (map (extent_data bytes) (take (unat (obj_extent_count object)) (obj_extents object)))"

lemma extent_products:
  assumes l: "layout_ok sb" and e: "extent_in_volume sb e"
  shows "checked_add_u64 (ucast (ext_start_block e)) (ucast (ext_block_count e)) = Some (ucast (ext_start_block e) + ucast (ext_block_count e))"
    "\<not> ucast (sb_total_blocks sb) < (ucast (ext_start_block e) + ucast (ext_block_count e) :: u64)"
    "checked_mul_u64 (ucast (ext_block_count e)) 4096 = Some (ucast (ext_block_count e) * 4096)"
    "unat ((ucast (ext_block_count e) :: u64) * 4096) = 4096 * unat (ext_block_count e)"
    "checked_mul_u64 (ucast (ext_start_block e)) 4096 = Some (ucast (ext_start_block e) * 4096)"
    "unat ((ucast (ext_start_block e) :: u64) * 4096) = 4096 * unat (ext_start_block e)"
    "unat offset < 4096 * unat (ext_block_count e) \<Longrightarrow>
       checked_add_u64 (ucast (ext_start_block e) * 4096) offset = Some (ucast (ext_start_block e) * 4096 + offset) \<and>
       unat ((ucast (ext_start_block e) :: u64) * 4096 + offset) = 4096 * unat (ext_start_block e) + unat offset"
proof -
  have small: "unat (ext_start_block e) + unat (ext_block_count e) \<le> 1048576"
    using l e by (simp add: layout_ok_def extent_in_volume_def)
  show "checked_add_u64 (ucast (ext_start_block e)) (ucast (ext_block_count e)) = Some (ucast (ext_start_block e) + ucast (ext_block_count e))"
    using small by (simp add: checked_add_u64_eq)
  show "\<not> ucast (sb_total_blocks sb) < (ucast (ext_start_block e) + ucast (ext_block_count e) :: u64)"
    using small e by (simp add: extent_in_volume_def word_less_nat_alt unat_add_exact)
  show c: "unat ((ucast (ext_block_count e) :: u64) * 4096) = 4096 * unat (ext_block_count e)"
    using small by (simp add: unat_mult_exact)
  show s: "unat ((ucast (ext_start_block e) :: u64) * 4096) = 4096 * unat (ext_start_block e)"
    using small by (simp add: unat_mult_exact)
  show "checked_mul_u64 (ucast (ext_block_count e)) 4096 = Some (ucast (ext_block_count e) * 4096)"
    "checked_mul_u64 (ucast (ext_start_block e)) 4096 = Some (ucast (ext_start_block e) * 4096)"
    using small by (simp_all add: checked_mul_u64_eq)
  show "checked_add_u64 (ucast (ext_start_block e) * 4096) offset = Some (ucast (ext_start_block e) * 4096 + offset) \<and>
       unat ((ucast (ext_start_block e) :: u64) * 4096 + offset) = 4096 * unat (ext_start_block e) + unat offset"
    if "unat offset < 4096 * unat (ext_block_count e)"
    using small that s by (simp add: checked_add_u64_eq unat_add_exact)
qed

lemma sub_buffer_append_right: "length xs \<le> k \<Longrightarrow> sub_buffer (xs @ ys) k n = sub_buffer ys (k - length xs) n"
  by (simp add: sub_buffer_def)

lemma sub_buffer_append_split:
  "k < length xs \<Longrightarrow> c = min (length xs - k) n \<Longrightarrow> sub_buffer (xs @ ys) k n = sub_buffer xs k c @ sub_buffer ys 0 (n - c)"
  by (auto simp: sub_buffer_def min_def)

lemma sub_buffer_sub_buffer: "k + c \<le> n \<Longrightarrow> sub_buffer (sub_buffer xs a n) k c = sub_buffer xs (a + k) c"
  by (simp add: sub_buffer_def drop_take add.commute)

context healthy_volume
begin

abbreviation ready :: "'m bfs_disk \<Rightarrow> bool" where "ready \<equiv> bfs_ready device content blocks healthy"
abbreviation bytes_of :: "'m bfs_disk \<Rightarrow> u8 list" where "bytes_of \<equiv> disk_bytes content"

lemma length_bytes_of: "length (bytes_of d) = 4096 * volume_blocks (fst d)"
  by (simp add: disk_bytes_def content_length)

lemma source_read_ready:
  assumes r: "ready d" and o: "unat offset + unat len \<le> 4096 * volume_blocks (fst d)"
  obtains d' where "boringfs_source_read env offset len d = (Some (sub_buffer (bytes_of d) (unat offset) (unat len)), d')"
    "ready d'" "same_volume (fst d) (fst d')" "bytes_of d' = bytes_of d"
proof -
  have c: "coherent device content d" "healthy (snd d)" "volume_blocks (fst d) \<le> blocks"
    and s: "4096 * volume_blocks (fst d) \<le> unat (bfs_source_size (fst d))" using r by (simp_all add: bfs_ready_def)
  obtain bytes d' where t: "source_read_from env offset len d = (Some bytes, d')" "healthy (snd d')"
    using source_read_from_healthy [OF c o] by blast
  note spec = source_read_from_spec [OF c(1) t(1)]
  have "\<not> (offset > bfs_source_size (fst d) \<or> len > bfs_source_size (fst d) - offset)"
    using o s by (simp add: word_less_nat_alt unat_sub_if')
  then have run: "boringfs_source_read env offset len d = (Some bytes, d')" using t(1) by (simp only: boringfs_source_read_def if_False)
  have b: "bytes = sub_buffer (bytes_of d) (unat offset) (unat len)" using spec by (simp add: disk_bytes_def)
  have v: "same_volume (fst d) (fst d')" using spec by simp
  have "ready d'" using r spec t(2) v by (simp add: bfs_ready_def same_volume_blocks same_volume_fields)
  moreover have "bytes_of d' = bytes_of d" using spec v by (simp add: disk_bytes_def same_volume_blocks)
  ultimately show thesis using that run b v by blast
qed

lemma source_write_ready:
  assumes r: "ready d" "\<not> bfs_read_only (fst d)" and o: "unat offset + length source \<le> 4096 * volume_blocks (fst d)"
  obtains d' where "boringfs_source_write env offset source d = (True, d')"
    "ready d'" "same_volume (fst d) (fst d')" "bytes_of d' = splice (bytes_of d) (unat offset) source"
proof -
  have c: "coherent device content d" "healthy (snd d)" "volume_blocks (fst d) \<le> blocks"
    and s: "4096 * volume_blocks (fst d) \<le> unat (bfs_source_size (fst d))" using r by (simp_all add: bfs_ready_def)
  have "length source \<le> unat (bfs_source_size (fst d))" using o s by simp
  then have l: "unat (word_of_nat (length source) :: u64) = length source"
    using unat_u64_less [of "bfs_source_size (fst d)"] by (simp add: unat_of_nat)
  obtain d' where t: "source_write_from env offset (word_of_nat (length source)) source d = (True, d')" "healthy (snd d')"
    using source_write_from_healthy [OF c r(2) l o] by blast
  note spec = source_write_from_spec [OF c(1) l t(1)]
  have "\<not> (bfs_read_only (fst d) \<or> offset > bfs_source_size (fst d) \<or> word_of_nat (length source) > bfs_source_size (fst d) - offset)"
    using o s l r(2) by (simp add: word_less_nat_alt unat_sub_if')
  then have run: "boringfs_source_write env offset source d = (True, d')"
    using t(1) by (simp only: boringfs_source_write_def Let_def if_False)
  have v: "same_volume (fst d) (fst d')" using spec by simp
  have "ready d'" using r spec t(2) v by (simp add: bfs_ready_def same_volume_blocks same_volume_fields)
  moreover have "bytes_of d' = splice (bytes_of d) (unat offset) source" using spec v by (simp add: disk_bytes_def same_volume_blocks)
  ultimately show thesis using that run v by blast
qed

lemma volume_fits:
  assumes "ready d"
  shows "layout_ok (bfs_superblock (fst d))" "4096 * unat (sb_data_start (bfs_superblock (fst d))) \<le> 4096 * volume_blocks (fst d)"
  using assms by (simp_all add: bfs_ready_def layout_ok_def volume_blocks_def)

lemma decode_object_ready:
  assumes r: "ready d" and i: "1 \<le> i" "i \<le> sb_object_count (bfs_superblock (fst d))"
  obtains d' where "decode_object env i d = (map_option (\<lambda>object. (object, raw_object (bfs_superblock (fst d)) (bytes_of d) i))
      (boringfs_decode_object (Some (raw_object (bfs_superblock (fst d)) (bytes_of d) i))), d')"
    "ready d'" "same_volume (fst d) (fst d')" "bytes_of d' = bytes_of d"
proof -
  note l = volume_fits [OF r]
  obtain base slot off where loc: "checked_mul_u64 (ucast (sb_object_table_start (bfs_superblock (fst d)))) 4096 = Some base"
      "checked_mul_u64 (ucast (i - 1)) 128 = Some slot" "checked_add_u64 base slot = Some off"
      "unat off = record_offset (bfs_superblock (fst d)) i"
    using record_location [OF l(1) i] by blast
  have "unat off + unat (128 :: u64) \<le> 4096 * volume_blocks (fst d)" using layout_bounds(1) [OF l(1) i] l(2) loc(4) by simp
  from source_read_ready [OF r this] obtain d' where
    d': "boringfs_source_read env off 128 d = (Some (sub_buffer (bytes_of d) (unat off) (unat (128 :: u64))), d')"
      "ready d'" "same_volume (fst d) (fst d')" "bytes_of d' = bytes_of d" .
  have "i \<noteq> 0" "\<not> sb_object_count (bfs_superblock (fst d)) < i" using i by auto
  then have "decode_object env i d = (map_option (\<lambda>object. (object, raw_object (bfs_superblock (fst d)) (bytes_of d) i))
      (boringfs_decode_object (Some (raw_object (bfs_superblock (fst d)) (bytes_of d) i))), d')"
    using loc d'(1) by (simp add: decode_object_def disk_bind_def raw_object_def split: option.split)
  with d'(2-4) that show thesis by blast
qed

lemma write_object_raw_ready:
  assumes r: "ready d" "\<not> bfs_read_only (fst d)" and i: "1 \<le> i" "i \<le> sb_object_count (bfs_superblock (fst d))" and raw: "length raw = 128"
  obtains d' where "write_object_raw env i raw d = (True, d')" "ready d'" "same_volume (fst d) (fst d')"
    "bytes_of d' = splice (bytes_of d) (record_offset (bfs_superblock (fst d)) i) raw"
proof -
  note l = volume_fits [OF r(1)]
  obtain base slot off where at: "checked_mul_u64 (ucast (sb_object_table_start (bfs_superblock (fst d)))) 4096 = Some base"
      "checked_mul_u64 (ucast (i - 1)) 128 = Some slot" "checked_add_u64 base slot = Some off"
      "unat off = record_offset (bfs_superblock (fst d)) i"
    using record_location [OF l(1) i] by blast
  have "i \<noteq> 0" "\<not> sb_object_count (bfs_superblock (fst d)) < i" using i by auto
  then have loc: "object_record_offset (fst d) i = Some off" "unat off = record_offset (bfs_superblock (fst d)) i"
    using at by (simp_all add: object_record_offset_def)
  have "unat off + length raw \<le> 4096 * volume_blocks (fst d)" using layout_bounds(1) [OF l(1) i] l(2) loc(2) raw by simp
  from source_write_ready [OF r this] show thesis using loc that by (auto simp: write_object_raw_def)
qed

lemma bitmap_get_ready:
  assumes r: "ready d" and k: "block < sb_total_blocks (bfs_superblock (fst d))"
  obtains d' where "bitmap_get env block d = (Some (block_used (bfs_superblock (fst d)) (bytes_of d) block), d')"
    "ready d'" "same_volume (fst d) (fst d')" "bytes_of d' = bytes_of d"
proof -
  note l = volume_fits [OF r]
  obtain off where loc: "bitmap_location (fst d) block = Some (off, bit_mask block)" "unat off = bit_offset (bfs_superblock (fst d)) block"
    by (rule bit_location [OF l(1) k])
  have o: "unat off + unat (1 :: u64) \<le> 4096 * volume_blocks (fst d)"
    using layout_bounds(3) [OF l(1) k] layout_bounds(4) [OF l(1)] l loc(2) by (auto simp: layout_ok_def)
  from source_read_ready [OF r o] obtain d' where
    d': "boringfs_source_read env off 1 d = (Some (sub_buffer (bytes_of d) (unat off) (unat (1 :: u64))), d')"
      "ready d'" "same_volume (fst d) (fst d')" "bytes_of d' = bytes_of d" .
  have "sub_buffer (bytes_of d) (unat off) (unat (1 :: u64)) ! 0 = bytes_of d ! unat off"
    using o by (simp add: nth_sub_buffer length_bytes_of)
  then have "bitmap_get env block d = (Some (block_used (bfs_superblock (fst d)) (bytes_of d) block), d')"
    using loc d'(1) by (simp add: bitmap_get_def disk_bind_def block_used_def)
  with d'(2-4) that show thesis by blast
qed

lemma bitmap_set_ready:
  assumes r: "ready d" "\<not> bfs_read_only (fst d)" and k: "block < sb_total_blocks (bfs_superblock (fst d))"
    and s: "sb_data_start (bfs_superblock (fst d)) \<le> block"
  obtains d' where "bitmap_set env block allocated d = (True, d')" "ready d'" "same_volume (fst d) (fst d')"
    "bytes_of d' = (bytes_of d)[bit_offset (bfs_superblock (fst d)) block :=
      (if allocated then bytes_of d ! bit_offset (bfs_superblock (fst d)) block OR bit_mask block
       else bytes_of d ! bit_offset (bfs_superblock (fst d)) block AND NOT (bit_mask block))]"
proof -
  note l = volume_fits [OF r(1)]
  obtain off where loc: "bitmap_location (fst d) block = Some (off, bit_mask block)" "unat off = bit_offset (bfs_superblock (fst d)) block"
    by (rule bit_location [OF l(1) k])
  have o: "unat off + 1 \<le> 4096 * volume_blocks (fst d)"
    using layout_bounds(3) [OF l(1) k] layout_bounds(4) [OF l(1)] l loc(2) by (auto simp: layout_ok_def)
  then have "unat off + unat (1 :: u64) \<le> 4096 * volume_blocks (fst d)" by simp
  from source_read_ready [OF r(1) this] obtain d1 where
    d1: "boringfs_source_read env off 1 d = (Some (sub_buffer (bytes_of d) (unat off) (unat (1 :: u64))), d1)"
      "ready d1" "same_volume (fst d) (fst d1)" "bytes_of d1 = bytes_of d" .
  define byte where "byte = bytes_of d ! unat off"
  have byte: "sub_buffer (bytes_of d) (unat off) (unat (1 :: u64)) ! 0 = byte"
    using o by (simp add: nth_sub_buffer length_bytes_of byte_def)
  define new where "new = (if allocated then byte OR bit_mask block else byte AND NOT (bit_mask block))"
  have "\<not> bfs_read_only (fst d1)" "unat off + length [new] \<le> 4096 * volume_blocks (fst d1)"
    using r(2) o d1(3) by (simp_all add: same_volume_fields same_volume_blocks)
  from source_write_ready [OF d1(2) this] obtain d2 where
    d2: "boringfs_source_write env off [new] d1 = (True, d2)" "ready d2" "same_volume (fst d1) (fst d2)"
      "bytes_of d2 = splice (bytes_of d1) (unat off) [new]" .
  have run: "bitmap_set env block allocated d = (True, d2)"
    using loc s d1(1) d2(1) byte by (cases allocated) (simp_all add: bitmap_set_def new_def not_less)
  have "splice (bytes_of d) (unat off) [new] = (bytes_of d)[unat off := new]"
    using o by (intro nth_equalityI) (auto simp: nth_splice nth_list_update length_bytes_of)
  then have b: "bytes_of d2 = (bytes_of d)[bit_offset (bfs_superblock (fst d)) block := new]" using d1(4) d2(4) loc(2) by simp
  from d1(3) d2(3) have "same_volume (fst d) (fst d2)" by (rule same_volume_trans)
  from that [OF run d2(2) this] b show thesis by (simp add: new_def byte_def loc(2))
qed

lemma first_free_block_ready:
  "ready d \<Longrightarrow> \<forall>k\<in>set ks. k < sb_total_blocks (bfs_superblock (fst d)) \<Longrightarrow>
     \<exists>d'. first_free_block env ks d = (List.find (\<lambda>k. \<not> block_used (bfs_superblock (fst d)) (bytes_of d) k) ks, d') \<and>
       ready d' \<and> same_volume (fst d) (fst d') \<and> bytes_of d' = bytes_of d"
proof (induction ks arbitrary: d)
  case (Cons k ks)
  have "k < sb_total_blocks (bfs_superblock (fst d))" using Cons.prems(2) by simp
  from bitmap_get_ready [OF Cons.prems(1) this] obtain d1 where
    d1: "bitmap_get env k d = (Some (block_used (bfs_superblock (fst d)) (bytes_of d) k), d1)"
      "ready d1" "same_volume (fst d) (fst d1)" "bytes_of d1 = bytes_of d" .
  have sb: "bfs_superblock (fst d1) = bfs_superblock (fst d)" using d1(3) by (simp add: same_volume_fields)
  show ?case
  proof (cases "block_used (bfs_superblock (fst d)) (bytes_of d) k")
    case True
    have "\<forall>k\<in>set ks. k < sb_total_blocks (bfs_superblock (fst d1))" using Cons.prems(2) sb by simp
    from Cons.IH [OF d1(2) this] show ?thesis
      using True d1 sb by (auto simp: disk_bind_def intro: same_volume_trans)
  next
    case False
    then show ?thesis using d1 by (auto simp: disk_bind_def)
  qed
qed simp

lemma find_free_block_ready:
  assumes r: "ready d"
  obtains d' where "find_free_block env preferred d =
      (if sb_data_start (bfs_superblock (fst d)) \<le> preferred \<and> preferred < sb_total_blocks (bfs_superblock (fst d)) \<and>
          \<not> block_used (bfs_superblock (fst d)) (bytes_of d) preferred
       then Some preferred
       else List.find (\<lambda>k. \<not> block_used (bfs_superblock (fst d)) (bytes_of d) k)
         (word_range (unat (sb_data_start (bfs_superblock (fst d)))) (unat (sb_total_blocks (bfs_superblock (fst d))))), d')"
    "ready d'" "same_volume (fst d) (fst d')" "bytes_of d' = bytes_of d"
proof -
  let ?sb = "bfs_superblock (fst d)"
  let ?ks = "word_range (unat (sb_data_start ?sb)) (unat (sb_total_blocks ?sb)) :: u32 list"
  have ks: "\<forall>k\<in>set ?ks. k < sb_total_blocks ?sb" using unat_u32_less [of "sb_total_blocks ?sb"]
    by (simp add: word_less_nat_alt unat_in_word_range)
  show thesis
  proof (cases "sb_data_start ?sb \<le> preferred \<and> preferred < sb_total_blocks ?sb")
    case True
    from bitmap_get_ready [OF r conjunct2 [OF this]] obtain d1 where
      d1: "bitmap_get env preferred d = (Some (block_used ?sb (bytes_of d) preferred), d1)"
        "ready d1" "same_volume (fst d) (fst d1)" "bytes_of d1 = bytes_of d" .
    have sb: "bfs_superblock (fst d1) = ?sb" using d1(3) by (simp add: same_volume_fields)
    show thesis
    proof (cases "block_used ?sb (bytes_of d) preferred")
      case used: True
      from first_free_block_ready [OF d1(2), of ?ks] obtain d2 where
        "first_free_block env ?ks d1 = (List.find (\<lambda>k. \<not> block_used ?sb (bytes_of d) k) ?ks, d2)"
          "ready d2" "same_volume (fst d) (fst d2)" "bytes_of d2 = bytes_of d"
        using ks sb d1(4) by (auto dest: same_volume_trans [OF d1(3)])
      then show thesis using True used d1(1) that [of d2] by (simp add: find_free_block_def Let_def)
    next
      case False
      then show thesis using True d1 that [of d1] by (simp add: find_free_block_def Let_def)
    qed
  next
    case False
    from first_free_block_ready [OF r ks] obtain d2 where
      "first_free_block env ?ks d = (List.find (\<lambda>k. \<not> block_used ?sb (bytes_of d) k) ?ks, d2)"
        "ready d2" "same_volume (fst d) (fst d2)" "bytes_of d2 = bytes_of d" by blast
    then show thesis using False that [of d2] by (auto simp: find_free_block_def Let_def)
  qed
qed

lemma write_zeroed_block_ready:
  assumes r: "ready d" "\<not> bfs_read_only (fst d)" and k: "block < sb_total_blocks (bfs_superblock (fst d))"
    and s: "sb_data_start (bfs_superblock (fst d)) \<le> block" and p: "length prefix \<le> 4096"
  obtains d' where "write_zeroed_block env block prefix d = (True, d')" "ready d'" "same_volume (fst d) (fst d')"
    "bytes_of d' = splice (bytes_of d) (4096 * unat block) (prefix @ replicate (4096 - length prefix) 0)"
proof -
  obtain b m where d: "d = (b, m)" by force
  define new where "new = prefix @ replicate (4096 - length prefix) (0 :: u8)"
  define b1 where "b1 = b\<lparr>bfs_block_cache := splice (zero_bytes (bfs_block_cache b) 4096) 0 prefix\<rparr>"
  have len: "length (bfs_block_cache b) = 4096" and dev: "bfs_device b = device" and h: "healthy m"
    and v: "volume_blocks b \<le> blocks" using r by (simp_all add: d bfs_ready_def coherent_def)
  have zero: "zero_bytes (bfs_block_cache b) 4096 = replicate 4096 0"
    using len by (auto simp: zero_bytes_def nth_write_cells intro!: nth_equalityI)
  then have cache: "bfs_block_cache b1 = new" using p by (simp add: b1_def new_def splice_def)
  have new: "length new = 4096" using p by (simp add: new_def)
  obtain ok d' where w: "store_cached_block env block (b1, m) = (ok, d')" by (metis surj_pair)
  have b1: "bfs_device b1 = device" "same_volume b b1" "\<not> bfs_read_only b1" "volume_blocks b1 = volume_blocks b"
    using dev r(2) by (simp_all add: b1_def same_volume_def d volume_blocks_def)
  have kn: "unat block < volume_blocks b" using k by (simp add: d volume_blocks_def word_less_nat_alt)
  have "attached device (b1, m)" using b1 cache new by (simp add: attached_def)
  note st = store_coherent [OF this w, unfolded fst_conv snd_conv]
  have ok: "ok \<and> healthy (snd d')"
    using store_healthy [OF _ _ _ _ _ _ w] b1 cache new h v kn by simp
  have run: "write_zeroed_block env block prefix d = (True, d')"
    using w ok s k p by (simp add: write_zeroed_block_def d b1_def not_less not_le)
  have sv: "same_volume (fst d) (fst d')" using b1(2) st(2) by (auto simp: d intro: same_volume_trans)
  have rd: "ready d'" using r(1) st(1) ok sv by (simp add: bfs_ready_def same_volume_blocks same_volume_fields)
  have win: "splice (content m (unat block)) 0 new = new" using new content_length by (simp add: splice_def)
  have "volume_bytes (content (snd d')) (volume_blocks b) = splice (volume_bytes (content m) (volume_blocks b)) (4096 * unat block) new"
    using st(3,4) ok kn new cache win by (intro block_splice) (simp_all add: content_length)
  then have "bytes_of d' = splice (bytes_of d) (4096 * unat block) new"
    using sv by (simp add: disk_bytes_def same_volume_blocks d)
  with run rd sv show thesis using that by (simp add: new_def)
qed

lemma object_read_extents_ready:
  "ready d \<Longrightarrow> \<forall>e\<in>set es. extent_in_volume (bfs_superblock (fst d)) e \<Longrightarrow>
     unat offset + unat remaining \<le> length (concat (map (extent_data (bytes_of d)) es)) \<Longrightarrow>
     \<exists>d'. object_read_extents env es offset remaining d =
         (Some (sub_buffer (concat (map (extent_data (bytes_of d)) es)) (unat offset) (unat remaining)), d') \<and>
       ready d' \<and> same_volume (fst d) (fst d') \<and> bytes_of d' = bytes_of d"
proof (induction es arbitrary: offset remaining d)
  case Nil
  then show ?case by (simp add: sub_buffer_def unat_eq_zero)
next
  case (Cons e es)
  define A where "A = extent_data (bytes_of d) e"
  define B where "B = concat (map (extent_data (bytes_of d)) es)"
  let ?sb = "bfs_superblock (fst d)"
  have e: "extent_in_volume ?sb e" and es: "\<forall>e\<in>set es. extent_in_volume ?sb e" using Cons.prems(2) by simp_all
  note p = extent_products [OF volume_fits(1) [OF Cons.prems(1)] e]
  have fits: "4096 * (unat (ext_start_block e) + unat (ext_block_count e)) \<le> 4096 * volume_blocks (fst d)"
    using e by (simp add: extent_in_volume_def volume_blocks_def)
  then have A: "length A = 4096 * unat (ext_block_count e)" by (simp add: A_def extent_data_def length_sub_buffer length_bytes_of)
  have e': "ext_block_count e \<noteq> 0" "\<not> ext_start_block e < sb_data_start ?sb" using e by (auto simp: extent_in_volume_def)
  show ?case
  proof (cases "remaining = 0")
    case True
    then show ?thesis using Cons.prems(1) by (simp add: sub_buffer_def)
  next
    case rem: False
    show ?thesis
    proof (cases "unat offset < length A")
      case False
      then have o: "ucast (ext_block_count e) * 4096 \<le> offset" "unat (offset - ucast (ext_block_count e) * 4096) = unat offset - length A"
        using p(4) A by (simp_all add: word_le_nat_alt unat_sub_if')
      have "unat (offset - ucast (ext_block_count e) * 4096) + unat remaining \<le> length B"
        using Cons.prems(3) o(2) False by (simp add: A_def B_def)
      from Cons.IH [OF Cons.prems(1) es this [unfolded B_def]] show ?thesis
        using rem e' p(1,2,3) o False
        by (auto simp: Let_def A_def [symmetric] B_def [symmetric] sub_buffer_append_right)
    next
      case True
      then have o: "\<not> ucast (ext_block_count e) * 4096 \<le> offset" "unat (ucast (ext_block_count e) * 4096 - offset) = length A - unat offset"
        using p(4) A by (simp_all add: word_le_nat_alt unat_sub_if')
      define chunk where "chunk = (if ucast (ext_block_count e) * 4096 - offset < remaining then ucast (ext_block_count e) * 4096 - offset else remaining)"
      have c: "unat chunk = min (length A - unat offset) (unat remaining)" using o(2) by (simp add: chunk_def word_less_nat_alt)
      have rc: "unat (remaining - chunk) = unat remaining - unat chunk" using c by (subst unat_sub) (simp_all add: word_le_nat_alt)
      note q = p(7) [OF True [unfolded A]]
      have inside: "unat (ucast (ext_start_block e) * 4096 + offset) + unat chunk \<le> 4096 * volume_blocks (fst d)"
        using q c A fits True by simp
      from source_read_ready [OF Cons.prems(1) inside] obtain d1 where
        d1: "boringfs_source_read env (ucast (ext_start_block e) * 4096 + offset) chunk d =
            (Some (sub_buffer (bytes_of d) (unat (ucast (ext_start_block e) * 4096 + offset)) (unat chunk)), d1)"
          "ready d1" "same_volume (fst d) (fst d1)" "bytes_of d1 = bytes_of d" .
      have sb: "bfs_superblock (fst d1) = ?sb" using d1(3) by (simp add: same_volume_fields)
      have "unat (0 :: u64) + unat (remaining - chunk) \<le> length (concat (map (extent_data (bytes_of d1)) es))"
        using Cons.prems(3) rc c d1(4) True by (simp add: A_def [symmetric] B_def [symmetric])
      from Cons.IH [OF d1(2) _ this] obtain d2 where
        d2: "object_read_extents env es 0 (remaining - chunk) d1 = (Some (sub_buffer B 0 (unat remaining - unat chunk)), d2)"
          "ready d2" "same_volume (fst d1) (fst d2)" "bytes_of d2 = bytes_of d"
        using es sb d1(4) rc by (auto simp: B_def)
      have now: "sub_buffer (bytes_of d) (unat (ucast (ext_start_block e) * 4096 + offset)) (unat chunk) = sub_buffer A (unat offset) (unat chunk)"
        using q c A True by (simp add: A_def extent_data_def sub_buffer_sub_buffer)
      have "sub_buffer (A @ B) (unat offset) (unat remaining) = sub_buffer A (unat offset) (unat chunk) @ sub_buffer B 0 (unat remaining - unat chunk)"
        using True c by (rule sub_buffer_append_split)
      then show ?thesis
        using rem e' p(1,2,3,5) o(1) q d1(1) d2 same_volume_trans [OF d1(3) d2(3)] now
        by (simp add: Let_def A_def [symmetric] B_def [symmetric] chunk_def [symmetric] disk_bind_def)
    qed
  qed
qed

lemma object_read_ready:
  assumes r: "ready d" and c: "unat (obj_extent_count object) \<le> 8"
    and es: "\<forall>e\<in>set (take (unat (obj_extent_count object)) (obj_extents object)). extent_in_volume (bfs_superblock (fst d)) e"
    and o: "unat offset + unat len \<le> length (object_data (bytes_of d) object)"
  obtains d' where "object_read_exact env object offset len d = (Some (sub_buffer (object_data (bytes_of d) object) (unat offset) (unat len)), d')"
    "ready d'" "same_volume (fst d) (fst d')" "bytes_of d' = bytes_of d"
  using object_read_extents_ready [OF r es o [unfolded object_data_def]] c
  by (auto simp: object_read_exact_def object_data_def)

end

section \<open>Records of objects\<close>

definition stored_object :: "boringfs_superblock \<Rightarrow> u8 list \<Rightarrow> u32 \<Rightarrow> boringfs_object option" where
  "stored_object sb bytes i = boringfs_decode_object (Some (raw_object sb bytes i))"

lemma sub_buffer_splice_same: "a + length s \<le> length xs \<Longrightarrow> sub_buffer (splice xs a s) a (length s) = s"
  by (simp add: sub_buffer_def splice_def)

lemma sub_buffer_splice_other:
  "a + length s \<le> length xs \<Longrightarrow> k + n \<le> length xs \<Longrightarrow> k + n \<le> a \<or> a + length s \<le> k \<Longrightarrow>
     sub_buffer (splice xs a s) k n = sub_buffer xs k n"
  by (rule nth_equalityI) (auto simp: nth_sub_buffer nth_splice)

lemma sub_buffer_update_other:
  "k + n \<le> length xs \<Longrightarrow> p < k \<or> k + n \<le> p \<Longrightarrow> sub_buffer (xs[p := v]) k n = sub_buffer xs k n"
  by (rule nth_equalityI) (auto simp: nth_sub_buffer)

lemma find_bounds:
  fixes k :: u32
  assumes "List.find P (word_range lo hi) = Some k" "hi < 4294967296"
  shows "lo \<le> unat k" "unat k < hi" "P k"
proof -
  have "k \<in> set (word_range lo hi)" "P k" using assms(1) by (auto simp: find_Some_iff)
  then show "lo \<le> unat k" "unat k < hi" "P k" using assms(2) by (simp_all add: unat_in_word_range)
qed

text \<open>The bits of two blocks are different bits.\<close>

lemma bit_mask_bit: "bit (bit_mask k) n \<longleftrightarrow> n = unat k mod 8"
proof -
  have "unat (k mod 8) = unat k mod 8" by (simp add: unat_mod)
  moreover have "unat k mod 8 < 8" by simp
  ultimately show ?thesis by (auto simp: bit_mask_def push_bit_eq_mult bit_exp_iff)
qed

lemma block_used_bit: "block_used sb bytes k \<longleftrightarrow> bit (bytes ! bit_offset sb k) (unat k mod 8)"
proof -
  have "unat k mod 8 < 8" by simp
  then show ?thesis
    unfolding block_used_def bit_eq_iff [of "bytes ! bit_offset sb k AND bit_mask k" 0] by (auto simp: bit_and_iff bit_mask_bit)
qed

lemma block_used_update:
  assumes "bit_offset sb k < length bytes" and o: "bit_offset sb j < length bytes"
  shows "block_used sb (bytes[bit_offset sb k := (if allocated then bytes ! bit_offset sb k OR bit_mask k
           else bytes ! bit_offset sb k AND NOT (bit_mask k))]) j \<longleftrightarrow>
     (if j = k then allocated else block_used sb bytes j)"
proof -
  have m: "unat j mod 8 < 8" "unat k mod 8 < 8" by simp_all
  have same: "j = k" if "bit_offset sb j = bit_offset sb k" "unat j mod 8 = unat k mod 8"
    using that by (metis add_left_cancel bit_offset_def mult_div_mod_eq word_unat_eq_iff)
  show ?thesis
    using m same assms by (cases "bit_offset sb j = bit_offset sb k")
      (auto simp: block_used_bit bit_or_iff bit_and_iff bit_not_iff bit_mask_bit)
qed

end
