(* ===== verification/Bfs.thy ===== *)
theory Bfs
  imports BfsDisk
begin

text \<open>
  kernel/fs/boringfs_vfs.c: the operations that a mounted BoringFS volume offers to
  kernel/core/vfs.c. A mounted volume is known by its address \<open>B\<close>, which is that of its
  \<open>struct vfs_filesystem\<close>; the node of object \<open>i\<close> is node \<open>i - 1\<close> of its node array. The work
  an operation does on the disk alone is a function of its own, on \<open>'m bfs_disk\<close>.
\<close>

section \<open>State\<close>

record 'm bfs_state =
  bfs_at :: "u64 \<Rightarrow> boringfs_vfs"
  bfs_machine :: 'm

type_synonym 'm bfs_world = "'m bfs_state vfs_world"

definition put_bfs :: "u64 \<Rightarrow> boringfs_vfs \<Rightarrow> 'm bfs_world \<Rightarrow> 'm bfs_world" where
  "put_bfs B b s = s\<lparr>backend := (backend s)\<lparr>bfs_at := (bfs_at (backend s))(B := b)\<rparr>\<rparr>"

text \<open>A function on the disk, run on a mounted volume.\<close>

definition on_disk :: "u64 \<Rightarrow> ('m bfs_disk \<Rightarrow> 'r \<times> 'm bfs_disk) \<Rightarrow> 'm bfs_world \<Rightarrow> 'r \<times> 'm bfs_world" where
  "on_disk B f s = (case f (bfs_at (backend s) B, bfs_machine (backend s)) of (r, b, m) \<Rightarrow>
     (r, s\<lparr>backend := (backend s)\<lparr>bfs_at := (bfs_at (backend s))(B := b), bfs_machine := m\<rparr>\<rparr>))"

definition zero_vfs_node :: vfs_node where
  "zero_vfs_node = \<lparr>node_id = 0, node_type = NODE_NONE, node_filesystem = 0, node_parent = None, node_backend = None,
     node_references = 0, node_valid = False\<rparr>"

section \<open>Nodes\<close>

definition context_from_filesystem :: "'m bfs_env \<Rightarrow> u64 \<Rightarrow> 'm bfs_world \<Rightarrow> u64 option" where
  "context_from_filesystem env filesystem s =
     (let fs = filesystem_at s filesystem in
      if filesystem = 0 \<or> \<not> fs_valid fs \<or> fs_operations fs \<noteq> bfs_operations env \<or> fs_backend fs = 0 then None
      else if fs_backend fs \<noteq> filesystem then None else Some (fs_backend fs))"

text \<open>The node of an object in the node array.\<close>

definition cached_node :: "boringfs_vfs \<Rightarrow> u32 \<Rightarrow> u64 \<times> nat" where
  "cached_node b object_id = (bfs_nodes b, unat (object_id - 1))"

definition prepare_node :: "'m bfs_env \<Rightarrow> u64 \<Rightarrow> u32 \<Rightarrow> node_ref \<Rightarrow> 'm bfs_world \<Rightarrow> (vfs_result \<times> node_ref) \<times> 'm bfs_world" where
  "prepare_node env B object_id parent s =
     (let b = bfs_at (backend s) B in
      if object_id = BORINGFS_NULL_OBJECT_ID \<or> object_id > bfs_node_count b then ((VFS_CORRUPT, None), s)
      else let n = cached_node b object_id in
        if bfs_prepared b ! snd n then
          if \<not> node_valid (node_at s n) \<or> node_id (node_at s n) \<noteq> ucast object_id \<or> node_filesystem (node_at s n) \<noteq> B \<or>
             object_id \<noteq> BORINGFS_ROOT_OBJECT_ID \<and> node_parent (node_at s n) \<noteq> parent
          then ((VFS_CORRUPT, None), s) else ((VFS_OK, Some n), s)
        else case on_disk B (decode_object env object_id) s of
          (None, s) \<Rightarrow> ((VFS_CORRUPT, None), s)
        | (Some (object, raw), s) \<Rightarrow>
            (case object_type_to_vfs (obj_type object) of
               None \<Rightarrow> ((VFS_CORRUPT, None), s)
             | Some type \<Rightarrow>
                 if bytes_all_zero raw \<or> obj_state object \<noteq> 1 \<or> obj_object_id object \<noteq> object_id then ((VFS_CORRUPT, None), s)
                 else if object_id \<noteq> BORINGFS_ROOT_OBJECT_ID \<and> parent = None then ((VFS_CORRUPT, None), s)
                 else case vfs_node_prepare (Some n) B (ucast object_id) type parent (Some n) s of (ok, s) \<Rightarrow>
                   if \<not> ok then ((VFS_CORRUPT, None), s)
                   else let b = bfs_at (backend s) B in
                     ((VFS_OK, Some n), put_bfs B (b\<lparr>bfs_prepared := (bfs_prepared b)[snd n := True]\<rparr>) s)))"

definition node_object_id :: "u64 \<Rightarrow> node_ref \<Rightarrow> 'm bfs_world \<Rightarrow> u32 option" where
  "node_object_id B node s = (let b = bfs_at (backend s) B in case node of None \<Rightarrow> None
     | Some n \<Rightarrow>
         if node_filesystem (node_at s n) \<noteq> B \<or> \<not> node_valid (node_at s n) then None
         else let ident = node_id (node_at s n) in
           if ident = 0 \<or> ident > ucast (bfs_node_count b) then None
           else if \<not> bfs_prepared b ! unat (ident - 1) \<or> (bfs_nodes b, unat (ident - 1)) \<noteq> n then None
           else Some (ucast ident))"

section \<open>Reading\<close>

definition boringfs_lookup :: "'m bfs_env \<Rightarrow> u64 \<Rightarrow> node_ref \<Rightarrow> u8 list \<Rightarrow> 'm bfs_world \<Rightarrow> (vfs_result \<times> node_ref) \<times> 'm bfs_world" where
  "boringfs_lookup env filesystem directory name s =
     (case context_from_filesystem env filesystem s of None \<Rightarrow> ((VFS_INVALID_ARGUMENT, None), s)
      | Some B \<Rightarrow> (case node_object_id B directory s of None \<Rightarrow> ((VFS_INVALID_ARGUMENT, None), s)
        | Some directory_id \<Rightarrow>
            if node_type (node_at s (the directory)) \<noteq> NODE_DIRECTORY then ((VFS_NOT_DIRECTORY, None), s)
            else if name = [] then ((VFS_INVALID_ARGUMENT, None), s)
            else if length name > BORINGFS_MAX_FILENAME then ((VFS_NAME_TOO_LONG, None), s)
            else case on_disk B (decode_object env directory_id) s of
              (None, s) \<Rightarrow> ((VFS_CORRUPT, None), s)
            | (Some (object, raw), s) \<Rightarrow>
                if obj_type object \<noteq> TYPE_DIRECTORY \<or> obj_size_bytes object mod 256 \<noteq> 0 then ((VFS_CORRUPT, None), s)
                else case on_disk B (find_name_in env directory_id name (directory_slots object)) s of
                  (Inl result, s) \<Rightarrow> ((result, None), s)
                | (Inr (slot, raw, rec, target), s) \<Rightarrow> prepare_node env B (dir_object_id rec) directory s))"

definition boringfs_read :: "'m bfs_env \<Rightarrow> u64 \<Rightarrow> node_ref \<Rightarrow> u64 \<Rightarrow> u64 \<Rightarrow> 'm bfs_world \<Rightarrow>
    (vfs_result \<times> u8 list \<times> u64) \<times> 'm bfs_world" where
  "boringfs_read env filesystem node offset len s =
     (case context_from_filesystem env filesystem s of None \<Rightarrow> ((VFS_INVALID_ARGUMENT, [], 0), s)
      | Some B \<Rightarrow> (case node_object_id B node s of None \<Rightarrow> ((VFS_INVALID_ARGUMENT, [], 0), s)
        | Some object_id \<Rightarrow>
            if node_type (node_at s (the node)) \<noteq> NODE_REGULAR then ((VFS_NOT_REGULAR, [], 0), s)
            else case on_disk B (decode_object env object_id) s of
              (None, s) \<Rightarrow> ((VFS_CORRUPT, [], 0), s)
            | (Some (object, raw), s) \<Rightarrow>
                if obj_state object \<noteq> 1 \<or> obj_type object \<noteq> TYPE_REGULAR \<or> obj_object_id object \<noteq> object_id then ((VFS_CORRUPT, [], 0), s)
                else if offset \<ge> obj_size_bytes object then ((VFS_OK, [], 0), s)
                else let available = obj_size_bytes object - offset; transfer = (if available < len then available else len) in
                  if transfer = 0 then ((VFS_OK, [], 0), s)
                  else case on_disk B (object_read_exact env object offset transfer) s of
                    (None, s) \<Rightarrow> ((VFS_CORRUPT, [], 0), s)
                  | (Some bytes, s) \<Rightarrow> ((VFS_OK, bytes, transfer), s)))"

text \<open>The slot in use with the given number, counting those in use only.\<close>

fun visible_entry :: "'m bfs_env \<Rightarrow> u32 \<Rightarrow> u64 \<Rightarrow> u64 \<Rightarrow> u64 list \<Rightarrow> 'm bfs_disk \<Rightarrow>
    (vfs_result + boringfs_directory_record \<times> boringfs_object) \<times> 'm bfs_disk" where
  "visible_entry env directory_id index visible_index [] d = (Inl VFS_NOT_FOUND, d)"
| "visible_entry env directory_id index visible_index (slot # rest) d = (case read_directory_slot env directory_id slot d of
     (Inl result, d) \<Rightarrow> (Inl result, d)
   | (Inr (raw, None), d) \<Rightarrow> visible_entry env directory_id index visible_index rest d
   | (Inr (raw, Some found), d) \<Rightarrow>
       if visible_index \<noteq> index then visible_entry env directory_id index (visible_index + 1) rest d
       else (Inr found, d))"

definition boringfs_readdir :: "'m bfs_env \<Rightarrow> u64 \<Rightarrow> node_ref \<Rightarrow> u64 \<Rightarrow> vfs_dirent \<Rightarrow> 'm bfs_world \<Rightarrow>
    (vfs_result \<times> vfs_dirent) \<times> 'm bfs_world" where
  "boringfs_readdir env filesystem directory index entry s =
     (case context_from_filesystem env filesystem s of None \<Rightarrow> ((VFS_INVALID_ARGUMENT, entry), s)
      | Some B \<Rightarrow> (case node_object_id B directory s of None \<Rightarrow> ((VFS_INVALID_ARGUMENT, entry), s)
        | Some directory_id \<Rightarrow>
            if node_type (node_at s (the directory)) \<noteq> NODE_DIRECTORY then ((VFS_NOT_DIRECTORY, entry), s)
            else case on_disk B (decode_object env directory_id) s of
              (None, s) \<Rightarrow> ((VFS_CORRUPT, entry), s)
            | (Some (object, raw), s) \<Rightarrow>
                if obj_type object \<noteq> TYPE_DIRECTORY \<or> obj_size_bytes object mod 256 \<noteq> 0 then ((VFS_CORRUPT, entry), s)
                else case on_disk B (visible_entry env directory_id index 0 (directory_slots object)) s of
                  (Inl result, s) \<Rightarrow> ((result, entry), s)
                | (Inr (rec, target), s) \<Rightarrow> (case object_type_to_vfs (obj_type target) of
                    None \<Rightarrow> ((VFS_CORRUPT, entry), s)
                  | Some type \<Rightarrow> ((VFS_OK, entry\<lparr>dirent_node_id := ucast (dir_object_id rec), dirent_type := type,
                      dirent_name_length := ucast (dir_name_length rec),
                      dirent_name := (write_cells 0 (\<lambda>k. dir_name rec ! k) (unat (dir_name_length rec)) (dirent_name entry))
                        [unat (dir_name_length rec) := 0]\<rparr>), s))))"

section \<open>Creating\<close>

definition mutation_context :: "'m bfs_env \<Rightarrow> u64 \<Rightarrow> 'm bfs_world \<Rightarrow> vfs_result + u64" where
  "mutation_context env filesystem s = (case context_from_filesystem env filesystem s of
     None \<Rightarrow> Inl VFS_INVALID_ARGUMENT
   | Some B \<Rightarrow> if bfs_read_only (bfs_at (backend s) B) then Inl VFS_ACCESS_DENIED else Inr B)"

definition new_object :: "u32 \<Rightarrow> u8 \<Rightarrow> u32 \<Rightarrow> boringfs_object" where
  "new_object object_id type directory_id = \<lparr>obj_state = 1, obj_type = type, obj_flags = 0, obj_object_id = object_id,
     obj_parent_object_id = directory_id, obj_extent_count = 0, obj_size_bytes = 0,
     obj_extents = replicate 8 \<lparr>ext_start_block = 0, ext_block_count = 0\<rparr>\<rparr>"

definition new_directory_record :: "u32 \<Rightarrow> u8 \<Rightarrow> u8 list \<Rightarrow> boringfs_directory_record" where
  "new_directory_record object_id type name = \<lparr>dir_object_id = object_id, dir_name_length = word_of_nat (length name),
     dir_type_hint = type, dir_flags = 0, dir_name = splice (replicate BORINGFS_MAX_FILENAME 0) 0 name\<rparr>"

text \<open>Giving back the block that was reserved for the directory, if there was one.\<close>

definition unreserve :: "'m bfs_env \<Rightarrow> u32 option \<Rightarrow> 'm bfs_disk \<Rightarrow> 'm bfs_disk" where
  "unreserve env reserved d = (case reserved of None \<Rightarrow> d | Some block \<Rightarrow> snd (bitmap_set env block False d))"

text \<open>The last part of a creation: the object, its directory record and, if it has grown, the directory.\<close>

definition commit_object :: "'m bfs_env \<Rightarrow> u32 \<Rightarrow> u8 \<Rightarrow> u32 \<Rightarrow> u8 list \<Rightarrow> boringfs_object \<Rightarrow> u64 \<Rightarrow> bool \<Rightarrow> u32 option \<Rightarrow> 'm bfs_disk \<Rightarrow>
    bool \<times> 'm bfs_disk" where
  "commit_object env object_id type directory_id name staged logical_offset appends reserved d =
     (case boringfs_encode_directory_record (Some (replicate 256 0)) (Some (new_directory_record object_id type name)) of
       (ok, raw) \<Rightarrow>
         if \<not> ok then (False, unreserve env reserved d)
         else case write_object env (new_object object_id type directory_id) d of (ok, d) \<Rightarrow>
           if \<not> ok then (False, unreserve env reserved d)
           else case object_write_exact env staged logical_offset (the raw) d of (ok, d) \<Rightarrow>
             if \<not> ok then (False, unreserve env reserved (snd (clear_object env object_id d)))
             else if \<not> appends then (True, d)
             else case write_object env staged d of (ok, d) \<Rightarrow>
               if \<not> ok then (False, unreserve env reserved (snd (clear_object env object_id
                   (snd (object_write_exact env staged logical_offset (replicate 256 0) d)))))
               else (True, d))"

text \<open>Reserving a block for the directory, filled with zeros.\<close>

definition reserve_block :: "'m bfs_env \<Rightarrow> boringfs_object \<Rightarrow> 'm bfs_disk \<Rightarrow> (vfs_result + boringfs_object \<times> u32) \<times> 'm bfs_disk" where
  "reserve_block env directory d = (case extend_directory env directory d of
     (Inl result, d) \<Rightarrow> (Inl result, d)
   | (Inr (staged, block), d) \<Rightarrow> (case write_zeroed_block env block [] d of (ok, d) \<Rightarrow>
       if \<not> ok then (Inl VFS_CORRUPT, d)
       else case bitmap_set env block True d of (ok, d) \<Rightarrow>
         if \<not> ok then (Inl VFS_CORRUPT, d) else (Inr (staged, block), d)))"

definition create_object :: "'m bfs_env \<Rightarrow> u32 \<Rightarrow> u8 list \<Rightarrow> u8 \<Rightarrow> 'm bfs_disk \<Rightarrow> (vfs_result + u32) \<times> 'm bfs_disk" where
  "create_object env directory_id name type d =
     (case find_directory_name env directory_id name d of
        (Inr found, d) \<Rightarrow> (Inl VFS_ALREADY_EXISTS, d)
      | (Inl result, d) \<Rightarrow>
          if result \<noteq> VFS_NOT_FOUND then (Inl result, d)
          else case find_free_object env d of
            (None, d) \<Rightarrow> (Inl VFS_NO_SPACE, d)
          | (Some object_id, d) \<Rightarrow> (case decode_object env directory_id d of
              (None, d) \<Rightarrow> (Inl VFS_CORRUPT, d)
            | (Some (directory, raw), d) \<Rightarrow>
                if obj_state directory \<noteq> 1 \<or> obj_type directory \<noteq> TYPE_DIRECTORY then (Inl VFS_CORRUPT, d)
                else case object_capacity directory of None \<Rightarrow> (Inl VFS_CORRUPT, d)
                | Some capacity \<Rightarrow> (case find_directory_hole env directory_id directory d of
                    (Inl result, d) \<Rightarrow> (Inl result, d)
                  | (Inr (slot, appends), d) \<Rightarrow> (case checked_mul_u64 slot 256 of None \<Rightarrow> (Inl VFS_OVERFLOW, d)
                    | Some logical_offset \<Rightarrow>
                        case (if \<not> appends then (Inr (directory, None), d)
                          else case checked_add_u64 (obj_size_bytes directory) 256 of None \<Rightarrow> (Inl VFS_OVERFLOW, d)
                          | Some new_size \<Rightarrow>
                              if new_size > capacity then
                                (case reserve_block env directory d of
                                   (Inl result, d) \<Rightarrow> (Inl result, d)
                                 | (Inr (staged, block), d) \<Rightarrow> (Inr (staged\<lparr>obj_size_bytes := new_size\<rparr>, Some block), d))
                              else (Inr (directory\<lparr>obj_size_bytes := new_size\<rparr>, None), d)) of
                          (Inl result, d) \<Rightarrow> (Inl result, d)
                        | (Inr (staged, reserved), d) \<Rightarrow>
                            (case commit_object env object_id type directory_id name staged logical_offset appends reserved d of (ok, d) \<Rightarrow>
                              if \<not> ok then (Inl VFS_CORRUPT, d) else (Inr object_id, d))))))"

text \<open>The checks of the arguments that creating and removing share.\<close>

definition mutation_directory :: "'m bfs_env \<Rightarrow> u64 \<Rightarrow> node_ref \<Rightarrow> u8 list \<Rightarrow> 'm bfs_world \<Rightarrow> vfs_result + u64 \<times> u32" where
  "mutation_directory env filesystem directory name s = (case mutation_context env filesystem s of
     Inl result \<Rightarrow> Inl result
   | Inr B \<Rightarrow> (case node_object_id B directory s of None \<Rightarrow> Inl VFS_INVALID_ARGUMENT
     | Some directory_id \<Rightarrow>
         if node_type (node_at s (the directory)) \<noteq> NODE_DIRECTORY then Inl VFS_NOT_DIRECTORY
         else if length name > BORINGFS_MAX_FILENAME then Inl VFS_NAME_TOO_LONG
         else if \<not> valid_new_name name then Inl VFS_INVALID_ARGUMENT
         else Inr (B, directory_id)))"

definition boringfs_create_common :: "'m bfs_env \<Rightarrow> u8 \<Rightarrow> u64 \<Rightarrow> node_ref \<Rightarrow> u8 list \<Rightarrow> 'm bfs_world \<Rightarrow>
    (vfs_result \<times> node_ref) \<times> 'm bfs_world" where
  "boringfs_create_common env type filesystem directory name s = (case mutation_directory env filesystem directory name s of
     Inl result \<Rightarrow> ((result, None), s)
   | Inr (B, directory_id) \<Rightarrow> (case on_disk B (create_object env directory_id name type) s of
       (Inl result, s) \<Rightarrow> ((result, None), s)
     | (Inr object_id, s) \<Rightarrow> (case prepare_node env B object_id directory s of ((result, node), s) \<Rightarrow>
         ((if result = VFS_OK then VFS_OK else VFS_CORRUPT, node), s))))"

definition boringfs_create :: "'m bfs_env \<Rightarrow> u64 \<Rightarrow> node_ref \<Rightarrow> u8 list \<Rightarrow> 'm bfs_world \<Rightarrow> (vfs_result \<times> node_ref) \<times> 'm bfs_world" where
  "boringfs_create env = boringfs_create_common env TYPE_REGULAR"

definition boringfs_mkdir :: "'m bfs_env \<Rightarrow> u64 \<Rightarrow> node_ref \<Rightarrow> u8 list \<Rightarrow> 'm bfs_world \<Rightarrow> (vfs_result \<times> node_ref) \<times> 'm bfs_world" where
  "boringfs_mkdir env = boringfs_create_common env TYPE_DIRECTORY"

section \<open>Removing\<close>

text \<open>
  Taking the record out of the directory, clearing the object and releasing its blocks; when a
  step fails, those before it are taken back.
\<close>

definition remove_object :: "'m bfs_env \<Rightarrow> u32 \<Rightarrow> u64 \<Rightarrow> u8 list \<Rightarrow> u32 \<Rightarrow> 'm bfs_disk \<Rightarrow> bool \<times> 'm bfs_disk" where
  "remove_object env directory_id slot directory_record_raw object_id d =
     (case decode_object env object_id d of
        (None, d) \<Rightarrow> (False, d)
      | (Some (target, target_raw), d) \<Rightarrow> (case checked_mul_u64 slot 256 of None \<Rightarrow> (False, d)
        | Some logical_offset \<Rightarrow> (case decode_object env directory_id d of
            (None, d) \<Rightarrow> (False, d)
          | (Some (parent, parent_raw), d) \<Rightarrow>
              (case object_write_exact env parent logical_offset (replicate 256 0) d of (ok, d) \<Rightarrow>
                if \<not> ok then (False, d)
                else case clear_object env object_id d of (ok, d) \<Rightarrow>
                  if \<not> ok then (False, snd (object_write_exact env parent logical_offset directory_record_raw d))
                  else case release_object_blocks env target d of (ok, d) \<Rightarrow>
                    if \<not> ok then (False, snd (object_write_exact env parent logical_offset directory_record_raw
                      (snd (write_object_raw env object_id target_raw d))))
                    else (True, d)))))"

definition boringfs_remove_common :: "'m bfs_env \<Rightarrow> bool \<Rightarrow> u64 \<Rightarrow> node_ref \<Rightarrow> u8 list \<Rightarrow> 'm bfs_world \<Rightarrow> vfs_result \<times> 'm bfs_world" where
  "boringfs_remove_common env directory_requested filesystem directory name s = (case mutation_directory env filesystem directory name s of
     Inl result \<Rightarrow> (result, s)
   | Inr (B, directory_id) \<Rightarrow> (case on_disk B (find_directory_name env directory_id name) s of
       (Inl result, s) \<Rightarrow> (result, s)
     | (Inr (slot, raw, rec, target), s) \<Rightarrow>
         if directory_requested \<and> obj_type target \<noteq> TYPE_DIRECTORY then (VFS_NOT_DIRECTORY, s)
         else if \<not> directory_requested \<and> obj_type target \<noteq> TYPE_REGULAR then (VFS_NOT_REGULAR, s)
         else let b = bfs_at (backend s) B; n = cached_node b (dir_object_id rec) in
           if bfs_prepared b ! snd n \<and> node_references (node_at s n) \<noteq> 0 then (VFS_BUSY, s)
           else case (if directory_requested then on_disk B (directory_is_empty env (dir_object_id rec) target) s else (Inr True, s)) of
             (Inl result, s) \<Rightarrow> (result, s)
           | (Inr is_free, s) \<Rightarrow>
               if \<not> is_free then (VFS_NOT_EMPTY, s)
               else case on_disk B (remove_object env directory_id slot raw (dir_object_id rec)) s of (ok, s) \<Rightarrow>
                 if \<not> ok then (VFS_CORRUPT, s)
                 else let b = bfs_at (backend s) B in
                   (VFS_OK, put_bfs B (b\<lparr>bfs_prepared := (bfs_prepared b)[snd n := False]\<rparr>) (put_node n zero_vfs_node s))))"

definition boringfs_unlink :: "'m bfs_env \<Rightarrow> u64 \<Rightarrow> node_ref \<Rightarrow> u8 list \<Rightarrow> 'm bfs_world \<Rightarrow> vfs_result \<times> 'm bfs_world" where
  "boringfs_unlink env = boringfs_remove_common env False"

definition boringfs_rmdir :: "'m bfs_env \<Rightarrow> u64 \<Rightarrow> node_ref \<Rightarrow> u8 list \<Rightarrow> 'm bfs_world \<Rightarrow> vfs_result \<times> 'm bfs_world" where
  "boringfs_rmdir env = boringfs_remove_common env True"

definition boringfs_rename :: "'m bfs_env \<Rightarrow> u64 \<Rightarrow> node_ref \<Rightarrow> u8 list \<Rightarrow> node_ref \<Rightarrow> u8 list \<Rightarrow> 'm bfs_world \<Rightarrow> vfs_result \<times> 'm bfs_world" where
  "boringfs_rename env filesystem old_directory old_name new_directory new_name s =
     (case mutation_context env filesystem s of Inl result \<Rightarrow> (result, s) | Inr B \<Rightarrow> (VFS_NOT_SUPPORTED, s))"

section \<open>Writing\<close>

text \<open>A file without data gets its first block.\<close>

definition write_object_data :: "'m bfs_env \<Rightarrow> u32 \<Rightarrow> u8 list \<Rightarrow> 'm bfs_disk \<Rightarrow> (vfs_result \<times> u64) \<times> 'm bfs_disk" where
  "write_object_data env object_id bytes d =
     (case decode_object env object_id d of
        (None, d) \<Rightarrow> ((VFS_CORRUPT, 0), d)
      | (Some (object, raw), d) \<Rightarrow>
          if obj_state object \<noteq> 1 \<or> obj_type object \<noteq> TYPE_REGULAR then ((VFS_CORRUPT, 0), d)
          else if bytes = [] then ((VFS_OK, 0), d)
          else if obj_size_bytes object \<noteq> 0 \<or> obj_extent_count object \<noteq> 0 then ((VFS_NOT_SUPPORTED, 0), d)
          else case find_free_block env UINT32_MAX d of
            (None, d) \<Rightarrow> ((VFS_NO_SPACE, 0), d)
          | (Some block, d) \<Rightarrow> (case write_zeroed_block env block bytes d of (ok, d) \<Rightarrow>
              if \<not> ok then ((VFS_CORRUPT, 0), d)
              else case bitmap_set env block True d of (ok, d) \<Rightarrow>
                if \<not> ok then ((VFS_CORRUPT, 0), d)
                else case write_object env (object\<lparr>obj_size_bytes := word_of_nat (length bytes), obj_extent_count := 1,
                    obj_extents := (obj_extents object)[0 := \<lparr>ext_start_block = block, ext_block_count = 1\<rparr>]\<rparr>) d of (ok, d) \<Rightarrow>
                  if \<not> ok then ((VFS_CORRUPT, 0), snd (bitmap_set env block False d))
                  else ((VFS_OK, word_of_nat (length bytes)), d)))"

definition boringfs_write :: "'m bfs_env \<Rightarrow> u64 \<Rightarrow> node_ref \<Rightarrow> u64 \<Rightarrow> u8 list \<Rightarrow> 'm bfs_world \<Rightarrow> (vfs_result \<times> u64) \<times> 'm bfs_world" where
  "boringfs_write env filesystem node offset bytes s = (case mutation_context env filesystem s of
     Inl result \<Rightarrow> ((result, 0), s)
   | Inr B \<Rightarrow> (case node_object_id B node s of None \<Rightarrow> ((VFS_INVALID_ARGUMENT, 0), s)
     | Some object_id \<Rightarrow>
         if node_type (node_at s (the node)) \<noteq> NODE_REGULAR then ((VFS_NOT_REGULAR, 0), s)
         else if offset \<noteq> 0 \<or> length bytes > BORINGFS_BLOCK_SIZE then ((VFS_NOT_SUPPORTED, 0), s)
         else on_disk B (write_object_data env object_id bytes) s))"

definition truncate_object :: "'m bfs_env \<Rightarrow> u32 \<Rightarrow> u64 \<Rightarrow> 'm bfs_disk \<Rightarrow> vfs_result \<times> 'm bfs_disk" where
  "truncate_object env object_id new_size d =
     (case decode_object env object_id d of
        (None, d) \<Rightarrow> (VFS_CORRUPT, d)
      | (Some (object, raw), d) \<Rightarrow>
          if obj_state object \<noteq> 1 \<or> obj_type object \<noteq> TYPE_REGULAR then (VFS_CORRUPT, d)
          else if new_size = obj_size_bytes object then (VFS_OK, d)
          else if new_size \<noteq> 0 then (VFS_NOT_SUPPORTED, d)
          else case write_object env (object\<lparr>obj_size_bytes := 0, obj_extent_count := 0,
              obj_extents := write_cells 0 (\<lambda>_. \<lparr>ext_start_block = 0, ext_block_count = 0\<rparr>) BORINGFS_MAX_EXTENTS (obj_extents object)\<rparr>) d of (ok, d) \<Rightarrow>
            if \<not> ok then (VFS_CORRUPT, d)
            else case release_object_blocks env object d of (ok, d) \<Rightarrow>
              if \<not> ok then (VFS_CORRUPT, snd (write_object_raw env object_id raw d)) else (VFS_OK, d))"

definition boringfs_truncate :: "'m bfs_env \<Rightarrow> u64 \<Rightarrow> node_ref \<Rightarrow> u64 \<Rightarrow> 'm bfs_world \<Rightarrow> vfs_result \<times> 'm bfs_world" where
  "boringfs_truncate env filesystem node new_size s = (case mutation_context env filesystem s of
     Inl result \<Rightarrow> (result, s)
   | Inr B \<Rightarrow> (case node_object_id B node s of None \<Rightarrow> (VFS_INVALID_ARGUMENT, s)
     | Some object_id \<Rightarrow>
         if node_type (node_at s (the node)) \<noteq> NODE_REGULAR then (VFS_NOT_REGULAR, s)
         else on_disk B (truncate_object env object_id new_size) s))"

definition boringfs_operations :: "'m bfs_env \<Rightarrow> 'm bfs_state vfs_operations" where
  "boringfs_operations env = \<lparr>op_lookup = Some (boringfs_lookup env), op_create = Some (boringfs_create env),
     op_mkdir = Some (boringfs_mkdir env), op_unlink = Some (boringfs_unlink env), op_rmdir = Some (boringfs_rmdir env),
     op_rename = Some (boringfs_rename env), op_read = Some (boringfs_read env), op_write = Some (boringfs_write env),
     op_truncate = Some (boringfs_truncate env), op_readdir = Some (boringfs_readdir env)\<rparr>"

definition boringfs_vfs_get_vfs :: "'m bfs_env \<Rightarrow> u64 \<Rightarrow> 'm bfs_world \<Rightarrow> u64 option" where
  "boringfs_vfs_get_vfs env B s =
     (let fs = filesystem_at s B in
      if B = 0 \<or> \<not> fs_valid fs \<or> fs_backend fs \<noteq> B \<or> fs_operations fs \<noteq> bfs_operations env then None else Some B)"

end
