(* ===== verification/BfsFiles.thy ===== *)
theory BfsFiles
  imports BfsObjects Bfs
begin

text \<open>
  The functions of kernel/fs/boringfs_vfs.c that change a file, as functions of the bytes of
  the volume.
\<close>

lemma stored_object_extents: "stored_object sb bytes i = Some object \<Longrightarrow> length (obj_extents object) = 8"
  by (auto simp: stored_object_def boringfs_decode_object_def decode_extents_map split: option.splits if_splits)

lemma disjoint_regions:
  assumes l: "layout_ok sb" and k: "sb_data_start sb \<le> k" "k < sb_total_blocks sb" and i: "1 \<le> i" "i \<le> sb_object_count sb"
  shows "bit_offset sb k < record_offset sb i" "record_offset sb i + 128 \<le> 4096 * unat k" "4096 * unat k + 4096 \<le> 4096 * unat (sb_total_blocks sb)"
    "\<And>j. j < sb_total_blocks sb \<Longrightarrow> bit_offset sb j < record_offset sb i \<and> bit_offset sb j + 1 \<le> 4096 * unat k"
proof -
  have kk: "unat (sb_data_start sb) \<le> unat k" "unat k < unat (sb_total_blocks sb)"
    using k by (simp_all add: word_le_nat_alt word_less_nat_alt)
  note b = layout_bounds [OF l]
  show "bit_offset sb k < record_offset sb i" using b(3) [OF k(2)] b(2) [of i] by linarith
  show "record_offset sb i + 128 \<le> 4096 * unat k" using b(1) [OF i] kk by linarith
  show "4096 * unat k + 4096 \<le> 4096 * unat (sb_total_blocks sb)" using kk by linarith
  fix j assume j: "j < sb_total_blocks sb"
  show "bit_offset sb j < record_offset sb i \<and> bit_offset sb j + 1 \<le> 4096 * unat k"
    using b(1) [OF i] b(2) [of i] b(3) [OF j] kk by linarith
qed

context healthy_volume
begin

lemma write_object_ready:
  assumes r: "ready d" "\<not> bfs_read_only (fst d)" and v: "object_wf v"
    and i: "1 \<le> obj_object_id v" "obj_object_id v \<le> sb_object_count (bfs_superblock (fst d))"
  obtains raw d' where "write_object env v d = (True, d')" "ready d'" "same_volume (fst d) (fst d')"
    "bytes_of d' = splice (bytes_of d) (record_offset (bfs_superblock (fst d)) (obj_object_id v)) raw"
    "length raw = 128" "boringfs_decode_object (Some raw) = Some (object_trim v)"
proof -
  obtain raw where raw: "boringfs_encode_object (Some (replicate 128 0)) (Some v) = (True, Some raw)" "length raw = 128"
      "boringfs_decode_object (Some raw) = Some (object_trim v)"
    using object_decode_encode [of v "replicate 128 0"] v by (auto simp: object_wf_def object_trim_def simp del: replicate.simps)
  from write_object_raw_ready [OF r i raw(2)] obtain d' where d': "write_object_raw env (obj_object_id v) raw d = (True, d')" "ready d'"
      "same_volume (fst d) (fst d')" "bytes_of d' = splice (bytes_of d) (record_offset (bfs_superblock (fst d)) (obj_object_id v)) raw" .
  have "write_object env v d = (True, d')" using raw(1) d'(1) by (simp add: write_object_def del: replicate.simps)
  from that [OF this d'(2-4) raw(2,3)] show thesis .
qed

end

section \<open>The first block of a file\<close>

text \<open>The object that a write of \<open>n\<close> bytes leaves in the record of an empty file, in block \<open>k\<close>.\<close>

definition one_block_object :: "boringfs_object \<Rightarrow> u32 \<Rightarrow> nat \<Rightarrow> boringfs_object" where
  "one_block_object object k n = object\<lparr>obj_size_bytes := word_of_nat n, obj_extent_count := 1,
     obj_extents := \<lparr>ext_start_block = k, ext_block_count = 1\<rparr> # replicate 7 \<lparr>ext_start_block = 0, ext_block_count = 0\<rparr>\<rparr>"

definition first_free :: "boringfs_superblock \<Rightarrow> u8 list \<Rightarrow> u32 option" where
  "first_free sb bytes = List.find (\<lambda>k. \<not> block_used sb bytes k) (word_range (unat (sb_data_start sb)) (unat (sb_total_blocks sb)))"

text \<open>
  What a write of \<open>bytes\<close> to the empty file \<open>i\<close> makes of the volume \<open>old\<close>: the first free block
  \<open>k\<close> holds the bytes, then zeros, and is marked used, the record of \<open>i\<close> says so, and nothing
  else is changed.
\<close>

definition file_written :: "boringfs_superblock \<Rightarrow> u32 \<Rightarrow> boringfs_object \<Rightarrow> u32 \<Rightarrow> u8 list \<Rightarrow> u8 list \<Rightarrow> u8 list \<Rightarrow> bool" where
  "file_written sb i object k bytes old new \<longleftrightarrow>
     length new = length old \<and>
     stored_object sb new i = Some (one_block_object object k (length bytes)) \<and>
     sub_buffer new (4096 * unat k) 4096 = bytes @ replicate (4096 - length bytes) 0 \<and>
     (\<forall>j < sb_total_blocks sb. block_used sb new j \<longleftrightarrow> j = k \<or> block_used sb old j) \<and>
     (\<forall>a < length old. a div 4096 \<noteq> unat k \<and> a \<noteq> bit_offset sb k \<and> \<not> (record_offset sb i \<le> a \<and> a < record_offset sb i + 128) \<longrightarrow>
        new ! a = old ! a)"

context healthy_volume
begin

lemma write_object_data_ready:
  fixes d :: "'m bfs_disk"
  defines "sb \<equiv> bfs_superblock (fst d)"
  assumes r: "ready d" "\<not> bfs_read_only (fst d)"
    and i: "1 \<le> i" "i \<le> sb_object_count sb" "stored_object sb (bytes_of d) i = Some object" "obj_object_id object = i"
    and o: "obj_state object = 1" "obj_type object = TYPE_REGULAR" "obj_size_bytes object = 0" "obj_extent_count object = 0"
    and k: "first_free sb (bytes_of d) = Some k" and n: "bytes \<noteq> []" "length bytes \<le> 4096"
  obtains d' where "write_object_data env i bytes d = ((VFS_OK, word_of_nat (length bytes)), d')" "ready d'" "same_volume (fst d) (fst d')"
    "file_written sb i object k bytes (bytes_of d) (bytes_of d')"
proof -
  note l = volume_fits [OF r(1), folded sb_def]
  have sbk: "sb_data_start sb \<le> k" "k < sb_total_blocks sb" "\<not> block_used sb (bytes_of d) k"
    using find_bounds [OF k [unfolded first_free_def] unat_u32_less] by (simp_all add: word_le_nat_alt word_less_nat_alt)
  note reg = disjoint_regions [OF l(1) sbk(1,2) i(1,2)]
  have raw: "raw_object sb (bytes_of d) i = sub_buffer (bytes_of d) (record_offset sb i) 128" by (simp add: raw_object_def)
  from decode_object_ready [OF r(1) i(1,2) [unfolded sb_def], folded sb_def] obtain d1 where
    d1: "decode_object env i d = (Some (object, raw_object sb (bytes_of d) i), d1)" "ready d1" "same_volume (fst d) (fst d1)"
      "bytes_of d1 = bytes_of d" using i(3) by (auto simp: stored_object_def)
  have f1: "bfs_superblock (fst d1) = sb" "\<not> bfs_read_only (fst d1)" using d1(3) r(2) by (simp_all add: same_volume_fields sb_def)
  have pref: "\<not> UINT32_MAX < sb_total_blocks sb" using l(1) by (simp add: layout_ok_def word_less_nat_alt)
  from find_free_block_ready [OF d1(2), of UINT32_MAX] obtain d2 where
    d2: "find_free_block env UINT32_MAX d1 = (Some k, d2)" "ready d2" "same_volume (fst d1) (fst d2)" "bytes_of d2 = bytes_of d"
    using k pref d1(4) f1(1) by (auto simp: first_free_def)
  have f2: "bfs_superblock (fst d2) = sb" "\<not> bfs_read_only (fst d2)" using d2(3) f1 by (simp_all add: same_volume_fields)
  define data where "data = bytes @ replicate (4096 - length bytes) (0 :: u8)"
  have data: "length data = 4096" using n by (simp add: data_def)
  from write_zeroed_block_ready [OF d2(2) f2(2), of k bytes] obtain d3 where
    d3: "write_zeroed_block env k bytes d2 = (True, d3)" "ready d3" "same_volume (fst d2) (fst d3)"
      "bytes_of d3 = splice (bytes_of d) (4096 * unat k) data" using sbk n d2(4) f2(1) by (auto simp: data_def)
  have f3: "bfs_superblock (fst d3) = sb" "\<not> bfs_read_only (fst d3)" using d3(3) f2 by (simp_all add: same_volume_fields)
  define bit where "bit = bit_offset sb k"
  define m where "m = bytes_of d3 ! bit OR bit_mask k"
  from bitmap_set_ready [OF d3(2) f3(2), of k True] obtain d4 where
    d4: "bitmap_set env k True d3 = (True, d4)" "ready d4" "same_volume (fst d3) (fst d4)" "bytes_of d4 = (bytes_of d3)[bit := m]"
    using sbk f3(1) by (auto simp: bit_def m_def)
  have f4: "bfs_superblock (fst d4) = sb" "\<not> bfs_read_only (fst d4)" using d4(3) f3 by (simp_all add: same_volume_fields)
  define object' where "object' = object\<lparr>obj_size_bytes := word_of_nat (length bytes), obj_extent_count := 1,
      obj_extents := (obj_extents object)[0 := \<lparr>ext_start_block = k, ext_block_count = 1\<rparr>]\<rparr>"
  have el: "length (obj_extents object) = 8" using stored_object_extents [OF i(3)] .
  have wf: "object_wf object'" "object_trim object' = one_block_object object k (length bytes)" "obj_object_id object' = i"
    using o i(4) el by (cases "obj_extents object"; auto simp: object_wf_def object'_def object_trim_def one_block_object_def)+
  have "1 \<le> obj_object_id object'" "obj_object_id object' \<le> sb_object_count (bfs_superblock (fst d4))"
    using wf(3) i f4(1) by simp_all
  from write_object_ready [OF d4(2) f4(2) wf(1) this, unfolded f4(1) wf(2,3)] obtain raw d5 where
    d5: "write_object env object' d4 = (True, d5)" "ready d5" "same_volume (fst d4) (fst d5)"
      "bytes_of d5 = splice (bytes_of d4) (record_offset sb i) raw" "length raw = 128"
      "boringfs_decode_object (Some raw) = Some (one_block_object object k (length bytes))" .
  have run: "write_object_data env i bytes d = ((VFS_OK, word_of_nat (length bytes)), d5)"
    using d1(1) d2(1) d3(1) d4(1) d5(1) o n(1) by (simp add: write_object_data_def object'_def)
  have sv: "same_volume (fst d) (fst d5)" using d1(3) d2(3) d3(3) d4(3) d5(3) by (blast intro: same_volume_trans)
  have len: "length (bytes_of d) = 4096 * unat (sb_total_blocks sb)" by (simp add: length_bytes_of volume_blocks_def sb_def)
  have len5: "length (bytes_of d5) = length (bytes_of d)" using d3(4) d4(4) d5(4,5) reg(1-3) data len by (simp add: splice_def)
  have "file_written sb i object k bytes (bytes_of d) (bytes_of d5)" unfolding file_written_def
  proof (intro conjI allI impI)
    show "length (bytes_of d5) = length (bytes_of d)" by (rule len5)
    show "stored_object sb (bytes_of d5) i = Some (one_block_object object k (length bytes))"
      using d5(4-6) d4(4) d3(4) reg(1-3) data len sub_buffer_splice_same [of "record_offset sb i" raw "bytes_of d4"]
      by (simp add: stored_object_def raw_object_def)
    have "sub_buffer (bytes_of d5) (4096 * unat k) 4096 = sub_buffer (bytes_of d3) (4096 * unat k) 4096"
      using d5(4,5) d4(4) d3(4) reg(1-3) data len by (simp add: sub_buffer_splice_other sub_buffer_update_other bit_def)
    also have "\<dots> = data" using d3(4) data reg(3) len sub_buffer_splice_same [of "4096 * unat k" data "bytes_of d"] by simp
    finally show "sub_buffer (bytes_of d5) (4096 * unat k) 4096 = bytes @ replicate (4096 - length bytes) 0" by (simp add: data_def)
  next
    fix j assume j: "j < sb_total_blocks sb"
    note rj = reg(4) [OF j]
    have bound: "bit_offset sb k < length (bytes_of d3)" "bit_offset sb j < length (bytes_of d3)"
      using reg(1-3) rj d3(4) data len by simp_all
    have "block_used sb (bytes_of d5) j \<longleftrightarrow> block_used sb (bytes_of d4) j"
      using d5(4,5) rj reg(1-3) d4(4) d3(4) data len by (simp add: block_used_def nth_splice)
    also have "\<dots> \<longleftrightarrow> j = k \<or> block_used sb (bytes_of d3) j"
      using block_used_update [OF bound, where allocated = True] d4(4) by (simp add: bit_def m_def)
    also have "block_used sb (bytes_of d3) j \<longleftrightarrow> block_used sb (bytes_of d) j"
      using d3(4) rj reg(3) data len by (simp add: block_used_def nth_splice)
    finally show "block_used sb (bytes_of d5) j \<longleftrightarrow> j = k \<or> block_used sb (bytes_of d) j" .
  next
    fix a assume a: "a < length (bytes_of d)"
      and out: "a div 4096 \<noteq> unat k \<and> a \<noteq> bit_offset sb k \<and> \<not> (record_offset sb i \<le> a \<and> a < record_offset sb i + 128)"
    have "\<not> (4096 * unat k \<le> a \<and> a < 4096 * unat k + 4096)" using out by auto
    then show "bytes_of d5 ! a = bytes_of d ! a"
      using d5(4,5) d4(4) d3(4) a out reg(1-3) data len by (auto simp: nth_splice bit_def)
  qed
  with run d5(2) sv that show thesis by blast
qed

end

section \<open>Truncation\<close>

definition empty_file_object :: "boringfs_object \<Rightarrow> boringfs_object" where
  "empty_file_object object = object\<lparr>obj_size_bytes := 0, obj_extent_count := 0,
     obj_extents := replicate 8 \<lparr>ext_start_block = 0, ext_block_count = 0\<rparr>\<rparr>"

definition extents_in_volume :: "boringfs_superblock \<Rightarrow> boringfs_object \<Rightarrow> bool" where
  "extents_in_volume sb object \<longleftrightarrow> unat (obj_extent_count object) \<le> 8 \<and>
     (\<forall>e\<in>set (take (unat (obj_extent_count object)) (obj_extents object)). extent_in_volume sb e)"

lemma extents_in_volume_blocks:
  assumes e: "extents_in_volume sb object" and k: "k \<in> set (object_block_list object)"
  shows "sb_data_start sb \<le> k" "k < sb_total_blocks sb"
proof -
  obtain e n where e: "extent_in_volume sb e" "n < unat (ext_block_count e)" "k = ext_start_block e + word_of_nat n"
    using assms by (auto simp: extents_in_volume_def object_block_list_def extent_block_list_def)
  have "unat (ext_start_block e) + n < 4294967296"
    using e(1,2) unat_u32_less [of "sb_total_blocks sb"] by (simp add: extent_in_volume_def)
  then have "unat k = unat (ext_start_block e) + n" using e(3) by (simp add: unat_word_ariths unat_of_nat)
  then show "sb_data_start sb \<le> k" "k < sb_total_blocks sb"
    using e(1,2) by (simp_all add: extent_in_volume_def word_le_nat_alt word_less_nat_alt)
qed

context healthy_volume
begin

lemma release_blocks_ready:
  "ready d \<Longrightarrow> \<not> bfs_read_only (fst d) \<Longrightarrow>
     \<forall>k\<in>set ks. sb_data_start (bfs_superblock (fst d)) \<le> k \<and> k < sb_total_blocks (bfs_superblock (fst d)) \<Longrightarrow>
     \<exists>d'. release_blocks env released ks d = (True, d') \<and> ready d' \<and> same_volume (fst d) (fst d') \<and>
       (\<forall>j < sb_total_blocks (bfs_superblock (fst d)).
          block_used (bfs_superblock (fst d)) (bytes_of d') j \<longleftrightarrow> j \<notin> set ks \<and> block_used (bfs_superblock (fst d)) (bytes_of d) j) \<and>
       (\<forall>a. (\<forall>k\<in>set ks. a \<noteq> bit_offset (bfs_superblock (fst d)) k) \<longrightarrow> bytes_of d' ! a = bytes_of d ! a)"
proof (induction ks arbitrary: d released)
  case (Cons k ks)
  let ?sb = "bfs_superblock (fst d)"
  have k: "sb_data_start ?sb \<le> k" "k < sb_total_blocks ?sb" using Cons.prems(3) by simp_all
  from bitmap_set_ready [OF Cons.prems(1,2) k(2,1), of False] obtain d1 where
    d1: "bitmap_set env k False d = (True, d1)" "ready d1" "same_volume (fst d) (fst d1)"
      "bytes_of d1 = (bytes_of d)[bit_offset ?sb k := bytes_of d ! bit_offset ?sb k AND NOT (bit_mask k)]" by auto
  have sb: "bfs_superblock (fst d1) = ?sb" "\<not> bfs_read_only (fst d1)" using d1(3) Cons.prems(2) by (simp_all add: same_volume_fields)
  from Cons.IH [OF d1(2) sb(2), of "released @ [k]"] obtain d2 where
    d2: "release_blocks env (released @ [k]) ks d1 = (True, d2)" "ready d2" "same_volume (fst d1) (fst d2)"
      "\<And>j. j < sb_total_blocks ?sb \<Longrightarrow> block_used ?sb (bytes_of d2) j \<longleftrightarrow> j \<notin> set ks \<and> block_used ?sb (bytes_of d1) j"
      "\<And>a. \<forall>k\<in>set ks. a \<noteq> bit_offset ?sb k \<Longrightarrow> bytes_of d2 ! a = bytes_of d1 ! a"
    using Cons.prems(3) sb by auto
  have bound: "bit_offset ?sb j < length (bytes_of d)" if "j < sb_total_blocks ?sb" for j
    using layout_bounds(3) [OF volume_fits(1) [OF Cons.prems(1)] that] layout_bounds(4) [OF volume_fits(1) [OF Cons.prems(1)]]
      volume_fits(1) [OF Cons.prems(1)] by (simp add: length_bytes_of volume_blocks_def layout_ok_def)
  have first: "block_used ?sb (bytes_of d1) j \<longleftrightarrow> j \<noteq> k \<and> block_used ?sb (bytes_of d) j" if "j < sb_total_blocks ?sb" for j
    using block_used_update [OF bound [OF k(2)] bound [OF that], where allocated = False] d1(4) by auto
  have "release_blocks env released (k # ks) d = (True, d2)" using d1(1) d2(1) by simp
  moreover have "same_volume (fst d) (fst d2)" using d1(3) d2(3) by (rule same_volume_trans)
  moreover have "bytes_of d2 ! a = bytes_of d ! a" if "\<forall>k'\<in>set (k # ks). a \<noteq> bit_offset ?sb k'" for a
    using d2(5) [of a] d1(4) that by simp
  ultimately show ?case using d2(2) d2(4) first by (intro exI [of _ d2]) auto
qed simp

end

text \<open>What truncating the file \<open>i\<close> to nothing makes of the volume \<open>old\<close>.\<close>

definition file_emptied :: "boringfs_superblock \<Rightarrow> u32 \<Rightarrow> boringfs_object \<Rightarrow> u8 list \<Rightarrow> u8 list \<Rightarrow> bool" where
  "file_emptied sb i object old new \<longleftrightarrow>
     length new = length old \<and>
     stored_object sb new i = Some (empty_file_object object) \<and>
     (\<forall>j < sb_total_blocks sb. block_used sb new j \<longleftrightarrow> j \<notin> set (object_block_list object) \<and> block_used sb old j) \<and>
     (\<forall>a < length old. 4096 * unat (sb_object_table_start sb) \<le> a \<and> \<not> (record_offset sb i \<le> a \<and> a < record_offset sb i + 128) \<longrightarrow>
        new ! a = old ! a)"

context healthy_volume
begin

lemma truncate_object_ready:
  fixes d :: "'m bfs_disk"
  defines "sb \<equiv> bfs_superblock (fst d)"
  assumes r: "ready d" "\<not> bfs_read_only (fst d)"
    and i: "1 \<le> i" "i \<le> sb_object_count sb" "stored_object sb (bytes_of d) i = Some object" "obj_object_id object = i"
    and o: "obj_state object = 1" "obj_type object = TYPE_REGULAR" "obj_size_bytes object \<noteq> 0" "extents_in_volume sb object"
  obtains d' where "truncate_object env i 0 d = (VFS_OK, d')" "ready d'" "same_volume (fst d) (fst d')"
    "file_emptied sb i object (bytes_of d) (bytes_of d')"
proof -
  note l = volume_fits [OF r(1), folded sb_def]
  from decode_object_ready [OF r(1) i(1,2) [unfolded sb_def], folded sb_def] obtain d1 where
    d1: "decode_object env i d = (Some (object, raw_object sb (bytes_of d) i), d1)" "ready d1" "same_volume (fst d) (fst d1)"
      "bytes_of d1 = bytes_of d" using i(3) by (auto simp: stored_object_def)
  have f1: "bfs_superblock (fst d1) = sb" "\<not> bfs_read_only (fst d1)" using d1(3) r(2) by (simp_all add: same_volume_fields sb_def)
  define object' where "object' = object\<lparr>obj_size_bytes := 0, obj_extent_count := 0,
      obj_extents := write_cells 0 (\<lambda>_. \<lparr>ext_start_block = 0, ext_block_count = 0\<rparr>) 8 (obj_extents object)\<rparr>"
  have "write_cells 0 (\<lambda>_. \<lparr>ext_start_block = 0, ext_block_count = 0\<rparr>) 8 (obj_extents object) =
      replicate 8 \<lparr>ext_start_block = 0, ext_block_count = 0\<rparr>"
    using stored_object_extents [OF i(3)] by (intro nth_equalityI) (auto simp: nth_write_cells)
  then have wf: "object_wf object'" "object_trim object' = empty_file_object object" "obj_object_id object' = i"
    using o i(4) by (auto simp: object_wf_def object'_def object_trim_def empty_file_object_def)
  have "1 \<le> obj_object_id object'" "obj_object_id object' \<le> sb_object_count (bfs_superblock (fst d1))"
    using wf(3) i f1(1) by simp_all
  from write_object_ready [OF d1(2) f1(2) wf(1) this, unfolded f1(1) wf(2,3) d1(4)] obtain raw d2 where
    d2: "write_object env object' d1 = (True, d2)" "ready d2" "same_volume (fst d1) (fst d2)"
      "bytes_of d2 = splice (bytes_of d) (record_offset sb i) raw" "length raw = 128"
      "boringfs_decode_object (Some raw) = Some (empty_file_object object)" .
  have f2: "bfs_superblock (fst d2) = sb" "\<not> bfs_read_only (fst d2)" using d2(3) f1 by (simp_all add: same_volume_fields)
  have ks: "\<forall>k\<in>set (object_block_list object). sb_data_start (bfs_superblock (fst d2)) \<le> k \<and> k < sb_total_blocks (bfs_superblock (fst d2))"
    using extents_in_volume_blocks [OF o(4)] f2 by simp
  from release_blocks_ready [OF d2(2) f2(2) ks, of "[]"] obtain d3 where
    d3: "release_blocks env [] (object_block_list object) d2 = (True, d3)" "ready d3" "same_volume (fst d2) (fst d3)"
      "\<And>j. j < sb_total_blocks sb \<Longrightarrow> block_used sb (bytes_of d3) j \<longleftrightarrow> j \<notin> set (object_block_list object) \<and> block_used sb (bytes_of d2) j"
      "\<And>a. \<forall>k\<in>set (object_block_list object). a \<noteq> bit_offset sb k \<Longrightarrow> bytes_of d3 ! a = bytes_of d2 ! a"
    using f2(1) by auto
  have run: "truncate_object env i 0 d = (VFS_OK, d3)"
    using d1(1) d2(1) d3(1) o by (simp add: truncate_object_def object'_def release_object_blocks_def extents_in_volume_def)
  have sv: "same_volume (fst d) (fst d3)" using d1(3) d2(3) d3(3) by (blast intro: same_volume_trans)
  have len: "length (bytes_of d) = 4096 * unat (sb_total_blocks sb)" by (simp add: length_bytes_of volume_blocks_def sb_def)
  have len3: "length (bytes_of d3) = length (bytes_of d)" using sv by (simp add: length_bytes_of same_volume_blocks)
  note rec = layout_bounds(1) [OF l(1) i(1,2)] layout_bounds(2) [OF l(1), of i] layout_bounds(4) [OF l(1)]
  have low: "bit_offset sb j < 4096 * unat (sb_object_table_start sb)" if "j < sb_total_blocks sb" for j
    using layout_bounds(3) [OF l(1) that] by simp
  have high: "bytes_of d3 ! a = bytes_of d2 ! a" if "4096 * unat (sb_object_table_start sb) \<le> a" for a
    using d3(5) [of a] ks low f2(1) that by fastforce
  have "file_emptied sb i object (bytes_of d) (bytes_of d3)" unfolding file_emptied_def
  proof (intro conjI allI impI)
    show "length (bytes_of d3) = length (bytes_of d)" by (rule len3)
    have "sub_buffer (bytes_of d3) (record_offset sb i) 128 = sub_buffer (bytes_of d2) (record_offset sb i) 128"
      using high rec len len3 d2(4,5) by (intro nth_equalityI) (auto simp: nth_sub_buffer length_sub_buffer)
    also have "\<dots> = raw" using d2(4,5) rec len sub_buffer_splice_same [of "record_offset sb i" raw "bytes_of d"] by simp
    finally show "stored_object sb (bytes_of d3) i = Some (empty_file_object object)"
      using d2(6) by (simp add: stored_object_def raw_object_def)
  next
    fix j assume j: "j < sb_total_blocks sb"
    have "block_used sb (bytes_of d2) j \<longleftrightarrow> block_used sb (bytes_of d) j"
      using d2(4,5) low [OF j] rec len by (simp add: block_used_def nth_splice)
    then show "block_used sb (bytes_of d3) j \<longleftrightarrow> j \<notin> set (object_block_list object) \<and> block_used sb (bytes_of d) j"
      using d3(4) [OF j] by simp
  next
    fix a assume a: "a < length (bytes_of d)"
      and out: "4096 * unat (sb_object_table_start sb) \<le> a \<and> \<not> (record_offset sb i \<le> a \<and> a < record_offset sb i + 128)"
    then show "bytes_of d3 ! a = bytes_of d ! a" using high [of a] d2(4,5) rec len by (auto simp: nth_splice)
  qed
  with run d3(2) sv that show thesis by blast
qed

end

end
