(* ===== verification/BlockProps.thy ===== *)
theory BlockProps
  imports Block
begin

text \<open>
  kernel/core/block_device.c and kernel/core/block_slice.c: whatever is registered, a transfer
  ends at one driver, inside the range of the device it was asked of.
\<close>

section \<open>Registries\<close>

definition devices_of :: "block_registry \<Rightarrow> u64 set" where
  "devices_of reg = {block_devices reg ! i | i. i < block_devices_count reg}"

text \<open>What a registered slice owes: its parent was registered before it and contains it.\<close>

definition inside :: "block_registry \<Rightarrow> u64 \<Rightarrow> u64 \<Rightarrow> bool" where
  "inside reg d p \<longleftrightarrow> slice_parent (slice_at reg d) = p \<and>
     unat (slice_parent_first_block (slice_at reg d)) + unat (bd_block_count (device_at reg d)) \<le> unat (bd_block_count (device_at reg p)) \<and>
     bd_logical_block_size (device_at reg d) = bd_logical_block_size (device_at reg p) \<and>
     (bd_read_only (device_at reg p) \<longrightarrow> bd_read_only (device_at reg d))"

definition slice_ok :: "'m block_env \<Rightarrow> block_registry \<Rightarrow> nat \<Rightarrow> bool" where
  "slice_ok env reg i \<longleftrightarrow> (let d = block_devices reg ! i in bd_ops (device_at reg d) = slice_ops env \<longrightarrow>
     bd_context (device_at reg d) = d \<and> (\<exists>j<i. inside reg d (block_devices reg ! j)))"

definition registry_ok :: "'m block_env \<Rightarrow> block_registry \<Rightarrow> bool" where
  "registry_ok env reg \<longleftrightarrow> slice_ops env \<noteq> 0 \<and> length (block_devices reg) = 8 \<and> block_devices_count reg \<le> 8 \<and>
     (\<forall>i<block_devices_count reg. block_device_validate_descriptor env reg (block_devices reg ! i) = BLOCK_OK \<and> slice_ok env reg i)"

text \<open>
  The calls of a kernel: a driver fills in a device of its own and registers it, or a slice is
  made in memory of its own; in both cases the memory is not yet that of a registered device.
\<close>

datatype block_call = Add_device u64 block_device | Add_slice u64 "u8 list option" u64 u64 u64 bool

fun block_call_do :: "'m block_env \<Rightarrow> block_call \<Rightarrow> block_registry \<Rightarrow> block_registry" where
  "block_call_do env (Add_device a d) reg = snd (block_device_register env a (reg\<lparr>device_at := (device_at reg)(a := d)\<rparr>))"
| "block_call_do env (Add_slice a name parent first len read_only) reg =
     snd (block_device_slice_register env a name parent first len read_only reg)"

fun block_call_ok :: "'m block_env \<Rightarrow> block_call \<Rightarrow> block_registry \<Rightarrow> bool" where
  "block_call_ok env (Add_device a d) reg \<longleftrightarrow> \<not> block_device_is_registered reg a \<and> bd_ops d \<noteq> slice_ops env"
| "block_call_ok env (Add_slice a name parent first len read_only) reg \<longleftrightarrow> \<not> block_device_is_registered reg a"

fun block_run :: "'m block_env \<Rightarrow> block_call list \<Rightarrow> block_registry \<Rightarrow> block_registry option" where
  "block_run env [] reg = Some reg"
| "block_run env (call # calls) reg = (if block_call_ok env call reg then block_run env calls (block_call_do env call reg) else None)"

lemma registered_iff: "block_device_is_registered reg d \<longleftrightarrow> d \<noteq> 0 \<and> d \<in> devices_of reg"
  by (auto simp: block_device_is_registered_def devices_of_def list_ex_iff)

lemma descriptor_cong:
  assumes "device_at r d = device_at reg d"
  shows "block_device_validate_descriptor env r d = block_device_validate_descriptor env reg d"
  by (simp add: block_device_validate_descriptor_def assms)

lemma descriptor_fields [simp]:
  "block_device_validate_descriptor env (reg\<lparr>block_devices := ds, block_devices_count := n\<rparr>) d = block_device_validate_descriptor env reg d"
  by (rule descriptor_cong) simp

lemma inside_cong:
  "device_at r d = device_at reg d \<Longrightarrow> slice_at r d = slice_at reg d \<Longrightarrow> device_at r p = device_at reg p \<Longrightarrow> inside r d p = inside reg d p"
  by (simp add: inside_def)

text \<open>Registering a device whose memory is not yet in the registry.\<close>

lemma register_ok:
  assumes ok: "registry_ok env reg" and a: "\<not> block_device_is_registered reg a"
    and mem: "block_devices r = block_devices reg" "block_devices_count r = block_devices_count reg"
      "\<And>d. d \<noteq> a \<Longrightarrow> device_at r d = device_at reg d \<and> slice_at r d = slice_at reg d"
    and self: "bd_ops (device_at r a) = slice_ops env \<Longrightarrow> bd_context (device_at r a) = a \<and>
      (\<exists>j<block_devices_count reg. inside r a (block_devices reg ! j))"
  shows "registry_ok env (snd (block_device_register env a r))"
proof -
  let ?n = "block_devices_count reg"
  have valid: "block_device_validate_descriptor env reg (block_devices reg ! i) = BLOCK_OK" and sl: "slice_ok env reg i" if "i < ?n" for i
    using ok that by (simp_all add: registry_ok_def)
  have nz: "block_devices reg ! i \<noteq> 0" if "i < ?n" for i
    using valid [OF that] by (auto simp: block_device_validate_descriptor_def Let_def)
  have ne: "block_devices reg ! i \<noteq> a" if "i < ?n" for i
    using a that nz [OF that] by (auto simp: registered_iff devices_of_def)
  have old: "device_at r (block_devices reg ! i) = device_at reg (block_devices reg ! i)"
    "slice_at r (block_devices reg ! i) = slice_at reg (block_devices reg ! i)" if "i < ?n" for i
    using mem(3) [OF ne [OF that]] by simp_all
  have kept: "block_device_validate_descriptor env r (block_devices reg ! i) = BLOCK_OK" if "i < ?n" for i
    using valid [OF that] by (simp add: descriptor_cong [OF old(1) [OF that]])
  have ins: "inside q (block_devices reg ! i) (block_devices reg ! j) = inside reg (block_devices reg ! i) (block_devices reg ! j)"
    if "i < ?n" "j < i" "device_at q = device_at r" "slice_at q = slice_at r" for i j q
    using that old by (intro inside_cong) simp_all
  have sl_old: "slice_ok env q i"
    if "i < ?n" "device_at q = device_at r" "slice_at q = slice_at r" "\<And>j. j \<le> i \<Longrightarrow> block_devices q ! j = block_devices reg ! j" for q i
  proof -
    have "(\<exists>j<i. inside q (block_devices reg ! i) (block_devices q ! j)) = (\<exists>j<i. inside reg (block_devices reg ! i) (block_devices reg ! j))"
      by (simp add: ins [OF that(1) _ that(2,3)] that(4) cong: conj_cong)
    then show ?thesis using sl [OF that(1)] old [OF that(1)] that by (simp add: slice_ok_def Let_def)
  qed
  show ?thesis
  proof (cases "fst (block_device_register env a r) = BLOCK_OK")
    case False
    then have "snd (block_device_register env a r) = r"
      by (auto simp: block_device_register_def Let_def)
    then show ?thesis using ok kept sl_old [of _ r] by (simp add: registry_ok_def mem)
  next
    case True
    let ?r = "r\<lparr>block_devices := (block_devices r)[?n := a], block_devices_count := ?n + 1\<rparr>"
    have run: "block_device_register env a r = (BLOCK_OK, ?r)" and v: "block_device_validate_descriptor env r a = BLOCK_OK" and n: "?n < 8"
      using True by (auto simp: block_device_register_def mem Let_def split: if_splits)
    have len: "length (block_devices reg) = 8" using ok by (simp add: registry_ok_def)
    have at: "block_devices ?r ! i = (if i = ?n then a else block_devices reg ! i)" for i
      using n len by (simp add: mem nth_list_update)
    have "block_device_validate_descriptor env ?r (block_devices ?r ! i) = BLOCK_OK \<and> slice_ok env ?r i" if i: "i < ?n + 1" for i
    proof (cases "i = ?n")
      case True
      have "\<exists>j<?n. inside ?r a (block_devices ?r ! j)" if c: "bd_ops (device_at r a) = slice_ops env"
      proof -
        obtain j where j: "j < ?n" "inside r a (block_devices reg ! j)" using self [OF c] by blast
        then have "inside ?r a (block_devices ?r ! j)" using at [of j] inside_cong [of ?r a r "block_devices reg ! j"] by simp
        then show ?thesis using j(1) by blast
      qed
      then have "slice_ok env ?r ?n" using self at by (simp add: slice_ok_def Let_def)
      moreover have "block_device_validate_descriptor env ?r a = BLOCK_OK" using v by simp
      ultimately show ?thesis using True at by simp
    next
      case False
      then have i: "i < ?n" using that by simp
      have "slice_ok env ?r i" by (rule sl_old [OF i]) (use at i in simp_all)
      moreover have "block_device_validate_descriptor env ?r (block_devices reg ! i) = BLOCK_OK"
        using kept [OF i] by simp
      ultimately show ?thesis using at i by simp
    qed
    then show ?thesis using run ok n by (simp add: registry_ok_def mem)
  qed
qed

lemma find_registered:
  assumes "block_device_find reg name = p" "p \<noteq> 0"
  shows "\<exists>j<block_devices_count reg. block_devices reg ! j = p"
proof -
  let ?P = "\<lambda>index. block_device_name_equal (bd_name (device_at reg (block_devices reg ! index))) name"
  obtain j where "find ?P [0..<block_devices_count reg] = Some j" "block_devices reg ! j = p"
    using assms by (auto simp: block_device_find_def split: if_splits option.splits)
  then show ?thesis by (auto simp: find_Some_iff intro!: exI [of _ j])
qed

lemma block_call_registry:
  assumes ok: "registry_ok env reg" and call: "block_call_ok env call reg"
  shows "registry_ok env (block_call_do env call reg)"
proof (cases call)
  case (Add_device a d)
  show ?thesis unfolding Add_device block_call_do.simps
    by (rule register_ok [OF ok]) (use call Add_device in auto)
next
  case (Add_slice a name parent first len ro)
  let ?p = "device_at reg parent"
  let ?r = "reg\<lparr>slice_at := (slice_at reg)(a := \<lparr>slice_parent = parent, slice_parent_first_block = first\<rparr>),
      device_at := (device_at reg)(a := \<lparr>bd_name = name, bd_logical_block_size = bd_logical_block_size ?p,
        bd_block_count = len, bd_read_only = ro \<or> bd_read_only ?p, bd_context = a, bd_ops = slice_ops env\<rparr>)\<rparr>"
  have a: "\<not> block_device_is_registered reg a" using call Add_slice by simp
  show ?thesis
  proof (cases "snd (block_device_slice_register env a name parent first len ro reg) = reg")
    case True
    then show ?thesis using ok Add_slice by simp
  next
    case False
    then have c: "a \<noteq> 0" "parent \<noteq> 0" "block_device_find reg (bd_name ?p) = parent" "first < bd_block_count ?p" "len \<le> bd_block_count ?p - first"
      and run: "block_device_slice_register env a name parent first len ro reg = block_device_register env a ?r"
      by (auto simp: block_device_slice_register_def Let_def not_le split: if_splits)
    obtain j where j: "j < block_devices_count reg" "block_devices reg ! j = parent" using find_registered [OF c(3,2)] by blast
    then have "a \<noteq> parent" using a c(1) by (auto simp: registered_iff devices_of_def)
    moreover have "unat first + unat len \<le> unat (bd_block_count ?p)"
    proof -
      have "unat len \<le> unat (bd_block_count ?p - first)" using c(5) by (simp add: word_le_nat_alt)
      then show ?thesis using unat_sub_exact [of first "bd_block_count ?p"] c(4) by (simp add: word_less_nat_alt)
    qed
    ultimately have "inside ?r a parent" by (simp add: inside_def)
    then have "registry_ok env (snd (block_device_register env a ?r))"
      by (intro register_ok [OF ok a]) (use j in auto)
    then show ?thesis using run Add_slice by simp
  qed
qed

lemma block_run_registry: "block_run env calls reg = Some reg' \<Longrightarrow> registry_ok env reg \<Longrightarrow> registry_ok env reg'"
  by (induction calls arbitrary: reg) (auto split: if_splits intro: block_call_registry)

section \<open>Transfers\<close>

text \<open>What a transfer of device \<open>d\<close> is when it is passed on to driver device \<open>b\<close>, \<open>k\<close> blocks further.\<close>

definition read_routed :: "'m block_env \<Rightarrow> block_registry \<Rightarrow> u64 \<Rightarrow> nat \<Rightarrow> u64 \<Rightarrow> u64 \<Rightarrow> u32 \<Rightarrow> u8 list \<Rightarrow> 'm \<Rightarrow>
    ((block_device_result \<times> u8 list option) \<times> 'm) option" where
  "read_routed env reg d k b first n buf m = Some (if n = 0 then ((BLOCK_INVALID_ARGUMENT, Some buf), m)
     else if unat first + unat n > unat (bd_block_count (device_at reg d)) then ((BLOCK_OUT_OF_RANGE, Some buf), m)
     else case the (driver_read (block_driver_at env (bd_ops (device_at reg b)))) (bd_context (device_at reg b)) (word_of_nat (k + unat first)) n buf m of
       ((res, bytes), m) \<Rightarrow> ((res, Some bytes), m))"

definition write_routed :: "'m block_env \<Rightarrow> block_registry \<Rightarrow> u64 \<Rightarrow> nat \<Rightarrow> u64 \<Rightarrow> u64 \<Rightarrow> u32 \<Rightarrow> u8 list \<Rightarrow> 'm \<Rightarrow>
    (block_device_result \<times> 'm) option" where
  "write_routed env reg d k b first n buf m = Some (if n = 0 then (BLOCK_INVALID_ARGUMENT, m)
     else if unat first + unat n > unat (bd_block_count (device_at reg d)) then (BLOCK_OUT_OF_RANGE, m)
     else if bd_read_only (device_at reg d) then (BLOCK_READ_ONLY, m)
     else the (driver_write (block_driver_at env (bd_ops (device_at reg b)))) (bd_context (device_at reg b)) (word_of_nat (k + unat first)) n buf m)"

definition routes :: "'m block_env \<Rightarrow> block_registry \<Rightarrow> u64 \<Rightarrow> nat \<Rightarrow> u64 \<Rightarrow> bool" where
  "routes env reg d k b \<longleftrightarrow> bd_ops (device_at reg b) \<noteq> slice_ops env \<and>
     k + unat (bd_block_count (device_at reg d)) \<le> unat (bd_block_count (device_at reg b)) \<and>
     bd_logical_block_size (device_at reg d) = bd_logical_block_size (device_at reg b) \<and>
     (\<forall>first n buf m. block_device_read env reg d first n (Some buf) m = read_routed env reg d k b first n buf m \<and>
       block_device_write env reg d first n (Some buf) m = write_routed env reg d k b first n buf m)"

text \<open>A device of a driver is its own; a slice passes a transfer on to its parent.\<close>

definition passed_on :: "'m block_env \<Rightarrow> block_registry \<Rightarrow> u64 \<Rightarrow> nat \<Rightarrow> u64 \<Rightarrow> bool" where
  "passed_on env reg d k b \<longleftrightarrow> (if bd_ops (device_at reg d) = slice_ops env
     then (\<exists>j. block_device_is_registered reg (slice_parent (slice_at reg d)) \<and> routes env reg (slice_parent (slice_at reg d)) j b \<and>
       k = unat (slice_parent_first_block (slice_at reg d)) + j)
     else k = 0 \<and> b = d)"

lemma word_range_iff: "ucast (n :: u32) > (c :: u64) - first \<and> first < c \<or> first \<ge> c \<longleftrightarrow> n = 0 \<and> first \<ge> c \<or> unat first + unat n > unat c"
proof (cases "first < c")
  case True
  then have "unat (c - first) = unat c - unat first" by (intro unat_sub_exact) simp
  moreover have "unat first < unat c" using True by (simp add: word_less_nat_alt)
  ultimately have "ucast n > c - first \<longleftrightarrow> unat first + unat n > unat c" by (auto simp: word_less_nat_alt)
  then show ?thesis using True by auto
next
  case False
  then have "unat c \<le> unat first" by (simp add: word_le_nat_alt not_less)
  moreover have "n = 0 \<or> 0 < unat n" by (simp add: unat_gt_0)
  ultimately show ?thesis using False by (auto simp: not_less)
qed

lemma validate_request_run:
  assumes "block_device_validate_descriptor env reg d = BLOCK_OK" "block_device_is_registered reg d"
  shows "block_device_validate_request env reg d first n (Some buf) = (if n = 0 then BLOCK_INVALID_ARGUMENT
    else if unat first + unat n > unat (bd_block_count (device_at reg d)) then BLOCK_OUT_OF_RANGE else BLOCK_OK)"
proof -
  have d: "d \<noteq> 0" "bd_block_count (device_at reg d) \<noteq> 0" using assms(1) by (auto simp: block_device_validate_descriptor_def Let_def)
  show ?thesis using assms d word_range_iff [of "bd_block_count (device_at reg d)" first n]
    by (auto simp: block_device_validate_request_def Let_def)
qed

lemma device_routes:
  assumes ok: "registry_ok env reg" and i: "i < block_devices_count reg"
  shows "\<exists>k. \<exists>j \<le> i. routes env reg (block_devices reg ! i) k (block_devices reg ! j) \<and>
    passed_on env reg (block_devices reg ! i) k (block_devices reg ! j)"
  using i
proof (induction i rule: less_induct)
  case (less i)
  let ?d = "block_devices reg ! i"
  have v: "block_device_validate_descriptor env reg ?d = BLOCK_OK" and sl: "slice_ok env reg i"
    using ok less.prems by (simp_all add: registry_ok_def)
  have d: "?d \<noteq> 0" "bd_ops (device_at reg ?d) \<noteq> 0" "\<not> ops_read_null env (bd_ops (device_at reg ?d))"
    "\<not> bd_read_only (device_at reg ?d) \<Longrightarrow> \<not> ops_write_null env (bd_ops (device_at reg ?d))"
    using v by (auto simp: block_device_validate_descriptor_def Let_def split: if_splits)
  have r: "block_device_is_registered reg ?d" using d(1) less.prems by (auto simp: registered_iff devices_of_def)
  note request = validate_request_run [OF v r]
  show ?case
  proof (cases "bd_ops (device_at reg ?d) = slice_ops env")
    case False
    have "routes env reg ?d 0 ?d"
      unfolding routes_def read_routed_def write_routed_def
      using False d request by (simp add: block_device_read.simps [of env reg ?d] block_device_write.simps [of env reg ?d] Let_def split: prod.split)
    moreover have "passed_on env reg ?d 0 ?d" using False by (simp add: passed_on_def)
    ultimately show ?thesis by blast
  next
    case True
    obtain j where j: "j < i" and ins: "inside reg ?d (block_devices reg ! j)" and ctx: "bd_context (device_at reg ?d) = ?d"
      using sl True by (auto simp: slice_ok_def Let_def)
    let ?p = "block_devices reg ! j" and ?f = "slice_parent_first_block (slice_at reg ?d)"
    have jn: "j < block_devices_count reg" using j less.prems by simp
    have p0: "?p \<noteq> 0" using ok jn by (auto simp: registry_ok_def block_device_validate_descriptor_def Let_def)
    obtain k l where l: "l \<le> j" "routes env reg ?p k (block_devices reg ! l)" using less.IH [OF j jn] by blast
    have fit: "unat ?f + unat (bd_block_count (device_at reg ?d)) \<le> unat (bd_block_count (device_at reg ?p))"
      "slice_parent (slice_at reg ?d) = ?p" "bd_logical_block_size (device_at reg ?d) = bd_logical_block_size (device_at reg ?p)"
      "bd_read_only (device_at reg ?p) \<Longrightarrow> bd_read_only (device_at reg ?d)"
      using ins by (simp_all add: inside_def)
    have go: "slice_request reg ?d first n = Some (?f + first) \<and> unat (?f + first) = unat ?f + unat first \<and>
        unat (?f + first) + unat n \<le> unat (bd_block_count (device_at reg ?p))"
      if n: "n \<noteq> 0" "\<not> unat first + unat n > unat (bd_block_count (device_at reg ?d))" for first n
    proof -
      have lt: "unat ?f + unat first < 2 ^ 64" using fit(1) n(2) unat_u64_less [of "bd_block_count (device_at reg ?p)"] by simp
      have "\<not> ?f > UINT64_MAX - first"
      proof -
        have "unat (UINT64_MAX - first) = unat UINT64_MAX - unat first" using unat_u64_less [of first] by (intro unat_sub) (simp add: word_le_nat_alt)
        then show ?thesis using lt by (simp add: word_less_nat_alt)
      qed
      moreover have "\<not> (ucast n > bd_block_count (device_at reg ?d) - first \<and> first < bd_block_count (device_at reg ?d) \<or> first \<ge> bd_block_count (device_at reg ?d))"
        using n unfolding word_range_iff by simp
      moreover have "unat (?f + first) = unat ?f + unat first" using lt by (intro unat_add_exact) simp
      ultimately show ?thesis using n fit(1,2) d(1) p0
        by (auto simp: slice_request_def block_device_slice_translate_def)
    qed
    have lt: "word_of_nat k + (?f + first) = ?f + word_of_nat k + first" for first :: u64 by (simp add: ac_simps)
    have "routes env reg ?d (unat ?f + k) (block_devices reg ! l)"
      unfolding routes_def
    proof (intro conjI allI)
      show "bd_ops (device_at reg (block_devices reg ! l)) \<noteq> slice_ops env"
        "unat ?f + k + unat (bd_block_count (device_at reg ?d)) \<le> unat (bd_block_count (device_at reg (block_devices reg ! l)))"
        "bd_logical_block_size (device_at reg ?d) = bd_logical_block_size (device_at reg (block_devices reg ! l))"
        using l(2) fit by (simp_all add: routes_def)
      fix first n buf m
      have p: "block_device_read env reg ?p (?f + first) n (Some buf) m = read_routed env reg ?p k (block_devices reg ! l) (?f + first) n buf m"
        "block_device_write env reg ?p (?f + first) n (Some buf) m = write_routed env reg ?p k (block_devices reg ! l) (?f + first) n buf m"
        using l(2) by (simp_all add: routes_def)
      show "block_device_read env reg ?d first n (Some buf) m = read_routed env reg ?d (unat ?f + k) (block_devices reg ! l) first n buf m"
      proof (cases "n \<noteq> 0 \<and> \<not> unat first + unat n > unat (bd_block_count (device_at reg ?d))")
        case False
        then show ?thesis by (auto simp: block_device_read.simps [of env reg ?d] read_routed_def request Let_def)
      next
        case c: True
        note g = go [OF conjunct1 [OF c] conjunct2 [OF c]]
        show ?thesis using c g d True p(1) ctx fit(2) request
          by (simp add: block_device_read.simps [of env reg ?d] read_routed_def lt Let_def)
      qed
      show "block_device_write env reg ?d first n (Some buf) m = write_routed env reg ?d (unat ?f + k) (block_devices reg ! l) first n buf m"
      proof (cases "n \<noteq> 0 \<and> \<not> unat first + unat n > unat (bd_block_count (device_at reg ?d)) \<and> \<not> bd_read_only (device_at reg ?d)")
        case False
        then show ?thesis by (auto simp: block_device_write.simps [of env reg ?d] write_routed_def request Let_def)
      next
        case c: True
        then have g: "slice_request reg ?d first n = Some (?f + first) \<and> unat (?f + first) = unat ?f + unat first \<and>
          unat (?f + first) + unat n \<le> unat (bd_block_count (device_at reg ?p))" using go [of n first] by blast
        show ?thesis using c g d True p(2) ctx fit(2,4) request
          by (auto simp: block_device_write.simps [of env reg ?d] write_routed_def lt Let_def)
      qed
    qed
    moreover have "block_device_is_registered reg ?p" using p0 jn by (auto simp: registered_iff devices_of_def)
    then have "passed_on env reg ?d (unat ?f + k) (block_devices reg ! l)"
      using True l(2) fit(2) by (simp add: passed_on_def)
    ultimately show ?thesis using l(1) j by (intro exI [of _ "unat ?f + k"] exI [of _ l]) simp
  qed
qed

section \<open>Properties\<close>

text \<open>C30: Whatever devices and slices are registered, a transfer always comes to an end, and
  it ends at one driver: a transfer of any registered device is refused without effect unless it
  lies in the device, and is then the transfer of one driver's device, shifted by a fixed
  number of blocks that keeps the whole device inside the driver's; a slice adds its own first
  block to the shift of its parent, and nothing writes to a device that is read-only.\<close>

theorem block_transfers_routed:
  assumes "slice_ops env \<noteq> 0" and "length (block_devices boot) = 8"
    and "block_run env calls (block_device_init boot) = Some reg" and "block_device_is_registered reg d"
  shows "\<exists>k b. block_device_is_registered reg b \<and> routes env reg d k b \<and> passed_on env reg d k b"
proof -
  have "registry_ok env (block_device_init boot)" using assms(1,2) by (simp add: registry_ok_def block_device_init_def)
  then have ok: "registry_ok env reg" by (rule block_run_registry [OF assms(3)])
  obtain i where i: "i < block_devices_count reg" "block_devices reg ! i = d" using assms(4) by (auto simp: registered_iff devices_of_def)
  obtain k j where j: "j \<le> i" "routes env reg d k (block_devices reg ! j)" "passed_on env reg d k (block_devices reg ! j)"
    using device_routes [OF ok i(1)] i(2) by blast
  have jn: "j < block_devices_count reg" using j(1) i(1) by simp
  then have "block_devices reg ! j \<noteq> 0" using ok by (auto simp: registry_ok_def block_device_validate_descriptor_def Let_def)
  then have "block_device_is_registered reg (block_devices reg ! j)" using jn by (auto simp: registered_iff devices_of_def)
  then show ?thesis using j by blast
qed

text \<open>A disk of 64 blocks whose driver gives each block its number, and a slice of it.\<close>

definition block_sample :: "unit block_env" where
  "block_sample = \<lparr>block_driver_at = (\<lambda>_. \<lparr>driver_read = Some (\<lambda>context first n buf m. ((BLOCK_OK, [ucast first]), m)),
     driver_write = Some (\<lambda>context first n buf m. (BLOCK_OK, m)), driver_flush = None\<rparr>), slice_ops = 4\<rparr>"

definition block_boot :: block_registry where
  "block_boot = \<lparr>block_devices = replicate 8 0, block_devices_count = 0,
     device_at = (\<lambda>_. \<lparr>bd_name = None, bd_logical_block_size = 0, bd_block_count = 0, bd_read_only = False, bd_context = 0, bd_ops = 0\<rparr>),
     slice_at = (\<lambda>_. \<lparr>slice_parent = 0, slice_parent_first_block = 0\<rparr>)\<rparr>"

definition block_calls :: "block_call list" where
  "block_calls = [Add_device 16 \<lparr>bd_name = Some [100], bd_logical_block_size = 512, bd_block_count = 64, bd_read_only = False,
     bd_context = 1, bd_ops = 8\<rparr>, Add_slice 32 (Some [115]) 16 20 10 False]"

definition block_reg :: block_registry where
  "block_reg = the (block_run block_sample block_calls (block_device_init block_boot))"

lemma block_reg_run: "block_run block_sample block_calls (block_device_init block_boot) = Some block_reg"
  "block_device_is_registered block_reg 32" "bd_ops (device_at block_reg 32) = 4" "bd_block_count (device_at block_reg 32) = 10"
  "slice_parent (slice_at block_reg 32) = 16" "slice_parent_first_block (slice_at block_reg 32) = 20" "bd_ops (device_at block_reg 16) = 8"
  "bd_block_count (device_at block_reg 16) = 64"
  by (simp_all add: block_reg_def block_calls_def block_boot_def block_sample_def block_device_init_def block_device_is_registered_def
      block_device_register_def block_device_slice_register_def block_device_find_def block_device_name_equal_def
      block_device_validate_descriptor_def ops_read_null_def ops_write_null_def Let_def upt_rec)

lemma block_reg_devices: "devices_of block_reg = {16, 32}"
proof -
  have "block_devices_count block_reg = 2" "block_devices block_reg ! 0 = 16" "block_devices block_reg ! 1 = 32"
    by (simp_all add: block_reg_def block_calls_def block_boot_def block_sample_def block_device_init_def block_device_is_registered_def
      block_device_register_def block_device_slice_register_def block_device_find_def block_device_name_equal_def
      block_device_validate_descriptor_def ops_read_null_def ops_write_null_def Let_def upt_rec)
  then show ?thesis by (auto simp: devices_of_def less_2_cases_iff)
qed

theorem block_transfers_routed_witness:
  "block_device_read block_sample block_reg 32 3 1 (Some [0]) () = Some ((BLOCK_OK, Some [23]), ())"
proof -
  have s: "slice_ops block_sample \<noteq> 0" "length (block_devices block_boot) = 8" by (simp_all add: block_sample_def block_boot_def)
  obtain k b where kb: "block_device_is_registered block_reg b" "routes block_sample block_reg 32 k b" "passed_on block_sample block_reg 32 k b"
    using block_transfers_routed [OF s block_reg_run(1,2)] by blast
  have "b = 16" using kb(1,2) block_reg_devices block_reg_run(3) by (auto simp: registered_iff routes_def block_sample_def)
  moreover obtain j where "routes block_sample block_reg 16 j b" "k = 20 + j"
    using kb(3) block_reg_run(3,5,6) by (auto simp: passed_on_def block_sample_def)
  ultimately have "k = 20" "b = 16" by (simp_all add: routes_def)
  then have "block_device_read block_sample block_reg 32 3 1 (Some [0]) () = read_routed block_sample block_reg 32 20 16 3 1 [0] ()"
    using kb(2) by (simp add: routes_def)
  then show ?thesis using block_reg_run(4) by (simp add: read_routed_def block_sample_def)
qed

section \<open>A slice that is registered again\<close>

definition own_slice :: "'m block_env \<Rightarrow> block_registry \<Rightarrow> u64 \<Rightarrow> bool" where
  "own_slice env reg d \<longleftrightarrow> bd_ops (device_at reg d) = slice_ops env \<and> bd_context (device_at reg d) = d \<and>
     slice_parent (slice_at reg d) = d \<and> slice_parent_first_block (slice_at reg d) = 0"

lemma own_slice_never_ends:
  assumes "block_device_read env reg d first n buf m = Some r"
  shows "own_slice env reg d \<and> block_device_validate_request env reg d first n buf = BLOCK_OK \<longrightarrow> slice_request reg d first n = None"
proof (rule block_device_read.raw_induct [where P = "\<lambda>env reg d first n buf m r. own_slice env reg d \<and>
    block_device_validate_request env reg d first n buf = BLOCK_OK \<longrightarrow> slice_request reg d first n = None", OF _ assms], intro impI, rule ccontr)
  fix rd and env :: "'m block_env" and reg d first n buf m r
  assume IH: "\<And>env reg d first n buf m r. rd env reg d first n buf m = Some r \<Longrightarrow> own_slice env reg d \<and>
      block_device_validate_request env reg d first n buf = BLOCK_OK \<longrightarrow> slice_request reg d first n = None"
    and run: "(let validation = block_device_validate_request env reg d first n buf in
      if validation \<noteq> BLOCK_OK then Some ((validation, buf), m)
      else let s = device_at reg d in
        if bd_ops s = 0 \<or> ops_read_null env (bd_ops s) then Some ((BLOCK_IO_ERROR, buf), m)
        else if bd_ops s = slice_ops env then
          (case slice_request reg (bd_context s) first n of
             None \<Rightarrow> Some ((BLOCK_OUT_OF_RANGE, buf), m)
           | Some parent_first \<Rightarrow> rd env reg (slice_parent (slice_at reg (bd_context s))) parent_first n buf m)
        else case the (driver_read (block_driver_at env (bd_ops s))) (bd_context s) first n (the buf) m of
          ((result, bytes), m) \<Rightarrow> Some ((result, Some bytes), m)) = Some r"
    and own: "own_slice env reg d \<and> block_device_validate_request env reg d first n buf = BLOCK_OK"
    and request: "slice_request reg d first n \<noteq> None"
  have z: "slice_request reg d first n = Some first"
    using own request by (auto simp: own_slice_def slice_request_def block_device_slice_translate_def split: if_splits)
  have "bd_ops (device_at reg d) \<noteq> 0" "\<not> ops_read_null env (bd_ops (device_at reg d))"
    using own by (auto simp: block_device_validate_request_def block_device_validate_descriptor_def Let_def split: if_splits)
  then have "rd env reg d first n buf m = Some r" using run own z by (simp add: own_slice_def Let_def)
  from IH [OF this] show False using own request by simp
qed

text \<open>C31: Registering a slice again is refused, but not without effect: its memory is filled in
  before the registry refuses it. A registered device can so be made a slice of itself, after
  which a read of it never ends.\<close>

theorem slice_registered_twice:
  assumes "block_device_validate_descriptor env reg d = BLOCK_OK" "block_device_is_registered reg d" and env: "slice_ops env \<noteq> 0"
    and "block_device_find reg (bd_name (device_at reg d)) = d"
  shows "\<exists>reg'. block_device_slice_register env d (bd_name (device_at reg d)) d 0 (bd_block_count (device_at reg d))
      (bd_read_only (device_at reg d)) reg = (BLOCK_ALREADY_REGISTERED, reg') \<and>
    block_device_read env reg' d 0 1 (Some buf) m = None"
proof -
  let ?d = "device_at reg d"
  have d: "d \<noteq> 0" "bd_name ?d \<noteq> None" "bd_name ?d \<noteq> Some []" "bd_logical_block_size ?d \<noteq> 0" "bd_block_count ?d \<noteq> 0"
    using assms(1) by (auto simp: block_device_validate_descriptor_def Let_def split: if_splits)
  let ?r = "reg\<lparr>slice_at := (slice_at reg)(d := \<lparr>slice_parent = d, slice_parent_first_block = 0\<rparr>),
      device_at := (device_at reg)(d := ?d\<lparr>bd_context := d, bd_ops := slice_ops env\<rparr>)\<rparr>"
  have v: "block_device_validate_descriptor env ?r d = BLOCK_OK"
    using assms(1) env by (auto simp: block_device_validate_descriptor_def ops_read_null_def ops_write_null_def Let_def split: if_splits)
  have reg: "block_device_is_registered ?r d" using assms(2) by (simp add: block_device_is_registered_def)
  have "block_device_register env d ?r = (BLOCK_ALREADY_REGISTERED, ?r)"
    using v reg by (auto simp: block_device_register_def block_device_is_registered_def list_ex_iff)
  then have run: "block_device_slice_register env d (bd_name ?d) d 0 (bd_block_count ?d) (bd_read_only ?d) reg = (BLOCK_ALREADY_REGISTERED, ?r)"
    using d assms(4) by (simp add: block_device_slice_register_def Let_def word_gt_0) (cases ?d; simp)
  have "block_device_validate_request env ?r d 0 1 (Some buf) = BLOCK_OK"
    using validate_request_run [OF v reg, of 0 1 buf] d(5) by (simp add: unat_gt_0 Suc_le_eq not_less)
  moreover have "slice_request ?r d 0 1 \<noteq> None"
    using d(1,5) by (auto simp: slice_request_def block_device_slice_translate_def word_gt_0)
  ultimately have "block_device_read env ?r d 0 1 (Some buf) m = None"
    using own_slice_never_ends [of env ?r d 0 1 "Some buf" m] by (cases "block_device_read env ?r d 0 1 (Some buf) m") (auto simp: own_slice_def)
  then show ?thesis using run by blast
qed

theorem slice_registered_twice_witness:
  "\<exists>reg'. block_device_slice_register block_sample 32 (bd_name (device_at block_reg 32)) 32 0 (bd_block_count (device_at block_reg 32))
      (bd_read_only (device_at block_reg 32)) block_reg = (BLOCK_ALREADY_REGISTERED, reg') \<and>
    block_device_read block_sample reg' 32 0 1 (Some [0]) () = None"
proof (rule slice_registered_twice)
  show "block_device_validate_descriptor block_sample block_reg 32 = BLOCK_OK" "slice_ops block_sample \<noteq> 0"
    "block_device_find block_reg (bd_name (device_at block_reg 32)) = 32"
    by (simp_all add: block_reg_def block_calls_def block_boot_def block_sample_def block_device_init_def block_device_is_registered_def
      block_device_register_def block_device_slice_register_def block_device_find_def block_device_name_equal_def
      block_device_validate_descriptor_def ops_read_null_def ops_write_null_def Let_def upt_rec)
qed (rule block_reg_run(2))

end
