(* ===== verification/BfsStack.thy ===== *)
theory BfsStack
  imports BfsFiles BlockProps SampleVolume
begin

text \<open>
  BoringFS over the block layer. The transfers that kernel/fs/boringfs_vfs.c asks for go through
  block_device_read and block_device_write of kernel/core/block_device.c; the locale
  \<open>stacked_volume\<close> says what is asked of the driver at the bottom, and gives the laws the cache
  relies on. Its instance is the memory disk of kernel/core/block_device_test.c, with the sample
  volume in a slice.
\<close>

text \<open>The block layer as \<open>boringfs_vfs.c\<close> calls it, for a registry whose transfers all return.\<close>

definition bfs_over :: "'m block_env \<Rightarrow> block_registry \<Rightarrow> u64 \<Rightarrow> 'm bfs_env" where
  "bfs_over benv reg operations = \<lparr>
     bfs_read_blocks = (\<lambda>d first n buf m. case the (block_device_read benv reg d first n (Some buf) m) of
       ((result, bytes), m) \<Rightarrow> ((result = BLOCK_OK, the bytes), m)),
     bfs_write_blocks = (\<lambda>d first n buf m. case the (block_device_write benv reg d first n (Some buf) m) of
       (result, m) \<Rightarrow> (result = BLOCK_OK, m)),
     bfs_operations = operations\<rparr>"

definition sector_run :: "('m \<Rightarrow> nat \<Rightarrow> u8 list) \<Rightarrow> 'm \<Rightarrow> nat \<Rightarrow> nat \<Rightarrow> u8 list" where
  "sector_run sectors m a n = concat (map (sectors m) [a..<a + n])"

definition fs_block :: "('m \<Rightarrow> nat \<Rightarrow> u8 list) \<Rightarrow> nat \<Rightarrow> 'm \<Rightarrow> nat \<Rightarrow> u8 list" where
  "fs_block sectors base m j = sector_run sectors m (base + 8 * j) 8"

locale stacked_volume =
  fixes benv :: "'m block_env" and reg :: block_registry and operations device bottom :: u64 and base :: nat
    and sectors :: "'m \<Rightarrow> nat \<Rightarrow> u8 list"
    and rd :: "u64 \<Rightarrow> u64 \<Rightarrow> u32 \<Rightarrow> u8 list \<Rightarrow> 'm \<Rightarrow> (block_device_result \<times> u8 list) \<times> 'm"
    and wr :: "u64 \<Rightarrow> u64 \<Rightarrow> u32 \<Rightarrow> u8 list \<Rightarrow> 'm \<Rightarrow> block_device_result \<times> 'm"
  assumes routed: "routes benv reg device base bottom"
    and driver: "driver_read (block_driver_at benv (bd_ops (device_at reg bottom))) = Some rd"
      "driver_write (block_driver_at benv (bd_ops (device_at reg bottom))) = Some wr"
    and sector_length: "length (sectors m i) = 512"
    and driver_reads: "rd (bd_context (device_at reg bottom)) first n buf m = ((result, bytes), m') \<Longrightarrow> length buf = 512 * unat n \<Longrightarrow>
      sectors m' = sectors m \<and> length bytes = length buf \<and>
      (result = BLOCK_OK \<longrightarrow> bytes = sector_run sectors m (unat first) (unat n))"
    and driver_writes: "wr (bd_context (device_at reg bottom)) first n buf m = (result, m') \<Longrightarrow> length buf = 512 * unat n \<Longrightarrow>
      (\<forall>i. i < unat first \<or> unat first + unat n \<le> i \<longrightarrow> sectors m' i = sectors m i) \<and>
      (result = BLOCK_OK \<longrightarrow> sector_run sectors m' (unat first) (unat n) = buf)"
begin

lemma bottom_range:
  assumes "unat first + unat (n :: u32) \<le> unat (bd_block_count (device_at reg device))"
  shows "unat (word_of_nat (base + unat (first :: u64)) :: u64) = base + unat first"
proof -
  have "base + unat (bd_block_count (device_at reg device)) \<le> unat (bd_block_count (device_at reg bottom))"
    using routed by (simp add: routes_def)
  then have "base + unat first < 18446744073709551616"
    using assms unat_u64_less [of "bd_block_count (device_at reg bottom)"] by linarith
  then show ?thesis unfolding unat_of_nat by simp
qed

lemma first_sector: "unat (ucast (k :: u32) * 8 :: u64) = 8 * unat k"
  using unat_u32_less [of k] by (simp add: unat_mult_exact)

end

sublocale stacked_volume \<subseteq> block_volume "bfs_over benv reg operations" device "fs_block sectors base"
proof
  have run_length: "length (sector_run sectors m a n) = 512 * n" for m a n
    by (induction n) (simp_all add: sector_run_def sector_length)
  show "length (fs_block sectors base m j) = 4096" for m j by (simp add: fs_block_def run_length)
  fix k :: u32 and buf :: "u8 list" and m ok bytes m'
  let ?first = "ucast k * 8 :: u64"
  assume len: "length buf = 4096"
  have n: "unat (8 :: u32) = 8" "(8 :: u32) \<noteq> 0" by simp_all
  {
    assume r: "bfs_read_blocks (bfs_over benv reg operations) device ?first 8 buf m = ((ok, bytes), m')"
    have routed': "block_device_read benv reg device ?first 8 (Some buf) m = read_routed benv reg device base bottom ?first 8 buf m"
      using routed by (simp add: routes_def)
    show "fs_block sectors base m' = fs_block sectors base m \<and> length bytes = 4096 \<and>
        (ok \<longrightarrow> bytes = fs_block sectors base m (unat k))"
    proof (cases "unat ?first + unat (8 :: u32) > unat (bd_block_count (device_at reg device))")
      case True
      then show ?thesis using r routed' len by (simp add: bfs_over_def read_routed_def)
    next
      case False
      let ?at = "word_of_nat (base + unat ?first) :: u64"
      have at: "unat ?at = base + 8 * unat k" using bottom_range [of ?first 8] False first_sector [of k] by simp
      obtain result bytes1 m1 where x: "rd (bd_context (device_at reg bottom)) ?at 8 buf m = ((result, bytes1), m1)" by (metis surj_pair)
      have "length buf = 512 * unat (8 :: u32)" using len by simp
      note law = driver_reads [OF x this]
      have "((ok, bytes), m') = ((result = BLOCK_OK, bytes1), m1)"
        using r routed' False x driver by (simp add: bfs_over_def read_routed_def)
      moreover have "fs_block sectors base m1 = fs_block sectors base m"
        using law by (intro ext) (simp add: fs_block_def sector_run_def)
      ultimately show ?thesis using law at n len by (simp add: fs_block_def)
    qed
  next
    assume w: "bfs_write_blocks (bfs_over benv reg operations) device ?first 8 buf m = (ok, m')"
    have routed': "block_device_write benv reg device ?first 8 (Some buf) m = write_routed benv reg device base bottom ?first 8 buf m"
      using routed by (simp add: routes_def)
    show "(\<forall>j. j \<noteq> unat k \<longrightarrow> fs_block sectors base m' j = fs_block sectors base m j) \<and> (ok \<longrightarrow> fs_block sectors base m' (unat k) = buf)"
    proof (cases "unat ?first + unat (8 :: u32) > unat (bd_block_count (device_at reg device)) \<or> bd_read_only (device_at reg device)")
      case True
      then have "\<not> ok \<and> m' = m"
        using w routed' by (simp add: bfs_over_def write_routed_def split: if_splits)
      then show ?thesis by simp
    next
      case False
      let ?at = "word_of_nat (base + unat ?first) :: u64"
      have at: "unat ?at = base + 8 * unat k" using bottom_range [of ?first 8] False first_sector [of k] by simp
      obtain result m1 where x: "wr (bd_context (device_at reg bottom)) ?at 8 buf m = (result, m1)" by (metis surj_pair)
      have "length buf = 512 * unat (8 :: u32)" using len by simp
      note law = driver_writes [OF x this]
      have e: "ok = (result = BLOCK_OK)" "m' = m1"
        using w routed' False x driver by (simp_all add: bfs_over_def write_routed_def)
      have "fs_block sectors base m1 j = fs_block sectors base m j" if "j \<noteq> unat k" for j
      proof -
        have "sectors m1 i = sectors m i" if "i \<in> set [base + 8 * j..<base + 8 * j + 8]" for i
        proof -
          have "i < unat ?at \<or> unat ?at + unat (8 :: u32) \<le> i" using that n \<open>j \<noteq> unat k\<close> by (auto simp only: at set_upt atLeastLessThan_iff)
          then show ?thesis using law by blast
        qed
        then have "map (sectors m1) [base + 8 * j..<base + 8 * j + 8] = map (sectors m) [base + 8 * j..<base + 8 * j + 8]"
          by (simp only: map_eq_conv) blast
        then show ?thesis unfolding fs_block_def sector_run_def by (simp only:)
      qed
      then show ?thesis using law at n e by (simp add: fs_block_def)
    qed
  }
qed

text \<open>A driver that serves the sectors of the first \<open>blocks\<close> blocks while it is healthy.\<close>

locale healthy_stack = stacked_volume +
  fixes blocks :: nat and healthy :: "'a \<Rightarrow> bool"
  assumes enough: "8 * blocks \<le> unat (bd_block_count (device_at reg device))" and writable: "\<not> bd_read_only (device_at reg device)"
    and driver_reads_healthy: "healthy m \<Longrightarrow> unat first + unat n \<le> unat (bd_block_count (device_at reg bottom)) \<Longrightarrow> n \<noteq> 0 \<Longrightarrow>
      length buf = 512 * unat n \<Longrightarrow>
      rd (bd_context (device_at reg bottom)) first n buf m = ((result, bytes), m') \<Longrightarrow> result = BLOCK_OK \<and> healthy m'"
    and driver_writes_healthy: "healthy m \<Longrightarrow> unat first + unat n \<le> unat (bd_block_count (device_at reg bottom)) \<Longrightarrow> n \<noteq> 0 \<Longrightarrow>
      length buf = 512 * unat n \<Longrightarrow>
      wr (bd_context (device_at reg bottom)) first n buf m = (result, m') \<Longrightarrow> result = BLOCK_OK \<and> healthy m'"

sublocale healthy_stack \<subseteq> healthy_volume "bfs_over benv reg operations" device "fs_block sectors base" blocks healthy
proof
  fix k :: u32 and buf :: "u8 list" and m ok bytes m'
  let ?first = "ucast k * 8 :: u64"
  let ?at = "word_of_nat (base + unat ?first) :: u64"
  assume h: "healthy m" "unat k < blocks" "length buf = 4096"
  have "8 * unat k + 8 \<le> 8 * blocks" using h(2) by simp
  then have fits: "\<not> unat (bd_block_count (device_at reg device)) < unat ?first + unat (8 :: u32)"
    using enough first_sector [of k] by simp
  have at: "unat ?at = base + 8 * unat k" using bottom_range [of ?first 8] fits first_sector [of k] by simp
  have le: "unat ?at + unat (8 :: u32) \<le> unat (bd_block_count (device_at reg bottom))"
    using fits at first_sector [of k] routed by (simp add: routes_def)
  have n: "(8 :: u32) \<noteq> 0" "length buf = 512 * unat (8 :: u32)" using h(3) by simp_all
  {
    assume r: "bfs_read_blocks (bfs_over benv reg operations) device ?first 8 buf m = ((ok, bytes), m')"
    obtain result bytes1 m1 where x: "rd (bd_context (device_at reg bottom)) ?at 8 buf m = ((result, bytes1), m1)" by (metis surj_pair)
    have "block_device_read benv reg device ?first 8 (Some buf) m = read_routed benv reg device base bottom ?first 8 buf m"
      using routed by (simp add: routes_def)
    then have "((ok, bytes), m') = ((result = BLOCK_OK, bytes1), m1)"
      using r x driver fits by (simp add: bfs_over_def read_routed_def)
    then show "ok \<and> healthy m'" using driver_reads_healthy [OF h(1) le n x] by simp
  next
    assume w: "bfs_write_blocks (bfs_over benv reg operations) device ?first 8 buf m = (ok, m')"
    obtain result m1 where x: "wr (bd_context (device_at reg bottom)) ?at 8 buf m = (result, m1)" by (metis surj_pair)
    have "block_device_write benv reg device ?first 8 (Some buf) m = write_routed benv reg device base bottom ?first 8 buf m"
      using routed by (simp add: routes_def)
    then have "ok = (result = BLOCK_OK)" "m' = m1"
      using w x driver fits writable by (simp_all add: bfs_over_def write_routed_def)
    then show "ok \<and> healthy m'" using driver_writes_healthy [OF h(1) le n x] by simp
  }
qed

section \<open>The memory disk\<close>

text \<open>
  kernel/core/block_device_test.c. What never changes of a \<open>struct block_test_backend\<close> is its
  shape; its storage is the memory behind the pointer, byte by byte.
\<close>

record block_test_shape =
  bt_storage_size :: u64
  bt_logical_block_size :: u32
  bt_block_count :: u64

record block_test_backend =
  bt_storage :: "nat \<Rightarrow> u8"
  bt_read_calls :: u64
  bt_write_calls :: u64
  bt_fail_read :: bool
  bt_fail_write :: bool

type_synonym block_test_memory = "u64 \<Rightarrow> block_test_backend"

definition block_test_range_to_bytes :: "block_test_shape \<Rightarrow> u64 \<Rightarrow> u32 \<Rightarrow> (u64 \<times> u64) option" where
  "block_test_range_to_bytes shape first_block block_count =
     (if block_count = 0 \<or> first_block \<ge> bt_block_count shape \<or> ucast block_count > bt_block_count shape - first_block then None
      else let offset = first_block * ucast (bt_logical_block_size shape); len = ucast block_count * ucast (bt_logical_block_size shape) in
        if offset > UINT64_MAX \<or> len > UINT64_MAX \<or> offset > bt_storage_size shape \<or> len > bt_storage_size shape - offset then None
        else Some (offset, len))"

definition block_test_read :: "(u64 \<Rightarrow> block_test_shape) \<Rightarrow> u64 \<Rightarrow> u64 \<Rightarrow> u32 \<Rightarrow> u8 list \<Rightarrow> block_test_memory \<Rightarrow>
    (block_device_result \<times> u8 list) \<times> block_test_memory" where
  "block_test_read shapes context first_block block_count buffer m =
     (if context = 0 then ((BLOCK_IO_ERROR, buffer), m)
      else let m = m(context := (m context)\<lparr>bt_read_calls := bt_read_calls (m context) + 1\<rparr>) in
        if bt_fail_read (m context) then ((BLOCK_IO_ERROR, buffer), m)
        else case block_test_range_to_bytes (shapes context) first_block block_count of None \<Rightarrow> ((BLOCK_IO_ERROR, buffer), m)
        | Some (offset, len) \<Rightarrow>
            ((BLOCK_OK, write_cells 0 (\<lambda>index. bt_storage (m context) (unat offset + index)) (unat len) buffer), m))"

definition block_test_write :: "(u64 \<Rightarrow> block_test_shape) \<Rightarrow> u64 \<Rightarrow> u64 \<Rightarrow> u32 \<Rightarrow> u8 list \<Rightarrow> block_test_memory \<Rightarrow>
    block_device_result \<times> block_test_memory" where
  "block_test_write shapes context first_block block_count buffer m =
     (if context = 0 then (BLOCK_IO_ERROR, m)
      else let m = m(context := (m context)\<lparr>bt_write_calls := bt_write_calls (m context) + 1\<rparr>) in
        if bt_fail_write (m context) then (BLOCK_IO_ERROR, m)
        else case block_test_range_to_bytes (shapes context) first_block block_count of None \<Rightarrow> (BLOCK_IO_ERROR, m)
        | Some (offset, len) \<Rightarrow>
            (BLOCK_OK, m(context := (m context)\<lparr>bt_storage := (\<lambda>a. if unat offset \<le> a \<and> a < unat offset + unat len
               then buffer ! (a - unat offset) else bt_storage (m context) a)\<rparr>)))"

section \<open>A slice of the memory disk\<close>

definition test_shapes :: "u64 \<Rightarrow> block_test_shape" where
  "test_shapes = (\<lambda>_. \<lparr>bt_storage_size = 32768, bt_logical_block_size = 512, bt_block_count = 64\<rparr>)"

definition test_env :: "block_test_memory block_env" where
  "test_env = \<lparr>block_driver_at = (\<lambda>_. \<lparr>driver_read = Some (block_test_read test_shapes),
     driver_write = Some (block_test_write test_shapes), driver_flush = None\<rparr>), slice_ops = 4\<rparr>"

text \<open>\<open>testblk0\<close> at 16, with its backend at 1, and a slice of it at 32 that starts at sector 8.\<close>

definition test_calls :: "block_call list" where
  "test_calls = [Add_device 16 \<lparr>bd_name = Some [116, 101, 115, 116, 98, 108, 107, 48], bd_logical_block_size = 512, bd_block_count = 64,
     bd_read_only = False, bd_context = 1, bd_ops = 8\<rparr>, Add_slice 32 (Some [115]) 16 8 56 False]"

definition test_reg :: block_registry where
  "test_reg = the (block_run test_env test_calls (block_device_init block_boot))"

lemmas test_registers = test_reg_def test_calls_def block_boot_def test_env_def block_device_init_def block_device_is_registered_def
  block_device_register_def block_device_slice_register_def block_device_find_def block_device_name_equal_def
  block_device_validate_descriptor_def ops_read_null_def ops_write_null_def Let_def upt_rec

lemma test_reg_run: "block_run test_env test_calls (block_device_init block_boot) = Some test_reg"
  by (simp add: test_registers)

lemma test_reg_fields:
  "block_devices_count test_reg = 2" "block_devices test_reg ! 0 = 16" "block_devices test_reg ! 1 = 32"
  "bd_ops (device_at test_reg 32) = 4" "bd_ops (device_at test_reg 16) = 8" "bd_context (device_at test_reg 16) = 1"
  "bd_block_count (device_at test_reg 32) = 56" "bd_block_count (device_at test_reg 16) = 64" "\<not> bd_read_only (device_at test_reg 32)"
  "bd_context (device_at test_reg 32) = 32" "slice_parent (slice_at test_reg 32) = 16" "slice_parent_first_block (slice_at test_reg 32) = 8"
  by (simp_all add: test_registers)

lemma test_routes: "routes test_env test_reg 32 8 16"
proof -
  have "slice_ops test_env \<noteq> 0" "length (block_devices block_boot) = 8" by (simp_all add: test_env_def block_boot_def)
  then have "registry_ok test_env (block_device_init block_boot)" by (simp add: registry_ok_def block_device_init_def)
  then have ok: "registry_ok test_env test_reg" by (rule block_run_registry [OF test_reg_run])
  have "1 < block_devices_count test_reg" by (simp add: test_reg_fields)
  from device_routes [OF ok this, unfolded One_nat_def [symmetric] test_reg_fields(3)] obtain k j where j: "j \<le> 1" and r: "routes test_env test_reg 32 k (block_devices test_reg ! j)"
      "passed_on test_env test_reg 32 k (block_devices test_reg ! j)" by blast
  have four: "slice_ops test_env = 4" by (simp add: test_env_def)
  have "j = 0" using j r(1) test_reg_fields(3,4) four by (cases "j = 1") (auto simp: routes_def)
  then have b: "block_devices test_reg ! j = 16" by (simp add: test_reg_fields)
  obtain i where "routes test_env test_reg 16 i 16" "k = 8 + i"
    using r(2) b four by (auto simp: passed_on_def test_reg_fields)
  then have "k = 8" by (simp add: routes_def)
  then show ?thesis using r(1) b by simp
qed

definition test_sectors :: "block_test_memory \<Rightarrow> nat \<Rightarrow> u8 list" where
  "test_sectors m i = map (bt_storage (m 1)) [512 * i..<512 * i + 512]"

definition test_healthy :: "block_test_memory \<Rightarrow> bool" where
  "test_healthy m \<longleftrightarrow> \<not> bt_fail_read (m 1) \<and> \<not> bt_fail_write (m 1)"

lemma test_sector_run: "sector_run test_sectors m a n = map (bt_storage (m 1)) [512 * a..<512 * (a + n)]"
proof (induction n)
  case (Suc n)
  have "[512 * a..<512 * (a + Suc n)] = [512 * a..<512 * (a + n)] @ [512 * (a + n)..<512 * (a + n) + 512]"
    using upt_add_eq_append [of "512 * a" "512 * (a + n)" 512] by (simp add: add.commute)
  then show ?case using Suc by (simp add: sector_run_def test_sectors_def)
qed (simp add: sector_run_def)

lemma test_range:
  "block_test_range_to_bytes (test_shapes c) first n = (if n \<noteq> 0 \<and> unat first + unat n \<le> 64 then Some (first * 512, ucast n * 512) else None)"
  "unat first + unat n \<le> 64 \<Longrightarrow> unat (first * 512) = 512 * unat first \<and> unat (ucast n * 512 :: u64) = 512 * unat n"
proof -
  show small: "unat (first * 512) = 512 * unat first \<and> unat (ucast n * 512 :: u64) = 512 * unat n" if "unat first + unat n \<le> 64"
    using that by (simp add: unat_mult_exact)
  have iff: "first \<ge> 64 \<or> ucast n > 64 - first \<longleftrightarrow> \<not> unat first + unat n \<le> 64" if "n \<noteq> 0"
    using word_range_iff [where c = 64 and first = first and n = n] that by auto
  show "block_test_range_to_bytes (test_shapes c) first n = (if n \<noteq> 0 \<and> unat first + unat n \<le> 64 then Some (first * 512, ucast n * 512) else None)"
  proof (cases "n \<noteq> 0 \<and> unat first + unat n \<le> 64")
    case True
    then have "\<not> first * 512 > 32768" "\<not> ucast n * 512 > 32768 - first * 512"
      using small by (auto simp: word_less_nat_alt unat_sub_if')
    moreover have "\<not> UINT64_MAX < x" for x :: u64 by (simp add: not_less)
    ultimately show ?thesis using True iff by (simp add: block_test_range_to_bytes_def test_shapes_def Let_def)
  next
    case False
    then show ?thesis using iff by (auto simp: block_test_range_to_bytes_def test_shapes_def Let_def)
  qed
qed

lemma test_read_run: "block_test_read test_shapes 1 first n buf m =
   (if bt_fail_read (m 1) \<or> n = 0 \<or> \<not> unat first + unat n \<le> 64 then (BLOCK_IO_ERROR, buf)
    else (BLOCK_OK, write_cells 0 (\<lambda>index. bt_storage (m 1) (512 * unat first + index)) (512 * unat n) buf),
    m(1 := (m 1)\<lparr>bt_read_calls := bt_read_calls (m 1) + 1\<rparr>))"
proof (cases "bt_fail_read (m 1) \<or> n = 0 \<or> \<not> unat first + unat n \<le> 64")
  case True
  then show ?thesis by (cases "bt_fail_read (m 1)") (auto simp: block_test_read_def Let_def test_range(1))
next
  case False
  then show ?thesis using test_range(2) [of first n] by (simp add: block_test_read_def Let_def test_range(1))
qed

lemma test_write_run: "block_test_write test_shapes 1 first n buf m =
   (let m1 = m(1 := (m 1)\<lparr>bt_write_calls := bt_write_calls (m 1) + 1\<rparr>) in
    if bt_fail_write (m 1) \<or> n = 0 \<or> \<not> unat first + unat n \<le> 64 then (BLOCK_IO_ERROR, m1)
    else (BLOCK_OK, m1(1 := (m1 1)\<lparr>bt_storage := (\<lambda>a. if 512 * unat first \<le> a \<and> a < 512 * unat first + 512 * unat n
      then buf ! (a - 512 * unat first) else bt_storage (m 1) a)\<rparr>)))"
proof (cases "bt_fail_write (m 1) \<or> n = 0 \<or> \<not> unat first + unat n \<le> 64")
  case True
  then show ?thesis by (cases "bt_fail_write (m 1)") (auto simp: block_test_write_def Let_def test_range(1))
next
  case False
  then show ?thesis using test_range(2) [of first n] by (simp add: block_test_write_def Let_def test_range(1) cong: if_cong)
qed

lemma test_read_laws:
  assumes x: "block_test_read test_shapes 1 first n buf m = ((result, bytes), m')" and len: "length buf = 512 * unat n"
  shows "test_sectors m' = test_sectors m" "bytes = (if result = BLOCK_OK then sector_run test_sectors m (unat first) (unat n) else buf)"
    "test_healthy m \<Longrightarrow> n \<noteq> 0 \<Longrightarrow> unat first + unat n \<le> 64 \<Longrightarrow> result = BLOCK_OK \<and> test_healthy m'"
proof -
  have s: "bt_storage (m' 1) = bt_storage (m 1)"
    using x by (auto simp: test_read_run)
  then show "test_sectors m' = test_sectors m" by (intro ext) (simp add: test_sectors_def)
  have cells: "write_cells 0 (\<lambda>index. bt_storage (m 1) (512 * unat first + index)) (512 * unat n) buf = sector_run test_sectors m (unat first) (unat n)"
    using len by (intro nth_equalityI) (simp_all add: test_sector_run nth_write_cells distrib_left)
  show "bytes = (if result = BLOCK_OK then sector_run test_sectors m (unat first) (unat n) else buf)"
    using x cells by (auto simp: test_read_run split: if_splits)
  show "result = BLOCK_OK \<and> test_healthy m'" if "test_healthy m" "n \<noteq> 0" "unat first + unat n \<le> 64"
    using x that by (auto simp: test_read_run test_healthy_def)
qed

lemma test_write_laws:
  assumes x: "block_test_write test_shapes 1 first n buf m = (result, m')" and len: "length buf = 512 * unat n"
  shows "i < unat first \<or> unat first + unat n \<le> i \<Longrightarrow> test_sectors m' i = test_sectors m i"
    "result = BLOCK_OK \<Longrightarrow> sector_run test_sectors m' (unat first) (unat n) = buf"
    "test_healthy m \<Longrightarrow> n \<noteq> 0 \<Longrightarrow> unat first + unat n \<le> 64 \<Longrightarrow> result = BLOCK_OK \<and> test_healthy m'"
proof -
  have run: "(result = BLOCK_OK \<longrightarrow> bt_storage (m' 1) = (\<lambda>a. if 512 * unat first \<le> a \<and> a < 512 * unat first + 512 * unat n
      then buf ! (a - 512 * unat first) else bt_storage (m 1) a)) \<and> (result \<noteq> BLOCK_OK \<longrightarrow> bt_storage (m' 1) = bt_storage (m 1))"
    using x by (auto simp: test_write_run Let_def split: if_splits)
  show "test_sectors m' i = test_sectors m i" if "i < unat first \<or> unat first + unat n \<le> i"
  proof -
    have "bt_storage (m' 1) a = bt_storage (m 1) a" if "512 * i \<le> a" "a < 512 * i + 512" for a
    proof -
      have "\<not> (512 * unat first \<le> a \<and> a < 512 * unat first + 512 * unat n)"
        using that \<open>i < unat first \<or> unat first + unat n \<le> i\<close> by linarith
      then show ?thesis using run by (cases "result = BLOCK_OK") auto
    qed
    then show ?thesis by (simp add: test_sectors_def)
  qed
  show "sector_run test_sectors m' (unat first) (unat n) = buf" if "result = BLOCK_OK"
    using run that len by (intro nth_equalityI) (simp_all add: test_sector_run distrib_left)
  show "result = BLOCK_OK \<and> test_healthy m'" if "test_healthy m" "n \<noteq> 0" "unat first + unat n \<le> 64"
    using x that by (auto simp: test_write_run Let_def test_healthy_def)
qed

interpretation testblk0: healthy_stack test_env test_reg 96 32 16 8 test_sectors
  "block_test_read test_shapes" "block_test_write test_shapes" 7 test_healthy
proof
  show "routes test_env test_reg 32 8 16" by (rule test_routes)
  show "driver_read (block_driver_at test_env (bd_ops (device_at test_reg 16))) = Some (block_test_read test_shapes)"
    "driver_write (block_driver_at test_env (bd_ops (device_at test_reg 16))) = Some (block_test_write test_shapes)"
    by (simp_all add: test_env_def)
  show "length (test_sectors m i) = 512" for m i by (simp add: test_sectors_def)
  show "8 * 7 \<le> unat (bd_block_count (device_at test_reg 32))" "\<not> bd_read_only (device_at test_reg 32)"
    by (simp_all add: test_reg_fields)
  fix first :: u64 and n :: u32 and buf bytes :: "u8 list" and m m' result
  assume len: "length buf = 512 * unat n"
  {
    assume "block_test_read test_shapes (bd_context (device_at test_reg 16)) first n buf m = ((result, bytes), m')"
    then have x: "block_test_read test_shapes 1 first n buf m = ((result, bytes), m')" by (simp add: test_reg_fields)
    note laws = test_read_laws [OF x len]
    have "length (sector_run test_sectors m (unat first) (unat n)) = length buf" using len by (simp add: test_sector_run)
    then show "test_sectors m' = test_sectors m \<and> length bytes = length buf \<and>
        (result = BLOCK_OK \<longrightarrow> bytes = sector_run test_sectors m (unat first) (unat n))"
      using laws(1,2) by simp
    show "result = BLOCK_OK \<and> test_healthy m'" if "test_healthy m" "unat first + unat n \<le> unat (bd_block_count (device_at test_reg 16))" "n \<noteq> 0"
      using laws(3) that by (simp add: test_reg_fields)
  next
    assume "block_test_write test_shapes (bd_context (device_at test_reg 16)) first n buf m = (result, m')"
    then have x: "block_test_write test_shapes 1 first n buf m = (result, m')" by (simp add: test_reg_fields)
    note laws = test_write_laws [OF x len]
    show "(\<forall>i. i < unat first \<or> unat first + unat n \<le> i \<longrightarrow> test_sectors m' i = test_sectors m i) \<and>
        (result = BLOCK_OK \<longrightarrow> sector_run test_sectors m' (unat first) (unat n) = buf)"
      using laws(1,2) by blast
    show "result = BLOCK_OK \<and> test_healthy m'" if "test_healthy m" "unat first + unat n \<le> unat (bd_block_count (device_at test_reg 16))" "n \<noteq> 0"
      using laws(3) that by (simp add: test_reg_fields)
  }
qed

text \<open>The memory disk leaves the buffer alone when it fails.\<close>

interpretation testlog0: logged_volume "bfs_over test_env test_reg 96" 32 "fs_block test_sectors 8" "\<lambda>_. False"
proof
  fix k :: u32 and buf bytes :: "u8 list" and m m' :: block_test_memory and ok
  let ?first = "ucast k * 8 :: u64" and ?at = "word_of_nat (8 + unat (ucast k * 8 :: u64)) :: u64"
  assume r: "bfs_read_blocks (bfs_over test_env test_reg 96) 32 ?first 8 buf m = ((ok, bytes), m')"
    and len: "length buf = 4096" and torn: "False \<or> \<not> ok \<and> bytes \<noteq> buf"
  have run: "block_device_read test_env test_reg 32 ?first 8 (Some buf) m = read_routed test_env test_reg 32 8 16 ?first 8 buf m"
    using test_routes by (simp add: routes_def)
  obtain result bytes1 m1 where x: "block_test_read test_shapes 1 ?at 8 buf m = ((result, bytes1), m1)" by (metis surj_pair)
  have "length buf = 512 * unat (8 :: u32)" using len by simp
  note law = test_read_laws(2) [OF x this]
  show False using r run x law torn
    by (auto simp: bfs_over_def read_routed_def test_reg_fields test_env_def split: if_splits)
qed

end
