(* ===== verification/BfsOps.thy ===== *)
theory BfsOps
  imports BfsStack
begin

text \<open>
  The operations of a mounted BoringFS volume (kernel/fs/boringfs_vfs.c) on a device that works:
  what a write, a read and a truncation of a file do to the volume.
\<close>

definition disk_of :: "u64 \<Rightarrow> 'm bfs_world \<Rightarrow> 'm bfs_disk" where
  "disk_of B s = (bfs_at (backend s) B, bfs_machine (backend s))"

definition with_disk :: "u64 \<Rightarrow> 'm bfs_disk \<Rightarrow> 'm bfs_world \<Rightarrow> 'm bfs_world" where
  "with_disk B d s = s\<lparr>backend := (backend s)\<lparr>bfs_at := (bfs_at (backend s))(B := fst d), bfs_machine := snd d\<rparr>\<rparr>"

lemma on_disk_run: "f (disk_of B s) = (r, d) \<Longrightarrow> on_disk B f s = (r, with_disk B d s)"
  by (cases d) (simp add: on_disk_def disk_of_def with_disk_def)

lemma with_disk_simps [simp]:
  "disk_of B (with_disk B d s) = d" "with_disk B d' (with_disk B d s) = with_disk B d' s"
  "filesystem_at (with_disk B d s) = filesystem_at s" "node_at (with_disk B d s) = node_at s"
  "bfs_at (backend (with_disk B d s)) B = fst d"
  by (simp_all add: disk_of_def with_disk_def)

lemma same_context [simp]: "context_from_filesystem env filesystem (with_disk B d s) = context_from_filesystem env filesystem s"
  by (simp add: context_from_filesystem_def Let_def)

lemma same_node_object:
  "same_volume (fst (disk_of B s)) (fst d) \<Longrightarrow> node_object_id B node (with_disk B d s) = node_object_id B node s"
  by (cases node) (simp_all add: node_object_id_def Let_def disk_of_def same_volume_fields)

text \<open>A node of a mounted volume that stands for object \<open>i\<close>.\<close>

definition bfs_file :: "'m bfs_env \<Rightarrow> u64 \<Rightarrow> node_ref \<Rightarrow> u32 \<Rightarrow> 'm bfs_world \<Rightarrow> bool" where
  "bfs_file env B node i s \<longleftrightarrow> context_from_filesystem env B s = Some B \<and> node_object_id B node s = Some i \<and>
     node_type (node_at s (the node)) = NODE_REGULAR"

lemma same_file: "same_volume (fst (disk_of B s)) (fst d) \<Longrightarrow> bfs_file env B node i (with_disk B d s) = bfs_file env B node i s"
  by (simp add: bfs_file_def same_node_object)

text \<open>A live record of a file in the object table.\<close>

definition live_file :: "boringfs_superblock \<Rightarrow> u8 list \<Rightarrow> u32 \<Rightarrow> boringfs_object \<Rightarrow> bool" where
  "live_file sb bytes i object \<longleftrightarrow> 1 \<le> i \<and> i \<le> sb_object_count sb \<and> stored_object sb bytes i = Some object \<and>
     obj_object_id object = i \<and> obj_state object = 1 \<and> obj_type object = TYPE_REGULAR \<and> extents_in_volume sb object \<and>
     unat (obj_size_bytes object) \<le> length (object_data bytes object)"

definition file_bytes :: "u8 list \<Rightarrow> boringfs_object \<Rightarrow> u8 list" where
  "file_bytes bytes object = take (unat (obj_size_bytes object)) (object_data bytes object)"

context healthy_volume
begin

lemma boringfs_read_ready:
  fixes s :: "'m bfs_world" and B :: u64
  defines "d \<equiv> disk_of B s"
  assumes f: "bfs_file env B node i s" and r: "ready d" and o: "live_file (bfs_superblock (fst d)) (bytes_of d) i object"
  obtains d' where "boringfs_read env B node offset len s =
      ((VFS_OK, take (unat len) (drop (unat offset) (file_bytes (bytes_of d) object)),
        word_of_nat (length (take (unat len) (drop (unat offset) (file_bytes (bytes_of d) object))))), with_disk B d' s)"
    "ready d'" "same_volume (fst d) (fst d')" "bytes_of d' = bytes_of d"
proof -
  let ?data = "object_data (bytes_of d) object" and ?size = "obj_size_bytes object"
  have live: "1 \<le> i" "i \<le> sb_object_count (bfs_superblock (fst d))" "obj_object_id object = i" "obj_state object = 1"
    "obj_type object = TYPE_REGULAR" "extents_in_volume (bfs_superblock (fst d)) object" "unat ?size \<le> length ?data"
    and st: "stored_object (bfs_superblock (fst d)) (bytes_of d) i = Some object" using o by (simp_all add: live_file_def)
  from decode_object_ready [OF r live(1,2)] obtain d1 where
    d1: "decode_object env i d = (Some (object, raw_object (bfs_superblock (fst d)) (bytes_of d) i), d1)" "ready d1"
      "same_volume (fst d) (fst d1)" "bytes_of d1 = bytes_of d" using st by (auto simp: stored_object_def)
  have dec: "on_disk B (decode_object env i) s = (Some (object, raw_object (bfs_superblock (fst d)) (bytes_of d) i), with_disk B d1 s)"
    using d1(1) by (intro on_disk_run) (simp add: d_def)
  have lf: "length (file_bytes (bytes_of d) object) = unat ?size" using live(7) by (simp add: file_bytes_def)
  show thesis
  proof (cases "offset \<ge> ?size \<or> len = 0")
    case True
    have "take (unat len) (drop (unat offset) (file_bytes (bytes_of d) object)) = []"
      using True lf by (auto simp: word_le_nat_alt)
    moreover have "(?size - offset < 0) = False" by simp
    ultimately have "boringfs_read env B node offset len s = ((VFS_OK, take (unat len) (drop (unat offset) (file_bytes (bytes_of d) object)),
        word_of_nat (length (take (unat len) (drop (unat offset) (file_bytes (bytes_of d) object))))), with_disk B d1 s)"
      using f dec live True by (auto simp: boringfs_read_def bfs_file_def Let_def)
    from that [OF this d1(2-4)] show thesis .
  next
    case False
    define n where "n = (if ?size - offset < len then ?size - offset else len)"
    have sz: "unat (?size - offset) = unat ?size - unat offset" "unat offset < unat ?size" "0 < unat len"
      using False by (auto simp: unat_sub_if' word_le_nat_alt unat_gt_0)
    have n: "unat n = min (unat len) (unat ?size - unat offset)" using sz by (simp add: n_def word_less_nat_alt)
    then have "n \<noteq> 0" using sz by auto
    have es: "unat (obj_extent_count object) \<le> 8"
      "\<forall>e\<in>set (take (unat (obj_extent_count object)) (obj_extents object)). extent_in_volume (bfs_superblock (fst d1)) e"
      using live(6) d1(3) by (simp_all add: extents_in_volume_def same_volume_fields)
    have "unat offset + unat n \<le> length (object_data (bytes_of d1) object)" using n sz live(7) d1(4) by simp
    from object_read_ready [OF d1(2) es this] obtain d2 where
      d2: "object_read_exact env object offset n d1 = (Some (sub_buffer ?data (unat offset) (unat n)), d2)" "ready d2"
        "same_volume (fst d1) (fst d2)" "bytes_of d2 = bytes_of d" using d1(4) by auto
    have rd: "on_disk B (object_read_exact env object offset n) (with_disk B d1 s) = (Some (sub_buffer ?data (unat offset) (unat n)), with_disk B d2 s)"
      using on_disk_run [of "object_read_exact env object offset n" B "with_disk B d1 s"] d2(1) by simp
    have b: "sub_buffer ?data (unat offset) (unat n) = take (unat len) (drop (unat offset) (file_bytes (bytes_of d) object))"
      using n sz live(7) by (simp add: sub_buffer_def file_bytes_def drop_take min_def)
    have nn: "word_of_nat (length (take (unat len) (drop (unat offset) (file_bytes (bytes_of d) object)))) = n"
      using n lf sz by (simp add: min.commute n [symmetric])
    have run: "boringfs_read env B node offset len s = ((VFS_OK, sub_buffer ?data (unat offset) (unat n), n), with_disk B d2 s)"
      using f dec live False \<open>n \<noteq> 0\<close> rd unfolding boringfs_read_def bfs_file_def Let_def n_def by (simp split del: if_split)
    have sv: "same_volume (fst d) (fst d2)" using d1(3) d2(3) by (rule same_volume_trans)
    have "boringfs_read env B node offset len s = ((VFS_OK, take (unat len) (drop (unat offset) (file_bytes (bytes_of d) object)),
        word_of_nat (length (take (unat len) (drop (unat offset) (file_bytes (bytes_of d) object))))), with_disk B d2 s)"
      by (simp only: nn run b)
    from that [OF this d2(2) sv d2(4)] show thesis .
  qed
qed

end

section \<open>Other files\<close>

lemma extent_addresses_in_blocks:
  assumes e: "extents_in_volume sb object" and x: "x \<in> set (take (unat (obj_extent_count object)) (obj_extents object))"
    and a: "4096 * unat (ext_start_block x) \<le> a" "a < 4096 * unat (ext_start_block x) + 4096 * unat (ext_block_count x)"
  shows "\<exists>b\<in>set (object_block_list object). a div 4096 = unat b"
proof -
  define n where "n = a div 4096 - unat (ext_start_block x)"
  have v: "extent_in_volume sb x" using e x by (simp add: extents_in_volume_def)
  have d: "unat (ext_start_block x) \<le> a div 4096" "a div 4096 < unat (ext_start_block x) + unat (ext_block_count x)"
    using block_of_address [OF a] by simp_all
  then have n: "n < unat (ext_block_count x)" "a div 4096 = unat (ext_start_block x) + n" by (simp_all add: n_def)
  have "unat (ext_start_block x) + n < 4294967296"
    using n v unat_u32_less [of "sb_total_blocks sb"] by (simp add: extent_in_volume_def)
  then have "unat (ext_start_block x + word_of_nat n) = unat (ext_start_block x) + n" by (simp add: unat_word_ariths unat_of_nat)
  moreover have "ext_start_block x + word_of_nat n \<in> set (extent_block_list x)" using n(1) by (simp add: extent_block_list_def)
  then have "ext_start_block x + word_of_nat n \<in> set (object_block_list object)" using x by (auto simp: object_block_list_def)
  ultimately show ?thesis using n(2) by (metis)
qed

text \<open>A file whose record and blocks a change of the volume leaves alone is as before.\<close>

lemma file_unchanged:
  assumes l: "layout_ok sb" and f: "live_file sb old j other"
    and len: "length new = length old" "length old = 4096 * unat (sb_total_blocks sb)"
    and rec: "\<And>a. record_offset sb j \<le> a \<Longrightarrow> a < record_offset sb j + 128 \<Longrightarrow> new ! a = old ! a"
    and dat: "\<And>b a. b \<in> set (object_block_list other) \<Longrightarrow> a div 4096 = unat b \<Longrightarrow> a < length old \<Longrightarrow> new ! a = old ! a"
  shows "live_file sb new j other \<and> file_bytes new other = file_bytes old other"
proof -
  have j: "1 \<le> j" "j \<le> sb_object_count sb" and e: "extents_in_volume sb other" using f by (simp_all add: live_file_def)
  have "record_offset sb j + 128 \<le> length old"
    using layout_bounds(1) [OF l j] layout_bounds(4) [OF l] len(2) by simp
  then have "raw_object sb new j = raw_object sb old j"
    unfolding raw_object_def using rec len(1) by (intro nth_equalityI) (auto simp: length_sub_buffer nth_sub_buffer)
  then have st: "stored_object sb new j = stored_object sb old j" by (simp add: stored_object_def)
  have "extent_data new x = extent_data old x" if x: "x \<in> set (take (unat (obj_extent_count other)) (obj_extents other))" for x
  proof -
    have "extent_in_volume sb x" using e x by (simp add: extents_in_volume_def)
    then have "4096 * unat (ext_start_block x) + 4096 * unat (ext_block_count x) \<le> length old"
      using len(2) by (simp add: extent_in_volume_def)
    moreover have "new ! a = old ! a"
      if a: "4096 * unat (ext_start_block x) \<le> a" "a < 4096 * unat (ext_start_block x) + 4096 * unat (ext_block_count x)" for a
      using extent_addresses_in_blocks [OF e x a] dat a calculation by fastforce
    ultimately show ?thesis
      unfolding extent_data_def using len(1) by (intro nth_equalityI) (auto simp: length_sub_buffer nth_sub_buffer)
  qed
  then have "object_data new other = object_data old other"
    unfolding object_data_def by (intro arg_cong [of _ _ concat]) simp
  then show ?thesis using f st by (simp add: live_file_def file_bytes_def)
qed

lemma records_apart:
  assumes "1 \<le> i" "1 \<le> j" "i \<noteq> (j :: u32)"
  shows "record_offset sb i + 128 \<le> record_offset sb j \<or> record_offset sb j + 128 \<le> record_offset sb i"
proof -
  have "1 \<le> unat i" "1 \<le> unat j" "unat i \<noteq> unat j" using assms by (simp_all add: word_le_nat_alt word_unat_eq_iff)
  then show ?thesis unfolding record_offset_def by linarith
qed

text \<open>Every other file whose blocks are marked used keeps its record and its bytes.\<close>

definition others_kept :: "boringfs_superblock \<Rightarrow> u32 \<Rightarrow> u8 list \<Rightarrow> u8 list \<Rightarrow> bool" where
  "others_kept sb i old new \<longleftrightarrow> (\<forall>j other. j \<noteq> i \<and> live_file sb old j other \<and> (\<forall>b\<in>set (object_block_list other). block_used sb old b) \<longrightarrow>
     live_file sb new j other \<and> file_bytes new other = file_bytes old other)"

lemma written_others:
  assumes l: "layout_ok sb" and w: "file_written sb i object k bytes old new" and i: "1 \<le> i" "i \<le> sb_object_count sb"
    and len: "length old = 4096 * unat (sb_total_blocks sb)" and k: "first_free sb old = Some k"
  shows "others_kept sb i old new"
  unfolding others_kept_def
proof (intro allI impI)
  fix j other
  assume j: "j \<noteq> i \<and> live_file sb old j other \<and> (\<forall>b\<in>set (object_block_list other). block_used sb old b)"
  then have f: "live_file sb old j other" and jj: "1 \<le> j" "j \<le> sb_object_count sb" and e: "extents_in_volume sb other"
    by (simp_all add: live_file_def)
  have sbk: "sb_data_start sb \<le> k" "k < sb_total_blocks sb" "\<not> block_used sb old k"
    using find_bounds [OF k [unfolded first_free_def] unat_u32_less] by (simp_all add: word_le_nat_alt word_less_nat_alt)
  note ri = disjoint_regions [OF l sbk(1,2) i] and rj = disjoint_regions [OF l sbk(1,2) jj]
  have same: "new ! a = old ! a" if "a < length old" "a div 4096 \<noteq> unat k" "a \<noteq> bit_offset sb k"
      "\<not> (record_offset sb i \<le> a \<and> a < record_offset sb i + 128)" for a
    using w that by (simp add: file_written_def)
  show "live_file sb new j other \<and> file_bytes new other = file_bytes old other"
  proof (rule file_unchanged [OF l f _ len])
    show "length new = length old" using w by (simp add: file_written_def)
  next
    fix a assume a: "record_offset sb j \<le> a" "a < record_offset sb j + 128"
    have "a < 4096 * unat k" using a rj(2) by linarith
    then have "a div 4096 < unat k" by (simp add: less_mult_imp_div_less mult.commute)
    moreover have "a < length old" using a rj(2,3) len by linarith
    moreover have "a \<noteq> bit_offset sb k" using a rj(1) by linarith
    moreover have "\<not> (record_offset sb i \<le> a \<and> a < record_offset sb i + 128)" using a records_apart [OF i(1) jj(1), of sb] j by auto
    ultimately show "new ! a = old ! a" using same by simp
  next
    fix b a assume b: "b \<in> set (object_block_list other)" "a div 4096 = unat b" "a < length old"
    have "b \<noteq> k" using b(1) j sbk(3) by auto
    moreover have "4096 * unat (sb_data_start sb) \<le> a"
      using extents_in_volume_blocks(1) [OF e b(1)] b(2) by (simp add: word_le_nat_alt less_eq_div_iff_mult_less_eq mult.commute)
    moreover have "a \<noteq> bit_offset sb k" "\<not> (record_offset sb i \<le> a \<and> a < record_offset sb i + 128)"
      using calculation(2) layout_bounds(1) [OF l i] ri(1) by auto
    ultimately show "new ! a = old ! a" using same b(2,3) by (simp add: word_unat_eq_iff)
  qed
qed

lemma emptied_others:
  assumes l: "layout_ok sb" and w: "file_emptied sb i object old new" and i: "1 \<le> i" "i \<le> sb_object_count sb"
    and len: "length old = 4096 * unat (sb_total_blocks sb)"
  shows "others_kept sb i old new"
  unfolding others_kept_def
proof (intro allI impI)
  fix j other
  assume j: "j \<noteq> i \<and> live_file sb old j other \<and> (\<forall>b\<in>set (object_block_list other). block_used sb old b)"
  then have f: "live_file sb old j other" and jj: "1 \<le> j" "j \<le> sb_object_count sb" and e: "extents_in_volume sb other"
    by (simp_all add: live_file_def)
  have same: "new ! a = old ! a" if "a < length old" "4096 * unat (sb_object_table_start sb) \<le> a"
      "\<not> (record_offset sb i \<le> a \<and> a < record_offset sb i + 128)" for a
    using w that by (simp add: file_emptied_def)
  note b = layout_bounds [OF l]
  show "live_file sb new j other \<and> file_bytes new other = file_bytes old other"
  proof (rule file_unchanged [OF l f _ len])
    show "length new = length old" using w by (simp add: file_emptied_def)
  next
    fix a assume a: "record_offset sb j \<le> a" "a < record_offset sb j + 128"
    have "a < length old" "4096 * unat (sb_object_table_start sb) \<le> a" using a b(1) [OF jj] b(2) [of j] b(4) len by linarith+
    moreover have "\<not> (record_offset sb i \<le> a \<and> a < record_offset sb i + 128)" using a records_apart [OF i(1) jj(1), of sb] j by auto
    ultimately show "new ! a = old ! a" using same by simp
  next
    fix x a assume x: "x \<in> set (object_block_list other)" "a div 4096 = unat x" "a < length old"
    have "4096 * unat (sb_data_start sb) \<le> a"
      using extents_in_volume_blocks(1) [OF e x(1)] x(2) by (simp add: word_le_nat_alt less_eq_div_iff_mult_less_eq mult.commute)
    moreover have "4096 * unat (sb_object_table_start sb) \<le> a" "\<not> (record_offset sb i \<le> a \<and> a < record_offset sb i + 128)"
      using calculation b(1) [OF i] b(2) [of i] by auto
    ultimately show "new ! a = old ! a" using same x(3) by simp
  qed
qed

context healthy_volume
begin

lemma ready_length: "ready d \<Longrightarrow> length (bytes_of d) = 4096 * unat (sb_total_blocks (bfs_superblock (fst d)))"
  by (simp add: length_bytes_of volume_blocks_def)

lemma boringfs_write_ready:
  fixes s :: "'m bfs_world" and B :: u64
  defines "d \<equiv> disk_of B s"
  defines "sb \<equiv> bfs_superblock (fst d)"
  assumes f: "bfs_file env B node i s" and r: "ready d" "\<not> bfs_read_only (fst d)"
    and o: "live_file sb (bytes_of d) i object" "obj_size_bytes object = 0" "obj_extent_count object = 0"
    and k: "first_free sb (bytes_of d) = Some k" and n: "bytes \<noteq> []" "length bytes \<le> 4096"
  obtains d' where "boringfs_write env B node 0 bytes s = ((VFS_OK, word_of_nat (length bytes)), with_disk B d' s)"
    "ready d'" "same_volume (fst d) (fst d')" "file_written sb i object k bytes (bytes_of d) (bytes_of d')"
proof -
  have live: "1 \<le> i" "i \<le> sb_object_count sb" "stored_object sb (bytes_of d) i = Some object" "obj_object_id object = i"
    "obj_state object = 1" "obj_type object = TYPE_REGULAR" using o by (simp_all add: live_file_def)
  from write_object_data_ready [OF r, folded sb_def, OF live o(2,3) k n] obtain d' where
    d': "write_object_data env i bytes d = ((VFS_OK, word_of_nat (length bytes)), d')" "ready d'" "same_volume (fst d) (fst d')"
      "file_written sb i object k bytes (bytes_of d) (bytes_of d')" .
  have "on_disk B (write_object_data env i bytes) s = ((VFS_OK, word_of_nat (length bytes)), with_disk B d' s)"
    using d'(1) by (intro on_disk_run) (simp add: d_def)
  then have "boringfs_write env B node 0 bytes s = ((VFS_OK, word_of_nat (length bytes)), with_disk B d' s)"
    using f r(2) n by (simp add: boringfs_write_def bfs_file_def mutation_context_def d_def disk_of_def Let_def)
  from that [OF this d'(2-4)] show thesis .
qed

lemma boringfs_truncate_ready:
  fixes s :: "'m bfs_world" and B :: u64
  defines "d \<equiv> disk_of B s"
  defines "sb \<equiv> bfs_superblock (fst d)"
  assumes f: "bfs_file env B node i s" and r: "ready d" "\<not> bfs_read_only (fst d)"
    and o: "live_file sb (bytes_of d) i object" "obj_size_bytes object \<noteq> 0"
  obtains d' where "boringfs_truncate env B node 0 s = (VFS_OK, with_disk B d' s)"
    "ready d'" "same_volume (fst d) (fst d')" "file_emptied sb i object (bytes_of d) (bytes_of d')"
proof -
  have live: "1 \<le> i" "i \<le> sb_object_count sb" "stored_object sb (bytes_of d) i = Some object" "obj_object_id object = i"
    "obj_state object = 1" "obj_type object = TYPE_REGULAR" "obj_size_bytes object \<noteq> 0" "extents_in_volume sb object"
    using o by (simp_all add: live_file_def)
  from truncate_object_ready [OF r, folded sb_def, OF live] obtain d' where
    d': "truncate_object env i 0 d = (VFS_OK, d')" "ready d'" "same_volume (fst d) (fst d')"
      "file_emptied sb i object (bytes_of d) (bytes_of d')" .
  have "on_disk B (truncate_object env i 0) s = (VFS_OK, with_disk B d' s)"
    using d'(1) by (intro on_disk_run) (simp add: d_def)
  then have "boringfs_truncate env B node 0 s = (VFS_OK, with_disk B d' s)"
    using f r(2) by (simp add: boringfs_truncate_def bfs_file_def mutation_context_def d_def disk_of_def Let_def)
  from that [OF this d'(2-4)] show thesis .
qed

end

lemma written_live:
  assumes w: "file_written sb i object k bytes old new" and o: "live_file sb old i object"
    and l: "layout_ok sb" and k: "first_free sb old = Some k" and n: "length bytes \<le> 4096"
  shows "live_file sb new i (one_block_object object k (length bytes))" "file_bytes new (one_block_object object k (length bytes)) = bytes"
proof -
  let ?o = "one_block_object object k (length bytes)"
  have sbk: "sb_data_start sb \<le> k" "k < sb_total_blocks sb"
    using find_bounds [OF k [unfolded first_free_def] unat_u32_less] by (simp_all add: word_le_nat_alt word_less_nat_alt)
  have e: "extents_in_volume sb ?o"
    using sbk by (simp add: extents_in_volume_def extent_in_volume_def one_block_object_def word_less_nat_alt)
  have d: "object_data new ?o = bytes @ replicate (4096 - length bytes) 0"
    using w by (simp add: object_data_def extent_data_def one_block_object_def file_written_def)
  have sz: "unat (obj_size_bytes ?o) = length bytes" using n by (simp add: one_block_object_def unat_of_nat)
  show "live_file sb new i ?o"
    using w o e d sz n by (simp add: live_file_def file_written_def) (simp add: one_block_object_def)
  show "file_bytes new ?o = bytes" using d sz by (simp add: file_bytes_def)
qed

lemma emptied_live:
  assumes w: "file_emptied sb i object old new" and o: "live_file sb old i object"
  shows "live_file sb new i (empty_file_object object)" "file_bytes new (empty_file_object object) = []"
  using w o by (simp_all add: live_file_def file_emptied_def extents_in_volume_def object_data_def empty_file_object_def file_bytes_def)

end
