(* ===== verification/BfsRuns.thy ===== *)
theory BfsRuns
  imports BfsOps
begin

text \<open>
  Every function of kernel/fs/boringfs_vfs.c on a device that keeps the laws of
  \<open>block_volume\<close>, whether its transfers succeed or fail: the cache stays coherent as long as
  no failed read has left other bytes in it (\<open>tracked\<close>), and what only looks at the volume,
  or works on a volume mounted read-only, leaves the device as it is.
\<close>

definition bfs_view :: "u64 \<Rightarrow> ('m \<Rightarrow> nat \<Rightarrow> u8 list) \<Rightarrow> ('m \<Rightarrow> bool) \<Rightarrow> 'm bfs_disk \<Rightarrow> 'm bfs_disk \<Rightarrow> bool" where
  "bfs_view device content torn d d' \<longleftrightarrow> (tracked device content torn d \<longrightarrow>
     tracked device content torn d' \<and> same_volume (fst d) (fst d') \<and> content (snd d') = content (snd d))"

definition bfs_step :: "u64 \<Rightarrow> ('m \<Rightarrow> nat \<Rightarrow> u8 list) \<Rightarrow> ('m \<Rightarrow> bool) \<Rightarrow> 'm bfs_disk \<Rightarrow> 'm bfs_disk \<Rightarrow> bool" where
  "bfs_step device content torn d d' \<longleftrightarrow> (tracked device content torn d \<longrightarrow>
     tracked device content torn d' \<and> same_volume (fst d) (fst d') \<and>
     (bfs_read_only (fst d) \<longrightarrow> content (snd d') = content (snd d)))"

lemma view_refl [simp]: "bfs_view device content torn d d" and step_refl [simp]: "bfs_step device content torn d d"
  by (simp_all add: bfs_view_def bfs_step_def)

lemma view_trans: "bfs_view device content torn d e \<Longrightarrow> bfs_view device content torn e f \<Longrightarrow> bfs_view device content torn d f"
  by (auto simp: bfs_view_def intro: same_volume_trans)

lemma step_trans: "bfs_step device content torn d e \<Longrightarrow> bfs_step device content torn e f \<Longrightarrow> bfs_step device content torn d f"
  by (auto simp: bfs_step_def same_volume_fields intro: same_volume_trans)

lemma view_step: "bfs_view device content torn d e \<Longrightarrow> bfs_step device content torn d e"
  by (auto simp: bfs_view_def bfs_step_def)

context logged_volume
begin

abbreviation view :: "'m bfs_disk \<Rightarrow> 'm bfs_disk \<Rightarrow> bool" where "view \<equiv> bfs_view device content torn"
abbreviation step :: "'m bfs_disk \<Rightarrow> 'm bfs_disk \<Rightarrow> bool" where "step \<equiv> bfs_step device content torn"

section \<open>Looking\<close>

lemma view_cache_block:
  assumes r: "cache_block env k d = (ok, d')"
  shows "view d d'"
proof (cases "tracked device content torn d")
  case tr: True
  then have a: "attached device d" by (simp add: tracked_def)
  note cb = cache_block_attached [OF a r]
  obtain b m where d: "d = (b, m)" by force
  have "torn (snd d') \<or> coherent device content d'"
  proof (cases "bfs_cache_valid b \<and> bfs_cached_block b = k \<or> k \<ge> sb_total_blocks (bfs_superblock b)")
    case True
    then have "d' = d" using r by (auto simp: d cache_block_def load_cached_block_def split: if_splits)
    then show ?thesis using tr by (simp add: tracked_def)
  next
    case False
    obtain ok1 bytes m' where x: "bfs_read_blocks env device (ucast k * 8) 8 (bfs_block_cache b) m = ((ok1, bytes), m')" by (metis prod.exhaust)
    have dev: "bfs_device b = device" and len: "length (bfs_block_cache b) = 4096" using a by (simp_all add: d attached_def)
    have run: "(ok, d') = (if ok1 then (True, b\<lparr>bfs_block_cache := bytes, bfs_cached_block := k, bfs_cache_valid := True\<rparr>, m')
        else (False, b\<lparr>bfs_block_cache := bytes\<rparr>, m'))"
      using r False x dev by (auto simp: d cache_block_def load_cached_block_def map_block)
    note rb = read_block [OF x len] and torn = torn_read [OF x len]
    show ?thesis
    proof (cases "ok1 \<or> torn m' \<or> torn m")
      case True
      then show ?thesis using run rb torn dev by (cases ok1) (auto simp: coherent_def)
    next
      case clean: False
      then have "bytes = bfs_block_cache b" using torn by auto
      then have "d' = (b, m')" "coherent device content (b, m)" using run clean tr by (simp_all add: d tracked_def)
      then show ?thesis using rb by (simp add: coherent_def)
    qed
  qed
  then show ?thesis using cb(1-3) by (simp add: bfs_view_def tracked_def)
qed (simp add: bfs_view_def)

lemma view_source_read_from: "source_read_from env current remaining d = (r, d') \<Longrightarrow> view d d'"
proof (induction "unat remaining" arbitrary: current remaining d r d' rule: less_induct)
  case less
  show ?case
  proof (cases "remaining = 0 \<or> current div 4096 > ucast UINT32_MAX \<or> current div 4096 \<ge> ucast (sb_total_blocks (bfs_superblock (fst d)))")
    case True
    then show ?thesis using less.prems by (subst (asm) source_read_from.simps) (auto simp: Let_def split: if_splits)
  next
    case False
    define chunk where "chunk = block_chunk current remaining"
    obtain ok d1 where c: "cache_block env (ucast (current div 4096)) d = (ok, d1)" by (metis surj_pair)
    obtain rest d2 where t: "source_read_from env (current + chunk) (remaining - chunk) d1 = (rest, d2)" by (metis surj_pair)
    have "d' = (if ok then d2 else d1)" using less.prems False c t
      by (subst (asm) source_read_from.simps) (auto simp: Let_def chunk_def [symmetric] disk_bind_def split: option.splits if_splits)
    moreover have "unat (remaining - chunk) < unat remaining" using block_chunk_decreases [of remaining current] False by (simp add: chunk_def)
    ultimately show ?thesis using view_cache_block [OF c] less.hyps [OF _ t] by (auto intro: view_trans split: if_splits)
  qed
qed

lemma view_source_read: "boringfs_source_read env offset len d = (r, d') \<Longrightarrow> view d d'"
  by (auto simp: boringfs_source_read_def split: if_splits dest: view_source_read_from)

lemma view_decode_object: "decode_object env i d = (r, d') \<Longrightarrow> view d d'"
  by (auto simp: decode_object_def disk_bind_def split: option.splits prod.splits if_splits dest!: view_source_read)

lemma view_bitmap_get: "bitmap_get env k d = (r, d') \<Longrightarrow> view d d'"
  by (auto simp: bitmap_get_def disk_bind_def split: option.splits prod.splits dest!: view_source_read)

lemma view_first_free_block: "first_free_block env ks d = (r, d') \<Longrightarrow> view d d'"
  by (induction ks arbitrary: d) (auto simp: disk_bind_def split: option.splits prod.splits if_splits dest!: view_bitmap_get intro: view_trans)

lemma view_find_free_block: "find_free_block env preferred d = (r, d') \<Longrightarrow> view d d'"
  by (auto simp: find_free_block_def Let_def split: option.splits prod.splits if_splits bool.splits
      dest!: view_bitmap_get view_first_free_block intro: view_trans)

lemma view_first_free_object: "first_free_object env ks d = (r, d') \<Longrightarrow> view d d'"
  by (induction ks arbitrary: d) (auto simp: disk_bind_def split: option.splits prod.splits if_splits dest!: view_decode_object intro: view_trans)

lemma view_find_free_object: "find_free_object env d = (r, d') \<Longrightarrow> view d d'"
  by (auto simp: find_free_object_def dest: view_first_free_object)

lemma view_object_read_extents: "object_read_extents env es offset remaining d = (r, d') \<Longrightarrow> view d d'"
proof (induction es arbitrary: offset remaining d r)
  case (Cons e es)
  show ?case using Cons.prems
    by (auto simp: Let_def disk_bind_def split: option.splits prod.splits if_splits dest!: view_source_read Cons.IH intro: view_trans)
qed (auto split: if_splits)

lemma view_object_read: "object_read_exact env object offset len d = (r, d') \<Longrightarrow> view d d'"
  by (auto simp: object_read_exact_def split: if_splits dest: view_object_read_extents)

lemma view_validate_record: "bfs_validate_directory_record env i raw d = (r, d') \<Longrightarrow> view d d'"
  by (auto simp: bfs_validate_directory_record_def disk_bind_def split: option.splits prod.splits if_splits dest!: view_decode_object)

lemma view_read_slot:
  assumes "read_directory_slot env i slot d = (r, d')"
  shows "view d d'"
proof -
  obtain r1 d1 where 1: "decode_object env i d = (r1, d1)" by (metis surj_pair)
  note v1 = view_decode_object [OF 1]
  show ?thesis
  proof (cases r1)
    case None
    then show ?thesis using assms 1 v1 by (simp add: read_directory_slot_def)
  next
    case (Some o1)
    then show ?thesis using assms 1
      by (auto simp: read_directory_slot_def split: option.splits prod.splits if_splits dest!: view_object_read view_validate_record
          intro: v1 v1 [THEN view_trans] view_trans [OF v1 view_trans])
  qed
qed

lemma view_find_name_in: "find_name_in env i name slots d = (r, d') \<Longrightarrow> view d d'"
  by (induction slots arbitrary: d) (auto split: sum.splits option.splits prod.splits if_splits dest!: view_read_slot intro: view_trans)

lemma view_find_name: "find_directory_name env i name d = (r, d') \<Longrightarrow> view d d'"
  by (auto simp: find_directory_name_def split: option.splits prod.splits if_splits dest!: view_decode_object view_find_name_in intro: view_trans)

lemma view_find_hole_in: "find_hole_in env i n slots d = (r, d') \<Longrightarrow> view d d'"
  by (induction slots arbitrary: d) (auto split: sum.splits option.splits prod.splits dest!: view_read_slot intro: view_trans)

lemma view_find_hole: "find_directory_hole env i object d = (r, d') \<Longrightarrow> view d d'"
  by (auto simp: find_directory_hole_def split: if_splits dest: view_find_hole_in)

lemma view_all_slots_free: "all_slots_free env i slots d = (r, d') \<Longrightarrow> view d d'"
  by (induction slots arbitrary: d) (auto split: sum.splits option.splits prod.splits dest!: view_read_slot intro: view_trans)

lemma view_directory_is_empty: "directory_is_empty env i object d = (r, d') \<Longrightarrow> view d d'"
  by (auto simp: directory_is_empty_def split: if_splits dest: view_all_slots_free)

lemma view_extend_directory: "extend_directory env object d = (r, d') \<Longrightarrow> view d d'"
  by (auto simp: extend_directory_def Let_def split: option.splits prod.splits if_splits dest!: view_find_free_block)

lemma view_visible_entry: "visible_entry env i index n slots d = (r, d') \<Longrightarrow> view d d'"
  by (induction slots arbitrary: d n) (auto split: sum.splits option.splits prod.splits if_splits dest!: view_read_slot intro: view_trans)

lemmas steps_of_views = view_source_read view_decode_object view_bitmap_get view_find_free_block view_find_free_object view_object_read
  view_find_name view_find_hole view_directory_is_empty view_extend_directory

section \<open>Changing\<close>

lemma step_store:
  assumes r: "store_cached_block env k (b', m) = (ok, d')" and same: "same_volume b b'" "length (bfs_block_cache b') = 4096"
  shows "step (b, m) d'"
proof -
  have "coherent device content d' \<and> same_volume b (fst d') \<and> (bfs_read_only b \<longrightarrow> content (snd d') = content m)"
    if "tracked device content torn (b, m)"
  proof -
    have f: "bfs_device b' = device" "bfs_read_only b' = bfs_read_only b"
      using that same(1) by (simp_all add: tracked_def attached_def same_volume_fields)
    then have "attached device (b', m)" using same by (simp add: attached_def)
    note st = store_coherent [OF this r]
    have "content (snd d') = content m" if "bfs_read_only b" using r that f(2) by (auto simp: store_cached_block_def)
    then show ?thesis using st same(1) by (auto intro: same_volume_trans)
  qed
  then show ?thesis by (simp add: bfs_step_def coherent_tracked)
qed

lemma step_source_write_from: "source_write_from env current remaining source d = (ok, d') \<Longrightarrow> step d d'"
proof (induction "unat remaining" arbitrary: current remaining source d rule: less_induct)
  case less
  show ?case
  proof (cases "remaining = 0 \<or> current div 4096 > ucast UINT32_MAX \<or> current div 4096 \<ge> ucast (sb_total_blocks (bfs_superblock (fst d))) \<or> \<not> tracked device content torn d")
    case True
    then show ?thesis using less.prems by (subst (asm) source_write_from.simps) (auto simp: Let_def bfs_step_def split: if_splits)
  next
    case False
    define chunk where "chunk = block_chunk current remaining"
    define now where "now = take (unat chunk) source"
    obtain ok1 b1 m1 where c: "cache_block env (ucast (current div 4096)) d = (ok1, b1, m1)" by (metis prod.exhaust)
    define b2 where "b2 = b1\<lparr>bfs_block_cache := splice (bfs_block_cache b1) (unat (current mod 4096)) now\<rparr>"
    obtain ok2 d2 where w: "store_cached_block env (ucast (current div 4096)) (b2, m1) = (ok2, d2)" by (metis surj_pair)
    have s1: "step d (b1, m1)" using view_cache_block [OF c] by (rule view_step)
    have len: "length (bfs_block_cache b1) = 4096" using s1 False by (simp add: bfs_step_def tracked_def attached_def)
    have "unat (current mod 4096) + length now \<le> 4096"
      using block_chunk_bounds(3) [of current remaining] by (simp add: now_def chunk_def)
    then have "same_volume b1 b2" "length (bfs_block_cache b2) = 4096" using len by (simp_all add: b2_def same_volume_def)
    from step_store [OF w this] have s2: "step (b1, m1) d2" .
    show ?thesis
    proof (cases "ok1 \<and> ok2")
      case no: False
      then have "d' = (b1, m1) \<or> d' = d2" using less.prems False c w
        by (subst (asm) source_write_from.simps) (auto simp: Let_def chunk_def [symmetric] now_def [symmetric] b2_def [symmetric] split: if_splits)
      then show ?thesis using s1 s2 by (auto intro: step_trans)
    next
      case True
      then have t: "source_write_from env (current + chunk) (remaining - chunk) (drop (unat chunk) source) d2 = (ok, d')" using less.prems False c w
        by (subst (asm) source_write_from.simps) (auto simp: Let_def chunk_def [symmetric] now_def [symmetric] b2_def [symmetric] split: if_splits)
      have "unat (remaining - chunk) < unat remaining" using block_chunk_decreases [of remaining current] False by (simp add: chunk_def)
      from less.hyps [OF this t] s1 s2 show ?thesis by (blast intro: step_trans)
    qed
  qed
qed

lemma step_source_write: "boringfs_source_write env offset source d = (ok, d') \<Longrightarrow> step d d'"
  by (auto simp: boringfs_source_write_def Let_def split: if_splits dest: step_source_write_from)

lemma step_write_zeroed: 
  assumes r: "write_zeroed_block env k prefix d = (ok, d')"
  shows "step d d'"
proof (cases "tracked device content torn d")
  case True
  obtain b m where d: "d = (b, m)" by force
  have len: "length (bfs_block_cache b) = 4096" using True by (simp add: d tracked_def attached_def)
  show ?thesis
  proof (cases "k < sb_data_start (bfs_superblock b) \<or> k \<ge> sb_total_blocks (bfs_superblock b) \<or> length prefix > 4096")
    case True
    then show ?thesis using r by (auto simp: write_zeroed_block_def d)
  next
    case False
    define b' where "b' = b\<lparr>bfs_block_cache := splice (zero_bytes (bfs_block_cache b) 4096) 0 prefix\<rparr>"
    have "store_cached_block env k (b', m) = (ok, d')" using r False by (simp add: write_zeroed_block_def d b'_def)
    moreover have "same_volume b b'" by (simp add: b'_def same_volume_def)
    moreover have "length (bfs_block_cache b') = 4096" using False len by (simp add: b'_def zero_bytes_def)
    ultimately show ?thesis unfolding d by (rule step_store)
  qed
qed (simp add: bfs_step_def)

lemma step_write_object_raw: "write_object_raw env i raw d = (ok, d') \<Longrightarrow> step d d'"
  by (auto simp: write_object_raw_def split: option.splits dest: step_source_write)

lemma step_write_object: "write_object env object d = (ok, d') \<Longrightarrow> step d d'"
  by (auto simp: write_object_def split: prod.splits if_splits dest: step_write_object_raw simp del: replicate.simps)

lemma step_clear_object: "clear_object env i d = (ok, d') \<Longrightarrow> step d d'"
  by (auto simp: clear_object_def dest: step_write_object_raw simp del: replicate.simps)

lemma step_bitmap_set: "bitmap_set env k allocated d = (ok, d') \<Longrightarrow> step d d'"
  by (auto simp: bitmap_set_def split: option.splits prod.splits if_splits dest!: step_source_write view_source_read [THEN view_step] intro: step_trans)

lemma step_object_write_extents: "object_write_extents env es offset source d = (ok, d') \<Longrightarrow> step d d'"
proof (induction es arbitrary: offset source d)
  case (Cons e es)
  show ?case using Cons.prems
    by (auto simp: Let_def split: option.splits prod.splits if_splits dest!: step_source_write Cons.IH intro: step_trans)
qed (auto split: if_splits)

lemma step_object_write: "object_write_exact env object offset source d = (ok, d') \<Longrightarrow> step d d'"
  by (auto simp: object_write_exact_def split: if_splits dest: step_object_write_extents)

lemma step_retake: "step d (retake_blocks env ks d)"
proof (induction ks arbitrary: d)
  case (Cons k ks)
  show ?case unfolding retake_blocks.simps by (rule step_trans [OF step_bitmap_set [OF surjective_pairing] Cons.IH])
qed simp

lemma step_release_blocks: "release_blocks env released ks d = (ok, d') \<Longrightarrow> step d d'"
  by (induction ks arbitrary: d released) (auto split: prod.splits if_splits dest!: step_bitmap_set intro: step_trans step_retake)

lemma step_release_object: "release_object_blocks env object d = (ok, d') \<Longrightarrow> step d d'"
  by (auto simp: release_object_blocks_def split: if_splits dest: step_release_blocks)

lemma step_unreserve: "step d (unreserve env reserved d)"
  by (cases reserved) (auto simp: unreserve_def intro: step_bitmap_set [OF surjective_pairing])

lemmas steps = step_write_zeroed step_write_object_raw step_write_object step_clear_object step_bitmap_set step_object_write step_release_object
  steps_of_views [THEN view_step]

lemma step_reserve_block: "reserve_block env directory d = (r, d') \<Longrightarrow> step d d'"
  by (auto simp: reserve_block_def split: sum.splits prod.splits if_splits dest!: steps intro: step_trans)

lemma step_commit_object:
  assumes "commit_object env i type directory_id name staged offset appends reserved d = (ok, d')"
  shows "step d d'"
proof -
  obtain ok0 raw where 0: "boringfs_encode_directory_record (Some (replicate 256 0)) (Some (new_directory_record i type name)) = (ok0, raw)"
    by (metis surj_pair)
  obtain ok1 d1 where 1: "write_object env (new_object i type directory_id) d = (ok1, d1)" by (metis surj_pair)
  obtain ok2 d2 where 2: "object_write_exact env staged offset (the raw) d1 = (ok2, d2)" by (metis surj_pair)
  obtain ok3 d3 where 3: "write_object env staged d2 = (ok3, d3)" by (metis surj_pair)
  note s1 = step_write_object [OF 1]
  note s2 = step_trans [OF s1 step_object_write [OF 2]]
  note s3 = step_trans [OF s2 step_write_object [OF 3]]
  let ?u2 = "unreserve env reserved (snd (clear_object env i d2))"
  let ?u3 = "unreserve env reserved (snd (clear_object env i (snd (object_write_exact env staged offset (replicate 256 0) d3))))"
  have u2: "step d ?u2"
    by (rule step_trans [OF step_trans [OF s2 step_clear_object [OF surjective_pairing]] step_unreserve])
  have u3: "step d ?u3"
    by (rule step_trans [OF step_trans [OF step_trans [OF s3 step_object_write [OF surjective_pairing]] step_clear_object [OF surjective_pairing]] step_unreserve])
  have "d' \<in> {unreserve env reserved d, unreserve env reserved d1, ?u2, d2, ?u3, d3}"
    using assms unfolding commit_object_def 0 prod.case 1 2 3 by (simp split: if_splits)
  then show ?thesis using step_unreserve [of d] step_trans [OF s1 step_unreserve] u2 s2 u3 s3 by blast
qed

text \<open>The rules that follow a handler through its branches.\<close>

lemma step_pair: "step d e \<Longrightarrow> step d (snd (r, e))"
  by simp

lemma step_case_disk: "step d (snd x) \<Longrightarrow> (\<And>r e. step d e \<Longrightarrow> step d (snd (g r e))) \<Longrightarrow> step d (snd (case x of (r, e) \<Rightarrow> g r e))"
  by (cases x) simp

lemma step_case_pair: "(\<And>a b. step d (snd (g a b))) \<Longrightarrow> step d (snd (case y of (a, b) \<Rightarrow> g a b))"
  by (cases y) simp

lemma step_case_option: "step d (snd f) \<Longrightarrow> (\<And>x. step d (snd (g x))) \<Longrightarrow> step d (snd (case y of None \<Rightarrow> f | Some x \<Rightarrow> g x))"
  by (cases y) simp_all

lemma step_case_sum: "(\<And>x. step d (snd (f x))) \<Longrightarrow> (\<And>x. step d (snd (g x))) \<Longrightarrow> step d (snd (case y of Inl x \<Rightarrow> f x | Inr x \<Rightarrow> g x))"
  by (cases y) simp_all

lemma step_if: "step d (snd f) \<Longrightarrow> step d (snd g) \<Longrightarrow> step d (snd (if c then f else g))"
  by simp

lemmas steps_then = steps [OF surjective_pairing, THEN step_trans [rotated]] step_reserve_block [OF surjective_pairing, THEN step_trans [rotated]]
  step_commit_object [OF surjective_pairing, THEN step_trans [rotated]]

lemmas walk = step_refl step_pair step_if step_case_option step_case_sum step_case_disk step_case_pair steps_then

lemma step_create_object: "step d (snd (create_object env i name type d))"
  unfolding create_object_def by (intro walk; assumption)

lemma step_remove_object: "step d (snd (remove_object env i slot raw object_id d))"
  unfolding remove_object_def by (intro walk; assumption)

lemma step_write_object_data: "step d (snd (write_object_data env i bytes d))"
  unfolding write_object_data_def by (intro walk; assumption)

lemma step_truncate_object: "step d (snd (truncate_object env i n d))"
  unfolding truncate_object_def by (intro walk; assumption)

end

section \<open>Operations\<close>

text \<open>A call of the operations table of the volume \<open>B\<close>, and the state it leaves.\<close>

datatype bfs_call = Call_lookup node_ref "u8 list" | Call_create node_ref "u8 list" | Call_mkdir node_ref "u8 list"
  | Call_unlink node_ref "u8 list" | Call_rmdir node_ref "u8 list" | Call_rename node_ref "u8 list" node_ref "u8 list"
  | Call_read node_ref u64 u64 | Call_write node_ref u64 "u8 list" | Call_truncate node_ref u64 | Call_readdir node_ref u64 vfs_dirent

fun bfs_do :: "'m bfs_env \<Rightarrow> u64 \<Rightarrow> bfs_call \<Rightarrow> 'm bfs_world \<Rightarrow> 'm bfs_world" where
  "bfs_do env B (Call_lookup node name) s = snd (boringfs_lookup env B node name s)"
| "bfs_do env B (Call_create node name) s = snd (boringfs_create env B node name s)"
| "bfs_do env B (Call_mkdir node name) s = snd (boringfs_mkdir env B node name s)"
| "bfs_do env B (Call_unlink node name) s = snd (boringfs_unlink env B node name s)"
| "bfs_do env B (Call_rmdir node name) s = snd (boringfs_rmdir env B node name s)"
| "bfs_do env B (Call_rename node name node' name') s = snd (boringfs_rename env B node name node' name' s)"
| "bfs_do env B (Call_read node offset len) s = snd (boringfs_read env B node offset len s)"
| "bfs_do env B (Call_write node offset bytes) s = snd (boringfs_write env B node offset bytes s)"
| "bfs_do env B (Call_truncate node n) s = snd (boringfs_truncate env B node n s)"
| "bfs_do env B (Call_readdir node index entry) s = snd (boringfs_readdir env B node index entry s)"

text \<open>What no call changes: the mount but for its cache and its nodes.\<close>

definition same_mount :: "boringfs_vfs \<Rightarrow> boringfs_vfs \<Rightarrow> bool" where
  "same_mount b b' \<longleftrightarrow> same_volume (b\<lparr>bfs_prepared := []\<rparr>) (b'\<lparr>bfs_prepared := []\<rparr>)"

definition world_step :: "u64 \<Rightarrow> ('m \<Rightarrow> nat \<Rightarrow> u8 list) \<Rightarrow> ('m \<Rightarrow> bool) \<Rightarrow> u64 \<Rightarrow> 'm bfs_world \<Rightarrow> 'm bfs_world \<Rightarrow> bool" where
  "world_step device content torn B s s' \<longleftrightarrow> (tracked device content torn (disk_of B s) \<longrightarrow>
     tracked device content torn (disk_of B s') \<and>
     same_mount (bfs_at (backend s) B) (bfs_at (backend s') B) \<and>
     (bfs_read_only (bfs_at (backend s) B) \<longrightarrow> content (bfs_machine (backend s')) = content (bfs_machine (backend s))))"

lemma same_mount_refl [simp]: "same_mount b b"
  by (simp add: same_mount_def)

lemma same_mount_trans: "same_mount a b \<Longrightarrow> same_mount b c \<Longrightarrow> same_mount a c"
  by (auto simp: same_mount_def intro: same_volume_trans)

lemma same_mount_fields: "same_mount b b' \<Longrightarrow> bfs_read_only b' = bfs_read_only b \<and> bfs_superblock b' = bfs_superblock b \<and>
    bfs_source_size b' = bfs_source_size b \<and> bfs_device b' = bfs_device b"
  unfolding same_mount_def by (drule same_volume_fields) simp

lemma same_volume_mount: "same_volume b b' \<Longrightarrow> same_mount b b'"
  by (cases b; cases b') (simp add: same_mount_def same_volume_def)

lemma world_refl: "world_step device content torn B s s"
  by (simp add: world_step_def)

lemma world_trans: "world_step device content torn B s t \<Longrightarrow> world_step device content torn B t u \<Longrightarrow> world_step device content torn B s u"
  by (auto simp: world_step_def same_mount_fields intro: same_mount_trans)

lemma world_put_bfs: "world_step device content torn B s (put_bfs B ((bfs_at (backend s) B)\<lparr>bfs_prepared := p\<rparr>) s)"
  by (auto simp: world_step_def put_bfs_def disk_of_def tracked_def attached_def coherent_def same_mount_def)

lemma world_put_node: "world_step device content torn B s (put_node n v s)"
  by (simp add: world_step_def put_node_def disk_of_def)

lemma world_node_prepare: "world_step device content torn B s (snd (vfs_node_prepare node filesystem ident type parent context s))"
  by (auto simp: vfs_node_prepare_def world_put_node world_refl)

context logged_volume
begin

abbreviation world :: "u64 \<Rightarrow> 'm bfs_world \<Rightarrow> 'm bfs_world \<Rightarrow> bool" where "world \<equiv> world_step device content torn"

lemma world_on_disk:
  assumes "world B s e" and "\<And>d. step d (snd (f d))"
  shows "world B s (snd (on_disk B f e))"
proof -
  obtain r d where d: "f (disk_of B e) = (r, d)" by (metis surj_pair)
  have "step (disk_of B e) d" using assms(2) [of "disk_of B e"] d by simp
  then have "world B e (with_disk B d e)"
    by (auto simp: world_step_def bfs_step_def disk_of_def same_volume_mount) (simp_all add: with_disk_def)
  then show ?thesis using assms(1) on_disk_run [of f, OF d] by (auto intro: world_trans)
qed

lemma world_pair: "world B s e \<Longrightarrow> world B s (snd (r, e))"
  by simp

lemma world_case: "world B s (snd x) \<Longrightarrow> (\<And>r e. world B s e \<Longrightarrow> world B s (snd (g r e))) \<Longrightarrow> world B s (snd (case x of (r, e) \<Rightarrow> g r e))"
  by (cases x) simp

lemma world_case_pair: "(\<And>a b. world B s (snd (g a b))) \<Longrightarrow> world B s (snd (case y of (a, b) \<Rightarrow> g a b))"
  by (cases y) simp

lemma world_case_option: "world B s (snd f) \<Longrightarrow> (\<And>x. world B s (snd (g x))) \<Longrightarrow> world B s (snd (case y of None \<Rightarrow> f | Some x \<Rightarrow> g x))"
  by (cases y) simp_all

lemma world_case_sum: "(\<And>x. world B s (snd (f x))) \<Longrightarrow> (\<And>x. world B s (snd (g x))) \<Longrightarrow> world B s (snd (case y of Inl x \<Rightarrow> f x | Inr x \<Rightarrow> g x))"
  by (cases y) simp_all

lemma world_if: "world B s (snd f) \<Longrightarrow> world B s (snd g) \<Longrightarrow> world B s (snd (if c then f else g))"
  by simp

lemma world_context: "world B s (snd f) \<Longrightarrow> world B s (snd (g B)) \<Longrightarrow> world B s (snd (case context_from_filesystem env B t of None \<Rightarrow> f | Some B \<Rightarrow> g B))"
  by (auto simp: context_from_filesystem_def Let_def split: option.split)

lemma world_mutation: "(\<And>x. world B s (snd (f x))) \<Longrightarrow> world B s (snd (g B)) \<Longrightarrow> world B s (snd (case mutation_context env B t of Inl x \<Rightarrow> f x | Inr B \<Rightarrow> g B))"
  by (auto simp: mutation_context_def context_from_filesystem_def Let_def split: option.split)

lemma world_mutation_directory: "(\<And>x. world B s (snd (f x))) \<Longrightarrow> (\<And>i. world B s (snd (g B i))) \<Longrightarrow>
    world B s (snd (case mutation_directory env B node name t of Inl x \<Rightarrow> f x | Inr y \<Rightarrow> (case y of (B, i) \<Rightarrow> g B i)))"
  by (auto simp: mutation_directory_def mutation_context_def context_from_filesystem_def Let_def split: option.split)

lemma world_then_put: "world B s e \<Longrightarrow> world B s (put_bfs B ((bfs_at (backend e) B)\<lparr>bfs_prepared := p\<rparr>) e)"
  using world_put_bfs by (rule world_trans [rotated])

lemma world_then_put_node: "world B s e \<Longrightarrow> world B s (put_bfs B ((bfs_at (backend e) B)\<lparr>bfs_prepared := p\<rparr>) (put_node n v e))"
  using world_put_bfs [of device content torn B "put_node n v e"] world_put_node [of device content torn B e n v]
  by (auto simp: put_node_def intro: world_trans)

lemma world_then_prepare: "world B s e \<Longrightarrow> world B s (snd (vfs_node_prepare node filesystem ident type parent context e))"
  using world_node_prepare by (rule world_trans [rotated])

lemma step_of: "(\<And>d r d'. f d = (r, d') \<Longrightarrow> step d d') \<Longrightarrow> step d (snd (f d))"
  by (metis surjective_pairing)

lemmas disk_steps = step_create_object step_remove_object step_write_object_data step_truncate_object
  steps [THEN step_of] view_find_name_in [THEN view_step, THEN step_of] view_visible_entry [THEN view_step, THEN step_of]

lemmas stroll = world_context world_mutation world_mutation_directory world_pair world_if world_case_option world_case_sum world_case
  world_case_pair world_then_put world_then_put_node world_then_prepare world_on_disk disk_steps

lemma world_prepare_node: "world B s e \<Longrightarrow> world B s (snd (prepare_node env B i parent e))"
  unfolding prepare_node_def Let_def by (intro stroll; assumption)

lemma world_call: "world B s (bfs_do env B call s)"
proof (cases call)
  case (Call_lookup node name)
  show ?thesis unfolding Call_lookup bfs_do.simps boringfs_lookup_def Let_def by (intro stroll world_prepare_node; (assumption | rule world_refl))
next
  case (Call_create node name)
  show ?thesis unfolding Call_create bfs_do.simps boringfs_create_def boringfs_create_common_def Let_def
    by (intro stroll world_prepare_node; (assumption | rule world_refl))
next
  case (Call_mkdir node name)
  show ?thesis unfolding Call_mkdir bfs_do.simps boringfs_mkdir_def boringfs_create_common_def Let_def
    by (intro stroll world_prepare_node; (assumption | rule world_refl))
next
  case (Call_unlink node name)
  show ?thesis unfolding Call_unlink bfs_do.simps boringfs_unlink_def boringfs_remove_common_def Let_def
    by (intro stroll; (assumption | rule world_refl))
next
  case (Call_rmdir node name)
  show ?thesis unfolding Call_rmdir bfs_do.simps boringfs_rmdir_def boringfs_remove_common_def Let_def
    by (intro stroll; (assumption | rule world_refl))
next
  case (Call_rename node name node' name')
  show ?thesis unfolding Call_rename bfs_do.simps boringfs_rename_def by (intro stroll; rule world_refl)
next
  case (Call_read node offset len)
  show ?thesis unfolding Call_read bfs_do.simps boringfs_read_def Let_def by (intro stroll; (assumption | rule world_refl))
next
  case (Call_write node offset bytes)
  show ?thesis unfolding Call_write bfs_do.simps boringfs_write_def by (intro stroll; (assumption | rule world_refl))
next
  case (Call_truncate node n)
  show ?thesis unfolding Call_truncate bfs_do.simps boringfs_truncate_def by (intro stroll; (assumption | rule world_refl))
next
  case (Call_readdir node index entry)
  show ?thesis unfolding Call_readdir bfs_do.simps boringfs_readdir_def Let_def by (intro stroll; (assumption | rule world_refl))
qed

lemma world_run: "world B s (fold (bfs_do env B) calls s)"
proof (induction calls arbitrary: s)
  case (Cons call calls)
  show ?case using world_trans [OF world_call Cons.IH] by simp
qed (simp add: world_refl)

end

end
