(* ===== verification/BfsProps.thy ===== *)
theory BfsProps
  imports BfsRuns
begin

text \<open>
  The properties of mounted BoringFS volumes, and the sample volume of six blocks mounted on the
  slice of the memory disk.
\<close>

section \<open>The sample volume on the memory disk\<close>

definition sample_disk :: block_test_memory where
  "sample_disk = (\<lambda>_. \<lparr>bt_storage = (\<lambda>a. if 4096 \<le> a \<and> a < 28672 then sample_byte (a - 4096) else 0),
     bt_read_calls = 0, bt_write_calls = 0, bt_fail_read = False, bt_fail_write = False\<rparr>)"

definition sample_mount :: boringfs_vfs where
  "sample_mount = \<lparr>bfs_device = 32, bfs_read_only = False, bfs_superblock = sample_sb, bfs_source_size = 24576, bfs_nodes = 200,
     bfs_prepared = replicate 64 True, bfs_node_count = 64, bfs_block_cache = replicate 4096 0, bfs_cached_block = 0,
     bfs_cache_valid = False\<rparr>"

abbreviation test_bfs :: "block_test_memory bfs_env" where
  "test_bfs \<equiv> bfs_over test_env test_reg 96"

abbreviation test_content :: "block_test_memory \<Rightarrow> nat \<Rightarrow> u8 list" where
  "test_content \<equiv> fs_block test_sectors 8"

definition sample_world :: "block_test_memory bfs_world" where
  "sample_world = \<lparr>
     filesystem_at = (\<lambda>_. \<lparr>fs_id = 1, fs_operations = 96, fs_root = Some (200, 0), fs_backend = 7, fs_valid = True\<rparr>),
     node_at = (\<lambda>n. \<lparr>node_id = word_of_nat (snd n + 1), node_type = (if snd n = 0 then NODE_DIRECTORY else NODE_REGULAR),
       node_filesystem = 7, node_parent = Some (200, 0), node_backend = Some n, node_references = 1, node_valid = True\<rparr>),
     vfs_mounts = [], vfs_initialized = True, vfs_next_mount_id = 1, vfs_path_reference_count = 0, vfs_open_handle_count = 0,
     backend = \<lparr>bfs_at = (\<lambda>_. sample_mount), bfs_machine = sample_disk\<rparr>\<rparr>"

lemma sample_disk_of: "disk_of 7 sample_world = (sample_mount, sample_disk)"
  by (simp add: disk_of_def sample_world_def)

lemma sample_blocks: "volume_blocks sample_mount = 6" "bfs_superblock sample_mount = sample_sb"
  by (simp_all add: volume_blocks_def sample_mount_def)

lemma sample_ready: "bfs_ready 32 test_content 7 test_healthy (sample_mount, sample_disk)"
proof -
  have "layout_ok sample_sb" by (simp add: layout_ok_def sample_sb_def)
  then show ?thesis
    by (simp add: bfs_ready_def coherent_def sample_blocks) (simp add: sample_mount_def test_healthy_def sample_disk_def)
qed

lemma sample_bytes: "disk_bytes test_content (sample_mount, sample_disk) = sample_volume"
proof (rule nth_equalityI)
  have block: "test_content sample_disk j = map (bt_storage (sample_disk 1)) [4096 * (j + 1)..<4096 * (j + 2)]" for j
    by (simp add: fs_block_def test_sector_run algebra_simps)
  have len: "length (test_content sample_disk j) = 4096" for j by (simp add: block)
  show "length (disk_bytes test_content (sample_mount, sample_disk)) = length sample_volume"
    using len by (simp add: disk_bytes_def sample_blocks sample_volume_def)
  fix a assume "a < length (disk_bytes test_content (sample_mount, sample_disk))"
  then have a: "a < 4096 * 6" using len by (simp add: disk_bytes_def sample_blocks)
  have m: "a mod 4096 < 4096" by simp
  have "disk_bytes test_content (sample_mount, sample_disk) ! a = test_content sample_disk (a div 4096) ! (a mod 4096)"
    using a len by (simp add: disk_bytes_def sample_blocks nth_volume_bytes)
  also have "\<dots> = bt_storage (sample_disk 1) (4096 * (a div 4096 + 1) + a mod 4096)"
    unfolding block using m by (simp add: nth_append)
  also have "4096 * (a div 4096 + 1) + a mod 4096 = a + 4096" by simp
  also have "bt_storage (sample_disk 1) (a + 4096) = sample_volume ! a"
    using a by (simp add: sample_disk_def sample_volume_def)
  finally show "disk_bytes test_content (sample_mount, sample_disk) ! a = sample_volume ! a" .
qed

lemma sample_file_raw: "raw_object sample_sb sample_volume 2 = sample_file"
  unfolding raw_object_def
proof (rule nth_equalityI)
  have o: "record_offset sample_sb 2 = 8320" by (simp add: record_offset_def sample_sb_def)
  have v: "length sample_volume = 24576" by (simp add: sample_volume_def)
  show "length (sub_buffer sample_volume (record_offset sample_sb 2) 128) = length sample_file"
    by (simp add: o v length_sub_buffer length_sample)
  fix n assume "n < length (sub_buffer sample_volume (record_offset sample_sb 2) 128)"
  then have n: "n < 128" by (simp add: o v length_sub_buffer)
  then show "sub_buffer sample_volume (record_offset sample_sb 2) 128 ! n = sample_file ! n"
    by (simp add: o v nth_sub_buffer) (simp add: sample_volume_def sample_byte_def)
qed

lemma sample_live: "live_file sample_sb sample_volume 2 sample_file_object"
proof -
  have "stored_object sample_sb sample_volume 2 = Some sample_file_object"
    by (simp add: stored_object_def sample_file_raw sample_objects)
  moreover have v: "length sample_volume = 24576" by (simp add: sample_volume_def)
  ultimately show ?thesis
    by (simp add: live_file_def extents_in_volume_def extent_in_volume_def object_data_def extent_data_def sample_file_object_def
        sample_extents_def sample_sb_def length_sub_buffer)
qed

lemma sample_node: "bfs_file test_bfs 7 (Some (200, 1)) 2 sample_world"
  by (simp add: bfs_file_def context_from_filesystem_def node_object_id_def sample_world_def sample_mount_def bfs_over_def Let_def)

section \<open>Files\<close>

text \<open>
  Truncating a file of a writable volume to nothing on a device that works succeeds: the
  record says so, exactly the blocks of the file are marked free, every byte from the object
  table on is as before but for the record, other files whose blocks are in use keep their
  records and bytes, and the file then reads as empty.
\<close>

theorem bfs_truncate_exact:
  fixes s :: "'m bfs_world" and B :: u64 and content :: "'m \<Rightarrow> nat \<Rightarrow> u8 list"
  defines "sb \<equiv> bfs_superblock (bfs_at (backend s) B)" and "old \<equiv> disk_bytes content (disk_of B s)"
  assumes "healthy_volume env device content blocks healthy" and "bfs_ready device content blocks healthy (disk_of B s)"
    and "\<not> bfs_read_only (bfs_at (backend s) B)" and "bfs_file env B node i s"
    and "live_file sb old i object" and "obj_size_bytes object \<noteq> 0"
  shows "\<exists>s'. boringfs_truncate env B node 0 s = (VFS_OK, s') \<and> bfs_ready device content blocks healthy (disk_of B s') \<and>
    file_emptied sb i object old (disk_bytes content (disk_of B s')) \<and> others_kept sb i old (disk_bytes content (disk_of B s')) \<and>
    (\<forall>offset len. fst (boringfs_read env B node offset len s') = (VFS_OK, [], 0))"
proof -
  have b: "bfs_at (backend s) B = fst (disk_of B s)" by (simp add: disk_of_def)
  let ?sb = "bfs_superblock (fst (disk_of B s))"
  have ro: "\<not> bfs_read_only (fst (disk_of B s))" and live: "live_file ?sb (disk_bytes content (disk_of B s)) i object"
    using assms(5,7) by (simp_all add: sb_def old_def b)
  have l: "layout_ok ?sb" using assms(4) by (simp add: bfs_ready_def)
  from healthy_volume.boringfs_truncate_ready [OF assms(3) assms(6,4) ro live assms(8)] obtain d' where
    d': "boringfs_truncate env B node 0 s = (VFS_OK, with_disk B d' s)" "bfs_ready device content blocks healthy d'"
      "same_volume (fst (disk_of B s)) (fst d')" "file_emptied ?sb i object (disk_bytes content (disk_of B s)) (disk_bytes content d')" .
  have i: "1 \<le> i" "i \<le> sb_object_count ?sb" using live by (simp_all add: live_file_def)
  have others: "others_kept ?sb i (disk_bytes content (disk_of B s)) (disk_bytes content d')"
    using emptied_others [OF l d'(4) i healthy_volume.ready_length [OF assms(3,4)]] .
  have f': "bfs_file env B node i (with_disk B d' s)" using assms(6) d'(3) by (simp add: same_file)
  have sb': "bfs_superblock (fst d') = ?sb" using d'(3) by (simp add: same_volume_fields)
  note e = emptied_live [OF d'(4) live]
  have "fst (boringfs_read env B node offset len (with_disk B d' s)) = (VFS_OK, [], 0)" for offset len
    by (rule healthy_volume.boringfs_read_ready [OF assms(3) f', of "empty_file_object object" offset len])
      (use d'(2) e sb' in simp_all)
  with d' others show ?thesis
    by (intro exI [of _ "with_disk B d' s"]) (simp add: sb_def old_def b)
qed

theorem bfs_truncate_exact_witness:
  "\<exists>s'. boringfs_truncate test_bfs 7 (Some (200, 1)) 0 sample_world = (VFS_OK, s') \<and>
    fst (boringfs_read test_bfs 7 (Some (200, 1)) 0 5 s') = (VFS_OK, [], 0)"
proof -
  have b: "bfs_at (backend sample_world) 7 = sample_mount" by (simp add: sample_world_def)
  have h: "\<not> bfs_read_only (bfs_at (backend sample_world) 7)" "obj_size_bytes sample_file_object \<noteq> 0"
    by (simp_all add: b sample_mount_def sample_file_object_def)
  have "live_file (bfs_superblock (bfs_at (backend sample_world) 7)) (disk_bytes test_content (disk_of 7 sample_world)) 2 sample_file_object"
    by (simp add: b sample_disk_of sample_bytes sample_blocks sample_live)
  from bfs_truncate_exact [OF testblk0.healthy_volume_axioms sample_ready [folded sample_disk_of] h(1) sample_node this h(2)]
  show ?thesis by blast
qed

text \<open>
  C32: A write of at most a block to an empty file of a writable volume with a free block, on a
  device that works, succeeds: the first free block holds the bytes, then zeros, it is the one
  block that is newly marked used, the record of the file names it and the new size, no other
  byte of the volume is changed, and other files whose blocks are in use keep their records and
  bytes. Every read of the file then gives the bytes written from its offset on.
\<close>

theorem bfs_write_reads_back:
  fixes s :: "'m bfs_world" and B :: u64 and content :: "'m \<Rightarrow> nat \<Rightarrow> u8 list"
  defines "sb \<equiv> bfs_superblock (bfs_at (backend s) B)" and "old \<equiv> disk_bytes content (disk_of B s)"
  assumes "healthy_volume env device content blocks healthy" and "bfs_ready device content blocks healthy (disk_of B s)"
    and "\<not> bfs_read_only (bfs_at (backend s) B)" and "bfs_file env B node i s"
    and "live_file sb old i object" and "obj_size_bytes object = 0" and "obj_extent_count object = 0"
    and "first_free sb old = Some k" and "bytes \<noteq> []" and "length bytes \<le> 4096"
  shows "\<exists>s'. boringfs_write env B node 0 bytes s = ((VFS_OK, word_of_nat (length bytes)), s') \<and>
    bfs_ready device content blocks healthy (disk_of B s') \<and>
    file_written sb i object k bytes old (disk_bytes content (disk_of B s')) \<and> others_kept sb i old (disk_bytes content (disk_of B s')) \<and>
    (\<forall>offset len. fst (boringfs_read env B node offset len s') = (VFS_OK, take (unat len) (drop (unat offset) bytes),
       word_of_nat (length (take (unat len) (drop (unat offset) bytes)))))"
proof -
  have b: "bfs_at (backend s) B = fst (disk_of B s)" by (simp add: disk_of_def)
  let ?sb = "bfs_superblock (fst (disk_of B s))"
  have ro: "\<not> bfs_read_only (fst (disk_of B s))" and live: "live_file ?sb (disk_bytes content (disk_of B s)) i object"
    and k: "first_free ?sb (disk_bytes content (disk_of B s)) = Some k"
    using assms(5,7,10) by (simp_all add: sb_def old_def b)
  have l: "layout_ok ?sb" using assms(4) by (simp add: bfs_ready_def)
  from healthy_volume.boringfs_write_ready [OF assms(3) assms(6,4) ro live assms(8,9) k assms(11,12)] obtain d' where
    d': "boringfs_write env B node 0 bytes s = ((VFS_OK, word_of_nat (length bytes)), with_disk B d' s)"
      "bfs_ready device content blocks healthy d'" "same_volume (fst (disk_of B s)) (fst d')"
      "file_written ?sb i object k bytes (disk_bytes content (disk_of B s)) (disk_bytes content d')" .
  have i: "1 \<le> i" "i \<le> sb_object_count ?sb" using live by (simp_all add: live_file_def)
  have others: "others_kept ?sb i (disk_bytes content (disk_of B s)) (disk_bytes content d')"
    using written_others [OF l d'(4) i healthy_volume.ready_length [OF assms(3,4)] k] .
  have f': "bfs_file env B node i (with_disk B d' s)" using assms(6) d'(3) by (simp add: same_file)
  have sb': "bfs_superblock (fst d') = ?sb" using d'(3) by (simp add: same_volume_fields)
  note e = written_live [OF d'(4) live l k assms(12)]
  have "fst (boringfs_read env B node offset len (with_disk B d' s)) = (VFS_OK, take (unat len) (drop (unat offset) bytes),
       word_of_nat (length (take (unat len) (drop (unat offset) bytes))))" for offset len
    by (rule healthy_volume.boringfs_read_ready [OF assms(3) f', of "one_block_object object k (length bytes)" offset len])
      (use d'(2) e sb' in simp_all)
  with d' others show ?thesis
    by (intro exI [of _ "with_disk B d' s"]) (simp add: sb_def old_def b)
qed

text \<open>The sample volume has no free block; its file is emptied first.\<close>

theorem bfs_write_reads_back_witness:
  "\<exists>s s'. boringfs_truncate test_bfs 7 (Some (200, 1)) 0 sample_world = (VFS_OK, s) \<and>
    boringfs_write test_bfs 7 (Some (200, 1)) 0 [104, 105] s = ((VFS_OK, 2), s') \<and>
    fst (boringfs_read test_bfs 7 (Some (200, 1)) 1 9 s') = (VFS_OK, [105], 1)"
proof -
  have b: "bfs_at (backend sample_world) 7 = sample_mount" by (simp add: sample_world_def)
  have ro: "\<not> bfs_read_only (fst (disk_of 7 sample_world))" by (simp add: sample_disk_of sample_mount_def)
  have live: "live_file (bfs_superblock (fst (disk_of 7 sample_world))) (disk_bytes test_content (disk_of 7 sample_world)) 2 sample_file_object"
    by (simp add: sample_disk_of sample_bytes sample_blocks sample_live)
  have "obj_size_bytes sample_file_object \<noteq> 0" by (simp add: sample_file_object_def)
  from testblk0.boringfs_truncate_ready [OF sample_node sample_ready [folded sample_disk_of] ro live this] obtain d where
    d: "boringfs_truncate test_bfs 7 (Some (200, 1)) 0 sample_world = (VFS_OK, with_disk 7 d sample_world)"
      "bfs_ready 32 test_content 7 test_healthy d" "same_volume sample_mount (fst d)"
      "file_emptied sample_sb 2 sample_file_object sample_volume (disk_bytes test_content d)"
    unfolding sample_disk_of fst_conv sample_blocks sample_bytes .
  let ?s = "with_disk 7 d sample_world"
  have f: "bfs_file test_bfs 7 (Some (200, 1)) 2 ?s" using sample_node d(3) by (simp add: same_file sample_disk_of)
  have sb: "bfs_superblock (fst d) = sample_sb" "\<not> bfs_read_only (fst d)"
    using d(3) by (simp_all add: same_volume_fields sample_blocks) (simp add: sample_mount_def)
  have old: "block_used sample_sb sample_volume 4" "block_used sample_sb sample_volume 5"
    by (simp_all add: block_used_def bit_offset_def bit_mask_def sample_sb_def sample_volume_def sample_byte_def unat_mod)
  have blocks: "set (object_block_list sample_file_object) = {5}"
    by (simp add: object_block_list_def extent_block_list_def sample_file_object_def sample_extents_def)
  have used: "\<forall>j < sb_total_blocks sample_sb. block_used sample_sb (disk_bytes test_content d) j \<longleftrightarrow> j \<notin> {5} \<and> block_used sample_sb sample_volume j"
    using d(4) unfolding file_emptied_def blocks by blast
  have "(4 :: u32) < sb_total_blocks sample_sb" "(5 :: u32) < sb_total_blocks sample_sb" by (simp_all add: sample_sb_def)
  then have "block_used sample_sb (disk_bytes test_content d) 4" "\<not> block_used sample_sb (disk_bytes test_content d) 5"
    using used old by simp_all
  moreover have "word_range 4 6 = [4, 5 :: u32]" by (simp add: word_range_def upt_rec)
  ultimately have k: "first_free sample_sb (disk_bytes test_content d) = Some 5" by (simp add: first_free_def sample_sb_def)
  note e = emptied_live [OF d(4) sample_live]
  have h: "bfs_ready 32 test_content 7 test_healthy (disk_of 7 ?s)" "\<not> bfs_read_only (bfs_at (backend ?s) 7)"
    "live_file (bfs_superblock (bfs_at (backend ?s) 7)) (disk_bytes test_content (disk_of 7 ?s)) 2 (empty_file_object sample_file_object)"
    "first_free (bfs_superblock (bfs_at (backend ?s) 7)) (disk_bytes test_content (disk_of 7 ?s)) = Some 5"
    using d(2) e(1) sb k by simp_all
  have z: "obj_size_bytes (empty_file_object sample_file_object) = 0" "obj_extent_count (empty_file_object sample_file_object) = 0"
    by (simp_all add: empty_file_object_def)
  from bfs_write_reads_back [OF testblk0.healthy_volume_axioms h(1,2) f h(3) z h(4), of "[104, 105]"] obtain s' where
    s': "boringfs_write test_bfs 7 (Some (200, 1)) 0 [104, 105] ?s = ((VFS_OK, word_of_nat 2), s')"
      "\<And>offset len. fst (boringfs_read test_bfs 7 (Some (200, 1)) offset len s') = (VFS_OK, take (unat len) (drop (unat offset) [104, 105]),
        word_of_nat (length (take (unat len) (drop (unat offset) [104, 105]))))" by auto
  show ?thesis using d(1) s'(1) s'(2) [of 1 9] by (intro exI [of _ ?s] exI [of _ s']) simp
qed

section \<open>The cache\<close>

text \<open>
  C33: The cache is transparent, also over a device whose transfers may fail. While it is coherent
  with the device, a read of any bytes of the volume changes nothing on the device and, if it
  succeeds, gives exactly the bytes of the volume there; a write, if it succeeds, replaces
  exactly those bytes, and whether it succeeds or not it changes no block it does not reach.
  After a success the cache is coherent again; after a failure it is unless the device has
  failed a read and left other bytes in the buffer (\<open>torn\<close>), of which nothing is assumed.
\<close>

theorem bfs_cache_transparent:
  assumes "logged_volume env device content torn" and "coherent device content d" and "length source < 2 ^ 64"
  shows "(\<forall>r d'. boringfs_source_read env offset len d = (r, d') \<longrightarrow>
      same_volume (fst d) (fst d') \<and> content (snd d') = content (snd d) \<and>
      (\<forall>bytes. r = Some bytes \<longrightarrow> bytes = sub_buffer (disk_bytes content d) (unat offset) (unat len)) \<and>
      (r \<noteq> None \<or> \<not> torn (snd d') \<longrightarrow> coherent device content d')) \<and>
    (\<forall>ok d'. boringfs_source_write env offset source d = (ok, d') \<longrightarrow>
      same_volume (fst d) (fst d') \<and>
      (\<forall>j. 4096 * j + 4096 \<le> unat offset \<or> unat offset + length source \<le> 4096 * j \<longrightarrow> content (snd d') j = content (snd d) j) \<and>
      (ok \<longrightarrow> disk_bytes content d' = splice (disk_bytes content d) (unat offset) source) \<and>
      (ok \<or> \<not> torn (snd d') \<longrightarrow> coherent device content d'))"
proof (intro conjI allI impI)
  note vol = logged_volume.axioms(1) [OF assms(1)]
  note tr = coherent_tracked [OF assms(2), where torn = torn]
  {
    fix r d' assume r: "boringfs_source_read env offset len d = (r, d')"
    have "same_volume (fst d) (fst d') \<and> content (snd d') = content (snd d) \<and>
        (\<forall>bytes. r = Some bytes \<longrightarrow> bytes = sub_buffer (disk_bytes content d) (unat offset) (unat len) \<and> coherent device content d')"
    proof (cases "offset > bfs_source_size (fst d) \<or> len > bfs_source_size (fst d) - offset")
      case True
      then show ?thesis using r by (auto simp: boringfs_source_read_def)
    next
      case False
      then have "source_read_from env offset len d = (r, d')" using r by (simp add: boringfs_source_read_def)
      from block_volume.source_read_from_spec [OF vol assms(2) this] show ?thesis by (simp add: disk_bytes_def)
    qed
    then show "same_volume (fst d) (fst d')" "content (snd d') = content (snd d)"
      "\<And>bytes. r = Some bytes \<Longrightarrow> bytes = sub_buffer (disk_bytes content d) (unat offset) (unat len)"
      "r \<noteq> None \<or> \<not> torn (snd d') \<Longrightarrow> coherent device content d'"
      using logged_volume.view_source_read [OF assms(1) r] tr by (auto simp: bfs_view_def tracked_def)
  next
    fix ok d' assume r: "boringfs_source_write env offset source d = (ok, d')"
    have l: "unat (word_of_nat (length source) :: u64) = length source" using assms(3) by (simp add: unat_of_nat)
    have "same_volume (fst d) (fst d') \<and>
        (\<forall>j. 4096 * j + 4096 \<le> unat offset \<or> unat offset + length source \<le> 4096 * j \<longrightarrow> content (snd d') j = content (snd d) j) \<and>
        (ok \<longrightarrow> disk_bytes content d' = splice (disk_bytes content d) (unat offset) source \<and> coherent device content d')"
    proof (cases "bfs_read_only (fst d) \<or> offset > bfs_source_size (fst d) \<or> word_of_nat (length source) > bfs_source_size (fst d) - offset")
      case True
      then show ?thesis using r by (auto simp: boringfs_source_write_def Let_def)
    next
      case False
      then have "source_write_from env offset (word_of_nat (length source)) source d = (ok, d')"
        using r by (simp add: boringfs_source_write_def Let_def)
      from block_volume.source_write_from_spec [OF vol assms(2) l this] show ?thesis by (auto simp: disk_bytes_def same_volume_blocks)
    qed
    then show "same_volume (fst d) (fst d')"
      "\<And>j. 4096 * j + 4096 \<le> unat offset \<or> unat offset + length source \<le> 4096 * j \<Longrightarrow> content (snd d') j = content (snd d) j"
      "ok \<Longrightarrow> disk_bytes content d' = splice (disk_bytes content d) (unat offset) source"
      "ok \<or> \<not> torn (snd d') \<Longrightarrow> coherent device content d'"
      using logged_volume.step_source_write [OF assms(1) r] tr by (auto simp: bfs_step_def tracked_def)
  }
qed

theorem bfs_cache_transparent_witness:
  "\<exists>d'. boringfs_source_read test_bfs 0 4 (sample_mount, sample_disk) = (Some [0x42, 0x4f, 0x52, 0x49], d')"
proof -
  have c: "coherent 32 test_content (sample_mount, sample_disk)" using sample_ready by (simp add: bfs_ready_def)
  obtain bytes d' where r: "boringfs_source_read test_bfs 0 4 (sample_mount, sample_disk) = (Some bytes, d')"
    by (rule testblk0.source_read_ready [OF sample_ready, of 0 4]) (simp_all add: sample_blocks)
  have "bytes = sub_buffer sample_volume 0 4"
    using bfs_cache_transparent [OF testlog0.logged_volume_axioms c, of "[]" 0 4] r by (cases d') (auto simp: sample_bytes)
  moreover have "sub_buffer sample_volume 0 4 = [0x42, 0x4f, 0x52, 0x49]"
  proof -
    have "take 4 [0..<24576] = [0..<4 :: nat]" by (subst take_upt) simp_all
    also have "[0..<4 :: nat] = [0, 1, 2, 3]" by (simp add: upt_rec)
    finally show ?thesis by (simp add: sub_buffer_def sample_volume_def take_map sample_byte_def sample_superblock_def)
  qed
  ultimately show ?thesis using r by auto
qed

text \<open>
  C34: Over any calls of the operations of a mounted volume, whether the transfers of the device
  succeed or fail, nothing of the mount changes but the cache and the nodes, and when the
  volume is mounted read-only, no call changes the device. The cache is coherent at the end
  unless some read of the device has failed and left other bytes in the buffer (\<open>torn\<close>);
  failed writes, and failed reads that leave the buffer alone, do it no harm.
\<close>

theorem bfs_runs_coherent:
  assumes "logged_volume env device content torn" and "coherent device content (disk_of B s)" and "s' = fold (bfs_do env B) calls s"
  shows "(\<not> torn (bfs_machine (backend s')) \<longrightarrow> coherent device content (disk_of B s')) \<and>
    same_mount (bfs_at (backend s) B) (bfs_at (backend s') B) \<and>
    (bfs_read_only (bfs_at (backend s) B) \<longrightarrow> content (bfs_machine (backend s')) = content (bfs_machine (backend s)))"
proof -
  have "torn (snd (disk_of B s')) = torn (bfs_machine (backend s'))" by (simp add: disk_of_def)
  then show ?thesis
    using logged_volume.world_run [OF assms(1), of B s calls] assms(3) coherent_tracked [OF assms(2)]
    by (auto simp: world_step_def tracked_def)
qed

theorem bfs_runs_coherent_witness:
  "coherent 32 test_content (disk_of 7 (bfs_do test_bfs 7 (Call_write (Some (200, 1)) 0 [1]) (bfs_do test_bfs 7 (Call_create (Some (200, 0)) [98]) sample_world)))"
proof -
  have "coherent 32 test_content (disk_of 7 sample_world)" using sample_ready by (simp add: bfs_ready_def sample_disk_of)
  from bfs_runs_coherent [OF testlog0.logged_volume_axioms this refl, of "[Call_create (Some (200, 0)) [98], Call_write (Some (200, 1)) 0 [1]]"]
  show ?thesis by simp
qed

text \<open>
  C35: A driver that fails a read after it has stored part of the data makes the cache lie. The
  failed load of a block leaves the cache valid for the block it held before, while the buffer
  now holds what the driver left there: the read fails, and the next read of the old block
  succeeds with the bytes of the failed transfer, whatever the device holds there.
\<close>

theorem bfs_failed_load_poisons_cache:
  assumes "bfs_cache_valid b" and "bfs_cached_block b = j" and "k \<noteq> j"
    and "k < sb_total_blocks (bfs_superblock b)" and "j < sb_total_blocks (bfs_superblock b)"
    and "4096 * unat (sb_total_blocks (bfs_superblock b)) \<le> unat (bfs_source_size b)"
    and "bfs_read_blocks env (bfs_device b) (ucast k * 8) 8 (bfs_block_cache b) m = ((False, left), m')"
    and "len \<noteq> 0" and "len \<le> 4096"
  shows "\<exists>d'. boringfs_source_read env (ucast k * 4096) len (b, m) = (None, d') \<and>
    boringfs_source_read env (ucast j * 4096) len d' = (Some (take (unat len) left), d')"
proof -
  have block: "unat (ucast x * 4096 :: u64) = 4096 * unat x" "(ucast x * 4096 :: u64) div 4096 = ucast x"
      "(ucast x * 4096 :: u64) mod 4096 = 0" for x :: u32
  proof -
    show u: "unat (ucast x * 4096 :: u64) = 4096 * unat x" using unat_u32_less [of x] by (simp add: unat_mult_exact)
    then show "(ucast x * 4096 :: u64) div 4096 = ucast x" "(ucast x * 4096 :: u64) mod 4096 = 0"
      by (simp_all add: word_unat_eq_iff unat_div unat_mod)
  qed
  have back_again: "ucast (ucast x :: u64) = x" for x :: u32
    using unat_u32_less [of x] by (simp add: word_unat_eq_iff ucast_u64_u32_unat)
  have chunk: "block_chunk (ucast x * 4096) len = len" for x :: u32
    using assms(9) by (simp add: block_chunk_def Let_def block(3) not_less)
  define d' where "d' = (b\<lparr>bfs_block_cache := left\<rparr>, m')"
  have fits: "\<not> (ucast x * 4096 > bfs_source_size b \<or> len > bfs_source_size b - ucast x * 4096)"
      "\<not> (ucast x * 4096 div 4096 > (ucast UINT32_MAX :: u64) \<or> ucast x * 4096 div 4096 \<ge> (ucast (sb_total_blocks (bfs_superblock b)) :: u64))"
    if x: "x < sb_total_blocks (bfs_superblock b)" for x :: u32
  proof -
    have "unat x + 1 \<le> unat (sb_total_blocks (bfs_superblock b))" using x by (simp add: word_less_nat_alt)
    moreover have "unat len \<le> 4096" using assms(9) by (simp add: word_le_nat_alt)
    ultimately have "4096 * unat x + unat len \<le> unat (bfs_source_size b)" using assms(6) by linarith
    then show "\<not> (ucast x * 4096 > bfs_source_size b \<or> len > bfs_source_size b - ucast x * 4096)"
      by (simp add: word_less_nat_alt unat_sub_if' block(1))
    show "\<not> (ucast x * 4096 div 4096 > (ucast UINT32_MAX :: u64) \<or> ucast x * 4096 div 4096 \<ge> (ucast (sb_total_blocks (bfs_superblock b)) :: u64))"
      using x unat_u32_less [of x] unfolding block(2) by (simp add: word_less_nat_alt word_le_nat_alt)
  qed
  have k: "\<not> sb_total_blocks (bfs_superblock b) \<le> k" using assms(4) by simp
  have miss: "cache_block env k (b, m) = (False, d')"
    using assms(1-3,7) k by (simp add: cache_block_def load_cached_block_def map_block d'_def)
  have hit: "cache_block env j d' = (True, d')" using assms(1,2) by (simp add: cache_block_def d'_def)
  have "source_read_from env (ucast k * 4096) len (b, m) = (None, d')"
    using fits(2) [OF assms(4)] miss assms(8) by (subst source_read_from.simps) (simp add: Let_def block(2) back_again)
  then have 1: "boringfs_source_read env (ucast k * 4096) len (b, m) = (None, d')"
    using fits(1) [OF assms(4)] by (simp add: boringfs_source_read_def)
  have "source_read_from env (ucast j * 4096) len d' = (Some (take (unat len) left), d')"
  proof -
    have "source_read_from env (ucast j * 4096 + len) 0 d' = (Some [], d')" by (subst source_read_from.simps) simp
    moreover have "\<not> (ucast j * 4096 div 4096 > (ucast UINT32_MAX :: u64) \<or> ucast j * 4096 div 4096 \<ge> (ucast (sb_total_blocks (bfs_superblock (fst d'))) :: u64))"
      using fits(2) [OF assms(5)] by (simp add: d'_def)
    ultimately show ?thesis using hit assms(8)
      by (subst source_read_from.simps) (simp add: Let_def block back_again chunk disk_bind_def d'_def sub_buffer_def)
  qed
  then have 2: "boringfs_source_read env (ucast j * 4096) len d' = (Some (take (unat len) left), d')"
    using fits(1) [OF assms(5)] by (simp add: boringfs_source_read_def d'_def)
  from 1 2 show ?thesis by blast
qed

text \<open>A driver that gives block 1 and fails every other read with one byte stored.\<close>

definition torn_env :: "unit bfs_env" where
  "torn_env = \<lparr>bfs_read_blocks = (\<lambda>device first n buf m. ((False, 7 # tl buf), m)),
     bfs_write_blocks = (\<lambda>device first n buf m. (False, m)), bfs_operations = 96\<rparr>"

theorem bfs_failed_load_poisons_cache_witness:
  "\<exists>d'. boringfs_source_read torn_env 8192 1 (sample_mount\<lparr>bfs_cache_valid := True, bfs_cached_block := 1\<rparr>, ()) = (None, d') \<and>
    boringfs_source_read torn_env 4096 1 d' = (Some [7], d')"
proof -
  have "bfs_read_blocks torn_env (bfs_device (sample_mount\<lparr>bfs_cache_valid := True, bfs_cached_block := 1\<rparr>)) (ucast (2 :: u32) * 8) 8
      (bfs_block_cache (sample_mount\<lparr>bfs_cache_valid := True, bfs_cached_block := 1\<rparr>)) () = ((False, 7 # replicate 4095 0), ())"
    by (simp add: torn_env_def sample_mount_def)
  from bfs_failed_load_poisons_cache [OF _ _ _ _ _ _ this, of 1 1] show ?thesis
    by (simp add: sample_mount_def sample_sb_def)
qed

end
