(* ===== verification/Paging.thy ===== *)
theory Paging
  imports Codec Pmm
begin

text \<open>
  kernel/arch/x86_64/address_space.c and kernel/arch/x86_64/ring3_memory.c: the
  page tables of user processes. The machine \<open>paging\<close> holds the frame allocator,
  the bytes of physical memory by frame and offset, the address-space structures
  by their address (0 is NULL), the processor's root register, the addresses
  whose cached translation was dropped, and the static variables of
  address_space.c. A table is reached through the higher-half direct map, so a
  table pointer is the frame it points to, and an entry pointer a frame and an
  index. \<open>vmm_get_stats\<close> and the no-execute feature are fields the code reads.
\<close>

section \<open>The machine\<close>

text \<open>The first \<open>owned_table_count\<close> cells of \<open>owned_table_frames\<close> are the list \<open>as_owned\<close>.\<close>

record address_space =
  as_root :: u64
  as_owned :: "u64 list"
  as_bootstrap :: bool
  as_initialized :: bool

record vmm_stats =
  vs_active_root_physical :: u64
  vs_hhdm_offset :: u64

record address_space_stats =
  ss_bootstrap_root_physical :: u64
  ss_current_root_physical :: u64
  ss_created_address_spaces :: u64
  ss_destroyed_address_spaces :: u64
  ss_address_space_switches :: u64
  ss_shared_pml4_start :: u16

record paging =
  pg_pmm :: pmm_state
  pg_memory :: "u64 \<Rightarrow> nat \<Rightarrow> u8"
  pg_spaces :: "u64 \<Rightarrow> address_space"
  pg_cr3 :: u64
  pg_invalidated :: "u64 list"
  pg_nx_enabled :: bool
  pg_vmm_stats :: "vmm_stats option"
  pg_bootstrap_space :: u64
  pg_current_space :: u64
  pg_bootstrap_root :: u64
  pg_hhdm_offset :: u64
  pg_created :: u64
  pg_destroyed :: u64
  pg_switches :: u64
  pg_initialized :: bool

abbreviation (input) ENTRY_PRESENT :: u64 where "ENTRY_PRESENT \<equiv> 1"
abbreviation (input) ENTRY_WRITABLE :: u64 where "ENTRY_WRITABLE \<equiv> 2"
abbreviation (input) ENTRY_USER :: u64 where "ENTRY_USER \<equiv> 4"
abbreviation (input) ENTRY_LARGE_PAGE :: u64 where "ENTRY_LARGE_PAGE \<equiv> 0x80"
abbreviation (input) ENTRY_ADDRESS_MASK :: u64 where "ENTRY_ADDRESS_MASK \<equiv> 0x000ffffffffff000"
abbreviation (input) ENTRY_NO_EXECUTE :: u64 where "ENTRY_NO_EXECUTE \<equiv> 0x8000000000000000"

text \<open>Reading and writing entry \<open>i\<close> of a table: the eight bytes at offset \<open>8 * i\<close> of its frame.\<close>

definition page_entry :: "paging \<Rightarrow> u64 \<Rightarrow> nat \<Rightarrow> u64" where
  "page_entry m frame i = load_le64 (map (pg_memory m frame) [8 * i..<8 * i + 8]) 0"

definition set_page_entry :: "u64 \<Rightarrow> nat \<Rightarrow> u64 \<Rightarrow> paging \<Rightarrow> paging" where
  "set_page_entry frame i v m = m\<lparr>pg_memory := (pg_memory m)(frame := (\<lambda>k.
     if 8 * i \<le> k \<and> k < 8 * i + 8 then store_le64 (replicate 8 0) 0 v ! (k - 8 * i)
     else pg_memory m frame k))\<rparr>"

definition zero_entries :: "u64 \<Rightarrow> paging \<Rightarrow> paging" where
  "zero_entries frame m = fold (\<lambda>index. set_page_entry frame index 0) [0..<512] m"

definition set_space :: "u64 \<Rightarrow> address_space \<Rightarrow> paging \<Rightarrow> paging" where
  "set_space space s m = m\<lparr>pg_spaces := (pg_spaces m)(space := s)\<rparr>"

text \<open>The frame allocator on the machine.\<close>

definition alloc_frame :: "paging \<Rightarrow> u64 option \<times> paging" where
  "alloc_frame m = (case pmm_alloc_frame (pg_pmm m) of (r, p) \<Rightarrow> (r, m\<lparr>pg_pmm := p\<rparr>))"

definition free_frame :: "u64 \<Rightarrow> paging \<Rightarrow> bool \<times> paging" where
  "free_frame frame m = (case pmm_free_frame frame (pg_pmm m) of (r, p) \<Rightarrow> (r, m\<lparr>pg_pmm := p\<rparr>))"

definition frame_is_usable :: "u64 \<Rightarrow> paging \<Rightarrow> bool" where
  "frame_is_usable frame m = pmm_frame_is_usable frame (pg_pmm m)"

section \<open>Helpers of address_space.c\<close>

definition address_space_page_aligned :: "u64 \<Rightarrow> bool" where
  "address_space_page_aligned v \<longleftrightarrow> v AND 4095 = 0"

definition address_space_canonical :: "u64 \<Rightarrow> bool" where
  "address_space_canonical address =
     (let upper = drop_bit 48 address; high_half = (drop_bit 47 address AND 1 \<noteq> 0)
      in if high_half then upper = 0xffff else upper = 0)"

definition address_space_physical_supported :: "u64 \<Rightarrow> bool" where
  "address_space_physical_supported physical \<longleftrightarrow>
     address_space_page_aligned physical \<and> physical AND NOT ENTRY_ADDRESS_MASK = 0"

definition address_space_index :: "u64 \<Rightarrow> nat \<Rightarrow> nat" where
  "address_space_index virtual_address shift = unat (drop_bit shift virtual_address AND 0x1ff)"

definition address_space_pml4_index :: "u64 \<Rightarrow> nat" where
  "address_space_pml4_index virtual_address = unat (drop_bit 39 virtual_address AND 0x1ff)"

definition address_space_clear :: "u64 \<Rightarrow> paging \<Rightarrow> paging" where
  "address_space_clear space m = (if space = 0 then m
     else set_space space \<lparr>as_root = 0, as_owned = [], as_bootstrap = False, as_initialized = False\<rparr> m)"

definition address_space_table_pointer :: "u64 \<Rightarrow> paging \<Rightarrow> u64 option" where
  "address_space_table_pointer physical m =
     (if \<not> address_space_physical_supported physical \<or> physical > UINT64_MAX - pg_hhdm_offset m then None
      else if \<not> address_space_canonical (pg_hhdm_offset m + physical) then None
      else Some physical)"

definition address_space_owned_contains :: "u64 \<Rightarrow> u64 \<Rightarrow> paging \<Rightarrow> bool" where
  "address_space_owned_contains space physical m =
     (if space = 0 \<or> \<not> as_initialized (pg_spaces m space) then False
      else physical \<in> set (as_owned (pg_spaces m space)))"

definition address_space_owned_add :: "u64 \<Rightarrow> u64 \<Rightarrow> paging \<Rightarrow> bool \<times> paging" where
  "address_space_owned_add space physical m =
     (let s = pg_spaces m space in
      if space = 0 \<or> \<not> as_initialized s \<or> length (as_owned s) \<ge> 128 \<or>
         address_space_owned_contains space physical m then (False, m)
      else (True, set_space space (s\<lparr>as_owned := as_owned s @ [physical]\<rparr>) m))"

definition address_space_owned_remove :: "u64 \<Rightarrow> u64 \<Rightarrow> paging \<Rightarrow> bool \<times> paging" where
  "address_space_owned_remove space physical m =
     (let s = pg_spaces m space in
      if space = 0 \<or> \<not> as_initialized s then (False, m)
      else if physical \<in> set (as_owned s)
      then (True, set_space space (s\<lparr>as_owned := remove1 physical (as_owned s)\<rparr>) m)
      else (False, m))"

definition address_space_allocate_table :: "u64 \<Rightarrow> paging \<Rightarrow> u64 option \<times> paging" where
  "address_space_allocate_table space m =
     (let s = pg_spaces m space in
      if space = 0 \<or> \<not> as_initialized s \<or> length (as_owned s) \<ge> 128 then (None, m)
      else case alloc_frame m of
        (None, m) \<Rightarrow> (None, m)
      | (Some frame, m) \<Rightarrow>
          if \<not> address_space_physical_supported frame \<or> \<not> frame_is_usable frame m \<or>
             address_space_table_pointer frame m = None
          then (None, snd (free_frame frame m))
          else case address_space_owned_add space frame (zero_entries frame m) of
            (False, m) \<Rightarrow> (None, snd (free_frame frame m))
          | (True, m) \<Rightarrow> (Some frame, m))"

definition address_space_release_owned_table :: "u64 \<Rightarrow> u64 \<Rightarrow> paging \<Rightarrow> bool \<times> paging" where
  "address_space_release_owned_table space physical m =
     (if \<not> address_space_owned_contains space physical m then (False, m)
      else case free_frame physical m of
        (False, m) \<Rightarrow> (False, m)
      | (True, m) \<Rightarrow> address_space_owned_remove space physical m)"

definition address_space_table_empty :: "u64 \<Rightarrow> paging \<Rightarrow> bool" where
  "address_space_table_empty table m = list_all (\<lambda>index. page_entry m table index = 0) [0..<512]"

definition address_space_is_active :: "u64 \<Rightarrow> paging \<Rightarrow> bool" where
  "address_space_is_active space m =
     (if \<not> pg_initialized m \<or> space = 0 \<or> \<not> as_initialized (pg_spaces m space) then False
      else pg_cr3 m AND ENTRY_ADDRESS_MASK = as_root (pg_spaces m space))"

definition address_space_invalidate_if_active :: "u64 \<Rightarrow> u64 \<Rightarrow> paging \<Rightarrow> paging" where
  "address_space_invalidate_if_active space virtual_address m =
     (if address_space_is_active space m
      then m\<lparr>pg_invalidated := pg_invalidated m @ [virtual_address]\<rparr> else m)"

text \<open>
  A created table is recorded with the entry that refers to it; \<open>None\<close> is a
  record whose \<open>parent_entry\<close> is NULL. The result is \<open>None\<close> where the code
  returns false.
\<close>

type_synonym created_table = "(u64 \<times> nat) \<times> u64"

definition address_space_get_or_create_child ::
  "u64 \<Rightarrow> u64 \<times> nat \<Rightarrow> bool \<Rightarrow> paging \<Rightarrow> (u64 \<times> created_table option) option \<times> paging" where
  "address_space_get_or_create_child space cell large_pages_possible m =
     (let entry = page_entry m (fst cell) (snd cell) in
      if space = 0 then (None, m)
      else if entry AND ENTRY_PRESENT \<noteq> 0 then
        if large_pages_possible \<and> entry AND ENTRY_LARGE_PAGE \<noteq> 0 then (None, m)
        else
          let child_physical = entry AND ENTRY_ADDRESS_MASK in
          if \<not> address_space_owned_contains space child_physical m then (None, m)
          else (map_option (\<lambda>child. (child, None)) (address_space_table_pointer child_physical m), m)
      else if entry \<noteq> 0 then (None, m)
      else case address_space_allocate_table space m of
        (None, m) \<Rightarrow> (None, m)
      | (Some child, m) \<Rightarrow>
          (Some (child, Some (cell, child)),
           set_page_entry (fst cell) (snd cell) (child OR ENTRY_PRESENT OR ENTRY_WRITABLE) m))"

text \<open>The rollback goes from the last created table to the first; the list holds the last one first.\<close>

fun address_space_rollback_created :: "u64 \<Rightarrow> created_table list \<Rightarrow> u64 \<Rightarrow> paging \<Rightarrow> paging" where
  "address_space_rollback_created space [] virtual_address m = m"
| "address_space_rollback_created space ((cell, physical) # created) virtual_address m =
     address_space_rollback_created space created virtual_address
       (snd (address_space_release_owned_table space physical
          (address_space_invalidate_if_active space virtual_address
            (set_page_entry (fst cell) (snd cell) 0 m))))"

text \<open>The tables of a walk that finds a mapping; the entries are at the address's indices in them.\<close>

record address_space_walk_path =
  wp_root :: u64
  wp_pdpt :: u64
  wp_pd :: u64
  wp_pt :: u64

datatype address_space_lookup = LOOKUP_ERROR | LOOKUP_UNMAPPED | LOOKUP_MAPPED address_space_walk_path

definition address_space_walk :: "u64 \<Rightarrow> u64 \<Rightarrow> paging \<Rightarrow> address_space_lookup" where
  "address_space_walk space virtual_address m =
     (let s = pg_spaces m space;
          pml4_index = address_space_pml4_index virtual_address;
          absent = (\<lambda>entry. if entry = 0 then LOOKUP_UNMAPPED else LOOKUP_ERROR) in
      if \<not> pg_initialized m \<or> space = 0 \<or> \<not> as_initialized s \<or>
         \<not> address_space_page_aligned virtual_address \<or> \<not> address_space_canonical virtual_address \<or>
         pml4_index \<ge> 256 then LOOKUP_ERROR
      else case address_space_table_pointer (as_root s) m of None \<Rightarrow> LOOKUP_ERROR | Some root \<Rightarrow>
        let entry = page_entry m root pml4_index in
        if entry AND ENTRY_PRESENT = 0 then absent entry
        else let pdpt_physical = entry AND ENTRY_ADDRESS_MASK in
        if \<not> address_space_owned_contains space pdpt_physical m then LOOKUP_ERROR
        else case address_space_table_pointer pdpt_physical m of None \<Rightarrow> LOOKUP_ERROR | Some pdpt \<Rightarrow>
        let entry = page_entry m pdpt (address_space_index virtual_address 30) in
        if entry AND ENTRY_PRESENT = 0 then absent entry
        else if entry AND ENTRY_LARGE_PAGE \<noteq> 0 then LOOKUP_ERROR
        else let pd_physical = entry AND ENTRY_ADDRESS_MASK in
        if \<not> address_space_owned_contains space pd_physical m then LOOKUP_ERROR
        else case address_space_table_pointer pd_physical m of None \<Rightarrow> LOOKUP_ERROR | Some pd \<Rightarrow>
        let entry = page_entry m pd (address_space_index virtual_address 21) in
        if entry AND ENTRY_PRESENT = 0 then absent entry
        else if entry AND ENTRY_LARGE_PAGE \<noteq> 0 then LOOKUP_ERROR
        else let pt_physical = entry AND ENTRY_ADDRESS_MASK in
        if \<not> address_space_owned_contains space pt_physical m then LOOKUP_ERROR
        else case address_space_table_pointer pt_physical m of None \<Rightarrow> LOOKUP_ERROR | Some pt \<Rightarrow>
        let entry = page_entry m pt (address_space_index virtual_address 12) in
        if entry AND ENTRY_PRESENT = 0 then absent entry
        else LOOKUP_MAPPED \<lparr>wp_root = root, wp_pdpt = pdpt, wp_pd = pd, wp_pt = pt\<rparr>)"

section \<open>Operations of address_space.c\<close>

definition address_space_kernel_mappings_valid :: "u64 \<Rightarrow> paging \<Rightarrow> bool" where
  "address_space_kernel_mappings_valid space m =
     (if \<not> pg_initialized m \<or> space = 0 \<or> \<not> as_initialized (pg_spaces m space) \<or>
         pg_bootstrap_space m = 0 then False
      else case (address_space_table_pointer (pg_bootstrap_root m) m,
                 address_space_table_pointer (as_root (pg_spaces m space)) m) of
        (Some bootstrap_root, Some root) \<Rightarrow>
          list_all (\<lambda>index. page_entry m root index = page_entry m bootstrap_root index) [256..<512] \<and>
          page_entry m root 256 AND ENTRY_PRESENT \<noteq> 0 \<and>
          page_entry m root 510 AND ENTRY_PRESENT \<noteq> 0 \<and>
          page_entry m root 511 AND ENTRY_PRESENT \<noteq> 0
      | _ \<Rightarrow> False)"

definition address_space_system_init :: "u64 \<Rightarrow> paging \<Rightarrow> bool \<times> paging" where
  "address_space_system_init bootstrap_space m =
     (if pg_initialized m \<or> bootstrap_space = 0 then (False, m)
      else case pg_vmm_stats m of None \<Rightarrow> (False, m) | Some stats \<Rightarrow>
        let active_root = pg_cr3 m AND ENTRY_ADDRESS_MASK in
        if active_root = 0 \<or> active_root \<noteq> vs_active_root_physical stats \<or>
           \<not> address_space_page_aligned (vs_hhdm_offset stats) \<or>
           \<not> address_space_canonical (vs_hhdm_offset stats) then (False, m)
        else
          let m = m\<lparr>pg_hhdm_offset := vs_hhdm_offset stats, pg_bootstrap_root := active_root\<rparr>;
              m = set_space bootstrap_space
                \<lparr>as_root = active_root, as_owned = [], as_bootstrap = True, as_initialized = True\<rparr> m;
              fail = (False, (address_space_clear bootstrap_space m)
                \<lparr>pg_bootstrap_root := 0, pg_hhdm_offset := 0\<rparr>)
          in case address_space_table_pointer active_root m of
            None \<Rightarrow> fail
          | Some root \<Rightarrow>
              if page_entry m root 256 AND ENTRY_PRESENT = 0 \<or>
                 page_entry m root 510 AND ENTRY_PRESENT = 0 \<or>
                 page_entry m root 511 AND ENTRY_PRESENT = 0 then fail
              else (True, m\<lparr>pg_bootstrap_space := bootstrap_space, pg_current_space := bootstrap_space,
                      pg_created := 0, pg_destroyed := 0, pg_switches := 0, pg_initialized := True\<rparr>))"

definition copy_kernel_entries :: "u64 \<Rightarrow> u64 \<Rightarrow> paging \<Rightarrow> paging" where
  "copy_kernel_entries root bootstrap_root m =
     fold (\<lambda>index m. set_page_entry root index (page_entry m bootstrap_root index) m) [256..<512] m"

definition address_space_create :: "u64 \<Rightarrow> paging \<Rightarrow> bool \<times> paging" where
  "address_space_create space m =
     (if \<not> pg_initialized m \<or> space = 0 \<or> as_initialized (pg_spaces m space) \<or>
         pg_bootstrap_space m = 0 then (False, m)
      else case address_space_table_pointer (pg_bootstrap_root m) m of
        None \<Rightarrow> (False, m)
      | Some bootstrap_root \<Rightarrow>
          let m = address_space_clear space m;
              m = set_space space ((pg_spaces m space)\<lparr>as_initialized := True\<rparr>) m
          in case address_space_allocate_table space m of
            (None, m) \<Rightarrow> (False, address_space_clear space m)
          | (Some root, m) \<Rightarrow>
              let m = set_space space ((pg_spaces m space)\<lparr>as_root := root\<rparr>) m;
                  m = copy_kernel_entries root bootstrap_root m
              in if \<not> address_space_kernel_mappings_valid space m
                 then (False, address_space_clear space (snd (free_frame root m)))
                 else (True, m\<lparr>pg_created := pg_created m + 1\<rparr>))"

definition address_space_activate :: "u64 \<Rightarrow> paging \<Rightarrow> bool \<times> paging" where
  "address_space_activate space m =
     (let s = pg_spaces m space in
      if \<not> pg_initialized m \<or> space = 0 \<or> \<not> as_initialized s \<or> as_root s = 0 \<or>
         address_space_table_pointer (as_root s) m = None \<or>
         \<not> address_space_kernel_mappings_valid space m then (False, m)
      else if \<not> as_bootstrap s \<and> \<not> address_space_owned_contains space (as_root s) m then (False, m)
      else if pg_cr3 m AND ENTRY_ADDRESS_MASK = as_root s then (True, m\<lparr>pg_current_space := space\<rparr>)
      else
        let m = m\<lparr>pg_cr3 := as_root s\<rparr> in
        if pg_cr3 m AND ENTRY_ADDRESS_MASK \<noteq> as_root s then (False, m)
        else (True, m\<lparr>pg_current_space := space, pg_switches := pg_switches m + 1\<rparr>))"

text \<open>The last write of \<open>address_space_map_page\<close>, once the table for the page is there.\<close>

definition write_leaf :: "u64 \<Rightarrow> u64 \<Rightarrow> u64 \<Rightarrow> created_table list \<Rightarrow> u64 \<Rightarrow> paging \<Rightarrow> bool \<times> paging" where
  "write_leaf space virtual_address v created pt m =
     (let index = address_space_index virtual_address 12 in
      if page_entry m pt index \<noteq> 0
      then (False, address_space_rollback_created space created virtual_address m)
      else (True, address_space_invalidate_if_active space virtual_address (set_page_entry pt index v m)))"

text \<open>
  The calls of \<open>address_space_get_or_create_child\<close> for the remaining levels,
  given as index shift and whether large pages are possible, then the leaf.
\<close>

fun map_levels ::
  "u64 \<Rightarrow> u64 \<Rightarrow> u64 \<Rightarrow> (nat \<times> bool) list \<Rightarrow> created_table list \<Rightarrow> u64 \<Rightarrow> paging \<Rightarrow> bool \<times> paging" where
  "map_levels space virtual_address v [] created table m =
     write_leaf space virtual_address v created table m"
| "map_levels space virtual_address v ((shift, large) # levels) created table m =
     (case address_space_get_or_create_child space
         (table, address_space_index virtual_address shift) large m of
        (None, m) \<Rightarrow> (False, address_space_rollback_created space created virtual_address m)
      | (Some (child, new), m) \<Rightarrow>
          map_levels space virtual_address v levels
            (case new of None \<Rightarrow> created | Some c \<Rightarrow> c # created) child m)"

definition address_space_map_page :: "u64 \<Rightarrow> u64 \<Rightarrow> u64 \<Rightarrow> u64 \<Rightarrow> paging \<Rightarrow> bool \<times> paging" where
  "address_space_map_page space virtual_address physical flags m =
     (let s = pg_spaces m space in
      if \<not> pg_initialized m \<or> space = 0 \<or> \<not> as_initialized s \<or> as_bootstrap s \<or>
         \<not> address_space_page_aligned virtual_address \<or> \<not> address_space_canonical virtual_address \<or>
         address_space_pml4_index virtual_address \<ge> 256 \<or>
         \<not> address_space_physical_supported physical \<or> \<not> frame_is_usable physical m \<or>
         flags AND NOT ENTRY_WRITABLE \<noteq> 0 then (False, m)
      else case address_space_table_pointer (as_root s) m of
        None \<Rightarrow> (False, m)
      | Some root \<Rightarrow>
          map_levels space virtual_address (physical OR ENTRY_PRESENT OR flags)
            [(39, False), (30, True), (21, True)] [] root m)"

text \<open>
  The nested releases of \<open>address_space_unmap_page\<close>: the tables from the one of
  the page upwards, each with the entry that refers to it.
\<close>

fun release_empty_tables :: "u64 \<Rightarrow> (u64 \<times> (u64 \<times> nat)) list \<Rightarrow> paging \<Rightarrow> bool \<times> paging" where
  "release_empty_tables space [] m = (True, m)"
| "release_empty_tables space ((table, cell) # tables) m =
     (if address_space_table_empty table m \<and> address_space_owned_contains space table m
      then case address_space_release_owned_table space table (set_page_entry (fst cell) (snd cell) 0 m) of
          (False, m) \<Rightarrow> (False, m)
        | (True, m) \<Rightarrow> release_empty_tables space tables m
      else (True, m))"

definition address_space_unmap_page :: "u64 \<Rightarrow> u64 \<Rightarrow> paging \<Rightarrow> bool \<times> paging" where
  "address_space_unmap_page space virtual_address m =
     (if space = 0 \<or> as_bootstrap (pg_spaces m space) then (False, m)
      else case address_space_walk space virtual_address m of
        LOOKUP_MAPPED path \<Rightarrow>
          let m = set_page_entry (wp_pt path) (address_space_index virtual_address 12) 0 m;
              m = address_space_invalidate_if_active space virtual_address m
          in release_empty_tables space
               [(wp_pt path, (wp_pd path, address_space_index virtual_address 21)),
                (wp_pd path, (wp_pdpt path, address_space_index virtual_address 30)),
                (wp_pdpt path, (wp_root path, address_space_pml4_index virtual_address))] m
      | _ \<Rightarrow> (False, m))"

definition address_space_translate :: "u64 \<Rightarrow> u64 \<Rightarrow> paging \<Rightarrow> u64 option" where
  "address_space_translate space virtual_address m =
     (case address_space_walk space virtual_address m of
        LOOKUP_MAPPED path \<Rightarrow>
          let translated = page_entry m (wp_pt path) (address_space_index virtual_address 12) AND ENTRY_ADDRESS_MASK
          in if address_space_physical_supported translated then Some translated else None
      | _ \<Rightarrow> None)"

definition address_space_destroy :: "u64 \<Rightarrow> paging \<Rightarrow> bool \<times> paging" where
  "address_space_destroy space m =
     (let s = pg_spaces m space in
      if \<not> pg_initialized m \<or> space = 0 \<or> \<not> as_initialized s \<or> as_bootstrap s \<or>
         address_space_is_active space m \<or> \<not> address_space_kernel_mappings_valid space m then (False, m)
      else case address_space_table_pointer (as_root s) m of
        None \<Rightarrow> (False, m)
      | Some root \<Rightarrow>
          if \<not> list_all (\<lambda>index. page_entry m root index = 0) [0..<256] then (False, m)
          else if length (as_owned s) \<noteq> 1 \<or> \<not> address_space_owned_contains space (as_root s) m
          then (False, m)
          else case free_frame (as_root s) m of
            (False, m) \<Rightarrow> (False, m)
          | (True, m) \<Rightarrow>
              (True, (address_space_clear space m)\<lparr>pg_destroyed := pg_destroyed m + 1\<rparr>))"

definition address_space_get_stats :: "paging \<Rightarrow> address_space_stats option" where
  "address_space_get_stats m =
     (if \<not> pg_initialized m \<or> pg_bootstrap_space m = 0 \<or> pg_current_space m = 0 then None
      else
        let current_root = pg_cr3 m AND ENTRY_ADDRESS_MASK in
        if current_root \<noteq> as_root (pg_spaces m (pg_current_space m)) then None
        else Some \<lparr>ss_bootstrap_root_physical = pg_bootstrap_root m, ss_current_root_physical = current_root,
          ss_created_address_spaces = pg_created m, ss_destroyed_address_spaces = pg_destroyed m,
          ss_address_space_switches = pg_switches m, ss_shared_pml4_start = 256\<rparr>)"

end
