(* ===== verification/Ring3.thy ===== *)
theory Ring3
  imports Paging
begin

text \<open>
  kernel/arch/x86_64/ring3_memory.c: the mappings a user program can reach. The
  file has its own copies of the helpers of address_space.c; its table pointers
  use the direct-map offset that \<open>vmm_get_stats\<close> reports.
\<close>

section \<open>Addresses and helpers\<close>

definition ring3_page_aligned :: "u64 \<Rightarrow> bool" where
  "ring3_page_aligned v \<longleftrightarrow> v AND 4095 = 0"

definition canonical_lower :: "u64 \<Rightarrow> bool" where
  "canonical_lower address \<longleftrightarrow> drop_bit 48 address = 0 \<and> drop_bit 47 address AND 1 = 0 \<and>
     drop_bit 39 address AND 0x1ff < 256"

definition ring3_user_range_valid :: "u64 \<Rightarrow> u64 \<Rightarrow> bool" where
  "ring3_user_range_valid start len =
     (if len = 0 \<or> \<not> canonical_lower start \<or> len - 1 > UINT64_MAX - start then False
      else canonical_lower (start + (len - 1)))"

definition table_index :: "u64 \<Rightarrow> nat \<Rightarrow> nat" where
  "table_index address shift = unat (drop_bit shift address AND 0x1ff)"

definition owned_contains :: "u64 \<Rightarrow> u64 \<Rightarrow> paging \<Rightarrow> bool" where
  "owned_contains space physical m =
     (if space = 0 \<or> \<not> as_initialized (pg_spaces m space) then False
      else physical \<in> set (as_owned (pg_spaces m space)))"

definition owned_add :: "u64 \<Rightarrow> u64 \<Rightarrow> paging \<Rightarrow> bool \<times> paging" where
  "owned_add space physical m =
     (let s = pg_spaces m space in
      if space = 0 \<or> \<not> as_initialized s \<or> length (as_owned s) \<ge> 128 \<or> owned_contains space physical m
      then (False, m)
      else (True, set_space space (s\<lparr>as_owned := as_owned s @ [physical]\<rparr>) m))"

definition owned_remove :: "u64 \<Rightarrow> u64 \<Rightarrow> paging \<Rightarrow> bool \<times> paging" where
  "owned_remove space physical m =
     (let s = pg_spaces m space in
      if space = 0 \<or> \<not> as_initialized s then (False, m)
      else if physical \<in> set (as_owned s)
      then (True, set_space space (s\<lparr>as_owned := remove1 physical (as_owned s)\<rparr>) m)
      else (False, m))"

definition table_pointer :: "u64 \<Rightarrow> paging \<Rightarrow> u64 option" where
  "table_pointer physical m =
     (if \<not> ring3_page_aligned physical \<or> physical AND NOT ENTRY_ADDRESS_MASK \<noteq> 0 then None
      else case pg_vmm_stats m of
        None \<Rightarrow> None
      | Some stats \<Rightarrow>
          if physical > UINT64_MAX - vs_hhdm_offset stats then None
          else if drop_bit 48 (vs_hhdm_offset stats + physical) \<noteq> 0xffff then None
          else Some physical)"

definition allocate_user_table :: "u64 \<Rightarrow> paging \<Rightarrow> u64 option \<times> paging" where
  "allocate_user_table space m =
     (if space = 0 then (None, m)
      else case alloc_frame m of
        (None, m) \<Rightarrow> (None, m)
      | (Some frame, m) \<Rightarrow>
          if \<not> frame_is_usable frame m \<or> table_pointer frame m = None
          then (None, snd (free_frame frame m))
          else case owned_add space frame (zero_entries frame m) of
            (False, m) \<Rightarrow> (None, snd (free_frame frame m))
          | (True, m) \<Rightarrow> (Some frame, m))"

definition release_created_table :: "u64 \<Rightarrow> u64 \<Rightarrow> paging \<Rightarrow> bool \<times> paging" where
  "release_created_table space physical m =
     (if \<not> owned_contains space physical m then (False, m)
      else case free_frame physical m of
        (False, m) \<Rightarrow> (False, m)
      | (True, m) \<Rightarrow> owned_remove space physical m)"

definition get_or_create_user_child ::
  "u64 \<Rightarrow> u64 \<times> nat \<Rightarrow> bool \<Rightarrow> paging \<Rightarrow> (u64 \<times> created_table option) option \<times> paging" where
  "get_or_create_user_child space cell large_page_possible m =
     (let entry = page_entry m (fst cell) (snd cell) in
      if space = 0 then (None, m)
      else if entry AND ENTRY_PRESENT \<noteq> 0 then
        if entry AND ENTRY_USER = 0 \<or> large_page_possible \<and> entry AND ENTRY_LARGE_PAGE \<noteq> 0 then (None, m)
        else
          let physical = entry AND ENTRY_ADDRESS_MASK in
          if \<not> owned_contains space physical m then (None, m)
          else (map_option (\<lambda>child. (child, None)) (table_pointer physical m), m)
      else if entry \<noteq> 0 then (None, m)
      else case allocate_user_table space m of
        (None, m) \<Rightarrow> (None, m)
      | (Some child, m) \<Rightarrow>
          (Some (child, Some (cell, child)),
           set_page_entry (fst cell) (snd cell) (child OR ENTRY_PRESENT OR ENTRY_WRITABLE OR ENTRY_USER) m))"

text \<open>As in address_space.c, the list of created tables holds the last one first.\<close>

fun rollback_created_tables :: "u64 \<Rightarrow> created_table list \<Rightarrow> paging \<Rightarrow> paging" where
  "rollback_created_tables space [] m = m"
| "rollback_created_tables space ((cell, physical) # created) m =
     rollback_created_tables space created
       (snd (release_created_table space physical (set_page_entry (fst cell) (snd cell) 0 m)))"

text \<open>The recursion over the levels of a table that user mode might reach.\<close>

fun shared_table_supervisor_only :: "u64 \<Rightarrow> nat \<Rightarrow> bool \<Rightarrow> paging \<Rightarrow> bool" where
  "shared_table_supervisor_only table 0 user_path m =
     list_all (\<lambda>index. let entry = page_entry m table index in
       entry AND ENTRY_PRESENT = 0 \<or> \<not> (user_path \<and> entry AND ENTRY_USER \<noteq> 0)) [0..<512]"
| "shared_table_supervisor_only table (Suc level) user_path m =
     list_all (\<lambda>index.
       let entry = page_entry m table index;
           next_user_path = (user_path \<and> entry AND ENTRY_USER \<noteq> 0)
       in if entry AND ENTRY_PRESENT = 0 then True
          else if \<not> next_user_path then True
          else if (Suc level = 2 \<or> Suc level = 1) \<and> entry AND ENTRY_LARGE_PAGE \<noteq> 0 then False
          else case table_pointer (entry AND ENTRY_ADDRESS_MASK) m of
            None \<Rightarrow> False
          | Some child \<Rightarrow> shared_table_supervisor_only child level next_user_path m) [0..<512]"

section \<open>Operations\<close>

text \<open>The last write of \<open>ring3_user_map_page_permissions\<close>.\<close>

definition write_user_leaf :: "u64 \<Rightarrow> u64 \<Rightarrow> u64 \<Rightarrow> created_table list \<Rightarrow> u64 \<Rightarrow> paging \<Rightarrow> bool \<times> paging" where
  "write_user_leaf space virtual_address v created pt m =
     (let index = table_index virtual_address 12 in
      if page_entry m pt index \<noteq> 0 then (False, rollback_created_tables space created m)
      else (True, set_page_entry pt index v m))"

fun map_user_levels ::
  "u64 \<Rightarrow> u64 \<Rightarrow> u64 \<Rightarrow> (nat \<times> bool) list \<Rightarrow> created_table list \<Rightarrow> u64 \<Rightarrow> paging \<Rightarrow> bool \<times> paging" where
  "map_user_levels space virtual_address v [] created table m =
     write_user_leaf space virtual_address v created table m"
| "map_user_levels space virtual_address v ((shift, large) # levels) created table m =
     (case get_or_create_user_child space (table, table_index virtual_address shift) large m of
        (None, m) \<Rightarrow> (False, rollback_created_tables space created m)
      | (Some (child, new), m) \<Rightarrow>
          map_user_levels space virtual_address v levels
            (case new of None \<Rightarrow> created | Some c \<Rightarrow> c # created) child m)"

definition ring3_user_map_page_permissions ::
  "u64 \<Rightarrow> u64 \<Rightarrow> u64 \<Rightarrow> bool \<Rightarrow> bool \<Rightarrow> paging \<Rightarrow> bool \<times> paging" where
  "ring3_user_map_page_permissions space virtual_address physical writable executable m =
     (let s = pg_spaces m space in
      if space = 0 \<or> \<not> as_initialized s \<or> as_bootstrap s \<or> \<not> canonical_lower virtual_address \<or>
         \<not> ring3_page_aligned virtual_address \<or> \<not> ring3_page_aligned physical \<or>
         \<not> frame_is_usable physical m \<or> \<not> executable \<and> \<not> pg_nx_enabled m \<or>
         \<not> owned_contains space (as_root s) m then (False, m)
      else case table_pointer (as_root s) m of
        None \<Rightarrow> (False, m)
      | Some pml4 \<Rightarrow>
          map_user_levels space virtual_address
            (physical OR ENTRY_PRESENT OR ENTRY_USER OR (if writable then ENTRY_WRITABLE else 0)
             OR (if executable then 0 else ENTRY_NO_EXECUTE))
            [(39, False), (30, True), (21, True)] [] pml4 m)"

definition ring3_user_map_page :: "u64 \<Rightarrow> u64 \<Rightarrow> u64 \<Rightarrow> bool \<Rightarrow> paging \<Rightarrow> bool \<times> paging" where
  "ring3_user_map_page space virtual_address physical writable m =
     ring3_user_map_page_permissions space virtual_address physical writable True m"

record ring3_user_mapping_info =
  mi_physical_address :: u64
  mi_writable :: bool
  mi_executable :: bool

text \<open>The loop over the levels, given as level and index shift.\<close>

fun query_levels ::
  "u64 \<Rightarrow> u64 \<Rightarrow> (nat \<times> nat) list \<Rightarrow> bool \<Rightarrow> bool \<Rightarrow> u64 \<Rightarrow> paging \<Rightarrow> ring3_user_mapping_info option" where
  "query_levels space virtual_address [] writable_path executable_path table m = None"
| "query_levels space virtual_address ((level, shift) # levels) writable_path executable_path table m =
     (let nx_enabled = pg_nx_enabled m;
          entry = page_entry m table (table_index virtual_address shift) in
      if entry AND ENTRY_PRESENT = 0 \<or> entry AND ENTRY_USER = 0 then None
      else if \<not> nx_enabled \<and> entry AND ENTRY_NO_EXECUTE \<noteq> 0 then None
      else
        let writable_path = (writable_path \<and> entry AND ENTRY_WRITABLE \<noteq> 0);
            executable_path = (if nx_enabled \<and> entry AND ENTRY_NO_EXECUTE \<noteq> 0 then False else executable_path)
        in if level = 3 then
             let page_physical = entry AND ENTRY_ADDRESS_MASK;
                 page_offset = virtual_address AND 4095
             in if \<not> frame_is_usable page_physical m then None
                else Some \<lparr>mi_physical_address = page_physical + page_offset,
                  mi_writable = writable_path, mi_executable = executable_path\<rparr>
           else if level > 0 \<and> entry AND ENTRY_LARGE_PAGE \<noteq> 0 then None
           else if \<not> owned_contains space (entry AND ENTRY_ADDRESS_MASK) m then None
           else case table_pointer (entry AND ENTRY_ADDRESS_MASK) m of
             None \<Rightarrow> None
           | Some child \<Rightarrow>
               query_levels space virtual_address levels writable_path executable_path child m)"

definition ring3_user_query_mapping :: "u64 \<Rightarrow> u64 \<Rightarrow> paging \<Rightarrow> ring3_user_mapping_info option" where
  "ring3_user_query_mapping space virtual_address m =
     (let s = pg_spaces m space in
      if space = 0 \<or> \<not> as_initialized s \<or> as_bootstrap s \<or> \<not> canonical_lower virtual_address then None
      else case table_pointer (as_root s) m of
        None \<Rightarrow> None
      | Some table \<Rightarrow>
          query_levels space virtual_address [(0, 39), (1, 30), (2, 21), (3, 12)] True True table m)"

definition ring3_user_mapping_valid :: "u64 \<Rightarrow> u64 \<Rightarrow> u64 \<Rightarrow> bool \<Rightarrow> paging \<Rightarrow> bool" where
  "ring3_user_mapping_valid space virtual_address physical writable m =
     (if \<not> ring3_page_aligned virtual_address \<or> \<not> ring3_page_aligned physical then False
      else case ring3_user_query_mapping space virtual_address m of
        None \<Rightarrow> False
      | Some info \<Rightarrow> mi_physical_address info = physical \<and> mi_writable info = writable)"

definition ring3_user_mapping_permissions_valid ::
  "u64 \<Rightarrow> u64 \<Rightarrow> u64 \<Rightarrow> bool \<Rightarrow> bool \<Rightarrow> paging \<Rightarrow> bool" where
  "ring3_user_mapping_permissions_valid space virtual_address physical writable executable m =
     (if \<not> ring3_page_aligned virtual_address \<or> \<not> ring3_page_aligned physical then False
      else case ring3_user_query_mapping space virtual_address m of
        None \<Rightarrow> False
      | Some info \<Rightarrow> mi_physical_address info = physical \<and> mi_writable info = writable \<and>
          mi_executable info = executable)"

definition ring3_user_translate :: "u64 \<Rightarrow> u64 \<Rightarrow> bool \<Rightarrow> paging \<Rightarrow> u64 option" where
  "ring3_user_translate space virtual_address require_writable m =
     (case ring3_user_query_mapping space virtual_address m of
        None \<Rightarrow> None
      | Some info \<Rightarrow>
          if require_writable \<and> \<not> mi_writable info then None else Some (mi_physical_address info))"

definition ring3_shared_higher_half_supervisor_only :: "u64 \<Rightarrow> paging \<Rightarrow> bool" where
  "ring3_shared_higher_half_supervisor_only space m =
     (let s = pg_spaces m space in
      if space = 0 \<or> \<not> as_initialized s \<or> as_bootstrap s \<or>
         \<not> address_space_kernel_mappings_valid space m then False
      else case table_pointer (as_root s) m of
        None \<Rightarrow> False
      | Some root \<Rightarrow>
          list_all (\<lambda>index.
            let entry = page_entry m root index in
            if entry AND ENTRY_PRESENT = 0 then True
            else if entry AND ENTRY_USER = 0 then True
            else case table_pointer (entry AND ENTRY_ADDRESS_MASK) m of
              None \<Rightarrow> False
            | Some pdpt \<Rightarrow> shared_table_supervisor_only pdpt 2 True m) [256..<512])"

end
