(* ===== verification/PageTables.thy ===== *)
theory PageTables
  imports Ring3
begin

text \<open>
  Page tables as trees. \<open>E f i\<close> is entry \<open>i\<close> of the table in frame \<open>f\<close>, \<open>T\<close> the
  table frames one address space owns and \<open>pos f\<close> the indices that lead from the
  root to \<open>f\<close>. \<open>tables_ok\<close> says that the lower half of the root and the tables
  below it form a tree of three levels of tables; \<open>path_entries\<close> collects the
  entries a translation passes. Adding an empty table, dropping one and writing
  an entry of the last level keep the tree, and only the last changes a
  translation: that of its own address.
\<close>

section \<open>Entries that refer to tables\<close>

definition frame_ok :: "u64 \<Rightarrow> bool" where
  "frame_ok g \<longleftrightarrow> g AND 4095 = 0 \<and> g AND NOT ENTRY_ADDRESS_MASK = 0"

lemma and_absorbed:
  fixes x c d :: "'a::len word"
  shows "x AND c = 0 \<Longrightarrow> c AND d = d \<Longrightarrow> x AND d = 0"
  by (metis and.assoc and_zero_eq bit.conj_zero_left)

lemma not_mask_no_execute: "NOT ENTRY_ADDRESS_MASK AND ENTRY_NO_EXECUTE = ENTRY_NO_EXECUTE"
  by code_simp

lemma frame_ok_flags:
  assumes "frame_ok g" "c AND 4095 = c"
  shows "(g OR c) AND ENTRY_ADDRESS_MASK = g" "d AND 4095 = d \<Longrightarrow> (g OR c) AND d = c AND d"
proof -
  have g: "g AND ENTRY_ADDRESS_MASK = g"
  proof -
    have "g = g AND (ENTRY_ADDRESS_MASK OR NOT ENTRY_ADDRESS_MASK)" by simp
    also have "\<dots> = (g AND ENTRY_ADDRESS_MASK) OR (g AND NOT ENTRY_ADDRESS_MASK)"
      by (simp only: bit.conj_disj_distrib)
    finally show ?thesis using assms(1) by (simp add: frame_ok_def)
  qed
  have "c AND ENTRY_ADDRESS_MASK = c AND (4095 AND ENTRY_ADDRESS_MASK)"
    using assms(2) by (metis and.assoc)
  then show "(g OR c) AND ENTRY_ADDRESS_MASK = g" using g by (simp add: bit.conj_disj_distrib2)
  assume d: "d AND 4095 = d"
  have "g AND d = 0"
    using assms(1) d by (intro and_absorbed [of g 4095 d]) (simp_all add: frame_ok_def and.commute)
  then show "(g OR c) AND d = c AND d" by (simp add: bit.conj_disj_distrib2)
qed

definition links_to :: "u64 \<Rightarrow> u64 \<Rightarrow> bool" where
  "links_to e g \<longleftrightarrow> e = g OR 3 \<or> e = g OR 7"

lemma links_to_bits:
  assumes "links_to e g" "frame_ok g"
  shows "e AND ENTRY_ADDRESS_MASK = g" "e AND 1 = 1" "e AND 2 = 2" "e AND 0x80 = 0" "e \<noteq> 0"
    "e AND ENTRY_NO_EXECUTE = 0"
proof -
  have c: "(3 :: u64) AND 4095 = 3" "(7 :: u64) AND 4095 = 7" by simp_all
  have d: "(1 :: u64) AND 4095 = 1" "(2 :: u64) AND 4095 = 2" "(0x80 :: u64) AND 4095 = 0x80" by simp_all
  note low = frame_ok_flags(2) [OF assms(2) c(1)] frame_ok_flags(2) [OF assms(2) c(2)]
  have *: "(e AND ENTRY_ADDRESS_MASK = g \<and> e AND 1 = 1) \<and> e AND 2 = 2 \<and> e AND 0x80 = 0"
    using assms(1) unfolding links_to_def
  proof (elim disjE)
    assume e: "e = g OR 3"
    show ?thesis unfolding e using frame_ok_flags(1) [OF assms(2) c(1)] low(1) [OF d(1)] low(1) [OF d(2)] low(1) [OF d(3)]
      by simp
  next
    assume e: "e = g OR 7"
    show ?thesis unfolding e using frame_ok_flags(1) [OF assms(2) c(2)] low(2) [OF d(1)] low(2) [OF d(2)] low(2) [OF d(3)]
      by simp
  qed
  then show "e AND ENTRY_ADDRESS_MASK = g" "e AND 1 = 1" "e AND 2 = 2" "e AND 0x80 = 0" by simp_all
  from * show "e \<noteq> 0" by auto
  have g: "g AND ENTRY_NO_EXECUTE = 0"
    using assms(2) not_mask_no_execute unfolding frame_ok_def by (blast intro: and_absorbed)
  have "(g OR 3) AND ENTRY_NO_EXECUTE = 0" "(g OR 7) AND ENTRY_NO_EXECUTE = 0"
    by (simp_all only: bit.conj_disj_distrib2 g) simp_all
  then show "e AND ENTRY_NO_EXECUTE = 0" using assms(1) unfolding links_to_def by auto
qed

section \<open>Trees of tables\<close>

definition cell_ok :: "nat list \<Rightarrow> nat \<Rightarrow> bool" where
  "cell_ok p i \<longleftrightarrow> i < (if p = [] then 256 else 512)"

definition tables_ok :: "(u64 \<Rightarrow> nat \<Rightarrow> u64) \<Rightarrow> u64 \<Rightarrow> u64 set \<Rightarrow> (u64 \<Rightarrow> nat list) \<Rightarrow> bool" where
  "tables_ok E root T pos \<longleftrightarrow>
     root \<in> T \<and> pos root = [] \<and> inj_on pos T \<and> finite T \<and>
     (\<forall>f \<in> T. frame_ok f \<and> length (pos f) \<le> 3) \<and>
     (\<forall>f \<in> T. \<forall>i. cell_ok (pos f) i \<longrightarrow> E f i \<noteq> 0 \<longrightarrow>
        (if length (pos f) < 3 then \<exists>g \<in> T. pos g = pos f @ [i] \<and> links_to (E f i) g
         else E f i AND 1 = 1)) \<and>
     (\<forall>g \<in> T - {root}. \<exists>f \<in> T. \<exists>i. cell_ok (pos f) i \<and> pos g = pos f @ [i] \<and> E f i \<noteq> 0)"

text \<open>Every table but the root and those of \<open>X\<close> has an entry.\<close>

definition tables_used :: "(u64 \<Rightarrow> nat \<Rightarrow> u64) \<Rightarrow> u64 \<Rightarrow> u64 set \<Rightarrow> u64 set \<Rightarrow> bool" where
  "tables_used E root T X \<longleftrightarrow> (\<forall>f \<in> T - {root} - X. \<exists>i < 512. E f i \<noteq> 0)"

fun path_entries :: "(u64 \<Rightarrow> nat \<Rightarrow> u64) \<Rightarrow> u64 \<Rightarrow> nat list \<Rightarrow> u64 list option" where
  "path_entries E f [] = Some []"
| "path_entries E f (i # is) =
     (if E f i AND 1 = 0 then None
      else map_option ((#) (E f i)) (path_entries E (E f i AND ENTRY_ADDRESS_MASK) is))"

fun path_ok :: "nat list \<Rightarrow> nat list \<Rightarrow> bool" where
  "path_ok p [] = True"
| "path_ok p (i # is) = (cell_ok p i \<and> path_ok (p @ [i]) is)"

lemma path_ok_append: "path_ok p (is @ js) \<longleftrightarrow> path_ok p is \<and> path_ok (p @ is) js"
  by (induction "is" arbitrary: p) auto

lemma tables_ok_root: "tables_ok E root T pos \<Longrightarrow> root \<in> T \<and> pos root = []"
  by (simp add: tables_ok_def)

lemma tables_ok_frame: "tables_ok E root T pos \<Longrightarrow> f \<in> T \<Longrightarrow> frame_ok f \<and> length (pos f) \<le> 3"
  by (simp add: tables_ok_def)

lemma tables_ok_pos_eq: "tables_ok E root T pos \<Longrightarrow> f \<in> T \<Longrightarrow> g \<in> T \<Longrightarrow> pos f = pos g \<longleftrightarrow> f = g"
  by (auto simp: tables_ok_def inj_on_eq_iff)

text \<open>What an entry of a table above the last level is, and one of the last level.\<close>

lemma tables_ok_entry:
  assumes "tables_ok E root T pos" "f \<in> T" "length (pos f) < 3" "cell_ok (pos f) i" "E f i \<noteq> 0"
  shows "\<exists>g \<in> T. pos g = pos f @ [i] \<and> links_to (E f i) g \<and> frame_ok g"
  using assms unfolding tables_ok_def by (auto split: if_splits)

lemma tables_ok_leaf:
  assumes "tables_ok E root T pos" "f \<in> T" "length (pos f) = 3" "cell_ok (pos f) i" "E f i \<noteq> 0"
  shows "E f i AND 1 = 1"
proof -
  have "\<not> length (pos f) < 3" using assms(3) by simp
  then show ?thesis using assms unfolding tables_ok_def by (auto split: if_splits)
qed

lemma tables_ok_parent:
  assumes "tables_ok E root T pos" "g \<in> T" "g \<noteq> root"
  shows "\<exists>f \<in> T. \<exists>i. cell_ok (pos f) i \<and> pos g = pos f @ [i] \<and> E f i \<noteq> 0"
  using assms unfolding tables_ok_def by blast

text \<open>Walks that stay in a tree and see the same entries give the same result.\<close>

lemma path_entries_cong:
  assumes ok: "tables_ok E root T pos"
    and same: "\<And>f i more. f \<in> T \<Longrightarrow> cell_ok (pos f) i \<Longrightarrow> path = pos f @ i # more \<Longrightarrow> E' f i = E f i"
    and f: "f \<in> T" "path = pos f @ rest" "path_ok (pos f) rest" "length path \<le> 4"
  shows "path_entries E' f rest = path_entries E f rest"
  using f
proof (induction rest arbitrary: f)
  case (Cons i rest)
  from Cons.prems have i: "cell_ok (pos f) i" "path_ok (pos f @ [i]) rest" by simp_all
  have e: "E' f i = E f i" using Cons.prems i by (intro same [of f i rest]) simp_all
  show ?case
  proof (cases "E f i = 0")
    case True
    then show ?thesis using e by simp
  next
    case nz: False
    show ?thesis
    proof (cases "length (pos f) < 3")
      case True
      from tables_ok_entry [OF ok Cons.prems(1) True i(1) nz] obtain g where
        g: "g \<in> T" "pos g = pos f @ [i]" "links_to (E f i) g" "frame_ok g" by blast
      have "path_entries E' g rest = path_entries E g rest"
        using Cons.prems i g by (intro Cons.IH) simp_all
      then show ?thesis using e links_to_bits [OF g(3,4)] by simp
    next
      case False
      then have "rest = []" using Cons.prems(2,4) by (cases rest) simp_all
      then show ?thesis using e by simp
    qed
  qed
qed simp

lemma tables_ok_prefix:
  assumes ok: "tables_ok E root T pos"
  shows "g \<in> T \<Longrightarrow> pos g = p @ q \<Longrightarrow> \<exists>h \<in> T. pos h = p"
proof (induction q arbitrary: g rule: rev_induct)
  case Nil
  then show ?case by auto
next
  case (snoc i q)
  then have "g \<noteq> root" using tables_ok_root [OF ok] by auto
  from tables_ok_parent [OF ok snoc.prems(1) this] obtain f j where
    "f \<in> T" "pos g = pos f @ [j]" by blast
  then show ?case using snoc.prems(2) by (intro snoc.IH [of f]) simp_all
qed

lemma path_ok_pos:
  assumes ok: "tables_ok E root T pos" and g: "g \<in> T"
  shows "path_ok [] (pos g)"
proof -
  have "pos g = p @ q \<Longrightarrow> path_ok [] p" for p q
  proof (induction p arbitrary: q rule: rev_induct)
    case (snoc i p)
    obtain h where h: "h \<in> T" "pos h = p @ [i]" using tables_ok_prefix [OF ok g snoc.prems] by blast
    then have "h \<noteq> root" using tables_ok_root [OF ok] by auto
    from tables_ok_parent [OF ok h(1) this] obtain f j where "cell_ok (pos f) j" "pos h = pos f @ [j]" by blast
    then show ?case using h(2) snoc by (simp add: path_ok_append)
  qed simp
  from this [of "pos g" "[]"] show ?thesis by simp
qed

text \<open>A walk along a table's own position ends at that table.\<close>

lemma path_entries_table:
  assumes ok: "tables_ok E root T pos" and f: "f \<in> T" and g: "g \<in> T" and p: "pos g = pos f @ rest"
  shows "\<exists>es. \<forall>more. path_entries E f (rest @ more) = map_option ((@) es) (path_entries E g more)"
  using f p
proof (induction rest arbitrary: f)
  case Nil
  then have "f = g" using tables_ok_pos_eq [OF ok _ g] by auto
  then show ?case by (intro exI [of _ "[]"]) (simp add: option.map_ident)
next
  case (Cons i rest)
  have len: "length (pos f) < 3" using Cons.prems tables_ok_frame [OF ok g] by simp
  obtain h where h: "h \<in> T" "pos h = pos f @ [i]"
    using tables_ok_prefix [OF ok g, of "pos f @ [i]" rest] Cons.prems(2) by auto
  have "h \<noteq> root" using h(2) tables_ok_root [OF ok] by auto
  from tables_ok_parent [OF ok h(1) this] obtain f' j where
    f': "f' \<in> T" "cell_ok (pos f') j" "pos h = pos f' @ [j]" "E f' j \<noteq> 0" by blast
  then have "pos f' = pos f" and j: "j = i" using h(2) by simp_all
  then have "f' = f" using tables_ok_pos_eq [OF ok f'(1) Cons.prems(1)] by blast
  note f' = f' [unfolded this j]
  from tables_ok_entry [OF ok Cons.prems(1) len f'(2,4)] obtain h' where
    h': "h' \<in> T" "pos h' = pos f @ [i]" "links_to (E f i) h'" "frame_ok h'" by blast
  then have "h' = h" using h(2) tables_ok_pos_eq [OF ok h'(1) h(1)] by metis
  note h' = h' [unfolded this]
  have "pos g = pos h @ rest" using Cons.prems(2) h(2) by simp
  from Cons.IH [OF h(1) this] obtain es where
    es: "\<forall>more. path_entries E h (rest @ more) = map_option ((@) es) (path_entries E g more)" ..
  have "path_entries E f ((i # rest) @ more) = map_option ((@) (E f i # es)) (path_entries E g more)" for more
    using links_to_bits [OF h'(3,4)] es by (cases "path_entries E g more") simp_all
  then show ?case by blast
qed


section \<open>Changing a tree\<close>

lemma path_entries_at:
  assumes ok: "tables_ok E root T pos" and t: "t \<in> T"
  shows "\<exists>es. \<forall>more. path_entries E root (pos t @ more) = map_option ((@) es) (path_entries E t more)"
  using path_entries_table [OF ok _ t, of root "pos t"] tables_ok_root [OF ok] by simp

text \<open>A new empty table \<open>g\<close> in the free entry \<open>i\<close> of \<open>t\<close>.\<close>

definition add_table :: "(u64 \<Rightarrow> nat \<Rightarrow> u64) \<Rightarrow> u64 \<Rightarrow> nat \<Rightarrow> u64 \<Rightarrow> u64 \<Rightarrow> u64 \<Rightarrow> nat \<Rightarrow> u64" where
  "add_table E t i e g f j = (if f = t \<and> j = i then e else if f = g \<and> j < 512 then 0 else E f j)"

lemma add_table_ok:
  assumes ok: "tables_ok E root T pos"
    and t: "t \<in> T" "length (pos t) < 3" "cell_ok (pos t) i" "E t i = 0"
    and g: "g \<notin> T" "frame_ok g" "links_to e g"
    and E': "\<And>f j. f \<in> insert g T \<Longrightarrow> j < 512 \<Longrightarrow> E' f j = add_table E t i e g f j"
  shows "tables_ok E' root (insert g T) (pos(g := pos t @ [i]))"
proof -
  let ?pos = "pos(g := pos t @ [i])"
  have lt: "cell_ok p j \<Longrightarrow> j < 512" for p j by (auto simp: cell_ok_def split: if_splits)
  have new: "pos h \<noteq> pos t @ [i]" if "h \<in> T" for h
  proof
    assume h: "pos h = pos t @ [i]"
    then have "h \<noteq> root" using tables_ok_root [OF ok] by auto
    from tables_ok_parent [OF ok that this] obtain f j where
      f: "f \<in> T" "pos h = pos f @ [j]" "E f j \<noteq> 0" by blast
    then have "pos f = pos t" "j = i" using h by simp_all
    then have "f = t" using tables_ok_pos_eq [OF ok f(1) t(1)] by blast
    then show False using f t \<open>j = i\<close> by simp
  qed
  have old: "E' f j = (if f = t \<and> j = i then e else E f j)" if "f \<in> T" "cell_ok (pos f) j" for f j
    using E' [of f j] that g(1) lt by (auto simp: add_table_def)
  have emp: "E' g j = 0" if "j < 512" for j using E' [of g j] that g(1) t(1) by (auto simp: add_table_def)
  have tg: "t \<noteq> g" "root \<noteq> g" using g(1) t(1) tables_ok_root [OF ok] by auto
  have e: "e \<noteq> 0" using links_to_bits [OF g(3,2)] by simp
  show ?thesis
    unfolding tables_ok_def
  proof (intro conjI ballI allI impI)
    show "root \<in> insert g T" "?pos root = []" using tables_ok_root [OF ok] tg by simp_all
    show "inj_on ?pos (insert g T)"
    proof (rule inj_onI)
      fix a b assume ab: "a \<in> insert g T" "b \<in> insert g T" "?pos a = ?pos b"
      show "a = b"
      proof (cases "a = g \<or> b = g")
        case True
        then show ?thesis using ab new [of a] new [of b] by (cases "a = g"; cases "b = g") simp_all
      next
        case False
        then show ?thesis using ab tables_ok_pos_eq [OF ok, of a b] by simp
      qed
    qed
    show "finite (insert g T)" using ok by (simp add: tables_ok_def)
    fix f assume f: "f \<in> insert g T"
    show "frame_ok f" "length (?pos f) \<le> 3"
      using f g(2) t(2) tables_ok_frame [OF ok, of f] by (cases "f = g"; simp)+
    fix j assume j: "cell_ok (?pos f) j" "E' f j \<noteq> 0"
    then have fT: "f \<in> T" "f \<noteq> g" using f emp [of j] lt by auto
    show "if length (?pos f) < 3 then \<exists>h \<in> insert g T. ?pos h = ?pos f @ [j] \<and> links_to (E' f j) h
        else E' f j AND 1 = 1"
    proof (cases "f = t \<and> j = i")
      case True
      then have "links_to (E' f j) g" using old [of f j] fT j g(3) by simp
      then show ?thesis using True t(2) tg by auto
    next
      case False
      then have E: "E' f j = E f j" using old [of f j] fT j by auto
      show ?thesis
      proof (cases "length (pos f) < 3")
        case True
        then obtain h where "h \<in> T" "pos h = pos f @ [j]" "links_to (E f j) h"
          using tables_ok_entry [OF ok fT(1) True] j fT E by auto
        then show ?thesis using E fT g(1) True by (intro if_P [THEN iffD2] bexI [of _ h]) auto
      next
        case False
        then have "length (pos f) = 3" using tables_ok_frame [OF ok fT(1)] by simp
        then show ?thesis using tables_ok_leaf [OF ok fT(1)] j fT E by simp
      qed
    qed
  next
    fix h assume h: "h \<in> insert g T - {root}"
    show "\<exists>f \<in> insert g T. \<exists>j. cell_ok (?pos f) j \<and> ?pos h = ?pos f @ [j] \<and> E' f j \<noteq> 0"
    proof (cases "h = g")
      case True
      then show ?thesis using t tg old [of t i] e by (intro bexI [of _ t] exI [of _ i]) simp_all
    next
      case False
      then obtain f j where f: "f \<in> T" "cell_ok (pos f) j" "pos h = pos f @ [j]" "E f j \<noteq> 0"
        using h tables_ok_parent [OF ok, of h] by auto
      then have "E' f j \<noteq> 0" using old [of f j] e by auto
      moreover have "f \<noteq> g" using f g(1) by auto
      ultimately show ?thesis using f False by (intro bexI [of _ f] exI [of _ j]) simp_all
    qed
  qed
qed

text \<open>A walk that reaches an empty entry of a table finds nothing.\<close>

lemma path_entries_empty:
  assumes "tables_ok E root T pos" "t \<in> T" "E t i = 0"
  shows "path_entries E root (pos t @ i # rest) = None"
  using path_entries_at [OF assms(1,2)] assms(3) by auto

lemma add_table_paths:
  assumes ok: "tables_ok E root T pos"
    and t: "t \<in> T" "length (pos t) < 3" "cell_ok (pos t) i" "E t i = 0"
    and g: "g \<notin> T" "frame_ok g" "links_to e g"
    and E': "\<And>f j. f \<in> insert g T \<Longrightarrow> j < 512 \<Longrightarrow> E' f j = add_table E t i e g f j"
    and p: "length path = 4" "path_ok [] path"
  shows "path_entries E' root path = path_entries E root path"
proof (cases "\<exists>more. path = pos t @ i # more")
  case False
  have lt: "cell_ok p j \<Longrightarrow> j < 512" for p j by (auto simp: cell_ok_def split: if_splits)
  have "E' f j = E f j" if "f \<in> T" "cell_ok (pos f) j" "path = pos f @ j # more" for f j more
    using that False E' [of f j] g(1) lt by (auto simp: add_table_def)
  then show ?thesis
    using path_entries_cong [OF ok, of path E' root path] tables_ok_root [OF ok] p by simp
next
  case True
  then obtain more where more: "path = pos t @ i # more" ..
  then have "length (pos t) + length more = 3" using p(1) by simp
  then have "more \<noteq> []" using t(2) by auto
  then obtain j js where js: "more = j # js" by (cases more) simp_all
  have "j < 512" using p(2) unfolding more js path_ok_append by (auto simp: cell_ok_def split: if_splits)
  then have "E' g j = 0" using E' [of g j] g(1) t(1) by (auto simp: add_table_def)
  from path_entries_empty [where t = g and rest = js, OF add_table_ok [OF ok t g E'], simplified, OF this]
  have "path_entries E' root path = None" by (simp add: more js)
  then show ?thesis using path_entries_empty [OF ok t(1,4)] more by simp
qed

text \<open>An empty table \<open>g\<close> is dropped from the entry \<open>i\<close> of \<open>t\<close>.\<close>

lemma drop_table_ok:
  assumes ok: "tables_ok E root T pos"
    and t: "t \<in> T" "g \<in> T" "pos g = pos t @ [i]"
    and emp: "\<And>j. j < 512 \<Longrightarrow> E g j = 0"
    and E': "\<And>f j. f \<in> T - {g} \<Longrightarrow> j < 512 \<Longrightarrow> E' f j = (if f = t \<and> j = i then 0 else E f j)"
  shows "tables_ok E' root (T - {g}) pos"
proof -
  have lt: "cell_ok p j \<Longrightarrow> j < 512" for p j by (auto simp: cell_ok_def split: if_splits)
  have gr: "g \<noteq> root" using t(3) tables_ok_root [OF ok] by auto
  have old: "E' f j = (if f = t \<and> j = i then 0 else E f j)" if "f \<in> T - {g}" "cell_ok (pos f) j" for f j
    using E' that lt by blast
  show ?thesis
    unfolding tables_ok_def
  proof (intro conjI ballI allI impI)
    show "root \<in> T - {g}" "pos root = []" using tables_ok_root [OF ok] gr by simp_all
    show "inj_on pos (T - {g})" "finite (T - {g})"
      using ok by (auto simp: tables_ok_def intro: inj_on_subset)
    fix f assume f: "f \<in> T - {g}"
    show "frame_ok f" "length (pos f) \<le> 3" using f tables_ok_frame [OF ok, of f] by simp_all
    fix j assume j: "cell_ok (pos f) j" "E' f j \<noteq> 0"
    then have E: "E' f j = E f j" "\<not> (f = t \<and> j = i)" using old [OF f j(1)] by (auto split: if_splits)
    show "if length (pos f) < 3 then \<exists>h \<in> T - {g}. pos h = pos f @ [j] \<and> links_to (E' f j) h
        else E' f j AND 1 = 1"
    proof (cases "length (pos f) < 3")
      case True
      then obtain h where h: "h \<in> T" "pos h = pos f @ [j]" "links_to (E f j) h"
        using tables_ok_entry [OF ok _ True j(1)] f j(2) E by auto
      have "h \<noteq> g"
      proof
        assume "h = g"
        then have "pos f = pos t" "j = i" using h(2) t(3) by simp_all
        then show False using E(2) tables_ok_pos_eq [OF ok, of f t] f t(1) by blast
      qed
      then show ?thesis using h E True by auto
    next
      case False
      then have "length (pos f) = 3" using f tables_ok_frame [OF ok, of f] by simp
      then show ?thesis using tables_ok_leaf [OF ok] f j E by simp
    qed
  next
    fix h assume h: "h \<in> T - {g} - {root}"
    then obtain f j where f: "f \<in> T" "cell_ok (pos f) j" "pos h = pos f @ [j]" "E f j \<noteq> 0"
      using tables_ok_parent [OF ok, of h] by auto
    have "f \<noteq> g" using emp [of j] f lt by auto
    moreover have "\<not> (f = t \<and> j = i)"
    proof
      assume "f = t \<and> j = i"
      then have "pos h = pos g" using f t by simp
      then show False using h tables_ok_pos_eq [OF ok, of h g] t(2) by simp
    qed
    ultimately have "E' f j \<noteq> 0" using old [of f j] f by auto
    then show "\<exists>f \<in> T - {g}. \<exists>j. cell_ok (pos f) j \<and> pos h = pos f @ [j] \<and> E' f j \<noteq> 0"
      using f \<open>f \<noteq> g\<close> by blast
  qed
qed

lemma drop_table_paths:
  assumes ok: "tables_ok E root T pos"
    and t: "t \<in> T" "g \<in> T" "pos g = pos t @ [i]"
    and emp: "\<And>j. j < 512 \<Longrightarrow> E g j = 0"
    and E': "\<And>f j. f \<in> T - {g} \<Longrightarrow> j < 512 \<Longrightarrow> E' f j = (if f = t \<and> j = i then 0 else E f j)"
    and p: "length path = 4" "path_ok [] path"
  shows "path_entries E' root path = path_entries E root path"
proof -
  note ok' = drop_table_ok [OF ok t emp E']
  have lt: "cell_ok p j \<Longrightarrow> j < 512" for p j by (auto simp: cell_ok_def split: if_splits)
  have tg: "t \<noteq> g" using t(3) by auto
  show ?thesis
  proof (cases "\<exists>more. path = pos t @ i # more")
    case False
    have "E f j = E' f j" if "f \<in> T - {g}" "cell_ok (pos f) j" "path = pos f @ j # more" for f j more
      using that False E' [of f j] lt by auto
    then show ?thesis
      using path_entries_cong [OF ok', of path E root path] tables_ok_root [OF ok'] p by simp
  next
    case True
    then obtain more where more: "path = pos t @ i # more" ..
    have "length (pos g) \<le> 3" using tables_ok_frame [OF ok t(2)] by simp
    moreover have "length (pos t) + length more = 3" using p(1) more by simp
    ultimately have "more \<noteq> []" using t(3) by auto
    then obtain j js where js: "more = j # js" by (cases more) simp_all
    have i: "cell_ok (pos t) i" and "j < 512"
      using p(2) unfolding more js path_ok_append by (auto simp: cell_ok_def split: if_splits)
    then have "path_entries E root path = None"
      using path_entries_empty [OF ok t(2) emp, of j js] t(3) by (simp add: more js)
    moreover have "E' t i = 0" using E' [of t i] t(1) tg lt [OF i] by simp
    ultimately show ?thesis using path_entries_empty [OF ok', of t i more] t(1) tg more by simp
  qed
qed

text \<open>A write to an entry of the last level.\<close>

lemma set_leaf_ok:
  assumes ok: "tables_ok E root T pos"
    and t: "t \<in> T" "length (pos t) = 3" and v: "v = 0 \<or> v AND 1 = 1"
    and E': "\<And>f j. f \<in> T \<Longrightarrow> j < 512 \<Longrightarrow> E' f j = (if f = t \<and> j = i then v else E f j)"
  shows "tables_ok E' root T pos"
proof -
  have lt: "cell_ok p j \<Longrightarrow> j < 512" for p j by (auto simp: cell_ok_def split: if_splits)
  have old: "E' f j = E f j" if "f \<in> T" "cell_ok (pos f) j" "length (pos f) < 3" for f j
    using E' [of f j] that lt t(2) by auto
  show ?thesis
    unfolding tables_ok_def
  proof (intro conjI ballI allI impI)
    show "root \<in> T" "pos root = []" using tables_ok_root [OF ok] by simp_all
    show "inj_on pos T" "finite T" using ok by (auto simp: tables_ok_def)
    fix f assume f: "f \<in> T"
    show "frame_ok f" "length (pos f) \<le> 3" using tables_ok_frame [OF ok f] by simp_all
    fix j assume j: "cell_ok (pos f) j" "E' f j \<noteq> 0"
    show "if length (pos f) < 3 then \<exists>h \<in> T. pos h = pos f @ [j] \<and> links_to (E' f j) h else E' f j AND 1 = 1"
    proof (cases "length (pos f) < 3")
      case True
      then show ?thesis using tables_ok_entry [OF ok f True j(1)] old [OF f j(1) True] j(2) by auto
    next
      case False
      then have "length (pos f) = 3" using tables_ok_frame [OF ok f] by simp
      then show ?thesis
        using E' [OF f lt [OF j(1)]] tables_ok_leaf [OF ok f _ j(1)] v j(2) by (cases "f = t \<and> j = i") auto
    qed
  next
    fix h assume h: "h \<in> T - {root}"
    then obtain f j where f: "f \<in> T" "cell_ok (pos f) j" "pos h = pos f @ [j]" "E f j \<noteq> 0"
      using tables_ok_parent [OF ok, of h] by auto
    then have "length (pos f) < 3" using tables_ok_frame [OF ok, of h] h by simp
    then show "\<exists>f \<in> T. \<exists>j. cell_ok (pos f) j \<and> pos h = pos f @ [j] \<and> E' f j \<noteq> 0"
      using f old [of f j] by (intro bexI [of _ f] exI [of _ j]) simp_all
  qed
qed

lemma set_leaf_paths:
  assumes ok: "tables_ok E root T pos"
    and t: "t \<in> T" "length (pos t) = 3" and i: "cell_ok (pos t) i" and v: "v = 0 \<or> v AND 1 = 1"
    and E': "\<And>f j. f \<in> T \<Longrightarrow> j < 512 \<Longrightarrow> E' f j = (if f = t \<and> j = i then v else E f j)"
  shows "path_ok [] path \<Longrightarrow> length path = 4 \<Longrightarrow> path \<noteq> pos t @ [i] \<Longrightarrow>
      path_entries E' root path = path_entries E root path"
    and "v = 0 \<Longrightarrow> path_entries E' root (pos t @ [i]) = None"
    and "path_entries E root (pos t) = Some es \<Longrightarrow> v \<noteq> 0 \<Longrightarrow>
      path_entries E' root (pos t @ [i]) = Some (es @ [v])"
proof -
  note ok' = set_leaf_ok [OF ok t v E']
  have lt: "cell_ok p j \<Longrightarrow> j < 512" for p j by (auto simp: cell_ok_def split: if_splits)
  have ti: "E' t i = v" using E' [OF t(1) lt [OF i]] by simp
  {
    assume p: "path_ok [] path" "length path = 4" "path \<noteq> pos t @ [i]"
    have "E' f j = E f j" if "f \<in> T" "cell_ok (pos f) j" "path = pos f @ j # more" for f j more
      using that p t(2) E' [of f j] lt by (cases more) auto
    then show "path_entries E' root path = path_entries E root path"
      using path_entries_cong [OF ok, of path E' root path] tables_ok_root [OF ok] p by simp
  }
  show "v = 0 \<Longrightarrow> path_entries E' root (pos t @ [i]) = None"
    using path_entries_empty [OF ok' t(1), of i "[]"] ti by simp
  assume es: "path_entries E root (pos t) = Some es" and nz: "v \<noteq> 0"
  have "E' f j = E f j" if "f \<in> T" "cell_ok (pos f) j" "pos t = pos f @ j # js" for f j js
    using that t(2) E' [of f j] lt by auto
  then have "path_entries E' root (pos t) = Some es"
    using path_entries_cong [OF ok, of "pos t" E' root "pos t"] tables_ok_root [OF ok] t(2)
      path_ok_pos [OF ok t(1)] es by simp
  moreover obtain es' where es': "\<forall>js. path_entries E' root (pos t @ js) = map_option ((@) es') (path_entries E' t js)"
    using path_entries_at [OF ok' t(1)] by blast
  ultimately have "es' = es" using spec [OF es', of "[]"] by simp
  then show "path_entries E' root (pos t @ [i]) = Some (es @ [v])"
    using spec [OF es', of "[i]"] ti v nz by auto
qed

end
