(* ===== verification/PagingSteps.thy ===== *)
theory PagingSteps
  imports PageTables
begin

text \<open>
  What the steps of mapping a page do to the machine: reading and writing
  entries, the frame allocator, taking a frame as a table and giving it back.
  \<open>kept\<close> is what every operation on an address space leaves alone, \<open>unchanged\<close>
  the effect of an operation that fails, \<open>gained\<close> that of creating a table. The
  locale \<open>table_mapper\<close> states what the two copies of the mapping code owe, and
  shows once that a mapping is made exactly or not at all.
\<close>

section \<open>Entries\<close>

lemma page_entry_set [simp]:
  "page_entry (set_page_entry f i v m) g j = (if g = f \<and> j = i then v else page_entry m g j)"
proof -
  let ?bs = "store_le64 (replicate 8 0) 0 v"
  have l: "length ?bs = 8" by simp
  show ?thesis
  proof (cases "g = f")
    case False
    then show ?thesis by (simp add: page_entry_def set_page_entry_def)
  next
    case True
    show ?thesis
    proof (cases "j = i")
      case True
      have "map (pg_memory (set_page_entry f i v m) f) [8 * i..<8 * i + 8] = ?bs"
        by (rule nth_equalityI) (simp_all add: l set_page_entry_def)
      then show ?thesis
        using True \<open>g = f\<close> load_store_le64 [of 0 "replicate 8 0" v] by (simp add: page_entry_def)
    next
      case False
      have "\<not> (8 * i \<le> k \<and> k < 8 * i + 8)" if "8 * j \<le> k" "k < 8 * j + 8" for k
        using that False by linarith
      then have "map (pg_memory (set_page_entry f i v m) f) [8 * j..<8 * j + 8] =
          map (pg_memory m f) [8 * j..<8 * j + 8]"
        by (auto simp: set_page_entry_def)
      then have "page_entry (set_page_entry f i v m) f j = page_entry m f j"
        unfolding page_entry_def by (rule arg_cong)
      then show ?thesis using True False by simp
    qed
  qed
qed

lemma set_page_entry_fields [simp]:
  "pg_pmm (set_page_entry f i v m) = pg_pmm m" "pg_spaces (set_page_entry f i v m) = pg_spaces m"
  "g \<noteq> f \<Longrightarrow> pg_memory (set_page_entry f i v m) g = pg_memory m g"
  by (simp_all add: set_page_entry_def)

lemma set_page_entry_only: "\<exists>mem. set_page_entry f i v m = m\<lparr>pg_memory := mem\<rparr>"
  by (auto simp: set_page_entry_def)

lemma zero_entries_only: "\<exists>mem. zero_entries f m = m\<lparr>pg_memory := mem\<rparr>"
proof -
  have "\<exists>mem. fold (\<lambda>index. set_page_entry f index 0) is m = m\<lparr>pg_memory := mem\<rparr>" for "is"
  proof (induction "is" arbitrary: m)
    case Nil
    then show ?case by (auto intro: exI [of _ "pg_memory m"])
  next
    case (Cons i "is")
    obtain mem where "set_page_entry f i 0 m = m\<lparr>pg_memory := mem\<rparr>" using set_page_entry_only by blast
    then show ?case using Cons.IH [of "m\<lparr>pg_memory := mem\<rparr>"] by auto
  qed
  then show ?thesis by (simp add: zero_entries_def)
qed

lemma page_entry_zero [simp]:
  "page_entry (zero_entries f m) g j = (if g = f \<and> j < 512 then 0 else page_entry m g j)"
proof -
  have "page_entry (fold (\<lambda>index. set_page_entry f index 0) is m) g j =
      (if g = f \<and> j \<in> set is then 0 else page_entry m g j)" for "is"
    by (induction "is" arbitrary: m) auto
  from this [of "[0..<512]"] show ?thesis unfolding zero_entries_def set_upt by simp
qed

lemma pg_memory_zero [simp]: "g \<noteq> f \<Longrightarrow> pg_memory (zero_entries f m) g = pg_memory m g"
proof -
  have "g \<noteq> f \<Longrightarrow> pg_memory (fold (\<lambda>index. set_page_entry f index 0) is m) g = pg_memory m g" for "is"
    by (induction "is" arbitrary: m) auto
  then show "g \<noteq> f \<Longrightarrow> ?thesis" by (simp add: zero_entries_def)
qed

lemma zero_entries_fields [simp]:
  "pg_pmm (zero_entries f m) = pg_pmm m" "pg_spaces (zero_entries f m) = pg_spaces m"
  using zero_entries_only [of f m] by auto

text \<open>Updates of other fields leave the entries alone.\<close>

lemma page_entry_memory: "pg_memory m' = pg_memory m \<Longrightarrow> page_entry m' = page_entry m"
  by (intro ext) (simp add: page_entry_def)

lemma page_entry_frame: "pg_memory m' f = pg_memory m f \<Longrightarrow> page_entry m' f = page_entry m f"
  by (intro ext) (simp add: page_entry_def)

lemma page_entry_fields [simp]:
  "page_entry (m\<lparr>pg_pmm := p\<rparr>) = page_entry m" "page_entry (set_space q s m) = page_entry m"
  "page_entry (m\<lparr>pg_invalidated := is\<rparr>) = page_entry m"
  by (rule page_entry_memory, simp add: set_space_def)+

section \<open>Frames\<close>

definition managed_frames :: "paging \<Rightarrow> u64 set" where
  "managed_frames m = {f. unat f \<in> set (frame_addresses (pg_pmm m))}"

definition free_frames :: "paging \<Rightarrow> u64 set" where
  "free_frames m = {f. unat f \<in> free_addresses (pg_pmm m)}"

definition owned_tables :: "paging \<Rightarrow> u64 \<Rightarrow> u64 set" where
  "owned_tables m p = set (as_owned (pg_spaces m p))"

lemma frames_cong:
  "pg_pmm m' = pg_pmm m \<Longrightarrow> free_frames m' = free_frames m"
  "pg_pmm m' = pg_pmm m \<Longrightarrow> managed_frames m' = managed_frames m"
  by (simp_all add: free_frames_def managed_frames_def)

lemma frames_fields [simp]:
  "free_frames (set_page_entry f i v m) = free_frames m" "managed_frames (set_page_entry f i v m) = managed_frames m"
  "free_frames (zero_entries f m) = free_frames m" "managed_frames (zero_entries f m) = managed_frames m"
  "free_frames (set_space p s m) = free_frames m" "managed_frames (set_space p s m) = managed_frames m"
  "free_frames (m\<lparr>pg_invalidated := is\<rparr>) = free_frames m" "managed_frames (m\<lparr>pg_invalidated := is\<rparr>) = managed_frames m"
  by (rule frames_cong, simp add: set_space_def)+

lemma unat_frames:
  "{x :: u64. unat x \<in> A - {unat f}} = {x. unat x \<in> A} - {f}"
  "{x :: u64. unat x \<in> insert (unat f) A} = insert f {x. unat x \<in> A}"
proof -
  have "unat x = unat f \<longleftrightarrow> x = f" for x by (simp add: word_unat_eq_iff)
  then show "{x :: u64. unat x \<in> A - {unat f}} = {x. unat x \<in> A} - {f}"
    "{x :: u64. unat x \<in> insert (unat f) A} = insert f {x. unat x \<in> A}" by auto
qed

lemma free_managed: "pmm_wf (pg_pmm m) \<Longrightarrow> free_frames m \<subseteq> managed_frames m"
  using pmm.avail_managed [of "pg_pmm m"] by (auto simp: free_frames_def managed_frames_def)

lemma alloc_frame_some:
  assumes "pmm_wf (pg_pmm m)" "alloc_frame m = (Some f, m')"
  shows "\<exists>p. m' = m\<lparr>pg_pmm := p\<rparr> \<and> pmm_wf p" "f \<in> free_frames m"
    "free_frames m' = free_frames m - {f}" "managed_frames m' = managed_frames m"
proof -
  obtain p where p: "pmm_alloc_frame (pg_pmm m) = (Some f, p)" "m' = m\<lparr>pg_pmm := p\<rparr>"
    using assms(2) by (auto simp: alloc_frame_def split: prod.splits)
  note get = pmm.get_some [OF assms(1) p(1)]
  show "\<exists>p. m' = m\<lparr>pg_pmm := p\<rparr> \<and> pmm_wf p" using p(2) get by blast
  show "f \<in> free_frames m" "managed_frames m' = managed_frames m"
    using p(2) get by (simp_all add: free_frames_def managed_frames_def)
  have "free_addresses (pg_pmm m') = free_addresses (pg_pmm m) - {unat f}" using get p(2) by simp
  then show "free_frames m' = free_frames m - {f}"
    unfolding free_frames_def by (simp only: unat_frames)
qed

lemma alloc_frame_none:
  assumes "pmm_wf (pg_pmm m)" "alloc_frame m = (None, m')"
  shows "m' = m" "free_frames m = {}"
proof -
  obtain p where p: "pmm_alloc_frame (pg_pmm m) = (None, p)" "m' = m\<lparr>pg_pmm := p\<rparr>"
    using assms(2) by (auto simp: alloc_frame_def split: prod.splits)
  from pmm.get_none [OF assms(1) p(1)] p(2) show "m' = m" "free_frames m = {}"
    by (simp_all add: free_frames_def)
qed

lemma free_frame_correct:
  assumes "pmm_wf (pg_pmm m)" "free_frame f m = (ok, m')"
  shows "\<exists>p. m' = m\<lparr>pg_pmm := p\<rparr> \<and> pmm_wf p" "managed_frames m' = managed_frames m"
    "ok = (f \<in> managed_frames m - free_frames m)"
    "free_frames m' = (if ok then insert f (free_frames m) else free_frames m)"
proof -
  obtain p where p: "pmm_free_frame f (pg_pmm m) = (ok, p)" "m' = m\<lparr>pg_pmm := p\<rparr>"
    using assms(2) by (auto simp: free_frame_def split: prod.splits)
  note put = pmm.put_frame [OF assms(1) p(1)]
  show "\<exists>p. m' = m\<lparr>pg_pmm := p\<rparr> \<and> pmm_wf p" using p(2) put by blast
  show "managed_frames m' = managed_frames m" "ok = (f \<in> managed_frames m - free_frames m)"
    using p(2) put by (simp_all add: free_frames_def managed_frames_def)
  have "free_addresses (pg_pmm m') =
      (if ok then insert (unat f) (free_addresses (pg_pmm m)) else free_addresses (pg_pmm m))"
    using put p(2) by simp
  then show "free_frames m' = (if ok then insert f (free_frames m) else free_frames m)"
    unfolding free_frames_def by (cases ok) (simp_all only: unat_frames if_True if_False)
qed

lemma frame_is_usable_iff: "pmm_wf (pg_pmm m) \<Longrightarrow> frame_is_usable f m \<longleftrightarrow> f \<in> managed_frames m"
  by (simp add: frame_is_usable_def pmm_usable_iff managed_frames_def)

section \<open>Address spaces\<close>

definition live_space :: "paging \<Rightarrow> u64 \<Rightarrow> bool" where
  "live_space m p \<longleftrightarrow> p \<noteq> 0 \<and> as_initialized (pg_spaces m p) \<and> \<not> as_bootstrap (pg_spaces m p)"

text \<open>All managed frames are reached through the direct map, by both copies of the code.\<close>

definition direct_map :: "paging \<Rightarrow> bool" where
  "direct_map m \<longleftrightarrow> pg_initialized m \<and> pmm_wf (pg_pmm m) \<and>
     (\<forall>f \<in> managed_frames m. frame_ok f \<and> address_space_table_pointer f m = Some f \<and> table_pointer f m = Some f)"

definition space_inv :: "u64 \<Rightarrow> u64 set \<Rightarrow> (u64 \<Rightarrow> nat list) \<Rightarrow> paging \<Rightarrow> bool" where
  "space_inv p X pos m \<longleftrightarrow> live_space m p \<and> direct_map m \<and>
     distinct (as_owned (pg_spaces m p)) \<and> length (as_owned (pg_spaces m p)) \<le> 128 \<and>
     owned_tables m p \<subseteq> managed_frames m - free_frames m \<and>
     tables_ok (page_entry m) (as_root (pg_spaces m p)) (owned_tables m p) pos \<and>
     tables_used (page_entry m) (as_root (pg_spaces m p)) (owned_tables m p) X"

text \<open>The fields that no operation on the tables of one space writes.\<close>

definition same_machine :: "paging \<Rightarrow> paging \<Rightarrow> bool" where
  "same_machine m m' \<longleftrightarrow> pg_cr3 m' = pg_cr3 m \<and> pg_nx_enabled m' = pg_nx_enabled m \<and>
     pg_vmm_stats m' = pg_vmm_stats m \<and> pg_bootstrap_space m' = pg_bootstrap_space m \<and>
     pg_current_space m' = pg_current_space m \<and> pg_bootstrap_root m' = pg_bootstrap_root m \<and>
     pg_hhdm_offset m' = pg_hhdm_offset m \<and> pg_created m' = pg_created m \<and>
     pg_destroyed m' = pg_destroyed m \<and> pg_switches m' = pg_switches m \<and>
     pg_initialized m' = pg_initialized m"

text \<open>What an operation on the space \<open>p\<close> leaves as it was, and where its frames come from.\<close>

definition kept :: "u64 \<Rightarrow> paging \<Rightarrow> paging \<Rightarrow> bool" where
  "kept p m m' \<longleftrightarrow>
     same_machine m m' \<and> (\<forall>q. q \<noteq> p \<longrightarrow> pg_spaces m' q = pg_spaces m q) \<and>
     pg_spaces m' p = (pg_spaces m p)\<lparr>as_owned := as_owned (pg_spaces m' p)\<rparr> \<and>
     pmm_wf (pg_pmm m') \<and> managed_frames m' = managed_frames m \<and>
     free_frames m' \<union> owned_tables m' p = free_frames m \<union> owned_tables m p \<and>
     (\<forall>f. f \<notin> free_frames m \<union> owned_tables m p \<longrightarrow> pg_memory m' f = pg_memory m f) \<and>
     (\<forall>i \<ge> 256. page_entry m' (as_root (pg_spaces m p)) i = page_entry m (as_root (pg_spaces m p)) i)"

definition unchanged :: "u64 \<Rightarrow> paging \<Rightarrow> paging \<Rightarrow> bool" where
  "unchanged p m m' \<longleftrightarrow>
     same_machine m m' \<and> pg_spaces m' = pg_spaces m \<and>
     pmm_wf (pg_pmm m') \<and> managed_frames m' = managed_frames m \<and> free_frames m' = free_frames m \<and>
     (\<forall>f. f \<notin> free_frames m \<longrightarrow> (\<forall>j. page_entry m' f j = page_entry m f j) \<and>
        (f \<notin> owned_tables m p \<longrightarrow> pg_memory m' f = pg_memory m f))"

definition gained :: "u64 \<Rightarrow> created_table \<Rightarrow> u64 \<Rightarrow> paging \<Rightarrow> paging \<Rightarrow> bool" where
  "gained p c e m m' \<longleftrightarrow> (let t = fst (fst c); i = snd (fst c); g = snd c; s = pg_spaces m p in
     same_machine m m' \<and> pg_spaces m' = (pg_spaces m)(p := s\<lparr>as_owned := as_owned s @ [g]\<rparr>) \<and>
     pmm_wf (pg_pmm m') \<and> managed_frames m' = managed_frames m \<and> g \<in> free_frames m \<and>
     free_frames m' = free_frames m - {g} \<and> length (as_owned s) < 128 \<and>
     (\<forall>f. f \<notin> free_frames m' \<longrightarrow> (\<forall>j. page_entry m' f j = add_table (page_entry m) t i e g f j) \<and>
        (f \<notin> insert g (owned_tables m p) \<longrightarrow> pg_memory m' f = pg_memory m f)))"

lemma tables_ok_cong:
  assumes "\<And>f j. f \<in> T \<Longrightarrow> E' f j = E f j"
  shows "tables_ok E' root T pos \<longleftrightarrow> tables_ok E root T pos"
    and "tables_used E' root T X \<longleftrightarrow> tables_used E root T X"
  using assms by (simp_all add: tables_ok_def tables_used_def cong: conj_cong)

lemma unchanged_owned:
  "unchanged p m m' \<Longrightarrow> pg_spaces m' = pg_spaces m" "unchanged p m m' \<Longrightarrow> owned_tables m' q = owned_tables m q"
  "unchanged p m m' \<Longrightarrow> free_frames m' = free_frames m" "unchanged p m m' \<Longrightarrow> managed_frames m' = managed_frames m"
  by (auto simp: unchanged_def owned_tables_def)

lemma same_machine_refl [simp]: "same_machine m m"
  by (simp add: same_machine_def)

lemma same_machine_trans: "same_machine m m1 \<Longrightarrow> same_machine m1 m2 \<Longrightarrow> same_machine m m2"
  by (simp add: same_machine_def)

lemma same_machine_pointers:
  assumes "same_machine m m'"
  shows "address_space_table_pointer f m' = address_space_table_pointer f m" "table_pointer f m' = table_pointer f m"
  using assms unfolding same_machine_def address_space_table_pointer_def table_pointer_def
  by (simp_all only:)

lemma direct_map_same:
  assumes "direct_map m" "same_machine m m'" "pmm_wf (pg_pmm m')" "managed_frames m' = managed_frames m"
  shows "direct_map m'"
proof -
  have "pg_initialized m' = pg_initialized m" using assms(2) by (simp add: same_machine_def)
  then show ?thesis
    using assms(1,3,4) same_machine_pointers [OF assms(2)] by (simp add: direct_map_def)
qed

lemma unchanged_direct_map: "unchanged p m m' \<Longrightarrow> direct_map m \<Longrightarrow> direct_map m'"
  unfolding unchanged_def by (blast intro: direct_map_same)

lemma unchanged_refl: "pmm_wf (pg_pmm m) \<Longrightarrow> unchanged p m m"
  by (simp add: unchanged_def)

lemma unchanged_trans:
  assumes "unchanged p m m1" "unchanged p m1 m2"
  shows "unchanged p m m2"
proof -
  have "same_machine m m2" using assms same_machine_trans [of m m1 m2] unfolding unchanged_def by blast
  moreover have "page_entry m2 f j = page_entry m f j \<and> (f \<notin> owned_tables m p \<longrightarrow> pg_memory m2 f = pg_memory m f)"
    if "f \<notin> free_frames m" for f j
    using assms unchanged_owned [OF assms(1)] that by (simp add: unchanged_def)
  ultimately show ?thesis using assms unfolding unchanged_def by simp
qed

lemma unchanged_entries:
  "unchanged p m m' \<Longrightarrow> f \<notin> free_frames m \<Longrightarrow> page_entry m' f j = page_entry m f j"
  by (simp add: unchanged_def)

lemma space_inv_facts:
  assumes "space_inv p X pos m"
  shows "live_space m p" "direct_map m" "pmm_wf (pg_pmm m)"
    "tables_ok (page_entry m) (as_root (pg_spaces m p)) (owned_tables m p) pos"
    "\<And>f. f \<in> owned_tables m p \<Longrightarrow> f \<in> managed_frames m \<and> f \<notin> free_frames m \<and> frame_ok f"
    "as_root (pg_spaces m p) \<in> owned_tables m p" "pos (as_root (pg_spaces m p)) = []"
  using assms tables_ok_root by (auto simp: space_inv_def direct_map_def)

lemma unchanged_inv:
  assumes "space_inv p X pos m" "unchanged p m m'"
  shows "space_inv p X pos m'"
proof -
  have same: "page_entry m' f j = page_entry m f j" if "f \<in> owned_tables m p" for f j
    using space_inv_facts(5) [OF assms(1) that] unchanged_entries [OF assms(2)] by simp
  have "tables_ok (page_entry m') root (owned_tables m p) pos = tables_ok (page_entry m) root (owned_tables m p) pos"
    "tables_used (page_entry m') root (owned_tables m p) X = tables_used (page_entry m) root (owned_tables m p) X" for root
    by (rule tables_ok_cong, rule same, assumption)+
  then show ?thesis
    using assms(1) unchanged_direct_map [OF assms(2)] unchanged_owned [OF assms(2)]
    unfolding space_inv_def live_space_def by (simp only: simp_thms)
qed

lemma unchanged_paths:
  assumes "space_inv p X pos m" "unchanged p m m'" "path_ok [] path" "length path \<le> 4"
  shows "path_entries (page_entry m') (as_root (pg_spaces m p)) path =
    path_entries (page_entry m) (as_root (pg_spaces m p)) path"
proof (rule path_entries_cong [OF space_inv_facts(4) [OF assms(1)]])
  show "page_entry m' f i = page_entry m f i" if "f \<in> owned_tables m p" for f i
    using space_inv_facts(5) [OF assms(1) that] unchanged_entries [OF assms(2)] by simp
qed (use assms space_inv_facts(6,7) [OF assms(1)] in simp_all)

lemma gained_inv:
  assumes inv: "space_inv p X pos m" and g: "gained p ((t, i), g) e m m'"
    and t: "t \<in> owned_tables m p" "length (pos t) < 3" "cell_ok (pos t) i" "page_entry m t i = 0" "X \<subseteq> {t}"
    and e: "links_to e g"
  shows "space_inv p {g} (pos(g := pos t @ [i])) m'" "owned_tables m' p = insert g (owned_tables m p)"
    "g \<in> managed_frames m" "g \<notin> owned_tables m p"
proof -
  note facts = space_inv_facts [OF inv]
  from g have same: "same_machine m m'" "pmm_wf (pg_pmm m')" "managed_frames m' = managed_frames m"
    and free: "g \<in> free_frames m" "free_frames m' = free_frames m - {g}"
    and len: "length (as_owned (pg_spaces m p)) < 128"
    and spaces: "pg_spaces m' = (pg_spaces m)(p := (pg_spaces m p)\<lparr>as_owned := as_owned (pg_spaces m p) @ [g]\<rparr>)"
    and ent: "\<And>f j. f \<notin> free_frames m' \<Longrightarrow> page_entry m' f j = add_table (page_entry m) t i e g f j"
    unfolding gained_def Let_def fst_conv snd_conv by blast+
  show gm: "g \<in> managed_frames m" using free_managed [OF facts(3)] free(1) by blast
  then have gok: "frame_ok g" using facts(2) by (simp add: direct_map_def)
  show gn: "g \<notin> owned_tables m p" using facts(5) free(1) by blast
  show own: "owned_tables m' p = insert g (owned_tables m p)" by (simp add: owned_tables_def spaces)
  have root: "as_root (pg_spaces m' p) = as_root (pg_spaces m p)" by (simp add: spaces)
  have E': "page_entry m' f j = add_table (page_entry m) t i e g f j" if "f \<in> insert g (owned_tables m p)" for f j
    using that facts(5) [of f] free(2) ent [of f j] by (cases "f = g") auto
  have "tables_ok (page_entry m') (as_root (pg_spaces m p)) (insert g (owned_tables m p)) (pos(g := pos t @ [i]))"
    using E' by (intro add_table_ok [OF facts(4) t(1-4) gn gok e]) blast
  moreover have "tables_used (page_entry m') (as_root (pg_spaces m p)) (insert g (owned_tables m p)) {g}"
    unfolding tables_used_def
  proof
    fix f assume f: "f \<in> insert g (owned_tables m p) - {as_root (pg_spaces m p)} - {g}"
    show "\<exists>j < 512. page_entry m' f j \<noteq> 0"
    proof (cases "f = t")
      case True
      have "i < 512" using t(3) by (auto simp: cell_ok_def split: if_splits)
      moreover have "page_entry m' t i = e" using E' [of t i] t(1) by (simp add: add_table_def)
      ultimately show ?thesis using True links_to_bits(5) [OF e gok] by auto
    next
      case False
      then have "f \<notin> X" using t(5) by auto
      then obtain j where "j < 512" "page_entry m f j \<noteq> 0"
        using f inv unfolding space_inv_def tables_used_def by blast
      then show ?thesis using E' [of f j] f False by (auto simp: add_table_def)
    qed
  qed
  moreover have "direct_map m'" using direct_map_same [OF facts(2) same] .
  moreover have "live_space m' p" using facts(1) by (simp add: live_space_def spaces)
  moreover have "distinct (as_owned (pg_spaces m' p))" "length (as_owned (pg_spaces m' p)) \<le> 128"
    using inv gn len by (simp_all add: space_inv_def spaces owned_tables_def)
  moreover have "insert g (owned_tables m p) \<subseteq> managed_frames m' - free_frames m'"
    using facts(5) gm same(3) free(2) by blast
  ultimately show "space_inv p {g} (pos(g := pos t @ [i])) m'" by (simp add: space_inv_def own root)
qed

lemma gained_paths:
  assumes inv: "space_inv p X pos m" and g: "gained p ((t, i), g) e m m'"
    and t: "t \<in> owned_tables m p" "length (pos t) < 3" "cell_ok (pos t) i" "page_entry m t i = 0"
    and e: "links_to e g" and path: "length path = 4" "path_ok [] path"
  shows "path_entries (page_entry m') (as_root (pg_spaces m p)) path =
    path_entries (page_entry m) (as_root (pg_spaces m p)) path"
proof -
  note facts = space_inv_facts [OF inv]
  from g have free: "g \<in> free_frames m" "free_frames m' = free_frames m - {g}"
    and ent: "\<And>f j. f \<notin> free_frames m' \<Longrightarrow> page_entry m' f j = add_table (page_entry m) t i e g f j"
    unfolding gained_def Let_def fst_conv snd_conv by blast+
  have gn: "g \<notin> owned_tables m p" using facts(5) free(1) by blast
  have gok: "frame_ok g" using free_managed [OF facts(3)] free(1) facts(2) by (auto simp: direct_map_def)
  have "page_entry m' f j = add_table (page_entry m) t i e g f j" if "f \<in> insert g (owned_tables m p)" for f j
    using that facts(5) [of f] free(2) ent [of f j] by (cases "f = g") auto
  then show ?thesis using path by (intro add_table_paths [OF facts(4) t gn gok e]) blast+
qed

text \<open>The walk to the new table.\<close>

lemma gained_entry:
  assumes inv: "space_inv p {t} pos m" and g: "gained p ((t, i), g) e m m'"
    and t: "t \<in> owned_tables m p" "length (pos t) < 3" "cell_ok (pos t) i" "page_entry m t i = 0"
    and e: "links_to e g" and es: "path_entries (page_entry m) (as_root (pg_spaces m p)) (pos t) = Some es"
  shows "path_entries (page_entry m') (as_root (pg_spaces m p)) (pos t @ [i]) = Some (es @ [e])"
proof -
  note facts = space_inv_facts [OF inv]
  note new = gained_inv [OF inv g t subset_refl e]
  note tree' = space_inv_facts(4) [OF new(1), unfolded new(2)]
  let ?root = "as_root (pg_spaces m p)"
  have root: "as_root (pg_spaces m' p) = ?root" using g by (simp add: gained_def Let_def)
  have ent: "page_entry m' f j = add_table (page_entry m) t i e g f j" if "f \<in> owned_tables m p" for f j
    using facts(5) [OF that] g unfolding gained_def Let_def by auto
  have same: "page_entry m' f j = page_entry m f j"
    if "f \<in> owned_tables m p" "pos t = pos f @ j # js" for f j js
  proof -
    have "f \<noteq> t" "f \<noteq> g" using that new(4) by auto
    then show ?thesis using ent [OF that(1)] by (simp add: add_table_def)
  qed
  have pt: "path_entries (page_entry m') ?root (pos t) = Some es"
    using path_entries_cong [OF facts(4), of "pos t" "page_entry m'" ?root "pos t"] same facts(6,7) t(2)
      path_ok_pos [OF facts(4) t(1)] es by simp
  have tg: "t \<noteq> g" using new(4) t(1) by auto
  obtain es' where es': "\<And>js. path_entries (page_entry m') ?root (pos t @ js) =
      map_option ((@) es') (path_entries (page_entry m') t js)"
    using path_entries_at [OF tree', of t] t(1) tg root by auto
  have "es' = es" using es' [of "[]"] pt by simp
  moreover have "page_entry m' t i = e" using ent [OF t(1)] by (simp add: add_table_def)
  moreover have "e AND 1 = 1" using links_to_bits(2) [OF e] new(3) facts(2) by (simp add: direct_map_def)
  ultimately show ?thesis using es' [of "[i]"] by simp
qed

lemma gained_unchanged:
  assumes g: "gained p c e m m1" and u: "unchanged p m1 m2"
  shows "gained p c e m m2"
proof -
  have same: "same_machine m m2"
    using same_machine_trans [of m m1 m2] g u unfolding gained_def unchanged_def Let_def by blast
  note eqs = unchanged_owned(1,3,4) [OF u]
  have wf: "pmm_wf (pg_pmm m2)" using u by (simp add: unchanged_def)
  have own: "owned_tables m1 p = insert (snd c) (owned_tables m p)"
    using g by (simp add: gained_def Let_def owned_tables_def)
  have "(\<forall>j. page_entry m2 f j = add_table (page_entry m) (fst (fst c)) (snd (fst c)) e (snd c) f j) \<and>
      (f \<notin> insert (snd c) (owned_tables m p) \<longrightarrow> pg_memory m2 f = pg_memory m f)" if f: "f \<notin> free_frames m1" for f
  proof -
    from u f have 2: "page_entry m2 f j = page_entry m1 f j"
      "f \<notin> owned_tables m1 p \<Longrightarrow> pg_memory m2 f = pg_memory m1 f" for j
      unfolding unchanged_def by blast+
    from g f have 1: "page_entry m1 f j = add_table (page_entry m) (fst (fst c)) (snd (fst c)) e (snd c) f j"
      "f \<notin> insert (snd c) (owned_tables m p) \<Longrightarrow> pg_memory m1 f = pg_memory m f" for j
      unfolding gained_def Let_def by blast+
    show ?thesis
      using trans [OF 2(1) 1(1)] trans [OF 2(2) [unfolded own] 1(2)] by blast
  qed
  then show ?thesis using g same wf unfolding gained_def Let_def eqs by (elim conjE) (intro conjI; (assumption | blast)?)
qed

lemma unchanged_kept:
  assumes "space_inv p X pos m" "unchanged p m m'"
  shows "kept p m m'"
proof -
  have "as_root (pg_spaces m p) \<notin> free_frames m" using space_inv_facts(5,6) [OF assms(1)] by blast
  then show ?thesis
    using assms(2) unchanged_owned [OF assms(2)] unfolding kept_def unchanged_def by simp
qed

lemma kept_refl: "pmm_wf (pg_pmm m) \<Longrightarrow> kept p m m"
  by (simp add: kept_def)

lemma kept_root: "kept p m m' \<Longrightarrow> as_root (pg_spaces m' p) = as_root (pg_spaces m p)"
  unfolding kept_def by (metis address_space.ext_inject address_space.surjective address_space.update_convs(2))

lemma kept_trans:
  assumes a: "kept p m m1" and b: "kept p m1 m2"
  shows "kept p m m2"
proof -
  have same: "same_machine m m2" using a b same_machine_trans [of m m1 m2] unfolding kept_def by blast
  have root: "as_root (pg_spaces m1 p) = as_root (pg_spaces m p)" using a by (rule kept_root)
  have frames: "free_frames m1 \<union> owned_tables m1 p = free_frames m \<union> owned_tables m p" using a by (simp add: kept_def)
  have sp: "pg_spaces m2 p = (pg_spaces m p)\<lparr>as_owned := as_owned (pg_spaces m2 p)\<rparr>"
  proof -
    have "pg_spaces m2 p = (pg_spaces m1 p)\<lparr>as_owned := as_owned (pg_spaces m2 p)\<rparr>"
      "pg_spaces m1 p = (pg_spaces m p)\<lparr>as_owned := as_owned (pg_spaces m1 p)\<rparr>"
      using a b unfolding kept_def by blast+
    then show ?thesis by (metis address_space.surjective address_space.update_convs(2))
  qed
  show ?thesis
    using a b same sp unfolding kept_def frames root by auto
qed

lemma gained_kept:
  assumes inv: "space_inv p X pos m" and g: "gained p ((t, i), g) e m m'"
    and t: "t \<in> owned_tables m p" "cell_ok (pos t) i"
  shows "kept p m m'"
proof -
  note facts = space_inv_facts [OF inv]
  from g have same: "same_machine m m'" "pmm_wf (pg_pmm m')" "managed_frames m' = managed_frames m"
    and free: "g \<in> free_frames m" "free_frames m' = free_frames m - {g}"
    and spaces: "pg_spaces m' = (pg_spaces m)(p := (pg_spaces m p)\<lparr>as_owned := as_owned (pg_spaces m p) @ [g]\<rparr>)"
    and ent: "\<And>f j. f \<notin> free_frames m' \<Longrightarrow> page_entry m' f j = add_table (page_entry m) t i e g f j"
    and mem: "\<And>f. f \<notin> free_frames m' \<Longrightarrow> f \<notin> insert g (owned_tables m p) \<Longrightarrow> pg_memory m' f = pg_memory m f"
    unfolding gained_def Let_def fst_conv snd_conv by blast+
  have own: "owned_tables m' p = insert g (owned_tables m p)" by (simp add: owned_tables_def spaces)
  have "free_frames m' \<union> owned_tables m' p = free_frames m \<union> owned_tables m p"
    using free by (auto simp: own)
  moreover have "\<forall>f. f \<notin> free_frames m \<union> owned_tables m p \<longrightarrow> pg_memory m' f = pg_memory m f"
    using mem free by auto
  moreover have "page_entry m' (as_root (pg_spaces m p)) i' = page_entry m (as_root (pg_spaces m p)) i'" if "256 \<le> i'" for i'
  proof -
    have r: "as_root (pg_spaces m p) \<notin> free_frames m" "as_root (pg_spaces m p) \<noteq> g"
      using facts(5,6) free(1) by blast+
    have "\<not> (as_root (pg_spaces m p) = t \<and> i' = i)"
    proof
      assume "as_root (pg_spaces m p) = t \<and> i' = i"
      then show False using facts(7) t(2) that by (auto simp: cell_ok_def)
    qed
    then show ?thesis using ent [of "as_root (pg_spaces m p)" i'] r free(2) by (auto simp: add_table_def)
  qed
  ultimately show ?thesis using same by (simp add: kept_def spaces)
qed

text \<open>A table with an entry is used.\<close>

lemma space_inv_switch:
  assumes "space_inv p {t} pos m" "t \<in> owned_tables m p" "cell_ok (pos t) i" "page_entry m t i \<noteq> 0"
  shows "space_inv p {g} pos m"
proof -
  have "i < 512" using assms(3) by (auto simp: cell_ok_def split: if_splits)
  then have "tables_used (page_entry m) (as_root (pg_spaces m p)) (owned_tables m p) {g}"
    using assms(1,4) unfolding space_inv_def tables_used_def by blast
  then show ?thesis using assms(1) by (simp add: space_inv_def)
qed

text \<open>A write to the entry of a page, and the invalidation that may follow it.\<close>

lemma leaf_write:
  fixes m ivs t i v
  defines "m' \<equiv> (set_page_entry t i v m)\<lparr>pg_invalidated := ivs\<rparr>"
  assumes inv: "space_inv p X pos m" and t: "t \<in> owned_tables m p" "length (pos t) = 3" "cell_ok (pos t) i"
    and v: "v = 0 \<or> v AND 1 = 1"
  shows "v = 0 \<Longrightarrow> space_inv p (insert t X) pos m'" "v \<noteq> 0 \<Longrightarrow> X \<subseteq> {t} \<Longrightarrow> space_inv p {} pos m'"
    "kept p m m'" "pg_spaces m' = pg_spaces m" "free_frames m' = free_frames m"
    "path_ok [] path \<Longrightarrow> length path = 4 \<Longrightarrow> path \<noteq> pos t @ [i] \<Longrightarrow>
      path_entries (page_entry m') (as_root (pg_spaces m p)) path =
      path_entries (page_entry m) (as_root (pg_spaces m p)) path"
    "v = 0 \<Longrightarrow> path_entries (page_entry m') (as_root (pg_spaces m p)) (pos t @ [i]) = None"
    "path_entries (page_entry m) (as_root (pg_spaces m p)) (pos t) = Some es \<Longrightarrow> v \<noteq> 0 \<Longrightarrow>
      path_entries (page_entry m') (as_root (pg_spaces m p)) (pos t @ [i]) = Some (es @ [v])"
proof -
  note facts = space_inv_facts [OF inv]
  have E': "page_entry m' f j = (if f = t \<and> j = i then v else page_entry m f j)" for f j by (simp add: m'_def)
  have fields: "pg_spaces m' = pg_spaces m" "free_frames m' = free_frames m" "managed_frames m' = managed_frames m"
    "pg_pmm m' = pg_pmm m" "owned_tables m' q = owned_tables m q" for q
    by (simp_all add: m'_def owned_tables_def)
  have same: "same_machine m m'" by (simp add: m'_def same_machine_def set_page_entry_def)
  show "pg_spaces m' = pg_spaces m" "free_frames m' = free_frames m" by (rule fields)+
  have dm: "direct_map m'" using direct_map_same [OF facts(2) same] fields(3,4) facts(3) by simp
  have ok: "tables_ok (page_entry m') (as_root (pg_spaces m p)) (owned_tables m p) pos"
    by (rule set_leaf_ok [OF facts(4) t(1,2) v E'])
  have i: "i < 512" using t(3) by (auto simp: cell_ok_def split: if_splits)
  have used: "tables_used (page_entry m') (as_root (pg_spaces m p)) (owned_tables m p) Y"
    if "v = 0 \<and> Y = insert t X \<or> v \<noteq> 0 \<and> X \<subseteq> {t} \<and> Y = {}" for Y
    unfolding tables_used_def
  proof
    fix f assume f: "f \<in> owned_tables m p - {as_root (pg_spaces m p)} - Y"
    show "\<exists>j < 512. page_entry m' f j \<noteq> 0"
    proof (cases "f = t")
      case True
      then have "v \<noteq> 0" using f that by auto
      then show ?thesis using True i by (intro exI [of _ i]) (simp add: E')
    next
      case False
      then have "f \<notin> X" using that f by auto
      then obtain j where "j < 512" "page_entry m f j \<noteq> 0"
        using f inv unfolding space_inv_def tables_used_def by blast
      then show ?thesis using False by (intro exI [of _ j]) (simp add: E')
    qed
  qed
  have core: "live_space m' p \<and> direct_map m' \<and> distinct (as_owned (pg_spaces m' p)) \<and>
      length (as_owned (pg_spaces m' p)) \<le> 128 \<and> owned_tables m' p \<subseteq> managed_frames m' - free_frames m'"
    using inv dm fields unfolding space_inv_def live_space_def by (simp only: simp_thms)
  show "v = 0 \<Longrightarrow> space_inv p (insert t X) pos m'" "v \<noteq> 0 \<Longrightarrow> X \<subseteq> {t} \<Longrightarrow> space_inv p {} pos m'"
    using core ok used unfolding space_inv_def fields by auto
  have "t \<notin> free_frames m" "as_root (pg_spaces m p) = t \<longrightarrow> False" using facts(5,7) t(1,2) by auto
  moreover have "pg_memory m' f = pg_memory m f" if "f \<notin> free_frames m \<union> owned_tables m p" for f
    using that t(1) by (cases "f = t") (simp_all add: m'_def)
  ultimately show "kept p m m'" using fields same facts(3) t(1) by (auto simp: kept_def E')
  show "path_ok [] path \<Longrightarrow> length path = 4 \<Longrightarrow> path \<noteq> pos t @ [i] \<Longrightarrow>
      path_entries (page_entry m') (as_root (pg_spaces m p)) path =
      path_entries (page_entry m) (as_root (pg_spaces m p)) path"
    by (rule set_leaf_paths(1) [OF facts(4) t v E'])
  show "v = 0 \<Longrightarrow> path_entries (page_entry m') (as_root (pg_spaces m p)) (pos t @ [i]) = None"
    by (rule set_leaf_paths(2) [OF facts(4) t v E'])
  show "path_entries (page_entry m) (as_root (pg_spaces m p)) (pos t) = Some es \<Longrightarrow> v \<noteq> 0 \<Longrightarrow>
      path_entries (page_entry m') (as_root (pg_spaces m p)) (pos t @ [i]) = Some (es @ [v])"
    by (rule set_leaf_paths(3) [OF facts(4) t v E'])
qed

text \<open>The tables created since \<open>m0\<close>, the last one first.\<close>

inductive grown :: "u64 \<Rightarrow> paging \<Rightarrow> created_table list \<Rightarrow> paging \<Rightarrow> bool" for p m0 where
  grown_none: "unchanged p m0 m \<Longrightarrow> grown p m0 [] m"
| grown_table: "grown p m0 cs m \<Longrightarrow> gained p c e m m' \<Longrightarrow> space_inv p X pos m \<Longrightarrow>
    fst (fst c) \<in> owned_tables m p \<Longrightarrow> page_entry m (fst (fst c)) (snd (fst c)) = 0 \<Longrightarrow> grown p m0 (c # cs) m'"

inductive_cases grown_noneE: "grown p m0 [] m"
inductive_cases grown_tableE: "grown p m0 (c # cs) m"

lemma grown_unchanged:
  assumes "grown p m0 cs m" "unchanged p m m'"
  shows "grown p m0 cs m'"
  using assms by cases (auto intro: grown.intros unchanged_trans gained_unchanged)

section \<open>Mapping a page\<close>

text \<open>
  When a mapping can be made: from the table \<open>f\<close> on, the entries on the path lead
  to tables that are accepted, up to an empty one, and the entry of the page is
  empty; \<open>tables_needed\<close> counts the tables still missing.
\<close>

fun path_open :: "(u64 \<Rightarrow> nat \<Rightarrow> u64) \<Rightarrow> (u64 \<Rightarrow> bool) \<Rightarrow> u64 \<Rightarrow> nat list \<Rightarrow> bool" where
  "path_open E good f [] = True"
| "path_open E good f (i # is) =
     (E f i = 0 \<or> is \<noteq> [] \<and> good (E f i) \<and> path_open E good (E f i AND ENTRY_ADDRESS_MASK) is)"

fun tables_needed :: "(u64 \<Rightarrow> nat \<Rightarrow> u64) \<Rightarrow> u64 \<Rightarrow> nat list \<Rightarrow> nat" where
  "tables_needed E f [] = 0"
| "tables_needed E f (i # is) =
     (if E f i = 0 then length is else tables_needed E (E f i AND ENTRY_ADDRESS_MASK) is)"

definition frames_left :: "u64 \<Rightarrow> paging \<Rightarrow> nat \<Rightarrow> bool" where
  "frames_left p m n \<longleftrightarrow> n \<le> card (free_frames m) \<and> length (as_owned (pg_spaces m p)) + n \<le> 128"

text \<open>
  What each copy of the mapping code owes: \<open>child\<close> finds or creates the table at
  an entry, \<open>good\<close> holds for the entries it accepts, \<open>undo\<close> takes back created
  tables, the last one first, and \<open>levels\<close> goes through the levels and writes
  the entry of the page; \<open>fin\<close> is the invalidation after the write.
\<close>

locale table_mapper =
  fixes child :: "u64 \<Rightarrow> u64 \<times> nat \<Rightarrow> bool \<Rightarrow> paging \<Rightarrow> (u64 \<times> created_table option) option \<times> paging"
    and undo :: "u64 \<Rightarrow> created_table list \<Rightarrow> u64 \<Rightarrow> paging \<Rightarrow> paging"
    and levels :: "u64 \<Rightarrow> u64 \<Rightarrow> u64 \<Rightarrow> (nat \<times> bool) list \<Rightarrow> created_table list \<Rightarrow> u64 \<Rightarrow> paging \<Rightarrow> bool \<times> paging"
    and fin :: "u64 \<Rightarrow> u64 \<Rightarrow> paging \<Rightarrow> paging" and good :: "u64 \<Rightarrow> bool"
  assumes child_fail: "space_inv p X pos m \<Longrightarrow> t \<in> owned_tables m p \<Longrightarrow> length (pos t) < 3 \<Longrightarrow>
      cell_ok (pos t) i \<Longrightarrow> child p (t, i) large m = (None, m') \<Longrightarrow> unchanged p m m'"
    and child_old: "space_inv p X pos m \<Longrightarrow> t \<in> owned_tables m p \<Longrightarrow> length (pos t) < 3 \<Longrightarrow>
      cell_ok (pos t) i \<Longrightarrow> child p (t, i) large m = (Some (g, None), m') \<Longrightarrow>
      m' = m \<and> g \<in> owned_tables m p \<and> pos g = pos t @ [i] \<and> page_entry m t i \<noteq> 0 \<and>
      page_entry m t i AND ENTRY_ADDRESS_MASK = g \<and> good (page_entry m t i)"
    and child_new: "space_inv p X pos m \<Longrightarrow> t \<in> owned_tables m p \<Longrightarrow> length (pos t) < 3 \<Longrightarrow>
      cell_ok (pos t) i \<Longrightarrow> child p (t, i) large m = (Some (g, Some c), m') \<Longrightarrow>
      \<exists>e. c = ((t, i), g) \<and> page_entry m t i = 0 \<and> links_to e g \<and> good e \<and> gained p c e m m'"
    and child_status: "space_inv p X pos m \<Longrightarrow> t \<in> owned_tables m p \<Longrightarrow> length (pos t) < 3 \<Longrightarrow>
      cell_ok (pos t) i \<Longrightarrow> fst (child p (t, i) large m) \<noteq> None \<longleftrightarrow>
      (if page_entry m t i = 0 then frames_left p m 1 else good (page_entry m t i))"
    and undo_none: "undo p [] va m = m"
    and undo_table: "space_inv p X pos m0 \<Longrightarrow> fst (fst c) \<in> owned_tables m0 p \<Longrightarrow>
      page_entry m0 (fst (fst c)) (snd (fst c)) = 0 \<Longrightarrow> gained p c e m0 m \<Longrightarrow>
      \<exists>m2. undo p (c # cs) va m = undo p cs va m2 \<and> unchanged p m0 m2"
    and levels_leaf: "levels p va v [] cs t m =
      (if page_entry m t (table_index va 12) \<noteq> 0 then (False, undo p cs va m)
       else (True, fin p va (set_page_entry t (table_index va 12) v m)))"
    and levels_table: "levels p va v ((shift, large) # ls) cs t m =
      (case child p (t, table_index va shift) large m of
         (None, m) \<Rightarrow> (False, undo p cs va m)
       | (Some (g, new), m) \<Rightarrow>
           levels p va v ls (case new of None \<Rightarrow> cs | Some c \<Rightarrow> c # cs) g m)"
    and fin_only: "\<exists>is. fin p va m = m\<lparr>pg_invalidated := is\<rparr>"
begin

lemma undo_grown: "grown p m0 cs m \<Longrightarrow> unchanged p m0 (undo p cs va m)"
proof (induction cs arbitrary: m)
  case Nil
  then show ?case by (auto simp: undo_none elim: grown_noneE)
next
  case (Cons c cs)
  from Cons.prems obtain m1 e X pos where m1: "grown p m0 cs m1" "gained p c e m1 m" "space_inv p X pos m1"
    "fst (fst c) \<in> owned_tables m1 p" "page_entry m1 (fst (fst c)) (snd (fst c)) = 0"
    by (auto elim: grown_tableE)
  from undo_table [OF m1(3,4,5,2), of cs va] obtain m2 where
    m2: "undo p (c # cs) va m = undo p cs va m2" "unchanged p m1 m2" by blast
  show ?case using Cons.IH [OF grown_unchanged [OF m1(1) m2(2)]] m2(1) by simp
qed

text \<open>The remaining levels from a table at its own position.\<close>

lemma levels_correct:
  assumes "grown p m0 cs m" and "space_inv p {t} pos m" and "kept p m0 m"
    and "t \<in> owned_tables m p" and "length (pos t) + length ls = 3"
    and "path_ok (pos t) (map (\<lambda>l. table_index va (fst l)) ls @ [table_index va 12])"
    and "path = pos t @ map (\<lambda>l. table_index va (fst l)) ls @ [table_index va 12]"
    and "path_entries (page_entry m) (as_root (pg_spaces m p)) (pos t) = Some es" "\<forall>e \<in> set es. good e"
    and "\<And>path. path_ok [] path \<Longrightarrow> length path = 4 \<Longrightarrow>
      path_entries (page_entry m) (as_root (pg_spaces m0 p)) path =
      path_entries (page_entry m0) (as_root (pg_spaces m0 p)) path"
    and "v \<noteq> 0" "v AND 1 = 1"
    and "levels p va v ls cs t m = (ok, m')"
  shows "(\<not> ok \<longrightarrow> unchanged p m0 m') \<and>
    (ok \<longrightarrow> kept p m0 m' \<and> (\<exists>pos'. space_inv p {} pos' m') \<and>
      path_entries (page_entry m0) (as_root (pg_spaces m0 p)) path = None \<and>
      (\<exists>es. path_entries (page_entry m') (as_root (pg_spaces m0 p)) path = Some (es @ [v]) \<and> (\<forall>e \<in> set es. good e)) \<and>
      (\<forall>path'. path_ok [] path' \<longrightarrow> length path' = 4 \<longrightarrow> path' \<noteq> path \<longrightarrow>
        path_entries (page_entry m') (as_root (pg_spaces m0 p)) path' =
        path_entries (page_entry m0) (as_root (pg_spaces m0 p)) path'))"
  using assms
proof (induction ls arbitrary: cs m t pos es)
  case Nil
  note inv = Nil.prems(2)
  have root: "as_root (pg_spaces m p) = as_root (pg_spaces m0 p)" using Nil.prems(3) by (rule kept_root)
  let ?i = "table_index va 12"
  have t: "length (pos t) = 3" "cell_ok (pos t) ?i" using Nil.prems(5,6) by simp_all
  show ?case
  proof (cases "page_entry m t ?i = 0")
    case False
    then have "\<not> ok" "m' = undo p cs va m" using Nil.prems(13) by (simp_all add: levels_leaf)
    then show ?thesis using undo_grown [OF Nil.prems(1)] by simp
  next
    case True
    obtain ivs where ivs: "fin p va (set_page_entry t ?i v m) = (set_page_entry t ?i v m)\<lparr>pg_invalidated := ivs\<rparr>"
      using fin_only by blast
    have ok: "ok" and m': "m' = (set_page_entry t ?i v m)\<lparr>pg_invalidated := ivs\<rparr>"
      using Nil.prems(13) True ivs by (simp_all add: levels_leaf)
    have v: "v = 0 \<or> v AND 1 = 1" using Nil.prems(12) by simp
    note leaf = leaf_write [OF inv Nil.prems(4) t v, where ivs = ivs, folded m', unfolded root]
    have path: "path = pos t @ [?i]" using Nil.prems(7) by simp
    have pok: "path_ok [] path" "length path = 4"
      using path_ok_pos [OF space_inv_facts(4) [OF inv] Nil.prems(4)] t by (simp_all add: path path_ok_append)
    have "path_entries (page_entry m) (as_root (pg_spaces m p)) path = None"
      unfolding path using path_entries_empty [OF space_inv_facts(4) [OF inv] Nil.prems(4) True, of "[]"] .
    then have none: "path_entries (page_entry m0) (as_root (pg_spaces m0 p)) path = None"
      using Nil.prems(10) [OF pok] root by simp
    have "kept p m0 m'" using kept_trans [OF Nil.prems(3) leaf(3)] .
    moreover have "space_inv p {} pos m'" using leaf(2) Nil.prems(11) by simp
    moreover have "path_entries (page_entry m') (as_root (pg_spaces m0 p)) path = Some (es @ [v])"
      unfolding path using leaf(8) Nil.prems(8,11) root by simp
    moreover have "path_entries (page_entry m') (as_root (pg_spaces m0 p)) path' =
        path_entries (page_entry m0) (as_root (pg_spaces m0 p)) path'"
      if "path_ok [] path'" "length path' = 4" "path' \<noteq> path" for path'
      using leaf(6) [OF that(1,2)] that(3) Nil.prems(10) [OF that(1,2)] root by (simp add: path)
    ultimately show ?thesis using ok none Nil.prems(9) by blast
  qed
next
  case (Cons l ls)
  note inv = Cons.prems(2)
  note tree = space_inv_facts(4) [OF inv]
  have root: "as_root (pg_spaces m p) = as_root (pg_spaces m0 p)" using Cons.prems(3) by (rule kept_root)
  obtain shift large where l: "l = (shift, large)" by (cases l)
  let ?i = "table_index va shift"
  have t: "length (pos t) < 3" "cell_ok (pos t) ?i" using Cons.prems(5,6) l by simp_all
  obtain r m1 where r: "child p (t, ?i) large m = (r, m1)" by (metis surj_pair)
  show ?case
  proof (cases r)
    case None
    then have "\<not> ok" "m' = undo p cs va m1" using Cons.prems(13) r l by (simp_all add: levels_table)
    then show ?thesis
      using undo_grown [OF grown_unchanged [OF Cons.prems(1) child_fail [OF inv Cons.prems(4) t]]] r None by simp
  next
    case (Some gn)
    obtain g new where gn: "gn = (g, new)" by (cases gn)
    note r = r [unfolded Some gn]
    have run: "levels p va v ls (case new of None \<Rightarrow> cs | Some c \<Rightarrow> c # cs) g m1 = (ok, m')"
      using Cons.prems(13) r l by (simp add: levels_table)
    have at: "\<exists>es. \<forall>js. path_entries (page_entry m) (as_root (pg_spaces m p)) (pos t @ js) =
        map_option ((@) es) (path_entries (page_entry m) t js)"
      using path_entries_at [OF tree Cons.prems(4)] .
    show ?thesis
    proof (cases new)
      case None
      from child_old [OF inv Cons.prems(4) t r [unfolded None]] have
        g: "m1 = m" "g \<in> owned_tables m p" "pos g = pos t @ [?i]" "page_entry m t ?i \<noteq> 0"
        "page_entry m t ?i AND ENTRY_ADDRESS_MASK = g" "good (page_entry m t ?i)" by simp_all
      have inv': "space_inv p {g} pos m" using space_inv_switch [OF inv Cons.prems(4) t(2) g(4)] .
      have "page_entry m t ?i AND 1 = 1"
        using tables_ok_entry [OF tree Cons.prems(4) t g(4)] links_to_bits(2) by blast
      then have es': "path_entries (page_entry m) (as_root (pg_spaces m p)) (pos g) = Some (es @ [page_entry m t ?i])"
        using at Cons.prems(8) unfolding g(3) by (metis (no_types, lifting) append.right_neutral option.inject option.map(2) path_entries.simps zero_neq_one)
      show ?thesis
        by (rule Cons.IH [where m = m and t = g and pos = pos, OF Cons.prems(1) inv' Cons.prems(3) g(2) _ _ _ es' _ Cons.prems(10-12)])
          (use Cons.prems(5,6,7,9) g(3,6) run None g(1) l in simp_all)
    next
      case (Some c)
      from child_new [OF inv Cons.prems(4) t r [unfolded Some]] obtain e where
        e: "c = ((t, ?i), g)" "page_entry m t ?i = 0" "links_to e g" "good e" "gained p ((t, ?i), g) e m m1" by blast
      note new = gained_inv [OF inv e(5) Cons.prems(4) t e(2) _ e(3)]
      let ?pos = "pos(g := pos t @ [?i])"
      have inv': "space_inv p {g} ?pos m1" using new(1) by simp
      have own: "owned_tables m1 p = insert g (owned_tables m p)" and gn: "g \<notin> owned_tables m p" using new(2,4) by simp_all
      have root1: "as_root (pg_spaces m1 p) = as_root (pg_spaces m p)"
        using kept_root [OF gained_kept [OF inv e(5) Cons.prems(4) t(2)]] .
      have "grown p m0 (c # cs) m1"
        using grown_table [OF Cons.prems(1) e(5) inv] Cons.prems(4) e(1,2) by simp
      moreover have "kept p m0 m1" using kept_trans [OF Cons.prems(3) gained_kept [OF inv e(5) Cons.prems(4) t(2)]] .
      moreover have "path_entries (page_entry m1) (as_root (pg_spaces m0 p)) path' =
          path_entries (page_entry m0) (as_root (pg_spaces m0 p)) path'"
        if "path_ok [] path'" "length path' = 4" for path'
        using gained_paths [OF inv e(5) Cons.prems(4) t e(2,3) that(2,1)] Cons.prems(10) [OF that] root by simp
      moreover have es': "path_entries (page_entry m1) (as_root (pg_spaces m1 p)) (?pos g) = Some (es @ [e])"
        using gained_entry [OF inv e(5) Cons.prems(4) t e(2,3) Cons.prems(8)] root1 by simp
      ultimately show ?thesis
        by (intro Cons.IH [where m = m1 and t = g and pos = ?pos and es = "es @ [e]" and cs = "c # cs", OF _ inv'])
          (use Cons.prems(5,6,7,9,11,12) e(4) run Some own l in simp_all)
    qed
  qed
qed

text \<open>The mapping is made whenever it can be.\<close>

lemma levels_status:
  assumes "space_inv p {t} pos m" and "t \<in> owned_tables m p" and "length (pos t) + length ls = 3"
    and "path_ok (pos t) (map (\<lambda>l. table_index va (fst l)) ls @ [table_index va 12])"
  shows "fst (levels p va v ls cs t m) \<longleftrightarrow>
    path_open (page_entry m) good t (map (\<lambda>l. table_index va (fst l)) ls @ [table_index va 12]) \<and>
    frames_left p m (tables_needed (page_entry m) t (map (\<lambda>l. table_index va (fst l)) ls @ [table_index va 12]))"
  using assms
proof (induction ls arbitrary: cs m t pos)
  case Nil
  have "frames_left p m 0" using Nil.prems(1) by (simp add: frames_left_def space_inv_def)
  then show ?case by (auto simp: levels_leaf)
next
  case (Cons l ls)
  note inv = Cons.prems(1)
  obtain shift large where l: "l = (shift, large)" by (cases l)
  let ?i = "table_index va shift" and ?rest = "map (\<lambda>l. table_index va (fst l)) ls @ [table_index va 12]"
  have t: "length (pos t) < 3" "cell_ok (pos t) ?i" using Cons.prems(3,4) l by simp_all
  obtain r m1 where r: "child p (t, ?i) large m = (r, m1)" by (metis surj_pair)
  note status = child_status [OF inv Cons.prems(2) t, of large, unfolded r fst_conv]
  show ?case
  proof (cases r)
    case None
    then have no: "\<not> (if page_entry m t ?i = 0 then frames_left p m 1 else good (page_entry m t ?i))"
      using status by blast
    have "\<not> fst (levels p va v (l # ls) cs t m)" using r None l by (simp add: levels_table)
    moreover have "\<not> frames_left p m (Suc (length ls))" if "page_entry m t ?i = 0"
      using no that by (auto simp: frames_left_def)
    ultimately show ?thesis using no l by auto
  next
    case (Some gn)
    obtain g new where gn: "gn = (g, new)" by (cases gn)
    note r = r [unfolded Some gn]
    have run: "fst (levels p va v (l # ls) cs t m) \<longleftrightarrow>
        fst (levels p va v ls (case new of None \<Rightarrow> cs | Some c \<Rightarrow> c # cs) g m1)"
      using r l by (simp add: levels_table)
    show ?thesis
    proof (cases new)
      case None
      from child_old [OF inv Cons.prems(2) t r [unfolded None]] have
        g: "m1 = m" "g \<in> owned_tables m p" "pos g = pos t @ [?i]" "page_entry m t ?i \<noteq> 0"
        "page_entry m t ?i AND ENTRY_ADDRESS_MASK = g" "good (page_entry m t ?i)" by simp_all
      have "space_inv p {g} pos m" using space_inv_switch [OF inv Cons.prems(2) t(2) g(4)] .
      from Cons.IH [OF this g(2), of cs] show ?thesis
        using run g(1,3-6) Cons.prems(3,4) None l by simp
    next
      case (Some c)
      from child_new [OF inv Cons.prems(2) t r [unfolded Some]] obtain e where
        e: "c = ((t, ?i), g)" "page_entry m t ?i = 0" "links_to e g" "good e" "gained p ((t, ?i), g) e m m1" by blast
      note new = gained_inv [OF inv e(5) Cons.prems(2) t e(2) _ e(3)]
      let ?pos = "pos(g := pos t @ [?i])"
      have inv': "space_inv p {g} ?pos m1" and own: "g \<in> owned_tables m1 p" using new(1,2) by simp_all
      have free: "free_frames m1 = free_frames m - {g}" "g \<in> free_frames m"
        and len: "length (as_owned (pg_spaces m1 p)) = Suc (length (as_owned (pg_spaces m p)))"
        and ent: "\<And>j. page_entry m1 g j = add_table (page_entry m) t ?i e g g j"
        using e(5) by (auto simp: gained_def Let_def)
      have fin: "finite (free_frames m)" by simp
      have left: "frames_left p m1 n \<longleftrightarrow> frames_left p m (Suc n)" for n
        using card_Suc_Diff1 [OF fin free(2)] by (auto simp: frames_left_def free(1) len)
      have tg: "t \<noteq> g" using new(4) Cons.prems(2) by auto
      obtain j js where js: "?rest = j # js" by (cases ?rest) simp_all
      have "cell_ok (pos t @ [?i]) j" using Cons.prems(4) js by (simp add: l)
      then have "page_entry m1 g j = 0" using ent [of j] tg by (auto simp: add_table_def cell_ok_def split: if_splits)
      then have "path_open (page_entry m1) good g ?rest \<and> tables_needed (page_entry m1) g ?rest = length ls"
        using js arg_cong [OF js, of length, simplified] by simp
      with Cons.IH [OF inv' own, of "c # cs"] show ?thesis
        using run Cons.prems(3,4) Some e(2) left [of "length ls"] l by simp
    qed
  qed
qed

end

end
