(* ===== verification/PagingMaps.thy ===== *)
theory PagingMaps
  imports PagingSteps
begin

text \<open>
  Both copies of the mapping code keep the contract \<open>table_mapper\<close>: the
  interpretations \<open>kernel_pages\<close> (address_space.c) and \<open>user_pages\<close>
  (ring3_memory.c). Then the release of empty tables after an unmapping.
\<close>

section \<open>The copies in ring3\_memory.c\<close>

lemma ring3_copies:
  "table_index = address_space_index" "owned_contains = address_space_owned_contains"
  "owned_add = address_space_owned_add" "owned_remove = address_space_owned_remove"
  "release_created_table = address_space_release_owned_table" "ring3_page_aligned = address_space_page_aligned"
proof -
  show i: "table_index = address_space_index"
    by (intro ext) (simp add: table_index_def address_space_index_def)
  show c: "owned_contains = address_space_owned_contains"
    by (intro ext) (simp add: owned_contains_def address_space_owned_contains_def)
  show "owned_add = address_space_owned_add"
    by (intro ext) (simp add: owned_add_def address_space_owned_add_def c)
  show r: "owned_remove = address_space_owned_remove"
    by (intro ext) (simp add: owned_remove_def address_space_owned_remove_def)
  show "release_created_table = address_space_release_owned_table"
    by (intro ext) (simp add: release_created_table_def address_space_release_owned_table_def c r
        cong: bool.case_cong split: prod.split bool.split)
  show "ring3_page_aligned = address_space_page_aligned"
    by (intro ext) (simp add: ring3_page_aligned_def address_space_page_aligned_def)
qed

lemma table_pointer_some:
  "address_space_table_pointer f m = Some g \<Longrightarrow> g = f" "table_pointer f m = Some g \<Longrightarrow> g = f"
  by (auto simp: address_space_table_pointer_def table_pointer_def split: if_splits option.splits)

lemma owned_contains_live:
  "live_space m p \<Longrightarrow> address_space_owned_contains p f m \<longleftrightarrow> f \<in> owned_tables m p"
  by (simp add: live_space_def address_space_owned_contains_def owned_tables_def)

lemma same_machine_steps [simp]:
  "same_machine m (set_page_entry f i v m') = same_machine m m'" "same_machine m (zero_entries f m') = same_machine m m'"
  "same_machine m (set_space p s m') = same_machine m m'" "same_machine m (m'\<lparr>pg_pmm := a\<rparr>) = same_machine m m'"
  "same_machine m (m'\<lparr>pg_invalidated := ivs\<rparr>) = same_machine m m'"
  using zero_entries_only [of f m']
  by (auto simp: same_machine_def set_page_entry_def set_space_def)

section \<open>Taking a frame as a table\<close>

text \<open>The machine after a frame was taken, cleared and added to the owned tables.\<close>

lemma table_added:
  assumes inv: "space_inv p X pos m" and alloc: "alloc_frame m = (Some g, m1)"
  shows "length (as_owned (pg_spaces m p)) < 128 \<Longrightarrow>
      \<exists>m2. address_space_owned_add p g (zero_entries g m1) = (True, m2) \<and>
        (\<forall>t i e. t \<in> owned_tables m p \<longrightarrow> gained p ((t, i), g) e m (set_page_entry t i e m2))"
    and "\<not> length (as_owned (pg_spaces m p)) < 128 \<Longrightarrow>
      address_space_owned_add p g (zero_entries g m1) = (False, zero_entries g m1)"
    and "unchanged p m (snd (free_frame g m1))" "unchanged p m (snd (free_frame g (zero_entries g m1)))"
    and "frame_is_usable g m1" "address_space_table_pointer g m1 = Some g" "table_pointer g m1 = Some g"
    and "address_space_physical_supported g"
proof -
  note facts = space_inv_facts [OF inv]
  from alloc_frame_some [OF facts(3) alloc] obtain a where
    m1: "m1 = m\<lparr>pg_pmm := a\<rparr>" "pmm_wf a" and g: "g \<in> free_frames m" "free_frames m1 = free_frames m - {g}"
      "managed_frames m1 = managed_frames m" by blast
  have same1: "same_machine m m1" by (simp add: m1 same_machine_def)
  have gm: "g \<in> managed_frames m" using free_managed [OF facts(3)] g(1) by blast
  have gn: "g \<notin> owned_tables m p" using facts(5) g(1) by blast
  have wf1: "pmm_wf (pg_pmm m1)" by (simp add: m1)
  show "frame_is_usable g m1" using frame_is_usable_iff [OF wf1] g(3) gm by simp
  have "direct_map m1" using direct_map_same [OF facts(2) same1 wf1 g(3)] .
  then show ptr: "address_space_table_pointer g m1 = Some g" "table_pointer g m1 = Some g"
    using gm g(3) by (simp_all add: direct_map_def)
  then show "address_space_physical_supported g"
    by (auto simp: address_space_table_pointer_def split: if_splits)
  have live: "live_space (zero_entries g m1) p" using facts(1) by (simp add: live_space_def m1)
  have sp: "pg_spaces (zero_entries g m1) = pg_spaces m" by (simp add: m1)
  have notin: "\<not> address_space_owned_contains p g (zero_entries g m1)"
    using owned_contains_live [OF live, of g] gn unfolding owned_tables_def sp by blast
  show "\<not> length (as_owned (pg_spaces m p)) < 128 \<Longrightarrow>
      address_space_owned_add p g (zero_entries g m1) = (False, zero_entries g m1)"
    unfolding address_space_owned_add_def sp Let_def by simp
  show "\<exists>m2. address_space_owned_add p g (zero_entries g m1) = (True, m2) \<and>
      (\<forall>t i e. t \<in> owned_tables m p \<longrightarrow> gained p ((t, i), g) e m (set_page_entry t i e m2))"
    if len: "length (as_owned (pg_spaces m p)) < 128"
  proof -
    let ?s = "(pg_spaces m p)\<lparr>as_owned := as_owned (pg_spaces m p) @ [g]\<rparr>"
    let ?m2 = "set_space p ?s (zero_entries g m1)"
    have "address_space_owned_add p g (zero_entries g m1) = (True, ?m2)"
      using len notin facts(1) unfolding address_space_owned_add_def sp Let_def live_space_def by simp
    moreover have "gained p ((t, i), g) e m (set_page_entry t i e ?m2)" if t: "t \<in> owned_tables m p" for t i e
    proof -
      have tg: "t \<noteq> g" using t gn by auto
      have "same_machine m (set_page_entry t i e ?m2)"
        using same1 by simp
      moreover have "pg_spaces (set_page_entry t i e ?m2) = (pg_spaces m)(p := ?s)" by (simp add: set_space_def m1)
      moreover have "pg_pmm (set_page_entry t i e ?m2) = a" by (simp add: set_space_def m1)
      moreover have "page_entry (set_page_entry t i e ?m2) f j = add_table (page_entry m) t i e g f j" for f j
        using tg by (simp add: add_table_def m1 page_entry_fields)
      moreover have "pg_memory (set_page_entry t i e ?m2) f = pg_memory m f"
        if "f \<notin> insert g (owned_tables m p)" for f
      proof -
        have "f \<noteq> t" "f \<noteq> g" using that t by auto
        then show ?thesis by (simp add: set_space_def m1)
      qed
      moreover have "free_frames (set_page_entry t i e ?m2) = free_frames m - {g}"
        "managed_frames (set_page_entry t i e ?m2) = managed_frames m"
        by (simp_all add: g)
      ultimately show ?thesis using m1(2) g(1) len by (simp add: gained_def Let_def)
    qed
    ultimately show ?thesis by blast
  qed
  have given: "unchanged p m (snd (free_frame g m3))"
    if m3: "pg_pmm m3 = a" "same_machine m m3" "pg_spaces m3 = pg_spaces m"
      "free_frames m3 = free_frames m - {g}" "managed_frames m3 = managed_frames m"
      "\<And>f. f \<noteq> g \<Longrightarrow> pg_memory m3 f = pg_memory m f" for m3
  proof -
    obtain ok m4 where run: "free_frame g m3 = (ok, m4)" by (metis surj_pair)
    have "pmm_wf (pg_pmm m3)" using m3(1) m1(2) by simp
    note fr = free_frame_correct [OF this run]
    from fr(1) obtain b where b: "m4 = m3\<lparr>pg_pmm := b\<rparr>" "pmm_wf b" by blast
    have ok using fr(3) m3(4,5) gm by simp
    then have "free_frames m4 = free_frames m" using fr(4) m3(4) g(1) by auto
    moreover have "same_machine m m4" using m3(2) by (simp add: b)
    moreover have "page_entry m4 f j = page_entry m f j \<and> pg_memory m4 f = pg_memory m f"
      if "f \<notin> free_frames m" for f j
    proof -
      have "f \<noteq> g" using that g(1) by auto
      then have "pg_memory m4 f = pg_memory m f" using m3(6) by (simp add: b)
      then show ?thesis using page_entry_frame [of m4 f m] by simp
    qed
    ultimately show ?thesis using fr(2) m3(3,5) b by (simp add: unchanged_def run)
  qed
  show "unchanged p m (snd (free_frame g m1))"
    using g same1 by (intro given) (simp_all add: m1)
  have "same_machine m (zero_entries g m1)" using same1 by simp
  then show "unchanged p m (snd (free_frame g (zero_entries g m1)))"
    using g by (intro given) (simp_all add: m1)
qed

lemma allocate_tables:
  assumes inv: "space_inv p X pos m"
  shows "address_space_allocate_table p m = (None, m') \<Longrightarrow> unchanged p m m'"
    and "address_space_allocate_table p m = (Some g, m') \<Longrightarrow> t \<in> owned_tables m p \<Longrightarrow>
      gained p ((t, i), g) e m (set_page_entry t i e m')"
    and "allocate_user_table p m = (None, m') \<Longrightarrow> unchanged p m m'"
    and "allocate_user_table p m = (Some g, m') \<Longrightarrow> t \<in> owned_tables m p \<Longrightarrow>
      gained p ((t, i), g) e m (set_page_entry t i e m')"
proof -
  note facts = space_inv_facts [OF inv]
  have live: "p \<noteq> 0" "as_initialized (pg_spaces m p)" using facts(1) by (simp_all add: live_space_def)
  obtain r m1 where r: "alloc_frame m = (r, m1)" by (metis surj_pair)
  have "(case address_space_allocate_table p m of (None, m') \<Rightarrow> unchanged p m m'
      | (Some g, m') \<Rightarrow> \<forall>t i e. t \<in> owned_tables m p \<longrightarrow> gained p ((t, i), g) e m (set_page_entry t i e m')) \<and>
    (case allocate_user_table p m of (None, m') \<Rightarrow> unchanged p m m'
      | (Some g, m') \<Rightarrow> \<forall>t i e. t \<in> owned_tables m p \<longrightarrow> gained p ((t, i), g) e m (set_page_entry t i e m'))"
  proof (cases r)
    case None
    then have "m1 = m" using alloc_frame_none [OF facts(3)] r by blast
    then show ?thesis using None r unchanged_refl [OF facts(3)] live
      by (simp add: address_space_allocate_table_def allocate_user_table_def)
  next
    case (Some g)
    note add = table_added [OF inv r [unfolded Some]]
    show ?thesis
    proof (cases "length (as_owned (pg_spaces m p)) < 128")
      case True
      from add(1) [OF True] obtain m2 where m2: "address_space_owned_add p g (zero_entries g m1) = (True, m2)"
        "\<forall>t i e. t \<in> owned_tables m p \<longrightarrow> gained p ((t, i), g) e m (set_page_entry t i e m2)" by blast
      then show ?thesis using True Some r live add(5-8)
        by (simp add: address_space_allocate_table_def allocate_user_table_def ring3_copies)
    next
      case False
      then show ?thesis using add(2) [OF False] Some r live add(4-8) unchanged_refl [OF facts(3)]
        by (simp add: address_space_allocate_table_def allocate_user_table_def ring3_copies)
    qed
  qed
  then show "address_space_allocate_table p m = (None, m') \<Longrightarrow> unchanged p m m'"
    "address_space_allocate_table p m = (Some g, m') \<Longrightarrow> t \<in> owned_tables m p \<Longrightarrow>
      gained p ((t, i), g) e m (set_page_entry t i e m')"
    "allocate_user_table p m = (None, m') \<Longrightarrow> unchanged p m m'"
    "allocate_user_table p m = (Some g, m') \<Longrightarrow> t \<in> owned_tables m p \<Longrightarrow>
      gained p ((t, i), g) e m (set_page_entry t i e m')"
    by auto
qed

lemma allocate_status:
  assumes inv: "space_inv p X pos m"
  shows "fst (address_space_allocate_table p m) \<noteq> None \<longleftrightarrow> frames_left p m 1"
    "fst (allocate_user_table p m) \<noteq> None \<longleftrightarrow> frames_left p m 1"
proof -
  note facts = space_inv_facts [OF inv]
  have live: "p \<noteq> 0" "as_initialized (pg_spaces m p)" using facts(1) by (simp_all add: live_space_def)
  obtain r m1 where r: "alloc_frame m = (r, m1)" by (metis surj_pair)
  have "(fst (address_space_allocate_table p m) \<noteq> None \<longleftrightarrow> frames_left p m 1) \<and>
    (fst (allocate_user_table p m) \<noteq> None \<longleftrightarrow> frames_left p m 1)"
  proof (cases r)
    case None
    then have "free_frames m = {}" using alloc_frame_none [OF facts(3)] r by blast
    then show ?thesis using None r live
      by (simp add: address_space_allocate_table_def allocate_user_table_def frames_left_def)
  next
    case (Some g)
    note add = table_added [OF inv r [unfolded Some]]
    have "g \<in> free_frames m" using alloc_frame_some(2) [OF facts(3) r [unfolded Some]] .
    then have "0 < card (free_frames m)" using card_gt_0_iff [of "free_frames m"] by (auto simp: finite)
    then have left: "frames_left p m 1 \<longleftrightarrow> length (as_owned (pg_spaces m p)) < 128"
      unfolding frames_left_def by linarith
    show ?thesis
    proof (cases "length (as_owned (pg_spaces m p)) < 128")
      case True
      from add(1) [OF True] obtain m2 where "address_space_owned_add p g (zero_entries g m1) = (True, m2)" by blast
      then show ?thesis using True Some r live add(5-8) left
        by (simp add: address_space_allocate_table_def allocate_user_table_def ring3_copies)
    next
      case False
      then show ?thesis using add(2) [OF False] Some r live add(5-8) left
        by (simp add: address_space_allocate_table_def allocate_user_table_def ring3_copies)
    qed
  qed
  then show "fst (address_space_allocate_table p m) \<noteq> None \<longleftrightarrow> frames_left p m 1"
    "fst (allocate_user_table p m) \<noteq> None \<longleftrightarrow> frames_left p m 1" by blast+
qed

text \<open>Giving the last created table back.\<close>

lemma release_undo:
  assumes inv: "space_inv p X pos m0" and g: "gained p ((t, i), g) e m0 m"
    and t: "t \<in> owned_tables m0 p" "page_entry m0 t i = 0"
    and m1: "m1 = (set_page_entry t i 0 m)\<lparr>pg_invalidated := ivs\<rparr>"
  shows "unchanged p m0 (snd (address_space_release_owned_table p g m1))"
proof -
  note facts = space_inv_facts [OF inv]
  from g have same: "same_machine m0 m" "pmm_wf (pg_pmm m)" "managed_frames m = managed_frames m0"
    and free: "g \<in> free_frames m0" "free_frames m = free_frames m0 - {g}"
    and spaces: "pg_spaces m = (pg_spaces m0)(p := (pg_spaces m0 p)\<lparr>as_owned := as_owned (pg_spaces m0 p) @ [g]\<rparr>)"
    and ent: "\<And>f j. f \<notin> free_frames m \<Longrightarrow> page_entry m f j = add_table (page_entry m0) t i e g f j"
    and mem: "\<And>f. f \<notin> free_frames m \<Longrightarrow> f \<notin> insert g (owned_tables m0 p) \<Longrightarrow> pg_memory m f = pg_memory m0 f"
    unfolding gained_def Let_def fst_conv snd_conv by blast+
  have gn: "g \<notin> owned_tables m0 p" using facts(5) free(1) by blast
  have gm: "g \<in> managed_frames m0" using free_managed [OF facts(3)] free(1) by blast
  have m1f: "pg_pmm m1 = pg_pmm m" "pg_spaces m1 = pg_spaces m" "free_frames m1 = free_frames m"
    "managed_frames m1 = managed_frames m0" by (simp_all add: m1 same(3))
  have live: "live_space m1 p" using facts(1) by (simp add: live_space_def m1f spaces)
  have con: "address_space_owned_contains p g m1"
    using owned_contains_live [OF live, of g] unfolding owned_tables_def m1f(2) spaces by simp
  obtain ok m2 where run: "free_frame g m1 = (ok, m2)" by (metis surj_pair)
  note fr = free_frame_correct [OF same(2) [folded m1f(1)] run]
  have ok: ok using fr(3) m1f(3,4) gm free(2) by simp
  from fr(1) obtain a where a: "m2 = m1\<lparr>pg_pmm := a\<rparr>" "pmm_wf a" by blast
  let ?s = "pg_spaces m p"
  have owned: "remove1 g (as_owned ?s) = as_owned (pg_spaces m0 p)"
    using gn by (simp add: spaces owned_tables_def remove1_append)
  have rm: "address_space_owned_remove p g m2 = (True, set_space p (?s\<lparr>as_owned := remove1 g (as_owned ?s)\<rparr>) m2)"
    using live by (simp add: address_space_owned_remove_def a m1f live_space_def spaces)
  have res: "snd (address_space_release_owned_table p g m1) =
      set_space p (?s\<lparr>as_owned := as_owned (pg_spaces m0 p)\<rparr>) m2" (is "_ = ?m3")
    using con run ok rm by (simp add: address_space_release_owned_table_def owned)
  have "same_machine m0 ?m3"
    using same(1) by (simp add: a m1)
  moreover have "pg_spaces ?m3 = pg_spaces m0" by (simp add: set_space_def a m1f spaces)
  moreover have "pg_pmm ?m3 = a" by (simp add: set_space_def a)
  moreover have "free_frames ?m3 = free_frames m0" "managed_frames ?m3 = managed_frames m0"
    using fr(2,4) ok m1f(3,4) free by auto
  moreover have "page_entry ?m3 f j = page_entry m0 f j \<and>
      (f \<notin> owned_tables m0 p \<longrightarrow> pg_memory ?m3 f = pg_memory m0 f)" if f: "f \<notin> free_frames m0" for f j
  proof -
    have fg: "f \<noteq> g" using f free(1) by blast
    have fm: "f \<notin> free_frames m" using f free(2) by blast
    have "page_entry ?m3 f j = page_entry m1 f j" by (simp add: a)
    also have "\<dots> = page_entry m0 f j"
      using ent [OF fm, of j] t(2) fg by (simp add: m1 add_table_def)
    finally have "page_entry ?m3 f j = page_entry m0 f j" .
    moreover have "pg_memory ?m3 f = pg_memory m0 f" if "f \<notin> owned_tables m0 p"
    proof -
      have "f \<noteq> t" using that t(1) by blast
      then show ?thesis using mem [OF fm] that fg by (simp add: a m1 set_space_def)
    qed
    ultimately show ?thesis by blast
  qed
  ultimately show ?thesis using a(2) by (simp add: unchanged_def res)
qed

section \<open>Both copies map pages\<close>

lemma child_cases:
  assumes inv: "space_inv p X pos m" and t: "t \<in> owned_tables m p" "length (pos t) < 3" "cell_ok (pos t) i"
  shows "page_entry m t i = 0 \<or> (\<exists>g \<in> owned_tables m p. pos g = pos t @ [i] \<and> page_entry m t i \<noteq> 0 \<and>
    page_entry m t i AND 1 \<noteq> 0 \<and> page_entry m t i AND 0x80 = 0 \<and>
    page_entry m t i AND ENTRY_ADDRESS_MASK = g \<and> address_space_owned_contains p g m \<and>
    address_space_table_pointer g m = Some g \<and> table_pointer g m = Some g)"
proof (cases "page_entry m t i = 0")
  case False
  note facts = space_inv_facts [OF inv]
  from tables_ok_entry [OF facts(4) t False] obtain g where
    g: "g \<in> owned_tables m p" "pos g = pos t @ [i]" "links_to (page_entry m t i) g" "frame_ok g" by blast
  have "address_space_table_pointer g m = Some g" "table_pointer g m = Some g"
    using facts(2,5) g(1) by (auto simp: direct_map_def)
  then show ?thesis
    using g links_to_bits(1,2,4) [OF g(3,4)] owned_contains_live [OF facts(1)] False by auto
qed simp

lemma kernel_child:
  assumes inv: "space_inv p X pos m" and t: "t \<in> owned_tables m p" "length (pos t) < 3" "cell_ok (pos t) i"
    and run: "address_space_get_or_create_child p (t, i) large m = (r, m')"
  shows "(case r of None \<Rightarrow> unchanged p m m'
    | Some (g, None) \<Rightarrow> m' = m \<and> g \<in> owned_tables m p \<and> pos g = pos t @ [i] \<and> page_entry m t i \<noteq> 0 \<and>
        page_entry m t i AND ENTRY_ADDRESS_MASK = g
    | Some (g, Some c) \<Rightarrow> \<exists>e. c = ((t, i), g) \<and> page_entry m t i = 0 \<and> links_to e g \<and> gained p c e m m')"
proof -
  have p: "p \<noteq> 0" using space_inv_facts(1) [OF inv] by (simp add: live_space_def)
  show ?thesis
  proof (cases "page_entry m t i = 0")
    case False
    then show ?thesis using child_cases [OF inv t] run p by (auto simp: address_space_get_or_create_child_def)
  next
    case True
    obtain a m1 where a: "address_space_allocate_table p m = (a, m1)" by (metis surj_pair)
    show ?thesis
    proof (cases a)
      case None
      then show ?thesis using allocate_tables(1) [OF inv] a run True p
        by (simp add: address_space_get_or_create_child_def)
    next
      case (Some g)
      have "g OR 1 OR 2 = g OR 3" by (simp add: or.assoc)
      then have "links_to (g OR 1 OR 2) g" by (simp add: links_to_def)
      moreover have "gained p ((t, i), g) (g OR 1 OR 2) m (set_page_entry t i (g OR 1 OR 2) m1)"
        using allocate_tables(2) [OF inv _ t(1)] a Some by simp
      ultimately show ?thesis using a run True p Some
        by (auto simp: address_space_get_or_create_child_def)
    qed
  qed
qed

text \<open>The entries that a translation for user mode passes above the last level.\<close>

definition user_link :: "u64 \<Rightarrow> bool" where
  "user_link e \<longleftrightarrow> e AND 4 \<noteq> 0 \<and> (\<exists>h. links_to e h \<and> frame_ok h)"

lemma user_child:
  assumes inv: "space_inv p X pos m" and t: "t \<in> owned_tables m p" "length (pos t) < 3" "cell_ok (pos t) i"
    and run: "get_or_create_user_child p (t, i) large m = (r, m')"
  shows "(case r of None \<Rightarrow> unchanged p m m'
    | Some (g, None) \<Rightarrow> m' = m \<and> g \<in> owned_tables m p \<and> pos g = pos t @ [i] \<and> page_entry m t i \<noteq> 0 \<and>
        page_entry m t i AND ENTRY_ADDRESS_MASK = g \<and> user_link (page_entry m t i)
    | Some (g, Some c) \<Rightarrow> \<exists>e. c = ((t, i), g) \<and> page_entry m t i = 0 \<and> links_to e g \<and> user_link e \<and> gained p c e m m')"
proof -
  note facts = space_inv_facts [OF inv]
  have p: "p \<noteq> 0" using facts(1) by (simp add: live_space_def)
  show ?thesis
  proof (cases "page_entry m t i = 0")
    case False
    with child_cases [OF inv t] obtain g where
      g: "g \<in> owned_tables m p" "pos g = pos t @ [i]" "page_entry m t i AND 1 \<noteq> 0"
        "page_entry m t i AND 0x80 = 0" "page_entry m t i AND ENTRY_ADDRESS_MASK = g"
        "address_space_owned_contains p g m" "table_pointer g m = Some g" by blast
    show ?thesis
    proof (cases "page_entry m t i AND 4 = 0")
      case True
      then have "r = None \<and> m' = m" using run p g(3)
        by (simp add: get_or_create_user_child_def)
      then show ?thesis using unchanged_refl [OF facts(3)] by simp
    next
      case user: False
      then have "r = Some (g, None) \<and> m' = m" using run p g(3-7)
        by (simp add: get_or_create_user_child_def ring3_copies)
      moreover have "user_link (page_entry m t i)"
        using tables_ok_entry [OF facts(4) t False] user by (auto simp: user_link_def)
      ultimately show ?thesis using g(1,2,5) False by simp
    qed
  next
    case True
    obtain a m1 where a: "allocate_user_table p m = (a, m1)" by (metis surj_pair)
    show ?thesis
    proof (cases a)
      case None
      then show ?thesis using allocate_tables(3) [OF inv] a run True p
        by (simp add: get_or_create_user_child_def)
    next
      case (Some g)
      have e: "g OR 1 OR 2 OR 4 = g OR 7" by (simp add: or.assoc)
      then have "links_to (g OR 1 OR 2 OR 4) g" by (simp add: links_to_def)
      moreover have "(g OR 1 OR 2 OR 4) AND 4 \<noteq> 0"
        unfolding e bit.conj_disj_distrib2 or_eq_0_iff by simp
      moreover have gain: "gained p ((t, i), g) (g OR 1 OR 2 OR 4) m (set_page_entry t i (g OR 1 OR 2 OR 4) m1)"
        using allocate_tables(4) [OF inv _ t(1)] a Some by simp
      moreover have "frame_ok g"
        using gain free_managed [OF facts(3)] facts(2) by (auto simp: gained_def Let_def direct_map_def)
      ultimately have "user_link (g OR 1 OR 2 OR 4)" by (auto simp: user_link_def)
      then show ?thesis using a run True p Some
        \<open>links_to (g OR 1 OR 2 OR 4) g\<close> gain
        by (auto simp: get_or_create_user_child_def)
    qed
  qed
qed

lemma child_status:
  assumes inv: "space_inv p X pos m" and t: "t \<in> owned_tables m p" "length (pos t) < 3" "cell_ok (pos t) i"
  shows "fst (address_space_get_or_create_child p (t, i) large m) \<noteq> None \<longleftrightarrow>
      (if page_entry m t i = 0 then frames_left p m 1 else True)"
    and "fst (get_or_create_user_child p (t, i) large m) \<noteq> None \<longleftrightarrow>
      (if page_entry m t i = 0 then frames_left p m 1 else user_link (page_entry m t i))"
proof -
  note facts = space_inv_facts [OF inv]
  have p: "p \<noteq> 0" using facts(1) by (simp add: live_space_def)
  have "(fst (address_space_get_or_create_child p (t, i) large m) \<noteq> None \<longleftrightarrow>
      (if page_entry m t i = 0 then frames_left p m 1 else True)) \<and>
    (fst (get_or_create_user_child p (t, i) large m) \<noteq> None \<longleftrightarrow>
      (if page_entry m t i = 0 then frames_left p m 1 else user_link (page_entry m t i)))"
  proof (cases "page_entry m t i = 0")
    case True
    obtain a m1 b m2 where a: "address_space_allocate_table p m = (a, m1)" and b: "allocate_user_table p m = (b, m2)"
      by (metis surj_pair)
    show ?thesis
      using allocate_status [OF inv, unfolded a b] p True
      by (cases a; cases b) (simp_all add: address_space_get_or_create_child_def get_or_create_user_child_def a b)
  next
    case False
    with child_cases [OF inv t] obtain g where
      g: "page_entry m t i AND 1 \<noteq> 0" "page_entry m t i AND 0x80 = 0" "page_entry m t i AND ENTRY_ADDRESS_MASK = g"
        "address_space_owned_contains p g m" "table_pointer g m = Some g" "address_space_table_pointer g m = Some g"
      by blast
    have "user_link (page_entry m t i) \<longleftrightarrow> page_entry m t i AND 4 \<noteq> 0"
      using tables_ok_entry [OF facts(4) t False] by (auto simp: user_link_def)
    then show ?thesis using g p False
      by (simp add: address_space_get_or_create_child_def get_or_create_user_child_def ring3_copies Let_def)
  qed
  then show "fst (address_space_get_or_create_child p (t, i) large m) \<noteq> None \<longleftrightarrow>
      (if page_entry m t i = 0 then frames_left p m 1 else True)"
    "fst (get_or_create_user_child p (t, i) large m) \<noteq> None \<longleftrightarrow>
      (if page_entry m t i = 0 then frames_left p m 1 else user_link (page_entry m t i))" by blast+
qed

lemma rollback_pair:
  "address_space_rollback_created p (c # cs) va m = address_space_rollback_created p cs va
     (snd (address_space_release_owned_table p (snd c)
       (address_space_invalidate_if_active p va (set_page_entry (fst (fst c)) (snd (fst c)) 0 m))))"
  "rollback_created_tables p (c # cs) m = rollback_created_tables p cs
     (snd (address_space_release_owned_table p (snd c) (set_page_entry (fst (fst c)) (snd (fst c)) 0 m)))"
  by (cases c; simp add: ring3_copies)+

lemma invalidate_only: "\<exists>ivs. address_space_invalidate_if_active p va m = m\<lparr>pg_invalidated := ivs\<rparr>"
  by (auto simp: address_space_invalidate_if_active_def intro: exI [of _ "pg_invalidated m"])

interpretation kernel_pages: table_mapper address_space_get_or_create_child
  address_space_rollback_created map_levels address_space_invalidate_if_active "\<lambda>_. True"
proof
  fix p X pos m t i large m' g c and va v :: u64 and cs :: "created_table list" and shift ls and m0 m1
  show "space_inv p X pos m \<Longrightarrow> t \<in> owned_tables m p \<Longrightarrow> length (pos t) < 3 \<Longrightarrow> cell_ok (pos t) i \<Longrightarrow>
      address_space_get_or_create_child p (t, i) large m = (None, m') \<Longrightarrow> unchanged p m m'"
    using kernel_child [of p X pos m t i large None m'] by simp
  show "space_inv p X pos m \<Longrightarrow> t \<in> owned_tables m p \<Longrightarrow> length (pos t) < 3 \<Longrightarrow> cell_ok (pos t) i \<Longrightarrow>
      address_space_get_or_create_child p (t, i) large m = (Some (g, None), m') \<Longrightarrow>
      m' = m \<and> g \<in> owned_tables m p \<and> pos g = pos t @ [i] \<and> page_entry m t i \<noteq> 0 \<and>
      page_entry m t i AND ENTRY_ADDRESS_MASK = g \<and> True"
    using kernel_child [of p X pos m t i large "Some (g, None)" m'] by simp
  show "space_inv p X pos m \<Longrightarrow> t \<in> owned_tables m p \<Longrightarrow> length (pos t) < 3 \<Longrightarrow> cell_ok (pos t) i \<Longrightarrow>
      address_space_get_or_create_child p (t, i) large m = (Some (g, Some c), m') \<Longrightarrow>
      \<exists>e. c = ((t, i), g) \<and> page_entry m t i = 0 \<and> links_to e g \<and> True \<and> gained p c e m m'"
    using kernel_child [of p X pos m t i large "Some (g, Some c)" m'] by auto
  show "space_inv p X pos m \<Longrightarrow> t \<in> owned_tables m p \<Longrightarrow> length (pos t) < 3 \<Longrightarrow> cell_ok (pos t) i \<Longrightarrow>
      fst (address_space_get_or_create_child p (t, i) large m) \<noteq> None \<longleftrightarrow>
      (if page_entry m t i = 0 then frames_left p m 1 else True)"
    by (rule child_status(1))
  show "address_space_rollback_created p [] va m = m" by simp
  show "\<exists>m2. address_space_rollback_created p (c # cs) va m = address_space_rollback_created p cs va m2 \<and>
      unchanged p m0 m2"
    if "space_inv p X pos m0" "fst (fst c) \<in> owned_tables m0 p"
      "page_entry m0 (fst (fst c)) (snd (fst c)) = 0" "gained p c e m0 m" for e
  proof -
    obtain ivs where "address_space_invalidate_if_active p va (set_page_entry (fst (fst c)) (snd (fst c)) 0 m) =
        (set_page_entry (fst (fst c)) (snd (fst c)) 0 m)\<lparr>pg_invalidated := ivs\<rparr>"
      using invalidate_only by blast
    from release_undo [OF that(1) _ that(2,3) this, of "snd c" e] that(4) show ?thesis
      unfolding rollback_pair by auto
  qed
  show "map_levels p va v [] cs t m =
      (if page_entry m t (table_index va 12) \<noteq> 0 then (False, address_space_rollback_created p cs va m)
       else (True, address_space_invalidate_if_active p va (set_page_entry t (table_index va 12) v m)))"
    by (simp add: write_leaf_def ring3_copies Let_def)
  show "map_levels p va v ((shift, large) # ls) cs t m =
      (case address_space_get_or_create_child p (t, table_index va shift) large m of
         (None, m) \<Rightarrow> (False, address_space_rollback_created p cs va m)
       | (Some (g, new), m) \<Rightarrow> map_levels p va v ls (case new of None \<Rightarrow> cs | Some c \<Rightarrow> c # cs) g m)"
    by (simp add: ring3_copies)
  show "\<exists>is. address_space_invalidate_if_active p va m = m\<lparr>pg_invalidated := is\<rparr>" by (rule invalidate_only)
qed

interpretation user_pages: table_mapper get_or_create_user_child
  "\<lambda>p cs va. rollback_created_tables p cs" map_user_levels "\<lambda>p va m. m" user_link
proof
  fix p X pos m t i large m' g c and va v :: u64 and cs :: "created_table list" and shift ls and m0 m1
  show "space_inv p X pos m \<Longrightarrow> t \<in> owned_tables m p \<Longrightarrow> length (pos t) < 3 \<Longrightarrow> cell_ok (pos t) i \<Longrightarrow>
      get_or_create_user_child p (t, i) large m = (None, m') \<Longrightarrow> unchanged p m m'"
    using user_child [of p X pos m t i large None m'] by simp
  show "space_inv p X pos m \<Longrightarrow> t \<in> owned_tables m p \<Longrightarrow> length (pos t) < 3 \<Longrightarrow> cell_ok (pos t) i \<Longrightarrow>
      get_or_create_user_child p (t, i) large m = (Some (g, None), m') \<Longrightarrow>
      m' = m \<and> g \<in> owned_tables m p \<and> pos g = pos t @ [i] \<and> page_entry m t i \<noteq> 0 \<and>
      page_entry m t i AND ENTRY_ADDRESS_MASK = g \<and> user_link (page_entry m t i)"
    using user_child [of p X pos m t i large "Some (g, None)" m'] by simp
  show "space_inv p X pos m \<Longrightarrow> t \<in> owned_tables m p \<Longrightarrow> length (pos t) < 3 \<Longrightarrow> cell_ok (pos t) i \<Longrightarrow>
      get_or_create_user_child p (t, i) large m = (Some (g, Some c), m') \<Longrightarrow>
      \<exists>e. c = ((t, i), g) \<and> page_entry m t i = 0 \<and> links_to e g \<and> user_link e \<and> gained p c e m m'"
    using user_child [of p X pos m t i large "Some (g, Some c)" m'] by auto
  show "space_inv p X pos m \<Longrightarrow> t \<in> owned_tables m p \<Longrightarrow> length (pos t) < 3 \<Longrightarrow> cell_ok (pos t) i \<Longrightarrow>
      fst (get_or_create_user_child p (t, i) large m) \<noteq> None \<longleftrightarrow>
      (if page_entry m t i = 0 then frames_left p m 1 else user_link (page_entry m t i))"
    by (rule child_status(2))
  show "rollback_created_tables p [] m = m" by simp
  show "\<exists>m2. rollback_created_tables p (c # cs) m = rollback_created_tables p cs m2 \<and> unchanged p m0 m2"
    if "space_inv p X pos m0" "fst (fst c) \<in> owned_tables m0 p"
      "page_entry m0 (fst (fst c)) (snd (fst c)) = 0" "gained p c e m0 m" for e
  proof -
    let ?m1 = "set_page_entry (fst (fst c)) (snd (fst c)) 0 m"
    have "?m1 = ?m1\<lparr>pg_invalidated := pg_invalidated ?m1\<rparr>" by simp
    from release_undo [OF that(1) _ that(2,3) this, of "snd c" e] that(4) show ?thesis
      unfolding rollback_pair by auto
  qed
  show "map_user_levels p va v [] cs t m =
      (if page_entry m t (table_index va 12) \<noteq> 0 then (False, rollback_created_tables p cs m)
       else (True, set_page_entry t (table_index va 12) v m))"
    by (simp add: write_user_leaf_def Let_def)
  show "map_user_levels p va v ((shift, large) # ls) cs t m =
      (case get_or_create_user_child p (t, table_index va shift) large m of
         (None, m) \<Rightarrow> (False, rollback_created_tables p cs m)
       | (Some (g, new), m) \<Rightarrow> map_user_levels p va v ls (case new of None \<Rightarrow> cs | Some c \<Rightarrow> c # cs) g m)"
    by simp
  show "\<exists>is. m = m\<lparr>pg_invalidated := is\<rparr>" by (rule exI [of _ "pg_invalidated m"]) simp
qed

end
