(* ===== verification/PagingWalks.thy ===== *)
theory PagingWalks
  imports PagingMaps
begin

text \<open>
  What the read-only operations see: the walk of address_space.c and the query
  of ring3_memory.c as functions of the entries on the path of an address; and
  the release of tables that became empty.
\<close>

section \<open>Addresses and paths\<close>

lemma unat_drop_bit: "unat (drop_bit n (w :: 'a::len word)) = unat w div 2 ^ n"
  by (rule trans [OF unat_drop_bit_eq drop_bit_eq_div])

lemma table_index_unat: "table_index va s = unat va div 2 ^ s mod 512"
proof -
  have "drop_bit s va AND 0x1ff = take_bit 9 (drop_bit s va)"
    by (simp add: take_bit_eq_mask mask_eq_exp_minus_1)
  then have "unat (drop_bit s va AND 0x1ff) = take_bit 9 (unat (drop_bit s va))"
    by (simp only: unsigned_take_bit_eq)
  then show ?thesis unfolding table_index_def unat_drop_bit by (simp add: take_bit_eq_mod)
qed

lemma canonical_lower_iff: "canonical_lower va \<longleftrightarrow> unat va < 2 ^ 47"
proof
  assume c: "canonical_lower va"
  have i: "table_index va 39 < 256"
  proof -
    have "drop_bit 39 va AND 0x1ff < 256" using c by (simp add: canonical_lower_def)
    then show ?thesis unfolding table_index_def by (simp add: word_less_nat_alt)
  qed
  have "unat (drop_bit 48 va) = 0" using c unfolding canonical_lower_def by simp
  then have "unat va div 2 ^ 48 = 0" unfolding unat_drop_bit .
  then have "unat va < 2 ^ 48" by (simp add: div_eq_0_iff)
  then have "unat va div 2 ^ 39 < 512" by (simp add: less_mult_imp_div_less)
  then have "unat va div 2 ^ 39 < 256" using i by (simp add: table_index_unat)
  then show "unat va < 2 ^ 47" by (simp add: div_less_iff_less_mult)
next
  assume lt: "unat va < 2 ^ 47"
  have "unat (drop_bit 48 va) = 0" "unat (drop_bit 47 va) = 0"
    unfolding unat_drop_bit using lt by simp_all
  then have "drop_bit 48 va = 0" "drop_bit 47 va = 0" unfolding unat_eq_zero by simp_all
  moreover have "table_index va 39 < 256" using lt by (simp add: table_index_unat div_less_iff_less_mult)
  ultimately show "canonical_lower va"
    unfolding canonical_lower_def table_index_def by (simp add: word_less_nat_alt)
qed

definition va_path :: "u64 \<Rightarrow> nat list" where
  "va_path va = [table_index va 39, table_index va 30, table_index va 21, table_index va 12]"

lemma va_path_ok: "canonical_lower va \<Longrightarrow> path_ok [] (va_path va)"
proof -
  assume "canonical_lower va"
  then have "unat va < 2 ^ 47" by (simp add: canonical_lower_iff)
  then have "unat va div 2 ^ 39 < 256" by (simp add: div_less_iff_less_mult)
  then show ?thesis by (simp add: va_path_def cell_ok_def table_index_unat)
qed

lemma length_va_path [simp]: "length (va_path va) = 4"
  by (simp add: va_path_def)

text \<open>An address is found on its path up to its offset in the page.\<close>

lemma va_path_eq:
  assumes "canonical_lower va" "canonical_lower va'"
  shows "va_path va = va_path va' \<longleftrightarrow> unat va div 4096 = unat va' div 4096"
proof -
  have digits: "n = ((n div 512 div 512 div 512 mod 512 * 512 + n div 512 div 512 mod 512) * 512 + n div 512 mod 512) * 512 + n mod 512"
    if "n < 512 * 512 * 512 * 512" for n :: nat
  proof -
    have "n div 512 div 512 div 512 < 512" using that by (simp add: less_mult_imp_div_less)
    then have "n div 512 div 512 div 512 mod 512 = n div 512 div 512 div 512" by simp
    then show ?thesis by (simp only: div_mult_mod_eq)
  qed
  have d: "unat x div 2 ^ 39 = unat x div 4096 div 512 div 512 div 512" "unat x div 2 ^ 30 = unat x div 4096 div 512 div 512"
    "unat x div 2 ^ 21 = unat x div 4096 div 512" "unat x div 2 ^ 12 = unat x div 4096" for x :: u64
    by (simp_all add: div_mult2_eq [symmetric])
  have lt: "unat va div 4096 < 512 * 512 * 512 * 512" "unat va' div 4096 < 512 * 512 * 512 * 512"
    using assms by (simp_all add: canonical_lower_iff)
  show ?thesis
  proof
    assume "va_path va = va_path va'"
    then have h: "unat va div 4096 div 512 div 512 div 512 mod 512 = unat va' div 4096 div 512 div 512 div 512 mod 512"
      "unat va div 4096 div 512 div 512 mod 512 = unat va' div 4096 div 512 div 512 mod 512"
      "unat va div 4096 div 512 mod 512 = unat va' div 4096 div 512 mod 512"
      "unat va div 4096 mod 512 = unat va' div 4096 mod 512"
      unfolding va_path_def table_index_unat d list.inject by blast+
    show "unat va div 4096 = unat va' div 4096"
      by (rule trans [OF digits [OF lt(1)]]) (simp only: h digits [OF lt(2), symmetric])
  next
    assume "unat va div 4096 = unat va' div 4096"
    then show "va_path va = va_path va'" unfolding va_path_def table_index_unat d by (simp only:)
  qed
qed

section \<open>The query of ring3\_memory.c\<close>

text \<open>What the query makes of the entries of a walk; \<open>w\<close> and \<open>x\<close> are the rights so far.\<close>

fun user_view :: "paging \<Rightarrow> u64 \<Rightarrow> bool \<Rightarrow> bool \<Rightarrow> u64 list \<Rightarrow> ring3_user_mapping_info option" where
  "user_view m va w x [] = None"
| "user_view m va w x (e # es) =
     (if e AND 4 = 0 \<or> \<not> pg_nx_enabled m \<and> e AND ENTRY_NO_EXECUTE \<noteq> 0 then None
      else
        let w = (w \<and> e AND 2 \<noteq> 0); x = (if pg_nx_enabled m \<and> e AND ENTRY_NO_EXECUTE \<noteq> 0 then False else x) in
        if es \<noteq> [] then user_view m va w x es
        else if \<not> frame_is_usable (e AND ENTRY_ADDRESS_MASK) m then None
        else Some \<lparr>mi_physical_address = (e AND ENTRY_ADDRESS_MASK) + (va AND 4095),
          mi_writable = w, mi_executable = x\<rparr>)"

lemma query_levels_correct:
  assumes inv: "space_inv p X pos m"
  shows "t \<in> owned_tables m p \<Longrightarrow> map fst ls = [length (pos t)..<4] \<Longrightarrow>
    path_ok (pos t) (map (\<lambda>l. table_index va (snd l)) ls) \<Longrightarrow>
    query_levels p va ls w x t m =
    (case path_entries (page_entry m) t (map (\<lambda>l. table_index va (snd l)) ls) of
       None \<Rightarrow> None | Some es \<Rightarrow> user_view m va w x es)"
proof (induction ls arbitrary: t w x)
  case Nil
  then show ?case by simp
next
  case (Cons l ls)
  note facts = space_inv_facts [OF inv]
  have len: "length (pos t) < 4" using tables_ok_frame [OF facts(4) Cons.prems(1)] by simp
  then have "map fst (l # ls) = length (pos t) # [Suc (length (pos t))..<4]"
    using Cons.prems(2) upt_conv_Cons by metis
  then obtain s where l: "l = (length (pos t), s)" and ls: "map fst ls = [Suc (length (pos t))..<4]"
    by (cases l) simp
  let ?i = "table_index va s" and ?e = "page_entry m t (table_index va s)"
  have cell: "cell_ok (pos t) ?i" using Cons.prems(3) by (simp add: l)
  show ?case
  proof (cases "?e AND 1 = 0")
    case True
    then show ?thesis by (simp add: l)
  next
    case present: False
    then have nz: "?e \<noteq> 0" by auto
    show ?thesis
    proof (cases "length (pos t) < 3")
      case True
      from tables_ok_entry [OF facts(4) Cons.prems(1) True cell nz] obtain g where
        g: "g \<in> owned_tables m p" "pos g = pos t @ [?i]" "links_to ?e g" "frame_ok g" by blast
      note bits = links_to_bits [OF g(3,4)]
      have ptr: "table_pointer g m = Some g" using facts(2,5) g(1) by (auto simp: direct_map_def)
      have own: "owned_contains p g m" using owned_contains_live [OF facts(1)] g(1) by (simp add: ring3_copies)
      have more: "ls \<noteq> []" using ls True by (auto simp: upt_conv_Cons)
      have ne: "es \<noteq> []" if "path_entries (page_entry m) g (map (\<lambda>l. table_index va (snd l)) ls) = Some es" for es
        using that more by (cases ls) (auto split: if_splits)
      have IH: "query_levels p va ls w' x' g m =
          (case path_entries (page_entry m) g (map (\<lambda>l. table_index va (snd l)) ls) of
            None \<Rightarrow> None | Some es \<Rightarrow> user_view m va w' x' es)" for w' x'
        using Cons.prems(3) ls g(1,2) by (intro Cons.IH) (simp_all add: l)
      have "length (pos t) \<noteq> 3" using True by simp
      then show ?thesis
        using present bits ptr own IH ne
        by (cases "path_entries (page_entry m) g (map (\<lambda>l. table_index va (snd l)) ls)")
          (simp_all add: l Let_def)
    next
      case False
      then have "length (pos t) = 3" using len by simp
      moreover from this have "ls = []" using ls by simp
      ultimately show ?thesis using present by (simp add: l Let_def)
    qed
  qed
qed

lemma query_correct:
  assumes inv: "space_inv p X pos m"
  shows "ring3_user_query_mapping p va m =
    (if \<not> canonical_lower va then None
     else case path_entries (page_entry m) (as_root (pg_spaces m p)) (va_path va) of
       None \<Rightarrow> None | Some es \<Rightarrow> user_view m va True True es)"
proof (cases "canonical_lower va")
  case True
  note facts = space_inv_facts [OF inv]
  let ?root = "as_root (pg_spaces m p)"
  have ptr: "table_pointer ?root m = Some ?root" using facts(2,5,6) by (auto simp: direct_map_def)
  have "query_levels p va [(0, 39), (1, 30), (2, 21), (3, 12)] True True ?root m =
      (case path_entries (page_entry m) ?root (va_path va) of None \<Rightarrow> None | Some es \<Rightarrow> user_view m va True True es)"
    using query_levels_correct [OF inv facts(6), of "[(0, 39), (1, 30), (2, 21), (3, 12)]" va True True]
      va_path_ok [OF True] facts(7) by (simp add: va_path_def upt_rec)
  then show ?thesis using True ptr facts(1)
    by (simp add: ring3_user_query_mapping_def live_space_def Let_def del: query_levels.simps)
qed (simp add: ring3_user_query_mapping_def)

section \<open>The walk of address\_space.c\<close>

text \<open>The table a present entry leads to.\<close>

lemma child_present:
  assumes inv: "space_inv p X pos m" and t: "t \<in> owned_tables m p" "length (pos t) < 3" "cell_ok (pos t) i"
    and e: "page_entry m t i AND 1 \<noteq> 0"
  shows "\<exists>g \<in> owned_tables m p. pos g = pos t @ [i] \<and> page_entry m t i AND 0x80 = 0 \<and>
    page_entry m t i AND ENTRY_ADDRESS_MASK = g \<and> address_space_owned_contains p g m \<and>
    address_space_table_pointer g m = Some g"
proof -
  have "page_entry m t i \<noteq> 0" using e by auto
  then show ?thesis using child_cases [OF inv t] by blast
qed

definition walk_result :: "(u64 \<Rightarrow> nat list) \<Rightarrow> u64 \<Rightarrow> u64 \<Rightarrow> paging \<Rightarrow> address_space_lookup \<Rightarrow> bool" where
  "walk_result pos p va m r \<longleftrightarrow> (case r of
     LOOKUP_MAPPED path \<Rightarrow> wp_root path = as_root (pg_spaces m p) \<and>
       {wp_pdpt path, wp_pd path, wp_pt path} \<subseteq> owned_tables m p \<and>
       pos (wp_pdpt path) = [table_index va 39] \<and> pos (wp_pd path) = [table_index va 39, table_index va 30] \<and>
       pos (wp_pt path) = [table_index va 39, table_index va 30, table_index va 21] \<and>
       page_entry m (wp_pt path) (table_index va 12) AND 1 \<noteq> 0
   | _ \<Rightarrow> path_entries (page_entry m) (as_root (pg_spaces m p)) (va_path va) = None)"

lemma walk_correct:
  assumes inv: "space_inv p X pos m" and va: "canonical_lower va" "address_space_page_aligned va"
  shows "walk_result pos p va m (address_space_walk p va m)"
proof -
  note facts = space_inv_facts [OF inv]
  let ?root = "as_root (pg_spaces m p)"
  let ?i0 = "table_index va 39" and ?i1 = "table_index va 30" and ?i2 = "table_index va 21"
  have i: "?i0 < 256" "?i1 < 512" "?i2 < 512"
    using va_path_ok [OF va(1)] by (simp_all add: va_path_def cell_ok_def)
  have "drop_bit 48 va = 0" "drop_bit 47 va AND 1 = 0" using va(1) unfolding canonical_lower_def by blast+
  then have "address_space_canonical va" unfolding address_space_canonical_def Let_def by simp
  moreover have "pg_initialized m" "p \<noteq> 0" "as_initialized (pg_spaces m p)" "address_space_pml4_index va = ?i0"
    using facts(1,2) by (simp_all add: live_space_def direct_map_def address_space_pml4_index_def table_index_def)
  moreover have "address_space_table_pointer ?root m = Some ?root"
    using facts(2,5,6) by (auto simp: direct_map_def)
  ultimately have start: "address_space_walk p va m =
      (let entry = page_entry m ?root ?i0; absent = (\<lambda>entry. if entry = 0 then LOOKUP_UNMAPPED else LOOKUP_ERROR) in
        if entry AND ENTRY_PRESENT = 0 then absent entry
        else let pdpt_physical = entry AND ENTRY_ADDRESS_MASK in
        if \<not> address_space_owned_contains p pdpt_physical m then LOOKUP_ERROR
        else case address_space_table_pointer pdpt_physical m of None \<Rightarrow> LOOKUP_ERROR | Some pdpt \<Rightarrow>
        let entry = page_entry m pdpt ?i1 in
        if entry AND ENTRY_PRESENT = 0 then absent entry
        else if entry AND ENTRY_LARGE_PAGE \<noteq> 0 then LOOKUP_ERROR
        else let pd_physical = entry AND ENTRY_ADDRESS_MASK in
        if \<not> address_space_owned_contains p pd_physical m then LOOKUP_ERROR
        else case address_space_table_pointer pd_physical m of None \<Rightarrow> LOOKUP_ERROR | Some pd \<Rightarrow>
        let entry = page_entry m pd ?i2 in
        if entry AND ENTRY_PRESENT = 0 then absent entry
        else if entry AND ENTRY_LARGE_PAGE \<noteq> 0 then LOOKUP_ERROR
        else let pt_physical = entry AND ENTRY_ADDRESS_MASK in
        if \<not> address_space_owned_contains p pt_physical m then LOOKUP_ERROR
        else case address_space_table_pointer pt_physical m of None \<Rightarrow> LOOKUP_ERROR | Some pt \<Rightarrow>
        let entry = page_entry m pt (table_index va 12) in
        if entry AND ENTRY_PRESENT = 0 then absent entry
        else LOOKUP_MAPPED \<lparr>wp_root = ?root, wp_pdpt = pdpt, wp_pd = pd, wp_pt = pt\<rparr>)"
    unfolding address_space_walk_def ring3_copies(1) Let_def using va(2) i(1) [unfolded ring3_copies(1)]
    by (simp only: ring3_copies(1)) simp
  show ?thesis
  proof (cases "page_entry m ?root ?i0 AND 1 = 0")
    case True
    then show ?thesis by (simp add: start walk_result_def Let_def va_path_def)
  next
    case e0: False
    from child_present [OF inv facts(6) _ _ e0] facts(7) i(1) obtain g1 where
      g1: "g1 \<in> owned_tables m p" "pos g1 = [?i0]" "page_entry m ?root ?i0 AND ENTRY_ADDRESS_MASK = g1"
      "address_space_owned_contains p g1 m" "address_space_table_pointer g1 m = Some g1" by (auto simp: cell_ok_def)
    show ?thesis
    proof (cases "page_entry m g1 ?i1 AND 1 = 0")
      case True
      then show ?thesis using e0 g1 by (simp add: start walk_result_def Let_def va_path_def)
    next
      case e1: False
      from child_present [OF inv g1(1) _ _ e1] g1(2) i(2) obtain g2 where
        g2: "g2 \<in> owned_tables m p" "pos g2 = [?i0, ?i1]" "page_entry m g1 ?i1 AND ENTRY_ADDRESS_MASK = g2"
        "page_entry m g1 ?i1 AND 0x80 = 0" "address_space_owned_contains p g2 m"
        "address_space_table_pointer g2 m = Some g2" by (auto simp: cell_ok_def)
      show ?thesis
      proof (cases "page_entry m g2 ?i2 AND 1 = 0")
        case True
        then show ?thesis using e0 e1 g1 g2 by (simp add: start walk_result_def Let_def va_path_def)
      next
        case e2: False
        from child_present [OF inv g2(1) _ _ e2] g2(2) i(3) obtain g3 where
          g3: "g3 \<in> owned_tables m p" "pos g3 = [?i0, ?i1, ?i2]" "page_entry m g2 ?i2 AND ENTRY_ADDRESS_MASK = g3"
          "page_entry m g2 ?i2 AND 0x80 = 0" "address_space_owned_contains p g3 m"
          "address_space_table_pointer g3 m = Some g3" by (auto simp: cell_ok_def)
        show ?thesis
        proof (cases "page_entry m g3 (table_index va 12) AND 1 = 0")
          case True
          then show ?thesis using e0 e1 e2 g1 g2 g3 by (simp add: start walk_result_def Let_def va_path_def)
        next
          case False
          then show ?thesis using e0 e1 e2 g1 g2 g3 by (simp add: start walk_result_def Let_def)
        qed
      qed
    qed
  qed
qed

section \<open>Releasing empty tables\<close>

lemma table_dropped:
  assumes inv: "space_inv p X pos m" and X: "X \<subseteq> {g}"
    and t: "t \<in> owned_tables m p" "g \<in> owned_tables m p" "pos g = pos t @ [i]"
    and emp: "\<And>j. j < 512 \<Longrightarrow> page_entry m g j = 0"
  shows "\<exists>m2. address_space_release_owned_table p g (set_page_entry t i 0 m) = (True, m2) \<and>
    space_inv p {t} pos m2 \<and> kept p m m2 \<and> owned_tables m2 p = owned_tables m p - {g} \<and>
    (\<forall>f \<in> owned_tables m p - {g}. \<forall>j. page_entry m2 f j = (if f = t \<and> j = i then 0 else page_entry m f j)) \<and>
    (\<forall>path. length path = 4 \<longrightarrow> path_ok [] path \<longrightarrow>
      path_entries (page_entry m2) (as_root (pg_spaces m p)) path =
      path_entries (page_entry m) (as_root (pg_spaces m p)) path)"
proof -
  note facts = space_inv_facts [OF inv]
  let ?m1 = "set_page_entry t i 0 m" and ?s = "pg_spaces m p"
  have gf: "g \<in> managed_frames m" "g \<notin> free_frames m" using facts(5) [OF t(2)] by blast+
  have gr: "g \<noteq> as_root ?s" using t(3) facts(7) by auto
  have tg: "t \<noteq> g" using t(3) by auto
  have live: "live_space ?m1 p" using facts(1) by (simp add: live_space_def)
  have con: "address_space_owned_contains p g ?m1"
    using owned_contains_live [OF live, of g] t(2) by (simp add: owned_tables_def)
  obtain ok m2 where run: "free_frame g ?m1 = (ok, m2)" by (metis surj_pair)
  have wf1: "pmm_wf (pg_pmm ?m1)" using facts(3) by simp
  note fr = free_frame_correct [OF wf1 run]
  have ok: ok using fr(3) gf by simp
  from fr(1) obtain a where a: "m2 = ?m1\<lparr>pg_pmm := a\<rparr>" "pmm_wf a" by blast
  let ?m3 = "set_space p (?s\<lparr>as_owned := remove1 g (as_owned ?s)\<rparr>) m2"
  have mem: "g \<in> set (as_owned ?s)" using t(2) by (simp add: owned_tables_def)
  have res: "address_space_release_owned_table p g ?m1 = (True, ?m3)"
    using con run ok mem facts(1)
    by (simp add: address_space_release_owned_table_def address_space_owned_remove_def a live_space_def Let_def)
  have dist: "distinct (as_owned ?s)" "length (as_owned ?s) \<le> 128" using inv by (simp_all add: space_inv_def)
  have own: "owned_tables ?m3 p = owned_tables m p - {g}"
    using dist(1) by (simp add: owned_tables_def set_space_def)
  have fields: "same_machine m ?m3" "managed_frames ?m3 = managed_frames m" "free_frames ?m3 = insert g (free_frames m)"
    using fr(2,4) ok by (simp_all add: a)
  have wf3: "pmm_wf (pg_pmm ?m3)" by (simp add: set_space_def a)
  have ent: "page_entry ?m3 f j = (if f = t \<and> j = i then 0 else page_entry m f j)" for f j by (simp add: a)
  have "cell_ok (pos t) i"
    using path_ok_pos [OF facts(4) t(2)] t(3) by (simp add: path_ok_append)
  note cell = this
  have tree: "tables_ok (page_entry ?m3) (as_root ?s) (owned_tables m p - {g}) pos"
    by (rule drop_table_ok [OF facts(4) t]) (rule emp, assumption, rule ent)
  have "tables_used (page_entry ?m3) (as_root ?s) (owned_tables m p - {g}) {t}"
    unfolding tables_used_def
  proof
    fix f assume f: "f \<in> owned_tables m p - {g} - {as_root ?s} - {t}"
    then have "f \<in> owned_tables m p - {as_root ?s} - X" using X by auto
    then obtain j where "j < 512" "page_entry m f j \<noteq> 0"
      using inv unfolding space_inv_def tables_used_def by blast
    then show "\<exists>j < 512. page_entry ?m3 f j \<noteq> 0" using f ent [of f j] by (intro exI [of _ j]) auto
  qed
  moreover have "direct_map ?m3" using direct_map_same [OF facts(2) fields(1) wf3 fields(2)] .
  moreover have "live_space ?m3 p" using facts(1) by (simp add: live_space_def set_space_def)
  moreover have "distinct (as_owned (pg_spaces ?m3 p))" "length (as_owned (pg_spaces ?m3 p)) \<le> 128"
    using dist by (auto simp: set_space_def length_remove1)
  moreover have "owned_tables ?m3 p \<subseteq> managed_frames ?m3 - free_frames ?m3"
    using facts(5) unfolding own fields by blast
  moreover have root: "as_root (pg_spaces ?m3 p) = as_root ?s" by (simp add: set_space_def)
  ultimately have "space_inv p {t} pos ?m3" using tree unfolding space_inv_def own root by blast
  moreover have "kept p m ?m3"
  proof -
    have "free_frames ?m3 \<union> owned_tables ?m3 p = free_frames m \<union> owned_tables m p"
      using t(2) unfolding own fields by blast
    moreover have "pg_memory ?m3 f = pg_memory m f" if "f \<notin> free_frames m \<union> owned_tables m p" for f
    proof -
      have "f \<noteq> t" using that t(1) by blast
      then show ?thesis by (simp add: set_space_def a)
    qed
    moreover have "page_entry ?m3 (as_root ?s) j = page_entry m (as_root ?s) j" if "256 \<le> j" for j
    proof -
      have "\<not> (as_root ?s = t \<and> j = i)"
      proof
        assume "as_root ?s = t \<and> j = i"
        then show False using facts(7) cell that by (auto simp: cell_ok_def)
      qed
      then show ?thesis using ent [of "as_root ?s" j] by auto
    qed
    moreover have "\<forall>q. q \<noteq> p \<longrightarrow> pg_spaces ?m3 q = pg_spaces m q"
      "pg_spaces ?m3 p = ?s\<lparr>as_owned := as_owned (pg_spaces ?m3 p)\<rparr>" by (simp_all add: set_space_def a)
    ultimately show ?thesis using fields(1,2) wf3 unfolding kept_def by blast
  qed
  moreover have "path_entries (page_entry ?m3) (as_root ?s) path = path_entries (page_entry m) (as_root ?s) path"
    if "length path = 4" "path_ok [] path" for path
    by (rule drop_table_paths [OF facts(4) t _ _ that]) (rule emp, assumption, rule ent)
  ultimately show ?thesis using res own ent by blast
qed

text \<open>The tables above a page, each with the entry that refers to it.\<close>

fun table_chain :: "paging \<Rightarrow> u64 \<Rightarrow> (u64 \<Rightarrow> nat list) \<Rightarrow> u64 \<Rightarrow> (u64 \<times> (u64 \<times> nat)) list \<Rightarrow> bool" where
  "table_chain m p pos t [] \<longleftrightarrow> t = as_root (pg_spaces m p)"
| "table_chain m p pos t ((g, (u, i)) # ts) \<longleftrightarrow>
     g = t \<and> u \<in> owned_tables m p \<and> t \<in> owned_tables m p \<and> pos t = pos u @ [i] \<and> table_chain m p pos u ts"

lemma table_empty_iff: "address_space_table_empty g m \<longleftrightarrow> (\<forall>j < 512. page_entry m g j = 0)"
  unfolding address_space_table_empty_def list_all_iff set_upt by auto

lemma table_chain_dropped:
  assumes "owned_tables m2 p = owned_tables m p - {g}" "pg_spaces m2 p = s"
    "as_root s = as_root (pg_spaces m p)"
  shows "table_chain m p pos t ts \<Longrightarrow> length (pos t) < length (pos g) \<Longrightarrow> table_chain m2 p pos t ts"
proof (induction ts arbitrary: t)
  case Nil
  then show ?case using assms by simp
next
  case (Cons c ts)
  obtain h u i where c: "c = (h, (u, i))" by (metis surj_pair)
  have "length (pos u) < length (pos g)" "u \<noteq> g" "t \<noteq> g" using Cons.prems by (auto simp: c)
  then show ?case using Cons by (simp add: c assms(1))
qed

lemma release_correct:
  assumes "space_inv p {t} pos m" "table_chain m p pos t ts"
  shows "\<exists>m'. release_empty_tables p ts m = (True, m') \<and> (\<exists>pos. space_inv p {} pos m') \<and> kept p m m' \<and>
    (\<forall>path. length path = 4 \<longrightarrow> path_ok [] path \<longrightarrow>
      path_entries (page_entry m') (as_root (pg_spaces m p)) path =
      path_entries (page_entry m) (as_root (pg_spaces m p)) path)"
  using assms
proof (induction ts arbitrary: m t)
  case Nil
  have "space_inv p {} pos m" using Nil by (auto simp: space_inv_def tables_used_def)
  then show ?case using kept_refl space_inv_facts(3) [OF Nil.prems(1)] by auto
next
  case (Cons c ts)
  obtain u i where c: "c = (t, (u, i))" "u \<in> owned_tables m p" "t \<in> owned_tables m p" "pos t = pos u @ [i]"
    "table_chain m p pos u ts" using Cons.prems(2) by (cases c) (auto elim!: table_chain.elims)
  have own: "address_space_owned_contains p t m"
    using owned_contains_live space_inv_facts(1) [OF Cons.prems(1)] c(3) by blast
  show ?case
  proof (cases "address_space_table_empty t m")
    case False
    then have "space_inv p {} pos m"
      using Cons.prems(1) by (auto simp: space_inv_def tables_used_def table_empty_iff)
    then show ?thesis using False kept_refl space_inv_facts(3) [OF Cons.prems(1)] by (auto simp: c(1))
  next
    case True
    then have emp: "\<And>j. j < 512 \<Longrightarrow> page_entry m t j = 0" by (simp add: table_empty_iff)
    from table_dropped [OF Cons.prems(1) subset_refl c(2,3,4) emp] obtain m2 where
      m2: "address_space_release_owned_table p t (set_page_entry u i 0 m) = (True, m2)" "space_inv p {u} pos m2"
        "kept p m m2" "owned_tables m2 p = owned_tables m p - {t}"
        "\<forall>path. length path = 4 \<longrightarrow> path_ok [] path \<longrightarrow> path_entries (page_entry m2) (as_root (pg_spaces m p)) path =
          path_entries (page_entry m) (as_root (pg_spaces m p)) path" by blast
    have "table_chain m2 p pos u ts"
      using table_chain_dropped [OF m2(4) refl kept_root [OF m2(3)] c(5)] c(4) by simp
    from Cons.IH [OF m2(2) this] obtain m' pos' where
      m': "release_empty_tables p ts m2 = (True, m')" "space_inv p {} pos' m'" "kept p m2 m'"
        "\<forall>path. length path = 4 \<longrightarrow> path_ok [] path \<longrightarrow> path_entries (page_entry m') (as_root (pg_spaces m2 p)) path =
          path_entries (page_entry m2) (as_root (pg_spaces m2 p)) path" by blast
    show ?thesis
      using m2(1,5) m'(1,2,4) True own kept_trans [OF m2(3) m'(3)] kept_root [OF m2(3)]
      by (auto simp: c(1))
  qed
qed

end
