(* ===== verification/PagingOps.thy ===== *)
theory PagingOps
  imports PagingWalks
begin

text \<open>
  The operations on all address spaces of the machine at once. \<open>paging_ok\<close> is
  the invariant: every space has a well-formed tree of tables of its own, all
  its frames taken from the allocator, and shares the kernel's upper half. An
  operation on one space changes what is seen in that space only.
\<close>

section \<open>What a space shows\<close>

text \<open>The two ways to say that an address lies in the lower half.\<close>

lemma canonical_lower_split:
  "address_space_canonical va \<and> address_space_pml4_index va < 256 \<longleftrightarrow> canonical_lower va"
proof
  assume a: "address_space_canonical va \<and> address_space_pml4_index va < 256"
  then have i: "drop_bit 39 va AND 0x1ff < 256" by (simp add: address_space_pml4_index_def word_less_nat_alt)
  have "unat va div 2 ^ 39 mod 512 < 256"
    using a table_index_unat [of va 39] by (simp add: address_space_pml4_index_def table_index_def)
  moreover have "x div 256 mod 2 = 0" if "x mod 512 < 256" for x :: nat
    using that mod_mult2_eq [of x 256 2] by simp
  ultimately have "unat va div 2 ^ 39 div 256 mod 2 = 0" by blast
  then have "unat va div 2 ^ 47 mod 2 = 0" by (simp add: div_mult2_eq [symmetric])
  then have "unat (drop_bit 47 va AND 1) = 0" unfolding and_one_eq unat_mod unat_drop_bit by simp
  then have "drop_bit 47 va AND 1 = 0" by (simp add: unat_eq_zero)
  then show "canonical_lower va" using a i by (simp add: canonical_lower_def address_space_canonical_def Let_def)
next
  assume c: "canonical_lower va"
  then have "drop_bit 48 va = 0" "drop_bit 47 va AND 1 = 0" "drop_bit 39 va AND 0x1ff < 256"
    unfolding canonical_lower_def by blast+
  then show "address_space_canonical va \<and> address_space_pml4_index va < 256"
    by (simp add: address_space_canonical_def address_space_pml4_index_def Let_def word_less_nat_alt)
qed

text \<open>The physical page of a mapped address, from the entries of its walk.\<close>

lemma translate_correct:
  assumes inv: "space_inv p X pos m"
  shows "address_space_translate p va m =
    (if canonical_lower va \<and> address_space_page_aligned va
     then map_option (\<lambda>es. last es AND ENTRY_ADDRESS_MASK)
       (path_entries (page_entry m) (as_root (pg_spaces m p)) (va_path va))
     else None)"
proof (cases "canonical_lower va \<and> address_space_page_aligned va")
  case False
  have "address_space_walk p va m = LOOKUP_ERROR"
    using False canonical_lower_split [of va] by (auto simp: address_space_walk_def Let_def)
  then show ?thesis using False by (simp only: address_space_translate_def address_space_lookup.case if_False)
next
  case True
  note facts = space_inv_facts [OF inv]
  let ?root = "as_root (pg_spaces m p)"
  have supp: "address_space_physical_supported (e AND ENTRY_ADDRESS_MASK)" for e
  proof -
    have "ENTRY_ADDRESS_MASK AND 4095 = (0 :: u64)" "ENTRY_ADDRESS_MASK AND NOT ENTRY_ADDRESS_MASK = (0 :: u64)"
      by code_simp+
    then show ?thesis
      unfolding address_space_physical_supported_def address_space_page_aligned_def and.assoc by (simp only: and_zero_eq)
  qed
  note walk = walk_correct [OF inv, of va]
  show ?thesis
  proof (cases "address_space_walk p va m")
    case (LOOKUP_MAPPED path)
    let ?pt = "wp_pt path" and ?i = "table_index va 12"
    have r: "?pt \<in> owned_tables m p" "pos ?pt @ [?i] = va_path va" "page_entry m ?pt ?i AND 1 \<noteq> 0"
      using walk True LOOKUP_MAPPED by (simp_all add: walk_result_def va_path_def)
    from path_entries_at [OF facts(4) r(1)] obtain es where
      "path_entries (page_entry m) ?root (pos ?pt @ [?i]) = map_option ((@) es) (path_entries (page_entry m) ?pt [?i])"
      by blast
    then have "path_entries (page_entry m) ?root (va_path va) = Some (es @ [page_entry m ?pt ?i])"
      using r(2,3) by simp
    then show ?thesis using True LOOKUP_MAPPED supp
      by (simp add: address_space_translate_def Let_def ring3_copies)
  qed (use walk True in \<open>simp_all add: walk_result_def address_space_translate_def\<close>)
qed

text \<open>Whether an address looks the same in a space before and after.\<close>

definition same_at :: "u64 \<Rightarrow> u64 \<Rightarrow> paging \<Rightarrow> paging \<Rightarrow> bool" where
  "same_at p va m m' \<longleftrightarrow>
     ring3_user_query_mapping p va m' = ring3_user_query_mapping p va m \<and>
     address_space_translate p va m' = address_space_translate p va m"

lemma user_view_cong:
  assumes "pg_nx_enabled m' = pg_nx_enabled m" "\<And>f. frame_is_usable f m' = frame_is_usable f m"
  shows "user_view m' va w x es = user_view m va w x es"
  using assms(1) by (induction es arbitrary: w x) (simp_all add: assms(2) Let_def cong: if_cong)

lemma same_at_paths:
  assumes inv: "space_inv p X pos m" "space_inv p X' pos' m'"
    and fields: "managed_frames m' = managed_frames m" "pg_nx_enabled m' = pg_nx_enabled m"
    and root: "as_root (pg_spaces m' p) = as_root (pg_spaces m p)"
    and path: "canonical_lower va \<Longrightarrow> path_entries (page_entry m') (as_root (pg_spaces m p)) (va_path va) =
      path_entries (page_entry m) (as_root (pg_spaces m p)) (va_path va)"
  shows "same_at p va m m'"
proof -
  have "frame_is_usable f m' = frame_is_usable f m" for f
    using frame_is_usable_iff space_inv_facts(3) [OF inv(1)] space_inv_facts(3) [OF inv(2)] fields(1) by simp
  then have "user_view m' va w x es = user_view m va w x es" for w x es
    using fields(2) by (intro user_view_cong)
  then show ?thesis
    using path root unfolding same_at_def query_correct [OF inv(1)] query_correct [OF inv(2)]
      translate_correct [OF inv(1)] translate_correct [OF inv(2)]
    by (auto cong: option.case_cong)
qed

lemma not_live_shows_nothing:
  "\<not> live_space m p \<Longrightarrow> ring3_user_query_mapping p va m = None"
  by (auto simp: live_space_def ring3_user_query_mapping_def)

section \<open>All spaces\<close>

definition kernel_half :: "paging \<Rightarrow> bool" where
  "kernel_half m \<longleftrightarrow> pg_bootstrap_space m \<noteq> 0 \<and>
     address_space_table_pointer (pg_bootstrap_root m) m = Some (pg_bootstrap_root m) \<and>
     pg_bootstrap_root m \<notin> free_frames m \<and>
     (\<forall>i \<in> {256, 510, 511}. page_entry m (pg_bootstrap_root m) i AND 1 \<noteq> 0)"

definition paging_ok :: "paging \<Rightarrow> bool" where
  "paging_ok m \<longleftrightarrow> direct_map m \<and> kernel_half m \<and>
     (\<forall>p. live_space m p \<longrightarrow> (\<exists>pos. space_inv p {} pos m) \<and> pg_bootstrap_root m \<notin> owned_tables m p \<and>
        address_space_kernel_mappings_valid p m) \<and>
     (\<forall>p q. live_space m p \<longrightarrow> live_space m q \<longrightarrow> p \<noteq> q \<longrightarrow> owned_tables m p \<inter> owned_tables m q = {})"

lemma kernel_valid_iff:
  assumes "direct_map m" "kernel_half m" "live_space m p" "address_space_table_pointer (as_root (pg_spaces m p)) m = Some (as_root (pg_spaces m p))"
  shows "address_space_kernel_mappings_valid p m \<longleftrightarrow>
    (\<forall>i \<in> {256..<512}. page_entry m (as_root (pg_spaces m p)) i = page_entry m (pg_bootstrap_root m) i)"
proof -
  let ?r = "as_root (pg_spaces m p)" and ?b = "pg_bootstrap_root m"
  let ?same = "\<forall>i \<in> {256..<512}. page_entry m ?r i = page_entry m ?b i"
  have b: "address_space_table_pointer ?b m = Some ?b" "pg_bootstrap_space m \<noteq> 0"
    "page_entry m ?b 256 AND 1 \<noteq> 0" "page_entry m ?b 510 AND 1 \<noteq> 0" "page_entry m ?b 511 AND 1 \<noteq> 0"
    using assms(2) by (simp_all add: kernel_half_def)
  have "\<not> (\<not> pg_initialized m \<or> p = 0 \<or> \<not> as_initialized (pg_spaces m p) \<or> pg_bootstrap_space m = 0)"
    using assms(1,3) b(2) by (simp add: direct_map_def live_space_def)
  then have "address_space_kernel_mappings_valid p m \<longleftrightarrow> ?same \<and> page_entry m ?r 256 AND 1 \<noteq> 0 \<and>
      page_entry m ?r 510 AND 1 \<noteq> 0 \<and> page_entry m ?r 511 AND 1 \<noteq> 0"
    unfolding address_space_kernel_mappings_valid_def b(1) assms(4) list_all_iff set_upt
    by (simp only: if_False prod.case option.case)
  moreover have "page_entry m ?r i = page_entry m ?b i" if ?same "256 \<le> i" "i < 512" for i
    using that atLeastLessThan_iff by blast
  ultimately show ?thesis using b(3-5) by auto
qed

lemma root_pointer:
  "space_inv p X pos m \<Longrightarrow> address_space_table_pointer (as_root (pg_spaces m p)) m = Some (as_root (pg_spaces m p))"
  using space_inv_facts(2,5,6) by (auto simp: direct_map_def)

lemma kept_live: "kept p m m' \<Longrightarrow> live_space m' q \<longleftrightarrow> live_space m q"
proof -
  assume k: "kept p m m'"
  have "as_initialized (pg_spaces m' q) = as_initialized (pg_spaces m q) \<and>
      as_bootstrap (pg_spaces m' q) = as_bootstrap (pg_spaces m q)"
  proof (cases "q = p")
    case True
    have "pg_spaces m' p = (pg_spaces m p)\<lparr>as_owned := as_owned (pg_spaces m' p)\<rparr>" using k by (simp add: kept_def)
    from arg_cong [OF this, of as_initialized] arg_cong [OF this, of as_bootstrap] True show ?thesis by simp
  qed (use k in \<open>simp add: kept_def\<close>)
  then show ?thesis by (simp add: live_space_def)
qed

text \<open>The fields that decide how tables are reached and read.\<close>

definition same_access :: "paging \<Rightarrow> paging \<Rightarrow> bool" where
  "same_access m m' \<longleftrightarrow> pg_nx_enabled m' = pg_nx_enabled m \<and> pg_vmm_stats m' = pg_vmm_stats m \<and>
     pg_bootstrap_space m' = pg_bootstrap_space m \<and> pg_bootstrap_root m' = pg_bootstrap_root m \<and>
     pg_hhdm_offset m' = pg_hhdm_offset m \<and> pg_initialized m' = pg_initialized m"

lemma same_machine_access: "same_machine m m' \<Longrightarrow> same_access m m'"
  by (simp add: same_machine_def same_access_def)

lemma same_access_pointers:
  assumes "same_access m m'"
  shows "address_space_table_pointer f m' = address_space_table_pointer f m" "table_pointer f m' = table_pointer f m"
  using assms unfolding same_access_def address_space_table_pointer_def table_pointer_def
  by (simp_all only:)

text \<open>The spaces other than \<open>p\<close> when only free frames and those of \<open>S\<close> are written.\<close>

definition others_untouched :: "u64 \<Rightarrow> u64 set \<Rightarrow> paging \<Rightarrow> paging \<Rightarrow> bool" where
  "others_untouched p S m m' \<longleftrightarrow> paging_ok m \<and> same_access m m' \<and> pmm_wf (pg_pmm m') \<and>
     managed_frames m' = managed_frames m \<and> (\<forall>q. q \<noteq> p \<longrightarrow> pg_spaces m' q = pg_spaces m q) \<and>
     (\<forall>f. f \<notin> free_frames m \<union> S \<longrightarrow> pg_memory m' f = pg_memory m f) \<and>
     (\<forall>q. live_space m q \<longrightarrow> q \<noteq> p \<longrightarrow> owned_tables m q \<inter> S = {}) \<and> pg_bootstrap_root m \<notin> S \<and>
     free_frames m' \<subseteq> free_frames m \<union> S"

lemma others_untouchedI:
  assumes "paging_ok m" "same_access m m'" "pmm_wf (pg_pmm m')" "managed_frames m' = managed_frames m"
    "\<And>q. q \<noteq> p \<Longrightarrow> pg_spaces m' q = pg_spaces m q"
    "\<And>f. f \<notin> free_frames m \<union> S \<Longrightarrow> pg_memory m' f = pg_memory m f"
    "\<And>q. live_space m q \<Longrightarrow> q \<noteq> p \<Longrightarrow> owned_tables m q \<inter> S = {}" "pg_bootstrap_root m \<notin> S"
    "free_frames m' \<subseteq> free_frames m \<union> S"
  shows "others_untouched p S m m'"
  using assms by (simp add: others_untouched_def)

lemma untouched_facts:
  assumes "others_untouched p S m m'"
  shows "paging_ok m" "same_access m m'" "pmm_wf (pg_pmm m')" "managed_frames m' = managed_frames m"
    "\<And>q. q \<noteq> p \<Longrightarrow> pg_spaces m' q = pg_spaces m q"
    "\<And>f. f \<notin> free_frames m \<union> S \<Longrightarrow> pg_memory m' f = pg_memory m f"
    "\<And>q. live_space m q \<Longrightarrow> q \<noteq> p \<Longrightarrow> owned_tables m q \<inter> S = {}" "pg_bootstrap_root m \<notin> S"
    "free_frames m' \<subseteq> free_frames m \<union> S"
  using assms unfolding others_untouched_def by blast+

lemma paging_ok_facts:
  assumes "paging_ok m"
  shows "direct_map m" "kernel_half m" "\<And>q. live_space m q \<Longrightarrow> \<exists>pos. space_inv q {} pos m"
    "\<And>q. live_space m q \<Longrightarrow> pg_bootstrap_root m \<notin> owned_tables m q \<and> address_space_kernel_mappings_valid q m"
    "\<And>q r. live_space m q \<Longrightarrow> live_space m r \<Longrightarrow> q \<noteq> r \<Longrightarrow> owned_tables m q \<inter> owned_tables m r = {}"
  using assms unfolding paging_ok_def by blast+

lemma untouched_direct_map:
  assumes un: "others_untouched p S m m'"
  shows "direct_map m'"
proof -
  note ok = untouched_facts(1) [OF un] and access = untouched_facts(2) [OF un] and wf = untouched_facts(3) [OF un]
    and man = untouched_facts(4) [OF un] and sp = untouched_facts(5) [OF un] and mem = untouched_facts(6) [OF un]
    and S = untouched_facts(7,8) [OF un] and free = untouched_facts(9) [OF un]
  note before = paging_ok_facts [OF ok]
  have "pg_initialized m' = pg_initialized m" using access by (simp add: same_access_def)
  then show ?thesis using before(1) wf man same_access_pointers [OF access] by (simp add: direct_map_def)
qed

lemma untouched_boot:
  assumes un: "others_untouched p S m m'"
  shows "pg_bootstrap_root m' = pg_bootstrap_root m"
    "page_entry m' (pg_bootstrap_root m) = page_entry m (pg_bootstrap_root m)" "kernel_half m'"
proof -
  note ok = untouched_facts(1) [OF un] and access = untouched_facts(2) [OF un] and wf = untouched_facts(3) [OF un]
    and man = untouched_facts(4) [OF un] and sp = untouched_facts(5) [OF un] and mem = untouched_facts(6) [OF un]
    and S = untouched_facts(7,8) [OF un] and free = untouched_facts(9) [OF un]
  note before = paging_ok_facts [OF ok]
  have b: "pg_bootstrap_root m \<notin> free_frames m \<union> S" using before(2) S(2) by (simp add: kernel_half_def)
  show r: "pg_bootstrap_root m' = pg_bootstrap_root m" using access by (simp add: same_access_def)
  show e: "page_entry m' (pg_bootstrap_root m) = page_entry m (pg_bootstrap_root m)"
    by (rule page_entry_frame [OF mem [OF b]])
  have "pg_bootstrap_root m \<notin> free_frames m'" using b free by blast
  moreover have "pg_bootstrap_space m' = pg_bootstrap_space m" using access by (simp add: same_access_def)
  ultimately show "kernel_half m'"
    using before(2) same_access_pointers(1) [OF access] by (simp add: kernel_half_def r e)
qed

lemma untouched:
  assumes un: "others_untouched p S m m'" and q: "q \<noteq> p" "live_space m q"
  shows "live_space m' q" "owned_tables m' q = owned_tables m q" "\<exists>pos. space_inv q {} pos m'"
    "same_at q va m m'" "address_space_kernel_mappings_valid q m'"
proof -
  note ok = untouched_facts(1) [OF un] and access = untouched_facts(2) [OF un] and wf = untouched_facts(3) [OF un]
    and man = untouched_facts(4) [OF un] and sp = untouched_facts(5) [OF un] and mem = untouched_facts(6) [OF un]
    and S = untouched_facts(7,8) [OF un] and free = untouched_facts(9) [OF un]
  note before = paging_ok_facts [OF ok] and direct_map' = untouched_direct_map [OF un] and boot = untouched_boot [OF un]
  show live: "live_space m' q" using q sp [OF q(1)] by (simp add: live_space_def)
  show own: "owned_tables m' q = owned_tables m q" using sp [OF q(1)] by (simp add: owned_tables_def)
  obtain pos where pos: "space_inv q {} pos m" using before(3) [OF q(2)] ..
  have out: "f \<notin> free_frames m \<union> S" if "f \<in> owned_tables m q" for f
    using space_inv_facts(5) [OF pos that] S(1) [OF q(2,1)] that by blast
  have ent: "page_entry m' f j = page_entry m f j" if "f \<in> owned_tables m q" for f j
    using page_entry_frame [OF mem [OF out [OF that]]] by simp
  have "tables_ok (page_entry m') root (owned_tables m q) pos = tables_ok (page_entry m) root (owned_tables m q) pos"
    "tables_used (page_entry m') root (owned_tables m q) {} = tables_used (page_entry m) root (owned_tables m q) {}" for root
    by (rule tables_ok_cong, rule ent, assumption)+
  moreover have "owned_tables m q \<subseteq> managed_frames m - free_frames m'"
    using pos out free unfolding space_inv_def by blast
  ultimately have inv': "space_inv q {} pos m'"
    using pos direct_map' live man unfolding space_inv_def own sp [OF q(1)] by simp
  show "\<exists>pos. space_inv q {} pos m'" by (rule exI [of _ pos], rule inv')
  have nx: "pg_nx_enabled m' = pg_nx_enabled m" using access by (simp add: same_access_def)
  have "path_entries (page_entry m') (as_root (pg_spaces m q)) (va_path va) =
      path_entries (page_entry m) (as_root (pg_spaces m q)) (va_path va)" if "canonical_lower va"
    using path_entries_cong [OF space_inv_facts(4) [OF pos], of "va_path va" "page_entry m'"
      "as_root (pg_spaces m q)" "va_path va"] ent space_inv_facts(6,7) [OF pos] va_path_ok [OF that] by simp
  then show "same_at q va m m'" using same_at_paths [OF pos inv' man nx] sp [OF q(1)] by simp
  have "page_entry m' (as_root (pg_spaces m q)) = page_entry m (as_root (pg_spaces m q))"
    using ent [OF space_inv_facts(6) [OF pos]] by blast
  then show "address_space_kernel_mappings_valid q m'"
    using kernel_valid_iff [OF before(1,2) q(2) root_pointer [OF pos]] before(4) [OF q(2)]
      kernel_valid_iff [OF direct_map' boot(3) live root_pointer [OF inv']]
    by (simp add: sp [OF q(1)] boot)
qed

text \<open>The whole invariant, given the space \<open>p\<close> itself.\<close>

lemma paging_ok_after:
  assumes un: "others_untouched p S m m'" and own: "live_space m' p \<Longrightarrow> (\<exists>pos. space_inv p {} pos m') \<and> address_space_kernel_mappings_valid p m' \<and>
    owned_tables m' p \<subseteq> free_frames m \<union> S"
  shows "paging_ok m'"
proof -
  note ok = untouched_facts(1) [OF un] and access = untouched_facts(2) [OF un] and wf = untouched_facts(3) [OF un]
    and man = untouched_facts(4) [OF un] and sp = untouched_facts(5) [OF un] and mem = untouched_facts(6) [OF un]
    and S = untouched_facts(7,8) [OF un] and free = untouched_facts(9) [OF un]
  note before = paging_ok_facts [OF ok] and direct_map' = untouched_direct_map [OF un] and boot = untouched_boot [OF un]
  have live: "live_space m q" if "live_space m' q" "q \<noteq> p" for q
    using that sp [of q] by (simp add: live_space_def)
  have fresh: "owned_tables m q \<inter> (free_frames m \<union> S) = {}" if "live_space m q" "q \<noteq> p" for q
    using before(3) [OF that(1)] space_inv_facts(5) S(1) [OF that] by blast
  have b: "pg_bootstrap_root m \<notin> free_frames m \<union> S" using before(2) S(2) by (simp add: kernel_half_def)
  have "(\<exists>pos. space_inv q {} pos m') \<and> pg_bootstrap_root m' \<notin> owned_tables m' q \<and>
      address_space_kernel_mappings_valid q m'" if q: "live_space m' q" for q
  proof (cases "q = p")
    case True
    then show ?thesis using own q b unfolding boot(1) by blast
  next
    case False
    note u = untouched [OF un False live [OF q False]]
    show ?thesis using u(3,5) before(4) [OF live [OF q False]] unfolding u(2) boot(1) by blast
  qed
  moreover have "owned_tables m' q \<inter> owned_tables m' r = {}"
    if "live_space m' q" "live_space m' r" "q \<noteq> r" for q r
  proof (cases "q = p \<or> r = p")
    case True
    then show ?thesis
    proof
      assume q: "q = p"
      then have r: "r \<noteq> p" "live_space m r" using that live by auto
      show ?thesis using own that(1) fresh [OF r(2,1)] unfolding untouched(2) [OF un r] q by blast
    next
      assume r: "r = p"
      then have q: "q \<noteq> p" "live_space m q" using that live by auto
      show ?thesis using own that(2) fresh [OF q(2,1)] unfolding untouched(2) [OF un q] r by blast
    qed
  next
    case False
    then have "q \<noteq> p" "live_space m q" "r \<noteq> p" "live_space m r" using that live by auto
    then show ?thesis using untouched(2) [OF un] before(5) [OF _ _ that(3)] by simp
  qed
  ultimately show ?thesis using direct_map' boot(3) unfolding paging_ok_def by blast
qed

text \<open>An operation that keeps everything outside one space keeps the invariant, and the other spaces.\<close>

lemma kept_untouched:
  assumes "paging_ok m" "live_space m p" "kept p m m'"
  shows "others_untouched p (owned_tables m p) m m'"
proof (rule others_untouchedI)
  show "same_access m m'" using assms(3) same_machine_access by (simp add: kept_def)
  show "free_frames m' \<subseteq> free_frames m \<union> owned_tables m p" using assms(3) by (auto simp: kept_def)
  show "owned_tables m q \<inter> owned_tables m p = {}" if "live_space m q" "q \<noteq> p" for q
    using assms(1,2) that unfolding paging_ok_def by blast
qed (use assms in \<open>simp_all add: kept_def paging_ok_def\<close>)

lemma paging_step:
  assumes ok: "paging_ok m" and live: "live_space m p" and k: "kept p m m'" and inv: "space_inv p {} pos' m'"
  shows "paging_ok m'" "\<And>q va. q \<noteq> p \<Longrightarrow> live_space m q \<Longrightarrow> same_at q va m m'"
proof -
  note out = kept_untouched [OF ok live k]
  show "\<And>q va. q \<noteq> p \<Longrightarrow> live_space m q \<Longrightarrow> same_at q va m m'"
    by (rule untouched(4) [OF out])
  obtain pos where pos: "space_inv p {} pos m" using ok live by (auto simp: paging_ok_def)
  have m: "direct_map m" "kernel_half m" "address_space_kernel_mappings_valid p m"
    using ok live unfolding paging_ok_def by blast+
  have "\<And>i. 256 \<le> i \<Longrightarrow> page_entry m' (as_root (pg_spaces m p)) i = page_entry m (as_root (pg_spaces m p)) i"
    "owned_tables m' p \<subseteq> free_frames m \<union> owned_tables m p"
    using k unfolding kept_def by blast+
  moreover from this have "address_space_kernel_mappings_valid p m'"
    using kernel_valid_iff [OF m(1,2) live root_pointer [OF pos]] m(3)
      kernel_valid_iff [OF untouched_direct_map [OF out] untouched_boot(3) [OF out] _ root_pointer [OF inv]]
      live kept_live [OF k] kept_root [OF k]
    by (simp add: untouched_boot(1,2) [OF out])
  ultimately show "paging_ok m'"
    using inv by (intro paging_ok_after [OF out]) blast
qed

end
