(* ===== verification/PagingProps.thy ===== *)
theory PagingProps
  imports PagingOps
begin

text \<open>
  The operations of ring3_memory.c and address_space.c on the invariant: mapping
  and unmapping pages. Their effect is stated by the code's own query and
  translation: a mapping adds one page to one space, an unmapping takes one away,
  and nothing else changes in any space.
\<close>

section \<open>Leaf entries\<close>

lemma physical_supported_mask: "address_space_physical_supported (e AND ENTRY_ADDRESS_MASK)"
proof -
  have "ENTRY_ADDRESS_MASK AND 4095 = (0 :: u64)" "ENTRY_ADDRESS_MASK AND NOT ENTRY_ADDRESS_MASK = (0 :: u64)"
    by code_simp+
  then show ?thesis
    unfolding address_space_physical_supported_def address_space_page_aligned_def and.assoc by (simp only: and_zero_eq)
qed

definition user_leaf :: "u64 \<Rightarrow> bool \<Rightarrow> bool \<Rightarrow> u64" where
  "user_leaf pa w x = pa OR 1 OR 4 OR (if w then 2 else 0) OR (if x then 0 else ENTRY_NO_EXECUTE)"

lemma user_leaf_bits:
  assumes "frame_ok pa"
  shows "user_leaf pa w x AND 1 = 1" "user_leaf pa w x \<noteq> 0" "user_leaf pa w x AND 4 \<noteq> 0"
    "user_leaf pa w x AND ENTRY_ADDRESS_MASK = pa" "user_leaf pa w x AND 2 \<noteq> 0 \<longleftrightarrow> w"
    "user_leaf pa w x AND ENTRY_NO_EXECUTE \<noteq> 0 \<longleftrightarrow> \<not> x"
proof -
  let ?c = "1 OR 4 OR (if w then 2 else 0) :: u64" and ?n = "if x then 0 else ENTRY_NO_EXECUTE"
  have leaf: "user_leaf pa w x = (pa OR ?c) OR ?n" by (simp add: user_leaf_def or.assoc)
  have c: "?c AND 4095 = ?c" by simp
  have n: "?n AND 1 = 0" "?n AND 4 = 0" "?n AND 2 = 0" "?n AND ENTRY_ADDRESS_MASK = 0" by simp_all
  note low = frame_ok_flags(2) [OF assms c]
  have d: "(1 :: u64) AND 4095 = 1" "(2 :: u64) AND 4095 = 2" "(4 :: u64) AND 4095 = 4" by simp_all
  show one: "user_leaf pa w x AND 1 = 1"
    unfolding leaf bit.conj_disj_distrib2 [of "pa OR ?c"] low [OF d(1)] n by simp
  then show "user_leaf pa w x \<noteq> 0" by auto
  show "user_leaf pa w x AND 4 \<noteq> 0"
    unfolding leaf bit.conj_disj_distrib2 [of "pa OR ?c"] low [OF d(3)] n by simp
  show "user_leaf pa w x AND 2 \<noteq> 0 \<longleftrightarrow> w"
    unfolding leaf bit.conj_disj_distrib2 [of "pa OR ?c"] low [OF d(2)] n by simp
  show "user_leaf pa w x AND ENTRY_ADDRESS_MASK = pa"
    unfolding leaf bit.conj_disj_distrib2 [of "pa OR ?c"] frame_ok_flags(1) [OF assms c] n by simp
  have "pa AND ENTRY_NO_EXECUTE = 0"
    using assms not_mask_no_execute unfolding frame_ok_def by (blast intro: and_absorbed)
  then have "(pa OR ?c) AND ENTRY_NO_EXECUTE = 0" unfolding bit.conj_disj_distrib2 by simp
  then show "user_leaf pa w x AND ENTRY_NO_EXECUTE \<noteq> 0 \<longleftrightarrow> \<not> x"
    unfolding leaf bit.conj_disj_distrib2 [of "pa OR ?c"] by simp
qed

lemma user_view_links:
  assumes "\<forall>e \<in> set es. user_link e" "frame_ok pa" "frame_is_usable pa m" "x \<or> pg_nx_enabled m"
  shows "user_view m va True True (es @ [user_leaf pa w x]) =
    Some \<lparr>mi_physical_address = pa + (va AND 4095), mi_writable = w, mi_executable = x\<rparr>"
  using assms(1)
proof (induction es)
  case Nil
  note b = user_leaf_bits [OF assms(2), of w x]
  show ?case using b(3-6) assms(3,4) by (auto simp: Let_def)
next
  case (Cons e es)
  then obtain h where "e AND 4 \<noteq> 0" "links_to e h" "frame_ok h" by (auto simp: user_link_def)
  then show ?case using Cons links_to_bits(3,6) [of e h] by (simp add: Let_def)
qed

section \<open>Mapping a page for user mode\<close>

definition user_map_allowed :: "u64 \<Rightarrow> u64 \<Rightarrow> u64 \<Rightarrow> bool \<Rightarrow> paging \<Rightarrow> bool" where
  "user_map_allowed p va pa x m \<longleftrightarrow> live_space m p \<and> canonical_lower va \<and> va AND 4095 = 0 \<and>
     pa \<in> managed_frames m \<and> (x \<or> pg_nx_enabled m) \<and>
     path_open (page_entry m) user_link (as_root (pg_spaces m p)) (va_path va) \<and>
     frames_left p m (tables_needed (page_entry m) (as_root (pg_spaces m p)) (va_path va))"

lemma user_map_correct:
  assumes ok: "paging_ok m" and live: "live_space m p"
    and run: "ring3_user_map_page_permissions p va pa w x m = (done, m')"
  shows "(done \<longleftrightarrow> user_map_allowed p va pa x m) \<and> (\<exists>pos. space_inv p {} pos m') \<and> kept p m m' \<and>
    (\<not> done \<longrightarrow> unchanged p m m') \<and>
    (done \<longrightarrow> path_entries (page_entry m) (as_root (pg_spaces m p)) (va_path va) = None \<and>
      (\<exists>es. path_entries (page_entry m') (as_root (pg_spaces m p)) (va_path va) = Some (es @ [user_leaf pa w x]) \<and>
        (\<forall>e \<in> set es. user_link e)) \<and>
      (\<forall>path. path_ok [] path \<longrightarrow> length path = 4 \<longrightarrow> path \<noteq> va_path va \<longrightarrow>
        path_entries (page_entry m') (as_root (pg_spaces m p)) path =
        path_entries (page_entry m) (as_root (pg_spaces m p)) path))"
proof -
  let ?root = "as_root (pg_spaces m p)"
  obtain pos where inv: "space_inv p {} pos m" using ok live by (auto simp: paging_ok_def)
  note facts = space_inv_facts [OF inv]
  have inv': "space_inv p {?root} pos m" using inv by (auto simp: space_inv_def tables_used_def)
  let ?args = "canonical_lower va \<and> ring3_page_aligned va \<and> ring3_page_aligned pa \<and> frame_is_usable pa m \<and>
    (x \<or> pg_nx_enabled m)"
  have pa: "frame_is_usable pa m \<longleftrightarrow> pa \<in> managed_frames m" by (rule frame_is_usable_iff [OF facts(3)])
  have aligned: "pa \<in> managed_frames m \<Longrightarrow> ring3_page_aligned pa \<and> frame_ok pa"
    using facts(2) by (simp add: direct_map_def frame_ok_def ring3_page_aligned_def)
  have own: "owned_contains p ?root m" using owned_contains_live [OF facts(1)] facts(6) by (simp add: ring3_copies)
  have ptr: "table_pointer ?root m = Some ?root" using facts(2,5,6) by (auto simp: direct_map_def)
  have start: "ring3_user_map_page_permissions p va pa w x m =
      (if \<not> ?args then (False, m)
       else map_user_levels p va (user_leaf pa w x) [(39, False), (30, True), (21, True)] [] ?root m)"
    using facts(1) own ptr
    by (simp add: ring3_user_map_page_permissions_def live_space_def Let_def user_leaf_def del: map_user_levels.simps)
  show ?thesis
  proof (cases ?args)
    case False
    then have "\<not> done" "m' = m" using run start by auto
    moreover have "\<not> user_map_allowed p va pa x m"
      using False aligned pa by (auto simp: user_map_allowed_def ring3_page_aligned_def)
    ultimately show ?thesis using inv kept_refl unchanged_refl facts(3) by blast
  next
    case True
    have bits: "frame_ok pa" using aligned pa True by blast
    note leaf = user_leaf_bits [OF bits, of w x]
    have go: "map_user_levels p va (user_leaf pa w x) [(39, False), (30, True), (21, True)] [] ?root m = (done, m')"
      using run start True by simp
    have path: "path_ok (pos ?root) (map (\<lambda>l. table_index va (fst l)) [(39, False), (30, True), (21, True)] @ [table_index va 12])"
      using va_path_ok [of va] True facts(7) by (simp add: va_path_def)
    note walk = user_pages.levels_correct [OF grown_none [OF unchanged_refl [OF facts(3)]] inv' kept_refl [OF facts(3)]
        facts(6) _ path refl _ _ refl leaf(2,1) go, of "[]"]
    have walk: "(\<not> done \<longrightarrow> unchanged p m m') \<and>
      (done \<longrightarrow> kept p m m' \<and> (\<exists>pos'. space_inv p {} pos' m') \<and> path_entries (page_entry m) ?root (va_path va) = None \<and>
        (\<exists>es. path_entries (page_entry m') ?root (va_path va) = Some (es @ [user_leaf pa w x]) \<and> (\<forall>e \<in> set es. user_link e)) \<and>
        (\<forall>path'. path_ok [] path' \<longrightarrow> length path' = 4 \<longrightarrow> path' \<noteq> va_path va \<longrightarrow>
          path_entries (page_entry m') ?root path' = path_entries (page_entry m) ?root path'))"
      using walk facts(7) by (simp add: va_path_def)
    have "done \<longleftrightarrow> user_map_allowed p va pa x m"
      using user_pages.levels_status [OF inv' facts(6) _ path, of "user_leaf pa w x" "[]", unfolded go] True facts(1,7) pa
      by (simp add: user_map_allowed_def va_path_def ring3_page_aligned_def)
    then show ?thesis using walk unchanged_inv [OF inv] unchanged_kept [OF inv] by blast
  qed
qed

lemma unat_page_offset: "unat (u AND (4095 :: u64)) = unat u mod 4096"
proof -
  have "u AND 4095 = take_bit 12 u" by (simp add: take_bit_eq_mask mask_eq_exp_minus_1)
  then have "unat (u AND 4095) = take_bit 12 (unat u)" by (simp only: unsigned_take_bit_eq)
  then show ?thesis by (simp add: take_bit_eq_mod)
qed

text \<open>Two page-aligned addresses of the same page are equal.\<close>

lemma same_page_aligned:
  assumes "unat va' div 4096 = unat va div 4096" "address_space_page_aligned va'" "address_space_page_aligned va"
  shows "va' = va"
proof -
  have "unat va' mod 4096 = 0" "unat va mod 4096 = 0"
    using assms(2,3) unat_page_offset [of va] unat_page_offset [of va'] by (simp_all add: address_space_page_aligned_def)
  then have "unat va' = unat va"
    using assms(1) div_mult_mod_eq [of "unat va'" 4096] div_mult_mod_eq [of "unat va" 4096] by simp
  then show ?thesis by (simp add: word_unat_eq_iff)
qed

lemma paging_ok_frames:
  assumes "paging_ok m" "f \<in> managed_frames m"
  shows "frame_ok f" "frame_is_usable f m"
  using assms frame_is_usable_iff [of m f] by (auto simp: paging_ok_def direct_map_def)

lemma mapping_views:
  assumes ok: "paging_ok m" and live: "live_space m p"
    and run: "ring3_user_map_page_permissions p va pa w x m = (done, m')"
  shows "paging_ok m'"
    "ring3_user_query_mapping q va' m' =
      (if done \<and> q = p \<and> canonical_lower va' \<and> unat va' div 4096 = unat va div 4096
       then Some \<lparr>mi_physical_address = pa + (va' AND 4095), mi_writable = w, mi_executable = x\<rparr>
       else ring3_user_query_mapping q va' m)"
    "live_space m q \<Longrightarrow> address_space_translate q va' m' =
      (if done \<and> q = p \<and> va' = va then Some pa else address_space_translate q va' m)"
proof -
  note map = user_map_correct [OF ok live run]
  let ?root = "as_root (pg_spaces m p)"
  obtain pos where inv: "space_inv p {} pos m" using ok live by (auto simp: paging_ok_def)
  obtain pos' where inv': "space_inv p {} pos' m'" using map by blast
  have kept: "kept p m m'" using map by blast
  note root = kept_root [OF kept]
  note step = paging_step [OF ok live kept inv']
  show "paging_ok m'" by (rule step(1))
  have fields: "managed_frames m' = managed_frames m" "pg_nx_enabled m' = pg_nx_enabled m"
    using kept by (simp_all add: kept_def same_machine_def)
  have other: "same_at p va'' m m'"
    if "\<not> (done \<and> canonical_lower va'' \<and> unat va'' div 4096 = unat va div 4096)" for va''
  proof (rule same_at_paths [OF inv inv' fields root])
    assume c: "canonical_lower va''"
    show "path_entries (page_entry m') ?root (va_path va'') = path_entries (page_entry m) ?root (va_path va'')"
    proof (cases "done")
      case True
      then have "canonical_lower va" using map by (simp add: user_map_allowed_def)
      then have "va_path va'' \<noteq> va_path va" using va_path_eq [OF c] that True c by blast
      then show ?thesis using map True va_path_ok [OF c] by simp
    next
      case False
      then show ?thesis using map unchanged_paths [OF inv _ va_path_ok [OF c]] by simp
    qed
  qed
  have new: "path_entries (page_entry m') ?root (va_path va'') = path_entries (page_entry m') ?root (va_path va)"
    if "done" "canonical_lower va''" "unat va'' div 4096 = unat va div 4096" for va''
    using that map va_path_eq [of va'' va] by (simp add: user_map_allowed_def)
  have pa: "frame_ok pa" "frame_is_usable pa m'" "x \<or> pg_nx_enabled m'" "canonical_lower va" "va AND 4095 = 0" if "done"
    using that map paging_ok_frames [OF ok, of pa] paging_ok_frames [OF step(1), of pa] fields
    by (simp_all add: user_map_allowed_def)
  show "ring3_user_query_mapping q va' m' =
      (if done \<and> q = p \<and> canonical_lower va' \<and> unat va' div 4096 = unat va div 4096
       then Some \<lparr>mi_physical_address = pa + (va' AND 4095), mi_writable = w, mi_executable = x\<rparr>
       else ring3_user_query_mapping q va' m)"
  proof (cases "q = p")
    case False
    have "ring3_user_query_mapping q va' m' = ring3_user_query_mapping q va' m"
      using step(2) [OF False] not_live_shows_nothing [of m q] not_live_shows_nothing [of m' q] kept_live [OF kept, of q]
      by (cases "live_space m q") (auto simp: same_at_def)
    then show ?thesis using False by simp
  next
    case q: True
    show ?thesis
    proof (cases "done \<and> canonical_lower va' \<and> unat va' div 4096 = unat va div 4096")
      case True
      then obtain es where "path_entries (page_entry m') ?root (va_path va') = Some (es @ [user_leaf pa w x])"
        "\<forall>e \<in> set es. user_link e" using map new by auto
      then show ?thesis
        using query_correct [OF inv', of va'] root True q user_view_links [OF _ pa(1-3), of es va' w] by simp
    next
      case False
      then show ?thesis using other q by (auto simp: same_at_def)
    qed
  qed
  show "address_space_translate q va' m' =
      (if done \<and> q = p \<and> va' = va then Some pa else address_space_translate q va' m)" if "live_space m q"
  proof (cases "q = p")
    case False
    then show ?thesis using step(2) [OF False that] by (simp add: same_at_def)
  next
    case q: True
    show ?thesis
    proof (cases "done \<and> canonical_lower va' \<and> unat va' div 4096 = unat va div 4096")
      case True
      then obtain es where es: "path_entries (page_entry m') ?root (va_path va') = Some (es @ [user_leaf pa w x])"
        using map new by auto
      have "address_space_page_aligned va" using pa(5) True by (simp add: address_space_page_aligned_def)
      then have "va' = va \<longleftrightarrow> address_space_page_aligned va'"
        using same_page_aligned [of va' va] True by auto
      moreover have "address_space_translate p va' m = None"
        if "\<not> address_space_page_aligned va'"
        using translate_correct [OF inv, of va'] that by simp
      ultimately show ?thesis
        using translate_correct [OF inv', of va'] root True es q user_leaf_bits(4) [OF pa(1)] by auto
    next
      case False
      have "va' = va \<Longrightarrow> \<not> done" using False pa(4) by auto
      then show ?thesis using other [OF False] q by (auto simp: same_at_def)
    qed
  qed
qed

section \<open>Unmapping a page\<close>

lemma index_copies: "address_space_index va s = table_index va s" "address_space_pml4_index va = table_index va 39"
  by (simp_all add: address_space_index_def address_space_pml4_index_def table_index_def)

lemma release_invalidated: "pg_invalidated (snd (release_empty_tables p ts m)) = pg_invalidated m"
proof (induction p ts m rule: release_empty_tables.induct)
  case (2 p table cell tables m)
  have set: "pg_invalidated (set_page_entry f i v m) = pg_invalidated m" for f i v m
    by (simp add: set_page_entry_def)
  have "pg_invalidated (snd (address_space_release_owned_table p table m)) = pg_invalidated m" for m
    by (simp add: address_space_release_owned_table_def free_frame_def address_space_owned_remove_def
        set_space_def Let_def split: prod.split bool.split)
  from this [of "set_page_entry (fst cell) (snd cell) 0 m"] 2 show ?case
    by (auto simp: set split: prod.split bool.split)
qed simp

lemma unmap_correct:
  assumes ok: "paging_ok m" and live: "live_space m p"
    and run: "address_space_unmap_page p va m = (done, m')"
  shows "(done \<longleftrightarrow> address_space_translate p va m \<noteq> None) \<and> (\<exists>pos. space_inv p {} pos m') \<and> kept p m m' \<and>
    (\<not> done \<longrightarrow> m' = m) \<and>
    (done \<longrightarrow> path_entries (page_entry m') (as_root (pg_spaces m p)) (va_path va) = None \<and>
      (\<forall>path. path_ok [] path \<longrightarrow> length path = 4 \<longrightarrow> path \<noteq> va_path va \<longrightarrow>
        path_entries (page_entry m') (as_root (pg_spaces m p)) path =
        path_entries (page_entry m) (as_root (pg_spaces m p)) path) \<and>
      (address_space_is_active p m \<longrightarrow> pg_invalidated m' = pg_invalidated m @ [va]))"
proof -
  let ?root = "as_root (pg_spaces m p)" and ?i = "table_index va 12"
  obtain pos where inv: "space_inv p {} pos m" using ok live by (auto simp: paging_ok_def)
  note facts = space_inv_facts [OF inv]
  have p: "p \<noteq> 0" "\<not> as_bootstrap (pg_spaces m p)" using live by (simp_all add: live_space_def)
  have trans: "address_space_translate p va m \<noteq> None \<longleftrightarrow> (\<exists>path. address_space_walk p va m = LOOKUP_MAPPED path)"
  proof (cases "canonical_lower va \<and> address_space_page_aligned va")
    case True
    show ?thesis
    proof (cases "address_space_walk p va m")
      case (LOOKUP_MAPPED path)
      have "walk_result pos p va m (LOOKUP_MAPPED path)" using walk_correct [OF inv, of va] True LOOKUP_MAPPED by simp
      then have r: "wp_pt path \<in> owned_tables m p" "pos (wp_pt path) @ [?i] = va_path va" "page_entry m (wp_pt path) ?i AND 1 \<noteq> 0"
        by (simp_all add: walk_result_def va_path_def)
      from path_entries_at [OF facts(4) r(1)] obtain es where
        "path_entries (page_entry m) ?root (pos (wp_pt path) @ [?i]) =
          map_option ((@) es) (path_entries (page_entry m) (wp_pt path) [?i])" by blast
      then have "path_entries (page_entry m) ?root (va_path va) \<noteq> None" using r(2,3) by simp
      then show ?thesis using True LOOKUP_MAPPED by (simp add: translate_correct [OF inv])
    qed (use walk_correct [OF inv, of va] True in \<open>simp_all add: walk_result_def translate_correct [OF inv]\<close>)
  next
    case False
    have "address_space_translate p va m = None" using False by (simp only: translate_correct [OF inv] if_False)
    moreover have "\<nexists>path. address_space_walk p va m = LOOKUP_MAPPED path"
    proof
      assume "\<exists>path. address_space_walk p va m = LOOKUP_MAPPED path"
      then obtain path where w: "address_space_walk p va m = LOOKUP_MAPPED path" ..
      then show False
        using \<open>address_space_translate p va m = None\<close> physical_supported_mask
        by (simp add: address_space_translate_def Let_def)
    qed
    ultimately show ?thesis by blast
  qed
  show ?thesis
  proof (cases "\<exists>path. address_space_walk p va m = LOOKUP_MAPPED path")
    case False
    then have "address_space_unmap_page p va m = (False, m)"
      using p by (cases "address_space_walk p va m") (auto simp: address_space_unmap_page_def)
    then show ?thesis using run trans False inv kept_refl [OF facts(3)] by auto
  next
    case True
    then obtain path where path: "address_space_walk p va m = LOOKUP_MAPPED path" ..
    have va: "canonical_lower va" "address_space_page_aligned va"
      using trans True by (simp_all add: translate_correct [OF inv] split: if_splits)
    have "walk_result pos p va m (LOOKUP_MAPPED path)" using walk_correct [OF inv va] path by simp
    then have r: "wp_root path = ?root" "wp_pdpt path \<in> owned_tables m p" "wp_pd path \<in> owned_tables m p"
      "wp_pt path \<in> owned_tables m p" "pos (wp_pdpt path) = [table_index va 39]"
      "pos (wp_pd path) = [table_index va 39, table_index va 30]"
      "pos (wp_pt path) = [table_index va 39, table_index va 30, table_index va 21]"
      by (simp_all add: walk_result_def)
    let ?pt = "wp_pt path"
    let ?m1 = "address_space_invalidate_if_active p va (set_page_entry ?pt ?i 0 m)"
    obtain ivs where ivs: "?m1 = (set_page_entry ?pt ?i 0 m)\<lparr>pg_invalidated := ivs\<rparr>" using invalidate_only by blast
    have cell: "length (pos ?pt) = 3" "cell_ok (pos ?pt) ?i"
      using va_path_ok [OF va(1)] r(7) by (simp_all add: va_path_def)
    have vp: "pos ?pt @ [?i] = va_path va" by (simp add: r(7) va_path_def)
    note leaf = leaf_write [OF inv r(4) cell disjI1 [OF refl], where ivs = ivs, folded ivs]
    have inv1: "space_inv p {?pt} pos ?m1" using leaf(1) by simp
    have own1: "owned_tables ?m1 p = owned_tables m p" using leaf(4) by (simp add: owned_tables_def)
    let ?ts = "[(?pt, (wp_pd path, address_space_index va 21)), (wp_pd path, (wp_pdpt path, address_space_index va 30)),
        (wp_pdpt path, (wp_root path, address_space_pml4_index va))]"
    have "table_chain ?m1 p pos ?pt ?ts"
      using r facts(6,7) leaf(4) own1 by (simp add: index_copies)
    from release_correct [OF inv1 this] obtain m2 pos2 where
      m2: "release_empty_tables p ?ts ?m1 = (True, m2)" "space_inv p {} pos2 m2" "kept p ?m1 m2"
        "\<And>path. length path = 4 \<Longrightarrow> path_ok [] path \<Longrightarrow> path_entries (page_entry m2) (as_root (pg_spaces ?m1 p)) path =
          path_entries (page_entry ?m1) (as_root (pg_spaces ?m1 p)) path" by blast
    have "done" "m' = m2"
      using run p path m2(1) by (simp_all add: address_space_unmap_page_def Let_def index_copies del: release_empty_tables.simps)
    moreover have "kept p m m2" using kept_trans [OF leaf(3) m2(3)] .
    moreover have "path_entries (page_entry m2) ?root (va_path va) = None"
      using m2(4) [OF length_va_path va_path_ok [OF va(1)]] leaf(7) vp leaf(4) by simp
    moreover have "path_entries (page_entry m2) ?root path' = path_entries (page_entry m) ?root path'"
      if "path_ok [] path'" "length path' = 4" "path' \<noteq> va_path va" for path'
      using m2(4) [OF that(2,1)] leaf(6) [OF that(1,2)] that(3) vp leaf(4) by simp
    moreover have "pg_invalidated m2 = pg_invalidated m @ [va]" if "address_space_is_active p m"
    proof -
      have "address_space_is_active p (set_page_entry ?pt ?i 0 m)"
        using that by (simp add: address_space_is_active_def set_page_entry_def split: if_splits)
      then have "pg_invalidated ?m1 = pg_invalidated m @ [va]"
        by (simp add: address_space_invalidate_if_active_def set_page_entry_def)
      then show ?thesis using release_invalidated [of p ?ts ?m1] m2(1) by simp
    qed
    ultimately show ?thesis using m2(2) trans True by blast
  qed
qed

lemma unmapping_views:
  assumes ok: "paging_ok m" and live: "live_space m p"
    and run: "address_space_unmap_page p va m = (done, m')"
  shows "paging_ok m'"
    "ring3_user_query_mapping q va' m' =
      (if done \<and> q = p \<and> unat va' div 4096 = unat va div 4096 then None else ring3_user_query_mapping q va' m)"
    "live_space m q \<Longrightarrow> address_space_translate q va' m' =
      (if done \<and> q = p \<and> va' = va then None else address_space_translate q va' m)"
proof -
  note unmap = unmap_correct [OF ok live run]
  let ?root = "as_root (pg_spaces m p)"
  obtain pos where inv: "space_inv p {} pos m" using ok live by (auto simp: paging_ok_def)
  obtain pos' where inv': "space_inv p {} pos' m'" using unmap by blast
  have kept: "kept p m m'" using unmap by blast
  note root = kept_root [OF kept]
  note step = paging_step [OF ok live kept inv']
  show "paging_ok m'" by (rule step(1))
  have fields: "managed_frames m' = managed_frames m" "pg_nx_enabled m' = pg_nx_enabled m"
    using kept by (simp_all add: kept_def same_machine_def)
  have va: "canonical_lower va" "address_space_page_aligned va" if "done"
    using that unmap by (auto simp: translate_correct [OF inv] split: if_splits)
  have gone: "ring3_user_query_mapping p va'' m' = None" "address_space_translate p va'' m' = None"
    if "done" "unat va'' div 4096 = unat va div 4096" for va''
  proof -
    have "canonical_lower va'' \<Longrightarrow> path_entries (page_entry m') ?root (va_path va'') = None"
      using unmap that va_path_eq [OF _ va(1) [OF that(1)], of va''] by auto
    then show "ring3_user_query_mapping p va'' m' = None" "address_space_translate p va'' m' = None"
      by (auto simp: query_correct [OF inv'] translate_correct [OF inv'] root)
  qed
  have other: "same_at p va'' m m'" if "\<not> (done \<and> unat va'' div 4096 = unat va div 4096)" for va''
  proof (rule same_at_paths [OF inv inv' fields root])
    assume c: "canonical_lower va''"
    show "path_entries (page_entry m') ?root (va_path va'') = path_entries (page_entry m) ?root (va_path va'')"
    proof (cases "done")
      case True
      then have "va_path va'' \<noteq> va_path va" using va_path_eq [OF c va(1)] that True by blast
      then show ?thesis using unmap True va_path_ok [OF c] by simp
    qed (use unmap in simp)
  qed
  have page: "va' = va \<or> address_space_translate p va' m = None"
    if "done" "unat va' div 4096 = unat va div 4096"
  proof (cases "address_space_page_aligned va'")
    case True
    then show ?thesis using same_page_aligned [OF that(2)] va(2) [OF that(1)] by blast
  qed (simp add: translate_correct [OF inv])
  show "ring3_user_query_mapping q va' m' =
      (if done \<and> q = p \<and> unat va' div 4096 = unat va div 4096 then None else ring3_user_query_mapping q va' m)"
  proof (cases "q = p")
    case False
    have "ring3_user_query_mapping q va' m' = ring3_user_query_mapping q va' m"
      using step(2) [OF False] not_live_shows_nothing [of m q] not_live_shows_nothing [of m' q] kept_live [OF kept, of q]
      by (cases "live_space m q") (auto simp: same_at_def)
    then show ?thesis using False by simp
  next
    case True
    then show ?thesis using gone(1) [of va'] other [of va'] by (auto simp: same_at_def)
  qed
  show "address_space_translate q va' m' =
      (if done \<and> q = p \<and> va' = va then None else address_space_translate q va' m)" if "live_space m q"
  proof (cases "q = p")
    case False
    then show ?thesis using step(2) [OF False that] by (simp add: same_at_def)
  next
    case True
    show ?thesis
    proof (cases "done \<and> unat va' div 4096 = unat va div 4096")
      case gone': True
      then show ?thesis using gone(2) [of va'] page True by auto
    next
      case False
      then show ?thesis using other [of va'] True by (auto simp: same_at_def)
    qed
  qed
qed

end
