(* ===== verification/PagingLife.thy ===== *)
theory PagingLife
  imports PagingProps
begin

text \<open>
  The life of an address space: its creation, mappings of the kernel in its
  lower half, and its destruction, which is possible exactly when nothing is
  mapped in it any more.
\<close>

section \<open>Mappings of the kernel in the lower half\<close>

definition kernel_map_allowed :: "u64 \<Rightarrow> u64 \<Rightarrow> u64 \<Rightarrow> u64 \<Rightarrow> paging \<Rightarrow> bool" where
  "kernel_map_allowed p va pa flags m \<longleftrightarrow> live_space m p \<and> canonical_lower va \<and> va AND 4095 = 0 \<and>
     pa \<in> managed_frames m \<and> (flags = 0 \<or> flags = 2) \<and>
     path_open (page_entry m) (\<lambda>_. True) (as_root (pg_spaces m p)) (va_path va) \<and>
     frames_left p m (tables_needed (page_entry m) (as_root (pg_spaces m p)) (va_path va))"

lemma flags_allowed: "flags AND NOT ENTRY_WRITABLE = 0 \<longleftrightarrow> flags = 0 \<or> flags = (2 :: u64)"
proof
  assume f: "flags AND NOT ENTRY_WRITABLE = 0"
  have "flags = flags AND (ENTRY_WRITABLE OR NOT ENTRY_WRITABLE)" by simp
  also have "\<dots> = (flags AND 2) OR (flags AND NOT 2)" by (simp only: bit.conj_disj_distrib)
  finally have e: "flags = flags AND 2" using f by simp
  have "flags AND 2 = 0 \<or> flags AND 2 = 2"
  proof (cases "bit flags 1")
    case True
    have "flags AND 2 = 2" using True by (intro bit_word_eqI) (auto simp: bit_and_iff bit_2_iff)
    then show ?thesis ..
  next
    case False
    have "flags AND 2 = 0" using False by (intro bit_word_eqI) (auto simp: bit_and_iff bit_2_iff)
    then show ?thesis ..
  qed
  then show "flags = 0 \<or> flags = 2" using e by auto
next
  show "flags = 0 \<or> flags = 2 \<Longrightarrow> flags AND NOT ENTRY_WRITABLE = 0" by auto
qed

lemma kernel_leaf_bits:
  assumes "frame_ok pa" "flags = 0 \<or> flags = 2"
  shows "pa OR 1 OR flags \<noteq> 0" "(pa OR 1 OR flags) AND 1 = 1" "(pa OR 1 OR flags) AND 4 = 0"
    "(pa OR 1 OR flags) AND ENTRY_ADDRESS_MASK = pa"
proof -
  let ?c = "1 OR flags"
  have c: "?c AND 4095 = ?c" using assms(2) by auto
  note low = frame_ok_flags(2) [OF assms(1) c]
  have d: "(1 :: u64) AND 4095 = 1" "(4 :: u64) AND 4095 = 4" by simp_all
  have "?c AND 1 = 1" "?c AND 4 = 0" using assms(2) by auto
  then show "(pa OR 1 OR flags) AND 1 = 1" "(pa OR 1 OR flags) AND 4 = 0"
    unfolding low [OF d(1)] low [OF d(2)] .
  then show "pa OR 1 OR flags \<noteq> 0" by auto
  show "(pa OR 1 OR flags) AND ENTRY_ADDRESS_MASK = pa"
    by (rule frame_ok_flags(1) [OF assms(1) c])
qed

lemma user_view_supervisor: "e \<in> set es \<Longrightarrow> e AND 4 = 0 \<Longrightarrow> user_view m va w x es = None"
proof (induction es arbitrary: w x)
  case (Cons d es)
  show ?case
  proof (cases "e = d")
    case True
    then show ?thesis using Cons.prems(2) by simp
  next
    case False
    then have "es \<noteq> []" "\<And>w x. user_view m va w x es = None" using Cons by auto
    then show ?thesis by (simp add: Let_def)
  qed
qed simp

lemma kernel_map_correct:
  assumes ok: "paging_ok m" and live: "live_space m p"
    and run: "address_space_map_page p va pa flags m = (done, m')"
  shows "(done \<longleftrightarrow> kernel_map_allowed p va pa flags m) \<and> (\<exists>pos. space_inv p {} pos m') \<and> kept p m m' \<and>
    (\<not> done \<longrightarrow> unchanged p m m') \<and>
    (done \<longrightarrow> path_entries (page_entry m) (as_root (pg_spaces m p)) (va_path va) = None \<and>
      (\<exists>es. path_entries (page_entry m') (as_root (pg_spaces m p)) (va_path va) = Some (es @ [pa OR 1 OR flags])) \<and>
      (\<forall>path. path_ok [] path \<longrightarrow> length path = 4 \<longrightarrow> path \<noteq> va_path va \<longrightarrow>
        path_entries (page_entry m') (as_root (pg_spaces m p)) path =
        path_entries (page_entry m) (as_root (pg_spaces m p)) path))"
proof -
  let ?root = "as_root (pg_spaces m p)" and ?v = "pa OR 1 OR flags"
  obtain pos where inv: "space_inv p {} pos m" using ok live by (auto simp: paging_ok_def)
  note facts = space_inv_facts [OF inv]
  have inv': "space_inv p {?root} pos m" using inv by (auto simp: space_inv_def tables_used_def)
  let ?args = "canonical_lower va \<and> va AND 4095 = 0 \<and> pa \<in> managed_frames m \<and> (flags = 0 \<or> flags = 2)"
  have pa: "address_space_physical_supported pa \<and> frame_is_usable pa m \<longleftrightarrow> pa \<in> managed_frames m"
    using frame_is_usable_iff [OF facts(3)] facts(2)
    by (auto simp: direct_map_def frame_ok_def address_space_physical_supported_def address_space_page_aligned_def)
  have start: "address_space_map_page p va pa flags m =
      (if \<not> ?args then (False, m)
       else map_levels p va ?v [(39, False), (30, True), (21, True)] [] ?root m)"
  proof -
    have c: "address_space_canonical va \<and> address_space_pml4_index va < 256 \<longleftrightarrow> canonical_lower va"
      by (rule canonical_lower_split)
    have l: "\<not> (\<not> pg_initialized m \<or> p = 0 \<or> \<not> as_initialized (pg_spaces m p) \<or> as_bootstrap (pg_spaces m p))"
      using facts(1,2) by (simp add: live_space_def direct_map_def)
    have n: "flags AND NOT ENTRY_WRITABLE \<noteq> 0 \<longleftrightarrow> \<not> (flags = 0 \<or> flags = 2)" using flags_allowed by blast
    show ?thesis
      using l c pa unfolding address_space_map_page_def Let_def n root_pointer [OF inv] option.case
        address_space_page_aligned_def not_less [symmetric] by (auto simp: or.assoc simp del: map_levels.simps)
  qed
  show ?thesis
  proof (cases ?args)
    case False
    then have "\<not> done" "m' = m" using run start by auto
    moreover have "\<not> kernel_map_allowed p va pa flags m" using False by (auto simp: kernel_map_allowed_def)
    ultimately show ?thesis using inv kept_refl unchanged_refl facts(3) by blast
  next
    case True
    have bits: "frame_ok pa" using paging_ok_frames(1) [OF ok] True by blast
    have fl: "flags = 0 \<or> flags = 2" using True by blast
    note leaf = kernel_leaf_bits [OF bits fl]
    have go: "map_levels p va ?v [(39, False), (30, True), (21, True)] [] ?root m = (done, m')"
      using run start True by simp
    have path: "path_ok (pos ?root) (map (\<lambda>l. table_index va (fst l)) [(39, False), (30, True), (21, True)] @ [table_index va 12])"
      using va_path_ok [of va] True facts(7) by (simp add: va_path_def)
    note walk = kernel_pages.levels_correct [OF grown_none [OF unchanged_refl [OF facts(3)]] inv' kept_refl [OF facts(3)]
        facts(6) _ path refl _ _ refl leaf(1,2) go, of "[]"]
    have walk: "(\<not> done \<longrightarrow> unchanged p m m') \<and>
      (done \<longrightarrow> kept p m m' \<and> (\<exists>pos'. space_inv p {} pos' m') \<and> path_entries (page_entry m) ?root (va_path va) = None \<and>
        (\<exists>es. path_entries (page_entry m') ?root (va_path va) = Some (es @ [?v])) \<and>
        (\<forall>path'. path_ok [] path' \<longrightarrow> length path' = 4 \<longrightarrow> path' \<noteq> va_path va \<longrightarrow>
          path_entries (page_entry m') ?root path' = path_entries (page_entry m) ?root path'))"
      using walk facts(7) by (simp add: va_path_def)
    have "done \<longleftrightarrow> kernel_map_allowed p va pa flags m"
      using kernel_pages.levels_status [OF inv' facts(6) _ path, of ?v "[]", unfolded go] True facts(1,7)
      by (simp add: kernel_map_allowed_def va_path_def)
    then show ?thesis using walk unchanged_inv [OF inv] unchanged_kept [OF inv] by blast
  qed
qed

lemma kernel_mapping_views:
  assumes ok: "paging_ok m" and live: "live_space m p"
    and run: "address_space_map_page p va pa flags m = (done, m')"
  shows "paging_ok m'" "ring3_user_query_mapping q va' m' = ring3_user_query_mapping q va' m"
    "live_space m q \<Longrightarrow> address_space_translate q va' m' =
      (if done \<and> q = p \<and> va' = va then Some pa else address_space_translate q va' m)"
proof -
  note map = kernel_map_correct [OF ok live run]
  let ?root = "as_root (pg_spaces m p)" and ?v = "pa OR 1 OR flags"
  obtain pos where inv: "space_inv p {} pos m" using ok live by (auto simp: paging_ok_def)
  obtain pos' where inv': "space_inv p {} pos' m'" using map by blast
  have kept: "kept p m m'" using map by blast
  note root = kept_root [OF kept]
  note step = paging_step [OF ok live kept inv']
  show "paging_ok m'" by (rule step(1))
  have fields: "managed_frames m' = managed_frames m" "pg_nx_enabled m' = pg_nx_enabled m"
    using kept by (simp_all add: kept_def same_machine_def)
  have other: "same_at p va'' m m'"
    if "\<not> (done \<and> canonical_lower va'' \<and> unat va'' div 4096 = unat va div 4096)" for va''
  proof (rule same_at_paths [OF inv inv' fields root])
    assume c: "canonical_lower va''"
    show "path_entries (page_entry m') ?root (va_path va'') = path_entries (page_entry m) ?root (va_path va'')"
    proof (cases "done")
      case True
      then have "canonical_lower va" using map by (simp add: kernel_map_allowed_def)
      then have "va_path va'' \<noteq> va_path va" using va_path_eq [OF c] that True c by blast
      then show ?thesis using map True va_path_ok [OF c] by simp
    next
      case False
      then show ?thesis using map unchanged_paths [OF inv _ va_path_ok [OF c]] by simp
    qed
  qed
  have pa: "frame_ok pa" "canonical_lower va" "address_space_page_aligned va" "flags = 0 \<or> flags = 2" if "done"
    using that map paging_ok_frames(1) [OF ok, of pa]
    by (auto simp: kernel_map_allowed_def address_space_page_aligned_def)
  have at: "path_entries (page_entry m) ?root (va_path va'') = None \<and>
      (\<exists>es. path_entries (page_entry m') ?root (va_path va'') = Some (es @ [?v]))"
    if "done" "canonical_lower va''" "unat va'' div 4096 = unat va div 4096" for va''
  proof -
    have "va_path va'' = va_path va" using va_path_eq [OF that(2) pa(2) [OF that(1)]] that(3) by blast
    then show ?thesis using map that(1) by simp
  qed
  show "ring3_user_query_mapping q va' m' = ring3_user_query_mapping q va' m"
  proof (cases "q = p")
    case False
    then show ?thesis
      using step(2) [OF False] not_live_shows_nothing [of m q] not_live_shows_nothing [of m' q] kept_live [OF kept, of q]
      by (cases "live_space m q") (auto simp: same_at_def)
  next
    case q: True
    show ?thesis
    proof (cases "done \<and> canonical_lower va' \<and> unat va' div 4096 = unat va div 4096")
      case True
      then obtain es where "path_entries (page_entry m) ?root (va_path va') = None"
        "path_entries (page_entry m') ?root (va_path va') = Some (es @ [?v])" using at by blast
      moreover have "user_view m' va' True True (es @ [?v]) = None" for es
        using kernel_leaf_bits(3) [OF pa(1,4)] True by (intro user_view_supervisor [of ?v]) auto
      ultimately show ?thesis using q by (simp add: query_correct [OF inv] query_correct [OF inv'] root)
    next
      case False
      then show ?thesis using other q by (auto simp: same_at_def)
    qed
  qed
  show "address_space_translate q va' m' =
      (if done \<and> q = p \<and> va' = va then Some pa else address_space_translate q va' m)" if "live_space m q"
  proof (cases "q = p")
    case False
    then show ?thesis using step(2) [OF False that] by (simp add: same_at_def)
  next
    case q: True
    show ?thesis
    proof (cases "done \<and> canonical_lower va' \<and> unat va' div 4096 = unat va div 4096")
      case True
      then obtain es where es: "path_entries (page_entry m) ?root (va_path va') = None"
        "path_entries (page_entry m') ?root (va_path va') = Some (es @ [?v])" using at by blast
      have "va' = va \<longleftrightarrow> address_space_page_aligned va'"
        using same_page_aligned [of va' va] pa(3) True by auto
      then show ?thesis
        using translate_correct [OF inv', of va'] translate_correct [OF inv, of va'] root True es q
          kernel_leaf_bits(4) [OF pa(1,4)] by auto
    next
      case False
      have "va' = va \<Longrightarrow> \<not> done" using False pa(2) by auto
      then show ?thesis using other [OF False] q by (auto simp: same_at_def)
    qed
  qed
qed

section \<open>Creation\<close>

lemma copied_entries:
  assumes "b \<noteq> g"
  shows "page_entry (copy_kernel_entries g b m) f j =
    (if f = g \<and> 256 \<le> j \<and> j < 512 then page_entry m b j else page_entry m f j)"
    "\<exists>mem. copy_kernel_entries g b m = m\<lparr>pg_memory := mem\<rparr> \<and> (\<forall>f. f \<noteq> g \<longrightarrow> mem f = pg_memory m f)"
proof -
  let ?copy = "\<lambda>is m. fold (\<lambda>index m. set_page_entry g index (page_entry m b index) m) is m"
  have "page_entry (?copy is m) f j = (if f = g \<and> j \<in> set is then page_entry m b j else page_entry m f j)" for "is"
    using assms by (induction "is" arbitrary: m) auto
  from this [of "[256..<512]"] show "page_entry (copy_kernel_entries g b m) f j =
    (if f = g \<and> 256 \<le> j \<and> j < 512 then page_entry m b j else page_entry m f j)"
    unfolding copy_kernel_entries_def set_upt atLeastLessThan_iff by blast
  have "\<exists>mem. ?copy is m = m\<lparr>pg_memory := mem\<rparr> \<and> (\<forall>f. f \<noteq> g \<longrightarrow> mem f = pg_memory m f)" for "is"
  proof (induction "is" arbitrary: m)
    case Nil
    show ?case by (intro exI [of _ "pg_memory m"]) simp
  next
    case (Cons i "is")
    let ?m1 = "set_page_entry g i (page_entry m b i) m"
    obtain mem where mem: "?copy is ?m1 = ?m1\<lparr>pg_memory := mem\<rparr>" "\<forall>f. f \<noteq> g \<longrightarrow> mem f = pg_memory ?m1 f"
      using Cons.IH by blast
    then have "?copy (i # is) m = m\<lparr>pg_memory := mem\<rparr>" by (simp add: set_page_entry_def)
    then show ?case using mem(2) by auto
  qed
  then show "\<exists>mem. copy_kernel_entries g b m = m\<lparr>pg_memory := mem\<rparr> \<and> (\<forall>f. f \<noteq> g \<longrightarrow> mem f = pg_memory m f)"
    unfolding copy_kernel_entries_def by blast
qed

lemma nothing_on_path:
  assumes "\<And>i. i < 256 \<Longrightarrow> E root i = 0" "length path = 4" "path_ok [] path"
  shows "path_entries E root path = None"
  using assms by (cases path) (auto simp: cell_ok_def)

text \<open>A space whose root is its only table, with an empty lower half.\<close>

lemma fresh_space:
  assumes "live_space m p" "direct_map m" "as_owned (pg_spaces m p) = [g]" "as_root (pg_spaces m p) = g"
    "g \<in> managed_frames m - free_frames m" "\<And>i. i < 256 \<Longrightarrow> page_entry m g i = 0"
  shows "space_inv p {} (\<lambda>_. []) m"
proof -
  have "frame_ok g" using assms(2,5) by (simp add: direct_map_def)
  then have "tables_ok (page_entry m) g {g} (\<lambda>_. [])"
    using assms(6) by (auto simp: tables_ok_def cell_ok_def)
  then show ?thesis
    using assms by (simp add: space_inv_def owned_tables_def tables_used_def)
qed

lemma create_correct:
  assumes ok: "paging_ok m" and run: "address_space_create p m = (done, m')"
  shows "done \<longleftrightarrow> p \<noteq> 0 \<and> \<not> as_initialized (pg_spaces m p) \<and> free_frames m \<noteq> {}"
    "paging_ok m'" "q \<noteq> p \<Longrightarrow> live_space m q \<Longrightarrow> live_space m' q \<and> same_at q va m m'"
    "\<not> done \<Longrightarrow> free_frames m' = free_frames m"
    "done \<Longrightarrow> live_space m' p \<and> ring3_user_query_mapping p va m' = None \<and> address_space_translate p va m' = None \<and>
      (\<exists>g \<in> free_frames m. owned_tables m' p = {g} \<and> free_frames m' = free_frames m - {g})"
    "managed_frames m' = managed_frames m" "same_access m m'" "f \<notin> free_frames m \<Longrightarrow> pg_memory m' f = pg_memory m f"
proof -
  have m: "direct_map m" "kernel_half m" "pmm_wf (pg_pmm m)" "pg_initialized m"
    using ok by (auto simp: paging_ok_def direct_map_def)
  let ?b = "pg_bootstrap_root m"
  have boot: "pg_bootstrap_space m \<noteq> 0" "address_space_table_pointer ?b m = Some ?b" "?b \<notin> free_frames m"
    using m(2) by (simp_all add: kernel_half_def)
  have all: "(managed_frames m' = managed_frames m \<and> same_access m m' \<and>
      (\<forall>f. f \<notin> free_frames m \<longrightarrow> pg_memory m' f = pg_memory m f)) \<and> (done \<longleftrightarrow> p \<noteq> 0 \<and> \<not> as_initialized (pg_spaces m p) \<and> free_frames m \<noteq> {}) \<and> paging_ok m' \<and>
    (\<forall>q va. q \<noteq> p \<longrightarrow> live_space m q \<longrightarrow> live_space m' q \<and> same_at q va m m') \<and>
    (\<not> done \<longrightarrow> free_frames m' = free_frames m) \<and>
    (done \<longrightarrow> live_space m' p \<and> (\<exists>pos. space_inv p {} pos m') \<and>
      (\<forall>i < 256. page_entry m' (as_root (pg_spaces m' p)) i = 0) \<and>
      (\<exists>g \<in> free_frames m. owned_tables m' p = {g} \<and> free_frames m' = free_frames m - {g}))"
  proof (cases "p = 0 \<or> as_initialized (pg_spaces m p)")
    case True
    then have "address_space_create p m = (False, m)" by (auto simp: address_space_create_def)
    then show ?thesis using run True ok by (auto simp: same_at_def same_access_def)
  next
    case False
    let ?s = "\<lparr>as_root = 0, as_owned = [], as_bootstrap = False, as_initialized = True\<rparr>"
    let ?m1 = "set_space p ?s m"
    have start: "address_space_create p m =
      (case address_space_allocate_table p ?m1 of
        (None, m) \<Rightarrow> (False, address_space_clear p m)
      | (Some root, m) \<Rightarrow>
          let m = set_space p ((pg_spaces m p)\<lparr>as_root := root\<rparr>) m; m = copy_kernel_entries root ?b m
          in if \<not> address_space_kernel_mappings_valid p m
             then (False, address_space_clear p (snd (free_frame root m)))
             else (True, m\<lparr>pg_created := pg_created m + 1\<rparr>))"
      using False m(4) boot(1,2)
      by (simp add: address_space_create_def address_space_clear_def set_space_def Let_def)
    obtain r m2 where r: "alloc_frame ?m1 = (r, m2)" by (metis surj_pair)
    have wf1: "pmm_wf (pg_pmm ?m1)" using m(3) by (simp add: set_space_def)
    show ?thesis
    proof (cases r)
      case None
      from alloc_frame_none [OF wf1 r [unfolded None]] have m2: "m2 = ?m1" "free_frames m = {}" by simp_all
      have "address_space_allocate_table p ?m1 = (None, ?m1)"
        using r None m2(1) False by (simp add: address_space_allocate_table_def set_space_def)
      then have m': "\<not> done" "m' = address_space_clear p ?m1" using run start by simp_all
      have "others_untouched p {} m m'"
      proof (rule others_untouchedI)
        show "same_access m m'" by (simp add: m' address_space_clear_def set_space_def same_access_def)
      qed (use ok m(3) in \<open>simp_all add: m' address_space_clear_def set_space_def free_frames_def managed_frames_def\<close>)
      note out = untouched [OF this] paging_ok_after [OF this]
      have "\<not> live_space m' p" using False by (simp add: m' live_space_def address_space_clear_def set_space_def)
      moreover have "free_frames m' = free_frames m"
        by (simp add: m' address_space_clear_def)
      moreover have "managed_frames m' = managed_frames m" "pg_memory m' = pg_memory m" "same_access m m'"
        by (simp_all add: m' address_space_clear_def set_space_def same_access_def managed_frames_def)
      ultimately show ?thesis using m'(1) m2(2) out(1,4,6) by simp
    next
      case (Some g)
      note got = alloc_frame_some [OF wf1 r [unfolded Some]]
      from got(1) obtain a where m2: "m2 = ?m1\<lparr>pg_pmm := a\<rparr>" "pmm_wf a" by blast
      from got(2-4) have g: "g \<in> free_frames m" "free_frames m2 = free_frames m - {g}"
        "managed_frames m2 = managed_frames m" by simp_all
      have gm: "g \<in> managed_frames m" using free_managed [OF m(3)] g(1) by blast
      have gb: "?b \<noteq> g" using boot(3) g(1) by blast
      have ptr: "address_space_table_pointer f m2 = address_space_table_pointer f m" for f
        by (simp add: m2 set_space_def address_space_table_pointer_def)
      have "address_space_table_pointer g m2 = Some g" using m(1) gm ptr by (simp add: direct_map_def)
      moreover have "address_space_physical_supported g"
        using m(1) gm by (auto simp: direct_map_def address_space_table_pointer_def split: if_splits)
      moreover have "frame_is_usable g m2" using frame_is_usable_iff [of m2 g] m2 gm g(3) by simp
      moreover have sp2: "pg_spaces m2 p = ?s" by (simp add: m2 set_space_def)
      ultimately have alloc: "address_space_allocate_table p ?m1 =
          (Some g, set_space p (?s\<lparr>as_owned := [g]\<rparr>) (zero_entries g m2))"
        using r Some False unfolding address_space_allocate_table_def address_space_owned_add_def
          address_space_owned_contains_def by (simp add: set_space_def Let_def sp2)
      let ?m3 = "set_space p (?s\<lparr>as_owned := [g], as_root := g\<rparr>) (zero_entries g m2)"
      let ?m4 = "copy_kernel_entries g ?b ?m3"
      from copied_entries(2) [OF gb, of ?m3] obtain mem where
        m4: "?m4 = ?m3\<lparr>pg_memory := mem\<rparr>" "\<And>f. f \<noteq> g \<Longrightarrow> mem f = pg_memory ?m3 f" by blast
      obtain zm where zm: "zero_entries g m2 = m2\<lparr>pg_memory := zm\<rparr>" using zero_entries_only by blast
      have ent: "page_entry ?m4 f j = (if f = g \<and> j < 512 then if 256 \<le> j then page_entry m ?b j else 0
          else page_entry m f j)" for f j
      proof -
        have "page_entry m2 = page_entry m" by (simp add: m2)
        then show ?thesis using copied_entries(1) [OF gb, of ?m3 f j] gb by auto
      qed
      have sp4: "pg_spaces ?m4 p = ?s\<lparr>as_owned := [g], as_root := g\<rparr>" "pg_pmm ?m4 = a"
        unfolding m4(1) by (simp_all add: set_space_def m2)
      have free4: "free_frames ?m4 = free_frames m - {g}" "managed_frames ?m4 = managed_frames m"
        using g(2,3) unfolding free_frames_def managed_frames_def sp4(2) by (simp_all add: m2)
      define m5 where "m5 = ?m4\<lparr>pg_created := pg_created ?m4 + 1\<rparr>"
      have sp5: "as_owned (pg_spaces m5 p) = [g]" "as_root (pg_spaces m5 p) = g" "live_space m5 p"
        using sp4(1) False by (simp_all add: m5_def live_space_def)
      have free5: "free_frames m5 = free_frames m - {g}" "managed_frames m5 = managed_frames m" "pg_pmm m5 = a"
        using free4 sp4(2) unfolding free_frames_def managed_frames_def m5_def by simp_all
      have "page_entry m5 = page_entry ?m4" by (rule page_entry_memory) (simp add: m5_def)
      then have ent5: "page_entry m5 f j = (if f = g \<and> j < 512 then if 256 \<le> j then page_entry m ?b j else 0
          else page_entry m f j)" for f j using ent [of f j] by simp
      have un: "others_untouched p {} m m5"
      proof (rule others_untouchedI)
        show "same_access m m5"
          unfolding m5_def m4(1) unfolding zm by (simp add: m2 set_space_def same_access_def)
        show "pmm_wf (pg_pmm m5)" using m2(2) free5(3) by simp
        show "managed_frames m5 = managed_frames m" "free_frames m5 \<subseteq> free_frames m \<union> {}" using free5 by auto
        show "pg_spaces m5 q = pg_spaces m q" if "q \<noteq> p" for q
          using that unfolding m5_def m4(1) unfolding zm by (simp add: m2 set_space_def)
        show "pg_memory m5 f = pg_memory m f" if "f \<notin> free_frames m \<union> {}" for f
        proof -
          have fg: "f \<noteq> g" using that g(1) by auto
          have "pg_memory ?m3 f = pg_memory m f" using pg_memory_zero [OF fg, of m2] by (simp add: set_space_def m2)
          then show ?thesis using m4(2) [OF fg] unfolding m5_def m4(1) by simp
        qed
      qed (use ok in simp_all)
      have fresh: "space_inv p {} (\<lambda>_. []) m5"
        using untouched_direct_map [OF un] sp5 gm free5
        by (intro fresh_space [of _ _ g]) (simp_all add: ent5)
      have valid: "address_space_kernel_mappings_valid p m5"
        using kernel_valid_iff [OF untouched_direct_map [OF un] untouched_boot(3) [OF un] sp5(3) root_pointer [OF fresh]]
          untouched_boot(1) [OF un] sp5(2) gb by (simp add: ent5)
      have "address_space_kernel_mappings_valid p m5 = address_space_kernel_mappings_valid p ?m4"
        using \<open>page_entry m5 = page_entry ?m4\<close>
        by (simp add: address_space_kernel_mappings_valid_def m5_def address_space_table_pointer_def)
      then have "address_space_create p m = (True, m5)"
        using valid start alloc by (simp add: Let_def m5_def set_space_def)
      then have m': "done" "m' = m5" using run by simp_all
      have own: "owned_tables m5 p = {g}" using sp5(1) by (simp add: owned_tables_def)
      have d: "paging_ok m5"
        by (rule paging_ok_after [OF un]) (use fresh valid own g(1) in auto)
      have e: "\<forall>i < 256. page_entry m5 (as_root (pg_spaces m5 p)) i = 0" using sp5(2) by (simp add: ent5)
      have f: "\<forall>q va. q \<noteq> p \<longrightarrow> live_space m q \<longrightarrow> live_space m5 q \<and> same_at q va m m5"
        by (intro allI impI conjI untouched(1,4) [OF un])
      have h: "\<exists>g \<in> free_frames m. owned_tables m5 p = {g} \<and> free_frames m5 = free_frames m - {g}"
        by (rule bexI [OF _ g(1)]) (simp only: own free5(1))
      have i: "\<exists>pos. space_inv p {} pos m5" using fresh by blast
      have acc: "same_access m m5" by (rule untouched_facts(2) [OF un])
      have mem: "\<forall>f. f \<notin> free_frames m \<longrightarrow> pg_memory m5 f = pg_memory m f"
        using untouched_facts(6) [OF un] by blast
      have k: "done \<longleftrightarrow> p \<noteq> 0 \<and> \<not> as_initialized (pg_spaces m p) \<and> free_frames m \<noteq> {}"
        using m'(1) False g(1) by blast
      show ?thesis
        unfolding m'(2) by (intro conjI impI free5(2) acc mem k d e f h i sp5(3)) (use m'(1) in simp)
    qed
  qed
  show "managed_frames m' = managed_frames m" "same_access m m'" "f \<notin> free_frames m \<Longrightarrow> pg_memory m' f = pg_memory m f"
    using all [THEN conjunct1] by blast+
  note all = all [THEN conjunct2]
  note a1 = all [THEN conjunct1] and r1 = all [THEN conjunct2]
  note a2 = r1 [THEN conjunct1] and r2 = r1 [THEN conjunct2]
  note a3 = r2 [THEN conjunct1, rule_format] and r3 = r2 [THEN conjunct2]
  note a4 = r3 [THEN conjunct1, rule_format] and a5 = r3 [THEN conjunct2, THEN mp]
  show "done \<longleftrightarrow> p \<noteq> 0 \<and> \<not> as_initialized (pg_spaces m p) \<and> free_frames m \<noteq> {}"
    "paging_ok m'" by (rule a1, rule a2)
  show "live_space m' q \<and> same_at q va m m'" if "q \<noteq> p" "live_space m q" using that by (rule a3)
  show "free_frames m' = free_frames m" if "\<not> done" using that by (rule a4)
  show "live_space m' p \<and> ring3_user_query_mapping p va m' = None \<and> address_space_translate p va m' = None \<and>
      (\<exists>g \<in> free_frames m. owned_tables m' p = {g} \<and> free_frames m' = free_frames m - {g})" if "done"
  proof -
    note b = a5 [OF \<open>done\<close>]
    obtain pos where inv: "space_inv p {} pos m'" using b [THEN conjunct2, THEN conjunct1] by (rule exE)
    note z = b [THEN conjunct2, THEN conjunct2, THEN conjunct1, rule_format]
    have "path_entries (page_entry m') (as_root (pg_spaces m' p)) (va_path va) = None" if "canonical_lower va"
      by (rule nothing_on_path) (use z va_path_ok [OF that] in simp_all)
    then have "ring3_user_query_mapping p va m' = None" "address_space_translate p va m' = None"
      using query_correct [OF inv, of va] translate_correct [OF inv, of va] by auto
    then show ?thesis
      using b [THEN conjunct1] b [THEN conjunct2, THEN conjunct2, THEN conjunct2] by (intro conjI)
  qed
qed

section \<open>Destruction\<close>

text \<open>Every path of a tree is the path of an address.\<close>

lemma path_address:
  assumes "path_ok [] path" "length path = 4"
  shows "\<exists>va. canonical_lower va \<and> address_space_page_aligned va \<and> va_path va = path"
proof -
  obtain a b c d where path: "path = [a, b, c, d]"
    using assms(2) by (auto simp: length_Suc_conv numeral_eq_Suc)
  have lt: "a < 256" "b < 512" "c < 512" "d < 512" using assms(1) by (simp_all add: path cell_ok_def)
  define pd where "pd = d + 512 * (c + 512 * (b + 512 * a))"
  have big: "pd < 2 ^ 35" using lt by (simp add: pd_def)
  define va :: u64 where "va = of_nat (4096 * pd)"
  have va: "unat va = 4096 * pd" using big by (simp add: va_def unat_of_nat take_bit_eq_mod del: of_nat_mult)
  have "canonical_lower va" using big by (simp add: canonical_lower_iff va)
  moreover have "address_space_page_aligned va"
    using unat_page_offset [of va] by (simp add: address_space_page_aligned_def va unat_eq_zero [symmetric])
  moreover have "va_path va = path"
  proof -
    have s1: "(x + 512 * y) div 512 = y" "(x + 512 * y) mod 512 = x" if "x < 512" for x y :: nat using that by simp_all
    have e: "4096 * pd div 4096 = pd" "4096 * pd div 2097152 = pd div 512" "4096 * pd div 1073741824 = pd div 512 div 512"
      "4096 * pd div 549755813888 = pd div 512 div 512 div 512"
      by (simp_all add: div_mult2_eq [symmetric])
    have f: "pd mod 512 = d" "pd div 512 mod 512 = c" "pd div 512 div 512 mod 512 = b" "pd div 512 div 512 div 512 mod 512 = a"
      using lt by (simp_all only: pd_def s1) simp
    show ?thesis by (simp add: va_path_def table_index_unat va e f path)
  qed
  ultimately show ?thesis by blast
qed

lemma nothing_mapped:
  assumes inv: "space_inv p {} pos m" and none: "\<And>va. address_space_translate p va m = None"
  shows "as_owned (pg_spaces m p) = [as_root (pg_spaces m p)]" "i < 256 \<Longrightarrow> page_entry m (as_root (pg_spaces m p)) i = 0"
proof -
  let ?root = "as_root (pg_spaces m p)" and ?T = "owned_tables m p"
  note facts = space_inv_facts [OF inv]
  note ok = facts(4)
  have no_path: "path_entries (page_entry m) ?root path = None" if path: "path_ok [] path" "length path = 4" for path
  proof -
    obtain va where va: "canonical_lower va" "address_space_page_aligned va" "va_path va = path"
      using path_address [OF path] by blast
    have "address_space_translate p va m = None" by (rule none)
    then show ?thesis using va unfolding translate_correct [OF inv] by simp
  qed
  have zero: "page_entry m f i = 0" if "f \<in> ?T" "cell_ok (pos f) i" for f i
    using that
  proof (induction "3 - length (pos f)" arbitrary: f i rule: less_induct)
    case less
    note f = less.prems
    show ?case
    proof (rule ccontr)
      assume e: "page_entry m f i \<noteq> 0"
      have len: "length (pos f) \<le> 3" using tables_ok_frame [OF ok f(1)] by blast
      show False
      proof (cases "length (pos f) = 3")
        case True
        obtain es where "path_entries (page_entry m) ?root (pos f @ [i]) =
            map_option ((@) es) (path_entries (page_entry m) f [i])"
          using path_entries_at [OF ok f(1)] by blast
        moreover have "path_ok [] (pos f @ [i])" using path_ok_pos [OF ok f(1)] f(2) by (simp add: path_ok_append)
        ultimately show False
          using no_path [of "pos f @ [i]"] True tables_ok_leaf [OF ok f(1) True f(2) e] by simp
      next
        case False
        with len have less3: "length (pos f) < 3" by simp
        from tables_ok_entry [OF ok f(1) less3 f(2) e] obtain g where
          g: "g \<in> ?T" "pos g = pos f @ [i]" by blast
        have "g \<noteq> ?root" using g(2) facts(7) by auto
        then obtain j where j: "j < 512" "page_entry m g j \<noteq> 0"
          using inv g(1) unfolding space_inv_def tables_used_def by blast
        have "page_entry m g j = 0"
          by (rule less.hyps [OF _ g(1)]) (use g(2) less3 j(1) in \<open>auto simp: cell_ok_def\<close>)
        then show False using j(2) by simp
      qed
    qed
  qed
  have T: "?T = {?root}"
  proof -
    have "g = ?root" if "g \<in> ?T" for g
    proof (rule ccontr)
      assume "g \<noteq> ?root"
      from tables_ok_parent [OF ok that this] show False using zero by blast
    qed
    then show ?thesis using facts(6) by blast
  qed
  have d: "distinct (as_owned (pg_spaces m p))" using inv by (simp add: space_inv_def)
  have "length (as_owned (pg_spaces m p)) = 1"
    using distinct_card [OF d] T by (simp add: owned_tables_def)
  then obtain r where r: "as_owned (pg_spaces m p) = [r]" by (auto simp: length_Suc_conv)
  then show "as_owned (pg_spaces m p) = [?root]" using T by (simp add: owned_tables_def)
  show "i < 256 \<Longrightarrow> page_entry m ?root i = 0" using zero [OF facts(6)] facts(7) by (simp add: cell_ok_def)
qed

lemma destroy_correct:
  assumes ok: "paging_ok m" and live: "live_space m p" and run: "address_space_destroy p m = (done, m')"
  shows "done \<longleftrightarrow> \<not> address_space_is_active p m \<and> (\<forall>va. address_space_translate p va m = None)"
    "paging_ok m'" "\<not> done \<Longrightarrow> m' = m" "q \<noteq> p \<Longrightarrow> live_space m q \<Longrightarrow> live_space m' q \<and> same_at q va m m'"
    "done \<Longrightarrow> \<not> as_initialized (pg_spaces m' p) \<and> owned_tables m p = {as_root (pg_spaces m p)} \<and>
      as_root (pg_spaces m p) \<notin> free_frames m \<and>
      free_frames m' = insert (as_root (pg_spaces m p)) (free_frames m)"
    "done \<Longrightarrow> (\<forall>q. q \<noteq> p \<longrightarrow> pg_spaces m' q = pg_spaces m q) \<and> pg_cr3 m' = pg_cr3 m \<and>
      pg_bootstrap_root m' = pg_bootstrap_root m \<and> managed_frames m' = managed_frames m"
proof -
  let ?root = "as_root (pg_spaces m p)"
  obtain pos where inv: "space_inv p {} pos m" using ok live by (auto simp: paging_ok_def)
  note facts = space_inv_facts [OF inv]
  let ?none = "\<forall>va. address_space_translate p va m = None"
  have valid: "address_space_kernel_mappings_valid p m" using ok live by (simp add: paging_ok_def)
  obtain fr m1 where fr: "free_frame ?root m = (fr, m1)" by (metis surj_pair)
  note free = free_frame_correct [OF facts(3) fr]
  have rooted: "?root \<in> managed_frames m" "?root \<notin> free_frames m" "frame_ok ?root" using facts(5,6) by blast+
  have fr_ok: "fr" using free(3) rooted by simp
  obtain a where a: "m1 = m\<lparr>pg_pmm := a\<rparr>" "pmm_wf a" using free(1) by blast
  let ?cells = "list_all (\<lambda>index. page_entry m ?root index = 0) [0..<256]"
  have l: "\<not> (\<not> pg_initialized m \<or> p = 0 \<or> \<not> as_initialized (pg_spaces m p) \<or> as_bootstrap (pg_spaces m p))"
    using facts(1,2) by (simp add: live_space_def direct_map_def)
  have own: "address_space_owned_contains p ?root m"
    using l facts(6) by (simp add: address_space_owned_contains_def owned_tables_def)
  have start: "address_space_destroy p m =
      (if address_space_is_active p m \<or> \<not> ?cells \<or> length (as_owned (pg_spaces m p)) \<noteq> 1 then (False, m)
       else (True, (address_space_clear p m1)\<lparr>pg_destroyed := pg_destroyed m + 1\<rparr>))"
    using l valid own fr fr_ok l unfolding address_space_destroy_def Let_def root_pointer [OF inv]
    by (simp add: a address_space_clear_def set_space_def)
  have empty: "?none" if c: ?cells
  proof
    fix va
    have "path_entries (page_entry m) ?root (va_path va) = None" if "canonical_lower va"
      by (rule nothing_on_path) (use c va_path_ok [OF that] in \<open>simp_all add: list_all_iff\<close>)
    then show "address_space_translate p va m = None" by (simp add: translate_correct [OF inv])
  qed
  have only: "as_owned (pg_spaces m p) = [?root]" "?cells" if ?none
    using nothing_mapped [OF inv, rule_format] that by (auto simp: list_all_iff)
  show status: "done \<longleftrightarrow> \<not> address_space_is_active p m \<and> ?none"
  proof (cases "address_space_is_active p m \<or> \<not> ?cells \<or> length (as_owned (pg_spaces m p)) \<noteq> 1")
    case True
    then have "\<not> done" using run start by simp
    moreover have "\<not> (\<not> address_space_is_active p m \<and> ?none)" using only True by auto
    ultimately show ?thesis by blast
  next
    case False
    then have "done" using run start by simp
    then show ?thesis using empty False by blast
  qed
  show same: "m' = m" if "\<not> done" using that run start by (auto split: if_splits)
  have gone: "m' = (address_space_clear p m1)\<lparr>pg_destroyed := pg_destroyed m + 1\<rparr>" "as_owned (pg_spaces m p) = [?root]" if "done"
    using that run start only status by (auto split: if_splits)
  have after: "\<not> as_initialized (pg_spaces m' p)" "free_frames m' = insert ?root (free_frames m)"
    "managed_frames m' = managed_frames m" "pg_pmm m' = a" "same_access m m'" "pg_memory m' = pg_memory m"
    "\<And>q. q \<noteq> p \<Longrightarrow> pg_spaces m' q = pg_spaces m q" if "done"
    using l free(2,4) fr_ok
    by (simp_all add: gone(1) [OF that] a address_space_clear_def set_space_def free_frames_def managed_frames_def
        same_access_def)
  have tables: "owned_tables m p = {?root}" if "done" using gone(2) [OF that] by (simp add: owned_tables_def)
  have un: "others_untouched p {?root} m m'" if d: "done"
  proof (rule others_untouchedI)
    show "owned_tables m q \<inter> {?root} = {}" if "live_space m q" "q \<noteq> p" for q
      using ok live that facts(6) unfolding paging_ok_def by blast
    show "pg_bootstrap_root m \<notin> {?root}" using ok live facts(6) unfolding paging_ok_def by auto
  qed (use ok d after a(2) in simp_all)
  show "paging_ok m'"
  proof (cases "done")
    case True
    have "\<not> live_space m' p" using after(1) [OF True] by (simp add: live_space_def)
    then show ?thesis using paging_ok_after [OF un [OF True]] by blast
  qed (use same ok in simp)
  show "live_space m' q \<and> same_at q va m m'" if "q \<noteq> p" "live_space m q"
  proof (cases "done")
    case True
    show ?thesis using untouched(1,4) [OF un [OF True] that] by blast
  qed (use same that in \<open>simp add: same_at_def\<close>)
  show "\<not> as_initialized (pg_spaces m' p) \<and> owned_tables m p = {?root} \<and> ?root \<notin> free_frames m \<and>
      free_frames m' = insert ?root (free_frames m)" if "done"
    using after(1,2) [OF that] tables [OF that] rooted(2) by blast
  show "(\<forall>q. q \<noteq> p \<longrightarrow> pg_spaces m' q = pg_spaces m q) \<and> pg_cr3 m' = pg_cr3 m \<and>
      pg_bootstrap_root m' = pg_bootstrap_root m \<and> managed_frames m' = managed_frames m" if "done"
  proof -
    have "pg_cr3 m' = pg_cr3 m" "pg_bootstrap_root m' = pg_bootstrap_root m"
      using l by (simp_all add: gone(1) [OF that] a address_space_clear_def set_space_def)
    then show ?thesis using after(3,7) [OF that] by blast
  qed
qed

end
