(* ===== verification/PagingRuns.thy ===== *)
theory PagingRuns
  imports PagingLife
begin

text \<open>
  Sequences of operations on the address spaces: initialisation establishes the
  invariant, every operation keeps it, the table frames are conserved, no
  operation on one space shows in another, and the table the processor runs on
  is never released.
\<close>

section \<open>Initialisation\<close>

definition active_ok :: "paging \<Rightarrow> bool" where
  "active_ok m \<longleftrightarrow>
     (\<forall>p. p \<noteq> 0 \<longrightarrow> as_initialized (pg_spaces m p) \<longrightarrow> as_bootstrap (pg_spaces m p) \<longrightarrow>
        as_root (pg_spaces m p) = pg_bootstrap_root m) \<and>
     (pg_cr3 m AND ENTRY_ADDRESS_MASK = pg_bootstrap_root m \<or>
      (\<exists>p. live_space m p \<and> pg_cr3 m AND ENTRY_ADDRESS_MASK = as_root (pg_spaces m p)))"

lemma system_init_correct:
  assumes run: "address_space_system_init b m = (True, m')"
    and none: "\<And>p. \<not> as_initialized (pg_spaces m p)" and wf: "pmm_wf (pg_pmm m)"
    and frames: "\<And>f. f \<in> managed_frames m \<Longrightarrow> frame_ok f \<and>
      f \<le> UINT64_MAX - vs_hhdm_offset (the (pg_vmm_stats m)) \<and>
      drop_bit 48 (vs_hhdm_offset (the (pg_vmm_stats m)) + f) = 0xffff \<and>
      address_space_canonical (vs_hhdm_offset (the (pg_vmm_stats m)) + f)"
    and root: "pg_cr3 m AND ENTRY_ADDRESS_MASK \<notin> free_frames m"
  shows "paging_ok m'" "active_ok m'" "\<not> live_space m' p" "pg_pmm m' = pg_pmm m"
    "as_initialized (pg_spaces m' p) \<longleftrightarrow> p = b" "pg_memory m' = pg_memory m"
    "pg_nx_enabled m' = pg_nx_enabled m" "pg_cr3 m' = pg_cr3 m"
    "pg_bootstrap_root m' = pg_cr3 m AND ENTRY_ADDRESS_MASK"
proof -
  let ?root = "pg_cr3 m AND ENTRY_ADDRESS_MASK"
  obtain st where st: "pg_vmm_stats m = Some st" using run
    by (auto simp: address_space_system_init_def split: if_splits option.splits)
  let ?boot = "\<lparr>as_root = ?root, as_owned = [], as_bootstrap = True, as_initialized = True\<rparr>"
  define m1 where "m1 = set_space b ?boot (m\<lparr>pg_hhdm_offset := vs_hhdm_offset st, pg_bootstrap_root := ?root\<rparr>)"
  from run have r: "b \<noteq> 0" "address_space_table_pointer ?root m1 = Some ?root"
    "page_entry m1 ?root 256 AND 1 \<noteq> 0" "page_entry m1 ?root 510 AND 1 \<noteq> 0" "page_entry m1 ?root 511 AND 1 \<noteq> 0"
    and m': "m' = m1\<lparr>pg_bootstrap_space := b, pg_current_space := b, pg_created := 0, pg_destroyed := 0,
      pg_switches := 0, pg_initialized := True\<rparr>"
    unfolding address_space_system_init_def st option.case Let_def m1_def
    by (auto split: if_splits option.splits simp: address_space_table_pointer_def)
  have ptr: "address_space_table_pointer f m' = address_space_table_pointer f m1" for f
    by (simp add: m' address_space_table_pointer_def)
  have ent: "page_entry m' = page_entry m1" by (rule page_entry_memory) (simp add: m')
  have fields: "pg_pmm m' = pg_pmm m" "managed_frames m' = managed_frames m" "free_frames m' = free_frames m"
    "pg_bootstrap_root m' = ?root" "pg_bootstrap_space m' = b" "pg_initialized m'" "pg_cr3 m' = pg_cr3 m"
    "pg_spaces m' = (pg_spaces m)(b := ?boot)" "pg_vmm_stats m' = Some st" "pg_hhdm_offset m' = vs_hhdm_offset st"
    by (simp_all add: m' m1_def set_space_def managed_frames_def free_frames_def st)
  show dead: "\<not> live_space m' p" for p using none by (simp add: live_space_def fields)
  have "address_space_table_pointer f m' = Some f \<and> table_pointer f m' = Some f" if "f \<in> managed_frames m" for f
    using frames [OF that] st
    by (simp add: address_space_table_pointer_def table_pointer_def fields frame_ok_def ring3_page_aligned_def
        address_space_physical_supported_def address_space_page_aligned_def not_less)
  then have "direct_map m'" using wf frames by (simp add: direct_map_def fields)
  moreover have "kernel_half m'" using r root by (simp add: kernel_half_def fields ptr ent)
  ultimately show "paging_ok m'" using dead by (simp add: paging_ok_def)
  show "active_ok m'" using none by (auto simp: active_ok_def fields)
  show "pg_pmm m' = pg_pmm m" by (rule fields)
  show "as_initialized (pg_spaces m' p) \<longleftrightarrow> p = b" using none by (simp add: fields)
  show "pg_memory m' = pg_memory m" "pg_nx_enabled m' = pg_nx_enabled m" by (simp_all add: m' m1_def set_space_def)
  show "pg_cr3 m' = pg_cr3 m" "pg_bootstrap_root m' = ?root" by (rule fields)+
qed

section \<open>Operations and runs\<close>

datatype paging_request = CreateSpace u64 | DestroySpace u64 | ActivateSpace u64
  | MapKernelPage u64 u64 u64 u64 | UnmapPage u64 u64 | MapUserPage u64 u64 u64 bool bool

fun call_space :: "paging_request \<Rightarrow> u64" where
  "call_space (CreateSpace p) = p"
| "call_space (DestroySpace p) = p"
| "call_space (ActivateSpace p) = p"
| "call_space (MapKernelPage p va pa flags) = p"
| "call_space (UnmapPage p va) = p"
| "call_space (MapUserPage p va pa w x) = p"

fun paging_call :: "paging_request \<Rightarrow> paging \<Rightarrow> bool \<times> paging" where
  "paging_call (CreateSpace p) m = address_space_create p m"
| "paging_call (DestroySpace p) m = address_space_destroy p m"
| "paging_call (ActivateSpace p) m = address_space_activate p m"
| "paging_call (MapKernelPage p va pa flags) m = address_space_map_page p va pa flags m"
| "paging_call (UnmapPage p va) m = address_space_unmap_page p va m"
| "paging_call (MapUserPage p va pa w x) m = ring3_user_map_page_permissions p va pa w x m"

definition paging_run :: "paging_request list \<Rightarrow> paging \<Rightarrow> paging" where
  "paging_run cs m = fold (\<lambda>c m. snd (paging_call c m)) cs m"

definition table_frames :: "paging \<Rightarrow> u64 set" where
  "table_frames m = (\<Union>p \<in> {p. live_space m p}. owned_tables m p)"

text \<open>What every call owes.\<close>

definition call_ok :: "u64 \<Rightarrow> paging \<Rightarrow> paging \<Rightarrow> bool" where
  "call_ok p m m' \<longleftrightarrow> paging_ok m' \<and> (active_ok m \<longrightarrow> active_ok m') \<and>
     managed_frames m' = managed_frames m \<and>
     free_frames m' \<union> table_frames m' = free_frames m \<union> table_frames m \<and>
     (\<forall>q va. q \<noteq> p \<longrightarrow> live_space m q \<longrightarrow> live_space m' q \<and> same_at q va m m')"

lemma call_ok_refl: "paging_ok m \<Longrightarrow> call_ok p m m"
  by (simp add: call_ok_def same_at_def)

lemma table_frames_split:
  "table_frames m = (if live_space m p then owned_tables m p else {}) \<union>
    (\<Union>q \<in> {q. live_space m q \<and> q \<noteq> p}. owned_tables m q)"
  by (auto simp: table_frames_def)

lemma other_tables:
  assumes "\<And>q. q \<noteq> p \<Longrightarrow> pg_spaces m' q = pg_spaces m q"
  shows "(\<Union>q \<in> {q. live_space m' q \<and> q \<noteq> p}. owned_tables m' q) =
    (\<Union>q \<in> {q. live_space m q \<and> q \<noteq> p}. owned_tables m q)"
  using assms by (force simp: live_space_def owned_tables_def)

lemma kept_call:
  assumes ok: "paging_ok m" and live: "live_space m p" and k: "kept p m m'" and inv: "space_inv p {} pos' m'"
  shows "call_ok p m m'"
proof -
  note step = paging_step [OF ok live k inv]
  have sp: "pg_spaces m' q = pg_spaces m q" if "q \<noteq> p" for q using k that by (simp add: kept_def)
  have fr: "free_frames m' \<union> owned_tables m' p = free_frames m \<union> owned_tables m p"
    "managed_frames m' = managed_frames m" using k by (simp_all add: kept_def)
  have tables: "free_frames m' \<union> table_frames m' = free_frames m \<union> table_frames m"
    using fr(1) other_tables [of p m' m, OF sp] live kept_live [OF k, of p]
    unfolding table_frames_split [of _ p] by (simp add: Un_assoc [symmetric])
  have fields: "pg_cr3 m' = pg_cr3 m" "pg_bootstrap_root m' = pg_bootstrap_root m"
    using k by (simp_all add: kept_def same_machine_def)
  have root: "as_root (pg_spaces m' q) = as_root (pg_spaces m q)" for q
    using sp [of q] kept_root [OF k] by (cases "q = p") simp_all
  have "active_ok m'" if a: "active_ok m"
  proof -
    have "as_root (pg_spaces m' q) = pg_bootstrap_root m'"
      if "q \<noteq> 0" "as_initialized (pg_spaces m' q)" "as_bootstrap (pg_spaces m' q)" for q
    proof -
      have "\<not> live_space m q" using that kept_live [OF k, of q] by (simp add: live_space_def)
      then have "q \<noteq> p" using live by blast
      then show ?thesis using a that sp by (simp add: active_ok_def fields)
    qed
    then show ?thesis using a kept_live [OF k] by (simp add: active_ok_def fields root)
  qed
  then show ?thesis
    using step tables fr(2) kept_live [OF k] unfolding call_ok_def by blast
qed

lemma dead_calls:
  assumes "\<not> live_space m p"
  shows "ring3_user_map_page_permissions p va pa w x m = (False, m)"
    "address_space_map_page p va pa flags m = (False, m)"
    "address_space_unmap_page p va m = (False, m)" "address_space_destroy p m = (False, m)"
proof -
  show "ring3_user_map_page_permissions p va pa w x m = (False, m)"
    "address_space_map_page p va pa flags m = (False, m)" "address_space_destroy p m = (False, m)"
    using assms by (auto simp: live_space_def ring3_user_map_page_permissions_def address_space_map_page_def
        address_space_destroy_def)
  have "address_space_walk p va m = LOOKUP_ERROR" if "\<not> as_initialized (pg_spaces m p)"
    using that by (simp add: address_space_walk_def Let_def)
  then show "address_space_unmap_page p va m = (False, m)"
    using assms by (auto simp: live_space_def address_space_unmap_page_def)
qed

section \<open>Creation, destruction and activation in a run\<close>

lemma create_spaces:
  assumes "address_space_create p m = (done, m')"
  shows "q \<noteq> p \<Longrightarrow> pg_spaces m' q = pg_spaces m q" "as_initialized (pg_spaces m p) \<Longrightarrow> m' = m"
    "\<not> done \<Longrightarrow> \<not> as_initialized (pg_spaces m p) \<Longrightarrow> \<not> as_initialized (pg_spaces m' p)"
    "pg_cr3 m' = pg_cr3 m" "pg_bootstrap_root m' = pg_bootstrap_root m"
proof -
  have mem: "\<exists>mem. zero_entries g n = n\<lparr>pg_memory := mem\<rparr>" for g n using zero_entries_only by blast
  have z: "pg_spaces (zero_entries g n) = pg_spaces n" "pg_cr3 (zero_entries g n) = pg_cr3 n"
    "pg_bootstrap_root (zero_entries g n) = pg_bootstrap_root n" for g n using mem [of g n] by auto
  have s: "pg_spaces (set_page_entry g i v n) = pg_spaces n" "pg_cr3 (set_page_entry g i v n) = pg_cr3 n"
    "pg_bootstrap_root (set_page_entry g i v n) = pg_bootstrap_root n" for g i v n
    by (simp_all add: set_page_entry_def)
  have "pg_spaces (fold (\<lambda>i m. set_page_entry g i (page_entry m b i) m) is n) = pg_spaces n \<and>
      pg_cr3 (fold (\<lambda>i m. set_page_entry g i (page_entry m b i) m) is n) = pg_cr3 n \<and>
      pg_bootstrap_root (fold (\<lambda>i m. set_page_entry g i (page_entry m b i) m) is n) = pg_bootstrap_root n"
    for g b n "is" by (induction "is" arbitrary: n) (simp_all add: s)
  then have c: "pg_spaces (copy_kernel_entries g b n) = pg_spaces n" "pg_cr3 (copy_kernel_entries g b n) = pg_cr3 n"
    "pg_bootstrap_root (copy_kernel_entries g b n) = pg_bootstrap_root n" for g b n
    unfolding copy_kernel_entries_def by (simp_all only:)
  have f: "pg_spaces (snd (free_frame g n)) = pg_spaces n" "pg_cr3 (snd (free_frame g n)) = pg_cr3 n"
    "pg_bootstrap_root (snd (free_frame g n)) = pg_bootstrap_root n" for g n
    by (simp_all add: free_frame_def split: prod.split)
  have o: "q \<noteq> p \<Longrightarrow> pg_spaces (snd (address_space_owned_add p g n)) q = pg_spaces n q"
    "pg_cr3 (snd (address_space_owned_add p g n)) = pg_cr3 n"
    "pg_bootstrap_root (snd (address_space_owned_add p g n)) = pg_bootstrap_root n" for n q g
    by (simp_all add: address_space_owned_add_def set_space_def Let_def)
  have l: "pg_spaces (snd (alloc_frame n)) = pg_spaces n" "pg_cr3 (snd (alloc_frame n)) = pg_cr3 n"
    "pg_bootstrap_root (snd (alloc_frame n)) = pg_bootstrap_root n" for n
    by (simp_all add: alloc_frame_def split: prod.split)
  have a: "(q \<noteq> p \<longrightarrow> pg_spaces (snd (address_space_allocate_table p n)) q = pg_spaces n q) \<and>
    pg_cr3 (snd (address_space_allocate_table p n)) = pg_cr3 n \<and>
    pg_bootstrap_root (snd (address_space_allocate_table p n)) = pg_bootstrap_root n" for n q
  proof (cases "fst (alloc_frame n)")
    case None
    then show ?thesis
      by (simp add: address_space_allocate_table_def Let_def case_prod_unfold l)
  next
    case (Some g)
    obtain b k where b: "address_space_owned_add p g (zero_entries g (snd (alloc_frame n))) = (b, k)" by (metis surj_pair)
    have k: "q \<noteq> p \<Longrightarrow> pg_spaces k q = pg_spaces n q" "pg_cr3 k = pg_cr3 n" "pg_bootstrap_root k = pg_bootstrap_root n"
      using o(1) [of q g "zero_entries g (snd (alloc_frame n))"] o(2,3) [of g "zero_entries g (snd (alloc_frame n))"]
      by (simp_all add: b z l)
    show ?thesis
      by (cases b) (simp_all add: address_space_allocate_table_def Let_def case_prod_unfold Some b f l k)
  qed
  obtain r n where r: "address_space_allocate_table p (set_space p ((pg_spaces (address_space_clear p m) p)
      \<lparr>as_initialized := True\<rparr>) (address_space_clear p m)) = (r, n)" by (metis surj_pair)
  have n: "q \<noteq> p \<Longrightarrow> pg_spaces n q = pg_spaces m q" "pg_cr3 n = pg_cr3 m" "pg_bootstrap_root n = pg_bootstrap_root m" for q
    using a [of q "set_space p ((pg_spaces (address_space_clear p m) p)\<lparr>as_initialized := True\<rparr>) (address_space_clear p m)"]
    unfolding r by (auto simp: set_space_def address_space_clear_def)
  note facts = assms [unfolded address_space_create_def Let_def r prod.case]
  show "q \<noteq> p \<Longrightarrow> pg_spaces m' q = pg_spaces m q"
    using facts n(1) by (auto simp: set_space_def address_space_clear_def c f split: if_splits option.splits)
  show "as_initialized (pg_spaces m p) \<Longrightarrow> m' = m"
    using facts by (auto split: if_splits)
  show "\<not> done \<Longrightarrow> \<not> as_initialized (pg_spaces m p) \<Longrightarrow> \<not> as_initialized (pg_spaces m' p)"
    using facts by (auto simp: set_space_def address_space_clear_def split: if_splits option.splits)
  show "pg_cr3 m' = pg_cr3 m" "pg_bootstrap_root m' = pg_bootstrap_root m"
    using facts n(2,3) by (auto simp: set_space_def address_space_clear_def c f split: if_splits option.splits)
qed

lemma create_call:
  assumes ok: "paging_ok m" and run: "address_space_create p m = (done, m')"
  shows "call_ok p m m'"
proof -
  note cr = create_correct [OF ok run]
  note sp = create_spaces [OF run]
  have cases: "as_initialized (pg_spaces m p) \<Longrightarrow> m' = m" by (rule sp(2))
  show ?thesis
  proof (cases "as_initialized (pg_spaces m p)")
    case True
    then show ?thesis using sp(2) call_ok_refl [OF ok] by simp
  next
    case fresh: False
    then have dead: "\<not> live_space m p" by (simp add: live_space_def)
    have live: "live_space m' q" if "live_space m q" for q
    proof -
      have "q \<noteq> p" using that dead by blast
      then show ?thesis using that sp(1) by (simp add: live_space_def)
    qed
    have own: "(if live_space m' p then owned_tables m' p else {}) \<union> free_frames m' = free_frames m"
    proof (cases "done")
      case True
      obtain g where "g \<in> free_frames m" "owned_tables m' p = {g}" "free_frames m' = free_frames m - {g}"
        using cr(5) [OF True] by blast
      then show ?thesis using cr(5) [OF True] by auto
    next
      case False
      have "\<not> live_space m' p" using sp(3) [OF False fresh] by (simp add: live_space_def)
      then show ?thesis using cr(4) [OF False] by simp
    qed
    have tables: "free_frames m' \<union> table_frames m' = free_frames m \<union> table_frames m"
      using own dead other_tables [of p m' m, OF sp(1)] unfolding table_frames_split [of _ p] by auto
    have boot: "\<not> as_bootstrap (pg_spaces m' p)" if "p \<noteq> 0" "as_initialized (pg_spaces m' p)"
    proof -
      have "done" using sp(3) fresh that(2) by blast
      then show ?thesis using cr(5) by (auto simp: live_space_def)
    qed
    have "active_ok m'" if a: "active_ok m"
    proof -
      have "as_root (pg_spaces m' q) = pg_bootstrap_root m'"
        if "q \<noteq> 0" "as_initialized (pg_spaces m' q)" "as_bootstrap (pg_spaces m' q)" for q
        using that boot a sp(1) [of q] sp(5) unfolding active_ok_def by (cases "q = p") auto
      moreover have "pg_cr3 m' AND ENTRY_ADDRESS_MASK = pg_bootstrap_root m' \<or>
          (\<exists>q. live_space m' q \<and> pg_cr3 m' AND ENTRY_ADDRESS_MASK = as_root (pg_spaces m' q))"
      proof (cases "pg_cr3 m AND ENTRY_ADDRESS_MASK = pg_bootstrap_root m")
        case True
        then show ?thesis using sp(4,5) by simp
      next
        case False
        then obtain q where q: "live_space m q" "pg_cr3 m AND ENTRY_ADDRESS_MASK = as_root (pg_spaces m q)"
          using a unfolding active_ok_def by blast
        then have "q \<noteq> p" using dead by blast
        then show ?thesis using q live sp(1) sp(4) by metis
      qed
      ultimately show ?thesis unfolding active_ok_def by blast
    qed
    moreover have "managed_frames m' = managed_frames m" by (rule cr(6))
    ultimately show ?thesis using cr(2,3) tables unfolding call_ok_def by blast
  qed
qed

lemma destroy_call:
  assumes ok: "paging_ok m" and run: "address_space_destroy p m = (done, m')"
  shows "call_ok p m m'"
proof (cases "live_space m p \<and> done")
  case False
  have "m' = m"
    using False dead_calls(4) [of m p] run destroy_correct(3) [OF ok _ run] by (cases "live_space m p") auto
  then show ?thesis using call_ok_refl [OF ok] by simp
next
  case True
  then have live: "live_space m p" and d: "done" by simp_all
  note de = destroy_correct [OF ok live run]
  note gone = de(5) [OF d]
  have dead: "\<not> live_space m' p" using gone by (simp add: live_space_def)
  have sp: "\<And>q. q \<noteq> p \<Longrightarrow> pg_spaces m' q = pg_spaces m q" and fields: "pg_cr3 m' = pg_cr3 m"
    "pg_bootstrap_root m' = pg_bootstrap_root m" "managed_frames m' = managed_frames m"
    using de(6) [OF d] by blast+
  have tables: "free_frames m' \<union> table_frames m' = free_frames m \<union> table_frames m"
    using gone dead live other_tables [of p m' m, OF sp] unfolding table_frames_split [of _ p] by auto
  have inactive: "pg_cr3 m AND ENTRY_ADDRESS_MASK \<noteq> as_root (pg_spaces m p)"
    using de(1) d live ok by (auto simp: address_space_is_active_def live_space_def paging_ok_def direct_map_def)
  have "active_ok m'" if a: "active_ok m"
  proof -
    have "as_root (pg_spaces m' q) = pg_bootstrap_root m'"
      if "q \<noteq> 0" "as_initialized (pg_spaces m' q)" "as_bootstrap (pg_spaces m' q)" for q
      using that gone a sp [of q] fields unfolding active_ok_def by (cases "q = p") auto
    moreover have "pg_cr3 m' AND ENTRY_ADDRESS_MASK = pg_bootstrap_root m' \<or>
        (\<exists>q. live_space m' q \<and> pg_cr3 m' AND ENTRY_ADDRESS_MASK = as_root (pg_spaces m' q))"
    proof (cases "pg_cr3 m AND ENTRY_ADDRESS_MASK = pg_bootstrap_root m")
      case False
      then obtain q where q: "live_space m q" "pg_cr3 m AND ENTRY_ADDRESS_MASK = as_root (pg_spaces m q)"
        using a unfolding active_ok_def by blast
      then have "q \<noteq> p" using inactive by blast
      then show ?thesis using q de(4) sp fields(1) by metis
    qed (use fields in simp)
    ultimately show ?thesis unfolding active_ok_def by blast
  qed
  then show ?thesis using de(2,4) tables fields(3) unfolding call_ok_def by blast
qed

text \<open>Activation succeeds for every space that is in order, and loads its root.\<close>

lemma activate_correct:
  assumes ok: "paging_ok m" and run: "address_space_activate p m = (done, m')"
  shows "\<exists>c cur sw. m' = m\<lparr>pg_cr3 := c, pg_current_space := cur, pg_switches := sw\<rparr>"
    "live_space m p \<Longrightarrow> as_root (pg_spaces m p) \<noteq> 0 \<Longrightarrow>
      done \<and> pg_current_space m' = p \<and> pg_cr3 m' AND ENTRY_ADDRESS_MASK = as_root (pg_spaces m p)"
    "\<not> done \<Longrightarrow> m' = m"
    "done \<Longrightarrow> p \<noteq> 0 \<and> as_initialized (pg_spaces m p) \<and> pg_current_space m' = p \<and>
      pg_cr3 m' AND ENTRY_ADDRESS_MASK = as_root (pg_spaces m p)"
proof -
  let ?s = "pg_spaces m p"
  let ?same = "m\<lparr>pg_current_space := p\<rparr>"
    and ?switch = "m\<lparr>pg_cr3 := as_root ?s, pg_current_space := p, pg_switches := pg_switches m + 1\<rparr>"
  have mask: "as_root ?s AND ENTRY_ADDRESS_MASK = as_root ?s" if "address_space_table_pointer (as_root ?s) m \<noteq> None"
  proof -
    have "frame_ok (as_root ?s)"
      using that by (simp add: address_space_table_pointer_def address_space_physical_supported_def
          address_space_page_aligned_def frame_ok_def split: if_splits)
    from frame_ok_flags(1) [OF this, of 0] show ?thesis by simp
  qed
  let ?bad = "\<not> pg_initialized m \<or> p = 0 \<or> \<not> as_initialized ?s \<or> as_root ?s = 0 \<or>
     address_space_table_pointer (as_root ?s) m = None \<or> \<not> address_space_kernel_mappings_valid p m \<or>
     \<not> as_bootstrap ?s \<and> \<not> address_space_owned_contains p (as_root ?s) m"
  have start: "address_space_activate p m =
      (if ?bad then (False, m) else if pg_cr3 m AND ENTRY_ADDRESS_MASK = as_root ?s then (True, ?same) else (True, ?switch))"
    using mask by (auto simp: address_space_activate_def Let_def)
  have same: "?same = m\<lparr>pg_cr3 := pg_cr3 m, pg_current_space := p, pg_switches := pg_switches m\<rparr>"
    "m = m\<lparr>pg_cr3 := pg_cr3 m, pg_current_space := pg_current_space m, pg_switches := pg_switches m\<rparr>" by simp_all
  have "m' \<in> {m, ?same, ?switch}" using run start by (auto split: if_splits)
  then show "\<exists>c cur sw. m' = m\<lparr>pg_cr3 := c, pg_current_space := cur, pg_switches := sw\<rparr>"
    using same by blast
  show "\<not> done \<Longrightarrow> m' = m" using run start by (auto split: if_splits)
  show out: "p \<noteq> 0 \<and> as_initialized ?s \<and> pg_current_space m' = p \<and> pg_cr3 m' AND ENTRY_ADDRESS_MASK = as_root ?s"
    if "done" using that run start mask by (auto split: if_splits)
  assume live: "live_space m p" "as_root ?s \<noteq> 0"
  obtain pos where inv: "space_inv p {} pos m" using ok live by (auto simp: paging_ok_def)
  have "\<not> ?bad"
    using live ok root_pointer [OF inv] space_inv_facts(6) [OF inv]
    by (auto simp: live_space_def paging_ok_def direct_map_def address_space_owned_contains_def owned_tables_def)
  then have "done" using run start by (auto split: if_splits)
  then show "done \<and> pg_current_space m' = p \<and> pg_cr3 m' AND ENTRY_ADDRESS_MASK = as_root ?s" using out by blast
qed

lemma activate_call:
  assumes ok: "paging_ok m" and run: "address_space_activate p m = (done, m')"
  shows "call_ok p m m'"
proof -
  note ac = activate_correct [OF ok run]
  obtain c cur sw where m': "m' = m\<lparr>pg_cr3 := c, pg_current_space := cur, pg_switches := sw\<rparr>" using ac(1) by blast
  have un: "others_untouched 0 {} m m'"
  proof (rule others_untouchedI)
    show "same_access m m'" by (simp add: m' same_access_def)
  qed (use ok in \<open>simp_all add: m' free_frames_def managed_frames_def paging_ok_def direct_map_def\<close>)
  have dead: "\<not> live_space n 0" for n by (simp add: live_space_def)
  have "paging_ok m'" using paging_ok_after [OF un] dead by blast
  moreover have "live_space m q \<Longrightarrow> live_space m' q \<and> same_at q va m m'" for q va
    using untouched(1,4) [OF un] dead by metis
  moreover have "free_frames m' = free_frames m" "managed_frames m' = managed_frames m" "table_frames m' = table_frames m"
    by (simp_all add: m' free_frames_def managed_frames_def table_frames_def live_space_def owned_tables_def)
  moreover have "active_ok m'" if a: "active_ok m"
  proof -
    have sp: "pg_spaces m' = pg_spaces m" "pg_bootstrap_root m' = pg_bootstrap_root m" by (simp_all add: m')
    have "pg_cr3 m' AND ENTRY_ADDRESS_MASK = pg_bootstrap_root m' \<or>
        (\<exists>q. live_space m' q \<and> pg_cr3 m' AND ENTRY_ADDRESS_MASK = as_root (pg_spaces m' q))"
    proof (cases "done")
      case True
      from ac(4) [OF this] have p: "p \<noteq> 0" "as_initialized (pg_spaces m p)"
        "pg_cr3 m' AND ENTRY_ADDRESS_MASK = as_root (pg_spaces m p)" by blast+
      show ?thesis
      proof (cases "as_bootstrap (pg_spaces m p)")
        case True
        then show ?thesis using p a sp by (simp add: active_ok_def)
      next
        case False
        then have "live_space m' p" using p by (simp add: live_space_def sp)
        then show ?thesis using p(3) sp by auto
      qed
    next
      case False
      then show ?thesis using ac(3) a by (simp add: active_ok_def)
    qed
    then show ?thesis using a unfolding active_ok_def sp by blast
  qed
  ultimately show ?thesis unfolding call_ok_def by blast
qed

section \<open>Runs\<close>

lemma call_correct:
  assumes ok: "paging_ok m"
  shows "call_ok (call_space c) m (snd (paging_call c m))"
proof (cases c)
  case (CreateSpace p)
  then show ?thesis using create_call [OF ok, of p] by (cases "address_space_create p m") simp
next
  case (DestroySpace p)
  then show ?thesis using destroy_call [OF ok, of p] by (cases "address_space_destroy p m") simp
next
  case (ActivateSpace p)
  then show ?thesis using activate_call [OF ok, of p] by (cases "address_space_activate p m") simp
next
  case (MapKernelPage p va pa flags)
  obtain d m' where run: "address_space_map_page p va pa flags m = (d, m')" by (metis surj_pair)
  show ?thesis
  proof (cases "live_space m p")
    case True
    then show ?thesis using kernel_map_correct [OF ok True run] kept_call [OF ok True, of m'] MapKernelPage run by auto
  qed (use MapKernelPage dead_calls(2) call_ok_refl [OF ok] in simp)
next
  case (UnmapPage p va)
  obtain d m' where run: "address_space_unmap_page p va m = (d, m')" by (metis surj_pair)
  show ?thesis
  proof (cases "live_space m p")
    case True
    then show ?thesis using unmap_correct [OF ok True run] kept_call [OF ok True, of m'] UnmapPage run by auto
  qed (use UnmapPage dead_calls(3) call_ok_refl [OF ok] in simp)
next
  case (MapUserPage p va pa w x)
  obtain d m' where run: "ring3_user_map_page_permissions p va pa w x m = (d, m')" by (metis surj_pair)
  show ?thesis
  proof (cases "live_space m p")
    case True
    then show ?thesis using user_map_correct [OF ok True run] kept_call [OF ok True, of m'] MapUserPage run by auto
  qed (use MapUserPage dead_calls(1) call_ok_refl [OF ok] in simp)
qed

lemma run_correct:
  assumes "paging_ok m"
  shows "paging_ok (paging_run cs m)" "active_ok m \<Longrightarrow> active_ok (paging_run cs m)"
    "free_frames (paging_run cs m) \<union> table_frames (paging_run cs m) = free_frames m \<union> table_frames m"
    "live_space m q \<Longrightarrow> q \<notin> call_space ` set cs \<Longrightarrow>
      live_space (paging_run cs m) q \<and> same_at q va m (paging_run cs m)"
  using assms
proof (induction cs arbitrary: m)
  case Nil
  { case 1 then show ?case by (simp add: paging_run_def) }
  { case 2 then show ?case by (simp add: paging_run_def) }
  { case 3 then show ?case by (simp add: paging_run_def) }
  { case 4 then show ?case by (simp add: paging_run_def same_at_def) }
next
  case (Cons c cs)
  have step: "paging_run (c # cs) m = paging_run cs (snd (paging_call c m))" for m by (simp add: paging_run_def)
  { case 1 then show ?case using call_correct Cons.IH(1) unfolding step call_ok_def by blast }
  { case 2 then show ?case using call_correct Cons.IH(2) unfolding step call_ok_def by blast }
  { case 3 then show ?case using call_correct Cons.IH(3) unfolding step call_ok_def by metis }
  { case 4
    from call_correct [OF 4(3), of c] 4(1,2) have s: "paging_ok (snd (paging_call c m))" "live_space (snd (paging_call c m)) q"
      "same_at q va m (snd (paging_call c m))" unfolding call_ok_def by auto
    show ?case using Cons.IH(4) [OF s(2) _ s(1)] s(3) 4(2) unfolding step same_at_def by simp }
qed

lemma active_root_not_free:
  assumes "paging_ok m" "active_ok m"
  shows "pg_cr3 m AND ENTRY_ADDRESS_MASK \<notin> free_frames m"
proof (cases "pg_cr3 m AND ENTRY_ADDRESS_MASK = pg_bootstrap_root m")
  case True
  then show ?thesis using assms(1) by (simp add: paging_ok_def kernel_half_def)
next
  case False
  then obtain p where p: "live_space m p" "pg_cr3 m AND ENTRY_ADDRESS_MASK = as_root (pg_spaces m p)"
    using assms(2) by (auto simp: active_ok_def)
  then obtain pos where "space_inv p {} pos m" using assms(1) by (auto simp: paging_ok_def)
  then show ?thesis using space_inv_facts(5,6) p(2) by metis
qed

end
