(* ===== verification/PagingClaims.thy ===== *)
theory PagingClaims
  imports PagingRuns
begin

text \<open>
  The properties of address_space.c and ring3_memory.c, with a machine of eight
  frames as their witness: one address space created after the initialisation.
\<close>

section \<open>A machine\<close>

definition eight_frames :: pmm_state where
  "eight_frames = snd (pmm_init (Some (Some [Some \<lparr>me_base = 4096, me_length = 32768, me_type = 0\<rparr>])))"

definition sample_paging :: paging where
  "sample_paging = \<lparr>
     pg_pmm = eight_frames,
     pg_memory = (\<lambda>f k. if f = 0x100000 \<and> 2048 \<le> k \<and> k mod 8 = 0 then 1 else 0),
     pg_spaces = (\<lambda>_. \<lparr>as_root = 0, as_owned = [], as_bootstrap = False, as_initialized = False\<rparr>),
     pg_cr3 = 0x100000, pg_invalidated = [], pg_nx_enabled = True,
     pg_vmm_stats = Some \<lparr>vs_active_root_physical = 0x100000, vs_hhdm_offset = 0xffff800000000000\<rparr>,
     pg_bootstrap_space = 0, pg_current_space = 0, pg_bootstrap_root = 0, pg_hhdm_offset = 0,
     pg_created = 0, pg_destroyed = 0, pg_switches = 0, pg_initialized = False\<rparr>"

lemma eight_frames_init:
  "pmm_init (Some (Some [Some \<lparr>me_base = 4096, me_length = 32768, me_type = 0\<rparr>])) = (True, eight_frames)"
proof -
  have "fst (pmm_init (Some (Some [Some \<lparr>me_base = 4096, me_length = 32768, me_type = 0\<rparr>])))" by code_simp
  then show ?thesis by (simp add: eight_frames_def prod_eq_iff)
qed

lemma eight_frame_addresses: "set (frame_addresses eight_frames) = {4096, 8192, 12288, 16384, 20480, 24576, 28672, 32768}"
proof -
  let ?map = "[Some \<lparr>me_base = 4096, me_length = 32768, me_type = 0\<rparr>]"
  have "\<not> pmm_memory_map_capped eight_frames" by code_simp
  then have "set (frame_addresses eight_frames) = {x. usable_frame ?map x}"
    using pmm_init_correct [OF eight_frames_init] by blast
  moreover have "usable_frame ?map x \<longleftrightarrow> x \<in> {4096, 8192, 12288, 16384, 20480, 24576, 28672, 32768}" for x
  proof
    assume "usable_frame ?map x"
    then obtain k where k: "x = 4096 * k" "4096 \<le> x" "x + 4096 \<le> 36864"
      by (auto simp: usable_frame_def elim: dvdE)
    then have "k \<in> {1, 2, 3, 4, 5, 6, 7, 8}" by auto
    then show "x \<in> {4096, 8192, 12288, 16384, 20480, 24576, 28672, 32768}" using k(1) by auto
  qed (auto simp: usable_frame_def)
  ultimately show ?thesis by blast
qed

lemma sample_paging_fields:
  "pg_pmm sample_paging = eight_frames" "pg_cr3 sample_paging = 0x100000" "pg_nx_enabled sample_paging"
  "pg_vmm_stats sample_paging = Some \<lparr>vs_active_root_physical = 0x100000, vs_hhdm_offset = 0xffff800000000000\<rparr>"
  "pg_spaces sample_paging p = \<lparr>as_root = 0, as_owned = [], as_bootstrap = False, as_initialized = False\<rparr>"
  "\<not> pg_initialized sample_paging"
  by (simp_all add: sample_paging_def)

lemma sample_frames:
  "pmm_wf (pg_pmm sample_paging)"
  "managed_frames sample_paging = {4096, 8192, 12288, 16384, 20480, 24576, 28672, 32768}"
  "free_frames sample_paging = managed_frames sample_paging"
proof -
  note pmm = pmm_init_correct [OF eight_frames_init]
  show "pmm_wf (pg_pmm sample_paging)" using pmm by (simp only: sample_paging_fields)
  show "free_frames sample_paging = managed_frames sample_paging"
    using pmm by (simp only: free_frames_def managed_frames_def sample_paging_fields)
  have "unat f = n \<longleftrightarrow> f = of_nat n" if "n < 2 ^ 64" for f :: u64 and n
    using that by (auto simp: unat_of_nat take_bit_eq_mod)
  then show "managed_frames sample_paging = {4096, 8192, 12288, 16384, 20480, 24576, 28672, 32768}"
    by (auto simp: managed_frames_def sample_paging_fields eight_frame_addresses)
qed

definition sample_kernel :: paging where
  "sample_kernel = snd (address_space_system_init 16 sample_paging)"

definition sample_machine :: paging where
  "sample_machine = snd (address_space_create 32 sample_kernel)"

lemma sample_entry:
  assumes "256 \<le> i"
  shows "page_entry sample_paging 0x100000 i = 1"
proof -
  have two: "Suc (Suc (8 * i)) mod 8 = 2" by presburger
  have "[8 * i..<8 * i + 8] = map (\<lambda>k. k + 8 * i) [0..<8]" by (subst map_add_upt) (simp add: add.commute)
  also have "[0..<8] = [0, 1, 2, 3, 4, 5, 6, 7 :: nat]" by (simp add: upt_rec)
  finally have "map (pg_memory sample_paging 0x100000) [8 * i..<8 * i + 8] = [1, 0, 0, 0, 0, 0, 0, 0]"
    using assms by (simp add: sample_paging_def two)
  moreover have "load_le64 [1, 0, 0, 0, 0, 0, 0, 0] 0 = 1" by code_simp
  ultimately show ?thesis unfolding page_entry_def by simp
qed

lemma sample_init: "address_space_system_init 16 sample_paging = (True, sample_kernel)"
proof -
  have mask: "(0x100000 :: u64) AND ENTRY_ADDRESS_MASK = 0x100000" "(0x100000 :: u64) AND NOT ENTRY_ADDRESS_MASK = 0"
    "(0xffff800000000000 :: u64) AND 4095 = 0" "(0x100000 :: u64) AND 4095 = 0" by code_simp+
  have ptr: "address_space_canonical 0xffff800000000000" "address_space_canonical 0xffff800000100000"
    "0x100000 \<le> UINT64_MAX - (0xffff800000000000 :: u64)" by code_simp+
  have ent: "page_entry (sample_paging\<lparr>pg_hhdm_offset := h, pg_bootstrap_root := r, pg_spaces := sp\<rparr>) 0x100000 i = 1"
    if "256 \<le> i" for h r sp i
    using sample_entry [OF that] page_entry_memory
      [of "sample_paging\<lparr>pg_hhdm_offset := h, pg_bootstrap_root := r, pg_spaces := sp\<rparr>" sample_paging] by simp
  have "fst (address_space_system_init 16 sample_paging)"
    using ptr ent
    by (simp add: address_space_system_init_def Let_def sample_paging_fields mask address_space_page_aligned_def
      address_space_table_pointer_def address_space_physical_supported_def set_space_def)
  then show ?thesis by (simp add: sample_kernel_def prod_eq_iff)
qed

lemma sample_direct_map:
  assumes "f \<in> managed_frames sample_paging"
  shows "frame_ok f \<and> f \<le> UINT64_MAX - vs_hhdm_offset (the (pg_vmm_stats sample_paging)) \<and>
    drop_bit 48 (vs_hhdm_offset (the (pg_vmm_stats sample_paging)) + f) = 0xffff \<and>
    address_space_canonical (vs_hhdm_offset (the (pg_vmm_stats sample_paging)) + f)"
proof -
  have "list_all (\<lambda>f. frame_ok f \<and> f \<le> UINT64_MAX - 0xffff800000000000 \<and>
      drop_bit 48 (0xffff800000000000 + f) = (0xffff :: u64) \<and> address_space_canonical (0xffff800000000000 + f))
    [4096, 8192, 12288, 16384, 20480, 24576, 28672, 32768]" by code_simp
  then show ?thesis using assms by (auto simp: sample_frames(2) sample_paging_fields)
qed

lemma sample_root_used: "pg_cr3 sample_paging AND ENTRY_ADDRESS_MASK \<notin> free_frames sample_paging"
proof -
  have "pg_cr3 sample_paging AND ENTRY_ADDRESS_MASK = 0x100000" unfolding sample_paging_fields by code_simp
  then show ?thesis by (simp add: sample_frames)
qed

lemma sample_kernel_ok:
  "paging_ok sample_kernel" "active_ok sample_kernel" "\<not> live_space sample_kernel p"
  "free_frames sample_kernel = managed_frames sample_paging" "\<not> as_initialized (pg_spaces sample_kernel 32)"
  "managed_frames sample_kernel = managed_frames sample_paging"
proof -
  note init = system_init_correct [OF sample_init _ sample_frames(1) sample_direct_map sample_root_used, unfolded sample_paging_fields, simplified]
  show "paging_ok sample_kernel" "active_ok sample_kernel" "\<not> live_space sample_kernel p"
    "\<not> as_initialized (pg_spaces sample_kernel 32)" using init by simp_all
  show "managed_frames sample_kernel = managed_frames sample_paging"
    using init(4) by (simp add: managed_frames_def sample_paging_fields)
  show "free_frames sample_kernel = managed_frames sample_paging"
    using init(4) sample_frames(3) by (simp add: free_frames_def sample_paging_fields)
qed

lemma sample_kernel_fields:
  "pg_memory sample_kernel = pg_memory sample_paging" "pg_nx_enabled sample_kernel"
  "pg_cr3 sample_kernel = 0x100000" "pg_bootstrap_root sample_kernel = 0x100000"
proof -
  have dead: "\<not> as_initialized (pg_spaces sample_paging p)" for p by (simp add: sample_paging_fields)
  note init = system_init_correct(6-9) [OF sample_init dead sample_frames(1) sample_direct_map sample_root_used]
  have "(0x100000 :: u64) AND ENTRY_ADDRESS_MASK = 0x100000" by code_simp
  then show "pg_memory sample_kernel = pg_memory sample_paging" "pg_nx_enabled sample_kernel"
    "pg_cr3 sample_kernel = 0x100000" "pg_bootstrap_root sample_kernel = 0x100000"
    using init by (simp_all add: sample_paging_fields)
qed

lemma sample_create: "address_space_create 32 sample_kernel = (True, sample_machine)"
proof -
  obtain d m where run: "address_space_create 32 sample_kernel = (d, m)" by (metis surj_pair)
  have "d" using create_correct(1) [OF sample_kernel_ok(1) run] sample_kernel_ok(4,5) sample_frames(2) by simp
  then show ?thesis using run by (simp add: sample_machine_def)
qed

lemma sample_machine_ok:
  "paging_ok sample_machine" "active_ok sample_machine" "live_space sample_machine 32"
  "address_space_translate 32 va sample_machine = None" "card (free_frames sample_machine) = 7"
  "managed_frames sample_machine = managed_frames sample_paging"
proof -
  note cr = create_correct [OF sample_kernel_ok(1) sample_create]
  show "paging_ok sample_machine" by (rule cr)
  show "active_ok sample_machine"
    using create_call [OF sample_kernel_ok(1) sample_create] sample_kernel_ok(2) by (simp add: call_ok_def)
  show "live_space sample_machine 32" "address_space_translate 32 va sample_machine = None" using cr(5) by blast+
  obtain g where g: "g \<in> free_frames sample_kernel" "free_frames sample_machine = free_frames sample_kernel - {g}"
    using cr(5) by blast
  show "card (free_frames sample_machine) = 7"
    using g unfolding sample_kernel_ok(4) sample_frames(2) by auto
  show "managed_frames sample_machine = managed_frames sample_paging"
    using cr(6) sample_kernel_ok(6) by simp
qed

lemma sample_kernel_half:
  assumes "256 \<le> i" "i < 512"
  shows "page_entry sample_machine (as_root (pg_spaces sample_machine 32)) i = 1"
proof -
  note cr = create_correct [OF sample_kernel_ok(1) sample_create]
  obtain pos where inv: "space_inv 32 {} pos sample_machine" and valid: "address_space_kernel_mappings_valid 32 sample_machine"
    using sample_machine_ok(1,3) by (auto simp: paging_ok_def)
  have half: "direct_map sample_machine" "kernel_half sample_machine" "pg_bootstrap_root sample_kernel \<notin> free_frames sample_kernel"
    using sample_machine_ok(1) sample_kernel_ok(1) by (simp_all add: paging_ok_def kernel_half_def)
  have boot: "pg_bootstrap_root sample_machine = 0x100000" using cr(7) sample_kernel_fields(4) by (simp add: same_access_def)
  have "page_entry sample_machine 0x100000 = page_entry sample_kernel 0x100000"
    using cr(8) half(3) sample_kernel_fields(4) by (intro page_entry_frame) simp
  moreover have "page_entry sample_kernel = page_entry sample_paging" by (rule page_entry_memory [OF sample_kernel_fields(1)])
  ultimately have "page_entry sample_machine 0x100000 i = 1" using sample_entry [OF assms(1)] by simp
  then show ?thesis
    using kernel_valid_iff [OF half(1,2) sample_machine_ok(3) root_pointer [OF inv]] valid assms boot by simp
qed

lemma sample_user_map:
  assumes "canonical_lower va" "va AND 4095 = 0"
  shows "user_map_allowed 32 va 8192 x sample_machine"
proof -
  obtain pos where inv: "space_inv 32 {} pos sample_machine"
    using sample_machine_ok(1,3) by (auto simp: paging_ok_def)
  note empty = nothing_mapped [OF inv sample_machine_ok(4)]
  have i: "table_index va 39 < 256" using va_path_ok [OF assms(1)] by (simp add: va_path_def cell_ok_def)
  have nx: "pg_nx_enabled sample_machine"
    using create_correct(7) [OF sample_kernel_ok(1) sample_create] sample_kernel_fields(2) by (simp add: same_access_def)
  show ?thesis
    using assms sample_machine_ok(3,5,6) sample_frames(2) empty(1) empty(2) [OF i] nx
    by (simp add: user_map_allowed_def va_path_def frames_left_def)
qed

section \<open>Mapping and unmapping\<close>

text \<open>
  C36: Mapping a page for user mode succeeds exactly when the address and the
  frame are in order, the entry of the page is free, the tables on its way are
  user tables and frames are left for those that are missing. It then adds this
  page, with the permissions asked for, to the one address space: every address
  of the page is seen at its place in the frame, and every query of any other
  address or of any other space, by either of the two lookups, answers as before.
  A mapping that fails keeps no frame.
\<close>

theorem user_mapping_exact:
  assumes "paging_ok m" "live_space m p" "ring3_user_map_page_permissions p va pa w x m = (done, m')"
  shows "paging_ok m' \<and> (done \<longleftrightarrow> user_map_allowed p va pa x m) \<and>
    (if done then ring3_user_query_mapping p va m = None
     else free_frames m' = free_frames m \<and> pg_spaces m' = pg_spaces m) \<and>
    (\<forall>q va'. ring3_user_query_mapping q va' m' =
      (if done \<and> q = p \<and> canonical_lower va' \<and> unat va' div 4096 = unat va div 4096
       then Some \<lparr>mi_physical_address = pa + (va' AND 4095), mi_writable = w, mi_executable = x\<rparr>
       else ring3_user_query_mapping q va' m)) \<and>
    (\<forall>q va'. live_space m q \<longrightarrow> address_space_translate q va' m' =
      (if done \<and> q = p \<and> va' = va then Some pa else address_space_translate q va' m))"
proof -
  note map = user_map_correct [OF assms] and views = mapping_views [OF assms]
  obtain pos where inv: "space_inv p {} pos m" using assms(1,2) by (auto simp: paging_ok_def)
  have "ring3_user_query_mapping p va m = None" if "done"
    using map that by (simp add: query_correct [OF inv])
  moreover have "free_frames m' = free_frames m \<and> pg_spaces m' = pg_spaces m" if "\<not> done"
    using map that by (simp add: unchanged_def)
  ultimately show ?thesis using map views by auto
qed

lemma user_mapping_exact_witness:
  "fst (ring3_user_map_page_permissions 32 0x400000 8192 True False sample_machine) \<and>
   ring3_user_query_mapping 32 0x400123 (snd (ring3_user_map_page_permissions 32 0x400000 8192 True False sample_machine)) =
     Some \<lparr>mi_physical_address = 8192 + 0x123, mi_writable = True, mi_executable = False\<rparr>"
proof -
  have va: "canonical_lower 0x400000" "canonical_lower 0x400123" by code_simp+
  obtain d m where run: "ring3_user_map_page_permissions 32 0x400000 8192 True False sample_machine = (d, m)"
    by (metis surj_pair)
  note map = user_mapping_exact [OF sample_machine_ok(1,3) run]
  have "d" using map sample_user_map [where va = "0x400000" and x = False] va(1) by simp
  then show ?thesis using map va(2) run by simp
qed

text \<open>
  C37: Unmapping a page succeeds exactly when the address translates. It then
  removes this page from the one address space, drops the processor's cached
  translation where the space is active, and changes no other query; the frames
  that leave the tables of the space become free.
\<close>

theorem unmapping_exact:
  assumes "paging_ok m" "live_space m p" "address_space_unmap_page p va m = (done, m')"
  shows "paging_ok m' \<and> (done \<longleftrightarrow> address_space_translate p va m \<noteq> None) \<and>
    (if done then address_space_is_active p m \<longrightarrow> pg_invalidated m' = pg_invalidated m @ [va] else m' = m) \<and>
    free_frames m' \<union> owned_tables m' p = free_frames m \<union> owned_tables m p \<and>
    free_frames m' \<inter> owned_tables m' p = {} \<and>
    (\<forall>q va'. ring3_user_query_mapping q va' m' =
      (if done \<and> q = p \<and> unat va' div 4096 = unat va div 4096 then None else ring3_user_query_mapping q va' m)) \<and>
    (\<forall>q va'. live_space m q \<longrightarrow> address_space_translate q va' m' =
      (if done \<and> q = p \<and> va' = va then None else address_space_translate q va' m))"
proof -
  note unmap = unmap_correct [OF assms] and views = unmapping_views [OF assms]
  have "free_frames m' \<union> owned_tables m' p = free_frames m \<union> owned_tables m p"
    using unmap unfolding kept_def by blast
  moreover have "free_frames m' \<inter> owned_tables m' p = {}"
    using unmap unfolding space_inv_def by blast
  ultimately show ?thesis using unmap views by auto
qed

lemma unmapping_exact_witness:
  "fst (address_space_unmap_page 32 0x400000
     (snd (ring3_user_map_page_permissions 32 0x400000 8192 True False sample_machine)))"
proof -
  have va: "canonical_lower 0x400000" by code_simp
  obtain d m where run: "ring3_user_map_page_permissions 32 0x400000 8192 True False sample_machine = (d, m)"
    by (metis surj_pair)
  have "d" using user_map_correct [OF sample_machine_ok(1,3) run] sample_user_map [where va = "0x400000" and x = False] va by simp
  then have t: "address_space_translate 32 0x400000 m = Some 8192" and ok: "paging_ok m" and live: "live_space m 32"
    using mapping_views(1,3) [OF sample_machine_ok(1,3) run] sample_machine_ok(3)
      user_map_correct [OF sample_machine_ok(1,3) run] kept_live by auto
  obtain d' m' where run': "address_space_unmap_page 32 0x400000 m = (d', m')" by (metis surj_pair)
  then show ?thesis using unmapping_exact [OF ok live run'] t run by simp
qed

section \<open>The life of an address space\<close>

text \<open>
  C38: An address space can be created at every unused place while a frame is
  free; it takes one frame, shows nothing to user mode and translates nothing.
  It can be destroyed exactly when it is not active and translates nothing any
  more, and then gives back its last frame. Activation loads its root.
\<close>

theorem address_space_life:
  assumes "paging_ok m"
  shows "(fst (address_space_create p m) \<longleftrightarrow>
      p \<noteq> 0 \<and> \<not> as_initialized (pg_spaces m p) \<and> free_frames m \<noteq> {}) \<and>
    (fst (address_space_create p m) \<longrightarrow> (let m' = snd (address_space_create p m) in
      live_space m' p \<and> (\<forall>va. ring3_user_query_mapping p va m' = None \<and> address_space_translate p va m' = None) \<and>
      (\<exists>g \<in> free_frames m. owned_tables m' p = {g} \<and> free_frames m' = free_frames m - {g}))) \<and>
    (live_space m p \<longrightarrow>
      (fst (address_space_destroy p m) \<longleftrightarrow>
        \<not> address_space_is_active p m \<and> (\<forall>va. address_space_translate p va m = None)) \<and>
      (fst (address_space_destroy p m) \<longrightarrow> (let m' = snd (address_space_destroy p m) in
        \<not> as_initialized (pg_spaces m' p) \<and>
        (\<exists>g. g \<notin> free_frames m \<and> owned_tables m p = {g} \<and> free_frames m' = insert g (free_frames m))))) \<and>
    (live_space m p \<longrightarrow> as_root (pg_spaces m p) \<noteq> 0 \<longrightarrow> (let m' = snd (address_space_activate p m) in
      fst (address_space_activate p m) \<and> address_space_is_active p m' \<and> pg_current_space m' = p))"
proof -
  obtain c m1 where c: "address_space_create p m = (c, m1)" by (metis surj_pair)
  obtain d m2 where d: "address_space_destroy p m = (d, m2)" by (metis surj_pair)
  obtain a m3 where a: "address_space_activate p m = (a, m3)" by (metis surj_pair)
  note cr = create_correct [OF assms c] and de = destroy_correct [OF assms _ d] and ac = activate_correct [OF assms a]
  have "a \<and> address_space_is_active p m3 \<and> pg_current_space m3 = p"
    if "live_space m p" "as_root (pg_spaces m p) \<noteq> 0"
  proof -
    obtain cr3 cur sw where m3: "m3 = m\<lparr>pg_cr3 := cr3, pg_current_space := cur, pg_switches := sw\<rparr>" using ac(1) by blast
    have "pg_initialized m" using assms by (simp add: paging_ok_def direct_map_def)
    then show ?thesis using ac(2) [OF that] that(1) by (simp add: m3 address_space_is_active_def live_space_def)
  qed
  moreover have "\<exists>g. g \<notin> free_frames m \<and> owned_tables m p = {g} \<and> free_frames m2 = insert g (free_frames m)"
    if "live_space m p" "d" using de(5) [OF that] by blast
  moreover have "\<not> as_initialized (pg_spaces m2 p)" if "live_space m p" "d" using de(5) [OF that] by blast
  moreover have "d \<longleftrightarrow> \<not> address_space_is_active p m \<and> (\<forall>va. address_space_translate p va m = None)"
    if "live_space m p" by (rule de(1) [OF that])
  moreover have "live_space m1 p \<and> (\<forall>va. ring3_user_query_mapping p va m1 = None \<and> address_space_translate p va m1 = None) \<and>
      (\<exists>g \<in> free_frames m. owned_tables m1 p = {g} \<and> free_frames m1 = free_frames m - {g})" if "c"
    using cr(5) [OF that] by blast
  ultimately show ?thesis
    unfolding c d a fst_conv snd_conv Let_def by (intro conjI impI cr(1)) simp_all
qed

lemma sample_inactive: "\<not> address_space_is_active 32 sample_machine"
proof -
  note cr = create_correct [OF sample_kernel_ok(1) sample_create]
  have "(0x100000 :: u64) AND ENTRY_ADDRESS_MASK = 0x100000" by code_simp
  then have a: "pg_cr3 sample_machine AND ENTRY_ADDRESS_MASK = 0x100000"
    using create_spaces(4) [OF sample_create] sample_kernel_fields(3) by simp
  obtain pos where "space_inv 32 {} pos sample_machine" using sample_machine_ok(1,3) by (auto simp: paging_ok_def)
  then have "as_root (pg_spaces sample_machine 32) \<in> managed_frames sample_paging"
    using space_inv_facts(5,6) sample_machine_ok(6) by blast
  then have "as_root (pg_spaces sample_machine 32) \<noteq> 0x100000" by (auto simp: sample_frames(2))
  then show ?thesis using a by (simp add: address_space_is_active_def)
qed

lemma address_space_life_witness:
  "fst (address_space_destroy 32 sample_machine) \<and> fst (address_space_create 64 sample_machine) = 
     (\<not> as_initialized (pg_spaces sample_machine 64))"
proof -
  have "free_frames sample_machine \<noteq> {}" using sample_machine_ok(5) by auto
  moreover have "\<not> address_space_is_active 32 sample_machine"
    using sample_inactive .
  ultimately show ?thesis
    using address_space_life [OF sample_machine_ok(1), of 32] address_space_life [OF sample_machine_ok(1), of 64]
      sample_machine_ok(3,4) by simp
qed

section \<open>Runs\<close>

text \<open>
  C39: After a successful initialisation, over any sequence of creations,
  destructions, activations, mappings and unmappings, the table frames of the
  live spaces and the free frames together stay the frames that were free at the
  start, two spaces never share a table, the processor never runs on a frame that
  is free, and no operation on other spaces changes what a space maps.
\<close>

theorem paging_runs_isolated:
  assumes "address_space_system_init b m0 = (True, m)"
    and "\<And>p. \<not> as_initialized (pg_spaces m0 p)" "pmm_wf (pg_pmm m0)"
    and "\<And>f. f \<in> managed_frames m0 \<Longrightarrow> frame_ok f \<and>
      f \<le> UINT64_MAX - vs_hhdm_offset (the (pg_vmm_stats m0)) \<and>
      drop_bit 48 (vs_hhdm_offset (the (pg_vmm_stats m0)) + f) = 0xffff \<and>
      address_space_canonical (vs_hhdm_offset (the (pg_vmm_stats m0)) + f)"
    and "pg_cr3 m0 AND ENTRY_ADDRESS_MASK \<notin> free_frames m0"
  shows "let m' = paging_run cs m; m'' = paging_run ds m' in
    free_frames m' \<union> table_frames m' = free_frames m0 \<and> free_frames m' \<inter> table_frames m' = {} \<and>
    pg_cr3 m' AND ENTRY_ADDRESS_MASK \<notin> free_frames m' \<and>
    (\<forall>p q. live_space m' p \<longrightarrow> live_space m' q \<longrightarrow> p \<noteq> q \<longrightarrow> owned_tables m' p \<inter> owned_tables m' q = {}) \<and>
    (\<forall>q va. live_space m' q \<longrightarrow> q \<notin> call_space ` set ds \<longrightarrow> live_space m'' q \<and> same_at q va m' m'')"
proof -
  note init = system_init_correct [OF assms]
  have ok: "paging_ok (paging_run cs m)" by (rule run_correct(1) [OF init(1)])
  let ?m = "paging_run cs m"
  have start: "table_frames m = {}" "free_frames m = free_frames m0"
    using init(3,4) by (simp_all add: table_frames_def free_frames_def)
  have conserved: "free_frames ?m \<union> table_frames ?m = free_frames m0"
    using run_correct(3) [OF init(1), of cs] start by simp
  have apart: "free_frames ?m \<inter> table_frames ?m = {}"
    using ok unfolding paging_ok_def table_frames_def space_inv_def by blast
  have active: "pg_cr3 ?m AND ENTRY_ADDRESS_MASK \<notin> free_frames ?m"
    by (rule active_root_not_free [OF ok run_correct(2) [OF init(1,2)]])
  have disjoint: "\<forall>p q. live_space ?m p \<longrightarrow> live_space ?m q \<longrightarrow> p \<noteq> q \<longrightarrow> owned_tables ?m p \<inter> owned_tables ?m q = {}"
    using ok unfolding paging_ok_def by blast
  have isolated: "\<forall>q va. live_space ?m q \<longrightarrow> q \<notin> call_space ` set ds \<longrightarrow>
      live_space (paging_run ds ?m) q \<and> same_at q va ?m (paging_run ds ?m)"
    by (intro allI impI run_correct(4) [OF ok])
  show ?thesis unfolding Let_def by (intro conjI conserved apart active disjoint isolated)
qed

lemma paging_runs_isolated_witness:
  "free_frames (paging_run [CreateSpace 32, MapUserPage 32 0x400000 8192 True False] sample_kernel) \<union>
   table_frames (paging_run [CreateSpace 32, MapUserPage 32 0x400000 8192 True False] sample_kernel) =
     {4096, 8192, 12288, 16384, 20480, 24576, 28672, 32768}"
proof -
  have dead: "\<not> as_initialized (pg_spaces sample_paging p)" for p by (simp add: sample_paging_fields)
  note run = paging_runs_isolated [OF sample_init dead sample_frames(1) sample_direct_map sample_root_used,
      of "[CreateSpace 32, MapUserPage 32 0x400000 8192 True False]" "[]", unfolded Let_def, THEN conjunct1]
  show ?thesis by (rule run [unfolded sample_frames(2,3)])
qed

section \<open>The shared upper half\<close>

text \<open>
  The accesses of user mode that the processor grants: through present entries
  with the user bit, down to a page of the last level or a large page above it.
\<close>

fun user_reaches :: "(u64 \<Rightarrow> nat \<Rightarrow> u64) \<Rightarrow> nat \<Rightarrow> u64 \<Rightarrow> nat list \<Rightarrow> bool" where
  "user_reaches E level t [] = False"
| "user_reaches E level t (i # is) = (E t i AND 1 \<noteq> 0 \<and> E t i AND 4 \<noteq> 0 \<and>
     (if level = 0 \<or> level < 3 \<and> E t i AND 0x80 \<noteq> 0 then is = []
      else user_reaches E (level - 1) (E t i AND ENTRY_ADDRESS_MASK) is))"

lemma supervisor_only_sound:
  "shared_table_supervisor_only t level True m \<Longrightarrow> level \<le> 2 \<Longrightarrow> \<forall>i \<in> set path. i < 512 \<Longrightarrow>
    \<not> user_reaches (page_entry m) level t path"
proof (induction path arbitrary: t level)
  case (Cons i path)
  have i: "i \<in> set [0..<512]" using Cons.prems(3) by simp
  show ?case
  proof (cases level)
    case 0
    then show ?thesis using Cons.prems(1) i unfolding 0 shared_table_supervisor_only.simps list_all_iff Let_def by auto
  next
    case (Suc l)
    let ?e = "page_entry m t i"
    have body: "let entry = ?e; next_user_path = (True \<and> entry AND ENTRY_USER \<noteq> 0)
       in if entry AND ENTRY_PRESENT = 0 then True
          else if \<not> next_user_path then True
          else if (Suc l = 2 \<or> Suc l = 1) \<and> entry AND ENTRY_LARGE_PAGE \<noteq> 0 then False
          else case table_pointer (entry AND ENTRY_ADDRESS_MASK) m of
            None \<Rightarrow> False
          | Some child \<Rightarrow> shared_table_supervisor_only child l next_user_path m"
      using bspec [OF Cons.prems(1) [unfolded Suc shared_table_supervisor_only.simps list_all_iff] i] by simp
    have l: "Suc l = 2 \<or> Suc l = 1" using Cons.prems(2) Suc by auto
    have "?e AND 1 = 0 \<or> ?e AND 4 = 0 \<or> (?e AND 0x80 = 0 \<and>
        (case table_pointer (?e AND ENTRY_ADDRESS_MASK) m of None \<Rightarrow> False
         | Some child \<Rightarrow> shared_table_supervisor_only child l True m))"
      using body l by (auto simp: Let_def simp del: shared_table_supervisor_only.simps split: if_splits option.splits)
    moreover have "\<not> user_reaches (page_entry m) l (?e AND ENTRY_ADDRESS_MASK) path"
      if "shared_table_supervisor_only child l True m" "table_pointer (?e AND ENTRY_ADDRESS_MASK) m = Some child" for child
    proof -
      have "child = ?e AND ENTRY_ADDRESS_MASK"
        using that(2) unfolding table_pointer_def by (auto split: if_splits option.splits)
      then show ?thesis using Cons.IH [of child l] that(1) Cons.prems(2,3) Suc by simp
    qed
    ultimately show ?thesis using Suc by (auto split: option.splits)
  qed
qed simp

text \<open>
  C40: Where the check of the shared half succeeds, no address of the upper half
  is reachable from user mode, through pages or large pages of any level; and as
  the half is shared, the check gives the same answer for every address space.
\<close>

theorem shared_half_closed:
  assumes "ring3_shared_higher_half_supervisor_only p m" "256 \<le> i" "\<forall>j \<in> set (i # path). j < 512"
  shows "\<not> user_reaches (page_entry m) 3 (as_root (pg_spaces m p)) (i # path) \<and>
    (\<forall>q. paging_ok m \<longrightarrow> live_space m p \<longrightarrow> live_space m q \<longrightarrow> ring3_shared_higher_half_supervisor_only q m)"
proof -
  let ?step = "\<lambda>root index. let entry = page_entry m root index in
            if entry AND ENTRY_PRESENT = 0 then True
            else if entry AND ENTRY_USER = 0 then True
            else case table_pointer (entry AND ENTRY_ADDRESS_MASK) m of
              None \<Rightarrow> False
            | Some pdpt \<Rightarrow> shared_table_supervisor_only pdpt 2 True m"
  have ptr: "table_pointer (as_root (pg_spaces m p)) m \<noteq> None"
  proof
    assume "table_pointer (as_root (pg_spaces m p)) m = None"
    then have "\<not> ring3_shared_higher_half_supervisor_only p m"
      unfolding ring3_shared_higher_half_supervisor_only_def Let_def by (simp only: option.case if_cancel not_False_eq_True)
    then show False using assms(1) by simp
  qed
  then have root: "table_pointer (as_root (pg_spaces m p)) m = Some (as_root (pg_spaces m p))"
    unfolding table_pointer_def by (auto split: if_splits option.splits)
  have all: "\<forall>j \<in> {256..<512}. ?step (as_root (pg_spaces m p)) j"
    using assms(1) unfolding ring3_shared_higher_half_supervisor_only_def root option.case list_all_iff set_upt Let_def
    by (auto split: if_splits)
  have "?step (as_root (pg_spaces m p)) i" using all assms(2,3) by simp
  then have "\<not> user_reaches (page_entry m) 3 (as_root (pg_spaces m p)) (i # path)"
  proof -
    let ?e = "page_entry m (as_root (pg_spaces m p)) i"
    assume s: "?step (as_root (pg_spaces m p)) i"
    have "\<not> user_reaches (page_entry m) 2 (?e AND ENTRY_ADDRESS_MASK) path" if "?e AND 1 \<noteq> 0" "?e AND 4 \<noteq> 0"
    proof -
      have "case table_pointer (?e AND ENTRY_ADDRESS_MASK) m of None \<Rightarrow> False
          | Some pdpt \<Rightarrow> shared_table_supervisor_only pdpt 2 True m"
        using s that by (simp only: Let_def if_False)
      then obtain t where t: "table_pointer (?e AND ENTRY_ADDRESS_MASK) m = Some t" "shared_table_supervisor_only t 2 True m"
        by (cases "table_pointer (?e AND ENTRY_ADDRESS_MASK) m") auto
      have "t = ?e AND ENTRY_ADDRESS_MASK"
        using t(1) unfolding table_pointer_def by (auto split: if_splits option.splits)
      then show ?thesis using supervisor_only_sound [OF t(2), of path] assms(3) by simp
    qed
    then show ?thesis by (auto simp: numeral_eq_Suc)
  qed
  moreover have "ring3_shared_higher_half_supervisor_only q m"
    if ok: "paging_ok m" and live: "live_space m p" "live_space m q" for q
  proof -
    have inv: "\<exists>pos. space_inv r {} pos m" "address_space_kernel_mappings_valid r m" if "live_space m r" for r
      using ok that by (auto simp: paging_ok_def)
    have k: "direct_map m" "kernel_half m" using ok by (simp_all add: paging_ok_def)
    have same: "page_entry m (as_root (pg_spaces m r)) j = page_entry m (pg_bootstrap_root m) j"
      if "live_space m r" "j \<in> {256..<512}" for r j
      using inv [OF that(1)] kernel_valid_iff [OF k that(1)] root_pointer that(2) by metis
    have "table_pointer (as_root (pg_spaces m q)) m = Some (as_root (pg_spaces m q))"
      using inv(1) [OF live(2)] space_inv_facts(2,5,6) unfolding direct_map_def by blast
    moreover have "\<forall>j \<in> {256..<512}. ?step (as_root (pg_spaces m q)) j"
      using all same [OF live(1)] same [OF live(2)] by simp
    ultimately show ?thesis
      using live(2) inv(2) [OF live(2)]
      unfolding ring3_shared_higher_half_supervisor_only_def list_all_iff set_upt Let_def live_space_def by simp
  qed
  ultimately show ?thesis by blast
qed

lemma shared_half_closed_witness:
  "\<not> user_reaches (page_entry sample_machine) 3 (as_root (pg_spaces sample_machine 32)) [256, 0, 0, 0]"
proof -
  obtain pos where inv: "space_inv 32 {} pos sample_machine"
    using sample_machine_ok(1,3) by (auto simp: paging_ok_def)
  have valid: "address_space_kernel_mappings_valid 32 sample_machine"
    using sample_machine_ok(1,3) by (simp add: paging_ok_def)
  have "table_pointer (as_root (pg_spaces sample_machine 32)) sample_machine = Some (as_root (pg_spaces sample_machine 32))"
    using space_inv_facts(2,5,6) [OF inv] unfolding direct_map_def by blast
  then have "ring3_shared_higher_half_supervisor_only 32 sample_machine"
    using valid sample_machine_ok(3) sample_kernel_half
    unfolding ring3_shared_higher_half_supervisor_only_def list_all_iff set_upt Let_def live_space_def by simp
  from shared_half_closed [OF this, of 256 "[0, 0, 0]"] show ?thesis by simp
qed

end
