(* ===== verification/Spec2Isabelle.thy ===== *)
theory Spec2Isabelle
  imports Volume Pmm HeapProps PtyProps InputProps IpcProps RamfsProps FdProps BfsProps PagingClaims
begin

text \<open>
  BoringOS is a desktop operating system for x86-64 written in C. This
  development models the parts of its kernel that keep state of their own, and
  the on-disk format of its file system, as functions in HOL, and proves what
  makes each of them correct, alone and on top of each other.

  The parts and how they build on each other (paths under src/):

  \<^item> Memory. kernel/core/pmm.c hands out physical frames (theory Pmm). The kernel
    heap, kernel/core/heap.c, is a linked list of blocks over pages mapped one by
    one (Heap, HeapRefine, HeapProps). kernel/arch/x86_64/address_space.c and
    kernel/arch/x86_64/ring3_memory.c keep the page tables of processes in frames
    of the allocator (Paging, Ring3, PageTables and the Paging theories).
  \<^item> Storage. libs/boringfs/codec.c reads and writes the records of a BoringFS
    volume (Codec), libs/boringfs/validate.c checks a whole volume before it is
    trusted (Validate, ValidateReads, ValidateSound, SampleVolume, Volume).
    kernel/core/block_device.c and kernel/core/block_slice.c route transfers to
    drivers (Block, BlockProps), kernel/fs/boringfs_vfs.c runs a mounted volume
    through a cache of one block over them (BfsDisk, Bfs and the other Bfs
    theories; BfsStack puts it on block devices and on the memory disk of
    kernel/core/block_device_test.c).
  \<^item> Files. kernel/core/vfs.c resolves paths over mounted back ends and counts
    references to their nodes (Vfs, VfsRefs, VfsRuns, VfsCalls),
    kernel/core/ramfs.c is a back end in memory (Ramfs and the Ramfs theories),
    kernel/core/fd.c holds the descriptors of a process over files and
    pseudo-terminals (Fd, FdOwned, FdProps).
  \<^item> Communication. kernel/core/pty.c has pseudo-terminals (Pty, PtyProps),
    kernel/core/input.c the queue of keyboard and mouse events (Input,
    InputProps), kernel/core/ipc.c services, connections and messages between
    processes (Ipc, IpcInv, IpcSteps, IpcCalls, IpcClose, IpcTraffic, IpcProps).
    Ring holds the contract of the bounded queues they share.

  Prelude has the machine integers (words of their C width, so that arithmetic
  wraps as in C), the writes through a pointer into a buffer as list operations,
  the C for loop with an early return, and the lemma collections.

  What the lemma groups show.

  \<^item> Interfaces are locales, and each is interpreted on the functions of the
    component that provides it: \<open>ring_queue\<close> by the queues of Pty, Input and Ipc,
    \<open>block_allocator\<close> by the kernel heap, \<open>vfs_backend\<close> by the file systems in
    memory, \<open>block_volume\<close>, \<open>logged_volume\<close> and \<open>stacked_volume\<close> by the slices and the
    memory disk below a BoringFS volume (nothing is asked there of the buffer after a
    read that failed; \<open>torn\<close> is the history that one has left other bytes in it),
    \<open>table_mapper\<close> by the two copies of the code that maps a page. The client's
    lemmas are proved once inside the locale.
  \<^item> Each component has an invariant that every operation keeps, whatever its
    arguments (\<open>pmm_wf\<close> for the frames, \<open>heap_rep\<close> for the heap, the invariants of
    Pty, Input and Ipc, the tree of a file system in memory, the coherence of the block cache as long as no failed read has left other
    bytes in it, \<open>paging_ok\<close> for the page tables).
  \<^item> Operations refine an abstract object: the heap a list of blocks, files lists
    of bytes, directories a map from names to nodes, queues and streams lists,
    counts the multiset of their holders, an address space the map its own
    lookups show. Where the result is exact it is stated on all branches.
  \<^item> A volume that passes the check is a tree whose references are one to one and
    whose blocks have one owner each; every byte of its objects can be read.
  \<^item> The properties of a component are in its theory whose name ends in Props (for
    libs/boringfs in Volume, for the frame allocator in Pmm, for the page tables
    in PagingClaims), each with a witness that applies it to a concrete state.

  How the code corresponds to the definitions.

  \<^item> Definitions have the names of the C functions; a loop body or a branch that
    needs a name of its own is a definition next to the function it belongs to.
    Static variables and structures are records, enumerations datatypes.
  \<^item> A pointer with its length is a list, NULL is \<open>None\<close> (address 0 in the page
    tables). Results through pointers are part of the returned value, so their
    NULL guards have no counterpart; where the old content of such a result is
    checked it is an argument. What a failed call leaves in an output buffer is
    modelled only where something relies on it.
  \<^item> Objects that are shared by address (heap headers, processes, file systems,
    mounted volumes, devices, address spaces) are stores from addresses to
    records. The nodes of a back end are pairs of the object's address and an
    index; descriptor tables are passed and returned.
  \<^item> Physical memory in the page tables maps a frame and an offset to a byte;
    entries are read and written as eight little-endian bytes. A table pointer is
    its frame. The owned table frames are the first cells of their array, the
    tables created during one mapping are listed last first, the cached
    translations that are dropped are recorded in order. The processor's root
    register, the no-execute feature and what vmm_get_stats returns are fields.
  \<^item> Code outside a component is a parameter: the page mapping and the frames of
    the heap, what ipc.c and ramfs.c call elsewhere, the drivers of block
    devices, the read callback of a volume. They are records of functions over a
    machine state, with the documented behaviour as named laws, and the
    properties that need the laws have instances of them as witnesses.
  \<^item> Waking a process is an effect recorded in the state; the interrupt flag is a
    field of the input queue. The writes of diagnostic codes to ports that some
    build flags add are left out.

  Bounds and termination. Loops over fixed ranges are recursions over the list of
  their indices. Where the C code follows pointers with no bound (the heap lists,
  chains of slices) the model is a partial function, and that it returns is part
  of the property; a slice registered on itself is a proved case in which it does
  not. The walk to the root of a file system keeps the 32 steps of the code, which
  the property of it shows to be enough. Page tables have four levels, so no
  walk needs fuel.

  Not modelled, with the reasons: the scheduler, processes and the system call
  layer (they switch stacks in assembly and block in the middle of a function);
  the loader of programs; the first setup of the kernel's own page tables from
  those of the boot loader; device drivers, interrupt entry, the network stack,
  screen output and the parsers of firmware tables (registers, DMA and memory of
  the firmware); mounting a BoringFS volume, which runs the validator over the
  block cache, while the model of the validator reads through a function without
  state; the self tests and the host tools; the programs outside the kernel.
\<close>

end
